(* ===== verification/Legate_Prelude.thy ===== *)
theory Legate_Prelude
  imports Main "HOL-Library.Word" "HOL-Library.Signed_Division"
begin

text \<open>
  Shared vocabulary of the development: the errors the C++ code raises, the result type every
  fallible operation returns, unchecked and checked indexing, insertion and removal in a vector,
  and the arithmetic facts on lists, truncating division and 64-bit words that several components
  use.

  \<^item> \<open>OutOfRange\<close>, \<open>InvalidArgument\<close>, \<open>RuntimeError\<close> and \<open>OverflowError\<close> are the standard exceptions the code throws
    (\<open>TracedException<std::out_of_range>\<close> and so on); \<open>NonInvertible\<close> is
    \<open>NonInvertibleTransformation\<close> of data/detail/transform/non_invertible_transformation.cc;
    \<open>InterferingStore\<close> is \<open>InterferingStoreError\<close> of operation/detail/store_analyzer.h,
    \<open>BadVariantAccess\<close> is \<open>std::bad_variant_access\<close>;
    \<open>CheckFailed\<close> is a failed \<open>LEGATE_CHECK\<close> or \<open>LEGATE_ASSERT\<close>, which aborts the process.
  \<^item> \<open>OutOfBounds\<close> marks an unchecked access outside a container (undefined behaviour of the C++
    program), \<open>DivZero\<close> an integer division by zero, \<open>Diverges\<close> a loop that the fuel of the model
    does not suffice for; no theorem gives such a state a meaning, and the safety and termination
    theorems show it is not reached.
\<close>

section \<open>Errors and results\<close>

datatype error =
    OutOfRange
  | InvalidArgument
  | RuntimeError
  | OverflowError
  | NonInvertible
  | CheckFailed
  | OutOfBounds
  | DivZero
  | Diverges
  | InterferingStore
  | BadVariantAccess

type_synonym 'a result = "error + 'a"

named_theorems result_simps \<open>evaluation of results\<close>
named_theorems vec_simps \<open>insertion, removal and lookup in vectors\<close>

definition rbind :: "'a result \<Rightarrow> ('a \<Rightarrow> 'b result) \<Rightarrow> 'b result" where
  "rbind m f = (case m of Inl e \<Rightarrow> Inl e | Inr x \<Rightarrow> f x)"

definition rguard :: "bool \<Rightarrow> error \<Rightarrow> 'a result \<Rightarrow> 'a result" where
  "rguard b e m = (if b then m else Inl e)"

fun rmapM :: "('a \<Rightarrow> 'b result) \<Rightarrow> 'a list \<Rightarrow> 'b list result" where
  "rmapM f [] = Inr []"
| "rmapM f (x # xs) = rbind (f x) (\<lambda>y. rbind (rmapM f xs) (\<lambda>ys. Inr (y # ys)))"

fun rfoldM :: "('a \<Rightarrow> 's \<Rightarrow> 's result) \<Rightarrow> 'a list \<Rightarrow> 's \<Rightarrow> 's result" where
  "rfoldM f [] s = Inr s"
| "rfoldM f (x # xs) s = rbind (f x s) (rfoldM f xs)"

fun rany :: "('a \<Rightarrow> bool result) \<Rightarrow> 'a list \<Rightarrow> bool result" where
  "rany f [] = Inr False"
| "rany f (x # xs) = rbind (f x) (\<lambda>b. if b then Inr True else rany f xs)"

lemma rbind_Inr [simp, result_simps]: "rbind (Inr x) f = f x"
  by (simp add: rbind_def)

lemma rbind_Inl [simp, result_simps]: "rbind (Inl e) f = Inl e"
  by (simp add: rbind_def)

lemma rbind_assoc: "rbind (rbind m f) g = rbind m (\<lambda>x. rbind (f x) g)"
  by (simp add: rbind_def split: sum.splits)

lemma rbind_eq_Inr: "rbind m f = Inr y \<longleftrightarrow> (\<exists>x. m = Inr x \<and> f x = Inr y)"
  by (auto simp: rbind_def split: sum.splits)

lemma rbind_cong [cong]: "m = m' \<Longrightarrow> (\<And>x. m' = Inr x \<Longrightarrow> f x = g x) \<Longrightarrow> rbind m f = rbind m' g"
  by (auto simp: rbind_def split: sum.splits)

lemma rguard_simps [simp, result_simps]: "rguard True e m = m" "rguard False e m = Inl e"
  by (simp_all add: rguard_def)

lemma rguard_eq_Inr: "rguard b e m = Inr y \<longleftrightarrow> b \<and> m = Inr y"
  by (simp add: rguard_def)

lemma rmapM_Inr: "(\<And>x. x \<in> set xs \<Longrightarrow> f x = Inr (g x)) \<Longrightarrow> rmapM f xs = Inr (map g xs)"
  by (induction xs) auto

lemma rmapM_length: "rmapM f xs = Inr ys \<Longrightarrow> length ys = length xs"
  by (induction xs arbitrary: ys) (auto simp: rbind_eq_Inr)

section \<open>Vectors\<close>

text \<open>
  \<open>vec_insert\<close> and \<open>vec_erase\<close> are the contract of \<open>SmallVector::insert\<close> and
  \<open>SmallVector::erase\<close> at \<open>begin() + i\<close> (with \<open>LEGATE_USE_DEBUG\<close>, where an index outside the
  vector raises \<open>std::out_of_range\<close>). \<open>vec_at\<close> is \<open>at(i)\<close>, \<open>vec_get\<close> the unchecked \<open>operator[]\<close>.
\<close>

definition vec_insert :: "nat \<Rightarrow> 'a \<Rightarrow> 'a list \<Rightarrow> 'a list result" where
  "vec_insert i x xs = (if i \<le> length xs then Inr (take i xs @ x # drop i xs) else Inl OutOfRange)"

definition vec_erase :: "nat \<Rightarrow> 'a list \<Rightarrow> 'a list result" where
  "vec_erase i xs = (if i < length xs then Inr (take i xs @ drop (Suc i) xs) else Inl OutOfRange)"

definition vec_at :: "'a list \<Rightarrow> nat \<Rightarrow> 'a result" where
  "vec_at xs i = (if i < length xs then Inr (xs ! i) else Inl OutOfRange)"

definition vec_get :: "'a list \<Rightarrow> nat \<Rightarrow> 'a result" where
  "vec_get xs i = (if i < length xs then Inr (xs ! i) else Inl OutOfBounds)"

definition vec_set_at :: "nat \<Rightarrow> 'a \<Rightarrow> 'a list \<Rightarrow> 'a list result" where
  "vec_set_at i x xs = (if i < length xs then Inr (xs[i := x]) else Inl OutOfRange)"

definition vec_set :: "nat \<Rightarrow> 'a \<Rightarrow> 'a list \<Rightarrow> 'a list result" where
  "vec_set i x xs = (if i < length xs then Inr (xs[i := x]) else Inl OutOfBounds)"

lemma vec_insert_Inr [simp, vec_simps]:
  "i \<le> length xs \<Longrightarrow> vec_insert i x xs = Inr (take i xs @ x # drop i xs)"
  by (simp add: vec_insert_def)

lemma vec_erase_Inr [simp, vec_simps]:
  "i < length xs \<Longrightarrow> vec_erase i xs = Inr (take i xs @ drop (Suc i) xs)"
  by (simp add: vec_erase_def)

lemma vec_at_Inr [simp, vec_simps]: "i < length xs \<Longrightarrow> vec_at xs i = Inr (xs ! i)"
  by (simp add: vec_at_def)

lemma vec_get_Inr [simp, vec_simps]: "i < length xs \<Longrightarrow> vec_get xs i = Inr (xs ! i)"
  by (simp add: vec_get_def)

lemma vec_set_at_Inr [simp, vec_simps]: "i < length xs \<Longrightarrow> vec_set_at i x xs = Inr (xs[i := x])"
  by (simp add: vec_set_at_def)

lemma vec_set_Inr [simp, vec_simps]: "i < length xs \<Longrightarrow> vec_set i x xs = Inr (xs[i := x])"
  by (simp add: vec_set_def)

lemma vec_insert_eq_Inr:
  "vec_insert i x xs = Inr ys \<longleftrightarrow> i \<le> length xs \<and> ys = take i xs @ x # drop i xs"
  by (auto simp: vec_insert_def)

lemma vec_erase_eq_Inr:
  "vec_erase i xs = Inr ys \<longleftrightarrow> i < length xs \<and> ys = take i xs @ drop (Suc i) xs"
  by (auto simp: vec_erase_def)

lemma vec_set_at_eq_Inr: "vec_set_at i x xs = Inr ys \<longleftrightarrow> i < length xs \<and> ys = xs[i := x]"
  by (auto simp: vec_set_at_def)

lemma vec_set_eq_Inr: "vec_set i x xs = Inr ys \<longleftrightarrow> i < length xs \<and> ys = xs[i := x]"
  by (auto simp: vec_set_def)

lemma vec_get_eq_Inr: "vec_get xs i = Inr y \<longleftrightarrow> i < length xs \<and> y = xs ! i"
  by (auto simp: vec_get_def)

lemma vec_at_eq_Inr: "vec_at xs i = Inr y \<longleftrightarrow> i < length xs \<and> y = xs ! i"
  by (auto simp: vec_at_def)

lemmas vec_eq_Inr =
  rbind_eq_Inr rguard_eq_Inr vec_insert_eq_Inr vec_erase_eq_Inr vec_set_at_eq_Inr vec_set_eq_Inr
  vec_get_eq_Inr vec_at_eq_Inr

text \<open>Inserting at a position and erasing there again, in either order.\<close>

lemma vec_erase_insert: "i \<le> length xs \<Longrightarrow> rbind (vec_insert i x xs) (vec_erase i) = Inr xs"
  by (simp add: vec_erase_def)

lemma vec_insert_erase: "i < length xs \<Longrightarrow> rbind (vec_erase i xs) (vec_insert i (xs ! i)) = Inr xs"
  by (simp add: vec_insert_def id_take_nth_drop [symmetric])

lemma nth_insert:
  assumes "i \<le> length xs" "j \<le> length xs"
  shows "(take i xs @ x # drop i xs) ! j = (if j < i then xs ! j else if j = i then x else xs ! (j - 1))"
proof -
  consider "j < i" | "j = i" | "i < j" by linarith
  then show ?thesis
  proof cases
    case 3
    then obtain k where j: "j = Suc (i + k)" by (auto dest: less_imp_Suc_add)
    with assms show ?thesis by (simp add: nth_append)
  qed (use assms in \<open>simp_all add: nth_append\<close>)
qed

lemma nth_erase:
  assumes "i < length xs" "j < length xs - 1"
  shows "(take i xs @ drop (Suc i) xs) ! j = (if j < i then xs ! j else xs ! Suc j)"
  using assms by (auto simp: nth_append min_def)

lemma rany_Inr: "(\<And>x. x \<in> set xs \<Longrightarrow> f x = Inr (g x)) \<Longrightarrow> rany f xs = Inr (list_ex g xs)"
  by (induction xs) auto

section \<open>Truncating division\<close>

text \<open>C++ division rounds towards zero; \<open>sdiv\<close> and \<open>smod\<close> of the library do, too.\<close>

lemma sdiv_smod_eq: "(a::int) sdiv b * b + a smod b = a"
  by (rule sdiv_mult_smod_eq)

lemma sdiv_nonneg: "0 \<le> (a::int) \<Longrightarrow> 0 < b \<Longrightarrow> a sdiv b = a div b"
  by (simp add: signed_divide_int_def) (auto simp: sgn_if)

lemma smod_nonneg: "0 \<le> (a::int) \<Longrightarrow> 0 < b \<Longrightarrow> a smod b = a mod b"
  by (simp add: smod_mod_positive)

lemma div_mod_mult_add:
  assumes "0 \<le> (r::int)" "r < v"
  shows "(p * v + r) div v = p" "(p * v + r) mod v = r"
proof -
  have "v \<noteq> 0" using assms by simp
  then show "(p * v + r) div v = p" "(p * v + r) mod v = r"
    using assms by (simp_all add: div_pos_pos_trivial mod_pos_pos_trivial)
qed

lemma max_int_diff: "max (int a - int b) 0 = int (a - b)"
  by (simp add: max_def of_nat_diff)

lemma ceil_div_int: "0 < n \<Longrightarrow> (int e + int n - 1) div int n = int ((e + n - 1) div n)"
proof -
  assume "0 < n"
  then have "int e + int n - 1 = int (e + n - 1)" by (simp add: of_nat_diff)
  then show ?thesis by (simp only: zdiv_int)
qed

section \<open>64-bit values\<close>

text \<open>
  \<open>std::uint64_t\<close> and \<open>std::size_t\<close> are 64-bit words. Coordinates (\<open>coord_t\<close>, signed 64 bits) are
  integers: signed overflow is undefined in C++, so the model takes the exact value, and converts
  explicitly where the code casts between the two (\<open>word_of_int\<close> for \<open>static_cast<std::size_t>\<close>,
  \<open>sint\<close> for \<open>static_cast<coord_t>\<close>).
\<close>

type_synonym u64 = "64 word"
type_synonym u32 = "32 word"
type_synonym coord = int

lemma uint_word_of_int_u64: "0 \<le> i \<Longrightarrow> i < 2 ^ 64 \<Longrightarrow> uint (word_of_int i :: u64) = i"
  by (simp add: uint_word_of_int take_bit_int_eq_self)

lemma sint_word_of_int_u64: "- (2 ^ 63) \<le> i \<Longrightarrow> i < 2 ^ 63 \<Longrightarrow> sint (word_of_int i :: u64) = i"
  by (simp add: sint_sbintrunc' signed_take_bit_int_eq_self)

lemma sint_eq_uint_u64: "uint (w :: u64) < 2 ^ 63 \<Longrightarrow> sint w = uint w"
  using sint_word_of_int_u64 [of "uint w"] by (simp add: order_trans [OF _ uint_ge_0])

lemma unat_of_nat_u64: "n < 2 ^ 64 \<Longrightarrow> unat (of_nat n :: u64) = n"
  by (simp add: unat_of_nat take_bit_nat_eq_self)

lemma u64_less_iff: "(a :: u64) < b \<longleftrightarrow> unat a < unat b"
  by (simp add: word_less_nat_alt)

lemma uint_mult_u64: "uint a * uint b < 2 ^ 64 \<Longrightarrow> uint (a * b :: u64) = uint a * uint b"
  by (simp add: uint_word_ariths)

lemma uint_diff_u64: "uint b \<le> uint a \<Longrightarrow> uint (a - b :: u64) = uint a - uint b"
  using uint_sub_lem [of b a] by blast

lemma uint_add_u64: "uint a + uint b < 2 ^ 64 \<Longrightarrow> uint (a + b :: u64) = uint a + uint b"
  by (simp add: uint_word_ariths)

end
