(* ===== verification/Geometry.thy ===== *)
theory Geometry
  imports Legate_Prelude
begin

text \<open>
  Points, domains and their linearisation: utilities/detail/tuple.cc (\<open>to_domain\<close>, \<open>from_domain\<close>),
  utilities/detail/linearize.cc (\<open>linearize\<close>, \<open>delinearize\<close>) and utilities/detail/unravel.inl
  (\<open>Unravel\<close>).

  A \<open>DomainPoint\<close> is the list of its coordinates. A \<open>Domain\<close> stores \<open>rect_data\<close>, the lower
  bounds in positions \<open>[0, dim)\<close> and the upper bounds in \<open>[dim, 2 * dim)\<close>; the record keeps the two
  halves.
\<close>

section \<open>Domains\<close>

record domain =
  dom_lo :: "coord list"
  dom_hi :: "coord list"

definition get_dim :: "domain \<Rightarrow> nat" where
  "get_dim d = length (dom_lo d)"

definition domain_wf :: "domain \<Rightarrow> bool" where
  "domain_wf d \<longleftrightarrow> length (dom_hi d) = length (dom_lo d)"

definition to_domain :: "u64 list \<Rightarrow> domain" where
  "to_domain shape =
     (if shape = [] then \<lparr>dom_lo = [0], dom_hi = [0]\<rparr>
      else \<lparr>dom_lo = map (\<lambda>_. 0) shape, dom_hi = map (\<lambda>e. sint e - 1) shape\<rparr>)"

definition to_maybe_empty_domain :: "u64 list \<Rightarrow> domain" where
  "to_maybe_empty_domain shape =
     (if shape = [] then \<lparr>dom_lo = [], dom_hi = []\<rparr> else to_domain shape)"

definition to_domain_point :: "u64 list \<Rightarrow> coord list" where
  "to_domain_point shape = map sint shape"

definition from_domain :: "domain \<Rightarrow> u64 list" where
  "from_domain d = map2 (\<lambda>l h. word_of_int (h - l + 1)) (dom_lo d) (dom_hi d)"

fun in_box :: "coord list \<Rightarrow> coord list \<Rightarrow> coord list \<Rightarrow> bool" where
  "in_box [] [] [] = True"
| "in_box (l # ls) (h # hs) (p # ps) = (l \<le> p \<and> p \<le> h \<and> in_box ls hs ps)"
| "in_box _ _ _ = False"

definition in_domain :: "domain \<Rightarrow> coord list \<Rightarrow> bool" where
  "in_domain d p = in_box (dom_lo d) (dom_hi d) p"

lemma in_box_length: "in_box ls hs ps \<Longrightarrow> length hs = length ls \<and> length ps = length ls"
  by (induction ls hs ps rule: in_box.induct) auto

lemma in_box_iff:
  "in_box ls hs ps \<longleftrightarrow> length hs = length ls \<and> length ps = length ls \<and>
     (\<forall>i < length ls. ls ! i \<le> ps ! i \<and> ps ! i \<le> hs ! i)"
  by (induction ls hs ps rule: in_box.induct) (auto simp: less_Suc_eq_0_disj)

fun box_volume :: "coord list \<Rightarrow> coord list \<Rightarrow> int" where
  "box_volume (l # ls) (h # hs) = (h - l + 1) * box_volume ls hs"
| "box_volume _ _ = 1"

lemma box_volume_pos: "in_box ls hs ps \<Longrightarrow> 0 < box_volume ls hs"
  by (induction ls hs ps rule: in_box.induct) auto

text \<open>A shape and the domain it denotes.\<close>

lemma from_to_domain:
  assumes "shape \<noteq> []"
  shows "from_domain (to_domain shape) = shape"
  using assms by (simp add: from_domain_def to_domain_def zip_map1 zip_map2 zip_same_conv_map o_def)

section \<open>Linearisation\<close>

fun linearize_fn :: "coord list \<Rightarrow> coord list \<Rightarrow> coord list \<Rightarrow> int \<Rightarrow> int" where
  "linearize_fn (l # ls) (h # hs) (p # ps) idx =
     linearize_fn ls hs ps (idx * (h - l + 1) + p - l)"
| "linearize_fn _ _ _ idx = idx"

definition linearize :: "coord list \<Rightarrow> coord list \<Rightarrow> coord list \<Rightarrow> u64 result" where
  "linearize lo hi point =
     rguard (point \<noteq> []) RuntimeError
       (rguard (length lo = length point \<and> length hi = length point) OutOfBounds
         (Inr (word_of_int (linearize_fn lo hi point 0))))"

fun delinearize_fn :: "coord list \<Rightarrow> coord list \<Rightarrow> int \<Rightarrow> coord list \<times> int" where
  "delinearize_fn (l # ls) (h # hs) idx =
     (let (ps, i) = delinearize_fn ls hs idx; extent = h - l + 1
      in ((i smod extent + l) # ps, i sdiv extent))"
| "delinearize_fn _ _ idx = ([], idx)"

definition delinearize :: "coord list \<Rightarrow> coord list \<Rightarrow> u64 \<Rightarrow> coord list result" where
  "delinearize lo hi idx =
     rguard (lo \<noteq> []) RuntimeError
       (rguard (length hi = length lo) OutOfBounds
         (rguard (list_all2 (\<lambda>l h. h - l + 1 \<noteq> 0) lo hi) DivZero
           (Inr (fst (delinearize_fn lo hi (sint idx))))))"

lemma linearize_fn_acc:
  "length hs = length ls \<Longrightarrow> length ps = length ls \<Longrightarrow>
     linearize_fn ls hs ps idx = idx * box_volume ls hs + linearize_fn ls hs ps 0"
proof (induction ls arbitrary: hs ps idx)
  case (Cons l ls)
  from Cons.prems obtain h hs' p ps' where [simp]: "hs = h # hs'" "ps = p # ps'"
    by (cases hs; cases ps) simp_all
  have eq: "linearize_fn ls hs' ps' i = i * box_volume ls hs' + linearize_fn ls hs' ps' 0" for i
    by (rule Cons.IH) (use Cons.prems in simp_all)
  have a: "linearize_fn (l # ls) hs ps idx
      = (idx * (h - l + 1) + p - l) * box_volume ls hs' + linearize_fn ls hs' ps' 0"
    using eq [of "idx * (h - l + 1) + p - l"] by simp
  have b: "linearize_fn (l # ls) hs ps 0 = (p - l) * box_volume ls hs' + linearize_fn ls hs' ps' 0"
    using eq [of "p - l"] by simp
  show ?case unfolding a b by (simp add: algebra_simps)
qed simp

lemma linearize_fn_bounds:
  assumes "in_box ls hs ps"
  shows "0 \<le> linearize_fn ls hs ps 0 \<and> linearize_fn ls hs ps 0 < box_volume ls hs"
  using assms
proof (induction ls hs ps rule: in_box.induct)
  case (2 l ls h hs p ps)
  then have len: "length hs = length ls" "length ps = length ls"
    by (auto dest: in_box_length)
  let ?v = "box_volume ls hs" and ?r = "linearize_fn ls hs ps 0"
  have r: "0 \<le> ?r" "?r < ?v" using 2 by simp_all
  have eq: "linearize_fn (l # ls) (h # hs) (p # ps) 0 = (p - l) * ?v + ?r"
    using linearize_fn_acc [OF len, of "p - l"] by simp
  have "(p - l) * ?v \<le> (h - l) * ?v" using 2 r by (intro mult_right_mono) auto
  moreover have "0 \<le> (p - l) * ?v" using 2 r by simp
  moreover have "box_volume (l # ls) (h # hs) = (h - l) * ?v + ?v" by (simp add: algebra_simps)
  ultimately show ?case using r unfolding eq by linarith
qed auto

lemma delinearize_fn_linearize_fn:
  assumes "in_box ls hs ps" "0 \<le> k"
  shows "delinearize_fn ls hs (k * box_volume ls hs + linearize_fn ls hs ps 0) = (ps, k)"
  using assms
proof (induction ls hs ps arbitrary: k rule: in_box.induct)
  case (2 l ls h hs p ps)
  then have len: "length hs = length ls" "length ps = length ls" and box: "l \<le> p" "p \<le> h"
    by (auto dest: in_box_length)
  let ?v = "box_volume ls hs" and ?r = "linearize_fn ls hs ps 0" and ?e = "h - l + 1"
  have eq: "k * box_volume (l # ls) (h # hs) + linearize_fn (l # ls) (h # hs) (p # ps) 0
      = (k * ?e + (p - l)) * ?v + ?r"
    using linearize_fn_acc [OF len, of "p - l"] by (simp add: algebra_simps)
  have IH: "delinearize_fn ls hs ((k * ?e + (p - l)) * ?v + ?r) = (ps, k * ?e + (p - l))"
    using 2 by simp
  have e: "0 < ?e" "0 \<le> k * ?e + (p - l)" using box 2(3) by simp_all
  have "(k * ?e + (p - l)) div ?e = k" "(k * ?e + (p - l)) mod ?e = p - l"
    using box e by (simp_all add: div_pos_pos_trivial mod_pos_pos_trivial)
  with e show ?case unfolding eq by (simp add: IH sdiv_nonneg smod_nonneg)
qed auto

lemma delinearize_fn_box:
  assumes "list_all2 (\<lambda>l h. l \<le> h) ls hs" "0 \<le> i"
  shows "\<exists>ps k. delinearize_fn ls hs i = (ps, k) \<and> in_box ls hs ps \<and>
    i = k * box_volume ls hs + linearize_fn ls hs ps 0 \<and> 0 \<le> k"
  using assms
proof (induction ls arbitrary: hs)
  case (Cons l ls)
  then obtain h hs' where [simp]: "hs = h # hs'" and lh: "l \<le> h"
    by (auto simp: list_all2_Cons1)
  with Cons.prems have "list_all2 (\<le>) ls hs'" by simp
  from Cons.IH [OF this Cons.prems(2)] obtain ps k
    where d: "delinearize_fn ls hs' i = (ps, k)" "in_box ls hs' ps" "0 \<le> k"
      and i: "i = k * box_volume ls hs' + linearize_fn ls hs' ps 0"
    by blast
  let ?e = "h - l + 1"
  have e: "0 < ?e" using lh by simp
  let ?p = "k mod ?e + l"
  have p: "l \<le> ?p" "?p \<le> h" using e pos_mod_bound [OF e, of k] by simp_all
  have len: "length hs' = length ls" "length ps = length ls"
    using d(2) by (simp_all add: in_box_length)
  have k: "k = (k div ?e) * ?e + k mod ?e" by (simp only: div_mult_mod_eq)
  have "i = ((k div ?e) * ?e + k mod ?e) * box_volume ls hs' + linearize_fn ls hs' ps 0"
    using i k by simp
  also have "\<dots> = (k div ?e) * box_volume (l # ls) hs
      + ((k mod ?e) * box_volume ls hs' + linearize_fn ls hs' ps 0)"
    by (simp only: \<open>hs = h # hs'\<close> box_volume.simps distrib_right mult.assoc add.assoc)
  also have "(k mod ?e) * box_volume ls hs' + linearize_fn ls hs' ps 0
      = linearize_fn (l # ls) hs (?p # ps) 0"
    using linearize_fn_acc [OF len, of "k mod ?e"] by simp
  finally have "i = (k div ?e) * box_volume (l # ls) hs + linearize_fn (l # ls) hs (?p # ps) 0" .
  moreover have "delinearize_fn (l # ls) hs i = (?p # ps, k div ?e)"
    using d e by (simp add: sdiv_nonneg smod_nonneg Let_def)
  moreover have "in_box (l # ls) hs (?p # ps)" using d p by simp
  moreover have "0 \<le> k div ?e" using d e by (simp add: pos_imp_zdiv_nonneg_iff)
  ultimately show ?case by blast
qed simp

text \<open>The two functions of the library are inverse to each other on a domain.\<close>

definition box_nonempty :: "coord list \<Rightarrow> coord list \<Rightarrow> bool" where
  "box_nonempty lo hi \<longleftrightarrow> list_all2 (\<le>) lo hi"

text \<open>\<open>Domain::get_volume\<close>, a \<open>size_t\<close>.\<close>

definition domain_volume :: "domain \<Rightarrow> u64" where
  "domain_volume d =
     (if box_nonempty (dom_lo d) (dom_hi d) then word_of_int (box_volume (dom_lo d) (dom_hi d)) else 0)"

lemma box_nonempty_volume: "box_nonempty lo hi \<Longrightarrow> 0 < box_volume lo hi"
  unfolding box_nonempty_def by (induction lo hi rule: list_all2_induct) auto

lemma box_nonempty_extents: "box_nonempty lo hi \<Longrightarrow> list_all2 (\<lambda>l h. h - l + 1 \<noteq> 0) lo hi"
  unfolding box_nonempty_def by (erule list_all2_mono) simp

lemma in_box_nonempty: "in_box lo hi p \<Longrightarrow> box_nonempty lo hi"
  unfolding box_nonempty_def by (induction lo hi p rule: in_box.induct) auto

lemma linearize_in_box:
  assumes "in_box lo hi p" "p \<noteq> []"
  shows "linearize lo hi p = Inr (word_of_int (linearize_fn lo hi p 0))"
  using assms in_box_length [OF assms(1)] by (simp add: linearize_def)

lemma delinearize_nonempty:
  assumes "box_nonempty lo hi" "lo \<noteq> []"
  shows "delinearize lo hi idx = Inr (fst (delinearize_fn lo hi (sint idx)))"
  using assms box_nonempty_extents [OF assms(1)]
  by (simp add: delinearize_def box_nonempty_def list_all2_lengthD)

lemma linearize_roundtrip_aux:
  assumes box: "in_box lo hi p" and ne: "p \<noteq> []" and vol: "box_volume lo hi < 2 ^ 63"
  shows "\<exists>idx. linearize lo hi p = Inr idx \<and> uint idx = linearize_fn lo hi p 0 \<and>
    delinearize lo hi idx = Inr p"
proof -
  let ?i = "linearize_fn lo hi p 0"
  have i: "0 \<le> ?i" "?i < 2 ^ 63" using linearize_fn_bounds [OF box] vol by auto
  then have s: "sint (word_of_int ?i :: u64) = ?i" by (intro sint_word_of_int_u64) auto
  have "lo \<noteq> []" using in_box_length [OF box] ne by auto
  then have "delinearize lo hi (word_of_int ?i) = Inr (fst (delinearize_fn lo hi ?i))"
    using delinearize_nonempty [OF in_box_nonempty [OF box]] s by simp
  also have "\<dots> = Inr p" using delinearize_fn_linearize_fn [OF box, of 0] by simp
  finally show ?thesis
    using linearize_in_box [OF box ne] i by (simp add: uint_word_of_int_u64)
qed

lemma delinearize_roundtrip_aux:
  assumes ne: "box_nonempty lo hi" "lo \<noteq> []" and vol: "box_volume lo hi < 2 ^ 63"
    and idx: "uint (idx :: u64) < box_volume lo hi"
  shows "\<exists>p. delinearize lo hi idx = Inr p \<and> in_box lo hi p \<and> linearize lo hi p = Inr idx"
proof -
  have s: "sint idx = uint idx" using idx vol by (intro sint_eq_uint_u64) simp
  obtain ps k where d: "delinearize_fn lo hi (uint idx) = (ps, k)" "in_box lo hi ps" "0 \<le> k"
    and i: "uint idx = k * box_volume lo hi + linearize_fn lo hi ps 0"
    using delinearize_fn_box [of lo hi "uint idx"] ne(1) unfolding box_nonempty_def by auto
  have b: "0 \<le> linearize_fn lo hi ps 0" using linearize_fn_bounds [OF d(2)] by simp
  have "k = 0"
  proof (rule ccontr)
    assume "k \<noteq> 0"
    then have "1 * box_volume lo hi \<le> k * box_volume lo hi"
      using d(3) box_nonempty_volume [OF ne(1)] by (intro mult_right_mono) auto
    then show False using i b idx by simp
  qed
  with i have "word_of_int (linearize_fn lo hi ps 0) = idx" by (metis add_0 mult_zero_left word_of_int_uint)
  moreover have "ps \<noteq> []" using in_box_length [OF d(2)] ne(2) by auto
  ultimately show ?thesis
    using d linearize_in_box [OF d(2)] delinearize_nonempty [OF ne] s by simp
qed

section \<open>Unravel\<close>

text \<open>
  \<open>Unravel\<close> precomputes the strides of a rectangle; the slot of the innermost dimension, whose
  stride would be 1, holds the volume. \<open>operator()\<close> peels the coordinates from the outermost
  dimension, where \<open>delinearize\<close> works from the innermost one.
\<close>

record unravel =
  unr_low :: "coord list"
  unr_strides :: "u64 list"

fun unravel_strides :: "coord list \<Rightarrow> coord list \<Rightarrow> u64 list \<times> u64" where
  "unravel_strides (l # ls) (h # hs) =
     (let (ss, stride) = unravel_strides ls hs
      in (stride # ss, stride * word_of_int (max (h - l + 1) 0)))"
| "unravel_strides _ _ = ([], 1)"

definition mk_unravel :: "coord list \<Rightarrow> coord list \<Rightarrow> unravel" where
  "mk_unravel lo hi =
     (let (ss, stride) = unravel_strides lo hi
      in \<lparr>unr_low = lo, unr_strides = ss[length ss - 1 := stride]\<rparr>)"

definition unravel_volume :: "unravel \<Rightarrow> u64" where
  "unravel_volume u = last (unr_strides u)"

definition unravel_empty :: "unravel \<Rightarrow> bool" where
  "unravel_empty u \<longleftrightarrow> unravel_volume u = 0"

fun unravel_point :: "coord list \<Rightarrow> u64 list \<Rightarrow> u64 \<Rightarrow> coord list" where
  "unravel_point [l] [s] index = [sint (word_of_int l + index)]"
| "unravel_point (l # ls) (s # ss) index =
     sint (word_of_int l + index div s) # unravel_point ls ss (index mod s)"
| "unravel_point _ _ _ = []"

definition unravel_apply :: "unravel \<Rightarrow> u64 \<Rightarrow> coord list result" where
  "unravel_apply u index =
     rguard (list_all (\<lambda>s. s \<noteq> 0) (butlast (unr_strides u))) DivZero
       (Inr (unravel_point (unr_low u) (unr_strides u) index))"

definition in_i64 :: "int \<Rightarrow> bool" where
  "in_i64 i \<longleftrightarrow> - (2 ^ 63) \<le> i \<and> i < 2 ^ 63"

lemma unravel_strides_volume:
  assumes "box_nonempty lo hi" "box_volume lo hi < 2 ^ 63"
  shows "uint (snd (unravel_strides lo hi)) = box_volume lo hi"
  using assms
proof (induction lo hi rule: unravel_strides.induct)
  case (1 l ls h hs)
  then have ne: "box_nonempty ls hs" and lh: "l \<le> h" by (simp_all add: box_nonempty_def)
  have v: "0 < box_volume ls hs" by (rule box_nonempty_volume [OF ne])
  have e: "1 \<le> h - l + 1" using lh by simp
  have p: "(h - l + 1) * box_volume ls hs < 2 ^ 63" using 1(3) by simp
  have "1 * box_volume ls hs \<le> (h - l + 1) * box_volume ls hs"
    using e v by (intro mult_right_mono) auto
  then have small: "box_volume ls hs < 2 ^ 63" using p by simp
  have "(h - l + 1) * 1 \<le> (h - l + 1) * box_volume ls hs"
    using e v by (intro mult_left_mono) auto
  then have es: "h - l + 1 < 2 ^ 63" using p by simp
  obtain ss st where u: "unravel_strides ls hs = (ss, st)" by fastforce
  have st: "uint st = box_volume ls hs" using 1(1) ne small u by simp
  have w: "uint (word_of_int (h - l + 1) :: u64) = h - l + 1"
    using e es by (intro uint_word_of_int_u64) auto
  have "uint (st * word_of_int (h - l + 1)) = uint st * (h - l + 1)"
    using p st w by (subst uint_mult_u64) (simp_all add: mult.commute)
  with st lh u show ?case by (simp add: max_def mult.commute)
qed simp_all

lemma unravel_strides_length: "length hi = length lo \<Longrightarrow> length (fst (unravel_strides lo hi)) = length lo"
  by (induction lo hi rule: unravel_strides.induct) (auto split: prod.splits)

lemma unravel_point_last:
  "length ss = length ls \<Longrightarrow> unravel_point ls (ss[length ss - 1 := x]) i = unravel_point ls ss i"
proof (induction ss ls arbitrary: i rule: list_induct2)
  case (Cons s ss l ls)
  show ?case
  proof (cases ss)
    case Nil
    with Cons.hyps show ?thesis by simp
  next
    case (Cons s' ss')
    then obtain l' ls' where "ls = l' # ls'" using Cons.hyps by (cases ls) simp_all
    with Cons Cons.IH show ?thesis by simp
  qed
qed simp

lemma unravel_point_linearize:
  assumes "in_box ls hs ps" "box_volume ls hs < 2 ^ 63" "ls \<noteq> []" "list_all in_i64 ls" "list_all in_i64 ps"
  shows "unravel_point ls (fst (unravel_strides ls hs)) (word_of_int (linearize_fn ls hs ps 0)) = ps"
  using assms
proof (induction ls hs ps rule: in_box.induct)
  case (2 l ls h hs p ps)
  then have len: "length hs = length ls" "length ps = length ls" and box: "in_box ls hs ps"
    and lp: "l \<le> p" "p \<le> h"
    by (auto dest: in_box_length)
  let ?v = "box_volume ls hs" and ?r = "linearize_fn ls hs ps 0"
  have r: "0 \<le> ?r" "?r < ?v" using linearize_fn_bounds [OF box] by auto
  have lin: "linearize_fn (l # ls) (h # hs) (p # ps) 0 = (p - l) * ?v + ?r"
    using linearize_fn_acc [OF len, of "p - l"] by simp
  have tot: "0 \<le> (p - l) * ?v + ?r" "(p - l) * ?v + ?r < 2 ^ 63"
    using linearize_fn_bounds [OF 2(2)] 2(3) unfolding lin by linarith+
  have pc: "sint (word_of_int p :: u64) = p" using 2(6) by (intro sint_word_of_int_u64) (auto simp: in_i64_def)
  show ?case
  proof (cases ls)
    case Nil
    then have "hs = []" "ps = []" using len by simp_all
    with Nil pc show ?thesis by simp
  next
    case (Cons l' ls')
    obtain ss st where u: "unravel_strides ls hs = (ss, st)" by fastforce
    have lss: "length ss = length ls" using unravel_strides_length [OF len(1)] u by simp
    then obtain s' ss' where ss: "ss = s' # ss'" using Cons by (cases ss) simp_all
    have small: "?v < 2 ^ 63"
    proof -
      have "1 * ?v \<le> (h - l + 1) * ?v" using lp box_volume_pos [OF box] by (intro mult_right_mono) auto
      then show ?thesis using 2(3) by simp
    qed
    have st: "uint st = ?v"
      using unravel_strides_volume [OF in_box_nonempty [OF box] small] u by simp
    let ?w = "word_of_int ((p - l) * ?v + ?r) :: u64"
    have w: "uint ?w = (p - l) * ?v + ?r" using tot by (intro uint_word_of_int_u64) auto
    have "uint (?w div st) = p - l" using w st r by (simp add: uint_div_distrib div_pos_pos_trivial)
    then have d: "word_of_int l + ?w div st = word_of_int p"
      by (metis diff_add_cancel add.commute wi_hom_add word_of_int_uint)
    have "uint (?w mod st) = ?r" using w st r by (simp add: uint_mod_distrib)
    then have m: "?w mod st = word_of_int ?r" by (metis word_of_int_uint)
    have IH: "unravel_point ls ss (word_of_int ?r) = ps"
      using 2(1) box small Cons 2(5,6) u by simp
    have "unravel_point (l # ls) (st # ss) ?w = sint (word_of_int l + ?w div st) # unravel_point ls ss (?w mod st)"
      using Cons ss by simp
    also have "\<dots> = p # ps" unfolding d m IH pc ..
    finally show ?thesis using u lin by simp
  qed
qed auto

lemma unravel_strides_nonzero:
  assumes "box_nonempty lo hi" "box_volume lo hi < 2 ^ 63"
  shows "list_all (\<lambda>s. s \<noteq> 0) (fst (unravel_strides lo hi))"
  using assms
proof (induction lo hi rule: unravel_strides.induct)
  case (1 l ls h hs)
  then have ne: "box_nonempty ls hs" and lh: "l \<le> h" by (simp_all add: box_nonempty_def)
  have "1 * box_volume ls hs \<le> (h - l + 1) * box_volume ls hs"
    using lh box_volume_pos box_nonempty_volume [OF ne] by (intro mult_right_mono) auto
  then have small: "box_volume ls hs < 2 ^ 63" using 1(3) by simp
  have "uint (snd (unravel_strides ls hs)) = box_volume ls hs"
    by (rule unravel_strides_volume [OF ne small])
  then have "snd (unravel_strides ls hs) \<noteq> 0" using box_nonempty_volume [OF ne] by auto
  with 1(1) ne small show ?case by (auto split: prod.splits)
qed simp_all

lemma unravel_apply_linearize:
  assumes box: "in_box lo hi p" and ne: "p \<noteq> []" and vol: "box_volume lo hi < 2 ^ 63"
    and i64: "list_all in_i64 lo" "list_all in_i64 p"
  shows "unravel_apply (mk_unravel lo hi) (word_of_int (linearize_fn lo hi p 0)) = Inr p"
proof -
  obtain ss st where u: "unravel_strides lo hi = (ss, st)" by fastforce
  have len: "length hi = length lo" "length p = length lo" using in_box_length [OF box] by auto
  have lss: "length ss = length lo" using unravel_strides_length [OF len(1)] u by simp
  have lo: "lo \<noteq> []" using len ne by auto
  have nz: "list_all (\<lambda>s. s \<noteq> 0) ss"
    using unravel_strides_nonzero [OF in_box_nonempty [OF box] vol] u by simp
  have bl: "butlast (ss[length ss - 1 := st]) = butlast ss"
    by (cases ss rule: rev_cases) (simp_all add: list_update_append)
  have "list_all (\<lambda>s. s \<noteq> 0) (butlast ss)"
    using nz by (auto simp: list_all_iff dest: in_set_butlastD)
  moreover have "unravel_point lo ss (word_of_int (linearize_fn lo hi p 0)) = p"
    using unravel_point_linearize [OF box vol lo i64] u by simp
  ultimately show ?thesis
    using u bl unravel_point_last [OF lss] by (simp add: unravel_apply_def mk_unravel_def)
qed

lemma in_box_in_i64:
  "in_box lo hi p \<Longrightarrow> list_all in_i64 lo \<Longrightarrow> list_all in_i64 hi \<Longrightarrow> list_all in_i64 p"
  by (induction lo hi p rule: in_box.induct) (auto simp: in_i64_def)

section \<open>Properties\<close>

text \<open>On a non-empty domain of fewer than 2^63 points, \<open>linearize\<close> and \<open>delinearize\<close> are
  inverse bijections between the points of the domain and the indices below its volume; neither
  direction fails.\<close>

theorem linearize_delinearize_bijection:
  assumes "box_nonempty lo hi" "lo \<noteq> []" "box_volume lo hi < 2 ^ 63"
  shows "(in_box lo hi p \<longrightarrow>
      (\<exists>idx. linearize lo hi p = Inr idx \<and> uint idx < box_volume lo hi \<and>
        delinearize lo hi idx = Inr p)) \<and>
    (uint idx < box_volume lo hi \<longrightarrow>
      (\<exists>q. delinearize lo hi idx = Inr q \<and> in_box lo hi q \<and> linearize lo hi q = Inr idx))"
proof (intro conjI impI)
  assume box: "in_box lo hi p"
  then have "p \<noteq> []" using assms(2) by (auto dest: in_box_length)
  with box linearize_roundtrip_aux [OF box _ assms(3)] linearize_fn_bounds [OF box]
  show "\<exists>idx. linearize lo hi p = Inr idx \<and> uint idx < box_volume lo hi \<and>
      delinearize lo hi idx = Inr p" by auto
qed (use delinearize_roundtrip_aux assms in blast)

theorem linearize_delinearize_bijection_witness:
  "\<exists>q. delinearize [1, -2] [3, 4] 17 = Inr q \<and> in_box [1, -2] [3, 4] q \<and>
    linearize [1, -2] [3, 4] q = Inr 17"
  using linearize_delinearize_bijection [of "[1, -2]" "[3, 4]" _ 17]
  by (simp add: box_nonempty_def)

text \<open>\<open>Unravel\<close>, the strided conversion used by the device kernels, computes the same point as
  the division loop of \<open>delinearize\<close> for every index below the volume, and its \<open>volume()\<close> is the
  volume of the rectangle.\<close>

theorem unravel_eq_delinearize:
  assumes "box_nonempty lo hi" "lo \<noteq> []" "box_volume lo hi < 2 ^ 63"
    and "list_all in_i64 lo" "list_all in_i64 hi" and "uint idx < box_volume lo hi"
  shows "unravel_apply (mk_unravel lo hi) idx = delinearize lo hi idx \<and>
    uint (unravel_volume (mk_unravel lo hi)) = box_volume lo hi"
proof
  obtain q where q: "delinearize lo hi idx = Inr q" "in_box lo hi q" "linearize lo hi q = Inr idx"
    using delinearize_roundtrip_aux [OF assms(1-3,6)] by blast
  have ne: "q \<noteq> []" using in_box_length [OF q(2)] assms(2) by auto
  have "idx = word_of_int (linearize_fn lo hi q 0)"
    using q(3) linearize_in_box [OF q(2) ne] by simp
  then show "unravel_apply (mk_unravel lo hi) idx = delinearize lo hi idx"
    using unravel_apply_linearize [OF q(2) ne assms(3,4) in_box_in_i64 [OF q(2) assms(4,5)]] q(1)
    by simp
next
  obtain ss st where u: "unravel_strides lo hi = (ss, st)" by fastforce
  have "length ss = length lo"
    using unravel_strides_length [of hi lo] u assms(1) by (simp add: box_nonempty_def list_all2_lengthD)
  then have "ss \<noteq> []" using assms(2) by auto
  then have "last (ss[length ss - 1 := st]) = st" by (simp add: last_list_update)
  then show "uint (unravel_volume (mk_unravel lo hi)) = box_volume lo hi"
    using unravel_strides_volume [OF assms(1,3)] u by (simp add: unravel_volume_def mk_unravel_def)
qed

theorem unravel_eq_delinearize_witness:
  "unravel_apply (mk_unravel [1, -2, 0] [3, 4, 1]) 29 = delinearize [1, -2, 0] [3, 4, 1] 29 \<and>
    uint (unravel_volume (mk_unravel [1, -2, 0] [3, 4, 1])) = 42"
  using unravel_eq_delinearize [of "[1, -2, 0]" "[3, 4, 1]" 29]
  by (simp add: box_nonempty_def in_i64_def)

end
