(* ===== verification/Symbolic.thy ===== *)
theory Symbolic
  imports Geometry
begin

text \<open>
  Symbolic points and the projection functors built from them: operation/projection.h and .inl
  (\<open>SymbolicExpr\<close>), runtime/detail/projection.cc (\<open>create_symbolic_point\<close>, \<open>is_identity\<close>,
  \<open>AffineProjection\<close>, \<open>DelinearizingProjection\<close>, \<open>CompoundProjection\<close>,
  \<open>LinearizingPointTransformFunctor\<close>).

  The arithmetic of \<open>Legion::Transform\<close> and \<open>Legion::Point\<close> and the enumeration of a
  \<open>Legion::Domain\<close> are Legion's: they are parameters of the definitions that call them (the record
  \<open>legion_ops\<close> and the function \<open>domain_points\<close>), and the locales \<open>legion_matrix\<close> and
  \<open>legion_iterator\<close> state what Legion documents of them.
\<close>

section \<open>Symbolic expressions\<close>

record symbolic_expr =
  se_dim :: nat
  se_weight :: int
  se_offset :: int

definition UNSET :: nat where
  "UNSET = 2 ^ 32 - 1"

definition symbolic_expr_default :: symbolic_expr where
  "symbolic_expr_default = \<lparr>se_dim = UNSET, se_weight = 1, se_offset = 0\<rparr>"

definition dimension :: "nat \<Rightarrow> symbolic_expr" where
  "dimension d = \<lparr>se_dim = d, se_weight = 1, se_offset = 0\<rparr>"

definition se_constant :: "int \<Rightarrow> symbolic_expr" where
  "se_constant v = \<lparr>se_dim = UNSET, se_weight = 0, se_offset = v\<rparr>"

definition se_is_identity :: "nat \<Rightarrow> symbolic_expr \<Rightarrow> bool" where
  "se_is_identity d e \<longleftrightarrow> se_dim e = d \<and> se_weight e = 1 \<and> se_offset e = 0"

definition se_is_constant :: "symbolic_expr \<Rightarrow> bool" where
  "se_is_constant e \<longleftrightarrow> se_dim e = UNSET"

definition se_less :: "symbolic_expr \<Rightarrow> symbolic_expr \<Rightarrow> bool" where
  "se_less a b \<longleftrightarrow>
     (if se_dim a \<noteq> se_dim b then se_dim a < se_dim b
      else if se_weight a \<noteq> se_weight b then se_weight a < se_weight b
      else se_offset a < se_offset b)"

definition se_mult :: "symbolic_expr \<Rightarrow> int \<Rightarrow> symbolic_expr" where
  "se_mult e k = \<lparr>se_dim = se_dim e, se_weight = se_weight e * k, se_offset = se_offset e * k\<rparr>"

definition se_plus :: "symbolic_expr \<Rightarrow> int \<Rightarrow> symbolic_expr" where
  "se_plus e k = \<lparr>se_dim = se_dim e, se_weight = se_weight e, se_offset = se_offset e + k\<rparr>"

type_synonym symbolic_point = "symbolic_expr list"

definition create_symbolic_point :: "nat \<Rightarrow> symbolic_point" where
  "create_symbolic_point ndim = map dimension [0..<ndim]"

definition sp_is_identity :: "nat \<Rightarrow> symbolic_point \<Rightarrow> bool" where
  "sp_is_identity src_ndim point \<longleftrightarrow>
     src_ndim = length point \<and> list_all (\<lambda>d. se_is_identity d (point ! d)) [0..<length point]"

text \<open>The coordinate a symbolic expression denotes, and the mapping a symbolic point denotes
  (the documentation of the class: \<open>w * dim_i + c\<close>, or the constant \<open>c\<close>).\<close>

definition se_eval :: "coord list \<Rightarrow> symbolic_expr \<Rightarrow> coord" where
  "se_eval p e =
     (if se_is_constant e then se_offset e else se_weight e * p ! se_dim e + se_offset e)"

definition sp_eval :: "symbolic_point \<Rightarrow> coord list \<Rightarrow> coord list" where
  "sp_eval sp p = map (se_eval p) sp"

definition sp_wf :: "nat \<Rightarrow> symbolic_point \<Rightarrow> bool" where
  "sp_wf src_ndim sp \<longleftrightarrow>
     src_ndim \<le> UNSET \<and> (\<forall>e \<in> set sp. \<not> se_is_constant e \<longrightarrow> se_dim e < src_ndim)"

lemma se_is_constant_simps [simp]:
  "se_is_constant (se_constant v)" "se_is_constant symbolic_expr_default"
  "se_is_constant (dimension d) \<longleftrightarrow> d = UNSET"
  by (simp_all add: se_is_constant_def se_constant_def symbolic_expr_default_def dimension_def)

lemma se_eval_simps [simp]:
  "se_eval p (se_constant v) = v" "se_eval p symbolic_expr_default = 0"
  "d \<noteq> UNSET \<Longrightarrow> se_eval p (dimension d) = p ! d"
  by (simp_all add: se_eval_def)
     (simp_all add: se_constant_def symbolic_expr_default_def dimension_def)

lemma sp_eval_length [simp]: "length (sp_eval sp p) = length sp"
  by (simp add: sp_eval_def)

lemma create_symbolic_point_identity:
  "sp_is_identity ndim (create_symbolic_point ndim)"
  by (simp add: sp_is_identity_def create_symbolic_point_def se_is_identity_def dimension_def
      list_all_iff)

lemma sp_is_identity_eval:
  assumes "sp_is_identity (length p) sp" "length p \<le> UNSET"
  shows "sp_eval sp p = p"
proof (rule nth_equalityI)
  show "length (sp_eval sp p) = length p" using assms by (simp add: sp_is_identity_def)
  fix i assume "i < length (sp_eval sp p)"
  with assms have "i < length p" "se_is_identity i (sp ! i)" "i < length sp"
    by (auto simp: sp_is_identity_def list_all_iff)
  then show "sp_eval sp p ! i = p ! i" using assms(2)
    by (auto simp: sp_eval_def se_eval_def se_is_identity_def se_is_constant_def)
qed

section \<open>Affine projections\<close>

text \<open>A \<open>Legion::Transform\<close> is the list of its rows.\<close>

type_synonym matrix = "int list list"

definition create_transform :: "nat \<Rightarrow> symbolic_point \<Rightarrow> matrix" where
  "create_transform src_ndim point =
     map (\<lambda>e. let row = replicate src_ndim 0
              in if se_is_constant e then row else row[se_dim e := se_weight e]) point"

record affine_projection =
  ap_point :: symbolic_point
  ap_transform :: matrix
  ap_offsets :: "coord list"

definition mk_affine_projection :: "nat \<Rightarrow> symbolic_point \<Rightarrow> affine_projection" where
  "mk_affine_projection src_ndim point =
     \<lparr>ap_point = point, ap_transform = create_transform src_ndim point,
      ap_offsets = map se_offset point\<rparr>"

record legion_ops =
  mat_vec :: "matrix \<Rightarrow> int list \<Rightarrow> int list"
  mat_mul :: "matrix \<Rightarrow> matrix \<Rightarrow> matrix"
  pt_add :: "int list \<Rightarrow> int list \<Rightarrow> int list"

definition affine_project_point :: "legion_ops \<Rightarrow> affine_projection \<Rightarrow> coord list \<Rightarrow> coord list" where
  "affine_project_point L ap point = pt_add L (mat_vec L (ap_transform ap) point) (ap_offsets ap)"

text \<open>The loop of \<open>AffineProjection::invert_point\<close>: every non-constant expression pins the bounds
  of its source dimension.\<close>

fun affine_invert_loop ::
  "symbolic_point \<Rightarrow> coord list \<Rightarrow> coord list \<Rightarrow> coord list \<Rightarrow> domain result" where
  "affine_invert_loop [] target lo hi = Inr \<lparr>dom_lo = lo, dom_hi = hi\<rparr>"
| "affine_invert_loop (e # es) target lo hi =
     (if se_is_constant e then affine_invert_loop es (tl target) lo hi
      else rguard (target \<noteq> []) OutOfBounds
        (rguard (se_weight e \<noteq> 0) DivZero
          (let v = (hd target - se_offset e) sdiv se_weight e
           in rbind (vec_set (se_dim e) v lo) (\<lambda>lo'.
              rbind (vec_set (se_dim e) v hi) (\<lambda>hi'.
              affine_invert_loop es (tl target) lo' hi')))))"

definition affine_invert_point ::
  "(domain \<Rightarrow> coord list list) \<Rightarrow> affine_projection \<Rightarrow> coord list \<Rightarrow> domain \<Rightarrow>
   coord list list \<Rightarrow> coord list list result" where
  "affine_invert_point domain_points ap target launch outputs =
     rbind (affine_invert_loop (ap_point ap) target (dom_lo launch) (dom_hi launch))
       (\<lambda>d. Inr (outputs @ domain_points d))"

locale legion_matrix =
  fixes L :: legion_ops
  assumes mat_vec_length: "length (mat_vec L A v) = length A"
    and mat_vec_nth: "i < length A \<Longrightarrow> length (A ! i) = length v \<Longrightarrow>
      mat_vec L A v ! i = (\<Sum>j < length v. A ! i ! j * v ! j)"
    and mat_mul_length: "length (mat_mul L A B) = length A"
    and mat_mul_row_length: "i < length A \<Longrightarrow> length (A ! i) = length B \<Longrightarrow>
      (\<And>k. k < length B \<Longrightarrow> length (B ! k) = n) \<Longrightarrow> B \<noteq> [] \<Longrightarrow> length (mat_mul L A B ! i) = n"
    and mat_mul_nth: "i < length A \<Longrightarrow> length (A ! i) = length B \<Longrightarrow>
      (\<And>k. k < length B \<Longrightarrow> length (B ! k) = n) \<Longrightarrow> B \<noteq> [] \<Longrightarrow> j < n \<Longrightarrow>
      mat_mul L A B ! i ! j = (\<Sum>k < length B. A ! i ! k * B ! k ! j)"
    and pt_add_length: "length u = length v \<Longrightarrow> length (pt_add L u v) = length u"
    and pt_add_nth: "length u = length v \<Longrightarrow> i < length u \<Longrightarrow> pt_add L u v ! i = u ! i + v ! i"
begin

lemma affine_project_point_eval:
  assumes "sp_wf (length p) sp"
  shows "affine_project_point L (mk_affine_projection (length p) sp) p = sp_eval sp p"
proof (rule nth_equalityI)
  let ?T = "create_transform (length p) sp"
  have T: "length ?T = length sp" by (simp add: create_transform_def)
  show "length (affine_project_point L (mk_affine_projection (length p) sp) p)
      = length (sp_eval sp p)"
    by (simp add: affine_project_point_def mk_affine_projection_def pt_add_length pt_add_nth mat_vec_length T)
  fix i assume "i < length (affine_project_point L (mk_affine_projection (length p) sp) p)"
  then have i: "i < length sp"
    by (simp add: affine_project_point_def mk_affine_projection_def pt_add_length pt_add_nth mat_vec_length T)
  let ?e = "sp ! i"
  have row: "?T ! i = (if se_is_constant ?e then replicate (length p) 0
      else (replicate (length p) 0)[se_dim ?e := se_weight ?e])"
    using i by (simp add: create_transform_def Let_def)
  have "length (?T ! i) = length p" by (simp add: row)
  then have nth: "mat_vec L ?T p ! i = (\<Sum>j < length p. ?T ! i ! j * p ! j)"
    using i T by (simp add: mat_vec_nth)
  have "(\<Sum>j < length p. ?T ! i ! j * p ! j)
      = (if se_is_constant ?e then 0 else se_weight ?e * p ! se_dim ?e)"
  proof (cases "se_is_constant ?e")
    case False
    with assms i have d: "se_dim ?e < length p" by (auto simp: sp_wf_def)
    have "(\<Sum>j < length p. ?T ! i ! j * p ! j)
        = (\<Sum>j < length p. if j = se_dim ?e then se_weight ?e * p ! j else 0)"
      using False d by (intro sum.cong) (auto simp: row nth_list_update)
    then show ?thesis using False d by simp
  qed (simp add: row)
  with i nth T show "affine_project_point L (mk_affine_projection (length p) sp) p ! i
      = sp_eval sp p ! i"
    by (simp add: affine_project_point_def mk_affine_projection_def pt_add_length pt_add_nth mat_vec_length
        sp_eval_def se_eval_def)
qed

end

definition std_legion :: legion_ops where
  "std_legion =
     \<lparr>mat_vec = (\<lambda>A v. map (\<lambda>row. sum_list (map2 (*) row v)) A),
      mat_mul = (\<lambda>A B. map (\<lambda>row. map (\<lambda>j. sum_list (map2 (\<lambda>a brow. a * brow ! j) row B))
        [0..<length (hd B)]) A),
      pt_add = map2 (+)\<rparr>"

interpretation std: legion_matrix std_legion
proof
  fix A B :: matrix and u v :: "int list" and i j n :: nat
  show "length (mat_vec std_legion A v) = length A" by (simp add: std_legion_def)
  show "length (mat_mul std_legion A B) = length A" by (simp add: std_legion_def)
  show "length u = length v \<Longrightarrow> length (pt_add std_legion u v) = length u"
    by (simp add: std_legion_def)
  show "length u = length v \<Longrightarrow> i < length u \<Longrightarrow> pt_add std_legion u v ! i = u ! i + v ! i"
    by (simp add: std_legion_def)
  assume i: "i < length A"
  show "length (A ! i) = length v \<Longrightarrow>
      mat_vec std_legion A v ! i = (\<Sum>j < length v. A ! i ! j * v ! j)"
    using i by (simp add: std_legion_def sum_list_sum_nth atLeast0LessThan)
  assume B: "length (A ! i) = length B" "\<And>k. k < length B \<Longrightarrow> length (B ! k) = n" "B \<noteq> []"
  then have n: "length (hd B) = n" by (simp add: hd_conv_nth)
  show "length (mat_mul std_legion A B ! i) = n" using i n by (simp add: std_legion_def)
  show "j < n \<Longrightarrow> mat_mul std_legion A B ! i ! j = (\<Sum>k < length B. A ! i ! k * B ! k ! j)"
    using i n B(1) by (simp add: std_legion_def sum_list_sum_nth atLeast0LessThan)
qed

text \<open>
  \<open>Domain::DomainPointIterator\<close> enumerates the points of a domain, each once, in an order Legion
  does not promise to the code.
\<close>

locale legion_iterator =
  fixes domain_points :: "domain \<Rightarrow> coord list list"
  assumes domain_points_set: "domain_wf d \<Longrightarrow> set (domain_points d) = {q. in_domain d q}"
    and domain_points_distinct: "domain_wf d \<Longrightarrow> distinct (domain_points d)"

fun box_points :: "coord list \<Rightarrow> coord list \<Rightarrow> coord list list" where
  "box_points (l # ls) (h # hs) = concat (map (\<lambda>i. map ((#) i) (box_points ls hs)) [l..h])"
| "box_points _ _ = [[]]"

lemma box_points_set: "length hs = length ls \<Longrightarrow> set (box_points ls hs) = {q. in_box ls hs q}"
proof (induction ls arbitrary: hs)
  case Nil
  have "in_box [] [] q \<longleftrightarrow> q = []" for q by (cases q) simp_all
  with Nil show ?case by simp
next
  case (Cons l ls)
  then obtain h hs' where [simp]: "hs = h # hs'" by (cases hs) simp_all
  have "in_box (l # ls) hs q \<longleftrightarrow> (\<exists>i qs. q = i # qs \<and> l \<le> i \<and> i \<le> h \<and> in_box ls hs' qs)" for q
    by (cases q) auto
  with Cons show ?case by auto
qed

lemma box_points_distinct: "distinct (box_points ls hs)"
proof (induction ls arbitrary: hs)
  case (Cons l ls)
  show ?case
  proof (cases hs)
    case (Cons h hs')
    have "distinct (concat (map (\<lambda>i. map ((#) i) (box_points ls hs')) is))" if "distinct is" for "is"
      using that Cons.IH by (induction "is") (auto simp: distinct_map inj_on_def)
    with Cons show ?thesis by simp
  qed simp
qed simp

definition std_domain_points :: "domain \<Rightarrow> coord list list" where
  "std_domain_points d = box_points (dom_lo d) (dom_hi d)"

interpretation std_iter: legion_iterator std_domain_points
  by unfold_locales
    (simp_all add: std_domain_points_def in_domain_def domain_wf_def box_points_set box_points_distinct)

text \<open>What the loop of \<open>invert_point\<close> computes on the image of a point.\<close>

definition sp_dims :: "symbolic_point \<Rightarrow> nat set" where
  "sp_dims sp = se_dim ` {e \<in> set sp. \<not> se_is_constant e}"

definition sp_weights_ok :: "symbolic_point \<Rightarrow> bool" where
  "sp_weights_ok sp \<longleftrightarrow> (\<forall>e \<in> set sp. \<not> se_is_constant e \<longrightarrow> se_weight e \<noteq> 0)"

lemma affine_invert_loop_eval:
  assumes "sp_wf (length p) sp" "sp_weights_ok sp" "length lo = length p" "length hi = length p"
  shows "\<exists>d. affine_invert_loop sp (sp_eval sp p) lo hi = Inr d \<and>
    length (dom_lo d) = length p \<and> length (dom_hi d) = length p \<and>
    (\<forall>j < length p. dom_lo d ! j = (if j \<in> sp_dims sp then p ! j else lo ! j) \<and>
      dom_hi d ! j = (if j \<in> sp_dims sp then p ! j else hi ! j))"
  using assms
proof (induction sp arbitrary: lo hi)
  case Nil
  then show ?case by (simp add: sp_eval_def sp_dims_def)
next
  case (Cons e es)
  have wf: "sp_wf (length p) es" "sp_weights_ok es"
    using Cons.prems by (auto simp: sp_wf_def sp_weights_ok_def)
  show ?case
  proof (cases "se_is_constant e")
    case True
    then have "sp_dims (e # es) = sp_dims es" by (auto simp: sp_dims_def)
    with True Cons.IH [OF wf Cons.prems(3,4)] show ?thesis by (simp add: sp_eval_def)
  next
    case False
    let ?v = "p ! se_dim e"
    have d: "se_dim e < length p" "se_weight e \<noteq> 0"
      using Cons.prems False by (auto simp: sp_wf_def sp_weights_ok_def)
    have v: "(se_eval p e - se_offset e) sdiv se_weight e = ?v"
      using False d by (simp add: se_eval_def signed_divide_int_eq_divide_int)
    have dims: "sp_dims (e # es) = insert (se_dim e) (sp_dims es)"
      using False by (auto simp: sp_dims_def)
    let ?lo = "lo[se_dim e := ?v]" and ?hi = "hi[se_dim e := ?v]"
    obtain d' where d': "affine_invert_loop es (sp_eval es p) ?lo ?hi = Inr d'"
      "length (dom_lo d') = length p" "length (dom_hi d') = length p"
      "\<And>j. j < length p \<Longrightarrow> dom_lo d' ! j = (if j \<in> sp_dims es then p ! j else ?lo ! j) \<and>
        dom_hi d' ! j = (if j \<in> sp_dims es then p ! j else ?hi ! j)"
      using Cons.IH [OF wf, of ?lo ?hi] Cons.prems(3,4) by auto
    have "affine_invert_loop (e # es) (sp_eval (e # es) p) lo hi = Inr d'"
      using False d d'(1) Cons.prems(3,4) v by (simp add: sp_eval_def)
    moreover have "dom_lo d' ! j = (if j \<in> sp_dims (e # es) then p ! j else lo ! j) \<and>
        dom_hi d' ! j = (if j \<in> sp_dims (e # es) then p ! j else hi ! j)" if "j < length p" for j
      using d'(4) [OF that] that Cons.prems(3,4) d unfolding dims by (auto simp: nth_list_update)
    ultimately show ?thesis using d'(2,3) by blast
  qed
qed

lemma sp_eval_cong:
  assumes "sp_wf n sp" "\<And>j. j \<in> sp_dims sp \<Longrightarrow> p ! j = q ! j"
  shows "sp_eval sp p = sp_eval sp q"
  using assms(2) by (auto simp: sp_eval_def se_eval_def sp_dims_def)

lemma affine_invert_box:
  assumes wf: "sp_wf (length p) sp" "sp_weights_ok sp" and p: "in_domain launch p"
  shows "\<exists>d. affine_invert_loop sp (sp_eval sp p) (dom_lo launch) (dom_hi launch) = Inr d \<and>
    domain_wf d \<and> {q. in_domain d q} = {q. in_domain launch q \<and> sp_eval sp q = sp_eval sp p}"
proof -
  have len: "length (dom_lo launch) = length p" "length (dom_hi launch) = length p"
    using p by (auto simp: in_domain_def dest: in_box_length)
  have pb: "\<And>j. j < length p \<Longrightarrow> dom_lo launch ! j \<le> p ! j \<and> p ! j \<le> dom_hi launch ! j"
    using p len by (simp add: in_domain_def in_box_iff)
  obtain d where d: "affine_invert_loop sp (sp_eval sp p) (dom_lo launch) (dom_hi launch) = Inr d"
    and dl: "length (dom_lo d) = length p" "length (dom_hi d) = length p"
    and dj: "\<And>j. j < length p \<Longrightarrow>
      dom_lo d ! j = (if j \<in> sp_dims sp then p ! j else dom_lo launch ! j) \<and>
      dom_hi d ! j = (if j \<in> sp_dims sp then p ! j else dom_hi launch ! j)"
    using affine_invert_loop_eval [OF wf len] by auto
  have sub: "sp_dims sp \<subseteq> {..<length p}" using wf(1) by (auto simp: sp_wf_def sp_dims_def)
  have iff: "in_domain d q \<longleftrightarrow> in_domain launch q \<and> (\<forall>j \<in> sp_dims sp. q ! j = p ! j)" for q
  proof -
    have "in_domain d q \<longleftrightarrow> length q = length p \<and>
        (\<forall>j < length p. if j \<in> sp_dims sp then q ! j = p ! j
          else dom_lo launch ! j \<le> q ! j \<and> q ! j \<le> dom_hi launch ! j)"
      using dl dj by (auto simp: in_domain_def in_box_iff)
    also have "\<dots> \<longleftrightarrow> in_domain launch q \<and> (\<forall>j \<in> sp_dims sp. q ! j = p ! j)"
      using len pb sub by (auto simp: in_domain_def in_box_iff split: if_splits)
    finally show ?thesis .
  qed
  have "sp_eval sp q = sp_eval sp p \<longleftrightarrow> (\<forall>j \<in> sp_dims sp. q ! j = p ! j)" for q
  proof
    assume eq: "sp_eval sp q = sp_eval sp p"
    show "\<forall>j \<in> sp_dims sp. q ! j = p ! j"
    proof
      fix j assume "j \<in> sp_dims sp"
      then obtain e where e: "e \<in> set sp" "\<not> se_is_constant e" "j = se_dim e"
        by (auto simp: sp_dims_def)
      then have "se_eval q e = se_eval p e" using eq by (simp add: sp_eval_def)
      then show "q ! j = p ! j" using e wf(2) by (auto simp: se_eval_def sp_weights_ok_def)
    qed
  qed (rule sp_eval_cong [OF wf(1)], simp)
  with iff d dl show ?thesis by (auto simp: domain_wf_def)
qed

section \<open>Delinearizing and compound projections\<close>

fun delinearizing_strides :: "int list \<Rightarrow> int list" where
  "delinearizing_strides [] = []"
| "delinearizing_strides [x] = [1]"
| "delinearizing_strides (x # y # ys) =
     (let s = delinearizing_strides (y # ys) in hd s * y # s)"

definition mk_delinearizing_projection :: "u64 list \<Rightarrow> int list result" where
  "mk_delinearizing_projection color_shape =
     rguard (color_shape \<noteq> []) OutOfBounds (Inr (delinearizing_strides (map sint color_shape)))"

fun delinearizing_loop :: "int list \<Rightarrow> int \<Rightarrow> coord list result" where
  "delinearizing_loop [] v = Inr []"
| "delinearizing_loop (s # ss) v =
     rguard (s \<noteq> 0) DivZero (rbind (delinearizing_loop ss (v smod s)) (\<lambda>ps. Inr ((v sdiv s) # ps)))"

definition delinearizing_project_point :: "int list \<Rightarrow> coord list \<Rightarrow> coord list result" where
  "delinearizing_project_point strides point =
     rguard (length point = 1) CheckFailed (delinearizing_loop strides (hd point))"

definition compound_project_point ::
  "legion_ops \<Rightarrow> int list \<Rightarrow> affine_projection \<Rightarrow> coord list \<Rightarrow> coord list result" where
  "compound_project_point L strides ap point =
     rbind (delinearizing_project_point strides point)
       (\<lambda>p. Inr (affine_project_point L ap p))"

fun linearizing_loop :: "coord list \<Rightarrow> coord list \<Rightarrow> coord list \<Rightarrow> int \<Rightarrow> int" where
  "linearizing_loop (l # ls) (h # hs) (p # ps) idx =
     linearizing_loop ls hs ps (idx * (h - l + 1) + p)"
| "linearizing_loop _ _ _ idx = idx"

definition linearizing_transform_point :: "coord list \<Rightarrow> domain \<Rightarrow> domain \<Rightarrow> coord list result" where
  "linearizing_transform_point point dm rg =
     rguard (get_dim rg = 1) CheckFailed
       (rguard (point \<noteq> [] \<and> length point = get_dim dm \<and> domain_wf dm) OutOfBounds
         (Inr [linearizing_loop (tl (dom_lo dm)) (tl (dom_hi dm)) (tl point) (hd point)]))"

text \<open>The strides are the volumes of the trailing dimensions, and the division loop recovers the
  color whose linear index it is given.\<close>

definition zeros :: "'a list \<Rightarrow> coord list" where
  "zeros xs = map (\<lambda>_. 0) xs"

lemma zeros_simps [simp]: "zeros [] = []" "zeros (x # xs) = 0 # zeros xs" "length (zeros xs) = length xs"
  by (simp_all add: zeros_def)

lemma delinearizing_strides_length [simp]: "length (delinearizing_strides xs) = length xs"
  by (induction xs rule: delinearizing_strides.induct) (simp_all add: Let_def)

lemma delinearizing_strides_hd:
  "xs \<noteq> [] \<Longrightarrow> hd (delinearizing_strides xs) = box_volume (zeros (tl xs)) (map (\<lambda>e. e - 1) (tl xs))"
  by (induction xs rule: delinearizing_strides.induct) (simp_all add: Let_def mult.commute)

lemma delinearizing_loop_linearize:
  assumes "in_box (zeros xs) (map (\<lambda>e. e - 1) xs) ps" "xs \<noteq> []"
  shows "delinearizing_loop (delinearizing_strides xs)
      (linearize_fn (zeros xs) (map (\<lambda>e. e - 1) xs) ps 0) = Inr ps"
  using assms
proof (induction xs arbitrary: ps rule: delinearizing_strides.induct)
  case (2 x)
  then show ?case by (cases ps; cases "tl ps") auto
next
  case (3 x y ys)
  let ?lo = "zeros (y # ys)" and ?hi = "map (\<lambda>e. e - 1) (y # ys)"
  obtain p ps' where ps [simp]: "ps = p # ps'" using 3(2) by (cases ps) auto
  have box: "in_box ?lo ?hi ps'" and p: "0 \<le> p" using 3(2) by auto
  let ?v = "box_volume ?lo ?hi" and ?r = "linearize_fn ?lo ?hi ps' 0"
  have hd: "delinearizing_strides (x # y # ys) = ?v # delinearizing_strides (y # ys)"
    using delinearizing_strides_hd [of "y # ys"] by (simp add: Let_def mult.commute)
  have len: "length ?hi = length ?lo" "length ps' = length ?lo" using in_box_length [OF box] by simp_all
  have lin: "linearize_fn (zeros (x # y # ys)) (map (\<lambda>e. e - 1) (x # y # ys)) ps 0 = p * ?v + ?r"
    using linearize_fn_acc [OF len, of p] by simp
  have r: "0 \<le> ?r" "?r < ?v" using linearize_fn_bounds [OF box] by auto
  have nn: "0 \<le> p * ?v + ?r" "0 < ?v" using p r by simp_all
  have dm: "(p * ?v + ?r) div ?v = p" "(p * ?v + ?r) mod ?v = ?r"
    by (rule div_mod_mult_add [OF r])+
  have IH: "delinearizing_loop (delinearizing_strides (y # ys)) ?r = Inr ps'"
    using 3(1) box by simp
  have nz: "?v \<noteq> 0" using nn by linarith
  show ?case unfolding hd lin delinearizing_loop.simps sdiv_nonneg [OF nn] smod_nonneg [OF nn] dm IH
    using nz by (simp only: ps rguard_simps rbind_Inr simp_thms)
qed simp

lemma linearizing_loop_zero_based:
  "linearizing_loop (zeros xs) hs ps idx = linearize_fn (zeros xs) hs ps idx"
proof (induction xs arbitrary: hs ps idx)
  case (Cons x xs)
  then show ?case by (cases hs; cases ps) simp_all
qed simp

section \<open>The table of projection functions\<close>

datatype projection_function =
    IdentityProjection
  | AffineProjection affine_projection
  | DelinearizingProjection "int list"
  | CompoundProjection "int list" affine_projection

fun project_point ::
  "legion_ops \<Rightarrow> projection_function \<Rightarrow> coord list \<Rightarrow> coord list result" where
  "project_point L IdentityProjection p = Inr p"
| "project_point L (AffineProjection ap) p = Inr (affine_project_point L ap p)"
| "project_point L (DelinearizingProjection st) p = delinearizing_project_point st p"
| "project_point L (CompoundProjection st ap) p = compound_project_point L st ap p"

fun projection_is_invertible :: "projection_function \<Rightarrow> bool" where
  "projection_is_invertible IdentityProjection = True"
| "projection_is_invertible (AffineProjection ap) = True"
| "projection_is_invertible (DelinearizingProjection st) = False"
| "projection_is_invertible (CompoundProjection st ap) = False"

fun projection_invert_point ::
  "(domain \<Rightarrow> coord list list) \<Rightarrow> projection_function \<Rightarrow> coord list \<Rightarrow> domain \<Rightarrow>
   coord list list \<Rightarrow> coord list list result" where
  "projection_invert_point pts IdentityProjection target launch outputs = Inr (outputs @ [target])"
| "projection_invert_point pts (AffineProjection ap) target launch outputs =
     affine_invert_point pts ap target launch outputs"
| "projection_invert_point pts (DelinearizingProjection st) target launch outputs = Inl RuntimeError"
| "projection_invert_point pts (CompoundProjection st ap) target launch outputs = Inl RuntimeError"

type_synonym functor_table = "nat \<rightharpoonup> projection_function"

definition register_legion_functor ::
  "nat \<Rightarrow> projection_function \<Rightarrow> functor_table \<Rightarrow> functor_table" where
  "register_legion_functor proj_id f tbl =
     (case tbl proj_id of None \<Rightarrow> tbl(proj_id \<mapsto> f) | Some _ \<Rightarrow> tbl)"

definition find_projection_function :: "nat \<Rightarrow> functor_table \<Rightarrow> projection_function result" where
  "find_projection_function proj_id tbl =
     (if proj_id = 0 then Inr IdentityProjection
      else case tbl proj_id of None \<Rightarrow> Inl InvalidArgument | Some f \<Rightarrow> Inr f)"

text \<open>\<open>double_dispatch\<close> throws for a number of dimensions outside of 1 to \<open>LEGATE_MAX_DIM\<close>.\<close>

definition dispatchable :: "nat \<Rightarrow> nat \<Rightarrow> nat \<Rightarrow> bool" where
  "dispatchable max_dim m n \<longleftrightarrow> 1 \<le> m \<and> m \<le> max_dim \<and> 1 \<le> n \<and> n \<le> max_dim"

definition register_affine_projection_functor ::
  "nat \<Rightarrow> nat \<Rightarrow> symbolic_point \<Rightarrow> nat \<Rightarrow> functor_table \<Rightarrow> functor_table result" where
  "register_affine_projection_functor max_dim src_ndim point proj_id tbl =
     rguard (dispatchable max_dim src_ndim (length point)) RuntimeError
       (Inr (register_legion_functor proj_id (AffineProjection (mk_affine_projection src_ndim point)) tbl))"

definition register_delinearizing_projection_functor ::
  "u64 list \<Rightarrow> nat \<Rightarrow> functor_table \<Rightarrow> functor_table result" where
  "register_delinearizing_projection_functor color_shape proj_id tbl =
     rbind (mk_delinearizing_projection color_shape)
       (\<lambda>st. Inr (register_legion_functor proj_id (DelinearizingProjection st) tbl))"

definition register_compound_projection_functor ::
  "nat \<Rightarrow> u64 list \<Rightarrow> symbolic_point \<Rightarrow> nat \<Rightarrow> functor_table \<Rightarrow> functor_table result" where
  "register_compound_projection_functor max_dim color_shape point proj_id tbl =
     rguard (dispatchable max_dim (length color_shape) (length point)) RuntimeError
       (rbind (mk_delinearizing_projection color_shape)
         (\<lambda>st. Inr (register_legion_functor proj_id
            (CompoundProjection st (mk_affine_projection (length color_shape) point)) tbl)))"

section \<open>Properties\<close>

text \<open>An affine projection functor maps every launch point to the point its symbolic point
  denotes, whatever library performs the matrix product; and where the functor is inverted on the
  image of a launch point, it returns exactly the launch points with that image, each once.\<close>

theorem affine_projection_correct:
  assumes "legion_matrix L" "legion_iterator pts"
    and "sp_wf (length p) sp" "sp_weights_ok sp" "in_domain launch p" "domain_wf launch"
  shows "\<exists>t outs. project_point L (AffineProjection (mk_affine_projection (length p) sp)) p = Inr t \<and>
    t = sp_eval sp p \<and>
    projection_invert_point pts (AffineProjection (mk_affine_projection (length p) sp)) t launch []
      = Inr outs \<and>
    set outs = {q. in_domain launch q \<and> sp_eval sp q = t} \<and> distinct outs"
proof -
  obtain d where d: "affine_invert_loop sp (sp_eval sp p) (dom_lo launch) (dom_hi launch) = Inr d"
    "domain_wf d" "{q. in_domain d q} = {q. in_domain launch q \<and> sp_eval sp q = sp_eval sp p}"
    using affine_invert_box [OF assms(3-5)] by blast
  then show ?thesis
    using legion_matrix.affine_project_point_eval [OF assms(1,3)]
      legion_iterator.domain_points_set [OF assms(2) d(2)]
      legion_iterator.domain_points_distinct [OF assms(2) d(2)]
    by (simp add: affine_invert_point_def mk_affine_projection_def)
qed

theorem affine_projection_correct_witness:
  "\<exists>t outs. project_point std_legion
      (AffineProjection (mk_affine_projection (length [1, 2])
        [\<lparr>se_dim = 1, se_weight = 2, se_offset = -1\<rparr>, se_constant 5])) [1, 2] = Inr t \<and>
    t = [3, 5] \<and> set outs = {q. in_domain \<lparr>dom_lo = [0, 0], dom_hi = [3, 4]\<rparr> q \<and> q ! 1 = 2}"
proof -
  let ?sp = "[\<lparr>se_dim = 1, se_weight = 2, se_offset = -1\<rparr>, se_constant 5]"
  let ?d = "\<lparr>dom_lo = [0, 0], dom_hi = [3, 4::int]\<rparr>"
  have e: "sp_eval ?sp q = [2 * q ! 1 - 1, 5]" for q
    by (simp add: sp_eval_def se_eval_def se_is_constant_def UNSET_def se_constant_def)
  obtain t outs where "project_point std_legion
      (AffineProjection (mk_affine_projection (length [1, 2]) ?sp)) [1, 2] = Inr t"
    "t = sp_eval ?sp [1, 2]" "set outs = {q. in_domain ?d q \<and> sp_eval ?sp q = t}"
    using affine_projection_correct [OF std.legion_matrix_axioms std_iter.legion_iterator_axioms,
        of "[1, 2]" ?sp ?d]
    by (auto simp: sp_wf_def UNSET_def se_is_constant_def se_constant_def sp_weights_ok_def
        in_domain_def domain_wf_def)
  then show ?thesis unfolding e by auto
qed

text \<open>The delinearizing projection sends the linear index of a color to the color itself: for a
  color inside a non-empty color shape of fewer than 2^63 colors it returns that color.\<close>

theorem delinearizing_projection_correct:
  assumes "shape \<noteq> []" "in_box (zeros shape) (map (\<lambda>e. sint e - 1) shape) color"
  shows "\<exists>st. mk_delinearizing_projection shape = Inr st \<and>
    project_point L (DelinearizingProjection st)
      [linearize_fn (zeros shape) (map (\<lambda>e. sint e - 1) shape) color 0] = Inr color"
proof -
  have "in_box (zeros (map sint shape)) (map (\<lambda>e. e - 1) (map sint shape)) color"
    using assms(2) by (simp add: zeros_def o_def)
  from delinearizing_loop_linearize [OF this] assms(1) show ?thesis
    by (simp add: mk_delinearizing_projection_def delinearizing_project_point_def zeros_def o_def)
qed

theorem delinearizing_projection_correct_witness:
  "\<exists>st. mk_delinearizing_projection [3, 4, 2] = Inr st \<and>
    project_point std_legion (DelinearizingProjection st) [15] = Inr [1, 3, 1]"
  using delinearizing_projection_correct [of "[3, 4, 2]" "[1, 3, 1]" std_legion] by simp

end
