(* ===== verification/Restriction.thy ===== *)
theory Restriction
  imports Symbolic
begin

text \<open>
  Partitioning restrictions: src/cpp/legate/partitioning/detail/restriction.h, .inl and .cc.

  \<open>Restriction\<close> is the enum \<open>ALLOW < AVOID < FORBID\<close>; \<open>Restrictions\<close> is the class with its four
  members. The record keeps the cached flag \<open>needs_minimum_extent_check_\<close>, so that the invariant
  relating it to the extents (\<open>restrictions_inv\<close>) is a theorem about every operation and not a
  convention. Extents are 64-bit words: the check of the smallest tile mixes signed and unsigned
  arithmetic, and \<open>tile_check_exact\<close> says what it computes.
\<close>

section \<open>Restriction of one dimension\<close>

datatype restriction = ALLOW | AVOID | FORBID

fun restriction_code :: "restriction \<Rightarrow> nat" where
  "restriction_code ALLOW = 0"
| "restriction_code AVOID = 1"
| "restriction_code FORBID = 2"

instantiation restriction :: linorder
begin

definition less_eq_restriction :: "restriction \<Rightarrow> restriction \<Rightarrow> bool" where
  "less_eq_restriction a b \<longleftrightarrow> restriction_code a \<le> restriction_code b"

definition less_restriction :: "restriction \<Rightarrow> restriction \<Rightarrow> bool" where
  "less_restriction a b \<longleftrightarrow> restriction_code a < restriction_code b"

instance
proof
  fix x y z :: restriction
  show "x < y \<longleftrightarrow> x \<le> y \<and> \<not> y \<le> x"
    by (auto simp: less_eq_restriction_def less_restriction_def)
  show "x \<le> x"
    by (simp add: less_eq_restriction_def)
  show "x \<le> y \<Longrightarrow> y \<le> z \<Longrightarrow> x \<le> z"
    by (simp add: less_eq_restriction_def)
  show "x \<le> y \<Longrightarrow> y \<le> x \<Longrightarrow> x = y"
    by (cases x; cases y) (simp_all add: less_eq_restriction_def)
  show "x \<le> y \<or> y \<le> x"
    by (auto simp: less_eq_restriction_def)
qed

end

lemma restriction_le_simps [simp]:
  "ALLOW \<le> r" "r \<le> FORBID" "AVOID \<le> r \<longleftrightarrow> r \<noteq> ALLOW" "r \<le> ALLOW \<longleftrightarrow> r = ALLOW"
  "FORBID \<le> r \<longleftrightarrow> r = FORBID" "r \<le> AVOID \<longleftrightarrow> r \<noteq> FORBID"
  by (cases r; simp add: less_eq_restriction_def)+

definition join_restriction :: "restriction \<Rightarrow> restriction \<Rightarrow> restriction" where
  "join_restriction lhs rhs = max lhs rhs"

lemma join_restriction_FORBID [simp]:
  "join_restriction a b = FORBID \<longleftrightarrow> a = FORBID \<or> b = FORBID"
  by (cases a; cases b) (simp_all add: join_restriction_def max_def)

section \<open>Restrictions of a store\<close>

record restrictions =
  needs_minimum_extent_check :: bool
  req_invertible :: bool
  dim_restrictions :: "restriction list"
  min_extents :: "u64 list"

definition cache_needs_minimum_extent_check :: "restrictions \<Rightarrow> restrictions" where
  "cache_needs_minimum_extent_check r =
     r\<lparr>needs_minimum_extent_check := list_ex (\<lambda>e. e \<noteq> 0) (min_extents r)\<rparr>"

definition mk_restrictions :: "restriction list \<Rightarrow> u64 list \<Rightarrow> bool \<Rightarrow> restrictions" where
  "mk_restrictions ds es ri =
     cache_needs_minimum_extent_check
       \<lparr>needs_minimum_extent_check = False, req_invertible = ri, dim_restrictions = ds,
        min_extents = es\<rparr>"

definition restrictions_ndim :: "nat \<Rightarrow> restrictions" where
  "restrictions_ndim ndim =
     \<lparr>needs_minimum_extent_check = False, req_invertible = False,
      dim_restrictions = replicate ndim ALLOW, min_extents = replicate ndim 0\<rparr>"

definition restrictions_eq :: "restrictions \<Rightarrow> restrictions \<Rightarrow> bool" where
  "restrictions_eq a b \<longleftrightarrow>
     req_invertible a = req_invertible b \<and> dim_restrictions a = dim_restrictions b"

definition set_require_invertible :: "bool \<Rightarrow> restrictions \<Rightarrow> restrictions" where
  "set_require_invertible b r = r\<lparr>req_invertible := b\<rparr>"

definition restrict_all_dimensions :: "restrictions \<Rightarrow> restrictions" where
  "restrict_all_dimensions r = r\<lparr>dim_restrictions := map (\<lambda>_. FORBID) (dim_restrictions r)\<rparr>"

definition restrict_dimension :: "nat \<Rightarrow> restrictions \<Rightarrow> restrictions result" where
  "restrict_dimension d r =
     rguard (d < length (dim_restrictions r)) CheckFailed
       (Inr (r\<lparr>dim_restrictions := (dim_restrictions r)[d := FORBID]\<rparr>))"

definition apply_minimum_extents :: "u64 list \<Rightarrow> restrictions \<Rightarrow> restrictions result" where
  "apply_minimum_extents new r =
     rguard (length new = length (min_extents r)) CheckFailed
       (Inr (cache_needs_minimum_extent_check
          (r\<lparr>min_extents := map2 max (min_extents r) new\<rparr>)))"

definition restrictions_map ::
  "(restriction list \<Rightarrow> restriction list result) \<Rightarrow> (u64 list \<Rightarrow> u64 list result) \<Rightarrow>
   restrictions \<Rightarrow> restrictions result" where
  "restrictions_map f g r =
     rbind (f (dim_restrictions r)) (\<lambda>ds.
     rbind (g (min_extents r)) (\<lambda>es. Inr (mk_restrictions ds es (req_invertible r))))"

definition join_inplace :: "restrictions \<Rightarrow> restrictions \<Rightarrow> restrictions result" where
  "join_inplace r other =
     (if length (dim_restrictions r) \<noteq> length (dim_restrictions other) then Inl InvalidArgument
      else if dim_restrictions other = [] then Inr r
      else let r1 = r\<lparr>req_invertible := req_invertible r \<or> req_invertible other\<rparr>
           in if dim_restrictions r = [] then Inr (r1\<lparr>dim_restrictions := dim_restrictions other\<rparr>)
              else let r2 = r1\<lparr>dim_restrictions :=
                         map2 join_restriction (dim_restrictions r) (dim_restrictions other)\<rparr>
                   in if needs_minimum_extent_check other
                      then apply_minimum_extents (min_extents other) r2 else Inr r2)"

definition restrictions_join :: "restrictions \<Rightarrow> restrictions \<Rightarrow> restrictions result" where
  "restrictions_join r other = join_inplace r other"

definition count_restricted :: "restrictions \<Rightarrow> nat" where
  "count_restricted r = length (filter (\<lambda>x. x = FORBID) (dim_restrictions r))"

definition smallest_extent_smaller_than_min_extent :: "u64 \<Rightarrow> u64 \<Rightarrow> u64 \<Rightarrow> bool result" where
  "smallest_extent_smaller_than_min_extent extent num_colors min_extent =
     rguard (num_colors \<noteq> 0) DivZero
       (let tile_extent = (extent + num_colors - 1) div num_colors;
            smallest_extent = sint (extent - (num_colors - 1) * tile_extent)
        in Inr ((word_of_int (max smallest_extent 0) :: u64) < min_extent))"

definition any_extent_too_small :: "u64 list \<Rightarrow> u64 list \<Rightarrow> u64 list \<Rightarrow> bool result" where
  "any_extent_too_small shape color_shape mins =
     rguard (length color_shape = length shape \<and> length mins = length shape) InvalidArgument
       (rany (\<lambda>(e, c, m). smallest_extent_smaller_than_min_extent e c m)
         (zip shape (zip color_shape mins)))"

text \<open>\<open>are_satisfied_by\<close> sees a partition through its three virtual functions: whether it is
  invertible, whether it has a color shape (\<open>None\<close> when not), and the color shape. The shape is a
  pointer that may be null (\<open>None\<close>). The assertion on the class of a partition without a color shape
  is in \<open>partition_satisfies\<close> of the theory Stores, where the partition itself is known.\<close>

definition are_satisfied_by ::
  "restrictions \<Rightarrow> bool \<Rightarrow> u64 list option \<Rightarrow> u64 list option \<Rightarrow> bool result" where
  "are_satisfied_by r invertible color_shape shape =
     (if req_invertible r \<and> \<not> invertible then Inr False
      else case color_shape of
        None \<Rightarrow> Inr True
      | Some cs \<Rightarrow>
          rguard (needs_minimum_extent_check r \<longrightarrow> shape \<noteq> None) CheckFailed
            (rbind (if needs_minimum_extent_check r
                    then any_extent_too_small (the shape) cs (min_extents r) else Inr False)
              (\<lambda>small.
                if small then Inr False
                else rguard (length cs = length (dim_restrictions r)) InvalidArgument
                  (Inr (list_all2 (\<lambda>res ext. res \<noteq> FORBID \<or> ext = 1) (dim_restrictions r) cs)))))"

definition minimum_extents_satisfied_by :: "restrictions \<Rightarrow> u64 list \<Rightarrow> u64 list \<Rightarrow> bool result" where
  "minimum_extents_satisfied_by r shape color_shape =
     (if \<not> needs_minimum_extent_check r then Inr True
      else rbind (any_extent_too_small shape color_shape (min_extents r)) (\<lambda>b. Inr (\<not> b)))"

fun prune_dimensions_loop ::
  "nat \<Rightarrow> restriction list \<Rightarrow> u64 list \<Rightarrow> u64 list \<Rightarrow> nat list \<Rightarrow> u64 \<Rightarrow> u64 list \<times> nat list \<times> u64" where
  "prune_dimensions_loop d (res # rs) (e # es) shape dims vol =
     (if e = 1 \<or> res = FORBID then prune_dimensions_loop (Suc d) rs es shape dims vol
      else prune_dimensions_loop (Suc d) rs es (shape @ [e]) (dims @ [d]) (vol * e))"
| "prune_dimensions_loop d _ _ shape dims vol = (shape, dims, vol)"

definition prune_dimensions :: "restrictions \<Rightarrow> u64 list \<Rightarrow> (u64 list \<times> nat list \<times> u64) result" where
  "prune_dimensions r shape =
     rguard (length shape = length (dim_restrictions r)) InvalidArgument
       (Inr (prune_dimensions_loop 0 (dim_restrictions r) shape [] [] 1))"

fun prune_coords :: "restriction list \<Rightarrow> coord list \<Rightarrow> coord list result" where
  "prune_coords [] xs = Inr []"
| "prune_coords (res # rs) [] = Inl OutOfBounds"
| "prune_coords (res # rs) (x # xs) =
     (if res = FORBID then prune_coords rs xs
      else rbind (prune_coords rs xs) (\<lambda>ys. Inr (x # ys)))"

definition prune_domain :: "restrictions \<Rightarrow> domain \<Rightarrow> domain result" where
  "prune_domain r d =
     rbind (prune_coords (dim_restrictions r) (dom_lo d)) (\<lambda>lo.
     rbind (prune_coords (dim_restrictions r) (dom_hi d)) (\<lambda>hi.
     Inr \<lparr>dom_lo = lo, dom_hi = hi\<rparr>))"

fun embed_coords :: "restriction list \<Rightarrow> coord list \<Rightarrow> coord list result" where
  "embed_coords [] xs = Inr []"
| "embed_coords (FORBID # rs) xs = rbind (embed_coords rs xs) (\<lambda>ys. Inr (0 # ys))"
| "embed_coords (res # rs) [] = Inl OutOfBounds"
| "embed_coords (res # rs) (x # xs) = rbind (embed_coords rs xs) (\<lambda>ys. Inr (x # ys))"

definition embed_domain :: "restrictions \<Rightarrow> domain \<Rightarrow> domain result" where
  "embed_domain r d =
     rbind (embed_coords (dim_restrictions r) (dom_lo d)) (\<lambda>lo.
     rbind (embed_coords (dim_restrictions r) (dom_hi d)) (\<lambda>hi.
     Inr \<lparr>dom_lo = lo, dom_hi = hi\<rparr>))"

fun to_projection_loop :: "nat \<Rightarrow> restriction list \<Rightarrow> symbolic_point" where
  "to_projection_loop d [] = []"
| "to_projection_loop d (res # rs) =
     (if res = FORBID then se_constant 0 # to_projection_loop d rs
      else dimension d # to_projection_loop (Suc d) rs)"

definition to_projection :: "restrictions \<Rightarrow> symbolic_point" where
  "to_projection r = to_projection_loop 0 (dim_restrictions r)"

section \<open>The class invariant\<close>

text \<open>The cached flag says whether a minimum extent is set, and the two vectors have one entry per
  dimension.\<close>

definition restrictions_inv :: "restrictions \<Rightarrow> bool" where
  "restrictions_inv r \<longleftrightarrow>
     length (min_extents r) = length (dim_restrictions r) \<and>
     (needs_minimum_extent_check r \<longleftrightarrow> (\<exists>e \<in> set (min_extents r). e \<noteq> 0))"

lemma mk_restrictions_simps [simp]:
  "dim_restrictions (mk_restrictions ds es b) = ds" "min_extents (mk_restrictions ds es b) = es"
  "req_invertible (mk_restrictions ds es b) = b"
  by (simp_all add: mk_restrictions_def cache_needs_minimum_extent_check_def)

lemma restrictions_inv_cache:
  "length (min_extents r) = length (dim_restrictions r) \<Longrightarrow>
     restrictions_inv (cache_needs_minimum_extent_check r)"
  by (simp add: restrictions_inv_def cache_needs_minimum_extent_check_def list_ex_iff)

lemma restrictions_inv_mk: "length es = length ds \<Longrightarrow> restrictions_inv (mk_restrictions ds es b)"
  by (simp add: mk_restrictions_def restrictions_inv_cache)

lemma restrictions_inv_ndim: "restrictions_inv (restrictions_ndim n)"
  by (simp add: restrictions_inv_def restrictions_ndim_def)

lemma apply_minimum_extents_inv:
  "apply_minimum_extents new r = Inr r' \<Longrightarrow> length (min_extents r) = length (dim_restrictions r) \<Longrightarrow>
     restrictions_inv r'"
  by (auto simp: apply_minimum_extents_def rguard_eq_Inr intro!: restrictions_inv_cache)

lemma join_inplace_cases:
  assumes "join_inplace a b = Inr r" "dim_restrictions b \<noteq> []"
  defines "j \<equiv> a\<lparr>req_invertible := req_invertible a \<or> req_invertible b,
    dim_restrictions := map2 join_restriction (dim_restrictions a) (dim_restrictions b)\<rparr>"
  shows "length (dim_restrictions a) = length (dim_restrictions b) \<and>
    (if needs_minimum_extent_check b then apply_minimum_extents (min_extents b) j = Inr r else r = j)"
  using assms by (auto simp: join_inplace_def Let_def split: if_splits)

lemma join_inplace_inv:
  assumes inv: "restrictions_inv a" "restrictions_inv b" and r: "join_inplace a b = Inr r"
  shows "restrictions_inv r"
proof (cases "dim_restrictions b = []")
  case True
  with inv r show ?thesis by (auto simp: join_inplace_def split: if_splits)
next
  case False
  note c = join_inplace_cases [OF r False]
  show ?thesis
  proof (cases "needs_minimum_extent_check b")
    case True
    with c inv show ?thesis
      by (intro apply_minimum_extents_inv [of "min_extents b"]) (auto simp: restrictions_inv_def)
  next
    case False
    with c inv(1) show ?thesis by (auto simp: restrictions_inv_def)
  qed
qed

lemma restrict_all_dimensions_inv:
  "restrictions_inv r \<Longrightarrow> restrictions_inv (restrict_all_dimensions r)"
  by (simp add: restrictions_inv_def restrict_all_dimensions_def)

lemma restrict_dimension_inv:
  "restrictions_inv r \<Longrightarrow> restrict_dimension d r = Inr r' \<Longrightarrow> restrictions_inv r'"
  by (auto simp: restrictions_inv_def restrict_dimension_def rguard_eq_Inr)

lemma restrictions_map_inv:
  assumes "restrictions_map f g r = Inr r'"
    and "\<And>ds es. f (dim_restrictions r) = Inr ds \<Longrightarrow> g (min_extents r) = Inr es \<Longrightarrow> length es = length ds"
  shows "restrictions_inv r'"
  using assms by (auto simp: restrictions_map_def rbind_eq_Inr intro!: restrictions_inv_mk)

section \<open>The smallest tile\<close>

text \<open>Tile \<open>k\<close> of an extent \<open>e\<close> cut into \<open>n\<close> tiles of \<open>ceiling (e / n)\<close> elements.\<close>

definition tile_size :: "nat \<Rightarrow> nat \<Rightarrow> nat \<Rightarrow> nat" where
  "tile_size e n k = (let t = (e + n - 1) div n in min e ((k + 1) * t) - k * t)"

lemma last_tile_smallest:
  assumes "0 < n" "k < n"
  shows "tile_size e n (n - 1) \<le> tile_size e n k"
    and "tile_size e n (n - 1) = e - (n - 1) * ((e + n - 1) div n)"
proof -
  let ?t = "(e + n - 1) div n"
  have "e + n - 1 < n * (?t + 1)"
    using assms(1) by (metis Suc_eq_plus1 dividend_less_times_div mult_Suc_right add.commute)
  then have cover: "e \<le> n * ?t" using assms(1) by (simp add: algebra_simps)
  have n: "(n - 1) * ?t + ?t = n * ?t" using assms(1) by (metis Suc_diff_1 mult_Suc add.commute)
  show last: "tile_size e n (n - 1) = e - (n - 1) * ?t"
    using assms(1) cover by (simp add: tile_size_def Let_def)
  have kt: "k * ?t \<le> (n - 1) * ?t" using assms by (intro mult_le_mono1) simp
  show "tile_size e n (n - 1) \<le> tile_size e n k"
    unfolding last using kt cover n by (simp add: tile_size_def Let_def min_def algebra_simps) linarith
qed

lemma smallest_extent_exact:
  assumes nc: "num_colors \<noteq> 0" and small: "uint extent + uint num_colors < 2 ^ 63"
  shows "smallest_extent_smaller_than_min_extent extent num_colors min_extent =
    Inr (tile_size (unat extent) (unat num_colors) (unat num_colors - 1) < unat min_extent)"
proof -
  let ?e = "uint extent" and ?n = "uint num_colors"
  let ?tile = "(extent + num_colors - 1) div num_colors"
  let ?t = "(?e + ?n - 1) div ?n"
  have n: "1 \<le> ?n" using nc by (simp add: int_one_le_iff_zero_less word_neq_0_conv flip: word_gt_0) (simp add: word_less_def)
  have sum: "uint (extent + num_colors) = ?e + ?n" using small by (intro uint_add_u64) simp
  have en: "1 \<le> ?e + ?n" using n uint_ge_0 [of extent] by linarith
  then have sum1: "uint (extent + num_colors - 1) = ?e + ?n - 1"
    using sum uint_diff_u64 [of 1 "extent + num_colors"] by simp
  have tile: "uint ?tile = ?t" by (simp add: uint_div_distrib sum1)
  have n1: "uint (num_colors - 1) = ?n - 1" using n uint_diff_u64 [of 1 num_colors] by simp
  have t0: "0 \<le> ?t" using n en by (simp add: pos_imp_zdiv_nonneg_iff)
  have prod: "(?n - 1) * ?t \<le> ?e + ?n"
  proof -
    have "?n * ?t = (?e + ?n - 1) - (?e + ?n - 1) mod ?n"
      by (rule minus_mod_eq_mult_div [symmetric])
    moreover have "0 \<le> (?e + ?n - 1) mod ?n" using n by simp
    ultimately have "?n * ?t \<le> ?e + ?n - 1" by linarith
    then show ?thesis using n t0 by (simp add: left_diff_distrib)
  qed
  have p0: "0 \<le> (?n - 1) * ?t" using n t0 by simp
  have mul: "uint ((num_colors - 1) * ?tile) = (?n - 1) * ?t"
    using tile n1 prod small by (subst uint_mult_u64) simp_all
  have diff: "extent - (num_colors - 1) * ?tile = word_of_int (?e - (?n - 1) * ?t)"
    unfolding mul [symmetric] by (simp only: wi_hom_sub [symmetric] word_of_int_uint)
  have "- (2 ^ 63) \<le> ?e - (?n - 1) * ?t" "?e - (?n - 1) * ?t < 2 ^ 63"
    using prod p0 small n uint_ge_0 [of extent] by linarith+
  then have s: "sint (extent - (num_colors - 1) * ?tile) = ?e - (?n - 1) * ?t"
    unfolding diff by (rule sint_word_of_int_u64)
  let ?E = "unat extent" and ?N = "unat num_colors"
  have nn: "0 < ?N" using nc by (simp add: unat_gt_0)
  have m: "max (?e - (?n - 1) * ?t) 0 = int (tile_size ?E ?N (?N - 1))"
  proof -
    have "?e = int ?E" "?n - 1 = int (?N - 1)" using nn by (simp_all add: of_nat_diff)
    moreover have "?t = int ((?E + ?N - 1) div ?N)" using ceil_div_int [OF nn, of ?E] by simp
    ultimately have "?e - (?n - 1) * ?t = int ?E - int ((?N - 1) * ((?E + ?N - 1) div ?N))"
      by (simp only: of_nat_mult)
    then show ?thesis
      by (simp only: max_int_diff last_tile_smallest(2) [OF nn nn])
  qed
  have "max (?e - (?n - 1) * ?t) 0 < 2 ^ 64" using p0 small uint_lt2p [of extent] by simp
  then have "unat (word_of_int (max (?e - (?n - 1) * ?t) 0) :: u64)
      = tile_size (unat extent) (unat num_colors) (unat num_colors - 1)"
    unfolding m by (simp add: unat_of_nat_u64)
  then show ?thesis
    using nc s by (simp add: smallest_extent_smaller_than_min_extent_def Let_def word_less_nat_alt)
qed

section \<open>Joining restrictions\<close>

lemma too_small_max:
  "projr (smallest_extent_smaller_than_min_extent e c (max m m')) \<longleftrightarrow>
     projr (smallest_extent_smaller_than_min_extent e c m) \<or>
     projr (smallest_extent_smaller_than_min_extent e c m')" if "c \<noteq> 0"
  using that by (simp add: smallest_extent_smaller_than_min_extent_def Let_def less_max_iff_disj)

lemma too_small_zero: "c \<noteq> 0 \<Longrightarrow> \<not> projr (smallest_extent_smaller_than_min_extent e c 0)"
  by (simp add: smallest_extent_smaller_than_min_extent_def Let_def)

lemma any_extent_too_small_eq:
  assumes "length cs = length shape" "length ms = length shape" "0 \<notin> set cs"
  shows "any_extent_too_small shape cs ms = Inr (list_ex
    (\<lambda>(e, c, m). projr (smallest_extent_smaller_than_min_extent e c m)) (zip shape (zip cs ms)))"
proof -
  have "smallest_extent_smaller_than_min_extent e c m
      = Inr (projr (smallest_extent_smaller_than_min_extent e c m))"
    if "(e, c, m) \<in> set (zip shape (zip cs ms))" for e c m
  proof -
    have "c \<in> set cs" using that by (meson set_zip_leftD set_zip_rightD)
    with assms(3) have "c \<noteq> 0" by auto
    then show ?thesis by (simp add: smallest_extent_smaller_than_min_extent_def Let_def)
  qed
  then show ?thesis using assms(1,2)
    by (auto simp: any_extent_too_small_def intro!: rany_Inr)
qed

definition too_small :: "u64 list \<Rightarrow> u64 list \<Rightarrow> u64 list \<Rightarrow> bool" where
  "too_small shape cs ms \<longleftrightarrow> (\<exists>i < length shape.
     projr (smallest_extent_smaller_than_min_extent (shape ! i) (cs ! i) (ms ! i)))"

lemma any_extent_too_small_iff:
  assumes "length cs = length shape" "length ms = length shape" "0 \<notin> set cs"
  shows "any_extent_too_small shape cs ms = Inr (too_small shape cs ms)"
  using assms by (auto simp: any_extent_too_small_eq too_small_def list_ex_length)

lemma are_satisfied_by_iff:
  assumes "restrictions_inv r" "length cs = length (dim_restrictions r)"
    and "length shape = length (dim_restrictions r)" "0 \<notin> set cs"
  shows "are_satisfied_by r invertible (Some cs) (Some shape) = Inr
    ((req_invertible r \<longrightarrow> invertible) \<and> \<not> too_small shape cs (min_extents r) \<and>
     (\<forall>i < length cs. dim_restrictions r ! i \<noteq> FORBID \<or> cs ! i = 1))"
proof -
  have z: "\<not> too_small shape cs (min_extents r)" if "\<not> needs_minimum_extent_check r"
  proof -
    have "min_extents r ! i = 0 \<and> cs ! i \<noteq> 0" if "i < length shape" for i
      using that \<open>\<not> needs_minimum_extent_check r\<close> assms by (metis nth_mem restrictions_inv_def)
    then show ?thesis by (auto simp: too_small_def too_small_zero)
  qed
  have e: "any_extent_too_small shape cs (min_extents r) = Inr (too_small shape cs (min_extents r))"
    using assms by (intro any_extent_too_small_iff) (simp_all add: restrictions_inv_def)
  show ?thesis
    using assms(2) z by (auto simp: are_satisfied_by_def e list_all2_conv_all_nth)
qed

lemma join_too_small:
  assumes inv: "restrictions_inv a" "restrictions_inv b" and r: "join_inplace a b = Inr r"
    and ne: "dim_restrictions b \<noteq> []" and len: "length shape = length (dim_restrictions b)"
    and cs: "length cs = length shape" "0 \<notin> set cs"
  shows "too_small shape cs (min_extents r) \<longleftrightarrow>
    too_small shape cs (min_extents a) \<or> too_small shape cs (min_extents b)"
proof -
  note c = join_inplace_cases [OF r ne]
  have la: "length (min_extents a) = length shape" "length (min_extents b) = length shape"
    using inv c len by (simp_all add: restrictions_inv_def)
  have nz: "cs ! i \<noteq> 0" if "i < length shape" for i
    using that cs by (metis nth_mem)
  show ?thesis
  proof (cases "needs_minimum_extent_check b")
    case True
    then have "min_extents r = map2 max (min_extents a) (min_extents b)"
      using c by (auto simp: apply_minimum_extents_def rguard_eq_Inr cache_needs_minimum_extent_check_def)
    then show ?thesis using la nz by (auto simp: too_small_def too_small_max)
  next
    case False
    then have "min_extents r = min_extents a" using c by auto
    moreover have "min_extents b ! i = 0" if "i < length shape" for i
      using False inv(2) la(2) that by (metis nth_mem restrictions_inv_def)
    ultimately show ?thesis using nz by (auto simp: too_small_def too_small_zero)
  qed
qed

text \<open>What a partition with a color shape has to satisfy, and what each operation adds to it.\<close>

definition satisfied :: "restrictions \<Rightarrow> bool \<Rightarrow> u64 list \<Rightarrow> u64 list \<Rightarrow> bool" where
  "satisfied r invertible cs shape \<longleftrightarrow>
     (req_invertible r \<longrightarrow> invertible) \<and> \<not> too_small shape cs (min_extents r) \<and>
     (\<forall>i < length cs. dim_restrictions r ! i \<noteq> FORBID \<or> cs ! i = 1)"

lemma are_satisfied_by_satisfied:
  assumes "restrictions_inv r" "length cs = length (dim_restrictions r)"
    and "length shape = length (dim_restrictions r)" "0 \<notin> set cs"
  shows "are_satisfied_by r invertible (Some cs) (Some shape) = Inr (satisfied r invertible cs shape)"
  using are_satisfied_by_iff [OF assms] by (simp add: satisfied_def)

lemma join_inplace_dims:
  assumes "join_inplace a b = Inr r"
  shows "length (dim_restrictions a) = length (dim_restrictions b)"
    "dim_restrictions r = map2 join_restriction (dim_restrictions a) (dim_restrictions b)"
    "length (dim_restrictions r) = length (dim_restrictions a)"
proof -
  show len: "length (dim_restrictions a) = length (dim_restrictions b)"
    using assms by (auto simp: join_inplace_def split: if_splits)
  show ds: "dim_restrictions r = map2 join_restriction (dim_restrictions a) (dim_restrictions b)"
    using assms len
    by (auto simp: join_inplace_def Let_def apply_minimum_extents_def rguard_eq_Inr
        cache_needs_minimum_extent_check_def split: if_splits)
  show "length (dim_restrictions r) = length (dim_restrictions a)" using ds len by simp
qed

lemma satisfied_join:
  assumes "restrictions_inv a" "restrictions_inv b" "dim_restrictions b \<noteq> []"
    and "length shape = length (dim_restrictions b)" "length cs = length (dim_restrictions b)"
    and "0 \<notin> set cs" and r: "join_inplace a b = Inr r"
  shows "satisfied r invertible cs shape \<longleftrightarrow> satisfied a invertible cs shape \<and> satisfied b invertible cs shape"
proof -
  note c = join_inplace_cases [OF r assms(3)] and ds = join_inplace_dims [OF r]
  have ri: "req_invertible r \<longleftrightarrow> req_invertible a \<or> req_invertible b"
    using c by (auto simp: apply_minimum_extents_def rguard_eq_Inr cache_needs_minimum_extent_check_def
        split: if_splits)
  have small: "too_small shape cs (min_extents r) \<longleftrightarrow>
      too_small shape cs (min_extents a) \<or> too_small shape cs (min_extents b)"
    using join_too_small [OF assms(1,2) r assms(3,4) _ assms(6)] assms(4,5) by simp
  have forbid: "(\<forall>i < length cs. dim_restrictions r ! i \<noteq> FORBID \<or> cs ! i = 1) \<longleftrightarrow>
      (\<forall>i < length cs. dim_restrictions a ! i \<noteq> FORBID \<or> cs ! i = 1) \<and>
      (\<forall>i < length cs. dim_restrictions b ! i \<noteq> FORBID \<or> cs ! i = 1)"
    using ds(1) assms(5) unfolding ds(2) by auto
  show ?thesis unfolding satisfied_def small forbid ri by blast
qed

lemma join_inplace_total:
  assumes "restrictions_inv a" "restrictions_inv b" "length (dim_restrictions a) = length (dim_restrictions b)"
  shows "\<exists>r. join_inplace a b = Inr r"
  using assms by (auto simp: join_inplace_def Let_def apply_minimum_extents_def restrictions_inv_def)

lemma satisfied_restrict_all:
  assumes "length cs = length (dim_restrictions r)"
  shows "satisfied (restrict_all_dimensions r) invertible cs shape \<longleftrightarrow>
    satisfied r invertible cs shape \<and> (\<forall>i < length cs. cs ! i = 1)"
  using assms by (auto simp: satisfied_def restrict_all_dimensions_def)

lemma satisfied_restrict_dimension:
  assumes "restrict_dimension d r = Inr r'" "length cs = length (dim_restrictions r)"
  shows "satisfied r' invertible cs shape \<longleftrightarrow> satisfied r invertible cs shape \<and> cs ! d = 1"
    "length (dim_restrictions r') = length (dim_restrictions r)"
  using assms by (auto simp: satisfied_def restrict_dimension_def rguard_eq_Inr nth_list_update split: if_splits)

lemma satisfied_minimum_extents:
  assumes "apply_minimum_extents new r = Inr r'" "restrictions_inv r" "length cs = length (dim_restrictions r)"
    and "length shape = length cs" "0 \<notin> set cs"
  shows "satisfied r' invertible cs shape \<longleftrightarrow> satisfied r invertible cs shape \<and> \<not> too_small shape cs new"
    "dim_restrictions r' = dim_restrictions r"
proof -
  have r': "r' = cache_needs_minimum_extent_check (r\<lparr>min_extents := map2 max (min_extents r) new\<rparr>)"
    "length new = length (min_extents r)"
    using assms(1) by (auto simp: apply_minimum_extents_def rguard_eq_Inr)
  then show "dim_restrictions r' = dim_restrictions r"
    by (simp add: cache_needs_minimum_extent_check_def)
  have len: "length (min_extents r) = length cs" using assms(2,3) by (simp add: restrictions_inv_def)
  have "too_small shape cs (min_extents r') \<longleftrightarrow> too_small shape cs (min_extents r) \<or> too_small shape cs new"
  proof -
    have nz: "cs ! i \<noteq> 0" if "i < length cs" for i using that assms(5) by (metis nth_mem)
    show ?thesis
      using r' len assms(4) nz by (auto simp: too_small_def too_small_max cache_needs_minimum_extent_check_def)
  qed
  then show "satisfied r' invertible cs shape \<longleftrightarrow> satisfied r invertible cs shape \<and> \<not> too_small shape cs new"
    using r' by (auto simp: satisfied_def cache_needs_minimum_extent_check_def)
qed

section \<open>Pruning and embedding domains\<close>

lemma prune_coords_embed:
  "embed_coords rs xs = Inr ys \<Longrightarrow> length xs = length (filter (\<lambda>r. r \<noteq> FORBID) rs) \<Longrightarrow>
     prune_coords rs ys = Inr xs \<and> length ys = length rs"
  by (induction rs xs arbitrary: ys rule: embed_coords.induct) (auto simp: rbind_eq_Inr)

lemma embed_coords_total:
  "length xs = length (filter (\<lambda>r. r \<noteq> FORBID) rs) \<Longrightarrow> \<exists>ys. embed_coords rs xs = Inr ys"
  by (induction rs xs rule: embed_coords.induct) auto

lemma embed_coords_prune:
  "prune_coords rs ys = Inr xs \<Longrightarrow> length ys = length rs \<Longrightarrow>
     (\<forall>i < length rs. rs ! i = FORBID \<longrightarrow> ys ! i = 0) \<Longrightarrow> embed_coords rs xs = Inr ys"
proof (induction rs ys arbitrary: xs rule: prune_coords.induct)
  case (3 res rs x zs xs)
  have "\<forall>i < length rs. rs ! i = FORBID \<longrightarrow> zs ! i = 0" using 3(5) by auto
  with 3 show ?case by (cases res) (fastforce simp: rbind_eq_Inr split: if_splits)+
qed auto

lemma to_projection_eval_aux:
  "embed_coords rs (drop d p) = Inr ys \<Longrightarrow> d + length rs < UNSET \<Longrightarrow>
     sp_eval (to_projection_loop d rs) p = ys"
proof (induction rs arbitrary: d ys)
  case (Cons res rs)
  show ?case
  proof (cases "res = FORBID")
    case False
    with Cons.prems(1) obtain x xs where x: "drop d p = x # xs"
      by (cases res; cases "drop d p") auto
    then have "p ! d = x" "drop (Suc d) p = xs"
      by (simp_all add: nth_via_drop drop_Suc tl_drop [symmetric])
    with False Cons x show ?thesis
      by (cases res) (auto simp: sp_eval_def rbind_eq_Inr)
  qed (use Cons in \<open>auto simp: sp_eval_def rbind_eq_Inr\<close>)
qed (simp add: sp_eval_def)

section \<open>Properties\<close>

text \<open>The minimum-extent check, computed in wrapping 64-bit arithmetic with a cast to a signed
  value, rejects a partition exactly when some tile (empty tiles included) of the extent cut into
  \<open>num_colors\<close> tiles has fewer than \<open>min_extent\<close> elements.\<close>

theorem tile_check_exact:
  assumes "num_colors \<noteq> 0" "uint extent + uint num_colors < 2 ^ 63"
  shows "smallest_extent_smaller_than_min_extent extent num_colors min_extent =
    Inr (\<exists>k < unat num_colors. tile_size (unat extent) (unat num_colors) k < unat min_extent)"
proof -
  have n: "0 < unat num_colors" using assms(1) by (simp add: unat_gt_0)
  have "tile_size (unat extent) (unat num_colors) (unat num_colors - 1) < unat min_extent \<longleftrightarrow>
      (\<exists>k < unat num_colors. tile_size (unat extent) (unat num_colors) k < unat min_extent)"
    using last_tile_smallest(1) [OF n] n by (meson diff_less le_less_trans zero_less_one)
  then show ?thesis using smallest_extent_exact [OF assms] by simp
qed

theorem tile_check_exact_witness:
  "smallest_extent_smaller_than_min_extent 10 4 2 = Inr True \<and>
    (\<exists>k < 4. tile_size 10 4 k < 2)"
proof -
  have "smallest_extent_smaller_than_min_extent 10 4 2 = Inr (\<exists>k < 4. tile_size 10 4 k < 2)"
    using tile_check_exact [of 4 10 2] by simp
  moreover have "\<exists>k < 4. tile_size 10 4 k < 2"
    by (rule exI [of _ 3]) (simp add: tile_size_def)
  ultimately show ?thesis by simp
qed

text \<open>C38: \<open>join\<close> is the conjunction of the two restrictions: a partition with a color shape satisfies the
  joined restrictions exactly when it satisfies both operands (on invertibility, on minimum
  extents and on forbidden dimensions), and the class invariant is kept.\<close>

theorem restrictions_join_satisfied:
  assumes "restrictions_inv a" "restrictions_inv b" "dim_restrictions b \<noteq> []"
    and "length (dim_restrictions a) = length (dim_restrictions b)"
    and "length shape = length (dim_restrictions b)" "length cs = length (dim_restrictions b)"
    and "0 \<notin> set cs"
  shows "\<exists>r x y. restrictions_join a b = Inr r \<and> restrictions_inv r \<and>
    are_satisfied_by a invertible (Some cs) (Some shape) = Inr x \<and>
    are_satisfied_by b invertible (Some cs) (Some shape) = Inr y \<and>
    are_satisfied_by r invertible (Some cs) (Some shape) = Inr (x \<and> y)"
proof -
  obtain r where r: "join_inplace a b = Inr r" using join_inplace_total [OF assms(1,2,4)] by blast
  have inv: "restrictions_inv r" by (rule join_inplace_inv [OF assms(1,2) r])
  note sat = assms(1,2) [THEN are_satisfied_by_satisfied] inv [THEN are_satisfied_by_satisfied]
  have "satisfied r invertible cs shape \<longleftrightarrow> satisfied a invertible cs shape \<and> satisfied b invertible cs shape"
    by (rule satisfied_join [OF assms(1-3,5-7) r])
  then show ?thesis
    using r inv join_inplace_dims(3) [OF r] assms(4-7)
    by (intro exI [of _ r] exI [of _ "satisfied a invertible cs shape"] exI [of _ "satisfied b invertible cs shape"])
       (simp add: restrictions_join_def sat)
qed

theorem restrictions_join_satisfied_witness:
  "\<exists>r x y. restrictions_join (mk_restrictions [ALLOW, FORBID] [2, 0] False)
      (mk_restrictions [AVOID, ALLOW] [0, 3] True) = Inr r \<and> restrictions_inv r \<and>
    are_satisfied_by (mk_restrictions [ALLOW, FORBID] [2, 0] False) True (Some [4, 1]) (Some [10, 9]) = Inr x \<and>
    are_satisfied_by (mk_restrictions [AVOID, ALLOW] [0, 3] True) True (Some [4, 1]) (Some [10, 9]) = Inr y \<and>
    are_satisfied_by r True (Some [4, 1]) (Some [10, 9]) = Inr (x \<and> y)"
  by (rule restrictions_join_satisfied) (simp_all add: restrictions_inv_mk)

text \<open>Pruning the forbidden dimensions of a launch domain and embedding it back are inverse to each
  other (on domains whose forbidden dimensions are the single color 0), and the symbolic projection
  the restrictions hand to the launcher maps a pruned point to the embedded one.\<close>

theorem prune_embed_projection:
  assumes "length p = length (filter (\<lambda>r. r \<noteq> FORBID) (dim_restrictions r))"
    and "length q = length p" "length (dim_restrictions r) < UNSET"
  shows "\<exists>d. embed_domain r \<lparr>dom_lo = p, dom_hi = q\<rparr> = Inr d \<and>
    prune_domain r d = Inr \<lparr>dom_lo = p, dom_hi = q\<rparr> \<and>
    (\<forall>d'. prune_domain r d' = Inr \<lparr>dom_lo = p, dom_hi = q\<rparr> \<longrightarrow> domain_wf d' \<longrightarrow>
       get_dim d' = length (dim_restrictions r) \<longrightarrow>
       (\<forall>i < get_dim d'. dim_restrictions r ! i = FORBID \<longrightarrow> dom_lo d' ! i = 0 \<and> dom_hi d' ! i = 0) \<longrightarrow>
       d' = d) \<and>
    sp_eval (to_projection r) p = dom_lo d \<and> sp_eval (to_projection r) q = dom_hi d"
proof -
  obtain lo hi where e: "embed_coords (dim_restrictions r) p = Inr lo"
    "embed_coords (dim_restrictions r) q = Inr hi"
    using embed_coords_total assms(1,2) by metis
  let ?d = "\<lparr>dom_lo = lo, dom_hi = hi\<rparr>"
  have pr: "prune_domain r ?d = Inr \<lparr>dom_lo = p, dom_hi = q\<rparr>"
    using prune_coords_embed [OF e(1)] prune_coords_embed [OF e(2)] assms(1,2)
    by (simp add: prune_domain_def)
  have "d' = ?d" if "prune_domain r d' = Inr \<lparr>dom_lo = p, dom_hi = q\<rparr>" "domain_wf d'"
    "get_dim d' = length (dim_restrictions r)"
    "\<forall>i < get_dim d'. dim_restrictions r ! i = FORBID \<longrightarrow> dom_lo d' ! i = 0 \<and> dom_hi d' ! i = 0" for d'
  proof -
    have "prune_coords (dim_restrictions r) (dom_lo d') = Inr p"
      "prune_coords (dim_restrictions r) (dom_hi d') = Inr q"
      using that(1) by (auto simp: prune_domain_def rbind_eq_Inr)
    from this [THEN embed_coords_prune] that(2-4) e show ?thesis
      by (cases d') (auto simp: domain_wf_def get_dim_def)
  qed
  moreover have "sp_eval (to_projection r) p = lo" "sp_eval (to_projection r) q = hi"
    using to_projection_eval_aux [of "dim_restrictions r" 0] e assms(3) by (simp_all add: to_projection_def)
  ultimately show ?thesis using e pr by (auto simp: embed_domain_def)
qed

theorem prune_embed_projection_witness:
  "embed_domain (mk_restrictions [ALLOW, FORBID, AVOID] [0, 0, 0] False) \<lparr>dom_lo = [0, 0], dom_hi = [3, 1]\<rparr>
      = Inr \<lparr>dom_lo = [0, 0, 0], dom_hi = [3, 0, 1]\<rparr> \<and>
    sp_eval (to_projection (mk_restrictions [ALLOW, FORBID, AVOID] [0, 0, 0] False)) [3, 1] = [3, 0, 1]"
proof -
  let ?r = "mk_restrictions [ALLOW, FORBID, AVOID] [0, 0, 0] False"
  obtain d where "embed_domain ?r \<lparr>dom_lo = [0, 0], dom_hi = [3, 1]\<rparr> = Inr d"
    "sp_eval (to_projection ?r) [3, 1] = dom_hi d"
    using prune_embed_projection [of "[0, 0]" ?r "[3, 1]"] by (auto simp: UNSET_def)
  then show ?thesis by (auto simp: embed_domain_def)
qed

end
