(* ===== verification/Transform.thy ===== *)
theory Transform
  imports Restriction
begin

text \<open>
  The store transforms of src/cpp/legate/data/detail/transform: \<open>Shift\<close> (shift.cc, shift.inl),
  \<open>Promote\<close> (promote.cc), \<open>Project\<close> (project.cc), \<open>DimBroadcast\<close> (dim_broadcast.cc, .inl),
  \<open>Transpose\<close> (transpose.cc) and \<open>Delinearize\<close> (delinearize.cc, .inl).

  The datatype has one constructor per class, with the members its constructor is given; each
  method of a class is one definition, and the virtual functions of \<open>StoreTransform\<close> dispatch on the
  constructor. Points are lists of coordinates, colors and shapes lists of 64-bit words. A dimension
  index is a natural number (the operations of \<open>LogicalStore\<close> reject negative ones). Unchecked
  accesses outside a vector are the error \<open>OutOfBounds\<close>, \<open>LEGATE_CHECK\<close> and \<open>LEGATE_ASSERT\<close> the
  error \<open>CheckFailed\<close>.
\<close>

section \<open>Shared helpers\<close>

definition vec_upd :: "nat \<Rightarrow> ('a \<Rightarrow> 'a) \<Rightarrow> 'a list \<Rightarrow> 'a list result" where
  "vec_upd i f xs = rbind (vec_get xs i) (\<lambda>x. vec_set i (f x) xs)"

lemma vec_upd_Inr [simp]: "i < length xs \<Longrightarrow> vec_upd i f xs = Inr (xs[i := f (xs ! i)])"
  by (simp add: vec_upd_def)

lemma vec_upd_eq_Inr: "vec_upd i f xs = Inr ys \<longleftrightarrow> i < length xs \<and> ys = xs[i := f (xs ! i)]"
  by (auto simp: vec_upd_def vec_get_def)

text \<open>\<open>array_map\<close> of utilities/detail/array_algorithms.inl, with the check of the mapping that
  debug builds make (array_algorithms.cc).\<close>

definition assert_valid_mapping :: "nat \<Rightarrow> int list \<Rightarrow> unit result" where
  "assert_valid_mapping container_size mapping =
     (if length mapping \<noteq> container_size then Inl OutOfRange
      else if mapping = [] then Inr ()
      else let sorted_mapping = sort mapping
           in if hd sorted_mapping < 0 then Inl OutOfRange
              else if int container_size \<le> last sorted_mapping then Inl OutOfRange
              else if \<exists>i < length sorted_mapping - 1. sorted_mapping ! i = sorted_mapping ! Suc i
                   then Inl InvalidArgument
              else Inr ())"

definition array_map :: "'a list \<Rightarrow> int list \<Rightarrow> 'a list result" where
  "array_map container mapping =
     rbind (assert_valid_mapping (length container) mapping)
       (\<lambda>_. Inr (map (\<lambda>i. container ! nat i) mapping))"

definition array_volume :: "u64 list \<Rightarrow> u64" where
  "array_volume xs = fold (*) xs 1"

section \<open>Affine transforms\<close>

record domain_affine_transform =
  da_transform :: matrix
  da_offset :: "coord list"

section \<open>Shift\<close>

definition shift_transform :: "nat \<Rightarrow> int \<Rightarrow> domain \<Rightarrow> domain result" where
  "shift_transform dim offset d =
     rbind (vec_upd dim (\<lambda>x. x + offset) (dom_lo d)) (\<lambda>lo.
     rbind (vec_upd dim (\<lambda>x. x + offset) (dom_hi d)) (\<lambda>hi.
     Inr \<lparr>dom_lo = lo, dom_hi = hi\<rparr>))"

definition shift_inverse_transform :: "nat \<Rightarrow> int \<Rightarrow> nat \<Rightarrow> domain_affine_transform result" where
  "shift_inverse_transform dim offset in_dim =
     rguard (dim < in_dim) CheckFailed
       (Inr \<lparr>da_transform = map (\<lambda>i. map (\<lambda>j. of_bool (i = j)) [0..<in_dim]) [0..<in_dim],
             da_offset = map (\<lambda>i. if i = dim then - offset else 0) [0..<in_dim]\<rparr>)"

definition shift_convert_point :: "nat \<Rightarrow> int \<Rightarrow> coord list \<Rightarrow> coord list result" where
  "shift_convert_point dim offset point = vec_upd dim (\<lambda>x. x + offset) point"

definition shift_invert_point :: "nat \<Rightarrow> int \<Rightarrow> coord list \<Rightarrow> coord list result" where
  "shift_invert_point dim offset point = vec_upd dim (\<lambda>x. x - offset) point"

text \<open>A shift moves no dimension: all other conversions of it are identities.\<close>

definition shift_convert :: "restrictions \<Rightarrow> bool \<Rightarrow> restrictions result" where
  "shift_convert r forbid_fake_dim = Inr r"

definition shift_convert_color :: "u64 list \<Rightarrow> u64 list result" where
  "shift_convert_color color = Inr color"

definition shift_convert_color_shape :: "u64 list \<Rightarrow> u64 list result" where
  "shift_convert_color_shape color_shape = Inr color_shape"

definition shift_convert_extents :: "u64 list \<Rightarrow> u64 list result" where
  "shift_convert_extents extents = Inr extents"

definition shift_invert_symbolic :: "symbolic_point \<Rightarrow> symbolic_point result" where
  "shift_invert_symbolic point = Inr point"

definition shift_invert :: "restrictions \<Rightarrow> restrictions result" where
  "shift_invert r = Inr r"

definition shift_invert_color :: "u64 list \<Rightarrow> u64 list result" where
  "shift_invert_color color = Inr color"

definition shift_invert_color_shape :: "u64 list \<Rightarrow> u64 list result" where
  "shift_invert_color_shape color_shape = Inr color_shape"

definition shift_invert_extents :: "u64 list \<Rightarrow> u64 list result" where
  "shift_invert_extents extents = Inr extents"

definition shift_find_imaginary_dims :: "nat list \<Rightarrow> nat list result" where
  "shift_find_imaginary_dims dims = Inr dims"

definition shift_invert_dims :: "nat list \<Rightarrow> nat list result" where
  "shift_invert_dims dims = Inr dims"

lemmas shift_identities [simp] =
  shift_convert_def shift_convert_color_def shift_convert_color_shape_def shift_convert_extents_def
  shift_invert_symbolic_def shift_invert_def shift_invert_color_def shift_invert_color_shape_def
  shift_invert_extents_def shift_find_imaginary_dims_def shift_invert_dims_def

section \<open>Promote\<close>

definition promote_coords :: "nat \<Rightarrow> coord \<Rightarrow> coord list \<Rightarrow> coord list result" where
  "promote_coords extra_dim c xs =
     rguard (extra_dim \<le> length xs) OutOfBounds
       (Inr (map (\<lambda>out_dim. if out_dim = extra_dim then c
                            else xs ! (if out_dim < extra_dim then out_dim else out_dim - 1))
          [0..<length xs + 1]))"

definition promote_transform :: "nat \<Rightarrow> u64 \<Rightarrow> domain \<Rightarrow> domain result" where
  "promote_transform extra_dim dim_size d =
     rbind (promote_coords extra_dim 0 (dom_lo d)) (\<lambda>lo.
     rbind (promote_coords extra_dim (sint dim_size - 1) (dom_hi d)) (\<lambda>hi.
     Inr \<lparr>dom_lo = lo, dom_hi = hi\<rparr>))"

definition promote_inverse_transform :: "nat \<Rightarrow> nat \<Rightarrow> domain_affine_transform result" where
  "promote_inverse_transform extra_dim in_dim =
     rguard (extra_dim < in_dim) CheckFailed
       (let out_dim = in_dim - 1; m = max out_dim 1
        in Inr \<lparr>da_transform = map (\<lambda>i. map (\<lambda>j.
                  of_bool (0 < out_dim \<and> j = (if i < extra_dim then i else i + 1))) [0..<in_dim]) [0..<m],
                da_offset = replicate m 0\<rparr>)"

definition promote_convert :: "nat \<Rightarrow> restrictions \<Rightarrow> bool \<Rightarrow> restrictions result" where
  "promote_convert extra_dim r forbid_fake_dim =
     restrictions_map (vec_insert extra_dim (if forbid_fake_dim then FORBID else AVOID))
       (vec_insert extra_dim 0) r"

definition promote_convert_color :: "nat \<Rightarrow> u64 list \<Rightarrow> u64 list result" where
  "promote_convert_color extra_dim color = vec_insert extra_dim 0 color"

definition promote_convert_color_shape :: "nat \<Rightarrow> u64 list \<Rightarrow> u64 list result" where
  "promote_convert_color_shape extra_dim color_shape = vec_insert extra_dim 1 color_shape"

definition promote_convert_point :: "nat \<Rightarrow> coord list \<Rightarrow> coord list result" where
  "promote_convert_point extra_dim point = vec_insert extra_dim 0 point"

definition promote_convert_extents :: "nat \<Rightarrow> u64 \<Rightarrow> u64 list \<Rightarrow> u64 list result" where
  "promote_convert_extents extra_dim dim_size extents = vec_insert extra_dim dim_size extents"

definition promote_invert_symbolic :: "nat \<Rightarrow> symbolic_point \<Rightarrow> symbolic_point result" where
  "promote_invert_symbolic extra_dim point = vec_erase extra_dim point"

definition promote_invert :: "nat \<Rightarrow> restrictions \<Rightarrow> restrictions result" where
  "promote_invert extra_dim r = restrictions_map (vec_erase extra_dim) (vec_erase extra_dim) r"

definition promote_invert_color :: "nat \<Rightarrow> u64 list \<Rightarrow> u64 list result" where
  "promote_invert_color extra_dim color = vec_erase extra_dim color"

definition promote_invert_color_shape :: "nat \<Rightarrow> u64 list \<Rightarrow> u64 list result" where
  "promote_invert_color_shape extra_dim color_shape = vec_erase extra_dim color_shape"

definition promote_invert_point :: "nat \<Rightarrow> coord list \<Rightarrow> coord list result" where
  "promote_invert_point extra_dim point = vec_erase extra_dim point"

definition promote_invert_extents :: "nat \<Rightarrow> u64 list \<Rightarrow> u64 list result" where
  "promote_invert_extents extra_dim extents = vec_erase extra_dim extents"

definition promote_find_imaginary_dims :: "nat \<Rightarrow> nat list \<Rightarrow> nat list" where
  "promote_find_imaginary_dims extra_dim dims =
     map (\<lambda>d. if extra_dim \<le> d then d + 1 else d) dims @ [extra_dim]"

definition promote_invert_dims :: "nat \<Rightarrow> nat list \<Rightarrow> nat list" where
  "promote_invert_dims extra_dim dims =
     map (\<lambda>d. if extra_dim < d then d - 1 else d) (remove1 extra_dim dims)"

section \<open>Project\<close>

definition project_coords :: "nat \<Rightarrow> coord list \<Rightarrow> coord list result" where
  "project_coords dim xs =
     rguard (dim < length xs) OutOfBounds
       (Inr (map ((!) xs) (filter (\<lambda>in_dim. in_dim \<noteq> dim) [0..<length xs])))"

definition project_transform :: "nat \<Rightarrow> domain \<Rightarrow> domain result" where
  "project_transform dim d =
     rbind (project_coords dim (dom_lo d)) (\<lambda>lo.
     rbind (project_coords dim (dom_hi d)) (\<lambda>hi.
     Inr \<lparr>dom_lo = lo, dom_hi = hi\<rparr>))"

definition project_inverse_transform :: "nat \<Rightarrow> int \<Rightarrow> nat \<Rightarrow> domain_affine_transform result" where
  "project_inverse_transform dim coord in_dim =
     (let out_dim = in_dim + 1
      in rguard (dim < out_dim) CheckFailed
        (Inr \<lparr>da_transform =
                (if in_dim = 0 then [[0]]
                 else map (\<lambda>i. map (\<lambda>j.
                        of_bool (i \<noteq> dim \<and> j = (if i < dim then i else i - 1))) [0..<in_dim])
                      [0..<out_dim]),
              da_offset = map (\<lambda>i. if i = dim then coord else 0) [0..<out_dim]\<rparr>))"

definition project_convert :: "nat \<Rightarrow> restrictions \<Rightarrow> restrictions result" where
  "project_convert dim r = restrictions_map (vec_erase dim) (vec_erase dim) r"

definition project_convert_color :: "nat \<Rightarrow> u64 list \<Rightarrow> u64 list result" where
  "project_convert_color dim color = vec_erase dim color"

definition project_convert_color_shape :: "nat \<Rightarrow> u64 list \<Rightarrow> u64 list result" where
  "project_convert_color_shape dim color_shape = vec_erase dim color_shape"

definition project_convert_point :: "nat \<Rightarrow> coord list \<Rightarrow> coord list result" where
  "project_convert_point dim point = vec_erase dim point"

definition project_convert_extents :: "nat \<Rightarrow> u64 list \<Rightarrow> u64 list result" where
  "project_convert_extents dim extents = vec_erase dim extents"

definition project_invert_symbolic :: "nat \<Rightarrow> symbolic_point \<Rightarrow> symbolic_point result" where
  "project_invert_symbolic dim point = vec_insert dim symbolic_expr_default point"

definition project_invert :: "nat \<Rightarrow> restrictions \<Rightarrow> restrictions result" where
  "project_invert dim r = restrictions_map (vec_insert dim ALLOW) (vec_insert dim 0) r"

definition project_invert_color :: "nat \<Rightarrow> u64 list \<Rightarrow> u64 list result" where
  "project_invert_color dim color = vec_insert dim 0 color"

definition project_invert_color_shape :: "nat \<Rightarrow> u64 list \<Rightarrow> u64 list result" where
  "project_invert_color_shape dim color_shape = vec_insert dim 1 color_shape"

definition project_invert_point :: "nat \<Rightarrow> int \<Rightarrow> coord list \<Rightarrow> coord list result" where
  "project_invert_point dim coord point = vec_insert dim coord point"

definition project_invert_extents :: "nat \<Rightarrow> u64 list \<Rightarrow> u64 list result" where
  "project_invert_extents dim extents = vec_insert dim 1 extents"

definition project_find_imaginary_dims :: "nat \<Rightarrow> nat list \<Rightarrow> nat list" where
  "project_find_imaginary_dims dim dims =
     map (\<lambda>d. if dim < d then d - 1 else d) (remove1 dim dims)"

definition project_invert_dims :: "nat \<Rightarrow> nat list \<Rightarrow> nat list" where
  "project_invert_dims dim dims = map (\<lambda>d. if dim \<le> d then d + 1 else d) dims"

section \<open>DimBroadcast\<close>

definition broadcast_transform :: "nat \<Rightarrow> u64 \<Rightarrow> domain \<Rightarrow> domain result" where
  "broadcast_transform dim dim_size d =
     Inr \<lparr>dom_lo = map (\<lambda>k. if k = dim then 0 else dom_lo d ! k) [0..<get_dim d],
          dom_hi = map (\<lambda>k. if k = dim then sint dim_size - 1 else dom_hi d ! k) [0..<get_dim d]\<rparr>"

definition broadcast_inverse_transform :: "nat \<Rightarrow> nat \<Rightarrow> domain_affine_transform result" where
  "broadcast_inverse_transform dim in_dim =
     rguard (dim < in_dim) CheckFailed
       (Inr \<lparr>da_transform = map (\<lambda>i. map (\<lambda>j. of_bool (i = j \<and> i \<noteq> dim)) [0..<in_dim]) [0..<in_dim],
             da_offset = replicate in_dim 0\<rparr>)"

definition broadcast_convert :: "nat \<Rightarrow> restrictions \<Rightarrow> bool \<Rightarrow> restrictions result" where
  "broadcast_convert dim r forbid_fake_dim =
     restrictions_map (vec_set_at dim (if forbid_fake_dim then FORBID else AVOID)) Inr r"

definition broadcast_convert_extents :: "nat \<Rightarrow> u64 \<Rightarrow> u64 list \<Rightarrow> u64 list result" where
  "broadcast_convert_extents dim dim_size extents =
     rbind (vec_get extents dim) (\<lambda>e.
     rguard (e = 1) CheckFailed (vec_set_at dim dim_size extents))"

definition broadcast_invert_symbolic :: "nat \<Rightarrow> symbolic_point \<Rightarrow> symbolic_point result" where
  "broadcast_invert_symbolic dim point = vec_set_at dim (se_constant 0) point"

definition broadcast_invert_color :: "nat \<Rightarrow> u64 list \<Rightarrow> u64 list result" where
  "broadcast_invert_color dim color = vec_set_at dim 0 color"

definition broadcast_invert_color_shape :: "nat \<Rightarrow> u64 list \<Rightarrow> u64 list result" where
  "broadcast_invert_color_shape dim color_shape = vec_set_at dim 1 color_shape"

definition broadcast_invert_point :: "nat \<Rightarrow> coord list \<Rightarrow> coord list result" where
  "broadcast_invert_point dim point = vec_set_at dim 0 point"

definition broadcast_invert_extents :: "nat \<Rightarrow> u64 list \<Rightarrow> u64 list result" where
  "broadcast_invert_extents dim extents = vec_set_at dim 1 extents"

definition broadcast_find_imaginary_dims :: "nat \<Rightarrow> nat list \<Rightarrow> nat list" where
  "broadcast_find_imaginary_dims dim dims = dims @ [dim]"

definition broadcast_convert_color :: "u64 list \<Rightarrow> u64 list result" where
  "broadcast_convert_color color = Inr color"

definition broadcast_convert_color_shape :: "u64 list \<Rightarrow> u64 list result" where
  "broadcast_convert_color_shape color_shape = Inr color_shape"

definition broadcast_convert_point :: "coord list \<Rightarrow> coord list result" where
  "broadcast_convert_point point = Inr point"

definition broadcast_invert :: "restrictions \<Rightarrow> restrictions result" where
  "broadcast_invert r = Inr r"

definition broadcast_invert_dims :: "nat list \<Rightarrow> nat list result" where
  "broadcast_invert_dims dims = Inr dims"

lemmas broadcast_identities [simp] =
  broadcast_convert_color_def broadcast_convert_color_shape_def broadcast_convert_point_def
  broadcast_invert_def broadcast_invert_dims_def

section \<open>Transpose\<close>

text \<open>The constructor computes \<open>inverse_\<close> by sorting the positions by their axis.\<close>

definition transpose_inverse :: "nat list \<Rightarrow> nat list" where
  "transpose_inverse axes = sort_key (\<lambda>i. axes ! i) [0..<length axes]"

definition transpose_coords :: "nat list \<Rightarrow> coord list \<Rightarrow> coord list result" where
  "transpose_coords axes xs =
     rmapM (\<lambda>out_dim. rbind (vec_get axes out_dim) (vec_get xs)) [0..<length xs]"

definition transpose_transform :: "nat list \<Rightarrow> domain \<Rightarrow> domain result" where
  "transpose_transform axes d =
     rbind (transpose_coords axes (dom_lo d)) (\<lambda>lo.
     rbind (transpose_coords axes (dom_hi d)) (\<lambda>hi.
     Inr \<lparr>dom_lo = lo, dom_hi = hi\<rparr>))"

definition transpose_inverse_transform :: "nat list \<Rightarrow> nat \<Rightarrow> domain_affine_transform result" where
  "transpose_inverse_transform axes in_dim =
     rguard (in_dim \<le> length axes \<and> (\<forall>j < in_dim. axes ! j < in_dim)) OutOfBounds
       (Inr \<lparr>da_transform = map (\<lambda>i. map (\<lambda>j. of_bool (i = axes ! j)) [0..<in_dim]) [0..<in_dim],
             da_offset = replicate in_dim 0\<rparr>)"

definition transpose_convert :: "nat list \<Rightarrow> restrictions \<Rightarrow> restrictions result" where
  "transpose_convert axes r =
     restrictions_map (\<lambda>ds. array_map ds (map int axes)) (\<lambda>es. array_map es (map int axes)) r"

definition transpose_convert_color :: "nat list \<Rightarrow> u64 list \<Rightarrow> u64 list result" where
  "transpose_convert_color axes color = array_map color (map int axes)"

definition transpose_convert_color_shape :: "nat list \<Rightarrow> u64 list \<Rightarrow> u64 list result" where
  "transpose_convert_color_shape axes color_shape = array_map color_shape (map int axes)"

definition transpose_convert_point :: "nat list \<Rightarrow> coord list \<Rightarrow> coord list result" where
  "transpose_convert_point axes point = array_map point (map int axes)"

definition transpose_convert_extents :: "nat list \<Rightarrow> u64 list \<Rightarrow> u64 list result" where
  "transpose_convert_extents axes extents = array_map extents (map int axes)"

definition transpose_invert_symbolic :: "nat list \<Rightarrow> symbolic_point \<Rightarrow> symbolic_point result" where
  "transpose_invert_symbolic axes point = array_map point (map int (transpose_inverse axes))"

definition transpose_invert :: "nat list \<Rightarrow> restrictions \<Rightarrow> restrictions result" where
  "transpose_invert axes r =
     restrictions_map (\<lambda>ds. array_map ds (map int (transpose_inverse axes)))
       (\<lambda>es. array_map es (map int (transpose_inverse axes))) r"

definition transpose_invert_color :: "nat list \<Rightarrow> u64 list \<Rightarrow> u64 list result" where
  "transpose_invert_color axes color = array_map color (map int (transpose_inverse axes))"

definition transpose_invert_color_shape :: "nat list \<Rightarrow> u64 list \<Rightarrow> u64 list result" where
  "transpose_invert_color_shape axes color_shape =
     array_map color_shape (map int (transpose_inverse axes))"

definition transpose_invert_point :: "nat list \<Rightarrow> coord list \<Rightarrow> coord list result" where
  "transpose_invert_point axes point = array_map point (map int (transpose_inverse axes))"

definition transpose_invert_extents :: "nat list \<Rightarrow> u64 list \<Rightarrow> u64 list result" where
  "transpose_invert_extents axes extents = array_map extents (map int (transpose_inverse axes))"

fun index_of :: "'a \<Rightarrow> 'a list \<Rightarrow> nat" where
  "index_of x [] = 0"
| "index_of x (y # ys) = (if x = y then 0 else Suc (index_of x ys))"

definition transpose_find_imaginary_dims :: "nat list \<Rightarrow> nat list \<Rightarrow> nat list result" where
  "transpose_find_imaginary_dims axes dims =
     rmapM (\<lambda>promoted. rguard (promoted \<in> set axes) CheckFailed (Inr (index_of promoted axes))) dims"

definition transpose_invert_dims :: "nat list \<Rightarrow> nat list \<Rightarrow> nat list result" where
  "transpose_invert_dims axes dims = rmapM (vec_get axes) dims"

section \<open>Delinearize\<close>

text \<open>The constructor computes the strides of the new dimensions from the innermost one.\<close>

fun delinearize_strides :: "u64 list \<Rightarrow> u64 list" where
  "delinearize_strides [] = []"
| "delinearize_strides [s] = [1]"
| "delinearize_strides (s # s' # ss) =
     (let st = delinearize_strides (s' # ss) in hd st * s' # st)"

fun delinearize_digits :: "u64 list \<Rightarrow> coord \<Rightarrow> coord list result" where
  "delinearize_digits [] x = Inr []"
| "delinearize_digits (st # sts) x =
     rguard (sint st \<noteq> 0) DivZero
       (rbind (delinearize_digits sts (x smod sint st)) (\<lambda>ys. Inr (x sdiv sint st # ys)))"

fun delinearize_coords :: "nat \<Rightarrow> nat \<Rightarrow> u64 list \<Rightarrow> coord list \<Rightarrow> coord list result" where
  "delinearize_coords dim in_dim strides [] = Inr []"
| "delinearize_coords dim in_dim strides (x # xs) =
     (if in_dim = dim
      then rbind (delinearize_digits strides x) (\<lambda>ys.
           rbind (delinearize_coords dim (Suc in_dim) strides xs) (\<lambda>zs. Inr (ys @ zs)))
      else rbind (delinearize_coords dim (Suc in_dim) strides xs) (\<lambda>zs. Inr (x # zs)))"

definition delinearize_transform :: "nat \<Rightarrow> u64 list \<Rightarrow> domain \<Rightarrow> domain result" where
  "delinearize_transform dim sizes d =
     rguard (dim < get_dim d) OutOfBounds
       (rbind (delinearize_coords dim 0 (delinearize_strides sizes) (dom_lo d)) (\<lambda>lo.
        rbind (delinearize_coords dim 0 (delinearize_strides sizes) (dom_hi d)) (\<lambda>hi.
        Inr \<lparr>dom_lo = lo, dom_hi = hi\<rparr>)))"

definition delinearize_target_ndim :: "u64 list \<Rightarrow> nat \<Rightarrow> nat" where
  "delinearize_target_ndim sizes source_ndim = source_ndim + 1 - length sizes"

definition delinearize_inverse_transform :: "nat \<Rightarrow> u64 list \<Rightarrow> nat \<Rightarrow> domain_affine_transform result" where
  "delinearize_inverse_transform dim sizes in_dim =
     (let strides = delinearize_strides sizes; k = length strides; out_dim = in_dim + 1 - k
      in Inr \<lparr>da_transform = map (\<lambda>i. map (\<lambda>j.
                 if i = dim then (if dim \<le> j \<and> j < dim + k then sint (strides ! (j - dim)) else 0)
                 else of_bool (j = (if i < dim then i else i + k - 1))) [0..<in_dim]) [0..<out_dim],
              da_offset = replicate out_dim 0\<rparr>)"

definition delinearize_convert_dims :: "nat \<Rightarrow> u64 list \<Rightarrow> restriction list \<Rightarrow> restriction list result" where
  "delinearize_convert_dims dim sizes dim_res =
     rguard (dim < length dim_res) OutOfBounds
       (Inr (take (dim + 1) dim_res @ replicate (length sizes - 1) FORBID @ drop (dim + 1) dim_res))"

definition delinearize_convert_exts :: "nat \<Rightarrow> u64 list \<Rightarrow> u64 list \<Rightarrow> u64 list result" where
  "delinearize_convert_exts dim sizes min_exts =
     (let strides = delinearize_strides sizes
      in rguard (strides \<noteq> [] \<and> dim < length min_exts) OutOfBounds
           (rguard (hd strides \<noteq> 0) DivZero
             (Inr (take dim min_exts @ [(min_exts ! dim + hd strides - 1) div hd strides] @
                drop 1 sizes @ drop (dim + 1) min_exts))))"

definition delinearize_convert :: "nat \<Rightarrow> u64 list \<Rightarrow> restrictions \<Rightarrow> restrictions result" where
  "delinearize_convert dim sizes r =
     restrictions_map (delinearize_convert_dims dim sizes) (delinearize_convert_exts dim sizes) r"

definition delinearize_convert_color :: "u64 list \<Rightarrow> u64 list result" where
  "delinearize_convert_color color = Inl NonInvertible"

definition delinearize_convert_color_shape :: "u64 list \<Rightarrow> u64 list result" where
  "delinearize_convert_color_shape color_shape = Inl NonInvertible"

definition delinearize_convert_extents :: "u64 list \<Rightarrow> u64 list result" where
  "delinearize_convert_extents extents = Inl NonInvertible"

definition delinearize_convert_point :: "coord list \<Rightarrow> coord list result" where
  "delinearize_convert_point point = Inl NonInvertible"

definition delinearize_invert_symbolic :: "nat \<Rightarrow> u64 list \<Rightarrow> symbolic_point \<Rightarrow> symbolic_point result" where
  "delinearize_invert_symbolic dim sizes point =
     rguard (dim < length point) OutOfBounds
       (Inr (take (dim + 1) point @ drop (dim + length sizes) point))"

definition delinearize_invert :: "nat \<Rightarrow> u64 list \<Rightarrow> restrictions \<Rightarrow> restrictions result" where
  "delinearize_invert dim sizes r =
     restrictions_map
       (\<lambda>dim_res. rguard (dim < length dim_res) OutOfBounds
          (Inr (take (dim + 1) dim_res @ drop (dim + length sizes) dim_res)))
       (\<lambda>min_exts. rguard (dim < length min_exts \<and> sizes \<noteq> []) OutOfBounds
          (Inr (take dim min_exts @ [min_exts ! dim * hd (delinearize_strides sizes)] @
             drop (dim + length sizes) min_exts))) r"

text \<open>The loops of the four \<open>invert_\<close> functions read the components \<open>dim_ + 1, ..., dim_ + n - 1\<close>
  and erase them one at a time at position \<open>dim_ + 1\<close>.\<close>

definition delinearize_inner :: "nat \<Rightarrow> u64 list \<Rightarrow> 'a list \<Rightarrow> 'a list result" where
  "delinearize_inner dim sizes xs =
     rmapM (\<lambda>idx. vec_get xs (dim + idx)) [1..<length sizes]"

fun erase_times :: "nat \<Rightarrow> nat \<Rightarrow> 'a list \<Rightarrow> 'a list result" where
  "erase_times 0 i xs = Inr xs"
| "erase_times (Suc n) i xs = rbind (vec_erase i xs) (erase_times n i)"

definition delinearize_invert_color :: "nat \<Rightarrow> u64 list \<Rightarrow> u64 list \<Rightarrow> u64 list result" where
  "delinearize_invert_color dim sizes color =
     rbind (delinearize_inner dim sizes color) (\<lambda>inner.
     rguard (fold (+) inner 0 = 0) NonInvertible
       (erase_times (length sizes - 1) (dim + 1) color))"

definition delinearize_invert_color_shape :: "nat \<Rightarrow> u64 list \<Rightarrow> u64 list \<Rightarrow> u64 list result" where
  "delinearize_invert_color_shape dim sizes color_shape =
     rbind (delinearize_inner dim sizes color_shape) (\<lambda>inner.
     rguard (fold (*) inner 1 = 1) NonInvertible
       (erase_times (length sizes - 1) (dim + 1) color_shape))"

definition delinearize_invert_point :: "nat \<Rightarrow> u64 list \<Rightarrow> coord list \<Rightarrow> coord list result" where
  "delinearize_invert_point dim sizes point =
     rbind (delinearize_inner dim sizes point) (\<lambda>inner.
     rguard (fold (+) inner 0 = 0) NonInvertible
       (rbind (erase_times (length sizes - 1) (dim + 1) point) (\<lambda>p.
        rbind (vec_get (delinearize_strides sizes) 0) (\<lambda>st. vec_upd dim (\<lambda>x. x * sint st) p))))"

definition delinearize_invert_extents :: "nat \<Rightarrow> u64 list \<Rightarrow> u64 list \<Rightarrow> u64 list result" where
  "delinearize_invert_extents dim sizes extents =
     rbind (rmapM (\<lambda>idx. rbind (vec_get extents (dim + idx)) (\<lambda>e.
        rguard (e = sizes ! idx) NonInvertible (Inr ()))) [1..<length sizes]) (\<lambda>_.
       (rbind (erase_times (length sizes - 1) (dim + 1) extents) (\<lambda>es.
        rbind (vec_get (delinearize_strides sizes) 0) (\<lambda>st. vec_upd dim (\<lambda>x. x * st) es))))"

definition delinearize_find_imaginary_dims :: "nat list \<Rightarrow> nat list" where
  "delinearize_find_imaginary_dims dims = dims"

definition delinearize_invert_dims :: "nat \<Rightarrow> u64 list \<Rightarrow> nat list \<Rightarrow> nat list result" where
  "delinearize_invert_dims dim sizes dims =
     (let num_extra = int (length sizes) - 1;
          kept = filter (\<lambda>d. \<not> (dim < d \<and> int d \<le> int dim + num_extra)) dims
      in rguard (length kept < length dims) CheckFailed
           (Inr (map (\<lambda>d. if int dim + num_extra < int d then nat (int d - num_extra) else d) kept)))"

end
