(* ===== verification/TransformStack.thy ===== *)
theory TransformStack
  imports Transform
begin

text \<open>
  The stack of transforms of a store view: \<open>TransformStack\<close> of
  src/cpp/legate/data/detail/transform/transform_stack.cc and .inl.

  A stack is a list: its head is \<open>transform_\<close>, its tail the stack \<open>parent_\<close> points to, and the empty
  list the identity (\<open>transform_ == nullptr\<close>). \<open>convert_\<close> runs from the root of the stack to its top,
  \<open>invert_\<close> from the top to the root. The virtual functions of \<open>StoreTransform\<close> dispatch on the class
  of the transform.
\<close>

datatype transform =
    Shift nat int
  | Promote nat u64
  | Project nat int
  | DimBroadcast nat u64
  | Transpose "nat list"
  | Delinearize nat "u64 list"

section \<open>Virtual functions\<close>

fun t_transform :: "transform \<Rightarrow> domain \<Rightarrow> domain result" where
  "t_transform (Shift d off) = shift_transform d off"
| "t_transform (Promote d sz) = promote_transform d sz"
| "t_transform (Project d c) = project_transform d"
| "t_transform (DimBroadcast d sz) = broadcast_transform d sz"
| "t_transform (Transpose axes) = transpose_transform axes"
| "t_transform (Delinearize d sizes) = delinearize_transform d sizes"

fun t_inverse_transform :: "transform \<Rightarrow> nat \<Rightarrow> domain_affine_transform result" where
  "t_inverse_transform (Shift d off) = shift_inverse_transform d off"
| "t_inverse_transform (Promote d sz) = promote_inverse_transform d"
| "t_inverse_transform (Project d c) = project_inverse_transform d c"
| "t_inverse_transform (DimBroadcast d sz) = broadcast_inverse_transform d"
| "t_inverse_transform (Transpose axes) = transpose_inverse_transform axes"
| "t_inverse_transform (Delinearize d sizes) = delinearize_inverse_transform d sizes"

fun t_convert :: "transform \<Rightarrow> bool \<Rightarrow> restrictions \<Rightarrow> restrictions result" where
  "t_convert (Shift d off) b r = shift_convert r b"
| "t_convert (Promote d sz) b r = promote_convert d r b"
| "t_convert (Project d c) b r = project_convert d r"
| "t_convert (DimBroadcast d sz) b r = broadcast_convert d r b"
| "t_convert (Transpose axes) b r = transpose_convert axes r"
| "t_convert (Delinearize d sizes) b r = delinearize_convert d sizes r"

fun t_convert_color :: "transform \<Rightarrow> u64 list \<Rightarrow> u64 list result" where
  "t_convert_color (Shift d off) = shift_convert_color"
| "t_convert_color (Promote d sz) = promote_convert_color d"
| "t_convert_color (Project d c) = project_convert_color d"
| "t_convert_color (DimBroadcast d sz) = broadcast_convert_color"
| "t_convert_color (Transpose axes) = transpose_convert_color axes"
| "t_convert_color (Delinearize d sizes) = delinearize_convert_color"

fun t_convert_color_shape :: "transform \<Rightarrow> u64 list \<Rightarrow> u64 list result" where
  "t_convert_color_shape (Shift d off) = shift_convert_color_shape"
| "t_convert_color_shape (Promote d sz) = promote_convert_color_shape d"
| "t_convert_color_shape (Project d c) = project_convert_color_shape d"
| "t_convert_color_shape (DimBroadcast d sz) = broadcast_convert_color_shape"
| "t_convert_color_shape (Transpose axes) = transpose_convert_color_shape axes"
| "t_convert_color_shape (Delinearize d sizes) = delinearize_convert_color_shape"

fun t_convert_point :: "transform \<Rightarrow> coord list \<Rightarrow> coord list result" where
  "t_convert_point (Shift d off) = shift_convert_point d off"
| "t_convert_point (Promote d sz) = promote_convert_point d"
| "t_convert_point (Project d c) = project_convert_point d"
| "t_convert_point (DimBroadcast d sz) = broadcast_convert_point"
| "t_convert_point (Transpose axes) = transpose_convert_point axes"
| "t_convert_point (Delinearize d sizes) = delinearize_convert_point"

fun t_convert_extents :: "transform \<Rightarrow> u64 list \<Rightarrow> u64 list result" where
  "t_convert_extents (Shift d off) = shift_convert_extents"
| "t_convert_extents (Promote d sz) = promote_convert_extents d sz"
| "t_convert_extents (Project d c) = project_convert_extents d"
| "t_convert_extents (DimBroadcast d sz) = broadcast_convert_extents d sz"
| "t_convert_extents (Transpose axes) = transpose_convert_extents axes"
| "t_convert_extents (Delinearize d sizes) = delinearize_convert_extents"

fun t_invert_symbolic :: "transform \<Rightarrow> symbolic_point \<Rightarrow> symbolic_point result" where
  "t_invert_symbolic (Shift d off) = shift_invert_symbolic"
| "t_invert_symbolic (Promote d sz) = promote_invert_symbolic d"
| "t_invert_symbolic (Project d c) = project_invert_symbolic d"
| "t_invert_symbolic (DimBroadcast d sz) = broadcast_invert_symbolic d"
| "t_invert_symbolic (Transpose axes) = transpose_invert_symbolic axes"
| "t_invert_symbolic (Delinearize d sizes) = delinearize_invert_symbolic d sizes"

fun t_invert :: "transform \<Rightarrow> restrictions \<Rightarrow> restrictions result" where
  "t_invert (Shift d off) = shift_invert"
| "t_invert (Promote d sz) = promote_invert d"
| "t_invert (Project d c) = project_invert d"
| "t_invert (DimBroadcast d sz) = broadcast_invert"
| "t_invert (Transpose axes) = transpose_invert axes"
| "t_invert (Delinearize d sizes) = delinearize_invert d sizes"

fun t_invert_color :: "transform \<Rightarrow> u64 list \<Rightarrow> u64 list result" where
  "t_invert_color (Shift d off) = shift_invert_color"
| "t_invert_color (Promote d sz) = promote_invert_color d"
| "t_invert_color (Project d c) = project_invert_color d"
| "t_invert_color (DimBroadcast d sz) = broadcast_invert_color d"
| "t_invert_color (Transpose axes) = transpose_invert_color axes"
| "t_invert_color (Delinearize d sizes) = delinearize_invert_color d sizes"

fun t_invert_color_shape :: "transform \<Rightarrow> u64 list \<Rightarrow> u64 list result" where
  "t_invert_color_shape (Shift d off) = shift_invert_color_shape"
| "t_invert_color_shape (Promote d sz) = promote_invert_color_shape d"
| "t_invert_color_shape (Project d c) = project_invert_color_shape d"
| "t_invert_color_shape (DimBroadcast d sz) = broadcast_invert_color_shape d"
| "t_invert_color_shape (Transpose axes) = transpose_invert_color_shape axes"
| "t_invert_color_shape (Delinearize d sizes) = delinearize_invert_color_shape d sizes"

fun t_invert_point :: "transform \<Rightarrow> coord list \<Rightarrow> coord list result" where
  "t_invert_point (Shift d off) = shift_invert_point d off"
| "t_invert_point (Promote d sz) = promote_invert_point d"
| "t_invert_point (Project d c) = project_invert_point d c"
| "t_invert_point (DimBroadcast d sz) = broadcast_invert_point d"
| "t_invert_point (Transpose axes) = transpose_invert_point axes"
| "t_invert_point (Delinearize d sizes) = delinearize_invert_point d sizes"

fun t_invert_extents :: "transform \<Rightarrow> u64 list \<Rightarrow> u64 list result" where
  "t_invert_extents (Shift d off) = shift_invert_extents"
| "t_invert_extents (Promote d sz) = promote_invert_extents d"
| "t_invert_extents (Project d c) = project_invert_extents d"
| "t_invert_extents (DimBroadcast d sz) = broadcast_invert_extents d"
| "t_invert_extents (Transpose axes) = transpose_invert_extents axes"
| "t_invert_extents (Delinearize d sizes) = delinearize_invert_extents d sizes"

fun t_invert_dims :: "transform \<Rightarrow> nat list \<Rightarrow> nat list result" where
  "t_invert_dims (Shift d off) = shift_invert_dims"
| "t_invert_dims (Promote d sz) = (\<lambda>dims. Inr (promote_invert_dims d dims))"
| "t_invert_dims (Project d c) = (\<lambda>dims. Inr (project_invert_dims d dims))"
| "t_invert_dims (DimBroadcast d sz) = broadcast_invert_dims"
| "t_invert_dims (Transpose axes) = transpose_invert_dims axes"
| "t_invert_dims (Delinearize d sizes) = delinearize_invert_dims d sizes"

fun t_find_imaginary_dims :: "transform \<Rightarrow> nat list \<Rightarrow> nat list result" where
  "t_find_imaginary_dims (Shift d off) = shift_find_imaginary_dims"
| "t_find_imaginary_dims (Promote d sz) = (\<lambda>dims. Inr (promote_find_imaginary_dims d dims))"
| "t_find_imaginary_dims (Project d c) = (\<lambda>dims. Inr (project_find_imaginary_dims d dims))"
| "t_find_imaginary_dims (DimBroadcast d sz) = (\<lambda>dims. Inr (broadcast_find_imaginary_dims d dims))"
| "t_find_imaginary_dims (Transpose axes) = transpose_find_imaginary_dims axes"
| "t_find_imaginary_dims (Delinearize d sizes) = (\<lambda>dims. Inr (delinearize_find_imaginary_dims dims))"

fun t_target_ndim :: "transform \<Rightarrow> nat \<Rightarrow> nat" where
  "t_target_ndim (Shift d off) n = n"
| "t_target_ndim (Promote d sz) n = n - 1"
| "t_target_ndim (Project d c) n = n + 1"
| "t_target_ndim (DimBroadcast d sz) n = n"
| "t_target_ndim (Transpose axes) n = n"
| "t_target_ndim (Delinearize d sizes) n = delinearize_target_ndim sizes n"

fun t_is_convertible :: "transform \<Rightarrow> bool" where
  "t_is_convertible (Delinearize d sizes) = False"
| "t_is_convertible _ = True"

section \<open>The stack\<close>

type_synonym transform_stack = "transform list"

definition stack_identity :: "transform_stack \<Rightarrow> bool" where
  "stack_identity ts \<longleftrightarrow> ts = []"

fun stack_is_convertible :: "transform_stack \<Rightarrow> bool" where
  "stack_is_convertible [] = True"
| "stack_is_convertible (t # ts) = (t_is_convertible t \<and> stack_is_convertible ts)"

fun stack_convert_visit :: "(transform \<Rightarrow> 'a \<Rightarrow> 'a result) \<Rightarrow> transform_stack \<Rightarrow> 'a \<Rightarrow> 'a result" where
  "stack_convert_visit visitor [] x = Inr x"
| "stack_convert_visit visitor (t # parent) x =
     (if parent = [] then visitor t x
      else rbind (stack_convert_visit visitor parent x) (visitor t))"

fun stack_invert_visit :: "(transform \<Rightarrow> 'a \<Rightarrow> 'a result) \<Rightarrow> transform_stack \<Rightarrow> 'a \<Rightarrow> 'a result" where
  "stack_invert_visit visitor [] x = Inr x"
| "stack_invert_visit visitor (t # parent) x =
     rbind (visitor t x) (\<lambda>y. if parent = [] then Inr y else stack_invert_visit visitor parent y)"

definition stack_convert :: "transform_stack \<Rightarrow> restrictions \<Rightarrow> bool \<Rightarrow> restrictions result" where
  "stack_convert ts r forbid_fake_dim = stack_convert_visit (\<lambda>t. t_convert t forbid_fake_dim) ts r"

definition stack_convert_color :: "transform_stack \<Rightarrow> u64 list \<Rightarrow> u64 list result" where
  "stack_convert_color = stack_convert_visit t_convert_color"

definition stack_convert_color_shape :: "transform_stack \<Rightarrow> u64 list \<Rightarrow> u64 list result" where
  "stack_convert_color_shape = stack_convert_visit t_convert_color_shape"

definition stack_convert_point :: "transform_stack \<Rightarrow> coord list \<Rightarrow> coord list result" where
  "stack_convert_point = stack_convert_visit t_convert_point"

definition stack_convert_extents :: "transform_stack \<Rightarrow> u64 list \<Rightarrow> u64 list result" where
  "stack_convert_extents = stack_convert_visit t_convert_extents"

definition stack_invert_symbolic :: "transform_stack \<Rightarrow> symbolic_point \<Rightarrow> symbolic_point result" where
  "stack_invert_symbolic = stack_invert_visit t_invert_symbolic"

definition stack_invert :: "transform_stack \<Rightarrow> restrictions \<Rightarrow> restrictions result" where
  "stack_invert = stack_invert_visit t_invert"

definition stack_invert_color :: "transform_stack \<Rightarrow> u64 list \<Rightarrow> u64 list result" where
  "stack_invert_color = stack_invert_visit t_invert_color"

definition stack_invert_color_shape :: "transform_stack \<Rightarrow> u64 list \<Rightarrow> u64 list result" where
  "stack_invert_color_shape = stack_invert_visit t_invert_color_shape"

definition stack_invert_dims :: "transform_stack \<Rightarrow> nat list \<Rightarrow> nat list result" where
  "stack_invert_dims = stack_invert_visit t_invert_dims"

definition stack_invert_point :: "transform_stack \<Rightarrow> coord list \<Rightarrow> coord list result" where
  "stack_invert_point = stack_invert_visit t_invert_point"

definition stack_invert_extents :: "transform_stack \<Rightarrow> u64 list \<Rightarrow> u64 list result" where
  "stack_invert_extents = stack_invert_visit t_invert_extents"

fun stack_transform :: "transform_stack \<Rightarrow> domain \<Rightarrow> domain result" where
  "stack_transform [] d = Inl CheckFailed"
| "stack_transform (t # parent) d =
     rbind (if parent = [] then Inr d else stack_transform parent d) (t_transform t)"

definition combine ::
  "legion_ops \<Rightarrow> domain_affine_transform \<Rightarrow> domain_affine_transform \<Rightarrow> domain_affine_transform" where
  "combine L lhs rhs =
     \<lparr>da_transform = mat_mul L (da_transform lhs) (da_transform rhs),
      da_offset = pt_add L (mat_vec L (da_transform lhs) (da_offset rhs)) (da_offset lhs)\<rparr>"

fun stack_inverse_transform ::
  "legion_ops \<Rightarrow> transform_stack \<Rightarrow> nat \<Rightarrow> domain_affine_transform result" where
  "stack_inverse_transform L [] in_dim = Inl CheckFailed"
| "stack_inverse_transform L (t # parent) in_dim =
     rbind (t_inverse_transform t in_dim) (\<lambda>result.
     if parent = [] then Inr result
     else rbind (stack_inverse_transform L parent (t_target_ndim t in_dim)) (\<lambda>p.
          Inr (combine L p result)))"

fun stack_pop :: "transform_stack \<Rightarrow> (transform \<times> transform_stack) result" where
  "stack_pop [] = Inl CheckFailed"
| "stack_pop (t # parent) = Inr (t, parent)"

fun stack_find_imaginary_dims :: "transform_stack \<Rightarrow> nat list result" where
  "stack_find_imaginary_dims [] = Inr []"
| "stack_find_imaginary_dims (t # parent) =
     rbind (stack_find_imaginary_dims parent) (t_find_imaginary_dims t)"

end
