(* ===== verification/TransformAffine.thy ===== *)
theory TransformAffine
  imports TransformStack "HOL-Library.Multiset"
begin

text \<open>
  What the affine map of a stack of transforms means. A view's points reach the storage in two ways:
  the runtime maps a point with \<open>invert_point\<close>, and the accessors of a task use the matrix and offset
  that \<open>inverse_transform\<close> computes by composing the maps of the transforms (\<open>combine\<close>). This theory
  shows that both agree, for any library that multiplies matrices (locale \<open>legion_matrix\<close>).

  A store without dimensions is represented by one dimension of extent 1 in Legion; \<open>pad_point\<close> is
  that representation, and the maps of \<open>Promote\<close> and \<open>Project\<close> special-case it.
\<close>

section \<open>Well-formed transforms\<close>

definition axes_ok :: "nat list \<Rightarrow> nat \<Rightarrow> bool" where
  "axes_ok axes n \<longleftrightarrow> length axes = n \<and> distinct axes \<and> (\<forall>a \<in> set axes. a < n)"

text \<open>\<open>t_ok t n\<close>: the transform applies to a store of \<open>n\<close> dimensions, which is what the operations
  of \<open>LogicalStore\<close> check before they push it.\<close>

fun t_ok :: "transform \<Rightarrow> nat \<Rightarrow> bool" where
  "t_ok (Shift d off) n = (d < n)"
| "t_ok (Promote d sz) n = (d \<le> n)"
| "t_ok (Project d c) n = (d < n)"
| "t_ok (DimBroadcast d sz) n = (d < n)"
| "t_ok (Transpose axes) n = (axes_ok axes n \<and> 0 < n)"
| "t_ok (Delinearize d sizes) n = (d < n \<and> sizes \<noteq> [])"

fun t_child_ndim :: "transform \<Rightarrow> nat \<Rightarrow> nat" where
  "t_child_ndim (Shift d off) n = n"
| "t_child_ndim (Promote d sz) n = n + 1"
| "t_child_ndim (Project d c) n = n - 1"
| "t_child_ndim (DimBroadcast d sz) n = n"
| "t_child_ndim (Transpose axes) n = n"
| "t_child_ndim (Delinearize d sizes) n = n + length sizes - 1"

fun stack_ndim :: "transform_stack \<Rightarrow> nat \<Rightarrow> nat" where
  "stack_ndim [] n = n"
| "stack_ndim (t # ts) n = t_child_ndim t (stack_ndim ts n)"

fun stack_ok :: "transform_stack \<Rightarrow> nat \<Rightarrow> bool" where
  "stack_ok [] n = True"
| "stack_ok (t # ts) n = (stack_ok ts n \<and> t_ok t (stack_ndim ts n))"

lemma t_target_child: "t_ok t n \<Longrightarrow> t_target_ndim t (t_child_ndim t n) = n"
  by (cases t) (auto simp: delinearize_target_ndim_def Suc_leI dest!: length_greater_0_conv [THEN iffD2])

section \<open>Permutations\<close>

lemma sorted_adjacent_distinct:
  assumes "sorted (xs :: 'a :: linorder list)"
  shows "(\<exists>i < length xs - 1. xs ! i = xs ! Suc i) \<longleftrightarrow> \<not> distinct xs"
proof
  assume "\<exists>i < length xs - 1. xs ! i = xs ! Suc i"
  then obtain i where i: "i < length xs - 1" "xs ! i = xs ! Suc i" by blast
  then have "Suc i < length xs" by simp
  with i show "\<not> distinct xs" using nth_eq_iff_index_eq [of xs i "Suc i"] by auto
next
  assume nd: "\<not> distinct xs"
  show "\<exists>i < length xs - 1. xs ! i = xs ! Suc i"
  proof (rule ccontr)
    assume "\<not> (\<exists>i < length xs - 1. xs ! i = xs ! Suc i)"
    then have ne: "xs ! i \<noteq> xs ! Suc i" if "Suc i < length xs" for i
      using that by (metis Suc_eq_plus1 less_diff_conv)
    have "\<forall>i. Suc i < length xs \<longrightarrow> xs ! i < xs ! Suc i"
    proof (intro allI impI)
      fix i assume "Suc i < length xs"
      then show "xs ! i < xs ! Suc i"
        using assms ne [of i] sorted_nth_mono [of xs i "Suc i"] by (simp add: order_less_le)
    qed
    then have "sorted_wrt (<) xs" by (subst sorted_wrt_iff_nth_Suc_transp) auto
    then show False using nd by (simp add: strict_sorted_iff)
  qed
qed

lemma assert_valid_mapping_iff:
  "assert_valid_mapping n m = Inr () \<longleftrightarrow>
     length m = n \<and> distinct m \<and> (\<forall>x \<in> set m. 0 \<le> x \<and> x < int n)"
proof (cases "length m = n \<and> m \<noteq> []")
  case True
  let ?s = "sort m"
  have ne: "?s \<noteq> []" using True by (metis length_0_conv length_sort)
  have lo: "\<not> hd ?s < 0 \<longleftrightarrow> (\<forall>x \<in> set m. 0 \<le> x)"
  proof -
    have "\<forall>x \<in> set ?s. hd ?s \<le> x" using sorted_sort [of m] ne by (cases ?s) auto
    moreover have "hd ?s \<in> set m" using ne by (metis hd_in_set set_sort)
    ultimately show ?thesis by force
  qed
  have hi: "\<not> int n \<le> last ?s \<longleftrightarrow> (\<forall>x \<in> set m. x < int n)"
  proof -
    have "\<forall>x \<in> set ?s. x \<le> last ?s"
      using sorted_sort [of m] ne
      by (metis append_butlast_last_id order_refl sorted_append set_ConsD empty_iff empty_set Un_iff set_append list.set_intros(1))
    moreover have "last ?s \<in> set m" using ne by (metis last_in_set set_sort)
    ultimately show ?thesis by force
  qed
  have d: "(\<exists>i < length ?s - 1. ?s ! i = ?s ! Suc i) \<longleftrightarrow> \<not> distinct m"
    using sorted_adjacent_distinct [OF sorted_sort, of m] by simp
  show ?thesis
    using True lo hi d by (auto simp: assert_valid_mapping_def Let_def simp del: length_sort)
qed (auto simp: assert_valid_mapping_def)

lemma axes_ok_mapping: "axes_ok axes n \<Longrightarrow> assert_valid_mapping n (map int axes) = Inr ()"
  by (auto simp: axes_ok_def assert_valid_mapping_iff distinct_map)

lemma array_map_axes [simp]:
  "axes_ok axes n \<Longrightarrow> length xs = n \<Longrightarrow> array_map xs (map int axes) = Inr (map ((!) xs) axes)"
  by (simp add: array_map_def axes_ok_mapping)

lemma axes_ok_perm: "axes_ok axes n \<Longrightarrow> mset axes = mset [0..<n]"
proof -
  assume a: "axes_ok axes n"
  then have "set axes \<subseteq> {0..<n}" "card (set axes) = card {0..<n}"
    by (auto simp: axes_ok_def distinct_card)
  then have "set axes = {0..<n}" by (intro card_subset_eq) auto
  then show ?thesis using a
    by (metis atLeastLessThan_upt axes_ok_def distinct_upt set_eq_iff_mset_eq_distinct)
qed

lemma transpose_inverse_ok:
  assumes "axes_ok axes n"
  shows "axes_ok (transpose_inverse axes) n" "map ((!) axes) (transpose_inverse axes) = [0..<n]"
proof -
  let ?inv = "transpose_inverse axes"
  have len: "length axes = n" using assms by (simp add: axes_ok_def)
  have m: "mset ?inv = mset [0..<n]" by (simp add: transpose_inverse_def len)
  then have "set ?inv = {0..<n}" "distinct ?inv" "length ?inv = n"
    by (metis mset_eq_setD set_upt, metis distinct_upt mset_eq_imp_distinct_iff, metis length_upt minus_nat.diff_0 size_mset)
  then show "axes_ok ?inv n" by (simp add: axes_ok_def)
  have "mset (map ((!) axes) ?inv) = image_mset ((!) axes) (mset [0..<n])" by (simp add: m)
  also have "\<dots> = mset axes" by (metis len map_nth mset_map)
  also have "\<dots> = mset [0..<n]" by (rule axes_ok_perm [OF assms])
  finally have "mset (map ((!) axes) ?inv) = mset [0..<n]" .
  moreover have "sorted (map ((!) axes) ?inv)"
    unfolding transpose_inverse_def by (rule sorted_sort_key)
  ultimately show "map ((!) axes) ?inv = [0..<n]"
    by (metis properties_for_sort sorted_upt sorted_sort_id)
qed

lemma transpose_inverse_nth:
  assumes "axes_ok axes n" "i < n"
  shows "axes ! (transpose_inverse axes ! i) = i" "transpose_inverse axes ! i < n"
proof -
  note o = transpose_inverse_ok [OF assms(1)]
  have l: "length (transpose_inverse axes) = n" using o(1) by (simp add: axes_ok_def)
  have "map ((!) axes) (transpose_inverse axes) ! i = [0..<n] ! i" by (simp only: o(2))
  then show "axes ! (transpose_inverse axes ! i) = i" using l assms(2) by simp
  show "transpose_inverse axes ! i < n" using o(1) l assms(2) by (auto simp: axes_ok_def)
qed

lemma transpose_inverse_axes:
  assumes "axes_ok axes n" "j < n"
  shows "transpose_inverse axes ! (axes ! j) = j"
proof -
  have "axes ! j < n" using assms by (simp add: axes_ok_def)
  then have "axes ! (transpose_inverse axes ! (axes ! j)) = axes ! j"
    "transpose_inverse axes ! (axes ! j) < n"
    using transpose_inverse_nth [OF assms(1)] by auto
  then show ?thesis using assms by (metis axes_ok_def nth_eq_iff_index_eq)
qed

section \<open>Applying an affine map\<close>

definition da_wf :: "domain_affine_transform \<Rightarrow> nat \<Rightarrow> nat \<Rightarrow> bool" where
  "da_wf A m n \<longleftrightarrow> length (da_transform A) = m \<and> length (da_offset A) = m \<and>
     (\<forall>i < m. length (da_transform A ! i) = n)"

definition da_eval :: "domain_affine_transform \<Rightarrow> coord list \<Rightarrow> coord list" where
  "da_eval A p = map (\<lambda>i. (\<Sum>j < length p. da_transform A ! i ! j * p ! j) + da_offset A ! i)
     [0..<length (da_offset A)]"

definition da_apply :: "legion_ops \<Rightarrow> domain_affine_transform \<Rightarrow> coord list \<Rightarrow> coord list" where
  "da_apply L A p = pt_add L (mat_vec L (da_transform A) p) (da_offset A)"

lemma da_eval_length [simp]: "length (da_eval A p) = length (da_offset A)"
  by (simp add: da_eval_def)

context legion_matrix
begin

lemma da_apply_eval: "da_wf A m n \<Longrightarrow> length p = n \<Longrightarrow> da_apply L A p = da_eval A p"
  by (rule nth_equalityI)
     (auto simp: da_apply_def da_eval_def da_wf_def pt_add_length pt_add_nth mat_vec_length mat_vec_nth)

lemma combine_wf:
  assumes "da_wf A m k" "da_wf B k n" "0 < k"
  shows "da_wf (combine L A B) m n"
  using assms
  by (auto simp: da_wf_def combine_def mat_mul_length pt_add_length mat_vec_length intro!: mat_mul_row_length)

lemma combine_eval:
  assumes A: "da_wf A m k" and B: "da_wf B k n" and k: "0 < k" and p: "length p = n"
  shows "da_eval (combine L A B) p = da_eval A (da_eval B p)"
proof (rule nth_equalityI)
  have lo: "length (da_offset (combine L A B)) = m"
    using combine_wf [OF A B k] by (simp add: da_wf_def)
  show "length (da_eval (combine L A B) p) = length (da_eval A (da_eval B p))"
    using lo A by (simp add: da_wf_def)
  fix i assume "i < length (da_eval (combine L A B) p)"
  then have i: "i < m" using lo by simp
  let ?a = "\<lambda>r. da_transform A ! i ! r" and ?b = "\<lambda>r j. da_transform B ! r ! j"
  have mul: "da_transform (combine L A B) ! i ! j = (\<Sum>r < k. ?a r * ?b r j)" if "j < n" for j
    using A B k i that mat_mul_nth [of i "da_transform A" "da_transform B" n j]
    by (auto simp: combine_def da_wf_def)
  have off: "da_offset (combine L A B) ! i = (\<Sum>r < k. ?a r * da_offset B ! r) + da_offset A ! i"
    using A B i by (simp add: combine_def da_wf_def pt_add_nth mat_vec_length mat_vec_nth)
  have "(\<Sum>j < n. da_transform (combine L A B) ! i ! j * p ! j) = (\<Sum>j < n. \<Sum>r < k. ?a r * (?b r j * p ! j))"
    by (intro sum.cong) (simp_all add: mul sum_distrib_right mult.assoc)
  also have "\<dots> = (\<Sum>r < k. ?a r * (\<Sum>j < n. ?b r j * p ! j))"
    by (subst sum.swap) (simp add: sum_distrib_left)
  finally have "da_eval (combine L A B) p ! i
      = (\<Sum>r < k. ?a r * ((\<Sum>j < n. ?b r j * p ! j) + da_offset B ! r)) + da_offset A ! i"
    using i lo p off by (simp add: da_eval_def distrib_left sum.distrib)
  moreover have "da_eval A (da_eval B p) ! i
      = (\<Sum>r < k. ?a r * ((\<Sum>j < n. ?b r j * p ! j) + da_offset B ! r)) + da_offset A ! i"
    using i A B p by (simp add: da_eval_def da_wf_def)
  ultimately show "da_eval (combine L A B) p ! i = da_eval A (da_eval B p) ! i" by simp
qed

end

definition pad_point :: "coord list \<Rightarrow> coord list" where
  "pad_point p = (if p = [] then [0] else p)"

lemma pad_point_simps [simp]: "p \<noteq> [] \<Longrightarrow> pad_point p = p" "pad_point [] = [0]"
  by (simp_all add: pad_point_def)

lemma length_pad_point: "length (pad_point p) = max 1 (length p)"
  by (cases p) (auto simp: pad_point_def)

text \<open>The product of a row with at most one entry 1.\<close>

lemma sum_row:
  assumes "\<And>j. j < n \<Longrightarrow> row ! j = (of_bool (c \<and> j = k) :: int)" "c \<Longrightarrow> k < n"
  shows "(\<Sum>j < n. row ! j * p ! j) = (if c then p ! k else 0)"
proof (cases c)
  case True
  have "(\<Sum>j < n. row ! j * p ! j) = (\<Sum>j \<in> {..<n}. if k = j then p ! j else 0)"
    using assms True by (intro sum.cong) auto
  also have "\<dots> = p ! k" using assms(2) True by (subst sum.delta') auto
  finally show ?thesis using True by simp
qed (use assms in simp)

lemma da_evalI:
  assumes "length (da_offset A) = length q"
    and "\<And>i. i < length q \<Longrightarrow> (\<Sum>j < length p. da_transform A ! i ! j * p ! j) + da_offset A ! i = q ! i"
  shows "da_eval A p = q"
  using assms by (intro nth_equalityI) (simp_all add: da_eval_def)

section \<open>One transform\<close>

text \<open>The check of \<open>Delinearize::invert_point\<close> only looks at the sum of the inner coordinates; it means
  that they are all zero when none is negative.\<close>

fun inner_nonneg :: "transform \<Rightarrow> coord list \<Rightarrow> bool" where
  "inner_nonneg (Delinearize d sizes) p = list_all (\<lambda>x. 0 \<le> x) (take (length sizes - 1) (drop (d + 1) p))"
| "inner_nonneg _ p = True"

definition agrees :: "transform \<Rightarrow> nat \<Rightarrow> coord list \<Rightarrow> coord list \<Rightarrow> bool" where
  "agrees t n p q \<longleftrightarrow> length q = n \<and>
     (\<exists>A. t_inverse_transform t (length p) = Inr A \<and> da_wf A (max 1 n) (max 1 (length p)) \<and>
       da_eval A (pad_point p) = pad_point q)"

lemma agreesI:
  assumes "length q = n" "t_inverse_transform t (length p) = Inr A"
    and "length (da_transform A) = max 1 n" "length (da_offset A) = max 1 n"
    and "\<And>i. i < max 1 n \<Longrightarrow> length (da_transform A ! i) = max 1 (length p)"
    and "\<And>i j. i < max 1 n \<Longrightarrow> j < max 1 (length p) \<Longrightarrow>
      da_transform A ! i ! j = of_bool (c i \<and> j = k i)"
    and "\<And>i. i < max 1 n \<Longrightarrow> c i \<Longrightarrow> k i < length p"
    and "\<And>i. i < max 1 n \<Longrightarrow> (if c i then p ! k i else 0) + da_offset A ! i = pad_point q ! i"
  shows "agrees t n p q"
proof -
  have "da_eval A (pad_point p) = pad_point q"
  proof (rule da_evalI)
    show "length (da_offset A) = length (pad_point q)" using assms(1,4) by (simp add: length_pad_point)
    fix i assume "i < length (pad_point q)"
    then have i: "i < max 1 n" using assms(1) by (simp add: length_pad_point)
    have "(\<Sum>j < length (pad_point p). da_transform A ! i ! j * pad_point p ! j)
        = (if c i then pad_point p ! k i else 0)"
      using assms(6,7) [OF i] by (intro sum_row) (auto simp: length_pad_point less_max_iff_disj)
    also have "\<dots> = (if c i then p ! k i else 0)"
      using assms(7) [OF i] by (auto simp: pad_point_def)
    finally show "(\<Sum>j < length (pad_point p). da_transform A ! i ! j * pad_point p ! j) + da_offset A ! i
        = pad_point q ! i"
      using assms(8) [OF i] by simp
  qed
  then show ?thesis using assms(1-5) by (auto simp: agrees_def da_wf_def)
qed

lemma shift_agrees:
  assumes "d < n" "length p = n" "shift_invert_point d off p = Inr q"
  shows "agrees (Shift d off) n p q"
proof -
  have q: "q = p[d := p ! d - off]" using assms by (simp add: shift_invert_point_def)
  have "max 1 n = n" "q \<noteq> []" using assms q by auto
  then show ?thesis using assms(1,2) q
    by (intro agreesI [where c = "\<lambda>_. True" and k = "\<lambda>i. i"])
       (auto simp: shift_inverse_transform_def nth_list_update)
qed

lemma promote_agrees:
  assumes "d \<le> n" "length p = n + 1" "promote_invert_point d p = Inr q"
  shows "agrees (Promote d sz) n p q"
proof -
  have q: "q = take d p @ drop (Suc d) p" using assms by (simp add: promote_invert_point_def vec_erase_eq_Inr)
  have qn: "q ! i = (if i < d then p ! i else p ! Suc i)" if "i < n" for i
    using that assms q nth_erase [of d p i] by simp
  have "length q = n" using assms q by simp
  then show ?thesis using assms(1,2) qn
    by (intro agreesI [where c = "\<lambda>i. 0 < n" and k = "\<lambda>i. if i < d then i else i + 1"])
       (auto simp: promote_inverse_transform_def Let_def max_def pad_point_def simp del: upt_Suc)
qed

lemma project_agrees:
  assumes "d < n" "length p = n - 1" "project_invert_point d c p = Inr q"
  shows "agrees (Project d c) n p q"
proof -
  have q: "q = take d p @ c # drop d p" using assms by (simp add: project_invert_point_def vec_insert_eq_Inr)
  have qn: "q ! i = (if i < d then p ! i else if i = d then c else p ! (i - 1))" if "i < n" for i
    using that assms q nth_insert [of d p i c] by simp
  have m: "max 1 n = n" "n - 1 + 1 = n" using assms by auto
  have pq: "pad_point q = q" using q by simp
  show ?thesis
  proof (cases "n = 1")
    case True
    then show ?thesis using assms(1,2) q
      by (auto simp: agrees_def project_inverse_transform_def da_wf_def da_eval_def pad_point_def)
  next
    case False
    moreover have "length q = n" using assms q by simp
    ultimately show ?thesis using assms(1,2) qn m pq
      by (intro agreesI [where c = "\<lambda>i. i \<noteq> d" and k = "\<lambda>i. if i < d then i else i - 1"])
         (auto simp: project_inverse_transform_def Let_def simp del: upt_Suc)
  qed
qed

lemma broadcast_agrees:
  assumes "d < n" "length p = n" "broadcast_invert_point d p = Inr q"
  shows "agrees (DimBroadcast d sz) n p q"
proof -
  have q: "q = p[d := 0]" using assms by (simp add: broadcast_invert_point_def vec_set_at_eq_Inr)
  have "max 1 n = n" "q \<noteq> []" using assms q by auto
  then show ?thesis using assms(1,2) q
    by (intro agreesI [where c = "\<lambda>i. i \<noteq> d" and k = "\<lambda>i. i"])
       (auto simp: broadcast_inverse_transform_def nth_list_update)
qed

lemma transpose_agrees:
  assumes "axes_ok axes n" "0 < n" "length p = n" "transpose_invert_point axes p = Inr q"
  shows "agrees (Transpose axes) n p q"
proof -
  let ?inv = "transpose_inverse axes"
  have iok: "axes_ok ?inv n" by (rule transpose_inverse_ok [OF assms(1)])
  then have q: "q = map ((!) p) ?inv" using assms(3,4) by (simp add: transpose_invert_point_def)
  have li: "length ?inv = n" and lx: "length axes = n" and ax: "\<And>j. j < n \<Longrightarrow> axes ! j < n"
    using iok assms(1) by (auto simp: axes_ok_def)
  have m: "max 1 n = n" "q \<noteq> []" using assms(2) q li by auto
  have eq: "(i = axes ! j) = (j = ?inv ! i)" if "i < n" "j < n" for i j
    using that transpose_inverse_nth [OF assms(1)] transpose_inverse_axes [OF assms(1)] by metis
  show ?thesis using assms(2,3) q li m lx ax eq transpose_inverse_nth(2) [OF assms(1)]
    by (intro agreesI [where c = "\<lambda>_. True" and k = "\<lambda>i. ?inv ! i"])
       (auto simp: transpose_inverse_transform_def)
qed

lemma delinearize_strides_length [simp]: "length (delinearize_strides sizes) = length sizes"
  by (induction sizes rule: delinearize_strides.induct) (simp_all add: Let_def)

lemma erase_times_Inr:
  "i + n \<le> length xs \<Longrightarrow> erase_times n i xs = Inr (take i xs @ drop (i + n) xs)"
proof (induction n arbitrary: xs)
  case (Suc n)
  then show ?case by (simp add: min_def add.commute)
qed simp

lemma delinearize_inner_Inr:
  assumes "d + length sizes \<le> length xs" "sizes \<noteq> []"
  shows "delinearize_inner d sizes xs = Inr (take (length sizes - 1) (drop (d + 1) xs))"
proof -
  have "delinearize_inner d sizes xs = Inr (map (\<lambda>idx. xs ! (d + idx)) [1..<length sizes])"
    unfolding delinearize_inner_def using assms by (intro rmapM_Inr) auto
  also have "map (\<lambda>idx. xs ! (d + idx)) [1..<length sizes] = take (length sizes - 1) (drop (d + 1) xs)"
    using assms by (intro nth_equalityI) auto
  finally show ?thesis .
qed

lemma fold_add_eq_sum_list: "fold (+) xs (a :: 'a :: comm_monoid_add) = a + sum_list xs"
  by (induction xs arbitrary: a) (simp_all add: ac_simps)

lemma inner_zero:
  assumes "inner_nonneg (Delinearize d sizes) p"
    "sum_list (take (length sizes - 1) (drop (d + 1) p)) = 0"
    "d + length sizes \<le> length p" "d < j" "j < d + length sizes"
  shows "p ! j = 0"
proof -
  let ?xs = "take (length sizes - 1) (drop (d + 1) p)"
  have "\<forall>x \<in> set ?xs. x = 0"
    using assms(1,2) sum_list_nonneg_eq_0_iff [of ?xs] by (simp add: list_all_iff)
  moreover have "?xs ! (j - d - 1) = p ! j" "j - d - 1 < length ?xs" using assms(3-5) by auto
  ultimately show ?thesis by (metis nth_mem)
qed

lemma delinearize_invert_point_eq:
  assumes "d + length sizes \<le> length p" "sizes \<noteq> []" "delinearize_invert_point d sizes p = Inr q"
  shows "sum_list (take (length sizes - 1) (drop (d + 1) p)) = 0"
    and "q = take d p @ p ! d * sint (hd (delinearize_strides sizes)) # drop (d + length sizes) p"
proof -
  have "0 < length sizes" using assms(2) by simp
  then have *: "d + 1 + (length sizes - 1) = d + length sizes" "d < length p"
    using assms(1) by linarith+
  have er: "erase_times (length sizes - 1) (d + 1) p = Inr (take (d + 1) p @ drop (d + length sizes) p)"
    using erase_times_Inr [of "d + 1" "length sizes - 1" p] assms(1) unfolding *(1) by simp
  note h = assms(3) [unfolded delinearize_invert_point_def delinearize_inner_Inr [OF assms(1,2)] er rbind_Inr]
  have ne: "delinearize_strides sizes \<noteq> []" using assms(2) delinearize_strides_length [of sizes]
    by (metis length_0_conv)
  show "sum_list (take (length sizes - 1) (drop (d + 1) p)) = 0"
    using h by (auto simp: rguard_eq_Inr fold_add_eq_sum_list)
  show "q = take d p @ p ! d * sint (hd (delinearize_strides sizes)) # drop (d + length sizes) p"
    using h ne *(2) assms(2) by (auto simp: rguard_eq_Inr hd_conv_nth list_update_append
      take_Suc_conv_app_nth nth_append)
qed

lemma delinearize_agrees:
  assumes "d < n" "sizes \<noteq> []" "length p = n + length sizes - 1" "inner_nonneg (Delinearize d sizes) p"
    "delinearize_invert_point d sizes p = Inr q"
  shows "agrees (Delinearize d sizes) n p q"
proof -
  let ?k = "length sizes" and ?st = "delinearize_strides sizes"
  have k: "0 < ?k" and le: "d + ?k \<le> length p" using assms(1-3) by (auto simp: Suc_leI)
  note q = delinearize_invert_point_eq [OF le assms(2,5)]
  have zero: "p ! j = 0" if "d < j" "j < d + ?k" for j using inner_zero [OF assms(4) q(1) le that] .
  have "0 < length p" using le k by linarith
  then have ne: "p \<noteq> []" "q \<noteq> []" using q(2) by auto
  have lq: "length q = n" using q(2) assms(1,3) k le by (simp del: length_greater_0_conv)
  have out: "length p + 1 - ?k = n" using assms(3) k by simp
  let ?A = "\<lparr>da_transform = map (\<lambda>i. map (\<lambda>j.
      if i = d then (if d \<le> j \<and> j < d + ?k then sint (?st ! (j - d)) else 0)
      else of_bool (j = (if i < d then i else i + ?k - 1))) [0..<length p]) [0..<n],
    da_offset = replicate n 0\<rparr>"
  have A: "delinearize_inverse_transform d sizes (length p) = Inr ?A"
    using out by (simp add: delinearize_inverse_transform_def Let_def)
  have "da_eval ?A p = q"
  proof (rule da_evalI)
    fix i assume "i < length q"
    then have i: "i < n" using lq by simp
    have hd: "hd ?st = ?st ! 0" using assms(2) by (metis delinearize_strides_length hd_conv_nth length_0_conv)
    show "(\<Sum>j < length p. da_transform ?A ! i ! j * p ! j) + da_offset ?A ! i = q ! i"
    proof (cases "i = d")
      case True
      have "(\<Sum>j < length p. da_transform ?A ! i ! j * p ! j)
          = (\<Sum>j < length p. if j = d then sint (?st ! 0) * p ! d else 0)"
        using i True zero k by (intro sum.cong) auto
      also have "\<dots> = sint (?st ! 0) * p ! d" using le k by (subst sum.delta) (auto simp del: length_greater_0_conv)
      finally show ?thesis using i True q(2) hd le k by (simp add: nth_append)
    next
      case False
      have "(\<Sum>j < length p. da_transform ?A ! i ! j * p ! j)
          = (if True then p ! (if i < d then i else i + ?k - 1) else 0)"
        using i False assms(1,3) k
        by (intro sum_row) (simp_all add: less_diff_conv del: length_greater_0_conv)
      then show ?thesis using i False q(2) le k by (auto simp: nth_append nth_Cons' add.commute)
    qed
  qed (simp add: lq)
  then show ?thesis using A lq ne assms(1)
    by (auto simp: agrees_def da_wf_def max_def Suc_leI)
qed

lemma t_agrees:
  assumes "t_ok t n" "length p = t_child_ndim t n" "inner_nonneg t p" "t_invert_point t p = Inr q"
  shows "agrees t n p q"
  using assms
  by (cases t)
     (simp_all add: shift_agrees promote_agrees project_agrees broadcast_agrees transpose_agrees
        delinearize_agrees)

lemma agrees_length: "agrees t n p q \<Longrightarrow> length q = n"
  by (simp add: agrees_def)

section \<open>The whole stack\<close>

fun stack_inner_nonneg :: "transform_stack \<Rightarrow> coord list \<Rightarrow> bool" where
  "stack_inner_nonneg [] p = True"
| "stack_inner_nonneg (t # parent) p =
     (inner_nonneg t p \<and>
      (case t_invert_point t p of Inl e \<Rightarrow> True | Inr q \<Rightarrow> stack_inner_nonneg parent q))"

lemma stack_invert_visit_Cons:
  "stack_invert_visit v (t # parent) x = rbind (v t x) (stack_invert_visit v parent)"
  by (cases parent) (simp_all add: rbind_def split: sum.splits)

lemma stack_convert_visit_Cons:
  "stack_convert_visit v (t # parent) x = rbind (stack_convert_visit v parent x) (v t)"
  by (cases parent) simp_all

context legion_matrix
begin

lemma stack_affine:
  assumes "stack_ok ts n" "ts \<noteq> []" "length p = stack_ndim ts n" "stack_inner_nonneg ts p"
    "stack_invert_point ts p = Inr q"
  shows "length q = n \<and> (\<exists>A. stack_inverse_transform L ts (length p) = Inr A \<and>
    da_wf A (max 1 n) (max 1 (length p)) \<and> da_eval A (pad_point p) = pad_point q)"
  using assms
proof (induction ts arbitrary: p)
  case (Cons t parent)
  then have "rbind (t_invert_point t p) (stack_invert_visit t_invert_point parent) = Inr q"
    by (simp only: stack_invert_point_def stack_invert_visit_Cons)
  then obtain r where r: "t_invert_point t p = Inr r" "stack_invert_point parent r = Inr q"
    by (auto simp: rbind_eq_Inr stack_invert_point_def)
  have ok: "t_ok t (stack_ndim parent n)" "length p = t_child_ndim t (stack_ndim parent n)"
    using Cons.prems by simp_all
  have ag: "agrees t (stack_ndim parent n) p r"
    using t_agrees [OF ok] Cons.prems(4) r(1) by simp
  have lr: "length r = stack_ndim parent n" by (rule agrees_length [OF ag])
  obtain B where B: "t_inverse_transform t (length p) = Inr B"
    "da_wf B (max 1 (length r)) (max 1 (length p))" "da_eval B (pad_point p) = pad_point r"
    using ag [unfolded agrees_def] unfolding lr by (elim conjE exE)
  show ?case
  proof (cases "parent = []")
    case True
    then show ?thesis using lr B r(2) by (simp add: stack_invert_point_def)
  next
    case False
    have "length q = n \<and> (\<exists>A. stack_inverse_transform L parent (length r) = Inr A \<and>
        da_wf A (max 1 n) (max 1 (length r)) \<and> da_eval A (pad_point r) = pad_point q)"
      using Cons.prems r lr False by (intro Cons.IH) simp_all
    then obtain A where A: "length q = n" "stack_inverse_transform L parent (length r) = Inr A"
      "da_wf A (max 1 n) (max 1 (length r))" "da_eval A (pad_point r) = pad_point q"
      by blast
    have t: "t_target_ndim t (length p) = length r" using t_target_child [OF ok(1)] ok(2) lr by simp
    have "da_eval (combine L A B) (pad_point p) = pad_point q"
      using combine_eval [OF A(3) B(2)] A(4) B(3) by (simp add: length_pad_point)
    moreover have "da_wf (combine L A B) (max 1 n) (max 1 (length p))"
      by (rule combine_wf [OF A(3) B(2)]) simp
    ultimately show ?thesis using False A(1,2) B(1) t by simp
  qed
qed simp

end

text \<open>C1: The affine map a view hands to the accessors of a task is the map of its points: for a
  stack of well-formed transforms, whenever \<open>TransformStack::invert_point\<close> maps a point of the view to
  a point of the storage, \<open>TransformStack::inverse_transform\<close> succeeds and the matrix and offset it
  composes map the same point to the same storage point, whatever matrix library implements the
  products (and with the dummy dimension of Legion for stores without dimensions).\<close>

theorem stack_inverse_transform_correct:
  assumes "legion_matrix L" "stack_ok ts n" "ts \<noteq> []" "length p = stack_ndim ts n"
    "stack_inner_nonneg ts p" "stack_invert_point ts p = Inr q"
  shows "\<exists>A. stack_inverse_transform L ts (length p) = Inr A \<and>
    da_apply L A (pad_point p) = pad_point q"
proof -
  obtain A where A: "stack_inverse_transform L ts (length p) = Inr A"
    "da_wf A (max 1 n) (max 1 (length p))" "da_eval A (pad_point p) = pad_point q"
    using legion_matrix.stack_affine [OF assms] by (elim conjE exE)
  then have "da_apply L A (pad_point p) = pad_point q"
    using legion_matrix.da_apply_eval [OF assms(1) A(2)] by (simp add: length_pad_point)
  with A(1) show ?thesis by blast
qed

lemma stack_inverse_transform_correct_witness:
  "\<exists>A. stack_inverse_transform std_legion [Delinearize 0 [2, 3], Shift 0 5, Project 1 7, Transpose [1, 0]]
      (length [1 :: int, 0]) = Inr A \<and> da_apply std_legion A (pad_point [1, 0]) = pad_point [7, -2]"
proof (rule stack_inverse_transform_correct)
  let ?ts = "[Delinearize 0 [2, 3], Shift 0 5, Project 1 7, Transpose [1, 0]]"
  show "legion_matrix std_legion" by (rule std.legion_matrix_axioms)
  show "stack_ok ?ts 2" by code_simp
  show "?ts \<noteq> []" "length [1 :: int, 0] = stack_ndim ?ts 2" by simp_all
  show "stack_inner_nonneg ?ts [1, 0]" by code_simp
  show "stack_invert_point ?ts [1, 0] = Inr [7, -2]" by code_simp
qed

end
