(* ===== verification/TransformLinks.thy ===== *)
theory TransformLinks
  imports TransformAffine
begin

text \<open>
  How the coordinates of a view and of its storage correspond. Each convertible transform links every
  storage dimension either to a dimension of the view, up to an offset, or to a fixed value; the links
  of a stack are composed from those of its transforms. Points, colors, color shapes and extents are
  all converted along the same links, with different fixed values: the locale
  \<open>coordinates\<close> states the contract once, and the four conversions of the stack are its
  interpretations.
\<close>

section \<open>Links\<close>

datatype 'a link = Fixed 'a | Linked nat 'a

fun link_eval :: "'a :: plus list \<Rightarrow> 'a link \<Rightarrow> 'a" where
  "link_eval q (Fixed c) = c"
| "link_eval q (Linked j c) = q ! j + c"

fun link_compose :: "'a :: plus link list \<Rightarrow> 'a link \<Rightarrow> 'a link" where
  "link_compose ls (Fixed c) = Fixed c"
| "link_compose ls (Linked j c) =
     (case ls ! j of Fixed c' \<Rightarrow> Fixed (c' + c) | Linked k c' \<Rightarrow> Linked k (c' + c))"

text \<open>The links of one transform, given the offset of a shift and the value a projected or broadcast
  dimension is pinned to.\<close>

fun t_links :: "(int \<Rightarrow> 'a :: zero) \<Rightarrow> (int \<Rightarrow> 'a) \<Rightarrow> 'a \<Rightarrow> transform \<Rightarrow> nat \<Rightarrow> 'a link list" where
  "t_links off pin pad (Shift d k) n = map (\<lambda>i. Linked i (if i = d then off k else 0)) [0..<n]"
| "t_links off pin pad (Promote d sz) n = map (\<lambda>i. Linked (if i < d then i else i + 1) 0) [0..<n]"
| "t_links off pin pad (Project d c) n =
     map (\<lambda>i. if i = d then Fixed (pin c) else Linked (if i < d then i else i - 1) 0) [0..<n]"
| "t_links off pin pad (DimBroadcast d sz) n = map (\<lambda>i. if i = d then Fixed pad else Linked i 0) [0..<n]"
| "t_links off pin pad (Transpose axes) n = map (\<lambda>i. Linked (transpose_inverse axes ! i) 0) [0..<n]"
| "t_links off pin pad (Delinearize d sizes) n = []"

lemma t_links_length: "t_is_convertible t \<Longrightarrow> length (t_links off pin pad t n) = n"
  by (cases t) simp_all

lemma t_links_bound:
  "t_ok t n \<Longrightarrow> t_is_convertible t \<Longrightarrow> i < n \<Longrightarrow> t_links off pin pad t n ! i = Linked j c \<Longrightarrow>
     j < t_child_ndim t n"
  by (cases t) (auto simp: transpose_inverse_nth split: if_splits)

locale coordinates =
  fixes conv inve :: "transform \<Rightarrow> 'a :: comm_ring_1 list \<Rightarrow> 'a list result"
    and links :: "transform \<Rightarrow> nat \<Rightarrow> 'a link list"
  assumes links_length: "t_is_convertible t \<Longrightarrow> length (links t n) = n"
    and links_bound: "t_ok t n \<Longrightarrow> t_is_convertible t \<Longrightarrow> i < n \<Longrightarrow> links t n ! i = Linked j c \<Longrightarrow>
      j < t_child_ndim t n"
    and inve_links: "t_ok t n \<Longrightarrow> t_is_convertible t \<Longrightarrow> length q = t_child_ndim t n \<Longrightarrow>
      inve t q = Inr (map (link_eval q) (links t n))"
    and conv_length: "t_ok t n \<Longrightarrow> t_is_convertible t \<Longrightarrow> length p = n \<Longrightarrow> conv t p = Inr q \<Longrightarrow>
      length q = t_child_ndim t n"
    and conv_links: "t_ok t n \<Longrightarrow> t_is_convertible t \<Longrightarrow> length p = n \<Longrightarrow> conv t p = Inr q \<Longrightarrow>
      i < n \<Longrightarrow> links t n ! i = Linked j c \<Longrightarrow> q ! j + c = p ! i"
begin

fun stack_links :: "transform_stack \<Rightarrow> nat \<Rightarrow> 'a link list" where
  "stack_links [] n = map (\<lambda>i. Linked i 0) [0..<n]"
| "stack_links (t # parent) n = map (link_compose (links t (stack_ndim parent n))) (stack_links parent n)"

lemma stack_links_length [simp]: "length (stack_links ts n) = n"
  by (induction ts) simp_all

lemma stack_links_bound:
  "stack_ok ts n \<Longrightarrow> stack_is_convertible ts \<Longrightarrow> i < n \<Longrightarrow> stack_links ts n ! i = Linked j c \<Longrightarrow>
     j < stack_ndim ts n"
proof (induction ts arbitrary: j c)
  case (Cons t parent)
  from Cons.prems obtain k c' where "stack_links parent n ! i = Linked k c'"
    by (cases "stack_links parent n ! i") auto
  then show ?case using Cons.prems Cons.IH [of k c'] links_bound [of t "stack_ndim parent n" k]
    by (auto split: link.splits)
qed simp

lemma stack_inve:
  "stack_ok ts n \<Longrightarrow> stack_is_convertible ts \<Longrightarrow> length q = stack_ndim ts n \<Longrightarrow>
     stack_invert_visit inve ts q = Inr (map (link_eval q) (stack_links ts n))"
proof (induction ts arbitrary: q)
  case Nil
  then show ?case by (auto simp: comp_def map_nth intro!: nth_equalityI)
next
  case (Cons t parent)
  let ?m = "stack_ndim parent n"
  let ?r = "map (link_eval q) (links t ?m)"
  have ok: "t_ok t ?m" "t_is_convertible t" "stack_ok parent n" "stack_is_convertible parent"
    "length q = t_child_ndim t ?m"
    using Cons.prems by simp_all
  have "stack_invert_visit inve (t # parent) q = stack_invert_visit inve parent ?r"
    using inve_links [OF ok(1,2,5)] by (simp add: stack_invert_visit_Cons del: stack_invert_visit.simps)
  also have "\<dots> = Inr (map (link_eval ?r) (stack_links parent n))"
    using ok links_length by (intro Cons.IH) simp_all
  also have "map (link_eval ?r) (stack_links parent n) = map (link_eval q) (stack_links (t # parent) n)"
  proof (rule nth_equalityI)
    fix i assume "i < length (map (link_eval ?r) (stack_links parent n))"
    then have i: "i < n" by simp
    show "map (link_eval ?r) (stack_links parent n) ! i = map (link_eval q) (stack_links (t # parent) n) ! i"
    proof (cases "stack_links parent n ! i")
      case (Linked j c)
      then have "j < length (links t ?m)"
        using stack_links_bound [OF ok(3,4) i] links_length [OF ok(2)] by simp
      then show ?thesis using i Linked by (cases "links t ?m ! j") (simp_all add: add.assoc)
    qed (use i in simp)
  qed simp
  finally show ?case .
qed

lemma stack_conv:
  assumes "stack_ok ts n" "stack_is_convertible ts" "length p = n" "stack_convert_visit conv ts p = Inr q"
  shows "length q = stack_ndim ts n \<and>
    (\<forall>i < n. \<forall>j c. stack_links ts n ! i = Linked j c \<longrightarrow> q ! j + c = p ! i)"
  using assms
proof (induction ts arbitrary: q)
  case (Cons t parent)
  let ?m = "stack_ndim parent n"
  have ok: "t_ok t ?m" "t_is_convertible t" "stack_ok parent n" "stack_is_convertible parent"
    using Cons.prems by simp_all
  have "rbind (stack_convert_visit conv parent p) (conv t) = Inr q"
    using Cons.prems(4) by (simp only: stack_convert_visit_Cons)
  then obtain r where r: "stack_convert_visit conv parent p = Inr r" "conv t r = Inr q"
    by (auto simp: rbind_eq_Inr)
  have ih: "length r = ?m"
    "\<And>i j c. i < n \<Longrightarrow> stack_links parent n ! i = Linked j c \<Longrightarrow> r ! j + c = p ! i"
    using Cons.IH [OF ok(3,4) assms(3) r(1)] by simp_all
  have "q ! j + c = p ! i" if i: "i < n" and l: "stack_links (t # parent) n ! i = Linked j c" for i j c
  proof (cases "stack_links parent n ! i")
    case (Linked k c')
    then obtain c'' where c: "links t ?m ! k = Linked j c''" "c = c'' + c'"
      using i l by (auto split: link.splits)
    have "q ! j + c'' = r ! k"
      using conv_links [OF ok(1,2) ih(1) r(2) stack_links_bound [OF ok(3,4) i Linked] c(1)] .
    then show ?thesis using ih(2) [OF i Linked] c(2) by (simp add: add.assoc [symmetric])
  qed (use i l in simp)
  then show ?case using conv_length [OF ok(1,2) ih(1) r(2)] by simp
qed simp

text \<open>Converting a storage value that some value of the view maps to, and inverting it again, gives
  the storage value back.\<close>

lemma convert_invert:
  assumes "stack_ok ts n" "stack_is_convertible ts" "length q = stack_ndim ts n"
    "stack_invert_visit inve ts q = Inr p" "stack_convert_visit conv ts p = Inr q'"
  shows "stack_invert_visit inve ts q' = Inr p"
proof -
  have p: "p = map (link_eval q) (stack_links ts n)" using stack_inve [OF assms(1-3)] assms(4) by simp
  then have lp: "length p = n" by simp
  note c = stack_conv [OF assms(1,2) lp assms(5)]
  have "map (link_eval q') (stack_links ts n) = p"
  proof (rule nth_equalityI)
    fix i assume "i < length (map (link_eval q') (stack_links ts n))"
    then show "map (link_eval q') (stack_links ts n) ! i = p ! i"
      using c p by (cases "stack_links ts n ! i") auto
  qed (use lp in simp)
  then show ?thesis using stack_inve [OF assms(1,2)] c by simp
qed

end

locale total_coordinates = coordinates +
  assumes conv_total: "t_ok t n \<Longrightarrow> t_is_convertible t \<Longrightarrow> length p = n \<Longrightarrow> \<exists>q. conv t p = Inr q"
begin

lemma stack_conv_total:
  "stack_ok ts n \<Longrightarrow> stack_is_convertible ts \<Longrightarrow> length p = n \<Longrightarrow> \<exists>q. stack_convert_visit conv ts p = Inr q"
proof (induction ts)
  case (Cons t parent)
  then obtain r where "stack_convert_visit conv parent p = Inr r" by auto
  moreover from this have "length r = stack_ndim parent n"
    using stack_conv [of parent n p r] Cons.prems by simp
  ultimately show ?case
    using Cons.prems conv_total [of t "stack_ndim parent n" r]
    by (simp add: stack_convert_visit_Cons del: stack_convert_visit.simps)
qed simp

lemma roundtrip:
  assumes "stack_ok ts n" "stack_is_convertible ts" "length q = stack_ndim ts n"
  shows "\<exists>p q'. stack_invert_visit inve ts q = Inr p \<and> length p = n \<and>
    stack_convert_visit conv ts p = Inr q' \<and> stack_invert_visit inve ts q' = Inr p"
proof -
  let ?p = "map (link_eval q) (stack_links ts n)"
  have i: "stack_invert_visit inve ts q = Inr ?p" by (rule stack_inve [OF assms])
  obtain q' where c: "stack_convert_visit conv ts ?p = Inr q'"
    using stack_conv_total [OF assms(1,2)] by force
  show ?thesis using i c convert_invert [OF assms i c]
    by (intro exI [of _ ?p] exI [of _ q'] conjI) simp_all
qed

end

section \<open>The conversions of the transforms\<close>

lemma erase_map: "i < length xs \<Longrightarrow> take i xs @ drop (Suc i) xs
    = map (\<lambda>k. xs ! (if k < i then k else k + 1)) [0..<length xs - 1]"
  by (intro nth_equalityI) (auto simp: nth_erase)

lemma insert_map: "i \<le> length xs \<Longrightarrow> take i xs @ x # drop i xs
    = map (\<lambda>k. if k = i then x else xs ! (if k < i then k else k - 1)) [0..<length xs + 1]"
  by (intro nth_equalityI) (auto simp: nth_insert simp del: upt_Suc)

lemma update_map: "xs[i := x] = map (\<lambda>k. if k = i then x else xs ! k) [0..<length xs]"
  by (intro nth_equalityI) (auto simp: nth_list_update)

lemma transpose_inv_map:
  assumes "axes_ok axes n" "length (q :: 'a list) = n"
  shows "array_map q (map int (transpose_inverse axes))
    = Inr (map (\<lambda>i. q ! (transpose_inverse axes ! i)) [0..<n])"
proof -
  have "length (transpose_inverse axes) = n"
    using transpose_inverse_ok(1) [OF assms(1)] by (simp add: axes_ok_def)
  then have "map (\<lambda>i. q ! (transpose_inverse axes ! i)) [0..<n] = map ((!) q) (transpose_inverse axes)"
    by (intro nth_equalityI) simp_all
  then show ?thesis using array_map_axes [OF transpose_inverse_ok(1) [OF assms(1)] assms(2)] by simp
qed

lemma transpose_conv_nth:
  assumes "axes_ok axes n" "length (p :: 'a list) = n" "i < n" "array_map p (map int axes) = Inr q"
  shows "q ! (transpose_inverse axes ! i) = p ! i"
  using assms transpose_inverse_nth [OF assms(1,3)] by (auto simp: axes_ok_def)

lemma link_eval_id: "map (link_eval q \<circ> (\<lambda>i. Linked i (0 :: 'a :: comm_ring_1))) [0..<length q] = q"
  by (intro nth_equalityI) simp_all

lemmas conversion_defs =
  shift_convert_point_def shift_invert_point_def promote_convert_point_def promote_invert_point_def
  project_convert_point_def project_invert_point_def broadcast_invert_point_def
  transpose_convert_point_def transpose_invert_point_def
  promote_convert_color_def promote_invert_color_def project_convert_color_def project_invert_color_def
  broadcast_invert_color_def transpose_convert_color_def transpose_invert_color_def
  promote_convert_color_shape_def promote_invert_color_shape_def project_convert_color_shape_def
  project_invert_color_shape_def broadcast_invert_color_shape_def transpose_convert_color_shape_def
  transpose_invert_color_shape_def
  promote_convert_extents_def promote_invert_extents_def project_convert_extents_def
  project_invert_extents_def broadcast_invert_extents_def broadcast_convert_extents_def
  transpose_convert_extents_def transpose_invert_extents_def

lemmas conversion_simps =
  conversion_defs vec_eq_Inr vec_upd_eq_Inr erase_map insert_map update_map transpose_inv_map
  link_eval_id

interpretation points: total_coordinates t_convert_point t_invert_point "t_links uminus (\<lambda>c. c) 0"
proof
  fix t :: transform and n
  assume c: "t_is_convertible t"
  show "length (t_links uminus (\<lambda>c. c) 0 t n) = n" by (rule t_links_length [OF c])
  assume ok: "t_ok t n"
  show "i < n \<Longrightarrow> t_links uminus (\<lambda>c. c) 0 t n ! i = Linked j k \<Longrightarrow> j < t_child_ndim t n" for i j k
    by (rule t_links_bound [OF ok c])
  show "t_invert_point t q = Inr (map (link_eval q) (t_links uminus (\<lambda>c. c) 0 t n))"
    if "length q = t_child_ndim t n" for q
    using ok c that by (cases t) (auto simp: conversion_simps simp del: upt_Suc)
  fix p q :: "coord list" assume p: "length p = n"
  show "\<exists>q. t_convert_point t p = Inr q"
    using ok c p by (cases t) (auto simp: conversion_simps)
  assume q: "t_convert_point t p = Inr q"
  show "length q = t_child_ndim t n"
    using ok c p q by (cases t) (auto simp: conversion_simps axes_ok_def simp del: upt_Suc)
  show "q ! j + k = p ! i" if "i < n" "t_links uminus (\<lambda>c. c) 0 t n ! i = Linked j k" for i j k
    using ok c p q that transpose_conv_nth [of _ n p i q]
    by (cases t) (auto simp: conversion_simps nth_append split: if_splits simp del: upt_Suc)
qed

interpretation colors: total_coordinates t_convert_color t_invert_color "t_links (\<lambda>_. 0) (\<lambda>_. 0) 0"
proof
  fix t :: transform and n
  assume c: "t_is_convertible t"
  show "length (t_links (\<lambda>_. 0) (\<lambda>_. 0) 0 t n) = n" by (rule t_links_length [OF c])
  assume ok: "t_ok t n"
  show "i < n \<Longrightarrow> t_links (\<lambda>_. 0) (\<lambda>_. 0) 0 t n ! i = Linked j k \<Longrightarrow> j < t_child_ndim t n" for i j k
    by (rule t_links_bound [OF ok c])
  show "t_invert_color t q = Inr (map (link_eval q) (t_links (\<lambda>_. 0) (\<lambda>_. 0) 0 t n))"
    if "length q = t_child_ndim t n" for q
    using ok c that by (cases t) (auto simp: conversion_simps simp del: upt_Suc)
  fix p q :: "u64 list" assume p: "length p = n"
  show "\<exists>q. t_convert_color t p = Inr q"
    using ok c p by (cases t) (auto simp: conversion_simps)
  assume q: "t_convert_color t p = Inr q"
  show "length q = t_child_ndim t n"
    using ok c p q by (cases t) (auto simp: conversion_simps axes_ok_def simp del: upt_Suc)
  show "q ! j + k = p ! i" if "i < n" "t_links (\<lambda>_. 0) (\<lambda>_. 0) 0 t n ! i = Linked j k" for i j k
    using ok c p q that transpose_conv_nth [of _ n p i q]
    by (cases t) (auto simp: conversion_simps nth_append split: if_splits simp del: upt_Suc)
qed

interpretation shapes: total_coordinates t_convert_color_shape t_invert_color_shape "t_links (\<lambda>_. 0) (\<lambda>_. 1) 1"
proof
  fix t :: transform and n
  assume c: "t_is_convertible t"
  show "length (t_links (\<lambda>_. 0) (\<lambda>_. 1) 1 t n) = n" by (rule t_links_length [OF c])
  assume ok: "t_ok t n"
  show "i < n \<Longrightarrow> t_links (\<lambda>_. 0) (\<lambda>_. 1) 1 t n ! i = Linked j k \<Longrightarrow> j < t_child_ndim t n" for i j k
    by (rule t_links_bound [OF ok c])
  show "t_invert_color_shape t q = Inr (map (link_eval q) (t_links (\<lambda>_. 0) (\<lambda>_. 1) 1 t n))"
    if "length q = t_child_ndim t n" for q
    using ok c that by (cases t) (auto simp: conversion_simps simp del: upt_Suc)
  fix p q :: "u64 list" assume p: "length p = n"
  show "\<exists>q. t_convert_color_shape t p = Inr q"
    using ok c p by (cases t) (auto simp: conversion_simps)
  assume q: "t_convert_color_shape t p = Inr q"
  show "length q = t_child_ndim t n"
    using ok c p q by (cases t) (auto simp: conversion_simps axes_ok_def simp del: upt_Suc)
  show "q ! j + k = p ! i" if "i < n" "t_links (\<lambda>_. 0) (\<lambda>_. 1) 1 t n ! i = Linked j k" for i j k
    using ok c p q that transpose_conv_nth [of _ n p i q]
    by (cases t) (auto simp: conversion_simps nth_append split: if_splits simp del: upt_Suc)
qed

interpretation extents: coordinates t_convert_extents t_invert_extents "t_links (\<lambda>_. 0) (\<lambda>_. 1) 1"
proof
  fix t :: transform and n
  assume c: "t_is_convertible t"
  show "length (t_links (\<lambda>_. 0) (\<lambda>_. 1) 1 t n) = n" by (rule t_links_length [OF c])
  assume ok: "t_ok t n"
  show "i < n \<Longrightarrow> t_links (\<lambda>_. 0) (\<lambda>_. 1) 1 t n ! i = Linked j k \<Longrightarrow> j < t_child_ndim t n" for i j k
    by (rule t_links_bound [OF ok c])
  show "t_invert_extents t q = Inr (map (link_eval q) (t_links (\<lambda>_. 0) (\<lambda>_. 1) 1 t n))"
    if "length q = t_child_ndim t n" for q
    using ok c that by (cases t) (auto simp: conversion_simps simp del: upt_Suc)
  fix p q :: "u64 list" assume p: "length p = n"
  assume q: "t_convert_extents t p = Inr q"
  show "length q = t_child_ndim t n"
    using ok c p q by (cases t) (auto simp: conversion_simps axes_ok_def simp del: upt_Suc)
  show "q ! j + k = p ! i" if "i < n" "t_links (\<lambda>_. 0) (\<lambda>_. 1) 1 t n ! i = Linked j k" for i j k
    using ok c p q that transpose_conv_nth [of _ n p i q]
    by (cases t) (auto simp: conversion_simps nth_append split: if_splits simp del: upt_Suc)
qed

section \<open>Round trips of the stack\<close>

text \<open>C3: Converting and inverting agree along a convertible stack (no delinearization): every point
  of a view maps to a point of the storage; converting that storage point back succeeds, and the
  result maps to the same storage point again (it may differ from the first in the dimensions the
  view made up). The same holds for colors and color shapes.\<close>

theorem stack_convert_invert_roundtrip:
  assumes "stack_ok ts n" "stack_is_convertible ts"
    and "length q = stack_ndim ts n" "length c = stack_ndim ts n" "length s = stack_ndim ts n"
  shows "(\<exists>p q'. stack_invert_point ts q = Inr p \<and> length p = n \<and>
      stack_convert_point ts p = Inr q' \<and> stack_invert_point ts q' = Inr p) \<and>
    (\<exists>p c'. stack_invert_color ts c = Inr p \<and> length p = n \<and>
      stack_convert_color ts p = Inr c' \<and> stack_invert_color ts c' = Inr p) \<and>
    (\<exists>p s'. stack_invert_color_shape ts s = Inr p \<and> length p = n \<and>
      stack_convert_color_shape ts p = Inr s' \<and> stack_invert_color_shape ts s' = Inr p)"
  unfolding stack_invert_point_def stack_convert_point_def stack_invert_color_def
    stack_convert_color_def stack_invert_color_shape_def stack_convert_color_shape_def
  by (intro conjI points.roundtrip colors.roundtrip shapes.roundtrip assms)

lemma stack_convert_invert_roundtrip_witness:
  "\<exists>p q'. stack_invert_point [Project 0 7, DimBroadcast 1 9, Transpose [1, 0], Shift 0 5] [4] = Inr p \<and>
     length p = 2 \<and>
     stack_convert_point [Project 0 7, DimBroadcast 1 9, Transpose [1, 0], Shift 0 5] p = Inr q' \<and>
     stack_invert_point [Project 0 7, DimBroadcast 1 9, Transpose [1, 0], Shift 0 5] q' = Inr p"
proof -
  let ?ts = "[Project 0 7, DimBroadcast 1 9, Transpose [1, 0], Shift 0 5]"
  have "stack_ok ?ts 2" "stack_is_convertible ?ts" by code_simp+
  moreover have "length [4 :: coord] = stack_ndim ?ts 2" "length [0 :: u64] = stack_ndim ?ts 2"
    "length [1 :: u64] = stack_ndim ?ts 2" by simp_all
  ultimately show ?thesis by (rule stack_convert_invert_roundtrip [THEN conjunct1])
qed

text \<open>The extents of a view determine the storage extents the same way: whenever the extents of
  the storage that a view inverts to can be converted back (a broadcast dimension must have extent 1,
  which is checked), the converted extents invert to the same storage extents.\<close>

theorem stack_extents_roundtrip:
  assumes "stack_ok ts n" "stack_is_convertible ts" "length q = stack_ndim ts n"
    "stack_invert_extents ts q = Inr p" "stack_convert_extents ts p = Inr q'"
  shows "length q' = stack_ndim ts n \<and> stack_invert_extents ts q' = Inr p"
proof -
  note i = assms(4) [unfolded stack_invert_extents_def] and c = assms(5) [unfolded stack_convert_extents_def]
  have lp: "length p = n"
    using extents.stack_inve [OF assms(1-3)] unfolding i by (simp del: extents.stack_links.simps)
  show ?thesis
    unfolding stack_invert_extents_def
    using extents.stack_conv [OF assms(1,2) lp c] extents.convert_invert [OF assms(1-3) i c] by blast
qed

lemma stack_extents_roundtrip_witness:
  "length [9 :: u64] = stack_ndim [Project 0 7, DimBroadcast 1 9, Transpose [1, 0], Shift 0 5] 2 \<and>
     stack_invert_extents [Project 0 7, DimBroadcast 1 9, Transpose [1, 0], Shift 0 5] [9] = Inr [1, 1]"
proof -
  let ?ts = "[Project 0 7, DimBroadcast 1 9, Transpose [1, 0], Shift 0 5]"
  have "stack_ok ?ts 2" "stack_is_convertible ?ts" by code_simp+
  moreover have "length [6 :: u64] = stack_ndim ?ts 2" by simp
  moreover have "stack_invert_extents ?ts [6] = Inr [1, 1]" "stack_convert_extents ?ts [1, 1] = Inr [9]"
    by code_simp+
  ultimately show ?thesis by (rule stack_extents_roundtrip)
qed

end
