(* ===== verification/TransformImaginary.thy ===== *)
theory TransformImaginary
  imports TransformLinks
begin

text \<open>
  The imaginary dimensions of a view (\<open>find_imaginary_dims\<close>): those that promotion and broadcasting
  made up. The theory shows that the list the stack computes is the set of dimensions on which the
  storage point does not depend, for stacks that broadcast only real dimensions, and gives two
  counterexamples for the stacks outside this condition.
\<close>

abbreviation point_links :: "transform \<Rightarrow> nat \<Rightarrow> coord link list" where
  "point_links \<equiv> t_links uminus (\<lambda>c. c) 0"

definition imag :: "transform_stack \<Rightarrow> nat \<Rightarrow> nat set" where
  "imag ts n = {k. k < stack_ndim ts n \<and> (\<forall>i < n. \<forall>c. points.stack_links ts n ! i \<noteq> Linked k c)}"

lemma imag_Nil [simp]: "imag [] n = {}"
  by (auto simp: imag_def)

lemma imag_Cons:
  assumes "stack_ok parent n" "stack_is_convertible parent"
  shows "imag (t # parent) n = {k. k < t_child_ndim t (stack_ndim parent n) \<and>
    (\<forall>j < stack_ndim parent n. \<forall>c. point_links t (stack_ndim parent n) ! j = Linked k c \<longrightarrow>
       j \<in> imag parent n)}"
    (is "_ = ?R")
proof (intro set_eqI iffI)
  let ?m = "stack_ndim parent n"
  fix k assume k: "k \<in> imag (t # parent) n"
  have "j \<in> imag parent n" if j: "j < ?m" and l: "point_links t ?m ! j = Linked k c" for j c
  proof (rule ccontr)
    assume "j \<notin> imag parent n"
    then obtain i c' where "i < n" "points.stack_links parent n ! i = Linked j c'"
      using j by (auto simp: imag_def)
    then have "points.stack_links (t # parent) n ! i = Linked k (c + c')" using l by simp
    with \<open>i < n\<close> k show False by (auto simp: imag_def simp del: points.stack_links.simps)
  qed
  then show "k \<in> ?R" using k by (auto simp: imag_def)
next
  let ?m = "stack_ndim parent n"
  fix k assume k: "k \<in> ?R"
  have "points.stack_links (t # parent) n ! i \<noteq> Linked k c" if i: "i < n" for i c
  proof
    assume "points.stack_links (t # parent) n ! i = Linked k c"
    then obtain j c' c'' where l: "points.stack_links parent n ! i = Linked j c'" "point_links t ?m ! j = Linked k c''"
      using i by (cases "points.stack_links parent n ! i") (auto split: link.splits)
    then show False
      using k i points.stack_links_bound [OF assms i l(1)] by (auto simp: imag_def)
  qed
  then show "k \<in> imag (t # parent) n" using k by (auto simp: imag_def)
qed

text \<open>Stacks that broadcast real dimensions only.\<close>

fun stack_fresh :: "transform_stack \<Rightarrow> bool" where
  "stack_fresh [] = True"
| "stack_fresh (t # parent) =
     (stack_fresh parent \<and>
      (case t of DimBroadcast d sz \<Rightarrow>
         (case stack_find_imaginary_dims parent of Inl e \<Rightarrow> True | Inr dims \<Rightarrow> d \<notin> set dims)
       | _ \<Rightarrow> True))"

lemma index_of_nth: "x \<in> set xs \<Longrightarrow> index_of x xs < length xs \<and> xs ! index_of x xs = x"
  by (induction xs) auto

lemma index_of_distinct: "distinct xs \<Longrightarrow> i < length xs \<Longrightarrow> index_of (xs ! i) xs = i"
proof (induction xs arbitrary: i)
  case (Cons x xs)
  then show ?case by (cases i) auto
qed simp

lemma imaginary_step:
  assumes "t_ok t m" "t_is_convertible t" "distinct dims" "set dims = I" "I \<subseteq> {..<m}"
    and "\<And>d sz. t = DimBroadcast d sz \<Longrightarrow> d \<notin> I"
  shows "\<exists>dims'. t_find_imaginary_dims t dims = Inr dims' \<and> distinct dims' \<and>
    set dims' = {k. k < t_child_ndim t m \<and>
      (\<forall>j < m. \<forall>c. point_links t m ! j = Linked k c \<longrightarrow> j \<in> I)}"
proof (cases t)
  case (Shift d k)
  then show ?thesis using assms by auto
next
  case (Promote d sz)
  have "inj_on (\<lambda>x. if d \<le> x then x + 1 else x) (set dims)" by (auto simp: inj_on_def)
  then have "distinct (promote_find_imaginary_dims d dims)"
    using assms(3) by (auto simp: promote_find_imaginary_dims_def distinct_map split: if_splits)
  moreover have "set (promote_find_imaginary_dims d dims)
      = {k. k < m + 1 \<and> (\<forall>j < m. (if j < d then j else j + 1) = k \<longrightarrow> j \<in> I)}"
  proof (intro set_eqI iffI)
    fix k assume "k \<in> set (promote_find_imaginary_dims d dims)"
    then show "k \<in> {k. k < m + 1 \<and> (\<forall>j < m. (if j < d then j else j + 1) = k \<longrightarrow> j \<in> I)}"
      using assms Promote by (auto simp: promote_find_imaginary_dims_def split: if_splits)
  next
    fix k assume k: "k \<in> {k. k < m + 1 \<and> (\<forall>j < m. (if j < d then j else j + 1) = k \<longrightarrow> j \<in> I)}"
    show "k \<in> set (promote_find_imaginary_dims d dims)"
    proof (cases "k = d")
      case False
      then have "(if k < d then k else k - 1) \<in> I" using k assms(1) Promote by auto
      moreover have "k = (if d \<le> (if k < d then k else k - 1) then (if k < d then k else k - 1) + 1
          else (if k < d then k else k - 1))" using False by auto
      ultimately have "k \<in> (\<lambda>x. if d \<le> x then x + 1 else x) ` set dims" unfolding assms(4) by (rule image_eqI [rotated])
      then show ?thesis by (simp add: promote_find_imaginary_dims_def)
    qed (simp add: promote_find_imaginary_dims_def)
  qed
  ultimately show ?thesis using Promote by auto
next
  case (Project d c)
  have s: "set (remove1 d dims) = I - {d}" using assms(3,4) by (simp add: set_remove1_eq)
  have "inj_on (\<lambda>x. if d < x then x - 1 else x) (I - {d})" by (auto simp: inj_on_def)
  then have "distinct (project_find_imaginary_dims d dims)"
    using assms(3) s by (auto simp: project_find_imaginary_dims_def distinct_map distinct_remove1)
  moreover have "set (project_find_imaginary_dims d dims)
      = {k. k < m - 1 \<and> (\<forall>j < m. j \<noteq> d \<and> (if j < d then j else j - 1) = k \<longrightarrow> j \<in> I)}"
  proof (intro set_eqI iffI)
    fix k assume "k \<in> set (project_find_imaginary_dims d dims)"
    then have "k \<in> (\<lambda>x. if d < x then x - 1 else x) ` (I - {d})"
      by (simp only: project_find_imaginary_dims_def set_map s)
    then obtain x where x: "x \<in> I" "x \<noteq> d" "k = (if d < x then x - 1 else x)"
      by (elim imageE) (simp only: Diff_iff singleton_iff simp_thms, blast)
    then show "k \<in> {k. k < m - 1 \<and> (\<forall>j < m. j \<noteq> d \<and> (if j < d then j else j - 1) = k \<longrightarrow> j \<in> I)}"
      using assms(1,5) Project by (auto split: if_splits)
         (metis Suc_pred less_Suc_eq_0_disj not_less_iff_gr_or_eq gr_implies_not_zero)+
  next
    fix k assume k: "k \<in> {k. k < m - 1 \<and> (\<forall>j < m. j \<noteq> d \<and> (if j < d then j else j - 1) = k \<longrightarrow> j \<in> I)}"
    let ?j = "if k < d then k else k + 1"
    have "?j < m" "?j \<noteq> d" "(if ?j < d then ?j else ?j - 1) = k" using k assms(1) Project by auto
    then have "?j \<in> I - {d}" using k by blast
    moreover have "k = (if d < ?j then ?j - 1 else ?j)" by auto
    ultimately show "k \<in> set (project_find_imaginary_dims d dims)"
      unfolding project_find_imaginary_dims_def set_map s by (rule image_eqI [rotated])
  qed
  ultimately show ?thesis using Project by (auto split: if_splits)
next
  case (DimBroadcast d sz)
  then show ?thesis using assms by (auto simp: broadcast_find_imaginary_dims_def split: if_splits)
next
  case (Transpose axes)
  have ax: "axes_ok axes m" using assms(1) Transpose by simp
  then have d: "distinct axes" "length axes = m" by (auto simp: axes_ok_def)
  have "set axes = {..<m}" using axes_ok_perm [OF ax] by (metis mset_eq_setD set_upt atLeast0LessThan)
  then have I: "I \<subseteq> set axes" using assms(5) by simp
  have f: "transpose_find_imaginary_dims axes dims = Inr (map (\<lambda>x. index_of x axes) dims)"
    unfolding transpose_find_imaginary_dims_def using I assms(4) by (intro rmapM_Inr) auto
  have "inj_on (\<lambda>x. index_of x axes) I"
    using I by (intro inj_onI) (metis index_of_nth subsetD)
  moreover have "(\<lambda>x. index_of x axes) ` I
      = {k. k < m \<and> (\<forall>j < m. transpose_inverse axes ! j = k \<longrightarrow> j \<in> I)}"
  proof (intro set_eqI iffI)
    fix k assume "k \<in> (\<lambda>x. index_of x axes) ` I"
    then obtain x where x: "x \<in> I" "k = index_of x axes" by auto
    then have "k < m" "axes ! k = x" using index_of_nth [of x axes] I d by auto
    then show "k \<in> {k. k < m \<and> (\<forall>j < m. transpose_inverse axes ! j = k \<longrightarrow> j \<in> I)}"
      using x(1) transpose_inverse_nth(1) [OF ax] by fastforce
  next
    fix k assume k: "k \<in> {k. k < m \<and> (\<forall>j < m. transpose_inverse axes ! j = k \<longrightarrow> j \<in> I)}"
    then have "axes ! k < m" using ax by (auto simp: axes_ok_def)
    then have "axes ! k \<in> I" using k transpose_inverse_axes [OF ax] by auto
    then show "k \<in> (\<lambda>x. index_of x axes) ` I" using index_of_distinct [OF d(1), of k] k d by (metis (mono_tags, lifting) imageI mem_Collect_eq)
  qed
  ultimately show ?thesis using Transpose assms(3,4) f by (auto simp: distinct_map)
qed (use assms in simp)

lemma imag_bound: "imag ts n \<subseteq> {..<stack_ndim ts n}"
  by (auto simp: imag_def)

lemma find_imaginary_dims_imag:
  assumes "stack_ok ts n" "stack_is_convertible ts" "stack_fresh ts"
  shows "\<exists>dims. stack_find_imaginary_dims ts = Inr dims \<and> distinct dims \<and> set dims = imag ts n"
  using assms
proof (induction ts)
  case (Cons t parent)
  then obtain dims where d: "stack_find_imaginary_dims parent = Inr dims" "distinct dims"
    "set dims = imag parent n" by auto
  have "\<exists>dims'. t_find_imaginary_dims t dims = Inr dims' \<and> distinct dims' \<and>
    set dims' = {k. k < t_child_ndim t (stack_ndim parent n) \<and>
      (\<forall>j < stack_ndim parent n. \<forall>c. point_links t (stack_ndim parent n) ! j = Linked k c \<longrightarrow> j \<in> imag parent n)}"
    using Cons.prems d by (intro imaginary_step imag_bound) auto
  then show ?case using d imag_Cons [of parent n t] Cons.prems by simp
qed simp

lemma imag_semantic:
  assumes "stack_ok ts n" "stack_is_convertible ts" "k < stack_ndim ts n"
  shows "k \<in> imag ts n \<longleftrightarrow>
    (\<forall>q x. length q = stack_ndim ts n \<longrightarrow> stack_invert_point ts (q[k := x]) = stack_invert_point ts q)"
proof
  assume k: "k \<in> imag ts n"
  have "map (link_eval (q[k := x])) (points.stack_links ts n) = map (link_eval q) (points.stack_links ts n)" for q :: "coord list" and x
  proof (rule nth_equalityI)
    fix i assume "i < length (map (link_eval (q[k := x])) (points.stack_links ts n))"
    then have i: "i < n" by simp
    then show "map (link_eval (q[k := x])) (points.stack_links ts n) ! i = map (link_eval q) (points.stack_links ts n) ! i"
      using k by (cases "points.stack_links ts n ! i") (auto simp: imag_def nth_list_update)
  qed simp
  then show "\<forall>q x. length q = stack_ndim ts n \<longrightarrow> stack_invert_point ts (q[k := x]) = stack_invert_point ts q"
    using points.stack_inve [OF assms(1,2)] by (simp add: stack_invert_point_def)
next
  assume a: "\<forall>q x. length q = stack_ndim ts n \<longrightarrow> stack_invert_point ts (q[k := x]) = stack_invert_point ts q"
  let ?q = "replicate (stack_ndim ts n) (0 :: coord)"
  have "map (link_eval (?q[k := 1])) (points.stack_links ts n) = map (link_eval ?q) (points.stack_links ts n)"
    using a [rule_format, of ?q 1] points.stack_inve [OF assms(1,2)] by (simp add: stack_invert_point_def)
  then have "link_eval (?q[k := 1]) (points.stack_links ts n ! i) = link_eval ?q (points.stack_links ts n ! i)" if "i < n" for i
    using that by (metis nth_map points.stack_links_length)
  then have "points.stack_links ts n ! i \<noteq> Linked k c" if "i < n" for i c
    using that assms(3) by fastforce
  then show "k \<in> imag ts n" using assms(3) by (simp add: imag_def)
qed

text \<open>\<open>find_imaginary_dims\<close> returns each dimension of a view exactly once that the storage does
  not see, and no other: for a convertible stack whose broadcasts hit real dimensions, a dimension
  is in the list if and only if changing its coordinate never changes the storage point.\<close>

theorem find_imaginary_dims_correct:
  assumes "stack_ok ts n" "stack_is_convertible ts" "stack_fresh ts"
  shows "\<exists>dims. stack_find_imaginary_dims ts = Inr dims \<and> distinct dims \<and>
    set dims = {k. k < stack_ndim ts n \<and> (\<forall>q x. length q = stack_ndim ts n \<longrightarrow>
      stack_invert_point ts (q[k := x]) = stack_invert_point ts q)}"
proof -
  have "imag ts n = {k. k < stack_ndim ts n \<and> k \<in> imag ts n}" using imag_bound [of ts n] by auto
  also have "\<dots> = {k. k < stack_ndim ts n \<and> (\<forall>q x. length q = stack_ndim ts n \<longrightarrow>
      stack_invert_point ts (q[k := x]) = stack_invert_point ts q)}"
    using imag_semantic [OF assms(1,2)] by blast
  finally show ?thesis using find_imaginary_dims_imag [OF assms] by simp
qed

lemma find_imaginary_dims_correct_witness:
  "\<exists>dims. stack_find_imaginary_dims [Transpose [1, 0, 2], DimBroadcast 2 9, Promote 0 4] = Inr dims \<and>
    distinct dims \<and>
    set dims = {k. k < stack_ndim [Transpose [1, 0, 2], DimBroadcast 2 9, Promote 0 4] 2 \<and>
      (\<forall>q x. length q = stack_ndim [Transpose [1, 0, 2], DimBroadcast 2 9, Promote 0 4] 2 \<longrightarrow>
        stack_invert_point [Transpose [1, 0, 2], DimBroadcast 2 9, Promote 0 4] (q[k := x])
        = stack_invert_point [Transpose [1, 0, 2], DimBroadcast 2 9, Promote 0 4] q)}"
  by (rule find_imaginary_dims_correct) code_simp+

text \<open>
  Outside the condition the list is wrong. \<open>Delinearize::find_imaginary_dims\<close> leaves the list as it is,
  so the imaginary dimensions behind the delinearized one keep their old index: promoting dimension 1
  and delinearizing dimension 0 into two makes dimension 2 imaginary, but 1 is reported.
\<close>

lemma delinearize_imaginary_stale:
  "stack_ok [Delinearize 0 [2, 3], Promote 1 4] 1"
  "stack_find_imaginary_dims [Delinearize 0 [2, 3], Promote 1 4] = Inr [1]"
  "stack_invert_point [Delinearize 0 [2, 3], Promote 1 4] [x, 0, y] = Inr [x * 3]"
proof -
  show "stack_ok [Delinearize 0 [2, 3], Promote 1 4] 1" by simp
  show "stack_find_imaginary_dims [Delinearize 0 [2, 3], Promote 1 4] = Inr [1]" by code_simp
  show "stack_invert_point [Delinearize 0 [2, 3], Promote 1 4] [x, 0, y] = Inr [x * 3]"
    by (simp add: stack_invert_point_def delinearize_invert_point_def delinearize_inner_def
        promote_invert_point_def eval_nat_numeral vec_upd_def)
qed

text \<open>Broadcasting a promoted dimension lists it twice; projecting it away removes one of the entries,
  and the other one stays, out of range of the view.\<close>

lemma broadcast_imaginary_duplicate:
  "stack_find_imaginary_dims [DimBroadcast 1 3, Promote 1 1] = Inr [1, 1]"
  "stack_find_imaginary_dims [Project 1 0, DimBroadcast 1 3, Promote 1 1] = Inr [1]"
  "stack_ndim [Project 1 0, DimBroadcast 1 3, Promote 1 1] 1 = 1"
  by code_simp+

end
