(* ===== verification/TransformSymbolic.thy ===== *)
theory TransformSymbolic
  imports TransformImaginary
begin

text \<open>
  Symbolic points and domains along a stack. A launch names the sub-store each point task uses by a
  symbolic point over the view, which \<open>TransformStack::invert\<close> turns into one over the storage; the
  colors of the partition are inverted by \<open>invert_color\<close>. The theory shows that both describe the
  same color, and that a view stays inside its storage.
\<close>

section \<open>Symbolic points\<close>

abbreviation color_of :: "coord list \<Rightarrow> u64 list" where
  "color_of \<equiv> map word_of_int"

lemma sp_eval_append [simp]: "sp_eval (xs @ ys) p = sp_eval xs p @ sp_eval ys p"
  by (simp add: sp_eval_def)

lemma sp_eval_Cons [simp]: "sp_eval (e # xs) p = se_eval p e # sp_eval xs p"
  by (simp add: sp_eval_def)

lemma sp_eval_take: "take i (sp_eval sp p) = sp_eval (take i sp) p"
  by (simp add: sp_eval_def take_map)

lemma sp_eval_drop: "drop i (sp_eval sp p) = sp_eval (drop i sp) p"
  by (simp add: sp_eval_def drop_map)

lemma sp_eval_update: "sp_eval (sp[i := e]) p = (sp_eval sp p)[i := se_eval p e]"
  by (simp add: sp_eval_def map_update)

lemma array_map_map:
  assumes "array_map sp m = Inr sp'" "array_map (map f sp) m = Inr ys"
  shows "ys = map f sp'"
  using assms
  by (auto simp: array_map_def rbind_eq_Inr assert_valid_mapping_iff nat_less_iff)

lemma delinearize_invert_color_eq:
  assumes "delinearize_invert_color d sizes c = Inr c'" "d + length sizes \<le> length c" "sizes \<noteq> []"
  shows "c' = take (d + 1) c @ drop (d + length sizes) c"
proof -
  have *: "d + 1 + (length sizes - 1) = d + length sizes"
    using assms(3) by (cases sizes) simp_all
  then show ?thesis
    using assms(1,2) erase_times_Inr [of "d + 1" "length sizes - 1" c] unfolding *
    by (auto simp: delinearize_invert_color_def rbind_eq_Inr rguard_eq_Inr)
qed

lemma t_invert_symbolic_color:
  assumes "t_ok t n" "length sp = t_child_ndim t n" "t_invert_symbolic t sp = Inr sp'"
    "t_invert_color t (color_of (sp_eval sp p)) = Inr c"
  shows "c = color_of (sp_eval sp' p) \<and> length sp' = n"
proof (cases t)
  case (Transpose axes)
  have "array_map (sp_eval sp p) (map int (transpose_inverse axes)) = Inr (sp_eval sp' p)"
    using Transpose assms(1,2,3) transpose_inverse_ok(1) [of axes n]
    by (auto simp: transpose_invert_symbolic_def sp_eval_def axes_ok_def)
  with Transpose assms show ?thesis using transpose_inverse_ok(1) [of axes n]
    by (auto simp: transpose_invert_color_def transpose_invert_symbolic_def array_map_map axes_ok_def)
next
  case (Delinearize d sizes)
  have k: "0 < length sizes" "d < n" using Delinearize assms(1) by simp_all
  have l: "length sp = n + length sizes - 1" using Delinearize assms(2) by simp
  then have le: "d + length sizes \<le> length sp" "d + 1 \<le> length sp" using k by linarith+
  have sp': "sp' = take (d + 1) sp @ drop (d + length sizes) sp"
    using Delinearize assms(3) by (auto simp: delinearize_invert_symbolic_def rguard_eq_Inr)
  have "length sp' = d + 1 + (length sp - (d + length sizes))"
    unfolding sp' length_append length_take length_drop using le by linarith
  then have "length sp' = n" using l k by linarith
  then show ?thesis
    using Delinearize assms(4) k le sp' delinearize_invert_color_eq [of d sizes "color_of (sp_eval sp p)" c]
    by (simp add: sp_eval_take sp_eval_drop take_map drop_map)
qed (use assms in \<open>auto simp: conversion_defs promote_invert_symbolic_def project_invert_symbolic_def
      broadcast_invert_symbolic_def vec_eq_Inr sp_eval_take [symmetric] sp_eval_drop [symmetric] sp_eval_update take_map drop_map map_update\<close>)

lemma stack_invert_symbolic_color:
  assumes "stack_ok ts n" "length sp = stack_ndim ts n" "stack_invert_symbolic ts sp = Inr sp'"
    "stack_invert_color ts (color_of (sp_eval sp p)) = Inr c"
  shows "c = color_of (sp_eval sp' p) \<and> length sp' = n"
  using assms unfolding stack_invert_symbolic_def stack_invert_color_def
proof (induction ts arbitrary: sp)
  case (Cons t parent)
  from Cons.prems(3) obtain sp1 where s: "t_invert_symbolic t sp = Inr sp1"
    "stack_invert_visit t_invert_symbolic parent sp1 = Inr sp'"
    by (auto simp only: stack_invert_visit_Cons rbind_eq_Inr)
  from Cons.prems(4) obtain c1 where c: "t_invert_color t (color_of (sp_eval sp p)) = Inr c1"
    "stack_invert_visit t_invert_color parent c1 = Inr c"
    by (auto simp only: stack_invert_visit_Cons rbind_eq_Inr)
  have "c1 = color_of (sp_eval sp1 p) \<and> length sp1 = stack_ndim parent n"
    using Cons.prems(1,2) by (intro t_invert_symbolic_color [OF _ _ s(1) c(1)]) simp_all
  then have c1: "c1 = color_of (sp_eval sp1 p)" and l: "length sp1 = stack_ndim parent n" by blast+
  show ?case using Cons.prems(1) by (intro Cons.IH [OF _ l s(2)] c(2) [unfolded c1]) simp
qed simp

text \<open>C28: The symbolic point that \<open>TransformStack::invert\<close> hands to the launch names the same storage
  color as inverting the color of each point: for every point of the launch, inverting the color the
  symbolic point over the view evaluates to gives the color the inverted symbolic point evaluates to,
  through delinearizations as well.\<close>

theorem invert_symbolic_color:
  assumes "stack_ok ts n" "length sp = stack_ndim ts n" "stack_invert_symbolic ts sp = Inr sp'"
    "stack_invert_color ts (color_of (sp_eval sp p)) = Inr c"
  shows "c = color_of (sp_eval sp' p) \<and> length sp' = n"
  using assms by (rule stack_invert_symbolic_color)

lemma invert_symbolic_color_witness:
  "([2, 3] :: u64 list) = color_of (sp_eval [dimension 1, se_plus (se_mult (dimension 0) 2) 1] [1, 2])
    \<and> length [dimension 1, se_plus (se_mult (dimension 0) 2) 1] = 2"
proof (rule invert_symbolic_color)
  let ?ts = "[Delinearize 0 [2, 4], Transpose [1, 0]]"
  let ?sp = "[se_plus (se_mult (dimension 0) 2) 1, se_constant 0, dimension 1]"
  have inv: "transpose_inverse [1, 0] = [1, 0]" and ok: "assert_valid_mapping 2 [1, 0] = Inr ()"
    by code_simp+
  have ev: "sp_eval ?sp [1, 2] = [3, 0, 2]"
    by (simp add: se_eval_def se_is_constant_def se_plus_def se_mult_def dimension_def UNSET_def sp_eval_def
        se_constant_def)
  show "stack_ok ?ts 2" by code_simp
  show "length ?sp = stack_ndim ?ts 2" by simp
  show "stack_invert_symbolic ?ts ?sp = Inr [dimension 1, se_plus (se_mult (dimension 0) 2) 1]"
    using inv ok
    by (simp add: stack_invert_symbolic_def delinearize_invert_symbolic_def transpose_invert_symbolic_def
        array_map_def eval_nat_numeral)
  show "stack_invert_color ?ts (color_of (sp_eval ?sp [1, 2])) = Inr [2, 3]"
    unfolding ev by code_simp
qed

section \<open>Domains\<close>

text \<open>\<open>t_fits t d\<close>: the transform applies to a store whose domain is \<open>d\<close>: the projected coordinate
  lies in it, a broadcast dimension has the coordinate 0, a delinearized dimension starts at 0 and the
  strides are positive as coordinates.\<close>

fun t_fits :: "transform \<Rightarrow> domain \<Rightarrow> bool" where
  "t_fits (Project k c) d = (k < get_dim d \<and> dom_lo d ! k \<le> c \<and> c \<le> dom_hi d ! k)"
| "t_fits (DimBroadcast k sz) d = (k < get_dim d \<and> dom_lo d ! k \<le> 0 \<and> 0 \<le> dom_hi d ! k)"
| "t_fits (Delinearize k sizes) d =
     (k < get_dim d \<and> sizes \<noteq> [] \<and> dom_lo d ! k = 0 \<and> 0 \<le> dom_hi d ! k \<and>
      0 < sint (hd (delinearize_strides sizes)))"
| "t_fits t d = t_ok t (get_dim d)"

fun stack_fits :: "transform_stack \<Rightarrow> domain \<Rightarrow> bool" where
  "stack_fits [] d = True"
| "stack_fits (t # parent) d =
     (stack_fits parent d \<and>
      (case (if parent = [] then Inr d else stack_transform parent d) of
         Inl e \<Rightarrow> False | Inr d' \<Rightarrow> t_fits t d'))"

lemma in_domain_iff:
  "in_domain d p \<longleftrightarrow> length (dom_hi d) = length (dom_lo d) \<and> length p = length (dom_lo d) \<and>
     (\<forall>i < length p. dom_lo d ! i \<le> p ! i \<and> p ! i \<le> dom_hi d ! i)"
  by (auto simp: in_domain_def in_box_iff)

lemma delinearize_coords_eq:
  "delinearize_coords dim k st xs = Inr ys \<Longrightarrow>
     (if k \<le> dim \<and> dim < k + length xs
      then \<exists>ds. delinearize_digits st (xs ! (dim - k)) = Inr ds \<and>
        ys = take (dim - k) xs @ ds @ drop (Suc (dim - k)) xs
      else ys = xs)"
proof (induction xs arbitrary: k ys)
  case (Cons x xs)
  show ?case
  proof (cases "k = dim")
    case True
    then show ?thesis using Cons.prems Cons.IH [of "Suc k"] by (auto simp: rbind_eq_Inr)
  next
    case False
    then obtain zs where z: "delinearize_coords dim (Suc k) st xs = Inr zs" "ys = x # zs"
      using Cons.prems by (auto simp: rbind_eq_Inr)
    show ?thesis
    proof (cases "Suc k \<le> dim \<and> dim < Suc k + length xs")
      case True
      then have "dim - k = Suc (dim - Suc k)" by linarith
      then show ?thesis using Cons.IH [OF z(1)] z(2) True by simp
    qed (use Cons.IH [OF z(1)] z(2) False in auto)
  qed
qed auto

lemma delinearize_digits_eq:
  "delinearize_digits st x = Inr ds \<Longrightarrow> length ds = length st \<and> (st \<noteq> [] \<longrightarrow> hd ds = x sdiv sint (hd st))"
  by (induction st arbitrary: x ds) (auto simp: rbind_eq_Inr rguard_eq_Inr)

lemma sdiv_bound: "0 \<le> (x :: int) \<Longrightarrow> 0 < s \<Longrightarrow> 0 \<le> h \<Longrightarrow> x \<le> h sdiv s \<Longrightarrow> x * s \<le> h"
  by (metis sdiv_nonneg mult_right_mono order_trans less_imp_le div_mult_mod_eq le_add_same_cancel1 pos_mod_sign mult.commute)

lemma delinearize_domain_safe:
  assumes "t_fits (Delinearize k sizes) d" "delinearize_transform k sizes d = Inr d'" "in_domain d' q"
    "domain_wf d" "delinearize_invert_point k sizes q = Inr p"
  shows "in_domain d p"
proof -
  let ?st = "delinearize_strides sizes" and ?n = "length sizes"
  have k: "k < length (dom_lo d)" "k < length (dom_hi d)" "length (dom_hi d) = length (dom_lo d)"
    using assms(1,4) by (simp_all add: get_dim_def domain_wf_def)
  have n: "0 < ?n" using assms(1) by simp
  obtain dl dh where dl: "delinearize_digits ?st (dom_lo d ! k) = Inr dl"
      "dom_lo d' = take k (dom_lo d) @ dl @ drop (Suc k) (dom_lo d)"
    and dh: "delinearize_digits ?st (dom_hi d ! k) = Inr dh"
      "dom_hi d' = take k (dom_hi d) @ dh @ drop (Suc k) (dom_hi d)"
    using assms(2) k by (auto simp: delinearize_transform_def rguard_eq_Inr rbind_eq_Inr
        dest!: delinearize_coords_eq)
  have ld: "length dl = ?n" "length dh = ?n" using delinearize_digits_eq dl dh by fastforce+
  have st: "?st \<noteq> []" using n delinearize_strides_length [of sizes] by (metis length_0_conv less_numeral_extra(3))
  have h0: "dl ! 0 = dom_lo d ! k sdiv sint (hd ?st)" "dh ! 0 = dom_hi d ! k sdiv sint (hd ?st)"
    using delinearize_digits_eq [OF dl(1)] delinearize_digits_eq [OF dh(1)] st ld n
    by (metis hd_conv_nth length_greater_0_conv)+
  have lq: "length q = length (dom_lo d) + ?n - 1"
    using assms(3) dl(2) ld k by (simp add: in_domain_iff)
  have q: "dom_lo d' ! i \<le> q ! i" "q ! i \<le> dom_hi d' ! i" if "i < length q" for i
    using assms(3) that by (simp_all add: in_domain_iff)
  have le: "k + ?n \<le> length q" using k n lq by linarith
  have p: "p = take k q @ q ! k * sint (hd ?st) # drop (k + ?n) q"
    using delinearize_invert_point_eq [OF le _ assms(5)] n by simp
  have lp: "length p = length (dom_lo d)" using p lq k n by simp
  have "dom_lo d ! i \<le> p ! i \<and> p ! i \<le> dom_hi d ! i" if i: "i < length p" for i
  proof -
    consider "i < k" | "i = k" | "k < i" by linarith
    then show ?thesis
    proof cases
      case 1
      then show ?thesis using q [of i] k lq n p dl(2) dh(2) by (simp add: nth_append)
    next
      case 2
      have "dom_lo d' ! k = dl ! 0" "dom_hi d' ! k = dh ! 0"
        using dl(2) dh(2) k ld n by (simp_all add: nth_append)
      then have "0 \<le> q ! k" "q ! k \<le> dom_hi d ! k sdiv sint (hd ?st)"
        using q [of k] h0 le n assms(1) by (auto simp: sdiv_nonneg)
      moreover have "p ! k = q ! k * sint (hd ?st)" using p le n by (simp add: nth_append)
      ultimately show ?thesis using 2 assms(1) sdiv_bound by auto
    next
      case 3
      let ?j = "i + ?n - 1"
      have j: "?j < length q" "p ! i = q ! ?j" "dom_lo d' ! ?j = dom_lo d ! i" "dom_hi d' ! ?j = dom_hi d ! i"
        using 3 i lp lq k ld n p dl(2) dh(2) le by (auto simp: nth_append nth_Cons' add.commute)
      then show ?thesis using q [OF j(1)] by simp
    qed
  qed
  then show ?thesis using lp k by (simp add: in_domain_iff)
qed

lemma promote_coords_eq:
  "promote_coords k c xs = Inr ys \<Longrightarrow> k \<le> length xs \<and> ys = take k xs @ c # drop k xs"
  by (auto simp: promote_coords_def rguard_eq_Inr insert_map simp del: upt_Suc)

lemma filter_upt_neq:
  assumes "k < n"
  shows "filter (\<lambda>i. i \<noteq> k) [0..<n] = map (\<lambda>i. if i < k then i else i + 1) [0..<n - 1]"
proof -
  have "[0..<n] = [0..<k] @ k # [Suc k..<n]"
    using assms upt_add_eq_append [of 0 k "n - k"] by (simp add: upt_conv_Cons)
  moreover have "filter (\<lambda>i. i \<noteq> k) [0..<k] = [0..<k]" "filter (\<lambda>i. i \<noteq> k) [Suc k..<n] = [Suc k..<n]"
    by (simp_all add: filter_id_conv)
  ultimately have "filter (\<lambda>i. i \<noteq> k) [0..<n] = [0..<k] @ [Suc k..<n]" by (simp only: filter_append filter.simps) simp
  also have "\<dots> = map (\<lambda>i. if i < k then i else i + 1) [0..<n - 1]"
    using assms by (intro nth_equalityI) (auto simp: nth_append)
  finally show ?thesis .
qed

lemma project_coords_eq:
  "project_coords k xs = Inr ys \<Longrightarrow> k < length xs \<and> ys = take k xs @ drop (Suc k) xs"
  by (auto simp: project_coords_def rguard_eq_Inr erase_map filter_upt_neq comp_def)

lemma transpose_coords_eq:
  "axes_ok axes (length xs) \<Longrightarrow> transpose_coords axes xs = Inr (map ((!) xs) axes)"
proof -
  assume a: "axes_ok axes (length xs)"
  then have l: "length axes = length xs" by (simp add: axes_ok_def)
  have "transpose_coords axes xs = Inr (map (\<lambda>i. xs ! (axes ! i)) [0..<length xs])"
    unfolding transpose_coords_def using a by (intro rmapM_Inr) (auto simp: axes_ok_def)
  also have "map (\<lambda>i. xs ! (axes ! i)) [0..<length xs] = map ((!) xs) axes"
    using l by (intro nth_equalityI) simp_all
  finally show ?thesis .
qed

lemma in_box_insert:
  "k \<le> length lo \<Longrightarrow> length hi = length lo \<Longrightarrow>
     in_box (take k lo @ a # drop k lo) (take k hi @ b # drop k hi) q \<longleftrightarrow>
     k < length q \<and> a \<le> q ! k \<and> q ! k \<le> b \<and> in_box lo hi (take k q @ drop (Suc k) q)"
proof (induction k arbitrary: lo hi q)
  case 0
  then show ?case by (cases q) auto
next
  case (Suc k)
  then obtain l ls h hs where "lo = l # ls" "hi = h # hs" by (cases lo; cases hi) auto
  then show ?case using Suc by (cases q) auto
qed

lemma erase_insert_id:
  "k \<le> length xs \<Longrightarrow> take k (take k xs @ x # drop k xs) @ drop (Suc k) (take k xs @ x # drop k xs) = xs"
  by simp

lemma promote_domain_safe:
  assumes "promote_transform k sz d = Inr d'" "in_domain d' q" "domain_wf d" "promote_invert_point k q = Inr p"
  shows "in_domain d p \<and> domain_wf d'"
proof -
  from assms(1) obtain a b where d': "dom_lo d' = take k (dom_lo d) @ a # drop k (dom_lo d)"
    "dom_hi d' = take k (dom_hi d) @ b # drop k (dom_hi d)" "k \<le> length (dom_lo d)"
    by (auto simp: promote_transform_def rbind_eq_Inr dest!: promote_coords_eq)
  have p: "p = take k q @ drop (Suc k) q"
    using assms(4) by (auto simp: promote_invert_point_def vec_eq_Inr)
  have l: "length (dom_hi d) = length (dom_lo d)" using assms(3) by (simp add: domain_wf_def)
  show ?thesis
    using assms(2) in_box_insert [OF d'(3) l, of a b q] d'(3) l p
    by (simp add: in_domain_def d' domain_wf_def)
qed

lemma project_domain_safe:
  assumes "project_transform k d = Inr d'" "in_domain d' q" "domain_wf d" "project_invert_point k c q = Inr p"
    "dom_lo d ! k \<le> c" "c \<le> dom_hi d ! k"
  shows "in_domain d p \<and> domain_wf d'"
proof -
  from assms(1) have d': "dom_lo d' = take k (dom_lo d) @ drop (Suc k) (dom_lo d)"
    "dom_hi d' = take k (dom_hi d) @ drop (Suc k) (dom_hi d)" and k: "k < length (dom_lo d)"
    by (auto simp: project_transform_def rbind_eq_Inr dest!: project_coords_eq)
  have l: "length (dom_hi d) = length (dom_lo d)" using assms(3) by (simp add: domain_wf_def)
  have p: "p = take k q @ c # drop k q" "k \<le> length q"
    using assms(4) by (auto simp: project_invert_point_def vec_eq_Inr)
  have r: "take k (dom_lo d') @ dom_lo d ! k # drop k (dom_lo d') = dom_lo d"
    "take k (dom_hi d') @ dom_hi d ! k # drop k (dom_hi d') = dom_hi d"
    using k l by (simp_all add: d' id_take_nth_drop [symmetric])
  have len: "k \<le> length (dom_lo d')" "length (dom_hi d') = length (dom_lo d')" using k l by (simp_all add: d')
  have "take k p @ drop (Suc k) p = q" "p ! k = c" "k < length p"
    using p(2) unfolding p(1) by (simp_all add: nth_append)
  then have "in_box (dom_lo d) (dom_hi d) p"
    using in_box_insert [OF len, of "dom_lo d ! k" "dom_hi d ! k" p] r assms(2,5,6)
    by (simp add: in_domain_def)
  then show ?thesis using len by (simp add: in_domain_def domain_wf_def)
qed

lemma transpose_domain_safe:
  assumes "transpose_transform axes d = Inr d'" "in_domain d' q" "domain_wf d" "axes_ok axes (get_dim d)"
    "transpose_invert_point axes q = Inr p"
  shows "in_domain d p \<and> domain_wf d'"
proof -
  let ?n = "length (dom_lo d)"
  have ok: "axes_ok axes ?n" "length (dom_hi d) = ?n" using assms(3,4) by (simp_all add: get_dim_def domain_wf_def)
  have d': "dom_lo d' = map ((!) (dom_lo d)) axes" "dom_hi d' = map ((!) (dom_hi d)) axes"
    using assms(1) ok by (auto simp: transpose_transform_def transpose_coords_eq)
  have la: "length axes = ?n" using ok(1) by (simp add: axes_ok_def)
  have q: "length q = ?n" "\<And>i. i < ?n \<Longrightarrow> dom_lo d ! (axes ! i) \<le> q ! i \<and> q ! i \<le> dom_hi d ! (axes ! i)"
    using assms(2) la by (auto simp: in_domain_iff d')
  have p: "p = map (\<lambda>i. q ! (transpose_inverse axes ! i)) [0..<?n]"
    using assms(5) transpose_inv_map [OF ok(1) q(1)] by (simp add: transpose_invert_point_def)
  have "dom_lo d ! i \<le> p ! i \<and> p ! i \<le> dom_hi d ! i" if "i < ?n" for i
    using that p q(2) [of "transpose_inverse axes ! i"] transpose_inverse_nth [OF ok(1) that] by simp
  then show ?thesis using p ok la by (simp add: in_domain_iff domain_wf_def d')
qed

lemma broadcast_domain_safe:
  assumes "broadcast_transform k sz d = Inr d'" "in_domain d' q" "domain_wf d" "broadcast_invert_point k q = Inr p"
    "dom_lo d ! k \<le> 0" "0 \<le> dom_hi d ! k"
  shows "in_domain d p \<and> domain_wf d'"
  using assms
  by (auto simp: broadcast_transform_def broadcast_invert_point_def vec_eq_Inr in_domain_iff domain_wf_def
      get_dim_def nth_list_update)

lemma shift_domain_safe:
  assumes "shift_transform k off d = Inr d'" "in_domain d' q" "domain_wf d" "shift_invert_point k off q = Inr p"
  shows "in_domain d p \<and> domain_wf d'"
  using assms
  by (auto simp: shift_transform_def shift_invert_point_def vec_upd_eq_Inr rbind_eq_Inr in_domain_iff
      domain_wf_def nth_list_update)

lemma t_domain_safe:
  assumes "t_fits t d" "t_transform t d = Inr d'" "in_domain d' q" "domain_wf d" "t_invert_point t q = Inr p"
  shows "in_domain d p \<and> domain_wf d'"
proof (cases t)
  case (Delinearize k sizes)
  have "domain_wf d'" using assms(3) by (simp add: in_domain_iff domain_wf_def)
  then show ?thesis using Delinearize assms delinearize_domain_safe by simp
qed (use assms shift_domain_safe promote_domain_safe project_domain_safe broadcast_domain_safe
      transpose_domain_safe in simp_all)

lemma t_transform_wf:
  assumes "t_fits t d" "t_transform t d = Inr d'" "domain_wf d"
  shows "domain_wf d'"
proof (cases t)
  case (Delinearize k sizes)
  then show ?thesis using assms
    by (auto simp: delinearize_transform_def rguard_eq_Inr rbind_eq_Inr domain_wf_def get_dim_def
        dest!: delinearize_coords_eq delinearize_digits_eq)
qed (use assms in \<open>auto simp: shift_transform_def promote_transform_def project_transform_def broadcast_transform_def
      transpose_transform_def transpose_coords_eq vec_upd_eq_Inr rbind_eq_Inr domain_wf_def get_dim_def
      dest!: promote_coords_eq project_coords_eq\<close>)

lemma stack_domain_safe:
  "stack_fits ts d \<Longrightarrow> stack_invert_visit t_invert_point ts q = Inr p \<Longrightarrow>
     (if ts = [] then Inr d else stack_transform ts d) = Inr d' \<Longrightarrow> domain_wf d \<Longrightarrow>
     domain_wf d' \<and> (in_domain d' q \<longrightarrow> in_domain d p)"
proof (induction ts arbitrary: d' q)
  case (Cons t parent)
  obtain r where r: "t_invert_point t q = Inr r" "stack_invert_visit t_invert_point parent r = Inr p"
    using Cons.prems(2) by (auto simp only: stack_invert_visit_Cons rbind_eq_Inr)
  obtain d1 where d1: "(if parent = [] then Inr d else stack_transform parent d) = Inr d1"
    "t_transform t d1 = Inr d'"
    using Cons.prems(3) by (auto simp: rbind_eq_Inr split: if_splits)
  have fits: "stack_fits parent d" "t_fits t d1" using Cons.prems(1) d1(1) by simp_all
  note ih = Cons.IH [OF fits(1) r(2) d1(1) Cons.prems(4)]
  then show ?case
    using t_domain_safe [OF fits(2) d1(2) _ _ r(1)] t_transform_wf [OF fits(2) d1(2)] by blast
qed simp

text \<open>C39: A view never reaches outside its storage: if every transform of a stack fits the domain it
  is applied to, every point of the domain of the view that \<open>invert_point\<close> maps to the storage is
  mapped to a point of the domain of the storage.\<close>

theorem view_domain_safe:
  assumes "stack_fits ts d" "ts \<noteq> []" "domain_wf d" "stack_transform ts d = Inr d'" "in_domain d' q"
    "stack_invert_point ts q = Inr p"
  shows "in_domain d p"
  using stack_domain_safe [OF assms(1) assms(6) [unfolded stack_invert_point_def] _ assms(3), of d'] assms(2,4,5)
  by simp

lemma view_domain_safe_witness: "in_domain \<lparr>dom_lo = [0, 0], dom_hi = [5, 9]\<rparr> [3, 7]"
proof (rule view_domain_safe)
  let ?ts = "[Delinearize 0 [2, 3], Project 1 7]" and ?d = "\<lparr>dom_lo = [0, 0], dom_hi = [5, 9]\<rparr>"
  show "stack_fits ?ts ?d" by code_simp
  show "?ts \<noteq> []" by simp
  show "domain_wf ?d" by (simp add: domain_wf_def)
  show "stack_transform ?ts ?d = Inr \<lparr>dom_lo = [0, 0], dom_hi = [1, 2]\<rparr>" by code_simp
  show "in_domain \<lparr>dom_lo = [0, 0], dom_hi = [1, 2]\<rparr> [1, 0]" by (simp add: in_domain_def)
  show "stack_invert_point ?ts [1, 0] = Inr [3, 7]" by code_simp
qed

end
