(* ===== verification/Tiling.thy ===== *)
theory Tiling
  imports TransformSymbolic
begin

text \<open>
  Partitions of a store (src/cpp/legate/partitioning/detail/partition): \<open>Tiling\<close> (tiling.cc),
  \<open>NoPartition\<close> (no_partition.cc), \<open>Opaque\<close> (opaque.cc) and \<open>Image\<close> (image.cc), the virtual functions
  of \<open>Partition\<close> dispatching on the constructor of a datatype. Index spaces and index partitions of
  Legion are numbers; an image refers to its function store by its id. \<open>Tiling::construct\<close> gives Legion
  a transform and an extent; the rectangle of a color is the documented one of a restricted
  partition, the extent moved by the transform of the color.
\<close>

section \<open>Tilings\<close>

definition zip_equal :: "'a list \<Rightarrow> 'b list \<Rightarrow> ('a \<times> 'b) list result" where
  "zip_equal xs ys = rguard (length xs = length ys) InvalidArgument (Inr (zip xs ys))"

record tiling =
  tl_overlapped :: bool
  tl_tile_shape :: "u64 list"
  tl_color_shape :: "u64 list"
  tl_offsets :: "int list"
  tl_strides :: "u64 list"

definition create_tiling :: "u64 list \<Rightarrow> u64 list \<Rightarrow> int list \<Rightarrow> tiling result" where
  "create_tiling tile_shape color_shape offsets =
     (let offs = (if offsets = [] then replicate (length tile_shape) 0 else offsets)
      in rguard (length tile_shape = length color_shape) CheckFailed
        (rguard (length tile_shape = length offs) CheckFailed
          (Inr \<lparr>tl_overlapped = False, tl_tile_shape = tile_shape, tl_color_shape = color_shape,
            tl_offsets = offs, tl_strides = tile_shape\<rparr>)))"

definition create_tiling_strides ::
  "u64 list \<Rightarrow> u64 list \<Rightarrow> int list \<Rightarrow> u64 list \<Rightarrow> tiling result" where
  "create_tiling_strides tile_shape color_shape offsets strides =
     rbind (zip_equal strides tile_shape) (\<lambda>zs.
     (let offs = (if offsets = [] then replicate (length tile_shape) 0 else offsets)
      in rguard (length tile_shape = length color_shape) CheckFailed
        (rguard (length tile_shape = length offs) CheckFailed
          (Inr \<lparr>tl_overlapped = \<not> list_all (\<lambda>(s, t). t \<le> s) zs, tl_tile_shape = tile_shape,
            tl_color_shape = color_shape, tl_offsets = offs, tl_strides = strides\<rparr>))))"

definition tiling_eq :: "tiling \<Rightarrow> tiling \<Rightarrow> bool" where
  "tiling_eq a b \<longleftrightarrow> tl_tile_shape a = tl_tile_shape b \<and> tl_color_shape a = tl_color_shape b \<and>
     tl_offsets a = tl_offsets b \<and> tl_strides a = tl_strides b"

definition tiling_is_complete_for :: "tiling \<Rightarrow> u64 list \<Rightarrow> int list \<Rightarrow> bool result" where
  "tiling_is_complete_for t storage_exts storage_offs =
     rguard (length storage_exts = length storage_offs) CheckFailed
       (rguard (length storage_offs = length (tl_offsets t)) CheckFailed
         (rguard (length (tl_strides t) = length (tl_offsets t) \<and>
                  length (tl_color_shape t) = length (tl_offsets t)) InvalidArgument
           (Inr (list_all (\<lambda>(offset, stride, colors, soff, ext).
              (let my_lo = offset; my_hi = my_lo + sint (stride * colors)
               in soff \<ge> my_lo \<or> my_hi \<ge> soff + sint ext))
             (zip (tl_offsets t) (zip (tl_strides t) (zip (tl_color_shape t) (zip storage_offs storage_exts))))))))"

text \<open>A launch domain is \<open>None\<close> when it is not valid.\<close>

definition tiling_is_disjoint_for :: "tiling \<Rightarrow> domain option \<Rightarrow> bool" where
  "tiling_is_disjoint_for t launch_domain \<longleftrightarrow>
     \<not> tl_overlapped t \<and>
     (case launch_domain of None \<Rightarrow> True | Some d \<Rightarrow> domain_volume d \<le> array_volume (tl_color_shape t))"

definition tiling_scale :: "tiling \<Rightarrow> u64 list \<Rightarrow> tiling result" where
  "tiling_scale t factors =
     rguard (length (tl_tile_shape t) \<le> length factors \<and> length (tl_offsets t) \<le> length factors) OutOfBounds
       (create_tiling (map2 (*) (tl_tile_shape t) factors) (tl_color_shape t)
         (map2 (\<lambda>off factor. off * sint factor) (tl_offsets t) factors))"

definition tiling_bloat :: "tiling \<Rightarrow> u64 list \<Rightarrow> u64 list \<Rightarrow> tiling result" where
  "tiling_bloat t low_offsets high_offsets =
     rguard (length low_offsets = length (tl_tile_shape t) \<and> length high_offsets = length (tl_tile_shape t))
       InvalidArgument
       (create_tiling_strides
         (map2 (\<lambda>cur (lo, hi). cur + lo + hi) (tl_tile_shape t) (zip low_offsets high_offsets))
         (tl_color_shape t)
         (map2 (\<lambda>off diff. off - sint diff) (tl_offsets t) low_offsets)
         (tl_tile_shape t))"

definition tiling_construct :: "tiling \<Rightarrow> matrix \<times> domain" where
  "tiling_construct t =
     (let ndim = length (tl_tile_shape t);
          transform = map (\<lambda>i. map (\<lambda>j. if i = j then sint (tl_strides t ! i) else 0) [0..<ndim]) [0..<ndim];
          extent = to_domain (tl_tile_shape t)
      in (transform,
          \<lparr>dom_lo = map (\<lambda>i. dom_lo extent ! i + tl_offsets t ! i) [0..<ndim],
           dom_hi = map (\<lambda>i. dom_hi extent ! i + tl_offsets t ! i) [0..<ndim]\<rparr>))"

definition tiling_launch_domain :: "tiling \<Rightarrow> domain" where
  "tiling_launch_domain t = to_domain (tl_color_shape t)"

definition tiling_convert :: "tiling \<Rightarrow> transform_stack \<Rightarrow> tiling result" where
  "tiling_convert t ts =
     (if stack_identity ts then Inr t
      else rbind (stack_convert_extents ts (tl_tile_shape t)) (\<lambda>tile.
           rbind (stack_convert_color_shape ts (tl_color_shape t)) (\<lambda>colors.
           rbind (stack_convert_point ts (tl_offsets t)) (\<lambda>offs.
           rbind (stack_convert_extents ts (tl_strides t)) (\<lambda>strides.
             create_tiling_strides tile colors offs strides)))))"

definition tiling_invert :: "tiling \<Rightarrow> transform_stack \<Rightarrow> tiling result" where
  "tiling_invert t ts =
     (if stack_identity ts then Inr t
      else rbind (stack_invert_extents ts (tl_tile_shape t)) (\<lambda>tile.
           rbind (stack_invert_color_shape ts (tl_color_shape t)) (\<lambda>colors.
           rbind (stack_invert_point ts (tl_offsets t)) (\<lambda>offs.
           rbind (stack_invert_extents ts (tl_strides t)) (\<lambda>strides.
             create_tiling_strides tile colors offs strides)))))"

definition has_color :: "tiling \<Rightarrow> u64 list \<Rightarrow> bool" where
  "has_color t color \<longleftrightarrow> list_all2 (<) color (tl_color_shape t)"

definition get_child_extents :: "tiling \<Rightarrow> u64 list \<Rightarrow> u64 list \<Rightarrow> u64 list result" where
  "get_child_extents t extents color =
     rguard (has_color t color) InvalidArgument
       (rguard (length color = length (tl_tile_shape t) \<and> length (tl_offsets t) = length (tl_tile_shape t) \<and>
                length extents = length (tl_tile_shape t)) InvalidArgument
         (Inr (map (\<lambda>(shape, clr, off, ext).
            (let lo = max 0 (sint (shape * clr) + off);
                 hi = min (sint ext) (sint (shape * (clr + 1)) + off)
             in if lo \<le> hi then word_of_int (hi - lo) else 0))
           (zip (tl_tile_shape t) (zip color (zip (tl_offsets t) extents))))))"

definition get_child_offsets :: "tiling \<Rightarrow> u64 list \<Rightarrow> int list result" where
  "get_child_offsets t color =
     rguard (has_color t color) InvalidArgument
       (rguard (length color = length (tl_strides t) \<and> length (tl_offsets t) = length (tl_strides t)) InvalidArgument
         (Inr (map (\<lambda>(stride, clr, off). sint (stride * clr) + off)
           (zip (tl_strides t) (zip color (tl_offsets t))))))"

section \<open>Partitions\<close>

record opaque =
  op_ispace :: nat
  op_ipartition :: nat
  op_color_domain :: "domain option"
  op_color_shape :: "u64 list"

datatype image_hint = NO_HINT | MIN_MAX | FIRST_LAST

datatype partition =
    NoPartition
  | PTiling tiling
  | POpaque opaque
  | PImage nat partition image_hint

definition create_opaque :: "nat \<Rightarrow> nat \<Rightarrow> domain option \<Rightarrow> opaque" where
  "create_opaque ispace ipartition color_domain =
     \<lparr>op_ispace = ispace, op_ipartition = ipartition, op_color_domain = color_domain,
      op_color_shape = (case color_domain of None \<Rightarrow> [] | Some d \<Rightarrow> from_domain d)\<rparr>"

definition update_partition :: "nat \<Rightarrow> nat \<Rightarrow> domain \<Rightarrow> opaque \<Rightarrow> opaque" where
  "update_partition ispace ipartition color_domain p =
     p\<lparr>op_ispace := ispace, op_ipartition := ipartition, op_color_domain := Some color_domain,
       op_color_shape := from_domain color_domain\<rparr>"

definition opaque_eq :: "opaque \<Rightarrow> opaque \<Rightarrow> bool" where
  "opaque_eq a b \<longleftrightarrow> op_ipartition a = op_ipartition b"

definition opaque_is_disjoint_for :: "opaque \<Rightarrow> domain option \<Rightarrow> bool" where
  "opaque_is_disjoint_for p launch_domain =
     (case launch_domain of None \<Rightarrow> True
      | Some d \<Rightarrow> domain_volume d \<le> (case op_color_domain p of None \<Rightarrow> 0 | Some c \<Rightarrow> domain_volume c))"

definition no_partition_is_disjoint_for :: "domain option \<Rightarrow> bool" where
  "no_partition_is_disjoint_for launch_domain =
     (case launch_domain of None \<Rightarrow> True | Some d \<Rightarrow> domain_volume d = 1)"

definition opaque_convert :: "opaque \<Rightarrow> transform_stack \<Rightarrow> partition result" where
  "opaque_convert p ts = (if stack_identity ts then Inr (POpaque p) else Inl RuntimeError)"

definition opaque_invert :: "opaque \<Rightarrow> transform_stack \<Rightarrow> partition result" where
  "opaque_invert p ts = (if stack_identity ts then Inr (POpaque p) else Inl NonInvertible)"

definition image_convert :: "partition \<Rightarrow> transform_stack \<Rightarrow> partition result" where
  "image_convert self ts = (if stack_identity ts then Inr self else Inl NonInvertible)"

definition image_invert :: "partition \<Rightarrow> transform_stack \<Rightarrow> partition result" where
  "image_invert self ts = (if stack_identity ts then Inr self else Inl NonInvertible)"

fun p_is_complete_for :: "partition \<Rightarrow> u64 list \<Rightarrow> int list \<Rightarrow> bool result" where
  "p_is_complete_for NoPartition exts offs = Inr True"
| "p_is_complete_for (PTiling t) exts offs = tiling_is_complete_for t exts offs"
| "p_is_complete_for (POpaque p) exts offs = Inr True"
| "p_is_complete_for (PImage f p h) exts offs = Inr False"

fun p_is_disjoint_for :: "partition \<Rightarrow> domain option \<Rightarrow> bool" where
  "p_is_disjoint_for NoPartition d = no_partition_is_disjoint_for d"
| "p_is_disjoint_for (PTiling t) d = tiling_is_disjoint_for t d"
| "p_is_disjoint_for (POpaque p) d = opaque_is_disjoint_for p d"
| "p_is_disjoint_for (PImage f p h) d = (d = None)"

fun p_is_invertible :: "partition \<Rightarrow> bool" where
  "p_is_invertible NoPartition = True"
| "p_is_invertible (PTiling t) = True"
| "p_is_invertible (POpaque p) = False"
| "p_is_invertible (PImage f p h) = False"

fun p_is_convertible :: "partition \<Rightarrow> bool" where
  "p_is_convertible NoPartition = True"
| "p_is_convertible (PTiling t) = True"
| "p_is_convertible (POpaque p) = False"
| "p_is_convertible (PImage f p h) = False"

fun p_scale :: "partition \<Rightarrow> u64 list \<Rightarrow> partition result" where
  "p_scale NoPartition factors = Inr NoPartition"
| "p_scale (PTiling t) factors = rbind (tiling_scale t factors) (\<lambda>t'. Inr (PTiling t'))"
| "p_scale (POpaque p) factors = Inl RuntimeError"
| "p_scale (PImage f p h) factors = Inl RuntimeError"

fun p_bloat :: "partition \<Rightarrow> u64 list \<Rightarrow> u64 list \<Rightarrow> partition result" where
  "p_bloat NoPartition los his = Inr NoPartition"
| "p_bloat (PTiling t) los his = rbind (tiling_bloat t los his) (\<lambda>t'. Inr (PTiling t'))"
| "p_bloat (POpaque p) los his = Inl RuntimeError"
| "p_bloat (PImage f p h) los his = Inl RuntimeError"

fun p_has_launch_domain :: "partition \<Rightarrow> bool" where
  "p_has_launch_domain NoPartition = False"
| "p_has_launch_domain (PTiling t) = True"
| "p_has_launch_domain (POpaque p) = (op_color_domain p \<noteq> None)"
| "p_has_launch_domain (PImage f p h) = p_has_launch_domain p"

fun p_launch_domain :: "partition \<Rightarrow> domain option result" where
  "p_launch_domain NoPartition = Inl InvalidArgument"
| "p_launch_domain (PTiling t) = Inr (Some (tiling_launch_domain t))"
| "p_launch_domain (POpaque p) = Inr (op_color_domain p)"
| "p_launch_domain (PImage f p h) = p_launch_domain p"

fun p_has_color_shape :: "partition \<Rightarrow> bool" where
  "p_has_color_shape NoPartition = False"
| "p_has_color_shape (PTiling t) = True"
| "p_has_color_shape (POpaque p) = (op_color_domain p \<noteq> None)"
| "p_has_color_shape (PImage f p h) = p_has_color_shape p"

fun p_color_shape :: "partition \<Rightarrow> u64 list result" where
  "p_color_shape NoPartition = Inl InvalidArgument"
| "p_color_shape (PTiling t) = Inr (tl_color_shape t)"
| "p_color_shape (POpaque p) = Inr (op_color_shape p)"
| "p_color_shape (PImage f p h) = p_color_shape p"

fun p_convert :: "partition \<Rightarrow> transform_stack \<Rightarrow> partition result" where
  "p_convert NoPartition ts = Inr NoPartition"
| "p_convert (PTiling t) ts = rbind (tiling_convert t ts) (\<lambda>t'. Inr (PTiling t'))"
| "p_convert (POpaque p) ts = opaque_convert p ts"
| "p_convert (PImage f p h) ts = image_convert (PImage f p h) ts"

fun p_invert :: "partition \<Rightarrow> transform_stack \<Rightarrow> partition result" where
  "p_invert NoPartition ts = Inr NoPartition"
| "p_invert (PTiling t) ts = rbind (tiling_invert t ts) (\<lambda>t'. Inr (PTiling t'))"
| "p_invert (POpaque p) ts = opaque_invert p ts"
| "p_invert (PImage f p h) ts = image_invert (PImage f p h) ts"

section \<open>The tile of a color\<close>

definition tile_rect :: "legion_ops \<Rightarrow> tiling \<Rightarrow> u64 list \<Rightarrow> domain" where
  "tile_rect L t c =
     (case tiling_construct t of (transform, extent) \<Rightarrow>
       (let o' = mat_vec L transform (map sint c)
        in \<lparr>dom_lo = pt_add L o' (dom_lo extent), dom_hi = pt_add L o' (dom_hi extent)\<rparr>))"

text \<open>Well-formed tilings: the vectors have one length, the overlap flag is right, and the tiles of the
  color shape lie within 63 bits.\<close>

definition tiling_wf :: "tiling \<Rightarrow> bool" where
  "tiling_wf t \<longleftrightarrow>
     (let n = length (tl_tile_shape t) in
      length (tl_color_shape t) = n \<and> length (tl_offsets t) = n \<and> length (tl_strides t) = n \<and>
      (tl_overlapped t \<longleftrightarrow> (\<exists>i < n. tl_strides t ! i < tl_tile_shape t ! i)) \<and>
      (\<forall>i < n. uint (tl_tile_shape t ! i) < 2 ^ 63 \<and> uint (tl_strides t ! i) < 2 ^ 63 \<and>
         uint (tl_color_shape t ! i) < 2 ^ 63 \<and>
         uint (tl_strides t ! i) * uint (tl_color_shape t ! i) < 2 ^ 63))"

definition tile_lo :: "tiling \<Rightarrow> u64 list \<Rightarrow> nat \<Rightarrow> int" where
  "tile_lo t c i = uint (tl_strides t ! i) * uint (c ! i) + tl_offsets t ! i"

lemma tiling_wfD:
  assumes "tiling_wf t" "i < length (tl_tile_shape t)"
  shows "length (tl_color_shape t) = length (tl_tile_shape t)" "length (tl_offsets t) = length (tl_tile_shape t)"
    "length (tl_strides t) = length (tl_tile_shape t)" "uint (tl_tile_shape t ! i) < 2 ^ 63"
    "uint (tl_strides t ! i) < 2 ^ 63" "uint (tl_color_shape t ! i) < 2 ^ 63"
    "uint (tl_strides t ! i) * uint (tl_color_shape t ! i) < 2 ^ 63"
  using assms by (auto simp: tiling_wf_def Let_def)

lemma tiling_wf_length:
  assumes "tiling_wf t"
  shows "length (tl_color_shape t) = length (tl_tile_shape t)" "length (tl_offsets t) = length (tl_tile_shape t)"
    "length (tl_strides t) = length (tl_tile_shape t)"
  using assms by (auto simp: tiling_wf_def Let_def)

lemma has_colorD:
  assumes "has_color t c" "tiling_wf t"
  shows "length c = length (tl_tile_shape t)"
    "i < length (tl_tile_shape t) \<Longrightarrow> uint (c ! i) < uint (tl_color_shape t ! i)"
  using assms tiling_wf_length(1) [OF assms(2)]
  by (auto simp: has_color_def list_all2_conv_all_nth word_less_def)

lemma stride_color:
  assumes "has_color t c" "tiling_wf t" "i < length (tl_tile_shape t)"
  shows "sint (tl_strides t ! i * c ! i) = uint (tl_strides t ! i) * uint (c ! i)"
    "sint (c ! i) = uint (c ! i)" "sint (tl_strides t ! i) = uint (tl_strides t ! i)"
    "uint (c ! i + 1) = uint (c ! i) + 1"
    "uint (tl_strides t ! i) * (uint (c ! i) + 1) < 2 ^ 63"
proof -
  note w = tiling_wfD [OF assms(2,3)] and c = has_colorD(2) [OF assms(1,2,3)]
  have "uint (tl_strides t ! i) * (uint (c ! i) + 1) \<le> uint (tl_strides t ! i) * uint (tl_color_shape t ! i)"
    using c by (intro mult_left_mono) auto
  then show l: "uint (tl_strides t ! i) * (uint (c ! i) + 1) < 2 ^ 63" using w(7) by linarith
  then have "uint (tl_strides t ! i) * uint (c ! i) < 2 ^ 63"
    by (simp add: distrib_left) (meson add_increasing2 not_le order_trans uint_ge_0 linorder_not_le)
  then have "uint (tl_strides t ! i * c ! i) = uint (tl_strides t ! i) * uint (c ! i)"
    "uint (tl_strides t ! i) * uint (c ! i) < 2 ^ 63"
    by (simp_all add: uint_mult_u64)
  then show "sint (tl_strides t ! i * c ! i) = uint (tl_strides t ! i) * uint (c ! i)"
    by (metis sint_eq_uint_u64)
  show "sint (c ! i) = uint (c ! i)" using c w(6) by (intro sint_eq_uint_u64) linarith
  show "sint (tl_strides t ! i) = uint (tl_strides t ! i)" using w(5) by (rule sint_eq_uint_u64)
  show "uint (c ! i + 1) = uint (c ! i) + 1" using c w(6) by (subst uint_add_u64) simp_all
qed

lemma to_domain_nth:
  assumes "i < length xs" "uint (xs ! i) < 2 ^ 63"
  shows "dom_lo (to_domain xs) ! i = 0" "dom_hi (to_domain xs) ! i = uint (xs ! i) - 1"
  using assms by (auto simp: to_domain_def sint_eq_uint_u64)

context legion_matrix
begin

lemma in_tile_iff:
  assumes "tiling_wf t" "has_color t c"
  shows "in_domain (tile_rect L t c) x \<longleftrightarrow> length x = length (tl_tile_shape t) \<and>
    (\<forall>i < length x. tile_lo t c i \<le> x ! i \<and> x ! i < tile_lo t c i + uint (tl_tile_shape t ! i))"
proof -
  let ?n = "length (tl_tile_shape t)" and ?M = "fst (tiling_construct t)" and ?e = "snd (tiling_construct t)"
  let ?o = "mat_vec L ?M (map sint c)"
  have lc: "length c = ?n" by (rule has_colorD(1) [OF assms(2,1)])
  have lM: "length ?M = ?n" "length (dom_lo ?e) = ?n" "length (dom_hi ?e) = ?n" "length ?o = ?n"
    by (simp_all add: tiling_construct_def Let_def mat_vec_length)
  have r: "tile_rect L t c = \<lparr>dom_lo = pt_add L ?o (dom_lo ?e), dom_hi = pt_add L ?o (dom_hi ?e)\<rparr>"
    by (simp add: tile_rect_def Let_def split: prod.split)
  have o': "?o ! i = uint (tl_strides t ! i) * uint (c ! i)" if i: "i < ?n" for i
  proof -
    have "?o ! i = (\<Sum>j < ?n. ?M ! i ! j * sint (c ! j))"
      using i lc lM by (subst mat_vec_nth) (simp_all add: tiling_construct_def Let_def)
    also have "\<dots> = (\<Sum>j < ?n. if j = i then sint (tl_strides t ! i) * sint (c ! i) else 0)"
      using i by (intro sum.cong) (auto simp: tiling_construct_def Let_def)
    also have "\<dots> = sint (tl_strides t ! i) * sint (c ! i)" using i by (subst sum.delta) auto
    finally show ?thesis using stride_color [OF assms(2,1) i] by simp
  qed
  have e: "dom_lo ?e ! i = tl_offsets t ! i" "dom_hi ?e ! i = uint (tl_tile_shape t ! i) - 1 + tl_offsets t ! i"
    if "i < ?n" for i
    using that to_domain_nth [of i "tl_tile_shape t"] tiling_wfD [OF assms(1) that]
    by (simp_all add: tiling_construct_def Let_def)
  show ?thesis
    unfolding r in_domain_iff
    using lM o' e by (auto simp: pt_add_length pt_add_nth tile_lo_def)
qed

end

section \<open>Children, disjointness and completeness\<close>

lemma get_child_offsets_Inr:
  assumes "tiling_wf t" "has_color t c"
  shows "get_child_offsets t c = Inr (map (tile_lo t c) [0..<length (tl_tile_shape t)])"
proof -
  note l = tiling_wf_length [OF assms(1)] has_colorD(1) [OF assms(2,1)]
  have "map (\<lambda>(stride, clr, off). sint (stride * clr) + off) (zip (tl_strides t) (zip c (tl_offsets t)))
      = map (tile_lo t c) [0..<length (tl_tile_shape t)]"
    using l stride_color(1) [OF assms(2,1)] by (intro nth_equalityI) (simp_all add: tile_lo_def)
  then show ?thesis using assms(2) l by (simp add: get_child_offsets_def)
qed

lemma get_child_extents_Inr:
  assumes "tiling_wf t" "has_color t c" "tl_strides t = tl_tile_shape t"
    "length ext = length (tl_tile_shape t)" "\<And>i. i < length ext \<Longrightarrow> uint (ext ! i) < 2 ^ 63"
  shows "\<exists>es. get_child_extents t ext c = Inr es \<and> length es = length (tl_tile_shape t) \<and>
    (\<forall>i < length es. uint (es ! i) =
       max 0 (min (uint (ext ! i)) (tile_lo t c i + uint (tl_tile_shape t ! i)) - max 0 (tile_lo t c i)))"
proof -
  let ?n = "length (tl_tile_shape t)"
  note l = tiling_wf_length [OF assms(1)] has_colorD(1) [OF assms(2,1)]
  let ?f = "\<lambda>(shape, clr, off, ext). (let lo = max 0 (sint (shape * clr) + off);
      hi = min (sint ext) (sint (shape * (clr + 1)) + off) in if lo \<le> hi then word_of_int (hi - lo) else 0 :: u64)"
  let ?es = "map ?f (zip (tl_tile_shape t) (zip c (zip (tl_offsets t) ext)))"
  have es: "get_child_extents t ext c = Inr ?es"
    using assms(2,4) l by (simp add: get_child_extents_def)
  moreover have len: "length ?es = ?n" using l assms(4) by simp
  moreover have "uint (?es ! i) =
      max 0 (min (uint (ext ! i)) (tile_lo t c i + uint (tl_tile_shape t ! i)) - max 0 (tile_lo t c i))"
    if "i < length ?es" for i
  proof -
    have i: "i < ?n" using that len by simp
    note sc = stride_color [OF assms(2,1) i, unfolded assms(3)]
    have u: "uint (tl_tile_shape t ! i * (c ! i + 1)) = uint (tl_tile_shape t ! i) * (uint (c ! i) + 1)"
      unfolding sc(4) [symmetric] using sc(5) unfolding sc(4) [symmetric] by (intro uint_mult_u64) simp
    then have "uint (tl_tile_shape t ! i * (c ! i + 1)) < 2 ^ 63" using sc(5) by linarith
    then have "sint (tl_tile_shape t ! i * (c ! i + 1)) = uint (tl_tile_shape t ! i) * (uint (c ! i) + 1)"
      unfolding u [symmetric] by (rule sint_eq_uint_u64)
    then have hi: "sint (tl_tile_shape t ! i * (c ! i + 1)) + tl_offsets t ! i
        = tile_lo t c i + uint (tl_tile_shape t ! i)"
      using assms(3) by (simp add: tile_lo_def distrib_left)
    have lo: "sint (tl_tile_shape t ! i * c ! i) + tl_offsets t ! i = tile_lo t c i"
      using sc(1) assms(3) by (simp add: tile_lo_def)
    have e: "sint (ext ! i) = uint (ext ! i)" using assms(4,5) i by (intro sint_eq_uint_u64) simp
    let ?lo = "max 0 (tile_lo t c i)" and ?hi = "min (uint (ext ! i)) (tile_lo t c i + uint (tl_tile_shape t ! i))"
    have "?es ! i = (let lo = max 0 (sint (tl_tile_shape t ! i * c ! i) + tl_offsets t ! i);
        hi = min (sint (ext ! i)) (sint (tl_tile_shape t ! i * (c ! i + 1)) + tl_offsets t ! i)
        in if lo \<le> hi then word_of_int (hi - lo) else 0)"
      using i l assms(4) by simp
    then have "?es ! i = (if ?lo \<le> ?hi then word_of_int (?hi - ?lo) else 0)"
      by (simp only: lo hi e Let_def)
    moreover have "uint (if ?lo \<le> ?hi then word_of_int (?hi - ?lo) else (0 :: u64)) = max 0 (?hi - ?lo)"
    proof (cases "?lo \<le> ?hi")
      case True
      have "uint (ext ! i) < 2 ^ 64" using uint_lt2p [of "ext ! i"] by simp
      then have "?hi - ?lo < 2 ^ 64" by linarith
      then have "uint (word_of_int (?hi - ?lo) :: u64) = ?hi - ?lo"
        using True by (intro uint_word_of_int_u64) linarith+
      then show ?thesis using True by (simp only: if_True) linarith
    next
      case False
      then show ?thesis by (simp only: if_False unsigned_0)
    qed
    ultimately show ?thesis by (simp only:)
  qed
  ultimately show ?thesis by blast
qed

text \<open>\<open>get_child_offsets\<close> and \<open>get_child_extents\<close> describe the part of the store that the tile of a
  color covers: for a tiling whose strides are its tile sizes, the offsets are the lower corner of the
  rectangle that \<open>construct\<close> gives to Legion, and a point lies in that rectangle and in the store if
  and only if it lies in the box that starts at the offsets, clipped at 0, and has the returned
  extents.\<close>

theorem tiling_child_correct:
  assumes "legion_matrix L" "tiling_wf t" "has_color t c" "tl_strides t = tl_tile_shape t"
    and "length ext = length (tl_tile_shape t)" "\<And>i. i < length ext \<Longrightarrow> uint (ext ! i) < 2 ^ 63"
  shows "\<exists>os es. get_child_offsets t c = Inr os \<and> get_child_extents t ext c = Inr es \<and>
    (\<forall>x. length x = length (tl_tile_shape t) \<longrightarrow>
      (in_domain (tile_rect L t c) x \<and> (\<forall>i < length x. 0 \<le> x ! i \<and> x ! i < uint (ext ! i)) \<longleftrightarrow>
       (\<forall>i < length x. max 0 (os ! i) \<le> x ! i \<and> x ! i < max 0 (os ! i) + uint (es ! i))))"
proof -
  obtain es where es: "get_child_extents t ext c = Inr es" "length es = length (tl_tile_shape t)"
    "\<And>i. i < length es \<Longrightarrow> uint (es ! i) =
       max 0 (min (uint (ext ! i)) (tile_lo t c i + uint (tl_tile_shape t ! i)) - max 0 (tile_lo t c i))"
    using get_child_extents_Inr [OF assms(2-6)] by blast
  let ?os = "map (tile_lo t c) [0..<length (tl_tile_shape t)]"
  have "(in_domain (tile_rect L t c) x \<and> (\<forall>i < length x. 0 \<le> x ! i \<and> x ! i < uint (ext ! i))) \<longleftrightarrow>
      (\<forall>i < length x. max 0 (?os ! i) \<le> x ! i \<and> x ! i < max 0 (?os ! i) + uint (es ! i))"
    if "length x = length (tl_tile_shape t)" for x
    unfolding legion_matrix.in_tile_iff [OF assms(1-3)] using that es(2,3) by fastforce
  then show ?thesis using get_child_offsets_Inr [OF assms(2,3)] es(1) by blast
qed

lemma tiling_child_correct_witness:
  "\<exists>os es. get_child_offsets \<lparr>tl_overlapped = False, tl_tile_shape = [3], tl_color_shape = [4],
       tl_offsets = [1], tl_strides = [3]\<rparr> [3] = Inr os \<and>
     get_child_extents \<lparr>tl_overlapped = False, tl_tile_shape = [3], tl_color_shape = [4],
       tl_offsets = [1], tl_strides = [3]\<rparr> [12] [3] = Inr es \<and>
    (\<forall>x. length x = length [3 :: u64] \<longrightarrow>
      (in_domain (tile_rect std_legion \<lparr>tl_overlapped = False, tl_tile_shape = [3], tl_color_shape = [4],
         tl_offsets = [1], tl_strides = [3]\<rparr> [3]) x \<and>
       (\<forall>i < length x. 0 \<le> x ! i \<and> x ! i < uint ([12 :: u64] ! i)) \<longleftrightarrow>
       (\<forall>i < length x. max 0 (os ! i) \<le> x ! i \<and> x ! i < max 0 (os ! i) + uint (es ! i))))"
  using tiling_child_correct [OF std.legion_matrix_axioms, of "\<lparr>tl_overlapped = False, tl_tile_shape = [3],
      tl_color_shape = [4], tl_offsets = [1], tl_strides = [3]\<rparr>" "[3]" "[12]"]
  by (simp add: tiling_wf_def has_color_def Let_def)

lemma tiling_disjoint_aux:
  assumes "legion_matrix L" "tiling_wf t" "tiling_is_disjoint_for t launch" "has_color t c" "has_color t c'"
    "c \<noteq> c'" "in_domain (tile_rect L t c) x"
  shows "\<not> in_domain (tile_rect L t c') x"
proof
  assume x': "in_domain (tile_rect L t c') x"
  note l = has_colorD(1) [OF assms(4,2)] has_colorD(1) [OF assms(5,2)]
  obtain i where i: "i < length c" "c ! i \<noteq> c' ! i"
    using assms(6) l nth_equalityI [of c c'] by auto
  have n: "i < length (tl_tile_shape t)" using i l by simp
  have "\<not> tl_strides t ! i < tl_tile_shape t ! i"
    using assms(2,3) n by (auto simp: tiling_is_disjoint_for_def tiling_wf_def Let_def)
  then have st: "uint (tl_tile_shape t ! i) \<le> uint (tl_strides t ! i)" by (simp add: word_less_def not_less)
  have b: "tile_lo t c i \<le> x ! i" "x ! i < tile_lo t c i + uint (tl_tile_shape t ! i)"
    "tile_lo t c' i \<le> x ! i" "x ! i < tile_lo t c' i + uint (tl_tile_shape t ! i)"
    using assms(7) x' n unfolding legion_matrix.in_tile_iff [OF assms(1,2,4)]
      legion_matrix.in_tile_iff [OF assms(1,2,5)] by auto
  have "False" if lt: "uint a < uint b" and h: "uint s * uint b + off \<le> y" "y < uint s * uint a + off + uint t"
    "uint t \<le> uint s" for a b s t :: u64 and y off :: int
  proof -
    have "uint s * (uint a + 1) \<le> uint s * uint b" using lt by (intro mult_left_mono) auto
    then show False using h by (simp add: distrib_left)
  qed
  moreover have "uint (c ! i) \<noteq> uint (c' ! i)" using i(2) by (simp add: word_uint_eq_iff)
  ultimately show False
    using b st unfolding tile_lo_def by (metis linorder_less_linear)
qed

text \<open>C29: A tiling that \<open>is_disjoint_for\<close> accepts is disjoint: the rectangles of two different colors
  have no point in common.\<close>

theorem tiling_disjoint:
  assumes "legion_matrix L" "tiling_wf t" "tiling_is_disjoint_for t launch" "has_color t c" "has_color t c'"
    "c \<noteq> c'" "in_domain (tile_rect L t c) x"
  shows "\<not> in_domain (tile_rect L t c') x"
  using tiling_disjoint_aux [OF assms] .

lemma tiling_disjoint_witness:
  "\<not> in_domain (tile_rect std_legion \<lparr>tl_overlapped = False, tl_tile_shape = [3], tl_color_shape = [4],
     tl_offsets = [1], tl_strides = [5]\<rparr> [2]) [7]"
proof (rule tiling_disjoint)
  let ?t = "\<lparr>tl_overlapped = False, tl_tile_shape = [3], tl_color_shape = [4], tl_offsets = [1], tl_strides = [5]\<rparr>"
  show "legion_matrix std_legion" by (rule std.legion_matrix_axioms)
  show wf: "tiling_wf ?t" by (simp add: tiling_wf_def Let_def)
  show "tiling_is_disjoint_for ?t (Some \<lparr>dom_lo = [0], dom_hi = [3]\<rparr>)"
    by (simp add: tiling_is_disjoint_for_def domain_volume_def box_nonempty_def array_volume_def)
  show c: "has_color ?t [1]" and "has_color ?t [2]" by (simp_all add: has_color_def)
  show "[1 :: u64] \<noteq> [2]" by simp
  show "in_domain (tile_rect std_legion ?t [1]) [7]"
    unfolding std.in_tile_iff [OF wf c] by (simp add: tile_lo_def)
qed

text \<open>A tiling whose strides are its tile sizes covers the part of the store from its offsets up to
  the end of its last tiles: each point there lies in the tile of exactly one color.\<close>

theorem tiling_complete:
  assumes "legion_matrix L" "tiling_wf t" "tl_strides t = tl_tile_shape t" "length x = length (tl_tile_shape t)"
    "\<And>i. i < length x \<Longrightarrow> tl_offsets t ! i \<le> x ! i \<and>
       x ! i < tl_offsets t ! i + uint (tl_tile_shape t ! i) * uint (tl_color_shape t ! i)"
  shows "\<exists>!c. has_color t c \<and> in_domain (tile_rect L t c) x"
proof -
  let ?q = "\<lambda>i. (x ! i - tl_offsets t ! i) div uint (tl_tile_shape t ! i)"
  let ?c = "map (\<lambda>i. word_of_int (?q i) :: u64) [0..<length x]"
  have q: "0 \<le> ?q i" "?q i < uint (tl_color_shape t ! i)" "uint (word_of_int (?q i) :: u64) = ?q i"
    "uint (tl_tile_shape t ! i) * ?q i \<le> x ! i - tl_offsets t ! i"
    "x ! i - tl_offsets t ! i < uint (tl_tile_shape t ! i) * ?q i + uint (tl_tile_shape t ! i)" if i: "i < length x" for i
  proof -
    let ?s = "uint (tl_tile_shape t ! i)"
    have b: "0 \<le> x ! i - tl_offsets t ! i" "x ! i - tl_offsets t ! i < ?s * uint (tl_color_shape t ! i)"
      using assms(5) [OF i] by linarith+
    then have s: "0 < ?s" by (cases "?s = 0") (simp_all add: order_less_le)
    show "0 \<le> ?q i" using b(1) s by (rule pos_imp_zdiv_nonneg_iff [THEN iffD2, rotated])
    show lt: "?q i < uint (tl_color_shape t ! i)"
    proof (rule ccontr)
      assume "\<not> ?q i < uint (tl_color_shape t ! i)"
      then have "?s * uint (tl_color_shape t ! i) \<le> ?s * ?q i" by (intro mult_left_mono) auto
      also have "\<dots> \<le> x ! i - tl_offsets t ! i"
        using mult_div_mod_eq [of ?s "x ! i - tl_offsets t ! i"] pos_mod_sign [OF s, of "x ! i - tl_offsets t ! i"]
        by linarith
      finally show False using b(2) by linarith
    qed
    show "uint (word_of_int (?q i) :: u64) = ?q i"
      using \<open>0 \<le> ?q i\<close> lt uint_lt2p [of "tl_color_shape t ! i"] by (intro uint_word_of_int_u64) simp_all
    show "?s * ?q i \<le> x ! i - tl_offsets t ! i"
      using mult_div_mod_eq [of ?s "x ! i - tl_offsets t ! i"] pos_mod_sign [OF s, of "x ! i - tl_offsets t ! i"] by linarith
    show "x ! i - tl_offsets t ! i < ?s * ?q i + ?s"
      using mult_div_mod_eq [of ?s "x ! i - tl_offsets t ! i"] pos_mod_bound [OF s, of "x ! i - tl_offsets t ! i"] by linarith
  qed
  have hc: "has_color t ?c"
    using q(2,3) tiling_wf_length(1) [OF assms(2)] assms(4)
    by (simp add: has_color_def list_all2_conv_all_nth word_less_def)
  have inx: "in_domain (tile_rect L t ?c) x"
    unfolding legion_matrix.in_tile_iff [OF assms(1,2) hc]
    using q assms(3,4) by (force simp: tile_lo_def)
  have "tiling_is_disjoint_for t None"
    using assms(2,3) by (simp add: tiling_is_disjoint_for_def tiling_wf_def Let_def)
  then show ?thesis
    using hc inx tiling_disjoint_aux [OF assms(1,2)] by blast
qed

lemma tiling_complete_witness:
  "\<exists>!c. has_color \<lparr>tl_overlapped = False, tl_tile_shape = [3], tl_color_shape = [4], tl_offsets = [1],
      tl_strides = [3]\<rparr> c \<and>
    in_domain (tile_rect std_legion \<lparr>tl_overlapped = False, tl_tile_shape = [3], tl_color_shape = [4],
      tl_offsets = [1], tl_strides = [3]\<rparr> c) [8]"
  by (rule tiling_complete [OF std.legion_matrix_axioms]) (simp_all add: tiling_wf_def Let_def)

text \<open>\<open>Tiling::is_complete_for\<close> joins its two tests per dimension by "or", so it also accepts a tiling
  that ends before the store does (here: one tile of 1 element for a store of 10).\<close>

lemma tiling_is_complete_for_wrong:
  "tiling_is_complete_for \<lparr>tl_overlapped = False, tl_tile_shape = [1], tl_color_shape = [1], tl_offsets = [0],
     tl_strides = [1]\<rparr> [10] [0] = Inr True"
  "\<not> (\<exists>c. has_color \<lparr>tl_overlapped = False, tl_tile_shape = [1], tl_color_shape = [1], tl_offsets = [0],
        tl_strides = [1]\<rparr> c \<and>
      in_domain (tile_rect std_legion \<lparr>tl_overlapped = False, tl_tile_shape = [1], tl_color_shape = [1],
        tl_offsets = [0], tl_strides = [1]\<rparr> c) [9])"
proof -
  let ?t = "\<lparr>tl_overlapped = False, tl_tile_shape = [1], tl_color_shape = [1], tl_offsets = [0], tl_strides = [1]\<rparr>"
  show "tiling_is_complete_for ?t [10] [0] = Inr True" by (simp add: tiling_is_complete_for_def)
  have wf: "tiling_wf ?t" by (simp add: tiling_wf_def Let_def)
  show "\<not> (\<exists>c. has_color ?t c \<and> in_domain (tile_rect std_legion ?t c) [9])"
  proof
    assume "\<exists>c. has_color ?t c \<and> in_domain (tile_rect std_legion ?t c) [9]"
    then obtain c where c: "has_color ?t c" "in_domain (tile_rect std_legion ?t c) [9]" by blast
    have "uint (c ! 0) < 1" using has_colorD(2) [OF c(1) wf, of 0] by simp
    moreover have "9 < tile_lo ?t c 0 + 1" using c(2) unfolding std.in_tile_iff [OF wf c(1)] by auto
    ultimately show False by (simp add: tile_lo_def)
  qed
qed

text \<open>For overlapping tiles (made by \<open>bloat\<close>) \<open>get_child_extents\<close> places the tiles by their size and
  \<open>get_child_offsets\<close> by their stride: the tile of color 1 starts at 1 and has 4 elements of a
  store of 6, but its extent is given as 3.\<close>

lemma get_child_extents_bloated:
  "tiling_bloat \<lparr>tl_overlapped = False, tl_tile_shape = [2], tl_color_shape = [3], tl_offsets = [0],
     tl_strides = [2]\<rparr> [1] [1]
   = Inr \<lparr>tl_overlapped = True, tl_tile_shape = [4], tl_color_shape = [3], tl_offsets = [-1], tl_strides = [2]\<rparr>"
  "get_child_offsets \<lparr>tl_overlapped = True, tl_tile_shape = [4], tl_color_shape = [3], tl_offsets = [-1],
     tl_strides = [2]\<rparr> [1] = Inr [1]"
  "get_child_extents \<lparr>tl_overlapped = True, tl_tile_shape = [4], tl_color_shape = [3], tl_offsets = [-1],
     tl_strides = [2]\<rparr> [6] [1] = Inr [3]"
  by (simp_all add: tiling_bloat_def create_tiling_strides_def zip_equal_def get_child_offsets_def
      get_child_extents_def has_color_def Let_def)

section \<open>Inverting a tiling\<close>

abbreviation color_links :: "transform \<Rightarrow> nat \<Rightarrow> u64 link list" where
  "color_links \<equiv> t_links (\<lambda>_. 0) (\<lambda>_. 0) 0"

abbreviation extent_links :: "transform \<Rightarrow> nat \<Rightarrow> u64 link list" where
  "extent_links \<equiv> t_links (\<lambda>_. 0) (\<lambda>_. 1) 1"

text \<open>Points, colors and extents are linked to the same dimensions.\<close>

definition aligned :: "coord link \<Rightarrow> u64 link \<Rightarrow> u64 link \<Rightarrow> bool" where
  "aligned l c e \<longleftrightarrow> (\<exists>a. l = Fixed a \<and> c = Fixed 0 \<and> e = Fixed 1) \<or>
     (\<exists>j a. l = Linked j a \<and> c = Linked j 0 \<and> e = Linked j 0)"

lemma t_links_aligned:
  "t_is_convertible t \<Longrightarrow> i < n \<Longrightarrow>
     aligned (point_links t n ! i) (color_links t n ! i) (extent_links t n ! i)"
  by (cases t) (auto simp: aligned_def)

lemma stack_links_aligned:
  "stack_ok ts n \<Longrightarrow> stack_is_convertible ts \<Longrightarrow> i < n \<Longrightarrow>
     aligned (points.stack_links ts n ! i) (colors.stack_links ts n ! i) (extents.stack_links ts n ! i)"
proof (induction ts)
  case Nil
  then show ?case by (simp add: aligned_def)
next
  case (Cons t parent)
  then have ih: "aligned (points.stack_links parent n ! i) (colors.stack_links parent n ! i)
      (extents.stack_links parent n ! i)" by simp
  show ?case
  proof (cases "points.stack_links parent n ! i")
    case (Fixed a)
    then show ?thesis using ih Cons.prems(3) by (auto simp: aligned_def)
  next
    case (Linked j a)
    then have "j < stack_ndim parent n"
      using points.stack_links_bound [of parent n i j a] Cons.prems by simp
    then have "aligned (point_links t (stack_ndim parent n) ! j) (color_links t (stack_ndim parent n) ! j)
        (extent_links t (stack_ndim parent n) ! j)"
      using Cons.prems by (intro t_links_aligned) simp_all
    then show ?thesis using ih Linked Cons.prems(3) by (auto simp: aligned_def)
  qed
qed

lemma link_eval_stack:
  assumes "stack_ok ts n" "stack_is_convertible ts" "stack_ndim ts n = m"
  shows "length q = m \<Longrightarrow> stack_invert_point ts q = Inr (map (link_eval q) (points.stack_links ts n))"
    and "length c = m \<Longrightarrow> stack_invert_color ts c = Inr (map (link_eval c) (colors.stack_links ts n))"
    and "length s = m \<Longrightarrow> stack_invert_color_shape ts s = Inr (map (link_eval s) (extents.stack_links ts n))"
    and "length e = m \<Longrightarrow> stack_invert_extents ts e = Inr (map (link_eval e) (extents.stack_links ts n))"
  using assms points.stack_inve colors.stack_inve shapes.stack_inve extents.stack_inve
  by (simp_all add: stack_invert_point_def stack_invert_color_def stack_invert_color_shape_def
      stack_invert_extents_def)

lemma tiling_invert_tile:
  assumes L: "legion_matrix L" and wf: "tiling_wf t" and ok: "stack_ok ts n" "stack_is_convertible ts" "ts \<noteq> []"
    and nd: "length (tl_tile_shape t) = stack_ndim ts n" and inv: "tiling_invert t ts = Inr t'"
    and c: "has_color t c" "stack_invert_color ts c = Inr c'"
    and q: "in_domain (tile_rect L t c) q" "stack_invert_point ts q = Inr p"
  shows "tiling_wf t' \<and> has_color t' c' \<and> in_domain (tile_rect L t' c') p"
proof -
  let ?P = "points.stack_links ts n" and ?C = "colors.stack_links ts n" and ?E = "extents.stack_links ts n"
  note l = tiling_wf_length [OF wf] has_colorD(1) [OF c(1) wf]
  note ev = link_eval_stack [OF ok(1,2) refl]
  have z: "?P = [] \<Longrightarrow> n = 0" using points.stack_links_length [of ts n] by (metis list.size(3))
  have t': "tl_tile_shape t' = map (link_eval (tl_tile_shape t)) ?E"
    "tl_color_shape t' = map (link_eval (tl_color_shape t)) ?E"
    "tl_offsets t' = map (link_eval (tl_offsets t)) ?P"
    "tl_strides t' = map (link_eval (tl_strides t)) ?E"
    "tl_overlapped t' \<longleftrightarrow> \<not> list_all (\<lambda>(s, t). t \<le> s) (zip (tl_strides t') (tl_tile_shape t'))"
    using inv ok(3) l nd ev(1) [of "tl_offsets t"] ev(3) [of "tl_color_shape t"] ev(4) [of "tl_tile_shape t"]
      ev(4) [of "tl_strides t"]
    by (auto simp: tiling_invert_def stack_identity_def create_tiling_strides_def zip_equal_def rguard_eq_Inr Let_def
        dest!: z)
  have p: "p = map (link_eval q) ?P" "c' = map (link_eval c) ?C" "length q = length (tl_tile_shape t)"
    using q c(2) ev(1) [of q] ev(2) [of c] l nd by (auto simp: legion_matrix.in_tile_iff [OF L wf c(1)])
  have al: "aligned (?P ! i) (?C ! i) (?E ! i)" if "i < n" for i
    using stack_links_aligned [OF ok(1,2) that] .
  have bd: "j < length (tl_tile_shape t)" if "i < n" "?P ! i = Linked j a" for i j a
    using points.stack_links_bound [OF ok(1,2) that] nd by simp
  have cases: "(\<exists>a. tl_tile_shape t' ! i = 1 \<and> tl_color_shape t' ! i = 1 \<and> tl_strides t' ! i = 1 \<and>
        tl_offsets t' ! i = a \<and> c' ! i = 0 \<and> p ! i = a) \<or>
      (\<exists>j a. j < length (tl_tile_shape t) \<and> tl_tile_shape t' ! i = tl_tile_shape t ! j \<and>
        tl_color_shape t' ! i = tl_color_shape t ! j \<and> tl_strides t' ! i = tl_strides t ! j \<and>
        tl_offsets t' ! i = tl_offsets t ! j + a \<and> c' ! i = c ! j \<and> p ! i = q ! j + a)" if "i < n" for i
    using al [OF that] bd [OF that] that by (auto simp: aligned_def t' p)
  have wf': "tiling_wf t'"
    unfolding tiling_wf_def Let_def
  proof (intro conjI allI impI)
    show "tl_overlapped t' \<longleftrightarrow> (\<exists>i < length (tl_tile_shape t'). tl_strides t' ! i < tl_tile_shape t' ! i)"
      unfolding t'(5) by (auto simp: list_all_length t'(1,4) not_le)
  next
    fix i assume "i < length (tl_tile_shape t')"
    then have "i < n" by (simp add: t')
    from cases [OF this] tiling_wfD [OF wf]
    show "uint (tl_tile_shape t' ! i) < 2 ^ 63" "uint (tl_strides t' ! i) < 2 ^ 63"
      "uint (tl_color_shape t' ! i) < 2 ^ 63"
      "uint (tl_strides t' ! i) * uint (tl_color_shape t' ! i) < 2 ^ 63"
      by auto
  qed (simp_all add: t')
  have hc: "has_color t' c'"
    unfolding has_color_def list_all2_conv_all_nth
  proof (intro conjI allI impI)
    fix i assume "i < length c'"
    then have "i < n" by (simp add: p)
    from cases [OF this] has_colorD(2) [OF c(1) wf] show "c' ! i < tl_color_shape t' ! i"
      by (auto simp: word_less_def)
  qed (simp add: p t')
  have "tile_lo t' c' i \<le> p ! i \<and> p ! i < tile_lo t' c' i + uint (tl_tile_shape t' ! i)" if "i < n" for i
    using cases [OF that] q(1) p(3) unfolding legion_matrix.in_tile_iff [OF L wf c(1)]
    by (auto simp: tile_lo_def)
  moreover have "length p = n" "length (tl_tile_shape t') = n" by (simp_all add: p t')
  ultimately show ?thesis using wf' hc unfolding legion_matrix.in_tile_iff [OF L wf' hc] by simp
qed

text \<open>C24: Inverting the tiling of a view through convertible transforms, which are all but delinearizations, gives a tiling
  of the storage that partitions the same way: a point in the tile of a color of the view is mapped by
  \<open>invert_point\<close> into the tile of the color that \<open>invert_color\<close> computes, which is a color of the
  inverted tiling.\<close>

theorem tiling_invert_correct:
  assumes "legion_matrix L" "tiling_wf t" "stack_ok ts n" "stack_is_convertible ts"
    and "length (tl_tile_shape t) = stack_ndim ts n" "tiling_invert t ts = Inr t'"
    and "has_color t c" "stack_invert_color ts c = Inr c'"
    and "in_domain (tile_rect L t c) q" "stack_invert_point ts q = Inr p"
  shows "has_color t' c' \<and> in_domain (tile_rect L t' c') p"
proof (cases "ts = []")
  case True
  then show ?thesis using assms(6-)
    by (simp add: tiling_invert_def stack_identity_def stack_invert_color_def stack_invert_point_def)
qed (use tiling_invert_tile [OF assms(1-4) _ assms(5-)] in simp)

lemma tiling_invert_correct_witness:
  "has_color \<lparr>tl_overlapped = False, tl_tile_shape = [4, 1], tl_color_shape = [3, 1], tl_offsets = [0, 7],
      tl_strides = [4, 1]\<rparr> [2, 0] \<and>
   in_domain (tile_rect std_legion \<lparr>tl_overlapped = False, tl_tile_shape = [4, 1], tl_color_shape = [3, 1],
      tl_offsets = [0, 7], tl_strides = [4, 1]\<rparr> [2, 0]) [9, 7]"
proof (rule tiling_invert_correct)
  let ?t = "\<lparr>tl_overlapped = False, tl_tile_shape = [4], tl_color_shape = [3], tl_offsets = [0], tl_strides = [4]\<rparr>"
  show "legion_matrix std_legion" by (rule std.legion_matrix_axioms)
  show wf: "tiling_wf ?t" by (simp add: tiling_wf_def Let_def)
  show "stack_ok [Project 1 7] 2" "stack_is_convertible [Project 1 7]" by simp_all
  show "length (tl_tile_shape ?t) = stack_ndim [Project 1 7] 2" by simp
  show "tiling_invert ?t [Project 1 7] = Inr \<lparr>tl_overlapped = False, tl_tile_shape = [4, 1],
      tl_color_shape = [3, 1], tl_offsets = [0, 7], tl_strides = [4, 1]\<rparr>"
    by (simp add: tiling_invert_def stack_identity_def link_eval_stack conversion_defs stack_invert_extents_def
        stack_invert_color_shape_def stack_invert_point_def create_tiling_strides_def zip_equal_def)
  show c: "has_color ?t [2]" by (simp add: has_color_def)
  show "stack_invert_color [Project 1 7] [2] = Inr [2, 0]"
    by (simp add: stack_invert_color_def conversion_defs)
  show "in_domain (tile_rect std_legion ?t [2]) [9]" unfolding std.in_tile_iff [OF wf c] by (simp add: tile_lo_def)
  show "stack_invert_point [Project 1 7] [9] = Inr [9, 7]"
    by (simp add: stack_invert_point_def conversion_defs)
qed

section \<open>Bloating\<close>

lemma create_tiling_strides_eq:
  assumes "create_tiling_strides tile colors offs strides = Inr t" "length offs = length tile"
  shows "tl_tile_shape t = tile" "tl_color_shape t = colors" "tl_strides t = strides" "tl_offsets t = offs"
  using assms
  by (auto simp: create_tiling_strides_def zip_equal_def rguard_eq_Inr rbind_eq_Inr Let_def split: if_splits)

text \<open>Bloating a disjoint tiling extends every tile by the given number of elements on either side:
  the tile of a color of the result consists of the points that lie between the low bound minus the
  low offset and the high bound plus the high offset of its tile, and every point of the original tile
  is still there.\<close>

theorem tiling_bloat_correct:
  assumes "legion_matrix L" "tiling_wf t" "tl_strides t = tl_tile_shape t" "tiling_bloat t los his = Inr t'"
    and "tiling_wf t'" "has_color t c"
    and "\<And>i. i < length los \<Longrightarrow>
       uint (tl_tile_shape t ! i) + uint (los ! i) + uint (his ! i) < 2 ^ 63"
  shows "has_color t' c \<and>
    (in_domain (tile_rect L t' c) x \<longleftrightarrow> length x = length (tl_tile_shape t) \<and>
       (\<forall>i < length x. tile_lo t c i - uint (los ! i) \<le> x ! i \<and>
          x ! i < tile_lo t c i + uint (tl_tile_shape t ! i) + uint (his ! i))) \<and>
    (in_domain (tile_rect L t c) x \<longrightarrow> in_domain (tile_rect L t' c) x)"
proof -
  note l = tiling_wf_length [OF assms(2)]
  have ll: "length los = length (tl_tile_shape t)" "length his = length (tl_tile_shape t)"
    using assms(4) by (auto simp: tiling_bloat_def rguard_eq_Inr)
  note t' = create_tiling_strides_eq [OF assms(4) [unfolded tiling_bloat_def, simplified ll rguard_simps simp_thms]]
  have len: "length (tl_tile_shape t') = length (tl_tile_shape t)"
    and col: "tl_color_shape t' = tl_color_shape t" "tl_strides t' = tl_tile_shape t"
    using t' l ll by simp_all
  have tile: "tl_tile_shape t' ! i = tl_tile_shape t ! i + los ! i + his ! i"
    and off: "tl_offsets t' ! i = tl_offsets t ! i - sint (los ! i)" if "i < length (tl_tile_shape t)" for i
    using t' l ll that by simp_all
  have c: "has_color t' c" using assms(6) col by (simp add: has_color_def)
  have "tile_lo t' c i = tile_lo t c i - uint (los ! i)"
    "uint (tl_tile_shape t' ! i) = uint (tl_tile_shape t ! i) + uint (los ! i) + uint (his ! i)"
    if i: "i < length (tl_tile_shape t)" for i
  proof -
    have b: "uint (tl_tile_shape t ! i) + uint (los ! i) + uint (his ! i) < 2 ^ 63"
      using assms(7) i ll by simp
    then have "uint (los ! i) < 2 ^ 63"
      using uint_ge_0 [of "tl_tile_shape t ! i"] uint_ge_0 [of "his ! i"] by linarith
    then show "tile_lo t' c i = tile_lo t c i - uint (los ! i)"
      using i off assms(3) by (simp add: tile_lo_def col sint_eq_uint_u64)
    have "uint (tl_tile_shape t ! i + los ! i) = uint (tl_tile_shape t ! i) + uint (los ! i)"
    proof (rule uint_add_u64)
      have "uint (tl_tile_shape t ! i) + uint (los ! i) < 2 ^ 63" using b uint_ge_0 [of "his ! i"] by linarith
      then show "uint (tl_tile_shape t ! i) + uint (los ! i) < 2 ^ 64" by simp
    qed
    then show "uint (tl_tile_shape t' ! i) = uint (tl_tile_shape t ! i) + uint (los ! i) + uint (his ! i)"
      using b i by (simp add: tile uint_add_u64)
  qed
  note lo = this
  have "0 \<le> uint (los ! i)" "0 \<le> uint (his ! i)" for i by simp_all
  then have mono: "tile_lo t c i \<le> y \<Longrightarrow> tile_lo t c i - uint (los ! i) \<le> y"
    "y < tile_lo t c i + uint (tl_tile_shape t ! i) \<Longrightarrow> y < tile_lo t c i + uint (tl_tile_shape t ! i) + uint (his ! i)"
    for i y by (metis diff_ge_0_iff_ge diff_mono order_trans diff_zero, metis add_increasing2 add.commute add_strict_increasing2 less_le_trans le_add_same_cancel1)
  have bl: "in_domain (tile_rect L t' c) x \<longleftrightarrow> length x = length (tl_tile_shape t) \<and>
       (\<forall>i < length x. tile_lo t c i - uint (los ! i) \<le> x ! i \<and>
          x ! i < tile_lo t c i + uint (tl_tile_shape t ! i) + uint (his ! i))"
    unfolding legion_matrix.in_tile_iff [OF assms(1,5) c] len using lo by (auto simp: add.assoc)
  show ?thesis unfolding bl legion_matrix.in_tile_iff [OF assms(1,2,6)] using c mono by blast
qed

lemma tiling_bloat_correct_witness:
  "has_color \<lparr>tl_overlapped = True, tl_tile_shape = [4], tl_color_shape = [3], tl_offsets = [-1], tl_strides = [2]\<rparr> [1]"
proof (rule tiling_bloat_correct [THEN conjunct1])
  let ?t = "\<lparr>tl_overlapped = False, tl_tile_shape = [2], tl_color_shape = [3], tl_offsets = [0], tl_strides = [2]\<rparr>"
  show "legion_matrix std_legion" by (rule std.legion_matrix_axioms)
  show "tiling_wf ?t" "tiling_wf \<lparr>tl_overlapped = True, tl_tile_shape = [4], tl_color_shape = [3],
      tl_offsets = [-1], tl_strides = [2]\<rparr>" by (simp_all add: tiling_wf_def Let_def)
  show "tl_strides ?t = tl_tile_shape ?t" by simp
  show "tiling_bloat ?t [1] [1] = Inr \<lparr>tl_overlapped = True, tl_tile_shape = [4], tl_color_shape = [3],
      tl_offsets = [-1], tl_strides = [2]\<rparr>" by (rule get_child_extents_bloated(1))
  show "has_color ?t [1]" by (simp add: has_color_def)
qed simp

section \<open>Scaling\<close>

lemma create_tiling_eq:
  assumes "create_tiling tile colors offs = Inr t" "length offs = length tile"
  shows "tl_tile_shape t = tile" "tl_color_shape t = colors" "tl_strides t = tile" "tl_offsets t = offs"
  using assms by (auto simp: create_tiling_def rguard_eq_Inr Let_def split: if_splits)

lemma div_bounds:
  assumes "0 < (f :: int)"
  shows "a * f \<le> y \<longleftrightarrow> a \<le> y div f" "y < b * f \<longleftrightarrow> y div f < b"
proof -
  show le: "a * f \<le> y \<longleftrightarrow> a \<le> y div f" for a
  proof
    assume "a * f \<le> y"
    then show "a \<le> y div f" using zdiv_mono1 [of "a * f" y f] assms by simp
  next
    assume "a \<le> y div f"
    then have "a * f \<le> y div f * f" using assms by (intro mult_right_mono) simp_all
    also have "\<dots> \<le> y" using div_mult_mod_eq [of y f] pos_mod_sign [OF assms, of y] by linarith
    finally show "a * f \<le> y" .
  qed
  show "y < b * f \<longleftrightarrow> y div f < b" using le [of b] by linarith
qed

text \<open>Scaling a tiling by positive factors scales its tiles: a point lies in the tile of a color of
  the scaled tiling if and only if the point divided by the factors lies in the tile of the same color
  of the original tiling (so a store that is a multiple of another one is partitioned alike).\<close>

theorem tiling_scale_correct:
  assumes "legion_matrix L" "tiling_wf t" "tl_strides t = tl_tile_shape t" "tiling_scale t factors = Inr t'"
    and "tiling_wf t'" "has_color t c" "length factors = length (tl_tile_shape t)"
    and "\<And>i. i < length factors \<Longrightarrow> 0 < uint (factors ! i) \<and> uint (factors ! i) < 2 ^ 63 \<and>
       uint (tl_tile_shape t ! i) * uint (factors ! i) < 2 ^ 64"
  shows "has_color t' c \<and>
    (in_domain (tile_rect L t' c) y \<longleftrightarrow> length y = length factors \<and>
       in_domain (tile_rect L t c) (map2 (\<lambda>a f. a div uint f) y factors))"
proof -
  note l = tiling_wf_length [OF assms(2)]
  note t' = create_tiling_eq [OF assms(4) [unfolded tiling_scale_def, simplified l assms(7) le_refl simp_thms rguard_simps]]
  have len: "length (tl_tile_shape t') = length factors"
    and col: "tl_color_shape t' = tl_color_shape t"
    using t' l assms(7) by simp_all
  have c: "has_color t' c" using assms(6) col by (simp add: has_color_def)
  have lo: "tile_lo t' c i = tile_lo t c i * uint (factors ! i)"
    "uint (tl_tile_shape t' ! i) = uint (tl_tile_shape t ! i) * uint (factors ! i)" if i: "i < length factors" for i
  proof -
    note f = assms(8) [OF i]
    show "uint (tl_tile_shape t' ! i) = uint (tl_tile_shape t ! i) * uint (factors ! i)"
      using i t'(1) f assms(7) l by (simp add: uint_mult_u64)
    then show "tile_lo t' c i = tile_lo t c i * uint (factors ! i)"
      using i f t' assms(3,7) l by (simp add: tile_lo_def sint_eq_uint_u64 algebra_simps)
  qed
  show ?thesis
    unfolding legion_matrix.in_tile_iff [OF assms(1,5) c] legion_matrix.in_tile_iff [OF assms(1,2,6)] len
    using c lo assms(7,8) by (auto simp: div_bounds distrib_right [symmetric])
qed

lemma tiling_scale_correct_witness:
  "has_color \<lparr>tl_overlapped = False, tl_tile_shape = [6], tl_color_shape = [3], tl_offsets = [3], tl_strides = [6]\<rparr> [1]"
proof (rule tiling_scale_correct [THEN conjunct1])
  let ?t = "\<lparr>tl_overlapped = False, tl_tile_shape = [2], tl_color_shape = [3], tl_offsets = [1], tl_strides = [2]\<rparr>"
  show "legion_matrix std_legion" by (rule std.legion_matrix_axioms)
  show "tiling_wf ?t" "tiling_wf \<lparr>tl_overlapped = False, tl_tile_shape = [6], tl_color_shape = [3],
      tl_offsets = [3], tl_strides = [6]\<rparr>" by (simp_all add: tiling_wf_def Let_def)
  show "tl_strides ?t = tl_tile_shape ?t" by simp
  show "tiling_scale ?t [3] = Inr \<lparr>tl_overlapped = False, tl_tile_shape = [6], tl_color_shape = [3],
      tl_offsets = [3], tl_strides = [6]\<rparr>" by (simp add: tiling_scale_def create_tiling_def)
  show "has_color ?t [1]" by (simp add: has_color_def)
  show "length [3 :: u64] = length (tl_tile_shape ?t)" by simp
qed simp

end
