(* ===== verification/Machine.thy ===== *)
theory Machine
  imports Legate_Prelude
begin

text \<open>
  The machine model of the mapping layer: processor ranges (src/cpp/legate/mapping/machine.inl),
  \<open>Machine\<close>, \<open>ProcessorSpan\<close> and \<open>LocalMachine\<close> (mapping/detail/machine.cc) and \<open>GlobalMachine\<close>
  (mapping/detail/global_machine.cc).

  The \<open>std::map\<close> from task targets to ranges is a partial function on the three targets, visited in
  their order. The cache of \<open>valid_targets\<close> is not a part of the state, since a machine never
  changes; the processors and memories that the queries to Legion return are arguments. Processors
  and memories are numbers, memories with their kind and capacity.
\<close>

section \<open>Processor ranges\<close>

record node_range =
  nr_low :: u32
  nr_high :: u32

definition nr_less :: "node_range \<Rightarrow> node_range \<Rightarrow> bool" where
  "nr_less a b \<longleftrightarrow> nr_low a < nr_low b \<or> (nr_low a = nr_low b \<and> nr_high a < nr_high b)"

record processor_range =
  pr_low :: u32
  pr_high :: u32
  pr_per_node :: u32

definition mk_processor_range :: "u32 \<Rightarrow> u32 \<Rightarrow> u32 \<Rightarrow> processor_range" where
  "mk_processor_range low_id high_id per_node_proc_count =
     \<lparr>pr_low = (if low_id < high_id then low_id else 0),
      pr_high = (if low_id < high_id then high_id else 0),
      pr_per_node = max 1 per_node_proc_count\<rparr>"

definition EMPTY_RANGE :: processor_range where
  "EMPTY_RANGE = \<lparr>pr_low = 0, pr_high = 0, pr_per_node = 1\<rparr>"

definition pr_count :: "processor_range \<Rightarrow> u32" where
  "pr_count r = pr_high r - pr_low r"

definition pr_empty :: "processor_range \<Rightarrow> bool" where
  "pr_empty r \<longleftrightarrow> pr_high r \<le> pr_low r"

definition pr_slice :: "processor_range \<Rightarrow> u32 \<Rightarrow> u32 \<Rightarrow> processor_range" where
  "pr_slice r from' to =
     mk_processor_range (min (pr_low r + from') (pr_high r)) (min (pr_low r + to) (pr_high r)) (pr_per_node r)"

definition pr_get_node_range :: "processor_range \<Rightarrow> node_range result" where
  "pr_get_node_range r =
     (if pr_empty r then Inl InvalidArgument
      else if pr_per_node r = 0 then Inl DivZero
      else Inr \<lparr>nr_low = pr_low r div pr_per_node r,
                nr_high = (pr_high r + pr_per_node r - 1) div pr_per_node r\<rparr>)"

definition pr_and :: "processor_range \<Rightarrow> processor_range \<Rightarrow> processor_range result" where
  "pr_and r other =
     rguard (pr_per_node other = pr_per_node r) InvalidArgument
       (Inr (mk_processor_range (max (pr_low r) (pr_low other)) (min (pr_high r) (pr_high other)) (pr_per_node r)))"

definition pr_less :: "processor_range \<Rightarrow> processor_range \<Rightarrow> bool" where
  "pr_less r other =
     (if pr_low r < pr_low other then True
      else if pr_low other < pr_low r then False
      else if pr_high r < pr_high other then True
      else if pr_high other < pr_high r then False
      else pr_per_node r < pr_per_node other)"

section \<open>Machines\<close>

datatype task_target = GPU | OMP | CPU

definition task_targets :: "task_target list" where
  "task_targets = [GPU, OMP, CPU]"

record machine =
  m_preferred :: task_target
  m_ranges :: "task_target \<rightharpoonup> processor_range"

definition map_entries :: "(task_target \<rightharpoonup> 'a) \<Rightarrow> (task_target \<times> 'a) list" where
  "map_entries m = concat (map (\<lambda>t. case m t of None \<Rightarrow> [] | Some r \<Rightarrow> [(t, r)]) task_targets)"

definition mk_machine :: "(task_target \<rightharpoonup> processor_range) \<Rightarrow> machine" where
  "mk_machine ranges =
     \<lparr>m_preferred = (case filter (\<lambda>(t, r). \<not> pr_empty r) (map_entries ranges) of
                       [] \<Rightarrow> CPU | (t, r) # _ \<Rightarrow> t),
      m_ranges = ranges\<rparr>"

definition processor_range_of :: "machine \<Rightarrow> task_target \<Rightarrow> processor_range" where
  "processor_range_of m t = (case m_ranges m t of None \<Rightarrow> EMPTY_RANGE | Some r \<Rightarrow> r)"

definition valid_targets :: "machine \<Rightarrow> task_target list result" where
  "valid_targets m =
     (let vec = map fst (filter (\<lambda>(t, r). \<not> pr_empty r) (map_entries (m_ranges m)))
      in rguard (vec = [] \<or> hd vec = m_preferred m) CheckFailed (Inr vec))"

definition valid_targets_except :: "machine \<Rightarrow> task_target set \<Rightarrow> task_target list" where
  "valid_targets_except m to_exclude = filter (\<lambda>t. t \<notin> to_exclude) (map fst (map_entries (m_ranges m)))"

definition m_count :: "machine \<Rightarrow> task_target \<Rightarrow> u32" where
  "m_count m t = pr_count (processor_range_of m t)"

definition m_only :: "machine \<Rightarrow> task_target list \<Rightarrow> machine" where
  "m_only m targets =
     (let new_ranges = (\<lambda>t. if t \<in> set targets then Some (processor_range_of m t) else None);
          target = (case filter (\<lambda>(t, r). \<not> pr_empty r) (map_entries new_ranges) of
                      (t, r) # _ \<Rightarrow> t
                    | [] \<Rightarrow> (case map_entries new_ranges of [] \<Rightarrow> m_preferred m | (t, r) # _ \<Rightarrow> t))
      in \<lparr>m_preferred = target, m_ranges = new_ranges\<rparr>)"

definition m_slice :: "machine \<Rightarrow> u32 \<Rightarrow> u32 \<Rightarrow> task_target \<Rightarrow> bool \<Rightarrow> machine" where
  "m_slice m from' to target keep_others =
     (if keep_others
      then mk_machine ((m_ranges m)(target \<mapsto> pr_slice (processor_range_of m target) from' to))
      else mk_machine [target \<mapsto> pr_slice (processor_range_of m target) from' to])"

definition m_slice_preferred :: "machine \<Rightarrow> u32 \<Rightarrow> u32 \<Rightarrow> bool \<Rightarrow> machine" where
  "m_slice_preferred m from' to keep_others = m_slice m from' to (m_preferred m) keep_others"

definition m_equal_ranges :: "machine \<Rightarrow> machine \<Rightarrow> bool" where
  "m_equal_ranges m other =
     list_all (\<lambda>(t, r). pr_empty r \<or> m_ranges other t = Some r) (map_entries (m_ranges m))"

definition m_eq :: "machine \<Rightarrow> machine \<Rightarrow> bool" where
  "m_eq m other =
     (if length (map_entries (m_ranges m)) < length (map_entries (m_ranges other))
      then m_equal_ranges other m else m_equal_ranges m other)"

definition m_and :: "machine \<Rightarrow> machine \<Rightarrow> machine result" where
  "m_and m other =
     rbind (rfoldM (\<lambda>(t, r) acc.
         (case m_ranges other t of None \<Rightarrow> Inr acc
          | Some r' \<Rightarrow> rbind (pr_and r' r) (\<lambda>x. Inr (acc(t \<mapsto> x)))))
       (map_entries (m_ranges m)) Map.empty) (\<lambda>ranges. Inr (mk_machine ranges))"

definition m_empty :: "machine \<Rightarrow> bool" where
  "m_empty m = list_all (\<lambda>(t, r). pr_empty r) (map_entries (m_ranges m))"

definition m_only_if :: "machine \<Rightarrow> (task_target \<Rightarrow> bool) \<Rightarrow> machine result" where
  "m_only_if m pred =
     rbind (valid_targets m) (\<lambda>ts.
       Inr (mk_machine (\<lambda>t. if t \<in> set ts \<and> pred t then Some (processor_range_of m t) else None)))"

section \<open>Local and global processors\<close>

record processor_span =
  ps_offset :: u32
  ps_total :: u32
  ps_procs :: "nat list"

definition ps_default :: processor_span where
  "ps_default = \<lparr>ps_offset = 0, ps_total = 0, ps_procs = []\<rparr>"

definition ps_of_procs :: "nat list \<Rightarrow> processor_span" where
  "ps_of_procs procs = \<lparr>ps_offset = 0, ps_total = of_nat (length procs), ps_procs = procs\<rparr>"

definition ps_at :: "processor_span \<Rightarrow> u32 \<Rightarrow> nat result" where
  "ps_at s idx =
     (let local_idx = idx - ps_offset s
      in rguard (unat local_idx < length (ps_procs s)) CheckFailed (Inr (ps_procs s ! unat local_idx)))"

definition ps_local_proc_count :: "processor_span \<Rightarrow> u32" where
  "ps_local_proc_count s = of_nat (length (ps_procs s))"

datatype memory_kind = SYSTEM_MEM | GPU_FB_MEM | Z_COPY_MEM | SOCKET_MEM | OTHER_MEM

record memory =
  mem_id :: nat
  mem_kind :: memory_kind
  mem_capacity :: u64

datatype processor_kind = LOC_PROC | TOC_PROC | OMP_PROC | OTHER_PROC

datatype store_target = SYSMEM | FBMEM | ZCMEM | SOCKETMEM

record local_machine =
  lm_node_id :: u32
  lm_total_nodes :: u32
  lm_cpus :: "nat list"
  lm_gpus :: "nat list"
  lm_omps :: "nat list"
  lm_system_memory :: memory
  lm_zerocopy_memory :: "memory option"
  lm_frame_buffers :: "(nat \<times> memory) list"
  lm_socket_memories :: "(nat \<times> memory) list"
  lm_g2c_bandwidth :: "nat \<rightharpoonup> nat \<rightharpoonup> u32"

definition lm_procs :: "local_machine \<Rightarrow> task_target \<Rightarrow> nat list" where
  "lm_procs lm t = (case t of GPU \<Rightarrow> lm_gpus lm | OMP \<Rightarrow> lm_omps lm | CPU \<Rightarrow> lm_cpus lm)"

definition first_capacity :: "(nat \<times> memory) list \<Rightarrow> u64 result" where
  "first_capacity ms = (case ms of [] \<Rightarrow> Inl OutOfBounds | (p, m) # _ \<Rightarrow> Inr (mem_capacity m))"

definition total_frame_buffer_size :: "local_machine \<Rightarrow> u64 result" where
  "total_frame_buffer_size lm =
     rbind (first_capacity (lm_frame_buffers lm)) (\<lambda>c.
       Inr (of_nat (length (lm_frame_buffers lm)) * c * ucast (lm_total_nodes lm)))"

definition total_socket_memory_size :: "local_machine \<Rightarrow> u64 result" where
  "total_socket_memory_size lm =
     rbind (first_capacity (lm_socket_memories lm)) (\<lambda>c.
       Inr (of_nat (length (lm_socket_memories lm)) * c * ucast (lm_total_nodes lm)))"

definition total_system_memory_size :: "local_machine \<Rightarrow> u64" where
  "total_system_memory_size lm = mem_capacity (lm_system_memory lm) * ucast (lm_total_nodes lm)"

definition has_socket_memory :: "local_machine \<Rightarrow> bool" where
  "has_socket_memory lm =
     (case lm_socket_memories lm of [] \<Rightarrow> False | (p, m) # _ \<Rightarrow> mem_kind m = SOCKET_MEM)"

definition calculate_field_reuse_size :: "local_machine \<Rightarrow> u32 \<Rightarrow> u64 result" where
  "calculate_field_reuse_size lm frac =
     rbind (if lm_gpus lm \<noteq> [] then total_frame_buffer_size lm
            else if has_socket_memory lm then total_socket_memory_size lm
            else Inr (total_system_memory_size lm)) (\<lambda>size.
       rguard (frac \<noteq> 0) DivZero (Inr (size div ucast frac)))"

text \<open>The part of a processor vector that a range covers, the vector starting at the global index
  \<open>my_low\<close>; \<open>fallback\<close> is the span returned when the machine and the vector have no common processor.\<close>

definition slice_span :: "nat list \<Rightarrow> u64 \<Rightarrow> processor_span \<Rightarrow> machine \<Rightarrow> processor_span result" where
  "slice_span procs my_low fallback m =
     (case m_ranges m (m_preferred m) of None \<Rightarrow> Inr fallback
      | Some global_range \<Rightarrow>
          (let num_procs = of_nat (length procs) :: u64;
               my_range = mk_processor_range (ucast my_low) (ucast (my_low + num_procs)) (pr_per_node global_range)
           in rbind (pr_and global_range my_range) (\<lambda>slice.
              if pr_empty slice then Inr fallback
              else let start = ucast (pr_low slice) - my_low
                   in rguard (unat start + unat (pr_count slice) \<le> length procs) OutOfBounds
                        (Inr \<lparr>ps_offset = pr_low slice, ps_total = pr_count global_range,
                              ps_procs = take (unat (pr_count slice)) (drop (unat start) procs)\<rparr>))))"

definition lm_slice :: "local_machine \<Rightarrow> machine \<Rightarrow> processor_span result" where
  "lm_slice lm m =
     (let procs = lm_procs lm (m_preferred m)
      in slice_span procs (of_nat (length procs) * ucast (lm_node_id lm)) ps_default m)"

definition lm_slice_with_fallback :: "local_machine \<Rightarrow> machine \<Rightarrow> processor_span result" where
  "lm_slice_with_fallback lm m =
     (let procs = lm_procs lm (m_preferred m)
      in slice_span procs (of_nat (length procs) * ucast (lm_node_id lm)) (ps_of_procs procs) m)"

definition find_first_processor_with_affinity_to :: "local_machine \<Rightarrow> store_target \<Rightarrow> nat result" where
  "find_first_processor_with_affinity_to lm target =
     (let procs = (case target of SYSMEM \<Rightarrow> lm_cpus lm | FBMEM \<Rightarrow> lm_gpus lm | ZCMEM \<Rightarrow> lm_gpus lm
                   | SOCKETMEM \<Rightarrow> lm_omps lm)
      in if procs = [] then Inl InvalidArgument else Inr (hd procs))"

definition lookup_memory :: "(nat \<times> memory) list \<Rightarrow> nat \<Rightarrow> memory result" where
  "lookup_memory ms proc = (case map_of ms proc of None \<Rightarrow> Inl OutOfRange | Some m \<Rightarrow> Inr m)"

definition lm_get_memory :: "local_machine \<Rightarrow> nat \<Rightarrow> store_target \<Rightarrow> memory option result" where
  "lm_get_memory lm proc target =
     (case target of SYSMEM \<Rightarrow> Inr (Some (lm_system_memory lm))
      | FBMEM \<Rightarrow> rbind (lookup_memory (lm_frame_buffers lm) proc) (\<lambda>m. Inr (Some m))
      | ZCMEM \<Rightarrow> Inr (lm_zerocopy_memory lm)
      | SOCKETMEM \<Rightarrow> rbind (lookup_memory (lm_socket_memories lm) proc) (\<lambda>m. Inr (Some m)))"

definition lm_get_memory_kind :: "local_machine \<Rightarrow> nat \<Rightarrow> memory_kind \<Rightarrow> memory option result" where
  "lm_get_memory_kind lm proc kind =
     (case kind of SYSTEM_MEM \<Rightarrow> Inr (Some (lm_system_memory lm))
      | GPU_FB_MEM \<Rightarrow> rbind (lookup_memory (lm_frame_buffers lm) proc) (\<lambda>m. Inr (Some m))
      | Z_COPY_MEM \<Rightarrow> Inr (lm_zerocopy_memory lm)
      | SOCKET_MEM \<Rightarrow> rbind (lookup_memory (lm_socket_memories lm) proc) (\<lambda>m. Inr (Some m))
      | OTHER_MEM \<Rightarrow> Inl InvalidArgument)"

definition g2c_multi_hop_bandwidth :: "local_machine \<Rightarrow> nat \<Rightarrow> nat \<Rightarrow> u32" where
  "g2c_multi_hop_bandwidth lm gpu_mem cpu_mem =
     (case lm_g2c_bandwidth lm gpu_mem of None \<Rightarrow> 0
      | Some m \<Rightarrow> (case m cpu_mem of None \<Rightarrow> 0 | Some b \<Rightarrow> b))"

record global_machine =
  gm_cpus :: "nat list"
  gm_gpus :: "nat list"
  gm_omps :: "nat list"

definition mk_global_machine :: "(nat \<times> processor_kind) list \<Rightarrow> global_machine" where
  "mk_global_machine procs =
     \<lparr>gm_cpus = map fst (filter (\<lambda>(p, k). k = LOC_PROC) procs),
      gm_gpus = map fst (filter (\<lambda>(p, k). k = TOC_PROC) procs),
      gm_omps = map fst (filter (\<lambda>(p, k). k = OMP_PROC) procs)\<rparr>"

definition gm_procs :: "global_machine \<Rightarrow> task_target \<Rightarrow> nat list" where
  "gm_procs gm t = (case t of GPU \<Rightarrow> gm_gpus gm | OMP \<Rightarrow> gm_omps gm | CPU \<Rightarrow> gm_cpus gm)"

definition gm_slice :: "global_machine \<Rightarrow> machine \<Rightarrow> processor_span result" where
  "gm_slice gm m = slice_span (gm_procs gm (m_preferred m)) 0 ps_default m"

definition gm_slice_with_fallback :: "global_machine \<Rightarrow> machine \<Rightarrow> processor_span result" where
  "gm_slice_with_fallback gm m =
     (let procs = gm_procs gm (m_preferred m) in slice_span procs 0 (ps_of_procs procs) m)"

section \<open>Ranges as sets of processors\<close>

definition procs_of :: "processor_range \<Rightarrow> int set" where
  "procs_of r = {p. uint (pr_low r) \<le> p \<and> p < uint (pr_high r)}"

definition pr_wf :: "processor_range \<Rightarrow> bool" where
  "pr_wf r \<longleftrightarrow> pr_low r \<le> pr_high r \<and> 1 \<le> pr_per_node r"

lemma u32_le_iff: "(a :: u32) \<le> b \<longleftrightarrow> uint a \<le> uint b"
  by (simp add: word_le_def)

lemma u32_less_iff: "(a :: u32) < b \<longleftrightarrow> uint a < uint b"
  by (simp add: word_less_def)

lemma uint_min: "uint (min a b :: u32) = min (uint a) (uint b)"
  by (simp add: min_def u32_le_iff)

lemma uint_max: "uint (max a b :: u32) = max (uint a) (uint b)"
  by (simp add: max_def u32_le_iff)

lemma pr_empty_iff: "pr_empty r \<longleftrightarrow> procs_of r = {}"
proof
  show "pr_empty r \<Longrightarrow> procs_of r = {}" by (auto simp: pr_empty_def procs_of_def u32_le_iff)
next
  assume "procs_of r = {}"
  then have "uint (pr_low r) \<notin> procs_of r" by simp
  then show "pr_empty r" by (simp add: procs_of_def pr_empty_def u32_le_iff not_less)
qed

lemma procs_of_mk: "procs_of (mk_processor_range lo hi n) = {p. uint lo \<le> p \<and> p < uint hi}"
  by (auto simp: procs_of_def mk_processor_range_def u32_less_iff)

lemma mk_processor_range_wf: "pr_wf (mk_processor_range lo hi n)"
  by (auto simp: pr_wf_def mk_processor_range_def max_def)

lemma pr_count_card:
  assumes "pr_wf r"
  shows "uint (pr_count r) = int (card (procs_of r))"
proof -
  have le: "uint (pr_low r) \<le> uint (pr_high r)" using assms by (simp add: pr_wf_def u32_le_iff)
  have "procs_of r = {uint (pr_low r) ..< uint (pr_high r)}" by (auto simp: procs_of_def)
  then have "int (card (procs_of r)) = uint (pr_high r) - uint (pr_low r)" using le by simp
  moreover have "uint (pr_high r - pr_low r) = uint (pr_high r) - uint (pr_low r)"
    using le uint_sub_lem [of "pr_low r" "pr_high r"] by blast
  ultimately show ?thesis by (simp add: pr_count_def)
qed

text \<open>Slicing a processor range keeps exactly the processors whose position in the range lies
  between the two bounds, its count is the number of them, and the number of processors per node is
  kept, as long as the bounds do not overflow when the start of the range is added to them.\<close>

theorem pr_slice_correct:
  assumes "pr_wf r" "uint (pr_low r) + uint from' < 2 ^ 32" "uint (pr_low r) + uint to < 2 ^ 32"
  shows "procs_of (pr_slice r from' to)
      = {p \<in> procs_of r. uint from' \<le> p - uint (pr_low r) \<and> p - uint (pr_low r) < uint to} \<and>
    uint (pr_count (pr_slice r from' to)) = int (card (procs_of (pr_slice r from' to))) \<and>
    pr_per_node (pr_slice r from' to) = pr_per_node r"
proof (intro conjI)
  have add: "uint (pr_low r + from') = uint (pr_low r) + uint from'" "uint (pr_low r + to) = uint (pr_low r) + uint to"
    using assms(2,3) by (simp_all add: uint_add_lem [THEN iffD1])
  show "procs_of (pr_slice r from' to)
      = {p \<in> procs_of r. uint from' \<le> p - uint (pr_low r) \<and> p - uint (pr_low r) < uint to}"
  proof -
    have f: "uint (pr_low r) + uint from' \<le> x \<Longrightarrow> uint (pr_low r) \<le> x" for x
      using uint_ge_0 [of from'] by linarith
    then show ?thesis unfolding pr_slice_def procs_of_mk uint_min add
      by (auto simp: procs_of_def min_def split: if_splits dest: f)
  qed
  show "uint (pr_count (pr_slice r from' to)) = int (card (procs_of (pr_slice r from' to)))"
    by (rule pr_count_card) (simp add: pr_slice_def mk_processor_range_wf)
  have "uint (1 :: u32) \<le> uint (pr_per_node r)" using assms(1) by (simp add: pr_wf_def u32_le_iff)
  then show "pr_per_node (pr_slice r from' to) = pr_per_node r"
    by (simp add: pr_slice_def mk_processor_range_def max_def u32_le_iff)
qed

lemma pr_slice_correct_witness:
  "procs_of (pr_slice \<lparr>pr_low = 4, pr_high = 8, pr_per_node = 4\<rparr> 1 3)
      = {p \<in> procs_of \<lparr>pr_low = 4, pr_high = 8, pr_per_node = 4\<rparr>.
          uint (1 :: u32) \<le> p - uint (4 :: u32) \<and> p - uint (4 :: u32) < uint (3 :: u32)}"
  using pr_slice_correct [of "\<lparr>pr_low = 4, pr_high = 8, pr_per_node = 4\<rparr>" 1 3] by (simp add: pr_wf_def)

text \<open>With a bound that overflows, a slice loses processors: the slice of [4, 8) from 0 up to the
  largest 32-bit number is empty.\<close>

lemma pr_slice_overflow: "pr_empty (pr_slice \<lparr>pr_low = 4, pr_high = 8, pr_per_node = 4\<rparr> 0 (2 ^ 32 - 1))"
  by (simp add: pr_slice_def mk_processor_range_def pr_empty_def)

lemma pr_and_procs:
  "pr_and r r' = Inr x \<Longrightarrow> procs_of x = procs_of r \<inter> procs_of r' \<and> pr_wf x \<and> pr_per_node r' = pr_per_node r"
proof -
  assume "pr_and r r' = Inr x"
  then have x: "x = mk_processor_range (max (pr_low r) (pr_low r')) (min (pr_high r) (pr_high r')) (pr_per_node r)"
    and n: "pr_per_node r' = pr_per_node r"
    by (auto simp: pr_and_def rguard_eq_Inr)
  have "procs_of x = procs_of r \<inter> procs_of r'"
    unfolding x procs_of_mk uint_max uint_min by (auto simp: procs_of_def)
  then show ?thesis using n by (simp add: x mk_processor_range_wf)
qed

text \<open>The node range of a non-empty processor range consists of exactly the nodes that own one of
  its processors, when processor \<open>p\<close> belongs to node \<open>p\<close> divided by the processors per node.\<close>

theorem pr_get_node_range_correct:
  assumes "pr_wf r" "\<not> pr_empty r" "uint (pr_high r) + uint (pr_per_node r) \<le> 2 ^ 32"
  shows "\<exists>n. pr_get_node_range r = Inr n \<and>
    {k. uint (nr_low n) \<le> k \<and> k < uint (nr_high n)} = (\<lambda>p. p div uint (pr_per_node r)) ` procs_of r"
proof -
  let ?n = "uint (pr_per_node r)" and ?lo = "uint (pr_low r)" and ?hi = "uint (pr_high r)"
  have n: "1 \<le> ?n" using assms(1) by (simp add: pr_wf_def u32_le_iff)
  have lt: "?lo < ?hi" using assms(2) by (simp add: pr_empty_def u32_le_iff not_le)
  have nz: "pr_per_node r \<noteq> 0" using n by auto
  let ?r = "\<lparr>nr_low = pr_low r div pr_per_node r, nr_high = (pr_high r + pr_per_node r - 1) div pr_per_node r\<rparr>"
  have e: "pr_get_node_range r = Inr ?r" using assms(2) nz by (simp add: pr_get_node_range_def)
  have "1 \<le> ?hi" using lt uint_ge_0 [of "pr_low r"] by linarith
  then have h1: "uint (pr_high r - 1) = ?hi - 1" using uint_sub_lem [of 1 "pr_high r"] by simp
  have "pr_high r + pr_per_node r - 1 = pr_high r - 1 + pr_per_node r" by simp
  moreover have "uint (pr_high r - 1 + pr_per_node r) = ?hi - 1 + ?n"
    unfolding h1 [symmetric] using assms(3) h1 by (intro uint_add_lem [THEN iffD1]) simp
  ultimately have hi: "uint (pr_high r + pr_per_node r - 1) = ?hi - 1 + ?n" by (simp only:)
  have div: "uint (nr_low ?r) = ?lo div ?n" "uint (nr_high ?r) = (?hi - 1) div ?n + 1"
    using n div_add_self2 [of ?n "?hi - 1"] by (simp_all only: node_range.simps uint_div_distrib hi)
  have "{k. ?lo div ?n \<le> k \<and> k < (?hi - 1) div ?n + 1} = (\<lambda>p. p div ?n) ` procs_of r"
  proof (intro set_eqI iffI)
    fix k assume k: "k \<in> {k. ?lo div ?n \<le> k \<and> k < (?hi - 1) div ?n + 1}"
    let ?p = "max ?lo (k * ?n)"
    have "k * ?n \<le> (?hi - 1) div ?n * ?n" using k n by (intro mult_right_mono) auto
    also have "\<dots> \<le> ?hi - 1" using n div_mult_mod_eq [of "?hi - 1" ?n] pos_mod_sign [of ?n "?hi - 1"] by linarith
    finally have "?p \<in> procs_of r" using lt by (auto simp: procs_of_def)
    moreover have "?p div ?n = k"
    proof (cases "?lo \<le> k * ?n")
      case True
      then show ?thesis using n by (simp add: max_absorb2)
    next
      case False
      then have "k * ?n div ?n \<le> ?lo div ?n" using n by (intro zdiv_mono1) auto
      then have "k = ?lo div ?n" using k n by simp
      then show ?thesis using False by (simp add: max_absorb1)
    qed
    ultimately show "k \<in> (\<lambda>p. p div ?n) ` procs_of r" by (metis imageI)
  next
    fix k assume "k \<in> (\<lambda>p. p div ?n) ` procs_of r"
    then obtain p where p: "?lo \<le> p" "p < ?hi" "k = p div ?n" by (auto simp: procs_of_def)
    then show "k \<in> {k. ?lo div ?n \<le> k \<and> k < (?hi - 1) div ?n + 1}"
      using n zdiv_mono1 [of ?lo p ?n] zdiv_mono1 [of p "?hi - 1" ?n] by auto
  qed
  then show ?thesis using e div by (intro exI [of _ ?r]) simp
qed

lemma pr_get_node_range_correct_witness:
  "\<exists>n. pr_get_node_range \<lparr>pr_low = 3, pr_high = 9, pr_per_node = 4\<rparr> = Inr n \<and>
    {k. uint (nr_low n) \<le> k \<and> k < uint (nr_high n)}
      = (\<lambda>p. p div uint (pr_per_node \<lparr>pr_low = 3, pr_high = 9, pr_per_node = 4\<rparr>)) `
        procs_of \<lparr>pr_low = 3, pr_high = 9, pr_per_node = 4\<rparr>"
  by (rule pr_get_node_range_correct) (simp_all add: pr_wf_def pr_empty_def)

section \<open>Building machines\<close>

text \<open>The machines that the operations build, starting from a map of ranges.\<close>

inductive built :: "machine \<Rightarrow> bool" where
  built_ranges: "built (mk_machine ranges)"
| built_only: "built m \<Longrightarrow> built (m_only m ts)"
| built_slice: "built m \<Longrightarrow> built (m_slice m from' to t keep)"
| built_and: "built m \<Longrightarrow> built m' \<Longrightarrow> m_and m m' = Inr m'' \<Longrightarrow> built m''"
| built_only_if: "built m \<Longrightarrow> m_only_if m pred = Inr m' \<Longrightarrow> built m'"

definition nonempty_targets :: "machine \<Rightarrow> task_target list" where
  "nonempty_targets m = map fst (filter (\<lambda>(t, r). \<not> pr_empty r) (map_entries (m_ranges m)))"

definition prefers_first :: "machine \<Rightarrow> bool" where
  "prefers_first m \<longleftrightarrow> (nonempty_targets m = [] \<or> hd (nonempty_targets m) = m_preferred m)"

lemma prefers_first_ranges: "prefers_first (mk_machine ranges)"
  by (auto simp: prefers_first_def nonempty_targets_def mk_machine_def split: list.splits)

lemma prefers_first_only: "prefers_first (m_only m ts)"
  by (auto simp: prefers_first_def nonempty_targets_def m_only_def Let_def split: list.splits)

lemma built_prefers_first: "built m \<Longrightarrow> prefers_first m"
proof (induction rule: built.induct)
  case (built_slice m from' to t keep)
  then show ?case by (simp add: m_slice_def prefers_first_ranges)
qed (auto simp: prefers_first_ranges prefers_first_only m_and_def m_only_if_def rbind_eq_Inr)

lemma set_map_entries: "(t, r) \<in> set (map_entries m) \<longleftrightarrow> m t = Some r"
  by (cases t) (auto simp: map_entries_def task_targets_def split: option.splits)

lemma distinct_map_entries: "distinct (map fst (map_entries m))"
  by (auto simp: map_entries_def task_targets_def split: option.splits)

text \<open>The assertion of \<open>valid_targets\<close> never fails on a machine that the operations build: the call
  returns, without duplicates, exactly the targets with a non-empty range, the first of which is the
  preferred target.\<close>

theorem valid_targets_correct:
  assumes "built m"
  shows "\<exists>ts. valid_targets m = Inr ts \<and> distinct ts \<and>
    set ts = {t. procs_of (processor_range_of m t) \<noteq> {}} \<and> (ts \<noteq> [] \<longrightarrow> hd ts = m_preferred m)"
proof -
  have v: "valid_targets m = Inr (nonempty_targets m)"
    using built_prefers_first [OF assms]
    by (simp add: valid_targets_def prefers_first_def nonempty_targets_def Let_def)
  have "set (nonempty_targets m) = {t. procs_of (processor_range_of m t) \<noteq> {}}"
    by (force simp: nonempty_targets_def set_map_entries processor_range_of_def pr_empty_iff [symmetric]
        EMPTY_RANGE_def pr_empty_def split: option.splits)
  moreover have "distinct (nonempty_targets m)"
    using distinct_map_entries [of "m_ranges m"] by (simp add: nonempty_targets_def distinct_map_filter)
  ultimately show ?thesis using v built_prefers_first [OF assms] by (auto simp: prefers_first_def)
qed

lemma valid_targets_correct_witness:
  "\<exists>ts. valid_targets (m_only (mk_machine [CPU \<mapsto> \<lparr>pr_low = 0, pr_high = 4, pr_per_node = 4\<rparr>]) [GPU, CPU]) = Inr ts \<and>
    distinct ts \<and>
    set ts = {t. procs_of (processor_range_of (m_only (mk_machine [CPU \<mapsto> \<lparr>pr_low = 0, pr_high = 4,
      pr_per_node = 4\<rparr>]) [GPU, CPU]) t) \<noteq> {}} \<and>
    (ts \<noteq> [] \<longrightarrow> hd ts = m_preferred (m_only (mk_machine [CPU \<mapsto> \<lparr>pr_low = 0, pr_high = 4,
      pr_per_node = 4\<rparr>]) [GPU, CPU]))"
  by (rule valid_targets_correct) (intro built_only built_ranges)

section \<open>Slices of the local processors\<close>

lemma uint_of_nat_u64: "n < 2 ^ 64 \<Longrightarrow> uint (of_nat n :: u64) = int n"
  using unat_of_nat_u64 by (metis uint_nat)

lemma uint_ucast_u32: "uint (w :: u64) < 2 ^ 32 \<Longrightarrow> uint (ucast w :: u32) = uint w"
  by (simp add: unsigned_ucast_eq take_bit_int_eq_self)

lemma uint_ucast_u64: "uint (ucast (w :: u32) :: u64) = uint w"
  by (rule uint_up_ucast) (simp add: is_up)

lemma ps_at_span:
  assumes "uint (pr_low sl) \<le> uint (pr_high sl)" "ps_offset s = pr_low sl"
    "ps_procs s = take (unat (pr_count sl)) (drop n procs)" "n + unat (pr_count sl) \<le> length procs"
  shows "ps_at s g = (if uint g \<in> procs_of sl then Inr (procs ! (n + nat (uint g - uint (pr_low sl)))) else Inl CheckFailed)"
proof -
  let ?lo = "uint (pr_low sl)" and ?hi = "uint (pr_high sl)"
  have cnt: "int (unat (pr_count sl)) = ?hi - ?lo"
    using assms(1) uint_sub_lem [of "pr_low sl" "pr_high sl"] by (simp add: pr_count_def)
  have d: "uint (g - pr_low sl) = (if ?lo \<le> uint g then uint g - ?lo else uint g - ?lo + 2 ^ 32)"
    using uint_sub_if' [of g "pr_low sl"] by simp
  have un: "unat (g - pr_low sl) = nat (uint (g - pr_low sl))" by (rule unat_eq_nat_uint)
  have b: "uint g < 2 ^ 32" "?hi < 2 ^ 32" "0 \<le> uint g"
    using uint_lt2p [of g] uint_lt2p [of "pr_high sl"] by simp_all
  show ?thesis
  proof (cases "uint g \<in> procs_of sl")
    case True
    then have g: "?lo \<le> uint g" "uint g < ?hi" by (simp_all add: procs_of_def)
    then have u: "unat (g - pr_low sl) = nat (uint g - ?lo)" by (simp add: un d)
    then have "unat (g - pr_low sl) < unat (pr_count sl)" using g cnt by linarith
    then show ?thesis using True assms(2-4) u by (simp add: ps_at_def Let_def)
  next
    case False
    have "?hi - ?lo \<le> uint (g - pr_low sl)"
    proof (cases "?lo \<le> uint g")
      case True
      then show ?thesis using False by (simp add: procs_of_def d)
    next
      case False
      then show ?thesis unfolding d using b by (simp only: if_False)
    qed
    then have "\<not> unat (g - pr_low sl) < unat (pr_count sl)" unfolding un using cnt by linarith
    then show ?thesis using False assms(2-4) by (simp add: ps_at_def Let_def)
  qed
qed

lemma slice_span_at:
  assumes "m_ranges m (m_preferred m) = Some r" "pr_wf r" "uint my_low + int (length procs) < 2 ^ 32"
  shows "\<exists>s. slice_span procs my_low ps_default m = Inr s \<and>
    (\<forall>g. ps_at s g = (if uint g \<in> procs_of r \<and> uint my_low \<le> uint g \<and> uint g < uint my_low + int (length procs)
       then Inr (procs ! nat (uint g - uint my_low)) else Inl CheckFailed))"
proof -
  let ?k = "int (length procs)"
  let ?mine = "mk_processor_range (ucast my_low) (ucast (my_low + of_nat (length procs))) (pr_per_node r)"
  have "?k < 2 ^ 32" using assms(3) uint_ge_0 [of my_low] by linarith
  then have "length procs < 2 ^ 64" by simp
  then have k: "uint (of_nat (length procs) :: u64) = ?k" by (rule uint_of_nat_u64)
  have add: "uint (my_low + of_nat (length procs)) = uint my_low + ?k"
    using assms(3) by (subst uint_add_u64) (simp_all add: k)
  have l: "uint (ucast my_low :: u32) = uint my_low" using assms(3) by (intro uint_ucast_u32) simp
  have h: "uint (ucast (my_low + of_nat (length procs)) :: u32) = uint my_low + ?k"
    using assms(3) add uint_ucast_u32 by simp
  have mine: "procs_of ?mine = {p. uint my_low \<le> p \<and> p < uint my_low + ?k}"
    unfolding procs_of_mk l h ..
  have pn: "pr_per_node ?mine = pr_per_node r"
    using assms(2) by (simp add: mk_processor_range_def pr_wf_def max_def)
  then obtain sl where sl: "pr_and r ?mine = Inr sl" by (simp add: pr_and_def)
  have ps: "procs_of sl = procs_of r \<inter> procs_of ?mine" "pr_wf sl" using pr_and_procs [OF sl] by simp_all
  have iff: "uint g \<in> procs_of sl \<longleftrightarrow> uint g \<in> procs_of r \<and> uint my_low \<le> uint g \<and> uint g < uint my_low + ?k" for g :: u32
    unfolding ps(1) mine by simp
  show ?thesis
  proof (cases "pr_empty sl")
    case True
    then have "procs_of sl = {}" by (simp add: pr_empty_iff)
    then have "\<forall>g. ps_at ps_default g = (if uint g \<in> procs_of r \<and> uint my_low \<le> uint g \<and> uint g < uint my_low + ?k
       then Inr (procs ! nat (uint g - uint my_low)) else Inl CheckFailed)"
      using iff by (simp add: ps_at_def ps_default_def Let_def)
    then show ?thesis using True assms(1) sl by (simp add: slice_span_def Let_def)
  next
    case False
    let ?start = "ucast (pr_low sl) - my_low"
    let ?s = "\<lparr>ps_offset = pr_low sl, ps_total = pr_count r,
        ps_procs = take (unat (pr_count sl)) (drop (unat ?start) procs)\<rparr>"
    have ne: "uint (pr_low sl) < uint (pr_high sl)" using False by (simp add: pr_empty_def u32_le_iff not_le)
    then have "uint (pr_low sl) \<in> procs_of sl" "uint (pr_high sl) - 1 \<in> procs_of sl" by (auto simp: procs_of_def)
    then have in1: "uint my_low \<le> uint (pr_low sl)" and in2: "uint (pr_high sl) \<le> uint my_low + ?k"
      unfolding ps(1) mine by auto
    have st: "uint ?start = uint (pr_low sl) - uint my_low"
      using in1 uint_sub_lem [of my_low "ucast (pr_low sl)"] by (simp add: uint_ucast_u64)
    have cnt: "int (unat (pr_count sl)) = uint (pr_high sl) - uint (pr_low sl)"
      using ne uint_sub_lem [of "pr_low sl" "pr_high sl"] by (simp add: pr_count_def)
    have st': "int (unat ?start) = uint (pr_low sl) - uint my_low" using st by (simp only: uint_nat)
    have le: "unat ?start + unat (pr_count sl) \<le> length procs" using cnt st' in2 by linarith
    have "ps_at ?s g = (if uint g \<in> procs_of r \<and> uint my_low \<le> uint g \<and> uint g < uint my_low + ?k
       then Inr (procs ! nat (uint g - uint my_low)) else Inl CheckFailed)" for g
    proof -
      have "ps_at ?s g = (if uint g \<in> procs_of sl
          then Inr (procs ! (unat ?start + nat (uint g - uint (pr_low sl)))) else Inl CheckFailed)"
        using ne le by (intro ps_at_span) simp_all
      moreover have "unat ?start + nat (uint g - uint (pr_low sl)) = nat (uint g - uint my_low)"
        if "uint g \<in> procs_of sl"
      proof -
        have "uint (pr_low sl) \<le> uint g" using that by (simp add: procs_of_def)
        then show ?thesis using st' by linarith
      qed
      ultimately show ?thesis unfolding iff by simp
    qed
    then show ?thesis using False assms(1) sl le by (intro exI [of _ ?s]) (simp add: slice_span_def Let_def)
  qed
qed

text \<open>The processors of a machine that a node owns are handed out by their global index: for a machine
  whose preferred target has the range \<open>r\<close>, and nodes that own \<open>k\<close> processors each, \<open>LocalMachine::slice\<close>
  on a node succeeds, and indexing the span it returns with a global index gives the local processor
  with that index if the index lies in \<open>r\<close> and belongs to the node, and fails otherwise.\<close>

theorem lm_slice_correct:
  assumes "m_ranges m (m_preferred m) = Some r" "pr_wf r" "k = length (lm_procs lm (m_preferred m))"
    "int k * (uint (lm_node_id lm) + 1) < 2 ^ 32"
  shows "\<exists>s. lm_slice lm m = Inr s \<and>
    (\<forall>g. ps_at s g =
      (if uint g \<in> procs_of r \<and> int k * uint (lm_node_id lm) \<le> uint g \<and> uint g < int k * (uint (lm_node_id lm) + 1)
       then Inr (lm_procs lm (m_preferred m) ! nat (uint g - int k * uint (lm_node_id lm))) else Inl CheckFailed))"
proof -
  let ?procs = "lm_procs lm (m_preferred m)" and ?my = "of_nat k * ucast (lm_node_id lm) :: u64"
  have b: "int k * uint (lm_node_id lm) + int k < 2 ^ 32" using assms(4) by (simp add: distrib_left)
  have "0 \<le> int k * uint (lm_node_id lm)" by simp
  then have "int k < 2 ^ 32" "int k * uint (lm_node_id lm) < 2 ^ 32" using b by linarith+
  then have "k < 2 ^ 64" "int k * uint (lm_node_id lm) < 2 ^ 64" by simp_all
  then have my: "uint ?my = int k * uint (lm_node_id lm)"
    by (subst uint_mult_u64) (simp_all add: uint_of_nat_u64 uint_ucast_u64)
  have "uint ?my + int (length ?procs) < 2 ^ 32" using b assms(3) my by simp
  from slice_span_at [OF assms(1,2) this] show ?thesis
    unfolding my using assms(3) by (simp add: lm_slice_def Let_def distrib_left)
qed

lemma lm_slice_correct_witness:
  "\<exists>s. lm_slice \<lparr>lm_node_id = 1, lm_total_nodes = 2, lm_cpus = [10, 11, 12], lm_gpus = [], lm_omps = [],
      lm_system_memory = \<lparr>mem_id = 0, mem_kind = SYSTEM_MEM, mem_capacity = 100\<rparr>, lm_zerocopy_memory = None,
      lm_frame_buffers = [], lm_socket_memories = [], lm_g2c_bandwidth = Map.empty\<rparr>
      (mk_machine [CPU \<mapsto> \<lparr>pr_low = 2, pr_high = 5, pr_per_node = 3\<rparr>]) = Inr s \<and>
    ps_at s 4 = Inr 11"
proof -
  let ?lm = "\<lparr>lm_node_id = 1, lm_total_nodes = 2, lm_cpus = [10, 11, 12], lm_gpus = [], lm_omps = [],
      lm_system_memory = \<lparr>mem_id = 0, mem_kind = SYSTEM_MEM, mem_capacity = 100\<rparr>, lm_zerocopy_memory = None,
      lm_frame_buffers = [], lm_socket_memories = [], lm_g2c_bandwidth = Map.empty\<rparr>"
  let ?r = "\<lparr>pr_low = 2, pr_high = 5, pr_per_node = 3\<rparr>"
  let ?m = "mk_machine [CPU \<mapsto> ?r]"
  have p: "m_preferred ?m = CPU" by (simp add: mk_machine_def map_entries_def task_targets_def pr_empty_def)
  have "\<exists>s. lm_slice ?lm ?m = Inr s \<and> (\<forall>g. ps_at s g =
      (if uint g \<in> procs_of ?r \<and> int 3 * uint (lm_node_id ?lm) \<le> uint g \<and> uint g < int 3 * (uint (lm_node_id ?lm) + 1)
       then Inr (lm_procs ?lm (m_preferred ?m) ! nat (uint g - int 3 * uint (lm_node_id ?lm))) else Inl CheckFailed))"
    by (rule lm_slice_correct) (simp_all add: p lm_procs_def pr_wf_def, simp add: mk_machine_def)
  then obtain s where "lm_slice ?lm ?m = Inr s" "ps_at s 4 = Inr 11"
    by (auto simp: p lm_procs_def procs_of_def)
  then show ?thesis by blast
qed

section \<open>Intersection and equality\<close>

lemma rfoldM_and:
  assumes "rfoldM (\<lambda>(t, r) acc. (case other t of None \<Rightarrow> Inr acc
      | Some r' \<Rightarrow> rbind (pr_and r' r) (\<lambda>x. Inr (acc(t \<mapsto> x))))) es acc = Inr m" "distinct (map fst es)"
  shows "(t \<notin> fst ` set es \<longrightarrow> m t = acc t) \<and>
    (\<forall>r. (t, r) \<in> set es \<longrightarrow> (case other t of None \<Rightarrow> m t = acc t | Some r' \<Rightarrow> \<exists>x. pr_and r' r = Inr x \<and> m t = Some x))"
  using assms
proof (induction es arbitrary: acc)
  case (Cons e es)
  obtain t0 r0 where e: "e = (t0, r0)" by (cases e)
  obtain acc' where a: "(case other t0 of None \<Rightarrow> Inr acc | Some r' \<Rightarrow> rbind (pr_and r' r0) (\<lambda>x. Inr (acc(t0 \<mapsto> x)))) = Inr acc'"
    and rest: "rfoldM (\<lambda>(t, r) acc. (case other t of None \<Rightarrow> Inr acc
      | Some r' \<Rightarrow> rbind (pr_and r' r) (\<lambda>x. Inr (acc(t \<mapsto> x))))) es acc' = Inr m"
    using Cons.prems(1) unfolding e by (auto simp: rbind_eq_Inr)
  have acc': "t \<noteq> t0 \<Longrightarrow> acc' t = acc t" using a by (auto simp: rbind_eq_Inr split: option.splits)
  have at0: "case other t0 of None \<Rightarrow> acc' t0 = acc t0 | Some r' \<Rightarrow> \<exists>x. pr_and r' r0 = Inr x \<and> acc' t0 = Some x"
    using a by (auto simp: rbind_eq_Inr split: option.splits)
  have d: "t0 \<notin> fst ` set es" "distinct (map fst es)" using Cons.prems(2) e by simp_all
  note ih = Cons.IH [OF rest d(2)]
  show ?case
  proof (cases "t = t0")
    case True
    then have "m t = acc' t" using ih d(1) by blast
    then show ?thesis using True at0 d(1) e by (force split: option.splits)
  next
    case False
    then show ?thesis using ih acc' e by (auto split: option.splits)
  qed
qed simp

text \<open>The intersection of two machines has, for every target, exactly the processors both machines
  have; it fails only when a target has different numbers of processors per node in them.\<close>

theorem m_and_correct:
  assumes "m_and m m' = Inr m''"
  shows "procs_of (processor_range_of m'' t) = procs_of (processor_range_of m t) \<inter> procs_of (processor_range_of m' t)"
proof -
  obtain ranges where r: "rfoldM (\<lambda>(t, r) acc. (case m_ranges m' t of None \<Rightarrow> Inr acc
      | Some r' \<Rightarrow> rbind (pr_and r' r) (\<lambda>x. Inr (acc(t \<mapsto> x))))) (map_entries (m_ranges m)) Map.empty = Inr ranges"
    "m_ranges m'' = ranges"
    using assms by (auto simp: m_and_def rbind_eq_Inr mk_machine_def)
  note f = rfoldM_and [OF r(1) distinct_map_entries, of t]
  have e: "procs_of EMPTY_RANGE = {}" by (auto simp: procs_of_def EMPTY_RANGE_def)
  show ?thesis
  proof (cases "m_ranges m t")
    case None
    then have "t \<notin> fst ` set (map_entries (m_ranges m))" by (auto simp: set_map_entries)
    then show ?thesis using f None r(2) by (simp add: processor_range_of_def e)
  next
    case (Some x)
    then have "(t, x) \<in> set (map_entries (m_ranges m))" by (simp add: set_map_entries)
    with f have "case m_ranges m' t of None \<Rightarrow> ranges t = None | Some r' \<Rightarrow> \<exists>y. pr_and r' x = Inr y \<and> ranges t = Some y"
      by simp
    then show ?thesis using Some r(2) pr_and_procs
      by (cases "m_ranges m' t") (auto simp: processor_range_of_def e)
  qed
qed

lemma m_and_correct_witness:
  "procs_of (processor_range_of (mk_machine [CPU \<mapsto> mk_processor_range 2 4 4]) CPU)
    = procs_of (processor_range_of (mk_machine [CPU \<mapsto> mk_processor_range 0 4 4]) CPU) \<inter>
      procs_of (processor_range_of (mk_machine [CPU \<mapsto> mk_processor_range 2 6 4]) CPU)"
  by (rule m_and_correct)
     (simp add: m_and_def mk_machine_def map_entries_def task_targets_def pr_and_def mk_processor_range_def)

text \<open>Comparing two machines with the same number of entries only looks at the entries of the left
  one: a machine whose only range is empty equals any machine with one range, though not the other
  way round.\<close>

lemma m_eq_asymmetric:
  "m_eq (mk_machine [CPU \<mapsto> EMPTY_RANGE]) (mk_machine [GPU \<mapsto> mk_processor_range 0 4 4])"
  "\<not> m_eq (mk_machine [GPU \<mapsto> mk_processor_range 0 4 4]) (mk_machine [CPU \<mapsto> EMPTY_RANGE])"
  by (simp_all add: m_eq_def m_equal_ranges_def mk_machine_def map_entries_def task_targets_def
      EMPTY_RANGE_def mk_processor_range_def pr_empty_def)

end
