(* ===== verification/Shard.thy ===== *)
theory Shard
  imports Symbolic Machine
begin

text \<open>
  The sharding functors of src/cpp/legate/runtime/detail/shard.cc: which shard (node) runs a point task.
  \<open>ToplevelTaskShardingFunctor\<close> and \<open>LinearizingShardingFunctor\<close> cut the launch domain into equal
  chunks, the latter with an inverse that Legion uses to enumerate the points of a shard;
  \<open>LegateShardingFunctor\<close> spreads the projected points over the processors of a range. Shard ids
  are 32-bit words.
\<close>

section \<open>Functors\<close>

definition toplevel_shard :: "coord list \<Rightarrow> domain \<Rightarrow> u64 \<Rightarrow> u32 result" where
  "toplevel_shard p launch_space total_shards =
     rguard (length p = 1 \<and> get_dim launch_space = 1 \<and> domain_wf launch_space) CheckFailed
       (let lo = hd (dom_lo launch_space); hi = hd (dom_hi launch_space);
            size = word_of_int ((hi - lo) + 1) :: u64
        in rguard (total_shards \<noteq> 0) DivZero
          (let chunk = (size + total_shards - 1) div total_shards
           in rguard (chunk \<noteq> 0) DivZero (Inr (ucast (word_of_int (hd p - lo) div chunk :: u64)))))"

definition chunk_size :: "domain \<Rightarrow> u64 \<Rightarrow> u64 result" where
  "chunk_size d total_shards =
     rguard (total_shards \<noteq> 0) DivZero (Inr ((domain_volume d + total_shards - 1) div total_shards))"

definition linearizing_shard :: "coord list \<Rightarrow> domain \<Rightarrow> u64 \<Rightarrow> u32 result" where
  "linearizing_shard p launch_space total_shards =
     rbind (chunk_size launch_space total_shards) (\<lambda>chunk.
     rbind (linearize (dom_lo launch_space) (dom_hi launch_space) p) (\<lambda>idx.
     rguard (chunk \<noteq> 0) DivZero (Inr (ucast (idx div chunk)))))"

text \<open>The inner loop of \<open>invert\<close> moves to the next point, the last dimension first; the flag says
  whether every dimension wrapped around.\<close>

fun next_point :: "coord list \<Rightarrow> coord list \<Rightarrow> coord list \<Rightarrow> coord list \<times> bool" where
  "next_point (l # ls) (h # hs) (p # ps) =
     (let (qs, carry) = next_point ls hs ps
      in if carry then (if p < h then ((p + 1) # qs, False) else (l # qs, True)) else (p # qs, False))"
| "next_point _ _ ps = (ps, True)"

fun invert_loop :: "nat \<Rightarrow> coord list \<Rightarrow> coord list \<Rightarrow> coord list \<Rightarrow> coord list list" where
  "invert_loop 0 lo hi point = []"
| "invert_loop (Suc n) lo hi point = point # invert_loop n lo hi (fst (next_point lo hi point))"

definition linearizing_invert ::
  "u32 \<Rightarrow> domain \<Rightarrow> domain \<Rightarrow> u64 \<Rightarrow> coord list list \<Rightarrow> coord list list result" where
  "linearizing_invert shard shard_domain full_domain total_shards points =
     rguard (shard_domain = full_domain) CheckFailed
       (rbind (chunk_size shard_domain total_shards) (\<lambda>chunk.
        (let idx = ucast shard * chunk;
             lim = min (ucast (shard + 1) * chunk) (domain_volume shard_domain)
         in if lim \<le> idx then Inr points
            else rbind (delinearize (dom_lo shard_domain) (dom_hi shard_domain) idx) (\<lambda>point.
                 Inr (points @ invert_loop (unat (lim - idx)) (dom_lo shard_domain) (dom_hi shard_domain) point)))))"

definition legate_shard ::
  "legion_ops \<Rightarrow> projection_function \<Rightarrow> processor_range \<Rightarrow> coord list \<Rightarrow> domain \<Rightarrow> u64 \<Rightarrow> u32 result" where
  "legate_shard L proj_fn rng p launch_space total_shards =
     rbind (project_point L proj_fn (dom_lo launch_space)) (\<lambda>lo.
     rbind (project_point L proj_fn (dom_hi launch_space)) (\<lambda>hi.
     rbind (project_point L proj_fn p) (\<lambda>point.
     rbind (linearize lo hi hi) (\<lambda>last_idx.
     rbind (linearize lo hi point) (\<lambda>idx.
     (let task_count = last_idx + 1
      in rguard (task_count \<noteq> 0) DivZero
        (let global_proc_id = (idx * ucast (pr_count rng)) div task_count + ucast (pr_low rng)
         in rguard (pr_per_node rng \<noteq> 0) DivZero
           (let shard_id = global_proc_id div ucast (pr_per_node rng)
            in rguard (shard_id < total_shards) CheckFailed (Inr (ucast shard_id))))))))))"

text \<open>The table from projection functors to sharding functors.\<close>

type_synonym sharding_table = "nat \<rightharpoonup> nat"

definition register_core_sharding :: "nat \<Rightarrow> sharding_table \<Rightarrow> sharding_table" where
  "register_core_sharding linearize_id tbl = tbl(0 \<mapsto> linearize_id)"

definition find_sharding_functor :: "sharding_table \<Rightarrow> nat \<Rightarrow> nat result" where
  "find_sharding_functor tbl proj_id = (case tbl proj_id of None \<Rightarrow> Inl CheckFailed | Some s \<Rightarrow> Inr s)"

definition create_sharding_functor_using_projection ::
  "nat \<Rightarrow> nat \<Rightarrow> functor_table \<Rightarrow> processor_range \<Rightarrow> sharding_table \<Rightarrow>
   (sharding_table \<times> (projection_function \<times> processor_range)) result" where
  "create_sharding_functor_using_projection shard_id proj_id functors rng tbl =
     rbind (find_projection_function proj_id functors) (\<lambda>f. Inr (tbl(proj_id \<mapsto> shard_id), (f, rng)))"

section \<open>Enumerating a box\<close>

abbreviation lin :: "coord list \<Rightarrow> coord list \<Rightarrow> coord list \<Rightarrow> int" where
  "lin lo hi p \<equiv> linearize_fn lo hi p 0"

lemma lin_Cons:
  assumes "length hs = length ls" "length ps = length ls"
  shows "lin (l # ls) (h # hs) (p # ps) = (p - l) * box_volume ls hs + lin ls hs ps"
  using linearize_fn_acc [OF assms, of "p - l"] by simp

lemma next_point_step:
  assumes "in_box lo hi p"
  shows "in_box lo hi (fst (next_point lo hi p)) \<and>
    (if snd (next_point lo hi p) then lin lo hi p = box_volume lo hi - 1 \<and> lin lo hi (fst (next_point lo hi p)) = 0
     else lin lo hi (fst (next_point lo hi p)) = lin lo hi p + 1)"
  using assms
proof (induction lo hi p rule: in_box.induct)
  case (2 l ls h hs p ps)
  then have len: "length hs = length ls" "length ps = length ls" and box: "in_box ls hs ps" "l \<le> p" "p \<le> h"
    by (auto dest: in_box_length)
  obtain qs c where q: "next_point ls hs ps = (qs, c)" by fastforce
  have ih: "in_box ls hs qs" "if c then lin ls hs ps = box_volume ls hs - 1 \<and> lin ls hs qs = 0
      else lin ls hs qs = lin ls hs ps + 1"
    using "2.IH" [OF box(1)] unfolding q fst_conv snd_conv by simp_all
  have lq: "length qs = length ls" using in_box_length [OF ih(1)] by simp
  note lc = lin_Cons [OF len(1) len(2)] lin_Cons [OF len(1) lq]
  show ?case
  proof (cases "c \<and> p < h")
    case True
    then show ?thesis
      using ih box q lin_Cons [OF len(1) lq, of l h "p + 1"] lin_Cons [OF len, of l h p]
      by (auto simp: Let_def algebra_simps simp del: linearize_fn.simps)
  next
    case False
    show ?thesis
    proof (cases c)
      case True
      then have "p = h" using False box by simp
      then show ?thesis using ih box q True lin_Cons [OF len(1) lq, of l h l] lin_Cons [OF len, of l h p]
        by (auto simp: Let_def algebra_simps simp del: linearize_fn.simps)
    next
      case False
      then show ?thesis using ih box q lc by (auto simp: Let_def simp del: linearize_fn.simps)
    qed
  qed
qed auto

lemma invert_loop_lin:
  assumes "in_box lo hi p" "lin lo hi p + int n \<le> box_volume lo hi"
  shows "map (lin lo hi) (invert_loop n lo hi p) = [lin lo hi p .. lin lo hi p + int n - 1] \<and>
    (\<forall>q \<in> set (invert_loop n lo hi p). in_box lo hi q)"
  using assms
proof (induction n arbitrary: p)
  case (Suc n)
  let ?q = "fst (next_point lo hi p)"
  note st = next_point_step [OF Suc.prems(1)]
  show ?case
  proof (cases n)
    case 0
    then show ?thesis using Suc.prems by simp
  next
    case (Suc m)
    then have "lin lo hi ?q = lin lo hi p + 1" using st Suc.prems(2) by (auto split: if_splits)
    then show ?thesis using Suc.IH [of ?q] st Suc.prems by (auto simp: upto_rec1)
  qed
qed simp

lemma lin_inj: "in_box lo hi p \<Longrightarrow> in_box lo hi q \<Longrightarrow> lin lo hi p = lin lo hi q \<Longrightarrow> p = q"
  using delinearize_fn_linearize_fn [of lo hi p 0] delinearize_fn_linearize_fn [of lo hi q 0] by simp

lemma invert_loop_set:
  assumes "in_box lo hi p" "lin lo hi p + int n \<le> box_volume lo hi"
  shows "distinct (invert_loop n lo hi p) \<and>
    set (invert_loop n lo hi p) = {q. in_box lo hi q \<and> lin lo hi p \<le> lin lo hi q \<and> lin lo hi q < lin lo hi p + int n}"
proof
  note l = invert_loop_lin [OF assms]
  then have m: "map (lin lo hi) (invert_loop n lo hi p) = [lin lo hi p .. lin lo hi p + int n - 1]"
    and b: "\<And>q. q \<in> set (invert_loop n lo hi p) \<Longrightarrow> in_box lo hi q" by blast+
  show "distinct (invert_loop n lo hi p)" using m by (metis distinct_map distinct_upto)
  have im: "lin lo hi ` set (invert_loop n lo hi p) = {lin lo hi p .. lin lo hi p + int n - 1}"
    using m by (metis set_map set_upto)
  show "set (invert_loop n lo hi p) = {q. in_box lo hi q \<and> lin lo hi p \<le> lin lo hi q \<and> lin lo hi q < lin lo hi p + int n}"
  proof (intro set_eqI iffI)
    fix q assume "q \<in> set (invert_loop n lo hi p)"
    then show "q \<in> {q. in_box lo hi q \<and> lin lo hi p \<le> lin lo hi q \<and> lin lo hi q < lin lo hi p + int n}"
      using b [of q] imageI [of q _ "lin lo hi"] im by force
  next
    fix q assume q: "q \<in> {q. in_box lo hi q \<and> lin lo hi p \<le> lin lo hi q \<and> lin lo hi q < lin lo hi p + int n}"
    then have "lin lo hi q \<in> lin lo hi ` set (invert_loop n lo hi p)" unfolding im by simp
    then obtain q' where "lin lo hi q = lin lo hi q'" "q' \<in> set (invert_loop n lo hi p)" by (rule imageE)
    moreover from this(2) have "q' = q" using lin_inj [OF b, of q' q] q \<open>lin lo hi q = lin lo hi q'\<close> by simp
    ultimately show "q \<in> set (invert_loop n lo hi p)" by simp
  qed
qed

lemma lin_hi: "length hi = length lo \<Longrightarrow> lin lo hi hi = box_volume lo hi - 1"
proof (induction lo arbitrary: hi)
  case (Cons l ls)
  then obtain h hs where "hi = h # hs" "length hs = length ls" by (cases hi) auto
  then show ?case using Cons.IH [of hs] lin_Cons [of hs ls hs l h h]
    by (simp add: algebra_simps del: linearize_fn.simps)
qed simp

section \<open>Linearizing sharding\<close>

lemma chunk_facts:
  assumes "box_nonempty lo hi" "box_volume lo hi < 2 ^ 63" "0 < uint (tot :: u64)" "uint tot < 2 ^ 32"
  shows "\<exists>c. chunk_size \<lparr>dom_lo = lo, dom_hi = hi\<rparr> tot = Inr c \<and> 0 < uint c \<and>
    box_volume lo hi \<le> uint c * uint tot \<and> uint c * uint tot < box_volume lo hi + uint tot \<and>
    uint (domain_volume \<lparr>dom_lo = lo, dom_hi = hi\<rparr>) = box_volume lo hi"
proof -
  let ?V = "box_volume lo hi" and ?t = "uint tot"
  let ?v = "domain_volume \<lparr>dom_lo = lo, dom_hi = hi\<rparr>"
  let ?c = "(?v + tot - 1) div tot"
  have V: "0 < ?V" by (rule box_nonempty_volume [OF assms(1)])
  then have v: "uint ?v = ?V" using assms(1,2) by (simp add: domain_volume_def uint_word_of_int_u64)
  have t1: "uint (tot - 1) = ?t - 1" using assms(3) uint_diff_u64 [of 1 tot] by simp
  have "?v + tot - 1 = ?v + (tot - 1)" by simp
  moreover have "uint (?v + (tot - 1)) = ?V + (?t - 1)"
    unfolding v [symmetric] t1 [symmetric] using v t1 assms(2,4) by (intro uint_add_u64) simp
  ultimately have "uint (?v + tot - 1) = ?V + (?t - 1)" by (simp only:)
  then have c: "uint ?c = (?V + (?t - 1)) div ?t" by (simp add: uint_div_distrib)
  have e: "(?V + (?t - 1)) div ?t * ?t + (?V + (?t - 1)) mod ?t = ?V + (?t - 1)" by (rule div_mult_mod_eq)
  have m: "0 \<le> (?V + (?t - 1)) mod ?t" "(?V + (?t - 1)) mod ?t < ?t" using assms(3) by simp_all
  have "?V \<le> uint ?c * ?t" "uint ?c * ?t < ?V + ?t" unfolding c using e m by linarith+
  moreover from this(1) V have "0 < uint ?c" by (cases "uint ?c = 0") (simp_all add: order_less_le)
  moreover have "tot \<noteq> 0" using assms(3) by auto
  ultimately show ?thesis using v by (simp add: chunk_size_def)
qed

lemma linearizing_shard_Inr:
  assumes "in_box lo hi p" "lo \<noteq> []" "box_volume lo hi < 2 ^ 63" "0 < uint (tot :: u64)" "uint tot < 2 ^ 32"
    "chunk_size \<lparr>dom_lo = lo, dom_hi = hi\<rparr> tot = Inr c"
  shows "\<exists>s. linearizing_shard p \<lparr>dom_lo = lo, dom_hi = hi\<rparr> tot = Inr s \<and>
    uint s = lin lo hi p div uint c \<and> uint s < uint tot"
proof -
  obtain c' where c': "chunk_size \<lparr>dom_lo = lo, dom_hi = hi\<rparr> tot = Inr c'" "0 < uint c'"
    "box_volume lo hi \<le> uint c' * uint tot"
    using chunk_facts [OF in_box_nonempty [OF assms(1)] assms(3-5)] by blast
  then have cc: "0 < uint c" "box_volume lo hi \<le> uint c * uint tot" using assms(6) by simp_all
  have "p \<noteq> []" using in_box_length [OF assms(1)] assms(2) by auto
  then obtain idx where idx: "linearize lo hi p = Inr idx" "uint idx = lin lo hi p"
    using linearize_roundtrip_aux [OF assms(1) _ assms(3)] by blast
  have "lin lo hi p < uint c * uint tot" using linearize_fn_bounds [OF assms(1)] cc(2) by linarith
  then have lt: "lin lo hi p div uint c < uint tot"
  proof -
    have "lin lo hi p div uint c * uint c \<le> lin lo hi p"
      using div_mult_mod_eq [of "lin lo hi p" "uint c"] pos_mod_sign [OF cc(1), of "lin lo hi p"] by linarith
    then have "lin lo hi p div uint c * uint c < uint tot * uint c"
      using \<open>lin lo hi p < uint c * uint tot\<close> by (simp add: mult.commute)
    then show ?thesis using cc(1) by simp
  qed
  have "uint (ucast (idx div c) :: u32) = uint (idx div c)"
    using lt idx(2) assms(5) by (intro uint_ucast_u32) (simp add: uint_div_distrib)
  moreover have "c \<noteq> 0" using cc(1) by auto
  ultimately show ?thesis
    using idx lt assms(6) by (simp add: linearizing_shard_def uint_div_distrib)
qed

lemma div_eq_range:
  assumes "0 < (c :: int)" "0 \<le> s"
  shows "x div c = s \<longleftrightarrow> s * c \<le> x \<and> x < (s + 1) * c"
proof -
  have "s * c \<le> x \<longleftrightarrow> s \<le> x div c" for s
  proof
    assume "s * c \<le> x"
    then show "s \<le> x div c" using zdiv_mono1 [of "s * c" x c] assms by simp
  next
    assume "s \<le> x div c"
    then have "s * c \<le> x div c * c" using assms by (intro mult_right_mono) simp_all
    then show "s * c \<le> x" using div_mult_mod_eq [of x c] pos_mod_sign [OF assms(1), of x] by linarith
  qed
  from this [of s] this [of "s + 1"] show ?thesis by linarith
qed

lemma linearizing_invert_Inr:
  assumes ne: "box_nonempty lo hi" "lo \<noteq> []" and vol: "box_volume lo hi < 2 ^ 63"
    and tot: "0 < uint (tot :: u64)" "uint tot < 2 ^ 32" and s: "uint (s :: u32) < uint tot"
  shows "\<exists>ps. linearizing_invert s \<lparr>dom_lo = lo, dom_hi = hi\<rparr> \<lparr>dom_lo = lo, dom_hi = hi\<rparr> tot [] = Inr ps \<and>
    distinct ps \<and> set ps = {p. in_box lo hi p \<and> linearizing_shard p \<lparr>dom_lo = lo, dom_hi = hi\<rparr> tot = Inr s}"
proof -
  let ?d = "\<lparr>dom_lo = lo, dom_hi = hi\<rparr>" and ?V = "box_volume lo hi"
  obtain c where c: "chunk_size ?d tot = Inr c" "0 < uint c" "?V \<le> uint c * uint tot"
    "uint c * uint tot < ?V + uint tot" "uint (domain_volume ?d) = ?V"
    using chunk_facts [OF ne(1) vol tot] by blast
  have sh: "linearizing_shard p ?d tot = Inr s \<longleftrightarrow> uint s * uint c \<le> lin lo hi p \<and> lin lo hi p < (uint s + 1) * uint c"
    if p: "in_box lo hi p" for p
  proof -
    obtain s' where s': "linearizing_shard p ?d tot = Inr s'" "uint s' = lin lo hi p div uint c"
      using linearizing_shard_Inr [OF p ne(2) vol tot c(1)] by blast
    have "linearizing_shard p ?d tot = Inr s \<longleftrightarrow> lin lo hi p div uint c = uint s"
      unfolding s'(1) s'(2) [symmetric] by (simp add: word_uint_eq_iff)
    also have "\<dots> \<longleftrightarrow> uint s * uint c \<le> lin lo hi p \<and> lin lo hi p < (uint s + 1) * uint c"
      using c(2) by (intro div_eq_range) simp_all
    finally show ?thesis .
  qed
  have s1: "uint (s + 1) = uint s + 1" using s tot(2) by (subst uint_add_lem [THEN iffD1]) simp_all
  have "(uint s + 1) * uint c \<le> uint tot * uint c" using s by (intro mult_right_mono) simp_all
  then have up: "(uint s + 1) * uint c < ?V + uint tot" using c(4) by (simp add: mult.commute)
  then have b2: "(uint s + 1) * uint c < 2 ^ 64" using vol tot(2) by simp
  have "uint s * uint c \<le> (uint s + 1) * uint c" by (simp add: distrib_right)
  then have b1: "uint s * uint c < 2 ^ 64" using b2 by linarith
  have idx: "uint (ucast s * c) = uint s * uint c"
    using b1 by (subst uint_mult_u64) (simp_all add: uint_ucast_u64)
  have lim1: "uint (ucast (s + 1) * c) = (uint s + 1) * uint c"
    using b2 by (subst uint_mult_u64) (simp_all add: uint_ucast_u64 s1)
  define lim where "lim = min (ucast (s + 1) * c) (domain_volume ?d)"
  have lim: "uint lim = min ((uint s + 1) * uint c) ?V"
    unfolding lim_def using lim1 c(5) by (simp add: min_def word_le_def)
  have lt: "lin lo hi p < ?V" if "in_box lo hi p" for p using linearize_fn_bounds [OF that] by simp
  show ?thesis
  proof (cases "lim \<le> ucast s * c")
    case True
    then have "min ((uint s + 1) * uint c) ?V \<le> uint s * uint c" using lim idx by (simp add: word_le_def)
    moreover have "uint s * uint c < (uint s + 1) * uint c" using c(2) by simp
    ultimately have "?V \<le> uint s * uint c" by linarith
    then have "{p. in_box lo hi p \<and> linearizing_shard p ?d tot = Inr s} = {}" using sh lt by force
    moreover have "linearizing_invert s ?d ?d tot [] = Inr []"
      using True c(1) by (simp add: linearizing_invert_def Let_def lim_def)
    ultimately show ?thesis by simp
  next
    case False
    then have lt': "uint s * uint c < uint lim" using idx by (simp add: word_le_def not_le)
    then have "uint (ucast s * c) < ?V" using lim idx by linarith
    then obtain p where p: "delinearize lo hi (ucast s * c) = Inr p" "in_box lo hi p" "linearize lo hi p = Inr (ucast s * c)"
      using delinearize_roundtrip_aux [OF ne vol] by blast
    have "p \<noteq> []" using in_box_length [OF p(2)] ne(2) by auto
    then have lp: "lin lo hi p = uint s * uint c"
      using linearize_roundtrip_aux [OF p(2) _ vol] p(3) idx by auto
    let ?n = "unat (lim - ucast s * c)"
    have n: "int ?n = uint lim - uint s * uint c"
      using lt' idx uint_diff_u64 [of "ucast s * c" lim] by (simp flip: uint_nat)
    note inv = invert_loop_set [OF p(2), of ?n]
    have le: "lin lo hi p + int ?n \<le> ?V" using lp n lim by simp
    have "linearizing_invert s ?d ?d tot [] = Inr (invert_loop ?n lo hi p)"
      using False c(1) p(1) by (simp add: linearizing_invert_def Let_def lim_def)
    moreover have "set (invert_loop ?n lo hi p) = {p. in_box lo hi p \<and> linearizing_shard p ?d tot = Inr s}"
      using inv [OF le] sh lt lp n lim by auto
    ultimately show ?thesis using inv [OF le] by simp
  qed
qed

text \<open>C35: The linearizing sharding functor assigns every point of a launch domain to one of the shards,
  and its \<open>invert\<close> enumerates, without repetition, exactly the points it assigns to a shard (Legion
  relies on the two agreeing).\<close>

theorem linearizing_sharding_correct:
  assumes "box_nonempty lo hi" "lo \<noteq> []" "box_volume lo hi < 2 ^ 63" "0 < uint tot" "uint tot < 2 ^ 32"
  shows "(in_box lo hi p \<longrightarrow>
      (\<exists>s. linearizing_shard p \<lparr>dom_lo = lo, dom_hi = hi\<rparr> tot = Inr s \<and> uint s < uint tot)) \<and>
    (uint s < uint tot \<longrightarrow>
      (\<exists>ps. linearizing_invert s \<lparr>dom_lo = lo, dom_hi = hi\<rparr> \<lparr>dom_lo = lo, dom_hi = hi\<rparr> tot [] = Inr ps \<and>
        distinct ps \<and>
        set ps = {p. in_box lo hi p \<and> linearizing_shard p \<lparr>dom_lo = lo, dom_hi = hi\<rparr> tot = Inr s}))"
  using chunk_facts [OF assms(1,3-5)] linearizing_shard_Inr [OF _ assms(2-5)] linearizing_invert_Inr [OF assms]
  by blast

lemma linearizing_sharding_correct_witness:
  "\<exists>ps. linearizing_invert 1 \<lparr>dom_lo = [0, 1], dom_hi = [2, 3]\<rparr> \<lparr>dom_lo = [0, 1], dom_hi = [2, 3]\<rparr> 2 [] = Inr ps \<and>
    distinct ps \<and>
    set ps = {p. in_box [0, 1] [2, 3] p \<and> linearizing_shard p \<lparr>dom_lo = [0, 1], dom_hi = [2, 3]\<rparr> 2 = Inr 1}"
  using linearizing_sharding_correct [of "[0, 1]" "[2, 3]" 2 _ 1] by (simp add: box_nonempty_def)

section \<open>Sharding over a processor range\<close>

text \<open>The share of the range that a linear index falls on, and its node, in words.\<close>

lemma div_mult_le: "0 < k \<Longrightarrow> p div k * k \<le> (p :: int)"
  using div_mult_mod_eq [of p k] pos_mod_sign [of k p] by linarith

lemma share_bounds:
  assumes "0 \<le> l" "l < V" "0 < (n :: int)"
  shows "0 \<le> l * n div V" "l * n div V < n"
proof -
  have V: "0 < V" using assms by linarith
  show "0 \<le> l * n div V" using assms V by (simp add: pos_imp_zdiv_nonneg_iff)
  have "l * n div V * V < n * V"
    using div_mult_le [OF V, of "l * n"] assms by (metis le_less_trans mult.commute mult_strict_left_mono)
  then show "l * n div V < n" using V by simp
qed

lemma div_le_self: "1 \<le> k \<Longrightarrow> 0 \<le> p \<Longrightarrow> p div k \<le> (p :: int)"
  using div_mult_le [of k p] mult_left_mono [of 1 k "p div k"] by (simp add: pos_imp_zdiv_nonneg_iff)

lemma pr_count_pos:
  assumes "\<not> pr_empty r"
  shows "uint (pr_count r) = uint (pr_high r) - uint (pr_low r)" "0 < uint (pr_count r)"
proof -
  have lt: "uint (pr_low r) < uint (pr_high r)" using assms by (simp add: pr_empty_def u32_le_iff not_le)
  then show "uint (pr_count r) = uint (pr_high r) - uint (pr_low r)"
    using uint_sub_lem [of "pr_low r" "pr_high r"] by (simp add: pr_count_def)
  with lt show "0 < uint (pr_count r)" by simp
qed

lemma shard_processor:
  assumes "\<not> pr_empty r" "0 \<le> uint idx" "uint idx < V" "uint tc = V" "V * uint (pr_count r) < 2 ^ 63"
  defines "p \<equiv> uint (pr_low r) + uint idx * uint (pr_count r) div V"
  shows "uint ((idx * ucast (pr_count r)) div tc + ucast (pr_low r) :: u64) = p" "p \<in> procs_of r"
proof -
  note n = pr_count_pos [OF assms(1)] and sh = share_bounds [OF assms(2,3) pr_count_pos(2) [OF assms(1)]]
  show p: "p \<in> procs_of r" using sh n(1) by (simp add: procs_of_def p_def)
  have "uint idx * uint (pr_count r) < V * uint (pr_count r)" using assms(3) n(2) by simp
  then have "uint (idx * ucast (pr_count r)) = uint idx * uint (pr_count r)"
    using assms(5) by (subst uint_mult_u64) (simp_all add: uint_ucast_u64)
  then have "uint ((idx * ucast (pr_count r)) div tc) = uint idx * uint (pr_count r) div V"
    by (simp only: uint_div_distrib assms(4))
  moreover have "p < 2 ^ 64" using p uint_lt2p [of "pr_high r"] by (simp add: procs_of_def)
  ultimately show "uint ((idx * ucast (pr_count r)) div tc + ucast (pr_low r) :: u64) = p"
    unfolding p_def by (subst uint_add_u64) (simp_all add: uint_ucast_u64 add.commute)
qed

text \<open>The sharding functor that \<open>legate\<close> builds from a projection maps every point of a launch to a
  node that owns a processor of the range the operation may use: the point with linear index \<open>i\<close> among
  \<open>n\<close> projected points goes to processor \<open>low + i * count / n\<close>, which lies in the range, and the shard
  is the node of that processor; the assertion that the shard exists holds when the nodes of the range
  exist.\<close>

theorem legate_shard_correct:
  assumes "project_point L f (dom_lo d) = Inr lo" "project_point L f (dom_hi d) = Inr hi"
    and "project_point L f p = Inr q" "in_box lo hi q" "lo \<noteq> []"
    and "pr_wf r" "\<not> pr_empty r" "box_volume lo hi * uint (pr_count r) < 2 ^ 63"
    and "uint (pr_high r) \<le> uint tot * uint (pr_per_node r)"
  shows "\<exists>s. legate_shard L f r p d tot = Inr s \<and>
    (let proc = uint (pr_low r) + lin lo hi q * uint (pr_count r) div box_volume lo hi
     in proc \<in> procs_of r \<and> uint s = proc div uint (pr_per_node r))"
proof -
  let ?V = "box_volume lo hi" and ?k = "uint (pr_per_node r)"
  have ne: "q \<noteq> []" "length hi = length lo" using in_box_length [OF assms(4)] assms(5) by auto
  have k: "1 \<le> ?k" using assms(6) by (simp add: pr_wf_def u32_le_iff)
  have V: "0 < ?V" using box_volume_pos [OF assms(4)] .
  have "?V * 1 \<le> ?V * uint (pr_count r)" using V pr_count_pos [OF assms(7)] by (intro mult_left_mono) simp_all
  then have V63: "?V < 2 ^ 63" using assms(8) by linarith
  obtain idx where idx: "linearize lo hi q = Inr idx" "uint idx = lin lo hi q"
    using linearize_roundtrip_aux [OF assms(4) ne(1) V63] by blast
  have hin: "in_box lo hi hi" "hi \<noteq> []"
    using in_box_nonempty [OF assms(4)] assms(5) ne(2) by (auto simp: box_nonempty_def in_box_iff list_all2_conv_all_nth)
  obtain li where li: "linearize lo hi hi = Inr li" "uint li = lin lo hi hi"
    using linearize_roundtrip_aux [OF hin V63] by blast
  have tc: "uint (li + 1) = ?V" using li(2) lin_hi [OF ne(2)] V63 V by (subst uint_add_u64) simp_all
  let ?proc = "uint (pr_low r) + uint idx * uint (pr_count r) div ?V"
  note gp = shard_processor [OF assms(7) uint_ge_0 _ tc assms(8), of idx]
  have lt: "uint idx < ?V" using linearize_fn_bounds [OF assms(4)] idx(2) by simp
  let ?sid = "((idx * ucast (pr_count r)) div (li + 1) + ucast (pr_low r)) div ucast (pr_per_node r) :: u64"
  have sid: "uint ?sid = ?proc div ?k" by (simp only: uint_div_distrib gp(1) [OF lt] uint_ucast_u64)
  have ph: "?proc < uint (pr_high r)" "0 \<le> ?proc"
    using gp(2) [OF lt] uint_ge_0 [of "pr_low r"] by (auto simp: procs_of_def simp del: uint_ge_0)
  have "uint ?sid < 2 ^ 32" using sid ph(1) uint_lt2p [of "pr_high r"] div_le_self [OF k ph(2)] by simp
  then have uc: "uint (ucast ?sid :: u32) = ?proc div ?k" using sid by (simp only: uint_ucast_u32)
  have "?proc div ?k * ?k < uint tot * ?k" using div_mult_le [of ?k ?proc] k ph(1) assms(9) by linarith
  then have "?sid < tot" using k unfolding word_less_def sid by simp
  moreover have "li + 1 \<noteq> 0" "pr_per_node r \<noteq> 0" using tc V k by auto
  ultimately have "legate_shard L f r p d tot = Inr (ucast ?sid)"
    using assms(1-3) idx(1) li(1) by (simp add: legate_shard_def Let_def)
  then show ?thesis using uc gp(2) [OF lt] unfolding idx(2) by (simp add: Let_def)
qed

lemma legate_shard_correct_witness:
  "\<exists>s. legate_shard std_legion IdentityProjection \<lparr>pr_low = 2, pr_high = 6, pr_per_node = 2\<rparr> [4]
      \<lparr>dom_lo = [0], dom_hi = [5]\<rparr> 3 = Inr s \<and>
    (let proc = uint (pr_low \<lparr>pr_low = 2, pr_high = 6, pr_per_node = 2\<rparr>) + lin [0] [5] [4] *
       uint (pr_count \<lparr>pr_low = 2, pr_high = 6, pr_per_node = 2\<rparr>) div box_volume [0] [5]
     in proc \<in> procs_of \<lparr>pr_low = 2, pr_high = 6, pr_per_node = 2\<rparr> \<and>
       uint s = proc div uint (pr_per_node \<lparr>pr_low = 2, pr_high = 6, pr_per_node = 2\<rparr>))"
  by (rule legate_shard_correct) (simp_all add: pr_wf_def pr_empty_def pr_count_def)

end
