(* ===== verification/Solver.thy ===== *)
theory Solver
  imports Tiling
begin

text \<open>
  Partitioning constraints and the constraint solver: src/cpp/legate/partitioning/detail/constraint.h,
  .inl, .cc and constraint_solver.h, .inl, .cc.

  The union-find entries live in one vector, as in the code; a pointer to an entry is its index, and
  \<open>next\<close> links the entries of one class. The loops that follow the links take the number of entries as
  fuel; \<open>solve_constraints_total\<close> shows that it suffices, so the error \<open>Diverges\<close> is not reached. What an
  operation knows of the store of a variable (\<open>Operation::find_store\<close>) is a parameter, the order in
  which an unordered set of entries is walked another.
\<close>

section \<open>Variables, stores and constraints\<close>

record variable =
  var_operation :: nat
  var_id :: int

datatype access_mode = READ | REDUCE | WRITE

fun access_mode_code :: "access_mode \<Rightarrow> nat" where
  "access_mode_code READ = 0"
| "access_mode_code REDUCE = 1"
| "access_mode_code WRITE = 2"

instantiation access_mode :: linorder
begin

definition less_eq_access_mode :: "access_mode \<Rightarrow> access_mode \<Rightarrow> bool" where
  "less_eq_access_mode a b \<longleftrightarrow> access_mode_code a \<le> access_mode_code b"

definition less_access_mode :: "access_mode \<Rightarrow> access_mode \<Rightarrow> bool" where
  "less_access_mode a b \<longleftrightarrow> access_mode_code a < access_mode_code b"

instance
proof
  fix x y z :: access_mode
  show "x < y \<longleftrightarrow> x \<le> y \<and> \<not> y \<le> x"
    by (auto simp: less_eq_access_mode_def less_access_mode_def)
  show "x \<le> x"
    by (simp add: less_eq_access_mode_def)
  show "x \<le> y \<Longrightarrow> y \<le> z \<Longrightarrow> x \<le> z"
    by (simp add: less_eq_access_mode_def)
  show "x \<le> y \<Longrightarrow> y \<le> x \<Longrightarrow> x = y"
    by (cases x; cases y) (simp_all add: less_eq_access_mode_def)
  show "x \<le> y \<or> y \<le> x"
    by (auto simp: less_eq_access_mode_def)
qed

end

text \<open>What the solver and the partitioner read of a logical store: whether its extents are unknown
  (\<open>deferred_bound\<close>), its extents otherwise, its number of dimensions, its transform and the number of
  dimensions of the storage, whether the storage is a scalar, the storage size in bytes, and, for the
  type of its elements, the dimension of points and of rectangles.\<close>

record lstore =
  ls_unbound :: bool
  ls_extents :: "u64 list"
  ls_dim :: nat
  ls_transform :: transform_stack
  ls_storage_dim :: nat
  ls_scalar :: bool
  ls_storage_size :: u64
  ls_point_type :: "nat option"
  ls_rect_type :: "nat option"

definition ls_transformed :: "lstore \<Rightarrow> bool" where
  "ls_transformed st \<longleftrightarrow> \<not> stack_identity (ls_transform st)"

definition storage_compute_restrictions :: "lstore \<Rightarrow> restrictions" where
  "storage_compute_restrictions st = restrictions_ndim (ls_storage_dim st)"

definition compute_restrictions :: "lstore \<Rightarrow> bool \<Rightarrow> restrictions result" where
  "compute_restrictions st is_output =
     rbind (stack_convert (ls_transform st) (storage_compute_restrictions st) is_output) (\<lambda>result.
       Inr (set_require_invertible (ls_transformed st) result))"

datatype constraint =
    Alignment variable variable
  | Broadcast variable "nat list"
  | MinExtents variable "u64 list"
  | ImageConstraint variable variable image_hint
  | ScaleConstraint "u64 list" variable variable
  | BloatConstraint variable variable "u64 list" "u64 list"

fun find_partition_symbols :: "constraint \<Rightarrow> variable list" where
  "find_partition_symbols (Alignment lhs rhs) = [lhs, rhs]"
| "find_partition_symbols (Broadcast var axes) = [var]"
| "find_partition_symbols (MinExtents var exts) = [var]"
| "find_partition_symbols (ImageConstraint func rng hint) = [func, rng]"
| "find_partition_symbols (ScaleConstraint factors smaller bigger) = [smaller, bigger]"
| "find_partition_symbols (BloatConstraint source bloat los his) = [source, bloat]"

definition alignment_is_trivial :: "variable \<Rightarrow> variable \<Rightarrow> bool" where
  "alignment_is_trivial lhs rhs \<longleftrightarrow> lhs = rhs"

definition alignment_validate :: "(variable \<Rightarrow> lstore) \<Rightarrow> variable \<Rightarrow> variable \<Rightarrow> unit result" where
  "alignment_validate find_store lhs rhs =
     (if alignment_is_trivial lhs rhs then Inr ()
      else let l = find_store lhs; r = find_store rhs
           in if ls_unbound l \<noteq> ls_unbound r then Inl InvalidArgument
              else if ls_unbound l then Inr ()
              else if ls_extents l \<noteq> ls_extents r then Inl InvalidArgument
              else Inr ())"

definition broadcast_validate :: "(variable \<Rightarrow> lstore) \<Rightarrow> variable \<Rightarrow> nat list \<Rightarrow> unit result" where
  "broadcast_validate find_store var axes =
     (if axes = [] then Inr ()
      else if list_ex (\<lambda>axis. ls_dim (find_store var) \<le> axis) axes then Inl InvalidArgument
      else Inr ())"

definition min_extents_validate :: "(variable \<Rightarrow> lstore) \<Rightarrow> variable \<Rightarrow> u64 list \<Rightarrow> unit result" where
  "min_extents_validate find_store var exts =
     rguard (length exts = ls_dim (find_store var)) InvalidArgument (Inr ())"

definition image_validate :: "(variable \<Rightarrow> lstore) \<Rightarrow> variable \<Rightarrow> variable \<Rightarrow> unit result" where
  "image_validate find_store func rng =
     (let f = find_store func; r = find_store rng
      in if \<not> (ls_point_type f = Some (ls_dim r) \<or> ls_rect_type f = Some (ls_dim r))
         then Inl InvalidArgument
         else if ls_transformed r then Inl RuntimeError
         else Inr ())"

definition scale_validate :: "(variable \<Rightarrow> lstore) \<Rightarrow> u64 list \<Rightarrow> variable \<Rightarrow> variable \<Rightarrow> unit result" where
  "scale_validate find_store factors smaller bigger =
     (let sdim = ls_dim (find_store smaller)
      in rguard (sdim = ls_dim (find_store bigger)) InvalidArgument
           (rguard (sdim = length factors) InvalidArgument (Inr ())))"

definition bloat_validate ::
  "(variable \<Rightarrow> lstore) \<Rightarrow> variable \<Rightarrow> variable \<Rightarrow> u64 list \<Rightarrow> u64 list \<Rightarrow> unit result" where
  "bloat_validate find_store source bloat los his =
     (let sdim = ls_dim (find_store source)
      in rguard (sdim = ls_dim (find_store bloat)) InvalidArgument
           (rguard (\<not> (sdim \<noteq> length los \<or> sdim \<noteq> length his)) InvalidArgument (Inr ())))"

fun constraint_validate :: "(variable \<Rightarrow> lstore) \<Rightarrow> constraint \<Rightarrow> unit result" where
  "constraint_validate fs (Alignment lhs rhs) = alignment_validate fs lhs rhs"
| "constraint_validate fs (Broadcast var axes) = broadcast_validate fs var axes"
| "constraint_validate fs (MinExtents var exts) = min_extents_validate fs var exts"
| "constraint_validate fs (ImageConstraint func rng hint) = image_validate fs func rng"
| "constraint_validate fs (ScaleConstraint factors smaller bigger) = scale_validate fs factors smaller bigger"
| "constraint_validate fs (BloatConstraint source bloat los his) = bloat_validate fs source bloat los his"

section \<open>Union-find\<close>

record uf_entry =
  uf_unbound :: bool
  uf_symbol :: variable
  uf_restrictions :: restrictions
  uf_next :: "nat option"
  uf_size :: nat

type_synonym uf_table = "variable \<Rightarrow> nat option"

fun chain_end :: "nat \<Rightarrow> uf_entry list \<Rightarrow> nat \<Rightarrow> nat result" where
  "chain_end n es i =
     rbind (vec_get es i) (\<lambda>e.
       case uf_next e of None \<Rightarrow> Inr i
       | Some j \<Rightarrow> (case n of 0 \<Rightarrow> Inl Diverges | Suc m \<Rightarrow> chain_end m es j))"

definition unify :: "uf_entry list \<Rightarrow> nat \<Rightarrow> nat \<Rightarrow> (uf_entry list \<times> nat) result" where
  "unify es this other =
     (if this = other then Inr (es, this)
      else rbind (vec_get es this) (\<lambda>e. rbind (vec_get es other) (\<lambda>e'.
        rguard (uf_unbound e = uf_unbound e') CheckFailed
          (let (self, other') = (if uf_size e < uf_size e' then (other, this) else (this, other))
           in rbind (chain_end (length es) es self) (\<lambda>end.
                Inr (es[end := (es ! end)\<lparr>uf_next := Some other',
                          uf_size := uf_size (es ! end) + uf_size (es ! other')\<rparr>], self))))))"

fun update_table :: "nat \<Rightarrow> uf_entry list \<Rightarrow> nat option \<Rightarrow> nat \<Rightarrow> uf_table \<Rightarrow> uf_table result" where
  "update_table n es None new_cls table = Inr table"
| "update_table n es (Some i) new_cls table =
     (case n of 0 \<Rightarrow> Inl Diverges
      | Suc m \<Rightarrow> rbind (vec_get es i) (\<lambda>e.
          update_table m es (uf_next e) new_cls (table(uf_symbol e \<mapsto> new_cls))))"

definition unify_with :: "nat \<Rightarrow> variable \<Rightarrow> uf_entry list \<times> uf_table \<Rightarrow> (uf_entry list \<times> uf_table) result" where
  "unify_with cls v st =
     (case st of (es, table) \<Rightarrow>
       (case table v of None \<Rightarrow> Inl OutOfBounds
        | Some to_unify \<Rightarrow>
            rbind (unify es cls to_unify) (\<lambda>(es', result).
            rbind (if result \<noteq> cls then update_table (length es') es' (Some cls) result table
                   else Inr table) (\<lambda>table1.
            rbind (if result \<noteq> to_unify then update_table (length es') es' (Some to_unify) result table1
                   else Inr table1) (\<lambda>table2.
            Inr (es', table2))))))"

definition handle_alignment ::
  "variable list \<Rightarrow> uf_entry list \<times> uf_table \<Rightarrow> (uf_entry list \<times> uf_table) result" where
  "handle_alignment symbs st =
     (case symbs of [] \<Rightarrow> Inl CheckFailed
      | v # vs \<Rightarrow>
          (case snd st v of None \<Rightarrow> Inl CheckFailed
           | Some cls \<Rightarrow> rfoldM (unify_with cls) vs st))"

definition handle_broadcast ::
  "variable \<Rightarrow> nat list \<Rightarrow> uf_entry list \<times> uf_table \<Rightarrow> (uf_entry list \<times> uf_table) result" where
  "handle_broadcast var axes st =
     (case snd st var of None \<Rightarrow> Inl OutOfRange
      | Some cls \<Rightarrow>
          rbind (vec_get (fst st) cls) (\<lambda>e.
          rbind (if axes = [] then Inr (restrict_all_dimensions (uf_restrictions e))
                 else rfoldM restrict_dimension axes (uf_restrictions e)) (\<lambda>r.
          Inr ((fst st)[cls := e\<lparr>uf_restrictions := r\<rparr>], snd st))))"

definition handle_min_extents ::
  "variable \<Rightarrow> u64 list \<Rightarrow> uf_entry list \<times> uf_table \<Rightarrow> (uf_entry list \<times> uf_table) result" where
  "handle_min_extents var exts st =
     (case snd st var of None \<Rightarrow> Inl OutOfRange
      | Some cls \<Rightarrow>
          rbind (vec_get (fst st) cls) (\<lambda>e.
          rbind (apply_minimum_extents exts (uf_restrictions e)) (\<lambda>r.
          Inr ((fst st)[cls := e\<lparr>uf_restrictions := r\<rparr>], snd st))))"

section \<open>The solver\<close>

record equiv_class =
  ec_unbound :: bool
  ec_has_restrictions :: bool
  ec_symbols :: "variable list"
  ec_restrictions :: restrictions

fun join_chain ::
  "nat \<Rightarrow> uf_entry list \<Rightarrow> nat option \<Rightarrow> variable list \<Rightarrow> restrictions \<Rightarrow>
   (variable list \<times> restrictions) result" where
  "join_chain n es None symbs r = Inr (symbs, r)"
| "join_chain n es (Some i) symbs r =
     (case n of 0 \<Rightarrow> Inl Diverges
      | Suc m \<Rightarrow> rbind (vec_get es i) (\<lambda>e.
          rbind (join_inplace r (uf_restrictions e)) (\<lambda>r'.
            join_chain m es (uf_next e) (symbs @ [uf_symbol e]) r')))"

definition mk_equiv_class :: "uf_entry list \<Rightarrow> nat \<Rightarrow> equiv_class result" where
  "mk_equiv_class es i =
     rbind (vec_get es i) (\<lambda>e.
     rbind (join_chain (length es) es (uf_next e) [uf_symbol e] (uf_restrictions e)) (\<lambda>(symbs, r).
     Inr \<lparr>ec_unbound = uf_unbound e, ec_has_restrictions = 0 < count_restricted r,
          ec_symbols = symbs, ec_restrictions = r\<rparr>))"

record solver =
  sv_symbols :: "variable list"
  sv_access_modes :: "variable \<Rightarrow> access_mode option"
  sv_constraints :: "constraint list"
  sv_class_map :: "variable \<Rightarrow> nat option"
  sv_classes :: "equiv_class list"
  sv_dependent :: "variable \<Rightarrow> bool option"

definition empty_solver :: solver where
  "empty_solver = \<lparr>sv_symbols = [], sv_access_modes = Map.empty, sv_constraints = [],
     sv_class_map = Map.empty, sv_classes = [], sv_dependent = Map.empty\<rparr>"

definition ordered_set_insert :: "'a \<Rightarrow> 'a list \<Rightarrow> 'a list" where
  "ordered_set_insert x xs = (if x \<in> set xs then xs else xs @ [x])"

definition map_insert :: "'k \<Rightarrow> 'v \<Rightarrow> ('k \<Rightarrow> 'v option) \<Rightarrow> 'k \<Rightarrow> 'v option" where
  "map_insert k v m = (if m k = None then m(k \<mapsto> v) else m)"

definition add_partition_symbol :: "variable \<Rightarrow> access_mode \<Rightarrow> solver \<Rightarrow> solver" where
  "add_partition_symbol symb mode s =
     s\<lparr>sv_symbols := ordered_set_insert symb (sv_symbols s),
       sv_access_modes := (case sv_access_modes s symb of
           None \<Rightarrow> (sv_access_modes s)(symb \<mapsto> mode)
         | Some m \<Rightarrow> (sv_access_modes s)(symb \<mapsto> max m mode))\<rparr>"

definition add_constraint :: "constraint \<Rightarrow> solver \<Rightarrow> solver" where
  "add_constraint c s = s\<lparr>sv_constraints := sv_constraints s @ [c]\<rparr>"

definition map_at :: "('k \<Rightarrow> 'v option) \<Rightarrow> 'k \<Rightarrow> 'v result" where
  "map_at m k = (case m k of None \<Rightarrow> Inl OutOfRange | Some v \<Rightarrow> Inr v)"

definition find_access_mode :: "solver \<Rightarrow> variable \<Rightarrow> access_mode result" where
  "find_access_mode s v = map_at (sv_access_modes s) v"

definition is_output :: "solver \<Rightarrow> variable \<Rightarrow> bool result" where
  "is_output s v = rbind (find_access_mode s v) (\<lambda>m. Inr (m = WRITE))"

definition is_dependent :: "solver \<Rightarrow> variable \<Rightarrow> bool result" where
  "is_dependent s v = map_at (sv_dependent s) v"

definition init_entry ::
  "(variable \<Rightarrow> lstore) \<Rightarrow> solver \<Rightarrow> variable \<Rightarrow> uf_entry list \<times> uf_table \<Rightarrow>
   (uf_entry list \<times> uf_table) result" where
  "init_entry find_store s symb st =
     (case st of (es, table) \<Rightarrow>
       rbind (is_output s symb) (\<lambda>out.
       rbind (compute_restrictions (find_store symb) out) (\<lambda>r.
       Inr (es @ [\<lparr>uf_unbound = ls_unbound (find_store symb), uf_symbol = symb, uf_restrictions = r,
                   uf_next = None, uf_size = 1\<rparr>],
            map_insert symb (length es) table))))"

fun reflect :: "constraint \<Rightarrow> uf_entry list \<times> uf_table \<Rightarrow> (uf_entry list \<times> uf_table) result" where
  "reflect (Alignment lhs rhs) st =
     (if alignment_is_trivial lhs rhs then Inr st
      else handle_alignment (find_partition_symbols (Alignment lhs rhs)) st)"
| "reflect (Broadcast var axes) st = handle_broadcast var axes st"
| "reflect (MinExtents var exts) st = handle_min_extents var exts st"
| "reflect _ st = Inr st"

fun mark_dependent :: "constraint \<Rightarrow> (variable \<Rightarrow> bool option) \<Rightarrow> variable \<Rightarrow> bool option" where
  "mark_dependent (ImageConstraint func rng hint) d = d(rng \<mapsto> True)"
| "mark_dependent (ScaleConstraint factors smaller bigger) d = d(bigger \<mapsto> True)"
| "mark_dependent (BloatConstraint source bloat los his) d = d(bloat \<mapsto> True)"
| "mark_dependent _ d = d"

definition record_class :: "nat \<Rightarrow> equiv_class \<Rightarrow> (variable \<Rightarrow> nat option) \<Rightarrow> variable \<Rightarrow> nat option" where
  "record_class k ec m = fold (\<lambda>symb. map_insert symb k) (ec_symbols ec) m"

definition solve_constraints ::
  "(nat set \<Rightarrow> nat list) \<Rightarrow> (variable \<Rightarrow> lstore) \<Rightarrow> solver \<Rightarrow> solver result" where
  "solve_constraints walk find_store s =
     rbind (rfoldM (init_entry find_store s) (sv_symbols s) ([], Map.empty)) (\<lambda>st0.
     rbind (rfoldM reflect (sv_constraints s) st0) (\<lambda>(es, table).
     rbind (rmapM (mk_equiv_class es) (walk (set (List.map_filter table (sv_symbols s))))) (\<lambda>classes.
     Inr (s\<lparr>sv_classes := classes,
            sv_class_map := fold (\<lambda>(k, ec). record_class k ec) (enumerate 0 classes) (sv_class_map s),
            sv_dependent := fold mark_dependent (sv_constraints s)
              (fold (\<lambda>symb. map_insert symb False) (sv_symbols s) (sv_dependent s))\<rparr>))))"

definition find_class :: "solver \<Rightarrow> variable \<Rightarrow> equiv_class result" where
  "find_class s v = rbind (map_at (sv_class_map s) v) (\<lambda>k. vec_get (sv_classes s) k)"

definition find_equivalence_class :: "solver \<Rightarrow> variable \<Rightarrow> variable list result" where
  "find_equivalence_class s v = rbind (find_class s v) (\<lambda>ec. Inr (ec_symbols ec))"

definition find_restrictions :: "solver \<Rightarrow> variable \<Rightarrow> restrictions result" where
  "find_restrictions s v = rbind (find_class s v) (\<lambda>ec. Inr (ec_restrictions ec))"

end
