(* ===== verification/SolverChains.thy ===== *)
theory SolverChains
  imports Solver
begin

text \<open>
  The union-find structure of the constraint solver: the linked entries of a class as a list, the
  invariant that relates heap, table and classes, the effect of \<open>UnionFindEntry::unify\<close> and
  \<open>update_table\<close> on it, and what a list of constraints means (\<open>must_align\<close>, \<open>constraint_holds\<close>).
\<close>

section \<open>Chains of entries\<close>

text \<open>A list of entries is linked when \<open>next\<close> leads from each one to its successor and the last has none.\<close>

fun linked :: "uf_entry list \<Rightarrow> nat list \<Rightarrow> bool" where
  "linked es [] \<longleftrightarrow> False"
| "linked es [i] \<longleftrightarrow> i < length es \<and> uf_next (es ! i) = None"
| "linked es (i # j # xs) \<longleftrightarrow> i < length es \<and> uf_next (es ! i) = Some j \<and> linked es (j # xs)"

lemma linked_nonempty: "linked es xs \<Longrightarrow> xs \<noteq> []"
  by auto

lemma linked_bound: "linked es xs \<Longrightarrow> i \<in> set xs \<Longrightarrow> i < length es"
  by (induction es xs rule: linked.induct) auto

lemma linked_Cons:
  "linked es (i # xs) \<longleftrightarrow>
     i < length es \<and> uf_next (es ! i) = (if xs = [] then None else Some (hd xs)) \<and> (xs \<noteq> [] \<longrightarrow> linked es xs)"
  by (cases xs) auto

lemma chain_end_linked:
  "linked es xs \<Longrightarrow> length xs \<le> Suc n \<Longrightarrow> chain_end n es (hd xs) = Inr (last xs)"
proof (induction xs arbitrary: n)
  case (Cons i xs)
  then show ?case by (cases "xs = []"; cases n) (auto simp: linked_Cons)
qed simp

declare chain_end.simps [simp del]

lemma update_table_linked:
  "linked es xs \<Longrightarrow> length xs \<le> n \<Longrightarrow> update_table n es (Some (hd xs)) c t =
     Inr (\<lambda>v. if v \<in> (\<lambda>i. uf_symbol (es ! i)) ` set xs then Some c else t v)"
proof (induction xs arbitrary: n t)
  case (Cons i xs)
  from Cons.prems(2) obtain m where n: "n = Suc m" "length xs \<le> m" by (cases n) auto
  show ?case
  proof (cases "xs = []")
    case False
    then have "linked es xs" using Cons.prems(1) by (simp add: linked_Cons)
    from Cons.IH [OF this n(2)] False Cons.prems(1) show ?thesis
      by (auto simp: linked_Cons n(1))
  qed (use Cons.prems(1) in \<open>auto simp: n(1)\<close>)
qed simp

lemma linked_cong:
  assumes "length es' = length es" "\<And>i. i \<in> set xs \<Longrightarrow> uf_next (es' ! i) = uf_next (es ! i)"
  shows "linked es' xs \<longleftrightarrow> linked es xs"
  using assms(2) by (induction xs) (simp_all add: linked_Cons assms(1))

lemma linked_append:
  assumes "linked es xs" "linked es ys" "distinct xs" "set xs \<inter> set ys = {}"
    and "uf_next e = Some (hd ys)"
  shows "linked (es[last xs := e]) (xs @ ys)"
  using assms(1,3,4)
proof (induction xs)
  case (Cons i xs)
  show ?case
  proof (cases "xs = []")
    case True
    have "es[i := e] ! k = es ! k" if "k \<in> set ys" for k
      using that Cons.prems(3) by (intro nth_list_update_neq) auto
    then have "linked (es[i := e]) ys"
      using assms(2) by (subst linked_cong [of _ es]) auto
    with True Cons.prems(1) linked_nonempty [OF assms(2)] assms(5) show ?thesis
      by (simp add: linked_Cons)
  next
    case False
    then have "last xs \<noteq> i" using Cons.prems(2) last_in_set by fastforce
    with False Cons linked_nonempty [OF assms(2)] show ?thesis by (auto simp: linked_Cons)
  qed
qed simp

section \<open>The invariant of the union-find structure\<close>

definition chains_ok :: "uf_entry list \<Rightarrow> nat list set \<Rightarrow> bool" where
  "chains_ok es C \<longleftrightarrow>
     (\<forall>xs \<in> C. linked es xs \<and> distinct xs) \<and>
     (\<forall>xs \<in> C. \<forall>ys \<in> C. xs \<noteq> ys \<longrightarrow> set xs \<inter> set ys = {}) \<and> (\<Union>xs \<in> C. set xs) = {..<length es}"

definition table_ok :: "uf_entry list \<Rightarrow> uf_table \<Rightarrow> nat list set \<Rightarrow> bool" where
  "table_ok es t C \<longleftrightarrow>
     distinct (map uf_symbol es) \<and> dom t = uf_symbol ` set es \<and>
     (\<forall>xs \<in> C. \<forall>i \<in> set xs. t (uf_symbol (es ! i)) = Some (hd xs))"

text \<open>What never changes in an entry.\<close>

definition same_static :: "uf_entry list \<Rightarrow> uf_entry list \<Rightarrow> bool" where
  "same_static es0 es \<longleftrightarrow> length es = length es0 \<and>
     (\<forall>i < length es0. uf_symbol (es ! i) = uf_symbol (es0 ! i) \<and> uf_unbound (es ! i) = uf_unbound (es0 ! i) \<and>
        length (dim_restrictions (uf_restrictions (es ! i))) = length (dim_restrictions (uf_restrictions (es0 ! i))))"

lemma chains_okD:
  assumes "chains_ok es C" "xs \<in> C"
  shows "linked es xs" "distinct xs" "xs \<noteq> []" "hd xs < length es" "last xs < length es" "length xs \<le> length es"
proof -
  show l: "linked es xs" and d: "distinct xs" using assms by (auto simp: chains_ok_def)
  show ne: "xs \<noteq> []" by (rule linked_nonempty [OF l])
  show "hd xs < length es" "last xs < length es" using ne linked_bound [OF l] by simp_all
  have "set xs \<subseteq> {..<length es}" using linked_bound [OF l] by auto
  then show "length xs \<le> length es" using card_mono [of "{..<length es}" "set xs"] d by (simp add: distinct_card)
qed

lemma chains_ok_find:
  assumes "chains_ok es C" "i < length es"
  obtains xs where "xs \<in> C" "i \<in> set xs"
proof -
  have "i \<in> (\<Union>xs \<in> C. set xs)" using assms unfolding chains_ok_def by simp
  then show ?thesis using that by blast
qed

lemma chains_ok_unique:
  "chains_ok es C \<Longrightarrow> xs \<in> C \<Longrightarrow> ys \<in> C \<Longrightarrow> i \<in> set xs \<Longrightarrow> i \<in> set ys \<Longrightarrow> xs = ys"
  unfolding chains_ok_def by blast

lemma table_ok_lookup:
  assumes "chains_ok es C" "table_ok es t C" "t v = Some h"
  obtains xs i where "xs \<in> C" "h = hd xs" "i \<in> set xs" "uf_symbol (es ! i) = v"
proof -
  have "v \<in> dom t" using assms(3) by (simp add: domI)
  then obtain i where "i < length es" "uf_symbol (es ! i) = v"
    using assms(2) by (auto simp: table_ok_def in_set_conv_nth)
  moreover from this obtain xs where "xs \<in> C" "i \<in> set xs" using chains_ok_find [OF assms(1)] by blast
  ultimately show ?thesis using that assms(2,3) by (fastforce simp: table_ok_def)
qed

text \<open>Linking one chain behind another.\<close>

lemma link_chains:
  fixes k :: nat
  assumes "chains_ok es C" "xs \<in> C" "ys \<in> C" "xs \<noteq> ys"
  defines "es' \<equiv> es[last xs := (es ! last xs)\<lparr>uf_next := Some (hd ys), uf_size := k\<rparr>]"
  shows "chains_ok es' (insert (xs @ ys) (C - {xs, ys}))" "linked es' ys"
proof -
  note x = chains_okD [OF assms(1,2)] and y = chains_okD [OF assms(1,3)]
  have dj: "set zs \<inter> set ws = {}" if "zs \<in> C" "ws \<in> C" "zs \<noteq> ws" for zs ws
    using assms(1) that unfolding chains_ok_def by blast
  have keep: "linked es' zs" if "zs \<in> C" "zs \<noteq> xs" for zs
  proof -
    have "es' ! i = es ! i" if "i \<in> set zs" for i
      using that dj [OF \<open>zs \<in> C\<close> assms(2) \<open>zs \<noteq> xs\<close>] last_in_set [OF x(3)]
      unfolding es'_def by (intro nth_list_update_neq) auto
    then show ?thesis using chains_okD(1) [OF assms(1) that(1)] by (subst linked_cong [of _ es]) (auto simp: es'_def)
  qed
  show "linked es' ys" using keep assms(3,4) by blast
  have app: "linked es' (xs @ ys)" "distinct (xs @ ys)"
    unfolding es'_def using x(1,2) y(1,2) dj [OF assms(2-4)] by (intro linked_append, simp_all)
  have un: "(\<Union>zs \<in> insert (xs @ ys) (C - {xs, ys}). set zs) = (\<Union>zs \<in> C. set zs)"
    using assms(2,3) by auto
  have "set zs \<inter> set ws = {}"
    if "zs \<in> insert (xs @ ys) (C - {xs, ys})" "ws \<in> insert (xs @ ys) (C - {xs, ys})" "zs \<noteq> ws" for zs ws
    using that dj [of zs ws] dj [of zs xs] dj [of zs ys] dj [of xs ws] dj [of ys ws] assms(2,3) by auto
  moreover have "linked es' zs \<and> distinct zs" if "zs \<in> insert (xs @ ys) (C - {xs, ys})" for zs
    using that app keep chains_okD(2) [OF assms(1)] by auto
  ultimately show "chains_ok es' (insert (xs @ ys) (C - {xs, ys}))"
    unfolding chains_ok_def un using assms(1) by (simp add: chains_ok_def es'_def)
qed

text \<open>\<open>same_content\<close>: two heaps that differ in the links and sizes only.\<close>

definition same_content :: "uf_entry list \<Rightarrow> uf_entry list \<Rightarrow> bool" where
  "same_content es es' \<longleftrightarrow> length es' = length es \<and>
     (\<forall>i < length es. uf_symbol (es' ! i) = uf_symbol (es ! i) \<and> uf_unbound (es' ! i) = uf_unbound (es ! i) \<and>
        uf_restrictions (es' ! i) = uf_restrictions (es ! i))"

lemma same_content_update: "same_content es (es[i := (es ! i)\<lparr>uf_next := n, uf_size := k\<rparr>])"
  by (cases "i < length es") (simp_all add: same_content_def nth_list_update)

lemma unify_links:
  assumes "chains_ok es C" "xs \<in> C" "ys \<in> C" "xs \<noteq> ys"
    and "uf_unbound (es ! hd xs) = uf_unbound (es ! hd ys)"
  obtains as bs k where "{as, bs} = {xs, ys}" "as \<noteq> bs"
    "unify es (hd xs) (hd ys)
       = Inr (es[last as := (es ! last as)\<lparr>uf_next := Some (hd bs), uf_size := k\<rparr>], hd as)"
proof -
  note x = chains_okD [OF assms(1,2)] and y = chains_okD [OF assms(1,3)]
  have "set xs \<inter> set ys = {}" using assms(1-4) unfolding chains_ok_def by blast
  then have ne: "hd xs \<noteq> hd ys" using x(3) y(3) by (metis disjoint_iff hd_in_set)
  have e: "chain_end (length es) es (hd xs) = Inr (last xs)" "chain_end (length es) es (hd ys) = Inr (last ys)"
    using x y by (intro chain_end_linked, simp, simp)+
  show ?thesis
  proof (cases "uf_size (es ! hd xs) < uf_size (es ! hd ys)")
    case True
    then show ?thesis using that [of ys xs] ne x y e assms(4,5) by (auto simp: unify_def)
  next
    case False
    then show ?thesis using that [of xs ys] ne x y e assms(4,5) by (auto simp: unify_def)
  qed
qed

lemma unify_with_links:
  assumes "chains_ok es C" "table_ok es t C" "xs \<in> C" "ys \<in> C" "xs \<noteq> ys"
    and "uf_unbound (es ! hd xs) = uf_unbound (es ! hd ys)" "t v = Some (hd ys)"
  obtains es' t' zs where "unify_with (hd xs) v (es, t) = Inr (es', t')" "same_content es es'"
    "set zs = set xs \<union> set ys" "chains_ok es' (insert zs (C - {xs, ys}))"
    "table_ok es' t' (insert zs (C - {xs, ys}))"
proof -
  obtain as bs k where ab: "{as, bs} = {xs, ys}" "as \<noteq> bs" and u: "unify es (hd xs) (hd ys)
       = Inr (es[last as := (es ! last as)\<lparr>uf_next := Some (hd bs), uf_size := k\<rparr>], hd as)" (is "_ = Inr (?es, _)")
    by (rule unify_links [OF assms(1,3-6)])
  have m: "as \<in> C" "bs \<in> C" using ab assms(3,4) by (auto simp: doubleton_eq_iff)
  note a = chains_okD [OF assms(1) m(1)] and b = chains_okD [OF assms(1) m(2)]
  note l = link_chains [OF assms(1) m ab(2), of k]
  have sc: "same_content es ?es" by (rule same_content_update)
  let ?t = "\<lambda>v. if v \<in> (\<lambda>i. uf_symbol (es ! i)) ` set bs then Some (hd as) else t v"
  have sy: "uf_symbol (?es ! i) = uf_symbol (es ! i)" if "i < length es" for i
    using sc that by (simp add: same_content_def)
  have ne: "hd as \<noteq> hd bs"
    using assms(1) m ab(2) a(3) b(3) unfolding chains_ok_def by (metis disjoint_iff hd_in_set)
  have img: "(\<lambda>i. uf_symbol (?es ! i)) ` set bs = (\<lambda>i. uf_symbol (es ! i)) ` set bs"
    using linked_bound [OF b(1)] sy by (intro image_cong refl) blast
  have up: "update_table (length ?es) ?es (Some (hd bs)) (hd as) t = Inr ?t"
    using update_table_linked [OF l(2), of "length ?es" "hd as" t] b(6) unfolding img length_list_update by blast
  have uw: "unify_with (hd xs) v (es, t) = Inr (?es, ?t)"
    using ab ne u up assms(7) by (auto simp: unify_with_def doubleton_eq_iff)
  have "table_ok ?es ?t (insert (as @ bs) (C - {as, bs}))"
  proof -
    have ms: "map uf_symbol ?es = map uf_symbol es"
      using sc by (intro nth_equalityI) (simp_all add: same_content_def)
    have inj: "i = j" if "i < length es" "j < length es" "uf_symbol (es ! i) = uf_symbol (es ! j)" for i j
      using assms(2) that nth_eq_iff_index_eq [of "map uf_symbol es" i j] by (simp add: table_ok_def)
    have other: "uf_symbol (es ! i) \<notin> (\<lambda>i. uf_symbol (es ! i)) ` set bs"
      if "zs \<in> C" "zs \<noteq> bs" "i \<in> set zs" for zs i
      using inj linked_bound [OF chains_okD(1) [OF assms(1) that(1)] that(3)] linked_bound [OF b(1)]
        chains_ok_unique [OF assms(1) that(1) m(2) that(3)] that(2) by blast
    have t: "t (uf_symbol (es ! i)) = Some (hd zs)" if "zs \<in> C" "i \<in> set zs" for zs i
      using assms(2) that by (simp add: table_ok_def)
    have "dom ?t = dom t"
      using t [OF m(2)] by (auto simp: dom_def)
    then have d: "dom ?t = uf_symbol ` set ?es"
      using assms(2) arg_cong [OF ms, of set] by (simp add: table_ok_def)
    have "?t (uf_symbol (?es ! i)) = Some (hd zs)"
      if zs: "zs \<in> insert (as @ bs) (C - {as, bs})" and i: "i \<in> set zs" for zs i
    proof -
      have il: "i < length es" using zs i linked_bound a(1) b(1) chains_okD(1) [OF assms(1)] by fastforce
      show ?thesis
      proof (cases "zs = as @ bs")
        case True
        with i t [OF m(1)] other [OF m(1) ab(2)] a(3) show ?thesis unfolding sy [OF il] by auto
      next
        case False
        then have "zs \<in> C" "zs \<noteq> bs" using zs by auto
        with i t other show ?thesis unfolding sy [OF il] by simp
      qed
    qed
    then show ?thesis
      using d assms(2) ms unfolding table_ok_def by simp
  qed
  moreover have "set (as @ bs) = set xs \<union> set ys" using ab by (auto simp: doubleton_eq_iff)
  ultimately show ?thesis using that [OF uw sc, of "as @ bs"] l(1) ab(1) by simp
qed

section \<open>The meaning of a list of constraints\<close>

text \<open>The variables that the alignments of a list of constraints require to be partitioned alike.\<close>

definition alignments :: "constraint list \<Rightarrow> (variable \<times> variable) set" where
  "alignments cs = {(l, r). Alignment l r \<in> set cs}"

definition must_align :: "constraint list \<Rightarrow> (variable \<times> variable) set" where
  "must_align cs = (alignments cs \<union> (alignments cs)\<inverse>)\<^sup>*"

text \<open>What a broadcast or minimum-extent constraint demands of the color shape of a store.\<close>

fun constraint_on :: "constraint \<Rightarrow> variable option" where
  "constraint_on (Broadcast var axes) = Some var"
| "constraint_on (MinExtents var exts) = Some var"
| "constraint_on _ = None"

fun constraint_holds :: "constraint \<Rightarrow> u64 list \<Rightarrow> u64 list \<Rightarrow> bool" where
  "constraint_holds (Broadcast var axes) colors shape \<longleftrightarrow>
     (if axes = [] then \<forall>i < length colors. colors ! i = 1 else \<forall>a \<in> set axes. colors ! a = 1)"
| "constraint_holds (MinExtents var exts) colors shape \<longleftrightarrow> \<not> too_small shape colors exts"
| "constraint_holds _ colors shape \<longleftrightarrow> True"

lemma must_align_equiv:
  "(a, a) \<in> must_align cs" "(a, b) \<in> must_align cs \<Longrightarrow> (b, a) \<in> must_align cs"
  "(a, b) \<in> must_align cs \<Longrightarrow> (b, c) \<in> must_align cs \<Longrightarrow> (a, c) \<in> must_align cs"
proof -
  show "(a, a) \<in> must_align cs" by (simp add: must_align_def)
  have "sym (alignments cs \<union> (alignments cs)\<inverse>)" by (auto simp: sym_def)
  then show "(a, b) \<in> must_align cs \<Longrightarrow> (b, a) \<in> must_align cs"
    unfolding must_align_def by (meson sym_rtrancl symD)
  show "(a, b) \<in> must_align cs \<Longrightarrow> (b, c) \<in> must_align cs \<Longrightarrow> (a, c) \<in> must_align cs"
    unfolding must_align_def by (rule rtrancl_trans)
qed

lemma must_align_mono: "(a, b) \<in> must_align cs \<Longrightarrow> (a, b) \<in> must_align (cs @ ds)"
  unfolding must_align_def by (erule rtrancl_mono [THEN subsetD, rotated]) (auto simp: alignments_def)

lemma must_align_other:
  "(\<And>l r. c \<noteq> Alignment l r \<or> l = r) \<Longrightarrow> must_align (cs @ [c]) = must_align cs"
proof -
  assume c: "\<And>l r. c \<noteq> Alignment l r \<or> l = r"
  have "alignments cs \<subseteq> alignments (cs @ [c])" "alignments (cs @ [c]) \<subseteq> alignments cs \<union> Id"
    using c by (auto simp: alignments_def)
  then have "alignments cs \<union> (alignments cs)\<inverse> \<subseteq> alignments (cs @ [c]) \<union> (alignments (cs @ [c]))\<inverse>"
    "alignments (cs @ [c]) \<union> (alignments (cs @ [c]))\<inverse> \<subseteq> (alignments cs \<union> (alignments cs)\<inverse>)\<^sup>="
    by auto
  from rtrancl_mono [OF this(1)] rtrancl_mono [OF this(2)] show ?thesis by (auto simp: must_align_def)
qed

lemma must_align_snoc:
  "(a, b) \<in> must_align (cs @ [Alignment l r]) \<longleftrightarrow>
     (a, b) \<in> must_align cs \<or> (a, l) \<in> must_align cs \<and> (r, b) \<in> must_align cs \<or> (a, r) \<in> must_align cs \<and> (l, b) \<in> must_align cs"
proof
  let ?A = "alignments (cs @ [Alignment l r])"
  assume "(a, b) \<in> must_align (cs @ [Alignment l r])"
  then have "(a, b) \<in> (?A \<union> ?A\<inverse>)\<^sup>*" by (simp add: must_align_def)
  then show "(a, b) \<in> must_align cs \<or> (a, l) \<in> must_align cs \<and> (r, b) \<in> must_align cs \<or> (a, r) \<in> must_align cs \<and> (l, b) \<in> must_align cs"
  proof (induction rule: rtrancl_induct)
    case (step y z)
    consider "(y, z) \<in> alignments cs \<union> (alignments cs)\<inverse>" | "y = l" "z = r" | "y = r" "z = l"
      using step.hyps(2) by (auto simp: alignments_def)
    then show ?case
    proof cases
      case 1
      then have "(y, z) \<in> must_align cs" by (auto simp: must_align_def)
      with step.IH must_align_equiv(3) show ?thesis by blast
    qed (use step.IH must_align_equiv in blast)+
  qed (use must_align_equiv(1) in blast)
next
  let ?E = "must_align (cs @ [Alignment l r])"
  have "(l, r) \<in> ?E" by (auto simp: must_align_def alignments_def)
  moreover note must_align_mono [of _ _ cs "[Alignment l r]"] must_align_equiv(2,3) [of _ _ "cs @ [Alignment l r]"]
  ultimately show "(a, b) \<in> must_align cs \<or> (a, l) \<in> must_align cs \<and> (r, b) \<in> must_align cs \<or>
      (a, r) \<in> must_align cs \<and> (l, b) \<in> must_align cs \<Longrightarrow> (a, b) \<in> ?E" by meson
qed

lemma must_align_same:
  assumes "(l, r) \<in> must_align cs"
  shows "must_align (cs @ [Alignment l r]) = must_align cs"
proof -
  have "(a, b) \<in> must_align (cs @ [Alignment l r]) \<longleftrightarrow> (a, b) \<in> must_align cs" for a b
    unfolding must_align_snoc using assms must_align_equiv(2) [OF assms] must_align_equiv(3) by metis
  then show ?thesis by auto
qed

end
