(* ===== verification/SolverCorrect.thy ===== *)
theory SolverCorrect
  imports SolverChains
begin

text \<open>
  Correctness of \<open>ConstraintSolver::solve_constraints\<close>: the invariant that every constraint preserves
  while it is reflected to the state, the construction of the equivalence classes, and the three
  properties: the classes are those of the alignments, the restrictions of a class are the
  conjunction of all demands on it, and the solver returns on validated constraints.
\<close>

section \<open>The invariant of the solver\<close>

definition joined :: "uf_entry list \<Rightarrow> nat list set \<Rightarrow> variable \<Rightarrow> variable \<Rightarrow> bool" where
  "joined es C a b \<longleftrightarrow>
     (\<exists>xs \<in> C. a \<in> (\<lambda>i. uf_symbol (es ! i)) ` set xs \<and> b \<in> (\<lambda>i. uf_symbol (es ! i)) ` set xs)"

text \<open>A partition that satisfies the restrictions of all entries of a class satisfies the initial ones
  and the constraints seen so far, and conversely.\<close>

definition class_satisfied ::
  "uf_entry list \<Rightarrow> constraint list \<Rightarrow> uf_entry list \<Rightarrow> nat list \<Rightarrow> bool \<Rightarrow> u64 list \<Rightarrow> u64 list \<Rightarrow> bool" where
  "class_satisfied es0 cs es xs invertible colors shape \<longleftrightarrow>
     ((\<forall>i \<in> set xs. satisfied (uf_restrictions (es ! i)) invertible colors shape) \<longleftrightarrow>
      (\<forall>i \<in> set xs. satisfied (uf_restrictions (es0 ! i)) invertible colors shape \<and>
         (\<forall>c \<in> set cs. constraint_on c = Some (uf_symbol (es0 ! i)) \<longrightarrow> constraint_holds c colors shape)))"

definition shape_ok :: "uf_entry list \<Rightarrow> nat list \<Rightarrow> u64 list \<Rightarrow> u64 list \<Rightarrow> bool" where
  "shape_ok es xs colors shape \<longleftrightarrow> colors \<noteq> [] \<and> 0 \<notin> set colors \<and> length shape = length colors \<and>
     (\<forall>i \<in> set xs. length (dim_restrictions (uf_restrictions (es ! i))) = length colors)"

definition solver_inv ::
  "uf_entry list \<Rightarrow> constraint list \<Rightarrow> uf_entry list \<times> uf_table \<Rightarrow> nat list set \<Rightarrow> bool" where
  "solver_inv es0 cs st C \<longleftrightarrow> (case st of (es, t) \<Rightarrow>
     chains_ok es C \<and> table_ok es t C \<and> same_static es0 es \<and>
     (\<forall>a \<in> uf_symbol ` set es0. \<forall>b \<in> uf_symbol ` set es0. joined es C a b \<longleftrightarrow> (a, b) \<in> must_align cs) \<and>
     (\<forall>xs \<in> C. \<forall>i \<in> set xs. uf_unbound (es ! i) = uf_unbound (es ! hd xs)) \<and>
     (\<forall>e \<in> set es. restrictions_inv (uf_restrictions e)) \<and>
     (\<forall>xs \<in> C. \<forall>iv colors shape. shape_ok es0 xs colors shape \<longrightarrow> class_satisfied es0 cs es xs iv colors shape))"

lemma solver_invD:
  assumes "solver_inv es0 cs (es, t) C"
  shows "chains_ok es C" "table_ok es t C" "same_static es0 es"
    "a \<in> uf_symbol ` set es0 \<Longrightarrow> b \<in> uf_symbol ` set es0 \<Longrightarrow> joined es C a b \<longleftrightarrow> (a, b) \<in> must_align cs"
    "xs \<in> C \<Longrightarrow> i \<in> set xs \<Longrightarrow> uf_unbound (es ! i) = uf_unbound (es ! hd xs)"
    "i < length es \<Longrightarrow> restrictions_inv (uf_restrictions (es ! i))"
    "xs \<in> C \<Longrightarrow> shape_ok es0 xs colors shape \<Longrightarrow> class_satisfied es0 cs es xs iv colors shape"
    "length es = length es0"
    "i < length es0 \<Longrightarrow> uf_symbol (es ! i) = uf_symbol (es0 ! i)"
    "i < length es0 \<Longrightarrow> uf_unbound (es ! i) = uf_unbound (es0 ! i)"
    "i < length es0 \<Longrightarrow> length (dim_restrictions (uf_restrictions (es ! i)))
       = length (dim_restrictions (uf_restrictions (es0 ! i)))"
  using assms unfolding solver_inv_def same_static_def by auto

lemma solver_inv_bound:
  assumes "solver_inv es0 cs (es, t) C" "xs \<in> C" "i \<in> set xs"
  shows "i < length es0"
  using linked_bound [OF chains_okD(1) [OF solver_invD(1) [OF assms(1)] assms(2)] assms(3)]
    solver_invD(8) [OF assms(1)] by simp

text \<open>A constraint that changes no entry: it neither aligns two variables nor restricts one.\<close>

lemma solver_inv_skip:
  assumes inv: "solver_inv es0 cs st C" and c: "\<And>l r. c \<noteq> Alignment l r \<or> l = r" "constraint_on c = None"
  shows "solver_inv es0 (cs @ [c]) st C"
proof -
  have "class_satisfied es0 (cs @ [c]) es xs iv colors shape = class_satisfied es0 cs es xs iv colors shape"
    for es xs iv colors shape
    using c(2) by (simp add: class_satisfied_def)
  then show ?thesis using inv must_align_other [of c cs, OF c(1)] by (cases st) (simp add: solver_inv_def)
qed

text \<open>A constraint that restricts the first entry of the class of its variable.\<close>

lemma solver_inv_restrict:
  assumes inv: "solver_inv es0 cs (es, t) C" and c: "constraint_on c = Some v" "t v = Some h"
    and r: "restrictions_inv r" "length (dim_restrictions r) = length (dim_restrictions (uf_restrictions (es ! h)))"
    and sat: "\<And>iv colors shape. shape_ok es [h] colors shape \<Longrightarrow>
      satisfied r iv colors shape \<longleftrightarrow>
        satisfied (uf_restrictions (es ! h)) iv colors shape \<and> constraint_holds c colors shape"
  shows "solver_inv es0 (cs @ [c]) (es[h := (es ! h)\<lparr>uf_restrictions := r\<rparr>], t) C"
proof -
  let ?es = "es[h := (es ! h)\<lparr>uf_restrictions := r\<rparr>]"
  note I = solver_invD [OF inv]
  obtain zs k where z: "zs \<in> C" "h = hd zs" "k \<in> set zs" "uf_symbol (es ! k) = v"
    by (rule table_ok_lookup [OF I(1,2) c(2)])
  have h: "h < length es" using chains_okD(4) [OF I(1) z(1)] z(2) by simp
  have hz: "h \<in> set zs" using chains_okD(3) [OF I(1) z(1)] z(2) by simp
  have nth: "uf_next (?es ! i) = uf_next (es ! i)" "uf_symbol (?es ! i) = uf_symbol (es ! i)"
    "uf_unbound (?es ! i) = uf_unbound (es ! i)" for i
    using h by (cases "i = h"; simp)+
  have res: "uf_restrictions (?es ! i) = (if i = h then r else uf_restrictions (es ! i))" for i
    using h by simp
  have ms: "map uf_symbol ?es = map uf_symbol es"
    using h by (intro nth_equalityI) (simp_all add: nth)
  have ims: "uf_symbol ` set ?es = uf_symbol ` set es"
    using arg_cong [OF ms, of set] by (simp only: set_map)
  have ch: "chains_ok ?es C"
    using I(1) linked_cong [of ?es es] nth(1) unfolding chains_ok_def by simp
  have tb: "table_ok ?es t C"
    using I(2) unfolding table_ok_def nth(2) ms ims .
  have st: "same_static es0 ?es"
    using I(3) r(2) unfolding same_static_def nth res by auto
  have al: "must_align (cs @ [c]) = must_align cs" by (rule must_align_other) (use c(1) in auto)
  have jo: "joined ?es C = joined es C" by (simp add: joined_def fun_eq_iff nth)
  have ri: "\<forall>e \<in> set ?es. restrictions_inv (uf_restrictions e)"
    using I(6) r(1) res by (auto simp: in_set_conv_nth)
  have cl: "class_satisfied es0 (cs @ [c]) ?es xs iv colors shape"
    if xs: "xs \<in> C" and sh: "shape_ok es0 xs colors shape" for xs iv colors shape
  proof -
    have old: "class_satisfied es0 cs es xs iv colors shape" by (rule I(7) [OF xs sh])
    have bd: "i < length es0" if "i \<in> set xs" for i by (rule solver_inv_bound [OF inv xs that])
    have split: "(\<forall>i \<in> set xs. A i \<and> (\<forall>c \<in> set (cs @ [c]). Q c i)) \<longleftrightarrow>
        (\<forall>i \<in> set xs. A i \<and> (\<forall>c \<in> set cs. Q c i)) \<and> (\<forall>i \<in> set xs. Q c i)" for A Q
      by auto
    show ?thesis
    proof (cases "xs = zs")
      case True
      have "shape_ok es [h] colors shape"
        using sh hz bd I(11) unfolding True shape_ok_def by auto
      note s = sat [OF this, of iv]
      have "(\<forall>i \<in> set xs. satisfied (uf_restrictions (?es ! i)) iv colors shape) \<longleftrightarrow>
          (\<forall>i \<in> set xs. satisfied (uf_restrictions (es ! i)) iv colors shape) \<and> constraint_holds c colors shape"
        unfolding res using s hz True by (auto split: if_splits)
      moreover have k: "uf_symbol (es0 ! k) = v" "k \<in> set xs" using z I(9) bd True by auto
      have "(\<forall>i \<in> set xs. constraint_on c = Some (uf_symbol (es0 ! i)) \<longrightarrow> constraint_holds c colors shape)
          \<longleftrightarrow> constraint_holds c colors shape" using k c(1) by blast
      ultimately show ?thesis using old unfolding class_satisfied_def split by blast
    next
      case False
      have nh: "i \<noteq> h" if "i \<in> set xs" for i
        using chains_ok_unique [OF I(1) xs z(1) that] hz False by auto
      have nv: "uf_symbol (es0 ! i) \<noteq> v" if "i \<in> set xs" for i
      proof
        assume "uf_symbol (es0 ! i) = v"
        then have "uf_symbol (es ! i) = uf_symbol (es ! k)" using z(4) I(9) bd that by simp
        moreover have "distinct (map uf_symbol es)" using I(2) by (simp add: table_ok_def)
        ultimately have "i = k"
          using bd that solver_inv_bound [OF inv z(1,3)] I(8) nth_eq_iff_index_eq [of "map uf_symbol es" i k] by simp
        then show False using chains_ok_unique [OF I(1) xs z(1) that] z(3) False by simp
      qed
      have 1: "(\<forall>i \<in> set xs. satisfied (uf_restrictions (?es ! i)) iv colors shape) \<longleftrightarrow>
          (\<forall>i \<in> set xs. satisfied (uf_restrictions (es ! i)) iv colors shape)"
        unfolding res using nh by (intro ball_cong refl) simp
      have 2: "(\<forall>i \<in> set xs. constraint_on c = Some (uf_symbol (es0 ! i)) \<longrightarrow> constraint_holds c colors shape) = True"
        using nv c(1) by (metis option.inject)
      show ?thesis using old unfolding class_satisfied_def split 1 2 by (simp only: simp_thms)
    qed
  qed
  show ?thesis
    unfolding solver_inv_def prod.case al jo nth
    using ch tb st I(4,5) ri [THEN bspec] cl by (intro conjI ballI allI impI)
qed

text \<open>An alignment: the classes of the two variables are merged.\<close>

lemma solver_inv_align:
  assumes inv: "solver_inv es0 cs (es, t) C"
    and xs: "xs \<in> C" "i \<in> set xs" "uf_symbol (es ! i) = l" and ys: "ys \<in> C" "j \<in> set ys" "uf_symbol (es ! j) = r"
    and ne: "xs \<noteq> ys" "uf_unbound (es ! hd xs) = uf_unbound (es ! hd ys)"
  obtains es' t' D where "unify_with (hd xs) r (es, t) = Inr (es', t')"
    "solver_inv es0 (cs @ [Alignment l r]) (es', t') D"
proof -
  note I = solver_invD [OF inv]
  have tr: "t r = Some (hd ys)" using I(2) ys by (auto simp: table_ok_def)
  obtain es' t' zs where u: "unify_with (hd xs) r (es, t) = Inr (es', t')" and sc: "same_content es es'"
    and zs: "set zs = set xs \<union> set ys" and ch: "chains_ok es' (insert zs (C - {xs, ys}))"
    and tb: "table_ok es' t' (insert zs (C - {xs, ys}))"
    by (rule unify_with_links [OF I(1,2) xs(1) ys(1) ne tr])
  let ?D = "insert zs (C - {xs, ys})"
  have bd: "k < length es" if "ws \<in> C" "k \<in> set ws" for ws k
    using linked_bound [OF chains_okD(1) [OF I(1) that(1)] that(2)] .
  have sy: "uf_symbol (es' ! k) = uf_symbol (es ! k)" "uf_unbound (es' ! k) = uf_unbound (es ! k)"
    "uf_restrictions (es' ! k) = uf_restrictions (es ! k)" if "ws \<in> C" "k \<in> set ws" for ws k
    using sc bd [OF that] by (simp_all add: same_content_def)
  have img: "(\<lambda>k. uf_symbol (es' ! k)) ` set ws = (\<lambda>k. uf_symbol (es ! k)) ` set ws" if "ws \<in> C" for ws
    using sy that by (intro image_cong refl) simp
  let ?S = "\<lambda>ws. (\<lambda>k. uf_symbol (es ! k)) ` set ws"
  have imgz: "(\<lambda>k. uf_symbol (es' ! k)) ` set zs = ?S xs \<union> ?S ys"
    unfolding zs image_Un img [OF xs(1)] img [OF ys(1)] ..
  have st: "same_static es0 es'"
    using I(3) sc unfolding same_static_def same_content_def by auto
  have ri: "restrictions_inv (uf_restrictions e)" if "e \<in> set es'" for e
    using that sc I(6) by (auto simp: in_set_conv_nth same_content_def)
  have ub: "uf_unbound (es' ! k) = uf_unbound (es' ! hd ws)" if ws: "ws \<in> ?D" "k \<in> set ws" for ws k
  proof (cases "ws = zs")
    case True
    have "uf_unbound (es' ! m) = uf_unbound (es ! hd xs)" if "m \<in> set xs \<union> set ys" for m
      using that sy xs(1) ys(1) I(5) ne(2) by (metis UnE)
    moreover have "hd ws \<in> set xs \<union> set ys" using ws(2) zs True by (metis hd_in_set list.set_cases list.distinct(1))
    ultimately show ?thesis using ws(2) zs True by simp
  next
    case False
    then have "ws \<in> C" "hd ws \<in> set ws" using ws chains_okD(3) [OF I(1)] by auto
    then show ?thesis using sy(2) I(5) ws(2) by metis
  qed
  have jo: "joined es' ?D a b \<longleftrightarrow> joined es C a b \<or>
      (joined es C a l \<and> joined es C r b) \<or> (joined es C a r \<and> joined es C l b)" for a b
  proof -
    have S: "?S ws \<inter> ?S ws' = {}" if "ws \<in> C" "ws' \<in> C" "ws \<noteq> ws'" for ws ws'
    proof -
      have "k = k'" if "k < length es" "k' < length es" "uf_symbol (es ! k) = uf_symbol (es ! k')" for k k'
        using I(2) that nth_eq_iff_index_eq [of "map uf_symbol es" k k'] by (simp add: table_ok_def)
      moreover have "set ws \<inter> set ws' = {}" using I(1) that unfolding chains_ok_def by blast
      ultimately show ?thesis using bd that(1,2) by (auto simp: disjoint_iff) (metis)
    qed
    have lx: "l \<in> ?S xs" "r \<in> ?S ys" using xs ys by auto
    have "joined es C a l \<longleftrightarrow> a \<in> ?S xs" "joined es C l b \<longleftrightarrow> b \<in> ?S xs"
      "joined es C r b \<longleftrightarrow> b \<in> ?S ys" "joined es C a r \<longleftrightarrow> a \<in> ?S ys"
      using S xs(1) ys(1) lx unfolding joined_def by blast+
    moreover have "joined es' ?D a b \<longleftrightarrow> (a \<in> ?S xs \<union> ?S ys \<and> b \<in> ?S xs \<union> ?S ys) \<or>
        (\<exists>ws \<in> C - {xs, ys}. a \<in> ?S ws \<and> b \<in> ?S ws)"
      unfolding joined_def using imgz img by (simp add: bex_simps)
    moreover have "joined es C a b \<longleftrightarrow> (a \<in> ?S xs \<and> b \<in> ?S xs) \<or> (a \<in> ?S ys \<and> b \<in> ?S ys) \<or>
        (\<exists>ws \<in> C - {xs, ys}. a \<in> ?S ws \<and> b \<in> ?S ws)"
      unfolding joined_def using xs(1) ys(1) by blast
    ultimately show ?thesis by blast
  qed
  have V: "l \<in> uf_symbol ` set es0" "r \<in> uf_symbol ` set es0"
    using xs ys I(8,9) bd by (metis image_eqI nth_mem)+
  have al: "joined es' ?D a b \<longleftrightarrow> (a, b) \<in> must_align (cs @ [Alignment l r])"
    if "a \<in> uf_symbol ` set es0" "b \<in> uf_symbol ` set es0" for a b
    unfolding jo must_align_snoc using that V I(4) by blast
  have cl: "class_satisfied es0 (cs @ [Alignment l r]) es' ws iv colors shape"
    if ws: "ws \<in> ?D" and sh: "shape_ok es0 ws colors shape" for ws iv colors shape
  proof -
    have eq: "class_satisfied es0 (cs @ [Alignment l r]) es' vs iv colors shape" if "vs \<in> C" "shape_ok es0 vs colors shape" for vs
      using I(7) [OF that, of iv] sy(3) [OF that(1)] by (simp add: class_satisfied_def)
    show ?thesis
    proof (cases "ws = zs")
      case True
      then have "shape_ok es0 xs colors shape" "shape_ok es0 ys colors shape"
        using sh zs by (auto simp: shape_ok_def)
      from eq [OF xs(1) this(1)] eq [OF ys(1) this(2)] show ?thesis
        unfolding True class_satisfied_def zs ball_Un by (simp only: simp_thms)
    qed (use ws sh eq in blast)
  qed
  have "solver_inv es0 (cs @ [Alignment l r]) (es', t') ?D"
    unfolding solver_inv_def prod.case using ch tb st al ub ri cl by (intro conjI ballI allI impI)
  then show ?thesis by (rule that [OF u])
qed

text \<open>The broadcast of a list of axes.\<close>

lemma restrict_dimensions:
  assumes "rfoldM restrict_dimension axes r = Inr r'" "restrictions_inv r"
  shows "restrictions_inv r' \<and> length (dim_restrictions r') = length (dim_restrictions r) \<and>
    (length colors = length (dim_restrictions r) \<longrightarrow>
       (satisfied r' iv colors shape \<longleftrightarrow> satisfied r iv colors shape \<and> (\<forall>a \<in> set axes. colors ! a = 1)))"
  using assms
proof (induction axes arbitrary: r)
  case (Cons a axes)
  from Cons.prems(1) obtain r1 where r1: "restrict_dimension a r = Inr r1" "rfoldM restrict_dimension axes r1 = Inr r'"
    by (auto simp: rbind_eq_Inr)
  have len: "length (dim_restrictions r1) = length (dim_restrictions r)"
    using r1(1) by (auto simp: restrict_dimension_def rguard_eq_Inr)
  show ?case
    using Cons.IH [OF r1(2) restrict_dimension_inv [OF Cons.prems(2) r1(1)]] len
      satisfied_restrict_dimension(1) [OF r1(1), of colors iv shape] by auto
qed simp

lemma restrict_dimensions_total:
  "\<forall>a \<in> set axes. a < length (dim_restrictions r) \<Longrightarrow> \<exists>r'. rfoldM restrict_dimension axes r = Inr r'"
  by (induction axes arbitrary: r) (auto simp: restrict_dimension_def)

section \<open>One constraint after the other\<close>

text \<open>What a constraint needs to be reflected without an error: its variables have entries, aligned
  variables agree on being unbound and on the number of dimensions, and the axes and the minimum
  extents fit the store.\<close>

fun constraint_fits :: "(variable \<Rightarrow> lstore) \<Rightarrow> variable set \<Rightarrow> constraint \<Rightarrow> bool" where
  "constraint_fits fs V (Alignment l r) \<longleftrightarrow> l = r \<or>
     l \<in> V \<and> r \<in> V \<and> ls_unbound (fs l) = ls_unbound (fs r) \<and> ls_dim (fs l) = ls_dim (fs r)"
| "constraint_fits fs V (Broadcast v axes) \<longleftrightarrow> v \<in> V \<and> (\<forall>a \<in> set axes. a < ls_dim (fs v))"
| "constraint_fits fs V (MinExtents v exts) \<longleftrightarrow> v \<in> V \<and> length exts = ls_dim (fs v)"
| "constraint_fits fs V _ \<longleftrightarrow> True"

definition entries_for :: "(variable \<Rightarrow> lstore) \<Rightarrow> uf_entry list \<Rightarrow> bool" where
  "entries_for fs es \<longleftrightarrow> (\<forall>e \<in> set es. uf_unbound e = ls_unbound (fs (uf_symbol e)) \<and>
     length (dim_restrictions (uf_restrictions e)) = ls_dim (fs (uf_symbol e)))"

lemma must_align_dim:
  assumes "(a, b) \<in> must_align cs" "\<forall>c \<in> set cs. constraint_fits fs V c"
  shows "ls_dim (fs a) = ls_dim (fs b)"
proof -
  have "(a, b) \<in> (alignments cs \<union> (alignments cs)\<inverse>)\<^sup>*" using assms(1) by (simp add: must_align_def)
  then show ?thesis
  proof (induction rule: rtrancl_induct)
    case (step y z)
    then have "Alignment y z \<in> set cs \<or> Alignment z y \<in> set cs" by (auto simp: alignments_def)
    then have "ls_dim (fs y) = ls_dim (fs z)" using assms(2) by (metis constraint_fits.simps(1))
    then show ?case using step.IH by simp
  qed simp
qed

lemma reflect_align:
  assumes inv: "solver_inv es0 cs (es, t) C" and "l \<noteq> r"
    and r: "t l = Some h" "t r = Some h'" and ub: "uf_unbound (es ! h) = uf_unbound (es ! h')"
  shows "\<exists>st' D. reflect (Alignment l r) (es, t) = Inr st' \<and> solver_inv es0 (cs @ [Alignment l r]) st' D"
proof -
  note I = solver_invD [OF inv]
  obtain xs i where x: "xs \<in> C" "h = hd xs" "i \<in> set xs" "uf_symbol (es ! i) = l"
    by (rule table_ok_lookup [OF I(1,2) r(1)])
  obtain ys j where y: "ys \<in> C" "h' = hd ys" "j \<in> set ys" "uf_symbol (es ! j) = r"
    by (rule table_ok_lookup [OF I(1,2) r(2)])
  have red: "reflect (Alignment l r) (es, t) = rbind (unify_with (hd xs) r (es, t)) Inr"
    using assms(2) r(1) x(2) by (simp add: alignment_is_trivial_def handle_alignment_def)
  show ?thesis
  proof (cases "xs = ys")
    case True
    have "unify_with (hd xs) r (es, t) = Inr (es, t)"
      using r(2) y(2) True by (simp add: unify_with_def unify_def)
    moreover have "solver_inv es0 (cs @ [Alignment l r]) (es, t) C"
    proof -
      have bd: "k < length es" if "k \<in> set xs" for k
        using linked_bound [OF chains_okD(1) [OF I(1) x(1)] that] .
      have V: "l \<in> uf_symbol ` set es0" "r \<in> uf_symbol ` set es0"
        using x y True I(8,9) bd by (metis image_eqI nth_mem)+
      have "joined es C l r" using x y True by (auto simp: joined_def)
      then have lr: "(l, r) \<in> must_align cs" using I(4) [OF V] by simp
      have "must_align (cs @ [Alignment l r]) = must_align cs"
        by (rule must_align_same [OF lr])
      moreover have "class_satisfied es0 (cs @ [Alignment l r]) es ws iv colors shape = class_satisfied es0 cs es ws iv colors shape"
        for ws iv colors shape by (simp add: class_satisfied_def)
      ultimately show ?thesis using inv by (simp add: solver_inv_def)
    qed
    ultimately show ?thesis unfolding red by auto
  next
    case False
    obtain es' t' D where "unify_with (hd xs) r (es, t) = Inr (es', t')" "solver_inv es0 (cs @ [Alignment l r]) (es', t') D"
      using solver_inv_align [OF inv x(1,3,4) y(1,3,4) False] ub x(2) y(2) by blast
    then show ?thesis unfolding red by auto
  qed
qed

lemma broadcast_restricts:
  assumes "(if axes = [] then Inr (restrict_all_dimensions r) else rfoldM restrict_dimension axes r) = Inr r'"
    and "restrictions_inv r"
  shows "restrictions_inv r' \<and> length (dim_restrictions r') = length (dim_restrictions r) \<and>
    (length colors = length (dim_restrictions r) \<longrightarrow>
       (satisfied r' iv colors shape \<longleftrightarrow> satisfied r iv colors shape \<and> constraint_holds (Broadcast v axes) colors shape))"
proof (cases "axes = []")
  case True
  then have "r' = restrict_all_dimensions r" using assms(1) by simp
  then show ?thesis using True restrict_all_dimensions_inv [OF assms(2)]
    by (simp add: satisfied_restrict_all) (simp add: restrict_all_dimensions_def)
next
  case False
  then show ?thesis using restrict_dimensions [of axes r r' colors iv shape] assms by simp
qed

lemma reflect_step:
  assumes inv: "solver_inv es0 cs st C" and r: "reflect c st = Inr st'"
  shows "\<exists>D. solver_inv es0 (cs @ [c]) st' D"
proof (cases st)
  case (Pair es t)
  note inv' = inv [unfolded Pair] and r' = r [unfolded Pair] and I = solver_invD [OF inv [unfolded Pair]]
  have ri: "restrictions_inv (uf_restrictions (es ! h))" if "h < length es" for h by (rule I(6) [OF that])
  show ?thesis
  proof (cases c)
    case (Alignment lhs rhs)
    show ?thesis
    proof (cases "lhs = rhs")
      case True
      then show ?thesis using r' Alignment solver_inv_skip [OF inv', of c] by (auto simp: alignment_is_trivial_def)
    next
      case False
      with r' Alignment obtain h h' where h: "t lhs = Some h" "t rhs = Some h'"
        by (auto simp: alignment_is_trivial_def handle_alignment_def unify_with_def rbind_eq_Inr
            split: option.splits)
      have "uf_unbound (es ! h) = uf_unbound (es ! h')"
        using r' Alignment False h
        by (auto simp: alignment_is_trivial_def handle_alignment_def unify_with_def unify_def rbind_eq_Inr
            rguard_eq_Inr vec_get_eq_Inr split: option.splits if_splits)
      from reflect_align [OF inv' False h this] r' Alignment show ?thesis by auto
    qed
  next
    case (Broadcast v axes)
    from r' Broadcast obtain h q where h: "t v = Some h" "h < length es"
      "(if axes = [] then Inr (restrict_all_dimensions (uf_restrictions (es ! h)))
        else rfoldM restrict_dimension axes (uf_restrictions (es ! h))) = Inr q"
      "st' = (es[h := (es ! h)\<lparr>uf_restrictions := q\<rparr>], t)"
      by (auto simp: handle_broadcast_def rbind_eq_Inr vec_get_eq_Inr split: option.splits)
    note b = broadcast_restricts [OF h(3) ri [OF h(2)]]
    have "solver_inv es0 (cs @ [c]) st' C"
      unfolding h(4) using b by (intro solver_inv_restrict [OF inv' _ h(1)]) (auto simp: Broadcast shape_ok_def)
    then show ?thesis ..
  next
    case (MinExtents v exts)
    from r' MinExtents obtain h q where h: "t v = Some h" "h < length es"
      "apply_minimum_extents exts (uf_restrictions (es ! h)) = Inr q"
      "st' = (es[h := (es ! h)\<lparr>uf_restrictions := q\<rparr>], t)"
      by (auto simp: handle_min_extents_def rbind_eq_Inr vec_get_eq_Inr split: option.splits)
    have q: "restrictions_inv q"
      using apply_minimum_extents_inv [OF h(3)] ri [OF h(2)] by (simp add: restrictions_inv_def)
    have d: "dim_restrictions q = dim_restrictions (uf_restrictions (es ! h))"
      using h(3) by (auto simp: apply_minimum_extents_def rguard_eq_Inr cache_needs_minimum_extent_check_def)
    have "solver_inv es0 (cs @ [c]) st' C"
      unfolding h(4) using satisfied_minimum_extents(1) [OF h(3) ri [OF h(2)]]
      by (intro solver_inv_restrict [OF inv' _ h(1) q]) (auto simp: MinExtents shape_ok_def d)
    then show ?thesis ..
  qed (use r' solver_inv_skip [OF inv', of c] in auto)
qed

lemma reflect_total:
  assumes inv: "solver_inv es0 cs (es, t) C" and en: "entries_for fs es0"
    and V: "uf_symbol ` set es0 = V" and fits: "\<forall>c \<in> set cs. constraint_fits fs V c" "constraint_fits fs V c"
  shows "\<exists>st'. reflect c (es, t) = Inr st'"
proof -
  note I = solver_invD [OF inv]
  have look: "\<exists>h. t v = Some h \<and> h < length es \<and> uf_unbound (es ! h) = ls_unbound (fs v) \<and>
      length (dim_restrictions (uf_restrictions (es ! h))) = ls_dim (fs v)" if v: "v \<in> V" for v
  proof -
    obtain i where i: "i < length es0" "uf_symbol (es0 ! i) = v"
      using v V by (metis imageE in_set_conv_nth)
    obtain xs where x: "xs \<in> C" "i \<in> set xs" using chains_ok_find [OF I(1)] i I(8) by metis
    have h: "hd xs < length es" "hd xs \<in> set xs"
      using chains_okD(3,4) [OF I(1) x(1)] by simp_all
    have "uf_symbol (es ! i) = v" using I(9) [OF i(1)] i(2) by simp
    then have "t v = Some (hd xs)" using I(2) x unfolding table_ok_def by blast
    moreover have "uf_unbound (es ! hd xs) = ls_unbound (fs v)"
      using I(5) [OF x] I(10) [OF i(1)] en i by (auto simp: entries_for_def)
    moreover have "length (dim_restrictions (uf_restrictions (es ! hd xs))) = ls_dim (fs v)"
    proof -
      have m: "uf_symbol (es0 ! hd xs) \<in> uf_symbol ` set es0" "v \<in> uf_symbol ` set es0"
        using v V by simp_all (use h(1) I(8) V in \<open>metis image_eqI nth_mem\<close>)
      have "joined es C (uf_symbol (es0 ! hd xs)) v"
        unfolding joined_def using x h i I(8,9) by (intro bexI [OF _ x(1)]) (metis image_eqI)
      then have "(uf_symbol (es0 ! hd xs), v) \<in> must_align cs" using I(4) [OF m] by simp
      from must_align_dim [OF this fits(1)] show ?thesis
        using en h(1) I(8,11) by (simp add: entries_for_def)
    qed
    ultimately show ?thesis using h(1) by blast
  qed
  show ?thesis
  proof (cases c)
    case (Alignment l r)
    show ?thesis
    proof (cases "l = r")
      case False
      with fits(2) Alignment have "l \<in> V" "r \<in> V" "ls_unbound (fs l) = ls_unbound (fs r)" by auto
      then show ?thesis using reflect_align [OF inv False] look [of l] look [of r] Alignment by metis
    qed (simp add: Alignment alignment_is_trivial_def)
  next
    case (Broadcast v axes)
    then obtain h where "t v = Some h" "h < length es" "\<forall>a \<in> set axes. a < length (dim_restrictions (uf_restrictions (es ! h)))"
      using fits(2) look [of v] by auto
    then show ?thesis using restrict_dimensions_total [of axes "uf_restrictions (es ! h)"] Broadcast
      by (auto simp: handle_broadcast_def)
  next
    case (MinExtents v exts)
    then obtain h where "t v = Some h" "h < length es" "length exts = length (dim_restrictions (uf_restrictions (es ! h)))"
      using fits(2) look [of v] by auto
    then show ?thesis using MinExtents I(6) [of h]
      by (auto simp: handle_min_extents_def apply_minimum_extents_def restrictions_inv_def)
  qed auto
qed

lemma rfoldM_reflect:
  assumes "solver_inv es0 cs st C" "rfoldM reflect ds st = Inr st'"
  shows "\<exists>D. solver_inv es0 (cs @ ds) st' D"
  using assms
proof (induction ds arbitrary: cs st C)
  case (Cons c ds)
  from Cons.prems(2) obtain st1 where 1: "reflect c st = Inr st1" "rfoldM reflect ds st1 = Inr st'"
    by (auto simp: rbind_eq_Inr)
  obtain D where "solver_inv es0 (cs @ [c]) st1 D" using reflect_step [OF Cons.prems(1) 1(1)] by blast
  from Cons.IH [OF this 1(2)] show ?case by simp
qed auto

lemma rfoldM_reflect_total:
  assumes "solver_inv es0 cs st C" "entries_for fs es0" "uf_symbol ` set es0 = V"
    and "\<forall>c \<in> set (cs @ ds). constraint_fits fs V c"
  shows "\<exists>st'. rfoldM reflect ds st = Inr st'"
  using assms
proof (induction ds arbitrary: cs st C)
  case (Cons c ds)
  obtain st1 where 1: "reflect c st = Inr st1"
    using reflect_total [of es0 cs "fst st" "snd st" C fs V c] Cons.prems by auto
  obtain D where "solver_inv es0 (cs @ [c]) st1 D" using reflect_step [OF Cons.prems(1) 1] by blast
  from Cons.IH [OF this Cons.prems(2,3)] Cons.prems(4) 1 show ?case by simp
qed simp

section \<open>The first entries\<close>

lemma t_convert_inv: "restrictions_inv r \<Longrightarrow> t_convert t b r = Inr r' \<Longrightarrow> restrictions_inv r'"
proof (cases t)
  case (Delinearize d sizes)
  assume "restrictions_inv r" "t_convert t b r = Inr r'"
  then show ?thesis unfolding Delinearize
    by (auto simp: delinearize_convert_def delinearize_convert_dims_def delinearize_convert_exts_def Let_def
        rguard_eq_Inr restrictions_inv_def elim!: restrictions_map_inv [simplified restrictions_inv_def])
qed (auto simp: shift_convert_def promote_convert_def project_convert_def broadcast_convert_def transpose_convert_def
    restrictions_inv_def array_map_def vec_eq_Inr elim!: restrictions_map_inv [simplified restrictions_inv_def])

lemma stack_convert_inv:
  "restrictions_inv r \<Longrightarrow> stack_convert ts r b = Inr r' \<Longrightarrow> restrictions_inv r'"
  unfolding stack_convert_def
proof (induction ts arbitrary: r')
  case (Cons t ts)
  then show ?case by (cases "ts = []") (auto simp: rbind_eq_Inr dest: t_convert_inv)
qed simp

lemma compute_restrictions_inv:
  assumes "compute_restrictions st b = Inr r"
  shows "restrictions_inv r"
proof -
  obtain q where "stack_convert (ls_transform st) (restrictions_ndim (ls_storage_dim st)) b = Inr q"
    "r = set_require_invertible (ls_transformed st) q"
    using assms by (auto simp: compute_restrictions_def storage_compute_restrictions_def rbind_eq_Inr)
  with stack_convert_inv [OF restrictions_inv_ndim] show ?thesis
    by (simp add: restrictions_inv_def set_require_invertible_def)
qed

text \<open>The entry a symbol starts with.\<close>

definition first_entry :: "(variable \<Rightarrow> lstore) \<Rightarrow> solver \<Rightarrow> variable \<Rightarrow> uf_entry" where
  "first_entry fs s v =
     \<lparr>uf_unbound = ls_unbound (fs v), uf_symbol = v,
      uf_restrictions = projr (rbind (is_output s v) (compute_restrictions (fs v))), uf_next = None, uf_size = 1\<rparr>"

lemma init_entry_eq:
  "init_entry fs s v (es, t) = rbind (rbind (is_output s v) (compute_restrictions (fs v))) (\<lambda>r.
     Inr (es @ [first_entry fs s v], map_insert v (length es) t))"
  by (auto simp: init_entry_def first_entry_def rbind_def split: sum.splits)

lemma init_entries:
  assumes "rfoldM (init_entry fs s) vs ([], Map.empty) = Inr (es, t)" "distinct vs"
  shows "es = map (first_entry fs s) vs" "t = map_of (zip vs [0..<length vs])"
    "\<forall>v \<in> set vs. \<exists>r. rbind (is_output s v) (compute_restrictions (fs v)) = Inr r"
proof -
  have gen: "rfoldM (init_entry fs s) ws (map (first_entry fs s) us, map_of (zip us [0..<length us])) = Inr (es, t) \<Longrightarrow>
      distinct (us @ ws) \<Longrightarrow> es = map (first_entry fs s) (us @ ws) \<and> t = map_of (zip (us @ ws) [0..<length (us @ ws)]) \<and>
      (\<forall>v \<in> set ws. \<exists>r. rbind (is_output s v) (compute_restrictions (fs v)) = Inr r)" for us ws
  proof (induction ws arbitrary: us)
    case (Cons v ws)
    from Cons.prems(1) obtain out r where o: "is_output s v = Inr out" "compute_restrictions (fs v) out = Inr r"
      "rfoldM (init_entry fs s) ws (map (first_entry fs s) us @ [first_entry fs s v],
         map_insert v (length us) (map_of (zip us [0..<length us]))) = Inr (es, t)"
      by (auto simp: init_entry_eq rbind_eq_Inr)
    have N: "map_of (zip us [0..<length us]) v = None" using Cons.prems(2) by (auto simp: map_of_eq_None_iff dest: set_zip_leftD)
    have "map_insert v (length us) (map_of (zip us [0..<length us]))
        = map_of (zip (us @ [v]) [0..<length (us @ [v])])"
    proof (rule ext)
      fix x show "map_insert v (length us) (map_of (zip us [0..<length us])) x
          = map_of (zip (us @ [v]) [0..<length (us @ [v])]) x"
        by (cases "x = v") (simp_all add: N map_insert_def map_add_def split: option.split)
    qed
    with o(3) Cons.IH [of "us @ [v]"] Cons.prems(2) o(1,2) show ?case by simp
  qed simp
  from gen [of vs "[]"] assms show "es = map (first_entry fs s) vs" "t = map_of (zip vs [0..<length vs])"
    "\<forall>v \<in> set vs. \<exists>r. rbind (is_output s v) (compute_restrictions (fs v)) = Inr r" by auto
qed

lemma init_entries_total:
  assumes "\<forall>v \<in> set vs. \<exists>r. rbind (is_output s v) (compute_restrictions (fs v)) = Inr r"
  shows "\<exists>st'. rfoldM (init_entry fs s) vs st = Inr st'"
  using assms
proof (induction vs arbitrary: st)
  case (Cons v vs)
  then obtain r out where "is_output s v = Inr out" "compute_restrictions (fs v) out = Inr r" by (auto simp: rbind_eq_Inr)
  with Cons show ?case by (cases st) (auto simp: init_entry_eq)
qed simp

lemma solver_inv_init:
  assumes "rfoldM (init_entry fs s) vs ([], Map.empty) = Inr (es, t)" "distinct vs"
  shows "solver_inv es [] (es, t) ((\<lambda>i. [i]) ` {..<length es})" "uf_symbol ` set es = set vs"
proof -
  note e = init_entries [OF assms]
  have len: "length es = length vs" by (simp add: e(1))
  have sy: "map uf_symbol es = vs" unfolding e(1) by (simp add: comp_def first_entry_def)
  then have nth: "uf_symbol (es ! i) = vs ! i" if "i < length vs" for i
    using that len by (metis nth_map)
  show V: "uf_symbol ` set es = set vs" using sy by (metis set_map)
  let ?C = "(\<lambda>i. [i]) ` {..<length es}"
  have ch: "chains_ok es ?C" by (auto simp: chains_ok_def e(1) first_entry_def)
  have tn: "t (vs ! i) = Some i" if "i < length vs" for i
    unfolding e(2) using that assms(2) by (intro map_of_is_SomeI) (auto simp: set_zip)
  have dt: "dom t = set vs" unfolding e(2) by (simp add: dom_map_of_conv_image_fst) (metis length_upt map_fst_zip minus_nat.diff_0 set_map)
  have tb: "table_ok es t ?C" using sy assms(2) V dt tn nth len by (auto simp: table_ok_def)
  have jo: "joined es ?C a b \<longleftrightarrow> (a, b) \<in> must_align []" if "a \<in> set vs" "b \<in> set vs" for a b
  proof -
    have "must_align [] = Id" by (simp add: must_align_def alignments_def)
    moreover have "joined es ?C a b \<longleftrightarrow> a = b"
      unfolding joined_def using that len nth by (auto simp: in_set_conv_nth)
    ultimately show ?thesis by simp
  qed
  have ri: "restrictions_inv (uf_restrictions e)" if "e \<in> set es" for e
  proof -
    obtain v where v: "v \<in> set vs" "e = first_entry fs s v" using \<open>e \<in> set es\<close> e(1) by auto
    then obtain out r where "is_output s v = Inr out" "compute_restrictions (fs v) out = Inr r" "uf_restrictions e = r"
      using e(3) by (fastforce simp: rbind_eq_Inr first_entry_def)
    then show ?thesis using compute_restrictions_inv by blast
  qed
  show "solver_inv es [] (es, t) ?C"
    using ch tb jo ri by (auto simp: solver_inv_def V same_static_def class_satisfied_def)
qed

section \<open>The classes\<close>

lemma join_chain_linked:
  assumes "xs \<noteq> [] \<longrightarrow> linked es xs" "length xs \<le> n" "\<forall>i < length es. restrictions_inv (uf_restrictions (es ! i))"
    and "restrictions_inv r"
    and "join_chain n es (if xs = [] then None else Some (hd xs)) symbs r = Inr (symbs', r')"
  shows "symbs' = symbs @ map (\<lambda>i. uf_symbol (es ! i)) xs \<and> restrictions_inv r' \<and>
    length (dim_restrictions r') = length (dim_restrictions r) \<and>
    (\<forall>i \<in> set xs. length (dim_restrictions (uf_restrictions (es ! i))) = length (dim_restrictions r)) \<and>
    (colors \<noteq> [] \<longrightarrow> 0 \<notin> set colors \<longrightarrow> length shape = length colors \<longrightarrow> length colors = length (dim_restrictions r) \<longrightarrow>
      (satisfied r' iv colors shape \<longleftrightarrow> satisfied r iv colors shape \<and>
        (\<forall>i \<in> set xs. satisfied (uf_restrictions (es ! i)) iv colors shape)))"
  using assms
proof (induction xs arbitrary: n symbs r)
  case (Cons i xs)
  let ?r = "uf_restrictions (es ! i)"
  have l: "i < length es" "uf_next (es ! i) = (if xs = [] then None else Some (hd xs))" "xs \<noteq> [] \<longrightarrow> linked es xs"
    using Cons.prems(1) by (auto simp: linked_Cons)
  obtain m where n: "n = Suc m" using Cons.prems(2) by (cases n) auto
  obtain r1 where r1: "join_inplace r ?r = Inr r1"
    "join_chain m es (if xs = [] then None else Some (hd xs)) (symbs @ [uf_symbol (es ! i)]) r1 = Inr (symbs', r')"
    using Cons.prems(5) l unfolding n by (auto simp: rbind_eq_Inr split: if_splits)
  have ri: "restrictions_inv ?r" using Cons.prems(3) l(1) by blast
  have r1i: "restrictions_inv r1" by (rule join_inplace_inv [OF Cons.prems(4) ri r1(1)])
  note d = join_inplace_dims [OF r1(1)]
  note IH = Cons.IH [OF l(3) _ Cons.prems(3) r1i r1(2)]
  have "satisfied r1 iv colors shape \<longleftrightarrow> satisfied r iv colors shape \<and> satisfied ?r iv colors shape"
    if "colors \<noteq> []" "0 \<notin> set colors" "length shape = length colors" "length colors = length (dim_restrictions r)"
    using that d(1) by (intro satisfied_join [OF Cons.prems(4) ri _ _ _ _ r1(1)]) auto
  then show ?case using IH Cons.prems(2) d n by auto
qed (simp split: if_splits)

lemma join_chain_total:
  assumes "xs \<noteq> [] \<longrightarrow> linked es xs" "length xs \<le> n" "\<forall>i < length es. restrictions_inv (uf_restrictions (es ! i))"
    and "restrictions_inv r"
    and "\<forall>i \<in> set xs. length (dim_restrictions (uf_restrictions (es ! i))) = length (dim_restrictions r)"
  shows "\<exists>x. join_chain n es (if xs = [] then None else Some (hd xs)) symbs r = Inr x"
  using assms
proof (induction xs arbitrary: n symbs r)
  case (Cons i xs)
  let ?r = "uf_restrictions (es ! i)"
  have l: "i < length es" "uf_next (es ! i) = (if xs = [] then None else Some (hd xs))" "xs \<noteq> [] \<longrightarrow> linked es xs"
    using Cons.prems(1) by (auto simp: linked_Cons)
  obtain m where n: "n = Suc m" using Cons.prems(2) by (cases n) auto
  have ri: "restrictions_inv ?r" using Cons.prems(3) l(1) by blast
  obtain r1 where r1: "join_inplace r ?r = Inr r1"
    using join_inplace_total [OF Cons.prems(4) ri] Cons.prems(5) by auto
  have "\<exists>x. join_chain m es (if xs = [] then None else Some (hd xs)) (symbs @ [uf_symbol (es ! i)]) r1 = Inr x"
    using Cons.IH [OF l(3) _ Cons.prems(3) join_inplace_inv [OF Cons.prems(4) ri r1]] Cons.prems(2,5)
      join_inplace_dims(3) [OF r1] n by simp
  then show ?case using l r1 by (simp add: n split: if_splits)
qed simp

lemma mk_equiv_class_linked:
  assumes "linked es xs" "length xs \<le> length es" "\<forall>i < length es. restrictions_inv (uf_restrictions (es ! i))"
    and "mk_equiv_class es (hd xs) = Inr ec"
  shows "ec_symbols ec = map (\<lambda>i. uf_symbol (es ! i)) xs \<and> restrictions_inv (ec_restrictions ec) \<and>
    ec_unbound ec = uf_unbound (es ! hd xs) \<and>
    (\<forall>i \<in> set xs. length (dim_restrictions (uf_restrictions (es ! i))) = length (dim_restrictions (ec_restrictions ec))) \<and>
    (colors \<noteq> [] \<longrightarrow> 0 \<notin> set colors \<longrightarrow> length shape = length colors \<longrightarrow>
      length colors = length (dim_restrictions (ec_restrictions ec)) \<longrightarrow>
      (satisfied (ec_restrictions ec) iv colors shape \<longleftrightarrow>
        (\<forall>i \<in> set xs. satisfied (uf_restrictions (es ! i)) iv colors shape)))"
proof -
  obtain i ys where xs: "xs = i # ys" using assms(1) by (cases xs) auto
  have l: "i < length es" "uf_next (es ! i) = (if ys = [] then None else Some (hd ys))" "ys \<noteq> [] \<longrightarrow> linked es ys"
    using assms(1) by (auto simp: linked_Cons xs)
  obtain symbs r where j: "join_chain (length es) es (if ys = [] then None else Some (hd ys)) [uf_symbol (es ! i)]
      (uf_restrictions (es ! i)) = Inr (symbs, r)" "ec_symbols ec = symbs" "ec_restrictions ec = r"
    "ec_unbound ec = uf_unbound (es ! i)"
    using assms(4) l by (auto simp: mk_equiv_class_def xs rbind_eq_Inr)
  from join_chain_linked [OF l(3) _ assms(3) _ j(1), of colors shape iv] assms(2,3) l(1)
  show ?thesis by (auto simp: xs j)
qed

lemma mk_equiv_class_total:
  assumes "linked es xs" "length xs \<le> length es" "\<forall>i < length es. restrictions_inv (uf_restrictions (es ! i))"
    and "\<forall>i \<in> set xs. length (dim_restrictions (uf_restrictions (es ! i))) = d"
  shows "\<exists>ec. mk_equiv_class es (hd xs) = Inr ec"
proof -
  obtain i ys where xs: "xs = i # ys" using assms(1) by (cases xs) auto
  have l: "i < length es" "uf_next (es ! i) = (if ys = [] then None else Some (hd ys))" "ys \<noteq> [] \<longrightarrow> linked es ys"
    using assms(1) by (auto simp: linked_Cons xs)
  have "\<exists>x. join_chain (length es) es (uf_next (es ! i)) [uf_symbol (es ! i)] (uf_restrictions (es ! i)) = Inr x"
    unfolding l(2) using l assms(2-4) by (intro join_chain_total) (auto simp: xs)
  then show ?thesis using l(1) by (auto simp: mk_equiv_class_def xs)
qed

lemma record_class_apply:
  "record_class k ec m v = (if m v = None \<and> v \<in> set (ec_symbols ec) then Some k else m v)"
proof -
  have "fold (\<lambda>symb. map_insert symb k) vs m v = (if m v = None \<and> v \<in> set vs then Some k else m v)" for vs
    by (induction vs arbitrary: m) (auto simp: map_insert_def)
  then show ?thesis by (simp add: record_class_def)
qed

lemma record_classes:
  assumes "m v = None" "k < length ecs" "\<forall>j < length ecs. v \<in> set (ec_symbols (ecs ! j)) \<longleftrightarrow> j = k"
  shows "fold (\<lambda>(k, ec). record_class k ec) (enumerate n ecs) m v = Some (n + k)"
proof -
  have keep: "fold (\<lambda>(k, ec). record_class k ec) (enumerate n ecs) m v = Some x" if "m v = Some x" for n ecs m x
    using that by (induction ecs arbitrary: n m) (auto simp: record_class_apply)
  show ?thesis using assms
  proof (induction ecs arbitrary: n m k)
    case (Cons ec ecs)
    show ?case
    proof (cases k)
      case 0
      then have "v \<in> set (ec_symbols ec)" using Cons.prems(3) by fastforce
      then have "record_class n ec m v = Some n" using Cons.prems(1) by (simp add: record_class_apply)
      from keep [where m = "record_class n ec m" and n = "Suc n" and ecs = ecs, OF this] show ?thesis by (simp add: 0)
    next
      case (Suc j)
      then have "v \<notin> set (ec_symbols ec)" using Cons.prems(3) by fastforce
      then have "record_class n ec m v = None" using Cons.prems(1) by (simp add: record_class_apply)
      moreover have "\<forall>i < length ecs. v \<in> set (ec_symbols (ecs ! i)) \<longleftrightarrow> i = j"
        using Cons.prems(3) Suc by (metis Suc_inject Suc_less_eq length_Cons nth_Cons_Suc)
      ultimately show ?thesis using Cons.IH [of "record_class n ec m" j "Suc n"] Cons.prems(2) Suc by simp
    qed
  qed simp
qed

text \<open>The order in which an unordered set is walked: each element once.\<close>

definition walk_ok :: "(nat set \<Rightarrow> nat list) \<Rightarrow> bool" where
  "walk_ok walk \<longleftrightarrow> (\<forall>S. finite S \<longrightarrow> set (walk S) = S \<and> distinct (walk S))"

lemma rmapM_nth: "rmapM f xs = Inr ys \<Longrightarrow> i < length xs \<Longrightarrow> f (xs ! i) = Inr (ys ! i)"
proof (induction xs arbitrary: ys i)
  case (Cons x xs)
  then show ?case by (cases i) (auto simp: rbind_eq_Inr)
qed simp

lemma table_heads:
  assumes "solver_inv es0 cs (es, t) C" "uf_symbol ` set es0 = set vs"
  shows "set (List.map_filter t vs) = hd ` C"
proof
  note I = solver_invD [OF assms(1)]
  show "set (List.map_filter t vs) \<subseteq> hd ` C"
  proof
    fix h assume "h \<in> set (List.map_filter t vs)"
    then obtain v where "t v = Some h" by (auto simp: List.map_filter_def)
    then obtain xs where "xs \<in> C" "h = hd xs" by (rule table_ok_lookup [OF I(1,2)])
    then show "h \<in> hd ` C" by blast
  qed
  show "hd ` C \<subseteq> set (List.map_filter t vs)"
  proof
    fix h assume "h \<in> hd ` C"
    then obtain xs where xs: "xs \<in> C" "h = hd xs" by blast
    note c = chains_okD [OF I(1) xs(1)]
    have "t (uf_symbol (es ! h)) = Some h" using I(2) xs c(3) by (simp add: table_ok_def)
    moreover have "uf_symbol (es ! h) \<in> set vs" using I(8,9) c(4) xs(2) assms(2) by (metis image_eqI nth_mem)
    ultimately show "h \<in> set (List.map_filter t vs)" by (force simp: List.map_filter_def)
  qed
qed

lemma solve_constraints_classes:
  assumes s: "solve_constraints walk fs s = Inr s'" and d: "distinct (sv_symbols s)" "sv_class_map s = Map.empty"
    and w: "walk_ok walk" and a: "a \<in> set (sv_symbols s)"
  obtains es0 t0 es t C xs i ec where
    "rfoldM (init_entry fs s) (sv_symbols s) ([], Map.empty) = Inr (es0, t0)"
    "solver_inv es0 (sv_constraints s) (es, t) C" "xs \<in> C" "i \<in> set xs" "uf_symbol (es0 ! i) = a"
    "mk_equiv_class es (hd xs) = Inr ec"
    "\<forall>j \<in> set xs. find_class s' (uf_symbol (es0 ! j)) = Inr ec"
proof -
  obtain es0 t0 es t classes where r: "rfoldM (init_entry fs s) (sv_symbols s) ([], Map.empty) = Inr (es0, t0)"
    "rfoldM reflect (sv_constraints s) (es0, t0) = Inr (es, t)"
    "rmapM (mk_equiv_class es) (walk (set (List.map_filter t (sv_symbols s)))) = Inr classes"
    "sv_classes s' = classes" "sv_class_map s' = fold (\<lambda>(k, ec). record_class k ec) (enumerate 0 classes) Map.empty"
    using s d(2) by (auto simp: solve_constraints_def rbind_eq_Inr)
  note i0 = solver_inv_init [OF r(1) d(1)]
  obtain C where inv: "solver_inv es0 (sv_constraints s) (es, t) C" using rfoldM_reflect [OF i0(1) r(2)] by auto
  note I = solver_invD [OF inv]
  let ?hs = "walk (set (List.map_filter t (sv_symbols s)))"
  have hs: "set ?hs = hd ` C" "distinct ?hs"
    using w table_heads [OF inv i0(2)] by (metis List.finite_set walk_ok_def)+
  have lc: "length classes = length ?hs" by (rule rmapM_length [OF r(3)])
  obtain i where i: "i < length es0" "uf_symbol (es0 ! i) = a"
    using a i0(2) by (metis imageE in_set_conv_nth)
  obtain xs where xs: "xs \<in> C" "i \<in> set xs" using chains_ok_find [OF I(1)] i I(8) by metis
  obtain k where k: "k < length ?hs" "?hs ! k = hd xs" using xs(1) hs(1) by (metis imageI in_set_conv_nth)
  have mk: "mk_equiv_class es (hd ys) = Inr (classes ! j)" if "j < length ?hs" "?hs ! j = hd ys" for j ys
    using rmapM_nth [OF r(3) that(1)] that(2) by simp
  have sy: "ec_symbols (classes ! j) = map (\<lambda>i. uf_symbol (es ! i)) ys" if "ys \<in> C" "j < length ?hs" "?hs ! j = hd ys" for j ys
    using mk_equiv_class_linked [OF _ _ _ mk [OF that(2,3)]] chains_okD [OF I(1) that(1)] I(6) by blast
  have cm: "sv_class_map s' (uf_symbol (es0 ! j)) = Some k" if j: "j \<in> set xs" for j
  proof -
    let ?v = "uf_symbol (es0 ! j)"
    have jb: "j < length es0" using solver_inv_bound [OF inv xs(1) j] .
    have "?v \<in> set (ec_symbols (classes ! m)) \<longleftrightarrow> m = k" if m: "m < length classes" for m
    proof
      assume v: "?v \<in> set (ec_symbols (classes ! m))"
      obtain ys where ys: "ys \<in> C" "?hs ! m = hd ys" using m lc hs(1) by (metis imageE nth_mem)
      then obtain q where q: "q \<in> set ys" "uf_symbol (es ! q) = ?v" using v sy [OF ys(1) _ ys(2)] m lc by auto
      have "t ?v = Some (hd ys)" "t ?v = Some (hd xs)"
        using I(2) ys(1) q xs(1) j I(9) [OF jb] unfolding table_ok_def by metis+
      then have "?hs ! m = ?hs ! k" using ys(2) k(2) by simp
      then show "m = k" using hs(2) m lc k(1) by (simp add: nth_eq_iff_index_eq)
    next
      assume "m = k"
      then show "?v \<in> set (ec_symbols (classes ! m))" using sy [OF xs(1) k] j I(9) [OF jb] by force
    qed
    then have "\<forall>m < length classes. ?v \<in> set (ec_symbols (classes ! m)) \<longleftrightarrow> m = k" by blast
    from record_classes [OF _ _ this, of Map.empty 0] show ?thesis using k(1) lc r(5) by simp
  qed
  have "\<forall>j \<in> set xs. find_class s' (uf_symbol (es0 ! j)) = Inr (classes ! k)"
    using cm k(1) lc r(4) by (simp add: find_class_def map_at_def)
  with that [OF r(1) inv xs i(2) mk [OF k]] show ?thesis by blast
qed

lemma class_members:
  assumes inv: "solver_inv es0 cs (es, t) C" and xs: "xs \<in> C" "i \<in> set xs" "uf_symbol (es0 ! i) = a"
  shows "(\<lambda>i. uf_symbol (es0 ! i)) ` set xs = {b \<in> uf_symbol ` set es0. (a, b) \<in> must_align cs}"
    "inj_on (\<lambda>i. uf_symbol (es0 ! i)) (set xs)"
proof -
  note I = solver_invD [OF inv] and c = chains_okD [OF solver_invD(1) [OF inv] xs(1)]
  have bd: "j < length es0" if "j \<in> set xs" for j by (rule solver_inv_bound [OF inv xs(1) that])
  have eq: "(\<lambda>i. uf_symbol (es0 ! i)) ` set xs = (\<lambda>i. uf_symbol (es ! i)) ` set xs"
    using I(9) bd by (intro image_cong refl) simp
  have ai: "uf_symbol (es ! i) = a" using I(9) bd xs by simp
  have "b \<in> (\<lambda>i. uf_symbol (es ! i)) ` set xs \<longleftrightarrow> joined es C a b" for b
  proof
    assume "b \<in> (\<lambda>i. uf_symbol (es ! i)) ` set xs"
    then show "joined es C a b" unfolding joined_def using xs(1,2) ai by (intro bexI [OF _ xs(1)]) auto
  next
    assume "joined es C a b"
    then obtain ys j k where y: "ys \<in> C" "j \<in> set ys" "uf_symbol (es ! j) = a" "k \<in> set ys" "uf_symbol (es ! k) = b"
      by (auto simp: joined_def)
    have "t a = Some (hd xs)" "t a = Some (hd ys)"
      using I(2) xs ai y unfolding table_ok_def by metis+
    then have "hd xs \<in> set xs" "hd xs \<in> set ys"
      using c(3) chains_okD(3) [OF I(1) y(1)] by (metis hd_in_set, metis hd_in_set option.inject)
    then have "xs = ys" by (rule chains_ok_unique [OF I(1) xs(1) y(1)])
    then show "b \<in> (\<lambda>i. uf_symbol (es ! i)) ` set xs" using y by auto
  qed
  moreover have "(\<lambda>i. uf_symbol (es0 ! i)) ` set xs \<subseteq> uf_symbol ` set es0" using bd by auto
  moreover have "a \<in> uf_symbol ` set es0" using xs bd by auto
  ultimately show "(\<lambda>i. uf_symbol (es0 ! i)) ` set xs = {b \<in> uf_symbol ` set es0. (a, b) \<in> must_align cs}"
    unfolding eq using I(4) [of a] by blast
  show "inj_on (\<lambda>i. uf_symbol (es0 ! i)) (set xs)"
  proof (rule inj_onI)
    fix j k assume "j \<in> set xs" "k \<in> set xs" "uf_symbol (es0 ! j) = uf_symbol (es0 ! k)"
    then show "j = k" using I(2,8,9) bd nth_eq_iff_index_eq [of "map uf_symbol es" j k] by (simp add: table_ok_def)
  qed
qed

lemma own_restrictions:
  assumes "rfoldM (init_entry fs s) vs ([], Map.empty) = Inr (es, t)" "distinct vs" "j < length es"
  shows "rbind (is_output s (uf_symbol (es ! j))) (compute_restrictions (fs (uf_symbol (es ! j))))
      = Inr (uf_restrictions (es ! j))" "restrictions_inv (uf_restrictions (es ! j))"
proof -
  note e = init_entries [OF assms(1,2)]
  have ej: "es ! j = first_entry fs s (vs ! j)" "vs ! j \<in> set vs" using e(1) assms(3) by simp_all
  then show eq: "rbind (is_output s (uf_symbol (es ! j))) (compute_restrictions (fs (uf_symbol (es ! j))))
      = Inr (uf_restrictions (es ! j))"
    using e(3) by (auto simp: first_entry_def)
  then show "restrictions_inv (uf_restrictions (es ! j))"
    by (auto simp: rbind_eq_Inr dest: compute_restrictions_inv)
qed

text \<open>A constraint that has been validated fits.\<close>

definition stores_ok :: "(variable \<Rightarrow> lstore) \<Rightarrow> solver \<Rightarrow> bool" where
  "stores_ok fs s \<longleftrightarrow>
     (\<forall>v \<in> set (sv_symbols s).
        (\<exists>r. rbind (is_output s v) (compute_restrictions (fs v)) = Inr r \<and> length (dim_restrictions r) = ls_dim (fs v)) \<and>
        (\<not> ls_unbound (fs v) \<longrightarrow> length (ls_extents (fs v)) = ls_dim (fs v))) \<and>
     (\<forall>c \<in> set (sv_constraints s). constraint_validate fs c = Inr () \<and>
        set (find_partition_symbols c) \<subseteq> set (sv_symbols s)) \<and>
     (\<forall>(l, r) \<in> alignments (sv_constraints s). ls_unbound (fs l) \<longrightarrow> ls_dim (fs l) = ls_dim (fs r))"

lemma validated_fits:
  assumes "stores_ok fs s" "c \<in> set (sv_constraints s)"
  shows "constraint_fits fs (set (sv_symbols s)) c"
proof -
  have v: "constraint_validate fs c = Inr ()" "set (find_partition_symbols c) \<subseteq> set (sv_symbols s)"
    using assms by (auto simp: stores_ok_def)
  show ?thesis
  proof (cases c)
    case (Alignment l r)
    with v assms have lr: "l \<in> set (sv_symbols s)" "r \<in> set (sv_symbols s)" "alignment_validate fs l r = Inr ()"
      "ls_unbound (fs l) \<longrightarrow> ls_dim (fs l) = ls_dim (fs r)"
      by (auto simp: stores_ok_def alignments_def)
    from lr(1,2) assms(1) have "\<not> ls_unbound (fs l) \<longrightarrow> length (ls_extents (fs l)) = ls_dim (fs l)"
      "\<not> ls_unbound (fs r) \<longrightarrow> length (ls_extents (fs r)) = ls_dim (fs r)"
      by (simp_all add: stores_ok_def)
    with lr Alignment show ?thesis
      by (auto simp: alignment_validate_def alignment_is_trivial_def Let_def split: if_splits)
  qed (use v in \<open>auto simp: broadcast_validate_def min_extents_validate_def rguard_eq_Inr list_ex_iff not_le
      split: if_splits\<close>)
qed

lemma solve_constraints_returns:
  assumes "stores_ok fs s" "distinct (sv_symbols s)" "walk_ok walk"
  shows "\<exists>s'. solve_constraints walk fs s = Inr s'"
proof -
  let ?V = "set (sv_symbols s)"
  have comp: "\<forall>v \<in> ?V. \<exists>r. rbind (is_output s v) (compute_restrictions (fs v)) = Inr r"
    using assms(1) by (auto simp: stores_ok_def)
  then obtain es0 t0 where r: "rfoldM (init_entry fs s) (sv_symbols s) ([], Map.empty) = Inr (es0, t0)"
    using init_entries_total [OF comp, of "([], Map.empty)"] by auto
  note i = solver_inv_init [OF r assms(2)]
  have es0: "es0 = map (first_entry fs s) (sv_symbols s)" by (rule init_entries(1) [OF r assms(2)])
  have en: "entries_for fs es0"
    using assms(1) by (fastforce simp: entries_for_def es0 first_entry_def stores_ok_def)
  have fits: "\<forall>c \<in> set (sv_constraints s). constraint_fits fs ?V c" using validated_fits [OF assms(1)] by blast
  obtain es t where r1: "rfoldM reflect (sv_constraints s) (es0, t0) = Inr (es, t)"
    using rfoldM_reflect_total [OF i(1) en i(2), of "sv_constraints s"] fits by auto
  obtain C where inv: "solver_inv es0 (sv_constraints s) (es, t) C" using rfoldM_reflect [OF i(1) r1] by auto
  note I = solver_invD [OF inv]
  have "\<exists>ec. mk_equiv_class es h = Inr ec" if h: "h \<in> hd ` C" for h
  proof -
    obtain xs where xs: "xs \<in> C" "h = hd xs" using h by blast
    note c = chains_okD [OF I(1) xs(1)]
    have bd: "j < length es0" if "j \<in> set xs" for j by (rule solver_inv_bound [OF inv xs(1) that])
    have hx: "hd xs \<in> set xs" using c(3) by simp
    have "length (dim_restrictions (uf_restrictions (es ! j))) = ls_dim (fs (uf_symbol (es0 ! hd xs)))" if j: "j \<in> set xs" for j
    proof -
      have "uf_symbol (es0 ! j) \<in> (\<lambda>i. uf_symbol (es0 ! i)) ` set xs" using j by blast
      then have "(uf_symbol (es0 ! hd xs), uf_symbol (es0 ! j)) \<in> must_align (sv_constraints s)"
        unfolding class_members(1) [OF inv xs(1) hx refl] by simp
      from must_align_dim [OF this fits] show ?thesis
        using en bd [OF j] I(11) by (simp add: entries_for_def)
    qed
    then show ?thesis using mk_equiv_class_total [OF c(1,6)] I(6) xs(2) by blast
  qed
  moreover have "set (walk (set (List.map_filter t (sv_symbols s)))) = hd ` C"
    using assms(3) table_heads [OF inv i(2)] by (metis List.finite_set walk_ok_def)
  ultimately have "\<exists>cl. rmapM (mk_equiv_class es) (walk (set (List.map_filter t (sv_symbols s)))) = Inr cl"
    by (metis rmapM_Inr)
  then show ?thesis using r r1 by (auto simp: solve_constraints_def)
qed

section \<open>Properties\<close>

text \<open>C2: The solver partitions the symbols as the alignments demand: the equivalence class it returns for
  a symbol has no duplicates and holds exactly the registered symbols that a chain of alignments
  connects to it, and all of them get that very class, in whatever order the entries are walked.\<close>

theorem solver_classes_correct:
  assumes "solve_constraints walk fs s = Inr s'" "distinct (sv_symbols s)" "sv_class_map s = Map.empty"
    and "walk_ok walk" "a \<in> set (sv_symbols s)"
  shows "\<exists>vs. find_equivalence_class s' a = Inr vs \<and> distinct vs \<and>
    set vs = {b \<in> set (sv_symbols s). (a, b) \<in> must_align (sv_constraints s)} \<and>
    (\<forall>b \<in> set vs. find_equivalence_class s' b = Inr vs)"
proof -
  obtain es0 t0 es t C xs i ec where r: "rfoldM (init_entry fs s) (sv_symbols s) ([], Map.empty) = Inr (es0, t0)"
    and inv: "solver_inv es0 (sv_constraints s) (es, t) C" and xs: "xs \<in> C" "i \<in> set xs" "uf_symbol (es0 ! i) = a"
    and mk: "mk_equiv_class es (hd xs) = Inr ec"
    and f: "\<forall>j \<in> set xs. find_class s' (uf_symbol (es0 ! j)) = Inr ec"
    by (rule solve_constraints_classes [OF assms])
  note I = solver_invD [OF inv] and c = chains_okD [OF solver_invD(1) [OF inv] xs(1)]
  note m = class_members [OF inv xs]
  have sy: "ec_symbols ec = map (\<lambda>i. uf_symbol (es0 ! i)) xs"
    using mk_equiv_class_linked [OF c(1,6) _ mk] I(6,9) solver_inv_bound [OF inv xs(1)] by simp
  have "set (ec_symbols ec) = {b \<in> set (sv_symbols s). (a, b) \<in> must_align (sv_constraints s)}"
    using m(1) sy solver_inv_init(2) [OF r assms(2)] by simp
  moreover have "distinct (ec_symbols ec)" using sy c(2) m(2) by (simp add: distinct_map)
  moreover have "\<forall>b \<in> set (ec_symbols ec). find_equivalence_class s' b = Inr (ec_symbols ec)"
    using f by (auto simp: sy find_equivalence_class_def)
  ultimately show ?thesis using f xs by (intro exI [of _ "ec_symbols ec"]) (auto simp: find_equivalence_class_def)
qed

text \<open>C25: The restrictions the solver returns for a symbol are what all constraints on its class demand
  together: a partition with a color shape satisfies them exactly when it satisfies the restrictions
  of every store aligned with the symbol, and every broadcast and minimum-extent constraint on one of
  these stores.\<close>

theorem solver_restrictions_correct:
  assumes "solve_constraints walk fs s = Inr s'" "distinct (sv_symbols s)" "sv_class_map s = Map.empty"
    and "walk_ok walk" "a \<in> set (sv_symbols s)"
  shows "\<exists>r. find_restrictions s' a = Inr r \<and> (\<forall>iv colors shape. colors \<noteq> [] \<longrightarrow> 0 \<notin> set colors \<longrightarrow>
    length colors = length (dim_restrictions r) \<longrightarrow> length shape = length colors \<longrightarrow>
    are_satisfied_by r iv (Some colors) (Some shape) = Inr
      (\<forall>b \<in> set (sv_symbols s). (a, b) \<in> must_align (sv_constraints s) \<longrightarrow>
         rbind (rbind (is_output s b) (compute_restrictions (fs b)))
           (\<lambda>q. are_satisfied_by q iv (Some colors) (Some shape)) = Inr True \<and>
         (\<forall>c \<in> set (sv_constraints s). constraint_on c = Some b \<longrightarrow> constraint_holds c colors shape)))"
proof -
  obtain es0 t0 es t C xs i ec where r: "rfoldM (init_entry fs s) (sv_symbols s) ([], Map.empty) = Inr (es0, t0)"
    and inv: "solver_inv es0 (sv_constraints s) (es, t) C" and xs: "xs \<in> C" "i \<in> set xs" "uf_symbol (es0 ! i) = a"
    and mk: "mk_equiv_class es (hd xs) = Inr ec"
    and f: "\<forall>j \<in> set xs. find_class s' (uf_symbol (es0 ! j)) = Inr ec"
    by (rule solve_constraints_classes [OF assms])
  note I = solver_invD [OF inv] and c = chains_okD [OF solver_invD(1) [OF inv] xs(1)]
  have bd: "j < length es0" if "j \<in> set xs" for j by (rule solver_inv_bound [OF inv xs(1) that])
  let ?r = "ec_restrictions ec"
  have ri: "\<forall>i < length es. restrictions_inv (uf_restrictions (es ! i))" using I(6) by blast
  note ml = mk_equiv_class_linked [OF c(1,6) ri mk]
  have "are_satisfied_by ?r iv (Some colors) (Some shape) = Inr
      (\<forall>b \<in> set (sv_symbols s). (a, b) \<in> must_align (sv_constraints s) \<longrightarrow>
         rbind (rbind (is_output s b) (compute_restrictions (fs b)))
           (\<lambda>q. are_satisfied_by q iv (Some colors) (Some shape)) = Inr True \<and>
         (\<forall>c \<in> set (sv_constraints s). constraint_on c = Some b \<longrightarrow> constraint_holds c colors shape))"
    (is "_ = Inr (\<forall>b \<in> _. _ \<longrightarrow> ?own b \<and> ?cons b)")
    if g: "colors \<noteq> []" "0 \<notin> set colors" "length colors = length (dim_restrictions ?r)" "length shape = length colors"
    for iv colors shape
  proof -
    have own: "?own (uf_symbol (es0 ! j)) \<longleftrightarrow> satisfied (uf_restrictions (es0 ! j)) iv colors shape" if j: "j \<in> set xs" for j
    proof -
      have jl: "j < length es0" by (rule bd [OF j])
      have len: "length (dim_restrictions (uf_restrictions (es0 ! j))) = length colors"
        using ml j g(3) I(11) [OF jl] by simp
      note o' = own_restrictions [OF r assms(2) jl]
      show ?thesis
        using are_satisfied_by_satisfied [OF o'(2), of colors shape iv] len g by (simp add: o'(1))
    qed
    have "shape_ok es0 xs colors shape" using g ml I(11) bd by (auto simp: shape_ok_def)
    note cs = I(7) [OF xs(1) this, of iv, unfolded class_satisfied_def]
    have "are_satisfied_by ?r iv (Some colors) (Some shape) = Inr (satisfied ?r iv colors shape)"
      using ml g by (intro are_satisfied_by_satisfied) auto
    also have "satisfied ?r iv colors shape \<longleftrightarrow> (\<forall>i \<in> set xs. satisfied (uf_restrictions (es ! i)) iv colors shape)"
      using ml g by blast
    also have "\<dots> \<longleftrightarrow> (\<forall>b \<in> (\<lambda>i. uf_symbol (es0 ! i)) ` set xs. ?own b \<and> ?cons b)"
      unfolding cs using own by simp
    also have "\<dots> \<longleftrightarrow> (\<forall>b \<in> set (sv_symbols s). (a, b) \<in> must_align (sv_constraints s) \<longrightarrow> ?own b \<and> ?cons b)"
      unfolding class_members(1) [OF inv xs] solver_inv_init(2) [OF r assms(2)] by blast
    finally show ?thesis .
  qed
  moreover have "find_restrictions s' a = Inr ?r" using f xs by (auto simp: find_restrictions_def)
  ultimately show ?thesis by blast
qed

text \<open>C37: The solver returns on stores and constraints that satisfy \<open>stores_ok\<close>: the loops along the links end within their
  fuel, no assertion fails and no exception is thrown. \<open>stores_ok\<close> asks that every constraint has passed \<open>validate\<close> and
  names registered symbols, that \<open>compute_restrictions\<close> succeeds on every store with one restriction per dimension,
  that a bound store has an extent per dimension, and that aligned stores have equally many dimensions also where the left one is unbound, which \<open>validate\<close> does not
  compare. So a throw of the solver comes from a constraint that was not validated, from the restrictions of a single
  store, or from the dimensions of an unbound store.\<close>

theorem solve_constraints_total:
  assumes "stores_ok fs s" "distinct (sv_symbols s)" "walk_ok walk"
  shows "\<exists>s'. solve_constraints walk fs s = Inr s'"
  by (rule solve_constraints_returns [OF assms])

text \<open>An operation on three stores: the first two are aligned, the second is broadcast along axis 1.\<close>

definition ex_store :: "nat \<Rightarrow> lstore" where
  "ex_store n = \<lparr>ls_unbound = False, ls_extents = replicate n 10, ls_dim = n, ls_transform = [],
     ls_storage_dim = n, ls_scalar = False, ls_storage_size = 800, ls_point_type = None, ls_rect_type = None\<rparr>"

definition ex_var :: "int \<Rightarrow> variable" where
  "ex_var i = \<lparr>var_operation = 0, var_id = i\<rparr>"

definition ex_solver :: solver where
  "ex_solver = add_constraint (Broadcast (ex_var 1) [1]) (add_constraint (Alignment (ex_var 0) (ex_var 1))
     (add_partition_symbol (ex_var 2) READ (add_partition_symbol (ex_var 1) READ
       (add_partition_symbol (ex_var 0) WRITE empty_solver))))"

lemma ex_solver_simps:
  "sv_symbols ex_solver = [ex_var 0, ex_var 1, ex_var 2]"
  "sv_constraints ex_solver = [Alignment (ex_var 0) (ex_var 1), Broadcast (ex_var 1) [1]]"
  "sv_class_map ex_solver = Map.empty"
  "sv_access_modes ex_solver = [ex_var 0 \<mapsto> WRITE, ex_var 1 \<mapsto> READ, ex_var 2 \<mapsto> READ]"
  by (simp_all add: ex_solver_def add_constraint_def add_partition_symbol_def empty_solver_def
      ordered_set_insert_def ex_var_def)

lemma ex_walk: "walk_ok sorted_list_of_set"
  by (simp add: walk_ok_def)

lemma ex_stores_ok: "stores_ok (\<lambda>_. ex_store 2) ex_solver"
  by (simp add: stores_ok_def ex_solver_simps ex_store_def ex_var_def alignments_def is_output_def find_access_mode_def
      map_at_def compute_restrictions_def stack_convert_def storage_compute_restrictions_def restrictions_ndim_def
      set_require_invertible_def alignment_validate_def broadcast_validate_def)

lemma ex_distinct: "distinct (sv_symbols ex_solver)"
  by (simp add: ex_solver_simps ex_var_def)

lemma ex_must_align: "(ex_var 1, b) \<in> must_align (sv_constraints ex_solver) \<longleftrightarrow> b = ex_var 0 \<or> b = ex_var 1"
proof -
  have e: "must_align [] = Id" by (simp add: must_align_def alignments_def)
  have "must_align (sv_constraints ex_solver) = must_align [Alignment (ex_var 0) (ex_var 1)]"
    using must_align_other [of "Broadcast (ex_var 1) [1]" "[Alignment (ex_var 0) (ex_var 1)]"]
    by (simp add: ex_solver_simps)
  moreover have "(ex_var 1, b) \<in> must_align ([] @ [Alignment (ex_var 0) (ex_var 1)]) \<longleftrightarrow> b = ex_var 0 \<or> b = ex_var 1"
    unfolding must_align_snoc e by (auto simp: ex_var_def)
  ultimately show ?thesis by simp
qed

theorem solve_constraints_total_witness:
  "\<exists>s'. solve_constraints sorted_list_of_set (\<lambda>_. ex_store 2) ex_solver = Inr s'"
  by (rule solve_constraints_total [OF ex_stores_ok ex_distinct ex_walk])

theorem solver_classes_correct_witness:
  "\<exists>s' vs. solve_constraints sorted_list_of_set (\<lambda>_. ex_store 2) ex_solver = Inr s' \<and>
     find_equivalence_class s' (ex_var 1) = Inr vs \<and> set vs = {ex_var 0, ex_var 1}"
proof -
  obtain s' where s': "solve_constraints sorted_list_of_set (\<lambda>_. ex_store 2) ex_solver = Inr s'"
    using solve_constraints_returns [OF ex_stores_ok ex_distinct ex_walk] by blast
  from solver_classes_correct [OF s' ex_distinct _ ex_walk, of "ex_var 1"] s' show ?thesis
    by (auto simp: ex_solver_simps(1,3) ex_must_align)
qed

theorem solver_restrictions_correct_witness:
  "\<exists>s' r. solve_constraints sorted_list_of_set (\<lambda>_. ex_store 2) ex_solver = Inr s' \<and>
     find_restrictions s' (ex_var 0) = Inr r"
proof -
  obtain s' where s': "solve_constraints sorted_list_of_set (\<lambda>_. ex_store 2) ex_solver = Inr s'"
    using solve_constraints_returns [OF ex_stores_ok ex_distinct ex_walk] by blast
  from solver_restrictions_correct [OF s' ex_distinct _ ex_walk, of "ex_var 0"] s' show ?thesis
    by (auto simp: ex_solver_simps(1,3))
qed

end
