(* ===== verification/PartitionManager.thy ===== *)
theory PartitionManager
  imports Tiling Machine
begin

text \<open>
  How many colors a store is partitioned into: src/cpp/legate/runtime/detail/partition_manager.h and
  .cc, and the policy they read, tuning/parallel_policy.h, .inl and .cc.

  \<open>compute_shape_2d\<close> takes the square root of a quotient of two doubles and rounds it after adding and
  subtracting an epsilon. The model takes the two rounded values from a function \<open>rt\<close> of the numerator
  and the denominator; the theorems hold for every \<open>rt\<close> whose values do not exceed the number of
  pieces, which the floating-point computation satisfies as \<open>nx \<le> ny\<close>. Loops that count towards a
  divisor or strip prime factors take fuel; \<open>launch_shape_correct\<close> shows that it suffices.
\<close>

section \<open>The parallel policy\<close>

datatype streaming_mode = STREAM_OFF | STREAM_STRICT | STREAM_RELAXED

record parallel_policy =
  pp_streaming_mode :: streaming_mode
  pp_overdecompose_factor :: u32
  pp_cpu_threshold :: u64
  pp_gpu_threshold :: u64
  pp_omp_threshold :: u64

definition mk_parallel_policy :: "u64 \<Rightarrow> u64 \<Rightarrow> u64 \<Rightarrow> parallel_policy" where
  "mk_parallel_policy cpu gpu omp =
     \<lparr>pp_streaming_mode = STREAM_OFF, pp_overdecompose_factor = 1, pp_cpu_threshold = cpu,
      pp_gpu_threshold = gpu, pp_omp_threshold = omp\<rparr>"

definition with_streaming :: "streaming_mode \<Rightarrow> parallel_policy \<Rightarrow> parallel_policy" where
  "with_streaming mode p = p\<lparr>pp_streaming_mode := mode\<rparr>"

definition with_overdecompose_factor :: "u32 \<Rightarrow> parallel_policy \<Rightarrow> parallel_policy" where
  "with_overdecompose_factor factor p = p\<lparr>pp_overdecompose_factor := factor\<rparr>"

definition with_partitioning_threshold :: "task_target \<Rightarrow> u64 \<Rightarrow> parallel_policy \<Rightarrow> parallel_policy" where
  "with_partitioning_threshold target threshold p =
     (case target of CPU \<Rightarrow> p\<lparr>pp_cpu_threshold := threshold\<rparr>
      | GPU \<Rightarrow> p\<lparr>pp_gpu_threshold := threshold\<rparr>
      | OMP \<Rightarrow> p\<lparr>pp_omp_threshold := threshold\<rparr>)"

definition streaming :: "parallel_policy \<Rightarrow> bool" where
  "streaming p \<longleftrightarrow> pp_streaming_mode p \<noteq> STREAM_OFF"

definition partitioning_threshold :: "parallel_policy \<Rightarrow> task_target \<Rightarrow> u64" where
  "partitioning_threshold p target =
     (case target of CPU \<Rightarrow> pp_cpu_threshold p | GPU \<Rightarrow> pp_gpu_threshold p | OMP \<Rightarrow> pp_omp_threshold p)"

definition parallel_policy_eq :: "parallel_policy \<Rightarrow> parallel_policy \<Rightarrow> bool" where
  "parallel_policy_eq p q \<longleftrightarrow>
     pp_streaming_mode p = pp_streaming_mode q \<and> pp_overdecompose_factor p = pp_overdecompose_factor q \<and>
     pp_cpu_threshold p = pp_cpu_threshold q \<and> pp_gpu_threshold p = pp_gpu_threshold q \<and>
     pp_omp_threshold p = pp_omp_threshold q"

section \<open>Factors\<close>

type_synonym factor_cache = "u32 \<Rightarrow> u32 list option"

fun strip_factor :: "nat \<Rightarrow> u32 \<Rightarrow> u32 \<Rightarrow> (u32 list \<times> u32) result" where
  "strip_factor n prime remaining =
     (if remaining mod prime = 0
      then (case n of 0 \<Rightarrow> Inl Diverges
            | Suc m \<Rightarrow> rbind (strip_factor m prime (remaining div prime)) (\<lambda>(fs, r). Inr (prime # fs, r)))
      else Inr ([], remaining))"

fun strip_factors :: "u32 list \<Rightarrow> u32 \<Rightarrow> u32 list result" where
  "strip_factors [] remaining = Inr []"
| "strip_factors (prime # primes) remaining =
     rbind (strip_factor 32 prime remaining) (\<lambda>(fs, r).
     rbind (strip_factors primes r) (\<lambda>gs. Inr (fs @ gs)))"

definition get_factors :: "factor_cache \<Rightarrow> machine \<Rightarrow> (u32 list \<times> factor_cache) result" where
  "get_factors cache m =
     (let curr_num_pieces = m_count m (m_preferred m)
      in case cache curr_num_pieces of
           Some factors \<Rightarrow> Inr (factors, cache)
         | None \<Rightarrow> rbind (strip_factors [11, 7, 5, 3, 2] curr_num_pieces) (\<lambda>factors.
             Inr (factors, cache(curr_num_pieces \<mapsto> factors))))"

section \<open>Launch shapes\<close>

definition compute_shape_1d :: "u64 \<Rightarrow> u64 list \<Rightarrow> u64 list" where
  "compute_shape_1d max_pieces shape = [min (hd shape) max_pieces]"

fun divisor_below :: "nat \<Rightarrow> u64 \<Rightarrow> u64 \<Rightarrow> u64 result" where
  "divisor_below n max_pieces k =
     (if k = 0 then Inl DivZero
      else if max_pieces mod k = 0 then Inr k
      else (case n of 0 \<Rightarrow> Inl Diverges | Suc m \<Rightarrow> divisor_below m max_pieces (k - 1)))"

fun divisor_above :: "nat \<Rightarrow> u64 \<Rightarrow> u64 \<Rightarrow> u64 result" where
  "divisor_above n max_pieces k =
     (if k = 0 then Inl DivZero
      else if max_pieces mod k = 0 then Inr k
      else (case n of 0 \<Rightarrow> Inl Diverges | Suc m \<Rightarrow> divisor_above m max_pieces (k + 1)))"

definition compute_shape_2d :: "(u64 \<Rightarrow> u64 \<Rightarrow> u64 \<times> u64) \<Rightarrow> u64 \<Rightarrow> u64 list \<Rightarrow> u64 list result" where
  "compute_shape_2d rt max_pieces shape =
     (let swap = hd shape > last shape;
          nx = (if swap then last shape else hd shape);
          ny = (if swap then hd shape else last shape);
          (floor_up, floor_down) = rt (max_pieces * nx) ny
      in rbind (divisor_below (unat max_pieces) max_pieces (max 1 floor_up)) (\<lambda>n1.
         rbind (divisor_above (unat max_pieces) max_pieces (max 1 floor_down)) (\<lambda>n2.
         rguard (max_pieces div n1 \<noteq> 0 \<and> max_pieces div n2 \<noteq> 0) DivZero
          (let side1 = max (nx div n1) (ny div (max_pieces div n1));
               side2 = max (nx div n2) (ny div (max_pieces div n2));
               px = (if side1 \<le> side2 then n1 else n2);
               py = max_pieces div px
           in Inr (if swap then [min py ny, min px nx] else [min px nx, min py ny])))))"

definition max_element :: "u64 list \<Rightarrow> nat" where
  "max_element xs = foldl (\<lambda>best i. if xs ! best < xs ! i then i else best) 0 [1..<length xs]"

definition shape_nd_step :: "nat \<Rightarrow> u64 list \<Rightarrow> u64 \<Rightarrow> u64 list \<Rightarrow> u64 list result" where
  "shape_nd_step ndim shape factor res =
     rguard (0 \<notin> set res \<and> factor \<noteq> 0) DivZero
      (let remaining = map2 (\<lambda>s r. (s + r - 1) div r) shape res;
           big_dim = max_element remaining
       in if big_dim < ndim - 1 then vec_upd big_dim (\<lambda>x. x * factor) res
          else if 32 \<le> remaining ! big_dim div factor then vec_upd big_dim (\<lambda>x. x * factor) res
          else let next_big_dim = max_element (butlast remaining)
               in if 0 < remaining ! next_big_dim div factor then vec_upd next_big_dim (\<lambda>x. x * factor) res
                  else vec_upd big_dim (\<lambda>x. x * factor) res)"

fun shape_nd_loop :: "nat \<Rightarrow> u64 \<Rightarrow> u64 list \<Rightarrow> u32 list \<Rightarrow> u64 \<Rightarrow> u64 list \<Rightarrow> u64 list result" where
  "shape_nd_loop ndim max_pieces shape [] factor_prod res = Inr res"
| "shape_nd_loop ndim max_pieces shape (factor # factors) factor_prod res =
     (if max_pieces < ucast factor * factor_prod then Inr res
      else rbind (shape_nd_step ndim shape (ucast factor) res)
             (shape_nd_loop ndim max_pieces shape factors (factor_prod * ucast factor)))"

definition compute_shape_nd :: "u32 list \<Rightarrow> nat \<Rightarrow> u64 \<Rightarrow> u64 list \<Rightarrow> u64 list result" where
  "compute_shape_nd factors ndim max_pieces shape =
     shape_nd_loop ndim max_pieces shape factors 1 (replicate ndim 1)"

definition compute_launch_shape ::
  "(u64 \<Rightarrow> u64 \<Rightarrow> u64 \<times> u64) \<Rightarrow> factor_cache \<Rightarrow> machine \<Rightarrow> parallel_policy \<Rightarrow> restrictions \<Rightarrow> u64 list \<Rightarrow>
   (u64 list \<times> factor_cache) result" where
  "compute_launch_shape rt cache m policy r shape =
     (let curr_num_pieces = m_count m (m_preferred m) * pp_overdecompose_factor policy
      in rguard (0 < curr_num_pieces) CheckFailed
       (if curr_num_pieces = 1 then Inr ([], cache)
        else if array_volume shape < partitioning_threshold policy (m_preferred m) then Inr ([], cache)
        else let max_pieces = ucast curr_num_pieces
             in rbind (prune_dimensions r shape) (\<lambda>(temp_shape, temp_dims, volume).
                (let ndim = length temp_shape
                 in if ndim = 0 then Inr ([], cache)
                    else rbind (if ndim = 1 then Inr (compute_shape_1d max_pieces temp_shape, cache)
                                else if ndim = 2
                                then (if volume < max_pieces then Inr (temp_shape, cache)
                                      else rbind (compute_shape_2d rt max_pieces temp_shape) (\<lambda>x. Inr (x, cache)))
                                else rbind (get_factors cache m) (\<lambda>(factors, cache').
                                     rbind (compute_shape_nd factors ndim max_pieces temp_shape) (\<lambda>x.
                                     Inr (x, cache'))))
                         (\<lambda>(temp_result, cache').
                          rguard (length temp_result = ndim) CheckFailed
                           (let res = fold (\<lambda>idx res. res[temp_dims ! idx := temp_result ! idx]) [0..<ndim]
                                        (replicate (length shape) 1)
                            in rbind (minimum_extents_satisfied_by r shape res) (\<lambda>ok.
                               Inr (if ok then res else [], cache'))))))))"

definition compute_tile_shape :: "u64 list \<Rightarrow> u64 list \<Rightarrow> u64 list result" where
  "compute_tile_shape extents launch_shape =
     rguard (length extents = length launch_shape) CheckFailed
      (rguard (0 \<notin> set launch_shape) DivZero
        (Inr (map2 (\<lambda>ext shape. (ext + shape - 1) div shape) extents launch_shape)))"

definition use_complete_tiling :: "machine \<Rightarrow> u64 list \<Rightarrow> u64 list \<Rightarrow> bool result" where
  "use_complete_tiling m extents tile_shape =
     rguard (length extents \<le> length tile_shape) OutOfBounds
      (rguard (0 \<notin> set (take (length extents) tile_shape)) DivZero
        (let num_tiles = fold (*) (map2 (div) extents tile_shape) 1;
             num_pieces = ucast (m_count m (m_preferred m)) :: u64
         in Inr (num_tiles \<le> 1024 \<or> num_tiles \<le> 16 * num_pieces)))"

section \<open>Caches of partitions\<close>

text \<open>Index spaces, index partitions, logical partitions and fields of Legion are numbers; \<open>0\<close> is
  \<open>IndexPartition::NO_PART\<close>.\<close>

record partition_manager =
  pm_factors :: factor_cache
  pm_tilings :: "nat \<times> tiling \<Rightarrow> nat option"
  pm_intersections :: "nat \<times> nat \<Rightarrow> nat option"
  pm_images :: "nat \<times> nat \<times> nat \<times> image_hint \<Rightarrow> nat option"

definition find_index_partition_impl :: "('k \<Rightarrow> nat option) \<Rightarrow> 'k \<Rightarrow> nat" where
  "find_index_partition_impl cache key = (case cache key of None \<Rightarrow> 0 | Some p \<Rightarrow> p)"

definition find_index_partition :: "partition_manager \<Rightarrow> nat \<Rightarrow> tiling \<Rightarrow> nat" where
  "find_index_partition pm ispace t = find_index_partition_impl (pm_tilings pm) (ispace, t)"

definition find_intersection_partition :: "partition_manager \<Rightarrow> nat \<Rightarrow> nat \<Rightarrow> nat" where
  "find_intersection_partition pm target to_intersect =
     find_index_partition_impl (pm_intersections pm) (target, to_intersect)"

definition find_image_partition :: "partition_manager \<Rightarrow> nat \<Rightarrow> nat \<Rightarrow> nat \<Rightarrow> image_hint \<Rightarrow> nat" where
  "find_image_partition pm ispace func_part fid hint =
     find_index_partition_impl (pm_images pm) (ispace, func_part, fid, hint)"

definition record_index_partition :: "nat \<Rightarrow> tiling \<Rightarrow> nat \<Rightarrow> partition_manager \<Rightarrow> partition_manager" where
  "record_index_partition ispace t p pm = pm\<lparr>pm_tilings := (pm_tilings pm)((ispace, t) \<mapsto> p)\<rparr>"

definition record_intersection_partition :: "nat \<Rightarrow> nat \<Rightarrow> nat \<Rightarrow> partition_manager \<Rightarrow> partition_manager" where
  "record_intersection_partition target to_intersect p pm =
     pm\<lparr>pm_intersections := (pm_intersections pm)((target, to_intersect) \<mapsto> p)\<rparr>"

definition record_image_partition ::
  "nat \<Rightarrow> nat \<Rightarrow> nat \<Rightarrow> image_hint \<Rightarrow> nat \<Rightarrow> partition_manager \<Rightarrow> partition_manager" where
  "record_image_partition ispace func_part fid hint p pm =
     pm\<lparr>pm_images := (pm_images pm)((ispace, func_part, fid, hint) \<mapsto> p)\<rparr>"

definition invalidate_image_partition ::
  "nat \<Rightarrow> nat \<Rightarrow> nat \<Rightarrow> image_hint \<Rightarrow> partition_manager \<Rightarrow> partition_manager result" where
  "invalidate_image_partition ispace func_part fid hint pm =
     rguard (pm_images pm (ispace, func_part, fid, hint) \<noteq> None) CheckFailed
      (Inr (pm\<lparr>pm_images := (pm_images pm)((ispace, func_part, fid, hint) := None)\<rparr>))"

section \<open>Products and updates\<close>

definition volume_of :: "u64 list \<Rightarrow> nat" where
  "volume_of xs = prod_list (map unat xs)"

lemma prod_list_update: "i < length xs \<Longrightarrow> prod_list (xs[i := v]) * xs ! i = prod_list xs * (v :: nat)"
proof (induction xs arbitrary: i)
  case (Cons x xs)
  then show ?case by (cases i) (simp_all add: mult.assoc mult.left_commute)
qed simp

lemma volume_of_update:
  "i < length xs \<Longrightarrow> volume_of (xs[i := v]) * unat (xs ! i) = volume_of xs * unat v"
  using prod_list_update [of i "map unat xs" "unat v"] by (simp add: volume_of_def map_update)

lemma volume_of_pos: "0 \<notin> set xs \<Longrightarrow> 0 < volume_of xs"
  unfolding volume_of_def by (induction xs) (auto simp: unat_gt_0)

lemma volume_of_member: "0 \<notin> set xs \<Longrightarrow> i < length xs \<Longrightarrow> unat (xs ! i) \<le> volume_of xs"
proof (induction xs arbitrary: i)
  case (Cons x xs)
  have p: "1 \<le> volume_of xs" "1 \<le> unat x" using volume_of_pos [of xs] Cons.prems by (simp_all add: Suc_le_eq unat_gt_0)
  show ?case
  proof (cases i)
    case (Suc j)
    then have "unat (xs ! j) \<le> volume_of xs" using Cons by simp
    also have "\<dots> \<le> unat x * volume_of xs" using p by simp
    finally show ?thesis by (simp add: Suc volume_of_def)
  qed (use p in \<open>simp add: volume_of_def\<close>)
qed simp

text \<open>Writing the values of a list to distinct positions.\<close>

lemma scatter:
  assumes "distinct ds" "length tr = length ds" "\<forall>i \<in> set ds. i < length xs" "\<forall>i \<in> set ds. xs ! i = 1" "n \<le> length ds"
  defines "ys \<equiv> fold (\<lambda>k res. res[ds ! k := tr ! k]) [0..<n] xs"
  shows "length ys = length xs \<and> (\<forall>k < n. ys ! (ds ! k) = tr ! k) \<and>
    (\<forall>j < length xs. j \<notin> set (take n ds) \<longrightarrow> ys ! j = xs ! j) \<and> volume_of ys = volume_of xs * volume_of (take n tr)"
  using assms(5) unfolding ys_def
proof (induction n)
  case (Suc n)
  let ?z = "fold (\<lambda>k res. res[ds ! k := tr ! k]) [0..<n] xs"
  have IH: "length ?z = length xs" "\<forall>k < n. ?z ! (ds ! k) = tr ! k"
    "\<forall>j < length xs. j \<notin> set (take n ds) \<longrightarrow> ?z ! j = xs ! j" "volume_of ?z = volume_of xs * volume_of (take n tr)"
    using Suc by simp_all
  have dn: "ds ! n \<in> set ds" "ds ! n < length xs" using Suc.prems assms(3) by auto
  have nn: "ds ! n \<notin> set (take n ds)"
    using assms(1) Suc.prems by (auto simp: in_set_conv_nth nth_eq_iff_index_eq)
  then have one: "?z ! (ds ! n) = 1" using IH(3) dn assms(4) by simp
  have "\<forall>k < n. ds ! k \<noteq> ds ! n \<and> ds ! n \<noteq> ds ! k" using assms(1) Suc.prems by (auto simp: nth_eq_iff_index_eq)
  moreover have "volume_of (?z[ds ! n := tr ! n]) = volume_of ?z * unat (tr ! n)"
    using volume_of_update [of "ds ! n" ?z "tr ! n"] dn(2) IH(1) one by simp
  moreover have "volume_of (take (Suc n) tr) = volume_of (take n tr) * unat (tr ! n)"
    using Suc.prems assms(2) by (simp add: volume_of_def take_Suc_conv_app_nth)
  moreover have "set (take (Suc n) ds) = insert (ds ! n) (set (take n ds))"
    using Suc.prems by (simp add: take_Suc_conv_app_nth)
  ultimately show ?case using IH dn(2) by (auto simp: less_Suc_eq nth_list_update)
qed (simp add: volume_of_def)

section \<open>Divisors\<close>

lemma divisor_below:
  "mp \<noteq> 0 \<Longrightarrow> k \<noteq> 0 \<Longrightarrow> unat k \<le> Suc n \<Longrightarrow>
     \<exists>d. divisor_below n mp k = Inr d \<and> d \<noteq> 0 \<and> mp mod d = 0"
proof (induction n arbitrary: k)
  case 0
  then have "unat k = 1" using unat_gt_0 [of k] by simp
  then have "k = 1" by (simp add: word_unat_eq_iff)
  then show ?case by simp
next
  case (Suc n)
  show ?case
  proof (cases "mp mod k = 0")
    case False
    then have k1: "k \<noteq> 1" by auto
    have "unat (k - 1) = unat k - 1" using Suc.prems(2) by (metis unat_minus_one)
    then have "unat (k - 1) \<le> Suc n" "k - 1 \<noteq> 0" using Suc.prems(3) k1 by simp_all
    from Suc.IH [OF Suc.prems(1) this(2,1)] False Suc.prems(2) show ?thesis by simp
  qed (use Suc.prems in simp)
qed

lemma unat_lt_u64: "unat (w :: u64) < 2 ^ 64"
  by (rule order_less_le_trans [OF unsigned_less]) simp

lemma divisor_above:
  "mp \<noteq> 0 \<Longrightarrow> k \<noteq> 0 \<Longrightarrow> k \<le> mp \<Longrightarrow> unat mp - unat k \<le> n \<Longrightarrow>
     \<exists>d. divisor_above n mp k = Inr d \<and> d \<noteq> 0 \<and> mp mod d = 0"
proof (induction n arbitrary: k)
  case 0
  then have "k = mp" by (simp add: word_le_nat_alt word_unat_eq_iff)
  with 0 show ?case by simp
next
  case (Suc n)
  show ?case
  proof (cases "mp mod k = 0")
    case False
    then have "k \<noteq> mp" by auto
    then have lt: "k < mp" using Suc.prems(3) by simp
    then have "unat k + unat (1 :: u64) < 2 ^ 64" using unat_lt_u64 [of mp] by (simp add: word_less_nat_alt)
    then have u: "unat (k + 1) = unat k + 1" using unat_add_lem [of k 1] by simp
    have "k + 1 \<noteq> 0" "k + 1 \<le> mp" using u lt by (auto simp: word_le_nat_alt word_less_nat_alt unat_eq_zero [symmetric])
    from Suc.IH [OF Suc.prems(1) this] u Suc.prems(4) False Suc.prems(2) show ?thesis by simp
  qed (use Suc.prems in simp)
qed

lemma divisor_bounds:
  assumes "d \<noteq> (0 :: u64)" "mp mod d = 0" "mp \<noteq> 0"
  shows "mp div d \<noteq> 0" "unat d * unat (mp div d) = unat mp"
proof -
  have "unat mp mod unat d = 0" using assms(2) by (metis unat_0 unat_mod)
  then show e: "unat d * unat (mp div d) = unat mp" by (simp add: unat_div) (metis mult_div_mod_eq add_0_right)
  then show "mp div d \<noteq> 0" using assms(3) by (metis mult_0_right unat_0 unat_eq_zero)
qed

declare strip_factor.simps [simp del] divisor_below.simps [simp del] divisor_above.simps [simp del]

section \<open>The shapes of one, two and more dimensions\<close>

definition rt_ok :: "(u64 \<Rightarrow> u64 \<Rightarrow> u64 \<times> u64) \<Rightarrow> u64 \<Rightarrow> bool" where
  "rt_ok rt max_pieces \<longleftrightarrow> (\<forall>nx ny. nx \<le> ny \<longrightarrow> fst (rt (max_pieces * nx) ny) \<le> max_pieces \<and>
     snd (rt (max_pieces * nx) ny) \<le> max_pieces)"

lemma min_pos_u64: "x \<noteq> 0 \<Longrightarrow> y \<noteq> 0 \<Longrightarrow> min x y \<noteq> (0 :: u64)"
  by (simp add: min_def)

lemma unat_min_le: "unat (min x y :: u64) \<le> unat x" "unat (min x y) \<le> unat y"
  by (simp_all add: min_def word_le_nat_alt)

lemma compute_shape_1d:
  assumes "mp \<noteq> 0" "length shape = 1" "0 \<notin> set shape"
  defines "x \<equiv> compute_shape_1d mp shape"
  shows "length x = 1 \<and> 0 \<notin> set x \<and> volume_of x \<le> unat mp"
proof -
  obtain s where s: "shape = [s]" "s \<noteq> 0" using assms(2,3) by (cases shape) auto
  then show ?thesis using min_pos_u64 [OF s(2) assms(1)] unat_min_le(2) [of s mp]
    by (simp add: x_def compute_shape_1d_def volume_of_def)
qed

lemma compute_shape_2d:
  assumes "mp \<noteq> 0" "rt_ok rt mp" "length shape = 2" "0 \<notin> set shape"
  shows "\<exists>x. compute_shape_2d rt mp shape = Inr x \<and> length x = 2 \<and> 0 \<notin> set x \<and> volume_of x \<le> unat mp"
proof -
  obtain a b where ab: "shape = [a, b]" "a \<noteq> 0" "b \<noteq> 0"
    using assms(3,4) by (auto simp: length_Suc_conv numeral_2_eq_2)
  let ?nx = "min a b" and ?ny = "max a b"
  obtain fu fd where f: "rt (mp * ?nx) ?ny = (fu, fd)" by fastforce
  have le: "max 1 fu \<le> mp" "max 1 fd \<le> mp" "max 1 fu \<noteq> 0" "max 1 fd \<noteq> 0"
  proof -
    have "1 \<le> mp" using assms(1) by (simp add: word_le_nat_alt Suc_le_eq unat_gt_0)
    moreover have "fu \<le> mp \<and> fd \<le> mp" 
      using assms(2) [unfolded rt_ok_def, rule_format, of ?nx ?ny] f by (simp add: min.coboundedI1)
    ultimately show "max 1 fu \<le> mp" "max 1 fd \<le> mp" by simp_all
    show "max 1 fu \<noteq> 0" "max 1 fd \<noteq> 0" by (cases "fu = 0"; cases "fd = 0"; simp add: max_def)+
  qed
  have "unat (max 1 fu) \<le> Suc (unat mp)" using le(1) unfolding word_le_nat_alt by linarith
  from divisor_below [OF assms(1) le(3) this]
  obtain n1 where n1: "divisor_below (unat mp) mp (max 1 fu) = Inr n1" "n1 \<noteq> 0" "mp mod n1 = 0" by (elim exE conjE)
  from divisor_above [OF assms(1) le(4,2) diff_le_self]
  obtain n2 where n2: "divisor_above (unat mp) mp (max 1 fd) = Inr n2" "n2 \<noteq> 0" "mp mod n2 = 0" by (elim exE conjE)
  define px where "px = (if max (?nx div n1) (?ny div (mp div n1)) \<le> max (?nx div n2) (?ny div (mp div n2)) then n1 else n2)"
  have px: "px \<noteq> 0" "mp mod px = 0" using n1(2,3) n2(2,3) unfolding px_def by presburger+
  note d = divisor_bounds [OF px assms(1)]
  have eq: "compute_shape_2d rt mp shape
      = Inr (if b < a then [min (mp div px) ?ny, min px ?nx] else [min px ?nx, min (mp div px) ?ny])"
  proof (cases "b < a")
    case True
    then have m: "min a b = b" "max a b = a" by simp_all
    show ?thesis
      using f n1 n2 divisor_bounds(1) [OF n1(2,3) assms(1)] divisor_bounds(1) [OF n2(2,3) assms(1)] True
      unfolding px_def m by (simp add: compute_shape_2d_def Let_def ab(1))
  next
    case False
    then have m: "min a b = a" "max a b = b" by simp_all
    show ?thesis
      using f n1 n2 divisor_bounds(1) [OF n1(2,3) assms(1)] divisor_bounds(1) [OF n2(2,3) assms(1)] False
      unfolding px_def m by (simp add: compute_shape_2d_def Let_def ab(1))
  qed
  have nz: "min px ?nx \<noteq> 0" "min (mp div px) ?ny \<noteq> 0" using ab px d by (simp_all add: min_def max_def)
  have "unat (min px ?nx) * unat (min (mp div px) ?ny) \<le> unat px * unat (mp div px)"
    using unat_min_le by (intro mult_le_mono)
  also have "\<dots> = unat mp" by (rule d(2))
  finally have "unat (min px ?nx) * unat (min (mp div px) ?ny) \<le> unat mp" .
  moreover define u v where "u = min px ?nx" "v = min (mp div px) ?ny"
  ultimately have uv: "unat u * unat v \<le> unat mp" "u \<noteq> 0" "v \<noteq> 0"
    "compute_shape_2d rt mp shape = Inr (if b < a then [v, u] else [u, v])"
    using nz eq by simp_all
  then show ?thesis by (cases "b < a") (simp_all add: volume_of_def mult.commute)
qed

lemma max_element_less: "xs \<noteq> [] \<Longrightarrow> max_element xs < length xs"
proof -
  assume ne: "xs \<noteq> []"
  have "foldl (\<lambda>best i. if xs ! best < xs ! i then i else best) b js < length xs"
    if "b < length xs" "\<forall>i \<in> set js. i < length xs" for b js
    using that by (induction js arbitrary: b) auto
  then show ?thesis using ne by (simp add: max_element_def)
qed

lemma shape_nd_step:
  assumes "0 \<notin> set res" "f \<noteq> 0" "length res = n" "length shape = n" "3 \<le> n"
  shows "\<exists>i < n. shape_nd_step n shape f res = Inr (res[i := res ! i * f])"
proof -
  let ?rem = "map2 (\<lambda>s r. (s + r - 1) div r) shape res"
  have l: "length ?rem = n" using assms by simp
  have "max_element ?rem < n" using max_element_less [of ?rem] l assms(5) by fastforce
  moreover have "max_element (butlast ?rem) < n"
  proof -
    have "length (butlast ?rem) = n - 1" using l by simp
    moreover from this have "butlast ?rem \<noteq> []" using assms(5) by (metis diff_is_0_eq list.size(3) not_numeral_le_zero numeral_le_one_iff one_le_numeral order_trans semiring_norm(70))
    ultimately show ?thesis using max_element_less [of "butlast ?rem"] assms(5) by linarith
  qed
  ultimately show ?thesis using assms by (auto simp: shape_nd_step_def Let_def)
qed

lemma shape_nd_loop:
  assumes "length res = n" "0 \<notin> set res" "volume_of res = unat fp" "fp \<le> mp" "unat mp < 2 ^ 32"
    and "length shape = n" "3 \<le> n" "0 \<notin> set fs"
  shows "\<exists>x. shape_nd_loop n mp shape fs fp res = Inr x \<and> length x = n \<and> 0 \<notin> set x \<and> volume_of x \<le> unat mp"
  using assms
proof (induction fs arbitrary: res fp)
  case Nil
  then show ?case by (simp add: word_le_nat_alt)
next
  case (Cons f fs)
  let ?f = "ucast f :: u64"
  have uf: "unat ?f = unat f" by (metis nat_uint_eq uint_ucast_u64)
  have f32: "unat f < 2 ^ 32" by (rule order_less_le_trans [OF unsigned_less]) simp
  have f0: "?f \<noteq> 0" using Cons.prems(8) uf by (metis list.set_intros(1) unat_eq_zero)
  show ?case
  proof (cases "mp < ?f * fp")
    case True
    then show ?thesis using Cons.prems by (simp add: word_le_nat_alt)
  next
    case False
    have p32: "unat fp < 2 ^ 32" using Cons.prems(4,5) by (simp add: word_le_nat_alt)
    have lt: "unat f * unat fp < 2 ^ 64"
      using mult_strict_mono' [OF f32 p32] by simp
    then have m: "unat (?f * fp) = unat f * unat fp" "unat (fp * ?f) = unat fp * unat f"
      using unat_mult_lem [of ?f fp] uf by (simp_all add: mult.commute)
    obtain i where i: "i < n" "shape_nd_step n shape ?f res = Inr (res[i := res ! i * ?f])"
      using shape_nd_step [OF Cons.prems(2) f0 Cons.prems(1,6,7)] by (elim exE conjE)
    have pos: "res ! i \<noteq> 0" using i(1) Cons.prems(1,2) by (metis nth_mem)
    have "unat (res ! i) \<le> unat fp" using volume_of_member [OF Cons.prems(2), of i] i(1) Cons.prems(1,3) by simp
    then have "unat f * unat (res ! i) \<le> unat f * unat fp" by (rule mult_le_mono2)
    then have "unat f * unat (res ! i) < 2 ^ 64" using lt by (rule le_less_trans)
    then have "unat (res ! i) * unat f < 2 ^ 64" by (subst mult.commute)
    then have ri: "unat (res ! i * ?f) = unat (res ! i) * unat f"
      using unat_mult_lem [of "res ! i" ?f] uf by simp
    have "unat (res ! i) \<noteq> 0" "unat f \<noteq> 0" using pos f0 uf by (metis unat_eq_zero)+
    then have nz: "res ! i * ?f \<noteq> 0" using ri by (metis mult_is_0 unat_0)
    have "volume_of (res[i := res ! i * ?f]) * unat (res ! i) = volume_of res * (unat (res ! i) * unat f)"
      using volume_of_update [of i res "res ! i * ?f"] i(1) Cons.prems(1) ri by simp
    then have v: "volume_of (res[i := res ! i * ?f]) = unat (fp * ?f)"
      using \<open>unat (res ! i) \<noteq> 0\<close> Cons.prems(3) m(2) by simp
    have "0 \<notin> set (res[i := res ! i * ?f])"
      using Cons.prems(2) nz by (metis insert_iff set_update_subset_insert subsetD)
    moreover have "fp * ?f \<le> mp" using False by (simp add: not_less mult.commute)
    ultimately have "\<exists>x. shape_nd_loop n mp shape fs (fp * ?f) (res[i := res ! i * ?f]) = Inr x \<and> length x = n \<and>
        0 \<notin> set x \<and> volume_of x \<le> unat mp"
      using Cons.prems v by (intro Cons.IH) simp_all
    then show ?thesis using False i(2) by simp
  qed
qed

text \<open>The factors.\<close>

lemma strip_factor:
  "r \<noteq> 0 \<Longrightarrow> 2 \<le> unat p \<Longrightarrow> unat r < 2 ^ n \<Longrightarrow>
     \<exists>fs r'. strip_factor n p r = Inr (fs, r') \<and> r' \<noteq> 0 \<and> set fs \<subseteq> {p} \<and>
       prod_list (map unat fs) * unat r' = unat r"
proof (induction n arbitrary: r)
  case 0
  then show ?case using unat_gt_0 [of r] by (simp add: strip_factor.simps)
next
  case (Suc n)
  show ?case
  proof (cases "r mod p = 0")
    case True
    have "unat r mod unat p = 0" using True by (metis unat_0 unat_mod)
    then have e: "unat p * unat (r div p) = unat r" by (simp add: unat_div) (metis mult_div_mod_eq add_0_right)
    then have nz: "r div p \<noteq> 0" using Suc.prems(1) by (metis mult_0_right unat_0 unat_eq_zero)
    have "2 * unat (r div p) \<le> unat r" using e Suc.prems(2) by (metis mult_le_mono1)
    then have "unat (r div p) < 2 ^ n" using Suc.prems(3) by simp
    from Suc.IH [OF nz Suc.prems(2) this] obtain fs r' where
      "strip_factor n p (r div p) = Inr (fs, r')" "r' \<noteq> 0" "set fs \<subseteq> {p}"
      "prod_list (map unat fs) * unat r' = unat (r div p)" by blast
    then show ?thesis using True e by (simp add: mult.assoc strip_factor.simps [of "Suc n"])
  qed (use Suc.prems in \<open>simp add: strip_factor.simps\<close>)
qed

lemma strip_factors:
  "r \<noteq> 0 \<Longrightarrow> \<forall>p \<in> set ps. 2 \<le> unat p \<Longrightarrow>
     \<exists>fs r'. strip_factors ps r = Inr fs \<and> set fs \<subseteq> set ps \<and> prod_list (map unat fs) * r' = unat r"
proof (induction ps arbitrary: r)
  case (Cons p ps)
  have "unat r < 2 ^ 32" by (rule order_less_le_trans [OF unsigned_less]) simp
  then obtain fs r' where f: "strip_factor 32 p r = Inr (fs, r')" "r' \<noteq> 0" "set fs \<subseteq> {p}"
      "prod_list (map unat fs) * unat r' = unat r"
    using strip_factor [OF Cons.prems(1), of p 32] Cons.prems(2) by auto
  from Cons.IH [OF f(2)] Cons.prems(2) obtain gs r2 where g: "strip_factors ps r' = Inr gs" "set gs \<subseteq> set ps"
      "prod_list (map unat gs) * r2 = unat r'" by auto
  have "prod_list (map unat (fs @ gs)) * r2 = unat r" using f(4) g(3) by (simp add: mult.assoc)
  then show ?case using f g by (auto simp del: map_append)
qed simp

definition factors_ok :: "factor_cache \<Rightarrow> bool" where
  "factors_ok cache \<longleftrightarrow> (\<forall>k fs. cache k = Some fs \<longrightarrow>
     set fs \<subseteq> {11, 7, 5, 3, 2} \<and> (\<exists>r. prod_list (map unat fs) * r = unat k))"

lemma get_factors:
  assumes "factors_ok cache" "m_count m (m_preferred m) \<noteq> 0"
  shows "\<exists>fs cache'. get_factors cache m = Inr (fs, cache') \<and> factors_ok cache' \<and> set fs \<subseteq> {11, 7, 5, 3, 2}"
proof (cases "cache (m_count m (m_preferred m))")
  case None
  obtain fs r where "strip_factors [11, 7, 5, 3, 2] (m_count m (m_preferred m)) = Inr fs"
    "set fs \<subseteq> set [11, 7, 5, 3, 2]" "prod_list (map unat fs) * r = unat (m_count m (m_preferred m))"
    using strip_factors [OF assms(2), of "[11, 7, 5, 3, 2]"] by auto
  then show ?thesis using None assms(1)
    by (auto simp: get_factors_def Let_def factors_ok_def simp del: strip_factors.simps)
qed (use assms in \<open>auto simp: get_factors_def factors_ok_def Let_def\<close>)

section \<open>Launch shapes satisfy the restrictions\<close>

definition kept_dims :: "restrictions \<Rightarrow> u64 list \<Rightarrow> nat list" where
  "kept_dims r shape = filter (\<lambda>i. \<not> (shape ! i = 1 \<or> dim_restrictions r ! i = FORBID)) [0..<length shape]"

lemma upt_Suc_map: "[0..<Suc n] = 0 # map Suc [0..<n]"
  by (metis map_Suc_upt upt_conv_Cons zero_less_Suc)

lemma prune_loop:
  "length es = length rs \<Longrightarrow> prune_dimensions_loop d rs es shape dims vol =
     (let idx = filter (\<lambda>i. \<not> (es ! i = 1 \<or> rs ! i = FORBID)) [0..<length es]
      in (shape @ map ((!) es) idx, dims @ map ((+) d) idx, fold (*) (map ((!) es) idx) vol))"
proof (induction rs arbitrary: d es shape dims vol)
  case (Cons res rs)
  then obtain e es' where es: "es = e # es'" "length es' = length rs" by (cases es) auto
  have f: "filter (\<lambda>i. \<not> ((e # es') ! i = 1 \<or> (res # rs) ! i = FORBID)) [0..<Suc n]
      = (if e = 1 \<or> res = FORBID then [] else [0]) @ map Suc (filter (\<lambda>i. \<not> (es' ! i = 1 \<or> rs ! i = FORBID)) [0..<n])" for n
    unfolding upt_Suc_map by (simp add: filter_map comp_def)
  have m: "map ((!) (e # es')) (map Suc xs) = map ((!) es') xs" "map ((+) d) (map Suc xs) = map ((+) (Suc d)) xs" for xs
    by simp_all
  show ?case
    unfolding es(1) prune_dimensions_loop.simps list.size(4) One_nat_def add_Suc_right add_0_right f
    by (simp add: Cons.IH [OF es(2)] Let_def m mult.commute del: map_map upt_Suc)
qed simp

lemma prune_dimensions_kept:
  assumes "length shape = length (dim_restrictions r)"
  shows "prune_dimensions r shape = Inr (map ((!) shape) (kept_dims r shape), kept_dims r shape,
    fold (*) (map ((!) shape) (kept_dims r shape)) 1)"
proof -
  have "map ((+) 0) xs = xs" for xs :: "nat list" by (simp add: map_idI)
  then show ?thesis
    using prune_loop [OF assms, of 0 "[]" "[]" 1] assms by (simp add: prune_dimensions_def kept_dims_def Let_def)
qed

lemma kept_dims_simps: "distinct (kept_dims r shape)" "i \<in> set (kept_dims r shape) \<Longrightarrow> i < length shape"
  by (auto simp: kept_dims_def)

lemma volume_of_Cons: "volume_of (x # xs) = unat x * volume_of xs"
  by (simp add: volume_of_def)

lemma volume_of_filter:
  assumes "\<forall>i \<in> set is. f i \<noteq> 0"
  shows "volume_of (map f (filter P is)) \<le> volume_of (map f is)"
  using assms
proof (induction "is")
  case (Cons i "is")
  have "1 \<le> unat (f i)" using Cons.prems by (simp add: Suc_le_eq unat_gt_0)
  then have "volume_of (map f is) \<le> unat (f i) * volume_of (map f is)" by simp
  then show ?case using Cons by (auto simp: volume_of_Cons intro: order_trans)
qed simp

lemma fold_volume: "unat v * volume_of xs < 2 ^ 64 \<Longrightarrow> 0 \<notin> set xs \<Longrightarrow> unat (fold (*) xs v :: u64) = unat v * volume_of xs"
proof (induction xs arbitrary: v)
  case (Cons x xs)
  have "unat v * unat x * 1 \<le> unat v * unat x * volume_of xs"
    using volume_of_pos [of xs] Cons.prems(2) by (intro mult_le_mono) simp_all
  also have "\<dots> < 2 ^ 64" using Cons.prems(1) by (simp only: volume_of_Cons mult.assoc)
  finally have m: "unat (x * v) = unat v * unat x"
    using unat_mult_lem [of x v] by (simp add: mult.commute)
  have "unat (x * v) * volume_of xs < 2 ^ 64"
    unfolding m using Cons.prems(1) by (simp only: volume_of_Cons mult.assoc)
  from Cons.IH [OF this] Cons.prems(2) show ?case by (simp add: m volume_of_Cons mult.assoc)
qed (simp add: volume_of_def)

lemma pruned_volume:
  assumes "0 \<notin> set shape" "volume_of shape < 2 ^ 64"
  shows "unat (fold (*) (map ((!) shape) (kept_dims r shape)) 1 :: u64) = volume_of (map ((!) shape) (kept_dims r shape))"
    "0 \<notin> set (map ((!) shape) (kept_dims r shape))"
proof -
  show nz: "0 \<notin> set (map ((!) shape) (kept_dims r shape))"
    using assms(1) kept_dims_simps(2) nth_mem by force
  have "volume_of (map ((!) shape) (kept_dims r shape)) \<le> volume_of (map ((!) shape) [0..<length shape])"
    unfolding kept_dims_def using assms(1) by (intro volume_of_filter) (metis atLeastLessThan_iff nth_mem set_upt)
  then have "volume_of (map ((!) shape) (kept_dims r shape)) < 2 ^ 64" using assms(2) by (simp add: map_nth)
  then show "unat (fold (*) (map ((!) shape) (kept_dims r shape)) 1 :: u64) = volume_of (map ((!) shape) (kept_dims r shape))"
    using fold_volume [of 1] nz by simp
qed

text \<open>The shape computed for the kept dimensions, in each of the three cases.\<close>

definition pruned_shape ::
  "(u64 \<Rightarrow> u64 \<Rightarrow> u64 \<times> u64) \<Rightarrow> factor_cache \<Rightarrow> machine \<Rightarrow> u64 \<Rightarrow> u64 list \<Rightarrow> u64 \<Rightarrow> (u64 list \<times> factor_cache) result" where
  "pruned_shape rt cache m max_pieces temp_shape volume =
     (let ndim = length temp_shape
      in if ndim = 1 then Inr (compute_shape_1d max_pieces temp_shape, cache)
         else if ndim = 2
         then (if volume < max_pieces then Inr (temp_shape, cache)
               else rbind (compute_shape_2d rt max_pieces temp_shape) (\<lambda>x. Inr (x, cache)))
         else rbind (get_factors cache m) (\<lambda>(factors, cache').
              rbind (compute_shape_nd factors ndim max_pieces temp_shape) (\<lambda>x. Inr (x, cache'))))"

lemma pruned_shape_ok:
  assumes "mp \<noteq> 0" "unat mp < 2 ^ 32" "rt_ok rt mp" "factors_ok cache" "m_count m (m_preferred m) \<noteq> 0"
    and "0 \<notin> set ts" "ts \<noteq> []" "unat vol = volume_of ts"
  shows "\<exists>x cache'. pruned_shape rt cache m mp ts vol = Inr (x, cache') \<and> factors_ok cache' \<and>
    length x = length ts \<and> 0 \<notin> set x \<and> volume_of x \<le> unat mp"
proof -
  consider "length ts = 1" | "length ts = 2" "vol < mp" | "length ts = 2" "\<not> vol < mp" | "3 \<le> length ts"
  proof -
    have "0 < length ts" using assms(7) by simp
    then have "length ts = 1 \<or> length ts = 2 \<or> 3 \<le> length ts" by linarith
    then show ?thesis using that by blast
  qed
  then show ?thesis
  proof cases
    case 1
    then show ?thesis using compute_shape_1d [OF assms(1) 1 assms(6)] assms(4) by (simp add: pruned_shape_def)
  next
    case 2
    then show ?thesis using assms(4,6,8) by (simp add: pruned_shape_def word_less_nat_alt)
  next
    case 3
    from compute_shape_2d [OF assms(1,3) 3(1) assms(6)]
    obtain x where "compute_shape_2d rt mp ts = Inr x" "length x = 2" "0 \<notin> set x" "volume_of x \<le> unat mp"
      by (elim exE conjE)
    then show ?thesis using 3 assms(4) by (simp add: pruned_shape_def)
  next
    case 4
    from get_factors [OF assms(4,5)]
    obtain fs cache' where f: "get_factors cache m = Inr (fs, cache')" "factors_ok cache'" "set fs \<subseteq> {11, 7, 5, 3, 2}"
      by (elim exE conjE)
    have "0 \<notin> set fs" using f(3) by auto
    moreover have "0 \<notin> set (replicate (length ts) (1 :: u64))" "volume_of (replicate (length ts) 1) = unat (1 :: u64)"
      by (auto simp: volume_of_def)
    moreover have "1 \<le> mp" using assms(1) by (simp add: word_le_nat_alt Suc_le_eq unat_gt_0)
    ultimately have "\<exists>x. shape_nd_loop (length ts) mp ts fs 1 (replicate (length ts) 1) = Inr x \<and> length x = length ts \<and>
        0 \<notin> set x \<and> volume_of x \<le> unat mp"
      using assms(2) 4 by (intro shape_nd_loop) simp_all
    then obtain x where "compute_shape_nd fs (length ts) mp ts = Inr x" "length x = length ts" "0 \<notin> set x" "volume_of x \<le> unat mp"
      unfolding compute_shape_nd_def by (elim exE conjE)
    then show ?thesis using f 4 by (simp add: pruned_shape_def)
  qed
qed

definition num_pieces :: "machine \<Rightarrow> parallel_policy \<Rightarrow> u32" where
  "num_pieces m policy = m_count m (m_preferred m) * pp_overdecompose_factor policy"

lemma compute_launch_shape_pruned:
  assumes "length shape = length (dim_restrictions r)"
  shows "compute_launch_shape rt cache m policy r shape =
     rguard (0 < num_pieces m policy) CheckFailed
       (if num_pieces m policy = 1 then Inr ([], cache)
        else if array_volume shape < partitioning_threshold policy (m_preferred m) then Inr ([], cache)
        else let ds = kept_dims r shape; ts = map ((!) shape) ds
             in if ds = [] then Inr ([], cache)
                else rbind (pruned_shape rt cache m (ucast (num_pieces m policy)) ts (fold (*) ts 1)) (\<lambda>(x, cache').
                     rguard (length x = length ds) CheckFailed
                      (let res = fold (\<lambda>idx res. res[ds ! idx := x ! idx]) [0..<length ds] (replicate (length shape) 1)
                       in rbind (minimum_extents_satisfied_by r shape res) (\<lambda>ok. Inr (if ok then res else [], cache')))))"
  by (simp only: compute_launch_shape_def prune_dimensions_kept [OF assms] pruned_shape_def num_pieces_def Let_def rbind_Inr
    prod.case length_map length_0_conv list.map_disc_iff)

lemma satisfied_from_minimum:
  assumes "minimum_extents_satisfied_by r shape cs = Inr True" "length cs = length (dim_restrictions r)"
    and "\<forall>i < length cs. dim_restrictions r ! i = FORBID \<longrightarrow> cs ! i = 1"
  shows "are_satisfied_by r True (Some cs) (Some shape) = Inr True"
proof -
  have f: "list_all2 (\<lambda>res ext. res \<noteq> FORBID \<or> ext = 1) (dim_restrictions r) cs"
    using assms(2,3) by (simp add: list_all2_conv_all_nth)
  show ?thesis
  proof (cases "needs_minimum_extent_check r")
    case True
    then have "any_extent_too_small shape cs (min_extents r) = Inr False"
      using assms(1) by (auto simp: minimum_extents_satisfied_by_def rbind_eq_Inr)
    then show ?thesis using True f assms(2) by (simp add: are_satisfied_by_def)
  qed (use f assms(2) in \<open>simp add: are_satisfied_by_def\<close>)
qed

text \<open>A tile shape is the quotient rounded up, so that the tiles of the colors reach the extent.\<close>

lemma tile_size:
  assumes "c \<noteq> 0" "uint e + uint c \<le> 2 ^ 63"
  defines "s \<equiv> (e + c - 1) div (c :: u64)"
  shows "uint e \<le> uint s * uint c" "uint s * uint c < 2 ^ 63" "uint s < 2 ^ 63"
proof -
  have c1: "1 \<le> uint c" using assms(1) by (simp add: word_neq_0_conv word_less_def)
  then have c2: "1 \<le> uint e + uint c" using uint_ge_0 [of e] by linarith
  have a: "uint (e + c) = uint e + uint c" using assms(2) by (intro uint_add_u64) simp
  then have "uint (e + c - 1) = uint e + uint c - 1" using c2 by (subst uint_diff_u64) simp_all
  then have s: "uint s = (uint e + uint c - 1) div uint c" unfolding s_def by (simp only: uint_div_distrib)
  have "uint s * uint c + (uint e + uint c - 1) mod uint c = uint e + uint c - 1" unfolding s by simp
  moreover have "0 \<le> (uint e + uint c - 1) mod uint c" "(uint e + uint c - 1) mod uint c < uint c"
    using c1 by simp_all
  ultimately show "uint e \<le> uint s * uint c" and p: "uint s * uint c < 2 ^ 63" using assms(2) by linarith+
  have "uint s * 1 \<le> uint s * uint c" using c1 by (intro mult_left_mono) simp_all
  then show "uint s < 2 ^ 63" using p by linarith
qed

lemma scatter_kept:
  fixes x :: "u64 list"
  assumes "length x = length (kept_dims r shape)" "0 \<notin> set x"
    "res = fold (\<lambda>idx res. res[kept_dims r shape ! idx := x ! idx]) [0..<length (kept_dims r shape)] (replicate (length shape) 1)"
  shows "length res = length shape" "0 \<notin> set res" "volume_of res = volume_of x"
    "\<And>j. j < length shape \<Longrightarrow> j \<notin> set (kept_dims r shape) \<Longrightarrow> res ! j = 1"
proof -
  let ?ds = "kept_dims r shape"
  have "length res = length shape \<and> (\<forall>k < length ?ds. res ! (?ds ! k) = x ! k) \<and>
    (\<forall>j < length shape. j \<notin> set ?ds \<longrightarrow> res ! j = 1) \<and> volume_of res = volume_of x"
    using scatter [of ?ds x "replicate (length shape) 1" "length ?ds"] kept_dims_simps assms(1)
    unfolding assms(3) by (auto simp: volume_of_def)
  then have res: "length res = length shape" "\<And>k. k < length ?ds \<Longrightarrow> res ! (?ds ! k) = x ! k"
    "\<And>j. j < length shape \<Longrightarrow> j \<notin> set ?ds \<Longrightarrow> res ! j = 1" "volume_of res = volume_of x" by blast+
  show "0 \<notin> set res"
  proof
    assume "0 \<in> set res"
    then obtain j where j: "j < length shape" "res ! j = 0" using res(1) by (metis in_set_conv_nth)
    then have "j \<in> set ?ds" using res(3) by force
    then obtain k where "k < length ?ds" "?ds ! k = j" by (metis in_set_conv_nth)
    then show False using res(2) j(2) assms(1,2) nth_mem by metis
  qed
  show "length res = length shape" "volume_of res = volume_of x"
    "\<And>j. j < length shape \<Longrightarrow> j \<notin> set ?ds \<Longrightarrow> res ! j = 1" using res by blast+
qed

section \<open>Properties\<close>

text \<open>C36: \<open>compute_launch_shape\<close> returns (its loops end and its checks hold), and what it returns is fit for
  use: either no launch shape at all, or one color count per dimension, none of them zero, at most as
  many colors together as there are pieces, and such that a tiling with these colors satisfies the
  restrictions, minimum extents included.\<close>

theorem launch_shape_correct:
  assumes "restrictions_inv r" "length shape = length (dim_restrictions r)" "0 \<notin> set shape" "volume_of shape < 2 ^ 64"
    and "factors_ok cache" "num_pieces m policy \<noteq> 0" "rt_ok rt (ucast (num_pieces m policy))"
  shows "\<exists>cs cache'. compute_launch_shape rt cache m policy r shape = Inr (cs, cache') \<and> factors_ok cache' \<and>
    (cs \<noteq> [] \<longrightarrow> length cs = length shape \<and> 0 \<notin> set cs \<and> volume_of cs \<le> unat (num_pieces m policy) \<and>
       are_satisfied_by r True (Some cs) (Some shape) = Inr True)"
proof (cases "num_pieces m policy = 1 \<or> array_volume shape < partitioning_threshold policy (m_preferred m) \<or>
    kept_dims r shape = []")
  case True
  then show ?thesis using assms(5,6) by (auto simp: compute_launch_shape_pruned [OF assms(2)] word_gt_0)
next
  case False
  let ?ds = "kept_dims r shape" and ?mp = "ucast (num_pieces m policy) :: u64"
  let ?ts = "map ((!) shape) ?ds"
  have mp: "unat ?mp = unat (num_pieces m policy)" by (metis nat_uint_eq uint_ucast_u64)
  have mp': "?mp \<noteq> 0" "unat ?mp < 2 ^ 32"
    using assms(6) mp unsigned_less [of "num_pieces m policy"] by (metis unat_eq_zero, simp add: mp order_less_le_trans [OF unsigned_less])
  have mc: "m_count m (m_preferred m) \<noteq> 0" using assms(6) by (auto simp: num_pieces_def)
  note pv = pruned_volume [OF assms(3,4), of r]
  from pruned_shape_ok [OF mp' assms(7,5) mc pv(2) _ pv(1)] False
  obtain x cache' where x: "pruned_shape rt cache m ?mp ?ts (fold (*) ?ts 1) = Inr (x, cache')" "factors_ok cache'"
    "length x = length ?ds" "0 \<notin> set x" "volume_of x \<le> unat ?mp"
    by auto
  define res where "res = fold (\<lambda>idx res. res[?ds ! idx := x ! idx]) [0..<length ?ds] (replicate (length shape) 1)"
  note res = scatter_kept [OF x(3,4) res_def]
  have fb: "\<forall>i < length res. dim_restrictions r ! i = FORBID \<longrightarrow> res ! i = 1"
    using res(1,4) by (auto simp: kept_dims_def)
  have ml: "length (min_extents r) = length shape" using assms(1,2) by (simp add: restrictions_inv_def)
  from any_extent_too_small_iff [of res shape "min_extents r"] res(1,2) ml
  have "any_extent_too_small shape res (min_extents r) = Inr (too_small shape res (min_extents r))"
    by simp
  then obtain b where b: "minimum_extents_satisfied_by r shape res = Inr b"
    by (cases "needs_minimum_extent_check r") (auto simp: minimum_extents_satisfied_by_def)
  have eq: "compute_launch_shape rt cache m policy r shape = Inr (if b then res else [], cache')"
    using False x(1,3) b assms(6)
    by (simp add: compute_launch_shape_pruned [OF assms(2)] Let_def word_gt_0 flip: res_def)
  have "b \<Longrightarrow> are_satisfied_by r True (Some res) (Some shape) = Inr True"
    using b res(1) assms(2) fb by (intro satisfied_from_minimum) simp_all
  then show ?thesis using eq x(2,5) res(1-3) mp by auto
qed

lemma launch_shape_correct_witness:
  "\<exists>cs cache'. compute_launch_shape (\<lambda>_ _. (2, 2)) (\<lambda>_. None)
      (mk_machine [CPU \<mapsto> \<lparr>pr_low = 0, pr_high = 4, pr_per_node = 4\<rparr>]) (mk_parallel_policy 1 1 1)
      \<lparr>needs_minimum_extent_check = True, req_invertible = False, dim_restrictions = [ALLOW, FORBID, ALLOW],
        min_extents = [2, 0, 0]\<rparr> [30, 7, 20] = Inr (cs, cache') \<and> factors_ok cache' \<and>
    (cs \<noteq> [] \<longrightarrow> length cs = length [30 :: u64, 7, 20] \<and> 0 \<notin> set cs \<and>
       volume_of cs \<le> unat (num_pieces (mk_machine [CPU \<mapsto> \<lparr>pr_low = 0, pr_high = 4, pr_per_node = 4\<rparr>])
          (mk_parallel_policy 1 1 1)) \<and>
       are_satisfied_by \<lparr>needs_minimum_extent_check = True, req_invertible = False,
         dim_restrictions = [ALLOW, FORBID, ALLOW], min_extents = [2, 0, 0]\<rparr> True (Some cs) (Some [30, 7, 20]) = Inr True)"
proof (rule launch_shape_correct)
  have n: "num_pieces (mk_machine [CPU \<mapsto> \<lparr>pr_low = 0, pr_high = 4, pr_per_node = 4\<rparr>]) (mk_parallel_policy 1 1 1) = 4"
    by (simp add: num_pieces_def mk_machine_def map_entries_def task_targets_def pr_empty_def m_count_def
        processor_range_of_def pr_count_def mk_parallel_policy_def)
  show "num_pieces (mk_machine [CPU \<mapsto> \<lparr>pr_low = 0, pr_high = 4, pr_per_node = 4\<rparr>]) (mk_parallel_policy 1 1 1) \<noteq> 0"
    unfolding n by simp
  show "rt_ok (\<lambda>_ _. (2, 2)) (ucast (num_pieces (mk_machine [CPU \<mapsto> \<lparr>pr_low = 0, pr_high = 4, pr_per_node = 4\<rparr>])
      (mk_parallel_policy 1 1 1)))"
    unfolding n by (simp add: rt_ok_def)
qed (simp_all add: restrictions_inv_def factors_ok_def volume_of_def)

text \<open>The tiling made of a launch shape and the tile shape that \<open>compute_tile_shape\<close> derives from it
  partitions the store: every point of the store lies in the tile of exactly one color. (The tile
  shape is rounded up, with extents and color counts within 63 bits.)\<close>

theorem launch_tiling_complete:
  assumes "legion_matrix L" "length cs = length shape" "0 \<notin> set cs"
    and "\<And>i. i < length shape \<Longrightarrow> uint (shape ! i) + uint (cs ! i) \<le> 2 ^ 63"
    and "length x = length shape" "\<And>i. i < length shape \<Longrightarrow> 0 \<le> x ! i \<and> x ! i < uint (shape ! i)"
  shows "\<exists>tile t. compute_tile_shape shape cs = Inr tile \<and> create_tiling tile cs [] = Inr t \<and>
    (\<exists>!c. has_color t c \<and> in_domain (tile_rect L t c) x)"
proof -
  let ?tile = "map2 (\<lambda>ext shape. (ext + shape - 1) div shape) shape cs"
  let ?t = "\<lparr>tl_overlapped = False, tl_tile_shape = ?tile, tl_color_shape = cs,
    tl_offsets = replicate (length shape) 0, tl_strides = ?tile\<rparr>"
  have r: "compute_tile_shape shape cs = Inr ?tile" "create_tiling ?tile cs [] = Inr ?t"
    using assms(2,3) by (simp_all add: compute_tile_shape_def create_tiling_def Let_def)
  have nz: "cs ! i \<noteq> 0" if "i < length shape" for i using that assms(2,3) by (metis nth_mem)
  note b = tile_size [OF nz assms(4)]
  have lt: "uint (cs ! i) < 2 ^ 63" if "i < length shape" for i
  proof -
    have "0 \<le> x ! i" "x ! i < uint (shape ! i)" "uint (shape ! i) + uint (cs ! i) \<le> 2 ^ 63"
      using assms(4,6) [OF that] by blast+
    then show ?thesis by linarith
  qed
  have wf: "tiling_wf ?t" using b lt assms(2) by (simp add: tiling_wf_def)
  have "\<exists>!c. has_color ?t c \<and> in_domain (tile_rect L ?t c) x"
  proof (rule tiling_complete [OF assms(1) wf])
    fix i assume "i < length x"
    then have i: "i < length shape" using assms(5) by simp
    have "x ! i < uint ((shape ! i + cs ! i - 1) div cs ! i) * uint (cs ! i)"
      using b(1) [OF i i] assms(6) [OF i] by (rule order_less_le_trans [OF conjunct2, rotated])
    then show "tl_offsets ?t ! i \<le> x ! i \<and>
        x ! i < tl_offsets ?t ! i + uint (tl_tile_shape ?t ! i) * uint (tl_color_shape ?t ! i)"
      using i assms(2,6) by simp
  qed (simp_all add: assms(2,5))
  then show ?thesis using r by blast
qed

lemma launch_tiling_complete_witness:
  "\<exists>tile t. compute_tile_shape [10, 7] [3, 2] = Inr tile \<and> create_tiling tile [3, 2] [] = Inr t \<and>
    (\<exists>!c. has_color t c \<and> in_domain (tile_rect std_legion t c) [9, 4])"
  by (rule launch_tiling_complete [OF std.legion_matrix_axioms]) (auto simp: less_Suc_eq)

end
