(* ===== verification/LibraryIds.thy ===== *)
theory LibraryIds
  imports Legate_Prelude
begin

text \<open>
  Libraries and the identifiers they own: src/cpp/legate/runtime/detail/library.h, .inl and .cc, and the
  library and reduction-operator tables of runtime/detail/runtime.cc.

  A library numbers its tasks, reduction operators, projection and sharding functors from 0. Legion
  reserves a block of global identifiers for each kind, and a \<open>ResourceIdScope\<close> translates between
  the two numberings. The first identifier of a block is what Legion returns, a parameter here; its
  documentation promises that the blocks of different libraries do not overlap. Registering the
  variants of a task with Legion (\<open>TaskInfo::register_task\<close>) is a parameter as well. Local identifiers
  are 64-bit integers, which the model takes as \<open>int\<close>; global ones have 32 bits.
\<close>

section \<open>Scopes\<close>

record id_scope =
  sc_base :: int
  sc_size :: int
  sc_next :: int

definition mk_id_scope :: "bool \<Rightarrow> int \<Rightarrow> int \<Rightarrow> int \<Rightarrow> id_scope result" where
  "mk_id_scope debug base sz dyn_size =
     rguard (debug \<longrightarrow> dyn_size \<le> sz) OutOfRange
       (Inr \<lparr>sc_base = base, sc_size = sz, sc_next = sz - dyn_size\<rparr>)"

definition sc_translate :: "id_scope \<Rightarrow> int \<Rightarrow> int result" where
  "sc_translate s local_id = (if sc_size s \<le> local_id then Inl OutOfRange else Inr (sc_base s + local_id))"

definition in_scope :: "id_scope \<Rightarrow> int \<Rightarrow> bool" where
  "in_scope s resource_id \<longleftrightarrow> sc_base s \<le> resource_id \<and> resource_id < sc_base s + sc_size s"

definition sc_invert :: "id_scope \<Rightarrow> int \<Rightarrow> int result" where
  "sc_invert s resource_id = rguard (in_scope s resource_id) CheckFailed (Inr (resource_id - sc_base s))"

definition generate_id :: "id_scope \<Rightarrow> (int \<times> id_scope) result" where
  "generate_id s =
     (if sc_next s = sc_size s then Inl OverflowError
      else Inr (sc_next s, s\<lparr>sc_next := sc_next s + 1\<rparr>))"

section \<open>Libraries\<close>

record resource_config =
  rc_max_tasks :: int
  rc_max_dyn_tasks :: int
  rc_max_reduction_ops :: int
  rc_max_projections :: int
  rc_max_shardings :: int

text \<open>The blocks Legion reserves for a library of a name, by kind and size.\<close>

record legion_ids =
  generate_task_ids :: "string \<Rightarrow> int \<Rightarrow> int"
  generate_reduction_ids :: "string \<Rightarrow> int \<Rightarrow> int"
  generate_projection_ids :: "string \<Rightarrow> int \<Rightarrow> int"
  generate_sharding_ids :: "string \<Rightarrow> int \<Rightarrow> int"

text \<open>A mapper and the default options of the variants are opaque to the library; \<open>0\<close> is the default
  mapper.\<close>

record 'ti library =
  lib_name :: string
  lib_tasks :: id_scope
  lib_redops :: id_scope
  lib_projections :: id_scope
  lib_shardings :: id_scope
  lib_mapper :: nat
  lib_default_options :: "nat \<rightharpoonup> nat"
  lib_task_infos :: "int \<rightharpoonup> 'ti"

definition mk_library ::
  "bool \<Rightarrow> legion_ids \<Rightarrow> string \<Rightarrow> resource_config \<Rightarrow> nat \<Rightarrow> (nat \<rightharpoonup> nat) \<Rightarrow> 'ti library result" where
  "mk_library debug ids name config mapper options =
     rbind (mk_id_scope debug (generate_task_ids ids name (rc_max_tasks config)) (rc_max_tasks config)
       (rc_max_dyn_tasks config)) (\<lambda>tasks.
     rbind (mk_id_scope debug (generate_reduction_ids ids name (rc_max_reduction_ops config))
       (rc_max_reduction_ops config) 0) (\<lambda>redops.
     rbind (mk_id_scope debug (generate_projection_ids ids name (rc_max_projections config))
       (rc_max_projections config) 0) (\<lambda>projections.
     rbind (mk_id_scope debug (generate_sharding_ids ids name (rc_max_shardings config))
       (rc_max_shardings config) 0) (\<lambda>shardings.
     Inr \<lparr>lib_name = name, lib_tasks = tasks, lib_redops = redops, lib_projections = projections,
          lib_shardings = shardings, lib_mapper = mapper, lib_default_options = options,
          lib_task_infos = Map.empty\<rparr>))))"

definition get_task_id :: "'ti library \<Rightarrow> int \<Rightarrow> u32 result" where
  "get_task_id lib k = rbind (sc_translate (lib_tasks lib) k) (\<lambda>g. Inr (word_of_int g))"

definition get_reduction_op_id :: "'ti library \<Rightarrow> int \<Rightarrow> u32 result" where
  "get_reduction_op_id lib k = rbind (sc_translate (lib_redops lib) k) (\<lambda>g. Inr (word_of_int g))"

definition get_projection_id :: "'ti library \<Rightarrow> int \<Rightarrow> u32 result" where
  "get_projection_id lib k =
     (if k = 0 then Inr 0 else rbind (sc_translate (lib_projections lib) k) (\<lambda>g. Inr (word_of_int g)))"

definition get_sharding_id :: "'ti library \<Rightarrow> int \<Rightarrow> u32 result" where
  "get_sharding_id lib k = rbind (sc_translate (lib_shardings lib) k) (\<lambda>g. Inr (word_of_int g))"

definition get_local_task_id :: "'ti library \<Rightarrow> u32 \<Rightarrow> int result" where
  "get_local_task_id lib g = sc_invert (lib_tasks lib) (uint g)"

definition get_local_reduction_op_id :: "'ti library \<Rightarrow> u32 \<Rightarrow> int result" where
  "get_local_reduction_op_id lib g = sc_invert (lib_redops lib) (uint g)"

definition get_local_projection_id :: "'ti library \<Rightarrow> u32 \<Rightarrow> int result" where
  "get_local_projection_id lib g = (if g = 0 then Inr 0 else sc_invert (lib_projections lib) (uint g))"

definition get_local_sharding_id :: "'ti library \<Rightarrow> u32 \<Rightarrow> int result" where
  "get_local_sharding_id lib g = sc_invert (lib_shardings lib) (uint g)"

definition valid_task_id :: "'ti library \<Rightarrow> u32 \<Rightarrow> bool" where
  "valid_task_id lib g \<longleftrightarrow> in_scope (lib_tasks lib) (uint g)"

definition valid_reduction_op_id :: "'ti library \<Rightarrow> u32 \<Rightarrow> bool" where
  "valid_reduction_op_id lib g \<longleftrightarrow> in_scope (lib_redops lib) (uint g)"

definition valid_projection_id :: "'ti library \<Rightarrow> u32 \<Rightarrow> bool" where
  "valid_projection_id lib g \<longleftrightarrow> in_scope (lib_projections lib) (uint g)"

definition valid_sharding_id :: "'ti library \<Rightarrow> u32 \<Rightarrow> bool" where
  "valid_sharding_id lib g \<longleftrightarrow> in_scope (lib_shardings lib) (uint g)"

definition get_new_task_id :: "'ti library \<Rightarrow> (int \<times> 'ti library) result" where
  "get_new_task_id lib = rbind (generate_id (lib_tasks lib)) (\<lambda>(k, s). Inr (k, lib\<lparr>lib_tasks := s\<rparr>))"

text \<open>The result is the library and, where registering fails, the error; a task that already exists
  leaves the library as it is, and a task whose registration with Legion fails is erased again.\<close>

definition register_task ::
  "('ti \<Rightarrow> u32 \<Rightarrow> unit result) \<Rightarrow> int \<Rightarrow> 'ti \<Rightarrow> 'ti library \<Rightarrow> 'ti library \<times> unit result" where
  "register_task legion_register k info lib =
     (case get_task_id lib k of
        Inl e \<Rightarrow> (lib, Inl e)
      | Inr g \<Rightarrow>
          (case lib_task_infos lib k of
             Some old \<Rightarrow> (lib, Inl InvalidArgument)
           | None \<Rightarrow>
               let lib' = lib\<lparr>lib_task_infos := (lib_task_infos lib)(k \<mapsto> info)\<rparr>
               in (case legion_register info g of
                     Inl e \<Rightarrow> (lib'\<lparr>lib_task_infos := (lib_task_infos lib')(k := None)\<rparr>, Inl e)
                   | Inr u \<Rightarrow> (lib', Inr ()))))"

definition find_task :: "'ti library \<Rightarrow> int \<Rightarrow> 'ti result" where
  "find_task lib k = (case lib_task_infos lib k of None \<Rightarrow> Inl OutOfRange | Some info \<Rightarrow> Inr info)"

section \<open>The tables of the runtime\<close>

type_synonym 'ti libraries = "string \<rightharpoonup> 'ti library"

definition create_library ::
  "bool \<Rightarrow> legion_ids \<Rightarrow> string \<Rightarrow> resource_config \<Rightarrow> nat option \<Rightarrow> (nat \<rightharpoonup> nat) \<Rightarrow> 'ti libraries \<Rightarrow>
   ('ti library \<times> 'ti libraries) result" where
  "create_library debug ids name config mapper options libs =
     (if libs name \<noteq> None then Inl InvalidArgument
      else rbind (mk_library debug ids name config (case mapper of None \<Rightarrow> 0 | Some m \<Rightarrow> m) options) (\<lambda>lib.
           Inr (lib, libs(name \<mapsto> lib))))"

definition find_library :: "string \<Rightarrow> 'ti libraries \<Rightarrow> 'ti library option" where
  "find_library name libs = libs name"

definition find_or_create_library ::
  "bool \<Rightarrow> legion_ids \<Rightarrow> string \<Rightarrow> resource_config \<Rightarrow> nat option \<Rightarrow> (nat \<rightharpoonup> nat) \<Rightarrow> 'ti libraries \<Rightarrow>
   ('ti library \<times> bool \<times> 'ti libraries) result" where
  "find_or_create_library debug ids name config mapper options libs =
     (case find_library name libs of
        Some lib \<Rightarrow> Inr (lib, False, libs)
      | None \<Rightarrow> rbind (create_library debug ids name config mapper options libs) (\<lambda>(lib, libs').
          Inr (lib, True, libs')))"

type_synonym redop_table = "nat \<times> int \<rightharpoonup> u32"

definition record_reduction_operator :: "nat \<Rightarrow> int \<Rightarrow> u32 \<Rightarrow> redop_table \<Rightarrow> redop_table result" where
  "record_reduction_operator type_uid op_kind legion_op_id tbl =
     (case tbl (type_uid, op_kind) of
        None \<Rightarrow> Inr (tbl((type_uid, op_kind) \<mapsto> legion_op_id))
      | Some g \<Rightarrow> Inl InvalidArgument)"

definition find_reduction_operator :: "nat \<Rightarrow> int \<Rightarrow> redop_table \<Rightarrow> u32 result" where
  "find_reduction_operator type_uid op_kind tbl =
     (case tbl (type_uid, op_kind) of None \<Rightarrow> Inl InvalidArgument | Some g \<Rightarrow> Inr g)"

section \<open>Scopes and global identifiers\<close>

lemma sc_translate_Inr: "sc_translate s k = Inr g \<longleftrightarrow> k < sc_size s \<and> g = sc_base s + k"
  by (auto simp: sc_translate_def)

lemma sc_invert_translate:
  assumes "0 \<le> k" "sc_translate s k = Inr g"
  shows "in_scope s g" "sc_invert s g = Inr k"
  using assms by (auto simp: sc_translate_Inr in_scope_def sc_invert_def)

text \<open>A block of identifiers that fits in 32 bits.\<close>

definition scope_fits :: "id_scope \<Rightarrow> bool" where
  "scope_fits s \<longleftrightarrow> 0 < sc_base s \<and> sc_base s + sc_size s \<le> 2 ^ 32"

lemma uint_word_of_int_u32: "0 \<le> i \<Longrightarrow> i < 2 ^ 32 \<Longrightarrow> uint (word_of_int i :: u32) = i"
  by (simp add: uint_word_of_int)

lemma uint_translate:
  assumes "scope_fits s" "0 \<le> k" "k < sc_size s"
  shows "uint (word_of_int (sc_base s + k) :: u32) = sc_base s + k"
  using assms by (intro uint_word_of_int_u32) (auto simp: scope_fits_def)

lemma get_projection_id_Inr:
  assumes "scope_fits (lib_projections lib)" "0 < k" "get_projection_id lib k = Inr g"
  shows "uint g = sc_base (lib_projections lib) + k" "k < sc_size (lib_projections lib)" "g \<noteq> 0"
proof -
  from assms(2,3) have k: "k < sc_size (lib_projections lib)" "g = word_of_int (sc_base (lib_projections lib) + k)"
    by (auto simp: get_projection_id_def rbind_eq_Inr sc_translate_Inr)
  show u: "uint g = sc_base (lib_projections lib) + k"
    unfolding k(2) using assms(1,2) k(1) by (intro uint_translate) simp_all
  show "k < sc_size (lib_projections lib)" by (rule k(1))
  have "0 < uint g" unfolding u using assms(1,2) by (simp add: scope_fits_def)
  then show "g \<noteq> 0" by auto
qed

lemma get_sharding_id_Inr:
  assumes "scope_fits (lib_shardings lib)" "0 \<le> k" "get_sharding_id lib k = Inr g"
  shows "uint g = sc_base (lib_shardings lib) + k" "k < sc_size (lib_shardings lib)"
proof -
  from assms(3) have k: "k < sc_size (lib_shardings lib)" "g = word_of_int (sc_base (lib_shardings lib) + k)"
    by (auto simp: get_sharding_id_def rbind_eq_Inr sc_translate_Inr)
  show "uint g = sc_base (lib_shardings lib) + k"
    unfolding k(2) using assms(1,2) k(1) by (intro uint_translate) simp_all
  show "k < sc_size (lib_shardings lib)" by (rule k(1))
qed

text \<open>The blocks that Legion reserved for the tasks, reduction operators, projections and shardings of a
  library.\<close>

definition lib_scopes :: "'ti library \<Rightarrow> id_scope list" where
  "lib_scopes lib = [lib_tasks lib, lib_redops lib, lib_projections lib, lib_shardings lib]"

lemma mk_library_scopes:
  assumes "mk_library debug ids name config mapper options = Inr lib"
  shows "map sc_size (lib_scopes lib)
      = [rc_max_tasks config, rc_max_reduction_ops config, rc_max_projections config, rc_max_shardings config]"
    "map sc_base (lib_scopes lib)
      = [generate_task_ids ids name (rc_max_tasks config), generate_reduction_ids ids name (rc_max_reduction_ops config),
         generate_projection_ids ids name (rc_max_projections config), generate_sharding_ids ids name (rc_max_shardings config)]"
  using assms by (auto simp: mk_library_def mk_id_scope_def rbind_eq_Inr rguard_eq_Inr lib_scopes_def)

text \<open>Drawing \<open>n\<close> dynamic task identifiers in a row.\<close>

fun new_task_ids :: "nat \<Rightarrow> 'ti library \<Rightarrow> (int list \<times> 'ti library) result" where
  "new_task_ids 0 lib = Inr ([], lib)"
| "new_task_ids (Suc n) lib =
     rbind (get_new_task_id lib) (\<lambda>(k, lib1). rbind (new_task_ids n lib1) (\<lambda>(ks, lib2). Inr (k # ks, lib2)))"

lemma get_new_task_id_eq:
  "get_new_task_id lib = (if sc_next (lib_tasks lib) = sc_size (lib_tasks lib) then Inl OverflowError
     else Inr (sc_next (lib_tasks lib), lib\<lparr>lib_tasks := (lib_tasks lib)\<lparr>sc_next := sc_next (lib_tasks lib) + 1\<rparr>\<rparr>))"
  by (simp add: get_new_task_id_def generate_id_def)

lemma new_task_ids_eq:
  assumes "sc_next (lib_tasks lib) \<le> sc_size (lib_tasks lib)"
  shows "new_task_ids n lib =
    (if int n \<le> sc_size (lib_tasks lib) - sc_next (lib_tasks lib)
     then Inr (map (\<lambda>i. sc_next (lib_tasks lib) + int i) [0..<n],
       lib\<lparr>lib_tasks := (lib_tasks lib)\<lparr>sc_next := sc_next (lib_tasks lib) + int n\<rparr>\<rparr>)
     else Inl OverflowError)"
  using assms
proof (induction n arbitrary: lib)
  case (Suc n)
  show ?case
  proof (cases "sc_next (lib_tasks lib) = sc_size (lib_tasks lib)")
    case False
    let ?lib = "lib\<lparr>lib_tasks := (lib_tasks lib)\<lparr>sc_next := sc_next (lib_tasks lib) + 1\<rparr>\<rparr>"
    have "sc_next (lib_tasks ?lib) \<le> sc_size (lib_tasks ?lib)" using False Suc.prems by simp
    note ih = Suc.IH [OF this]
    have m: "map (\<lambda>i. sc_next (lib_tasks lib) + int i) [0..<Suc n]
        = sc_next (lib_tasks lib) # map (\<lambda>i. sc_next (lib_tasks lib) + 1 + int i) [0..<n]"
      unfolding upt_conv_Cons [OF zero_less_Suc] by (simp add: map_Suc_upt [symmetric] comp_def del: upt_Suc map_Suc_upt)
    show ?thesis using False ih unfolding m
      by (simp add: get_new_task_id_eq algebra_simps)
  qed (simp add: get_new_task_id_eq)
qed simp

lemma erase_absent_task: "lib_task_infos lib k = None \<Longrightarrow> lib\<lparr>lib_task_infos := (lib_task_infos lib)(k := None)\<rparr> = lib"
  by (cases lib) (simp add: fun_upd_idem)

section \<open>Properties\<close>

text \<open>Translating the local identifier of a task, reduction operator, projection or sharding functor
  to a global one succeeds for every local identifier below the library's maximum, the global
  identifier belongs to the library and translates back to the local one.\<close>

theorem library_ids_roundtrip:
  assumes "mk_library debug ids name config mapper options = Inr lib" "\<forall>s \<in> set (lib_scopes lib). scope_fits s" "0 \<le> k"
  shows "(k < rc_max_tasks config \<longrightarrow>
      (\<exists>g. get_task_id lib k = Inr g \<and> valid_task_id lib g \<and> get_local_task_id lib g = Inr k)) \<and>
    (k < rc_max_reduction_ops config \<longrightarrow>
      (\<exists>g. get_reduction_op_id lib k = Inr g \<and> valid_reduction_op_id lib g \<and> get_local_reduction_op_id lib g = Inr k)) \<and>
    (0 < k \<and> k < rc_max_projections config \<longrightarrow>
      (\<exists>g. get_projection_id lib k = Inr g \<and> valid_projection_id lib g \<and> get_local_projection_id lib g = Inr k)) \<and>
    (k < rc_max_shardings config \<longrightarrow>
      (\<exists>g. get_sharding_id lib k = Inr g \<and> valid_sharding_id lib g \<and> get_local_sharding_id lib g = Inr k))"
proof -
  have f: "scope_fits (lib_tasks lib)" "scope_fits (lib_redops lib)" "scope_fits (lib_projections lib)"
    "scope_fits (lib_shardings lib)" using assms(2) by (simp_all add: lib_scopes_def)
  have sz: "sc_size (lib_tasks lib) = rc_max_tasks config" "sc_size (lib_redops lib) = rc_max_reduction_ops config"
    "sc_size (lib_projections lib) = rc_max_projections config" "sc_size (lib_shardings lib) = rc_max_shardings config"
    using mk_library_scopes(1) [OF assms(1)] by (simp_all add: lib_scopes_def)
  have t: "sc_translate s k = Inr (sc_base s + k)" if "k < sc_size s" for s using that by (simp add: sc_translate_Inr)
  note inv = sc_invert_translate [OF assms(3) t]
  show ?thesis
    using inv [of "lib_tasks lib"] inv [of "lib_redops lib"] inv [of "lib_projections lib"] inv [of "lib_shardings lib"]
      uint_translate [OF f(1) assms(3)] uint_translate [OF f(2) assms(3)] uint_translate [OF f(3) assms(3)]
      uint_translate [OF f(4) assms(3)] f(3) assms(3)
    unfolding sz [symmetric]
    by (auto simp: get_task_id_def get_reduction_op_id_def get_projection_id_def get_sharding_id_def t valid_task_id_def
        valid_reduction_op_id_def valid_projection_id_def valid_sharding_id_def get_local_task_id_def
        get_local_reduction_op_id_def get_local_projection_id_def get_local_sharding_id_def scope_fits_def
        dest: arg_cong [of _ 0 uint])
qed

lemma library_ids_roundtrip_witness:
  "\<exists>lib :: nat library. mk_library True \<lparr>generate_task_ids = \<lambda>n c. 1000, generate_reduction_ids = \<lambda>n c. 2000,
      generate_projection_ids = \<lambda>n c. 3000, generate_sharding_ids = \<lambda>n c. 4000\<rparr> ''lib''
      \<lparr>rc_max_tasks = 10, rc_max_dyn_tasks = 2, rc_max_reduction_ops = 5, rc_max_projections = 7, rc_max_shardings = 7\<rparr>
      0 Map.empty = Inr lib \<and>
    (\<exists>g. get_task_id lib 4 = Inr g \<and> valid_task_id lib g \<and> get_local_task_id lib g = Inr 4)"
proof -
  let ?ids = "\<lparr>generate_task_ids = \<lambda>n c. 1000, generate_reduction_ids = \<lambda>n c. 2000,
      generate_projection_ids = \<lambda>n c. 3000, generate_sharding_ids = \<lambda>n c. 4000\<rparr>"
  let ?config = "\<lparr>rc_max_tasks = 10, rc_max_dyn_tasks = 2, rc_max_reduction_ops = 5, rc_max_projections = 7,
      rc_max_shardings = 7\<rparr>"
  obtain lib :: "nat library" where lib: "mk_library True ?ids ''lib'' ?config 0 Map.empty = Inr lib"
    "\<forall>s \<in> set (lib_scopes lib). scope_fits s"
    by (simp add: mk_library_def mk_id_scope_def lib_scopes_def scope_fits_def)
  show ?thesis using library_ids_roundtrip [OF lib, of 4] lib(1) by auto
qed

text \<open>C40: Registering a task either fails and leaves the library as it was, or adds exactly that task:
  it was not there before, Legion accepted its variants under the task's global identifier, and from
  then on it is found; registering it again fails.\<close>

theorem register_task_atomic:
  "case register_task legion_register k info lib of
     (lib', Inl e) \<Rightarrow> lib' = lib
   | (lib', Inr u) \<Rightarrow> find_task lib k = Inl OutOfRange \<and>
       (\<exists>g. get_task_id lib k = Inr g \<and> legion_register info g = Inr ()) \<and>
       (\<forall>j. find_task lib' j = (if j = k then Inr info else find_task lib j)) \<and>
       register_task legion_register k info' lib' = (lib', Inl InvalidArgument)"
  by (auto simp: register_task_def find_task_def get_task_id_def Let_def erase_absent_task split: sum.split option.split)

text \<open>A library hands out the dynamic task identifiers of its configuration one after the other,
  from the first one up, all different and below the maximum, and throws once they are used up.\<close>

theorem new_task_ids_fresh:
  assumes "mk_library debug ids name config mapper options = Inr lib" "0 \<le> rc_max_dyn_tasks config"
  shows "new_task_ids n lib =
    (if int n \<le> rc_max_dyn_tasks config
     then Inr (map (\<lambda>i. rc_max_tasks config - rc_max_dyn_tasks config + int i) [0..<n],
       lib\<lparr>lib_tasks := (lib_tasks lib)\<lparr>sc_next := rc_max_tasks config - rc_max_dyn_tasks config + int n\<rparr>\<rparr>)
     else Inl OverflowError)"
proof -
  have "sc_next (lib_tasks lib) = rc_max_tasks config - rc_max_dyn_tasks config" "sc_size (lib_tasks lib) = rc_max_tasks config"
    using assms(1) by (auto simp: mk_library_def mk_id_scope_def rbind_eq_Inr rguard_eq_Inr)
  then show ?thesis using assms(2) new_task_ids_eq [of lib n] by simp
qed

lemma new_task_ids_fresh_witness:
  "\<exists>lib :: nat library. mk_library True \<lparr>generate_task_ids = \<lambda>n c. 1000, generate_reduction_ids = \<lambda>n c. 2000,
      generate_projection_ids = \<lambda>n c. 3000, generate_sharding_ids = \<lambda>n c. 4000\<rparr> ''lib''
      \<lparr>rc_max_tasks = 10, rc_max_dyn_tasks = 2, rc_max_reduction_ops = 5, rc_max_projections = 7, rc_max_shardings = 7\<rparr>
      0 Map.empty = Inr lib \<and> new_task_ids 3 lib = Inl OverflowError"
proof -
  let ?ids = "\<lparr>generate_task_ids = \<lambda>n c. 1000, generate_reduction_ids = \<lambda>n c. 2000,
      generate_projection_ids = \<lambda>n c. 3000, generate_sharding_ids = \<lambda>n c. 4000\<rparr>"
  let ?config = "\<lparr>rc_max_tasks = 10, rc_max_dyn_tasks = 2, rc_max_reduction_ops = 5, rc_max_projections = 7,
      rc_max_shardings = 7\<rparr>"
  obtain lib :: "nat library" where lib: "mk_library True ?ids ''lib'' ?config 0 Map.empty = Inr lib"
    by (simp add: mk_library_def mk_id_scope_def)
  show ?thesis using new_task_ids_fresh [OF lib, of 3] lib by simp
qed

text \<open>The lower end of a local identifier is not checked: \<open>translate\<close> turns -1 into the identifier below
  the library's block, which the library does not own.\<close>

lemma translate_negative:
  "sc_translate \<lparr>sc_base = 100, sc_size = 10, sc_next = 10\<rparr> (-1) = Inr 99"
  "\<not> in_scope \<lparr>sc_base = 100, sc_size = 10, sc_next = 10\<rparr> 99"
  by (simp_all add: sc_translate_def in_scope_def)

end
