(* ===== verification/Projections.thy ===== *)
theory Projections
  imports LibraryIds Shard
begin

text \<open>
  The projection and sharding functors the runtime creates on demand:
  src/cpp/legate/runtime/detail/runtime.cc, \<open>get_affine_projection\<close>, \<open>get_delinearizing_projection\<close>,
  \<open>get_compound_projection\<close> and \<open>get_sharding\<close>. Each keeps a table from the description of a functor to
  its identifier, and registers a new functor under the next identifier of the core library where the
  description is new.

  The contract of such a table is the locale \<open>registry\<close>: what a request returns means what the key
  says, and requests never change what earlier ones returned. Both tables are instances.
\<close>

text \<open>The core library is the library of the runtime itself; what the table of its tasks holds does not
  matter here.\<close>

type_synonym core_library = "nat library"

section \<open>Projection functors\<close>

record projections =
  pj_next_projection :: int
  pj_affine :: "nat \<times> symbolic_point \<Rightarrow> u32 option"
  pj_delinearizing :: "u64 list \<Rightarrow> u32 option"
  pj_compound :: "u64 list \<times> symbolic_point \<Rightarrow> u32 option"
  pj_functors :: functor_table
  pj_max_dim :: nat

text \<open>\<open>pj_max_dim\<close> is the constant \<open>LEGATE_MAX_DIM\<close>, which the build sets to 6 unless it is told otherwise.\<close>

definition FIRST_DYNAMIC_FUNCTOR :: int where
  "FIRST_DYNAMIC_FUNCTOR = 10"

definition empty_projections :: projections where
  "empty_projections = \<lparr>pj_next_projection = FIRST_DYNAMIC_FUNCTOR, pj_affine = Map.empty,
     pj_delinearizing = Map.empty, pj_compound = Map.empty, pj_functors = Map.empty, pj_max_dim = 6\<rparr>"

definition get_affine_projection ::
  "core_library \<Rightarrow> nat \<Rightarrow> symbolic_point \<Rightarrow> projections \<Rightarrow> (u32 \<times> projections) result" where
  "get_affine_projection core src_ndim point pj =
     (if sp_is_identity src_ndim point then Inr (0, pj)
      else case pj_affine pj (src_ndim, point) of
        Some proj_id \<Rightarrow> Inr (proj_id, pj)
      | None \<Rightarrow>
          rbind (get_projection_id core (pj_next_projection pj)) (\<lambda>proj_id.
          rbind (register_affine_projection_functor (pj_max_dim pj) src_ndim point (unat proj_id) (pj_functors pj)) (\<lambda>functors.
          Inr (proj_id, pj\<lparr>pj_next_projection := pj_next_projection pj + 1, pj_functors := functors,
            pj_affine := (pj_affine pj)((src_ndim, point) \<mapsto> proj_id)\<rparr>))))"

definition get_delinearizing_projection ::
  "core_library \<Rightarrow> u64 list \<Rightarrow> projections \<Rightarrow> (u32 \<times> projections) result" where
  "get_delinearizing_projection core color_shape pj =
     (case pj_delinearizing pj color_shape of
        Some proj_id \<Rightarrow> Inr (proj_id, pj)
      | None \<Rightarrow>
          rbind (get_projection_id core (pj_next_projection pj)) (\<lambda>proj_id.
          rbind (register_delinearizing_projection_functor color_shape (unat proj_id) (pj_functors pj)) (\<lambda>functors.
          Inr (proj_id, pj\<lparr>pj_next_projection := pj_next_projection pj + 1, pj_functors := functors,
            pj_delinearizing := (pj_delinearizing pj)(color_shape \<mapsto> proj_id)\<rparr>))))"

definition get_compound_projection ::
  "core_library \<Rightarrow> u64 list \<Rightarrow> symbolic_point \<Rightarrow> projections \<Rightarrow> (u32 \<times> projections) result" where
  "get_compound_projection core color_shape point pj =
     (case pj_compound pj (color_shape, point) of
        Some proj_id \<Rightarrow> Inr (proj_id, pj)
      | None \<Rightarrow>
          rbind (get_projection_id core (pj_next_projection pj)) (\<lambda>proj_id.
          rbind (register_compound_projection_functor (pj_max_dim pj) color_shape point (unat proj_id) (pj_functors pj)) (\<lambda>functors.
          Inr (proj_id, pj\<lparr>pj_next_projection := pj_next_projection pj + 1, pj_functors := functors,
            pj_compound := (pj_compound pj)((color_shape, point) \<mapsto> proj_id)\<rparr>))))"

section \<open>Sharding functors\<close>

text \<open>\<open>sh_functors\<close> are the sharding functors registered with Legion: the projection and the processor
  range of each.\<close>

record shardings =
  sh_next_sharding :: int
  sh_registered :: "u32 \<times> processor_range \<Rightarrow> u32 option"
  sh_table :: sharding_table
  sh_functors :: "u32 \<Rightarrow> (projection_function \<times> processor_range) option"

definition empty_shardings :: shardings where
  "empty_shardings = \<lparr>sh_next_sharding = FIRST_DYNAMIC_FUNCTOR, sh_registered = Map.empty,
     sh_table = Map.empty, sh_functors = Map.empty\<rparr>"

definition get_sharding ::
  "core_library \<Rightarrow> nat \<Rightarrow> functor_table \<Rightarrow> machine \<Rightarrow> u32 \<Rightarrow> shardings \<Rightarrow> (u32 \<times> shardings) result" where
  "get_sharding core max_node_id functors m proj_id sh =
     (if max_node_id = 0 then Inr (0, sh)
      else let proc_range = processor_range_of m (m_preferred m)
           in case sh_registered sh (proj_id, proc_range) of
                Some sharding_id \<Rightarrow> Inr (sharding_id, sh)
              | None \<Rightarrow>
                  rbind (get_sharding_id core (sh_next_sharding sh)) (\<lambda>sharding_id.
                  rbind (create_sharding_functor_using_projection (unat sharding_id) (unat proj_id) functors
                    proc_range (sh_table sh)) (\<lambda>(table, functor).
                  Inr (sharding_id, sh\<lparr>sh_next_sharding := sh_next_sharding sh + 1,
                    sh_registered := (sh_registered sh)((proj_id, proc_range) \<mapsto> sharding_id),
                    sh_table := table, sh_functors := (sh_functors sh)(sharding_id \<mapsto> functor)\<rparr>))))"

section \<open>The contract of a registry\<close>

text \<open>A registry hands out identifiers for keys. \<open>denotes s i\<close> is what the identifier \<open>i\<close> stands for in
  the state \<open>s\<close>, \<open>means k f\<close> says that \<open>f\<close> is what the key \<open>k\<close> asks for.\<close>

locale registry =
  fixes request :: "'k \<Rightarrow> 's \<Rightarrow> ('i \<times> 's) result"
    and denotes :: "'s \<Rightarrow> 'i \<Rightarrow> 'f option"
    and means :: "'k \<Rightarrow> 'f \<Rightarrow> bool"
    and good :: "'s \<Rightarrow> bool"
  assumes request_good: "good s \<Longrightarrow> request k s = Inr (i, s') \<Longrightarrow> good s'"
    and request_means: "good s \<Longrightarrow> request k s = Inr (i, s') \<Longrightarrow> \<exists>f. denotes s' i = Some f \<and> means k f"
    and request_keeps: "good s \<Longrightarrow> request k s = Inr (j, s') \<Longrightarrow> denotes s i = Some f \<Longrightarrow> denotes s' i = Some f"
    and request_again: "good s \<Longrightarrow> request k s = Inr (i, s') \<Longrightarrow> request k s' = Inr (i, s')"
    and request_other: "good s \<Longrightarrow> request k s = Inr (i, s) \<Longrightarrow> request k' s = Inr (j, s') \<Longrightarrow>
      request k s' = Inr (i, s')"
begin

fun requests :: "'k list \<Rightarrow> 's \<Rightarrow> ('i list \<times> 's) result" where
  "requests [] s = Inr ([], s)"
| "requests (k # ks) s =
     rbind (request k s) (\<lambda>(i, s1). rbind (requests ks s1) (\<lambda>(is, s2). Inr (i # is, s2)))"

lemma requests_good: "good s \<Longrightarrow> requests ks s = Inr (is, s') \<Longrightarrow> good s'"
  by (induction ks arbitrary: s "is") (auto simp: rbind_eq_Inr intro: request_good)

lemma requests_keep:
  "good s \<Longrightarrow> requests ks s = Inr (is, s') \<Longrightarrow> denotes s i = Some f \<Longrightarrow> denotes s' i = Some f"
  by (induction ks arbitrary: s "is") (auto simp: rbind_eq_Inr dest: request_good request_keeps)

lemma requests_cached:
  "good s \<Longrightarrow> request k s = Inr (i, s) \<Longrightarrow> requests ks s = Inr (is, s') \<Longrightarrow> request k s' = Inr (i, s')"
proof (induction ks arbitrary: s "is")
  case (Cons k' ks)
  from Cons.prems(3) obtain j s1 "is'" where "request k' s = Inr (j, s1)" "requests ks s1 = Inr (is', s')"
    by (auto simp: rbind_eq_Inr)
  then show ?case using Cons.prems(1,2) by (intro Cons.IH [of s1]) (auto intro: request_good request_other)
qed simp

lemma request_stable:
  assumes "good s" "request k s = Inr (i, s1)" "requests ks s1 = Inr (is, s2)"
  shows "\<exists>f. denotes s1 i = Some f \<and> denotes s2 i = Some f \<and> means k f \<and> request k s2 = Inr (i, s2)"
proof -
  have g: "good s1" using assms(1,2) by (rule request_good)
  obtain f where f: "denotes s1 i = Some f" "means k f" using request_means [OF assms(1,2)] by blast
  have "request k s2 = Inr (i, s2)" by (rule requests_cached [OF g request_again [OF assms(1,2)] assms(3)])
  then show ?thesis using f requests_keep [OF g assms(3) f(1)] by blast
qed

end

section \<open>The projections are a registry\<close>

datatype projection_desc =
    AffineDesc nat symbolic_point
  | DelinearizingDesc "u64 list"
  | CompoundDesc "u64 list" symbolic_point

fun get_projection :: "core_library \<Rightarrow> projection_desc \<Rightarrow> projections \<Rightarrow> (u32 \<times> projections) result" where
  "get_projection core (AffineDesc n sp) pj = get_affine_projection core n sp pj"
| "get_projection core (DelinearizingDesc cs) pj = get_delinearizing_projection core cs pj"
| "get_projection core (CompoundDesc cs sp) pj = get_compound_projection core cs sp pj"

fun pj_lookup :: "projections \<Rightarrow> projection_desc \<Rightarrow> u32 option" where
  "pj_lookup pj (AffineDesc n sp) = pj_affine pj (n, sp)"
| "pj_lookup pj (DelinearizingDesc cs) = pj_delinearizing pj cs"
| "pj_lookup pj (CompoundDesc cs sp) = pj_compound pj (cs, sp)"

fun trivial_desc :: "projection_desc \<Rightarrow> bool" where
  "trivial_desc (AffineDesc n sp) = sp_is_identity n sp"
| "trivial_desc _ = False"

fun desc_functor :: "projection_desc \<Rightarrow> projection_function result" where
  "desc_functor (AffineDesc n sp) = Inr (AffineProjection (mk_affine_projection n sp))"
| "desc_functor (DelinearizingDesc cs) =
     rbind (mk_delinearizing_projection cs) (\<lambda>st. Inr (DelinearizingProjection st))"
| "desc_functor (CompoundDesc cs sp) =
     rbind (mk_delinearizing_projection cs) (\<lambda>st. Inr (CompoundProjection st (mk_affine_projection (length cs) sp)))"

definition means_projection :: "projection_desc \<Rightarrow> projection_function \<Rightarrow> bool" where
  "means_projection d f \<longleftrightarrow> (if trivial_desc d then f = IdentityProjection else desc_functor d = Inr f)"

definition denotes_projection :: "projections \<Rightarrow> u32 \<Rightarrow> projection_function option" where
  "denotes_projection pj i = (if i = 0 then Some IdentityProjection else pj_functors pj (unat i))"

lemma find_projection_denotes:
  "find_projection_function (unat i) (pj_functors pj) = Inr f \<longleftrightarrow> denotes_projection pj i = Some f"
  by (auto simp: find_projection_function_def denotes_projection_def unat_eq_zero split: option.splits)

text \<open>The invariant: the identifiers in use come from local identifiers below the next one, and every
  description in the tables has its functor registered under an identifier of its own.\<close>

definition used_id :: "core_library \<Rightarrow> int \<Rightarrow> nat \<Rightarrow> bool" where
  "used_id core next i \<longleftrightarrow> (\<exists>k g. 0 < k \<and> k < next \<and> get_projection_id core k = Inr g \<and> i = unat g)"

definition projections_inv :: "core_library \<Rightarrow> projections \<Rightarrow> bool" where
  "projections_inv core pj \<longleftrightarrow>
     0 < pj_next_projection pj \<and>
     (\<forall>i f. pj_functors pj i = Some f \<longrightarrow> used_id core (pj_next_projection pj) i) \<and>
     (\<forall>d g. pj_lookup pj d = Some g \<longrightarrow> g \<noteq> 0 \<and> (\<exists>f. desc_functor d = Inr f \<and> pj_functors pj (unat g) = Some f)) \<and>
     (\<forall>d d' g. pj_lookup pj d = Some g \<longrightarrow> pj_lookup pj d' = Some g \<longrightarrow> d = d')"

lemma used_id_less:
  assumes "scope_fits (lib_projections core)" "used_id core next i"
  shows "int i < sc_base (lib_projections core) + next"
  using assms get_projection_id_Inr [of core] by (auto simp: used_id_def)

lemma used_id_mono: "used_id core n i \<Longrightarrow> n \<le> m \<Longrightarrow> used_id core m i"
  unfolding used_id_def by (elim exE conjE) (intro exI conjI, assumption, erule (1) order_less_le_trans, assumption, assumption)

lemma empty_projections_inv: "projections_inv core empty_projections"
proof -
  have "pj_lookup empty_projections d = None" for d by (cases d) (simp_all add: empty_projections_def)
  then show ?thesis by (simp add: projections_inv_def) (simp add: empty_projections_def FIRST_DYNAMIC_FUNCTOR_def)
qed

text \<open>What a request does: nothing for an identity or a known description, otherwise a registration under
  an identifier that is not in use.\<close>

definition registers :: "core_library \<Rightarrow> projection_desc \<Rightarrow> projections \<Rightarrow> u32 \<Rightarrow> projections \<Rightarrow> bool" where
  "registers core d pj g pj' \<longleftrightarrow>
     pj_lookup pj d = None \<and> get_projection_id core (pj_next_projection pj) = Inr g \<and>
     pj_next_projection pj' = pj_next_projection pj + 1 \<and>
     (\<exists>f. desc_functor d = Inr f \<and> pj_functors pj' = register_legion_functor (unat g) f (pj_functors pj)) \<and>
     (\<forall>d'. pj_lookup pj' d' = (if d' = d then Some g else pj_lookup pj d'))"

lemma get_projection_cases:
  "get_projection core d pj = Inr (g, pj') \<Longrightarrow>
     trivial_desc d \<and> g = 0 \<and> pj' = pj \<or>
     \<not> trivial_desc d \<and> pj_lookup pj d = Some g \<and> pj' = pj \<or>
     \<not> trivial_desc d \<and> registers core d pj g pj'"
proof (induction core d pj rule: get_projection.induct)
  case (1 core n sp pj)
  show ?case
  proof (cases "sp_is_identity n sp \<or> pj_affine pj (n, sp) \<noteq> None")
    case False
    have "pj_lookup pj' d' = (if d' = AffineDesc n sp then Some g else pj_lookup pj d')" for d'
      using 1 False by (cases d') (auto simp: get_affine_projection_def rbind_eq_Inr)
    then show ?thesis using 1 False
      by (auto simp: get_affine_projection_def rbind_eq_Inr rguard_eq_Inr registers_def register_affine_projection_functor_def)
  qed (use 1 in \<open>auto simp: get_affine_projection_def split: if_splits\<close>)
next
  case (2 core cs pj)
  show ?case
  proof (cases "pj_delinearizing pj cs")
    case None
    have "pj_lookup pj' d' = (if d' = DelinearizingDesc cs then Some g else pj_lookup pj d')" for d'
      using 2 None by (cases d') (auto simp: get_delinearizing_projection_def rbind_eq_Inr)
    then show ?thesis using 2 None
      by (auto simp: get_delinearizing_projection_def rbind_eq_Inr registers_def register_delinearizing_projection_functor_def)
  qed (use 2 in \<open>simp add: get_delinearizing_projection_def\<close>)
next
  case (3 core cs sp pj)
  show ?case
  proof (cases "pj_compound pj (cs, sp)")
    case None
    have "pj_lookup pj' d' = (if d' = CompoundDesc cs sp then Some g else pj_lookup pj d')" for d'
      using 3 None by (cases d') (auto simp: get_compound_projection_def rbind_eq_Inr)
    then show ?thesis using 3 None
      by (auto simp: get_compound_projection_def rbind_eq_Inr rguard_eq_Inr registers_def register_compound_projection_functor_def)
  qed (use 3 in \<open>simp add: get_compound_projection_def\<close>)
qed

lemma get_projection_known: "trivial_desc d \<Longrightarrow> get_projection core d pj = Inr (0, pj)"
  "\<not> trivial_desc d \<Longrightarrow> pj_lookup pj d = Some g \<Longrightarrow> get_projection core d pj = Inr (g, pj)"
  by (cases d; simp add: get_affine_projection_def get_delinearizing_projection_def get_compound_projection_def)+

lemma registers_fresh:
  assumes "scope_fits (lib_projections core)" "projections_inv core pj" "registers core d pj g pj'"
  obtains f where "g \<noteq> 0" "pj_functors pj (unat g) = None" "desc_functor d = Inr f"
    "pj_functors pj' = (pj_functors pj)(unat g \<mapsto> f)"
proof -
  let ?n = "pj_next_projection pj"
  have id: "get_projection_id core ?n = Inr g" and pos: "0 < ?n"
    using assms(2,3) by (simp_all add: registers_def projections_inv_def)
  note g = get_projection_id_Inr [OF assms(1) pos id]
  have fresh: "pj_functors pj (unat g) = None"
  proof (rule ccontr)
    assume "pj_functors pj (unat g) \<noteq> None"
    then have "used_id core ?n (unat g)" using assms(2) by (auto simp: projections_inv_def)
    from used_id_less [OF assms(1) this] show False using g(1) by simp
  qed
  obtain f where f: "desc_functor d = Inr f" "pj_functors pj' = register_legion_functor (unat g) f (pj_functors pj)"
    using assms(3) by (auto simp: registers_def)
  then have "pj_functors pj' = (pj_functors pj)(unat g \<mapsto> f)" using fresh by (simp add: register_legion_functor_def)
  then show ?thesis by (rule that [OF g(3) fresh f(1)])
qed

lemma registers_inv:
  assumes "scope_fits (lib_projections core)" "projections_inv core pj" "registers core d pj g pj'"
  shows "projections_inv core pj'"
proof -
  obtain f where f: "g \<noteq> 0" "pj_functors pj (unat g) = None" "desc_functor d = Inr f"
    "pj_functors pj' = (pj_functors pj)(unat g \<mapsto> f)"
    by (rule registers_fresh [OF assms])
  let ?n = "pj_next_projection pj"
  have r: "pj_next_projection pj' = ?n + 1" "\<And>d'. pj_lookup pj' d' = (if d' = d then Some g else pj_lookup pj d')"
    "get_projection_id core ?n = Inr g"
    using assms(3) by (auto simp: registers_def)
  have inv: "0 < ?n" "\<And>i h. pj_functors pj i = Some h \<Longrightarrow> used_id core ?n i"
    "\<And>d' g'. pj_lookup pj d' = Some g' \<Longrightarrow> g' \<noteq> 0 \<and> (\<exists>h. desc_functor d' = Inr h \<and> pj_functors pj (unat g') = Some h)"
    "\<And>d1 d2 g'. pj_lookup pj d1 = Some g' \<Longrightarrow> pj_lookup pj d2 = Some g' \<Longrightarrow> d1 = d2"
    using assms(2) by (auto simp: projections_inv_def)
  have other: "g' \<noteq> g" if "pj_lookup pj d' = Some g'" for d' g' using inv(3) [OF that] f(2) by auto
  have u: "used_id core (?n + 1) (unat g)"
    unfolding used_id_def using inv(1) r(3) by (intro exI [of _ ?n] exI [of _ g]) simp
  have "used_id core (?n + 1) i" if "pj_functors pj' i = Some h" for i h
  proof (cases "i = unat g")
    case False
    then have "pj_functors pj i = Some h" using that f(4) by simp
    from inv(2) [OF this] show ?thesis by (rule used_id_mono) simp
  qed (use u in simp)
  moreover have "g' \<noteq> 0 \<and> (\<exists>h. desc_functor d' = Inr h \<and> pj_functors pj' (unat g') = Some h)"
    if "pj_lookup pj' d' = Some g'" for d' g'
  proof (cases "d' = d")
    case False
    then have l: "pj_lookup pj d' = Some g'" using that r(2) by simp
    then have "unat g' \<noteq> unat g" using other by (simp add: word_unat_eq_iff [symmetric])
    then show ?thesis using inv(3) [OF l] f(4) by simp
  qed (use that r(2) f in simp)
  moreover have "d1 = d2" if "pj_lookup pj' d1 = Some g'" "pj_lookup pj' d2 = Some g'" for d1 d2 g'
    using that other inv(4) unfolding r(2) by (auto split: if_splits)
  ultimately show ?thesis using inv(1) r(1) by (simp add: projections_inv_def)
qed

text \<open>The five laws, for the projections of a core library whose identifiers fit in 32 bits.\<close>

lemma get_projection_inv:
  assumes "scope_fits (lib_projections core)" "projections_inv core pj" "get_projection core d pj = Inr (g, pj')"
  shows "projections_inv core pj'"
  using get_projection_cases [OF assms(3)] assms(2) registers_inv [OF assms(1,2)] by auto

lemma get_projection_means:
  assumes "scope_fits (lib_projections core)" "projections_inv core pj" "get_projection core d pj = Inr (g, pj')"
  shows "\<exists>f. denotes_projection pj' g = Some f \<and> means_projection d f"
  using get_projection_cases [OF assms(3)]
proof (elim disjE conjE)
  assume d: "\<not> trivial_desc d" "pj_lookup pj d = Some g" "pj' = pj"
  then have "g \<noteq> 0 \<and> (\<exists>f. desc_functor d = Inr f \<and> pj_functors pj (unat g) = Some f)"
    using assms(2) unfolding projections_inv_def by blast
  then show ?thesis using d by (auto simp: denotes_projection_def means_projection_def)
next
  assume nt: "\<not> trivial_desc d" and r: "registers core d pj g pj'"
  obtain f where "g \<noteq> 0" "desc_functor d = Inr f" "pj_functors pj' = (pj_functors pj)(unat g \<mapsto> f)"
    by (rule registers_fresh [OF assms(1,2) r])
  then show ?thesis using nt by (simp add: denotes_projection_def means_projection_def)
qed (simp add: denotes_projection_def means_projection_def)

lemma get_projection_keeps:
  assumes "scope_fits (lib_projections core)" "projections_inv core pj" "get_projection core d pj = Inr (g, pj')"
    and "denotes_projection pj i = Some f"
  shows "denotes_projection pj' i = Some f"
  using get_projection_cases [OF assms(3)]
proof (elim disjE conjE)
  assume r: "registers core d pj g pj'"
  obtain h where "pj_functors pj (unat g) = None" "pj_functors pj' = (pj_functors pj)(unat g \<mapsto> h)"
    by (rule registers_fresh [OF assms(1,2) r])
  then show ?thesis using assms(4) by (auto simp: denotes_projection_def split: if_splits)
qed (use assms(4) in simp_all)

lemma get_projection_again:
  assumes "get_projection core d pj = Inr (g, pj')"
  shows "get_projection core d pj' = Inr (g, pj')"
  using get_projection_cases [OF assms] assms
  by (auto simp: get_projection_known registers_def)

lemma get_projection_other:
  assumes "get_projection core d pj = Inr (g, pj)" "get_projection core d' pj = Inr (h, pj')"
  shows "get_projection core d pj' = Inr (g, pj')"
proof -
  have "trivial_desc d \<and> g = 0 \<or> \<not> trivial_desc d \<and> pj_lookup pj d = Some g"
    using get_projection_cases [OF assms(1)] by (auto simp: registers_def)
  moreover have "pj_lookup pj' d = Some g" if "pj_lookup pj d = Some g"
    using get_projection_cases [OF assms(2)] that by (auto simp: registers_def)
  ultimately show ?thesis by (auto simp: get_projection_known)
qed

definition good_projections :: "core_library \<Rightarrow> projections \<Rightarrow> bool" where
  "good_projections core pj \<longleftrightarrow> scope_fits (lib_projections core) \<and> projections_inv core pj"

interpretation projection_registry: registry "get_projection core" denotes_projection means_projection
  "good_projections core" for core
proof (unfold_locales, goal_cases)
  case (1 s k i s')
  then show ?case using get_projection_inv by (auto simp: good_projections_def)
next
  case (2 s k i s')
  then show ?case using get_projection_means unfolding good_projections_def by blast
next
  case (3 s k j s' i f)
  then show ?case using get_projection_keeps unfolding good_projections_def by blast
next
  case (4 s k i s')
  then show ?case using get_projection_again by blast
next
  case (5 s k i k' j s')
  then show ?case using get_projection_other by blast
qed

section \<open>The shardings are a registry\<close>

definition denotes_sharding :: "shardings \<Rightarrow> u32 \<Rightarrow> (projection_function \<times> processor_range) option" where
  "denotes_sharding sh i = sh_functors sh i"

text \<open>What a sharding stands for: the projection function of the identifier at the time, and the range
  of processors.\<close>

definition means_sharding :: "functor_table \<Rightarrow> machine \<times> u32 \<Rightarrow> projection_function \<times> processor_range \<Rightarrow> bool" where
  "means_sharding functors k x \<longleftrightarrow>
     find_projection_function (unat (snd k)) functors = Inr (fst x) \<and>
     snd x = processor_range_of (fst k) (m_preferred (fst k))"

definition good_shardings :: "core_library \<Rightarrow> functor_table \<Rightarrow> shardings \<Rightarrow> bool" where
  "good_shardings core functors sh \<longleftrightarrow>
     scope_fits (lib_shardings core) \<and> 0 \<le> sh_next_sharding sh \<and>
     (\<forall>i x. sh_functors sh i = Some x \<longrightarrow> uint i < sc_base (lib_shardings core) + sh_next_sharding sh) \<and>
     (\<forall>p rng i. sh_registered sh (p, rng) = Some i \<longrightarrow>
        (\<exists>f. find_projection_function (unat p) functors = Inr f \<and> sh_functors sh i = Some (f, rng)))"

lemma empty_shardings_good: "scope_fits (lib_shardings core) \<Longrightarrow> good_shardings core functors empty_shardings"
  by (simp add: good_shardings_def empty_shardings_def FIRST_DYNAMIC_FUNCTOR_def)

lemma get_sharding_cases:
  assumes "get_sharding core nodes functors m p sh = Inr (i, sh')" "nodes \<noteq> 0"
  defines "rng \<equiv> processor_range_of m (m_preferred m)"
  obtains "sh_registered sh (p, rng) = Some i" "sh' = sh"
  | f where "sh_registered sh (p, rng) = None" "get_sharding_id core (sh_next_sharding sh) = Inr i"
    "find_projection_function (unat p) functors = Inr f"
    "sh' = sh\<lparr>sh_next_sharding := sh_next_sharding sh + 1, sh_registered := (sh_registered sh)((p, rng) \<mapsto> i),
       sh_table := (sh_table sh)(unat p \<mapsto> unat i), sh_functors := (sh_functors sh)(i \<mapsto> (f, rng))\<rparr>"
  using assms
  by (auto simp: get_sharding_def create_sharding_functor_using_projection_def Let_def rbind_eq_Inr split: option.splits)

lemma get_sharding_step:
  assumes "good_shardings core functors sh" "nodes \<noteq> 0" "get_sharding core nodes functors m p sh = Inr (i, sh')"
  shows "good_shardings core functors sh'"
    "\<exists>f. sh_functors sh' i = Some f \<and> means_sharding functors (m, p) f"
    "sh_functors sh j = Some x \<Longrightarrow> sh_functors sh' j = Some x"
proof -
  let ?rng = "processor_range_of m (m_preferred m)" and ?b = "sc_base (lib_shardings core)" and ?n = "sh_next_sharding sh"
  have g: "scope_fits (lib_shardings core)" "0 \<le> ?n" "\<And>j y. sh_functors sh j = Some y \<Longrightarrow> uint j < ?b + ?n"
    "\<And>q rng j. sh_registered sh (q, rng) = Some j \<Longrightarrow>
      \<exists>f. find_projection_function (unat q) functors = Inr f \<and> sh_functors sh j = Some (f, rng)"
    using assms(1) by (auto simp: good_shardings_def)
  have "good_shardings core functors sh' \<and> (\<exists>f. sh_functors sh' i = Some f \<and> means_sharding functors (m, p) f) \<and>
    (\<forall>j x. sh_functors sh j = Some x \<longrightarrow> sh_functors sh' j = Some x)"
    using assms(3,2)
  proof (cases rule: get_sharding_cases)
    case 1
    then show ?thesis using assms(1) g(4) [OF 1(1)] by (auto simp: means_sharding_def)
  next
    case (2 f)
    have i: "uint i = ?b + ?n" by (rule get_sharding_id_Inr(1) [OF g(1,2) 2(2)])
    have fresh: "sh_functors sh i = None" using g(3) [of i] i by (cases "sh_functors sh i") auto
    have "uint j < ?b + (?n + 1)" if "sh_functors sh' j = Some y" for j y
      using that g(3) [of j y] i unfolding 2(4) by (auto split: if_splits)
    moreover have "\<exists>f. find_projection_function (unat q) functors = Inr f \<and> sh_functors sh' j = Some (f, rng)"
      if "sh_registered sh' (q, rng) = Some j" for q rng j
    proof (cases "(q, rng) = (p, ?rng)")
      case False
      then have "sh_registered sh (q, rng) = Some j" using that unfolding 2(4) by auto
      from g(4) [OF this] fresh show ?thesis unfolding 2(4) by auto
    qed (use that 2(3) in \<open>auto simp: 2(4)\<close>)
    ultimately have "good_shardings core functors sh'" using g(1,2) unfolding good_shardings_def by (simp add: 2(4))
    then show ?thesis using 2(3) fresh by (auto simp: 2(4) means_sharding_def)
  qed
  then show "good_shardings core functors sh'" "\<exists>f. sh_functors sh' i = Some f \<and> means_sharding functors (m, p) f"
    "sh_functors sh j = Some x \<Longrightarrow> sh_functors sh' j = Some x" by blast+
qed

definition request_sharding ::
  "core_library \<Rightarrow> nat \<Rightarrow> functor_table \<Rightarrow> machine \<times> u32 \<Rightarrow> shardings \<Rightarrow> (u32 \<times> shardings) result" where
  "request_sharding core n functors k sh = get_sharding core (Suc n) functors (fst k) (snd k) sh"

interpretation sharding_registry: registry "request_sharding core n functors" denotes_sharding "means_sharding functors"
  "good_shardings core functors" for core n functors
proof (unfold_locales, goal_cases)
  case (1 s k i s')
  then show ?case using get_sharding_step(1) [of core functors s "Suc n"] by (auto simp: request_sharding_def)
next
  case (2 s k i s')
  then show ?case using get_sharding_step(2) [of core functors s "Suc n" "fst k" "snd k" i s']
    by (auto simp: request_sharding_def denotes_sharding_def)
next
  case (3 s k j s' i f)
  then show ?case using get_sharding_step(3) [of core functors s "Suc n" "fst k" "snd k" j s' i f]
    by (simp add: request_sharding_def denotes_sharding_def)
next
  case (4 s k i s')
  then show ?case unfolding request_sharding_def
    by (elim get_sharding_cases) (auto simp: get_sharding_def Let_def)
next
  case (5 s k i k' j s')
  then have "sh_registered s (snd k, processor_range_of (fst k) (m_preferred (fst k))) = Some i"
    unfolding request_sharding_def by (elim get_sharding_cases [where m = "fst k"]) (auto dest: arg_cong [of _ _ sh_next_sharding])
  with 5(3) show ?case unfolding request_sharding_def
    by (elim get_sharding_cases [where m = "fst k'"]) (auto simp: get_sharding_def Let_def)
qed

section \<open>Properties\<close>

text \<open>The points a description stands for, as the documentation of the functors gives them.\<close>

fun desc_point :: "projection_desc \<Rightarrow> coord list \<Rightarrow> coord list result" where
  "desc_point (AffineDesc n sp) p = Inr (sp_eval sp p)"
| "desc_point (DelinearizingDesc cs) p = rbind (mk_delinearizing_projection cs) (\<lambda>st. delinearizing_project_point st p)"
| "desc_point (CompoundDesc cs sp) p =
     rbind (mk_delinearizing_projection cs) (\<lambda>st. rbind (delinearizing_project_point st p) (\<lambda>q. Inr (sp_eval sp q)))"

fun desc_ok :: "projection_desc \<Rightarrow> coord list \<Rightarrow> bool" where
  "desc_ok (AffineDesc n sp) p = (length p = n \<and> sp_wf n sp)"
| "desc_ok (DelinearizingDesc cs) p = True"
| "desc_ok (CompoundDesc cs sp) p = sp_wf (length cs) sp"

lemma delinearizing_loop_length: "delinearizing_loop st v = Inr q \<Longrightarrow> length q = length st"
  by (induction st arbitrary: v q) (auto simp: rguard_eq_Inr rbind_eq_Inr)

lemma means_projection_point:
  assumes "legion_matrix L" "means_projection d f" "desc_ok d p"
  shows "project_point L f p = desc_point d p"
proof (cases "trivial_desc d")
  case True
  then obtain n sp where d: "d = AffineDesc n sp" "sp_is_identity n sp" by (cases d) auto
  then have "n \<le> UNSET" "length p = n" using assms(3) by (auto simp: sp_wf_def)
  then show ?thesis using assms(2) d True sp_is_identity_eval [of p sp] by (simp add: means_projection_def)
next
  case False
  then have f: "desc_functor d = Inr f" using assms(2) by (simp add: means_projection_def)
  show ?thesis
  proof (cases d)
    case (AffineDesc n sp)
    then show ?thesis using f assms(3) legion_matrix.affine_project_point_eval [OF assms(1), of p sp] by auto
  next
    case (CompoundDesc cs sp)
    from f CompoundDesc obtain st where st: "mk_delinearizing_projection cs = Inr st"
      "f = CompoundProjection st (mk_affine_projection (length cs) sp)" by (auto simp: rbind_eq_Inr)
    have l: "length q = length cs" if "delinearizing_project_point st p = Inr q" for q
      using that st(1) delinearizing_loop_length [of st "hd p" q]
      by (auto simp: delinearizing_project_point_def mk_delinearizing_projection_def rguard_eq_Inr)
    have "affine_project_point L (mk_affine_projection (length cs) sp) q = sp_eval sp q"
      if "delinearizing_project_point st p = Inr q" for q
      using legion_matrix.affine_project_point_eval [OF assms(1), of q sp] assms(3) CompoundDesc l [OF that] by simp
    then show ?thesis using st CompoundDesc
      by (cases "delinearizing_project_point st p") (simp_all add: compound_project_point_def)
  qed (use f in \<open>auto simp: rbind_eq_Inr\<close>)
qed

lemma requests_good_projections:
  assumes "scope_fits (lib_projections core)" "projection_registry.requests core ds empty_projections = Inr (gs, pj)"
  shows "good_projections core pj"
  using projection_registry.requests_good [of core empty_projections ds gs pj] assms empty_projections_inv
  by (simp add: good_projections_def)

text \<open>C27: The identifier that the runtime returns for a projection is registered with a functor that maps
  each launch point to the point the projection describes; whatever projections are requested before
  and after, the identifier keeps its functor, and asking for the same projection again gives the same
  identifier and registers nothing.\<close>

theorem projection_ids_correct:
  assumes "scope_fits (lib_projections core)"
    and "projection_registry.requests core before empty_projections = Inr (gs, pj)"
    and "get_projection core d pj = Inr (g, pj1)" "projection_registry.requests core after pj1 = Inr (hs, pj2)"
    and "legion_matrix L" "desc_ok d p"
  shows "\<exists>f. find_projection_function (unat g) (pj_functors pj1) = Inr f \<and>
    find_projection_function (unat g) (pj_functors pj2) = Inr f \<and> project_point L f p = desc_point d p \<and>
    get_projection core d pj2 = Inr (g, pj2)"
proof -
  obtain f where "denotes_projection pj1 g = Some f" "denotes_projection pj2 g = Some f" "means_projection d f"
    "get_projection core d pj2 = Inr (g, pj2)"
    using projection_registry.request_stable [OF requests_good_projections [OF assms(1,2)] assms(3,4)] by (elim exE conjE)
  then show ?thesis using means_projection_point [OF assms(5) _ assms(6)] find_projection_denotes by blast
qed

lemma projection_ids_correct_witness:
  "\<exists>core pj gs g pj1 hs pj2 f. projection_registry.requests core [DelinearizingDesc [2, 3]] empty_projections = Inr (gs, pj) \<and>
    get_projection core (AffineDesc 2 [dimension 1, dimension 0]) pj = Inr (g, pj1) \<and>
    projection_registry.requests core [DelinearizingDesc [2, 3], CompoundDesc [2, 3] [dimension 1]] pj1 = Inr (hs, pj2) \<and>
    find_projection_function (unat g) (pj_functors pj2) = Inr f \<and> project_point std_legion f [7, 8] = Inr [8, 7]"
proof -
  let ?s = "\<lambda>b. \<lparr>sc_base = b, sc_size = 100, sc_next = 100\<rparr>"
  let ?core = "\<lparr>lib_name = ''legate.core'', lib_tasks = ?s 1, lib_redops = ?s 200, lib_projections = ?s 300,
    lib_shardings = ?s 500, lib_mapper = 0, lib_default_options = Map.empty, lib_task_infos = Map.empty\<rparr> :: core_library"
  let ?a = "AffineDesc 2 [dimension 1, dimension 0]"
  have id: "\<not> sp_is_identity 2 [dimension 1, dimension 0]"
    by (simp add: sp_is_identity_def se_is_identity_def dimension_def)
  have ne: "10 < (100 :: int)" "11 < (100 :: int)" "12 < (100 :: int)" by simp_all
  obtain gs pj where r1: "projection_registry.requests ?core [DelinearizingDesc [2, 3]] empty_projections = Inr (gs, pj)"
    and n1: "pj_next_projection pj = 11" "pj_affine pj = Map.empty" "pj_compound pj = Map.empty"
      "pj_delinearizing pj [2, 3] \<noteq> None" "pj_max_dim pj = 6"
    by (simp add: get_delinearizing_projection_def empty_projections_def get_projection_id_def sc_translate_def
        FIRST_DYNAMIC_FUNCTOR_def register_delinearizing_projection_functor_def mk_delinearizing_projection_def)
  obtain g pj1 where r2: "get_projection ?core ?a pj = Inr (g, pj1)"
    and n2: "pj_next_projection pj1 = 12" "pj_compound pj1 = Map.empty" "pj_delinearizing pj1 [2, 3] \<noteq> None" "pj_max_dim pj1 = 6"
    using n1 id by (simp add: get_affine_projection_def get_projection_id_def sc_translate_def
        register_affine_projection_functor_def dispatchable_def)
  obtain hs pj2 where r3: "projection_registry.requests ?core [DelinearizingDesc [2, 3], CompoundDesc [2, 3] [dimension 1]] pj1
      = Inr (hs, pj2)"
    using n2 by (auto simp: get_delinearizing_projection_def get_compound_projection_def get_projection_id_def
        sc_translate_def register_compound_projection_functor_def dispatchable_def mk_delinearizing_projection_def)
  have ok: "scope_fits (lib_projections ?core)" "desc_ok ?a [7, 8]"
    by (simp_all add: scope_fits_def sp_wf_def UNSET_def dimension_def)
  have "desc_point ?a [7, 8] = Inr [8, 7]" by (simp add: sp_eval_def UNSET_def)
  then show ?thesis
    using projection_ids_correct [OF ok(1) r1 r2 r3 std.legion_matrix_axioms ok(2)] r1 r2 r3 by metis
qed

end
