(* ===== verification/StoreProjection.thy ===== *)
theory StoreProjection
  imports Projections TransformSymbolic
begin

text \<open>
  The projection a launch uses for a store: \<open>Partitioner::infer_store_projection\<close> of
  src/cpp/legate/partitioning/detail/partitioner.cc.

  A store is partitioned with the color shape of its own dimensions, the storage behind it with the
  inverted colors. The projection maps the launch point of a task to the storage color the task works
  on. The theory shows that it is the inverted color of the task's color, in all five cases.
\<close>

section \<open>Inferring a store projection\<close>

definition infer_store_projection ::
  "core_library \<Rightarrow> domain \<Rightarrow> u64 list \<Rightarrow> transform_stack \<Rightarrow> projections \<Rightarrow> (u32 \<times> projections) result" where
  "infer_store_projection core launch_domain color_shape ts pj =
     (let ndim = length color_shape
      in if get_dim launch_domain = ndim
         then if stack_identity ts then Inr (0, pj)
              else rbind (stack_invert_symbolic ts (create_symbolic_point ndim)) (\<lambda>point.
                   get_affine_projection core ndim point pj)
         else if get_dim launch_domain \<noteq> 1 then Inl RuntimeError
         else if length (filter (\<lambda>ext. ext \<noteq> 1) color_shape) = 1
         then rbind (stack_invert_symbolic ts
                (map (\<lambda>ext. if ext \<noteq> 1 then dimension 0 else se_constant 0) color_shape)) (\<lambda>point.
              get_affine_projection core (get_dim launch_domain) point pj)
         else if stack_identity ts then get_delinearizing_projection core color_shape pj
         else rbind (stack_invert_symbolic ts (create_symbolic_point ndim)) (\<lambda>point.
              get_compound_projection core color_shape point pj))"

section \<open>Well-formed symbolic points\<close>

lemma sp_wf_subset:
  assumes "sp_wf n sp" "set sp' \<subseteq> set sp \<union> {se_constant 0, symbolic_expr_default}"
  shows "sp_wf n sp'"
  unfolding sp_wf_def
proof (intro conjI ballI impI)
  show "n \<le> UNSET" using assms(1) by (simp add: sp_wf_def)
  fix e assume "e \<in> set sp'" "\<not> se_is_constant e"
  then have "e \<in> set sp" using assms(2) by auto
  then show "se_dim e < n" using assms(1) \<open>\<not> se_is_constant e\<close> by (simp add: sp_wf_def)
qed

lemma array_map_subset: "array_map xs (map int m) = Inr ys \<Longrightarrow> set ys \<subseteq> set xs"
  by (auto simp: array_map_def rbind_eq_Inr assert_valid_mapping_iff)

lemma t_invert_symbolic_subset:
  "t_invert_symbolic t sp = Inr sp' \<Longrightarrow> set sp' \<subseteq> set sp \<union> {se_constant 0, symbolic_expr_default}"
proof (cases t)
  case (Transpose axes)
  then show "t_invert_symbolic t sp = Inr sp' \<Longrightarrow> ?thesis"
    using array_map_subset by (auto simp: transpose_invert_symbolic_def)
qed (auto simp: shift_invert_symbolic_def promote_invert_symbolic_def project_invert_symbolic_def
    broadcast_invert_symbolic_def delinearize_invert_symbolic_def vec_erase_def vec_insert_def vec_set_at_def
    rguard_eq_Inr split: if_splits dest: in_set_takeD in_set_dropD set_update_subset_insert [THEN subsetD])

lemma stack_invert_symbolic_wf:
  "stack_invert_symbolic ts sp = Inr sp' \<Longrightarrow> sp_wf n sp \<Longrightarrow> sp_wf n sp'"
  unfolding stack_invert_symbolic_def
proof (induction ts arbitrary: sp)
  case (Cons t parent)
  from Cons.prems(1) obtain sp1 where s: "t_invert_symbolic t sp = Inr sp1"
    "stack_invert_visit t_invert_symbolic parent sp1 = Inr sp'"
    by (auto simp only: stack_invert_visit_Cons rbind_eq_Inr)
  show ?case by (rule Cons.IH [OF s(2) sp_wf_subset [OF Cons.prems(2) t_invert_symbolic_subset [OF s(1)]]])
qed simp

lemma create_symbolic_point_wf: "n \<le> UNSET \<Longrightarrow> sp_wf n (create_symbolic_point n)"
  by (auto simp: sp_wf_def create_symbolic_point_def dimension_def)

lemma create_symbolic_point_eval: "length p \<le> UNSET \<Longrightarrow> sp_eval (create_symbolic_point (length p)) p = p"
  by (rule sp_is_identity_eval [OF create_symbolic_point_identity])

section \<open>Linear indices where at most one extent is not 1\<close>

abbreviation color_hi :: "u64 list \<Rightarrow> coord list" where
  "color_hi shape \<equiv> map (\<lambda>e. sint e - 1) shape"

abbreviation unit_embedding :: "u64 list \<Rightarrow> symbolic_point" where
  "unit_embedding \<equiv> map (\<lambda>ext. if ext \<noteq> 1 then dimension 0 else se_constant 0)"

lemma unit_shape:
  assumes "filter (\<lambda>e. e \<noteq> 1) shape = []" "in_box (zeros shape) (color_hi shape) c"
  shows "lin (zeros shape) (color_hi shape) c = 0" "box_volume (zeros shape) (color_hi shape) = 1"
    "sp_eval (unit_embedding shape) p = c"
proof -
  have "lin (zeros shape) (color_hi shape) c = 0 \<and> box_volume (zeros shape) (color_hi shape) = 1 \<and>
      sp_eval (unit_embedding shape) p = c"
    using assms
  proof (induction shape arbitrary: c)
    case (Cons e shape)
    then obtain x xs where c: "c = x # xs" by (cases c) auto
    have e: "e = 1" and r: "filter (\<lambda>e. e \<noteq> 1) shape = []" using Cons.prems(1) by (auto split: if_splits)
    have b: "in_box (zeros shape) (color_hi shape) xs" and x: "x = 0" using Cons.prems(2) c e by auto
    note len = in_box_length [OF b]
    show ?case using Cons.IH [OF r b] lin_Cons [of "color_hi shape" "zeros shape" xs 0 0 x] len c x e by simp
  qed (auto simp: sp_eval_def dest: in_box_length)
  then show "lin (zeros shape) (color_hi shape) c = 0" "box_volume (zeros shape) (color_hi shape) = 1"
    "sp_eval (unit_embedding shape) p = c" by blast+
qed

lemma one_extent:
  assumes "length (filter (\<lambda>e. e \<noteq> 1) shape) = 1" "in_box (zeros shape) (color_hi shape) c"
  shows "sp_eval (unit_embedding shape) [lin (zeros shape) (color_hi shape) c] = c"
  using assms
proof (induction shape arbitrary: c)
  case (Cons e shape)
  then obtain x xs where c: "c = x # xs" by (cases c) auto
  have b: "in_box (zeros shape) (color_hi shape) xs" using Cons.prems(2) c by auto
  have l: "lin (zeros (e # shape)) (color_hi (e # shape)) c
      = x * box_volume (zeros shape) (color_hi shape) + lin (zeros shape) (color_hi shape) xs"
    using lin_Cons [of "color_hi shape" "zeros shape" xs 0 "sint e - 1" x] in_box_length [OF b] c by simp
  show ?case
  proof (cases "e = 1")
    case True
    then have "x = 0" "length (filter (\<lambda>e. e \<noteq> 1) shape) = 1" using Cons.prems c by auto
    then show ?thesis using Cons.IH [OF _ b] True l c by simp
  next
    case False
    then have "filter (\<lambda>e. e \<noteq> 1) shape = []" using Cons.prems(1) by simp
    from unit_shape [OF this b] show ?thesis using False l c by (simp add: UNSET_def)
  qed
qed simp

lemma delinearize_color:
  assumes "shape \<noteq> []" "in_box (zeros shape) (color_hi shape) c"
  shows "rbind (mk_delinearizing_projection shape)
    (\<lambda>st. delinearizing_project_point st [lin (zeros shape) (color_hi shape) c]) = Inr c"
proof -
  have "in_box (zeros (map sint shape)) (map (\<lambda>e. e - 1) (map sint shape)) c" using assms(2) by (simp add: zeros_def o_def)
  from delinearizing_loop_linearize [OF this] assms(1) show ?thesis
    by (simp add: mk_delinearizing_projection_def delinearizing_project_point_def zeros_def o_def)
qed

text \<open>The branches of \<open>infer_store_projection\<close>.\<close>

lemma infer_cases:
  assumes "infer_store_projection core launch shape ts pj = Inr (g, pj')"
  obtains (same) "get_dim launch = length shape" "ts = []"
    | (affine) sp where "get_dim launch = length shape" "stack_invert_symbolic ts (create_symbolic_point (length shape)) = Inr sp"
        "get_projection core (AffineDesc (length shape) sp) pj = Inr (g, pj')"
    | (embed) sp where "get_dim launch \<noteq> length shape" "length (filter (\<lambda>e. e \<noteq> 1) shape) = 1"
        "stack_invert_symbolic ts (unit_embedding shape) = Inr sp" "get_projection core (AffineDesc 1 sp) pj = Inr (g, pj')"
    | (delin) "get_dim launch \<noteq> length shape" "ts = []" "get_projection core (DelinearizingDesc shape) pj = Inr (g, pj')"
    | (compound) sp where "get_dim launch \<noteq> length shape"
        "stack_invert_symbolic ts (create_symbolic_point (length shape)) = Inr sp"
        "get_projection core (CompoundDesc shape sp) pj = Inr (g, pj')"
  using assms
  by (auto simp: infer_store_projection_def Let_def rbind_eq_Inr stack_identity_def split: if_splits)

section \<open>Properties\<close>

text \<open>C26: The projection that the partitioner infers for a store sends the launch point of every task to the
  storage color the task works on: the inverted color of the store's color with that launch point. The
  launch domain has the dimensions of the store and the launch point is the color, or it has one
  dimension and the launch point is the linear index of the color.\<close>

theorem infer_store_projection_correct:
  assumes "legion_matrix L" "good_projections core pj" "stack_ok ts n" "length shape = stack_ndim ts n"
    and "length shape \<le> UNSET" "in_box (zeros shape) (color_hi shape) c" "stack_invert_color ts (color_of c) = Inr c'"
    and "infer_store_projection core launch shape ts pj = Inr (g, pj')"
  shows "\<exists>f q. find_projection_function (unat g) (pj_functors pj') = Inr f \<and>
    project_point L f (if get_dim launch = length shape then c else [lin (zeros shape) (color_hi shape) c]) = Inr q \<and>
    color_of q = c'"
proof -
  have lc: "length c = length shape" using in_box_length [OF assms(6)] by simp
  have request: "\<exists>f. find_projection_function (unat g) (pj_functors pj') = Inr f \<and> project_point L f p = desc_point d p"
    if "get_projection core d pj = Inr (g, pj')" "desc_ok d p" for d p
    using projection_registry.request_means [OF assms(2) that(1)] means_projection_point [OF assms(1) _ that(2)]
      find_projection_denotes by blast
  have via: "\<exists>f. find_projection_function (unat g) (pj_functors pj') = Inr f \<and> project_point L f p = Inr q"
    if "get_projection core d pj = Inr (g, pj')" "desc_ok d p" "desc_point d p = Inr q" for d p q
    using request [OF that(1,2)] that(3) by simp
  have nonempty: "shape \<noteq> []" if "get_projection core d pj = Inr (g, pj')" "d = DelinearizingDesc shape \<or> d = CompoundDesc shape sp"
    for d sp
    using projection_registry.request_means [OF assms(2) that(1)] that(2)
    by (auto simp: means_projection_def mk_delinearizing_projection_def rbind_eq_Inr rguard_eq_Inr)
  have color: "color_of (sp_eval sp' p) = c'"
    if "sp_eval sp p = c" "stack_invert_symbolic ts sp = Inr sp'" "length sp = length shape" for sp sp' p
    using stack_invert_symbolic_color [OF assms(3) _ that(2), of p c'] that(1,3) assms(4,7) by simp
  let ?csp = "create_symbolic_point (length shape)"
  have csp: "sp_eval ?csp c = c" "length ?csp = length shape" "sp_wf (length shape) ?csp"
    using create_symbolic_point_eval [of c] create_symbolic_point_wf assms(5) lc
    by (simp_all add: create_symbolic_point_def)
  have id: "color_of c = c'" if "ts = []" using assms(7) that by (simp add: stack_invert_color_def)
  from assms(8) show ?thesis
  proof (cases rule: infer_cases)
    case same
    then have "find_projection_function (unat g) (pj_functors pj') = Inr IdentityProjection"
      using assms(8) by (simp add: infer_store_projection_def stack_identity_def find_projection_function_def)
    then show ?thesis using id same by auto
  next
    case (affine sp)
    have "desc_ok (AffineDesc (length shape) sp) c" using lc stack_invert_symbolic_wf [OF affine(2) csp(3)] by simp
    from request [OF affine(3) this] show ?thesis using affine(1) color [OF csp(1) affine(2) csp(2)] by auto
  next
    case (embed sp)
    have "sp_wf 1 (unit_embedding shape)" by (auto simp: sp_wf_def UNSET_def dimension_def)
    then have "desc_ok (AffineDesc 1 sp) [lin (zeros shape) (color_hi shape) c]"
      using stack_invert_symbolic_wf [OF embed(3)] by simp
    from request [OF embed(4) this] show ?thesis
      using embed(1) color [OF one_extent [OF embed(2) assms(6)] embed(3)] by auto
  next
    case delin
    have "desc_point (DelinearizingDesc shape) [lin (zeros shape) (color_hi shape) c] = Inr c"
      using delinearize_color [OF nonempty [OF delin(3) disjI1 [OF refl]] assms(6)] by simp
    from via [OF delin(3) _ this] show ?thesis using delin(1) id [OF delin(2)] by auto
  next
    case (compound sp)
    have "desc_point (CompoundDesc shape sp) [lin (zeros shape) (color_hi shape) c] = Inr (sp_eval sp c)"
      using delinearize_color [OF nonempty [OF compound(3) disjI2 [OF refl]] assms(6)] by (auto simp: rbind_eq_Inr)
    from via [OF compound(3) _ this] stack_invert_symbolic_wf [OF compound(2) csp(3)]
    show ?thesis using compound(1) color [OF csp(1) compound(2) csp(2)] by auto
  qed
qed

lemma infer_store_projection_correct_witness:
  "\<exists>core g pj' f q. infer_store_projection core \<lparr>dom_lo = [0], dom_hi = [5]\<rparr> [3, 2] [Transpose [1, 0]] empty_projections
      = Inr (g, pj') \<and>
    find_projection_function (unat g) (pj_functors pj') = Inr f \<and> project_point std_legion f [5] = Inr q \<and>
    color_of q = [1, 2]"
proof -
  let ?s = "\<lambda>b. \<lparr>sc_base = b, sc_size = 100, sc_next = 100\<rparr>"
  let ?core = "\<lparr>lib_name = ''legate.core'', lib_tasks = ?s 1, lib_redops = ?s 200, lib_projections = ?s 300,
    lib_shardings = ?s 500, lib_mapper = 0, lib_default_options = Map.empty, lib_task_infos = Map.empty\<rparr> :: core_library"
  let ?launch = "\<lparr>dom_lo = [0], dom_hi = [5 :: int]\<rparr>"
  have iv: "transpose_inverse [1, 0] = [1, 0]" and ok: "assert_valid_mapping 2 [1, 0] = Inr ()" by code_simp+
  have cs: "create_symbolic_point 2 = [dimension 0, dimension 1]"
    by (simp add: create_symbolic_point_def eval_nat_numeral)
  have si: "stack_invert_symbolic [Transpose [1, 0]] (create_symbolic_point 2) = Inr [dimension 1, dimension 0]"
    unfolding cs using iv ok
    by (simp add: stack_invert_symbolic_def transpose_invert_symbolic_def array_map_def eval_nat_numeral)
  have good: "good_projections ?core empty_projections"
    using empty_projections_inv by (simp add: good_projections_def scope_fits_def)
  have run: "\<exists>g pj'. infer_store_projection ?core ?launch [3, 2] [Transpose [1, 0]] empty_projections = Inr (g, pj')"
    using si
    by (simp add: infer_store_projection_def get_dim_def stack_identity_def get_compound_projection_def
        empty_projections_def get_projection_id_def sc_translate_def FIRST_DYNAMIC_FUNCTOR_def
        register_compound_projection_functor_def dispatchable_def mk_delinearizing_projection_def eval_nat_numeral)
  then obtain g pj' where r: "infer_store_projection ?core ?launch [3, 2] [Transpose [1, 0]] empty_projections = Inr (g, pj')"
    by (elim exE)
  have sk: "stack_ok [Transpose [1, 0]] 2" "stack_ndim [Transpose [1, 0]] 2 = 2" by code_simp+
  have ic: "stack_invert_color [Transpose [1, 0]] (color_of [2, 1]) = Inr [1, 2]"
    using iv ok by (simp add: stack_invert_color_def transpose_invert_color_def array_map_def eval_nat_numeral)
  have "\<exists>f q. find_projection_function (unat g) (pj_functors pj') = Inr f \<and>
      project_point std_legion f (if get_dim ?launch = length [3 :: u64, 2] then [2, 1]
        else [lin (zeros [3 :: u64, 2]) (color_hi [3, 2]) [2, 1]]) = Inr q \<and> color_of q = [1, 2]"
    by (rule infer_store_projection_correct [OF std.legion_matrix_axioms good sk(1) _ _ _ ic r])
      (simp_all add: sk(2) UNSET_def)
  then obtain f q where "find_projection_function (unat g) (pj_functors pj') = Inr f"
    "project_point std_legion f [5] = Inr q" "color_of q = [1, 2]"
    by (auto simp: get_dim_def)
  then show ?thesis using r by (intro exI conjI)
qed

end
