(* ===== verification/Types.thy ===== *)
theory Types
  imports Legate_Prelude
begin

text \<open>
  The element types of stores: src/cpp/legate/type/detail/types.h, .inl and .cc.

  A type object is built once and not changed; the sizes, alignments and offsets its constructor
  caches are functions of the model. A type is identified by its \<open>uid\<close>: predefined types have fixed
  ones, derived from their code and size, the others draw theirs from a counter, which the factory
  functions take and return here. The maximal number of dimensions is a build parameter
  (\<open>LEGATE_MAX_DIM\<close>), an argument \<open>max_dim\<close> of the definitions that use it. \<open>operator==\<close> is that of a
  release build, which compares unique identifiers; printing is not modelled.
\<close>

section \<open>Codes\<close>

datatype type_code =
    BOOL | INT8 | INT16 | INT32 | INT64 | UINT8 | UINT16 | UINT32 | UINT64
  | FLOAT16 | FLOAT32 | FLOAT64 | COMPLEX64 | COMPLEX128
  | NIL | BINARY | FIXED_ARRAY | STRUCT | STRING | LIST

fun code_value :: "type_code \<Rightarrow> u32" where
  "code_value BOOL = 0"
| "code_value INT8 = 1"
| "code_value INT16 = 2"
| "code_value INT32 = 3"
| "code_value INT64 = 4"
| "code_value UINT8 = 5"
| "code_value UINT16 = 6"
| "code_value UINT32 = 7"
| "code_value UINT64 = 8"
| "code_value FLOAT16 = 9"
| "code_value FLOAT32 = 10"
| "code_value FLOAT64 = 11"
| "code_value COMPLEX64 = 12"
| "code_value COMPLEX128 = 13"
| "code_value NIL = 14"
| "code_value BINARY = 15"
| "code_value FIXED_ARRAY = 16"
| "code_value STRUCT = 17"
| "code_value STRING = 18"
| "code_value LIST = 19"

definition all_codes :: "type_code list" where
  "all_codes = [BOOL, INT8, INT16, INT32, INT64, UINT8, UINT16, UINT32, UINT64, FLOAT16, FLOAT32, FLOAT64,
     COMPLEX64, COMPLEX128, NIL, BINARY, FIXED_ARRAY, STRUCT, STRING, LIST]"

fun SIZEOF :: "type_code \<Rightarrow> u32 result" where
  "SIZEOF BOOL = Inr 1"
| "SIZEOF INT8 = Inr 1"
| "SIZEOF INT16 = Inr 2"
| "SIZEOF INT32 = Inr 4"
| "SIZEOF INT64 = Inr 8"
| "SIZEOF UINT8 = Inr 1"
| "SIZEOF UINT16 = Inr 2"
| "SIZEOF UINT32 = Inr 4"
| "SIZEOF UINT64 = Inr 8"
| "SIZEOF FLOAT16 = Inr 2"
| "SIZEOF FLOAT32 = Inr 4"
| "SIZEOF FLOAT64 = Inr 8"
| "SIZEOF COMPLEX64 = Inr 8"
| "SIZEOF COMPLEX128 = Inr 16"
| "SIZEOF NIL = Inr 0"
| "SIZEOF _ = Inl InvalidArgument"

fun ALIGNOF :: "type_code \<Rightarrow> u32 result" where
  "ALIGNOF BOOL = Inr 1"
| "ALIGNOF INT8 = Inr 1"
| "ALIGNOF INT16 = Inr 2"
| "ALIGNOF INT32 = Inr 4"
| "ALIGNOF INT64 = Inr 8"
| "ALIGNOF UINT8 = Inr 1"
| "ALIGNOF UINT16 = Inr 2"
| "ALIGNOF UINT32 = Inr 4"
| "ALIGNOF UINT64 = Inr 8"
| "ALIGNOF FLOAT16 = Inr 2"
| "ALIGNOF FLOAT32 = Inr 4"
| "ALIGNOF FLOAT64 = Inr 8"
| "ALIGNOF COMPLEX64 = Inr 8"
| "ALIGNOF COMPLEX128 = Inr 16"
| "ALIGNOF NIL = Inr 0"
| "ALIGNOF _ = Inl InvalidArgument"

definition BASE_POINT_TYPE_UID :: u32 where
  "BASE_POINT_TYPE_UID = 0x10000000"

definition BASE_RECT_TYPE_UID :: "u32 \<Rightarrow> u32" where
  "BASE_RECT_TYPE_UID max_dim = BASE_POINT_TYPE_UID + max_dim + 1"

definition BASE_CUSTOM_TYPE_UID :: "u32 \<Rightarrow> u32" where
  "BASE_CUSTOM_TYPE_UID max_dim = BASE_RECT_TYPE_UID max_dim + max_dim + 1"

definition MAX_BINARY_TYPE_SIZE :: u32 where
  "MAX_BINARY_TYPE_SIZE = 0x0FFFFF"

definition MAX_ALIGN :: u32 where
  "MAX_ALIGN = 16"

text \<open>The counter of \<open>get_next_uid\<close>.\<close>

definition get_next_uid :: "u32 \<Rightarrow> u32 \<times> u32" where
  "get_next_uid next_uid = (next_uid, next_uid + 1)"

section \<open>Types\<close>

datatype ltype =
    PrimitiveType type_code
  | StringType
  | BinaryType u32 u32
  | FixedArrayType u32 ltype u32
  | StructType u32 "ltype list" bool
  | ListType u32 ltype

fun type_code_of :: "ltype \<Rightarrow> type_code" where
  "type_code_of (PrimitiveType c) = c"
| "type_code_of StringType = STRING"
| "type_code_of (BinaryType uid sz) = BINARY"
| "type_code_of (FixedArrayType uid elt n) = FIXED_ARRAY"
| "type_code_of (StructType uid fields al) = STRUCT"
| "type_code_of (ListType uid elt) = LIST"

fun type_uid :: "ltype \<Rightarrow> u32" where
  "type_uid (PrimitiveType c) = code_value c"
| "type_uid StringType = code_value STRING"
| "type_uid (BinaryType uid sz) = uid"
| "type_uid (FixedArrayType uid elt n) = uid"
| "type_uid (StructType uid fields al) = uid"
| "type_uid (ListType uid elt) = uid"

fun variable_size :: "ltype \<Rightarrow> bool" where
  "variable_size StringType = True"
| "variable_size (ListType uid elt) = True"
| "variable_size _ = False"

fun is_primitive :: "ltype \<Rightarrow> bool" where
  "is_primitive (PrimitiveType c) = True"
| "is_primitive _ = False"

definition align_offset :: "u32 \<Rightarrow> u32 \<Rightarrow> u32" where
  "align_offset offset alignment = and (offset + (alignment - 1)) (- alignment)"

fun struct_aligned_loop :: "(u32 \<times> u32) list \<Rightarrow> u32 \<Rightarrow> u32 \<Rightarrow> u32 list \<times> u32 \<times> u32" where
  "struct_aligned_loop [] sz alignment = ([], sz, alignment)"
| "struct_aligned_loop ((fsz, my_align) # fields) sz alignment =
     (let alignment' = max my_align alignment;
          offset = align_offset sz my_align;
          (offsets, sz', al) = struct_aligned_loop fields (offset + fsz) alignment'
      in (offset # offsets, sz', al))"

fun struct_packed_loop :: "(u32 \<times> u32) list \<Rightarrow> u32 \<Rightarrow> u32 list \<times> u32" where
  "struct_packed_loop [] sz = ([], sz)"
| "struct_packed_loop ((fsz, my_align) # fields) sz =
     (let (offsets, sz') = struct_packed_loop fields (sz + fsz) in (sz # offsets, sz'))"

text \<open>Offsets, size and alignment of a struct from the sizes and alignments of its fields.\<close>

definition struct_layout :: "(u32 \<times> u32) list \<Rightarrow> bool \<Rightarrow> u32 list \<times> u32 \<times> u32" where
  "struct_layout fields align =
     (if align
      then let (offsets, sz, alignment) = struct_aligned_loop fields 0 1
           in (offsets, align_offset sz alignment, alignment)
      else let (offsets, sz) = struct_packed_loop fields 0 in (offsets, sz, 1))"

text \<open>Size and alignment of a type; the size of a type of variable size is an error, for which the
  constructors of arrays and structs check, so \<open>size_align\<close> gives it the size 0.\<close>

fun size_align :: "ltype \<Rightarrow> u32 \<times> u32" where
  "size_align (PrimitiveType c) =
     (case SIZEOF c of Inl e \<Rightarrow> 0 | Inr n \<Rightarrow> n, case ALIGNOF c of Inl e \<Rightarrow> 0 | Inr n \<Rightarrow> n)"
| "size_align StringType = (0, MAX_ALIGN)"
| "size_align (BinaryType uid sz) = (sz, MAX_ALIGN)"
| "size_align (FixedArrayType uid elt n) = (fst (size_align elt) * n, snd (size_align elt))"
| "size_align (StructType uid fields al) = snd (struct_layout (map size_align fields) al)"
| "size_align (ListType uid elt) = (0, 0)"

definition type_size :: "ltype \<Rightarrow> u32 result" where
  "type_size t = (if variable_size t then Inl InvalidArgument else Inr (fst (size_align t)))"

definition type_alignment :: "ltype \<Rightarrow> u32" where
  "type_alignment t = snd (size_align t)"

fun struct_offsets :: "ltype \<Rightarrow> u32 list" where
  "struct_offsets (StructType uid fields al) = fst (struct_layout (map size_align fields) al)"
| "struct_offsets _ = []"

section \<open>Constructors and factories\<close>

definition mk_primitive_type :: "type_code \<Rightarrow> ltype result" where
  "mk_primitive_type c = rbind (SIZEOF c) (\<lambda>sz. rbind (ALIGNOF c) (\<lambda>al. Inr (PrimitiveType c)))"

definition mk_fixed_array_type :: "u32 \<Rightarrow> ltype \<Rightarrow> u32 \<Rightarrow> ltype result" where
  "mk_fixed_array_type uid elt n = rbind (type_size elt) (\<lambda>sz. Inr (FixedArrayType uid elt n))"

definition mk_struct_type :: "u32 \<Rightarrow> ltype list \<Rightarrow> bool \<Rightarrow> ltype result" where
  "mk_struct_type uid fields align =
     (if list_ex variable_size fields then Inl RuntimeError
      else if fields = [] then Inl InvalidArgument
      else Inr (StructType uid fields align))"

definition mk_list_type :: "u32 \<Rightarrow> ltype \<Rightarrow> ltype result" where
  "mk_list_type uid elt = (if variable_size elt then Inl RuntimeError else Inr (ListType uid elt))"

definition primitive_type :: "type_code \<Rightarrow> ltype result" where
  "primitive_type c = (case SIZEOF c of Inl e \<Rightarrow> Inl InvalidArgument | Inr n \<Rightarrow> mk_primitive_type c)"

definition string_type :: ltype where
  "string_type = StringType"

definition binary_type :: "u32 \<Rightarrow> ltype result" where
  "binary_type sz =
     (if MAX_BINARY_TYPE_SIZE < sz then Inl OutOfRange
      else Inr (BinaryType (or (code_value BINARY) (push_bit 8 (sz + 1))) sz))"

definition fixed_array_type :: "ltype \<Rightarrow> u32 \<Rightarrow> u32 \<Rightarrow> (ltype \<times> u32) result" where
  "fixed_array_type elt n next_uid =
     (let (uid, next') = (if \<not> is_primitive elt \<or> 0xFF < n then get_next_uid next_uid
                          else (or (code_value (type_code_of elt)) (push_bit 8 n), next_uid))
      in rbind (mk_fixed_array_type uid elt n) (\<lambda>t. Inr (t, next')))"

definition struct_type :: "ltype list \<Rightarrow> bool \<Rightarrow> u32 \<Rightarrow> (ltype \<times> u32) result" where
  "struct_type fields align next_uid =
     (let (uid, next') = get_next_uid next_uid
      in rbind (mk_struct_type uid fields align) (\<lambda>t. Inr (t, next')))"

definition list_type :: "ltype \<Rightarrow> u32 \<Rightarrow> (ltype \<times> u32) result" where
  "list_type elt next_uid =
     (let (uid, next') = get_next_uid next_uid in rbind (mk_list_type uid elt) (\<lambda>t. Inr (t, next')))"

definition point_type :: "u32 \<Rightarrow> u32 \<Rightarrow> ltype result" where
  "point_type max_dim ndim =
     (if ndim = 0 \<or> max_dim < ndim then Inl OutOfRange
      else mk_fixed_array_type (BASE_POINT_TYPE_UID + ndim) (PrimitiveType INT64) ndim)"

definition rect_type :: "u32 \<Rightarrow> u32 \<Rightarrow> ltype result" where
  "rect_type max_dim ndim =
     (if ndim = 0 \<or> max_dim < ndim then Inl OutOfRange
      else rbind (point_type max_dim ndim) (\<lambda>pt_type.
           mk_struct_type (BASE_RECT_TYPE_UID max_dim + ndim) [pt_type, pt_type] True))"

definition is_point_type :: "u32 \<Rightarrow> ltype \<Rightarrow> bool" where
  "is_point_type max_dim t \<longleftrightarrow>
     type_code_of t = INT64 \<or>
     (BASE_POINT_TYPE_UID < type_uid t \<and> type_uid t \<le> BASE_POINT_TYPE_UID + max_dim)"

definition is_point_type_ndim :: "ltype \<Rightarrow> u32 \<Rightarrow> bool" where
  "is_point_type_ndim t ndim \<longleftrightarrow> (ndim = 1 \<and> type_code_of t = INT64) \<or> type_uid t = BASE_POINT_TYPE_UID + ndim"

definition ndim_point_type :: "u32 \<Rightarrow> ltype \<Rightarrow> u32 result" where
  "ndim_point_type max_dim t =
     (if \<not> is_point_type max_dim t then Inl InvalidArgument
      else Inr (if type_code_of t = INT64 then 1 else type_uid t - BASE_POINT_TYPE_UID))"

definition is_rect_type :: "u32 \<Rightarrow> ltype \<Rightarrow> bool" where
  "is_rect_type max_dim t \<longleftrightarrow>
     BASE_RECT_TYPE_UID max_dim < type_uid t \<and> type_uid t \<le> BASE_RECT_TYPE_UID max_dim + max_dim"

definition is_rect_type_ndim :: "u32 \<Rightarrow> ltype \<Rightarrow> u32 \<Rightarrow> bool" where
  "is_rect_type_ndim max_dim t ndim \<longleftrightarrow> type_uid t = BASE_RECT_TYPE_UID max_dim + ndim"

definition ndim_rect_type :: "u32 \<Rightarrow> ltype \<Rightarrow> u32 result" where
  "ndim_rect_type max_dim t =
     (if \<not> is_rect_type max_dim t then Inl InvalidArgument else Inr (type_uid t - BASE_RECT_TYPE_UID max_dim))"

fun type_eq :: "ltype \<Rightarrow> ltype \<Rightarrow> bool" where
  "type_eq (PrimitiveType c) other = (c = type_code_of other)"
| "type_eq StringType other = (STRING = type_code_of other)"
| "type_eq (BinaryType uid sz) other = (uid = type_uid other)"
| "type_eq (FixedArrayType uid elt n) other = (FIXED_ARRAY = type_code_of other \<and> uid = type_uid other)"
| "type_eq (StructType uid fields al) other = (STRUCT = type_code_of other \<and> uid = type_uid other)"
| "type_eq (ListType uid elt) other = (LIST = type_code_of other \<and> uid = type_uid other)"

section \<open>Collisions of unique identifiers\<close>

text \<open>The comment on the unique identifiers reserves \<open>[0x000001, 0x0FFFFF] <+> [0x0F]\<close> for binary types, but
  \<open>binary_type\<close> uses size + 1: the largest binary type gets 0x1000000F, which lies behind
  \<open>BASE_POINT_TYPE_UID\<close>. With 6 dimensions it is also the second custom identifier, with 7 the type
  passes for a rectangle type.\<close>

lemma largest_binary_type:
  "binary_type MAX_BINARY_TYPE_SIZE = Inr (BinaryType 0x1000000F MAX_BINARY_TYPE_SIZE)"
  by (simp add: binary_type_def MAX_BINARY_TYPE_SIZE_def)

lemma largest_binary_type_collides:
  "BASE_CUSTOM_TYPE_UID 6 + 1 = type_uid (BinaryType 0x1000000F MAX_BINARY_TYPE_SIZE)"
  "is_rect_type 7 (BinaryType 0x1000000F MAX_BINARY_TYPE_SIZE)"
  by (simp_all add: BASE_CUSTOM_TYPE_UID_def BASE_RECT_TYPE_UID_def BASE_POINT_TYPE_UID_def is_rect_type_def)

text \<open>An array of no elements has the unique identifier of its element type.\<close>

lemma empty_array_collides:
  "fixed_array_type (PrimitiveType INT8) 0 next_uid = Inr (FixedArrayType 1 (PrimitiveType INT8) 0, next_uid)"
  "type_uid (FixedArrayType 1 (PrimitiveType INT8) 0) = type_uid (PrimitiveType INT8)"
  by (simp_all add: fixed_array_type_def mk_fixed_array_type_def type_size_def)

text \<open>A null field has the alignment 0, for which \<open>align_offset\<close> gives 0: the size of the fields before is
  lost, and the field after the null field overlaps the first one.\<close>

lemma null_field_overlaps:
  "struct_offsets (StructType 1 [PrimitiveType INT64, PrimitiveType NIL, PrimitiveType INT64] True) = [0, 0, 0]"
  "type_size (StructType 1 [PrimitiveType INT64, PrimitiveType NIL, PrimitiveType INT64] True) = Inr 8"
  by (simp_all add: struct_layout_def align_offset_def type_size_def max_def)

section \<open>Rounding up\<close>

lemma unat_of_nat_u32: "n < 2 ^ 32 \<Longrightarrow> unat (of_nat n :: u32) = n"
  by (simp add: unsigned_of_nat take_bit_nat_eq_self)

lemma and_minus_exp: "and x (- (2 ^ k)) = push_bit k (drop_bit k (x :: u32))"
  unfolding minus_exp_eq_not_mask by (rule bit_eqI) (auto simp: bit_simps)

lemma unat_push_drop: "unat (push_bit k (drop_bit k (x :: u32))) = unat x div 2 ^ k * 2 ^ k"
proof -
  have "unat x div 2 ^ k * 2 ^ k \<le> unat x" by (rule div_times_less_eq_dividend)
  moreover have "unat x < 2 ^ 32" using unsigned_less [of x] by simp
  ultimately have "unat x div 2 ^ k * 2 ^ k < 2 ^ 32" by (rule order_le_less_trans)
  then show ?thesis
    unfolding unsigned_push_bit_eq unsigned_drop_bit_eq
    using \<open>unat x < 2 ^ 32\<close> by (simp add: push_bit_eq_mult drop_bit_eq_div take_bit_nat_eq_self)
qed

lemma unat_align_offset:
  assumes "unat x + 2 ^ k \<le> 2 ^ 32" "k < 32"
  shows "unat (align_offset x (2 ^ k)) = (unat x + (2 ^ k - 1)) div 2 ^ k * 2 ^ k"
proof -
  have "unat (of_nat (2 ^ k) :: u32) = 2 ^ k"
    using assms(2) power_strict_increasing [of k 32 "2 :: nat"] by (intro unat_of_nat_u32) simp
  then have u: "unat (2 ^ k :: u32) = 2 ^ k" by simp
  have "(1 :: nat) \<le> 2 ^ k" by simp
  then have m: "unat (2 ^ k - 1 :: u32) = 2 ^ k - 1" by (simp add: unat_sub u word_le_nat_alt)
  have "unat x + (2 ^ k - 1) < 2 ^ LENGTH(32)" using assms(1) \<open>1 \<le> 2 ^ k\<close> by simp
  then have "unat (x + (2 ^ k - 1)) = unat x + (2 ^ k - 1)" unfolding m [symmetric] by (rule unat_add_lem [THEN iffD1])
  then show ?thesis by (simp add: align_offset_def and_minus_exp unat_push_drop)
qed

section \<open>Struct layouts\<close>

text \<open>\<open>layout_ok sz offs fields\<close>: from the position \<open>sz\<close> on, each field starts at the first multiple of its
  alignment behind the end of the field before.\<close>

definition round_up :: "nat \<Rightarrow> nat \<Rightarrow> nat" where
  "round_up x a = (x + (a - 1)) div a * a"

lemma round_up_bounds:
  assumes "0 < a"
  shows "x \<le> round_up x a" "round_up x a < x + a" "a dvd round_up x a"
proof -
  have "(x + (a - 1)) div a * a + (x + (a - 1)) mod a = x + (a - 1)" by simp
  moreover have "(x + (a - 1)) mod a < a" using assms by simp
  ultimately show "x \<le> round_up x a" "round_up x a < x + a" unfolding round_up_def using assms by linarith+
  show "a dvd round_up x a" by (simp add: round_up_def)
qed

lemma round_up_least:
  assumes "0 < a" "x \<le> y" "a dvd y"
  shows "round_up x a \<le> y"
proof -
  obtain q where y: "y = a * q" using assms(3) by (elim dvdE)
  have "(x + (a - 1)) div a < q + 1"
    using assms(1,2) unfolding y by (intro div_less_iff_less_mult [THEN iffD2]) (simp_all add: algebra_simps)
  then have "(x + (a - 1)) div a \<le> q" by simp
  then show ?thesis unfolding round_up_def y mult.commute [of a q] by (rule mult_le_mono1)
qed

definition field_ok :: "u32 \<times> u32 \<Rightarrow> bool" where
  "field_ok f \<longleftrightarrow> (\<exists>k < 32. snd f = 2 ^ k)"

abbreviation padded_size :: "(u32 \<times> u32) list \<Rightarrow> nat" where
  "padded_size fields \<equiv> sum_list (map (\<lambda>f. unat (fst f) + unat (snd f)) fields)"

fun field_offsets :: "nat \<Rightarrow> (u32 \<times> u32) list \<Rightarrow> nat list" where
  "field_offsets sz [] = []"
| "field_offsets sz (f # fs) = (let offset = round_up sz (unat (snd f)) in offset # field_offsets (offset + unat (fst f)) fs)"

fun fields_end :: "nat \<Rightarrow> (u32 \<times> u32) list \<Rightarrow> nat" where
  "fields_end sz [] = sz"
| "fields_end sz (f # fs) = fields_end (round_up sz (unat (snd f)) + unat (fst f)) fs"

lemma unat_two_power: "k < 32 \<Longrightarrow> unat (2 ^ k :: u32) = 2 ^ k"
  using power_strict_increasing [of k 32 "2 :: nat"] unat_of_nat_u32 [of "2 ^ k"] by simp

lemma align_offset_field:
  assumes "field_ok f" "unat x + unat (snd f) \<le> 2 ^ 32"
  shows "unat (align_offset x (snd f)) = round_up (unat x) (unat (snd f))"
  using assms unat_align_offset [of x] by (auto simp: field_ok_def unat_two_power round_up_def)

lemma field_ok_pos: "field_ok f \<Longrightarrow> 0 < unat (snd f)"
  by (auto simp: field_ok_def unat_two_power)

lemma unat_add_u32: "unat x + unat y < 2 ^ 32 \<Longrightarrow> unat (x + y :: u32) = unat x + unat y"
  using unat_add_lem [of x y] by simp

lemma aligned_loop:
  assumes "\<forall>f \<in> set fields. field_ok f" "unat sz + padded_size fields < 2 ^ 32"
    and "struct_aligned_loop fields sz al = (offs, sz', al')"
  shows "map unat offs = field_offsets (unat sz) fields \<and> unat sz' = fields_end (unat sz) fields \<and>
    al' = foldr max (map snd (rev fields)) al \<and> fields_end (unat sz) fields \<le> unat sz + padded_size fields"
  using assms
proof (induction fields arbitrary: sz al offs)
  case (Cons f fs)
  obtain fsz a where f: "f = (fsz, a)" by (cases f)
  let ?o = "align_offset sz a"
  have ok: "field_ok f" and pos: "0 < unat a" using Cons.prems(1) field_ok_pos [of f] f by auto
  have le: "unat sz + unat a \<le> 2 ^ 32" using Cons.prems(2) by (simp add: f)
  have o: "unat ?o = round_up (unat sz) (unat a)" using align_offset_field [OF ok] le by (simp add: f)
  have b: "unat ?o < unat sz + unat a" unfolding o by (rule round_up_bounds(2) [OF pos])
  have p: "padded_size (f # fs) = unat fsz + unat a + padded_size fs" by (simp add: f)
  have e: "unat (?o + fsz) = unat ?o + unat fsz" using Cons.prems(2) b unfolding p by (intro unat_add_u32) linarith
  obtain offs1 where l: "struct_aligned_loop fs (?o + fsz) (max a al) = (offs1, sz', al')" "offs = ?o # offs1"
    using Cons.prems(3) by (auto simp: f Let_def split: prod.splits)
  have "unat (?o + fsz) + padded_size fs < 2 ^ 32" using Cons.prems(2) b unfolding e p by linarith
  from Cons.IH [OF _ this l(1)] Cons.prems(1) have ih:
    "map unat offs1 = field_offsets (unat (?o + fsz)) fs" "unat sz' = fields_end (unat (?o + fsz)) fs"
    "al' = foldr max (map snd (rev fs)) (max a al)"
    "fields_end (unat (?o + fsz)) fs \<le> unat (?o + fsz) + padded_size fs" by simp_all
  have "fields_end (unat sz) (f # fs) \<le> unat sz + padded_size (f # fs)"
    using ih(4) b unfolding e p by (simp add: f o [symmetric])
  then show ?case using ih l(2) by (simp add: f e o [symmetric] Let_def)
qed simp

definition field_start :: "nat \<Rightarrow> (u32 \<times> u32) list \<Rightarrow> nat list \<Rightarrow> nat \<Rightarrow> nat" where
  "field_start sz fields offs i = (if i = 0 then sz else offs ! (i - 1) + unat (fst (fields ! (i - 1))))"

lemma field_offsets_nth:
  "length (field_offsets sz fields) = length fields"
  "i < length fields \<Longrightarrow> field_offsets sz fields ! i
     = round_up (field_start sz fields (field_offsets sz fields) i) (unat (snd (fields ! i)))"
  "fields_end sz fields = field_start sz fields (field_offsets sz fields) (length fields)"
proof -
  show len: "length (field_offsets sz fields) = length fields" for sz
    by (induction fields arbitrary: sz) (simp_all add: Let_def)
  show "i < length fields \<Longrightarrow> field_offsets sz fields ! i
     = round_up (field_start sz fields (field_offsets sz fields) i) (unat (snd (fields ! i)))"
  proof (induction fields arbitrary: sz i)
    case (Cons f fs)
    then show ?case by (cases i) (simp_all add: Let_def field_start_def nth_Cons')
  qed simp
  show "fields_end sz fields = field_start sz fields (field_offsets sz fields) (length fields)"
    by (induction fields arbitrary: sz) (simp_all add: Let_def field_start_def nth_Cons' split: nat.splits)
qed

lemma max_alignment:
  assumes "\<forall>f \<in> set fields. field_ok f" "\<exists>k < 32. al0 = (2 :: u32) ^ k" "al = foldr max (map snd (rev fields)) al0"
  shows "\<exists>k < 32. al = 2 ^ k" "f \<in> set fields \<Longrightarrow> snd f \<le> al" "al = al0 \<or> (\<exists>f \<in> set fields. al = snd f)"
proof -
  have "(\<exists>k < 32. foldr max (map snd (rev fields)) al0 = (2 :: u32) ^ k) \<and>
      (\<forall>f \<in> set fields. snd f \<le> foldr max (map snd (rev fields)) al0) \<and> al0 \<le> foldr max (map snd (rev fields)) al0 \<and>
      (foldr max (map snd (rev fields)) al0 = al0 \<or> (\<exists>f \<in> set fields. foldr max (map snd (rev fields)) al0 = snd f))"
    using assms(1,2)
  proof (induction fields arbitrary: al0)
    case (Cons f fs)
    have "\<exists>k < 32. max (snd f) al0 = (2 :: u32) ^ k" using Cons.prems by (auto simp: field_ok_def max_def)
    from Cons.IH [OF _ this] Cons.prems(1) show ?case by (auto simp: max_def split: if_splits)
  qed simp
  then show "\<exists>k < 32. al = 2 ^ k" "f \<in> set fields \<Longrightarrow> snd f \<le> al" "al = al0 \<or> (\<exists>f \<in> set fields. al = snd f)"
    unfolding assms(3) by blast+
qed

lemma power_le_dvd:
  assumes "(2 :: u32) ^ k \<le> 2 ^ l" "k < 32" "l < 32"
  shows "unat (2 ^ k :: u32) dvd unat (2 ^ l :: u32)"
proof -
  have "(2 :: nat) ^ k \<le> 2 ^ l" using assms by (simp add: word_le_nat_alt unat_two_power)
  then have "k \<le> l" by simp
  then show ?thesis using assms(2,3) by (simp add: unat_two_power le_imp_power_dvd)
qed

lemma packed_loop:
  assumes "unat sz + sum_list (map (unat \<circ> fst) fields) < 2 ^ 32" "struct_packed_loop fields sz = (offs, sz')"
  shows "length offs = length fields \<and> unat sz' = unat sz + sum_list (map (unat \<circ> fst) fields) \<and>
    (\<forall>i < length fields. unat (offs ! i) = unat sz + sum_list (map (unat \<circ> fst) (take i fields)))"
  using assms
proof (induction fields arbitrary: sz offs)
  case (Cons f fs)
  obtain fsz a where f: "f = (fsz, a)" by (cases f)
  have e: "unat (sz + fsz) = unat sz + unat fsz" using Cons.prems(1) by (intro unat_add_u32) (simp add: f)
  obtain offs1 where l: "struct_packed_loop fs (sz + fsz) = (offs1, sz')" "offs = sz # offs1"
    using Cons.prems(2) by (auto simp: f split: prod.splits)
  have "unat (sz + fsz) + sum_list (map (unat \<circ> fst) fs) < 2 ^ 32" using Cons.prems(1)
    by (simp add: e f comp_def add.assoc)
  from Cons.IH [OF this l(1)] show ?case
    by (auto simp: l(2) e f nth_Cons' take_Cons' comp_def add.assoc)
qed simp

section \<open>Properties\<close>

text \<open>The layout of an aligned struct puts each field at the first multiple of the field's alignment
  behind the end of the field before, so fields do not overlap and no space is wasted; the alignment
  of the struct is a multiple of every field's, and its size the end of the last field rounded up to
  it. (Alignments are powers of two and the padded fields are below 2^31 bytes.)\<close>

theorem struct_layout_correct:
  assumes "\<forall>f \<in> set fields. field_ok f" "2 * padded_size fields + 2 < 2 ^ 32"
    and "struct_layout fields True = (offs, sz, al)"
  defines "start \<equiv> field_start 0 fields (map unat offs)"
  shows "length offs = length fields \<and>
    (\<forall>i < length fields. unat (snd (fields ! i)) dvd unat (offs ! i) \<and> start i \<le> unat (offs ! i) \<and>
       unat (offs ! i) < start i + unat (snd (fields ! i)) \<and> unat (snd (fields ! i)) dvd unat al) \<and>
    unat al dvd unat sz \<and> start (length fields) \<le> unat sz \<and> unat sz < start (length fields) + unat al"
proof -
  obtain sz0 where l: "struct_aligned_loop fields 0 1 = (offs, sz0, al)" "sz = align_offset sz0 al"
    using assms(3) by (auto simp: struct_layout_def split: prod.splits)
  have "padded_size fields < 2 ^ 32" using assms(2) by linarith
  from aligned_loop [OF assms(1) _ l(1)] this
  have a: "map unat offs = field_offsets 0 fields" "unat sz0 = fields_end 0 fields"
    "al = foldr max (map snd (rev fields)) 1" "fields_end 0 fields \<le> padded_size fields" by simp_all
  note al = max_alignment [OF assms(1) _ a(3)]
  have one: "\<exists>k < 32. (1 :: u32) = 2 ^ k" by (intro exI [of _ 0]) simp
  obtain k where k: "k < 32" "al = 2 ^ k" using al(1) [OF one] by blast
  have "unat al \<le> padded_size fields + 1"
    using al(3) [OF one]
  proof
    assume "\<exists>f \<in> set fields. al = snd f"
    then obtain f where f: "f \<in> set fields" "al = snd f" by blast
    then have "unat (fst f) + unat (snd f) \<le> padded_size fields" by (intro member_le_sum_list) auto
    then show ?thesis using f(2) by simp
  qed simp
  then have "unat sz0 + unat al \<le> 2 ^ 32" using a(2,4) assms(2) by linarith
  moreover have "field_ok (0, al)" using k by (auto simp: field_ok_def)
  ultimately have sz: "unat sz = round_up (fields_end 0 fields) (unat al)"
    using align_offset_field [of "(0, al)" sz0] a(2) by (simp add: l(2))
  have pos: "0 < unat al" using k by (simp add: unat_two_power)
  have len: "length offs = length fields" using arg_cong [OF a(1), of length] field_offsets_nth(1) [of 0 fields] by simp
  have ends: "fields_end 0 fields = start (length fields)"
    unfolding start_def a(1) by (rule field_offsets_nth(3))
  have field: "unat (offs ! i) = round_up (start i) (unat (snd (fields ! i)))" "field_ok (fields ! i)"
    "unat (snd (fields ! i)) dvd unat al" if "i < length fields" for i
  proof -
    have "unat (offs ! i) = map unat offs ! i" using that len by simp
    then show "unat (offs ! i) = round_up (start i) (unat (snd (fields ! i)))"
      unfolding start_def a(1) using field_offsets_nth(2) [OF that, of 0] by simp
    show ok: "field_ok (fields ! i)" using assms(1) that by simp
    then obtain l where l: "l < 32" "snd (fields ! i) = 2 ^ l" by (auto simp: field_ok_def)
    have "snd (fields ! i) \<le> al" using al(2) [OF one] that by simp
    then show "unat (snd (fields ! i)) dvd unat al" unfolding k(2) l(2) using l(1) k(1) by (intro power_le_dvd)
  qed
  show ?thesis
    unfolding sz ends using len field round_up_bounds [OF pos] round_up_bounds [OF field_ok_pos] by metis
qed

lemma struct_layout_correct_witness:
  "struct_layout [(1, 1), (8, 8), (2, 2)] True = ([0, 8, 16], 24, 8) \<and>
    unat (8 :: u32) dvd unat ([0, 8, 16 :: u32] ! 1) \<and> unat (2 :: u32) dvd unat ([0, 8, 16 :: u32] ! 2)"
proof -
  have l: "struct_layout [(1, 1), (8, 8), (2, 2)] True = ([0, 8, 16], 24, 8)"
    by code_simp
  have "field_ok (s, 2 ^ k)" if "k < 32" for s k using that by (auto simp: field_ok_def)
  from this [of 0 1] this [of 1 2] this [of 3 8] have "\<forall>f \<in> set [(1, 1), (8, 8), (2, 2)]. field_ok f" by simp
  from struct_layout_correct [OF this _ l] l show ?thesis by (simp add: numeral_3_eq_3)
qed

end
