(* ===== verification/Buffers.thy ===== *)
theory Buffers
  imports Legate_Prelude
begin

text \<open>
  Serialization buffers: \<open>BufferBuilder\<close> (utilities/detail/buffer_builder) that packs values for a task,
  and \<open>BaseDeserializer\<close> (utilities/detail/deserializer) that reads them on the other side, with the
  alignment of utilities/detail/align.

  A buffer is its bytes and the address of its first byte. Only the address modulo 16 matters: that is
  what \<open>operator new\<close> guarantees for the vector of the builder, so a reallocation keeps it. Sizes are
  \<open>nat\<close>: no buffer has 2^64 bytes. Integers are stored as on the machines the library runs on, the low
  byte first. An unpacking function returns the value and the rest of the buffer.

  The locale \<open>codec\<close> is the contract of a packing and an unpacking function for the same type. What holds
  for a type holds for vectors and optional values of it; the interpretations below and in the theories
  on top of this one give the contract for each type the library sends.
\<close>

section \<open>Bytes\<close>

type_synonym byte = "8 word"

fun le_bytes :: "nat \<Rightarrow> nat \<Rightarrow> byte list" where
  "le_bytes 0 n = []"
| "le_bytes (Suc k) n = of_nat (n mod 256) # le_bytes k (n div 256)"

fun le_value :: "byte list \<Rightarrow> nat" where
  "le_value [] = 0"
| "le_value (b # bs) = unat b + 256 * le_value bs"

lemma length_le_bytes [simp]: "length (le_bytes k n) = k"
  by (induction k arbitrary: n) auto

lemma le_value_bytes: "n < 256 ^ k \<Longrightarrow> le_value (le_bytes k n) = n"
proof (induction k arbitrary: n)
  case (Suc k)
  have "n div 256 < 256 ^ k" using Suc.prems by (simp add: less_mult_imp_div_less mult.commute)
  moreover have "unat (of_nat (n mod 256) :: byte) = n mod 256"
    by (simp add: unsigned_of_nat take_bit_eq_mod)
  ultimately show ?case using Suc.IH by simp
qed simp

section \<open>The builder\<close>

record builder =
  bb_base :: nat
  bb_bytes :: "byte list"

type_synonym packer = "builder \<Rightarrow> builder result"

text \<open>\<open>std::align\<close> moves a pointer to the next multiple of the alignment when the space behind it still
  suffices, and reports the space left. \<open>resize\<close> of a vector cuts it or extends it with zeros.\<close>

definition padding :: "nat \<Rightarrow> nat \<Rightarrow> nat" where
  "padding alignment ptr = (alignment - ptr mod alignment) mod alignment"

definition std_align :: "nat \<Rightarrow> nat \<Rightarrow> nat \<Rightarrow> nat \<Rightarrow> (nat \<times> nat) option" where
  "std_align alignment sz ptr space =
     (if space < padding alignment ptr + sz then None
      else Some (ptr + padding alignment ptr, space - padding alignment ptr))"

definition resize :: "nat \<Rightarrow> byte list \<Rightarrow> byte list" where
  "resize n xs = take n xs @ replicate (n - length xs) 0"

definition mem_copy :: "nat \<Rightarrow> byte list \<Rightarrow> byte list \<Rightarrow> byte list" where
  "mem_copy at mem xs = take at xs @ mem @ drop (at + length mem) xs"

definition is_power_of_2 :: "nat \<Rightarrow> bool" where
  "is_power_of_2 v \<longleftrightarrow> v \<noteq> 0 \<and> and v (v - 1) = 0"

definition pack_buffer :: "byte list \<Rightarrow> nat \<Rightarrow> packer" where
  "pack_buffer mem alignment b =
     (let sz = length mem; orig_buf_size = length (bb_bytes b); ptr = bb_base b + orig_buf_size
      in if sz = 0 then Inr b
         else rguard (alignment \<noteq> 0) InvalidArgument
           (rguard (is_power_of_2 alignment) InvalidArgument
             (let buffer = resize (orig_buf_size + sz) (bb_bytes b)
              in case std_align alignment sz ptr sz of
                   Some (aligned_ptr, space) \<Rightarrow>
                     Inr (b\<lparr>bb_bytes := mem_copy (aligned_ptr - bb_base b) mem buffer\<rparr>)
                 | None \<Rightarrow>
                     (let orig_size_and_padding = sz + alignment - 1;
                          buffer = resize (orig_buf_size + orig_size_and_padding) buffer
                      in case std_align alignment sz ptr orig_size_and_padding of
                           None \<Rightarrow> Inl RuntimeError
                         | Some (aligned_ptr, new_size_and_padding) \<Rightarrow>
                             (let buffer = resize (orig_buf_size + (orig_size_and_padding - new_size_and_padding) + sz) buffer
                              in Inr (b\<lparr>bb_bytes := mem_copy (aligned_ptr - bb_base b) mem buffer\<rparr>))))))"

definition pack_word :: "'a :: len word \<Rightarrow> packer" where
  "pack_word w = pack_buffer (le_bytes (LENGTH('a) div 8) (unat w)) (LENGTH('a) div 8)"

definition pack_bool :: "bool \<Rightarrow> packer" where
  "pack_bool b = pack_word (if b then 1 else 0 :: 8 word)"

text \<open>\<open>pseq\<close> is one call after the other on the same builder.\<close>

definition pseq :: "packer \<Rightarrow> packer \<Rightarrow> packer" where
  "pseq m m' b = rbind (m b) m'"

fun pack_all :: "('a \<Rightarrow> packer) \<Rightarrow> 'a list \<Rightarrow> packer" where
  "pack_all pack [] = Inr"
| "pack_all pack (x # xs) = pseq (pack x) (pack_all pack xs)"

lemma pack_all_cong [fundef_cong]:
  "xs = ys \<Longrightarrow> (\<And>x. x \<in> set ys \<Longrightarrow> f x = g x) \<Longrightarrow> pack_all f xs = pack_all g ys"
  by (induction ys arbitrary: xs) auto

definition pack_vector :: "('a \<Rightarrow> packer) \<Rightarrow> 'a list \<Rightarrow> packer" where
  "pack_vector pack xs = pseq (pack_word (of_nat (length xs) :: u32)) (pack_all pack xs)"

definition pack_span :: "'a :: len word list \<Rightarrow> packer" where
  "pack_span values =
     pseq (pack_word (of_nat (length values) :: u32))
       (pack_buffer (concat (map (\<lambda>w. le_bytes (LENGTH('a) div 8) (unat w)) values)) (LENGTH('a) div 8))"

definition pack_optional :: "('a \<Rightarrow> packer) \<Rightarrow> 'a option \<Rightarrow> packer" where
  "pack_optional pack v =
     (case v of None \<Rightarrow> pack_bool False | Some x \<Rightarrow> pseq (pack_bool True) (pack x))"

section \<open>The deserializer\<close>

record reader =
  rd_pos :: nat
  rd_bytes :: "byte list"

type_synonym 'a unpacker = "reader \<Rightarrow> ('a \<times> reader) result"

definition align_for_unpack_impl :: "nat \<Rightarrow> nat \<Rightarrow> nat \<Rightarrow> nat \<Rightarrow> (nat \<times> nat) result" where
  "align_for_unpack_impl ptr capacity bytes alignment =
     (if bytes = 0 then Inr (ptr, 0)
      else (let orig_avail_space = min (bytes + alignment - 1) capacity
            in case std_align alignment bytes ptr orig_avail_space of
                 None \<Rightarrow> Inl RuntimeError
               | Some (ptr, avail_space) \<Rightarrow> Inr (ptr, orig_avail_space - avail_space)))"

definition unpack_bytes :: "nat \<Rightarrow> nat \<Rightarrow> byte list unpacker" where
  "unpack_bytes bytes alignment r =
     rbind (align_for_unpack_impl (rd_pos r) (length (rd_bytes r)) bytes alignment) (\<lambda>(ptr, align_offset).
       Inr (take bytes (drop align_offset (rd_bytes r)),
            \<lparr>rd_pos = rd_pos r + align_offset + bytes, rd_bytes = drop (align_offset + bytes) (rd_bytes r)\<rparr>))"

definition ubind :: "'a unpacker \<Rightarrow> ('a \<Rightarrow> 'b unpacker) \<Rightarrow> 'b unpacker" where
  "ubind u f r = rbind (u r) (\<lambda>(x, r). f x r)"

definition ureturn :: "'a \<Rightarrow> 'a unpacker" where
  "ureturn x r = Inr (x, r)"

definition ulift :: "'a result \<Rightarrow> 'a unpacker" where
  "ulift m r = rbind m (\<lambda>x. Inr (x, r))"

definition unpack_word :: "'a :: len word unpacker" where
  "unpack_word =
     ubind (unpack_bytes (LENGTH('a) div 8) (LENGTH('a) div 8)) (\<lambda>bs. ureturn (of_nat (le_value bs)))"

definition unpack_bool :: "bool unpacker" where
  "unpack_bool = ubind unpack_word (\<lambda>w :: 8 word. ureturn (w \<noteq> 0))"

fun unpack_n :: "'a unpacker \<Rightarrow> nat \<Rightarrow> 'a list unpacker" where
  "unpack_n u 0 = ureturn []"
| "unpack_n u (Suc n) = ubind u (\<lambda>x. ubind (unpack_n u n) (\<lambda>xs. ureturn (x # xs)))"

definition unpack_vector :: "'a unpacker \<Rightarrow> 'a list unpacker" where
  "unpack_vector u = ubind unpack_word (\<lambda>size :: u32. unpack_n u (unat size))"

definition unpack_optional :: "'a unpacker \<Rightarrow> 'a option unpacker" where
  "unpack_optional u =
     ubind unpack_bool (\<lambda>has_value. if has_value then ubind u (\<lambda>x. ureturn (Some x)) else ureturn None)"

section \<open>Packing appends to the buffer\<close>

definition bb_append :: "builder \<Rightarrow> byte list \<Rightarrow> builder" where
  "bb_append b ext = b\<lparr>bb_bytes := bb_bytes b @ ext\<rparr>"

definition bb_pos :: "builder \<Rightarrow> nat" where
  "bb_pos b = bb_base b + length (bb_bytes b)"

lemma bb_append_simps [simp]:
  "bb_append b [] = b" "bb_append (bb_append b e1) e2 = bb_append b (e1 @ e2)"
  "bb_pos (bb_append b ext) = bb_pos b + length ext" "bb_bytes (bb_append b ext) = bb_bytes b @ ext"
  "bb_base (bb_append b ext) = bb_base b"
  by (simp_all add: bb_append_def bb_pos_def)

lemma padding_less: "0 < alignment \<Longrightarrow> padding alignment ptr < alignment"
  by (simp add: padding_def)

lemma padding_eq: "0 < alignment \<Longrightarrow> padding alignment ptr = (if ptr mod alignment = 0 then 0 else alignment - ptr mod alignment)"
  by (simp add: padding_def)

lemma padding_dvd:
  assumes "0 < alignment"
  shows "alignment dvd ptr + padding alignment ptr"
proof (cases "ptr mod alignment = 0")
  case False
  have "ptr mod alignment < alignment" using assms by simp
  then have "ptr + padding alignment ptr = ptr div alignment * alignment + alignment"
    using div_mult_mod_eq [of ptr alignment] False unfolding padding_eq [OF assms] if_not_P [OF False] by linarith
  then show ?thesis by simp
qed (use assms in \<open>auto simp: padding_eq\<close>)

lemma padding_zero: "alignment dvd ptr \<Longrightarrow> padding alignment ptr = 0"
  by (cases "alignment = 0") (auto simp: padding_def)

lemma padding_cong: "p mod 16 = q mod 16 \<Longrightarrow> alignment dvd 16 \<Longrightarrow> padding alignment p = padding alignment (q :: nat)"
  unfolding padding_def by (metis mod_mod_cancel)

lemma mem_copy_append: "length xs = n \<Longrightarrow> length ys = length mem \<Longrightarrow> mem_copy n mem (xs @ ys) = xs @ mem"
  by (simp add: mem_copy_def)

lemma pack_buffer_eq:
  assumes "mem \<noteq> []" "is_power_of_2 alignment"
  shows "pack_buffer mem alignment b =
    Inr (bb_append b (replicate (padding alignment (bb_pos b)) 0 @ mem))"
proof -
  have pos: "0 < alignment" using assms(2) by (simp add: is_power_of_2_def)
  let ?p = "padding alignment (bb_pos b)" and ?s = "length mem" and ?n = "length (bb_bytes b)"
  have lt: "?p < alignment" by (rule padding_less [OF pos])
  show ?thesis
  proof (cases "?p = 0")
    case True
    then have "std_align alignment ?s (bb_base b + ?n) ?s = Some (bb_base b + ?n, ?s)"
      by (simp add: std_align_def bb_pos_def)
    then show ?thesis using True assms pos
      by (simp add: pack_buffer_def resize_def bb_append_def mem_copy_append)
  next
    case False
    then have "std_align alignment ?s (bb_base b + ?n) ?s = None"
      by (simp add: std_align_def bb_pos_def)
    moreover have "std_align alignment ?s (bb_base b + ?n) (?s + alignment - 1) =
        Some (bb_base b + ?n + ?p, ?s + alignment - 1 - ?p)"
      using lt by (simp add: std_align_def bb_pos_def)
    moreover have "?s + alignment - 1 - (?s + alignment - 1 - ?p) = ?p" using lt by simp
    moreover have "resize (?n + ?p + ?s) (resize (?n + (?s + alignment - 1)) (resize (?n + ?s) (bb_bytes b))) =
        (bb_bytes b @ replicate ?p 0) @ replicate ?s 0"
      using lt by (simp add: resize_def min_def take_replicate replicate_add [symmetric] ac_simps)
    ultimately show ?thesis using assms pos
      by (simp add: pack_buffer_def bb_append_def Let_def mem_copy_append del: append_assoc)
  qed
qed
section \<open>Round trips\<close>

text \<open>\<open>encodes u x p ext\<close>: wherever the bytes \<open>ext\<close> stand at a position congruent to \<open>p\<close>, the unpacking
  function reads \<open>x\<close> from them and leaves what follows. \<open>packs n m u x\<close>: the packing step \<open>m\<close> succeeds,
  keeps what the builder holds and appends at least \<open>n\<close> bytes from which \<open>u\<close> reads \<open>x\<close>.\<close>

definition encodes :: "'a unpacker \<Rightarrow> 'a \<Rightarrow> nat \<Rightarrow> byte list \<Rightarrow> bool" where
  "encodes u x p ext \<longleftrightarrow>
     (\<forall>pos rest. pos mod 16 = p mod 16 \<longrightarrow>
        u \<lparr>rd_pos = pos, rd_bytes = ext @ rest\<rparr> = Inr (x, \<lparr>rd_pos = pos + length ext, rd_bytes = rest\<rparr>))"

definition packs :: "nat \<Rightarrow> packer \<Rightarrow> 'a unpacker \<Rightarrow> 'a \<Rightarrow> bool" where
  "packs n m u x \<longleftrightarrow>
     (\<forall>b. \<exists>ext. m b = Inr (bb_append b ext) \<and> n \<le> length ext \<and> encodes u x (bb_pos b) ext)"

lemma packsD:
  assumes "packs n m u x"
  obtains ext where "m b = Inr (bb_append b ext)" "n \<le> length ext" "encodes u x (bb_pos b) ext"
  using assms unfolding packs_def by blast

lemma packs_weaken: "packs n m u x \<Longrightarrow> k \<le> n \<Longrightarrow> packs k m u x"
  unfolding packs_def by (meson le_trans)

lemma packs_return: "packs 0 Inr (ureturn x) x"
  unfolding packs_def by (intro allI exI [of _ "[]"]) (simp add: encodes_def ureturn_def)

lemma encodes_bind:
  assumes "encodes u x p e1" "encodes (f x) y (p + length e1) e2"
  shows "encodes (ubind u f) y p (e1 @ e2)"
  unfolding encodes_def
proof (intro allI impI)
  fix pos rest assume p: "pos mod 16 = p mod 16"
  then have "(pos + length e1) mod 16 = (p + length e1) mod 16" by (metis mod_add_left_eq)
  then show "ubind u f \<lparr>rd_pos = pos, rd_bytes = (e1 @ e2) @ rest\<rparr> =
      Inr (y, \<lparr>rd_pos = pos + length (e1 @ e2), rd_bytes = rest\<rparr>)"
    using assms p by (simp add: encodes_def ubind_def add.assoc)
qed

lemma packs_bind:
  assumes "packs n m u x" "packs k m' (f x) y"
  shows "packs (n + k) (pseq m m') (ubind u f) y"
  unfolding packs_def
proof
  fix b
  obtain e1 where 1: "m b = Inr (bb_append b e1)" "n \<le> length e1" "encodes u x (bb_pos b) e1"
    using assms(1) by (rule packsD)
  obtain e2 where 2: "m' (bb_append b e1) = Inr (bb_append (bb_append b e1) e2)" "k \<le> length e2"
    "encodes (f x) y (bb_pos b + length e1) e2"
    using assms(2) by (rule packsD [of _ _ _ _ "bb_append b e1"]) simp
  show "\<exists>ext. pseq m m' b = Inr (bb_append b ext) \<and> n + k \<le> length ext \<and> encodes (ubind u f) y (bb_pos b) ext"
    using 1 2 encodes_bind [where f = f, OF 1(3) 2(3)] by (intro exI [of _ "e1 @ e2"]) (simp add: pseq_def)
qed

lemma pseq_return [simp]: "pseq m Inr = m"
  by (simp add: pseq_def rbind_def fun_eq_iff split: sum.splits)

lemma packs_map: "packs n m u x \<Longrightarrow> f x = y \<Longrightarrow> packs n m (ubind u (\<lambda>x. ureturn (f x))) y"
  using packs_bind [where n = n and k = 0 and m = m and m' = Inr and u = u and x = x and f = "\<lambda>x. ureturn (f x)", OF _ packs_return]
  by simp

section \<open>Words\<close>

lemma is_power_of_2_simps [simp]:
  "is_power_of_2 1" "is_power_of_2 (Suc 0)" "is_power_of_2 2" "is_power_of_2 4" "is_power_of_2 8" "is_power_of_2 16"
  by (simp_all add: is_power_of_2_def)

lemma align_for_unpack_enough:
  assumes "0 < sz" "0 < alignment" "padding alignment ptr + sz \<le> capacity"
  shows "align_for_unpack_impl ptr capacity sz alignment =
    Inr (ptr + padding alignment ptr, padding alignment ptr)"
  using assms padding_less [OF assms(2), of ptr] by (simp add: align_for_unpack_impl_def std_align_def Let_def)

lemma encodes_bytes:
  assumes "mem \<noteq> []" "0 < alignment" "alignment dvd 16"
  shows "encodes (unpack_bytes (length mem) alignment) mem p (replicate (padding alignment p) 0 @ mem)"
  unfolding encodes_def
proof (intro allI impI)
  fix pos and rest :: "byte list" assume "pos mod 16 = p mod 16"
  then have e: "padding alignment pos = padding alignment p" by (rule padding_cong) (rule assms)
  show "unpack_bytes (length mem) alignment
      \<lparr>rd_pos = pos, rd_bytes = (replicate (padding alignment p) 0 @ mem) @ rest\<rparr> =
    Inr (mem, \<lparr>rd_pos = pos + length (replicate (padding alignment p) 0 @ mem), rd_bytes = rest\<rparr>)"
    using assms by (simp add: unpack_bytes_def align_for_unpack_enough e)
qed

lemma packs_bytes:
  assumes "is_power_of_2 alignment" "alignment dvd 16"
  shows "packs (length mem) (pack_buffer mem alignment) (unpack_bytes (length mem) alignment) mem"
proof (cases "mem = []")
  case True
  then show ?thesis unfolding packs_def
    by (intro allI exI [of _ "[]"]) (simp add: pack_buffer_def encodes_def unpack_bytes_def align_for_unpack_impl_def)
next
  case False
  moreover have "0 < alignment" using assms(1) by (simp add: is_power_of_2_def)
  ultimately show ?thesis using pack_buffer_eq [OF False assms(1)] encodes_bytes [OF False _ assms(2)]
    unfolding packs_def by (metis le_add2 length_append)
qed

lemma word_bytes:
  assumes "LENGTH('a :: len) \<in> {8, 16, 32, 64}"
  shows "(of_nat (le_value (le_bytes (LENGTH('a) div 8) (unat w))) :: 'a word) = w"
proof -
  have "(256 :: nat) ^ (LENGTH('a) div 8) = 2 ^ LENGTH('a)" using assms by auto
  then have "unat w < 256 ^ (LENGTH('a) div 8)" using unsigned_less [of w] by simp
  from le_value_bytes [OF this] show ?thesis by simp
qed

lemma word_alignment:
  assumes "LENGTH('a :: len) \<in> {8, 16, 32, 64}"
  shows "is_power_of_2 (LENGTH('a) div 8)" "LENGTH('a) div 8 dvd 16" "0 < LENGTH('a) div 8"
  using assms by auto

lemma packs_word:
  assumes "LENGTH('a :: len) \<in> {8, 16, 32, 64}"
  shows "packs (LENGTH('a) div 8) (pack_word (w :: 'a word)) unpack_word w"
  unfolding pack_word_def unpack_word_def
  using packs_map [OF packs_bytes [OF word_alignment(1,2) [OF assms]]] word_bytes [OF assms, of w]
  by (metis length_le_bytes)

lemma packs_bool: "packs 1 (pack_bool v) unpack_bool v"
proof -
  have "packs 1 (pack_word (if v then 1 else 0 :: 8 word)) unpack_word (if v then 1 else 0 :: 8 word)"
    using packs_word [where 'a = 8] by simp
  from packs_map [where f = "\<lambda>w :: 8 word. w \<noteq> 0", OF this] show ?thesis
    unfolding pack_bool_def unpack_bool_def by (cases v) simp_all
qed

lemma packs_list_map:
  "(\<And>x. x \<in> set xs \<Longrightarrow> packs (n x) (pack x) unpack (g x)) \<Longrightarrow>
   packs (sum_list (map n xs)) (pack_all pack xs) (unpack_n unpack (length xs)) (map g xs)"
proof (induction xs)
  case (Cons x xs)
  have "packs (n x) (pack x) unpack (g x)" using Cons.prems by simp
  moreover have "packs (sum_list (map n xs)) (pack_all pack xs) (unpack_n unpack (length xs)) (map g xs)"
    using Cons.prems by (intro Cons.IH) simp
  ultimately show ?case by (auto intro!: packs_bind packs_map)
qed (simp add: packs_return)

lemmas packs_list = packs_list_map [where g = "\<lambda>x. x", simplified]

lemma packs_lift: "m = Inr x \<Longrightarrow> packs 0 Inr (ulift m) x"
  unfolding packs_def by (intro allI exI [of _ "[]"]) (simp add: encodes_def ulift_def)

section \<open>The contract of a serialized type\<close>

locale codec =
  fixes pack :: "'a \<Rightarrow> packer" and unpack :: "'a unpacker" and good :: "'a \<Rightarrow> bool" and min_bytes :: "'a \<Rightarrow> nat"
  assumes packs_value: "good x \<Longrightarrow> packs (min_bytes x) (pack x) unpack x"
begin

lemma packs_all:
  "list_all good xs \<Longrightarrow> packs (sum_list (map min_bytes xs)) (pack_all pack xs) (unpack_n unpack (length xs)) xs"
  by (rule packs_list) (auto simp: list_all_iff intro: packs_value)

lemma packs_vector:
  assumes "list_all good xs" "length xs < 2 ^ 32"
  shows "packs (4 + sum_list (map min_bytes xs)) (pack_vector pack xs) (unpack_vector unpack) xs"
proof -
  have "unat (of_nat (length xs) :: u32) = length xs" using assms(2) by (simp add: unsigned_of_nat take_bit_nat_eq_self)
  then have "packs (sum_list (map min_bytes xs)) (pack_all pack xs)
      (unpack_n unpack (unat (of_nat (length xs) :: u32))) xs"
    using packs_all [OF assms(1)] by simp
  from packs_bind [OF packs_word [where 'a = 32, simplified],
      where f = "\<lambda>size :: u32. unpack_n unpack (unat size)", OF this]
  show ?thesis by (simp add: pack_vector_def unpack_vector_def)
qed

lemma packs_optional:
  assumes "case v of None \<Rightarrow> True | Some x \<Rightarrow> good x"
  shows "packs 1 (pack_optional pack v) (unpack_optional unpack) v"
proof (cases v)
  case None
  let ?f = "\<lambda>has_value. if has_value then ubind unpack (\<lambda>x. ureturn (Some x)) else ureturn None"
  have "packs 0 Inr (?f False) None" by (simp add: packs_return)
  from packs_bind [where f = ?f, OF packs_bool this] show ?thesis
    by (simp add: None pack_optional_def unpack_optional_def)
next
  case (Some x)
  let ?f = "\<lambda>has_value. if has_value then ubind unpack (\<lambda>x. ureturn (Some x)) else ureturn None"
  have "packs (min_bytes x) (pack x) (?f True) (Some x)"
    using assms Some by (simp add: packs_map [OF packs_value])
  from packs_weaken [OF packs_bind [where f = ?f, OF packs_bool this], of 1] show ?thesis
    by (simp add: Some pack_optional_def unpack_optional_def)
qed

end

interpretation u8_codec: codec "pack_word :: 8 word \<Rightarrow> packer" unpack_word "\<lambda>_. True" "\<lambda>_. 1"
  using packs_word [where 'a = 8] by unfold_locales simp

interpretation u16_codec: codec "pack_word :: 16 word \<Rightarrow> packer" unpack_word "\<lambda>_. True" "\<lambda>_. 2"
  using packs_word [where 'a = 16] by unfold_locales simp

interpretation u32_codec: codec "pack_word :: 32 word \<Rightarrow> packer" unpack_word "\<lambda>_. True" "\<lambda>_. 4"
  using packs_word [where 'a = 32] by unfold_locales simp

interpretation u64_codec: codec "pack_word :: 64 word \<Rightarrow> packer" unpack_word "\<lambda>_. True" "\<lambda>_. 8"
  using packs_word [where 'a = 64] by unfold_locales simp

interpretation bool_codec: codec pack_bool unpack_bool "\<lambda>_. True" "\<lambda>_. 1"
  by unfold_locales (rule packs_bool)

section \<open>Spans\<close>

text \<open>A span is packed with one copy, a vector element by element: the bytes are the same, since behind an
  element of an aligned type the next one is aligned, too.\<close>

lemma pack_all_aligned:
  assumes "LENGTH('a :: len) \<in> {8, 16, 32, 64}" "LENGTH('a) div 8 dvd bb_pos b"
  shows "pack_all pack_word ws b =
    Inr (bb_append b (concat (map (\<lambda>w :: 'a word. le_bytes (LENGTH('a) div 8) (unat w)) ws)))"
  using assms(2)
proof (induction ws arbitrary: b)
  case (Cons w ws)
  let ?k = "LENGTH('a) div 8"
  have "le_bytes ?k (unat w) \<noteq> []" using word_alignment(3) [OF assms(1)]
    by (metis length_le_bytes less_numeral_extra(3) list.size(3))
  from pack_buffer_eq [OF this word_alignment(1) [OF assms(1)], of b]
  have "pack_word w b = Inr (bb_append b (le_bytes ?k (unat w)))"
    unfolding pack_word_def padding_zero [OF Cons.prems] by simp
  moreover have "?k dvd bb_pos (bb_append b (le_bytes ?k (unat w)))" using Cons.prems by simp
  ultimately show ?case using Cons.IH by (simp add: pseq_def)
qed simp

lemma pack_span_eq_vector:
  assumes "LENGTH('a :: len) \<in> {8, 16, 32, 64}"
  shows "pack_span (ws :: 'a word list) = pack_vector pack_word ws"
proof -
  let ?k = "LENGTH('a) div 8" and ?bs = "\<lambda>w :: 'a word. le_bytes (LENGTH('a) div 8) (unat w)"
  note al = word_alignment [OF assms]
  have "pack_buffer (concat (map ?bs ws)) ?k = pack_all pack_word ws"
  proof (rule ext, cases ws)
    fix b :: builder and w ws' assume Cons: "ws = w # ws'"
    let ?p = "replicate (padding ?k (bb_pos b)) (0 :: byte)"
    have ne: "?bs w \<noteq> []" using al(3) by (metis length_le_bytes less_numeral_extra(3) list.size(3))
    have first: "pack_word w b = Inr (bb_append b (?p @ ?bs w))"
      unfolding pack_word_def by (rule pack_buffer_eq [OF ne al(1)])
    have "?k dvd bb_pos (bb_append b (?p @ ?bs w))" using padding_dvd [OF al(3), of "bb_pos b"] by (simp add: add.assoc [symmetric])
    from pack_all_aligned [OF assms this, of ws'] show "pack_buffer (concat (map ?bs ws)) ?k b = pack_all pack_word ws b"
      using ne by (simp add: Cons pseq_def first pack_buffer_eq [OF _ al(1)])
  qed (simp add: pack_buffer_def)
  then show ?thesis by (simp add: pack_span_def pack_vector_def)
qed

lemma packs_span:
  "length ws < 2 ^ 32 \<Longrightarrow> packs 4 (pack_span ws) (unpack_vector unpack_word) (ws :: 32 word list)"
  "length vs < 2 ^ 32 \<Longrightarrow> packs 4 (pack_span vs) (unpack_vector unpack_word) (vs :: 64 word list)"
  using packs_weaken [OF u32_codec.packs_vector, of ws 4] packs_weaken [OF u64_codec.packs_vector, of vs 4]
  by (simp_all add: pack_span_eq_vector list_all_iff)

end
