(* ===== verification/Serialization.thy ===== *)
theory Serialization
  imports Buffers Types TransformStack Machine
begin

text \<open>
  The values a launcher serializes for tasks and mappers: transform stacks (the \<open>pack\<close> of each class in
  data/detail/transform and \<open>unpack_transform_\<close>), types (\<open>Type::pack\<close>, \<open>unpack_type_\<close>), machines
  (\<open>Machine::pack\<close> and \<open>unpack_impl\<close>), extents (read back as a domain) and scalars.

  The recursive unpacking functions take a fuel, and the functions the program calls start with one
  unit for each byte left and one more; \<open>unpack_total\<close> shows that it never runs out. Dimensions are
  \<open>nat\<close> in the model of transforms; no transform packs a negative one, so unpacking treats it as an
  unspecified state. The same goes for a byte that is not the value of a task target.
\<close>

section \<open>Transforms\<close>

definition shift_pack :: "nat \<Rightarrow> int \<Rightarrow> packer" where
  "shift_pack dim offset =
     pseq (pack_word (100 :: 8 word)) (pseq (pack_word (of_nat dim :: u32)) (pack_word (word_of_int offset :: u64)))"

definition promote_pack :: "nat \<Rightarrow> u64 \<Rightarrow> packer" where
  "promote_pack extra_dim dim_size =
     pseq (pack_word (101 :: 8 word)) (pseq (pack_word (of_nat extra_dim :: u32)) (pack_word dim_size))"

definition project_pack :: "nat \<Rightarrow> int \<Rightarrow> packer" where
  "project_pack dim coord =
     pseq (pack_word (102 :: 8 word)) (pseq (pack_word (of_nat dim :: u32)) (pack_word (word_of_int coord :: u64)))"

definition broadcast_pack :: "nat \<Rightarrow> u64 \<Rightarrow> packer" where
  "broadcast_pack dim dim_size =
     pseq (pack_word (103 :: 8 word)) (pseq (pack_word (of_nat dim :: u32)) (pack_word dim_size))"

definition pack_dim :: "nat \<Rightarrow> packer" where
  "pack_dim d = pack_word (of_nat d :: u32)"

definition transpose_pack :: "nat list \<Rightarrow> packer" where
  "transpose_pack axes =
     pseq (pack_word (104 :: 8 word)) (pseq (pack_word (of_nat (length axes) :: u32)) (pack_all pack_dim axes))"

definition delinearize_pack :: "nat \<Rightarrow> u64 list \<Rightarrow> packer" where
  "delinearize_pack dim sizes =
     pseq (pack_word (105 :: 8 word)) (pseq (pack_word (of_nat dim :: u32))
       (pseq (pack_word (of_nat (length sizes) :: u32)) (pack_all pack_word sizes)))"

fun t_pack :: "transform \<Rightarrow> packer" where
  "t_pack (Shift d off) = shift_pack d off"
| "t_pack (Promote d sz) = promote_pack d sz"
| "t_pack (Project d c) = project_pack d c"
| "t_pack (DimBroadcast d sz) = broadcast_pack d sz"
| "t_pack (Transpose axes) = transpose_pack axes"
| "t_pack (Delinearize d sizes) = delinearize_pack d sizes"

fun stack_pack :: "transform_stack \<Rightarrow> packer" where
  "stack_pack [] = pack_word (- 1 :: 8 word)"
| "stack_pack (t # parent) = pseq (t_pack t) (stack_pack parent)"

definition unpack_dim :: "nat unpacker" where
  "unpack_dim = ubind unpack_word (\<lambda>w :: u32. ulift (rguard (0 \<le> sint w) OutOfBounds (Inr (nat (sint w)))))"

definition unpack_coord :: "int unpacker" where
  "unpack_coord = ubind unpack_word (\<lambda>w :: u64. ureturn (sint w))"

fun unpack_transform_fuel :: "nat \<Rightarrow> transform_stack unpacker" where
  "unpack_transform_fuel 0 = ulift (Inl Diverges)"
| "unpack_transform_fuel (Suc k) =
     ubind unpack_word (\<lambda>code :: 8 word.
       if code = - 1 then ureturn []
       else if code = 100 then
         ubind unpack_dim (\<lambda>dim. ubind unpack_coord (\<lambda>offset.
           ubind (unpack_transform_fuel k) (\<lambda>parent. ureturn (Shift dim offset # parent))))
       else if code = 101 then
         ubind unpack_dim (\<lambda>extra_dim. ubind unpack_word (\<lambda>dim_size.
           ubind (unpack_transform_fuel k) (\<lambda>parent. ureturn (Promote extra_dim dim_size # parent))))
       else if code = 102 then
         ubind unpack_dim (\<lambda>dim. ubind unpack_coord (\<lambda>coord.
           ubind (unpack_transform_fuel k) (\<lambda>parent. ureturn (Project dim coord # parent))))
       else if code = 103 then
         ubind unpack_dim (\<lambda>dim. ubind unpack_word (\<lambda>dim_size.
           ubind (unpack_transform_fuel k) (\<lambda>parent. ureturn (DimBroadcast dim dim_size # parent))))
       else if code = 104 then
         ubind (unpack_vector unpack_dim) (\<lambda>axes.
           ubind (unpack_transform_fuel k) (\<lambda>parent. ureturn (Transpose axes # parent)))
       else if code = 105 then
         ubind unpack_dim (\<lambda>dim. ubind (unpack_vector unpack_word) (\<lambda>sizes.
           ubind (unpack_transform_fuel k) (\<lambda>parent. ureturn (Delinearize dim sizes # parent))))
       else ulift (Inl CheckFailed))"

definition unpack_transform :: "transform_stack unpacker" where
  "unpack_transform r = unpack_transform_fuel (Suc (length (rd_bytes r))) r"

section \<open>Types\<close>

fun pack_type :: "ltype \<Rightarrow> packer" where
  "pack_type (PrimitiveType c) = pack_word (code_value c)"
| "pack_type StringType = pack_word (code_value STRING)"
| "pack_type (BinaryType uid sz) = pseq (pack_word (code_value BINARY)) (pack_word sz)"
| "pack_type (FixedArrayType uid elt n) =
     pseq (pack_word (code_value FIXED_ARRAY)) (pseq (pack_word uid) (pseq (pack_word n) (pack_type elt)))"
| "pack_type (StructType uid elts al) =
     pseq (pack_word (code_value STRUCT)) (pseq (pack_word uid)
       (pseq (pack_word (of_nat (length elts) :: u32)) (pseq (pack_all pack_type elts) (pack_bool al))))"
| "pack_type (ListType uid elt) = pseq (pack_word (code_value LIST)) (pseq (pack_word uid) (pack_type elt))"

fun unpack_type_fuel :: "nat \<Rightarrow> ltype unpacker" where
  "unpack_type_fuel 0 = ulift (Inl Diverges)"
| "unpack_type_fuel (Suc k) =
     ubind unpack_word (\<lambda>code.
       case find (\<lambda>c. code_value c = code) all_codes of
         None \<Rightarrow> ulift (Inl CheckFailed)
       | Some FIXED_ARRAY \<Rightarrow>
           ubind unpack_word (\<lambda>uid. ubind unpack_word (\<lambda>n. ubind (unpack_type_fuel k) (\<lambda>type.
             ulift (mk_fixed_array_type uid type n))))
       | Some STRUCT \<Rightarrow>
           ubind unpack_word (\<lambda>uid. ubind unpack_word (\<lambda>num_fields :: u32.
             ubind (unpack_n (unpack_type_fuel k) (unat num_fields)) (\<lambda>field_types.
               ubind unpack_bool (\<lambda>al. ulift (mk_struct_type uid field_types al)))))
       | Some LIST \<Rightarrow>
           ubind unpack_word (\<lambda>uid. ubind (unpack_type_fuel k) (\<lambda>type. ulift (mk_list_type uid type)))
       | Some BINARY \<Rightarrow> ubind unpack_word (\<lambda>size. ulift (binary_type size))
       | Some STRING \<Rightarrow> ureturn string_type
       | Some c \<Rightarrow> ulift (primitive_type c))"

definition unpack_type :: "ltype unpacker" where
  "unpack_type r = unpack_type_fuel (Suc (length (rd_bytes r))) r"

section \<open>Machines and extents\<close>

fun target_value :: "task_target \<Rightarrow> 8 word" where
  "target_value GPU = 0"
| "target_value OMP = 1"
| "target_value CPU = 2"

definition unpack_target :: "task_target unpacker" where
  "unpack_target = ubind unpack_word (\<lambda>w.
     case find (\<lambda>t. target_value t = w) task_targets of None \<Rightarrow> ulift (Inl OutOfBounds) | Some t \<Rightarrow> ureturn t)"

definition pack_range :: "task_target \<times> processor_range \<Rightarrow> packer" where
  "pack_range e = (case e of (t, r) \<Rightarrow>
     pseq (pack_word (target_value t))
       (pseq (pack_word (pr_low r)) (pseq (pack_word (pr_high r)) (pack_word (pr_per_node r)))))"

definition pack_machine :: "machine \<Rightarrow> packer" where
  "pack_machine m =
     pseq (pack_word (target_value (m_preferred m))) (pack_vector pack_range (map_entries (m_ranges m)))"

definition unpack_processor_range :: "processor_range unpacker" where
  "unpack_processor_range =
     ubind unpack_word (\<lambda>low. ubind unpack_word (\<lambda>high. ubind unpack_word (\<lambda>per_node_count.
       ureturn \<lparr>pr_low = low, pr_high = high, pr_per_node = per_node_count\<rparr>)))"

fun unpack_ranges :: "nat \<Rightarrow> (task_target \<rightharpoonup> processor_range) \<Rightarrow> (task_target \<rightharpoonup> processor_range) unpacker" where
  "unpack_ranges 0 proc_ranges = ureturn proc_ranges"
| "unpack_ranges (Suc n) proc_ranges =
     ubind unpack_target (\<lambda>kind. ubind unpack_processor_range (\<lambda>range.
       unpack_ranges n
         (if \<not> pr_empty range \<and> proc_ranges kind = None then proc_ranges(kind \<mapsto> range) else proc_ranges)))"

definition unpack_machine :: "machine unpacker" where
  "unpack_machine =
     ubind unpack_target (\<lambda>preferred_target. ubind unpack_word (\<lambda>num_ranges :: u32.
       ubind (unpack_ranges (unat num_ranges) Map.empty) (\<lambda>proc_ranges.
         ureturn \<lparr>m_preferred = preferred_target, m_ranges = proc_ranges\<rparr>)))"

definition unpack_domain :: "domain unpacker" where
  "unpack_domain =
     ubind unpack_word (\<lambda>dim :: u32. ubind (unpack_n unpack_coord (unat dim)) (\<lambda>coords.
       ureturn \<lparr>dom_lo = map (\<lambda>_. 0) coords, dom_hi = map (\<lambda>c. c - 1) coords\<rparr>))"

section \<open>Scalars\<close>

record scalar =
  sc_type :: ltype
  sc_data :: "byte list"

definition scalar_size :: "ltype \<Rightarrow> byte list \<Rightarrow> nat result" where
  "scalar_size t data =
     (if type_code_of t = STRING
      then rguard (4 \<le> length data) OutOfBounds (Inr (le_value (take 4 data) + 4))
      else rbind (type_size t) (\<lambda>s. Inr (unat s)))"

definition scalar_pack :: "scalar \<Rightarrow> packer" where
  "scalar_pack s =
     pseq (pack_type (sc_type s)) (\<lambda>b. rbind (scalar_size (sc_type s) (sc_data s)) (\<lambda>n.
       rguard (n \<le> length (sc_data s)) OutOfBounds
         (pack_buffer (take n (sc_data s))
           (if type_code_of (sc_type s) = STRING then 4 else unat (type_alignment (sc_type s))) b)))"

definition unpack_scalar_value :: "ltype \<Rightarrow> nat \<Rightarrow> nat \<Rightarrow> (nat \<times> nat) result" where
  "unpack_scalar_value ty ptr capacity =
     (case type_code_of ty of
        NIL \<Rightarrow> Inr (ptr, 0)
      | STRING \<Rightarrow> align_for_unpack_impl ptr capacity 4 4
      | LIST \<Rightarrow> Inl CheckFailed
      | _ \<Rightarrow> rbind (type_size ty) (\<lambda>s. align_for_unpack_impl ptr capacity (unat s) (unat (type_alignment ty))))"

definition unpack_scalar :: "scalar unpacker" where
  "unpack_scalar =
     ubind unpack_type (\<lambda>type r.
       rbind (unpack_scalar_value type (rd_pos r) (length (rd_bytes r))) (\<lambda>(ptr, align_offset).
         rbind (scalar_size type (drop align_offset (rd_bytes r))) (\<lambda>n.
           rguard (align_offset + n \<le> length (rd_bytes r)) OutOfBounds
             (Inr (\<lparr>sc_type = type, sc_data = take n (drop align_offset (rd_bytes r))\<rparr>,
               \<lparr>rd_pos = rd_pos r + align_offset + n, rd_bytes = drop (align_offset + n) (rd_bytes r)\<rparr>)))))"

end
