(* ===== verification/SerializationCorrect.thy ===== *)
theory SerializationCorrect
  imports Serialization
begin

text \<open>
  What is packed is read back: the round trips of the formats of Serialization, as interpretations of
  the contract \<open>codec\<close>, and the totality of the recursive unpacking functions.
\<close>

section \<open>Stepping through a format\<close>

lemma pseq_assoc [simp]: "pseq (pseq m1 m2) m3 = pseq m1 (pseq m2 m3)"
  by (simp add: pseq_def fun_eq_iff rbind_assoc)

lemma packs_step: "packs j m u x \<Longrightarrow> packs (n - j) m' (f x) y \<Longrightarrow> packs n (pseq m m') (ubind u f) y"
  by (rule packs_weaken, rule packs_bind) auto

lemma packs_step8: "packs (n - 1) m (f w) y \<Longrightarrow> packs n (pseq (pack_word (w :: 8 word)) m) (ubind unpack_word f) y"
  by (rule packs_step [OF u8_codec.packs_value]) auto

lemma packs_step32: "packs (n - 4) m (f w) y \<Longrightarrow> packs n (pseq (pack_word (w :: 32 word)) m) (ubind unpack_word f) y"
  by (rule packs_step [OF u32_codec.packs_value]) auto

lemma packs_step64: "packs (n - 8) m (f w) y \<Longrightarrow> packs n (pseq (pack_word (w :: 64 word)) m) (ubind unpack_word f) y"
  by (rule packs_step [OF u64_codec.packs_value]) auto

lemma packs_last: "packs j m u x \<Longrightarrow> n \<le> j \<Longrightarrow> f x = ureturn y \<Longrightarrow> packs n m (ubind u f) y"
  using packs_bind [where f = f and k = 0 and m' = Inr, of j m u x y] packs_return [of y] packs_weaken [of j]
  by fastforce

lemma packs_last_lift: "packs j m u x \<Longrightarrow> n \<le> j \<Longrightarrow> f x = ulift (Inr y) \<Longrightarrow> packs n m (ubind u f) y"
  by (rule packs_last) (auto simp: ulift_def ureturn_def fun_eq_iff)

text \<open>The fuel of an unpacking function that starts with one unit for each byte left.\<close>

lemma packs_fuel:
  assumes "\<And>k. n < k \<Longrightarrow> packs n m (u k) x"
  shows "packs n m (\<lambda>r. u (Suc (length (rd_bytes r))) r) x"
  unfolding packs_def
proof
  fix b
  obtain ext where e: "m b = Inr (bb_append b ext)" "n \<le> length ext"
    using assms [of "Suc n"] by (auto elim: packsD)
  have "encodes (u k) x (bb_pos b) ext" if lt: "n < k" for k
  proof -
    obtain ext' where "m b = Inr (bb_append b ext')" "encodes (u k) x (bb_pos b) ext'"
      by (rule packsD [OF assms [OF lt], of b])
    then show ?thesis using e(1) by (simp add: bb_append_def) (metis builder.select_convs(2) builder.surjective builder.update_convs(2) same_append_eq)
  qed
  then show "\<exists>ext. m b = Inr (bb_append b ext) \<and> n \<le> length ext \<and>
      encodes (\<lambda>r. u (Suc (length (rd_bytes r))) r) x (bb_pos b) ext"
    using e by (intro exI [of _ ext]) (simp add: encodes_def)
qed

section \<open>Transforms\<close>

abbreviation dim_ok :: "nat \<Rightarrow> bool" where
  "dim_ok d \<equiv> d < 2 ^ 31"

abbreviation coord_ok :: "int \<Rightarrow> bool" where
  "coord_ok c \<equiv> - (2 ^ 63) \<le> c \<and> c < 2 ^ 63"

fun t_packable :: "transform \<Rightarrow> bool" where
  "t_packable (Shift d off) = (dim_ok d \<and> coord_ok off)"
| "t_packable (Promote d sz) = dim_ok d"
| "t_packable (Project d c) = (dim_ok d \<and> coord_ok c)"
| "t_packable (DimBroadcast d sz) = dim_ok d"
| "t_packable (Transpose axes) = (list_all dim_ok axes \<and> length axes < 2 ^ 32)"
| "t_packable (Delinearize d sizes) = (dim_ok d \<and> length sizes < 2 ^ 32)"

lemma sint_of_nat_u32: "d < 2 ^ 31 \<Longrightarrow> sint (of_nat d :: u32) = int d"
  by (simp add: signed_of_nat signed_take_bit_int_eq_self)

lemma packs_dim: "dim_ok d \<Longrightarrow> packs 4 (pack_word (of_nat d :: u32)) unpack_dim d"
  unfolding unpack_dim_def
  by (rule packs_last_lift [OF u32_codec.packs_value]) (simp_all add: sint_of_nat_u32 del: of_nat_numeral)

lemma packs_coord: "coord_ok c \<Longrightarrow> packs 8 (pack_word (word_of_int c :: u64)) unpack_coord c"
  unfolding unpack_coord_def
  by (rule packs_last [OF u64_codec.packs_value]) (simp_all add: sint_word_of_int_u64)

interpretation dim_codec: codec pack_dim unpack_dim dim_ok "\<lambda>_. 4"
  by unfold_locales (simp add: pack_dim_def packs_dim)

lemma packs_transform_fuel:
  "list_all t_packable ts \<Longrightarrow> length ts < k \<Longrightarrow>
   packs (Suc (length ts)) (stack_pack ts) (unpack_transform_fuel k) ts"
proof (induction ts arbitrary: k)
  case Nil
  then obtain k' where "k = Suc k'" by (cases k) auto
  then show ?case by (auto intro: packs_last [OF u8_codec.packs_value])
next
  case (Cons t ts)
  then obtain k' where k: "k = Suc k'" "length ts < k'" by (cases k) auto
  have p: "packs (Suc (length ts)) (stack_pack ts) (unpack_transform_fuel k') ts"
    using Cons k by simp
  show ?case
  proof (cases t)
    case (Shift d off)
    then show ?thesis using Cons.prems(1)
      by (auto simp: k(1) shift_pack_def intro!: packs_step8 packs_step [OF packs_dim] packs_step [OF packs_coord] packs_last [OF p])
  next
    case (Promote d sz)
    then show ?thesis using Cons.prems(1)
      by (auto simp: k(1) promote_pack_def intro!: packs_step8 packs_step [OF packs_dim] packs_step64 packs_last [OF p])
  next
    case (Project d c)
    then show ?thesis using Cons.prems(1)
      by (auto simp: k(1) project_pack_def intro!: packs_step8 packs_step [OF packs_dim] packs_step [OF packs_coord] packs_last [OF p])
  next
    case (DimBroadcast d sz)
    then show ?thesis using Cons.prems(1)
      by (auto simp: k(1) broadcast_pack_def intro!: packs_step8 packs_step [OF packs_dim] packs_step64 packs_last [OF p])
  next
    case (Transpose axes)
    have "packs (4 + sum_list (map (\<lambda>_. 4) axes)) (pack_vector pack_dim axes) (unpack_vector unpack_dim) axes"
      using Cons.prems(1) Transpose by (intro dim_codec.packs_vector) auto
    note axes = packs_step [OF this, unfolded pack_vector_def pseq_assoc]
    show ?thesis
      by (auto simp: Transpose k(1) transpose_pack_def intro!: packs_step8 axes packs_last [OF p])
  next
    case (Delinearize d sizes)
    have "packs (4 + sum_list (map (\<lambda>_. 8) sizes)) (pack_vector pack_word sizes) (unpack_vector unpack_word) sizes"
      using Cons.prems(1) Delinearize by (intro u64_codec.packs_vector) (auto simp: list_all_iff)
    note sizes = packs_step [OF this, unfolded pack_vector_def pseq_assoc]
    show ?thesis using Cons.prems(1)
      by (auto simp: Delinearize k(1) delinearize_pack_def
          intro!: packs_step8 packs_step [OF packs_dim] sizes packs_last [OF p])
  qed
qed

lemma packs_transform:
  "list_all t_packable ts \<Longrightarrow> packs (Suc (length ts)) (stack_pack ts) unpack_transform ts"
  unfolding unpack_transform_def [abs_def] by (rule packs_fuel) (simp add: packs_transform_fuel)

interpretation transform_codec: codec stack_pack unpack_transform "list_all t_packable" "\<lambda>ts. Suc (length ts)"
  by unfold_locales (rule packs_transform)

section \<open>Types\<close>

text \<open>\<open>wf_type\<close>: the invariant of the constructors, without the uniqueness of identifiers. A binary
  type is sent without its identifier, which the reader computes again from the size.\<close>

fun wf_type :: "ltype \<Rightarrow> bool" where
  "wf_type (PrimitiveType c) = (primitive_type c = Inr (PrimitiveType c))"
| "wf_type StringType = True"
| "wf_type (BinaryType uid sz) = (binary_type sz = Inr (BinaryType uid sz))"
| "wf_type (FixedArrayType uid elt n) = (wf_type elt \<and> \<not> variable_size elt)"
| "wf_type (StructType uid elts al) =
     (elts \<noteq> [] \<and> length elts < 2 ^ 32 \<and> list_all (\<lambda>t. wf_type t \<and> \<not> variable_size t) elts)"
| "wf_type (ListType uid elt) = (wf_type elt \<and> \<not> variable_size elt)"

fun type_nodes :: "ltype \<Rightarrow> nat" where
  "type_nodes (FixedArrayType uid elt n) = Suc (type_nodes elt)"
| "type_nodes (StructType uid elts al) = Suc (sum_list (map type_nodes elts))"
| "type_nodes (ListType uid elt) = Suc (type_nodes elt)"
| "type_nodes t = 1"

lemma find_code [simp]: "find (\<lambda>c'. code_value c' = code_value c) all_codes = Some c"
  by (cases c) (simp_all add: all_codes_def)

lemma ulift_Inr [simp]: "ulift (Inr x) = ureturn x"
  by (simp add: ulift_def ureturn_def fun_eq_iff)

lemma packs_primitive:
  assumes "primitive_type c = Inr t"
  shows "packs 1 (pack_word (code_value c)) (unpack_type_fuel (Suc k)) t"
proof -
  have "c \<notin> {FIXED_ARRAY, STRUCT, LIST, BINARY, STRING}"
    using assms by (auto simp: primitive_type_def)
  then show ?thesis using assms unfolding unpack_type_fuel.simps
    by (rule_tac packs_last [OF u32_codec.packs_value]) (simp, simp, simp only: find_code option.case, cases c, simp_all)
qed

lemma packs_type_fuel:
  "wf_type t \<Longrightarrow> type_nodes t < k \<Longrightarrow> packs (type_nodes t) (pack_type t) (unpack_type_fuel k) t"
proof (induction t arbitrary: k)
  case (PrimitiveType c)
  then obtain k' where "k = Suc k'" by (cases k) auto
  then show ?case using packs_primitive [of c "PrimitiveType c" k'] PrimitiveType
    by (simp del: unpack_type_fuel.simps)
next
  case StringType
  then show ?case using find_code [of STRING]
    by (cases k) (auto simp: string_type_def simp del: find_code intro!: packs_last [OF u32_codec.packs_value])
next
  case (BinaryType uid sz)
  then show ?case using find_code [of BINARY]
    by (cases k) (auto simp del: find_code intro!: packs_step32 packs_last [OF u32_codec.packs_value])
next
  case (FixedArrayType uid elt n)
  then obtain k' where k: "k = Suc k'" by (cases k) auto
  have "packs (type_nodes elt) (pack_type elt) (unpack_type_fuel k') elt" "type_size elt = Inr (fst (size_align elt))"
    using FixedArrayType k by (simp_all add: type_size_def)
  then show ?case using find_code [of FIXED_ARRAY]
    by (auto simp: k mk_fixed_array_type_def simp del: find_code intro!: packs_step32 packs_last)
next
  case (ListType uid elt)
  then obtain k' where k: "k = Suc k'" by (cases k) auto
  have "packs (type_nodes elt) (pack_type elt) (unpack_type_fuel k') elt" using ListType k by simp
  then show ?case using ListType.prems find_code [of LIST]
    by (auto simp: k mk_list_type_def simp del: find_code intro!: packs_step32 packs_last)
next
  case (StructType uid elts al)
  then obtain k' where k: "k = Suc k'" by (cases k) auto
  have "packs (type_nodes t) (pack_type t) (unpack_type_fuel k') t" if "t \<in> set elts" for t
    using StructType that member_le_sum_list [of "type_nodes t" "map type_nodes elts"]
    by (intro StructType.IH) (auto simp: k list_all_iff)
  then have "packs (sum_list (map type_nodes elts)) (pack_all pack_type elts)
      (unpack_n (unpack_type_fuel k') (length elts)) elts"
    by (rule packs_list)
  moreover have "unat (of_nat (length elts) :: u32) = length elts" using StructType.prems by (simp add: unat_of_nat_u32)
  moreover have "mk_struct_type uid elts al = Inr (StructType uid elts al)"
    using StructType.prems by (auto simp: mk_struct_type_def list_all_iff list_ex_iff)
  ultimately show ?case using find_code [of STRUCT]
    by (auto simp: k simp del: find_code intro!: packs_step32 packs_step packs_last [OF packs_bool])
qed

lemma packs_type: "wf_type t \<Longrightarrow> packs (type_nodes t) (pack_type t) unpack_type t"
  unfolding unpack_type_def [abs_def] by (rule packs_fuel) (rule packs_type_fuel)

interpretation type_codec: codec pack_type unpack_type wf_type type_nodes
  by unfold_locales (rule packs_type)

text \<open>The factories establish the invariant.\<close>

lemma wf_primitive_type: "primitive_type c = Inr t \<Longrightarrow> wf_type t"
  by (auto simp: primitive_type_def mk_primitive_type_def rbind_eq_Inr split: sum.splits)

lemma wf_binary_type: "binary_type sz = Inr t \<Longrightarrow> wf_type t"
  by (auto simp: binary_type_def split: if_splits)

lemma wf_mk_fixed_array_type: "mk_fixed_array_type uid elt n = Inr t \<Longrightarrow> wf_type elt \<Longrightarrow> wf_type t"
  by (auto simp: mk_fixed_array_type_def type_size_def split: if_splits)

lemma wf_mk_struct_type:
  "mk_struct_type uid elts al = Inr t \<Longrightarrow> list_all wf_type elts \<Longrightarrow> length elts < 2 ^ 32 \<Longrightarrow> wf_type t"
  by (auto simp: mk_struct_type_def list_all_iff list_ex_iff split: if_splits)

lemma wf_mk_list_type: "mk_list_type uid elt = Inr t \<Longrightarrow> wf_type elt \<Longrightarrow> wf_type t"
  by (auto simp: mk_list_type_def split: if_splits)

lemma wf_point_type: "point_type max_dim n = Inr t \<Longrightarrow> wf_type t"
  by (auto simp: point_type_def primitive_type_def mk_primitive_type_def split: if_splits intro: wf_mk_fixed_array_type)

lemma wf_rect_type:
  assumes "rect_type max_dim n = Inr t"
  shows "wf_type t"
proof -
  obtain pt where "point_type max_dim n = Inr pt" "mk_struct_type (BASE_RECT_TYPE_UID max_dim + n) [pt, pt] True = Inr t"
    using assms by (auto simp: rect_type_def rbind_eq_Inr split: if_splits)
  then show ?thesis using wf_mk_struct_type [of _ "[pt, pt]"] wf_point_type by simp
qed

section \<open>Machines and extents\<close>

lemma find_target [simp]: "find (\<lambda>t'. target_value t' = target_value t) task_targets = Some t"
  by (cases t) (simp_all add: task_targets_def)

lemma packs_target: "packs 1 (pack_word (target_value t)) unpack_target t"
  unfolding unpack_target_def by (rule packs_last [OF u8_codec.packs_value]) simp_all

lemma packs_processor_range:
  "packs 12 (pseq (pack_word (pr_low r)) (pseq (pack_word (pr_high r)) (pack_word (pr_per_node r)))) unpack_processor_range r"
  unfolding unpack_processor_range_def by (cases r) (auto intro!: packs_step32 packs_last [OF u32_codec.packs_value])

lemma packs_range_step:
  "packs (n - 12) m (f r) y \<Longrightarrow>
   packs n (pseq (pack_word (pr_low r)) (pseq (pack_word (pr_high r)) (pseq (pack_word (pr_per_node r)) m)))
     (ubind unpack_processor_range f) y"
  using packs_step [OF packs_processor_range, of n m f r y] by simp

text \<open>What arrives of a machine: the entries of targets without processors are dropped.\<close>

definition drop_empty :: "(task_target \<rightharpoonup> processor_range) \<Rightarrow> task_target \<rightharpoonup> processor_range" where
  "drop_empty ranges t = (case ranges t of None \<Rightarrow> None | Some r \<Rightarrow> if pr_empty r then None else Some r)"

lemma packs_ranges:
  "distinct (map fst es) \<Longrightarrow> \<forall>t \<in> set (map fst es). acc t = None \<Longrightarrow>
   packs 0 (pack_all pack_range es) (unpack_ranges (length es) acc)
     (\<lambda>t. case map_of es t of Some r \<Rightarrow> if pr_empty r then acc t else Some r | None \<Rightarrow> acc t)"
proof (induction es arbitrary: acc)
  case (Cons e es)
  obtain t r where e: "e = (t, r)" by (cases e)
  let ?acc = "if \<not> pr_empty r \<and> acc t = None then acc(t \<mapsto> r) else acc"
  have "map_of es t = None" using Cons.prems(1) by (simp add: e map_of_eq_None_iff)
  then have eq: "(\<lambda>t'. case map_of (e # es) t' of Some r \<Rightarrow> if pr_empty r then acc t' else Some r | None \<Rightarrow> acc t') =
      (\<lambda>t'. case map_of es t' of Some r \<Rightarrow> if pr_empty r then ?acc t' else Some r | None \<Rightarrow> ?acc t')"
    using Cons.prems(2) by (auto simp: e fun_eq_iff split: option.split)
  have "packs 0 (pack_all pack_range es) (unpack_ranges (length es) ?acc)
      (\<lambda>t'. case map_of es t' of Some r \<Rightarrow> if pr_empty r then ?acc t' else Some r | None \<Rightarrow> ?acc t')"
    using Cons.prems by (intro Cons.IH) (auto simp: e)
  then have "packs (0 - 1 - 12) (pack_all pack_range es) (unpack_ranges (length es) ?acc)
      (\<lambda>t'. case map_of es t' of Some r \<Rightarrow> if pr_empty r then ?acc t' else Some r | None \<Rightarrow> ?acc t')"
    by simp
  then show ?case
    unfolding eq unfolding e pack_all.simps pack_range_def prod.case length_Cons unpack_ranges.simps pseq_assoc
    by (rule packs_step [OF packs_target packs_range_step])
qed (simp add: packs_return)

lemma map_of_entries: "map_of (map_entries m) = m"
  by (rule ext, rename_tac t, case_tac t) (auto simp: map_entries_def task_targets_def split: option.splits)

lemma distinct_entries: "distinct (map fst (map_entries m))"
  by (auto simp: map_entries_def task_targets_def split: option.splits)

lemma length_entries: "length (map_entries m) \<le> 3"
  by (auto simp: map_entries_def task_targets_def split: option.splits)

lemma packs_machine:
  "packs 5 (pack_machine m) unpack_machine \<lparr>m_preferred = m_preferred m, m_ranges = drop_empty (m_ranges m)\<rparr>"
proof -
  let ?es = "map_entries (m_ranges m)"
  have "unat (of_nat (length ?es) :: u32) = length ?es"
    using length_entries [of "m_ranges m"] by (intro unat_of_nat_u32) simp
  moreover have "(\<lambda>t. case map_of ?es t of Some r \<Rightarrow> if pr_empty r then None else Some r | None \<Rightarrow> None) = drop_empty (m_ranges m)"
    by (auto simp: drop_empty_def map_of_entries fun_eq_iff split: option.split)
  ultimately have "packs 0 (pack_all pack_range ?es) (unpack_ranges (unat (of_nat (length ?es) :: u32)) Map.empty)
      (drop_empty (m_ranges m))"
    using packs_ranges [OF distinct_entries [of "m_ranges m"], of Map.empty] by simp
  then show ?thesis unfolding pack_machine_def unpack_machine_def pack_vector_def
    by (auto intro!: packs_step [OF packs_target] packs_step32 packs_last)
qed

lemma drop_empty_id: "\<forall>t r. ranges t = Some r \<longrightarrow> \<not> pr_empty r \<Longrightarrow> drop_empty ranges = ranges"
  by (auto simp: drop_empty_def fun_eq_iff split: option.split)

interpretation machine_codec: codec pack_machine unpack_machine "\<lambda>m. \<forall>t r. m_ranges m t = Some r \<longrightarrow> \<not> pr_empty r" "\<lambda>_. 5"
proof unfold_locales
  show "packs 5 (pack_machine m) unpack_machine m" if "\<forall>t r. m_ranges m t = Some r \<longrightarrow> \<not> pr_empty r" for m
    using packs_machine [of m] drop_empty_id [OF that] by (cases m) simp
qed

lemma packs_extents:
  assumes "length extents < 2 ^ 32"
  shows "packs 4 (pack_span extents) unpack_domain (to_maybe_empty_domain extents)"
proof -
  have w: "packs 8 (pack_word w) unpack_coord (sint w)" for w :: u64
    unfolding unpack_coord_def by (rule packs_last [OF u64_codec.packs_value]) simp_all
  have "unat (of_nat (length extents) :: u32) = length extents" using assms by (simp add: unat_of_nat_u32)
  then have "packs (sum_list (map (\<lambda>_. 8) extents)) (pack_all pack_word extents)
      (unpack_n unpack_coord (unat (of_nat (length extents) :: u32))) (map sint extents)"
    using packs_list_map [where n = "\<lambda>_. 8", OF w] by simp
  moreover have "to_maybe_empty_domain extents = \<lparr>dom_lo = map (\<lambda>_. 0) (map sint extents), dom_hi = map (\<lambda>c. c - 1) (map sint extents)\<rparr>"
    by (auto simp: to_maybe_empty_domain_def to_domain_def)
  ultimately show ?thesis unfolding unpack_domain_def
    by (auto simp: pack_span_eq_vector pack_vector_def intro!: packs_step32 packs_last)
qed

section \<open>Scalars\<close>

lemma struct_loop_alignment:
  "struct_aligned_loop fts sz al = (offs, sz', al') \<Longrightarrow> P al \<Longrightarrow> (\<And>f. f \<in> set fts \<Longrightarrow> P (snd f)) \<Longrightarrow> P al' \<and> al \<le> al'"
proof (induction fts arbitrary: sz al offs)
  case (Cons f fts)
  obtain fsz a where f: "f = (fsz, a)" by (cases f)
  obtain offs1 where l: "struct_aligned_loop fts (align_offset sz a + fsz) (max a al) = (offs1, sz', al')"
    using Cons.prems(1) by (auto simp: f Let_def split: prod.splits)
  have "P (max a al)" using Cons.prems(2) Cons.prems(3) [of f] by (auto simp: f max_def)
  from Cons.IH [OF l this] Cons.prems(3) show ?case by auto
qed simp

abbreviation alignments :: "u32 set" where
  "alignments \<equiv> {0, 1, 2, 4, 8, 16}"

text \<open>The types without an alignment: the null type, lists, and arrays of the null type.\<close>

fun unaligned :: "ltype \<Rightarrow> bool" where
  "unaligned (PrimitiveType c) = (c = NIL)"
| "unaligned (ListType uid elt) = True"
| "unaligned (FixedArrayType uid elt n) = unaligned elt"
| "unaligned _ = False"

lemma wf_type_aligned:
  "wf_type t \<Longrightarrow> if unaligned t then size_align t = (0, 0) else snd (size_align t) \<in> {1, 2, 4, 8, 16}"
proof (induction t)
  case (PrimitiveType c)
  then show ?case by (cases c) (simp_all add: primitive_type_def)
next
  case (StructType uid elts al)
  obtain offs sz a where l: "struct_layout (map size_align elts) al = (offs, sz, a)" by (cases "struct_layout (map size_align elts) al")
  have "a \<in> alignments \<and> 1 \<le> a"
  proof (cases al)
    case True
    then obtain offs' sz' where "struct_aligned_loop (map size_align elts) 0 1 = (offs', sz', a)"
      using l by (auto simp: struct_layout_def split: prod.splits)
    moreover have "snd f \<in> alignments" if f: "f \<in> set (map size_align elts)" for f
    proof -
      obtain elt where elt: "elt \<in> set elts" "f = size_align elt" using f by auto
      then have "if unaligned elt then size_align elt = (0, 0) else snd (size_align elt) \<in> {1, 2, 4, 8, 16}"
        using StructType.IH [OF elt(1)] StructType.prems elt(1) by (simp add: list_all_iff)
      then show ?thesis using elt(2) by (auto split: if_splits)
    qed
    moreover have "(1 :: u32) \<in> alignments" by simp
    ultimately show ?thesis by (intro struct_loop_alignment [where P = "\<lambda>a. a \<in> alignments"])
  next
    case False
    then have "a = 1" using l by (auto simp: struct_layout_def split: prod.splits)
    then show ?thesis by simp
  qed
  then have "a \<in> alignments" "a \<noteq> 0" by (auto simp: word_le_nat_alt)
  then show ?case using l by simp
qed (simp_all add: MAX_ALIGN_def split: if_splits)

lemma wf_type_alignment:
  "wf_type t \<Longrightarrow> \<not> variable_size t \<Longrightarrow> snd (size_align t) \<in> alignments \<and> (snd (size_align t) = 0 \<longrightarrow> fst (size_align t) = 0)"
  using wf_type_aligned [of t] by (auto split: if_splits)

text \<open>The types a program builds with the factories of type/detail/types, with any counter of identifiers.\<close>

inductive built :: "u32 \<Rightarrow> ltype \<Rightarrow> bool" for max_dim where
  built_primitive: "primitive_type c = Inr t \<Longrightarrow> built max_dim t"
| built_string: "built max_dim string_type"
| built_binary: "binary_type sz = Inr t \<Longrightarrow> built max_dim t"
| built_array: "built max_dim elt \<Longrightarrow> fixed_array_type elt n uid = Inr (t, uid') \<Longrightarrow> built max_dim t"
| built_struct: "\<forall>elt \<in> set elts. built max_dim elt \<Longrightarrow> length elts < 2 ^ 32 \<Longrightarrow> struct_type elts al uid = Inr (t, uid') \<Longrightarrow> built max_dim t"
| built_list: "built max_dim elt \<Longrightarrow> list_type elt uid = Inr (t, uid') \<Longrightarrow> built max_dim t"
| built_point: "point_type max_dim n = Inr t \<Longrightarrow> built max_dim t"
| built_rect: "rect_type max_dim n = Inr t \<Longrightarrow> built max_dim t"

lemma built_wf: "built max_dim t \<Longrightarrow> wf_type t"
proof (induction rule: built.induct)
  case (built_array elt n uid t uid')
  then show ?case
    by (auto simp: fixed_array_type_def rbind_eq_Inr Let_def split: prod.splits intro: wf_mk_fixed_array_type)
next
  case (built_struct elts al uid t uid')
  have "list_all wf_type elts" using built_struct(1) by (auto simp: list_all_iff)
  then show ?case using built_struct(2,3)
    by (auto simp: struct_type_def rbind_eq_Inr Let_def split: prod.splits intro: wf_mk_struct_type)
next
  case (built_list elt uid t uid')
  then show ?case by (auto simp: list_type_def rbind_eq_Inr Let_def split: prod.splits intro: wf_mk_list_type)
qed (auto simp: string_type_def intro: wf_primitive_type wf_binary_type wf_point_type wf_rect_type)

text \<open>C31: A type that a program builds with the factories is well-formed: its elements have a fixed size. Its
  alignment is 0 if it is the null type, a list or an array of the null type, and otherwise one of 1, 2, 4, 8 and 16.
  It survives the trip to a task: packed into any buffer, it only appends bytes, and from these bytes, at any position
  with the same alignment and before any others, the same type is read.\<close>

theorem built_types_roundtrip:
  assumes "built max_dim t"
  shows "wf_type t \<and>
    (if unaligned t then type_alignment t = 0 else type_alignment t \<in> {1, 2, 4, 8, 16}) \<and>
    (\<not> variable_size t \<longrightarrow> type_alignment t = 0 \<longrightarrow> type_size t = Inr 0) \<and>
    (\<exists>ext. pack_type t b = Inr (b\<lparr>bb_bytes := bb_bytes b @ ext\<rparr>) \<and>
       (\<forall>pos rest. pos mod 16 = (bb_base b + length (bb_bytes b)) mod 16 \<longrightarrow>
          unpack_type \<lparr>rd_pos = pos, rd_bytes = ext @ rest\<rparr> = Inr (t, \<lparr>rd_pos = pos + length ext, rd_bytes = rest\<rparr>)))"
proof -
  have wf: "wf_type t" using assms by (rule built_wf)
  obtain ext where "pack_type t b = Inr (bb_append b ext)" "encodes unpack_type t (bb_pos b) ext"
    using packs_type [OF wf] by (rule packsD)
  then have "\<exists>ext. pack_type t b = Inr (b\<lparr>bb_bytes := bb_bytes b @ ext\<rparr>) \<and>
       (\<forall>pos rest. pos mod 16 = (bb_base b + length (bb_bytes b)) mod 16 \<longrightarrow>
          unpack_type \<lparr>rd_pos = pos, rd_bytes = ext @ rest\<rparr> = Inr (t, \<lparr>rd_pos = pos + length ext, rd_bytes = rest\<rparr>))"
    by (intro exI [of _ ext]) (simp add: bb_append_def encodes_def bb_pos_def)
  moreover have "if unaligned t then type_alignment t = 0 else type_alignment t \<in> {1, 2, 4, 8, 16}"
    using wf_type_aligned [OF wf] by (simp add: type_alignment_def split: if_splits)
  moreover have "\<not> variable_size t \<longrightarrow> type_alignment t = 0 \<longrightarrow> type_size t = Inr 0"
    using wf_type_alignment [OF wf] by (simp add: type_alignment_def type_size_def)
  ultimately show ?thesis using wf by blast
qed

lemma built_types_roundtrip_witness:
  "\<exists>t ext. struct_type [PrimitiveType INT8, PrimitiveType INT64] True 300 = Inr (t, 301) \<and>
     pack_type t \<lparr>bb_base = 0, bb_bytes = []\<rparr> = Inr \<lparr>bb_base = 0, bb_bytes = ext\<rparr>"
proof -
  let ?t = "StructType 300 [PrimitiveType INT8, PrimitiveType INT64] True"
  have t: "struct_type [PrimitiveType INT8, PrimitiveType INT64] True 300 = Inr (?t, 301)"
    by (simp add: struct_type_def get_next_uid_def mk_struct_type_def)
  have "\<forall>elt \<in> set [PrimitiveType INT8, PrimitiveType INT64]. built 4 elt"
    using built_primitive [of INT8] built_primitive [of INT64] by (simp add: primitive_type_def mk_primitive_type_def)
  then have "built 4 ?t" by (rule built_struct [OF _ _ t]) simp
  from built_types_roundtrip [OF this, of "\<lparr>bb_base = 0, bb_bytes = []\<rparr>"] t show ?thesis by auto
qed

text \<open>A scalar holds as many bytes as its type says, or, for a string, as its length says.\<close>

definition good_scalar :: "scalar \<Rightarrow> bool" where
  "good_scalar s \<longleftrightarrow> wf_type (sc_type s) \<and> type_code_of (sc_type s) \<noteq> LIST \<and>
     scalar_size (sc_type s) (sc_data s) = Inr (length (sc_data s))"

definition scalar_alignment :: "ltype \<Rightarrow> nat" where
  "scalar_alignment t = (if type_code_of t = STRING then 4 else unat (type_alignment t))"

lemma type_code_list: "wf_type t \<Longrightarrow> type_code_of t = LIST \<longleftrightarrow> (\<exists>uid elt. t = ListType uid elt)"
  by (cases t) (auto simp: primitive_type_def)

lemma type_code_string: "wf_type t \<Longrightarrow> type_code_of t = STRING \<longleftrightarrow> t = StringType"
  by (cases t) (auto simp: primitive_type_def)

lemma good_scalar_alignment:
  assumes "good_scalar s" "sc_data s \<noteq> []"
  shows "is_power_of_2 (scalar_alignment (sc_type s))" "scalar_alignment (sc_type s) dvd 16"
proof -
  let ?t = "sc_type s"
  have "scalar_alignment ?t \<in> {1, 2, 4, 8, 16}"
  proof (cases "type_code_of ?t = STRING")
    case False
    then have v: "\<not> variable_size ?t"
      using assms(1) type_code_list [of ?t] type_code_string [of ?t] by (cases ?t) (auto simp: good_scalar_def)
    then have "unat (fst (size_align ?t)) = length (sc_data s)"
      using assms(1) False by (simp add: good_scalar_def scalar_size_def type_size_def)
    then have "fst (size_align ?t) \<noteq> 0" using assms(2) by auto
    then show ?thesis using wf_type_alignment [OF _ v] assms(1) False
      by (auto simp: good_scalar_def scalar_alignment_def type_alignment_def)
  qed (simp add: scalar_alignment_def)
  then show "is_power_of_2 (scalar_alignment ?t)" "scalar_alignment ?t dvd 16" by auto
qed

definition unpack_scalar_rest :: "ltype \<Rightarrow> scalar unpacker" where
  "unpack_scalar_rest type r =
     rbind (unpack_scalar_value type (rd_pos r) (length (rd_bytes r))) (\<lambda>(ptr, align_offset).
       rbind (scalar_size type (drop align_offset (rd_bytes r))) (\<lambda>n.
         rguard (align_offset + n \<le> length (rd_bytes r)) OutOfBounds
           (Inr (\<lparr>sc_type = type, sc_data = take n (drop align_offset (rd_bytes r))\<rparr>,
             \<lparr>rd_pos = rd_pos r + align_offset + n, rd_bytes = drop (align_offset + n) (rd_bytes r)\<rparr>))))"

lemma unpack_scalar_eq: "unpack_scalar = ubind unpack_type unpack_scalar_rest"
  by (simp add: unpack_scalar_def unpack_scalar_rest_def [abs_def])

lemma unpack_scalar_value_enough:
  assumes "good_scalar s" "sc_data s = [] \<or> padding (scalar_alignment (sc_type s)) ptr + length (sc_data s) \<le> capacity"
  shows "\<exists>q. unpack_scalar_value (sc_type s) ptr capacity =
    Inr (q, if sc_data s = [] then 0 else padding (scalar_alignment (sc_type s)) ptr)"
proof -
  let ?t = "sc_type s"
  show ?thesis
  proof (cases "type_code_of ?t = STRING")
    case True
    have "4 \<le> length (sc_data s)" using assms(1) True by (auto simp: good_scalar_def scalar_size_def rguard_def split: if_splits)
    then have "sc_data s \<noteq> []" "padding 4 ptr + 4 \<le> capacity" using assms(2) True by (auto simp: scalar_alignment_def)
    then show ?thesis using True by (simp add: unpack_scalar_value_def scalar_alignment_def align_for_unpack_enough)
  next
    case False
    have sz: "type_size ?t = Inr (fst (size_align ?t))" "unat (fst (size_align ?t)) = length (sc_data s)"
      using assms(1) False by (auto simp: good_scalar_def scalar_size_def type_size_def split: if_splits)
    have nil: "sc_data s = []" if "type_code_of ?t = NIL"
      using sz(2) that by (cases ?t) auto
    have "0 < scalar_alignment ?t" if "sc_data s \<noteq> []"
      using good_scalar_alignment(1) [OF assms(1) that] by (simp add: is_power_of_2_def)
    then have "\<exists>q. align_for_unpack_impl ptr capacity (length (sc_data s)) (scalar_alignment ?t) =
        Inr (q, if sc_data s = [] then 0 else padding (scalar_alignment ?t) ptr)"
      using assms(2) by (cases "sc_data s = []") (simp add: align_for_unpack_impl_def, simp add: align_for_unpack_enough)
    then show ?thesis using False nil assms(1) sz
      by (auto simp: unpack_scalar_value_def scalar_alignment_def good_scalar_def align_for_unpack_impl_def split: type_code.split)
  qed
qed

lemma scalar_size_prefix:
  assumes "scalar_size t data = Inr (length data)"
  shows "scalar_size t (data @ rest) = Inr (length data)"
proof (cases "type_code_of t = STRING")
  case True
  then have "4 \<le> length data" using assms by (simp add: scalar_size_def rguard_def split: if_splits)
  then have "take 4 (data @ rest) = take 4 data" by simp
  with True assms \<open>4 \<le> length data\<close> show ?thesis by (simp add: scalar_size_def del: take_append)
qed (use assms in \<open>simp add: scalar_size_def\<close>)

lemma encodes_scalar:
  fixes p :: nat
  assumes "good_scalar s"
  defines "pad \<equiv> if sc_data s = [] then 0 else padding (scalar_alignment (sc_type s)) p"
  shows "encodes (unpack_scalar_rest (sc_type s)) s p (replicate pad 0 @ sc_data s)"
  unfolding encodes_def
proof (intro allI impI)
  fix pos and rest :: "byte list" assume pos: "pos mod 16 = p mod 16"
  have e: "pad = (if sc_data s = [] then 0 else padding (scalar_alignment (sc_type s)) pos)"
    using padding_cong [OF pos] good_scalar_alignment(2) [OF assms(1)] by (simp add: pad_def)
  let ?n = "length ((replicate pad 0 @ sc_data s) @ rest)"
  have "sc_data s = [] \<or> padding (scalar_alignment (sc_type s)) pos + length (sc_data s) \<le> ?n" using e by auto
  from unpack_scalar_value_enough [OF assms(1) this] obtain q where "unpack_scalar_value (sc_type s) pos ?n = Inr (q, pad)"
    unfolding e [symmetric] by blast
  moreover have "scalar_size (sc_type s) (sc_data s @ rest) = Inr (length (sc_data s))"
    using assms(1) by (intro scalar_size_prefix) (simp add: good_scalar_def)
  ultimately show "unpack_scalar_rest (sc_type s) \<lparr>rd_pos = pos, rd_bytes = (replicate pad 0 @ sc_data s) @ rest\<rparr> =
      Inr (s, \<lparr>rd_pos = pos + length (replicate pad 0 @ sc_data s), rd_bytes = rest\<rparr>)"
    by (simp add: unpack_scalar_rest_def)
qed

lemma packs_scalar:
  assumes "good_scalar s"
  shows "packs (type_nodes (sc_type s)) (scalar_pack s) unpack_scalar s"
proof -
  have buffer: "packs 0 (pack_buffer (sc_data s) (scalar_alignment (sc_type s))) (unpack_scalar_rest (sc_type s)) s"
  proof (cases "sc_data s = []")
    case True
    then show ?thesis using encodes_scalar [OF assms] unfolding packs_def
      by (intro allI exI [of _ "[]"]) (simp add: pack_buffer_def)
  next
    case False
    then show ?thesis
      using encodes_scalar [OF assms] pack_buffer_eq [OF False good_scalar_alignment(1) [OF assms False]]
      unfolding packs_def by auto
  qed
  have "scalar_pack s = pseq (pack_type (sc_type s)) (pack_buffer (sc_data s) (scalar_alignment (sc_type s)))"
    using assms by (simp add: scalar_pack_def good_scalar_def scalar_alignment_def [abs_def])
  then show ?thesis
    using packs_bind [where f = unpack_scalar_rest, OF packs_type buffer] assms
    by (simp add: unpack_scalar_eq good_scalar_def)
qed

interpretation scalar_codec: codec scalar_pack unpack_scalar good_scalar "\<lambda>s. type_nodes (sc_type s)"
  by unfold_locales (rule packs_scalar)

section \<open>Totality\<close>

text \<open>\<open>consumes L n u\<close>: on a buffer of at most \<open>L\<close> bytes, \<open>u\<close> returns or raises an error of the code, and
  takes at least \<open>n\<close> bytes when it succeeds.\<close>

definition consumes :: "nat \<Rightarrow> nat \<Rightarrow> 'a unpacker \<Rightarrow> bool" where
  "consumes L n u \<longleftrightarrow>
     (\<forall>r. length (rd_bytes r) \<le> L \<longrightarrow>
        (case u r of Inl e \<Rightarrow> e \<noteq> Diverges | Inr (x, r') \<Rightarrow> length (rd_bytes r') + n \<le> length (rd_bytes r)))"

lemma consumes_bind:
  assumes "consumes L n u" "\<And>x. n \<le> L \<Longrightarrow> consumes (L - n) 0 (f x)"
  shows "consumes L n (ubind u f)"
  unfolding consumes_def
proof (intro allI impI)
  fix r :: reader assume l: "length (rd_bytes r) \<le> L"
  note u = assms(1) [unfolded consumes_def, rule_format, OF l]
  show "case ubind u f r of Inl e \<Rightarrow> e \<noteq> Diverges | Inr (x, r') \<Rightarrow> length (rd_bytes r') + n \<le> length (rd_bytes r)"
  proof (cases "u r")
    case (Inr v)
    obtain x r' where v: "v = (x, r')" by (cases v)
    then have r': "length (rd_bytes r') + n \<le> length (rd_bytes r)" using u Inr by simp
    then have "consumes (L - n) 0 (f x)" "length (rd_bytes r') \<le> L - n" using l by (auto intro: assms(2))
    then show ?thesis using Inr v r' by (fastforce simp: consumes_def ubind_def split: sum.splits)
  qed (use u in \<open>simp add: ubind_def\<close>)
qed

lemma consumes_weaken: "consumes L n u \<Longrightarrow> L' \<le> L \<Longrightarrow> k \<le> n \<Longrightarrow> consumes L' k u"
  unfolding consumes_def
proof (intro allI impI)
  fix r :: reader
  assume a: "\<forall>r. length (rd_bytes r) \<le> L \<longrightarrow>
      (case u r of Inl e \<Rightarrow> e \<noteq> Diverges | Inr (x, r') \<Rightarrow> length (rd_bytes r') + n \<le> length (rd_bytes r))"
    and "L' \<le> L" "k \<le> n" "length (rd_bytes r) \<le> L'"
  from a [rule_format, of r] this(2-) show "case u r of Inl e \<Rightarrow> e \<noteq> Diverges
      | Inr (x, r') \<Rightarrow> length (rd_bytes r') + k \<le> length (rd_bytes r)"
    by (auto split: sum.splits)
qed

lemma consumes_return [intro]: "consumes L 0 (ureturn x)"
  by (simp add: consumes_def ureturn_def)

lemma consumes_lift [intro]: "m \<noteq> Inl Diverges \<Longrightarrow> consumes L 0 (ulift m)"
  by (auto simp: consumes_def ulift_def rbind_def split: sum.splits)

lemma consumes_bytes: "consumes L n (unpack_bytes n a)"
  by (auto simp: consumes_def unpack_bytes_def align_for_unpack_impl_def std_align_def Let_def rbind_def
      split: sum.splits option.splits if_splits)

lemma consumes_then: "consumes L 0 u \<Longrightarrow> (\<And>x. consumes L 0 (f x)) \<Longrightarrow> consumes L 0 (ubind u f)"
  by (rule consumes_bind) auto

lemma consumes_word: "consumes L (LENGTH('a) div 8) (unpack_word :: 'a :: len word unpacker)"
  unfolding unpack_word_def by (rule consumes_bind [OF consumes_bytes]) auto

lemmas consumes_word0 [intro] = consumes_weaken [OF consumes_word, of L L 0 for L, simplified]

lemma consumes_bool [intro]: "consumes L 0 unpack_bool"
  unfolding unpack_bool_def by (intro consumes_then) auto

lemma consumes_dim [intro]: "consumes L 0 unpack_dim"
  unfolding unpack_dim_def by (intro consumes_then) (auto simp: rguard_def)

lemma consumes_coord [intro]: "consumes L 0 unpack_coord"
  unfolding unpack_coord_def by (intro consumes_then) auto

lemma consumes_n [intro]: "consumes L 0 u \<Longrightarrow> consumes L 0 (unpack_n u n)"
  by (induction n) (auto intro!: consumes_then)

lemma consumes_vector [intro]: "consumes L 0 u \<Longrightarrow> consumes L 0 (unpack_vector u)"
  unfolding unpack_vector_def by (intro consumes_then) auto

lemma consumes_transform: "L < k \<Longrightarrow> consumes L 1 (unpack_transform_fuel k)"
proof (induction k arbitrary: L)
  case (Suc k)
  have rec: "consumes (L - 1) 0 (unpack_transform_fuel k)" if "1 \<le> L"
    using Suc.prems that by (intro consumes_weaken [OF Suc.IH [of "L - 1"]]) auto
  show ?case unfolding unpack_transform_fuel.simps
  proof (rule consumes_bind)
    show "consumes L 1 (unpack_word :: 8 word unpacker)" using consumes_word [where 'a = 8] by simp
  qed (auto intro!: consumes_then rec [simplified])
qed simp

lemma no_divergence:
  "primitive_type c \<noteq> Inl Diverges" "binary_type sz \<noteq> Inl Diverges" "mk_fixed_array_type uid t n \<noteq> Inl Diverges"
  "mk_struct_type uid ts al \<noteq> Inl Diverges" "mk_list_type uid t \<noteq> Inl Diverges"
proof -
  show "primitive_type c \<noteq> Inl Diverges" by (cases c) (simp_all add: primitive_type_def mk_primitive_type_def)
qed (simp_all add: binary_type_def mk_fixed_array_type_def type_size_def mk_struct_type_def mk_list_type_def)

lemma consumes_type: "L < k \<Longrightarrow> consumes L 4 (unpack_type_fuel k)"
proof (induction k arbitrary: L)
  case (Suc k)
  have rec: "consumes (L - 4) 0 (unpack_type_fuel k)" if "4 \<le> L"
    using Suc.prems that by (intro consumes_weaken [OF Suc.IH [of "L - 4"]]) auto
  show ?case unfolding unpack_type_fuel.simps
  proof (rule consumes_bind)
    show "consumes L 4 (unpack_word :: 32 word unpacker)" using consumes_word [where 'a = 32] by simp
  qed (auto intro!: consumes_then rec no_divergence split: option.split type_code.split)
qed simp

text \<open>C32: Reading a transform stack or a type from any bytes ends: the fuel of the model, one unit for
  each byte left and one more, never runs out, so that every outcome is a value, an exception or an
  abort of the code; and the value is read from bytes that the buffer has.\<close>

theorem unpack_total:
  "(case unpack_transform r of Inl e \<Rightarrow> e \<noteq> Diverges | Inr (ts, r') \<Rightarrow> length (rd_bytes r') < length (rd_bytes r)) \<and>
   (case unpack_type r of Inl e \<Rightarrow> e \<noteq> Diverges | Inr (t, r') \<Rightarrow> length (rd_bytes r') + 4 \<le> length (rd_bytes r))"
  using consumes_transform [of "length (rd_bytes r)" "Suc (length (rd_bytes r))"]
    consumes_type [of "length (rd_bytes r)" "Suc (length (rd_bytes r))"]
  by (auto simp: consumes_def unpack_transform_def unpack_type_def Suc_le_eq split: sum.splits)

end
