(* ===== verification/OrderedMap.thy ===== *)
theory OrderedMap
  imports Legate_Prelude
begin

text \<open>
  \<open>std::map\<close> and \<open>std::set\<close> where the order of iteration matters: a map is the list of its entries in
  ascending order of the keys, a set the ascending list of its members. Lookup is \<open>map_of\<close>.
\<close>

type_synonym ('k, 'v) omap = "('k \<times> 'v) list"

fun omap_put :: "'k :: linorder \<Rightarrow> 'v \<Rightarrow> ('k, 'v) omap \<Rightarrow> ('k, 'v) omap" where
  "omap_put k v [] = [(k, v)]"
| "omap_put k v ((k', v') # m) =
     (if k' < k then (k', v') # omap_put k v m else if k' = k then (k, v) # m else (k, v) # (k', v') # m)"

text \<open>\<open>operator[]\<close> inserts a default when the key is missing; what is then done with the entry is \<open>f\<close>.\<close>

definition omap_get :: "'v \<Rightarrow> 'k \<Rightarrow> ('k, 'v) omap \<Rightarrow> 'v" where
  "omap_get d k m = (case map_of m k of None \<Rightarrow> d | Some v \<Rightarrow> v)"

definition omap_alter :: "'v \<Rightarrow> ('v \<Rightarrow> 'v) \<Rightarrow> 'k :: linorder \<Rightarrow> ('k, 'v) omap \<Rightarrow> ('k, 'v) omap" where
  "omap_alter d f k m = omap_put k (f (omap_get d k m)) m"

fun oset_insert :: "'a :: linorder \<Rightarrow> 'a list \<Rightarrow> 'a list" where
  "oset_insert x [] = [x]"
| "oset_insert x (y # ys) = (if y < x then y # oset_insert x ys else if y = x then y # ys else x # y # ys)"

definition omap_ok :: "('k :: linorder, 'v) omap \<Rightarrow> bool" where
  "omap_ok m \<longleftrightarrow> sorted_wrt (<) (map fst m)"

lemma set_oset_insert [simp]: "set (oset_insert x ys) = insert x (set ys)"
  by (induction ys) auto

lemma oset_insert_not_Nil [simp]: "oset_insert x ys \<noteq> []"
  by (cases ys) auto

lemma oset_insert_sorted: "sorted_wrt (<) ys \<Longrightarrow> sorted_wrt (<) (oset_insert x ys)"
  by (induction ys) auto

lemma fst_omap_put: "fst ` set (omap_put k v m) = insert k (fst ` set m)"
proof (induction m)
  case (Cons e m)
  then show ?case by (cases e) (simp add: insert_commute)
qed simp

lemma omap_ok_Nil [simp]: "omap_ok []"
  by (simp add: omap_ok_def)

lemma omap_ok_put: "omap_ok m \<Longrightarrow> omap_ok (omap_put k v m)"
proof (induction m)
  case (Cons e m)
  obtain k' v' where e: "e = (k', v')" by (cases e)
  have "\<forall>x \<in> fst ` set (omap_put k v m). k' < x" if "k' < k"
    using Cons.prems that unfolding fst_omap_put by (auto simp: omap_ok_def e)
  then show ?case using Cons by (auto simp: omap_ok_def e)
qed (simp add: omap_ok_def)

lemma map_of_omap_put: "omap_ok m \<Longrightarrow> map_of (omap_put k v m) = (map_of m)(k \<mapsto> v)"
proof (induction m)
  case (Cons e m)
  obtain k' v' where e: "e = (k', v')" by (cases e)
  show ?case using Cons by (auto simp: omap_ok_def e fun_eq_iff)
qed simp

lemma omap_ok_alter: "omap_ok m \<Longrightarrow> omap_ok (omap_alter d f k m)"
  by (simp add: omap_alter_def omap_ok_put)

lemma map_of_omap_alter:
  "omap_ok m \<Longrightarrow> map_of (omap_alter d f k m) = (map_of m)(k \<mapsto> f (omap_get d k m))"
  by (simp add: omap_alter_def map_of_omap_put)

lemma omap_ok_distinct: "omap_ok m \<Longrightarrow> distinct (map fst m)"
  by (simp add: omap_ok_def strict_sorted_iff)

lemma omap_get_Some: "map_of m k = Some v \<Longrightarrow> omap_get d k m = v"
  by (simp add: omap_get_def)

end
