(* ===== verification/StoreAnalyzer.thy ===== *)
theory StoreAnalyzer
  imports OrderedMap "HOL-Library.Product_Lexorder" "HOL-Library.Option_ord"
begin

unbundle bit_operations_syntax

text \<open>
  Coalescing the accesses of a task into region requirements: \<open>StoreAnalyzer\<close> of
  operation/detail/store_analyzer, \<open>StoreProjection::create_requirement\<close> of
  operation/detail/store_projection and the privilege operations of utilities/detail/legion_utilities.

  A launcher first inserts every access, then calls \<open>analyze\<close>, packs the index of the requirement of each
  argument, and at last hands the requirements to Legion. Handles of Legion (regions, partitions, field
  spaces, index spaces, futures) are numbers. The values of Legion's privilege modes are a parameter;
  what the code relies on is \<open>privileges_ok\<close>: the mask for discarded outputs shares no bit with the other
  modes. The parent of a region (\<open>Runtime::find_parent_region\<close>) is a parameter, too.
\<close>

section \<open>Privileges and projections\<close>

record privileges =
  NO_ACCESS :: u32
  READ_ONLY :: u32
  READ_WRITE :: u32
  WRITE_ONLY :: u32
  REDUCE :: u32
  WRITE_PRIV :: u32
  DISCARD_OUTPUT_MASK :: u32

definition has_privilege :: "u32 \<Rightarrow> u32 \<Rightarrow> bool" where
  "has_privilege priv target \<longleftrightarrow> priv AND target = target"

definition ignore_privilege :: "u32 \<Rightarrow> u32 \<Rightarrow> u32" where
  "ignore_privilege priv to_ignore = priv AND NOT to_ignore"

text \<open>\<open>(partition, proj_id, redop)\<close>, compared lexicographically; \<open>None\<close> is \<open>NO_PART\<close>.\<close>

type_synonym store_projection = "nat option \<times> u32 \<times> int"

section \<open>ProjectionSet\<close>

record projection_set =
  ps_discard :: bool
  ps_privilege :: u32
  ps_projs :: "store_projection list"

definition projection_set_default :: projection_set where
  "projection_set_default = \<lparr>ps_discard = False, ps_privilege = 0, ps_projs = []\<rparr>"

definition projection_set_insert ::
  "privileges \<Rightarrow> u32 \<Rightarrow> store_projection \<Rightarrow> bool \<Rightarrow> projection_set \<Rightarrow> projection_set result" where
  "projection_set_insert L new_privilege store_proj relax ps =
     (let (discard, new_privilege) =
            (if has_privilege new_privilege (DISCARD_OUTPUT_MASK L)
             then (True, ignore_privilege new_privilege (DISCARD_OUTPUT_MASK L))
             else (ps_discard ps, new_privilege));
          privilege =
            (if ps_projs ps = [] then new_privilege
             else if ps_privilege ps \<noteq> new_privilege \<and> ps_privilege ps \<noteq> NO_ACCESS L \<and> new_privilege \<noteq> NO_ACCESS L
             then READ_WRITE L else ps_privilege ps);
          projs = oset_insert store_proj (ps_projs ps)
      in if privilege \<noteq> READ_ONLY L \<and> privilege \<noteq> NO_ACCESS L \<and> 1 < length projs \<and> \<not> relax
         then Inl InterferingStore
         else Inr \<lparr>ps_discard = discard, ps_privilege = privilege, ps_projs = projs\<rparr>)"

section \<open>FieldSet\<close>

type_synonym req_key = "u32 \<times> store_projection"

record field_set =
  fs_coalesced :: "(req_key, u32 list \<times> bool) omap"
  fs_indices :: "req_key \<times> u32 \<rightharpoonup> nat"
  fs_projs :: "(u32, projection_set) omap"

definition field_set_default :: field_set where
  "field_set_default = \<lparr>fs_coalesced = [], fs_indices = Map.empty, fs_projs = []\<rparr>"

definition field_set_insert ::
  "privileges \<Rightarrow> u32 \<Rightarrow> u32 \<Rightarrow> store_projection \<Rightarrow> bool \<Rightarrow> field_set \<Rightarrow> field_set result" where
  "field_set_insert L field_id privilege store_proj relax fs =
     rbind (projection_set_insert L privilege store_proj relax (omap_get projection_set_default field_id (fs_projs fs))) (\<lambda>ps.
       Inr (fs\<lparr>fs_projs := omap_put field_id ps (fs_projs fs)\<rparr>))"

definition num_requirements :: "field_set \<Rightarrow> nat" where
  "num_requirements fs = length (fs_coalesced fs)"

definition fs_get_requirement_index ::
  "privileges \<Rightarrow> u32 \<Rightarrow> store_projection \<Rightarrow> u32 \<Rightarrow> field_set \<Rightarrow> nat result" where
  "fs_get_requirement_index L privilege store_proj field_id fs =
     (case find (\<lambda>priv. fs_indices fs ((priv, store_proj), field_id) \<noteq> None)
             [privilege, READ_WRITE L, READ_WRITE L OR DISCARD_OUTPUT_MASK L] of
        None \<Rightarrow> Inl CheckFailed
      | Some priv \<Rightarrow> Inr (the (fs_indices fs ((priv, store_proj), field_id))))"

definition coalesce_field ::
  "privileges \<Rightarrow> u32 \<Rightarrow> projection_set \<Rightarrow> (req_key, u32 list \<times> bool) omap \<Rightarrow> (req_key, u32 list \<times> bool) omap" where
  "coalesce_field L field_id ps =
     (let priv = (if ps_discard ps then ps_privilege ps OR DISCARD_OUTPUT_MASK L else ps_privilege ps)
      in fold (\<lambda>store_proj. omap_alter ([], False) (\<lambda>(fids, discard). (fids @ [field_id], discard \<or> ps_discard ps)) (priv, store_proj))
           (ps_projs ps))"

definition index_entries :: "(req_key, u32 list \<times> bool) omap \<Rightarrow> (req_key \<times> u32 \<rightharpoonup> nat) \<Rightarrow> (req_key \<times> u32 \<rightharpoonup> nat)" where
  "index_entries coalesced indices =
     fold (\<lambda>(idx, key, fids, discard). fold (\<lambda>field m. m((key, field) \<mapsto> idx)) fids)
       (zip [0 ..< length coalesced] coalesced) indices"

definition coalesce :: "privileges \<Rightarrow> field_set \<Rightarrow> field_set" where
  "coalesce L fs =
     (let coalesced = fold (\<lambda>(field_id, ps). coalesce_field L field_id ps) (fs_projs fs) (fs_coalesced fs)
      in fs\<lparr>fs_coalesced := coalesced, fs_indices := index_entries coalesced (fs_indices fs)\<rparr>)"

section \<open>Region requirements\<close>

datatype coherence = EXCLUSIVE | COLLECTIVE_EXCLUSIVE

record region_requirement =
  rr_region :: nat
  rr_partition :: "(nat \<times> u32) option"
  rr_privilege :: u32
  rr_redop :: "int option"
  rr_coherence :: coherence
  rr_parent :: nat
  rr_fields :: "u32 list"
  rr_suppress_warnings :: bool

definition create_requirement_single ::
  "privileges \<Rightarrow> (nat \<Rightarrow> nat) \<Rightarrow> store_projection \<Rightarrow> nat \<Rightarrow> u32 list \<Rightarrow> u32 \<Rightarrow> bool \<Rightarrow> region_requirement" where
  "create_requirement_single L find_parent_region proj region fids privilege is_single =
     (case proj of (part, proj_id, redop) \<Rightarrow>
        \<lparr>rr_region = region, rr_partition = None, rr_privilege = privilege,
         rr_redop = (if REDUCE L = privilege then Some redop else None),
         rr_coherence = (if REDUCE L = privilege then EXCLUSIVE
                         else if \<not> is_single \<and> privilege AND WRITE_PRIV L \<noteq> 0 then COLLECTIVE_EXCLUSIVE else EXCLUSIVE),
         rr_parent = find_parent_region region, rr_fields = fids, rr_suppress_warnings = False\<rparr>)"

definition create_requirement_index ::
  "privileges \<Rightarrow> (nat \<Rightarrow> nat) \<Rightarrow> store_projection \<Rightarrow> nat \<Rightarrow> u32 list \<Rightarrow> u32 \<Rightarrow> region_requirement" where
  "create_requirement_index L find_parent_region proj region fids privilege =
     (case proj of
        (None, proj_id, redop) \<Rightarrow> create_requirement_single L find_parent_region proj region fids privilege False
      | (Some part, proj_id, redop) \<Rightarrow>
          \<lparr>rr_region = region, rr_partition = Some (part, proj_id), rr_privilege = privilege,
           rr_redop = (if REDUCE L = privilege then Some redop else None), rr_coherence = EXCLUSIVE,
           rr_parent = find_parent_region region, rr_fields = fids, rr_suppress_warnings = False\<rparr>)"

definition create_requirement ::
  "privileges \<Rightarrow> (nat \<Rightarrow> nat) \<Rightarrow> bool \<Rightarrow> store_projection \<Rightarrow> nat \<Rightarrow> u32 list \<Rightarrow> u32 \<Rightarrow> region_requirement" where
  "create_requirement L find_parent_region single proj region fids privilege =
     (if single then create_requirement_single L find_parent_region proj region fids privilege True
      else create_requirement_index L find_parent_region proj region fids privilege)"

definition fs_populate_launcher ::
  "privileges \<Rightarrow> (nat \<Rightarrow> nat) \<Rightarrow> bool \<Rightarrow> nat \<Rightarrow> field_set \<Rightarrow> region_requirement list" where
  "fs_populate_launcher L find_parent_region single region fs =
     map (\<lambda>((privilege, store_proj), fids, has_streaming_discard).
            let req = create_requirement L find_parent_region single store_proj region fids
                        (if has_streaming_discard then privilege OR DISCARD_OUTPUT_MASK L else privilege)
            in if has_privilege privilege (WRITE_ONLY L) \<and> has_streaming_discard
               then req\<lparr>rr_suppress_warnings := True\<rparr> else req)
       (fs_coalesced fs)"

section \<open>RequirementAnalyzer\<close>

record requirement_analyzer =
  ra_relax :: bool
  ra_field_sets :: "(nat, field_set \<times> nat) omap"

definition ra_insert ::
  "privileges \<Rightarrow> nat \<Rightarrow> u32 \<Rightarrow> u32 \<Rightarrow> store_projection \<Rightarrow> requirement_analyzer \<Rightarrow> requirement_analyzer result" where
  "ra_insert L region field_id privilege store_proj ra =
     (case omap_get (field_set_default, 0) region (ra_field_sets ra) of (fs, req_offset) \<Rightarrow>
        rbind (field_set_insert L field_id privilege store_proj (ra_relax ra) fs) (\<lambda>fs.
          Inr (ra\<lparr>ra_field_sets := omap_put region (fs, req_offset) (ra_field_sets ra)\<rparr>)))"

definition ra_get_requirement_index ::
  "privileges \<Rightarrow> nat \<Rightarrow> u32 \<Rightarrow> store_projection \<Rightarrow> u32 \<Rightarrow> requirement_analyzer \<Rightarrow> nat result" where
  "ra_get_requirement_index L region privilege store_proj field_id ra =
     (case map_of (ra_field_sets ra) region of
        None \<Rightarrow> Inl CheckFailed
      | Some (field_set, req_offset) \<Rightarrow>
          rbind (fs_get_requirement_index L privilege store_proj field_id field_set) (\<lambda>i. Inr (req_offset + i)))"

fun analyze_entries :: "privileges \<Rightarrow> nat \<Rightarrow> (nat, field_set \<times> nat) omap \<Rightarrow> (nat, field_set \<times> nat) omap" where
  "analyze_entries L num_reqs [] = []"
| "analyze_entries L num_reqs ((region, field_set, req_offset) # entries) =
     (let field_set = coalesce L field_set
      in (region, field_set, num_reqs) # analyze_entries L (num_reqs + num_requirements field_set) entries)"

definition ra_analyze_requirements :: "privileges \<Rightarrow> requirement_analyzer \<Rightarrow> requirement_analyzer" where
  "ra_analyze_requirements L ra = ra\<lparr>ra_field_sets := analyze_entries L 0 (ra_field_sets ra)\<rparr>"

definition ra_populate_launcher ::
  "privileges \<Rightarrow> (nat \<Rightarrow> nat) \<Rightarrow> bool \<Rightarrow> requirement_analyzer \<Rightarrow> region_requirement list" where
  "ra_populate_launcher L find_parent_region single ra =
     concat (map (\<lambda>(region, fs, req_offset). fs_populate_launcher L find_parent_region single region fs) (ra_field_sets ra))"

section \<open>OutputRequirementAnalyzer\<close>

record req_info =
  ri_dim :: u32
  ri_proj_id :: u32
  ri_color_space :: nat
  ri_req_idx :: nat

definition req_info_default :: req_info where
  "req_info_default = \<lparr>ri_dim = - 1, ri_proj_id = 0, ri_color_space = 0, ri_req_idx = 0\<rparr>"

record output_analyzer =
  oa_field_groups :: "(nat, u32 list) omap"
  oa_req_infos :: "nat \<rightharpoonup> req_info"

definition oa_insert :: "u32 \<Rightarrow> nat \<Rightarrow> u32 \<Rightarrow> u32 \<Rightarrow> nat \<Rightarrow> output_analyzer \<Rightarrow> output_analyzer result" where
  "oa_insert dim field_space field_id proj_id color_space oa =
     (let info = (case oa_req_infos oa field_space of None \<Rightarrow> req_info_default | Some i \<Rightarrow> i)
      in rguard (ri_dim info = - 1 \<or> ri_proj_id info = proj_id) CheckFailed
          (rguard (ri_dim info = - 1 \<or> ri_color_space info = color_space) CheckFailed
            (rguard (ri_dim info = - 1 \<or> ri_dim info = dim) CheckFailed
              (Inr \<lparr>oa_field_groups = omap_alter [] (oset_insert field_id) field_space (oa_field_groups oa),
                    oa_req_infos = (oa_req_infos oa)(field_space \<mapsto>
                      info\<lparr>ri_proj_id := proj_id, ri_color_space := color_space, ri_dim := dim\<rparr>)\<rparr>))))"

definition oa_get_requirement_index :: "nat \<Rightarrow> output_analyzer \<Rightarrow> nat result" where
  "oa_get_requirement_index field_space oa =
     (case oa_req_infos oa field_space of None \<Rightarrow> Inl CheckFailed | Some i \<Rightarrow> Inr (ri_req_idx i))"

definition oa_analyze_requirements :: "output_analyzer \<Rightarrow> output_analyzer" where
  "oa_analyze_requirements oa =
     oa\<lparr>oa_req_infos := fold (\<lambda>(idx, field_space, fids) m.
          m(field_space \<mapsto> (case m field_space of None \<Rightarrow> req_info_default | Some i \<Rightarrow> i)\<lparr>ri_req_idx := idx\<rparr>))
        (zip [0 ..< length (oa_field_groups oa)] (oa_field_groups oa)) (oa_req_infos oa)\<rparr>"

record output_requirement =
  or_field_space :: nat
  or_fields :: "u32 list"
  or_dim :: u32
  or_projection :: u32
  or_color_space :: nat

definition populate_output_requirements :: "output_analyzer \<Rightarrow> output_requirement list result" where
  "populate_output_requirements oa =
     rmapM (\<lambda>(field_space, fids).
        case oa_req_infos oa field_space of
          None \<Rightarrow> Inl OutOfRange
        | Some i \<Rightarrow> Inr \<lparr>or_field_space = field_space, or_fields = fids, or_dim = ri_dim i,
                         or_projection = ri_proj_id i, or_color_space = ri_color_space i\<rparr>)
       (oa_field_groups oa)"

section \<open>FutureAnalyzer\<close>

record future_analyzer =
  fa_indices :: "nat \<rightharpoonup> nat"
  fa_map_indices :: "nat \<rightharpoonup> nat"
  fa_coalesced :: "nat list"
  fa_coalesced_maps :: "nat list"
  fa_futures :: "nat list"
  fa_future_maps :: "nat list"

definition fa_insert :: "nat \<Rightarrow> future_analyzer \<Rightarrow> future_analyzer" where
  "fa_insert future fa = fa\<lparr>fa_futures := fa_futures fa @ [future]\<rparr>"

definition fa_insert_map :: "nat \<Rightarrow> future_analyzer \<Rightarrow> future_analyzer" where
  "fa_insert_map future_map fa = fa\<lparr>fa_future_maps := fa_future_maps fa @ [future_map]\<rparr>"

definition fa_get_index :: "nat \<Rightarrow> future_analyzer \<Rightarrow> nat result" where
  "fa_get_index future fa = (case fa_indices fa future of None \<Rightarrow> Inl OutOfRange | Some i \<Rightarrow> Inr i)"

definition fa_get_map_index :: "nat \<Rightarrow> future_analyzer \<Rightarrow> nat result" where
  "fa_get_map_index future_map fa = (case fa_map_indices fa future_map of None \<Rightarrow> Inl OutOfRange | Some i \<Rightarrow> Inr i)"

fun number_handles :: "nat list \<Rightarrow> (nat \<rightharpoonup> nat) \<times> nat list \<times> nat \<Rightarrow> (nat \<rightharpoonup> nat) \<times> nat list \<times> nat" where
  "number_handles [] s = s"
| "number_handles (h # hs) (indices, coalesced, index) =
     number_handles hs (if indices h = None then (indices(h \<mapsto> index), coalesced @ [h], index + 1) else (indices, coalesced, index))"

definition analyze_futures :: "future_analyzer \<Rightarrow> future_analyzer" where
  "analyze_futures fa =
     (let (indices, coalesced, index) = number_handles (fa_futures fa) (fa_indices fa, fa_coalesced fa, 0);
          (map_indices, coalesced_maps, index) = number_handles (fa_future_maps fa) (fa_map_indices fa, fa_coalesced_maps fa, index)
      in fa\<lparr>fa_indices := indices, fa_coalesced := coalesced, fa_map_indices := map_indices, fa_coalesced_maps := coalesced_maps\<rparr>)"

text \<open>The futures and the point futures of the launcher.\<close>

definition fa_populate_index :: "future_analyzer \<Rightarrow> nat list \<times> nat list" where
  "fa_populate_index fa = (fa_coalesced fa, fa_coalesced_maps fa)"

definition fa_populate_single :: "future_analyzer \<Rightarrow> nat list result" where
  "fa_populate_single fa = rguard (fa_coalesced_maps fa = []) CheckFailed (Inr (fa_coalesced fa))"

section \<open>StoreAnalyzer\<close>

record store_analyzer =
  sa_req :: requirement_analyzer
  sa_out :: output_analyzer
  sa_fut :: future_analyzer

definition store_analyzer_default :: store_analyzer where
  "store_analyzer_default =
     \<lparr>sa_req = \<lparr>ra_relax = False, ra_field_sets = []\<rparr>,
      sa_out = \<lparr>oa_field_groups = [], oa_req_infos = Map.empty\<rparr>,
      sa_fut = \<lparr>fa_indices = Map.empty, fa_map_indices = Map.empty, fa_coalesced = [], fa_coalesced_maps = [],
                fa_futures = [], fa_future_maps = []\<rparr>\<rparr>"

definition sa_analyze :: "privileges \<Rightarrow> store_analyzer \<Rightarrow> store_analyzer" where
  "sa_analyze L sa =
     \<lparr>sa_req = ra_analyze_requirements L (sa_req sa),
      sa_out = oa_analyze_requirements (sa_out sa),
      sa_fut = analyze_futures (sa_fut sa)\<rparr>"

definition can_be_local_function_task :: "store_analyzer \<Rightarrow> bool" where
  "can_be_local_function_task sa \<longleftrightarrow> ra_field_sets (sa_req sa) = [] \<and> oa_field_groups (sa_out sa) = []"

end
