(* ===== verification/StoreAnalyzerCorrect.thy ===== *)
theory StoreAnalyzerCorrect
  imports StoreAnalyzer
begin

text \<open>
  What the indices of StoreAnalyzer refer to: the requirement at the index of an access covers the
  region, the field and the partition of the access with a privilege that suffices, and a field that
  is written is accessed through one projection only.
\<close>

section \<open>One field\<close>

text \<open>An access to a field is a privilege and a projection; \<open>A\<close> is the set of the accesses so far.\<close>

definition privileges_ok :: "privileges \<Rightarrow> bool" where
  "privileges_ok L \<longleftrightarrow> READ_WRITE L \<noteq> NO_ACCESS L \<and> READ_WRITE L \<noteq> READ_ONLY L"

abbreviation discards :: "privileges \<Rightarrow> u32 \<Rightarrow> bool" where
  "discards L p \<equiv> has_privilege p (DISCARD_OUTPUT_MASK L)"

definition base_privilege :: "privileges \<Rightarrow> u32 \<Rightarrow> u32" where
  "base_privilege L p = (if discards L p then ignore_privilege p (DISCARD_OUTPUT_MASK L) else p)"

definition ps_inv :: "privileges \<Rightarrow> bool \<Rightarrow> (u32 \<times> store_projection) set \<Rightarrow> projection_set \<Rightarrow> bool" where
  "ps_inv L relax A ps \<longleftrightarrow>
     (ps_projs ps = [] \<longleftrightarrow> A = {}) \<and> sorted_wrt (<) (ps_projs ps) \<and>
     (\<forall>(p, proj) \<in> A. proj \<in> set (ps_projs ps) \<and>
        (ps_privilege ps = base_privilege L p \<or> ps_privilege ps = READ_WRITE L) \<and> (discards L p \<longrightarrow> ps_discard ps)) \<and>
     (ps_discard ps \<longrightarrow> (\<exists>(p, proj) \<in> A. discards L p)) \<and>
     (A \<noteq> {} \<longrightarrow> ps_privilege ps \<noteq> NO_ACCESS L) \<and>
     (A \<noteq> {} \<and> \<not> relax \<and> ps_privilege ps \<noteq> READ_ONLY L \<longrightarrow> length (ps_projs ps) \<le> 1)"

lemma ps_inv_access:
  assumes "ps_inv L relax A ps" "(p, proj) \<in> A"
  shows "proj \<in> set (ps_projs ps)" "ps_privilege ps = base_privilege L p \<or> ps_privilege ps = READ_WRITE L"
    "discards L p \<Longrightarrow> ps_discard ps"
  using assms by (auto simp: ps_inv_def)

lemma ps_inv_discard:
  assumes "ps_inv L relax A ps" "ps_discard ps"
  obtains p proj where "(p, proj) \<in> A" "discards L p"
  using assms by (auto simp: ps_inv_def)

lemma ps_inv_default: "ps_inv L relax {} projection_set_default"
  by (simp add: ps_inv_def projection_set_default_def)

lemma projection_set_insert_eq:
  "projection_set_insert L p proj relax ps =
     (let privilege = (if ps_projs ps = [] then base_privilege L p
            else if ps_privilege ps \<noteq> base_privilege L p \<and> ps_privilege ps \<noteq> NO_ACCESS L \<and> base_privilege L p \<noteq> NO_ACCESS L
            then READ_WRITE L else ps_privilege ps);
          projs = oset_insert proj (ps_projs ps)
      in if privilege \<noteq> READ_ONLY L \<and> privilege \<noteq> NO_ACCESS L \<and> 1 < length projs \<and> \<not> relax
         then Inl InterferingStore
         else Inr \<lparr>ps_discard = (discards L p \<or> ps_discard ps), ps_privilege = privilege, ps_projs = projs\<rparr>)"
  unfolding projection_set_insert_def base_privilege_def
  by (cases "discards L p") (simp_all only: if_True if_False Let_def prod.case simp_thms)

lemma ps_inv_insert:
  assumes "privileges_ok L" "ps_inv L relax A ps" "base_privilege L p \<noteq> NO_ACCESS L"
    and "projection_set_insert L p proj relax ps = Inr ps'"
  shows "ps_inv L relax (insert (p, proj) A) ps'"
proof -
  let ?priv = "if ps_projs ps = [] then base_privilege L p
    else if ps_privilege ps \<noteq> base_privilege L p \<and> ps_privilege ps \<noteq> NO_ACCESS L \<and> base_privilege L p \<noteq> NO_ACCESS L
    then READ_WRITE L else ps_privilege ps"
  have ps': "ps' = \<lparr>ps_discard = (discards L p \<or> ps_discard ps), ps_privilege = ?priv, ps_projs = oset_insert proj (ps_projs ps)\<rparr>"
    "?priv = READ_ONLY L \<or> ?priv = NO_ACCESS L \<or> length (oset_insert proj (ps_projs ps)) \<le> 1 \<or> relax"
    using assms(4) unfolding projection_set_insert_eq Let_def by (auto split: if_split_asm)
  have priv: "?priv \<noteq> NO_ACCESS L" "?priv = base_privilege L p \<or> ?priv = READ_WRITE L"
    "A \<noteq> {} \<Longrightarrow> ?priv = ps_privilege ps \<or> ?priv = READ_WRITE L"
    using assms(1-3) by (auto simp: ps_inv_def privileges_ok_def)
  have old: "?priv = base_privilege L p' \<or> ?priv = READ_WRITE L" "proj' \<in> set (ps_projs ps)" "discards L p' \<longrightarrow> ps_discard ps"
    if "(p', proj') \<in> A" for p' proj'
    using assms(2) that priv(3) by (auto simp: ps_inv_def)
  have disc: "\<exists>(p', proj') \<in> insert (p, proj) A. discards L p'" if "discards L p \<or> ps_discard ps"
    using assms(2) that by (auto simp: ps_inv_def)
  show ?thesis
    unfolding ps_inv_def ps'(1) projection_set.select_convs
    using priv(1,2) old disc ps'(2) oset_insert_sorted [of "ps_projs ps"] assms(2)
    by (auto simp: ps_inv_def simp del: if_split_asm split del: if_split)
qed

section \<open>The fields of a region\<close>

definition fs_inv :: "privileges \<Rightarrow> bool \<Rightarrow> (u32 \<times> u32 \<times> store_projection) set \<Rightarrow> field_set \<Rightarrow> bool" where
  "fs_inv L relax A fs \<longleftrightarrow>
     omap_ok (fs_projs fs) \<and> fs_coalesced fs = [] \<and> fs_indices fs = Map.empty \<and>
     (\<forall>f. ps_inv L relax {a. (f, a) \<in> A} (omap_get projection_set_default f (fs_projs fs)))"

lemma fs_inv_default: "fs_inv L relax {} field_set_default"
  by (simp add: fs_inv_def field_set_default_def omap_get_def ps_inv_default)

lemma omap_get_put: "omap_ok m \<Longrightarrow> omap_get d k' (omap_put k v m) = (if k' = k then v else omap_get d k' m)"
  by (simp add: omap_get_def map_of_omap_put)

lemma fs_inv_insert:
  assumes "privileges_ok L" "fs_inv L relax A fs" "base_privilege L p \<noteq> NO_ACCESS L"
    and "field_set_insert L f p proj relax fs = Inr fs'"
  shows "fs_inv L relax (insert (f, p, proj) A) fs'"
proof -
  obtain ps where ps: "projection_set_insert L p proj relax (omap_get projection_set_default f (fs_projs fs)) = Inr ps"
    "fs' = fs\<lparr>fs_projs := omap_put f ps (fs_projs fs)\<rparr>"
    using assms(4) by (auto simp: field_set_insert_def rbind_eq_Inr)
  have ok: "omap_ok (fs_projs fs)" using assms(2) by (simp add: fs_inv_def)
  have "ps_inv L relax (insert (p, proj) {a. (f, a) \<in> A}) ps"
    using assms(2) by (intro ps_inv_insert [OF assms(1) _ assms(3) ps(1)]) (simp add: fs_inv_def)
  moreover have "{a. (f, a) \<in> insert (f, p, proj) A} = insert (p, proj) {a. (f, a) \<in> A}" by auto
  moreover have "{a. (g, a) \<in> insert (f, p, proj) A} = {a. (g, a) \<in> A}" if "g \<noteq> f" for g using that by auto
  ultimately show ?thesis using assms(2) by (simp add: fs_inv_def ps(2) omap_ok_put [OF ok] omap_get_put [OF ok])
qed

text \<open>\<open>has_field co key f\<close>: the requirement of \<open>key\<close> lists the field.\<close>

definition has_field :: "(req_key, u32 list \<times> bool) omap \<Rightarrow> req_key \<Rightarrow> u32 \<Rightarrow> bool" where
  "has_field co key f \<longleftrightarrow> (\<exists>fids d. map_of co key = Some (fids, d) \<and> f \<in> set fids)"

text \<open>A requirement is marked only if its privilege has the mask already.\<close>

definition co_ok :: "privileges \<Rightarrow> (req_key, u32 list \<times> bool) omap \<Rightarrow> bool" where
  "co_ok L co \<longleftrightarrow> omap_ok co \<and> (\<forall>p proj fids. map_of co (p, proj) = Some (fids, True) \<longrightarrow> p OR DISCARD_OUTPUT_MASK L = p)"

lemma co_ok_marked:
  assumes "co_ok L co" "map_of co (key, proj) = Some (fids, d)"
  shows "d \<longrightarrow> key OR DISCARD_OUTPUT_MASK L = key"
proof
  assume d
  then have "map_of co (key, proj) = Some (fids, True)" using assms(2) by simp
  then show "key OR DISCARD_OUTPUT_MASK L = key" using assms(1) unfolding co_ok_def by blast
qed

abbreviation add_field :: "projection_set \<Rightarrow> u32 \<Rightarrow> u32 list \<times> bool \<Rightarrow> u32 list \<times> bool" where
  "add_field ps f \<equiv> \<lambda>(fids, discard). (fids @ [f], discard \<or> ps_discard ps)"

definition coalesced_privilege :: "privileges \<Rightarrow> projection_set \<Rightarrow> u32" where
  "coalesced_privilege L ps = (if ps_discard ps then ps_privilege ps OR DISCARD_OUTPUT_MASK L else ps_privilege ps)"

lemma co_ok_alter:
  assumes "co_ok L co"
  shows "co_ok L (omap_alter ([], False) (add_field ps f) (coalesced_privilege L ps, proj) co)"
proof -
  have ok: "omap_ok co" using assms by (simp add: co_ok_def)
  have "p OR DISCARD_OUTPUT_MASK L = p"
    if lookup: "map_of (omap_alter ([], False) (add_field ps f) (coalesced_privilege L ps, proj) co) (p, proj') = Some (fids, True)" for p proj' fids
  proof (cases "(p, proj') = (coalesced_privilege L ps, proj) \<and> ps_discard ps")
    case True
    then show ?thesis by (simp add: coalesced_privilege_def or.assoc)
  next
    case False
    then obtain fids' where "map_of co (p, proj') = Some (fids', True)"
      using lookup by (auto simp: map_of_omap_alter [OF ok] omap_get_def split: if_splits option.splits prod.splits)
    then show ?thesis using assms unfolding co_ok_def by blast
  qed
  then show ?thesis by (simp add: co_ok_def omap_ok_alter ok)
qed

lemma has_field_alter:
  "omap_ok co \<Longrightarrow> has_field co key g \<or> (key = k \<and> g = f) \<Longrightarrow> has_field (omap_alter ([], False) (add_field ps f) k co) key g"
  by (auto simp: has_field_def map_of_omap_alter omap_get_def split: prod.splits option.splits)

lemma coalesce_field_step:
  "co_ok L co \<Longrightarrow>
   co_ok L (coalesce_field L f ps co) \<and>
   (\<forall>key g. has_field co key g \<longrightarrow> has_field (coalesce_field L f ps co) key g) \<and>
   (\<forall>proj \<in> set (ps_projs ps). has_field (coalesce_field L f ps co) (coalesced_privilege L ps, proj) f)"
proof -
  let ?fold = "\<lambda>projs. fold (\<lambda>proj. omap_alter ([], False) (add_field ps f) (coalesced_privilege L ps, proj)) projs"
  have "co_ok L co \<Longrightarrow> co_ok L (?fold projs co) \<and> (\<forall>key g. has_field co key g \<longrightarrow> has_field (?fold projs co) key g) \<and>
      (\<forall>proj \<in> set projs. has_field (?fold projs co) (coalesced_privilege L ps, proj) f)" for projs
  proof (induction projs arbitrary: co)
    case (Cons proj projs)
    let ?co = "omap_alter ([], False) (add_field ps f) (coalesced_privilege L ps, proj) co"
    have ok: "omap_ok co" using Cons.prems by (simp add: co_ok_def)
    note IH = Cons.IH [OF co_ok_alter [where ps = ps and f = f and proj = proj, OF Cons.prems]]
    then have mono: "has_field ?co key g \<Longrightarrow> has_field (?fold projs ?co) key g" for key g by blast
    have "has_field ?co (coalesced_privilege L ps, proj) f" by (rule has_field_alter [OF ok]) simp
    moreover have "has_field ?co key g" if "has_field co key g" for key g
      using that by (intro has_field_alter [OF ok]) simp
    ultimately show ?case using IH mono unfolding fold_simps list.set by blast
  qed simp
  then show "co_ok L co \<Longrightarrow> ?thesis" by (simp add: coalesce_field_def coalesced_privilege_def Let_def)
qed

lemma coalesce_fold:
  "co_ok L co \<Longrightarrow>
   (let co' = fold (\<lambda>(f, ps). coalesce_field L f ps) es co
    in co_ok L co' \<and> (\<forall>key g. has_field co key g \<longrightarrow> has_field co' key g) \<and>
       (\<forall>(f, ps) \<in> set es. \<forall>proj \<in> set (ps_projs ps). has_field co' (coalesced_privilege L ps, proj) f))"
proof (induction es arbitrary: co)
  case (Cons e es)
  obtain f ps where e: "e = (f, ps)" by (cases e)
  note step = coalesce_field_step [OF Cons.prems, of f ps]
  show ?case using step Cons.IH [of "coalesce_field L f ps co"] by (auto simp: e Let_def)
qed simp

section \<open>Requirement indices\<close>

lemma find_member: "x \<in> set xs \<Longrightarrow> P x \<Longrightarrow> \<exists>y. find P xs = Some y \<and> P y \<and> y \<in> set xs"
  by (induction xs) auto

lemma index_one:
  "fold (\<lambda>field m. m((key, field) \<mapsto> idx)) fids m x = (if fst x = key \<and> snd x \<in> set fids then Some idx else m x)"
  by (induction fids arbitrary: m) auto

lemma index_entries_fold:
  fixes es :: "(nat \<times> 'k \<times> 'f list \<times> bool) list" and m :: "'k \<times> 'f \<rightharpoonup> nat"
  defines "ind \<equiv> fold (\<lambda>(idx, key, fids, discard). fold (\<lambda>field m. m((key, field) \<mapsto> idx)) fids) es m"
  shows "(ind (key, f) = Some i \<longrightarrow> m (key, f) = Some i \<or> (\<exists>fids d. (i, key, fids, d) \<in> set es \<and> f \<in> set fids)) \<and>
    ((\<exists>i fids d. (i, key, fids, d) \<in> set es \<and> f \<in> set fids) \<or> m (key, f) \<noteq> None \<longrightarrow> ind (key, f) \<noteq> None)"
  unfolding ind_def
proof (induction es arbitrary: m)
  case (Cons e es)
  obtain idx k fids d where e: "e = (idx, k, fids, d)" by (cases e)
  let ?m = "fold (\<lambda>field m. m((k, field) \<mapsto> idx)) fids m"
  have m: "?m (key, f) = (if key = k \<and> f \<in> set fids then Some idx else m (key, f))" by (simp add: index_one)
  show ?case
    using Cons.IH [of ?m] unfolding m e fold_simps prod.case list.set
    by (cases "key = k \<and> f \<in> set fids") (simp only: if_True if_False if_P, blast)+
qed simp

lemma index_entries_sound:
  assumes "index_entries co Map.empty (key, f) = Some i"
  shows "i < length co \<and> (\<exists>fids d. co ! i = (key, fids, d) \<and> f \<in> set fids)"
proof -
  from assms obtain fids d where "(i, key, fids, d) \<in> set (zip [0 ..< length co] co)" "f \<in> set fids"
    using conjunct1 [OF index_entries_fold [where m = Map.empty and key = key and f = f and i = i and es = "zip [0 ..< length co] co"]]
    unfolding index_entries_def by auto
  then show ?thesis by (auto simp: in_set_zip intro: sym)
qed

lemma index_entries_complete:
  assumes "has_field co key f"
  shows "index_entries co Map.empty (key, f) \<noteq> None"
proof -
  obtain fids d where h: "map_of co key = Some (fids, d)" "f \<in> set fids" using assms by (auto simp: has_field_def)
  then obtain i where "i < length co" "co ! i = (key, fids, d)" by (meson in_set_conv_nth map_of_SomeD)
  then have "(i, key, fids, d) \<in> set (zip [0 ..< length co] co)"
    unfolding in_set_zip by (intro exI [of _ i]) simp
  then show ?thesis
    using h(2) conjunct2 [OF index_entries_fold [where m = Map.empty and key = key and f = f and es = "zip [0 ..< length co] co"]]
    unfolding index_entries_def by blast
qed

text \<open>The accesses whose privileges differ only in the mask for discarded outputs: their requirement would
  not be found.\<close>

definition mask_consistent :: "privileges \<Rightarrow> (u32 \<times> store_projection) set \<Rightarrow> bool" where
  "mask_consistent L A \<longleftrightarrow>
     (\<forall>(p, proj) \<in> A. \<forall>(q, proj') \<in> A. base_privilege L p = base_privilege L q \<longrightarrow> p = q)"

lemma or_mask_base: "discards L p \<Longrightarrow> base_privilege L p OR DISCARD_OUTPUT_MASK L = p"
proof -
  assume d: "discards L p"
  then have "base_privilege L p OR DISCARD_OUTPUT_MASK L = (p AND NOT (DISCARD_OUTPUT_MASK L)) OR (p AND DISCARD_OUTPUT_MASK L)"
    by (simp add: base_privilege_def ignore_privilege_def has_privilege_def)
  then show ?thesis by (simp flip: bit.conj_disj_distrib)
qed

text \<open>The privileges that suffice for an access.\<close>

definition suffices :: "privileges \<Rightarrow> u32 \<Rightarrow> u32 \<Rightarrow> bool" where
  "suffices L p q \<longleftrightarrow> q \<in> {p, READ_WRITE L, READ_WRITE L OR DISCARD_OUTPUT_MASK L}"

lemma coalesced_suffices:
  assumes "ps_inv L relax A ps" "mask_consistent L A" "(p, proj) \<in> A"
  shows "suffices L p (coalesced_privilege L ps)"
proof (cases "ps_discard ps \<and> ps_privilege ps \<noteq> READ_WRITE L")
  case True
  then obtain q proj' where q: "(q, proj') \<in> A" "discards L q" using ps_inv_discard [OF assms(1)] by blast
  then have e: "ps_privilege ps = base_privilege L q" using ps_inv_access(2) [OF assms(1) q(1)] True by simp
  moreover have "base_privilege L p = ps_privilege ps" using ps_inv_access(2) [OF assms(1,3)] True by simp
  ultimately have "p = q" using assms(2,3) q(1) by (auto simp: mask_consistent_def)
  then show ?thesis using True q e by (simp add: suffices_def coalesced_privilege_def or_mask_base)
next
  case False
  then show ?thesis using ps_inv_access(2,3) [OF assms(1,3)]
    by (auto simp: suffices_def coalesced_privilege_def base_privilege_def split: if_splits)
qed

lemma field_set_index:
  assumes "fs_inv L relax A fs" "mask_consistent L {a. (f, a) \<in> A}" "(f, p, proj) \<in> A"
  shows "\<exists>i key fids d. fs_get_requirement_index L p proj f (coalesce L fs) = Inr i \<and>
    i < num_requirements (coalesce L fs) \<and> fs_coalesced (coalesce L fs) ! i = ((key, proj), fids, d) \<and>
    f \<in> set fids \<and> suffices L p key \<and> (d \<longrightarrow> key OR DISCARD_OUTPUT_MASK L = key)"
proof -
  let ?co = "fold (\<lambda>(field_id, ps). coalesce_field L field_id ps) (fs_projs fs) []"
  let ?cs = "[p, READ_WRITE L, READ_WRITE L OR DISCARD_OUTPUT_MASK L]"
  have fs: "fs_coalesced (coalesce L fs) = ?co" "fs_indices (coalesce L fs) = index_entries ?co Map.empty"
    using assms(1) by (simp_all add: coalesce_def fs_inv_def Let_def)
  have inv: "ps_inv L relax {a. (f, a) \<in> A} (omap_get projection_set_default f (fs_projs fs))"
    using assms(1) by (simp add: fs_inv_def)
  have ac: "(p, proj) \<in> {a. (f, a) \<in> A}" using assms(3) by simp
  have "map_of (fs_projs fs) f \<noteq> None"
    using ps_inv_access(1) [OF inv ac] by (auto simp: omap_get_def projection_set_default_def split: option.splits)
  then obtain ps where m: "map_of (fs_projs fs) f = Some ps" by blast
  have ps: "ps_inv L relax {a. (f, a) \<in> A} ps" using inv by (simp add: omap_get_Some [OF m])
  have "co_ok L []" by (simp add: co_ok_def)
  note fold = coalesce_fold [OF this, of "fs_projs fs", unfolded Let_def]
  have "proj \<in> set (ps_projs ps)" by (rule ps_inv_access(1) [OF ps ac])
  then have "has_field ?co (coalesced_privilege L ps, proj) f" using fold map_of_SomeD [OF m] by blast
  then have "fs_indices (coalesce L fs) ((coalesced_privilege L ps, proj), f) \<noteq> None"
    unfolding fs by (rule index_entries_complete)
  moreover have "coalesced_privilege L ps \<in> set ?cs"
    using coalesced_suffices [OF ps assms(2) ac] by (simp add: suffices_def)
  ultimately obtain key where key: "find (\<lambda>priv. fs_indices (coalesce L fs) ((priv, proj), f) \<noteq> None) ?cs = Some key"
    "fs_indices (coalesce L fs) ((key, proj), f) \<noteq> None" "key \<in> set ?cs"
    using find_member [of "coalesced_privilege L ps" ?cs "\<lambda>priv. fs_indices (coalesce L fs) ((priv, proj), f) \<noteq> None"] by blast
  then obtain i where i: "fs_indices (coalesce L fs) ((key, proj), f) = Some i" by blast
  obtain fids d where co: "i < length ?co" "?co ! i = ((key, proj), fids, d)" "f \<in> set fids"
    using index_entries_sound [of ?co "(key, proj)" f i] i unfolding fs by blast
  have "map_of ?co (key, proj) = Some (fids, d)"
    using fold nth_mem [OF co(1)] co(2) omap_ok_distinct [of ?co] by (simp add: co_ok_def)
  then have "d \<longrightarrow> key OR DISCARD_OUTPUT_MASK L = key" using co_ok_marked fold by blast
  moreover have "fs_get_requirement_index L p proj f (coalesce L fs) = Inr i"
    unfolding fs_get_requirement_index_def key(1) by (simp add: i)
  moreover have "suffices L p key" using key(3) by (simp add: suffices_def)
  ultimately show ?thesis using co unfolding fs num_requirements_def
    by (intro exI [of _ i] exI [of _ key] exI [of _ fids] exI [of _ d]) simp
qed

section \<open>All regions\<close>

definition ra_inv :: "privileges \<Rightarrow> (nat \<times> u32 \<times> u32 \<times> store_projection) set \<Rightarrow> requirement_analyzer \<Rightarrow> bool" where
  "ra_inv L A ra \<longleftrightarrow>
     omap_ok (ra_field_sets ra) \<and>
     (\<forall>r. fs_inv L (ra_relax ra) {a. (r, a) \<in> A} (fst (omap_get (field_set_default, 0) r (ra_field_sets ra))))"

abbreviation ra_start :: "bool \<Rightarrow> requirement_analyzer" where
  "ra_start relax \<equiv> \<lparr>ra_relax = relax, ra_field_sets = []\<rparr>"

abbreviation ra_insert_all :: "privileges \<Rightarrow> (nat \<times> u32 \<times> u32 \<times> store_projection) list \<Rightarrow> requirement_analyzer \<Rightarrow> requirement_analyzer result" where
  "ra_insert_all L \<equiv> rfoldM (\<lambda>(region, field_id, privilege, proj). ra_insert L region field_id privilege proj)"

lemma ra_inv_start: "ra_inv L {} (ra_start relax)"
  by (simp add: ra_inv_def omap_get_def fs_inv_default)

lemma ra_inv_insert:
  assumes "privileges_ok L" "ra_inv L A ra" "base_privilege L p \<noteq> NO_ACCESS L" "ra_insert L r f p proj ra = Inr ra'"
  shows "ra_inv L (insert (r, f, p, proj) A) ra' \<and> ra_relax ra' = ra_relax ra"
proof -
  obtain fs off where g: "omap_get (field_set_default, 0) r (ra_field_sets ra) = (fs, off)" by (cases "omap_get (field_set_default, 0) r (ra_field_sets ra)")
  obtain fs' where fs': "field_set_insert L f p proj (ra_relax ra) fs = Inr fs'"
    "ra' = ra\<lparr>ra_field_sets := omap_put r (fs', off) (ra_field_sets ra)\<rparr>"
    using assms(4) by (auto simp: ra_insert_def g rbind_eq_Inr)
  have ok: "omap_ok (ra_field_sets ra)" using assms(2) by (simp add: ra_inv_def)
  have "fs_inv L (ra_relax ra) {a. (r, a) \<in> A} fs" using assms(2) g unfolding ra_inv_def by (metis fst_conv)
  note step = fs_inv_insert [OF assms(1) this assms(3) fs'(1)]
  have "{a. (r, a) \<in> insert (r, f, p, proj) A} = insert (f, p, proj) {a. (r, a) \<in> A}" by auto
  with step have "fs_inv L (ra_relax ra) {a. (r, a) \<in> insert (r, f, p, proj) A} fs'" by (simp only:)
  moreover have "{a. (s, a) \<in> insert (r, f, p, proj) A} = {a. (s, a) \<in> A}" if "s \<noteq> r" for s using that by auto
  ultimately show ?thesis using assms(2) by (simp add: ra_inv_def fs'(2) omap_ok_put [OF ok] omap_get_put [OF ok])
qed

lemma ra_inv_insert_all:
  assumes "privileges_ok L" "\<forall>(r, f, p, proj) \<in> set as. base_privilege L p \<noteq> NO_ACCESS L"
  shows "ra_inv L A ra \<Longrightarrow> ra_insert_all L as ra = Inr ra' \<Longrightarrow> ra_inv L (A \<union> set as) ra' \<and> ra_relax ra' = ra_relax ra"
  using assms(2)
proof (induction as arbitrary: A ra)
  case (Cons a as)
  obtain r f p proj where a: "a = (r, f, p, proj)" by (cases a)
  obtain ra1 where ra1: "ra_insert L r f p proj ra = Inr ra1" "ra_insert_all L as ra1 = Inr ra'"
    using Cons.prems(2) by (auto simp: a rbind_eq_Inr)
  have "base_privilege L p \<noteq> NO_ACCESS L" using Cons.prems(3) by (simp add: a)
  note step = ra_inv_insert [OF assms(1) Cons.prems(1) this ra1(1)]
  then show ?case using Cons.IH [of "insert a A" ra1] ra1(2) Cons.prems(3) by (simp add: a)
qed simp

text \<open>The requirements of a region stand in the list from its offset on.\<close>

lemma analyze_entries_lookup:
  fixes populate :: "nat \<Rightarrow> field_set \<Rightarrow> 'a list"
  assumes "\<And>r fs. length (populate r fs) = num_requirements fs"
  shows "map_of es r = Some (fs, o') \<Longrightarrow>
    \<exists>off. map_of (analyze_entries L n es) r = Some (coalesce L fs, n + off) \<and>
      (\<forall>i < num_requirements (coalesce L fs).
         let reqs = concat (map (\<lambda>(r, fs, o'). populate r fs) (analyze_entries L n es))
         in off + i < length reqs \<and> reqs ! (off + i) = populate r (coalesce L fs) ! i)"
proof (induction es arbitrary: n)
  case (Cons e es)
  obtain s gs u where e: "e = (s, gs, u)" by (cases e)
  show ?case
  proof (cases "s = r")
    case True
    then show ?thesis using Cons.prems
      by (intro exI [of _ 0]) (auto simp: e assms nth_append Let_def)
  next
    case False
    let ?k = "num_requirements (coalesce L gs)"
    obtain off where off: "map_of (analyze_entries L (n + ?k) es) r = Some (coalesce L fs, n + ?k + off)"
      "\<forall>i < num_requirements (coalesce L fs).
         let reqs = concat (map (\<lambda>(r, fs, o'). populate r fs) (analyze_entries L (n + ?k) es))
         in off + i < length reqs \<and> reqs ! (off + i) = populate r (coalesce L fs) ! i"
      using Cons.IH [of "n + ?k"] Cons.prems False by (auto simp: e)
    show ?thesis using off False
      by (intro exI [of _ "?k + off"]) (simp add: e assms nth_append Let_def add.assoc)
  qed
qed simp

lemma fs_populate_length: "length (fs_populate_launcher L par single r fs) = num_requirements fs"
  by (simp add: fs_populate_launcher_def num_requirements_def)

lemma fs_populate_nth:
  assumes "i < num_requirements fs" "fs_coalesced fs ! i = ((key, proj), fids, d)" "d \<longrightarrow> key OR DISCARD_OUTPUT_MASK L = key"
  shows "rr_region (fs_populate_launcher L par single r fs ! i) = r \<and>
    rr_fields (fs_populate_launcher L par single r fs ! i) = fids \<and>
    rr_privilege (fs_populate_launcher L par single r fs ! i) = key \<and>
    rr_partition (fs_populate_launcher L par single r fs ! i) =
      (if single then None else map_option (\<lambda>part. (part, fst (snd proj))) (fst proj))"
proof -
  obtain part proj_id redop where "proj = (part, proj_id, redop)" by (cases proj)
  moreover have "(if d then key OR DISCARD_OUTPUT_MASK L else key) = key" using assms(3) by simp
  ultimately show ?thesis using assms(1,2)
    by (auto simp: fs_populate_launcher_def num_requirements_def Let_def create_requirement_def
        create_requirement_single_def create_requirement_index_def split: option.split)
qed

lemma ps_one_projection:
  assumes "privileges_ok L" "ps_inv L False A ps" "(p, proj) \<in> A" "(q, proj') \<in> A" "base_privilege L p \<noteq> READ_ONLY L"
  shows "proj' = proj"
proof -
  have "ps_privilege ps \<noteq> READ_ONLY L" using ps_inv_access(2) [OF assms(2,3)] assms(1,5) by (auto simp: privileges_ok_def)
  then have "length (ps_projs ps) \<le> 1" using assms(2,3) unfolding ps_inv_def by blast
  then show ?thesis using ps_inv_access(1) [OF assms(2,3)] ps_inv_access(1) [OF assms(2,4)]
    by (cases "ps_projs ps") auto
qed

lemma requirement_index:
  fixes par :: "nat \<Rightarrow> nat" and single :: bool
  assumes "privileges_ok L" "ra_insert_all L as (ra_start relax) = Inr ra"
    and "\<forall>(r, f, p, proj) \<in> set as. base_privilege L p \<noteq> NO_ACCESS L"
    and "mask_consistent L {a. (r, f, a) \<in> set as}" "(r, f, p, proj) \<in> set as"
  defines "ra' \<equiv> ra_analyze_requirements L ra"
  defines "reqs \<equiv> ra_populate_launcher L par single ra'"
  shows "(\<exists>i. ra_get_requirement_index L r p proj f ra' = Inr i \<and> i < length reqs \<and>
       rr_region (reqs ! i) = r \<and> f \<in> set (rr_fields (reqs ! i)) \<and> suffices L p (rr_privilege (reqs ! i)) \<and>
       rr_partition (reqs ! i) = (if single then None else map_option (\<lambda>part. (part, fst (snd proj))) (fst proj))) \<and>
    (\<not> relax \<and> base_privilege L p \<noteq> READ_ONLY L \<longrightarrow> (\<forall>q proj'. (r, f, q, proj') \<in> set as \<longrightarrow> proj' = proj))"
proof -
  have inv: "ra_inv L (set as) ra" "ra_relax ra = relax"
    using ra_inv_insert_all [OF assms(1,3) ra_inv_start assms(2)] by simp_all
  let ?A = "{a. (r, a) \<in> set as}"
  have fs: "fs_inv L relax ?A (fst (omap_get (field_set_default, 0) r (ra_field_sets ra)))"
    using inv by (simp add: ra_inv_def)
  have A: "(f, p, proj) \<in> ?A" "(p, proj) \<in> {a. (f, a) \<in> ?A}" "{a. (f, a) \<in> ?A} = {a. (r, f, a) \<in> set as}"
    using assms(5) by auto
  have ps: "ps_inv L relax {a. (f, a) \<in> ?A}
      (omap_get projection_set_default f (fs_projs (fst (omap_get (field_set_default, 0) r (ra_field_sets ra)))))"
    using fs by (simp add: fs_inv_def)
  have "map_of (ra_field_sets ra) r \<noteq> None"
    using ps_inv_access(1) [OF ps A(2)]
    by (auto simp: omap_get_def field_set_default_def projection_set_default_def split: option.splits)
  then obtain fs off where g: "map_of (ra_field_sets ra) r = Some (fs, off)" by auto
  have "fs_inv L relax ?A fs" using fs by (simp add: omap_get_Some [OF g])
  from field_set_index [OF this _ A(1)] obtain i key fids d where
    i: "fs_get_requirement_index L p proj f (coalesce L fs) = Inr i" "i < num_requirements (coalesce L fs)"
    "fs_coalesced (coalesce L fs) ! i = ((key, proj), fids, d)" "f \<in> set fids" "suffices L p key"
    "d \<longrightarrow> key OR DISCARD_OUTPUT_MASK L = key"
    using assms(4) unfolding A(3) by blast
  obtain off where off: "map_of (ra_field_sets ra') r = Some (coalesce L fs, off)" "off + i < length reqs"
    "reqs ! (off + i) = fs_populate_launcher L par single r (coalesce L fs) ! i"
    using analyze_entries_lookup [where populate = "fs_populate_launcher L par single" and L = L and n = 0, OF fs_populate_length g] i(2)
    by (auto simp: ra'_def reqs_def ra_analyze_requirements_def ra_populate_launcher_def Let_def)
  have "ra_get_requirement_index L r p proj f ra' = Inr (off + i)"
    by (simp add: ra_get_requirement_index_def off(1) i(1))
  then have index: "\<exists>i. ra_get_requirement_index L r p proj f ra' = Inr i \<and> i < length reqs \<and>
      rr_region (reqs ! i) = r \<and> f \<in> set (rr_fields (reqs ! i)) \<and> suffices L p (rr_privilege (reqs ! i)) \<and>
      rr_partition (reqs ! i) = (if single then None else map_option (\<lambda>part. (part, fst (snd proj))) (fst proj))"
    using off(2) fs_populate_nth [OF i(2,3,6), of par single r] i(4,5)
    by (intro exI [of _ "off + i"]) (simp add: off(3))
  have "proj' = proj" if "\<not> relax" "base_privilege L p \<noteq> READ_ONLY L" "(r, f, q, proj') \<in> set as" for q proj'
    using ps that A(2) by (intro ps_one_projection [OF assms(1)]) auto
  with index show ?thesis by blast
qed

text \<open>C23: After a launcher has inserted and analyzed its accesses to region fields, the index that it packs for an access
  names a requirement in the list it hands to Legion that covers the region and the field of the access, with its
  partition and projection, and with its privilege or read-write privilege (with the mask for discarded outputs where an
  access has it). This is under two conditions: no access has the privilege of no access, and no two accesses to a field
  differ only in the mask (\<open>mask_mismatch_aborts\<close> shows the lookup failing otherwise). A launcher that does not relax its
  interference checks, moreover, accesses a field through one projection only if one of the accesses is not read-only;
  nothing like that holds of one that relaxes them.\<close>

theorem requirement_index_correct:
  fixes par :: "nat \<Rightarrow> nat" and single :: bool
  assumes "privileges_ok L" "ra_insert_all L as (ra_start relax) = Inr ra"
    and "\<forall>(r, f, p, proj) \<in> set as. base_privilege L p \<noteq> NO_ACCESS L"
    and "mask_consistent L {a. (r, f, a) \<in> set as}" "(r, f, p, proj) \<in> set as"
  defines "ra' \<equiv> ra_analyze_requirements L ra"
  defines "reqs \<equiv> ra_populate_launcher L par single ra'"
  shows "(\<exists>i. ra_get_requirement_index L r p proj f ra' = Inr i \<and> i < length reqs \<and>
       rr_region (reqs ! i) = r \<and> f \<in> set (rr_fields (reqs ! i)) \<and> suffices L p (rr_privilege (reqs ! i)) \<and>
       rr_partition (reqs ! i) = (if single then None else map_option (\<lambda>part. (part, fst (snd proj))) (fst proj))) \<and>
    (\<not> relax \<and> base_privilege L p \<noteq> READ_ONLY L \<longrightarrow> (\<forall>q proj'. (r, f, q, proj') \<in> set as \<longrightarrow> proj' = proj))"
  unfolding ra'_def reqs_def by (rule requirement_index [OF assms(1-5)])

text \<open>The values of Legion's privilege modes, for examples.\<close>

definition legion_privileges :: privileges where
  "legion_privileges = \<lparr>NO_ACCESS = 0, READ_ONLY = 1, READ_WRITE = 7, WRITE_ONLY = 0x10000002, REDUCE = 4,
     WRITE_PRIV = 2, DISCARD_OUTPUT_MASK = 0x20000000\<rparr>"

lemmas legion_privilege_simps =
  legion_privileges_def has_privilege_def ignore_privilege_def base_privilege_def

lemmas analyzer_simps =
  legion_privilege_simps ra_insert_def field_set_insert_def projection_set_insert_def omap_get_def
  projection_set_default_def field_set_default_def

lemma requirement_index_correct_witness:
  "\<exists>ra i. ra_insert_all legion_privileges
      [(1, 10, 1, (Some 5, 2, - 1)), (1, 10, 0x10000002, (Some 5, 2, - 1)), (0, 11, 1, (None, 0, - 1))] (ra_start False) = Inr ra \<and>
    ra_get_requirement_index legion_privileges 1 1 (Some 5, 2, - 1) 10 (ra_analyze_requirements legion_privileges ra) = Inr i"
proof -
  let ?as = "[(1, 10, 1, (Some 5, 2, - 1)), (1, 10, 0x10000002, (Some 5, 2, - 1)), (0, 11, 1, (None, 0, - 1))] ::
    (nat \<times> u32 \<times> u32 \<times> store_projection) list"
  have "\<exists>ra. ra_insert_all legion_privileges ?as (ra_start False) = Inr ra"
    by (simp add: analyzer_simps)
  then obtain ra where ra: "ra_insert_all legion_privileges ?as (ra_start False) = Inr ra" by blast
  have ok: "privileges_ok legion_privileges" by (simp add: privileges_ok_def legion_privileges_def)
  have "\<forall>(r, f, p, proj) \<in> set ?as. base_privilege legion_privileges p \<noteq> NO_ACCESS legion_privileges"
    by (simp add: legion_privilege_simps)
  moreover have "mask_consistent legion_privileges {a. (1, 10, a) \<in> set ?as}"
    by (auto simp: mask_consistent_def legion_privilege_simps)
  moreover have "(1, 10, 1, (Some 5, 2, - 1)) \<in> set ?as" by simp
  ultimately show ?thesis using requirement_index_correct [OF ok ra] ra by meson
qed

text \<open>The hypothesis on the mask is needed: when a task writes a field with and without it, the index of the
  access without it is not found, and the process aborts. A field first inserted with no access keeps
  that privilege.\<close>

lemma mask_mismatch_aborts:
  "\<exists>ra. ra_insert_all legion_privileges [(0, 10, 0x10000002, (None, 0, - 1)), (0, 10, 0x30000002, (None, 0, - 1))] (ra_start False) = Inr ra \<and>
    ra_get_requirement_index legion_privileges 0 0x10000002 (None, 0, - 1) 10 (ra_analyze_requirements legion_privileges ra) = Inl CheckFailed"
  by (simp add: analyzer_simps ra_get_requirement_index_def ra_analyze_requirements_def coalesce_def coalesce_field_def
      omap_alter_def index_entries_def fs_get_requirement_index_def Let_def)

section \<open>Output requirements and futures\<close>

lemma number_handles_correct:
  assumes "number_handles hs (indices, coalesced, n + length coalesced) = (indices', coalesced', n')"
    and "\<forall>h i. indices h = Some i \<longrightarrow> n \<le> i \<and> i - n < length coalesced \<and> coalesced ! (i - n) = h"
  shows "(\<forall>h i. indices' h = Some i \<longrightarrow> n \<le> i \<and> i - n < length coalesced' \<and> coalesced' ! (i - n) = h) \<and>
    (\<forall>h \<in> set hs \<union> dom indices. indices' h \<noteq> None) \<and> n' = n + length coalesced'"
  using assms
proof (induction hs arbitrary: indices coalesced)
  case (Cons h hs)
  show ?case
  proof (cases "indices h")
    case None
    then have a: "number_handles hs (indices(h \<mapsto> n + length coalesced), coalesced @ [h], n + length (coalesced @ [h])) = (indices', coalesced', n')"
      using Cons.prems(1) by simp
    have b: "\<forall>h' i. (indices(h \<mapsto> n + length coalesced)) h' = Some i \<longrightarrow>
        n \<le> i \<and> i - n < length (coalesced @ [h]) \<and> (coalesced @ [h]) ! (i - n) = h'"
      using Cons.prems(2) by (auto simp: nth_append less_Suc_eq)
    from Cons.IH [OF a b] show ?thesis by auto
  next
    case (Some i)
    then show ?thesis using Cons.prems Cons.IH [of indices coalesced] by auto
  qed
qed auto

lemma futures_index:
  assumes "fa = analyze_futures (sa_fut store_analyzer_default\<lparr>fa_futures := fs, fa_future_maps := ms\<rparr>)"
  shows "(\<forall>h \<in> set fs. \<exists>i. fa_get_index h fa = Inr i \<and> i < length (fa_coalesced fa) \<and> fa_coalesced fa ! i = h) \<and>
    (\<forall>h \<in> set ms. \<exists>i. fa_get_map_index h fa = Inr i \<and> length (fa_coalesced fa) \<le> i \<and>
       i < length (fa_coalesced fa @ fa_coalesced_maps fa) \<and> (fa_coalesced fa @ fa_coalesced_maps fa) ! i = h)"
proof -
  obtain ind co n where f: "number_handles fs (Map.empty, [], 0) = (ind, co, n)" by (cases "number_handles fs (Map.empty, [], 0)")
  obtain mind mco k where m: "number_handles ms (Map.empty, [], n) = (mind, mco, k)" by (cases "number_handles ms (Map.empty, [], n)")
  note nf = number_handles_correct [of fs Map.empty "[]" 0, simplified, OF f]
  have n: "n = length co" using nf by simp
  have "number_handles ms (Map.empty, [], length co + length []) = (mind, mco, k)" using m by (simp add: n)
  note nm = number_handles_correct [OF this, simplified]
  have fa: "fa_indices fa = ind" "fa_coalesced fa = co" "fa_map_indices fa = mind" "fa_coalesced_maps fa = mco"
    using f m by (simp_all add: assms analyze_futures_def store_analyzer_default_def)
  have "fa_get_index h fa = Inr i" if "ind h = Some i" for h i by (simp add: fa_get_index_def fa that)
  moreover have "fa_get_map_index h fa = Inr i" if "mind h = Some i" for h i by (simp add: fa_get_map_index_def fa that)
  ultimately show ?thesis using nf nm unfolding fa by (fastforce simp: nth_append)
qed

lemma enumerate_fold:
  fixes es :: "(nat \<times> 'k \<times> 'b) list"
  shows "distinct (map (fst \<circ> snd) es) \<Longrightarrow> (i, k, b) \<in> set es \<Longrightarrow>
    fold (\<lambda>(idx, k, b) m. m(k \<mapsto> g (m k) idx)) es m k = Some (g (m k) i)"
proof (induction es arbitrary: m)
  case (Cons e es)
  obtain j k' b' where e: "e = (j, k', b')" by (cases e)
  have other: "k \<notin> fst ` snd ` set es \<Longrightarrow> fold (\<lambda>(idx, k, b) m. m(k \<mapsto> g (m k) idx)) es m' k = m' k" for m'
    by (induction es arbitrary: m') auto
  show ?case
  proof (cases "(i, k, b) = e")
    case True
    then have k: "k' = k" "j = i" "k \<notin> fst ` snd ` set es" using Cons.prems(1) by (auto simp: e image_comp)
    show ?thesis unfolding e k(1,2) fold_simps prod.case other [OF k(3)] by simp
  next
    case False
    then have "(i, k, b) \<in> set es" using Cons.prems(2) by simp
    moreover have "k' \<noteq> k" using Cons.prems(1) \<open>(i, k, b) \<in> set es\<close> by (force simp: e)
    ultimately show ?thesis using Cons.IH [of "m(k' \<mapsto> g (m k') j)"] Cons.prems(1) by (simp add: e)
  qed
qed simp

definition oa_inv :: "(u32 \<times> nat \<times> u32 \<times> u32 \<times> nat) set \<Rightarrow> output_analyzer \<Rightarrow> bool" where
  "oa_inv A oa \<longleftrightarrow>
     omap_ok (oa_field_groups oa) \<and>
     (\<forall>space. map_of (oa_field_groups oa) space \<noteq> None \<longleftrightarrow> oa_req_infos oa space \<noteq> None) \<and>
     (\<forall>space i. oa_req_infos oa space = Some i \<longrightarrow> ri_dim i \<noteq> - 1) \<and>
     (\<forall>(dim, space, f, proj, cs) \<in> A. \<exists>fids i. map_of (oa_field_groups oa) space = Some fids \<and> f \<in> set fids \<and>
        oa_req_infos oa space = Some i \<and> ri_dim i = dim \<and> ri_proj_id i = proj \<and> ri_color_space i = cs)"

lemma oa_inv_insert:
  assumes "oa_inv A oa" "dim \<noteq> - 1" "oa_insert dim space f proj cs oa = Inr oa'"
  shows "oa_inv (insert (dim, space, f, proj, cs) A) oa'"
proof -
  let ?info = "case oa_req_infos oa space of None \<Rightarrow> req_info_default | Some i \<Rightarrow> i"
  have ok: "omap_ok (oa_field_groups oa)" using assms(1) by (simp add: oa_inv_def)
  have checks: "ri_dim ?info = - 1 \<or> ri_proj_id ?info = proj \<and> ri_color_space ?info = cs \<and> ri_dim ?info = dim"
    and oa': "oa' = \<lparr>oa_field_groups = omap_alter [] (oset_insert f) space (oa_field_groups oa),
      oa_req_infos = (oa_req_infos oa)(space \<mapsto> ?info\<lparr>ri_proj_id := proj, ri_color_space := cs, ri_dim := dim\<rparr>)\<rparr>"
    using assms(3) by (auto simp: oa_insert_def Let_def rguard_eq_Inr)
  have same: "d = dim \<and> p = proj \<and> c = cs" if "(d, space, g, p, c) \<in> A" for d g p c
    using assms(1) that checks by (fastforce simp: oa_inv_def)
  show ?thesis
    using assms(1,2) same
    by (fastforce simp: oa_inv_def oa' omap_ok_alter [OF ok] map_of_omap_alter [OF ok] omap_get_def split: option.splits)
qed

lemma oa_inv_insert_all:
  assumes "\<forall>(dim, space, f, proj, cs) \<in> set outs. dim \<noteq> - 1"
  shows "oa_inv A oa \<Longrightarrow> rfoldM (\<lambda>(dim, space, f, proj, cs). oa_insert dim space f proj cs) outs oa = Inr oa' \<Longrightarrow>
    oa_inv (A \<union> set outs) oa'"
  using assms
proof (induction outs arbitrary: A oa)
  case (Cons out outs)
  obtain dim space f proj cs where e: "out = (dim, space, f, proj, cs)" by (cases out)
  obtain oa1 where oa1: "oa_insert dim space f proj cs oa = Inr oa1"
    "rfoldM (\<lambda>(dim, space, f, proj, cs). oa_insert dim space f proj cs) outs oa1 = Inr oa'"
    using Cons.prems(2) by (auto simp: e rbind_eq_Inr)
  have "oa_inv (insert out A) oa1" unfolding e using Cons.prems by (intro oa_inv_insert [OF _ _ oa1(1)]) (auto simp: e)
  then show ?case using Cons.IH [of "insert out A", OF _ oa1(2)] Cons.prems(3) by simp
qed simp

lemma outputs_index:
  assumes "oa_inv A oa"
  shows "\<exists>reqs. populate_output_requirements (oa_analyze_requirements oa) = Inr reqs \<and>
    (\<forall>(dim, space, f, proj, cs) \<in> A. \<exists>i. oa_get_requirement_index space (oa_analyze_requirements oa) = Inr i \<and>
       i < length reqs \<and> or_field_space (reqs ! i) = space \<and> f \<in> set (or_fields (reqs ! i)) \<and>
       or_dim (reqs ! i) = dim \<and> or_projection (reqs ! i) = proj \<and> or_color_space (reqs ! i) = cs)"
proof -
  let ?groups = "oa_field_groups oa" and ?g = "\<lambda>v idx. (case v of None \<Rightarrow> req_info_default | Some i \<Rightarrow> i)\<lparr>ri_req_idx := idx\<rparr>"
  let ?es = "zip [0 ..< length ?groups] ?groups"
  let ?oa = "oa_analyze_requirements oa"
  have dist: "distinct (map fst ?groups)" using assms by (simp add: oa_inv_def omap_ok_distinct)
  have info: "oa_req_infos ?oa (fst (?groups ! i)) = Some (?g (oa_req_infos oa (fst (?groups ! i))) i)" if "i < length ?groups" for i
  proof -
    have "map (fst \<circ> snd) ?es = map fst ?groups" by (rule nth_equalityI) simp_all
    then have d: "distinct (map (fst \<circ> snd) ?es)" using dist by simp
    have "(i, fst (?groups ! i), snd (?groups ! i)) \<in> set ?es"
      using that unfolding in_set_zip by (intro exI [of _ i]) simp
    from enumerate_fold [where g = ?g, OF d this] show ?thesis by (simp add: oa_analyze_requirements_def)
  qed
  let ?req = "\<lambda>(space, fids). case oa_req_infos ?oa space of
      None \<Rightarrow> undefined | Some i \<Rightarrow> \<lparr>or_field_space = space, or_fields = fids, or_dim = ri_dim i,
        or_projection = ri_proj_id i, or_color_space = ri_color_space i\<rparr>"
  have groups: "oa_field_groups ?oa = ?groups" by (simp add: oa_analyze_requirements_def)
  have "oa_req_infos ?oa space \<noteq> None" if "(space, fids) \<in> set ?groups" for space fids
    using that info by (metis fst_conv in_set_conv_nth option.distinct(1))
  then have pop: "populate_output_requirements ?oa = Inr (map ?req ?groups)"
    unfolding populate_output_requirements_def groups by (intro rmapM_Inr) (auto split: option.split)
  have "\<exists>i. oa_get_requirement_index space ?oa = Inr i \<and> i < length (map ?req ?groups) \<and>
      or_field_space (map ?req ?groups ! i) = space \<and> f \<in> set (or_fields (map ?req ?groups ! i)) \<and>
      or_dim (map ?req ?groups ! i) = dim \<and> or_projection (map ?req ?groups ! i) = proj \<and> or_color_space (map ?req ?groups ! i) = cs"
    if member: "(dim, space, f, proj, cs) \<in> A" for dim space f proj cs
  proof -
    obtain fids inf where h: "map_of ?groups space = Some fids" "f \<in> set fids" "oa_req_infos oa space = Some inf"
      "ri_dim inf = dim" "ri_proj_id inf = proj" "ri_color_space inf = cs"
      using assms member by (fastforce simp: oa_inv_def)
    then obtain i where i: "i < length ?groups" "?groups ! i = (space, fids)" by (meson in_set_conv_nth map_of_SomeD)
    show ?thesis using info [OF i(1)] i h
      by (intro exI [of _ i]) (simp add: oa_get_requirement_index_def)
  qed
  with pop show ?thesis by (intro exI [of _ "map ?req ?groups"]) blast
qed

text \<open>C33: Where the index that a launcher packs for a future, a future map or an unbound store leads. The futures of a task
  are the futures of the launcher, the futures \<open>extra\<close> that it adds behind them (two barriers, or none), its point
  futures, and \<open>comms\<close>. The index of a future is its position there. The index of a future map is its position without
  the extra futures: with them the future map is \<open>length extra\<close> places further back, and the index is that much too
  small (see \<open>barrier_shifts_future_maps\<close>). The index of an unbound store is the position of an output requirement for
  its field space that lists its field.\<close>

theorem handle_index_correct:
  fixes fs ms extra comms :: "nat list" and outs :: "(u32 \<times> nat \<times> u32 \<times> u32 \<times> nat) list"
  defines "fa \<equiv> analyze_futures (sa_fut store_analyzer_default\<lparr>fa_futures := fs, fa_future_maps := ms\<rparr>)"
  defines "futures \<equiv> fst (fa_populate_index fa) @ extra @ snd (fa_populate_index fa) @ comms"
  assumes "rfoldM (\<lambda>(dim, space, f, proj, cs). oa_insert dim space f proj cs) outs (sa_out store_analyzer_default) = Inr oa"
    and "\<forall>(dim, space, f, proj, cs) \<in> set outs. dim \<noteq> - 1"
  shows "(\<forall>h \<in> set fs. \<exists>i. fa_get_index h fa = Inr i \<and> i < length (fst (fa_populate_index fa)) \<and> futures ! i = h) \<and>
    (\<forall>h \<in> set ms. \<exists>i. fa_get_map_index h fa = Inr i \<and> length (fst (fa_populate_index fa)) \<le> i \<and>
       i + length extra < length futures - length comms \<and> futures ! (i + length extra) = h) \<and>
    (\<exists>reqs. populate_output_requirements (oa_analyze_requirements oa) = Inr reqs \<and>
       (\<forall>(dim, space, f, proj, cs) \<in> set outs. \<exists>i. oa_get_requirement_index space (oa_analyze_requirements oa) = Inr i \<and>
          i < length reqs \<and> or_field_space (reqs ! i) = space \<and> f \<in> set (or_fields (reqs ! i)) \<and>
          or_dim (reqs ! i) = dim \<and> or_projection (reqs ! i) = proj \<and> or_color_space (reqs ! i) = cs))"
proof -
  let ?co = "fa_coalesced fa" and ?maps = "fa_coalesced_maps fa"
  have futs: "futures = ?co @ extra @ ?maps @ comms" "fst (fa_populate_index fa) = ?co"
    by (simp_all add: futures_def fa_populate_index_def)
  note index = futures_index [OF fa_def [THEN meta_eq_to_obj_eq]]
  have "\<exists>i. fa_get_index h fa = Inr i \<and> i < length ?co \<and> futures ! i = h" if h: "h \<in> set fs" for h
  proof -
    obtain i where "fa_get_index h fa = Inr i" "i < length ?co" "?co ! i = h" using bspec [OF conjunct1 [OF index] h] by blast
    then show ?thesis by (auto simp: futs nth_append)
  qed
  moreover have "\<exists>i. fa_get_map_index h fa = Inr i \<and> length ?co \<le> i \<and> i + length extra < length futures - length comms \<and>
      futures ! (i + length extra) = h" if h: "h \<in> set ms" for h
  proof -
    obtain i where i: "fa_get_map_index h fa = Inr i" "length ?co \<le> i" "i < length (?co @ ?maps)" "(?co @ ?maps) ! i = h"
      using bspec [OF conjunct2 [OF index] h] by blast
    then show ?thesis by (auto simp: futs nth_append intro!: exI [of _ i])
  qed
  moreover have "oa_inv {} (sa_out store_analyzer_default)" by (simp add: oa_inv_def store_analyzer_default_def)
  from oa_inv_insert_all [OF assms(4) this assms(3)] have "oa_inv (set outs) oa" by simp
  note outputs_index [OF this]
  ultimately show ?thesis unfolding futs(2) by blast
qed

lemma handle_index_correct_witness:
  "(\<exists>i. fa_get_map_index 9 (analyze_futures (sa_fut store_analyzer_default\<lparr>fa_futures := [4, 5, 4], fa_future_maps := [9]\<rparr>)) = Inr i) \<and>
   (\<exists>oa. rfoldM (\<lambda>(dim, space, f, proj, cs). oa_insert dim space f proj cs)
      [(1, 7, 10, 0, 3), (2, 6, 11, 0, 3), (1, 7, 12, 0, 3)] (sa_out store_analyzer_default) = Inr oa)"
proof -
  let ?outs = "[(1, 7, 10, 0, 3), (2, 6, 11, 0, 3), (1, 7, 12, 0, 3)] :: (u32 \<times> nat \<times> u32 \<times> u32 \<times> nat) list"
  have "\<exists>oa. rfoldM (\<lambda>(dim, space, f, proj, cs). oa_insert dim space f proj cs) ?outs (sa_out store_analyzer_default) = Inr oa"
    by (simp add: store_analyzer_default_def oa_insert_def req_info_default_def Let_def)
  then obtain oa where oa: "rfoldM (\<lambda>(dim, space, f, proj, cs). oa_insert dim space f proj cs) ?outs (sa_out store_analyzer_default) = Inr oa"
    by blast
  have "\<forall>(dim, space, f, proj, cs) \<in> set ?outs. dim \<noteq> - 1" by simp
  from handle_index_correct [OF oa this, of "[4, 5, 4]" "[9]" "[20, 21]" "[]"] oa show ?thesis by auto
qed

end
