(* ===== verification/TaskArguments.thy ===== *)
theory TaskArguments
  imports SerializationCorrect StoreAnalyzer
begin

text \<open>
  The arguments of a task on both sides of a launch: the arguments a launcher analyzes and packs
  (operation/detail/launcher_arg, operation/detail/task_launcher, \<open>LogicalStore::pack\<close>), and what the task
  and the mapper read from the buffer (\<open>TaskDeserializer\<close> of utilities/detail/deserializer.cc in its two
  versions, task/detail/legion_task_body, mapping/detail/operation).

  \<^item> \<open>store_view\<close> holds what an argument reads from a logical store and its storage.
  \<^item> A task receives its region requirements, output requirements and futures in the order of the
    launcher; a physical region stands for the requirement at its position. The futures of a task of an
    index launch are those of the launcher and then the point futures; the future of a future map at
    the point of the task has the number of the map.
  \<^item> The values of the privileges, the parents of regions and the two barriers that
    \<open>Runtime::create_barriers\<close> returns are parameters. Pointers (\<open>Library*\<close>, \<open>TaskInfo*\<close>) are 64-bit values.
\<close>

section \<open>Store arguments\<close>

record store_view =
  sv_scalar :: bool
  sv_unbound :: bool
  sv_dim :: nat
  sv_type :: ltype
  sv_transform :: transform_stack
  sv_region :: nat
  sv_field :: u32
  sv_storage_dim :: nat
  sv_extents :: "u64 list"

datatype store_arg =
    RegionFieldArg store_view u32 store_projection
  | OutputRegionArg store_view nat u32 u32 nat
  | ScalarStoreArg store_view nat u64 bool int
  | ReplicatedScalarStoreArg store_view nat u64 bool
  | WriteOnlyScalarStoreArg store_view int

definition logical_store_pack :: "store_view \<Rightarrow> packer" where
  "logical_store_pack v =
     pseq (pack_bool (sv_scalar v)) (pseq (pack_bool (sv_unbound v)) (pseq (pack_word (of_nat (sv_dim v) :: u32))
       (pseq (pack_type (sv_type v)) (stack_pack (sv_transform v)))))"

definition pack_i32 :: "int \<Rightarrow> packer" where
  "pack_i32 i = pack_word (word_of_int i :: u32)"

definition plift :: "'a result \<Rightarrow> ('a \<Rightarrow> packer) \<Rightarrow> packer" where
  "plift m f b = rbind m (\<lambda>x. f x b)"

definition region_field_arg_pack :: "privileges \<Rightarrow> store_analyzer \<Rightarrow> store_view \<Rightarrow> u32 \<Rightarrow> store_projection \<Rightarrow> packer" where
  "region_field_arg_pack L analyzer v privilege proj =
     pseq (logical_store_pack v) (pseq (pack_i32 (snd (snd proj))) (pseq (pack_i32 (int (sv_storage_dim v)))
       (pseq (plift (ra_get_requirement_index L (sv_region v) privilege proj (sv_field v) (sa_req analyzer)) (\<lambda>i. pack_word (of_nat i :: u32)))
         (pack_word (sv_field v)))))"

definition output_region_arg_pack :: "store_analyzer \<Rightarrow> store_view \<Rightarrow> nat \<Rightarrow> u32 \<Rightarrow> packer" where
  "output_region_arg_pack analyzer v field_space field_id =
     pseq (logical_store_pack v) (pseq (pack_i32 (- 1)) (pseq (pack_word (of_nat (sv_dim v) :: u32))
       (pseq (plift (oa_get_requirement_index field_space (sa_out analyzer)) (\<lambda>i. pack_word (of_nat i :: u32)))
         (pack_word field_id))))"

text \<open>The fields of a scalar store behind its header.\<close>

definition scalar_fields_pack :: "bool \<Rightarrow> int result \<Rightarrow> store_view \<Rightarrow> u64 \<Rightarrow> u64 list \<Rightarrow> packer" where
  "scalar_fields_pack read_only index v offset extents =
     pseq (pack_bool read_only) (pseq (plift index pack_i32) (pseq (plift (type_size (sv_type v)) pack_word)
       (pseq (pack_word (type_alignment (sv_type v))) (pseq (pack_word offset) (pack_span extents)))))"

definition scalar_store_arg_pack :: "store_analyzer \<Rightarrow> store_view \<Rightarrow> nat \<Rightarrow> u64 \<Rightarrow> bool \<Rightarrow> int \<Rightarrow> packer" where
  "scalar_store_arg_pack analyzer v future offset read_only redop =
     pseq (logical_store_pack v) (pseq (pack_i32 redop)
       (scalar_fields_pack read_only (rbind (fa_get_index future (sa_fut analyzer)) (\<lambda>i. Inr (int i))) v offset (sv_extents v)))"

definition replicated_scalar_store_arg_pack :: "store_analyzer \<Rightarrow> store_view \<Rightarrow> nat \<Rightarrow> u64 \<Rightarrow> bool \<Rightarrow> packer" where
  "replicated_scalar_store_arg_pack analyzer v future_map offset read_only =
     pseq (logical_store_pack v) (pseq (pack_i32 (- 1))
       (scalar_fields_pack read_only (rbind (fa_get_map_index future_map (sa_fut analyzer)) (\<lambda>i. Inr (int i))) v offset (sv_extents v)))"

definition write_only_scalar_store_arg_pack :: "store_view \<Rightarrow> int \<Rightarrow> packer" where
  "write_only_scalar_store_arg_pack v redop =
     pseq (logical_store_pack v) (pseq (pack_i32 redop)
       (scalar_fields_pack False (Inr (- 1)) v 0 (if sv_unbound v then [1] else sv_extents v)))"

fun arg_pack :: "privileges \<Rightarrow> store_analyzer \<Rightarrow> store_arg \<Rightarrow> packer" where
  "arg_pack L sa (RegionFieldArg v privilege proj) = region_field_arg_pack L sa v privilege proj"
| "arg_pack L sa (OutputRegionArg v field_space field_id proj_id color_space) = output_region_arg_pack sa v field_space field_id"
| "arg_pack L sa (ScalarStoreArg v future offset read_only redop) = scalar_store_arg_pack sa v future offset read_only redop"
| "arg_pack L sa (ReplicatedScalarStoreArg v future_map offset read_only) = replicated_scalar_store_arg_pack sa v future_map offset read_only"
| "arg_pack L sa (WriteOnlyScalarStoreArg v redop) = write_only_scalar_store_arg_pack v redop"

fun arg_analyze :: "privileges \<Rightarrow> store_arg \<Rightarrow> store_analyzer \<Rightarrow> store_analyzer result" where
  "arg_analyze L (RegionFieldArg v privilege proj) sa =
     rbind (ra_insert L (sv_region v) (sv_field v) privilege proj (sa_req sa)) (\<lambda>ra. Inr (sa\<lparr>sa_req := ra\<rparr>))"
| "arg_analyze L (OutputRegionArg v field_space field_id proj_id color_space) sa =
     rbind (oa_insert (of_nat (sv_dim v)) field_space field_id proj_id color_space (sa_out sa)) (\<lambda>oa. Inr (sa\<lparr>sa_out := oa\<rparr>))"
| "arg_analyze L (ScalarStoreArg v future offset read_only redop) sa = Inr (sa\<lparr>sa_fut := fa_insert future (sa_fut sa)\<rparr>)"
| "arg_analyze L (ReplicatedScalarStoreArg v future_map offset read_only) sa = Inr (sa\<lparr>sa_fut := fa_insert_map future_map (sa_fut sa)\<rparr>)"
| "arg_analyze L (WriteOnlyScalarStoreArg v redop) sa = Inr sa"

section \<open>Stores of a task\<close>

record legion_task =
  tk_is_index :: bool
  tk_tree_reduce :: bool
  tk_no_region :: nat
  tk_regions :: "region_requirement list"
  tk_outputs :: "output_requirement list"
  tk_futures :: "nat list"

record future_wrapper =
  fw_read_only :: bool
  fw_field_size :: u32
  fw_field_alignment :: u32
  fw_field_offset :: u64
  fw_domain :: domain
  fw_future :: "nat option"
  fw_identity :: "int option"

record region_field =
  rf_dim :: int
  rf_requirement :: region_requirement
  rf_field :: u32
  rf_partitioned :: bool

record unbound_region_field =
  uf_output :: output_requirement
  uf_field :: u32

datatype physical_store =
    FuturePhysicalStore int ltype int future_wrapper transform_stack
  | RegionPhysicalStore int ltype int region_field transform_stack
  | UnboundPhysicalStore int ltype unbound_region_field transform_stack

definition unpack_i32 :: "int unpacker" where
  "unpack_i32 = ubind unpack_word (\<lambda>w :: u32. ureturn (sint w))"

definition unpack_future_wrapper :: "legion_task \<Rightarrow> future_wrapper unpacker" where
  "unpack_future_wrapper task =
     ubind unpack_bool (\<lambda>read_only. ubind unpack_i32 (\<lambda>future_index. ubind unpack_word (\<lambda>field_size.
       ubind unpack_word (\<lambda>field_alignment. ubind unpack_word (\<lambda>field_offset. ubind unpack_domain (\<lambda>domain.
         ulift (rbind (if 0 \<le> future_index then rbind (vec_get (tk_futures task) (nat future_index)) (\<lambda>f. Inr (Some f)) else Inr None) (\<lambda>future.
           Inr \<lparr>fw_read_only = read_only, fw_field_size = field_size, fw_field_alignment = field_alignment,
                fw_field_offset = field_offset, fw_domain = domain, fw_future = future, fw_identity = None\<rparr>))))))))"

definition unpack_region_field :: "legion_task \<Rightarrow> region_field unpacker" where
  "unpack_region_field task =
     ubind unpack_i32 (\<lambda>dim. ubind unpack_word (\<lambda>idx :: u32. ubind unpack_word (\<lambda>fid.
       ulift (rbind (vec_get (tk_regions task) (unat idx)) (\<lambda>req.
         Inr \<lparr>rf_dim = dim, rf_requirement = req, rf_field = fid, rf_partitioned = (rr_partition req \<noteq> None)\<rparr>)))))"

definition unpack_unbound_region_field :: "legion_task \<Rightarrow> unbound_region_field unpacker" where
  "unpack_unbound_region_field task =
     ubind unpack_i32 (\<lambda>dim. ubind unpack_word (\<lambda>idx :: u32. ubind unpack_word (\<lambda>fid.
       ulift (rbind (vec_get (tk_outputs task) (unat idx)) (\<lambda>req. Inr \<lparr>uf_output = req, uf_field = fid\<rparr>)))))"

definition initialize_with_identity :: "int \<Rightarrow> future_wrapper \<Rightarrow> future_wrapper result" where
  "initialize_with_identity redop fut =
     rguard (\<not> fw_read_only fut) CheckFailed (Inr (fut\<lparr>fw_identity := Some redop\<rparr>))"

definition unpack_store :: "legion_task \<Rightarrow> physical_store unpacker" where
  "unpack_store task =
     ubind unpack_bool (\<lambda>is_future. ubind unpack_bool (\<lambda>unbound. ubind unpack_i32 (\<lambda>dim.
       ubind unpack_type (\<lambda>type. ubind unpack_transform (\<lambda>transform. ubind unpack_i32 (\<lambda>redop_id.
         if is_future then
           ubind (unpack_future_wrapper task) (\<lambda>fut.
             ulift (rbind (if redop_id \<noteq> - 1 \<and> fw_future fut = None then initialize_with_identity redop_id fut else Inr fut) (\<lambda>fut.
               Inr (FuturePhysicalStore dim type redop_id fut transform))))
         else if \<not> unbound then
           ubind (unpack_region_field task) (\<lambda>rf. ureturn (RegionPhysicalStore dim type redop_id rf transform))
         else if redop_id \<noteq> - 1 then ulift (Inl CheckFailed)
         else ubind (unpack_unbound_region_field task) (\<lambda>out. ureturn (UnboundPhysicalStore dim type out transform))))))))"

definition unpack_stores :: "legion_task \<Rightarrow> physical_store list unpacker" where
  "unpack_stores task = unpack_vector (unpack_store task)"

section \<open>Stores of a mapper\<close>

text \<open>The mapper reads the same bytes; it keeps the requirement and its index, and of a future the index and
  the domain.\<close>

record mapper_region_field =
  mr_requirement :: "region_requirement + output_requirement"
  mr_dim :: int
  mr_index :: u32
  mr_field :: u32
  mr_unbound :: bool

datatype mapper_store =
    MapperFutureStore int ltype u32 domain transform_stack
  | MapperRegionStore int ltype int mapper_region_field bool transform_stack

definition unpack_mapper_region_field :: "legion_task \<Rightarrow> bool \<Rightarrow> mapper_region_field unpacker" where
  "unpack_mapper_region_field task unbound =
     ubind unpack_i32 (\<lambda>dim. ubind unpack_word (\<lambda>idx :: u32. ubind unpack_word (\<lambda>fid.
       ulift (rbind (if unbound then rbind (vec_get (tk_outputs task) (unat idx)) (\<lambda>r. Inr (Inr r))
                     else rbind (vec_get (tk_regions task) (unat idx)) (\<lambda>r. Inr (Inl r))) (\<lambda>req.
         Inr \<lparr>mr_requirement = req, mr_dim = dim, mr_index = idx, mr_field = fid, mr_unbound = unbound\<rparr>)))))"

definition unpack_mapper_future_wrapper :: "(u32 \<times> domain) unpacker" where
  "unpack_mapper_future_wrapper =
     ubind unpack_bool (\<lambda>read_only. ubind unpack_i32 (\<lambda>future_index. ubind unpack_word (\<lambda>field_size :: u32.
       ubind unpack_word (\<lambda>field_alignment :: u32. ubind unpack_word (\<lambda>field_offset :: u64. ubind unpack_domain (\<lambda>domain.
         ureturn (word_of_int future_index, domain)))))))"

definition unpack_mapper_store :: "legion_task \<Rightarrow> mapper_store unpacker" where
  "unpack_mapper_store task =
     ubind unpack_bool (\<lambda>is_future. ubind unpack_bool (\<lambda>unbound. ubind unpack_i32 (\<lambda>dim.
       ubind unpack_type (\<lambda>type. ubind unpack_transform (\<lambda>transform.
         if is_future then
           ubind unpack_i32 (\<lambda>redop_id. ubind unpack_mapper_future_wrapper (\<lambda>(idx, domain).
             ureturn (MapperFutureStore dim type idx domain transform)))
         else
           ubind unpack_i32 (\<lambda>redop_id. ubind (unpack_mapper_region_field task unbound) (\<lambda>rf.
             ureturn (MapperRegionStore dim type redop_id rf unbound transform))))))))"

section \<open>Launching a task\<close>

record task_launcher =
  tl_library :: u64
  tl_task_info :: u64
  tl_inputs :: "store_arg list"
  tl_outputs :: "store_arg list"
  tl_reductions :: "store_arg list"
  tl_scalars :: "scalar list"
  tl_future_size :: u64
  tl_can_throw :: bool
  tl_can_elide_sync :: bool
  tl_insert_barrier :: bool
  tl_communicators :: "nat list"
  tl_futures :: "nat list"
  tl_future_maps :: "nat list"
  tl_relax_checks :: bool
  tl_streaming :: "(u32 \<times> u32) option"
  tl_machine :: machine
  tl_key_projection :: u32
  tl_sharding :: u32
  tl_priority :: int

definition analyze_arguments :: "privileges \<Rightarrow> bool \<Rightarrow> task_launcher \<Rightarrow> store_analyzer result" where
  "analyze_arguments L parallel tsk =
     (let sa = store_analyzer_default\<lparr>sa_req := (sa_req store_analyzer_default)\<lparr>ra_relax := tl_relax_checks tsk\<rparr>\<rparr>
      in case rbind (rfoldM (arg_analyze L) (tl_inputs tsk) sa) (\<lambda>sa.
                rbind (rfoldM (arg_analyze L) (tl_outputs tsk) sa) (rfoldM (arg_analyze L) (tl_reductions tsk))) of
           Inl e \<Rightarrow> Inl (if e = InterferingStore then CheckFailed else e)
         | Inr sa \<Rightarrow>
             (let fa = fold fa_insert (tl_futures tsk) (sa_fut sa);
                  fa = (if parallel then fold fa_insert_map (tl_future_maps tsk) fa else fa)
              in Inr (sa_analyze L (sa\<lparr>sa_fut := fa\<rparr>))))"

definition pack_args :: "privileges \<Rightarrow> store_analyzer \<Rightarrow> store_arg list \<Rightarrow> packer" where
  "pack_args L sa args = pseq (pack_word (of_nat (length args) :: u32)) (pack_all (arg_pack L sa) args)"

definition pack_scalar_args :: "scalar list \<Rightarrow> packer" where
  "pack_scalar_args args = pseq (pack_word (of_nat (length args) :: u32)) (pack_all scalar_pack args)"

definition pack_task_arg :: "privileges \<Rightarrow> bool \<Rightarrow> store_analyzer \<Rightarrow> task_launcher \<Rightarrow> packer" where
  "pack_task_arg L parallel sa tsk =
     pseq (pack_word (tl_library tsk)) (pseq (pack_word (tl_task_info tsk))
       (pseq (pack_args L sa (tl_inputs tsk)) (pseq (pack_args L sa (tl_outputs tsk)) (pseq (pack_args L sa (tl_reductions tsk))
         (pseq (pack_scalar_args (tl_scalars tsk)) (pseq (pack_word (tl_future_size tsk)) (pseq (pack_bool (tl_can_throw tsk))
           (pseq (pack_bool (tl_can_elide_sync tsk))
             (if parallel
              then pseq (pack_bool (tl_insert_barrier tsk)) (pack_word (of_nat (length (tl_communicators tsk)) :: u32))
              else pseq (pack_bool False) (pack_word (0 :: u32)))))))))))"

definition pack_generation :: "u32 \<times> u32 \<Rightarrow> packer" where
  "pack_generation g = pseq (pack_word (fst g)) (pack_word (snd g))"

definition pack_mapper_arg :: "task_launcher \<Rightarrow> packer" where
  "pack_mapper_arg tsk =
     pseq (pack_optional pack_generation (tl_streaming tsk)) (pseq (pack_machine (tl_machine tsk))
       (pseq (pack_word (tl_key_projection tsk)) (pseq (pack_word (tl_sharding tsk)) (pack_i32 (tl_priority tsk)))))"

text \<open>What a launch hands to Legion: the two buffers, the requirements, the futures and the point futures.\<close>

record launch =
  ll_args :: "byte list"
  ll_mapper_args :: "byte list"
  ll_regions :: "region_requirement list"
  ll_outputs :: "output_requirement list"
  ll_futures :: "nat list"
  ll_point_futures :: "nat list"
  ll_local_function :: bool

definition empty_builder :: "nat \<Rightarrow> builder" where
  "empty_builder base = \<lparr>bb_base = base, bb_bytes = []\<rparr>"

definition execute ::
  "privileges \<Rightarrow> (nat \<Rightarrow> nat) \<Rightarrow> nat \<times> nat \<Rightarrow> nat \<times> nat \<Rightarrow> task_launcher \<Rightarrow> launch result" where
  "execute L find_parent_region barriers bases tsk =
     rbind (analyze_arguments L True tsk) (\<lambda>sa.
       rbind (pack_task_arg L True sa tsk (empty_builder (fst bases))) (\<lambda>task_arg.
         rbind (pack_mapper_arg tsk (empty_builder (snd bases))) (\<lambda>mapper_arg.
           rbind (populate_output_requirements (sa_out sa)) (\<lambda>outputs.
             (case fa_populate_index (sa_fut sa) of (futures, point_futures) \<Rightarrow>
                Inr \<lparr>ll_args = bb_bytes task_arg, ll_mapper_args = bb_bytes mapper_arg,
                     ll_regions = ra_populate_launcher L find_parent_region False (sa_req sa), ll_outputs = outputs,
                     ll_futures = futures @ (if tl_insert_barrier tsk then [fst barriers, snd barriers] else []),
                     ll_point_futures = point_futures @ tl_communicators tsk, ll_local_function = False\<rparr>)))))"

definition execute_single ::
  "privileges \<Rightarrow> (nat \<Rightarrow> nat) \<Rightarrow> bool \<Rightarrow> nat \<times> nat \<Rightarrow> task_launcher \<Rightarrow> launch result" where
  "execute_single L find_parent_region has_side_effect bases tsk =
     rbind (analyze_arguments L False tsk) (\<lambda>sa.
       rbind (pack_task_arg L False sa tsk (empty_builder (fst bases))) (\<lambda>task_arg.
         rbind (pack_mapper_arg tsk (empty_builder (snd bases))) (\<lambda>mapper_arg.
           rbind (populate_output_requirements (sa_out sa)) (\<lambda>outputs.
             rbind (fa_populate_single (sa_fut sa)) (\<lambda>futures.
               Inr \<lparr>ll_args = bb_bytes task_arg, ll_mapper_args = bb_bytes mapper_arg,
                    ll_regions = ra_populate_launcher L find_parent_region True (sa_req sa), ll_outputs = outputs,
                    ll_futures = futures, ll_point_futures = [],
                    ll_local_function = (\<not> has_side_effect \<and> can_be_local_function_task sa)\<rparr>)))))"

section \<open>What the task reads\<close>

record task_context =
  tc_inputs :: "physical_store list"
  tc_outputs :: "physical_store list"
  tc_reductions :: "physical_store list"
  tc_scalars :: "scalar list"
  tc_can_raise :: bool
  tc_can_elide_sync :: bool
  tc_barriers :: "(nat \<times> nat) option"
  tc_comms :: "nat list"

text \<open>Barriers and communicators are taken from the front of the futures of the deserializer.\<close>

definition take_future :: "nat list \<Rightarrow> (nat \<times> nat list) result" where
  "take_future futures = (case futures of [] \<Rightarrow> Inl OutOfBounds | f # fs \<Rightarrow> Inr (f, fs))"

fun take_futures :: "nat \<Rightarrow> nat list \<Rightarrow> (nat list \<times> nat list) result" where
  "take_futures 0 futures = Inr ([], futures)"
| "take_futures (Suc n) futures =
     rbind (take_future futures) (\<lambda>(f, futures). rbind (take_futures n futures) (\<lambda>(fs, futures). Inr (f # fs, futures)))"

definition unpack_synchronization :: "legion_task \<Rightarrow> ((nat \<times> nat) option \<times> nat list) unpacker" where
  "unpack_synchronization task =
     (if \<not> tk_is_index task then ureturn (None, [])
      else ubind unpack_bool (\<lambda>insert_barrier.
        ubind (ulift (if insert_barrier
            then rbind (take_future (tk_futures task)) (\<lambda>(arrival, futures). rbind (take_future futures) (\<lambda>(wait, futures).
              Inr (Some (arrival, wait), futures)))
            else Inr (None, tk_futures task))) (\<lambda>(barriers, futures).
          ubind unpack_word (\<lambda>size :: u32. ulift (rbind (take_futures (unat size) futures) (\<lambda>(comms, futures).
            Inr (barriers, comms)))))))"

text \<open>In a reduction tree, the inputs mapped to no region are filtered out.\<close>

fun store_valid :: "legion_task \<Rightarrow> physical_store \<Rightarrow> bool" where
  "store_valid task (RegionPhysicalStore dim type redop rf transform) = (rr_region (rf_requirement rf) \<noteq> tk_no_region task)"
| "store_valid task _ = True"

definition filter_inputs :: "legion_task \<Rightarrow> (legion_task \<Rightarrow> 'a \<Rightarrow> bool) \<Rightarrow> 'a list \<Rightarrow> 'a list" where
  "filter_inputs task valid inputs = (if tk_tree_reduce task then filter (valid task) inputs else inputs)"

definition unpack_task_context :: "legion_task \<Rightarrow> task_context unpacker" where
  "unpack_task_context task =
     ubind unpack_word (\<lambda>library :: u64. ubind unpack_word (\<lambda>task_info :: u64.
       ubind (unpack_stores task) (\<lambda>inputs. ubind (unpack_stores task) (\<lambda>outputs. ubind (unpack_stores task) (\<lambda>reductions.
         ubind (unpack_vector unpack_scalar) (\<lambda>scalars. ubind unpack_word (\<lambda>future_size :: u64.
           ubind unpack_bool (\<lambda>can_raise_exception. ubind unpack_bool (\<lambda>can_elide_device_ctx_sync.
             ubind (unpack_synchronization task) (\<lambda>(barriers, comms).
               ureturn \<lparr>tc_inputs = filter_inputs task store_valid inputs, tc_outputs = outputs, tc_reductions = reductions, tc_scalars = scalars,
                 tc_can_raise = can_raise_exception, tc_can_elide_sync = can_elide_device_ctx_sync,
                 tc_barriers = barriers, tc_comms = comms\<rparr>))))))))))"

section \<open>What the mapper reads\<close>

record mapper_task =
  mt_library :: u64
  mt_task_info :: u64
  mt_inputs :: "mapper_store list"
  mt_outputs :: "mapper_store list"
  mt_reductions :: "mapper_store list"
  mt_scalars :: "scalar list"
  mt_future_size :: u64
  mt_can_raise :: bool

fun mapper_store_valid :: "legion_task \<Rightarrow> mapper_store \<Rightarrow> bool" where
  "mapper_store_valid task (MapperRegionStore dim type redop rf unbound transform) =
     (unbound \<or> (case mr_requirement rf of Inl req \<Rightarrow> rr_region req \<noteq> tk_no_region task | Inr req \<Rightarrow> True))"
| "mapper_store_valid task (MapperFutureStore dim type idx domain transform) = True"

definition unpack_mapper_task :: "legion_task \<Rightarrow> mapper_task unpacker" where
  "unpack_mapper_task task =
     ubind unpack_word (\<lambda>library. ubind unpack_word (\<lambda>task_info.
       ubind (unpack_vector (unpack_mapper_store task)) (\<lambda>inputs. ubind (unpack_vector (unpack_mapper_store task)) (\<lambda>outputs.
         ubind (unpack_vector (unpack_mapper_store task)) (\<lambda>reductions. ubind (unpack_vector unpack_scalar) (\<lambda>scalars.
           ubind unpack_word (\<lambda>future_size. ubind unpack_bool (\<lambda>can_raise_exception.
             ureturn \<lparr>mt_library = library, mt_task_info = task_info, mt_inputs = filter_inputs task mapper_store_valid inputs, mt_outputs = outputs,
               mt_reductions = reductions, mt_scalars = scalars, mt_future_size = future_size,
               mt_can_raise = can_raise_exception\<rparr>))))))))"

record mappable =
  ma_streaming :: "(u32 \<times> u32) option"
  ma_machine :: machine
  ma_key_projection :: u32
  ma_sharding :: u32
  ma_priority :: int

definition unpack_generation :: "(u32 \<times> u32) unpacker" where
  "unpack_generation = ubind unpack_word (\<lambda>generation. ubind unpack_word (\<lambda>size. ureturn (generation, size)))"

definition unpack_mappable :: "mappable unpacker" where
  "unpack_mappable =
     ubind (unpack_optional unpack_generation) (\<lambda>streaming_gen. ubind unpack_machine (\<lambda>machine.
       ubind unpack_word (\<lambda>key_projection_id. ubind unpack_word (\<lambda>sharding_id. ubind unpack_i32 (\<lambda>priority.
         ureturn \<lparr>ma_streaming = streaming_gen, ma_machine = machine, ma_key_projection = key_projection_id,
           ma_sharding = sharding_id, ma_priority = priority\<rparr>)))))"

end
