(* ===== verification/TaskArgumentsCorrect.thy ===== *)
theory TaskArgumentsCorrect
  imports TaskArguments StoreAnalyzerCorrect
begin

text \<open>
  A task and its mapper read what the launcher packed: for each argument the store that \<open>arg_store\<close> and
  \<open>arg_mapper_store\<close> describe, with the region requirement, the output requirement or the future that the
  launcher meant, and the scalars and flags of the launcher.
\<close>

section \<open>One store argument\<close>

abbreviation i32_ok :: "int \<Rightarrow> bool" where
  "i32_ok i \<equiv> - (2 ^ 31) \<le> i \<and> i < 2 ^ 31"

definition view_ok :: "store_view \<Rightarrow> bool" where
  "view_ok v \<longleftrightarrow> dim_ok (sv_dim v) \<and> wf_type (sv_type v) \<and> list_all t_packable (sv_transform v) \<and>
     dim_ok (sv_storage_dim v) \<and> length (sv_extents v) < 2 ^ 32"

text \<open>The argument classes go with the kind of the store: scalar stores for futures, unbound stores for
  output regions.\<close>

fun arg_ok :: "store_arg \<Rightarrow> bool" where
  "arg_ok (RegionFieldArg v privilege proj) = (view_ok v \<and> \<not> sv_scalar v \<and> \<not> sv_unbound v \<and> i32_ok (snd (snd proj)))"
| "arg_ok (OutputRegionArg v field_space field_id proj_id color_space) = (view_ok v \<and> \<not> sv_scalar v \<and> sv_unbound v)"
| "arg_ok (ScalarStoreArg v future offset read_only redop) =
     (view_ok v \<and> sv_scalar v \<and> \<not> variable_size (sv_type v) \<and> i32_ok redop)"
| "arg_ok (ReplicatedScalarStoreArg v future_map offset read_only) = (view_ok v \<and> sv_scalar v \<and> \<not> variable_size (sv_type v))"
| "arg_ok (WriteOnlyScalarStoreArg v redop) = (view_ok v \<and> sv_scalar v \<and> \<not> variable_size (sv_type v) \<and> i32_ok redop)"

definition task_ok :: "legion_task \<Rightarrow> bool" where
  "task_ok task \<longleftrightarrow> length (tk_regions task) < 2 ^ 32 \<and> length (tk_outputs task) < 2 ^ 32 \<and> length (tk_futures task) < 2 ^ 31"

definition scalar_wrapper :: "store_view \<Rightarrow> bool \<Rightarrow> u64 \<Rightarrow> u64 list \<Rightarrow> nat option \<Rightarrow> int option \<Rightarrow> future_wrapper" where
  "scalar_wrapper v read_only offset extents future identity =
     \<lparr>fw_read_only = read_only, fw_field_size = fst (size_align (sv_type v)), fw_field_alignment = type_alignment (sv_type v),
      fw_field_offset = offset, fw_domain = to_maybe_empty_domain extents, fw_future = future, fw_identity = identity\<rparr>"

fun arg_store :: "privileges \<Rightarrow> store_analyzer \<Rightarrow> legion_task \<Rightarrow> store_arg \<Rightarrow> physical_store result" where
  "arg_store L sa task (RegionFieldArg v privilege proj) =
     rbind (ra_get_requirement_index L (sv_region v) privilege proj (sv_field v) (sa_req sa)) (\<lambda>i.
       rbind (vec_get (tk_regions task) i) (\<lambda>req.
         Inr (RegionPhysicalStore (int (sv_dim v)) (sv_type v) (snd (snd proj))
           \<lparr>rf_dim = int (sv_storage_dim v), rf_requirement = req, rf_field = sv_field v, rf_partitioned = (rr_partition req \<noteq> None)\<rparr>
           (sv_transform v))))"
| "arg_store L sa task (OutputRegionArg v field_space field_id proj_id color_space) =
     rbind (oa_get_requirement_index field_space (sa_out sa)) (\<lambda>i.
       rbind (vec_get (tk_outputs task) i) (\<lambda>req.
         Inr (UnboundPhysicalStore (int (sv_dim v)) (sv_type v) \<lparr>uf_output = req, uf_field = field_id\<rparr> (sv_transform v))))"
| "arg_store L sa task (ScalarStoreArg v future offset read_only redop) =
     rbind (fa_get_index future (sa_fut sa)) (\<lambda>i.
       rbind (vec_get (tk_futures task) i) (\<lambda>f.
         Inr (FuturePhysicalStore (int (sv_dim v)) (sv_type v) redop
           (scalar_wrapper v read_only offset (sv_extents v) (Some f) None) (sv_transform v))))"
| "arg_store L sa task (ReplicatedScalarStoreArg v future_map offset read_only) =
     rbind (fa_get_map_index future_map (sa_fut sa)) (\<lambda>i.
       rbind (vec_get (tk_futures task) i) (\<lambda>f.
         Inr (FuturePhysicalStore (int (sv_dim v)) (sv_type v) (- 1)
           (scalar_wrapper v read_only offset (sv_extents v) (Some f) None) (sv_transform v))))"
| "arg_store L sa task (WriteOnlyScalarStoreArg v redop) =
     Inr (FuturePhysicalStore (int (sv_dim v)) (sv_type v) redop
       (scalar_wrapper v False 0 (if sv_unbound v then [1] else sv_extents v) None (if redop = - 1 then None else Some redop))
       (sv_transform v))"

lemma plift_Inr [simp]: "plift (Inr x) f = f x"
  by (simp add: plift_def fun_eq_iff)

lemma packs_i32: "i32_ok i \<Longrightarrow> packs 4 (pack_i32 i) unpack_i32 i"
  unfolding unpack_i32_def pack_i32_def
  by (rule packs_last [OF u32_codec.packs_value]) (simp_all add: sint_sbintrunc' signed_take_bit_int_eq_self)

lemma packs_dim_i32: "dim_ok d \<Longrightarrow> packs 4 (pack_word (of_nat d :: u32)) unpack_i32 (int d)"
  unfolding unpack_i32_def
  by (rule packs_last [OF u32_codec.packs_value]) (simp_all add: sint_of_nat_u32 del: of_nat_numeral)

lemma packs_header:
  assumes "view_ok v" "i32_ok redop" "packs 0 m (f (sv_scalar v) (sv_unbound v) (int (sv_dim v)) (sv_type v) (sv_transform v) redop) y"
  shows "packs 0 (pseq (logical_store_pack v) (pseq (pack_i32 redop) m))
    (ubind unpack_bool (\<lambda>is_future. ubind unpack_bool (\<lambda>unbound. ubind unpack_i32 (\<lambda>dim. ubind unpack_type (\<lambda>type.
      ubind unpack_transform (\<lambda>transform. ubind unpack_i32 (\<lambda>redop. f is_future unbound dim type transform redop))))))) y"
  unfolding logical_store_pack_def pseq_assoc
  using assms
  by (auto simp: view_ok_def intro!: packs_step [OF packs_bool] packs_step [OF packs_dim_i32] packs_step [OF packs_type]
      packs_step [OF packs_transform] packs_step [OF packs_i32])

lemma packs_scalar_fields:
  assumes "view_ok v" "\<not> variable_size (sv_type v)" "i32_ok idx" "length extents < 2 ^ 32"
    and "(if 0 \<le> idx then rbind (vec_get (tk_futures task) (nat idx)) (\<lambda>f. Inr (Some f)) else Inr None) = Inr future"
  shows "packs 0 (scalar_fields_pack read_only (Inr idx) v offset extents) (unpack_future_wrapper task)
    (scalar_wrapper v read_only offset extents future None)"
proof -
  have sz: "type_size (sv_type v) = Inr (fst (size_align (sv_type v)))" using assms(2) by (simp add: type_size_def)
  show ?thesis
    unfolding scalar_fields_pack_def unpack_future_wrapper_def sz plift_Inr
    using assms
    by (auto simp: scalar_wrapper_def intro!: packs_step [OF packs_bool] packs_step [OF packs_i32] packs_step32 packs_step64
        packs_last_lift [OF packs_extents])
qed

lemma unat_index: "i < n \<Longrightarrow> n < 2 ^ 32 \<Longrightarrow> unat (of_nat i :: u32) = i"
  by (rule unat_of_nat_u32) simp

lemma packs_region_arg:
  assumes "arg_ok (RegionFieldArg v privilege proj)" "task_ok task" "arg_store L sa task (RegionFieldArg v privilege proj) = Inr st"
  shows "packs 0 (arg_pack L sa (RegionFieldArg v privilege proj)) (unpack_store task) st"
proof -
  obtain i req where i: "ra_get_requirement_index L (sv_region v) privilege proj (sv_field v) (sa_req sa) = Inr i"
    "i < length (tk_regions task)" "req = tk_regions task ! i"
    "st = RegionPhysicalStore (int (sv_dim v)) (sv_type v) (snd (snd proj))
       \<lparr>rf_dim = int (sv_storage_dim v), rf_requirement = req, rf_field = sv_field v, rf_partitioned = (rr_partition req \<noteq> None)\<rparr>
       (sv_transform v)"
    using assms(3) by (auto simp: vec_eq_Inr)
  have v: "view_ok v" "i32_ok (snd (snd proj))" "sv_scalar v = False" "sv_unbound v = False" "i32_ok (int (sv_storage_dim v))"
    using assms(1) by (auto simp: view_ok_def)
  have "vec_get (tk_regions task) (unat (of_nat i :: u32)) = Inr req"
    using i(2,3) assms(2) by (simp add: unat_index [OF i(2)] task_ok_def)
  then have "packs 0 (pseq (pack_i32 (int (sv_storage_dim v))) (pseq (pack_word (of_nat i :: u32)) (pack_word (sv_field v))))
      (unpack_region_field task)
      \<lparr>rf_dim = int (sv_storage_dim v), rf_requirement = req, rf_field = sv_field v, rf_partitioned = (rr_partition req \<noteq> None)\<rparr>"
    using v(5) unfolding unpack_region_field_def
    by (auto intro!: packs_step [OF packs_i32] packs_step32 packs_last_lift [OF u32_codec.packs_value])
  then show ?thesis
    unfolding arg_pack.simps region_field_arg_pack_def unpack_store_def i(1,4) plift_Inr
    using v by (intro packs_header) (auto intro: packs_last)
qed

lemma packs_output_arg:
  assumes "arg_ok (OutputRegionArg v field_space field_id proj_id color_space)" "task_ok task" "arg_store L sa task (OutputRegionArg v field_space field_id proj_id color_space) = Inr st"
  shows "packs 0 (arg_pack L sa (OutputRegionArg v field_space field_id proj_id color_space)) (unpack_store task) st"
proof -
  obtain i req where i: "oa_get_requirement_index field_space (sa_out sa) = Inr i" "i < length (tk_outputs task)" "req = tk_outputs task ! i"
    "st = UnboundPhysicalStore (int (sv_dim v)) (sv_type v) \<lparr>uf_output = req, uf_field = field_id\<rparr> (sv_transform v)"
    using assms(3) by (auto simp: vec_eq_Inr)
  have v: "view_ok v" "sv_scalar v = False" "sv_unbound v = True" using assms(1) by auto
  have "vec_get (tk_outputs task) (unat (of_nat i :: u32)) = Inr req"
    using i(2,3) assms(2) by (simp add: unat_index [OF i(2)] task_ok_def)
  then have "packs 0 (pseq (pack_word (of_nat (sv_dim v) :: u32)) (pseq (pack_word (of_nat i :: u32)) (pack_word field_id)))
      (unpack_unbound_region_field task) \<lparr>uf_output = req, uf_field = field_id\<rparr>"
    using v(1) unfolding unpack_unbound_region_field_def
    by (auto simp: view_ok_def intro!: packs_step [OF packs_dim_i32] packs_step32 packs_last_lift [OF u32_codec.packs_value])
  then show ?thesis
    unfolding arg_pack.simps output_region_arg_pack_def unpack_store_def i(1,4) plift_Inr
    using v by (intro packs_header) (auto intro: packs_last)
qed

lemma packs_scalar_arg:
  assumes "arg_ok (ScalarStoreArg v future offset read_only redop)" "task_ok task" "arg_store L sa task (ScalarStoreArg v future offset read_only redop) = Inr st"
  shows "packs 0 (arg_pack L sa (ScalarStoreArg v future offset read_only redop)) (unpack_store task) st"
proof -
  obtain i f where i: "fa_get_index future (sa_fut sa) = Inr i" "i < length (tk_futures task)" "f = tk_futures task ! i"
    "st = FuturePhysicalStore (int (sv_dim v)) (sv_type v) redop
       (scalar_wrapper v read_only offset (sv_extents v) (Some f) None) (sv_transform v)"
    using assms(3) by (auto simp: vec_eq_Inr)
  have v: "view_ok v" "i32_ok redop" "sv_scalar v = True" "\<not> variable_size (sv_type v)" "length (sv_extents v) < 2 ^ 32"
    using assms(1) by (auto simp: view_ok_def)
  have "packs 0 (scalar_fields_pack read_only (Inr (int i)) v offset (sv_extents v)) (unpack_future_wrapper task)
      (scalar_wrapper v read_only offset (sv_extents v) (Some f) None)"
    using i(2,3) assms(2) by (intro packs_scalar_fields v) (auto simp: task_ok_def)
  then show ?thesis
    unfolding arg_pack.simps scalar_store_arg_pack_def unpack_store_def i(1,4) rbind_Inr
    using v(1-3) by (intro packs_header) (auto intro!: packs_last_lift simp: scalar_wrapper_def)
qed

lemma packs_replicated_arg:
  assumes "arg_ok (ReplicatedScalarStoreArg v future_map offset read_only)" "task_ok task" "arg_store L sa task (ReplicatedScalarStoreArg v future_map offset read_only) = Inr st"
  shows "packs 0 (arg_pack L sa (ReplicatedScalarStoreArg v future_map offset read_only)) (unpack_store task) st"
proof -
  obtain i f where i: "fa_get_map_index future_map (sa_fut sa) = Inr i" "i < length (tk_futures task)" "f = tk_futures task ! i"
    "st = FuturePhysicalStore (int (sv_dim v)) (sv_type v) (- 1)
       (scalar_wrapper v read_only offset (sv_extents v) (Some f) None) (sv_transform v)"
    using assms(3) by (auto simp: vec_eq_Inr)
  have v: "view_ok v" "sv_scalar v = True" "\<not> variable_size (sv_type v)" "length (sv_extents v) < 2 ^ 32"
    using assms(1) by (auto simp: view_ok_def)
  have "packs 0 (scalar_fields_pack read_only (Inr (int i)) v offset (sv_extents v)) (unpack_future_wrapper task)
      (scalar_wrapper v read_only offset (sv_extents v) (Some f) None)"
    using i(2,3) assms(2) by (intro packs_scalar_fields v) (auto simp: task_ok_def)
  then show ?thesis
    unfolding arg_pack.simps replicated_scalar_store_arg_pack_def unpack_store_def i(1,4) rbind_Inr
    using v(1,2) by (intro packs_header) (auto intro!: packs_last_lift simp: scalar_wrapper_def)
qed

lemma packs_write_only_arg:
  assumes "arg_ok (WriteOnlyScalarStoreArg v redop)" "task_ok task" "arg_store L sa task (WriteOnlyScalarStoreArg v redop) = Inr st"
  shows "packs 0 (arg_pack L sa (WriteOnlyScalarStoreArg v redop)) (unpack_store task) st"
proof -
  let ?ext = "if sv_unbound v then [1] else sv_extents v"
  have v: "view_ok v" "i32_ok redop" "sv_scalar v = True" "\<not> variable_size (sv_type v)" "length ?ext < 2 ^ 32"
    using assms(1) by (auto simp: view_ok_def)
  have "packs 0 (scalar_fields_pack False (Inr (- 1)) v 0 ?ext) (unpack_future_wrapper task) (scalar_wrapper v False 0 ?ext None None)"
    by (intro packs_scalar_fields v) auto
  then show ?thesis
    unfolding arg_pack.simps write_only_scalar_store_arg_pack_def unpack_store_def
    using v(1-3) assms(3) by (intro packs_header) (auto intro!: packs_last_lift simp: scalar_wrapper_def initialize_with_identity_def)
qed

lemma packs_arg:
  assumes "arg_ok arg" "task_ok task" "arg_store L sa task arg = Inr st"
  shows "packs 0 (arg_pack L sa arg) (unpack_store task) st"
  using assms
  by (cases arg) (blast intro: packs_region_arg packs_output_arg packs_scalar_arg packs_replicated_arg packs_write_only_arg)+

section \<open>The arguments of a launch\<close>

lemma packs_all2:
  "list_all2 (\<lambda>x y. packs 0 (pack x) u y) xs ys \<Longrightarrow> packs 0 (pack_all pack xs) (unpack_n u (length xs)) ys"
proof (induction rule: list_all2_induct)
  case (Cons x xs y ys)
  then show ?case by (auto intro!: packs_step [OF Cons(1)] packs_last)
qed (simp add: packs_return)

lemma packs_args:
  assumes "list_all arg_ok args" "length args < 2 ^ 32" "task_ok task"
    and "list_all2 (\<lambda>arg st. arg_store L sa task arg = Inr st) args sts"
  shows "packs 0 (pack_args L sa args) (unpack_stores task) sts"
proof -
  have "list_all2 (\<lambda>arg st. packs 0 (arg_pack L sa arg) (unpack_store task) st) args sts"
    using assms(1,3,4) by (auto simp: list_all2_conv_all_nth list_all_length intro: packs_arg)
  from packs_all2 [OF this] show ?thesis
    unfolding pack_args_def unpack_stores_def unpack_vector_def
    using assms(2) by (intro packs_step32) (simp add: unat_of_nat_u32)
qed

lemma packs_scalar_args:
  assumes "list_all good_scalar scalars" "length scalars < 2 ^ 32"
  shows "packs 0 (pack_scalar_args scalars) (unpack_vector unpack_scalar) scalars"
  using packs_weaken [OF scalar_codec.packs_vector [OF assms], of 0]
  by (simp add: pack_scalar_args_def pack_vector_def)

text \<open>The arguments up to the synchronization flags, and what follows.\<close>

definition pack_task_prefix :: "privileges \<Rightarrow> store_analyzer \<Rightarrow> task_launcher \<Rightarrow> packer \<Rightarrow> packer" where
  "pack_task_prefix L sa tsk m =
     pseq (pack_word (tl_library tsk)) (pseq (pack_word (tl_task_info tsk))
       (pseq (pack_args L sa (tl_inputs tsk)) (pseq (pack_args L sa (tl_outputs tsk)) (pseq (pack_args L sa (tl_reductions tsk))
         (pseq (pack_scalar_args (tl_scalars tsk)) (pseq (pack_word (tl_future_size tsk)) (pseq (pack_bool (tl_can_throw tsk))
           (pseq (pack_bool (tl_can_elide_sync tsk)) m))))))))"

definition pack_sync :: "bool \<Rightarrow> task_launcher \<Rightarrow> packer" where
  "pack_sync parallel tsk =
     (if parallel then pseq (pack_bool (tl_insert_barrier tsk)) (pack_word (of_nat (length (tl_communicators tsk)) :: u32))
      else pseq (pack_bool False) (pack_word (0 :: u32)))"

lemma pack_task_arg_eq:
  "pack_task_arg L parallel sa tsk = pack_task_prefix L sa tsk (pack_sync parallel tsk)"
  "pseq (pack_task_prefix L sa tsk m) m' = pack_task_prefix L sa tsk (pseq m m')"
  by (simp_all add: pack_task_arg_def pack_task_prefix_def pack_sync_def)

definition launcher_ok :: "task_launcher \<Rightarrow> bool" where
  "launcher_ok tsk \<longleftrightarrow>
     list_all arg_ok (tl_inputs tsk @ tl_outputs tsk @ tl_reductions tsk) \<and>
     length (tl_inputs tsk) < 2 ^ 32 \<and> length (tl_outputs tsk) < 2 ^ 32 \<and> length (tl_reductions tsk) < 2 ^ 32 \<and>
     list_all good_scalar (tl_scalars tsk) \<and> length (tl_scalars tsk) < 2 ^ 32 \<and> length (tl_communicators tsk) < 2 ^ 32"

lemma packs_task_prefix:
  assumes "launcher_ok tsk" "task_ok task" "\<not> tk_tree_reduce task"
    and "list_all2 (\<lambda>arg st. arg_store L sa task arg = Inr st) (tl_inputs tsk) inputs"
      "list_all2 (\<lambda>arg st. arg_store L sa task arg = Inr st) (tl_outputs tsk) outputs"
      "list_all2 (\<lambda>arg st. arg_store L sa task arg = Inr st) (tl_reductions tsk) reductions"
    and "packs 0 m (unpack_synchronization task) (barriers, comms)"
  shows "packs 0 (pack_task_prefix L sa tsk m) (unpack_task_context task)
    \<lparr>tc_inputs = inputs, tc_outputs = outputs, tc_reductions = reductions, tc_scalars = tl_scalars tsk,
     tc_can_raise = tl_can_throw tsk, tc_can_elide_sync = tl_can_elide_sync tsk, tc_barriers = barriers, tc_comms = comms\<rparr>"
proof -
  have args: "packs 0 (pack_args L sa (tl_inputs tsk)) (unpack_stores task) inputs"
    "packs 0 (pack_args L sa (tl_outputs tsk)) (unpack_stores task) outputs"
    "packs 0 (pack_args L sa (tl_reductions tsk)) (unpack_stores task) reductions"
    "packs 0 (pack_scalar_args (tl_scalars tsk)) (unpack_vector unpack_scalar) (tl_scalars tsk)"
    using assms(1-6) by (auto simp: launcher_ok_def intro!: packs_args packs_scalar_args)
  show ?thesis
    unfolding pack_task_prefix_def unpack_task_context_def
    using assms(3)
    by (intro packs_step64) (auto simp: filter_inputs_def
        intro!: packs_step64 packs_step [OF args(1)] packs_step [OF args(2)] packs_step [OF args(3)] packs_step [OF args(4)]
          packs_step [OF packs_bool] packs_last [OF assms(7)])
qed

text \<open>The barriers and the communicators a task takes from the front of its futures.\<close>

lemma ubind_return: "ubind (ureturn x) f = f x"
  by (simp add: ubind_def ureturn_def fun_eq_iff)

lemma take_futures_eq: "n \<le> length fs \<Longrightarrow> take_futures n fs = Inr (take n fs, drop n fs)"
proof (induction n arbitrary: fs)
  case (Suc n)
  then show ?case by (cases fs) (simp_all add: take_future_def)
qed simp

definition front_barriers :: "task_launcher \<Rightarrow> nat list \<Rightarrow> (nat \<times> nat) option" where
  "front_barriers tsk futures = (if tl_insert_barrier tsk then Some (futures ! 0, futures ! 1) else None)"

definition front_comms :: "task_launcher \<Rightarrow> nat list \<Rightarrow> nat list" where
  "front_comms tsk futures =
     take (length (tl_communicators tsk)) (drop (if tl_insert_barrier tsk then 2 else 0) futures)"

lemma packs_sync:
  assumes "tk_is_index task" "length (tl_communicators tsk) < 2 ^ 32"
    and "(if tl_insert_barrier tsk then 2 else 0) + length (tl_communicators tsk) \<le> length (tk_futures task)"
  shows "packs 0 (pack_sync True tsk) (unpack_synchronization task)
    (front_barriers tsk (tk_futures task), front_comms tsk (tk_futures task))"
proof (cases "tl_insert_barrier tsk")
  case True
  then obtain arrival wait fs where f: "tk_futures task = arrival # wait # fs"
    using assms(3) by (cases "tk_futures task"; cases "tl (tk_futures task)") auto
  then have "length (tl_communicators tsk) \<le> length fs" using assms(3) True by simp
  note take = take_futures_eq [OF this]
  show ?thesis
    using assms(1,2) True take unfolding pack_sync_def unpack_synchronization_def
    by (auto simp: f take_future_def front_barriers_def front_comms_def unat_of_nat_u32 ubind_return
        intro!: packs_step [OF packs_bool] packs_last_lift [OF u32_codec.packs_value])
next
  case False
  then have "length (tl_communicators tsk) \<le> length (tk_futures task)" using assms(3) by simp
  note take = take_futures_eq [OF this]
  show ?thesis
    using assms(1,2) False take unfolding pack_sync_def unpack_synchronization_def
    by (auto simp: front_barriers_def front_comms_def unat_of_nat_u32 ubind_return
        intro!: packs_step [OF packs_bool] packs_last_lift [OF u32_codec.packs_value])
qed

section \<open>What the analyzers have seen\<close>

fun region_access :: "store_arg \<Rightarrow> (nat \<times> u32 \<times> u32 \<times> store_projection) list" where
  "region_access (RegionFieldArg v privilege proj) = [(sv_region v, sv_field v, privilege, proj)]"
| "region_access _ = []"

fun output_access :: "store_arg \<Rightarrow> (u32 \<times> nat \<times> u32 \<times> u32 \<times> nat) list" where
  "output_access (OutputRegionArg v field_space field_id proj_id color_space) =
     [(of_nat (sv_dim v), field_space, field_id, proj_id, color_space)]"
| "output_access _ = []"

fun future_access :: "store_arg \<Rightarrow> nat list" where
  "future_access (ScalarStoreArg v future offset read_only redop) = [future]"
| "future_access _ = []"

fun future_map_access :: "store_arg \<Rightarrow> nat list" where
  "future_map_access (ReplicatedScalarStoreArg v future_map offset read_only) = [future_map]"
| "future_map_access _ = []"

abbreviation accesses :: "('a \<Rightarrow> 'b list) \<Rightarrow> 'a list \<Rightarrow> 'b list" where
  "accesses f args \<equiv> concat (map f args)"

abbreviation oa_insert_all :: "(u32 \<times> nat \<times> u32 \<times> u32 \<times> nat) list \<Rightarrow> output_analyzer \<Rightarrow> output_analyzer result" where
  "oa_insert_all \<equiv> rfoldM (\<lambda>(dim, space, f, proj, cs). oa_insert dim space f proj cs)"

lemma arg_analyze_split:
  assumes "arg_analyze L arg sa = Inr sa'"
  shows "ra_insert_all L (region_access arg) (sa_req sa) = Inr (sa_req sa') \<and>
    oa_insert_all (output_access arg) (sa_out sa) = Inr (sa_out sa') \<and>
    sa_fut sa' = (sa_fut sa)\<lparr>fa_futures := fa_futures (sa_fut sa) @ future_access arg,
      fa_future_maps := fa_future_maps (sa_fut sa) @ future_map_access arg\<rparr>"
  using assms by (cases arg) (auto simp: rbind_eq_Inr fa_insert_def fa_insert_map_def)

lemma rfoldM_append: "rfoldM f (xs @ ys) s = rbind (rfoldM f xs s) (rfoldM f ys)"
  by (induction xs arbitrary: s) (simp_all add: rbind_assoc)

lemma analyze_split:
  "rfoldM (arg_analyze L) args sa = Inr sa' \<Longrightarrow>
   ra_insert_all L (accesses region_access args) (sa_req sa) = Inr (sa_req sa') \<and>
   oa_insert_all (accesses output_access args) (sa_out sa) = Inr (sa_out sa') \<and>
   sa_fut sa' = (sa_fut sa)\<lparr>fa_futures := fa_futures (sa_fut sa) @ accesses future_access args,
     fa_future_maps := fa_future_maps (sa_fut sa) @ accesses future_map_access args\<rparr>"
proof (induction args arbitrary: sa)
  case (Cons arg args)
  obtain sa1 where sa1: "arg_analyze L arg sa = Inr sa1" "rfoldM (arg_analyze L) args sa1 = Inr sa'"
    using Cons.prems by (auto simp: rbind_eq_Inr)
  show ?case using arg_analyze_split [OF sa1(1)] Cons.IH [OF sa1(2)] by (simp add: rfoldM_append)
qed simp

abbreviation all_args :: "task_launcher \<Rightarrow> store_arg list" where
  "all_args tsk \<equiv> tl_inputs tsk @ tl_outputs tsk @ tl_reductions tsk"

lemma fold_fa_insert:
  "fold fa_insert fs fa = fa\<lparr>fa_futures := fa_futures fa @ fs\<rparr>"
  "fold fa_insert_map ms fa = fa\<lparr>fa_future_maps := fa_future_maps fa @ ms\<rparr>"
  by (induction fs arbitrary: fa; simp add: fa_insert_def) (induction ms arbitrary: fa; simp add: fa_insert_map_def)

lemma analyze_arguments_split:
  assumes "analyze_arguments L parallel tsk = Inr sa"
  obtains ra oa where
    "ra_insert_all L (accesses region_access (all_args tsk)) (ra_start (tl_relax_checks tsk)) = Inr ra"
    "sa_req sa = ra_analyze_requirements L ra"
    "oa_insert_all (accesses output_access (all_args tsk)) (sa_out store_analyzer_default) = Inr oa"
    "sa_out sa = oa_analyze_requirements oa"
    "sa_fut sa = analyze_futures (sa_fut store_analyzer_default\<lparr>
       fa_futures := accesses future_access (all_args tsk) @ tl_futures tsk,
       fa_future_maps := accesses future_map_access (all_args tsk) @ (if parallel then tl_future_maps tsk else [])\<rparr>)"
proof -
  let ?start = "store_analyzer_default\<lparr>sa_req := (sa_req store_analyzer_default)\<lparr>ra_relax := tl_relax_checks tsk\<rparr>\<rparr>"
  obtain sa1 where sa1: "rfoldM (arg_analyze L) (all_args tsk) ?start = Inr sa1"
    "sa = sa_analyze L (sa1\<lparr>sa_fut := (let fa = fold fa_insert (tl_futures tsk) (sa_fut sa1)
       in if parallel then fold fa_insert_map (tl_future_maps tsk) fa else fa)\<rparr>)"
    using assms by (auto simp: analyze_arguments_def Let_def rfoldM_append [abs_def] split: sum.splits)
  note split = analyze_split [OF sa1(1)]
  show thesis
  proof (rule that)
    show "ra_insert_all L (accesses region_access (all_args tsk)) (ra_start (tl_relax_checks tsk)) = Inr (sa_req sa1)"
      using split by (simp add: store_analyzer_default_def)
    show "oa_insert_all (accesses output_access (all_args tsk)) (sa_out store_analyzer_default) = Inr (sa_out sa1)"
      using split by simp
    show "sa_fut sa = analyze_futures (sa_fut store_analyzer_default\<lparr>
       fa_futures := accesses future_access (all_args tsk) @ tl_futures tsk,
       fa_future_maps := accesses future_map_access (all_args tsk) @ (if parallel then tl_future_maps tsk else [])\<rparr>)"
      using split by (simp add: sa1(2) sa_analyze_def fold_fa_insert Let_def store_analyzer_default_def)
  qed (simp_all add: sa1(2) sa_analyze_def)
qed

interpretation generation_codec: codec pack_generation unpack_generation "\<lambda>_. True" "\<lambda>_. 8"
proof unfold_locales
  show "packs 8 (pack_generation g) unpack_generation g" for g
    unfolding pack_generation_def unpack_generation_def
    by (cases g) (auto intro!: packs_step32 packs_last [OF u32_codec.packs_value])
qed

section \<open>The stores of a task are those of its arguments\<close>

text \<open>\<open>provides L single barriers maps arg st\<close>: the physical store is what the argument promises. A replicated scalar
  store has the future that stands at the place of its future map among \<open>barriers @ maps\<close>, where its place is counted in
  \<open>maps\<close>: its own future if there are no barriers, otherwise a barrier or the future of another store (see
  \<open>barrier_shifts_future_maps\<close>).\<close>

fun provides :: "privileges \<Rightarrow> bool \<Rightarrow> nat list \<Rightarrow> nat list \<Rightarrow> store_arg \<Rightarrow> physical_store \<Rightarrow> bool" where
  "provides L single barriers maps (RegionFieldArg v privilege proj) (RegionPhysicalStore dim type redop rf transform) =
     (dim = int (sv_dim v) \<and> type = sv_type v \<and> transform = sv_transform v \<and> redop = snd (snd proj) \<and>
      rf_dim rf = int (sv_storage_dim v) \<and> rf_field rf = sv_field v \<and>
      rr_region (rf_requirement rf) = sv_region v \<and> sv_field v \<in> set (rr_fields (rf_requirement rf)) \<and>
      suffices L privilege (rr_privilege (rf_requirement rf)) \<and>
      rr_partition (rf_requirement rf) = (if single then None else map_option (\<lambda>part. (part, fst (snd proj))) (fst proj)) \<and>
      rf_partitioned rf = (\<not> single \<and> fst proj \<noteq> None))"
| "provides L single barriers maps (OutputRegionArg v field_space field_id proj_id color_space) (UnboundPhysicalStore dim type out transform) =
     (dim = int (sv_dim v) \<and> type = sv_type v \<and> transform = sv_transform v \<and> uf_field out = field_id \<and>
      or_field_space (uf_output out) = field_space \<and> field_id \<in> set (or_fields (uf_output out)) \<and>
      or_dim (uf_output out) = of_nat (sv_dim v) \<and> or_projection (uf_output out) = proj_id \<and>
      or_color_space (uf_output out) = color_space)"
| "provides L single barriers maps (ScalarStoreArg v future offset read_only redop) (FuturePhysicalStore dim type redop' fut transform) =
     (dim = int (sv_dim v) \<and> type = sv_type v \<and> transform = sv_transform v \<and> redop' = redop \<and>
      fut = scalar_wrapper v read_only offset (sv_extents v) (Some future) None)"
| "provides L single barriers maps (ReplicatedScalarStoreArg v future_map offset read_only) (FuturePhysicalStore dim type redop' fut transform) =
     (dim = int (sv_dim v) \<and> type = sv_type v \<and> transform = sv_transform v \<and> redop' = - 1 \<and>
      (\<exists>j < length maps. maps ! j = future_map \<and>
         fut = scalar_wrapper v read_only offset (sv_extents v) (Some ((barriers @ maps) ! j)) None))"
| "provides L single barriers maps (WriteOnlyScalarStoreArg v redop) (FuturePhysicalStore dim type redop' fut transform) =
     (dim = int (sv_dim v) \<and> type = sv_type v \<and> transform = sv_transform v \<and> redop' = redop \<and>
      fut = scalar_wrapper v False 0 (if sv_unbound v then [1] else sv_extents v) None (if redop = - 1 then None else Some redop))"
| "provides L single barriers maps _ _ = False"

definition accesses_ok :: "privileges \<Rightarrow> task_launcher \<Rightarrow> bool" where
  "accesses_ok L tsk \<longleftrightarrow> privileges_ok L \<and>
     (\<forall>(r, f, p, proj) \<in> set (accesses region_access (all_args tsk)).
        base_privilege L p \<noteq> NO_ACCESS L \<and>
        mask_consistent L {a. (r, f, a) \<in> set (accesses region_access (all_args tsk))})"

text \<open>\<open>sees L par parallel tsk barriers sa task\<close>: the requirements and futures of the task are those of the
  launch, with the barriers between the futures and the point futures.\<close>

definition sees :: "privileges \<Rightarrow> (nat \<Rightarrow> nat) \<Rightarrow> bool \<Rightarrow> task_launcher \<Rightarrow> nat list \<Rightarrow> store_analyzer \<Rightarrow> legion_task \<Rightarrow> bool" where
  "sees L par parallel tsk barriers sa task \<longleftrightarrow>
     tk_regions task = ra_populate_launcher L par (\<not> parallel) (sa_req sa) \<and>
     populate_output_requirements (sa_out sa) = Inr (tk_outputs task) \<and>
     (\<not> (parallel \<and> tl_insert_barrier tsk) \<longrightarrow> barriers = []) \<and>
     (\<exists>comms. tk_futures task = fa_coalesced (sa_fut sa) @ barriers @ fa_coalesced_maps (sa_fut sa) @ comms)"

lemma region_provided:
  assumes "accesses_ok L tsk" "analyze_arguments L parallel tsk = Inr sa" "sees L par parallel tsk barriers sa task"
    and "RegionFieldArg v p proj \<in> set (all_args tsk)"
  shows "\<exists>st. arg_store L sa task (RegionFieldArg v p proj) = Inr st \<and> provides L (\<not> parallel) bs maps (RegionFieldArg v p proj) st"
proof -
  let ?as = "accesses region_access (all_args tsk)"
  obtain ra where ra: "ra_insert_all L ?as (ra_start (tl_relax_checks tsk)) = Inr ra" "sa_req sa = ra_analyze_requirements L ra"
    using assms(2) by (rule analyze_arguments_split)
  have a: "(sv_region v, sv_field v, p, proj) \<in> set ?as" using assms(4) by (auto intro: rev_bexI)
  have ok: "privileges_ok L" "\<forall>(r, f, p, proj) \<in> set ?as. base_privilege L p \<noteq> NO_ACCESS L"
    "mask_consistent L {a. (sv_region v, sv_field v, a) \<in> set ?as}"
    using assms(1) a unfolding accesses_ok_def by blast+
  obtain i where i: "ra_get_requirement_index L (sv_region v) p proj (sv_field v) (sa_req sa) = Inr i"
    "i < length (tk_regions task)" "rr_region (tk_regions task ! i) = sv_region v"
    "sv_field v \<in> set (rr_fields (tk_regions task ! i))" "suffices L p (rr_privilege (tk_regions task ! i))"
    "rr_partition (tk_regions task ! i) = (if \<not> parallel then None else map_option (\<lambda>part. (part, fst (snd proj))) (fst proj))"
    using conjunct1 [OF requirement_index [OF ok(1) ra(1) ok(2,3) a, of par "\<not> parallel"]] assms(3)
    unfolding sees_def ra(2) by auto
  show ?thesis using i by (cases proj) auto
qed

lemma outputs_analyzed:
  assumes "launcher_ok tsk" "analyze_arguments L parallel tsk = Inr sa"
  obtains reqs where "populate_output_requirements (sa_out sa) = Inr reqs"
    "\<forall>(dim, space, f, proj, cs) \<in> set (accesses output_access (all_args tsk)). \<exists>i.
       oa_get_requirement_index space (sa_out sa) = Inr i \<and>
       i < length reqs \<and> or_field_space (reqs ! i) = space \<and> f \<in> set (or_fields (reqs ! i)) \<and>
       or_dim (reqs ! i) = dim \<and> or_projection (reqs ! i) = proj \<and> or_color_space (reqs ! i) = cs"
proof -
  let ?outs = "accesses output_access (all_args tsk)"
  obtain oa where oa: "oa_insert_all ?outs (sa_out store_analyzer_default) = Inr oa" "sa_out sa = oa_analyze_requirements oa"
    using assms(2) by (rule analyze_arguments_split)
  have dim: "(of_nat d :: u32) \<noteq> - 1" if "d < 2 ^ 31" for d
  proof
    assume "(of_nat d :: u32) = - 1"
    then have "unat (of_nat d :: u32) = unat (- 1 :: u32)" by simp
    then show False using that by (simp add: unat_of_nat_u32 unsigned_minus_1_eq_mask mask_eq_exp_minus_1)
  qed
  have "False" if member: "(- 1, space, f, proj, cs) \<in> set ?outs" for space f proj cs
  proof -
    obtain arg where arg: "arg \<in> set (all_args tsk)" "(- 1, space, f, proj, cs) \<in> set (output_access arg)" using member by auto
    then have "arg_ok arg" using assms(1) by (auto simp: launcher_ok_def list_all_iff)
    then show False using arg(2) dim by (cases arg) (auto simp: view_ok_def)
  qed
  then have dims: "\<forall>(dim, space, f, proj, cs) \<in> set ?outs. dim \<noteq> - 1" by blast
  have "oa_inv {} (sa_out store_analyzer_default)" by (simp add: oa_inv_def store_analyzer_default_def)
  from oa_inv_insert_all [OF dims this oa(1)] have "oa_inv (set ?outs) oa" by simp
  from outputs_index [OF this] show thesis by (elim exE conjE) (rule that, simp_all only: oa(2))
qed

lemma output_provided:
  assumes "launcher_ok tsk" "analyze_arguments L parallel tsk = Inr sa" "sees L par parallel tsk barriers sa task"
    and "OutputRegionArg v space f proj cs \<in> set (all_args tsk)"
  shows "\<exists>st. arg_store L sa task (OutputRegionArg v space f proj cs) = Inr st \<and>
    provides L single barriers maps (OutputRegionArg v space f proj cs) st"
proof -
  let ?outs = "accesses output_access (all_args tsk)"
  have out: "(of_nat (sv_dim v), space, f, proj, cs) \<in> set ?outs" using assms(4) by (auto intro: rev_bexI)
  obtain reqs where reqs: "populate_output_requirements (sa_out sa) = Inr reqs"
    "\<forall>(dim, space, f, proj, cs) \<in> set ?outs. \<exists>i. oa_get_requirement_index space (sa_out sa) = Inr i \<and>
       i < length reqs \<and> or_field_space (reqs ! i) = space \<and> f \<in> set (or_fields (reqs ! i)) \<and>
       or_dim (reqs ! i) = dim \<and> or_projection (reqs ! i) = proj \<and> or_color_space (reqs ! i) = cs"
    using assms(1,2) by (rule outputs_analyzed)
  have "tk_outputs task = reqs" using assms(3) reqs(1) by (simp add: sees_def)
  then show ?thesis using bspec [OF reqs(2) out] by auto
qed

lemma fa_lookup_nth: "i < length xs \<Longrightarrow> xs ! i = h \<Longrightarrow> vec_get (xs @ ys) i = Inr h"
  by (simp add: vec_get_eq_Inr nth_append)

lemma future_provided:
  assumes "analyze_arguments L parallel tsk = Inr sa" "sees L par parallel tsk barriers sa task"
    and "ScalarStoreArg v future offset read_only redop \<in> set (all_args tsk)"
  shows "\<exists>st. arg_store L sa task (ScalarStoreArg v future offset read_only redop) = Inr st \<and>
    provides L single barriers maps (ScalarStoreArg v future offset read_only redop) st"
proof -
  obtain comms where futs: "tk_futures task = fa_coalesced (sa_fut sa) @ barriers @ fa_coalesced_maps (sa_fut sa) @ comms"
    using assms(2) by (auto simp: sees_def)
  have fut: "future \<in> set (accesses future_access (all_args tsk) @ tl_futures tsk)" using assms(3) by (auto intro: rev_bexI)
  obtain i where i: "fa_get_index future (sa_fut sa) = Inr i" "i < length (fa_coalesced (sa_fut sa))" "fa_coalesced (sa_fut sa) ! i = future"
    using analyze_arguments_split [OF assms(1)] futures_index fut by metis
  have "vec_get (tk_futures task) i = Inr future" unfolding futs by (rule fa_lookup_nth [OF i(2,3)])
  then show ?thesis using i(1) by simp
qed

lemma future_map_provided:
  assumes "analyze_arguments L parallel tsk = Inr sa" "sees L par parallel tsk barriers sa task"
    and "ReplicatedScalarStoreArg v future_map offset read_only \<in> set (all_args tsk)"
  shows "\<exists>st. arg_store L sa task (ReplicatedScalarStoreArg v future_map offset read_only) = Inr st \<and>
    provides L single barriers (fa_coalesced_maps (sa_fut sa)) (ReplicatedScalarStoreArg v future_map offset read_only) st"
proof -
  let ?co = "fa_coalesced (sa_fut sa)" and ?maps = "fa_coalesced_maps (sa_fut sa)"
  obtain comms where futs: "tk_futures task = ?co @ barriers @ ?maps @ comms"
    using assms(2) by (auto simp: sees_def)
  have fut: "future_map \<in> set (accesses future_map_access (all_args tsk) @ (if parallel then tl_future_maps tsk else []))"
    using assms(3) by (auto intro: rev_bexI)
  obtain i where i: "fa_get_map_index future_map (sa_fut sa) = Inr i" "length ?co \<le> i" "i < length (?co @ ?maps)"
      "(?co @ ?maps) ! i = future_map"
    using analyze_arguments_split [OF assms(1)] futures_index fut by metis
  have len: "i < length (tk_futures task)" using i(3) by (simp add: futs)
  have "tk_futures task ! i = (barriers @ ?maps) ! (i - length ?co)" "i - length ?co < length ?maps"
    "?maps ! (i - length ?co) = future_map"
    using i(2,3,4) by (auto simp: futs nth_append)
  then show ?thesis using i(1) len by auto
qed

lemma args_provided:
  assumes "accesses_ok L tsk" "launcher_ok tsk" "analyze_arguments L parallel tsk = Inr sa"
    and "sees L par parallel tsk barriers sa task" "set args \<subseteq> set (all_args tsk)"
  obtains sts where "list_all2 (\<lambda>arg st. arg_store L sa task arg = Inr st) args sts"
    "list_all2 (provides L (\<not> parallel) barriers (fa_coalesced_maps (sa_fut sa))) args sts"
proof -
  have "\<exists>st. arg_store L sa task arg = Inr st \<and> provides L (\<not> parallel) barriers (fa_coalesced_maps (sa_fut sa)) arg st"
    if arg: "arg \<in> set (all_args tsk)" for arg
  proof (cases arg)
    case (RegionFieldArg v p proj)
    show ?thesis using arg unfolding RegionFieldArg by (rule region_provided [OF assms(1,3,4)])
  next
    case (OutputRegionArg v space f proj cs)
    show ?thesis using arg unfolding OutputRegionArg by (rule output_provided [OF assms(2,3,4)])
  next
    case (ScalarStoreArg v future offset read_only redop)
    show ?thesis using arg unfolding ScalarStoreArg by (rule future_provided [OF assms(3,4)])
  next
    case (ReplicatedScalarStoreArg v future_map offset read_only)
    show ?thesis using arg unfolding ReplicatedScalarStoreArg by (rule future_map_provided [OF assms(3,4)])
  qed simp
  then have "\<forall>arg \<in> set args. \<exists>st. arg_store L sa task arg = Inr st \<and> provides L (\<not> parallel) barriers (fa_coalesced_maps (sa_fut sa)) arg st"
    using assms(5) by blast
  then obtain f where "\<forall>arg \<in> set args. arg_store L sa task arg = Inr (f arg) \<and>
      provides L (\<not> parallel) barriers (fa_coalesced_maps (sa_fut sa)) arg (f arg)" by metis
  then show thesis by (intro that [of "map f args"]) (auto simp: list_all2_conv_all_nth)
qed

text \<open>The futures that \<open>execute\<close> adds behind those of the arguments, and the point futures that are no communicators.\<close>

definition barrier_futures :: "bool \<Rightarrow> task_launcher \<Rightarrow> nat \<times> nat \<Rightarrow> nat list" where
  "barrier_futures parallel tsk barriers =
     (if parallel \<and> tl_insert_barrier tsk then [fst barriers, snd barriers] else [])"

definition launched_maps :: "task_launcher \<Rightarrow> launch \<Rightarrow> nat list" where
  "launched_maps tsk ll = take (length (ll_point_futures ll) - length (tl_communicators tsk)) (ll_point_futures ll)"

definition run_task :: "bool \<Rightarrow> nat \<Rightarrow> launch \<Rightarrow> legion_task" where
  "run_task is_index no_region ll =
     \<lparr>tk_is_index = is_index, tk_tree_reduce = False, tk_no_region = no_region, tk_regions = ll_regions ll,
      tk_outputs = ll_outputs ll, tk_futures = ll_futures ll @ ll_point_futures ll\<rparr>"

lemma run_task_sel [simp]:
  "tk_is_index (run_task is_index no_region ll) = is_index" "tk_tree_reduce (run_task is_index no_region ll) = False"
  "tk_futures (run_task is_index no_region ll) = ll_futures ll @ ll_point_futures ll"
  by (simp_all add: run_task_def)

definition launched ::
  "privileges \<Rightarrow> (nat \<Rightarrow> nat) \<Rightarrow> bool \<Rightarrow> nat \<times> nat \<Rightarrow> nat \<times> nat \<Rightarrow> task_launcher \<Rightarrow> bool \<Rightarrow> launch result" where
  "launched L par has_side_effect barriers bases tsk parallel =
     (if parallel then execute L par barriers bases tsk else execute_single L par has_side_effect bases tsk)"

lemma launched_split:
  assumes "launched L par has_side_effect barriers bases tsk parallel = Inr ll"
  obtains sa b comms where "analyze_arguments L parallel tsk = Inr sa"
    "pack_task_arg L parallel sa tsk (empty_builder (fst bases)) = Inr b" "ll_args ll = bb_bytes b"
    "ll_regions ll = ra_populate_launcher L par (\<not> parallel) (sa_req sa)"
    "populate_output_requirements (sa_out sa) = Inr (ll_outputs ll)"
    "ll_futures ll = fa_coalesced (sa_fut sa) @ (if parallel \<and> tl_insert_barrier tsk then [fst barriers, snd barriers] else [])"
    "ll_point_futures ll = (if parallel then fa_coalesced_maps (sa_fut sa) @ tl_communicators tsk else [])"
    "parallel \<or> fa_coalesced_maps (sa_fut sa) = []"
proof (cases parallel)
  case True
  then show thesis using assms that
    by (auto simp: launched_def execute_def rbind_eq_Inr fa_populate_index_def)
next
  case False
  then show thesis using assms that
    by (auto simp: launched_def execute_single_def rbind_eq_Inr fa_populate_single_def rguard_eq_Inr)
qed

lemma number_handles_distinct:
  "number_handles hs (indices, coalesced, n) = (indices', coalesced', n') \<Longrightarrow> distinct coalesced \<Longrightarrow>
     set coalesced \<subseteq> dom indices \<Longrightarrow> distinct coalesced'"
proof (induction hs arbitrary: indices coalesced n)
  case (Cons h hs)
  show ?case
  proof (cases "indices h")
    case None
    then have "number_handles hs (indices(h \<mapsto> n), coalesced @ [h], n + 1) = (indices', coalesced', n')"
      "distinct (coalesced @ [h])" "set (coalesced @ [h]) \<subseteq> dom (indices(h \<mapsto> n))"
      using Cons.prems by auto
    then show ?thesis by (rule Cons.IH)
  next
    case (Some i)
    then show ?thesis using Cons.prems Cons.IH [of indices coalesced n] by simp
  qed
qed simp

lemma distinct_maps:
  "distinct (fa_coalesced_maps (analyze_futures (sa_fut store_analyzer_default\<lparr>fa_futures := fs, fa_future_maps := ms\<rparr>)))"
proof -
  obtain ind co n where f: "number_handles fs (Map.empty, [], 0) = (ind, co, n)" by (cases "number_handles fs (Map.empty, [], 0)")
  obtain mind mco k where m: "number_handles ms (Map.empty, [], n) = (mind, mco, k)" by (cases "number_handles ms (Map.empty, [], n)")
  have "distinct mco" using number_handles_distinct [OF m] by simp
  then show ?thesis using f m by (simp add: analyze_futures_def store_analyzer_default_def)
qed

lemma analyze_futures_nil:
  "fa_coalesced (analyze_futures (sa_fut store_analyzer_default\<lparr>fa_futures := [], fa_future_maps := ms\<rparr>)) = []"
  "fa_coalesced_maps (analyze_futures (sa_fut store_analyzer_default\<lparr>fa_futures := fs, fa_future_maps := []\<rparr>)) = []"
  by (simp_all add: analyze_futures_def store_analyzer_default_def split: prod.split)

lemma analyze_no_futures:
  assumes "analyze_arguments L parallel tsk = Inr sa"
  shows "accesses future_access (all_args tsk) @ tl_futures tsk = [] \<Longrightarrow> fa_coalesced (sa_fut sa) = []"
    "accesses future_map_access (all_args tsk) @ tl_future_maps tsk = [] \<Longrightarrow> fa_coalesced_maps (sa_fut sa) = []"
proof -
  let ?fs = "accesses future_access (all_args tsk) @ tl_futures tsk"
    and ?ms = "accesses future_map_access (all_args tsk) @ (if parallel then tl_future_maps tsk else [])"
  have fut: "sa_fut sa = analyze_futures (sa_fut store_analyzer_default\<lparr>fa_futures := ?fs, fa_future_maps := ?ms\<rparr>)"
    using assms by (rule analyze_arguments_split)
  show "fa_coalesced (sa_fut sa) = []" if "?fs = []"
    unfolding fut that by (rule analyze_futures_nil)
  show "fa_coalesced_maps (sa_fut sa) = []" if none: "accesses future_map_access (all_args tsk) @ tl_future_maps tsk = []"
  proof -
    have "?ms = []" using none by (cases parallel) simp_all
    then show ?thesis unfolding fut by (simp only: analyze_futures_nil)
  qed
qed

lemma launched_maps_distinct:
  assumes "launched L par has_side_effect barriers bases tsk parallel = Inr ll"
  shows "distinct (launched_maps tsk ll)"
proof -
  obtain sa where sa: "analyze_arguments L parallel tsk = Inr sa"
    "ll_point_futures ll = (if parallel then fa_coalesced_maps (sa_fut sa) @ tl_communicators tsk else [])"
    using assms by (rule launched_split)
  have "distinct (fa_coalesced_maps (sa_fut sa))"
    using sa(1) by (rule analyze_arguments_split) (simp add: distinct_maps)
  then show ?thesis using sa(2) by (simp add: launched_maps_def)
qed

lemma pseq_return_left [simp]: "pseq Inr m = m"
  by (simp add: pseq_def fun_eq_iff)

lemma packs_read:
  assumes "packs 0 m u x" "packs 0 m' u' x'" "pseq m m' (empty_builder base) = Inr b" "pos mod 16 = base mod 16"
  shows "\<exists>r. u \<lparr>rd_pos = pos, rd_bytes = bb_bytes b\<rparr> = Inr (x, r)"
proof -
  obtain ext where ext: "m (empty_builder base) = Inr (bb_append (empty_builder base) ext)"
    "encodes u x (bb_pos (empty_builder base)) ext"
    using assms(1) by (rule packsD)
  obtain ext' where "m' (bb_append (empty_builder base) ext) = Inr (bb_append (bb_append (empty_builder base) ext) ext')"
    using assms(2) by (rule packsD)
  then have "bb_bytes b = ext @ ext'" using assms(3) ext(1) by (auto simp: pseq_def empty_builder_def)
  then show ?thesis using ext(2) assms(4) by (simp add: encodes_def bb_pos_def empty_builder_def)
qed

lemma packs_sync_bytes:
  "packs 0 (pack_sync parallel tsk) (ubind unpack_bool (\<lambda>_. unpack_word))
    (if parallel then of_nat (length (tl_communicators tsk)) else 0 :: u32)"
  unfolding pack_sync_def
  by (auto intro!: packs_step [OF packs_bool] packs_weaken [OF u32_codec.packs_value])

lemma context_read:
  assumes "accesses_ok L tsk" "launcher_ok tsk"
    and "launched L par has_side_effect barriers bases tsk parallel = Inr ll"
    and "task_ok (run_task parallel no_region ll)" "pos mod 16 = fst bases mod 16"
  obtains inputs outputs reductions r where
    "unpack_task_context (run_task parallel no_region ll) \<lparr>rd_pos = pos, rd_bytes = ll_args ll\<rparr> =
      Inr (\<lparr>tc_inputs = inputs, tc_outputs = outputs, tc_reductions = reductions, tc_scalars = tl_scalars tsk,
            tc_can_raise = tl_can_throw tsk, tc_can_elide_sync = tl_can_elide_sync tsk,
            tc_barriers = (if parallel then front_barriers tsk (ll_futures ll @ ll_point_futures ll) else None),
            tc_comms = (if parallel then front_comms tsk (ll_futures ll @ ll_point_futures ll) else [])\<rparr>, r)"
    "list_all2 (provides L (\<not> parallel) (barrier_futures parallel tsk barriers) (launched_maps tsk ll)) (tl_inputs tsk) inputs"
    "list_all2 (provides L (\<not> parallel) (barrier_futures parallel tsk barriers) (launched_maps tsk ll)) (tl_outputs tsk) outputs"
    "list_all2 (provides L (\<not> parallel) (barrier_futures parallel tsk barriers) (launched_maps tsk ll)) (tl_reductions tsk) reductions"
proof -
  let ?task = "run_task parallel no_region ll" and ?futures = "ll_futures ll @ ll_point_futures ll"
  obtain sa b where sa: "analyze_arguments L parallel tsk = Inr sa"
    "pack_task_arg L parallel sa tsk (empty_builder (fst bases)) = Inr b" "ll_args ll = bb_bytes b"
    "ll_regions ll = ra_populate_launcher L par (\<not> parallel) (sa_req sa)"
    "populate_output_requirements (sa_out sa) = Inr (ll_outputs ll)"
    "ll_futures ll = fa_coalesced (sa_fut sa) @ (if parallel \<and> tl_insert_barrier tsk then [fst barriers, snd barriers] else [])"
    "ll_point_futures ll = (if parallel then fa_coalesced_maps (sa_fut sa) @ tl_communicators tsk else [])"
    "parallel \<or> fa_coalesced_maps (sa_fut sa) = []"
    using assms(3) by (rule launched_split)
  have sees: "sees L par parallel tsk (barrier_futures parallel tsk barriers) sa ?task"
    using sa(4-8) by (auto simp: sees_def run_task_def barrier_futures_def)
  have "fa_coalesced_maps (sa_fut sa) = launched_maps tsk ll" using sa(7,8) by (auto simp: launched_maps_def)
  note provided = args_provided [OF assms(1,2) sa(1) sees, unfolded this]
  obtain inputs where i: "list_all2 (\<lambda>arg st. arg_store L sa ?task arg = Inr st) (tl_inputs tsk) inputs"
    "list_all2 (provides L (\<not> parallel) (barrier_futures parallel tsk barriers) (launched_maps tsk ll)) (tl_inputs tsk) inputs"
    by (rule provided [of "tl_inputs tsk"]) auto
  obtain outputs where o: "list_all2 (\<lambda>arg st. arg_store L sa ?task arg = Inr st) (tl_outputs tsk) outputs"
    "list_all2 (provides L (\<not> parallel) (barrier_futures parallel tsk barriers) (launched_maps tsk ll)) (tl_outputs tsk) outputs"
    by (rule provided [of "tl_outputs tsk"]) auto
  obtain reductions where r: "list_all2 (\<lambda>arg st. arg_store L sa ?task arg = Inr st) (tl_reductions tsk) reductions"
    "list_all2 (provides L (\<not> parallel) (barrier_futures parallel tsk barriers) (launched_maps tsk ll)) (tl_reductions tsk) reductions"
    by (rule provided [of "tl_reductions tsk"]) auto
  note prefix = packs_task_prefix [OF assms(2,4) _ i(1) o(1) r(1), simplified]
  have "\<exists>r. unpack_task_context ?task \<lparr>rd_pos = pos, rd_bytes = ll_args ll\<rparr> =
      Inr (\<lparr>tc_inputs = inputs, tc_outputs = outputs, tc_reductions = reductions, tc_scalars = tl_scalars tsk,
            tc_can_raise = tl_can_throw tsk, tc_can_elide_sync = tl_can_elide_sync tsk,
            tc_barriers = (if parallel then front_barriers tsk ?futures else None),
            tc_comms = (if parallel then front_comms tsk ?futures else [])\<rparr>, r)"
  proof (cases parallel)
    case True
    have "packs 0 (pack_sync True tsk) (unpack_synchronization ?task) (front_barriers tsk ?futures, front_comms tsk ?futures)"
      using packs_sync [of ?task tsk] assms(2) sa(6,7) True by (simp add: launcher_ok_def)
    from packs_read [OF prefix [OF this] packs_return [of undefined]] show ?thesis
      using sa(2,3) True assms(5) by (simp add: pack_task_arg_eq(1))
  next
    case False
    have "packs 0 Inr (unpack_synchronization ?task) (None, [])"
      using False by (simp add: unpack_synchronization_def packs_return)
    note front = prefix [OF this]
    from packs_read [OF front packs_sync_bytes [of False tsk]] show ?thesis
      using sa(2,3) False assms(5) by (simp add: pack_task_arg_eq)
  qed
  then show thesis using that i(2) o(2) r(2) by blast
qed

lemma packs_mapper_arg:
  assumes "i32_ok (tl_priority tsk)"
  shows "packs 0 (pack_mapper_arg tsk) unpack_mappable
    \<lparr>ma_streaming = tl_streaming tsk,
     ma_machine = \<lparr>m_preferred = m_preferred (tl_machine tsk), m_ranges = drop_empty (m_ranges (tl_machine tsk))\<rparr>,
     ma_key_projection = tl_key_projection tsk, ma_sharding = tl_sharding tsk, ma_priority = tl_priority tsk\<rparr>"
  unfolding pack_mapper_arg_def unpack_mappable_def
  by (auto intro!: packs_step [OF generation_codec.packs_optional] packs_step [OF packs_machine] packs_step32
      packs_last [OF packs_i32 [OF assms]] split: option.split)

text \<open>Once the arguments are analyzed, nothing in a launch fails.\<close>

lemma launch_succeeds:
  assumes "accesses_ok L tsk" "launcher_ok tsk" "i32_ok (tl_priority tsk)"
    and "analyze_arguments L parallel tsk = Inr sa" "parallel \<or> fa_coalesced_maps (sa_fut sa) = []"
    and "length (ra_populate_launcher L par (\<not> parallel) (sa_req sa)) < 2 ^ 32" "length (oa_field_groups (sa_out sa)) < 2 ^ 32"
    and "length (fa_coalesced (sa_fut sa)) + 2 + length (fa_coalesced_maps (sa_fut sa)) + length (tl_communicators tsk) < 2 ^ 31"
  shows "\<exists>ll. launched L par has_side_effect barriers bases tsk parallel = Inr ll \<and> task_ok (run_task parallel no_region ll)"
proof -
  let ?barriers = "if parallel \<and> tl_insert_barrier tsk then [fst barriers, snd barriers] else []"
  let ?points = "if parallel then fa_coalesced_maps (sa_fut sa) @ tl_communicators tsk else []"
  obtain reqs where reqs: "populate_output_requirements (sa_out sa) = Inr reqs" using assms(2,4) by (rule outputs_analyzed)
  have len: "length reqs < 2 ^ 32" using reqs assms(7) by (simp add: populate_output_requirements_def rmapM_length)
  let ?task = "\<lparr>tk_is_index = False, tk_tree_reduce = False, tk_no_region = no_region,
    tk_regions = ra_populate_launcher L par (\<not> parallel) (sa_req sa), tk_outputs = reqs,
    tk_futures = (fa_coalesced (sa_fut sa) @ ?barriers) @ ?points\<rparr>"
  have ok: "task_ok ?task" using assms(6,8) len by (auto simp: task_ok_def)
  have sees: "sees L par parallel tsk ?barriers sa ?task" using reqs assms(5) by (auto simp: sees_def)
  note provided = args_provided [OF assms(1,2,4) sees]
  obtain inputs where i: "list_all2 (\<lambda>arg st. arg_store L sa ?task arg = Inr st) (tl_inputs tsk) inputs"
    by (rule provided [of "tl_inputs tsk"]) auto
  obtain outputs where o: "list_all2 (\<lambda>arg st. arg_store L sa ?task arg = Inr st) (tl_outputs tsk) outputs"
    by (rule provided [of "tl_outputs tsk"]) auto
  obtain reductions where r: "list_all2 (\<lambda>arg st. arg_store L sa ?task arg = Inr st) (tl_reductions tsk) reductions"
    by (rule provided [of "tl_reductions tsk"]) auto
  have "packs 0 Inr (unpack_synchronization ?task) (None, [])" by (simp add: unpack_synchronization_def packs_return)
  note prefix = packs_task_prefix [OF assms(2) ok _ i o r this, simplified]
  obtain b1 where b1: "pack_task_prefix L sa tsk Inr (empty_builder (fst bases)) = Inr b1" using prefix by (rule packsD)
  obtain b2 where "pack_sync parallel tsk b1 = Inr b2" by (rule packsD [OF packs_sync_bytes])
  then have args: "pack_task_arg L parallel sa tsk (empty_builder (fst bases)) = Inr b2"
    using b1 fun_cong [OF pack_task_arg_eq(2) [of L sa tsk Inr "pack_sync parallel tsk"], of "empty_builder (fst bases)"]
    by (simp add: pack_task_arg_eq(1) pseq_def)
  obtain b3 where mapper: "pack_mapper_arg tsk (empty_builder (snd bases)) = Inr b3"
    by (rule packsD [OF packs_mapper_arg [OF assms(3)]])
  show ?thesis
    using assms(4,5) reqs args mapper ok
    by (auto simp: launched_def execute_def execute_single_def fa_populate_index_def fa_populate_single_def task_ok_def run_task_def)
qed

lemma front_of_no_futures:
  assumes "launched L par has_side_effect barriers bases tsk True = Inr ll"
    and "accesses future_access (all_args tsk) @ tl_futures tsk = []"
    and "accesses future_map_access (all_args tsk) @ tl_future_maps tsk = []"
  shows "front_barriers tsk (ll_futures ll @ ll_point_futures ll) = (if tl_insert_barrier tsk then Some barriers else None) \<and>
    front_comms tsk (ll_futures ll @ ll_point_futures ll) = tl_communicators tsk"
proof -
  obtain sa where sa: "analyze_arguments L True tsk = Inr sa"
    "ll_futures ll = fa_coalesced (sa_fut sa) @ (if True \<and> tl_insert_barrier tsk then [fst barriers, snd barriers] else [])"
    "ll_point_futures ll = (if True then fa_coalesced_maps (sa_fut sa) @ tl_communicators tsk else [])"
    using assms(1) by (rule launched_split)
  then show ?thesis using analyze_no_futures [OF sa(1)] assms(2,3)
    by (cases barriers) (simp add: front_barriers_def front_comms_def)
qed

text \<open>C4: What a task of a launch reads from its argument buffer: for every input, output and reduction, in order, the store
  of the launcher's argument, with its type and transform and with a region requirement for the region, field, partition
  and privilege of the argument, an output requirement for its field space and field, or a future; then the scalars and
  the flags of the launcher; and in an index launch without futures and future maps the barriers and communicators of
  the launcher.
  The future of a scalar store is its own. So is that of a replicated scalar store in a launch without barriers; with
  barriers it is, as the code stands, the one two places before its own among the barriers and the future maps
  (\<open>provides\<close>). The accesses satisfy the hypotheses of \<open>requirement_index\<close>, and the values fit the formats they are sent
  in.\<close>

theorem task_reads_arguments:
  assumes "accesses_ok L tsk" "launcher_ok tsk"
    and "launched L par has_side_effect barriers bases tsk parallel = Inr ll"
    and "task_ok (run_task parallel no_region ll)" "pos mod 16 = fst bases mod 16"
  shows "\<exists>ctx r. unpack_task_context (run_task parallel no_region ll) \<lparr>rd_pos = pos, rd_bytes = ll_args ll\<rparr> = Inr (ctx, r) \<and>
    list_all2 (provides L (\<not> parallel) (barrier_futures parallel tsk barriers) (launched_maps tsk ll)) (tl_inputs tsk) (tc_inputs ctx) \<and>
    list_all2 (provides L (\<not> parallel) (barrier_futures parallel tsk barriers) (launched_maps tsk ll)) (tl_outputs tsk) (tc_outputs ctx) \<and>
    list_all2 (provides L (\<not> parallel) (barrier_futures parallel tsk barriers) (launched_maps tsk ll)) (tl_reductions tsk) (tc_reductions ctx) \<and>
    distinct (launched_maps tsk ll) \<and>
    tc_scalars ctx = tl_scalars tsk \<and> tc_can_raise ctx = tl_can_throw tsk \<and> tc_can_elide_sync ctx = tl_can_elide_sync tsk \<and>
    (parallel \<and> accesses future_access (all_args tsk) @ tl_futures tsk = [] \<and>
       accesses future_map_access (all_args tsk) @ tl_future_maps tsk = [] \<longrightarrow>
     tc_barriers ctx = (if tl_insert_barrier tsk then Some barriers else None) \<and> tc_comms ctx = tl_communicators tsk)"
proof -
  note front = front_of_no_futures [of L par has_side_effect barriers bases tsk ll] and maps = launched_maps_distinct [OF assms(3)]
  show ?thesis
    by (rule context_read [OF assms], intro exI conjI, assumption) (use assms(3) front maps in \<open>auto simp del: concat_eq_Nil_conv map_append concat_append\<close>)
qed

definition example_view :: store_view where
  "example_view = \<lparr>sv_scalar = False, sv_unbound = False, sv_dim = 1, sv_type = PrimitiveType INT64, sv_transform = [Shift 0 3],
     sv_region = 4, sv_field = 10, sv_storage_dim = 1, sv_extents = [5]\<rparr>"

definition example_launcher :: task_launcher where
  "example_launcher = \<lparr>tl_library = 1, tl_task_info = 2, tl_inputs = [RegionFieldArg example_view 1 (Some 7, 0, - 1)],
     tl_outputs = [WriteOnlyScalarStoreArg (example_view\<lparr>sv_scalar := True\<rparr>) (- 1)], tl_reductions = [], tl_scalars = [],
     tl_future_size = 0, tl_can_throw = True, tl_can_elide_sync = False, tl_insert_barrier = True, tl_communicators = [30],
     tl_futures = [], tl_future_maps = [], tl_relax_checks = False, tl_streaming = None,
     tl_machine = \<lparr>m_preferred = CPU, m_ranges = Map.empty\<rparr>, tl_key_projection = 0, tl_sharding = 0, tl_priority = 0\<rparr>"

lemma wf_example: "view_ok example_view"
  by (simp add: view_ok_def example_view_def primitive_type_def mk_primitive_type_def)

lemma example_ok: "accesses_ok legion_privileges example_launcher" "launcher_ok example_launcher"
  by (auto simp: accesses_ok_def launcher_ok_def example_launcher_def example_view_def view_ok_def privileges_ok_def
      primitive_type_def mk_primitive_type_def legion_privilege_simps mask_consistent_def)

lemma example_launch:
  "\<exists>ll. launched legion_privileges id False (20, 21) (0, 0) example_launcher True = Inr ll \<and>
     task_ok (run_task True no_region ll)"
proof -
  have "\<exists>sa. analyze_arguments legion_privileges True example_launcher = Inr sa \<and> 
      length (ra_populate_launcher legion_privileges id (\<not> True) (sa_req sa)) < 2 ^ 32 \<and> length (oa_field_groups (sa_out sa)) < 2 ^ 32 \<and>
      length (fa_coalesced (sa_fut sa)) + 2 + length (fa_coalesced_maps (sa_fut sa)) + length (tl_communicators example_launcher) < 2 ^ 31"
    by (simp add: analyze_arguments_def example_launcher_def example_view_def store_analyzer_default_def analyzer_simps
        sa_analyze_def ra_analyze_requirements_def ra_populate_launcher_def coalesce_def coalesce_field_def omap_alter_def
        fs_populate_launcher_def oa_analyze_requirements_def analyze_futures_def Let_def)
  then show ?thesis using example_ok by (elim exE conjE, intro launch_succeeds) (auto simp: example_launcher_def)
qed

lemma task_reads_arguments_witness:
  "\<exists>ll ctx r. launched legion_privileges id False (20, 21) (0, 0) example_launcher True = Inr ll \<and>
     unpack_task_context (run_task True 0 ll) \<lparr>rd_pos = 0, rd_bytes = ll_args ll\<rparr> = Inr (ctx, r) \<and> tc_comms ctx = [30]"
proof -
  obtain ll where ll: "launched legion_privileges id False (20, 21) (0, 0) example_launcher True = Inr ll"
    "task_ok (run_task True 0 ll)" using example_launch by blast
  have none: "accesses future_access (all_args example_launcher) @ tl_futures example_launcher = []"
    "accesses future_map_access (all_args example_launcher) @ tl_future_maps example_launcher = []"
    "tl_communicators example_launcher = [30]"
    by (simp_all add: example_launcher_def)
  show ?thesis using task_reads_arguments [OF example_ok ll, of 0] none ll(1) by auto
qed

section \<open>The mapper sees the stores of the task\<close>

text \<open>\<open>agrees u v R\<close>: where \<open>u\<close> reads a value, \<open>v\<close> reads the same bytes as a related value; \<open>leads u v R\<close>:
  \<open>v\<close> may stop earlier.\<close>

definition agrees :: "'a unpacker \<Rightarrow> 'b unpacker \<Rightarrow> ('a \<Rightarrow> 'b \<Rightarrow> bool) \<Rightarrow> bool" where
  "agrees u v R \<longleftrightarrow> (\<forall>r x r'. u r = Inr (x, r') \<longrightarrow> (\<exists>y. v r = Inr (y, r') \<and> R x y))"

definition leads :: "'a unpacker \<Rightarrow> 'b unpacker \<Rightarrow> ('a \<Rightarrow> 'b \<Rightarrow> bool) \<Rightarrow> bool" where
  "leads u v R \<longleftrightarrow> (\<forall>r x r'. u r = Inr (x, r') \<longrightarrow> (\<exists>y r''. v r = Inr (y, r'') \<and> R x y))"

lemma agreesD: "agrees u v R \<Longrightarrow> u r = Inr (x, r') \<Longrightarrow> \<exists>y. v r = Inr (y, r') \<and> R x y"
  unfolding agrees_def by blast

lemma agrees_refl [intro]: "agrees u u (=)"
  by (simp add: agrees_def)

lemma agrees_bind:
  assumes "agrees u v R" "\<And>x y. R x y \<Longrightarrow> agrees (f x) (g y) S"
  shows "agrees (ubind u f) (ubind v g) S"
  unfolding agrees_def
proof (intro allI impI)
  fix r z r' assume "ubind u f r = Inr (z, r')"
  then obtain x r1 where x: "u r = Inr (x, r1)" "f x r1 = Inr (z, r')" by (auto simp: ubind_def rbind_eq_Inr)
  obtain y where y: "v r = Inr (y, r1)" "R x y" using agreesD [OF assms(1) x(1)] by blast
  show "\<exists>w. ubind v g r = Inr (w, r') \<and> S z w" using agreesD [OF assms(2) [OF y(2)] x(2)] y(1) by (simp add: ubind_def)
qed

lemma leads_bind:
  assumes "agrees u v R" "\<And>x y. R x y \<Longrightarrow> leads (f x) (g y) S"
  shows "leads (ubind u f) (ubind v g) S"
  unfolding leads_def
proof (intro allI impI)
  fix r z r' assume "ubind u f r = Inr (z, r')"
  then obtain x r1 where x: "u r = Inr (x, r1)" "f x r1 = Inr (z, r')" by (auto simp: ubind_def rbind_eq_Inr)
  obtain y where y: "v r = Inr (y, r1)" "R x y" using agreesD [OF assms(1) x(1)] by blast
  have "\<exists>w r''. g y r1 = Inr (w, r'') \<and> S z w" using assms(2) [OF y(2)] x(2) unfolding leads_def by blast
  then show "\<exists>w r''. ubind v g r = Inr (w, r'') \<and> S z w" using y(1) by (simp add: ubind_def)
qed

lemma agrees_bind_same: "(\<And>x. agrees (f x) (g x) S) \<Longrightarrow> agrees (ubind u f) (ubind u g) S"
  by (rule agrees_bind [OF agrees_refl]) simp

lemma leads_bind_same: "(\<And>x. leads (f x) (g x) S) \<Longrightarrow> leads (ubind u f) (ubind u g) S"
  by (rule leads_bind [OF agrees_refl]) simp

lemma agrees_return: "R x y \<Longrightarrow> agrees (ureturn x) (ureturn y) R"
  by (simp add: agrees_def ureturn_def)

lemma agrees_lift: "(\<And>x. m = Inr x \<Longrightarrow> \<exists>y. m' = Inr y \<and> R x y) \<Longrightarrow> agrees (ulift m) (ulift m') R"
  by (fastforce simp: agrees_def ulift_def rbind_eq_Inr)

lemma agrees_error: "agrees (ulift (Inl e)) v R"
  by (simp add: agrees_def ulift_def)

lemma agrees_n: "agrees u v R \<Longrightarrow> agrees (unpack_n u n) (unpack_n v n) (list_all2 R)"
  by (induction n) (auto intro!: agrees_return agrees_bind)

lemma agrees_vector: "agrees u v R \<Longrightarrow> agrees (unpack_vector u) (unpack_vector v) (list_all2 R)"
  unfolding unpack_vector_def by (intro agrees_bind_same agrees_n)

text \<open>A mapper keeps the index of a future, or none: an index that is no position.\<close>

fun same_store :: "legion_task \<Rightarrow> physical_store \<Rightarrow> mapper_store \<Rightarrow> bool" where
  "same_store task (FuturePhysicalStore dim type redop fut transform) (MapperFutureStore dim' type' idx domain transform') =
     (dim' = dim \<and> type' = type \<and> transform' = transform \<and> domain = fw_domain fut \<and>
      (\<forall>f. fw_future fut = Some f \<longrightarrow> unat idx < length (tk_futures task) \<and> tk_futures task ! unat idx = f))"
| "same_store task (RegionPhysicalStore dim type redop rf transform) (MapperRegionStore dim' type' redop' mr unbound transform') =
     (dim' = dim \<and> type' = type \<and> transform' = transform \<and> redop' = redop \<and> \<not> unbound \<and> \<not> mr_unbound mr \<and>
      mr_requirement mr = Inl (rf_requirement rf) \<and> mr_dim mr = rf_dim rf \<and> mr_field mr = rf_field rf)"
| "same_store task (UnboundPhysicalStore dim type out transform) (MapperRegionStore dim' type' redop' mr unbound transform') =
     (dim' = dim \<and> type' = type \<and> transform' = transform \<and> redop' = - 1 \<and> unbound \<and> mr_unbound mr \<and>
      mr_requirement mr = Inr (uf_output out) \<and> mr_field mr = uf_field out)"
| "same_store task _ _ = False"

lemma agrees_i32: "agrees unpack_i32 unpack_i32 (\<lambda>i j. j = i \<and> i < 2 ^ 31)"
proof -
  have "sint w < 2 ^ 31" for w :: u32 using sint_less [of w] by simp
  then show ?thesis unfolding unpack_i32_def by (intro agrees_bind_same agrees_return) simp
qed

lemma agrees_future_wrapper:
  "agrees (unpack_future_wrapper task) unpack_mapper_future_wrapper
     (\<lambda>fut (idx, domain). domain = fw_domain fut \<and>
        (\<forall>f. fw_future fut = Some f \<longrightarrow> unat idx < length (tk_futures task) \<and> tk_futures task ! unat idx = f))"
proof -
  have idx: "unat (word_of_int i :: u32) = nat i" if "0 \<le> i" "i < 2 ^ 31" for i
    using that by (simp add: unsigned_of_int take_bit_int_eq_self)
  have ret: "ureturn y = ulift (Inr y)" for y :: "u32 \<times> domain" by simp
  show ?thesis unfolding unpack_future_wrapper_def unpack_mapper_future_wrapper_def ret
    by (rule agrees_bind_same, rule agrees_bind [OF agrees_i32], (rule agrees_bind_same)+, rule agrees_lift)
      (auto simp: rbind_eq_Inr vec_get_eq_Inr idx split: if_splits)
qed

lemma agrees_region_field:
  "agrees (unpack_region_field task) (unpack_mapper_region_field task False)
     (\<lambda>rf mr. \<not> mr_unbound mr \<and> mr_requirement mr = Inl (rf_requirement rf) \<and> mr_dim mr = rf_dim rf \<and> mr_field mr = rf_field rf)"
  unfolding unpack_region_field_def unpack_mapper_region_field_def
  by (intro agrees_bind_same agrees_lift) (auto simp: rbind_eq_Inr)

lemma agrees_unbound_field:
  "agrees (unpack_unbound_region_field task) (unpack_mapper_region_field task True)
     (\<lambda>uf mr. mr_unbound mr \<and> mr_requirement mr = Inr (uf_output uf) \<and> mr_field mr = uf_field uf)"
  unfolding unpack_unbound_region_field_def unpack_mapper_region_field_def
  by (intro agrees_bind_same agrees_lift) (auto simp: rbind_eq_Inr)

lemma initialize_keeps:
  "(if b then initialize_with_identity redop fut else Inr fut) = Inr fut' \<Longrightarrow> fw_domain fut' = fw_domain fut \<and> fw_future fut' = fw_future fut"
  by (auto simp: initialize_with_identity_def rguard_eq_Inr split: if_splits)

lemma agrees_store: "agrees (unpack_store task) (unpack_mapper_store task) (same_store task)"
proof -
  have fut: "agrees
      (ubind (unpack_future_wrapper task) (\<lambda>fut.
         ulift (rbind (if redop \<noteq> - 1 \<and> fw_future fut = None then initialize_with_identity redop fut else Inr fut) (\<lambda>fut.
           Inr (FuturePhysicalStore dim type redop fut transform)))))
      (ubind unpack_mapper_future_wrapper (\<lambda>(idx, domain). ureturn (MapperFutureStore dim type idx domain transform)))
      (same_store task)" for redop dim type transform
  proof (rule agrees_bind [OF agrees_future_wrapper])
    fix fut :: future_wrapper and m :: "u32 \<times> domain"
    assume m: "case m of (idx, domain) \<Rightarrow> domain = fw_domain fut \<and>
      (\<forall>f. fw_future fut = Some f \<longrightarrow> unat idx < length (tk_futures task) \<and> tk_futures task ! unat idx = f)"
    have ret: "(case m of (idx, domain) \<Rightarrow> ureturn (MapperFutureStore dim type idx domain transform)) =
        ulift (Inr (MapperFutureStore dim type (fst m) (snd m) transform))" by (simp add: prod.case_eq_if)
    show "agrees (ulift (rbind (if redop \<noteq> - 1 \<and> fw_future fut = None then initialize_with_identity redop fut else Inr fut) (\<lambda>fut.
           Inr (FuturePhysicalStore dim type redop fut transform))))
        (case m of (idx, domain) \<Rightarrow> ureturn (MapperFutureStore dim type idx domain transform)) (same_store task)"
      unfolding ret using m by (intro agrees_lift) (auto simp: rbind_eq_Inr dest!: initialize_keeps)
  qed
  show ?thesis
    unfolding unpack_store_def unpack_mapper_store_def
  proof (intro agrees_bind_same)
    fix is_future unbound dim type transform
    show "agrees (ubind unpack_i32 (\<lambda>redop_id.
         if is_future then
           ubind (unpack_future_wrapper task) (\<lambda>fut.
             ulift (rbind (if redop_id \<noteq> - 1 \<and> fw_future fut = None then initialize_with_identity redop_id fut else Inr fut) (\<lambda>fut.
               Inr (FuturePhysicalStore dim type redop_id fut transform))))
         else if \<not> unbound then
           ubind (unpack_region_field task) (\<lambda>rf. ureturn (RegionPhysicalStore dim type redop_id rf transform))
         else if redop_id \<noteq> - 1 then ulift (Inl CheckFailed)
         else ubind (unpack_unbound_region_field task) (\<lambda>out. ureturn (UnboundPhysicalStore dim type out transform))))
      (if is_future then
           ubind unpack_i32 (\<lambda>redop_id. ubind unpack_mapper_future_wrapper (\<lambda>(idx, domain).
             ureturn (MapperFutureStore dim type idx domain transform)))
         else
           ubind unpack_i32 (\<lambda>redop_id. ubind (unpack_mapper_region_field task unbound) (\<lambda>rf.
             ureturn (MapperRegionStore dim type redop_id rf unbound transform)))) (same_store task)"
      by (cases is_future; cases unbound)
        (auto intro!: fut agrees_bind_same agrees_return agrees_error
          agrees_bind [OF agrees_region_field] agrees_bind [OF agrees_unbound_field])
  qed
qed

lemma same_store_valid: "same_store task p m \<Longrightarrow> mapper_store_valid task m = store_valid task p"
  by (cases p; cases m) auto

lemma filter_related:
  "list_all2 R xs ys \<Longrightarrow> (\<And>x y. R x y \<Longrightarrow> Q y = P x) \<Longrightarrow> list_all2 R (filter P xs) (filter Q ys)"
  by (induction rule: list_all2_induct) auto

lemma leads_stop: "(\<And>x r r'. u r = Inr (x, r') \<Longrightarrow> R x y) \<Longrightarrow> leads u (ureturn y) R"
  by (auto simp: leads_def ureturn_def)

text \<open>C30: From any argument buffer that a task can read, its mapper reads the same scalars and the same
  inputs, outputs and reductions, in order: equal dimensions, types and transforms, the same requirement
  and field for a region or an unbound store, the same domain and future for a scalar store; in a
  reduction tree both leave out the same inputs.\<close>

theorem mapper_reads_stores:
  assumes "unpack_task_context task r = Inr (ctx, r')"
  shows "\<exists>mt r''. unpack_mapper_task task r = Inr (mt, r'') \<and>
    list_all2 (same_store task) (tc_inputs ctx) (mt_inputs mt) \<and>
    list_all2 (same_store task) (tc_outputs ctx) (mt_outputs mt) \<and>
    list_all2 (same_store task) (tc_reductions ctx) (mt_reductions mt) \<and>
    mt_scalars mt = tc_scalars ctx \<and> mt_can_raise mt = tc_can_raise ctx"
proof -
  let ?R = "\<lambda>ctx mt.
    list_all2 (same_store task) (tc_inputs ctx) (mt_inputs mt) \<and>
    list_all2 (same_store task) (tc_outputs ctx) (mt_outputs mt) \<and>
    list_all2 (same_store task) (tc_reductions ctx) (mt_reductions mt) \<and>
    mt_scalars mt = tc_scalars ctx \<and> mt_can_raise mt = tc_can_raise ctx"
  have filter: "list_all2 (same_store task) (filter_inputs task store_valid ps) (filter_inputs task mapper_store_valid ms)"
    if "list_all2 (same_store task) ps ms" for ps ms
    using that filter_related [OF that same_store_valid] by (simp add: filter_inputs_def)
  note stores = agrees_vector [OF agrees_store [of task]]
  have "leads (unpack_task_context task) (unpack_mapper_task task) ?R"
    unfolding unpack_task_context_def unpack_mapper_task_def unpack_stores_def
    by (intro leads_bind_same leads_bind [OF stores] leads_stop)
      (auto simp: ubind_def rbind_eq_Inr ureturn_def intro: filter)
  then show ?thesis using assms unfolding leads_def by blast
qed

lemma mapper_reads_stores_witness:
  "\<exists>ll mt r. launched legion_privileges id False (20, 21) (0, 0) example_launcher True = Inr ll \<and>
     unpack_mapper_task (run_task True 0 ll) \<lparr>rd_pos = 0, rd_bytes = ll_args ll\<rparr> = Inr (mt, r)"
proof -
  obtain ll where ll: "launched legion_privileges id False (20, 21) (0, 0) example_launcher True = Inr ll"
    "task_ok (run_task True 0 ll)" using example_launch by blast
  obtain ctx r where "unpack_task_context (run_task True 0 ll) \<lparr>rd_pos = 0, rd_bytes = ll_args ll\<rparr> = Inr (ctx, r)"
    by (rule context_read [OF example_ok ll, of 0]) simp_all
  from mapper_reads_stores [OF this] ll(1) show ?thesis by blast
qed

section \<open>Futures in front of the barriers\<close>

text \<open>The barriers and the communicators stand behind the futures of scalar stores, but a task takes them from the
  front: with a scalar argument, the communicator it reads is that argument's future. And the number of
  a future map does not count the barriers in front of it.\<close>

lemma communicator_is_scalar_future:
  assumes "launched L par has_side_effect barriers bases tsk True = Inr ll"
    and "\<not> tl_insert_barrier tsk" "tl_communicators tsk = [comm]"
    and "ScalarStoreArg v future offset read_only redop \<in> set (tl_inputs tsk)"
  shows "\<exists>f. front_comms tsk (ll_futures ll @ ll_point_futures ll) = [f] \<and> f = hd (ll_futures ll)"
proof -
  obtain sa where sa: "analyze_arguments L True tsk = Inr sa"
    "ll_futures ll = fa_coalesced (sa_fut sa) @ (if True \<and> tl_insert_barrier tsk then [fst barriers, snd barriers] else [])"
    using assms(1) by (rule launched_split)
  have "future \<in> set (accesses future_access (all_args tsk) @ tl_futures tsk)" using assms(4) by (auto intro: rev_bexI)
  then have "fa_coalesced (sa_fut sa) \<noteq> []"
    using analyze_arguments_split [OF sa(1)] futures_index by (metis length_0_conv less_nat_zero_code)
  then obtain f fs where "ll_futures ll = f # fs" using sa(2) assms(2) by (auto simp: neq_Nil_conv)
  then show ?thesis using assms(2,3) by (simp add: front_comms_def)
qed

lemma barrier_shifts_future_maps:
  assumes "tk_futures task = fa_coalesced (sa_fut sa) @ [arrival, wait] @ fa_coalesced_maps (sa_fut sa) @ comms"
    and "fa_get_map_index m (sa_fut sa) = Inr (length (fa_coalesced (sa_fut sa)))"
  shows "arg_store L sa task (ReplicatedScalarStoreArg v m offset read_only) =
    Inr (FuturePhysicalStore (int (sv_dim v)) (sv_type v) (- 1)
      (scalar_wrapper v read_only offset (sv_extents v) (Some arrival) None) (sv_transform v))"
  using assms by (simp add: vec_get_eq_Inr nth_append)

end
