(* ===== verification/Stores.thy ===== *)
theory Stores
  imports PartitionManager Types
begin

text \<open>
  Logical stores and their storages: \<open>Storage\<close> (data/detail/storage), \<open>StoragePartition\<close>
  (data/detail/storage_partition), \<open>Shape\<close> (data/detail/shape), \<open>LogicalStore\<close> (data/detail/logical_store) and
  \<open>LogicalStorePartition\<close> (data/detail/logical_store_partition).

  \<^item> Storages are shared and mutated through pointers: a storage is an address, its number, in the list of
    the storages created so far. A view is a value with the address of its storage.
  \<^item> \<open>BoundShape\<close> has an index space, whose domain \<open>extents\<close> asks Legion for; the cached \<open>READY\<close> state gives the
    same extents. Accessing an unbound shape raises the exception of \<open>ensure_binding_\<close> (no pending
    operation binds it).
  \<^item> Region fields and futures are not modelled: only the kind of a storage is. \<open>BadVariantAccess\<close> is the
    \<open>std::bad_variant_access\<close> of \<open>region_field_()\<close>.
  \<^item> \<open>inline\<close> is \<open>config().enable_inline_task_launch()\<close>, \<open>max_dim\<close> is \<open>LEGATE_MAX_DIM\<close>, \<open>m\<close> the machine of the
    runtime.
\<close>

section \<open>Shapes\<close>

datatype shape =
    UnboundShape nat
  | BoundShape domain
  | ReadyShape "u64 list"

fun shape_unbound :: "shape \<Rightarrow> bool" where
  "shape_unbound (UnboundShape n) = True"
| "shape_unbound _ = False"

fun shape_ready :: "shape \<Rightarrow> bool" where
  "shape_ready (ReadyShape es) = True"
| "shape_ready _ = False"

fun shape_ndim :: "shape \<Rightarrow> nat" where
  "shape_ndim (UnboundShape n) = n"
| "shape_ndim (BoundShape d) = get_dim d"
| "shape_ndim (ReadyShape es) = length es"

fun shape_extents :: "shape \<Rightarrow> u64 list result" where
  "shape_extents (UnboundShape n) = Inl InvalidArgument"
| "shape_extents (BoundShape d) = Inr (from_domain d)"
| "shape_extents (ReadyShape es) = Inr es"

definition shape_volume :: "shape \<Rightarrow> u64 result" where
  "shape_volume s = rbind (shape_extents s) (\<lambda>es. Inr (array_volume es))"

definition shape_eq :: "shape \<Rightarrow> shape \<Rightarrow> bool result" where
  "shape_eq a b =
     (if shape_unbound a \<or> shape_unbound b then Inl InvalidArgument
      else rbind (shape_extents a) (\<lambda>ea. rbind (shape_extents b) (\<lambda>eb. Inr (ea = eb))))"

section \<open>Storages\<close>

datatype storage_kind = REGION_FIELD | FUTURE | FUTURE_MAP | INLINE_STORAGE

record storage_partition =
  sp_complete :: bool
  sp_level :: nat
  sp_parent :: nat
  sp_partition :: partition

record storage =
  so_kind :: storage_kind
  so_unbound :: bool
  so_shape :: shape
  so_level :: nat
  so_parent :: "storage_partition option"
  so_color :: "u64 list"
  so_offsets :: "int list"
  so_num_pieces :: u32
  so_key_partition :: "partition option"

type_synonym storages = "storage list"

definition so_deferred_bound :: "storage \<Rightarrow> bool" where
  "so_deferred_bound s \<longleftrightarrow> \<not> so_unbound s \<and> shape_unbound (so_shape s)"

definition so_has_scalar_storage :: "storage \<Rightarrow> bool" where
  "so_has_scalar_storage s \<longleftrightarrow> so_kind s = FUTURE \<or> so_kind s = FUTURE_MAP"

definition mk_storage :: "bool \<Rightarrow> bool \<Rightarrow> shape \<Rightarrow> storages \<Rightarrow> (storages \<times> nat) result" where
  "mk_storage inline optimize_scalar shape sts =
     rbind (if inline then Inr INLINE_STORAGE
            else if optimize_scalar \<and> shape_unbound shape then Inr FUTURE_MAP
            else if optimize_scalar \<and> shape_ready shape
            then rbind (shape_volume shape) (\<lambda>v. Inr (if v = 1 then FUTURE else REGION_FIELD))
            else Inr REGION_FIELD) (\<lambda>kind.
       Inr (sts @ [\<lparr>so_kind = kind, so_unbound = shape_unbound shape, so_shape = shape, so_level = 0, so_parent = None,
                    so_color = [], so_offsets = replicate (shape_ndim shape) 0, so_num_pieces = 0,
                    so_key_partition = None\<rparr>], length sts))"

text \<open>The parent of a storage was created before it.\<close>

function get_root :: "storages \<Rightarrow> nat \<Rightarrow> nat result" where
  "get_root sts a =
     rbind (vec_get sts a) (\<lambda>s. case so_parent s of
        None \<Rightarrow> Inr a
      | Some p \<Rightarrow> if sp_parent p < a then get_root sts (sp_parent p) else Inl Diverges)"
  by pat_completeness auto
termination by (relation "measure snd") auto

declare get_root.simps [simp del]

text \<open>The sums are of \<open>int64_t\<close>.\<close>

definition add_i64 :: "int \<Rightarrow> int \<Rightarrow> int" where
  "add_i64 a b = sint (word_of_int (a + b) :: u64)"

fun overlap_loop :: "(u64 \<times> int \<times> u64 \<times> int) list \<Rightarrow> bool" where
  "overlap_loop [] = True"
| "overlap_loop ((lext, loff, rext, roff) # rest) =
     (if (if loff \<le> roff then roff < add_i64 loff (sint lext) else loff < add_i64 roff (sint rext))
      then overlap_loop rest else False)"

definition so_overlaps :: "storages \<Rightarrow> nat \<Rightarrow> nat \<Rightarrow> bool result" where
  "so_overlaps sts lhs rhs =
     (if lhs = rhs then Inr True
      else rbind (get_root sts lhs) (\<lambda>lroot. rbind (get_root sts rhs) (\<lambda>rroot.
        if lroot \<noteq> rroot then Inr False
        else rbind (vec_get sts lhs) (\<lambda>l. rbind (vec_get sts rhs) (\<lambda>r.
          rbind (shape_extents (so_shape l)) (\<lambda>lexts. rbind (shape_extents (so_shape r)) (\<lambda>rexts.
            if array_volume lexts = 0 \<or> array_volume rexts = 0 then Inr False
            else let n = shape_ndim (so_shape l)
                 in rguard (n \<le> length lexts \<and> n \<le> length rexts \<and> n \<le> length (so_offsets l) \<and> n \<le> length (so_offsets r)) OutOfBounds
                   (Inr (overlap_loop (map (\<lambda>i. (lexts ! i, so_offsets l ! i, rexts ! i, so_offsets r ! i)) [0..<n]))))))))))"

fun tile_divides :: "(u64 \<times> u64 \<times> int) list \<Rightarrow> bool result" where
  "tile_divides [] = Inr True"
| "tile_divides ((shp, tshap, off) # rest) =
     rguard (tshap \<noteq> 0) DivZero
       (if shp mod tshap = 0 \<and> word_of_int off mod tshap = 0 then tile_divides rest else Inr False)"

definition can_tile_completely_for :: "machine \<Rightarrow> u64 list \<Rightarrow> u64 list \<Rightarrow> int list \<Rightarrow> bool result" where
  "can_tile_completely_for m shape tile_shape offsets =
     rbind (zip_equal tile_shape offsets) (\<lambda>to. rbind (zip_equal shape to) (\<lambda>zipper.
       rbind (tile_divides zipper) (\<lambda>divisible.
         if divisible then use_complete_tiling m shape tile_shape else Inr False)))"

definition so_create_partition :: "storages \<Rightarrow> nat \<Rightarrow> partition \<Rightarrow> bool option \<Rightarrow> storage_partition result" where
  "so_create_partition sts self part complete =
     rbind (vec_get sts self) (\<lambda>s.
       rbind (case complete of
                Some c \<Rightarrow> Inr c
              | None \<Rightarrow> rbind (shape_extents (so_shape s)) (\<lambda>es. p_is_complete_for part es (so_offsets s))) (\<lambda>c.
         Inr \<lparr>sp_complete = c, sp_level = so_level s + 1, sp_parent = self, sp_partition = part\<rparr>))"

definition get_child_storage :: "bool \<Rightarrow> storages \<Rightarrow> storage_partition \<Rightarrow> u64 list \<Rightarrow> (storages \<times> nat) result" where
  "get_child_storage inline sts p color =
     (case sp_partition p of
        PTiling tiling \<Rightarrow>
          rbind (vec_get sts (sp_parent p)) (\<lambda>parent. rbind (shape_extents (so_shape parent)) (\<lambda>extents.
            rbind (get_child_extents tiling extents color) (\<lambda>child_extents. rbind (get_child_offsets tiling color) (\<lambda>child_offsets.
              rguard (so_kind parent = REGION_FIELD) BadVariantAccess (rguard (\<not> inline) CheckFailed
                (Inr (sts @ [\<lparr>so_kind = REGION_FIELD, so_unbound = False, so_shape = ReadyShape child_extents,
                              so_level = sp_level p + 1, so_parent = Some p, so_color = color, so_offsets = child_offsets,
                              so_num_pieces = 0, so_key_partition = None\<rparr>], length sts)))))))
      | _ \<Rightarrow> Inl RuntimeError)"

definition so_slice :: "machine \<Rightarrow> bool \<Rightarrow> storages \<Rightarrow> nat \<Rightarrow> u64 list \<Rightarrow> int list \<Rightarrow> (storages \<times> nat) result" where
  "so_slice m inline sts self tile_shape offsets =
     rbind (vec_get sts self) (\<lambda>s.
       if so_kind s = FUTURE then Inr (sts, self)
       else rbind (get_root sts self) (\<lambda>root. rbind (vec_get sts root) (\<lambda>r. rbind (shape_extents (so_shape r)) (\<lambda>shape.
         rbind (can_tile_completely_for m shape tile_shape offsets) (\<lambda>can_tile_completely.
           (let color_shape = (if can_tile_completely then map2 (div) shape tile_shape else replicate (length shape) 1);
                color = (if can_tile_completely then map2 (\<lambda>off tile. word_of_int off div tile) offsets tile_shape
                         else replicate (length shape) 0);
                offsets = (if can_tile_completely then map (\<lambda>_. 0) offsets else offsets)
            in rbind (create_tiling tile_shape color_shape offsets) (\<lambda>tiling.
              rbind (so_create_partition sts root (PTiling tiling) (Some can_tile_completely)) (\<lambda>p.
                get_child_storage inline sts p color))))))))"

text \<open>\<open>restrictions.are_satisfied_by(partition, shape)\<close> with its assertion on partitions without a color shape; the extents are
  waited for only where they are compared. Then the cached partition of a storage or of the nearest
  ancestor that has a fitting one.\<close>

definition partition_satisfies :: "restrictions \<Rightarrow> partition \<Rightarrow> shape \<Rightarrow> bool result" where
  "partition_satisfies r p shape =
     (if req_invertible r \<and> \<not> p_is_invertible p then Inr False
      else if \<not> p_has_color_shape p
      then rguard (case p of NoPartition \<Rightarrow> True | POpaque _ \<Rightarrow> True | _ \<Rightarrow> False) CheckFailed
             (are_satisfied_by r (p_is_invertible p) None None)
      else rbind (p_color_shape p) (\<lambda>cs.
             rbind (if needs_minimum_extent_check r then rbind (shape_extents shape) (\<lambda>es. Inr (Some es)) else Inr None) (\<lambda>es.
               are_satisfied_by r (p_is_invertible p) (Some cs) es)))"

function so_find_key_partition ::
  "storages \<Rightarrow> machine \<Rightarrow> parallel_policy \<Rightarrow> restrictions \<Rightarrow> nat \<Rightarrow> partition option result" where
  "so_find_key_partition sts m policy r a =
     rbind (vec_get sts a) (\<lambda>s.
       rbind (if so_num_pieces s = m_count m (m_preferred m) * pp_overdecompose_factor policy
              then (case so_key_partition s of
                      None \<Rightarrow> Inr None
                    | Some p \<Rightarrow> rbind (partition_satisfies r p (so_shape s)) (\<lambda>ok. Inr (if ok then Some p else None)))
              else Inr None) (\<lambda>own.
         case own of
           Some p \<Rightarrow> Inr (Some p)
         | None \<Rightarrow> (case so_parent s of
                      None \<Rightarrow> Inr None
                    | Some sp \<Rightarrow> if sp_parent sp < a then so_find_key_partition sts m policy r (sp_parent sp) else Inl Diverges)))"
  by pat_completeness auto
termination by (relation "measure (\<lambda>(sts, m, policy, r, a). a)") auto

declare so_find_key_partition.simps [simp del]

definition so_set_key_partition :: "machine \<Rightarrow> partition \<Rightarrow> nat \<Rightarrow> storages \<Rightarrow> storages result" where
  "so_set_key_partition m key_partition a sts =
     rbind (vec_get sts a) (\<lambda>s.
       vec_set a (s\<lparr>so_num_pieces := m_count m (m_preferred m), so_key_partition := Some key_partition\<rparr>) sts)"

definition so_reset_key_partition :: "nat \<Rightarrow> storages \<Rightarrow> storages result" where
  "so_reset_key_partition a sts = rbind (vec_get sts a) (\<lambda>s. vec_set a (s\<lparr>so_key_partition := None\<rparr>) sts)"

section \<open>Logical stores\<close>

record logical_store =
  ls_type :: ltype
  ls_shape :: shape
  ls_storage :: nat
  ls_transform :: transform_stack
  ls_non_transformable :: bool
  ls_domain :: "domain option"
  ls_num_pieces :: u32
  ls_key_partition :: "partition option"

definition mk_logical_store :: "bool \<Rightarrow> storages \<Rightarrow> nat \<Rightarrow> ltype \<Rightarrow> logical_store result" where
  "mk_logical_store inline sts a t =
     rbind (vec_get sts a) (\<lambda>s.
       rbind (if \<not> inline \<or> shape_unbound (so_shape s) then Inr None
              else rbind (shape_extents (so_shape s)) (\<lambda>es. Inr (Some (to_maybe_empty_domain es)))) (\<lambda>domain.
         rguard (\<not> variable_size t) InvalidArgument
           (Inr \<lparr>ls_type = t, ls_shape = so_shape s, ls_storage = a, ls_transform = [], ls_non_transformable = False,
                 ls_domain = domain, ls_num_pieces = 0, ls_key_partition = None\<rparr>)))"

definition mk_view :: "u64 list \<Rightarrow> nat \<Rightarrow> ltype \<Rightarrow> transform_stack \<Rightarrow> domain option \<Rightarrow> logical_store result" where
  "mk_view extents a t transform domain =
     rguard (\<not> variable_size t) InvalidArgument
       (Inr \<lparr>ls_type = t, ls_shape = ReadyShape extents, ls_storage = a, ls_transform = transform, ls_non_transformable = False,
             ls_domain = domain, ls_num_pieces = 0, ls_key_partition = None\<rparr>)"

definition mk_physical_view :: "storages \<Rightarrow> nat \<Rightarrow> ltype \<Rightarrow> logical_store result" where
  "mk_physical_view sts a t =
     rbind (vec_get sts a) (\<lambda>s. rguard (\<not> variable_size t) InvalidArgument
       (Inr \<lparr>ls_type = t, ls_shape = so_shape s, ls_storage = a, ls_transform = [], ls_non_transformable = True,
             ls_domain = None, ls_num_pieces = 0, ls_key_partition = None\<rparr>))"

definition create_store :: "nat \<Rightarrow> bool \<Rightarrow> shape \<Rightarrow> ltype \<Rightarrow> bool \<Rightarrow> storages \<Rightarrow> (storages \<times> logical_store) result" where
  "create_store max_dim inline shape t optimize_scalar sts =
     rguard (\<not> variable_size t) InvalidArgument (rguard (shape_ndim shape \<le> max_dim) OutOfRange
       (rbind (mk_storage inline optimize_scalar shape sts) (\<lambda>(sts, a).
         rbind (mk_logical_store inline sts a t) (\<lambda>s. Inr (sts, s)))))"

definition ls_extents :: "logical_store \<Rightarrow> u64 list result" where
  "ls_extents s = shape_extents (ls_shape s)"

definition ls_dim :: "logical_store \<Rightarrow> nat" where
  "ls_dim s = shape_ndim (ls_shape s)"

definition ls_overlaps :: "storages \<Rightarrow> logical_store \<Rightarrow> logical_store \<Rightarrow> bool result" where
  "ls_overlaps sts a b = so_overlaps sts (ls_storage a) (ls_storage b)"

definition reinterpret_as :: "bool \<Rightarrow> storages \<Rightarrow> ltype \<Rightarrow> logical_store \<Rightarrow> logical_store result" where
  "reinterpret_as inline sts t s =
     rbind (type_size t) (\<lambda>new_size. rbind (type_size (ls_type s)) (\<lambda>old_size.
       rguard (new_size = old_size) InvalidArgument (rguard (type_alignment t = type_alignment (ls_type s)) InvalidArgument
         (mk_logical_store inline sts (ls_storage s) t))))"

definition promote_store :: "int \<Rightarrow> u64 \<Rightarrow> logical_store \<Rightarrow> logical_store result" where
  "promote_store extra_dim dim_size s =
     rguard (\<not> ls_non_transformable s) RuntimeError
       (rguard (0 \<le> extra_dim \<and> extra_dim \<le> int (ls_dim s)) InvalidArgument
         (rbind (ls_extents s) (\<lambda>extents. rbind (vec_insert (nat extra_dim) dim_size extents) (\<lambda>new_extents.
           mk_view new_extents (ls_storage s) (ls_type s) (Promote (nat extra_dim) dim_size # ls_transform s) (ls_domain s)))))"

definition domain_restrict :: "nat \<Rightarrow> (int \<Rightarrow> int \<times> int) \<Rightarrow> domain option \<Rightarrow> domain option result" where
  "domain_restrict d f maybe_dom =
     (case maybe_dom of
        None \<Rightarrow> Inr None
      | Some dm \<Rightarrow> rguard (d < length (dom_lo dm) \<and> d < length (dom_hi dm)) OutOfBounds
          (case f (dom_lo dm ! d) of (lo, hi) \<Rightarrow>
             Inr (Some \<lparr>dom_lo = (dom_lo dm)[d := lo], dom_hi = (dom_hi dm)[d := hi]\<rparr>)))"

text \<open>The part of the storage that a view with a new transform covers.\<close>

definition substorage ::
  "machine \<Rightarrow> bool \<Rightarrow> storages \<Rightarrow> logical_store \<Rightarrow> transform_stack \<Rightarrow> u64 list \<Rightarrow> (storages \<times> nat) result" where
  "substorage m inline sts s transform new_extents =
     rbind (if inline then Inr True else rbind (shape_volume (ls_shape s)) (\<lambda>v. Inr (v = 0))) (\<lambda>keep.
       if keep then Inr (sts, ls_storage s)
       else rbind (stack_invert_extents transform new_extents) (\<lambda>tile_shape.
         rbind (stack_invert_point transform (replicate (length new_extents) 0)) (\<lambda>offsets.
           so_slice m inline sts (ls_storage s) tile_shape offsets)))"

definition project_store :: "machine \<Rightarrow> bool \<Rightarrow> storages \<Rightarrow> int \<Rightarrow> int \<Rightarrow> logical_store \<Rightarrow> (storages \<times> logical_store) result" where
  "project_store m inline sts d index s =
     rguard (\<not> ls_non_transformable s) RuntimeError
       (rbind (ls_extents s) (\<lambda>old_extents.
         rguard (0 \<le> d \<and> d < int (ls_dim s)) InvalidArgument
           (rbind (vec_get old_extents (nat d)) (\<lambda>e.
             rguard (0 \<le> index \<and> index < sint e) InvalidArgument
               (rbind (vec_erase (nat d) old_extents) (\<lambda>new_extents.
                 (let transform = Project (nat d) index # ls_transform s
                  in rbind (substorage m inline sts s transform new_extents) (\<lambda>(sts, a).
                    rbind (domain_restrict (nat d) (\<lambda>_. (index, index)) (ls_domain s)) (\<lambda>domain.
                      rbind (mk_view new_extents a (ls_type s) transform domain) (\<lambda>v. Inr (sts, v)))))))))))"

definition broadcast_store :: "int \<Rightarrow> u64 \<Rightarrow> logical_store \<Rightarrow> logical_store result" where
  "broadcast_store bcast_dim dim_size s =
     rguard (0 \<le> bcast_dim \<and> bcast_dim < int (ls_dim s)) InvalidArgument
       (rbind (ls_extents s) (\<lambda>extents. rbind (vec_get extents (nat bcast_dim)) (\<lambda>e.
         rguard (e = 1) InvalidArgument
           (mk_view (extents[nat bcast_dim := dim_size]) (ls_storage s) (ls_type s)
             (DimBroadcast (nat bcast_dim) dim_size # ls_transform s) (ls_domain s)))))"

definition sanitize_slice :: "int option \<Rightarrow> int option \<Rightarrow> int \<Rightarrow> u64 \<times> u64" where
  "sanitize_slice start stop extent =
     (let start = (case start of None \<Rightarrow> 0 | Some x \<Rightarrow> x);
          stop = (case stop of None \<Rightarrow> extent | Some x \<Rightarrow> x);
          start = (if start < 0 then start + extent else start);
          stop = (if stop < 0 then stop + extent else stop)
      in (word_of_int (max 0 start), word_of_int (max 0 stop)))"

definition slice_store ::
  "nat \<Rightarrow> machine \<Rightarrow> bool \<Rightarrow> storages \<Rightarrow> int \<Rightarrow> int option \<Rightarrow> int option \<Rightarrow> logical_store \<Rightarrow> (storages \<times> logical_store) result" where
  "slice_store max_dim m inline sts d sl_start sl_stop s =
     rguard (\<not> ls_non_transformable s) RuntimeError (rguard (0 \<le> d \<and> d < int (ls_dim s)) InvalidArgument
       (rbind (ls_extents s) (\<lambda>extents. rbind (vec_get extents (nat d)) (\<lambda>e.
         (case sanitize_slice sl_start sl_stop (sint e) of (start, stop) \<Rightarrow>
            rguard (\<not> (start < stop \<and> (e \<le> start \<or> e < stop))) InvalidArgument
              (let ext = (if start < stop then stop - start else 0); exts = extents[nat d := ext]
               in if ext = e then Inr (sts, s)
                  else if ext = 0 then create_store max_dim inline (ReadyShape exts) (ls_type s) False sts
                  else let transform = (if start = 0 then ls_transform s else Shift (nat d) (- sint start) # ls_transform s)
                       in rbind (substorage m inline sts s transform exts) (\<lambda>(sts, a).
                         rbind (domain_restrict (nat d) (\<lambda>lo. (lo + sint start, lo + sint start + sint ext - 1)) (ls_domain s)) (\<lambda>domain.
                           rbind (mk_view exts a (ls_type s) transform domain) (\<lambda>v. Inr (sts, v))))))))))"

definition transpose_store :: "int list \<Rightarrow> logical_store \<Rightarrow> logical_store result" where
  "transpose_store axes s =
     rguard (\<not> ls_non_transformable s) RuntimeError
       (rguard (length axes = ls_dim s) InvalidArgument (rguard (distinct axes) InvalidArgument
         (rguard (list_all (\<lambda>a. 0 \<le> a \<and> a < int (ls_dim s)) axes) InvalidArgument
           (rbind (ls_extents s) (\<lambda>extents. rbind (array_map extents axes) (\<lambda>new_extents.
             mk_view new_extents (ls_storage s) (ls_type s) (Transpose (map nat axes) # ls_transform s) (ls_domain s)))))))"

definition delinearizable :: "u64 \<Rightarrow> u64 list \<Rightarrow> bool" where
  "delinearizable to_match new_dim_extents \<longleftrightarrow>
     fold (*) new_dim_extents 1 = to_match \<and> list_all (\<lambda>sz. sz \<le> to_match) new_dim_extents"

definition delinearize_store :: "int \<Rightarrow> u64 list \<Rightarrow> logical_store \<Rightarrow> logical_store result" where
  "delinearize_store d sizes s =
     rguard (\<not> ls_non_transformable s) RuntimeError (rguard (0 \<le> d \<and> d < int (ls_dim s)) InvalidArgument
       (rbind (ls_extents s) (\<lambda>old_extents. rbind (vec_get old_extents (nat d)) (\<lambda>e.
         rguard (delinearizable e sizes) InvalidArgument
           (mk_view (take (nat d) old_extents @ sizes @ drop (Suc (nat d)) old_extents) (ls_storage s) (ls_type s)
             (Delinearize (nat d) sizes # ls_transform s) (ls_domain s))))))"

section \<open>Partitions of a store\<close>

record logical_store_partition =
  lp_partition :: partition
  lp_storage_partition :: storage_partition
  lp_store :: logical_store

definition create_partition :: "storages \<Rightarrow> logical_store \<Rightarrow> partition \<Rightarrow> bool option \<Rightarrow> logical_store_partition result" where
  "create_partition sts s part complete =
     rbind (vec_get sts (ls_storage s)) (\<lambda>st.
       rguard (\<not> so_unbound st) InvalidArgument
         (rbind (p_invert part (ls_transform s)) (\<lambda>inverted.
           rbind (so_create_partition sts (ls_storage s) inverted complete) (\<lambda>sp.
             Inr \<lparr>lp_partition = part, lp_storage_partition = sp, lp_store = s\<rparr>))))"

definition partition_by_tiling :: "storages \<Rightarrow> u64 list \<Rightarrow> u64 list option \<Rightarrow> logical_store \<Rightarrow> logical_store_partition result" where
  "partition_by_tiling sts tile_shape color_shape s =
     rguard (length tile_shape = ls_dim s) InvalidArgument (rguard (array_volume tile_shape \<noteq> 0) InvalidArgument
       (rguard (case color_shape of None \<Rightarrow> True | Some cs \<Rightarrow> length cs = ls_dim s \<and> array_volume cs \<noteq> 0) InvalidArgument
         (rbind (case color_shape of
                   Some cs \<Rightarrow> create_tiling tile_shape cs []
                 | None \<Rightarrow> rbind (ls_extents s) (\<lambda>extents.
                     create_tiling tile_shape (map2 (\<lambda>c t. (c + t - 1) div t) extents tile_shape) [])) (\<lambda>tiling.
           create_partition sts s (PTiling tiling) (Some True)))))"

definition child_transform :: "int list \<Rightarrow> transform_stack \<Rightarrow> transform_stack" where
  "child_transform offs transform =
     fold (\<lambda>(dim, coff) ts. if coff \<noteq> 0 then Shift dim (- coff) # ts else ts) (zip [0..<length offs] offs) transform"

definition get_child_store ::
  "bool \<Rightarrow> storages \<Rightarrow> logical_store_partition \<Rightarrow> u64 list \<Rightarrow> (storages \<times> logical_store) result" where
  "get_child_store inline sts lp color =
     (case lp_partition lp of
        PTiling tiling \<Rightarrow>
          rguard (has_color tiling color) OutOfRange
            (rbind (stack_invert_color (ls_transform (lp_store lp)) color) (\<lambda>inverted_color.
              rbind (get_child_storage inline sts (lp_storage_partition lp) inverted_color) (\<lambda>(sts, a).
                rbind (ls_extents (lp_store lp)) (\<lambda>extents.
                  rbind (get_child_extents tiling extents inverted_color) (\<lambda>child_extents.
                    rbind (get_child_offsets tiling inverted_color) (\<lambda>child_offsets.
                      rbind (mk_view child_extents a (ls_type (lp_store lp))
                          (child_transform child_offsets (ls_transform (lp_store lp))) None) (\<lambda>v. Inr (sts, v))))))))
      | _ \<Rightarrow> Inl RuntimeError)"

section \<open>Key partitions of a store\<close>

definition ls_compute_restrictions :: "storages \<Rightarrow> logical_store \<Rightarrow> bool \<Rightarrow> restrictions result" where
  "ls_compute_restrictions sts s is_output =
     rbind (vec_get sts (ls_storage s)) (\<lambda>st.
       rbind (stack_convert (ls_transform s) (restrictions_ndim (shape_ndim (so_shape st))) is_output) (\<lambda>r.
         Inr (set_require_invertible (\<not> stack_identity (ls_transform s)) r)))"

definition own_key_partition :: "machine \<Rightarrow> parallel_policy \<Rightarrow> restrictions \<Rightarrow> logical_store \<Rightarrow> partition option result" where
  "own_key_partition m policy r s =
     (if ls_num_pieces s = m_count m (m_preferred m) * pp_overdecompose_factor policy
      then (case ls_key_partition s of
              None \<Rightarrow> Inr None
            | Some p \<Rightarrow> rbind (partition_satisfies r p (ls_shape s)) (\<lambda>ok. Inr (if ok then Some p else None)))
      else Inr None)"

definition create_key_partition ::
  "(u64 \<Rightarrow> u64 \<Rightarrow> u64 \<times> u64) \<Rightarrow> factor_cache \<Rightarrow> machine \<Rightarrow> parallel_policy \<Rightarrow> restrictions \<Rightarrow> logical_store \<Rightarrow>
   (partition \<times> factor_cache) result" where
  "create_key_partition rt cache m policy r s =
     rbind (ls_extents s) (\<lambda>exts. rbind (compute_launch_shape rt cache m policy r exts) (\<lambda>(launch_shape, cache).
       if launch_shape = [] then Inr (NoPartition, cache)
       else rbind (compute_tile_shape exts launch_shape) (\<lambda>tile_shape.
         rbind (create_tiling tile_shape launch_shape []) (\<lambda>t. Inr (PTiling t, cache)))))"

definition find_or_create_key_partition ::
  "(u64 \<Rightarrow> u64 \<Rightarrow> u64 \<times> u64) \<Rightarrow> storages \<Rightarrow> factor_cache \<Rightarrow> machine \<Rightarrow> parallel_policy \<Rightarrow> restrictions \<Rightarrow> logical_store \<Rightarrow>
   (partition \<times> factor_cache) result" where
  "find_or_create_key_partition rt sts cache m policy r s =
     rbind (own_key_partition m policy r s) (\<lambda>own.
       case own of
         Some p \<Rightarrow> Inr (p, cache)
       | None \<Rightarrow>
           rbind (vec_get sts (ls_storage s)) (\<lambda>st.
             rbind (if so_has_scalar_storage st \<or> ls_dim s = 0 then Inr True
                    else rbind (shape_volume (ls_shape s)) (\<lambda>v. Inr (v = 0))) (\<lambda>no_partition.
               if no_partition then Inr (NoPartition, cache)
               else rbind (if stack_is_convertible (ls_transform s)
                           then rbind (stack_invert (ls_transform s) r) (\<lambda>r.
                                  so_find_key_partition sts m policy r (ls_storage s))
                           else Inr None) (\<lambda>storage_part.
                 case storage_part of
                   Some p \<Rightarrow>
                     (if stack_identity (ls_transform s) \<or> p_is_convertible p
                      then rbind (p_convert p (ls_transform s)) (\<lambda>p. Inr (p, cache))
                      else create_key_partition rt cache m policy r s)
                 | None \<Rightarrow> create_key_partition rt cache m policy r s))))"

definition has_key_partition ::
  "storages \<Rightarrow> machine \<Rightarrow> parallel_policy \<Rightarrow> restrictions \<Rightarrow> logical_store \<Rightarrow> bool result" where
  "has_key_partition sts m policy r s =
     rbind (own_key_partition m policy r s) (\<lambda>own.
       if own \<noteq> None then Inr True
       else if stack_is_convertible (ls_transform s)
       then rbind (stack_invert (ls_transform s) r) (\<lambda>r.
              rbind (so_find_key_partition sts m policy r (ls_storage s)) (\<lambda>p. Inr (p \<noteq> None)))
       else Inr False)"

definition ls_set_key_partition ::
  "machine \<Rightarrow> parallel_policy \<Rightarrow> partition \<Rightarrow> storages \<Rightarrow> logical_store \<Rightarrow> (storages \<times> logical_store) result" where
  "ls_set_key_partition m policy p sts s =
     rbind (p_invert p (ls_transform s)) (\<lambda>inverted.
       rbind (so_set_key_partition m inverted (ls_storage s) sts) (\<lambda>sts.
         Inr (sts, s\<lparr>ls_num_pieces := m_count m (m_preferred m) * pp_overdecompose_factor policy,
                     ls_key_partition := Some p\<rparr>)))"

definition ls_reset_key_partition :: "storages \<Rightarrow> logical_store \<Rightarrow> (storages \<times> logical_store) result" where
  "ls_reset_key_partition sts s =
     rbind (so_reset_key_partition (ls_storage s) sts) (\<lambda>sts. Inr (sts, s\<lparr>ls_key_partition := None\<rparr>))"

end
