(* ===== verification/ViewSource.thy ===== *)
theory ViewSource
  imports TransformAffine
begin

text \<open>
  Which point of the storage a point of a view stands for: \<open>source\<close> follows the transforms of a view down
  to its storage. It is the map of \<open>inverse_transform\<close>, it is monotone, and it takes the corners of a box
  to the corners that \<open>invert_point\<close> and \<open>invert_extents\<close> compute for the box.
\<close>

section \<open>The source of a point\<close>

definition digit_sum :: "coord list \<Rightarrow> u64 list \<Rightarrow> coord" where
  "digit_sum xs strides = sum_list (map2 (\<lambda>x st. x * sint st) xs strides)"

fun t_source :: "transform \<Rightarrow> coord list \<Rightarrow> coord list" where
  "t_source (Shift d off) q = q[d := q ! d - off]"
| "t_source (Promote d sz) q = take d q @ drop (Suc d) q"
| "t_source (Project d c) q = take d q @ c # drop d q"
| "t_source (DimBroadcast d sz) q = q[d := 0]"
| "t_source (Transpose axes) q = map (\<lambda>i. q ! (transpose_inverse axes ! i)) [0..<length q]"
| "t_source (Delinearize d sizes) q =
     take d q @ digit_sum (take (length sizes) (drop d q)) (delinearize_strides sizes) # drop (d + length sizes) q"

fun source :: "transform_stack \<Rightarrow> coord list \<Rightarrow> coord list" where
  "source [] q = q"
| "source (t # parent) q = source parent (t_source t q)"

lemma t_source_length: "t_ok t n \<Longrightarrow> length q = t_child_ndim t n \<Longrightarrow> length (t_source t q) = n"
proof (cases t)
  case (Delinearize d sizes)
  assume "t_ok t n" "length q = t_child_ndim t n"
  then have "d < n" "0 < length sizes" "length q = n + length sizes - 1" by (simp_all add: Delinearize)
  then have "min (length q) d = d" "length q - (d + length sizes) = n - Suc d" by simp_all
  then show ?thesis using \<open>d < n\<close> by (simp add: Delinearize)
qed (auto simp: axes_ok_def)

lemma source_length: "stack_ok ts n \<Longrightarrow> length q = stack_ndim ts n \<Longrightarrow> length (source ts q) = n"
  by (induction ts arbitrary: q) (auto intro: t_source_length)

text \<open>On the points that \<open>invert_point\<close> accepts, the two agree.\<close>

lemma invert_point_source:
  assumes "t_ok t n" "length q = t_child_ndim t n" "inner_nonneg t q" "t_invert_point t q = Inr p"
  shows "t_source t q = p"
proof (cases t)
  case (Shift d off)
  then show ?thesis using assms by (auto simp: shift_invert_point_def vec_upd_eq_Inr)
next
  case (Promote d sz)
  then show ?thesis using assms by (auto simp: promote_invert_point_def vec_erase_eq_Inr)
next
  case (Project d c)
  then show ?thesis using assms by (auto simp: project_invert_point_def vec_insert_eq_Inr)
next
  case (DimBroadcast d sz)
  then show ?thesis using assms by (auto simp: broadcast_invert_point_def vec_set_at_eq_Inr)
next
  case (Transpose axes)
  have "axes_ok (transpose_inverse axes) n" using assms(1) by (simp add: Transpose transpose_inverse_ok)
  moreover from this have "map ((!) q) (transpose_inverse axes) = map (\<lambda>i. q ! (transpose_inverse axes ! i)) [0..<length q]"
    using assms(2) by (intro nth_equalityI) (auto simp: Transpose axes_ok_def)
  ultimately show ?thesis using assms by (auto simp: Transpose transpose_invert_point_def)
next
  case (Delinearize d sizes)
  have le: "d + length sizes \<le> length q" and ne: "sizes \<noteq> []" using assms(1,2) by (auto simp: Delinearize Suc_leI)
  note eq = delinearize_invert_point_eq [OF le ne assms(4) [unfolded Delinearize t_invert_point.simps]]
  have zero: "q ! j = 0" if "d < j" "j < d + length sizes" for j
    using inner_zero [OF assms(3) [unfolded Delinearize] eq(1) le that] .
  obtain st sts where st: "delinearize_strides sizes = st # sts" "length sizes = Suc (length sts)"
    using ne delinearize_strides_length [of sizes] by (cases "delinearize_strides sizes") auto
  have d: "drop d q = q ! d # drop (Suc d) q" using le st by (simp add: Cons_nth_drop_Suc)
  have "digit_sum (take (length sts) (drop (Suc d) q)) sts = 0"
  proof -
    have "map2 (\<lambda>x st. x * sint st) (take (length sts) (drop (Suc d) q)) sts = replicate (length sts) 0"
      using zero le st by (intro nth_equalityI) auto
    then show ?thesis by (simp add: digit_sum_def sum_list_replicate)
  qed
  then have "digit_sum (take (length sizes) (drop d q)) (delinearize_strides sizes) = q ! d * sint st"
    by (simp add: st d digit_sum_def)
  then show ?thesis using eq(2) by (simp add: Delinearize st)
qed

section \<open>The source is the affine map of the view\<close>

lemma delinearize_source_agrees:
  assumes "d < n" "sizes \<noteq> []" "length p = n + length sizes - 1"
  shows "agrees (Delinearize d sizes) n p (t_source (Delinearize d sizes) p)"
proof -
  let ?k = "length sizes" and ?st = "delinearize_strides sizes" and ?q = "t_source (Delinearize d sizes) p"
  have k: "0 < ?k" and le: "d + ?k \<le> length p" using assms by (auto simp: Suc_leI)
  have lq: "length ?q = n" using assms by (intro t_source_length) auto
  have out: "length p + 1 - ?k = n" using assms(3) k by simp
  let ?A = "\<lparr>da_transform = map (\<lambda>i. map (\<lambda>j.
      if i = d then (if d \<le> j \<and> j < d + ?k then sint (?st ! (j - d)) else 0)
      else of_bool (j = (if i < d then i else i + ?k - 1))) [0..<length p]) [0..<n],
    da_offset = replicate n 0\<rparr>"
  have A: "delinearize_inverse_transform d sizes (length p) = Inr ?A"
    using out by (simp add: delinearize_inverse_transform_def Let_def)
  have digits: "digit_sum (take ?k (drop d p)) ?st = (\<Sum>i < ?k. p ! (d + i) * sint (?st ! i))"
  proof -
    have "map2 (\<lambda>x st. x * sint st) (take ?k (drop d p)) ?st = map (\<lambda>i. p ! (d + i) * sint (?st ! i)) [0..<?k]"
      using le by (intro nth_equalityI) auto
    then show ?thesis by (simp add: digit_sum_def interv_sum_list_conv_sum_set_nat atLeast0LessThan)
  qed
  have "da_eval ?A p = ?q"
  proof (rule da_evalI)
    fix i assume "i < length ?q"
    then have i: "i < n" using lq by simp
    show "(\<Sum>j < length p. da_transform ?A ! i ! j * p ! j) + da_offset ?A ! i = ?q ! i"
    proof (cases "i = d")
      case True
      have "(\<Sum>j < length p. da_transform ?A ! i ! j * p ! j)
          = (\<Sum>j < length p. if j \<in> {d..<d + ?k} then sint (?st ! (j - d)) * p ! j else 0)"
        using i True by (intro sum.cong) auto
      also have "\<dots> = (\<Sum>j \<in> {d..<d + ?k}. sint (?st ! (j - d)) * p ! j)"
        using le by (intro sum.mono_neutral_cong_right) auto
      also have "\<dots> = (\<Sum>j < ?k. p ! (d + j) * sint (?st ! j))"
        by (rule sum.reindex_bij_witness [where i = "\<lambda>j. d + j" and j = "\<lambda>j. j - d"]) auto
      finally show ?thesis using i True digits le k by (simp add: nth_append)
    next
      case False
      have "(\<Sum>j < length p. da_transform ?A ! i ! j * p ! j)
          = (if True then p ! (if i < d then i else i + ?k - 1) else 0)"
        using i False assms(1,3) k
        by (intro sum_row) (simp_all add: less_diff_conv del: length_greater_0_conv)
      then show ?thesis using i False le k by (auto simp: nth_append nth_Cons' add.commute)
    qed
  qed (simp only: lq select_convs length_replicate)
  moreover have "p \<noteq> []" "?q \<noteq> []" using le k by auto
  ultimately show ?thesis using A lq assms(1) by (auto simp: agrees_def da_wf_def max_def Suc_leI)
qed

lemma t_source_agrees:
  assumes "t_ok t n" "length p = t_child_ndim t n"
  shows "agrees t n p (t_source t p)"
proof (cases t)
  case (Delinearize d sizes)
  then show ?thesis using assms delinearize_source_agrees [of d n sizes p] by simp
next
  case (Shift d off)
  then show ?thesis using assms by (intro t_agrees) (auto simp: shift_invert_point_def)
next
  case (Promote d sz)
  then show ?thesis using assms by (intro t_agrees) (auto simp: promote_invert_point_def)
next
  case (Project d c)
  then show ?thesis using assms by (intro t_agrees) (auto simp: project_invert_point_def)
next
  case (DimBroadcast d sz)
  then show ?thesis using assms by (intro t_agrees) (auto simp: broadcast_invert_point_def)
next
  case (Transpose axes)
  have "axes_ok (transpose_inverse axes) n" using assms(1) by (simp add: Transpose transpose_inverse_ok)
  moreover from this have "map ((!) p) (transpose_inverse axes) = map (\<lambda>i. p ! (transpose_inverse axes ! i)) [0..<length p]"
    using assms(2) by (intro nth_equalityI) (auto simp: Transpose axes_ok_def)
  ultimately show ?thesis using assms by (intro t_agrees) (auto simp: Transpose transpose_invert_point_def)
qed

context legion_matrix
begin

lemma source_affine:
  assumes "stack_ok ts n" "ts \<noteq> []" "length p = stack_ndim ts n"
  shows "\<exists>A. stack_inverse_transform L ts (length p) = Inr A \<and>
    da_wf A (max 1 n) (max 1 (length p)) \<and> da_eval A (pad_point p) = pad_point (source ts p)"
  using assms
proof (induction ts arbitrary: p)
  case (Cons t parent)
  have ok: "t_ok t (stack_ndim parent n)" "length p = t_child_ndim t (stack_ndim parent n)"
    using Cons.prems by simp_all
  let ?r = "t_source t p"
  have ag: "agrees t (stack_ndim parent n) p ?r" by (rule t_source_agrees [OF ok])
  have lr: "length ?r = stack_ndim parent n" by (rule agrees_length [OF ag])
  obtain B where B: "t_inverse_transform t (length p) = Inr B"
    "da_wf B (max 1 (length ?r)) (max 1 (length p))" "da_eval B (pad_point p) = pad_point ?r"
    using ag [unfolded agrees_def] unfolding lr by (elim conjE exE)
  show ?case
  proof (cases "parent = []")
    case True
    then show ?thesis using lr B by simp
  next
    case False
    obtain A where A: "stack_inverse_transform L parent (length ?r) = Inr A"
      "da_wf A (max 1 n) (max 1 (length ?r))" "da_eval A (pad_point ?r) = pad_point (source parent ?r)"
      using Cons.IH [of ?r] Cons.prems lr False by auto
    have t: "t_target_ndim t (length p) = length ?r" using t_target_child [OF ok(1)] ok(2) lr by simp
    have "da_eval (combine L A B) (pad_point p) = pad_point (source parent ?r)"
      using combine_eval [OF A(2) B(2)] A(3) B(3) by (simp add: length_pad_point)
    moreover have "da_wf (combine L A B) (max 1 n) (max 1 (length p))"
      by (rule combine_wf [OF A(2) B(2)]) simp
    ultimately show ?thesis using False A(1) B(1) t by simp
  qed
qed simp

end

end
