(* ===== verification/ViewCorners.thy ===== *)
theory ViewCorners
  imports ViewSource
begin

text \<open>
  The corners of a box. \<open>LogicalStore::slice_\<close> and \<open>LogicalStore::project\<close> find the part of the storage that a
  view covers from two points only: \<open>invert_point\<close> of the origin, and \<open>invert_extents\<close> of the extents. The
  source of a point is monotone, so the sources of all points lie between the sources of the two corners;
  these are the corners of the rectangle that the two functions compute.
\<close>

section \<open>Boxes and corners\<close>

definition in_extents :: "u64 list \<Rightarrow> coord list \<Rightarrow> bool" where
  "in_extents es p \<longleftrightarrow> length p = length es \<and> (\<forall>i < length es. 0 \<le> p ! i \<and> p ! i < uint (es ! i))"

definition in_rect :: "coord list \<Rightarrow> u64 list \<Rightarrow> coord list \<Rightarrow> bool" where
  "in_rect offs es p \<longleftrightarrow> length p = length offs \<and> length es = length offs \<and>
     (\<forall>i < length offs. offs ! i \<le> p ! i \<and> p ! i < offs ! i + uint (es ! i))"

definition far_corner :: "coord list \<Rightarrow> u64 list \<Rightarrow> coord list" where
  "far_corner b e = map2 (\<lambda>x w. x + uint w - 1) b e"

definition below :: "coord list \<Rightarrow> coord list \<Rightarrow> bool" where
  "below p q \<longleftrightarrow> length p = length q \<and> (\<forall>i < length q. p ! i \<le> q ! i)"

definition positive :: "u64 list \<Rightarrow> bool" where
  "positive es \<longleftrightarrow> (\<forall>i < length es. 0 < uint (es ! i))"

definition u63 :: "u64 list \<Rightarrow> bool" where
  "u63 es \<longleftrightarrow> (\<forall>i < length es. uint (es ! i) < 2 ^ 63)"

text \<open>The digits of a delinearized dimension are within its sizes, down to the storage.\<close>

fun t_digits :: "transform \<Rightarrow> coord list \<Rightarrow> bool" where
  "t_digits (Delinearize d sizes) q \<longleftrightarrow> (\<forall>i < length sizes. 0 \<le> q ! (d + i) \<and> q ! (d + i) < uint (sizes ! i))"
| "t_digits _ q \<longleftrightarrow> True"

fun source_ok :: "transform_stack \<Rightarrow> coord list \<Rightarrow> bool" where
  "source_ok [] q \<longleftrightarrow> True"
| "source_ok (t # parent) q \<longleftrightarrow> t_digits t q \<and> source_ok parent (t_source t q)"

fun t_sized :: "transform \<Rightarrow> bool" where
  "t_sized (Delinearize d sizes) \<longleftrightarrow> prod_list (map uint sizes) < 2 ^ 63"
| "t_sized _ \<longleftrightarrow> True"

definition stack_sized :: "transform_stack \<Rightarrow> bool" where
  "stack_sized ts \<longleftrightarrow> list_all t_sized ts"

lemma far_corner_nth [simp]:
  "length b = length e \<Longrightarrow> i < length e \<Longrightarrow> far_corner b e ! i = b ! i + uint (e ! i) - 1"
  by (simp add: far_corner_def)

lemma far_corner_length [simp]: "length b = length e \<Longrightarrow> length (far_corner b e) = length e"
  by (simp add: far_corner_def)

lemma in_extentsD: "in_extents es p \<Longrightarrow> length p = length es" "in_extents es p \<Longrightarrow> i < length es \<Longrightarrow> 0 \<le> p ! i"
  "in_extents es p \<Longrightarrow> i < length es \<Longrightarrow> p ! i < uint (es ! i)"
  by (simp_all add: in_extents_def)

lemma in_extents_rect: "in_extents es p \<longleftrightarrow> in_rect (replicate (length es) 0) es p"
  by (auto simp: in_extents_def in_rect_def)

lemma in_rect_corners: "in_rect b e p \<longleftrightarrow> length e = length b \<and> below b p \<and> below p (far_corner b e)"
  by (fastforce simp: in_rect_def below_def)

lemma corners_in_extents:
  assumes "positive es"
  shows "in_extents es (replicate (length es) 0)" "in_extents es (far_corner (replicate (length es) 0) es)"
  using assms by (auto simp: in_extents_def positive_def)

section \<open>Mixed radix\<close>

lemma strides_Cons: "delinearize_strides (s # ss) = prod_list ss # delinearize_strides ss"
proof (induction ss arbitrary: s)
  case (Cons s' ss)
  show ?case by (simp add: Cons.IH Let_def mult.commute)
qed simp

lemma uint_prod_list:
  "\<forall>s \<in> set ss. 0 < uint s \<Longrightarrow> prod_list (map uint ss) < 2 ^ 64 \<Longrightarrow>
     uint (prod_list ss :: u64) = prod_list (map uint ss) \<and> 0 < prod_list (map uint ss)"
proof (induction ss)
  case (Cons s ss)
  have pos: "0 < uint s" "0 \<le> prod_list (map uint ss)" using Cons.prems(1) by (auto intro: prod_list_nonneg)
  have "prod_list (map uint ss) \<le> uint s * prod_list (map uint ss)"
    using mult_right_mono [of 1 "uint s" "prod_list (map uint ss)"] pos by simp
  then have "prod_list (map uint ss) < 2 ^ 64" using Cons.prems(2) by simp
  then have ih: "uint (prod_list ss) = prod_list (map uint ss)" "0 < prod_list (map uint ss)"
    using Cons.IH Cons.prems(1) by simp_all
  show ?case using Cons.prems(2) pos(1) ih uint_mult_u64 [of s "prod_list ss"] by simp
qed simp

lemma digit_sum_Cons:
  "digit_sum (x # xs) (delinearize_strides (s # ss))
   = x * sint (prod_list ss) + digit_sum xs (delinearize_strides ss)"
  unfolding strides_Cons by (simp add: digit_sum_def)

lemma prod_list_tail:
  assumes "\<forall>s \<in> set (s # ss). 0 < uint s" "prod_list (map uint (s # ss)) < 2 ^ 63"
  shows "prod_list (map uint ss) < 2 ^ 63" "uint (prod_list ss :: u64) = prod_list (map uint ss)"
    "sint (prod_list ss :: u64) = prod_list (map uint ss)" "0 < prod_list (map uint ss)"
proof -
  have "0 \<le> prod_list (map uint ss)" by (auto intro: prod_list_nonneg)
  then have "prod_list (map uint ss) \<le> uint s * prod_list (map uint ss)"
    using mult_right_mono [of 1 "uint s" "prod_list (map uint ss)"] assms(1) by simp
  then show lt: "prod_list (map uint ss) < 2 ^ 63" using assms(2) by simp
  then show u: "uint (prod_list ss :: u64) = prod_list (map uint ss)" and "0 < prod_list (map uint ss)"
    using uint_prod_list [of ss] assms(1) by simp_all
  then show "sint (prod_list ss :: u64) = prod_list (map uint ss)" using lt by (simp add: sint_eq_uint_u64)
qed

lemma digit_sum_max:
  assumes "\<forall>s \<in> set ss. 0 < uint s" "prod_list (map uint ss) < 2 ^ 63"
  shows "digit_sum (map (\<lambda>s. uint s - 1) ss) (delinearize_strides ss) = prod_list (map uint ss) - 1"
  using assms
proof (induction ss)
  case (Cons s ss)
  note t = prod_list_tail [OF Cons.prems]
  have "digit_sum (map (\<lambda>s. uint s - 1) ss) (delinearize_strides ss) = prod_list (map uint ss) - 1"
    using Cons.IH Cons.prems(1) t(1) by simp
  then show ?case by (simp only: list.map digit_sum_Cons t(3) prod_list.Cons) (simp add: algebra_simps)
qed (simp add: digit_sum_def)

lemma digit_sum_mono:
  assumes "\<forall>s \<in> set ss. 0 < uint s" "prod_list (map uint ss) < 2 ^ 63" "length xs = length ss" "below xs ys"
  shows "digit_sum xs (delinearize_strides ss) \<le> digit_sum ys (delinearize_strides ss)"
  using assms
proof (induction ss arbitrary: xs ys)
  case (Cons s ss)
  obtain x xs' y ys' where xy: "xs = x # xs'" "ys = y # ys'" using Cons.prems(3,4)
    by (cases xs; cases ys) (auto simp: below_def)
  have le: "x \<le> y" "below xs' ys'" using Cons.prems(4) unfolding below_def xy by (auto 0 3)
  note t = prod_list_tail [OF Cons.prems(1,2)]
  have "digit_sum xs' (delinearize_strides ss) \<le> digit_sum ys' (delinearize_strides ss)"
    using Cons.IH [OF _ t(1) _ le(2)] Cons.prems(1,3) xy by simp
  moreover have "x * prod_list (map uint ss) \<le> y * prod_list (map uint ss)" using le(1) t(4) by (intro mult_right_mono) auto
  ultimately show ?case unfolding xy digit_sum_Cons t(3) by (rule add_mono [rotated])
qed (simp add: digit_sum_def)

section \<open>The source is monotone\<close>

lemma below_nth: "below p q \<Longrightarrow> i < length q \<Longrightarrow> p ! i \<le> q ! i"
  by (simp add: below_def)

lemma below_length: "below p q \<Longrightarrow> length p = length q"
  by (simp add: below_def)

lemma below_refl [simp]: "below p p"
  by (simp add: below_def)

lemma below_trans: "below p q \<Longrightarrow> below q r \<Longrightarrow> below p r"
  by (fastforce simp: below_def)

lemma below_take: "below p q \<Longrightarrow> below (take k p) (take k q)"
  by (simp add: below_def)

lemma below_drop: "below p q \<Longrightarrow> below (drop k p) (drop k q)"
  by (auto simp: below_def)

lemma below_append: "below p q \<Longrightarrow> below p' q' \<Longrightarrow> below (p @ p') (q @ q')"
  by (auto simp: below_def nth_append)

lemma below_Cons: "x \<le> y \<Longrightarrow> below p q \<Longrightarrow> below (x # p) (y # q)"
  by (auto simp: below_def nth_Cons split: nat.splits)

lemma t_digits_sizes:
  assumes "t_digits (Delinearize d sizes) q"
  shows "\<forall>s \<in> set sizes. 0 < uint s"
proof
  fix s assume "s \<in> set sizes"
  then obtain i where "i < length sizes" "sizes ! i = s" by (auto simp: in_set_conv_nth)
  then show "0 < uint s" using assms order.strict_trans1 by auto
qed

lemma t_source_mono:
  assumes "t_ok t n" "t_sized t" "length p = t_child_ndim t n" "below p q" "t_digits t p"
  shows "below (t_source t p) (t_source t q)"
proof (cases t)
  case (Shift d off)
  then show ?thesis using assms(1,3,4) by (auto simp: below_def nth_list_update)
next
  case (Promote d sz)
  then show ?thesis using assms(4) by (auto intro!: below_append below_take below_drop)
next
  case (Project d c)
  then show ?thesis using assms(4) by (auto intro!: below_append below_Cons below_take below_drop)
next
  case (DimBroadcast d sz)
  then show ?thesis using assms(1,3,4) by (auto simp: below_def nth_list_update)
next
  case (Transpose axes)
  then show ?thesis using assms(1,3,4) by (auto simp: below_def transpose_inverse_nth)
next
  case (Delinearize d sizes)
  have "d < n" "0 < length sizes" using assms(1) by (auto simp: Delinearize)
  then have l: "length (take (length sizes) (drop d p)) = length sizes" using assms(3) by (simp add: Delinearize)
  have "below (take (length sizes) (drop d p)) (take (length sizes) (drop d q))"
    using assms(4) by (intro below_take below_drop)
  then have "digit_sum (take (length sizes) (drop d p)) (delinearize_strides sizes)
      \<le> digit_sum (take (length sizes) (drop d q)) (delinearize_strides sizes)"
    using assms(2) t_digits_sizes [OF assms(5) [unfolded Delinearize]] l by (intro digit_sum_mono) (auto simp: Delinearize)
  then show ?thesis using assms(4) by (auto simp: Delinearize intro!: below_append below_Cons below_take below_drop)
qed

lemma source_mono:
  "stack_ok ts n \<Longrightarrow> stack_sized ts \<Longrightarrow> length p = stack_ndim ts n \<Longrightarrow> below p q \<Longrightarrow> source_ok ts p \<Longrightarrow>
     below (source ts p) (source ts q)"
proof (induction ts arbitrary: p q)
  case (Cons t parent)
  have ok: "t_ok t (stack_ndim parent n)" "length p = t_child_ndim t (stack_ndim parent n)" "t_sized t"
    "t_digits t p" using Cons.prems by (simp_all add: stack_sized_def)
  then show ?case
    using Cons.IH [of "t_source t p" "t_source t q"] Cons.prems t_source_mono [OF ok(1,3,2) Cons.prems(4) ok(4)]
      t_source_length [OF ok(1,2)] by (simp add: stack_sized_def)
qed simp

section \<open>Corners of the source\<close>

lemma delinearize_invert_extents_eq:
  assumes "d + length sizes \<le> length e" "sizes \<noteq> []" "delinearize_invert_extents d sizes e = Inr e'"
  shows "\<forall>i. 0 < i \<and> i < length sizes \<longrightarrow> e ! (d + i) = sizes ! i"
    and "e' = take d e @ e ! d * hd (delinearize_strides sizes) # drop (d + length sizes) e"
proof -
  have "0 < length sizes" using assms(2) by simp
  then have *: "d + 1 + (length sizes - 1) = d + length sizes" "d < length e"
    using assms(1) by linarith+
  have er: "erase_times (length sizes - 1) (d + 1) e = Inr (take (d + 1) e @ drop (d + length sizes) e)"
    using erase_times_Inr [of "d + 1" "length sizes - 1" e] assms(1) unfolding *(1) by simp
  have check: "(\<forall>i \<in> set is. e ! (d + i) = sizes ! i)"
    if "rmapM (\<lambda>idx. rbind (vec_get e (d + idx)) (\<lambda>x. rguard (x = sizes ! idx) NonInvertible (Inr ()))) is = Inr us" for "is" us
    using that by (induction "is" arbitrary: us) (auto simp: vec_eq_Inr)
  note h = assms(3) [unfolded delinearize_invert_extents_def er rbind_Inr]
  have ne: "delinearize_strides sizes \<noteq> []" using assms(2) delinearize_strides_length [of sizes]
    by (metis length_0_conv)
  obtain us where us: "rmapM (\<lambda>idx. rbind (vec_get e (d + idx)) (\<lambda>x. rguard (x = sizes ! idx) NonInvertible (Inr ())))
      [1..<length sizes] = Inr us" using h by (auto simp: rbind_eq_Inr)
  show "\<forall>i. 0 < i \<and> i < length sizes \<longrightarrow> e ! (d + i) = sizes ! i" using check [OF us] by auto
  show "e' = take d e @ e ! d * hd (delinearize_strides sizes) # drop (d + length sizes) e"
    using h us ne *(2) assms(2) by (auto simp: vec_upd_def hd_conv_nth list_update_append
      take_Suc_conv_app_nth nth_append)
qed

lemma far_corner_take: "take k (far_corner b e) = far_corner (take k b) (take k e)"
  by (simp add: far_corner_def take_map take_zip)

lemma far_corner_drop: "drop k (far_corner b e) = far_corner (drop k b) (drop k e)"
  by (simp add: far_corner_def drop_map drop_zip)

lemma far_corner_append: "length b = length e \<Longrightarrow> far_corner (b @ b') (e @ e') = far_corner b e @ far_corner b' e'"
  by (simp add: far_corner_def)

lemma far_corner_Cons: "far_corner (x # b) (w # e) = (x + uint w - 1) # far_corner b e"
  by (simp add: far_corner_def)

lemma positive_take: "positive e \<Longrightarrow> positive (take k e)"
  by (simp add: positive_def)

lemma positive_drop: "positive e \<Longrightarrow> positive (drop k e)"
  by (simp add: positive_def)

lemma positive_append: "positive e \<Longrightarrow> positive e' \<Longrightarrow> positive (e @ e')"
  by (auto simp: positive_def nth_append)

lemma positive_Cons: "0 < uint x \<Longrightarrow> positive e \<Longrightarrow> positive (x # e)"
  by (auto simp: positive_def nth_Cons split: nat.splits)

lemma delinearize_corners:
  assumes "d + length sizes \<le> length e" "sizes \<noteq> []" "length b = length e" "prod_list (map uint sizes) < 2 ^ 63"
    "positive e" "t_digits (Delinearize d sizes) b" "t_digits (Delinearize d sizes) (far_corner b e)"
    "delinearize_invert_point d sizes b = Inr b'" "delinearize_invert_extents d sizes e = Inr e'"
  shows "t_source (Delinearize d sizes) (far_corner b e) = far_corner b' e' \<and> positive e' \<and> length b' = length e'"
proof -
  obtain s ss where s: "sizes = s # ss" using assms(2) by (cases sizes) auto
  let ?P = "prod_list (map uint ss)"
  have lb: "d + length sizes \<le> length b" using assms(1,3) by simp
  note b = delinearize_invert_point_eq [OF lb assms(2,8)] and e = delinearize_invert_extents_eq [OF assms(1,2,9)]
  note pos = t_digits_sizes [OF assms(6)] and t = prod_list_tail [OF t_digits_sizes [OF assms(6), unfolded s] assms(4) [unfolded s]]
  have nonneg: "inner_nonneg (Delinearize d sizes) b"
  proof -
    have "0 \<le> b ! (d + Suc i)" if "Suc i < length sizes" for i using assms(6) that by auto
    then show ?thesis using lb s by (auto simp: list_all_length)
  qed
  have zero: "b ! (d + i) = 0" if "0 < i" "i < length sizes" for i
    using inner_zero [OF nonneg b(1) lb, of "d + i"] that by simp
  have d: "d < length e" "d < length b" "d < length (far_corner b e)" using assms(1,3) s by simp_all
  have digits: "take (length sizes) (drop d (far_corner b e)) = (b ! d + uint (e ! d) - 1) # map (\<lambda>s. uint s - 1) ss"
  proof (rule nth_equalityI)
    show "length (take (length sizes) (drop d (far_corner b e))) = length ((b ! d + uint (e ! d) - 1) # map (\<lambda>s. uint s - 1) ss)"
      using assms(1,3) s by simp
    fix i assume "i < length (take (length sizes) (drop d (far_corner b e)))"
    then have i: "i < length sizes" by simp
    show "take (length sizes) (drop d (far_corner b e)) ! i = ((b ! d + uint (e ! d) - 1) # map (\<lambda>s. uint s - 1) ss) ! i"
    proof (cases i)
      case 0
      then show ?thesis using d i assms(3) by simp
    next
      case (Suc j)
      then have "b ! (d + i) = 0" "e ! (d + i) = sizes ! i" using i zero [of i] e(1) by auto
      then show ?thesis using i lb Suc s assms(1,3) by simp
    qed
  qed
  have "digit_sum (take (length sizes) (drop d (far_corner b e))) (delinearize_strides sizes)
      = (b ! d + uint (e ! d) - 1) * ?P + (?P - 1)"
    unfolding digits unfolding s digit_sum_Cons t(3) using digit_sum_max [of ss] pos s t(1) by simp
  also have "\<dots> = b ! d * ?P + uint (e ! d) * ?P - 1" by (simp add: algebra_simps)
  finally have sum: "digit_sum (take (length sizes) (drop d (far_corner b e))) (delinearize_strides sizes)
      = b ! d * ?P + uint (e ! d) * ?P - 1" .
  have "0 \<le> b ! d" "b ! d + uint (e ! d) - 1 < uint s"
    using assms(6,7) s d assms(3) by (auto dest!: spec [of _ 0])
  then have "uint (e ! d) * ?P \<le> uint s * ?P" using t(4) by (intro mult_right_mono) auto
  then have w: "uint (e ! d * prod_list ss) = uint (e ! d) * ?P"
    using assms(4) t(2) by (subst uint_mult_u64) (simp_all add: s)
  have "0 < uint (e ! d)" using assms(5) d by (simp add: positive_def)
  then have "0 < uint (e ! d) * ?P" using t(4) by simp
  then have "positive e'" unfolding e(2) using assms(5) w
    by (intro positive_append positive_Cons positive_take positive_drop) (simp_all add: s strides_Cons)
  moreover have "t_source (Delinearize d sizes) (far_corner b e) = far_corner b' e'"
    unfolding b(2) e(2) t_source.simps sum using assms(3) t(3) w
    by (simp add: s strides_Cons far_corner_take far_corner_drop far_corner_append far_corner_Cons)
  moreover have "length b' = length e'" unfolding b(2) e(2) using assms(3) by simp
  ultimately show ?thesis by simp
qed

lemma t_corners:
  assumes "t_ok t n" "t_sized t" "length b = t_child_ndim t n" "length e = length b" "positive e"
    "t_digits t b" "t_digits t (far_corner b e)" "t_invert_point t b = Inr b'" "t_invert_extents t e = Inr e'"
  shows "t_source t b = b' \<and> t_source t (far_corner b e) = far_corner b' e' \<and> positive e' \<and> length b' = n \<and> length e' = n"
proof -
  have nonneg: "inner_nonneg t b"
  proof (cases t)
    case (Delinearize d sizes)
    have "0 \<le> b ! (d + Suc i)" if "Suc i < length sizes" for i using assms(6) that by (auto simp: Delinearize)
    moreover have "0 < length sizes" "d + length sizes \<le> length b" using assms(1,3) by (auto simp: Delinearize Suc_leI)
    ultimately show ?thesis by (auto simp: Delinearize list_all_length)
  qed simp_all
  have b: "t_source t b = b'" by (rule invert_point_source [OF assms(1,3) nonneg assms(8)])
  have lb: "length b' = n" using t_source_length [OF assms(1,3)] b by simp
  have "t_source t (far_corner b e) = far_corner b' e' \<and> positive e' \<and> length b' = length e'"
  proof (cases t)
    case (Shift d off)
    have "e' = e" "b' = b[d := b ! d - off]" "d < length e" using assms b by (auto simp: Shift shift_invert_extents_def)
    then show ?thesis using assms(4,5)
      by (auto simp: Shift nth_list_update intro!: nth_equalityI)
  next
    case (Promote d sz)
    have "e' = take d e @ drop (Suc d) e" "b' = take d b @ drop (Suc d) b" using assms b
      by (auto simp: Promote promote_invert_extents_def vec_erase_eq_Inr)
    then show ?thesis using assms(4,5)
      by (simp add: Promote far_corner_take far_corner_drop far_corner_append positive_append positive_take positive_drop)
  next
    case (Project d c)
    have "e' = take d e @ 1 # drop d e" "b' = take d b @ c # drop d b" using assms b
      by (auto simp: Project project_invert_extents_def vec_insert_eq_Inr)
    then show ?thesis using assms(4,5)
      by (simp add: Project far_corner_take far_corner_drop far_corner_append far_corner_Cons positive_append
          positive_take positive_drop positive_Cons)
  next
    case (DimBroadcast d sz)
    have "e' = e[d := 1]" "b' = b[d := 0]" "d < length e" using assms b
      by (auto simp: DimBroadcast broadcast_invert_extents_def vec_set_at_eq_Inr)
    then show ?thesis using assms(4,5)
      by (auto simp: DimBroadcast positive_def nth_list_update intro!: nth_equalityI)
  next
    case (Transpose axes)
    have ok: "axes_ok axes n" "length b = n" "length e = n" using assms(1,3,4) by (simp_all add: Transpose)
    have iok: "axes_ok (transpose_inverse axes) n" by (rule transpose_inverse_ok [OF ok(1)])
    have le: "length (transpose_inverse axes) = n" using iok by (simp add: axes_ok_def)
    have "e' = map ((!) e) (transpose_inverse axes)" "b' = map (\<lambda>i. b ! (transpose_inverse axes ! i)) [0..<n]"
      using assms(9) iok ok b by (auto simp: Transpose transpose_invert_extents_def)
    then show ?thesis using assms(5) ok le transpose_inverse_nth(2) [OF ok(1)]
      by (auto simp: Transpose positive_def intro!: nth_equalityI)
  next
    case (Delinearize d sizes)
    have "d + length sizes \<le> length e" "sizes \<noteq> []" using assms(1,3,4) by (auto simp: Delinearize Suc_leI)
    then show ?thesis using delinearize_corners [of d sizes e b b' e'] assms by (simp add: Delinearize)
  qed
  then show ?thesis using b lb by simp
qed

lemma source_corners:
  "stack_ok ts n \<Longrightarrow> stack_sized ts \<Longrightarrow> length b = stack_ndim ts n \<Longrightarrow> length e = length b \<Longrightarrow> positive e \<Longrightarrow>
   source_ok ts b \<Longrightarrow> source_ok ts (far_corner b e) \<Longrightarrow>
   stack_invert_point ts b = Inr b' \<Longrightarrow> stack_invert_extents ts e = Inr e' \<Longrightarrow>
     source ts b = b' \<and> source ts (far_corner b e) = far_corner b' e' \<and> positive e' \<and> length b' = n \<and> length e' = n"
proof (induction ts arbitrary: b e)
  case Nil
  then show ?case by (simp add: stack_invert_point_def stack_invert_extents_def)
next
  case (Cons t parent)
  obtain b1 where b1: "t_invert_point t b = Inr b1" "stack_invert_point parent b1 = Inr b'"
    using Cons.prems(8) by (auto simp only: stack_invert_point_def stack_invert_visit_Cons rbind_eq_Inr)
  obtain e1 where e1: "t_invert_extents t e = Inr e1" "stack_invert_extents parent e1 = Inr e'"
    using Cons.prems(9) by (auto simp only: stack_invert_extents_def stack_invert_visit_Cons rbind_eq_Inr)
  have ok: "t_ok t (stack_ndim parent n)" "t_sized t" "length b = t_child_ndim t (stack_ndim parent n)"
    "t_digits t b" "t_digits t (far_corner b e)" using Cons.prems by (simp_all add: stack_sized_def)
  note c = t_corners [OF ok(1,2,3) Cons.prems(4,5) ok(4,5) b1(1) e1(1)]
  then show ?case using Cons.IH [OF _ _ _ _ _ _ _ b1(2) e1(2)] Cons.prems by (simp add: stack_sized_def)
qed

text \<open>Every point of a box has its source in the rectangle that the two functions compute.\<close>

lemma source_in_rect:
  assumes "stack_ok ts n" "stack_sized ts" "length es = stack_ndim ts n" "positive es"
    "\<And>q. in_extents es q \<Longrightarrow> source_ok ts q"
    "stack_invert_point ts (replicate (length es) 0) = Inr b" "stack_invert_extents ts es = Inr e" "in_extents es q"
  shows "in_rect b e (source ts q)"
proof -
  let ?z = "replicate (length es) (0 :: coord)"
  note box = corners_in_extents [OF assms(4)]
  note c = source_corners [OF assms(1,2) _ _ assms(4) assms(5) [OF box(1)] assms(5) [OF box(2)] assms(6,7)]
  have "below ?z q" "below q (far_corner ?z es)" using assms(8) by (auto simp: below_def in_extents_def)
  then have "below (source ts ?z) (source ts q)" "below (source ts q) (source ts (far_corner ?z es))"
    using source_mono [OF assms(1,2) _ _ assms(5)] box assms(3,8) in_extentsD(1) by (metis length_replicate)+
  then show ?thesis using c assms(3) by (simp add: in_rect_corners)
qed

end
