(* ===== verification/StoresCorrect.thy ===== *)
theory StoresCorrect
  imports Stores ViewCorners
begin

text \<open>
  What the operations on logical stores promise: every view a program can reach keeps all its points within
  the storage it names, and two views that share a point are reported as overlapping.
\<close>

section \<open>Well-formed storages\<close>

definition so_exts :: "storages \<Rightarrow> nat \<Rightarrow> u64 list" where
  "so_exts sts a = (case shape_extents (so_shape (sts ! a)) of Inl e \<Rightarrow> [] | Inr es \<Rightarrow> es)"

abbreviation so_offs :: "storages \<Rightarrow> nat \<Rightarrow> int list" where
  "so_offs sts a \<equiv> so_offsets (sts ! a)"

definition within :: "int list \<Rightarrow> u64 list \<Rightarrow> u64 list \<Rightarrow> bool" where
  "within offs es root \<longleftrightarrow> length es = length offs \<and> length root = length offs \<and>
     (\<forall>i < length offs. 0 \<le> offs ! i \<and> offs ! i + uint (es ! i) \<le> uint (root ! i))"

text \<open>Sizes that the runtime can allocate: the number of elements fits in 63 bits.\<close>

definition fits63 :: "u64 list \<Rightarrow> bool" where
  "fits63 es \<longleftrightarrow> u63 es \<and> prod_list (map uint es) < 2 ^ 63"

definition storage_ok :: "storages \<Rightarrow> nat \<Rightarrow> bool" where
  "storage_ok sts a \<longleftrightarrow>
     shape_extents (so_shape (sts ! a)) = Inr (so_exts sts a) \<and> shape_ndim (so_shape (sts ! a)) = length (so_exts sts a) \<and>
     fits63 (so_exts sts a) \<and> length (so_offs sts a) = length (so_exts sts a) \<and>
     (case so_parent (sts ! a) of
        None \<Rightarrow> so_offs sts a = replicate (length (so_exts sts a)) 0
      | Some p \<Rightarrow> sp_parent p < a \<and> so_parent (sts ! sp_parent p) = None \<and>
          within (so_offs sts a) (so_exts sts a) (so_exts sts (sp_parent p)))"

definition storages_ok :: "storages \<Rightarrow> bool" where
  "storages_ok sts \<longleftrightarrow> (\<forall>a < length sts. storage_ok sts a)"

definition root_of :: "storages \<Rightarrow> nat \<Rightarrow> nat" where
  "root_of sts a = (case so_parent (sts ! a) of None \<Rightarrow> a | Some p \<Rightarrow> sp_parent p)"

lemma get_root_eq:
  assumes "storages_ok sts" "a < length sts"
  shows "get_root sts a = Inr (root_of sts a)" "root_of sts a \<le> a" "so_parent (sts ! root_of sts a) = None"
proof -
  have ok: "storage_ok sts a" using assms by (simp add: storages_ok_def)
  show "get_root sts a = Inr (root_of sts a)" "root_of sts a \<le> a" "so_parent (sts ! root_of sts a) = None"
  proof (atomize (full), cases "so_parent (sts ! a)")
    case None
    then show "get_root sts a = Inr (root_of sts a) \<and> root_of sts a \<le> a \<and> so_parent (sts ! root_of sts a) = None"
      using assms(2) get_root.simps [of sts a] by (simp add: root_of_def)
  next
    case (Some p)
    then have p: "sp_parent p < a" "so_parent (sts ! sp_parent p) = None" using ok by (simp_all add: storage_ok_def)
    then show "get_root sts a = Inr (root_of sts a) \<and> root_of sts a \<le> a \<and> so_parent (sts ! root_of sts a) = None"
      using assms(2) Some get_root.simps [of sts a] get_root.simps [of sts "sp_parent p"] by (simp add: root_of_def)
  qed
qed

lemma within_root:
  assumes "storages_ok sts" "a < length sts"
  shows "within (so_offs sts a) (so_exts sts a) (so_exts sts (root_of sts a))"
proof -
  have ok: "storage_ok sts a" using assms by (simp add: storages_ok_def)
  show ?thesis
  proof (cases "so_parent (sts ! a)")
    case None
    then have "so_offs sts a = replicate (length (so_exts sts a)) 0" using ok by (simp add: storage_ok_def)
    then show ?thesis using None by (simp only: within_def root_of_def length_replicate nth_replicate option.case) simp
  next
    case (Some p)
    then show ?thesis using ok unfolding storage_ok_def root_of_def by (simp only: option.case)
  qed
qed

lemma within_rect: "within offs es root \<Longrightarrow> in_rect offs es p \<Longrightarrow> in_extents root p"
  by (fastforce simp: within_def in_rect_def in_extents_def)

text \<open>Storages grow, and only their key partitions change.\<close>

definition grows :: "storages \<Rightarrow> storages \<Rightarrow> bool" where
  "grows sts sts' \<longleftrightarrow> length sts \<le> length sts' \<and> (\<forall>a < length sts.
     so_shape (sts' ! a) = so_shape (sts ! a) \<and> so_offs sts' a = so_offs sts a \<and> so_parent (sts' ! a) = so_parent (sts ! a))"

lemma grows_refl [simp]: "grows sts sts"
  by (simp add: grows_def)

lemma grows_append [simp]: "grows sts (sts @ xs)"
  by (simp add: grows_def nth_append)

lemma grows_exts: "grows sts sts' \<Longrightarrow> a < length sts \<Longrightarrow> so_exts sts' a = so_exts sts a"
  by (simp add: grows_def so_exts_def)

lemma grows_storage_ok:
  assumes "grows sts sts'" "storage_ok sts a" "a < length sts"
  shows "storage_ok sts' a"
proof -
  have g: "so_shape (sts' ! b) = so_shape (sts ! b)" "so_offs sts' b = so_offs sts b" "so_parent (sts' ! b) = so_parent (sts ! b)"
    "so_exts sts' b = so_exts sts b" if "b \<le> a" for b
    using assms(1,3) that by (simp_all add: grows_def so_exts_def)
  note ga = g [OF order_refl]
  show ?thesis
  proof (cases "so_parent (sts ! a)")
    case None
    then show ?thesis using assms(2) unfolding storage_ok_def ga by simp
  next
    case (Some p)
    then have "sp_parent p \<le> a" using assms(2) by (simp add: storage_ok_def)
    then show ?thesis using assms(2) Some g [of "sp_parent p"] unfolding storage_ok_def ga by simp
  qed
qed

lemma storages_ok_snoc:
  assumes "storages_ok sts" "storage_ok (sts @ [s]) (length sts)"
  shows "storages_ok (sts @ [s])"
  using assms grows_storage_ok [OF grows_append] by (auto simp: storages_ok_def less_Suc_eq)

section \<open>Sub-storages\<close>

lemma tile_child:
  assumes "within offs tile root" "u63 root" "positive tile" "tiling_wf t" "has_color t c"
    "tl_tile_shape t = tile" "tl_strides t = tile" "\<And>i. i < length offs \<Longrightarrow> tile_lo t c i = offs ! i"
  shows "get_child_extents t root c = Inr tile" "get_child_offsets t c = Inr offs"
proof -
  have l: "length tile = length offs" "length root = length offs" using assms(1) by (simp_all add: within_def)
  obtain es where es: "get_child_extents t root c = Inr es" "length es = length tile"
    "\<forall>i < length es. uint (es ! i) = max 0 (min (uint (root ! i)) (tile_lo t c i + uint (tile ! i)) - max 0 (tile_lo t c i))"
    using get_child_extents_Inr [OF assms(4,5), of root] assms(2,6,7) l by (auto simp: u63_def)
  have "es = tile"
  proof (rule nth_equalityI [OF es(2)])
    fix i assume "i < length es"
    then have i: "i < length offs" using es(2) l by simp
    have "0 \<le> offs ! i" "offs ! i + uint (tile ! i) \<le> uint (root ! i)" using assms(1) i by (auto simp: within_def)
    then have "uint (es ! i) = uint (tile ! i)" using es(2,3) i l assms(8) [OF i] by simp
    then show "es ! i = tile ! i" by (simp add: word_uint_eq_iff)
  qed
  then show "get_child_extents t root c = Inr tile" using es(1) by simp
  show "get_child_offsets t c = Inr offs" unfolding get_child_offsets_Inr [OF assms(4,5)] assms(6)
    using l assms(8) by (auto intro: nth_equalityI)
qed

lemma tile_divides_True:
  "tile_divides zs = Inr True \<Longrightarrow> \<forall>(shp, tshap, off) \<in> set zs. tshap \<noteq> 0 \<and> shp mod tshap = 0 \<and> word_of_int off mod tshap = 0"
  by (induction zs rule: tile_divides.induct) (auto simp: rguard_def split: if_splits)

lemma can_tile_completely_divides:
  assumes "can_tile_completely_for m root tile offs = Inr b"
  shows "length root = length tile" "length offs = length tile"
    "b \<Longrightarrow> i < length tile \<Longrightarrow> root ! i mod tile ! i = 0 \<and> word_of_int (offs ! i) mod tile ! i = 0"
proof -
  obtain d where d: "length tile = length offs" "length root = length (zip tile offs)" "tile_divides (zip root (zip tile offs)) = Inr d"
    "b \<longrightarrow> d"
    using assms by (auto simp: can_tile_completely_for_def zip_equal_def rbind_eq_Inr rguard_eq_Inr split: if_splits)
  then show "length root = length tile" "length offs = length tile" by simp_all
  show "root ! i mod tile ! i = 0 \<and> word_of_int (offs ! i) mod tile ! i = 0" if "b" "i < length tile"
  proof -
    have "(root ! i, tile ! i, offs ! i) \<in> set (zip root (zip tile offs))" using d(1,2) that by (auto simp: set_zip)
    then show ?thesis using tile_divides_True [of "zip root (zip tile offs)"] d(3,4) that by auto
  qed
qed

lemma complete_tile:
  assumes "0 \<le> off" "off + uint tile \<le> uint root" "uint (root :: u64) < 2 ^ 63" "0 < uint tile"
    "root mod tile = 0" "word_of_int off mod tile = 0"
  shows "uint tile * uint (word_of_int off div tile) = off" "word_of_int off div tile < root div tile"
    "uint tile * uint (root div tile) = uint root" "uint (root div tile) < 2 ^ 63"
proof -
  have o: "uint (word_of_int off :: u64) = off" using assms(1-4) by (intro uint_word_of_int_u64) auto
  have mods: "uint root mod uint tile = 0" "off mod uint tile = 0"
    using assms(5,6) o by (metis uint_mod unsigned_0)+
  then show a: "uint tile * uint (word_of_int off div tile) = off" by (simp add: uint_div o mult_div_mod_eq dvd_eq_mod_eq_0 [symmetric])
  show b: "uint tile * uint (root div tile) = uint root" using mods by (simp add: uint_div dvd_eq_mod_eq_0 [symmetric])
  have "uint tile * uint (word_of_int off div tile) < uint tile * uint (root div tile)" unfolding a b using assms(2,4) by simp
  then show "word_of_int off div tile < root div tile" using assms(4) by (simp add: word_less_def)
  have "1 * uint (root div tile) \<le> uint tile * uint (root div tile)" using assms(4) by (intro mult_right_mono) simp_all
  then show "uint (root div tile) < 2 ^ 63" using b assms(3) by simp
qed

text \<open>The tile that \<open>Storage::slice\<close> makes of an offset and an extent, and its color.\<close>

lemma slice_tile:
  assumes "within offs tile root" "u63 root" "positive tile" "can_tile_completely_for m root tile offs = Inr b"
    "t = \<lparr>tl_overlapped = False, tl_tile_shape = tile,
        tl_color_shape = (if b then map2 (div) root tile else replicate (length root) 1),
        tl_offsets = (if b then map (\<lambda>_. 0) offs else offs), tl_strides = tile\<rparr>"
    "c = (if b then map2 (\<lambda>off tile. word_of_int off div tile) offs tile else replicate (length root) 0)"
  shows "get_child_extents t root c = Inr tile" "get_child_offsets t c = Inr offs"
proof -
  note d = can_tile_completely_divides [OF assms(4)]
  have w: "0 \<le> offs ! i" "offs ! i + uint (tile ! i) \<le> uint (root ! i)" "uint (root ! i) < 2 ^ 63" "0 < uint (tile ! i)"
    if "i < length tile" for i
    using assms(1-3) that by (auto simp: within_def u63_def positive_def)
  have tile: "uint (tile ! i) < 2 ^ 63" if "i < length tile" for i using w [OF that] by linarith
  have ct: "uint (tile ! i) * uint (word_of_int (offs ! i) div tile ! i) = offs ! i"
      "word_of_int (offs ! i) div tile ! i < root ! i div tile ! i"
      "uint (tile ! i) * uint (root ! i div tile ! i) < 2 ^ 63" "uint (root ! i div tile ! i) < 2 ^ 63"
    if "b" "i < length tile" for i
    using complete_tile [OF w [OF that(2)]] d(3) [OF that] w(3) [OF that(2)] by simp_all
  have wf: "tiling_wf t"
  proof (cases b)
    case True
    then show ?thesis using d(1,2) ct(3,4) tile
      by (simp add: assms(5) tiling_wf_def)
  next
    case False
    then show ?thesis using d(1,2) tile by (simp add: assms(5) tiling_wf_def)
  qed
  have color: "has_color t c"
  proof (cases b)
    case True
    then show ?thesis using d(1,2) ct(2)
      by (simp add: assms(5,6) has_color_def list_all2_conv_all_nth)
  next
    case False
    then show ?thesis by (simp add: assms(5,6) has_color_def list_all2_conv_all_nth)
  qed
  have lo: "tile_lo t c i = offs ! i" if "i < length offs" for i
  proof (cases b)
    case True
    then show ?thesis using d(1,2) that ct(1) [of i]
      by (simp add: assms(5,6) tile_lo_def)
  next
    case False
    then show ?thesis using d(1,2) that by (simp add: assms(5,6) tile_lo_def)
  qed
  show "get_child_extents t root c = Inr tile" "get_child_offsets t c = Inr offs"
    using tile_child [OF assms(1-3) wf color _ _ lo] by (simp_all add: assms(5))
qed

lemma fits63_within:
  assumes "within offs es root" "fits63 root" "positive es"
  shows "fits63 es"
proof -
  have l: "length es = length root" using assms(1) by (simp add: within_def)
  have le: "0 < uint (es ! i) \<and> uint (es ! i) \<le> uint (root ! i)" if "i < length es" for i
    using assms(1,3) that by (force simp: within_def positive_def)
  have "prod_list (map uint xs) \<le> prod_list (map uint ys)"
    if "list_all2 (\<lambda>x y. uint x \<le> uint y) xs ys" for xs ys :: "u64 list"
    using that by induction (auto intro!: mult_mono prod_list_nonneg)
  moreover have "list_all2 (\<lambda>x y. uint x \<le> uint y) es root" using le l by (simp add: list_all2_conv_all_nth)
  ultimately have "prod_list (map uint es) < 2 ^ 63" using assms(2) by (fastforce simp: fits63_def)
  moreover have "u63 es" using le l assms(2) by (force simp: fits63_def u63_def)
  ultimately show ?thesis by (simp add: fits63_def)
qed

text \<open>\<open>Storage::slice\<close> gives the storage itself, or a new one with the wanted offsets and extents.\<close>

lemma so_slice_ok:
  assumes "storages_ok sts" "a < length sts" "so_slice m inline sts a tile offs = Inr (sts', a')"
    "within offs tile (so_exts sts (root_of sts a))" "positive tile"
  shows "storages_ok sts' \<and> grows sts sts' \<and> a' < length sts' \<and> root_of sts' a' = root_of sts a \<and>
    (a' = a \<or> so_offs sts' a' = offs \<and> so_exts sts' a' = tile)"
proof (cases "so_kind (sts ! a) = FUTURE")
  case True
  then show ?thesis using assms by (auto simp: so_slice_def)
next
  case False
  let ?r = "root_of sts a"
  note root = get_root_eq [OF assms(1,2)]
  have r: "?r < length sts" using root(2) assms(2) by simp
  have rok: "storage_ok sts ?r" using assms(1) r by (simp add: storages_ok_def)
  then have rex: "shape_extents (so_shape (sts ! ?r)) = Inr (so_exts sts ?r)" and fits: "fits63 (so_exts sts ?r)"
    by (simp_all add: storage_ok_def)
  obtain b where b: "can_tile_completely_for m (so_exts sts ?r) tile offs = Inr b"
    using assms(3) False rex r assms(2) root(1) by (auto simp: so_slice_def rbind_eq_Inr)
  note d = can_tile_completely_divides [OF b]
  define t where "t = \<lparr>tl_overlapped = False, tl_tile_shape = tile,
    tl_color_shape = (if b then map2 (div) (so_exts sts ?r) tile else replicate (length (so_exts sts ?r)) 1),
    tl_offsets = (if b then map (\<lambda>_. 0) offs else offs), tl_strides = tile\<rparr>"
  define c where "c = (if b then map2 (\<lambda>off tile. word_of_int off div tile) offs tile
    else replicate (length (so_exts sts ?r)) 0)"
  have u: "u63 (so_exts sts ?r)" using fits by (simp add: fits63_def)
  note child = slice_tile [OF assms(4) u assms(5) b t_def c_def]
  have tiling: "create_tiling tile (if b then map2 (div) (so_exts sts ?r) tile else replicate (length (so_exts sts ?r)) 1)
      (if b then map (\<lambda>_. 0) offs else offs) = Inr t"
    using d(1,2) by (auto simp: create_tiling_def t_def Let_def)
  define p where "p = \<lparr>sp_complete = b, sp_level = so_level (sts ! ?r) + 1, sp_parent = ?r, sp_partition = PTiling t\<rparr>"
  have "so_slice m inline sts a tile offs = get_child_storage inline sts p c"
    using assms(2) False r
    by (simp add: so_slice_def root(1) rex b Let_def tiling [simplified] so_create_partition_def p_def c_def)
  then have "get_child_storage inline sts p c = Inr (sts', a')" using assms(3) by simp
  then obtain s where s: "sts' = sts @ [s]" "a' = length sts" "so_shape s = ReadyShape tile" "so_parent s = Some p" "so_offsets s = offs"
    using r child by (auto simp: get_child_storage_def p_def rex rguard_eq_Inr)
  have new: "so_exts sts' a' = tile" "so_offs sts' a' = offs" "so_parent (sts' ! a') = Some p"
    using s by (simp_all add: so_exts_def)
  have "storage_ok sts' a'"
    using new s fits63_within [OF assms(4) fits assms(5)] assms(4) r root(3) grows_exts [OF grows_append r]
    by (simp add: storage_ok_def p_def within_def nth_append)
  then have "storages_ok sts'" using storages_ok_snoc [OF assms(1)] s(1,2) by simp
  then show ?thesis using new s(1,2) by (simp add: root_of_def p_def)
qed

section \<open>Views\<close>

text \<open>A transform takes the points of the new view into the old one.\<close>

definition t_maps :: "transform \<Rightarrow> u64 list \<Rightarrow> u64 list \<Rightarrow> bool" where
  "t_maps t es' es \<longleftrightarrow> t_ok t (length es) \<and> t_sized t \<and> length es' = t_child_ndim t (length es) \<and>
     (\<forall>q. in_extents es' q \<longrightarrow> t_digits t q \<and> in_extents es (t_source t q))"

lemma promote_maps: "d \<le> length es \<Longrightarrow> t_maps (Promote d sz) (take d es @ sz # drop d es) es"
proof -
  assume d: "d \<le> length es"
  have "in_extents es (take d q @ drop (Suc d) q)" if q: "in_extents (take d es @ sz # drop d es) q" for q
  proof -
    have l: "length q = Suc (length es)" "d < length q" using d in_extentsD(1) [OF q] by simp_all
    have b: "0 \<le> q ! i \<and> q ! i < uint ((take d es @ sz # drop d es) ! i)" if "i < Suc (length es)" for i
      using in_extentsD(2,3) [OF q, of i] that d by simp
    show ?thesis unfolding in_extents_def
    proof (intro conjI allI impI)
      show "length (take d q @ drop (Suc d) q) = length es" using l d by simp
      fix i assume i: "i < length es"
      then have "(take d q @ drop (Suc d) q) ! i = (if i < d then q ! i else q ! Suc i)" using l by (intro nth_erase) simp_all
      then show "0 \<le> (take d q @ drop (Suc d) q) ! i" "(take d q @ drop (Suc d) q) ! i < uint (es ! i)"
        using b [of i] b [of "Suc i"] i d by (simp_all add: nth_insert split: if_splits)
    qed
  qed
  then show ?thesis using d by (simp add: t_maps_def)
qed

lemma project_maps:
  assumes "d < length es" "0 \<le> c" "c < uint (es ! d)"
  shows "t_maps (Project d c) (take d es @ drop (Suc d) es) es"
proof -
  have "in_extents es (take d q @ c # drop d q)" if q: "in_extents (take d es @ drop (Suc d) es) q" for q
  proof -
    have l: "length q = length es - 1" "d \<le> length q" using assms(1) in_extentsD(1) [OF q] by simp_all
    have b: "0 \<le> q ! i \<and> q ! i < uint ((take d es @ drop (Suc d) es) ! i)" if "i < length es - 1" for i
      using in_extentsD(2,3) [OF q, of i] that assms(1) by simp
    show ?thesis unfolding in_extents_def
    proof (intro conjI allI impI)
      show "length (take d q @ c # drop d q) = length es" using l assms(1) by simp
      fix i assume i: "i < length es"
      then have "(take d q @ c # drop d q) ! i = (if i < d then q ! i else if i = d then c else q ! (i - 1))"
        using l by (intro nth_insert) simp_all
      moreover have "0 \<le> q ! i \<and> q ! i < uint (es ! i)" if "i < d"
        using b [of i] that i assms(1) nth_erase [OF assms(1), of i] by simp
      moreover have "0 \<le> q ! (i - 1) \<and> q ! (i - 1) < uint (es ! i)" if "d < i"
      proof -
        obtain j where j: "i = Suc j" "d \<le> j" using \<open>d < i\<close> by (cases i) auto
        then show ?thesis using b [of j] i assms(1) nth_erase [OF assms(1), of j] by simp
      qed
      ultimately show "0 \<le> (take d q @ c # drop d q) ! i" "(take d q @ c # drop d q) ! i < uint (es ! i)"
        using assms(2,3) by (auto simp: not_less_iff_gr_or_eq split: if_splits)
    qed
  qed
  then show ?thesis using assms(1) by (simp add: t_maps_def)
qed

lemma broadcast_maps: "d < length es \<Longrightarrow> es ! d = 1 \<Longrightarrow> t_maps (DimBroadcast d sz) (es[d := sz]) es"
  by (auto simp: t_maps_def in_extents_def nth_list_update split: if_splits)

lemma shift_maps:
  assumes "d < length es" "0 \<le> s" "s + uint ext \<le> uint (es ! d)"
  shows "t_maps (Shift d (- s)) (es[d := ext]) es"
proof -
  have "in_extents es (q[d := q ! d + s])" if q: "in_extents (es[d := ext]) q" for q
  proof -
    have "length q = length es" "0 \<le> q ! d" "q ! d < uint ext"
      using in_extentsD(1) [OF q] in_extentsD(2,3) [OF q, of d] assms(1) by simp_all
    moreover have "0 \<le> q ! i \<and> q ! i < uint (es ! i)" if "i \<noteq> d" "i < length es" for i
      using in_extentsD(2,3) [OF q, of i] that by simp
    ultimately show ?thesis using assms by (auto simp: in_extents_def nth_list_update)
  qed
  then show ?thesis using assms(1) by (simp add: t_maps_def)
qed

lemma shrink_box:
  assumes "d < length es" "uint ext \<le> uint (es ! d)" "in_extents (es[d := ext]) q"
  shows "in_extents es q"
  unfolding in_extents_def
proof (intro conjI allI impI)
  show "length q = length es" using in_extentsD(1) [OF assms(3)] by simp
  fix i assume i: "i < length es"
  show "0 \<le> q ! i" using in_extentsD(2) [OF assms(3), of i] i by simp
  show "q ! i < uint (es ! i)" using in_extentsD(3) [OF assms(3), of i] i assms(1,2) by (cases "i = d") simp_all
qed

lemma in_extents_positive: "in_extents es q \<Longrightarrow> \<forall>s \<in> set es. 0 < uint s"
proof
  fix s assume "in_extents es q" "s \<in> set es"
  moreover from this obtain i where "i < length es" "es ! i = s" by (auto simp: in_set_conv_nth)
  ultimately show "0 < uint s" using in_extentsD(2,3) [of es q i] by simp
qed

lemma transpose_maps:
  assumes "axes_ok axes (length es)" "0 < length es"
  shows "t_maps (Transpose axes) (map ((!) es) axes) es"
proof -
  have l: "length axes = length es" using assms(1) by (simp add: axes_ok_def)
  have "in_extents es (map (\<lambda>i. q ! (transpose_inverse axes ! i)) [0..<length q])" if q: "in_extents (map ((!) es) axes) q" for q
    unfolding in_extents_def
  proof (intro conjI allI impI)
    show "length (map (\<lambda>i. q ! (transpose_inverse axes ! i)) [0..<length q]) = length es" using in_extentsD(1) [OF q] l by simp
    fix i assume i: "i < length es"
    note inv = transpose_inverse_nth [OF assms(1) i]
    show "0 \<le> map (\<lambda>i. q ! (transpose_inverse axes ! i)) [0..<length q] ! i"
      "map (\<lambda>i. q ! (transpose_inverse axes ! i)) [0..<length q] ! i < uint (es ! i)"
      using in_extentsD(2,3) [OF q, of "transpose_inverse axes ! i"] in_extentsD(1) [OF q] inv i l by simp_all
  qed
  then show ?thesis using assms l by (simp add: t_maps_def)
qed

lemma fold_times: "fold (*) xs a = a * prod_list (xs :: u64 list)"
  by (induction xs arbitrary: a) (simp_all add: ac_simps)

lemma digit_sum_bounds:
  assumes "in_extents sizes ds" "prod_list (map uint sizes) < 2 ^ 63"
  shows "0 \<le> digit_sum ds (delinearize_strides sizes)" "digit_sum ds (delinearize_strides sizes) < prod_list (map uint sizes)"
proof -
  note pos = in_extents_positive [OF assms(1)]
  have "below (replicate (length sizes) 0) ds" "below ds (map (\<lambda>s. uint s - 1) sizes)"
    using in_extentsD [OF assms(1)] by (auto simp: below_def)
  then have "digit_sum (replicate (length sizes) 0) (delinearize_strides sizes) \<le> digit_sum ds (delinearize_strides sizes)"
    "digit_sum ds (delinearize_strides sizes) \<le> digit_sum (map (\<lambda>s. uint s - 1) sizes) (delinearize_strides sizes)"
    using digit_sum_mono [OF pos assms(2)] in_extentsD(1) [OF assms(1)] by simp_all
  moreover have "digit_sum (replicate (length sizes) 0) (delinearize_strides sizes) = 0"
    by (simp add: digit_sum_def map2_map_map zip_replicate1 o_def)
  moreover note digit_sum_max [OF pos assms(2)]
  ultimately show "0 \<le> digit_sum ds (delinearize_strides sizes)"
    "digit_sum ds (delinearize_strides sizes) < prod_list (map uint sizes)" by linarith+
qed

lemma delinearize_maps:
  assumes "d < length es" "sizes \<noteq> []" "prod_list (map uint sizes) < 2 ^ 63" "delinearizable (es ! d) sizes"
  shows "t_maps (Delinearize d sizes) (take d es @ sizes @ drop (Suc d) es) es"
proof -
  let ?es = "take d es @ sizes @ drop (Suc d) es" and ?k = "length sizes"
  have "t_digits (Delinearize d sizes) q \<and> in_extents es (t_source (Delinearize d sizes) q)" if q: "in_extents ?es q" for q
  proof -
    have l: "length q + 1 = length es + ?k" using in_extentsD(1) [OF q] assms(1) by simp
    have b: "0 \<le> q ! i \<and> q ! i < uint (?es ! i)" if "i < length q" for i
      using in_extentsD [OF q] that by simp
    have digits: "0 \<le> q ! (d + i) \<and> q ! (d + i) < uint (sizes ! i)" if "i < ?k" for i
      using b [of "d + i"] that l assms(1) by (simp add: nth_append)
    let ?ds = "take ?k (drop d q)"
    have ds: "in_extents sizes ?ds" using digits l assms(1) by (auto simp: in_extents_def)
    note pos = in_extents_positive [OF ds]
    have "prod_list sizes = es ! d" using assms(4) by (simp add: delinearizable_def fold_times)
    then have e: "uint (es ! d) = prod_list (map uint sizes)" using uint_prod_list [OF pos] assms(3) by simp
    note sum = digit_sum_bounds [OF ds assms(3)]
    have "in_extents es (take d q @ digit_sum ?ds (delinearize_strides sizes) # drop (d + ?k) q)"
      unfolding in_extents_def
    proof (intro conjI allI impI)
      show "length (take d q @ digit_sum ?ds (delinearize_strides sizes) # drop (d + ?k) q) = length es"
        using l assms(1,2) by (cases sizes) auto
      fix i assume i: "i < length es"
      consider "i < d" | "i = d" | "d < i" by linarith
      then have "0 \<le> (take d q @ digit_sum ?ds (delinearize_strides sizes) # drop (d + ?k) q) ! i \<and>
          (take d q @ digit_sum ?ds (delinearize_strides sizes) # drop (d + ?k) q) ! i < uint (es ! i)"
      proof cases
        case 1
        then show ?thesis using b [of i] l assms(1) by (simp add: nth_append)
      next
        case 2
        then show ?thesis using sum e l assms(1) by (simp add: nth_append)
      next
        case 3
        then obtain j where j: "i = Suc (d + j)" using less_imp_Suc_add by blast
        then show ?thesis using b [of "d + ?k + j"] l assms(1) i by (simp add: nth_append add.assoc)
      qed
      then show "0 \<le> (take d q @ digit_sum ?ds (delinearize_strides sizes) # drop (d + ?k) q) ! i"
        "(take d q @ digit_sum ?ds (delinearize_strides sizes) # drop (d + ?k) q) ! i < uint (es ! i)" by blast+
    qed
    then show ?thesis using digits by simp
  qed
  moreover have "length ?es = length es + ?k - 1" using assms(1) by simp
  ultimately show ?thesis using assms(1-3) by (simp add: t_maps_def)
qed

text \<open>\<open>view_at sts a ts es\<close>: the view of extents \<open>es\<close> through \<open>ts\<close> lies in the storage \<open>a\<close>.\<close>

definition view_at :: "storages \<Rightarrow> nat \<Rightarrow> transform_stack \<Rightarrow> u64 list \<Rightarrow> bool" where
  "view_at sts a ts es \<longleftrightarrow> a < length sts \<and> u63 es \<and> stack_ok ts (length (so_offs sts a)) \<and> stack_sized ts \<and>
     length es = stack_ndim ts (length (so_offs sts a)) \<and>
     (\<forall>q. in_extents es q \<longrightarrow> source_ok ts q \<and> in_rect (so_offs sts a) (so_exts sts a) (source ts q))"

definition v_exts :: "logical_store \<Rightarrow> u64 list" where
  "v_exts v = (case shape_extents (ls_shape v) of Inl e \<Rightarrow> [] | Inr es \<Rightarrow> es)"

definition view_ok :: "storages \<Rightarrow> logical_store \<Rightarrow> bool" where
  "view_ok sts v \<longleftrightarrow> ls_extents v = Inr (v_exts v) \<and> ls_dim v = length (v_exts v) \<and>
     view_at sts (ls_storage v) (ls_transform v) (v_exts v)"

lemma view_at_grows:
  assumes "grows sts sts'" "view_at sts a ts es"
  shows "view_at sts' a ts es"
proof -
  have a: "a < length sts" using assms(2) by (simp add: view_at_def)
  then have "so_offs sts' a = so_offs sts a" "a < length sts'" using assms(1) by (simp_all add: grows_def)
  then show ?thesis using assms(2) grows_exts [OF assms(1) a] by (simp add: view_at_def)
qed

lemma view_ok_grows: "grows sts sts' \<Longrightarrow> view_ok sts v \<Longrightarrow> view_ok sts' v"
  using view_at_grows by (simp add: view_ok_def)

lemma view_at_push:
  assumes "view_at sts a ts es" "t_maps t es' es" "u63 es'"
  shows "view_at sts a (t # ts) es'"
  using assms by (simp add: view_at_def t_maps_def stack_sized_def)

lemma view_at_shrink:
  assumes "view_at sts a ts es" "length es' = length es" "u63 es'" "\<And>q. in_extents es' q \<Longrightarrow> in_extents es q"
  shows "view_at sts a ts es'"
  using assms by (auto simp: view_at_def)

lemma mk_view_ok:
  assumes "mk_view es a t ts dm = Inr v" "view_at sts a ts es"
  shows "view_ok sts v"
  using assms by (auto simp: mk_view_def rguard_eq_Inr view_ok_def ls_extents_def ls_dim_def v_exts_def)

lemma view_at_root:
  assumes "storages_ok sts" "a < length sts" "so_parent (sts ! a) = None" "es = so_exts sts a"
  shows "view_at sts a [] es"
proof -
  have ok: "storage_ok sts a" using assms(1,2) by (simp add: storages_ok_def)
  then have "so_offs sts a = replicate (length es) 0" "u63 es" using assms(3,4) by (simp_all add: storage_ok_def fits63_def)
  then show ?thesis using assms(2,4) by (simp add: view_at_def stack_sized_def in_extents_rect)
qed

text \<open>\<open>volume() == 0\<close> holds of every shape with an empty dimension (and of some others, when the product wraps).\<close>

lemma array_volume_positive:
  assumes "array_volume es \<noteq> 0"
  shows "positive es"
proof -
  have "prod_list xs = 0" if "0 \<in> set xs" for xs :: "u64 list" using that by (induction xs) auto
  then have "0 \<notin> set es" using assms unfolding array_volume_def fold_times by auto
  then show ?thesis unfolding positive_def by (metis nth_mem uint_0_iff uint_ge_0 order_le_less)
qed

lemma array_volume_nonzero:
  assumes "fits63 es" "in_rect offs es p"
  shows "array_volume es \<noteq> 0"
proof -
  have "\<forall>s \<in> set es. 0 < uint s"
  proof
    fix s assume "s \<in> set es"
    then obtain i where "i < length es" "es ! i = s" by (auto simp: in_set_conv_nth)
    then show "0 < uint s" using assms(2) by (fastforce simp: in_rect_def)
  qed
  then have "0 < uint (prod_list es)" using uint_prod_list [of es] assms(1) by (simp add: fits63_def)
  then show ?thesis by (auto simp: array_volume_def fold_times)
qed

text \<open>The sub-storage of a view holds all its points.\<close>

lemma substorage_ok:
  assumes "storages_ok sts" "view_ok sts s" "substorage m inline sts s ts es = Inr (sts', a')"
    "view_at sts (ls_storage s) ts es" "positive (v_exts s) \<Longrightarrow> positive es"
  shows "storages_ok sts' \<and> grows sts sts' \<and> view_at sts' a' ts es \<and> root_of sts' a' = root_of sts (ls_storage s)"
proof -
  let ?a = "ls_storage s"
  have v: "shape_extents (ls_shape s) = Inr (v_exts s)" using assms(2) by (simp add: view_ok_def ls_extents_def)
  show ?thesis
  proof (cases "inline \<or> array_volume (v_exts s) = 0")
    case True
    then have "sts' = sts" "a' = ?a" using assms(3) v by (auto simp: substorage_def shape_volume_def split: if_splits)
    then show ?thesis using assms(1,4) by simp
  next
    case False
    then have pos: "positive es" using array_volume_positive assms(5) by blast
    obtain tile offs where t: "stack_invert_extents ts es = Inr tile" "stack_invert_point ts (replicate (length es) 0) = Inr offs"
      "so_slice m inline sts ?a tile offs = Inr (sts', a')"
      using assms(3) False v by (auto simp: substorage_def shape_volume_def rbind_eq_Inr)
    note at = assms(4) [unfolded view_at_def]
    have a: "?a < length sts" and n: "stack_ok ts (length (so_offs sts ?a))" "stack_sized ts"
      "length es = stack_ndim ts (length (so_offs sts ?a))" using at by blast+
    have src: "source_ok ts q" "in_rect (so_offs sts ?a) (so_exts sts ?a) (source ts q)" if "in_extents es q" for q
      using at that by blast+
    note box = corners_in_extents [OF pos]
    note c = source_corners [OF n(1,2) _ _ pos src(1) [OF box(1)] src(1) [OF box(2)] t(2,1)]
    have c': "source ts (replicate (length es) 0) = offs" "source ts (far_corner (replicate (length es) 0) es) = far_corner offs tile"
      "positive tile" "length offs = length (so_offs sts ?a)" "length tile = length (so_offs sts ?a)"
      using c n(3) by simp_all
    note wr = within_root [OF assms(1) a]
    have "in_extents (so_exts sts (root_of sts ?a)) offs" "in_extents (so_exts sts (root_of sts ?a)) (far_corner offs tile)"
      using within_rect [OF wr src(2) [OF box(1)]] within_rect [OF wr src(2) [OF box(2)]] by (simp_all add: c')
    then have w: "within offs tile (so_exts sts (root_of sts ?a))"
      using c'(4,5) by (auto simp: within_def in_extents_def)
    note sl = so_slice_ok [OF assms(1) a t(3) w c'(3)]
    show ?thesis
    proof (cases "a' = ?a")
      case True
      then show ?thesis using sl view_at_grows [OF _ assms(4)] by blast
    next
      case False
      then have new: "so_offs sts' a' = offs" "so_exts sts' a' = tile" "a' < length sts'" using sl by blast+
      have "in_rect offs tile (source ts q)" if "in_extents es q" for q
        by (rule source_in_rect [OF n pos src(1) t(2,1) that])
      then show ?thesis using sl new at c'(4) by (simp add: view_at_def)
    qed
  qed
qed

section \<open>The operations\<close>

text \<open>What every operation gives: well-formed storages that extend the old ones, and a view in them.\<close>

definition yields :: "storages \<Rightarrow> storages \<Rightarrow> logical_store \<Rightarrow> bool" where
  "yields sts sts' v \<longleftrightarrow> storages_ok sts' \<and> grows sts sts' \<and> view_ok sts' v"

lemma view_okD:
  assumes "view_ok sts v"
  shows "ls_extents v = Inr (v_exts v)" "ls_dim v = length (v_exts v)"
    "view_at sts (ls_storage v) (ls_transform v) (v_exts v)" "u63 (v_exts v)" "ls_storage v < length sts"
    "i < length (v_exts v) \<Longrightarrow> uint (v_exts v ! i) < 2 ^ 63"
  using assms by (auto simp: view_ok_def view_at_def u63_def)

lemma u63_insert: "u63 es \<Longrightarrow> uint x < 2 ^ 63 \<Longrightarrow> u63 (take d es @ x # drop d es)"
  by (auto simp: u63_def nth_append nth_Cons split: nat.splits)

lemma u63_erase: "u63 es \<Longrightarrow> u63 (take d es @ drop (Suc d) es)"
  by (auto simp: u63_def nth_append)

lemma u63_update: "u63 es \<Longrightarrow> uint x < 2 ^ 63 \<Longrightarrow> u63 (es[d := x])"
  by (cases "d < length es") (auto simp: u63_def nth_list_update)

lemma mk_logical_store_ok:
  assumes "mk_logical_store inline sts a t = Inr v" "storages_ok sts" "a < length sts" "so_parent (sts ! a) = None"
  shows "view_ok sts v"
proof -
  have ok: "storage_ok sts a" using assms(2,3) by (simp add: storages_ok_def)
  have v: "ls_shape v = so_shape (sts ! a)" "ls_storage v = a" "ls_transform v = []"
    using assms(1,3) by (auto simp: mk_logical_store_def rbind_eq_Inr rguard_eq_Inr)
  moreover have "shape_extents (so_shape (sts ! a)) = Inr (so_exts sts a)" using ok by (simp add: storage_ok_def)
  ultimately have "v_exts v = so_exts sts a" by (simp add: v_exts_def)
  then show ?thesis using ok v view_at_root [OF assms(2-4)] by (simp add: view_ok_def storage_ok_def ls_extents_def ls_dim_def)
qed

lemma create_store_yields:
  assumes "create_store max_dim inline shape t opt sts = Inr (sts', v)" "storages_ok sts"
    "shape_extents shape = Inr es" "shape_ndim shape = length es" "fits63 es"
  shows "yields sts sts' v"
proof -
  obtain a where a: "mk_storage inline opt shape sts = Inr (sts', a)" "mk_logical_store inline sts' a t = Inr v"
    using assms(1) by (auto simp: create_store_def rguard_eq_Inr rbind_eq_Inr)
  obtain s where s: "sts' = sts @ [s]" "a = length sts" "so_shape s = shape" "so_parent s = None"
    "so_offsets s = replicate (length es) 0"
    using a(1) assms(4) by (auto simp: mk_storage_def rbind_eq_Inr)
  have "storage_ok sts' a" using s assms(3-5) by (simp add: storage_ok_def so_exts_def)
  then have "storages_ok sts'" using storages_ok_snoc [OF assms(2)] s by simp
  then show ?thesis using mk_logical_store_ok [OF a(2)] s by (simp add: yields_def)
qed

lemma reinterpret_yields:
  assumes "reinterpret_as inline sts t s = Inr v" "storages_ok sts" "view_ok sts s" "so_parent (sts ! ls_storage s) = None"
  shows "yields sts sts v"
proof -
  have "mk_logical_store inline sts (ls_storage s) t = Inr v"
    using assms(1) by (auto simp: reinterpret_as_def rbind_eq_Inr rguard_eq_Inr)
  then show ?thesis using mk_logical_store_ok assms(2-4) view_okD(5) by (auto simp: yields_def)
qed

lemma promote_yields:
  assumes "promote_store d sz s = Inr v" "storages_ok sts" "view_ok sts s" "uint sz < 2 ^ 63"
  shows "yields sts sts v"
proof -
  note s = view_okD [OF assms(3)]
  let ?es = "take (nat d) (v_exts s) @ sz # drop (nat d) (v_exts s)"
  have d: "nat d \<le> length (v_exts s)" and v: "mk_view ?es (ls_storage s) (ls_type s) (Promote (nat d) sz # ls_transform s) (ls_domain s) = Inr v"
    using assms(1) s(1,2) by (auto simp: promote_store_def vec_eq_Inr)
  show ?thesis using mk_view_ok [OF v view_at_push [OF s(3) promote_maps [OF d]]] u63_insert [OF s(4) assms(4)] assms(2)
    by (simp add: yields_def)
qed

lemma broadcast_yields:
  assumes "broadcast_store d sz s = Inr v" "storages_ok sts" "view_ok sts s" "uint sz < 2 ^ 63"
  shows "yields sts sts v"
proof -
  note s = view_okD [OF assms(3)]
  have d: "nat d < length (v_exts s)" "v_exts s ! nat d = 1"
    and v: "mk_view ((v_exts s)[nat d := sz]) (ls_storage s) (ls_type s) (DimBroadcast (nat d) sz # ls_transform s) (ls_domain s) = Inr v"
    using assms(1) s(1,2) by (auto simp: broadcast_store_def vec_eq_Inr)
  show ?thesis using mk_view_ok [OF v view_at_push [OF s(3) broadcast_maps [OF d]]] u63_update [OF s(4) assms(4)] assms(2)
    by (simp add: yields_def)
qed

lemma transpose_yields:
  assumes "transpose_store axes s = Inr v" "storages_ok sts" "view_ok sts s" "0 < ls_dim s"
  shows "yields sts sts v"
proof -
  note s = view_okD [OF assms(3)]
  have g: "length axes = length (v_exts s)" "distinct axes" "\<forall>a \<in> set axes. 0 \<le> a \<and> a < int (length (v_exts s))"
    using assms(1) s(1,2) by (auto simp: transpose_store_def vec_eq_Inr list_all_iff)
  have ax: "axes_ok (map nat axes) (length (v_exts s))" and int: "map int (map nat axes) = axes"
    using g by (auto simp: axes_ok_def distinct_map nat_less_iff eq_nat_nat_iff intro: map_idI inj_onI)
  have "array_map (v_exts s) axes = Inr (map ((!) (v_exts s)) (map nat axes))"
    using array_map_axes [OF ax refl] by (simp only: int)
  then have v: "mk_view (map ((!) (v_exts s)) (map nat axes)) (ls_storage s) (ls_type s)
      (Transpose (map nat axes) # ls_transform s) (ls_domain s) = Inr v"
    using assms(1) s(1) by (simp add: transpose_store_def vec_eq_Inr)
  have "u63 (map ((!) (v_exts s)) (map nat axes))" using s(6) g(3) by (simp add: u63_def nat_less_iff)
  then show ?thesis using mk_view_ok [OF v view_at_push [OF s(3) transpose_maps [OF ax]]] assms(2,4) s(2)
    by (simp add: yields_def)
qed

lemma delinearize_yields:
  assumes "delinearize_store d sizes s = Inr v" "storages_ok sts" "view_ok sts s" "sizes \<noteq> []" "prod_list (map uint sizes) < 2 ^ 63"
  shows "yields sts sts v"
proof -
  note s = view_okD [OF assms(3)]
  let ?es = "take (nat d) (v_exts s) @ sizes @ drop (Suc (nat d)) (v_exts s)"
  have d: "nat d < length (v_exts s)" "delinearizable (v_exts s ! nat d) sizes"
    and v: "mk_view ?es (ls_storage s) (ls_type s) (Delinearize (nat d) sizes # ls_transform s) (ls_domain s) = Inr v"
    using assms(1) s(1,2) by (auto simp: delinearize_store_def vec_eq_Inr)
  have "uint x < 2 ^ 63" if "x \<in> set sizes" for x
  proof -
    have "uint x \<le> uint (v_exts s ! nat d)" using d(2) that by (auto simp: delinearizable_def list_all_iff word_le_def)
    then show ?thesis using s(6) [OF d(1)] by linarith
  qed
  then have "u63 ?es" using s(4) by (auto simp: u63_def nth_append)
  then show ?thesis using mk_view_ok [OF v view_at_push [OF s(3) delinearize_maps [OF d(1) assms(4,5) d(2)]]] assms(2)
    by (simp add: yields_def)
qed

lemma positive_update: "positive es \<Longrightarrow> 0 < uint x \<Longrightarrow> positive (es[d := x])"
  by (cases "d < length es") (auto simp: positive_def nth_list_update)

lemma positive_erase: "d < length es \<Longrightarrow> positive es \<Longrightarrow> positive (take d es @ drop (Suc d) es)"
  by (auto simp: positive_def nth_append)

lemma project_yields:
  assumes "project_store m inline sts d index s = Inr (sts', v)" "storages_ok sts" "view_ok sts s"
  shows "yields sts sts' v"
proof -
  note s = view_okD [OF assms(3)]
  let ?es = "take (nat d) (v_exts s) @ drop (Suc (nat d)) (v_exts s)" and ?ts = "Project (nat d) index # ls_transform s"
  obtain a dm where d: "nat d < length (v_exts s)" "0 \<le> index" "index < sint (v_exts s ! nat d)"
    and sub: "substorage m inline sts s ?ts ?es = Inr (sts', a)"
    and v: "mk_view ?es a (ls_type s) ?ts dm = Inr v"
    using assms(1) s(1,2) by (auto simp: project_store_def vec_eq_Inr Let_def)
  have "index < uint (v_exts s ! nat d)" using d(3) s(6) [OF d(1)] by (simp add: sint_eq_uint_u64)
  then have "view_at sts (ls_storage s) ?ts ?es"
    using view_at_push [OF s(3) project_maps [OF d(1,2)] u63_erase [OF s(4)]] by blast
  then show ?thesis
    using substorage_ok [OF assms(2,3) sub _ positive_erase [OF d(1)]] mk_view_ok [OF v] by (auto simp: yields_def)
qed

text \<open>A slice: what is left of the store after the bounds are normalized.\<close>

lemma slice_bounds:
  fixes e start stop :: u64
  assumes "\<not> (start < stop \<and> (e \<le> start \<or> e < stop))" "ext = (if start < stop then stop - start else 0)" "ext \<noteq> 0"
  shows "start < stop" "uint ext = uint stop - uint start" "uint start + uint ext \<le> uint e" "0 < uint ext"
proof -
  show lt: "start < stop" using assms(2,3) by (auto split: if_splits)
  then have "uint start \<le> uint stop" by (simp add: word_less_def)
  then show ext: "uint ext = uint stop - uint start" using assms(2) lt uint_diff_u64 [of start stop] by simp
  show "uint start + uint ext \<le> uint e" using assms(1) lt ext by (simp add: word_less_def word_le_def)
  show "0 < uint ext" using lt ext by (simp add: word_less_def)
qed

lemma slice_store_cases:
  assumes "slice_store max_dim m inline sts d sl_start sl_stop s = Inr (sts', v)" "view_ok sts s" "v_exts s = es"
    "sanitize_slice sl_start sl_stop (sint (es ! nat d)) = (start, stop)" "ext = (if start < stop then stop - start else 0)"
  obtains (self) "nat d < length es" "ext = es ! nat d" "ext \<noteq> 0 \<Longrightarrow> start = 0" "sts' = sts" "v = s"
  | (empty) "nat d < length es" "ext = 0" "create_store max_dim inline (ReadyShape (es[nat d := ext])) (ls_type s) False sts = Inr (sts', v)"
  | (part) ts a dm where "nat d < length es" "0 < uint ext" "uint start + uint ext \<le> uint (es ! nat d)"
    "ts = (if start = 0 then ls_transform s else Shift (nat d) (- uint start) # ls_transform s)"
    "substorage m inline sts s ts (es[nat d := ext]) = Inr (sts', a)" "mk_view (es[nat d := ext]) a (ls_type s) ts dm = Inr v"
    "view_at sts (ls_storage s) ts (es[nat d := ext])"
proof -
  note s = view_okD [OF assms(2), unfolded assms(3)]
  let ?e = "es ! nat d" and ?es = "es[nat d := ext]"
    and ?ts = "if start = 0 then ls_transform s else Shift (nat d) (- sint start) # ls_transform s"
  have g: "nat d < length es" "\<not> (start < stop \<and> (?e \<le> start \<or> ?e < stop))"
    using assms(1,4) s(1,2) by (auto simp: slice_store_def vec_eq_Inr)
  have run: "(if ext = ?e then Inr (sts, s)
      else if ext = 0 then create_store max_dim inline (ReadyShape ?es) (ls_type s) False sts
      else rbind (substorage m inline sts s ?ts ?es) (\<lambda>(sts, a).
        rbind (domain_restrict (nat d) (\<lambda>lo. (lo + sint start, lo + sint start + sint ext - 1)) (ls_domain s)) (\<lambda>dm.
          rbind (mk_view ?es a (ls_type s) ?ts dm) (\<lambda>v. Inr (sts, v))))) = Inr (sts', v)"
    using assms(1) unfolding slice_store_def s(1) assms(5) rbind_Inr rguard_eq_Inr vec_get_Inr [OF g(1)] assms(4) prod.case Let_def
    by (elim conjE)
  note b = slice_bounds [OF g(2) assms(5)]
  consider "ext = ?e" | "ext \<noteq> ?e" "ext = 0" | "ext \<noteq> ?e" "ext \<noteq> 0" by blast
  then show thesis
  proof cases
    case 1
    have "start = 0" if "ext \<noteq> 0"
    proof -
      have "uint start \<le> 0" using b(3) [OF that] 1 by simp
      then show ?thesis by (metis uint_0_iff uint_ge_0 order_antisym)
    qed
    then show thesis using that(1) g(1) 1 run by simp
  next
    case 2
    then show thesis using that(2) g(1) run by simp
  next
    case 3
    then obtain a dm where sub: "substorage m inline sts s ?ts ?es = Inr (sts', a)"
      and v: "mk_view ?es a (ls_type s) ?ts dm = Inr v" using run by (auto simp: rbind_eq_Inr)
    note b = b [OF 3(2)]
    have small: "uint ext < 2 ^ 63" "uint start < 2 ^ 63" using b(3,4) uint_ge_0 [of start] s(6) [OF g(1)] by linarith+
    have ts: "?ts = (if start = 0 then ls_transform s else Shift (nat d) (- uint start) # ls_transform s)" (is "_ = ?us")
      using sint_eq_uint_u64 [OF small(2)] by simp
    have ext: "uint ext \<le> uint ?e" using b(3) uint_ge_0 [of start] by linarith
    have "view_at sts (ls_storage s) ?us ?es"
      using view_at_shrink [OF s(3) _ u63_update [OF s(4) small(1)]] shrink_box [OF g(1) ext]
        view_at_push [OF s(3) shift_maps [OF g(1) uint_ge_0 b(3)] u63_update [OF s(4) small(1)]] by simp
    then show thesis using that(3) g(1) b(3,4) ts sub v by simp
  qed
qed

lemma slice_yields:
  assumes "slice_store max_dim m inline sts d sl_start sl_stop s = Inr (sts', v)" "storages_ok sts" "view_ok sts s"
  shows "yields sts sts' v"
proof -
  obtain start stop where sl: "sanitize_slice sl_start sl_stop (sint (v_exts s ! nat d)) = (start, stop)" by fastforce
  note s = view_okD [OF assms(3)]
  let ?ext = "if start < stop then stop - start else 0"
  show ?thesis
  proof (rule slice_store_cases [OF assms(1,3) refl sl refl])
    assume "sts' = sts" "v = s"
    then show ?thesis using assms(2,3) by (simp add: yields_def)
  next
    assume empty: "nat d < length (v_exts s)" "?ext = 0"
      "create_store max_dim inline (ReadyShape ((v_exts s)[nat d := ?ext])) (ls_type s) False sts = Inr (sts', v)"
    have "prod_list (map uint ((v_exts s)[nat d := ?ext])) = 0"
      using empty(1,2) by (simp add: map_update prod_list_zero_iff set_update_memI)
    then show ?thesis using create_store_yields [OF empty(3) assms(2)] u63_update [OF s(4), of ?ext] empty(2) by (simp add: fits63_def)
  next
    fix ts a dm
    assume part: "nat d < length (v_exts s)" "0 < uint ?ext" "substorage m inline sts s ts ((v_exts s)[nat d := ?ext]) = Inr (sts', a)"
      "mk_view ((v_exts s)[nat d := ?ext]) a (ls_type s) ts dm = Inr v" "view_at sts (ls_storage s) ts ((v_exts s)[nat d := ?ext])"
    then show ?thesis using substorage_ok [OF assms(2,3) part(3,5) positive_update] mk_view_ok [OF part(4)] by (auto simp: yields_def)
  qed
qed

text \<open>Key partitions are the only part of a storage that changes.\<close>

lemma grows_ok: "grows sts sts' \<Longrightarrow> length sts' = length sts \<Longrightarrow> storages_ok sts \<Longrightarrow> storages_ok sts'"
  using grows_storage_ok by (auto simp: storages_ok_def)

lemma set_key_partition_yields:
  assumes "ls_set_key_partition m policy p sts s = Inr (sts', v)" "storages_ok sts" "view_ok sts s"
  shows "yields sts sts' v"
proof -
  have g: "grows sts sts'" "length sts' = length sts" and v: "ls_shape v = ls_shape s" "ls_storage v = ls_storage s" "ls_transform v = ls_transform s"
    using assms(1) by (auto simp: ls_set_key_partition_def so_set_key_partition_def vec_eq_Inr grows_def nth_list_update)
  then have "view_ok sts v" using assms(3) by (simp add: view_ok_def ls_extents_def ls_dim_def v_exts_def)
  then show ?thesis using g grows_ok [OF g assms(2)] view_ok_grows by (simp add: yields_def)
qed

lemma reset_key_partition_yields:
  assumes "ls_reset_key_partition sts s = Inr (sts', v)" "storages_ok sts" "view_ok sts s"
  shows "yields sts sts' v"
proof -
  have g: "grows sts sts'" "length sts' = length sts" and v: "ls_shape v = ls_shape s" "ls_storage v = ls_storage s" "ls_transform v = ls_transform s"
    using assms(1) by (auto simp: ls_reset_key_partition_def so_reset_key_partition_def vec_eq_Inr grows_def nth_list_update)
  then have "view_ok sts v" using assms(3) by (simp add: view_ok_def ls_extents_def ls_dim_def v_exts_def)
  then show ?thesis using g grows_ok [OF g assms(2)] view_ok_grows by (simp add: yields_def)
qed

lemma all_less_two: "(\<forall>i < Suc (Suc 0). P i) \<longleftrightarrow> P 0 \<and> P (Suc 0)"
  by (auto simp: less_Suc_eq)

section \<open>Reachable views\<close>

text \<open>
  The storages and views that a program makes with the following operations, from the stores it creates: promotion,
  projection, broadcast, slice, transposition, delinearization, reinterpretation and the update of key partitions.
  The premises beyond the success of the operation restrict it: sizes fit in 63 bits, a store without dimensions is
  not transposed, the sizes of a delinearization are not empty and their product fits in 63 bits, and only a view of a
  root storage is reinterpreted. The code accepts what these premises leave out, and then the view may leave its
  storage: \<open>reinterpret_drops_transform\<close> (a slice is reinterpreted) and \<open>delinearizable_wraps\<close> (the product of
  the sizes wraps). The children of a partition (\<open>get_child_store\<close>) are not among the views.
\<close>

inductive reachable :: "nat \<Rightarrow> bool \<Rightarrow> storages \<Rightarrow> logical_store list \<Rightarrow> bool" for max_dim :: nat and inline :: bool where
  init: "reachable max_dim inline [] []"
| create: "reachable max_dim inline sts vs \<Longrightarrow> create_store max_dim inline shape t opt sts = Inr (sts', v) \<Longrightarrow>
    shape_extents shape = Inr es \<Longrightarrow> shape_ndim shape = length es \<Longrightarrow> fits63 es \<Longrightarrow> reachable max_dim inline sts' (vs @ [v])"
| reinterpret: "reachable max_dim inline sts vs \<Longrightarrow> s \<in> set vs \<Longrightarrow> reinterpret_as inline sts t s = Inr v \<Longrightarrow>
    so_parent (sts ! ls_storage s) = None \<Longrightarrow> reachable max_dim inline sts (vs @ [v])"
| promote: "reachable max_dim inline sts vs \<Longrightarrow> s \<in> set vs \<Longrightarrow> promote_store d sz s = Inr v \<Longrightarrow> uint sz < 2 ^ 63 \<Longrightarrow>
    reachable max_dim inline sts (vs @ [v])"
| project: "reachable max_dim inline sts vs \<Longrightarrow> s \<in> set vs \<Longrightarrow> project_store m inline sts d i s = Inr (sts', v) \<Longrightarrow>
    reachable max_dim inline sts' (vs @ [v])"
| broadcast: "reachable max_dim inline sts vs \<Longrightarrow> s \<in> set vs \<Longrightarrow> broadcast_store d sz s = Inr v \<Longrightarrow> uint sz < 2 ^ 63 \<Longrightarrow>
    reachable max_dim inline sts (vs @ [v])"
| slice: "reachable max_dim inline sts vs \<Longrightarrow> s \<in> set vs \<Longrightarrow>
    slice_store max_dim m inline sts d sl_start sl_stop s = Inr (sts', v) \<Longrightarrow> reachable max_dim inline sts' (vs @ [v])"
| transpose: "reachable max_dim inline sts vs \<Longrightarrow> s \<in> set vs \<Longrightarrow> transpose_store axes s = Inr v \<Longrightarrow> 0 < ls_dim s \<Longrightarrow>
    reachable max_dim inline sts (vs @ [v])"
| delinearize: "reachable max_dim inline sts vs \<Longrightarrow> s \<in> set vs \<Longrightarrow> delinearize_store d sizes s = Inr v \<Longrightarrow> sizes \<noteq> [] \<Longrightarrow>
    prod_list (map uint sizes) < 2 ^ 63 \<Longrightarrow> reachable max_dim inline sts (vs @ [v])"
| set_key: "reachable max_dim inline sts vs \<Longrightarrow> s \<in> set vs \<Longrightarrow> ls_set_key_partition m policy p sts s = Inr (sts', v) \<Longrightarrow>
    reachable max_dim inline sts' (vs @ [v])"
| reset_key: "reachable max_dim inline sts vs \<Longrightarrow> s \<in> set vs \<Longrightarrow> ls_reset_key_partition sts s = Inr (sts', v) \<Longrightarrow>
    reachable max_dim inline sts' (vs @ [v])"

definition views_ok :: "storages \<Rightarrow> logical_store list \<Rightarrow> bool" where
  "views_ok sts vs \<longleftrightarrow> storages_ok sts \<and> (\<forall>v \<in> set vs. view_ok sts v)"

lemma views_ok_yields: "views_ok sts vs \<Longrightarrow> yields sts sts' v \<Longrightarrow> views_ok sts' (vs @ [v])"
  using view_ok_grows by (auto simp: views_ok_def yields_def)

lemma views_okD: "views_ok sts vs \<Longrightarrow> storages_ok sts" "views_ok sts vs \<Longrightarrow> v \<in> set vs \<Longrightarrow> view_ok sts v"
  by (simp_all add: views_ok_def)

lemma reachable_views_ok: "reachable max_dim inline sts vs \<Longrightarrow> views_ok sts vs"
proof (induction rule: reachable.induct)
  case init
  show ?case by (simp add: views_ok_def storages_ok_def)
next
  case (create sts vs shape t opt sts' v es)
  show ?case by (rule views_ok_yields [OF create.IH create_store_yields]) (use create views_okD in blast)+
next
  case (reinterpret sts vs s t v)
  show ?case by (rule views_ok_yields [OF reinterpret.IH reinterpret_yields]) (use reinterpret views_okD in blast)+
next
  case (promote sts vs s d sz v)
  show ?case by (rule views_ok_yields [OF promote.IH promote_yields]) (use promote views_okD in blast)+
next
  case (project sts vs s m d i sts' v)
  show ?case by (rule views_ok_yields [OF project.IH project_yields]) (use project views_okD in blast)+
next
  case (broadcast sts vs s d sz v)
  show ?case by (rule views_ok_yields [OF broadcast.IH broadcast_yields]) (use broadcast views_okD in blast)+
next
  case (slice sts vs s m d sl_start sl_stop sts' v)
  show ?case by (rule views_ok_yields [OF slice.IH slice_yields]) (use slice views_okD in blast)+
next
  case (transpose sts vs s axes v)
  show ?case by (rule views_ok_yields [OF transpose.IH transpose_yields]) (use transpose views_okD in blast)+
next
  case (delinearize sts vs s d sizes v)
  show ?case by (rule views_ok_yields [OF delinearize.IH delinearize_yields]) (use delinearize views_okD in blast)+
next
  case (set_key sts vs s m policy p sts' v)
  show ?case by (rule views_ok_yields [OF set_key.IH set_key_partition_yields]) (use set_key views_okD in blast)+
next
  case (reset_key sts vs s sts' v)
  show ?case by (rule views_ok_yields [OF reset_key.IH reset_key_partition_yields]) (use reset_key views_okD in blast)+
qed

lemma reachable_view:
  assumes "reachable max_dim inline sts vs" "v \<in> set vs" "ls_extents v = Inr es" "in_extents es q"
  shows "storages_ok sts" "ls_storage v < length sts" "stack_ok (ls_transform v) (length (so_offs sts (ls_storage v)))"
    "length q = stack_ndim (ls_transform v) (length (so_offs sts (ls_storage v)))"
    "in_rect (so_offs sts (ls_storage v)) (so_exts sts (ls_storage v)) (source (ls_transform v) q)"
proof -
  note ok = views_okD(2) [OF reachable_views_ok [OF assms(1)] assms(2)]
  show "storages_ok sts" by (rule views_okD(1) [OF reachable_views_ok [OF assms(1)]])
  have "v_exts v = es" using view_okD(1) [OF ok] assms(3) by simp
  then have at: "view_at sts (ls_storage v) (ls_transform v) es" using view_okD(3) [OF ok] by simp
  then show "ls_storage v < length sts" "stack_ok (ls_transform v) (length (so_offs sts (ls_storage v)))"
    "length q = stack_ndim (ls_transform v) (length (so_offs sts (ls_storage v)))"
    "in_rect (so_offs sts (ls_storage v)) (so_exts sts (ls_storage v)) (source (ls_transform v) q)"
    using assms(4) in_extentsD(1) by (auto simp: view_at_def)
qed

section \<open>An example\<close>

text \<open>A store of 4 by 6 elements, its last two rows, and its column 3.\<close>

lemma example_views:
  "\<exists>sts0 sts1 sts u v w. reachable 4 False sts0 [u] \<and> ls_extents u = Inr [4, 6] \<and>
     slice_store 4 \<lparr>m_preferred = CPU, m_ranges = (\<lambda>_. None)\<rparr> False sts0 0 (Some 2) None u = Inr (sts1, v) \<and>
     reachable 4 False sts [u, v, w] \<and> ls_extents v = Inr [2, 6] \<and> ls_extents w = Inr [4] \<and>
     ls_transform v = [Shift 0 (- 2)] \<and> ls_transform w = [Project 1 3] \<and>
     get_root sts (ls_storage v) = Inr 0 \<and> get_root sts (ls_storage w) = Inr 0"
proof -
  let ?m = "\<lparr>m_preferred = CPU, m_ranges = (\<lambda>_. None)\<rparr>"
  let ?store = "\<lambda>es a ts. \<lparr>ls_type = PrimitiveType INT64, ls_shape = ReadyShape es, ls_storage = a, ls_transform = ts,
      ls_non_transformable = False, ls_domain = None, ls_num_pieces = 0, ls_key_partition = None\<rparr>"
  let ?storage = "\<lambda>es level parent color offs. \<lparr>so_kind = REGION_FIELD, so_unbound = False, so_shape = ReadyShape es,
      so_level = level, so_parent = parent, so_color = color, so_offsets = offs, so_num_pieces = 0, so_key_partition = None\<rparr>"
  let ?tiles = "\<lambda>tile colors. Some \<lparr>sp_complete = True, sp_level = 1, sp_parent = 0, sp_partition = PTiling
      \<lparr>tl_overlapped = False, tl_tile_shape = tile, tl_color_shape = colors, tl_offsets = [0, 0], tl_strides = tile\<rparr>\<rparr>"
  let ?u = "?store [4, 6] 0 []" and ?v = "?store [2, 6] 1 [Shift 0 (- 2)]" and ?w = "?store [4] 2 [Project 1 3]"
  let ?s0 = "?storage [4, 6] 0 None [] [0, 0]" and ?s1 = "?storage [2, 6] 2 (?tiles [2, 6] [2, 1]) [1, 0] [2, 0]"
    and ?s2 = "?storage [4, 1] 2 (?tiles [4, 1] [1, 6]) [0, 3] [0, 3]"
  have c: "create_store 4 False (ReadyShape [4, 6]) (PrimitiveType INT64) False [] = Inr ([?s0], ?u)" by code_simp
  have r0: "reachable 4 False [?s0] ([] @ [?u])"
    by (rule reachable.create [OF reachable.init c, where es = "[4, 6]"]) (simp_all add: fits63_def u63_def all_less_two)
  have u: "?u \<in> set ([] @ [?u])" by simp
  have sl: "slice_store 4 ?m False [?s0] 0 (Some 2) None ?u = Inr ([?s0, ?s1], ?v)" by code_simp
  note r1 = reachable.slice [OF r0 u sl]
  have u': "?u \<in> set (([] @ [?u]) @ [?v])" by simp
  have pr: "project_store ?m False [?s0, ?s1] 1 3 ?u = Inr ([?s0, ?s1, ?s2], ?w)" by code_simp
  note r2 = reachable.project [OF r1 u' pr]
  then have "reachable 4 False [?s0, ?s1, ?s2] [?u, ?v, ?w]" by (simp only: append.simps)
  moreover have "reachable 4 False [?s0] [?u]" using r0 by (simp only: append.simps)
  moreover have "get_root [?s0, ?s1, ?s2] 1 = Inr 0" "get_root [?s0, ?s1, ?s2] 2 = Inr 0" by code_simp+
  ultimately show ?thesis
    by (intro exI [of _ "[?s0]"] exI [of _ "[?s0, ?s1]"] exI [of _ "[?s0, ?s1, ?s2]"] exI [of _ ?u] exI [of _ ?v] exI [of _ ?w])
       (simp add: ls_extents_def sl del: One_nat_def)
qed

section \<open>Views are safe\<close>

text \<open>C5: However a program combines creation, promotion, projection, broadcast, slicing, transposition and delinearization
  of stores with the reinterpretation of views of whole storages, the accessors of a view stay within its storage: for
  every point of the view, the affine map that \<open>inverse_transform\<close> gives to the accessor (the point itself when the
  store has no transform) leads to a point of the rectangle of the storage of the view, and of the root storage. The
  views are those of \<open>reachable\<close>; reinterpretations of slices, delinearizations whose sizes are empty or overflow, and
  \<open>get_child_store\<close> are not among them.\<close>

theorem view_accesses_safe:
  assumes "legion_matrix L" "reachable max_dim inline sts vs" "v \<in> set vs" "ls_extents v = Inr es" "in_extents es q"
  shows "\<exists>root p. get_root sts (ls_storage v) = Inr root \<and>
    (if ls_transform v = [] then p = q
     else \<exists>A. stack_inverse_transform L (ls_transform v) (length q) = Inr A \<and> da_eval A (pad_point q) = pad_point p) \<and>
    in_rect (so_offs sts (ls_storage v)) (so_exts sts (ls_storage v)) p \<and> in_extents (so_exts sts root) p"
proof -
  note v = reachable_view [OF assms(2-5)]
  note root = get_root_eq [OF v(1,2)] and rect = within_rect [OF within_root [OF v(1,2)] v(5)]
  show ?thesis
  proof (cases "ls_transform v = []")
    case True
    then show ?thesis using root(1) v(5) rect by auto
  next
    case False
    obtain A where "stack_inverse_transform L (ls_transform v) (length q) = Inr A" "da_eval A (pad_point q) = pad_point (source (ls_transform v) q)"
      using legion_matrix.source_affine [OF assms(1) v(3) False v(4)] by blast
    then show ?thesis using root(1) v(5) rect False by auto
  qed
qed

lemma view_accesses_safe_witness:
  "\<exists>sts v root p A. ls_extents v = Inr [2, 6] \<and> get_root sts (ls_storage v) = Inr root \<and>
     stack_inverse_transform std_legion (ls_transform v) 2 = Inr A \<and> da_eval A (pad_point [1, 5]) = pad_point p \<and>
     in_extents (so_exts sts root) p"
proof -
  obtain sts0 sts1 sts u v w where ex: "reachable 4 False sts [u, v, w]" "ls_extents v = Inr [2, 6]" "ls_transform v = [Shift 0 (- 2)]"
    using example_views by (elim exE conjE)
  have "v \<in> set [u, v, w]" "in_extents [2, 6] [1, 5]" by (simp_all add: in_extents_def all_less_two)
  then obtain root p A where "get_root sts (ls_storage v) = Inr root" "in_extents (so_exts sts root) p"
    "stack_inverse_transform std_legion (ls_transform v) (length [1 :: int, 5]) = Inr A" "da_eval A (pad_point [1, 5]) = pad_point p"
    using view_accesses_safe [OF std.legion_matrix_axioms ex(1) _ ex(2)] ex(3) by (metis list.distinct(1))
  then show ?thesis using ex(2) unfolding list.size(3,4) add_0 One_nat_def [symmetric] one_add_one by blast
qed

lemma overlap_loop_eq:
  "overlap_loop xs \<longleftrightarrow> list_all (\<lambda>(lext, loff, rext, roff).
     if loff \<le> roff then roff < add_i64 loff (sint lext) else loff < add_i64 roff (sint rext)) xs"
  by (induction xs rule: overlap_loop.induct) auto

lemma storage_end_fits:
  assumes "storages_ok sts" "a < length sts" "i < length (so_offs sts a)"
  shows "add_i64 (so_offs sts a ! i) (uint (so_exts sts a ! i)) = so_offs sts a ! i + uint (so_exts sts a ! i)"
proof -
  have ok: "storage_ok sts a" using assms(1,2) by (simp add: storages_ok_def)
  have "0 \<le> so_offs sts a ! i \<and> so_offs sts a ! i + uint (so_exts sts a ! i) < 2 ^ 63"
  proof (cases "so_parent (sts ! a)")
    case None
    then show ?thesis using ok assms(3) by (simp add: storage_ok_def fits63_def u63_def)
  next
    case (Some p)
    then have w: "within (so_offs sts a) (so_exts sts a) (so_exts sts (sp_parent p))" "sp_parent p < a"
      using ok by (simp_all add: storage_ok_def)
    then have "storage_ok sts (sp_parent p)" using assms(1,2) by (simp add: storages_ok_def)
    then have f: "u63 (so_exts sts (sp_parent p))" by (simp add: storage_ok_def fits63_def)
    show ?thesis using w(1) f assms(3) unfolding within_def u63_def by fastforce
  qed
  then show ?thesis unfolding add_i64_def using uint_ge_0 [of "so_exts sts a ! i"] by (intro sint_word_of_int_u64) linarith+
qed

lemma so_overlaps_point:
  assumes "storages_ok sts" "a < length sts" "b < length sts" "root_of sts a = root_of sts b"
    "in_rect (so_offs sts a) (so_exts sts a) p" "in_rect (so_offs sts b) (so_exts sts b) p"
  shows "so_overlaps sts a b = Inr True"
proof -
  have ok: "storage_ok sts a" "storage_ok sts b" using assms(1-3) by (simp_all add: storages_ok_def)
  then have ex: "shape_extents (so_shape (sts ! a)) = Inr (so_exts sts a)" "shape_extents (so_shape (sts ! b)) = Inr (so_exts sts b)"
    and n: "shape_ndim (so_shape (sts ! a)) = length (so_offs sts a)" "length (so_exts sts a) = length (so_offs sts a)"
      "length (so_exts sts b) = length (so_offs sts b)"
    and fits: "fits63 (so_exts sts a)" "fits63 (so_exts sts b)" by (simp_all add: storage_ok_def)
  have l: "length (so_offs sts b) = length (so_offs sts a)" using assms(5,6) by (simp add: in_rect_def)
  have vol: "array_volume (so_exts sts a) \<noteq> 0" "array_volume (so_exts sts b) \<noteq> 0"
    using array_volume_nonzero fits assms(5,6) by blast+
  have sint: "sint (so_exts sts a ! i) = uint (so_exts sts a ! i)" "sint (so_exts sts b ! i) = uint (so_exts sts b ! i)"
    if "i < length (so_offs sts a)" for i
    using fits that n l by (simp_all add: fits63_def u63_def sint_eq_uint_u64)
  have "overlap_loop (map (\<lambda>i. (so_exts sts a ! i, so_offs sts a ! i, so_exts sts b ! i, so_offs sts b ! i)) [0..<length (so_offs sts a)])"
    unfolding overlap_loop_eq list_all_iff
  proof
    fix x assume "x \<in> set (map (\<lambda>i. (so_exts sts a ! i, so_offs sts a ! i, so_exts sts b ! i, so_offs sts b ! i)) [0..<length (so_offs sts a)])"
    then obtain i where x: "x = (so_exts sts a ! i, so_offs sts a ! i, so_exts sts b ! i, so_offs sts b ! i)"
      and i: "i < length (so_offs sts a)" by auto
    then have "so_offs sts a ! i \<le> p ! i" "p ! i < so_offs sts a ! i + uint (so_exts sts a ! i)"
      "so_offs sts b ! i \<le> p ! i" "p ! i < so_offs sts b ! i + uint (so_exts sts b ! i)"
      using assms(5,6) l by (simp_all add: in_rect_def)
    then show "case x of (lext, loff, rext, roff) \<Rightarrow> if loff \<le> roff then roff < add_i64 loff (sint lext) else loff < add_i64 roff (sint rext)"
      unfolding x using sint [OF i] storage_end_fits [OF assms(1,2) i] storage_end_fits [OF assms(1,3), of i] i l by auto
  qed
  then show ?thesis using assms(2,3) get_root_eq(1) [OF assms(1,2)] get_root_eq(1) [OF assms(1,3)] assms(4) ex n l vol
    by (simp add: so_overlaps_def)
qed

text \<open>C6: Two views that share an element are reported as overlapping: if a point of one view and a point of
  the other come from the same point of the same root storage, \<open>LogicalStore::overlaps\<close> returns true. (A
  library asks it before it updates one store from another in place.)\<close>

theorem views_overlap_sound:
  assumes "reachable max_dim inline sts vs" "v \<in> set vs" "w \<in> set vs" "ls_extents v = Inr es" "ls_extents w = Inr fs"
    "in_extents es p" "in_extents fs q" "get_root sts (ls_storage v) = get_root sts (ls_storage w)"
    "source (ls_transform v) p = source (ls_transform w) q"
  shows "ls_overlaps sts v w = Inr True"
proof -
  note v = reachable_view [OF assms(1,2,4,6)] and w = reachable_view [OF assms(1,3,5,7)]
  have "root_of sts (ls_storage v) = root_of sts (ls_storage w)"
    using assms(8) get_root_eq(1) [OF v(1,2)] get_root_eq(1) [OF w(1,2)] by simp
  then show ?thesis
    unfolding ls_overlaps_def using so_overlaps_point [OF v(1,2) w(2) _ v(5) w(5) [folded assms(9)]] by simp
qed

lemma views_overlap_sound_witness:
  "\<exists>sts v w. ls_extents v = Inr [2, 6] \<and> ls_extents w = Inr [4] \<and> ls_overlaps sts v w = Inr True"
proof -
  obtain sts0 sts1 sts u v w where ex: "reachable 4 False sts [u, v, w]" "ls_extents v = Inr [2, 6]" "ls_extents w = Inr [4]"
    "ls_transform v = [Shift 0 (- 2)]" "ls_transform w = [Project 1 3]"
    "get_root sts (ls_storage v) = Inr 0" "get_root sts (ls_storage w) = Inr 0"
    using example_views by (elim exE conjE)
  have "ls_overlaps sts v w = Inr True"
  proof (rule views_overlap_sound [OF ex(1) _ _ ex(2,3)])
    show "in_extents [2, 6] [0, 3]" "in_extents [4] [2]" by (simp_all add: in_extents_def all_less_two)
    show "source (ls_transform v) [0, 3] = source (ls_transform w) [2]" by (simp add: ex)
  qed (simp_all add: ex)
  then show ?thesis using ex(2,3) by blast
qed

lemma root_eq:
  assumes "storages_ok sts" "storages_ok sts'" "a < length sts" "b < length sts'" "root_of sts' b = root_of sts a"
  shows "get_root sts' b = get_root sts a"
  using get_root_eq(1) [OF assms(1,3)] get_root_eq(1) [OF assms(2,4)] assms(5) by simp

text \<open>C7: \<open>LogicalStore::slice_\<close> selects the sub-array that its bounds name: the new view has the extent of the slice in
  the sliced dimension, and its point \<open>q\<close> is the point of the old view that is moved by the start of the slice, in the
  same root storage; the moved point is within the old view.\<close>

theorem slice_store_selects:
  assumes "reachable max_dim inline sts vs" "s \<in> set vs" "ls_extents s = Inr es"
    "slice_store max_dim m inline sts d sl_start sl_stop s = Inr (sts', v)"
    "sanitize_slice sl_start sl_stop (sint (es ! nat d)) = (start, stop)" "ext = (if start < stop then stop - start else 0)"
  shows "ls_extents v = Inr (es[nat d := ext]) \<and>
    (\<forall>q. in_extents (es[nat d := ext]) q \<longrightarrow>
      in_extents es (q[nat d := q ! nat d + uint start]) \<and>
      source (ls_transform v) q = source (ls_transform s) (q[nat d := q ! nat d + uint start]) \<and>
      get_root sts' (ls_storage v) = get_root sts (ls_storage s))"
proof -
  have sok: "storages_ok sts" and vok: "view_ok sts s"
    using views_okD [OF reachable_views_ok [OF assms(1)]] assms(2) by blast+
  have es: "v_exts s = es" using view_okD(1) [OF vok] assms(3) by simp
  have none: "\<not> in_extents (es[nat d := ext]) q" if "ext = 0" "nat d < length es" for q
    using that in_extentsD(2,3) [of "es[nat d := ext]" q "nat d"] by force
  show ?thesis
  proof (rule slice_store_cases [OF assms(4) vok es assms(5,6)])
    assume self: "nat d < length es" "ext = es ! nat d" "ext \<noteq> 0 \<Longrightarrow> start = 0" "sts' = sts" "v = s"
    then show ?thesis using none assms(3) by (cases "ext = 0") (simp_all, metis list_update_id)
  next
    assume empty: "nat d < length es" "ext = 0" "create_store max_dim inline (ReadyShape (es[nat d := ext])) (ls_type s) False sts = Inr (sts', v)"
    then have "ls_extents v = Inr (es[nat d := ext])"
      by (auto simp: create_store_def mk_storage_def mk_logical_store_def rbind_eq_Inr rguard_eq_Inr ls_extents_def)
    then show ?thesis using none [OF empty(2,1)] by blast
  next
    fix ts a dm
    assume part: "nat d < length es" "0 < uint ext" "uint start + uint ext \<le> uint (es ! nat d)"
      "ts = (if start = 0 then ls_transform s else Shift (nat d) (- uint start) # ls_transform s)"
      "substorage m inline sts s ts (es[nat d := ext]) = Inr (sts', a)" "mk_view (es[nat d := ext]) a (ls_type s) ts dm = Inr v"
      "view_at sts (ls_storage s) ts (es[nat d := ext])"
    have v: "ls_extents v = Inr (es[nat d := ext])" "ls_storage v = a" "ls_transform v = ts"
      using part(6) by (auto simp: mk_view_def rguard_eq_Inr ls_extents_def)
    have "positive (v_exts s) \<Longrightarrow> positive (es[nat d := ext])" using positive_update [OF _ part(2)] es by simp
    note sub = substorage_ok [OF sok vok part(5,7) this]
    have "get_root sts' (ls_storage v) = get_root sts (ls_storage s)"
      unfolding v(2) using sub view_okD(5) [OF vok] by (intro root_eq [OF sok]) (auto simp: view_at_def)
    then show ?thesis using v(1,3) part(4) shift_maps [OF part(1) uint_ge_0 part(3)] by (simp add: t_maps_def)
  qed
qed

lemma slice_store_selects_witness:
  "\<exists>sts u sts' v. slice_store 4 \<lparr>m_preferred = CPU, m_ranges = (\<lambda>_. None)\<rparr> False sts 0 (Some 2) None u = Inr (sts', v) \<and>
     ls_extents u = Inr [4, 6] \<and> ls_extents v = Inr [2, 6] \<and>
     source (ls_transform v) [1, 5] = source (ls_transform u) [3, 5] \<and>
     get_root sts' (ls_storage v) = get_root sts (ls_storage u)"
proof -
  obtain sts sts' us u v w where ex: "reachable 4 False sts [u]" "ls_extents u = Inr [4, 6]"
    "slice_store 4 \<lparr>m_preferred = CPU, m_ranges = (\<lambda>_. None)\<rparr> False sts 0 (Some 2) None u = Inr (sts', v)"
    "ls_extents v = Inr [2, 6]"
    using example_views by (elim exE conjE)
  have "u \<in> set [u]" "sanitize_slice (Some 2) None (sint ([4, 6 :: u64] ! nat 0)) = (2, 4)" "2 = (if (2 :: u64) < 4 then 4 - 2 else (0 :: u64))"
    by (simp_all add: sanitize_slice_def)
  note sel = slice_store_selects [OF ex(1) this(1) ex(2,3) this(2,3)]
  moreover have "in_extents [2, 6] [1, 5]" by (simp add: in_extents_def all_less_two)
  ultimately have "source (ls_transform v) [1, 5] = source (ls_transform u) [3, 5]" "get_root sts' (ls_storage v) = get_root sts (ls_storage u)"
    by auto
  then show ?thesis using ex(2-4) by blast
qed

section \<open>Where the code falls short\<close>

text \<open>The product of the sizes of a delinearization is taken modulo \<open>2 ^ 64\<close>: a dimension can be delinearized into
  sizes whose product is larger.\<close>

lemma delinearizable_wraps: "delinearizable (2 ^ 33 + 1) [2 ^ 32 + 1, 2 ^ 32 + 1]"
  by code_simp

text \<open>A dimension of extent 1 can be delinearized into no dimension at all; \<open>invert_point\<close> then reads the first
  stride, which does not exist.\<close>

lemma delinearize_into_nothing:
  "rbind (create_store 4 False (ReadyShape [1]) (PrimitiveType INT64) False []) (\<lambda>(sts, s).
     rbind (delinearize_store 0 [] s) (\<lambda>v. Inr (ls_extents v, stack_invert_point (ls_transform v) [])))
   = Inr (Inr [], Inl OutOfBounds)"
  by code_simp

text \<open>\<open>reinterpret_as\<close> makes a store of the storage: the transforms of a view are lost, and a slice that starts at 1
  becomes a store whose points start at 0, outside of its storage.\<close>

lemma reinterpret_drops_transform:
  "rbind (create_store 4 False (ReadyShape [4]) (PrimitiveType INT64) False []) (\<lambda>(sts, s).
     rbind (slice_store 4 \<lparr>m_preferred = CPU, m_ranges = (\<lambda>_. None)\<rparr> False sts 0 (Some 1) (Some 3) s) (\<lambda>(sts, v).
       rbind (reinterpret_as False sts (PrimitiveType UINT64) v) (\<lambda>w.
         Inr (so_offsets (sts ! ls_storage w), ls_transform v, ls_transform w))))
   = Inr ([1], [Shift 0 (- 1)], [])"
  by code_simp

text \<open>The domain of a view names points of the storage, but \<open>project\<close> and \<open>slice_\<close> restrict it at the dimension of the
  view: row 2 of a transposed 2 by 3 store is column 2 of the storage, not row 2.\<close>

lemma project_restricts_view_dimension:
  "rbind (create_store 4 True (ReadyShape [2, 3]) (PrimitiveType INT64) False []) (\<lambda>(sts, s).
     rbind (transpose_store [1, 0] s) (\<lambda>t.
       rbind (project_store \<lparr>m_preferred = CPU, m_ranges = (\<lambda>_. None)\<rparr> True sts 0 2 t) (\<lambda>(sts, v).
         Inr (so_shape (sts ! ls_storage v), ls_domain v))))
   = Inr (ReadyShape [2, 3], Some \<lparr>dom_lo = [2, 0], dom_hi = [2, 2]\<rparr>)"
  by code_simp

text \<open>\<open>get_child_store\<close> looks up the tile of the view with the color that is inverted for the storage: a color that a
  partition of a transposed store has is refused.\<close>

lemma get_child_store_refuses_color:
  "rbind (create_store 4 False (ReadyShape [2, 3]) (PrimitiveType INT64) False []) (\<lambda>(sts, s).
     rbind (transpose_store [1, 0] s) (\<lambda>t.
       rbind (partition_by_tiling sts [1, 2] None t) (\<lambda>p.
         case lp_partition p of PTiling tiling \<Rightarrow> Inr (has_color tiling [2, 0], get_child_store False sts p [2, 0]))))
   = Inr (True, Inl InvalidArgument)"
  by code_simp

end
