(* ===== verification/Partitioner.thy ===== *)
theory Partitioner
  imports Solver StoreProjection Stores "HOL-Library.Product_Lexorder"
begin

text \<open>
  The partitioner: \<open>LaunchDomainResolver\<close> (partitioning/detail/launch_domain_resolver), \<open>Strategy\<close>
  (partitioning/detail/strategy), the dependent constraints (\<open>resolve\<close> of partitioning/detail/constraint.cc and
  \<open>solve_dependent_constraints\<close> of constraint_solver.cc) and \<open>Partitioner::partition_stores\<close>
  (partitioning/detail/partitioner.cc).

  \<^item> An operation finds the store of a variable by its address in the list of logical stores; stores are
    mutated, and two variables may share one. What the solver reads of a store is \<open>solver_view\<close>.
  \<^item> Legion's order on domains (\<open>std::min\<close> of two domains) is the parameter \<open>lt\<close>. Field spaces and index spaces
    of Legion are numbers, handed out in order. \<open>walk\<close> is the order in which the solver walks its classes.
  \<^item> The domain \<open>None\<close> is the invalid domain: a sequential launch.
\<close>

section \<open>The launch domain resolver\<close>

record launch_resolver =
  lr_must_be_sequential :: bool
  lr_must_be_1d :: bool
  lr_unbound_dim :: "nat option"
  lr_launch_domain :: "domain option"
  lr_launch_volume :: "u64 option"

definition empty_resolver :: launch_resolver where
  "empty_resolver = \<lparr>lr_must_be_sequential = False, lr_must_be_1d = False, lr_unbound_dim = None,
     lr_launch_domain = None, lr_launch_volume = None\<rparr>"

definition set_min_optional :: "('a \<Rightarrow> 'a \<Rightarrow> bool) \<Rightarrow> 'a \<Rightarrow> bool \<Rightarrow> 'a option \<Rightarrow> bool \<times> 'a option" where
  "set_min_optional lt value on_change opt =
     (case opt of
        None \<Rightarrow> (on_change, Some value)
      | Some old \<Rightarrow> (on_change \<or> old \<noteq> value, Some (if lt old value then old else value)))"

definition record_launch_domain :: "(domain \<Rightarrow> domain \<Rightarrow> bool) \<Rightarrow> domain \<Rightarrow> launch_resolver \<Rightarrow> launch_resolver" where
  "record_launch_domain lt launch_domain r =
     (case set_min_optional lt launch_domain (lr_must_be_1d r) (lr_launch_domain r) of (must_be_1d, dm) \<Rightarrow>
        (case set_min_optional (<) (domain_volume launch_domain) (lr_must_be_sequential r) (lr_launch_volume r) of
           (must_be_sequential, volume) \<Rightarrow>
             r\<lparr>lr_must_be_1d := must_be_1d, lr_launch_domain := dm, lr_must_be_sequential := must_be_sequential,
               lr_launch_volume := volume\<rparr>))"

definition set_must_be_sequential :: "bool \<Rightarrow> launch_resolver \<Rightarrow> launch_resolver" where
  "set_must_be_sequential b r = r\<lparr>lr_must_be_sequential := b\<rparr>"

definition record_unbound_store :: "nat \<Rightarrow> launch_resolver \<Rightarrow> launch_resolver" where
  "record_unbound_store unbound_dim r =
     (case lr_unbound_dim r of
        Some d \<Rightarrow> if d \<noteq> unbound_dim then set_must_be_sequential True r else r\<lparr>lr_unbound_dim := Some unbound_dim\<rparr>
      | None \<Rightarrow> r\<lparr>lr_unbound_dim := Some unbound_dim\<rparr>)"

definition resolve_launch_domain :: "launch_resolver \<Rightarrow> domain option result" where
  "resolve_launch_domain r =
     (case lr_launch_domain r of
        None \<Rightarrow> Inr None
      | Some launch_domain \<Rightarrow>
          if lr_must_be_sequential r then Inr None
          else if lr_must_be_1d r
          then (if 1 < (case lr_unbound_dim r of None \<Rightarrow> 0 | Some d \<Rightarrow> d) then Inr None
                else case lr_launch_volume r of
                  None \<Rightarrow> Inl CheckFailed
                | Some v \<Rightarrow> rguard (1 \<le> v) CheckFailed (Inr (Some \<lparr>dom_lo = [0], dom_hi = [sint (v - 1)]\<rparr>)))
          else (case lr_unbound_dim r of
                  None \<Rightarrow> Inr (Some launch_domain)
                | Some d \<Rightarrow> if get_dim launch_domain \<noteq> d then Inr None else Inr (Some launch_domain)))"

section \<open>Strategies\<close>

record strategy =
  sg_launch_domain :: "domain option"
  sg_assignments :: "variable \<Rightarrow> partition option"
  sg_fields :: "variable \<Rightarrow> (nat \<times> nat) option"
  sg_color_spaces :: "variable \<Rightarrow> nat option"
  sg_projections :: "variable \<Rightarrow> u32 option"
  sg_key_partition :: "variable option"

definition empty_strategy :: strategy where
  "empty_strategy = \<lparr>sg_launch_domain = None, sg_assignments = Map.empty, sg_fields = Map.empty,
     sg_color_spaces = Map.empty, sg_projections = Map.empty, sg_key_partition = None\<rparr>"

definition sg_parallel :: "strategy \<Rightarrow> bool" where
  "sg_parallel s \<longleftrightarrow> sg_launch_domain s \<noteq> None"

definition set_launch_domain :: "domain option \<Rightarrow> strategy \<Rightarrow> strategy" where
  "set_launch_domain d s = s\<lparr>sg_launch_domain := d\<rparr>"

definition has_assignment :: "strategy \<Rightarrow> variable \<Rightarrow> bool" where
  "has_assignment s v \<longleftrightarrow> sg_assignments s v \<noteq> None"

definition insert_partition :: "variable \<Rightarrow> partition \<Rightarrow> strategy \<Rightarrow> strategy result" where
  "insert_partition v p s =
     rguard (\<not> has_assignment s v) CheckFailed (Inr (s\<lparr>sg_assignments := (sg_assignments s)(v \<mapsto> p)\<rparr>))"

definition insert_field :: "variable \<Rightarrow> nat \<Rightarrow> nat \<Rightarrow> strategy \<Rightarrow> strategy result" where
  "insert_field v field_space field_id s =
     rguard (sg_fields s v = None) CheckFailed (Inr (s\<lparr>sg_fields := (sg_fields s)(v \<mapsto> (field_space, field_id))\<rparr>))"

definition insert_color_space :: "variable \<Rightarrow> nat \<Rightarrow> strategy \<Rightarrow> strategy result" where
  "insert_color_space v color_space s =
     rguard (sg_color_spaces s v = None) CheckFailed (Inr (s\<lparr>sg_color_spaces := (sg_color_spaces s)(v \<mapsto> color_space)\<rparr>))"

definition strategy_at :: "strategy \<Rightarrow> variable \<Rightarrow> partition result" where
  "strategy_at s v = (case sg_assignments s v of None \<Rightarrow> Inl CheckFailed | Some p \<Rightarrow> Inr p)"

definition find_field_for_unbound_store :: "strategy \<Rightarrow> variable \<Rightarrow> (nat \<times> nat) result" where
  "find_field_for_unbound_store s v = (case sg_fields s v of None \<Rightarrow> Inl CheckFailed | Some f \<Rightarrow> Inr f)"

definition record_key_partition :: "variable \<Rightarrow> strategy \<Rightarrow> strategy" where
  "record_key_partition v s = (if sg_key_partition s = None then s\<lparr>sg_key_partition := Some v\<rparr> else s)"

definition insert_store_projection :: "variable \<Rightarrow> u32 \<Rightarrow> strategy \<Rightarrow> strategy" where
  "insert_store_projection v projection_id s = s\<lparr>sg_projections := map_insert v projection_id (sg_projections s)\<rparr>"

definition find_store_projection :: "strategy \<Rightarrow> variable \<Rightarrow> u32" where
  "find_store_projection s v = (case sg_projections s v of None \<Rightarrow> 0 | Some p \<Rightarrow> p)"

definition find_key_store_projection :: "strategy \<Rightarrow> u32" where
  "find_key_store_projection s = (case sg_key_partition s of None \<Rightarrow> 0 | Some v \<Rightarrow> find_store_projection s v)"

text \<open>\<open>0\<close> is \<open>IndexSpace::NO_SPACE\<close>.\<close>

definition find_color_space_for_unbound_store :: "strategy \<Rightarrow> variable \<Rightarrow> nat" where
  "find_color_space_for_unbound_store s v = (case sg_color_spaces s v of None \<Rightarrow> 0 | Some c \<Rightarrow> c)"

section \<open>Dependent constraints\<close>

definition image_resolve :: "(variable \<Rightarrow> nat) \<Rightarrow> strategy \<Rightarrow> variable \<Rightarrow> image_hint \<Rightarrow> partition result" where
  "image_resolve op_store s func hint =
     rbind (strategy_at s func) (\<lambda>src_part.
       Inr (if p_has_launch_domain src_part then PImage (op_store func) src_part hint else NoPartition))"

definition scale_resolve :: "strategy \<Rightarrow> u64 list \<Rightarrow> variable \<Rightarrow> partition result" where
  "scale_resolve s factors smaller = rbind (strategy_at s smaller) (\<lambda>p. p_scale p factors)"

definition bloat_resolve :: "strategy \<Rightarrow> variable \<Rightarrow> u64 list \<Rightarrow> u64 list \<Rightarrow> partition result" where
  "bloat_resolve s source los his = rbind (strategy_at s source) (\<lambda>p. p_bloat p los his)"

fun solve_dependent :: "(variable \<Rightarrow> nat) \<Rightarrow> constraint \<Rightarrow> strategy \<Rightarrow> strategy result" where
  "solve_dependent op_store (ImageConstraint func rng hint) s =
     rbind (image_resolve op_store s func hint) (\<lambda>p. insert_partition rng p s)"
| "solve_dependent op_store (ScaleConstraint factors smaller bigger) s =
     rbind (scale_resolve s factors smaller) (\<lambda>p. insert_partition bigger p s)"
| "solve_dependent op_store (BloatConstraint source bloat los his) s =
     rbind (bloat_resolve s source los his) (\<lambda>p. insert_partition bloat p s)"
| "solve_dependent op_store _ s = Inr s"

definition solve_dependent_constraints :: "(variable \<Rightarrow> nat) \<Rightarrow> solver \<Rightarrow> strategy \<Rightarrow> strategy result" where
  "solve_dependent_constraints op_store solver s = rfoldM (solve_dependent op_store) (sv_constraints solver) s"

section \<open>The operation and the state of the runtime\<close>

text \<open>What the partitioner reads of an operation.\<close>

record operation =
  op_store :: "variable \<Rightarrow> nat"
  op_machine :: machine
  op_policy :: parallel_policy
  op_supports_replicated_write :: bool

text \<open>The part of the runtime that the partitioner changes. \<open>rt_fields\<close> are the fields allocated in Legion, with
  their sizes; the field spaces and index spaces so far are the numbers below the two counters.\<close>

record runtime =
  rt_storages :: storages
  rt_stores :: "logical_store list"
  rt_cache :: factor_cache
  rt_projections :: projections
  rt_field_spaces :: nat
  rt_fields :: "(nat \<times> nat \<times> u32) list"
  rt_index_spaces :: "domain \<Rightarrow> nat option"
  rt_next_index_space :: nat

definition op_find_store :: "runtime \<Rightarrow> operation \<Rightarrow> variable \<Rightarrow> logical_store result" where
  "op_find_store rt op v = vec_get (rt_stores rt) (op_store op v)"

text \<open>What the solver reads of the store of a variable.\<close>

definition solver_view :: "u32 \<Rightarrow> runtime \<Rightarrow> operation \<Rightarrow> variable \<Rightarrow> lstore" where
  "solver_view max_dim rt op v =
     (let s = rt_stores rt ! op_store op v; st = rt_storages rt ! ls_storage s
      in lstore.make (so_deferred_bound st) (case ls_extents s of Inl e \<Rightarrow> [] | Inr es \<Rightarrow> es) (ls_dim s) (ls_transform s)
           (shape_ndim (so_shape st)) (so_has_scalar_storage st)
           (case shape_volume (so_shape st) of Inl e \<Rightarrow> 0 | Inr vol \<Rightarrow>
              vol * (case type_size (ls_type s) of Inl e \<Rightarrow> 0 | Inr sz \<Rightarrow> ucast sz))
           (case ndim_point_type max_dim (ls_type s) of Inl e \<Rightarrow> None | Inr n \<Rightarrow> Some (unat n))
           (case ndim_rect_type max_dim (ls_type s) of Inl e \<Rightarrow> None | Inr n \<Rightarrow> Some (unat n)))"

definition create_field_space :: "runtime \<Rightarrow> runtime \<times> nat" where
  "create_field_space rt = (rt\<lparr>rt_field_spaces := rt_field_spaces rt + 1\<rparr>, rt_field_spaces rt)"

definition allocate_field :: "nat \<Rightarrow> nat \<Rightarrow> u32 \<Rightarrow> runtime \<Rightarrow> runtime \<times> nat" where
  "allocate_field field_space field_id sz rt =
     (rt\<lparr>rt_fields := rt_fields rt @ [(field_space, field_id, sz)]\<rparr>, field_id)"

definition find_or_create_index_space :: "domain \<Rightarrow> runtime \<Rightarrow> runtime \<times> nat" where
  "find_or_create_index_space d rt =
     (case rt_index_spaces rt d of
        Some i \<Rightarrow> (rt, i)
      | None \<Rightarrow> (rt\<lparr>rt_index_spaces := (rt_index_spaces rt)(d \<mapsto> rt_next_index_space rt),
                    rt_next_index_space := rt_next_index_space rt + 1\<rparr>, rt_next_index_space rt))"

section \<open>Partitioning the stores of an operation\<close>

definition FIELD_ID_BASE :: nat where
  "FIELD_ID_BASE = 10000"

fun create_fields_loop ::
  "nat \<Rightarrow> operation \<Rightarrow> variable list \<Rightarrow> nat \<Rightarrow> nat \<Rightarrow> runtime \<Rightarrow> strategy \<Rightarrow> (runtime \<times> strategy) result" where
  "create_fields_loop max_fields op [] field_space next_field_id rt s = Inr (rt, s)"
| "create_fields_loop max_fields op (symb # symbs) field_space next_field_id rt s =
     (case (if max_fields \<le> next_field_id - FIELD_ID_BASE
            then (case create_field_space rt of (rt, fs) \<Rightarrow> (rt, fs, FIELD_ID_BASE))
            else (rt, field_space, next_field_id)) of
        (rt, field_space, next_field_id) \<Rightarrow>
          rbind (op_find_store rt op symb) (\<lambda>st. rbind (type_size (ls_type st)) (\<lambda>sz.
            (case allocate_field field_space next_field_id sz rt of (rt, field_id) \<Rightarrow>
               rbind (insert_field symb field_space field_id s) (\<lambda>s.
                 create_fields_loop max_fields op symbs field_space (next_field_id + 1) rt s)))))"

definition create_fields_for_class ::
  "nat \<Rightarrow> operation \<Rightarrow> equiv_class \<Rightarrow> variable list \<times> runtime \<times> strategy \<Rightarrow> (variable list \<times> runtime \<times> strategy) result" where
  "create_fields_for_class max_fields op ec st =
     (case st of (ret, rt, s) \<Rightarrow>
        if \<not> ec_unbound ec then Inr (ret @ ec_symbols ec, rt, s)
        else (case create_field_space rt of (rt, field_space) \<Rightarrow>
          rbind (create_fields_loop max_fields op (ec_symbols ec) field_space FIELD_ID_BASE rt s) (\<lambda>(rt, s).
            Inr (ret, rt, s))))"

definition create_fields_for_unbound_stores ::
  "nat \<Rightarrow> operation \<Rightarrow> solver \<Rightarrow> runtime \<Rightarrow> strategy \<Rightarrow> (variable list \<times> runtime \<times> strategy) result" where
  "create_fields_for_unbound_stores max_fields op solver rt s =
     rfoldM (create_fields_for_class max_fields op) (sv_classes solver) ([], rt, s)"

definition storage_size :: "runtime \<Rightarrow> logical_store \<Rightarrow> u64 result" where
  "storage_size rt s =
     rbind (vec_get (rt_storages rt) (ls_storage s)) (\<lambda>st. rbind (shape_volume (so_shape st)) (\<lambda>volume.
       rbind (type_size (ls_type s)) (\<lambda>sz. Inr (volume * ucast sz))))"

definition comparison_key :: "runtime \<Rightarrow> operation \<Rightarrow> solver \<Rightarrow> variable \<Rightarrow> (u64 \<times> bool \<times> access_mode) result" where
  "comparison_key rt op solver part_symb =
     rbind (op_find_store rt op part_symb) (\<lambda>store.
       rbind (find_restrictions solver part_symb) (\<lambda>restrictions.
         rbind (has_key_partition (rt_storages rt) (op_machine op) (op_policy op) restrictions store) (\<lambda>has_key_part.
           rbind (vec_get (rt_storages rt) (ls_storage store)) (\<lambda>st. rguard (\<not> so_unbound st) CheckFailed
             (rbind (storage_size rt store) (\<lambda>sz. rbind (find_access_mode solver part_symb) (\<lambda>mode.
               Inr (sz, has_key_part, mode))))))))"

text \<open>\<open>std::stable_sort\<close> with \<open>>\<close> on the keys: descending, and equal elements keep their order. A sort of fewer than
  two elements compares nothing.\<close>

definition stable_sort_descending :: "('a \<Rightarrow> 'k :: linorder) \<Rightarrow> 'a list \<Rightarrow> 'a list" where
  "stable_sort_descending key xs = rev (sort_key key (rev xs))"

definition sort_symbols :: "runtime \<Rightarrow> operation \<Rightarrow> solver \<Rightarrow> variable list \<Rightarrow> variable list result" where
  "sort_symbols rt op solver symbs =
     (if length symbs < 2 then Inr symbs
      else rbind (rmapM (\<lambda>symb. rbind (comparison_key rt op solver symb) (\<lambda>key. Inr (key, symb))) symbs) (\<lambda>keyed.
        Inr (map snd (stable_sort_descending fst keyed))))"

definition create_partition_for_symbol ::
  "(u64 \<Rightarrow> u64 \<Rightarrow> u64 \<times> u64) \<Rightarrow> operation \<Rightarrow> solver \<Rightarrow> variable \<Rightarrow> runtime \<times> strategy \<Rightarrow> (runtime \<times> strategy) result" where
  "create_partition_for_symbol root op solver part_symb st =
     (case st of (rt, s) \<Rightarrow>
        rbind (if has_assignment s part_symb then Inr True else is_dependent solver part_symb) (\<lambda>skip.
          if skip then Inr (rt, s)
          else rbind (find_equivalence_class solver part_symb) (\<lambda>equiv_class.
            rbind (find_restrictions solver part_symb) (\<lambda>restrictions.
              rbind (op_find_store rt op part_symb) (\<lambda>store.
                rbind (find_or_create_key_partition root (rt_storages rt) (rt_cache rt) (op_machine op) (op_policy op)
                    restrictions store) (\<lambda>(part, cache).
                  rbind (rfoldM (\<lambda>symb. insert_partition symb part) equiv_class (record_key_partition part_symb s)) (\<lambda>s.
                    Inr (rt\<lparr>rt_cache := cache\<rparr>, s))))))))"

definition create_partition_for_bound_stores ::
  "(u64 \<Rightarrow> u64 \<Rightarrow> u64 \<times> u64) \<Rightarrow> operation \<Rightarrow> variable list \<Rightarrow> solver \<Rightarrow> runtime \<Rightarrow> strategy \<Rightarrow> (runtime \<times> strategy) result" where
  "create_partition_for_bound_stores root op remaining_symbols solver rt s =
     rbind (sort_symbols rt op solver remaining_symbols) (\<lambda>symbs.
       rbind (rfoldM (create_partition_for_symbol root op solver) symbs (rt, s)) (\<lambda>(rt, s).
         rbind (solve_dependent_constraints (op_store op) solver s) (\<lambda>s. Inr (rt, s))))"

definition record_class_domain ::
  "(domain \<Rightarrow> domain \<Rightarrow> bool) \<Rightarrow> runtime \<Rightarrow> operation \<Rightarrow> solver \<Rightarrow> strategy \<Rightarrow> equiv_class \<Rightarrow> launch_resolver \<Rightarrow> launch_resolver result" where
  "record_class_domain lt rt op solver s ec r =
     rbind (vec_get (ec_symbols ec) 0) (\<lambda>part_symb.
       rbind (op_find_store rt op part_symb) (\<lambda>store. rbind (vec_get (rt_storages rt) (ls_storage store)) (\<lambda>st.
         if so_deferred_bound st
         then Inr (record_unbound_store (ls_dim store - count_restricted (ec_restrictions ec)) r)
         else rbind (strategy_at s part_symb) (\<lambda>part.
           if p_has_launch_domain part
           then rbind (p_launch_domain part) (\<lambda>dm.
             case dm of
               None \<Rightarrow> Inl CheckFailed
             | Some d \<Rightarrow>
                 rbind (if ec_has_restrictions ec then prune_domain (ec_restrictions ec) d else Inr d) (\<lambda>d.
                   Inr (record_launch_domain lt d r)))
           else if op_supports_replicated_write op then Inr r
           else rbind (is_output solver part_symb) (\<lambda>out.
             Inr (if out then set_must_be_sequential True r else r))))))"

definition project_unbound_class ::
  "core_library \<Rightarrow> domain \<Rightarrow> equiv_class \<Rightarrow> runtime \<times> strategy \<Rightarrow> (runtime \<times> strategy) result" where
  "project_unbound_class core launch_domain ec st =
     (case st of (rt, s) \<Rightarrow>
        if \<not> ec_has_restrictions ec then Inr (rt, s)
        else rbind (embed_domain (ec_restrictions ec) launch_domain) (\<lambda>embedded.
          (case find_or_create_index_space embedded rt of (rt, color_space) \<Rightarrow>
             rbind (get_affine_projection core (get_dim launch_domain) (to_projection (ec_restrictions ec)) (rt_projections rt))
               (\<lambda>(proj_id, pj).
               rbind (rfoldM (\<lambda>symb s. rbind (insert_color_space symb color_space s) (\<lambda>s.
                        Inr (insert_store_projection symb proj_id s))) (ec_symbols ec) s) (\<lambda>s.
                 Inr (rt\<lparr>rt_projections := pj\<rparr>, s))))))"

definition project_symbol ::
  "core_library \<Rightarrow> operation \<Rightarrow> domain \<Rightarrow> equiv_class \<Rightarrow> u64 list \<Rightarrow> variable \<Rightarrow> runtime \<times> strategy \<Rightarrow> (runtime \<times> strategy) result" where
  "project_symbol core op launch_domain ec color_shape part_symb st =
     (case st of (rt, s) \<Rightarrow>
        rbind (op_find_store rt op part_symb) (\<lambda>store. rbind (vec_get (rt_storages rt) (ls_storage store)) (\<lambda>storage.
          if so_has_scalar_storage storage then Inr (rt, s)
          else rbind (if ec_has_restrictions ec \<and> 1 < get_dim launch_domain
                      then rbind (stack_invert_symbolic (ls_transform store) (to_projection (ec_restrictions ec))) (\<lambda>point.
                             get_affine_projection core (get_dim launch_domain) point (rt_projections rt))
                      else infer_store_projection core launch_domain color_shape (ls_transform store) (rt_projections rt))
                 (\<lambda>(proj_id, pj).
            Inr (rt\<lparr>rt_projections := pj\<rparr>, insert_store_projection part_symb proj_id s)))))"

definition project_class ::
  "core_library \<Rightarrow> operation \<Rightarrow> domain \<Rightarrow> equiv_class \<Rightarrow> runtime \<times> strategy \<Rightarrow> (runtime \<times> strategy) result" where
  "project_class core op launch_domain ec st =
     (case st of (rt, s) \<Rightarrow>
        if ec_unbound ec then project_unbound_class core launch_domain ec (rt, s)
        else rbind (vec_get (ec_symbols ec) 0) (\<lambda>front. rbind (strategy_at s front) (\<lambda>part.
          if \<not> p_has_color_shape part then Inr (rt, s)
          else rbind (p_color_shape part) (\<lambda>color_shape.
            rfoldM (project_symbol core op launch_domain ec color_shape) (ec_symbols ec) (rt, s)))))"

definition resolve_launch_domain_and_store_projections ::
  "(domain \<Rightarrow> domain \<Rightarrow> bool) \<Rightarrow> core_library \<Rightarrow> operation \<Rightarrow> solver \<Rightarrow> runtime \<Rightarrow> strategy \<Rightarrow> (runtime \<times> strategy) result" where
  "resolve_launch_domain_and_store_projections lt core op solver rt s =
     rbind (rfoldM (record_class_domain lt rt op solver s) (sv_classes solver) empty_resolver) (\<lambda>r.
       rbind (resolve_launch_domain r) (\<lambda>launch_domain.
         case launch_domain of
           None \<Rightarrow> Inr (rt, set_launch_domain None s)
         | Some d \<Rightarrow> rfoldM (project_class core op d) (sv_classes solver) (rt, set_launch_domain (Some d) s)))"

definition set_opaque_key_partition :: "operation \<Rightarrow> variable \<Rightarrow> runtime \<Rightarrow> runtime result" where
  "set_opaque_key_partition op part_symb rt =
     rbind (op_find_store rt op part_symb) (\<lambda>store.
       rbind (ls_set_key_partition (op_machine op) (op_policy op) (POpaque (create_opaque 0 0 None)) (rt_storages rt) store)
         (\<lambda>(sts, store).
         Inr (rt\<lparr>rt_storages := sts, rt_stores := (rt_stores rt)[op_store op part_symb := store]\<rparr>)))"

definition create_placeholder_partitions :: "operation \<Rightarrow> solver \<Rightarrow> runtime \<Rightarrow> runtime result" where
  "create_placeholder_partitions op solver rt =
     rfoldM (\<lambda>ec. if ec_unbound ec then rfoldM (set_opaque_key_partition op) (ec_symbols ec) else Inr) (sv_classes solver) rt"

text \<open>\<open>solver\<close> holds the symbols and constraints that \<open>Operation::add_to_solver\<close> adds.\<close>

definition partition_stores ::
  "u32 \<Rightarrow> nat \<Rightarrow> (u64 \<Rightarrow> u64 \<Rightarrow> u64 \<times> u64) \<Rightarrow> (domain \<Rightarrow> domain \<Rightarrow> bool) \<Rightarrow> (nat set \<Rightarrow> nat list) \<Rightarrow> core_library \<Rightarrow>
   operation \<Rightarrow> solver \<Rightarrow> runtime \<Rightarrow> (runtime \<times> strategy) result" where
  "partition_stores max_dim max_fields root lt walk core op solver rt =
     rbind (solve_constraints walk (solver_view max_dim rt op) solver) (\<lambda>solver.
       rbind (create_fields_for_unbound_stores max_fields op solver rt empty_strategy) (\<lambda>(remaining_symbols, rt, s).
         rbind (create_partition_for_bound_stores root op remaining_symbols solver rt s) (\<lambda>(rt, s).
           rbind (resolve_launch_domain_and_store_projections lt core op solver rt s) (\<lambda>(rt, s).
             rbind (if sg_parallel s then create_placeholder_partitions op solver rt else Inr rt) (\<lambda>rt.
               Inr (rt, s))))))"

end
