(* ===== verification/PartitionerCorrect.thy ===== *)
theory PartitionerCorrect
  imports Partitioner SolverCorrect
begin

text \<open>
  What the partitioner promises: the launch domain follows from the recorded domains and stores alone, aligned
  stores get one partition, and a parallel launch agrees with the partition of every store.
\<close>

section \<open>Resolution of the launch domain\<close>

datatype launch_event = Launch domain | Unbound nat | Sequential

fun apply_event :: "(domain \<Rightarrow> domain \<Rightarrow> bool) \<Rightarrow> launch_event \<Rightarrow> launch_resolver \<Rightarrow> launch_resolver" where
  "apply_event lt (Launch d) r = record_launch_domain lt d r"
| "apply_event lt (Unbound n) r = record_unbound_store n r"
| "apply_event lt Sequential r = set_must_be_sequential True r"

definition launches :: "launch_event list \<Rightarrow> domain list" where
  "launches evs = List.map_filter (\<lambda>e. case e of Launch d \<Rightarrow> Some d | _ \<Rightarrow> None) evs"

definition unbounds :: "launch_event list \<Rightarrow> nat list" where
  "unbounds evs = List.map_filter (\<lambda>e. case e of Unbound n \<Rightarrow> Some n | _ \<Rightarrow> None) evs"

text \<open>The reference: a launch is sequential when no domain was recorded, when something asks for it, or when the
  volumes of the domains or the dimensions of the unbound stores differ. Domains of one volume but different
  shapes are linearized, which an unbound store of two or more dimensions does not allow.\<close>

definition all_equal :: "'a list \<Rightarrow> bool" where
  "all_equal xs \<longleftrightarrow> (\<forall>x \<in> set xs. \<forall>y \<in> set xs. x = y)"

definition reference_launch_domain :: "launch_event list \<Rightarrow> domain option result" where
  "reference_launch_domain evs =
     (case launches evs of
        [] \<Rightarrow> Inr None
      | d # ds \<Rightarrow>
          if Sequential \<in> set evs \<or> \<not> all_equal (map domain_volume (d # ds)) \<or> \<not> all_equal (unbounds evs) then Inr None
          else if \<not> all_equal (d # ds)
          then (if \<exists>n \<in> set (unbounds evs). 1 < n then Inr None
                else rguard (1 \<le> domain_volume d) CheckFailed
                  (Inr (Some \<lparr>dom_lo = [0], dom_hi = [sint (domain_volume d - 1)]\<rparr>)))
          else Inr (if \<forall>n \<in> set (unbounds evs). n = get_dim d then Some d else None))"

lemma launches_simps [simp]:
  "launches [] = []" "launches (evs @ [Launch d]) = launches evs @ [d]"
  "launches (evs @ [Unbound n]) = launches evs" "launches (evs @ [Sequential]) = launches evs"
  by (simp_all add: launches_def map_filter_def)

lemma unbounds_simps [simp]:
  "unbounds [] = []" "unbounds (evs @ [Launch d]) = unbounds evs"
  "unbounds (evs @ [Unbound n]) = unbounds evs @ [n]" "unbounds (evs @ [Sequential]) = unbounds evs"
  by (simp_all add: unbounds_def map_filter_def)

lemma all_equal_simps [simp]: "all_equal []" "all_equal [x]"
  by (simp_all add: all_equal_def)

lemma all_equal_snoc: "y \<in> set xs \<Longrightarrow> all_equal (xs @ [x]) \<longleftrightarrow> all_equal xs \<and> x = y"
  by (auto simp: all_equal_def)

definition picked :: "'a option \<Rightarrow> 'a list \<Rightarrow> bool" where
  "picked opt xs \<longleftrightarrow> (case opt of None \<Rightarrow> xs = [] | Some x \<Rightarrow> x \<in> set xs)"

definition resolver_inv :: "launch_event list \<Rightarrow> launch_resolver \<Rightarrow> bool" where
  "resolver_inv evs r \<longleftrightarrow>
     (lr_must_be_1d r \<longleftrightarrow> \<not> all_equal (launches evs)) \<and>
     (lr_must_be_sequential r \<longleftrightarrow>
        Sequential \<in> set evs \<or> \<not> all_equal (map domain_volume (launches evs)) \<or> \<not> all_equal (unbounds evs)) \<and>
     picked (lr_launch_domain r) (launches evs) \<and> picked (lr_launch_volume r) (map domain_volume (launches evs)) \<and>
     picked (lr_unbound_dim r) (unbounds evs)"

lemma resolver_invD:
  assumes "resolver_inv evs r"
  shows "lr_must_be_1d r \<longleftrightarrow> \<not> all_equal (launches evs)"
    "lr_must_be_sequential r \<longleftrightarrow>
       (Sequential \<in> set evs \<or> \<not> all_equal (unbounds evs)) \<or> \<not> all_equal (map domain_volume (launches evs))"
    "picked (lr_launch_domain r) (launches evs)" "picked (lr_launch_volume r) (map domain_volume (launches evs))"
    "picked (lr_unbound_dim r) (unbounds evs)"
  using assms unfolding resolver_inv_def by blast+

lemma set_min_optional_eq:
  assumes "picked opt xs" "flag \<longleftrightarrow> b \<or> \<not> all_equal xs"
  obtains new where "set_min_optional lt x flag opt = (b \<or> \<not> all_equal (xs @ [x]), Some new)" "new \<in> set (xs @ [x])"
proof (cases opt)
  case None
  then show thesis using that [of x] assms by (simp add: set_min_optional_def picked_def)
next
  case (Some old)
  then have old: "old \<in> set xs" using assms(1) by (simp add: picked_def)
  have "all_equal (xs @ [x]) \<longleftrightarrow> all_equal xs \<and> x = old" by (rule all_equal_snoc [OF old])
  then have "flag \<or> old \<noteq> x \<longleftrightarrow> b \<or> \<not> all_equal (xs @ [x])" using assms(2) by blast
  then have "set_min_optional lt x flag opt = (b \<or> \<not> all_equal (xs @ [x]), Some (if lt old x then old else x))"
    using Some by (simp add: set_min_optional_def)
  moreover have "(if lt old x then old else x) \<in> set (xs @ [x])" using old by simp
  ultimately show thesis by (rule that)
qed

lemma resolver_inv_step:
  assumes "resolver_inv evs r"
  shows "resolver_inv (evs @ [e]) (apply_event lt e r)"
proof (cases e)
  case (Launch d)
  note inv = resolver_invD [OF assms]
  obtain new where n: "set_min_optional lt d (lr_must_be_1d r) (lr_launch_domain r) = (False \<or> \<not> all_equal (launches evs @ [d]), Some new)"
    "new \<in> set (launches evs @ [d])"
    using inv(1) by (rule set_min_optional_eq [OF inv(3), where b = False, simplified]) auto
  obtain v where v: "set_min_optional (<) (domain_volume d) (lr_must_be_sequential r) (lr_launch_volume r)
      = ((Sequential \<in> set evs \<or> \<not> all_equal (unbounds evs)) \<or> \<not> all_equal (map domain_volume (launches evs) @ [domain_volume d]), Some v)"
    "v \<in> set (map domain_volume (launches evs) @ [domain_volume d])"
    by (rule set_min_optional_eq [OF inv(4,2)])
  show ?thesis using inv(5) n v unfolding Launch resolver_inv_def
    by (auto simp: record_launch_domain_def picked_def)
next
  case (Unbound n)
  note inv = resolver_invD [OF assms]
  show ?thesis
  proof (cases "lr_unbound_dim r")
    case None
    then show ?thesis using assms inv(5) unfolding Unbound resolver_inv_def
      by (auto simp: record_unbound_store_def picked_def)
  next
    case (Some m)
    then have "all_equal (unbounds evs @ [n]) \<longleftrightarrow> all_equal (unbounds evs) \<and> n = m"
      using inv(5) by (simp add: picked_def all_equal_snoc)
    then show ?thesis using assms inv(5) Some unfolding Unbound resolver_inv_def
      by (auto simp: record_unbound_store_def set_must_be_sequential_def picked_def)
  qed
next
  case Sequential
  then show ?thesis using assms by (simp add: set_must_be_sequential_def resolver_inv_def)
qed

lemma resolver_inv_fold: "resolver_inv evs (fold (apply_event lt) evs empty_resolver)"
proof (induction evs rule: rev_induct)
  case Nil
  show ?case by (simp add: resolver_inv_def empty_resolver_def picked_def)
next
  case (snoc e evs)
  show ?case using resolver_inv_step [OF snoc.IH] by simp
qed

lemma all_equalD: "all_equal xs \<Longrightarrow> x \<in> set xs \<Longrightarrow> y \<in> set xs \<Longrightarrow> x = y"
  by (simp add: all_equal_def)

lemma picked_equal:
  assumes "picked opt xs" "all_equal xs"
  shows "opt = None \<and> xs = [] \<or> (\<exists>x. opt = Some x \<and> set xs = {x})"
  using assms by (cases opt) (auto simp: picked_def all_equal_def)

lemma resolve_reference:
  assumes "resolver_inv evs r"
  shows "resolve_launch_domain r = reference_launch_domain evs"
proof (cases "launches evs")
  case Nil
  then have "lr_launch_domain r = None" using resolver_invD(3) [OF assms] by (simp add: picked_def split: option.splits)
  then show ?thesis using Nil by (simp add: resolve_launch_domain_def reference_launch_domain_def)
next
  case (Cons d ds)
  note inv = resolver_invD [OF assms, unfolded Cons]
  obtain d' v where some: "lr_launch_domain r = Some d'" "d' \<in> set (d # ds)" "lr_launch_volume r = Some v"
    "v \<in> set (map domain_volume (d # ds))"
    using inv(3,4) by (auto simp: picked_def split: option.splits)
  show ?thesis
  proof (cases "lr_must_be_sequential r")
    case True
    then show ?thesis using some(1) inv(2) unfolding resolve_launch_domain_def reference_launch_domain_def Cons by auto
  next
    case seq: False
    then have e: "all_equal (map domain_volume (d # ds))" "all_equal (unbounds evs)" "Sequential \<notin> set evs" using inv(2) by blast+
    have v: "v = domain_volume d" using all_equalD [OF e(1) some(4)] by simp
    note u = picked_equal [OF inv(5) e(2)]
    show ?thesis
    proof (cases "all_equal (d # ds)")
      case False
      then show ?thesis using some(1,3) seq e v u inv(1) unfolding resolve_launch_domain_def reference_launch_domain_def Cons by auto
    next
      case True
      then have "d' = d" using all_equalD [OF True some(2)] by simp
      then show ?thesis using True some(1) seq e u inv(1) unfolding resolve_launch_domain_def reference_launch_domain_def Cons by auto
    qed
  qed
qed

text \<open>C34: The launch domain that \<open>LaunchDomainResolver\<close> gives after any sequence of records is the one of the
  reference, which looks at all the recorded domains and stores at once: neither the order of the records nor
  Legion's order on domains matters.\<close>

theorem launch_domain_resolution:
  "resolve_launch_domain (fold (apply_event lt) evs empty_resolver) = reference_launch_domain evs"
  by (rule resolve_reference [OF resolver_inv_fold])

section \<open>The classes of a solved solver\<close>

lemma solved_class:
  assumes "solve_constraints walk fs s = Inr s'" "distinct (sv_symbols s)" "sv_class_map s = Map.empty"
    "walk_ok walk" "a \<in> set (sv_symbols s)"
  obtains ec where "ec \<in> set (sv_classes s')" "find_class s' a = Inr ec" "ec_unbound ec = Solver.ls_unbound (fs a)"
    "set (ec_symbols ec) = {b \<in> set (sv_symbols s). (a, b) \<in> must_align (sv_constraints s)}"
    "\<forall>b \<in> set (ec_symbols ec). find_class s' b = Inr ec"
proof -
  obtain es0 t0 es t C xs i ec where r: "rfoldM (init_entry fs s) (sv_symbols s) ([], Map.empty) = Inr (es0, t0)"
    and inv: "solver_inv es0 (sv_constraints s) (es, t) C" and xs: "xs \<in> C" "i \<in> set xs" "uf_symbol (es0 ! i) = a"
    and mk: "mk_equiv_class es (hd xs) = Inr ec"
    and f: "\<forall>j \<in> set xs. find_class s' (uf_symbol (es0 ! j)) = Inr ec"
    by (rule solve_constraints_classes [OF assms])
  note I = solver_invD [OF inv] and c = chains_okD [OF solver_invD(1) [OF inv] xs(1)]
  have bd: "j < length es0" if "j \<in> set xs" for j by (rule solver_inv_bound [OF inv xs(1) that])
  have ri: "\<forall>i < length es. restrictions_inv (uf_restrictions (es ! i))" using I(6) by blast
  note ml = mk_equiv_class_linked [OF c(1,6) ri mk]
  have sy: "ec_symbols ec = map (\<lambda>i. uf_symbol (es0 ! i)) xs" using ml I(9) bd by simp
  have "es0 ! i = first_entry fs s a"
  proof -
    have "es0 ! i = first_entry fs s (sv_symbols s ! i)" using init_entries(1) [OF r assms(2)] bd [OF xs(2)] by simp
    then show ?thesis using xs(3) by (simp add: first_entry_def)
  qed
  then have "ec_unbound ec = Solver.ls_unbound (fs a)"
    using ml I(5) [OF xs(1,2)] I(10) [OF bd [OF xs(2)]] by (simp add: first_entry_def)
  moreover have "set (ec_symbols ec) = {b \<in> set (sv_symbols s). (a, b) \<in> must_align (sv_constraints s)}"
    using class_members(1) [OF inv xs] sy solver_inv_init(2) [OF r assms(2)] by simp
  moreover have "\<forall>b \<in> set (ec_symbols ec). find_class s' b = Inr ec" using f by (auto simp: sy)
  moreover have "find_class s' a = Inr ec" using f xs by blast
  moreover from this have "ec \<in> set (sv_classes s')" by (auto simp: find_class_def rbind_eq_Inr vec_get_eq_Inr)
  ultimately show thesis using that by blast
qed

lemma solved_classes_registered:
  assumes "solve_constraints walk fs s = Inr s'" "distinct (sv_symbols s)" "sv_class_map s = Map.empty" "walk_ok walk"
  shows "(\<Union>ec \<in> {ec \<in> set (sv_classes s'). \<not> ec_unbound ec}. set (ec_symbols ec)) \<subseteq> set (sv_symbols s)"
proof -
  obtain es0 t0 es t classes where r: "rfoldM (init_entry fs s) (sv_symbols s) ([], Map.empty) = Inr (es0, t0)"
    "rfoldM reflect (sv_constraints s) (es0, t0) = Inr (es, t)"
    "rmapM (mk_equiv_class es) (walk (set (List.map_filter t (sv_symbols s)))) = Inr classes" "sv_classes s' = classes"
    using assms(1,3) by (auto simp: solve_constraints_def rbind_eq_Inr)
  note i0 = solver_inv_init [OF r(1) assms(2)]
  obtain C where inv: "solver_inv es0 (sv_constraints s) (es, t) C" using rfoldM_reflect [OF i0(1) r(2)] by auto
  note I = solver_invD [OF inv]
  let ?hs = "walk (set (List.map_filter t (sv_symbols s)))"
  have hs: "set ?hs = hd ` C" using assms(4) table_heads [OF inv i0(2)] by (metis List.finite_set walk_ok_def)
  have "set (ec_symbols ec) \<subseteq> set (sv_symbols s)" if mem: "ec \<in> set classes" for ec
  proof -
    obtain k where "k < length classes" and k2: "ec = classes ! k" using mem by (auto simp: in_set_conv_nth)
    then have k: "k < length ?hs" "ec = classes ! k" using rmapM_length [OF r(3)] by simp_all
    then obtain xs where xs: "xs \<in> C" "?hs ! k = hd xs" using hs by (metis imageE nth_mem)
    have "mk_equiv_class es (hd xs) = Inr ec" using rmapM_nth [OF r(3) k(1)] k(2) xs(2) by simp
    then have "ec_symbols ec = map (\<lambda>i. uf_symbol (es ! i)) xs"
      using mk_equiv_class_linked chains_okD [OF I(1) xs(1)] I(6) by blast
    moreover have "uf_symbol (es ! i) \<in> set (sv_symbols s)" if "i \<in> set xs" for i
      using solver_inv_bound [OF inv xs(1) that] I(9) i0(2) by auto
    ultimately show ?thesis by auto
  qed
  then show ?thesis using r(4) by auto
qed

text \<open>The constraint that makes a symbol depend on another one.\<close>

fun dependent_symbol :: "constraint \<Rightarrow> variable option" where
  "dependent_symbol (ImageConstraint func rng hint) = Some rng"
| "dependent_symbol (ScaleConstraint factors smaller bigger) = Some bigger"
| "dependent_symbol (BloatConstraint source bloat los his) = Some bloat"
| "dependent_symbol _ = None"

lemma mark_dependent_True:
  "fold mark_dependent cs d v = Some True \<Longrightarrow> d v = Some True \<or> (\<exists>c \<in> set cs. dependent_symbol c = Some v)"
proof (induction cs arbitrary: d)
  case (Cons c cs)
  then show ?case by (cases c) (force split: if_splits)+
qed simp

lemma solved_independent:
  assumes "solve_constraints walk fs s = Inr s'" "sv_dependent s = Map.empty" "is_dependent s' v = Inr b"
    "\<forall>c \<in> set (sv_constraints s). dependent_symbol c \<noteq> Some v"
  shows "\<not> b"
proof
  assume b
  have "fold (\<lambda>symb. map_insert symb False) vs d v \<noteq> Some True" if "d v \<noteq> Some True" for vs and d :: "variable \<Rightarrow> bool option"
    using that by (induction vs arbitrary: d) (auto simp: map_insert_def)
  moreover have "sv_dependent s' = fold mark_dependent (sv_constraints s)
      (fold (\<lambda>symb. map_insert symb False) (sv_symbols s) (sv_dependent s))"
    using assms(1) by (auto simp: solve_constraints_def rbind_eq_Inr)
  moreover have "sv_dependent s' v = Some True" using assms(3) \<open>b\<close> by (auto simp: is_dependent_def map_at_def split: option.splits)
  ultimately show False using mark_dependent_True [of "sv_constraints s" _ v] assms(2,4) by fastforce
qed

section \<open>Assignments\<close>

lemma insert_partitions:
  "rfoldM (\<lambda>symb. insert_partition symb p) vs s = Inr s' \<Longrightarrow>
     sg_assignments s' = (\<lambda>v. if v \<in> set vs then Some p else sg_assignments s v) \<and>
     (\<forall>v \<in> set vs. sg_assignments s v = None) \<and> sg_launch_domain s' = sg_launch_domain s"
proof (induction vs arbitrary: s)
  case (Cons v vs)
  obtain s1 where s1: "insert_partition v p s = Inr s1" "rfoldM (\<lambda>symb. insert_partition symb p) vs s1 = Inr s'"
    using Cons.prems by (auto simp: rbind_eq_Inr)
  then have "sg_assignments s1 = (sg_assignments s)(v \<mapsto> p)" "sg_assignments s v = None" "sg_launch_domain s1 = sg_launch_domain s"
    by (auto simp: insert_partition_def rguard_eq_Inr has_assignment_def)
  then show ?case using Cons.IH [OF s1(2)] by (auto simp: fun_eq_iff split: if_splits)
qed simp

lemma insert_partition_keeps:
  "insert_partition v p s = Inr s' \<Longrightarrow> sg_assignments s w = Some q \<Longrightarrow> sg_assignments s' w = Some q"
  by (auto simp: insert_partition_def rguard_eq_Inr has_assignment_def)

lemma solve_dependent_keeps:
  "rfoldM (solve_dependent op_st) cs s = Inr s' \<Longrightarrow> sg_assignments s w = Some q \<Longrightarrow> sg_assignments s' w = Some q"
proof (induction cs arbitrary: s)
  case (Cons c cs)
  obtain s1 where s1: "solve_dependent op_st c s = Inr s1" "rfoldM (solve_dependent op_st) cs s1 = Inr s'"
    using Cons.prems(1) by (auto simp: rbind_eq_Inr)
  then have "sg_assignments s1 w = Some q" using Cons.prems(2) insert_partition_keeps
    by (cases c) (auto simp: rbind_eq_Inr)
  then show ?case using Cons.IH [OF s1(2)] by simp
qed simp

text \<open>A class whose members agree on the class is assigned as a whole.\<close>

definition class_uniform :: "variable list \<Rightarrow> strategy \<Rightarrow> bool" where
  "class_uniform vs s \<longleftrightarrow> (\<forall>v \<in> set vs. sg_assignments s v = None) \<or> (\<exists>p. \<forall>v \<in> set vs. sg_assignments s v = Some p)"

lemma create_partition_step:
  assumes "create_partition_for_symbol root op sv part_symb (rt, s) = Inr (rt', s')" "class_uniform vs s"
    "\<forall>v \<in> set vs. find_equivalence_class sv v = Inr vs"
    "\<forall>ws. find_equivalence_class sv part_symb = Inr ws \<longrightarrow> part_symb \<in> set ws \<and> (\<forall>w \<in> set ws. find_equivalence_class sv w = Inr ws)"
  shows "class_uniform vs s'"
    "part_symb \<in> set vs \<Longrightarrow> is_dependent sv part_symb = Inr False \<or> sg_assignments s part_symb \<noteq> None \<Longrightarrow> sg_assignments s' part_symb \<noteq> None"
    "sg_assignments s v = Some p \<Longrightarrow> sg_assignments s' v = Some p"
proof -
  obtain skip where skip: "(if has_assignment s part_symb then Inr True else is_dependent sv part_symb) = Inr skip"
    using assms(1) by (auto simp: create_partition_for_symbol_def rbind_eq_Inr)
  have "class_uniform vs s' \<and>
    (part_symb \<in> set vs \<longrightarrow> is_dependent sv part_symb = Inr False \<or> sg_assignments s part_symb \<noteq> None \<longrightarrow> sg_assignments s' part_symb \<noteq> None) \<and>
    (sg_assignments s v = Some p \<longrightarrow> sg_assignments s' v = Some p)"
  proof (cases skip)
    case True
    then show ?thesis using assms(1,2) skip by (auto simp: create_partition_for_symbol_def has_assignment_def split: if_splits)
  next
    case False
    obtain ws q where ws: "find_equivalence_class sv part_symb = Inr ws"
      "rfoldM (\<lambda>symb. insert_partition symb q) ws (record_key_partition part_symb s) = Inr s'"
      using assms(1) skip False by (auto simp: create_partition_for_symbol_def rbind_eq_Inr)
    have k: "sg_assignments (record_key_partition part_symb s) = sg_assignments s" by (simp add: record_key_partition_def)
    note w = assms(4) [rule_format, OF ws(1)] and i = insert_partitions [OF ws(2), unfolded k]
    have "set ws = set vs \<or> set ws \<inter> set vs = {}"
    proof (rule disjCI)
      assume "set ws \<inter> set vs \<noteq> {}"
      then obtain x where "x \<in> set ws" "x \<in> set vs" by blast
      then show "set ws = set vs" using w assms(3) by (metis Inr_inject)
    qed
    then have "class_uniform vs s'" using assms(2) i by (auto simp: class_uniform_def)
    moreover have "sg_assignments s' part_symb = Some q" using i w by simp
    moreover have "sg_assignments s v = Some p \<longrightarrow> sg_assignments s' v = Some p" using i by auto
    ultimately show ?thesis by simp
  qed
  then show "class_uniform vs s'"
    "part_symb \<in> set vs \<Longrightarrow> is_dependent sv part_symb = Inr False \<or> sg_assignments s part_symb \<noteq> None \<Longrightarrow> sg_assignments s' part_symb \<noteq> None"
    "sg_assignments s v = Some p \<Longrightarrow> sg_assignments s' v = Some p" by blast+
qed

lemma create_partitions_loop:
  assumes "rfoldM (create_partition_for_symbol root op sv) symbs (rt, s) = Inr (rt', s')" "class_uniform vs s"
    "\<forall>v \<in> set vs. find_equivalence_class sv v = Inr vs"
    "\<forall>symb \<in> set symbs. \<forall>ws. find_equivalence_class sv symb = Inr ws \<longrightarrow>
       symb \<in> set ws \<and> (\<forall>w \<in> set ws. find_equivalence_class sv w = Inr ws)"
  shows "class_uniform vs s' \<and> (\<forall>v p. sg_assignments s v = Some p \<longrightarrow> sg_assignments s' v = Some p) \<and>
    (\<forall>v \<in> set vs. v \<in> set symbs \<longrightarrow> is_dependent sv v \<noteq> Inr True \<longrightarrow> sg_assignments s' v \<noteq> None)"
  using assms(1,2,4)
proof (induction symbs arbitrary: rt s)
  case (Cons symb symbs)
  obtain rt1 s1 where st: "create_partition_for_symbol root op sv symb (rt, s) = Inr (rt1, s1)"
    "rfoldM (create_partition_for_symbol root op sv) symbs (rt1, s1) = Inr (rt', s')"
    using Cons.prems(1) by (auto simp: rbind_eq_Inr)
  have cls: "\<forall>ws. find_equivalence_class sv symb = Inr ws \<longrightarrow> symb \<in> set ws \<and> (\<forall>w \<in> set ws. find_equivalence_class sv w = Inr ws)"
    using Cons.prems(3) by (meson list.set_intros(1))
  note step = create_partition_step [OF st(1) Cons.prems(2) assms(3) cls]
  have ih: "class_uniform vs s' \<and> (\<forall>v p. sg_assignments s1 v = Some p \<longrightarrow> sg_assignments s' v = Some p) \<and>
      (\<forall>v \<in> set vs. v \<in> set symbs \<longrightarrow> is_dependent sv v \<noteq> Inr True \<longrightarrow> sg_assignments s' v \<noteq> None)"
    by (rule Cons.IH [OF st(2) step(1) Cons.prems(3) [unfolded list.set ball_simps(7), THEN conjunct2]])
  have dep: "is_dependent sv symb = Inr False \<or> sg_assignments s symb \<noteq> None" if "is_dependent sv symb \<noteq> Inr True"
  proof (cases "has_assignment s symb")
    case False
    then obtain b where "is_dependent sv symb = Inr b" using st(1) by (auto simp: create_partition_for_symbol_def rbind_eq_Inr)
    then show ?thesis using that by (cases b) simp_all
  qed (simp add: has_assignment_def)
  have "sg_assignments s' symb \<noteq> None" if "symb \<in> set vs" "is_dependent sv symb \<noteq> Inr True"
    using ih step(2) [OF that(1) dep [OF that(2)]] by fastforce
  moreover have "\<forall>v p. sg_assignments s v = Some p \<longrightarrow> sg_assignments s' v = Some p" using ih step(3) by blast
  ultimately show ?case using ih unfolding list.set by blast
qed simp

lemma class_uniform_assigned:
  "class_uniform vs s \<Longrightarrow> v \<in> set vs \<Longrightarrow> sg_assignments s v \<noteq> None \<Longrightarrow> \<exists>p. \<forall>w \<in> set vs. sg_assignments s w = Some p"
  by (auto simp: class_uniform_def)

lemma create_fields_loop_keeps:
  "create_fields_loop max_fields op symbs fs next rt s = Inr (rt', s') \<Longrightarrow>
     sg_assignments s' = sg_assignments s \<and> rt_stores rt' = rt_stores rt \<and> rt_storages rt' = rt_storages rt"
proof (induction symbs arbitrary: fs "next" rt s)
  case (Cons symb symbs)
  obtain rt1 fs1 next1 where c: "(if max_fields \<le> next - FIELD_ID_BASE
      then (case create_field_space rt of (rt, fs) \<Rightarrow> (rt, fs, FIELD_ID_BASE)) else (rt, fs, next)) = (rt1, fs1, next1)"
    by (metis prod_cases3)
  have rt1: "rt_stores rt1 = rt_stores rt" "rt_storages rt1 = rt_storages rt"
    using c by (auto simp: create_field_space_def split: if_splits)
  obtain sz s1 where st: "insert_field symb fs1 next1 s = Inr s1"
    "create_fields_loop max_fields op symbs fs1 (next1 + 1) (rt1\<lparr>rt_fields := rt_fields rt1 @ [(fs1, next1, sz)]\<rparr>) s1 = Inr (rt', s')"
    using Cons.prems unfolding create_fields_loop.simps c prod.case allocate_field_def rbind_eq_Inr by blast
  have "sg_assignments s1 = sg_assignments s" using st(1) by (auto simp: insert_field_def rguard_eq_Inr)
  then show ?case using Cons.IH [OF st(2)] rt1 by simp
qed simp

lemma create_fields_keeps:
  "rfoldM (create_fields_for_class max_fields op) ecs (ret, rt, s) = Inr (ret', rt', s') \<Longrightarrow>
     sg_assignments s' = sg_assignments s \<and> rt_stores rt' = rt_stores rt \<and> rt_storages rt' = rt_storages rt \<and>
     set ret' = set ret \<union> (\<Union>ec \<in> {ec \<in> set ecs. \<not> ec_unbound ec}. set (ec_symbols ec))"
proof (induction ecs arbitrary: ret rt s)
  case (Cons ec ecs)
  obtain ret1 rt1 s1 where st: "create_fields_for_class max_fields op ec (ret, rt, s) = Inr (ret1, rt1, s1)"
    "rfoldM (create_fields_for_class max_fields op) ecs (ret1, rt1, s1) = Inr (ret', rt', s')"
    using Cons.prems by (auto simp: rbind_eq_Inr)
  have "sg_assignments s1 = sg_assignments s \<and> rt_stores rt1 = rt_stores rt \<and> rt_storages rt1 = rt_storages rt \<and>
      ret1 = (if ec_unbound ec then ret else ret @ ec_symbols ec)"
    using st(1) create_fields_loop_keeps
    by (fastforce simp: create_fields_for_class_def create_field_space_def rbind_eq_Inr split: if_splits)
  then show ?case using Cons.IH [OF st(2)] by auto
qed auto

lemma sort_symbols_set: "sort_symbols rt op sv symbs = Inr symbs' \<Longrightarrow> set symbs' = set symbs"
proof -
  assume a: "sort_symbols rt op sv symbs = Inr symbs'"
  have keyed: "map snd ks = xs" if "rmapM (\<lambda>symb. rbind (comparison_key rt op sv symb) (\<lambda>key. Inr (key, symb))) xs = Inr ks" for xs ks
    using that by (induction xs arbitrary: ks) (auto simp: rbind_eq_Inr)
  show ?thesis
  proof (cases "length symbs < 2")
    case True
    then show ?thesis using a by (simp add: sort_symbols_def)
  next
    case False
    then obtain ks where ks: "rmapM (\<lambda>symb. rbind (comparison_key rt op sv symb) (\<lambda>key. Inr (key, symb))) symbs = Inr ks"
      "symbs' = map snd (stable_sort_descending fst ks)"
      using a by (auto simp: sort_symbols_def rbind_eq_Inr)
    have "set symbs' = snd ` set ks" unfolding ks(2) stable_sort_descending_def by simp
    then show ?thesis using keyed [OF ks(1)] by (metis set_map)
  qed
qed

lemma create_partitions_stores:
  "rfoldM (create_partition_for_symbol root op sv) symbs (rt, s) = Inr (rt', s') \<Longrightarrow>
     rt_stores rt' = rt_stores rt \<and> rt_storages rt' = rt_storages rt"
proof (induction symbs arbitrary: rt s)
  case (Cons symb symbs)
  obtain rt1 s1 where st: "create_partition_for_symbol root op sv symb (rt, s) = Inr (rt1, s1)"
    "rfoldM (create_partition_for_symbol root op sv) symbs (rt1, s1) = Inr (rt', s')"
    using Cons.prems by (auto simp: rbind_eq_Inr)
  have "rt_stores rt1 = rt_stores rt \<and> rt_storages rt1 = rt_storages rt"
    using st(1) by (auto simp: create_partition_for_symbol_def rbind_eq_Inr split: if_splits)
  then show ?case using Cons.IH [OF st(2)] by simp
qed simp

text \<open>The projections of a launch change neither the assignments nor the launch domain.\<close>

definition same_strategy :: "strategy \<Rightarrow> strategy \<Rightarrow> bool" where
  "same_strategy s s' \<longleftrightarrow> sg_assignments s' = sg_assignments s \<and> sg_launch_domain s' = sg_launch_domain s"

lemma same_strategy_fold:
  assumes "\<And>x st st'. f x st = Inr st' \<Longrightarrow> same_strategy (g st) (g st')"
  shows "rfoldM f xs st = Inr st' \<Longrightarrow> same_strategy (g st) (g st')"
proof (induction xs arbitrary: st)
  case (Cons x xs)
  obtain st1 where st: "f x st = Inr st1" "rfoldM f xs st1 = Inr st'" using Cons.prems by (auto simp: rbind_eq_Inr)
  then show ?case using assms [OF st(1)] Cons.IH [OF st(2)] by (simp add: same_strategy_def)
qed (simp add: same_strategy_def)

lemma project_symbol_same:
  "project_symbol core op d ec cs v st = Inr st' \<Longrightarrow> same_strategy (snd st) (snd st')"
proof -
  assume a: "project_symbol core op d ec cs v st = Inr st'"
  obtain rt s where st: "st = (rt, s)" by fastforce
  obtain store storage where o: "op_find_store rt op v = Inr store" "vec_get (rt_storages rt) (ls_storage store) = Inr storage"
    using a by (auto simp: project_symbol_def st rbind_eq_Inr)
  show ?thesis
  proof (cases "so_has_scalar_storage storage")
    case True
    then show ?thesis using a o by (simp add: project_symbol_def st same_strategy_def)
  next
    case False
    then obtain pid pj where "st' = (rt\<lparr>rt_projections := pj\<rparr>, insert_store_projection v pid s)"
      using a o unfolding project_symbol_def st prod.case o rbind_Inr if_not_P [OF False]
      by (elim rbind_eq_Inr [THEN iffD1, THEN exE]) auto
    then show ?thesis by (simp add: st same_strategy_def insert_store_projection_def)
  qed
qed

lemma project_unbound_same:
  assumes "project_unbound_class core d ec (rt, s) = Inr st'"
  shows "same_strategy s (snd st')"
proof (cases "ec_has_restrictions ec")
  case True
  have step: "same_strategy s1 s2"
    if "rbind (insert_color_space symb cs s1) (\<lambda>s. Inr (insert_store_projection symb pid s)) = Inr s2" for symb cs pid s1 s2
    using that by (auto simp: insert_color_space_def rguard_eq_Inr rbind_eq_Inr same_strategy_def insert_store_projection_def)
  obtain embedded where e: "embed_domain (ec_restrictions ec) d = Inr embedded"
    using assms True by (auto simp: project_unbound_class_def rbind_eq_Inr)
  obtain rt1 cs where c: "find_or_create_index_space embedded rt = (rt1, cs)" by fastforce
  obtain pid pj s2 where st: "rfoldM (\<lambda>symb s. rbind (insert_color_space symb cs s) (\<lambda>s. Inr (insert_store_projection symb pid s)))
      (ec_symbols ec) s = Inr s2" "st' = (rt1\<lparr>rt_projections := pj\<rparr>, s2)"
    using assms True e c by (auto simp: project_unbound_class_def rbind_eq_Inr)
  show ?thesis
    using same_strategy_fold [where f = "\<lambda>symb s. rbind (insert_color_space symb cs s) (\<lambda>s. Inr (insert_store_projection symb pid s))"
        and g = "\<lambda>s. s", OF step st(1)] st(2) by simp
next
  case False
  then show ?thesis using assms by (auto simp: project_unbound_class_def same_strategy_def)
qed

lemma project_class_same:
  assumes "project_class core op d ec st = Inr st'"
  shows "same_strategy (snd st) (snd st')"
proof -
  obtain rt s where st: "st = (rt, s)" by fastforce
  show ?thesis
  proof (cases "ec_unbound ec")
    case True
    then have "project_unbound_class core d ec (rt, s) = Inr st'" using assms by (simp add: project_class_def st)
    then show ?thesis using project_unbound_same by (simp add: st)
  next
    case False
    then obtain p where p: "strategy_at s (ec_symbols ec ! 0) = Inr p" using assms
      by (auto simp: project_class_def st rbind_eq_Inr vec_get_eq_Inr)
    show ?thesis
    proof (cases "p_has_color_shape p")
      case True
      then obtain cs where "rfoldM (project_symbol core op d ec cs) (ec_symbols ec) st = Inr st'"
        using assms False p by (auto simp: project_class_def st rbind_eq_Inr vec_get_eq_Inr)
      then show ?thesis
        using same_strategy_fold [where f = "project_symbol core op d ec cs" and g = snd] project_symbol_same by blast
    next
      case no: False
      then have "st' = st" using assms False p by (auto simp: project_class_def st rbind_eq_Inr vec_get_eq_Inr)
      then show ?thesis by (simp add: same_strategy_def)
    qed
  qed
qed

text \<open>The records that the partitioner makes of the classes.\<close>

definition class_recorded :: "runtime \<Rightarrow> operation \<Rightarrow> solver \<Rightarrow> strategy \<Rightarrow> equiv_class \<Rightarrow> launch_event list \<Rightarrow> bool" where
  "class_recorded rt op sv s ec evs \<longleftrightarrow> (\<forall>v vs st. ec_symbols ec = v # vs \<longrightarrow> op_find_store rt op v = Inr st \<longrightarrow>
     \<not> so_deferred_bound (rt_storages rt ! ls_storage st) \<longrightarrow>
     (\<exists>p. sg_assignments s v = Some p \<and>
       (if p_has_launch_domain p
        then \<exists>D D'. p_launch_domain p = Inr (Some D) \<and>
          (if ec_has_restrictions ec then prune_domain (ec_restrictions ec) D else Inr D) = Inr D' \<and> Launch D' \<in> set evs
        else op_supports_replicated_write op \<or> is_output sv v = Inr False \<or> Sequential \<in> set evs)))"

lemma class_recorded_mono: "class_recorded rt op sv s ec evs \<Longrightarrow> set evs \<subseteq> set evs' \<Longrightarrow> class_recorded rt op sv s ec evs'"
  unfolding class_recorded_def by (meson subsetD)

lemma record_class_event:
  assumes "record_class_domain lt rt op sv s ec r = Inr r'"
  shows "\<exists>evs. r' = fold (apply_event lt) evs r \<and> class_recorded rt op sv s ec evs"
proof -
  obtain v st sto where v: "vec_get (ec_symbols ec) 0 = Inr v" "op_find_store rt op v = Inr st"
    "vec_get (rt_storages rt) (ls_storage st) = Inr sto"
    using assms by (auto simp: record_class_domain_def rbind_eq_Inr)
  then have front: "\<exists>vs. ec_symbols ec = v # vs" "rt_storages rt ! ls_storage st = sto"
    by (auto simp: vec_get_eq_Inr neq_Nil_conv)
  show ?thesis
  proof (cases "so_deferred_bound sto")
    case True
    then have "r' = apply_event lt (Unbound (ls_dim st - count_restricted (ec_restrictions ec))) r"
      using assms v by (simp add: record_class_domain_def)
    then show ?thesis using True front v
      by (intro exI [of _ "[Unbound (ls_dim st - count_restricted (ec_restrictions ec))]"]) (auto simp: class_recorded_def)
  next
    case False
    then obtain p where p: "strategy_at s v = Inr p" using assms v by (auto simp: record_class_domain_def rbind_eq_Inr)
    then have sp: "sg_assignments s v = Some p" by (auto simp: strategy_at_def split: option.splits)
    show ?thesis
    proof (cases "p_has_launch_domain p")
      case True
      obtain dm where dm: "p_launch_domain p = Inr dm" using assms v False p True by (auto simp: record_class_domain_def rbind_eq_Inr)
      then obtain D where D': "dm = Some D" using assms v False p True by (cases dm) (auto simp: record_class_domain_def)
      then obtain D' where D: "p_launch_domain p = Inr (Some D)"
        "(if ec_has_restrictions ec then prune_domain (ec_restrictions ec) D else Inr D) = Inr D'" "r' = record_launch_domain lt D' r"
        using assms v False p True dm by (auto simp: record_class_domain_def rbind_eq_Inr)
      have "class_recorded rt op sv s ec [Launch D']" unfolding class_recorded_def
      proof (intro allI impI)
        fix v' vs st' assume "ec_symbols ec = v' # vs"
        then have "v' = v" using front(1) by auto
        then show "\<exists>p. sg_assignments s v' = Some p \<and>
           (if p_has_launch_domain p
            then \<exists>D D'a. p_launch_domain p = Inr (Some D) \<and>
              (if ec_has_restrictions ec then prune_domain (ec_restrictions ec) D else Inr D) = Inr D'a \<and> Launch D'a \<in> set [Launch D']
            else op_supports_replicated_write op \<or> is_output sv v' = Inr False \<or> Sequential \<in> set [Launch D'])"
          using True sp D(1,2) by (intro exI [of _ p]) simp
      qed
      then show ?thesis using D(3) by (intro exI [of _ "[Launch D']"]) simp
    next
      case no: False
      show ?thesis
      proof (cases "op_supports_replicated_write op")
        case True
        then have "r' = r" using assms v False p no by (simp add: record_class_domain_def)
        then show ?thesis using True no front v sp by (intro exI [of _ "[]"]) (auto simp: class_recorded_def)
      next
        case seq: False
        then obtain out where o: "is_output sv v = Inr out" "r' = (if out then set_must_be_sequential True r else r)"
          using assms v False p no by (auto simp: record_class_domain_def rbind_eq_Inr)
        then show ?thesis using no front v sp
          by (intro exI [of _ "if out then [Sequential] else []"]) (auto simp: class_recorded_def)
      qed
    qed
  qed
qed

lemma record_classes_events:
  "rfoldM (record_class_domain lt rt op sv s) ecs r = Inr r' \<Longrightarrow>
     \<exists>evs. r' = fold (apply_event lt) evs r \<and> (\<forall>ec \<in> set ecs. class_recorded rt op sv s ec evs)"
proof (induction ecs arbitrary: r)
  case (Cons ec ecs)
  obtain r1 where st: "record_class_domain lt rt op sv s ec r = Inr r1" "rfoldM (record_class_domain lt rt op sv s) ecs r1 = Inr r'"
    using Cons.prems by (auto simp: rbind_eq_Inr)
  obtain evs1 where e1: "r1 = fold (apply_event lt) evs1 r" "class_recorded rt op sv s ec evs1"
    using record_class_event [OF st(1)] by blast
  obtain evs2 where e2: "r' = fold (apply_event lt) evs2 r1" "\<forall>ec \<in> set ecs. class_recorded rt op sv s ec evs2"
    using Cons.IH [OF st(2)] by blast
  have "\<forall>x \<in> set (ec # ecs). class_recorded rt op sv s x (evs1 @ evs2)"
    using class_recorded_mono [OF e1(2)] class_recorded_mono e2(2) by (metis list.set_intros set_ConsD Un_upper1 Un_upper2 set_append)
  then show ?case using e1(1) e2(1) by (intro exI [of _ "evs1 @ evs2"]) simp
qed (auto intro: exI [of _ "[]"])

lemma resolve_same:
  assumes "resolve_launch_domain_and_store_projections lt core op sv rt s = Inr (rt', s')"
  shows "sg_assignments s' = sg_assignments s"
    "\<exists>r. rfoldM (record_class_domain lt rt op sv s) (sv_classes sv) empty_resolver = Inr r \<and>
       resolve_launch_domain r = Inr (sg_launch_domain s')"
proof -
  obtain r d where r: "rfoldM (record_class_domain lt rt op sv s) (sv_classes sv) empty_resolver = Inr r" "resolve_launch_domain r = Inr d"
    "(case d of None \<Rightarrow> Inr (rt, set_launch_domain None s)
      | Some d \<Rightarrow> rfoldM (project_class core op d) (sv_classes sv) (rt, set_launch_domain (Some d) s)) = Inr (rt', s')"
    using assms by (auto simp: resolve_launch_domain_and_store_projections_def rbind_eq_Inr)
  have "same_strategy (set_launch_domain d s) s'"
  proof (cases d)
    case None
    then show ?thesis using r(3) by (simp add: same_strategy_def)
  next
    case (Some x)
    have "rfoldM (project_class core op x) (sv_classes sv) (rt, set_launch_domain (Some x) s) = Inr (rt', s')"
      using r(3) by (simp add: Some)
    from same_strategy_fold [where f = "project_class core op x" and g = snd, OF project_class_same this]
    show ?thesis by (simp add: Some)
  qed
  then show "sg_assignments s' = sg_assignments s"
    "\<exists>r. rfoldM (record_class_domain lt rt op sv s) (sv_classes sv) empty_resolver = Inr r \<and>
       resolve_launch_domain r = Inr (sg_launch_domain s')"
    using r by (auto simp: same_strategy_def set_launch_domain_def)
qed

lemma partition_stores_steps:
  assumes "partition_stores max_dim max_fields root lt walk core op sv0 rt = Inr (rt', s)"
  obtains sv symbs rt1 s1 rt2 s2 s3 rt3 where
    "solve_constraints walk (solver_view max_dim rt op) sv0 = Inr sv"
    "set symbs = (\<Union>ec \<in> {ec \<in> set (sv_classes sv). \<not> ec_unbound ec}. set (ec_symbols ec))"
    "sg_assignments s1 = Map.empty" "rfoldM (create_partition_for_symbol root op sv) symbs (rt1, s1) = Inr (rt2, s2)"
    "solve_dependent_constraints (op_store op) sv s2 = Inr s3"
    "resolve_launch_domain_and_store_projections lt core op sv rt2 s3 = Inr (rt3, s)"
    "rt_stores rt2 = rt_stores rt" "rt_storages rt2 = rt_storages rt"
proof -
  obtain sv where sv: "solve_constraints walk (solver_view max_dim rt op) sv0 = Inr sv"
    using assms by (auto simp: partition_stores_def rbind_eq_Inr)
  obtain remaining rt1 s1 where f: "create_fields_for_unbound_stores max_fields op sv rt empty_strategy = Inr (remaining, rt1, s1)"
    using assms sv by (auto simp: partition_stores_def rbind_eq_Inr)
  obtain rt2 s3 where c: "create_partition_for_bound_stores root op remaining sv rt1 s1 = Inr (rt2, s3)"
    using assms sv f by (auto simp: partition_stores_def rbind_eq_Inr)
  obtain rt3 where r: "resolve_launch_domain_and_store_projections lt core op sv rt2 s3 = Inr (rt3, s)"
    using assms sv f c by (auto simp: partition_stores_def rbind_eq_Inr)
  obtain symbs s2 where b: "sort_symbols rt1 op sv remaining = Inr symbs"
    "rfoldM (create_partition_for_symbol root op sv) symbs (rt1, s1) = Inr (rt2, s2)"
    "solve_dependent_constraints (op_store op) sv s2 = Inr s3"
    using c by (auto simp: create_partition_for_bound_stores_def rbind_eq_Inr)
  note k = create_fields_keeps [OF f [unfolded create_fields_for_unbound_stores_def]]
  show thesis
    using that [OF sv _ _ b(2,3) r] k sort_symbols_set [OF b(1)] create_partitions_stores [OF b(2)]
    by (simp add: empty_strategy_def)
qed

section \<open>An example\<close>

text \<open>Two aligned stores of shape 8 x 6 and one of shape 9 x 9, on four CPUs: tiles of 2 x 2 colors.\<close>

definition ex_core :: core_library where
  "ex_core = (let s = \<lambda>b. \<lparr>sc_base = b, sc_size = 100, sc_next = 100\<rparr>
     in \<lparr>lib_name = ''legate.core'', lib_tasks = s 1, lib_redops = s 200, lib_projections = s 300,
          lib_shardings = s 500, lib_mapper = 0, lib_default_options = Map.empty, lib_task_infos = Map.empty\<rparr>)"

definition ex_storage :: "u64 list \<Rightarrow> storage" where
  "ex_storage es = \<lparr>so_kind = REGION_FIELD, so_unbound = False, so_shape = ReadyShape es, so_level = 0, so_parent = None,
     so_color = [], so_offsets = map (\<lambda>_. 0) es, so_num_pieces = 0, so_key_partition = None\<rparr>"

definition ex_lstore :: "u64 list \<Rightarrow> nat \<Rightarrow> logical_store" where
  "ex_lstore es a = \<lparr>ls_type = PrimitiveType INT64, ls_shape = ReadyShape es, ls_storage = a, ls_transform = [],
     ls_non_transformable = False, ls_domain = None, ls_num_pieces = 0, ls_key_partition = None\<rparr>"

definition ex_op :: operation where
  "ex_op = \<lparr>op_store = (\<lambda>v. nat (var_id v)),
     op_machine = mk_machine [CPU \<mapsto> \<lparr>pr_low = 0, pr_high = 4, pr_per_node = 4\<rparr>],
     op_policy = mk_parallel_policy 1 1 1, op_supports_replicated_write = False\<rparr>"

definition ex_runtime :: runtime where
  "ex_runtime = \<lparr>rt_storages = map ex_storage [[8, 6], [8, 6], [9, 9]],
     rt_stores = [ex_lstore [8, 6] 0, ex_lstore [8, 6] 1, ex_lstore [9, 9] 2],
     rt_cache = Map.empty, rt_projections = empty_projections, rt_field_spaces = 0, rt_fields = [],
     rt_index_spaces = Map.empty, rt_next_index_space = 0\<rparr>"

definition ex_aligned :: solver where
  "ex_aligned = add_constraint (Alignment (ex_var 0) (ex_var 1))
     (add_partition_symbol (ex_var 2) READ (add_partition_symbol (ex_var 1) READ
       (add_partition_symbol (ex_var 0) WRITE empty_solver)))"

definition ex_run :: "(runtime \<times> strategy) result" where
  "ex_run = partition_stores 4 100 (\<lambda>_ _. (2, 2)) (\<lambda>_ _. False) sorted_list_of_set ex_core ex_op ex_aligned ex_runtime"

lemma ex_run_parallel:
  "\<exists>rt s. ex_run = Inr (rt, s) \<and> sg_launch_domain s = Some \<lparr>dom_lo = [0, 0], dom_hi = [1, 1]\<rparr>"
proof -
  have "case ex_run of Inr (rt, s) \<Rightarrow> sg_launch_domain s = Some \<lparr>dom_lo = [0, 0], dom_hi = [1, 1]\<rparr> | Inl e \<Rightarrow> False"
    by code_simp
  then show ?thesis by (auto split: sum.splits)
qed

lemma ex_aligned_simps:
  "sv_symbols ex_aligned = [ex_var 0, ex_var 1, ex_var 2]" "sv_constraints ex_aligned = [Alignment (ex_var 0) (ex_var 1)]"
  "sv_class_map ex_aligned = Map.empty" "sv_dependent ex_aligned = Map.empty"
  by (simp_all add: ex_aligned_def add_constraint_def add_partition_symbol_def empty_solver_def ordered_set_insert_def ex_var_def)

text \<open>A launch domain that is given is one of the recorded ones, or has their volume.\<close>

lemma reference_launch_fits:
  assumes "reference_launch_domain evs = Inr (Some d)"
  shows "Sequential \<notin> set evs"
    "Launch D \<in> set evs \<Longrightarrow> d = D \<or> d = \<lparr>dom_lo = [0], dom_hi = [sint (domain_volume D - 1)]\<rparr>"
proof -
  obtain x xs where l: "launches evs = x # xs" using assms by (auto simp: reference_launch_domain_def split: list.splits)
  then have *: "Sequential \<notin> set evs" "all_equal (map domain_volume (x # xs))"
    using assms by (auto simp: reference_launch_domain_def split: if_splits)
  then show "Sequential \<notin> set evs" by blast
  assume "Launch D \<in> set evs"
  then have "D \<in> set (launches evs)" by (force simp: launches_def List.map_filter_def)
  then have D: "D \<in> set (x # xs)" using l by simp
  show "d = D \<or> d = \<lparr>dom_lo = [0], dom_hi = [sint (domain_volume D - 1)]\<rparr>"
  proof (cases "all_equal (x # xs)")
    case True
    then have "d = x" using assms l * by (auto simp: reference_launch_domain_def split: if_splits)
    then show ?thesis using True D by (auto simp: all_equal_def)
  next
    case False
    then have "d = \<lparr>dom_lo = [0], dom_hi = [sint (domain_volume x - 1)]\<rparr>"
      using assms l * by (auto simp: reference_launch_domain_def rguard_eq_Inr split: if_splits)
    moreover have "domain_volume D = domain_volume x" using *(2) D by (auto simp: all_equal_def)
    ultimately show ?thesis by simp
  qed
qed

section \<open>Properties\<close>

text \<open>C8: Bound stores that a chain of alignments connects are partitioned alike: when \<open>Partitioner::partition_stores\<close>
  succeeds, every symbol that a bound store is registered under and that no image, scaling or bloating constraint
  defines gets a partition, and all symbols aligned with it get that very partition. (Unbound stores, and symbols that
  such a constraint defines, are excluded: they may get a partition of their own.)\<close>

theorem aligned_stores_share_partition:
  assumes "partition_stores max_dim max_fields root lt walk core op sv rt = Inr (rt', s)"
    "distinct (sv_symbols sv)" "sv_class_map sv = Map.empty" "sv_dependent sv = Map.empty" "walk_ok walk"
    "a \<in> set (sv_symbols sv)" "\<not> Solver.ls_unbound (solver_view max_dim rt op a)"
    "\<forall>c \<in> set (sv_constraints sv). dependent_symbol c \<noteq> Some a"
  shows "\<exists>p. \<forall>b \<in> set (sv_symbols sv). (a, b) \<in> must_align (sv_constraints sv) \<longrightarrow> sg_assignments s b = Some p"
proof -
  obtain sv' symbs rt1 s1 rt2 s2 s3 rt3 where st: "solve_constraints walk (solver_view max_dim rt op) sv = Inr sv'"
    and sy: "set symbs = (\<Union>ec \<in> {ec \<in> set (sv_classes sv'). \<not> ec_unbound ec}. set (ec_symbols ec))"
    and s1: "sg_assignments s1 = Map.empty" and loop: "rfoldM (create_partition_for_symbol root op sv') symbs (rt1, s1) = Inr (rt2, s2)"
    and dep: "solve_dependent_constraints (op_store op) sv' s2 = Inr s3"
    and res: "resolve_launch_domain_and_store_projections lt core op sv' rt2 s3 = Inr (rt3, s)"
    by (rule partition_stores_steps [OF assms(1)])
  note cls = solved_class [OF st assms(2,3,5)]
  obtain ec where ec: "ec \<in> set (sv_classes sv')" "find_class sv' a = Inr ec" "\<not> ec_unbound ec"
    "set (ec_symbols ec) = {b \<in> set (sv_symbols sv). (a, b) \<in> must_align (sv_constraints sv)}"
    "\<forall>b \<in> set (ec_symbols ec). find_class sv' b = Inr ec"
    by (rule cls [OF assms(6)]) (use assms(7) in blast)
  let ?vs = "ec_symbols ec"
  have av: "a \<in> set ?vs" unfolding ec(4) using assms(6) by (simp add: must_align_def)
  have eq: "find_equivalence_class sv' v = Inr (ec_symbols e)" if "find_class sv' v = Inr e" for v e
    using that by (simp add: find_equivalence_class_def)
  have vs: "\<forall>v \<in> set ?vs. find_equivalence_class sv' v = Inr ?vs" using ec(5) eq by blast
  have members: "symb \<in> set ws \<and> (\<forall>w \<in> set ws. find_equivalence_class sv' w = Inr ws)"
    if "symb \<in> set (sv_symbols sv)" "find_equivalence_class sv' symb = Inr ws" for symb ws
  proof (rule cls [OF that(1)])
    fix e assume e: "find_class sv' symb = Inr e"
      "set (ec_symbols e) = {b \<in> set (sv_symbols sv). (symb, b) \<in> must_align (sv_constraints sv)}"
      "\<forall>b \<in> set (ec_symbols e). find_class sv' b = Inr e"
    then have "ws = ec_symbols e" using that(2) eq by simp
    then show ?thesis using e(2,3) that(1) eq by (auto simp: must_align_def)
  qed
  have registered: "set symbs \<subseteq> set (sv_symbols sv)" unfolding sy by (rule solved_classes_registered [OF st assms(2,3,5)])
  have uni: "class_uniform ?vs s1" using s1 by (simp add: class_uniform_def)
  have all: "\<forall>symb \<in> set symbs. \<forall>ws. find_equivalence_class sv' symb = Inr ws \<longrightarrow>
      symb \<in> set ws \<and> (\<forall>w \<in> set ws. find_equivalence_class sv' w = Inr ws)" using members registered by blast
  note l = create_partitions_loop [OF loop uni vs all]
  have "is_dependent sv' a \<noteq> Inr True" using solved_independent [OF st assms(4) _ assms(8)] by blast
  moreover have "a \<in> set symbs" unfolding sy using ec(1,3) av by blast
  ultimately have "sg_assignments s2 a \<noteq> None" using l av by blast
  then obtain p where p: "\<forall>w \<in> set ?vs. sg_assignments s2 w = Some p" using class_uniform_assigned l av by blast
  then have "\<forall>w \<in> set ?vs. sg_assignments s w = Some p"
    using solve_dependent_keeps [OF dep [unfolded solve_dependent_constraints_def]] resolve_same(1) [OF res] by simp
  then show ?thesis unfolding ec(4) by blast
qed

theorem aligned_stores_share_partition_witness:
  "\<exists>rt s p. ex_run = Inr (rt, s) \<and> sg_assignments s (ex_var 0) = Some p \<and> sg_assignments s (ex_var 1) = Some p"
proof -
  obtain rt s where run: "ex_run = Inr (rt, s)" using ex_run_parallel by blast
  have "(ex_var 0, ex_var 0) \<in> must_align (sv_constraints ex_aligned)" "(ex_var 0, ex_var 1) \<in> must_align (sv_constraints ex_aligned)"
    by (auto simp: must_align_def alignments_def ex_aligned_simps)
  moreover have "\<not> Solver.ls_unbound (solver_view 4 ex_runtime ex_op (ex_var 0))" "distinct (sv_symbols ex_aligned)"
    by code_simp+
  ultimately have "\<exists>p. sg_assignments s (ex_var 0) = Some p \<and> sg_assignments s (ex_var 1) = Some p"
    using aligned_stores_share_partition [OF run [unfolded ex_run_def], of "ex_var 0"] ex_walk by (auto simp: ex_aligned_simps)
  then show ?thesis using run by blast
qed

text \<open>C22: A parallel launch fits the partition of the store that each class starts with. When
  \<open>Partitioner::partition_stores\<close> gives a launch domain, the first store of a class of aligned stores is, unless it is
  unbound, partitioned over that very launch domain (after the dimensions the class must not split are dropped) or,
  when the domains of the classes have different shapes, over one of the volume of the linearized launch domain; if it
  is not partitioned, it is not written or the operation supports replicated writes. (Nothing is said of whether the
  other stores of the class are written: \<open>written_member_replicated\<close> below.)\<close>

theorem launch_domain_fits_partitions:
  assumes "partition_stores max_dim max_fields root lt walk core op sv rt = Inr (rt', s)" "sg_launch_domain s = Some d"
    "solve_constraints walk (solver_view max_dim rt op) sv = Inr sv'" "ec \<in> set (sv_classes sv')"
    "ec_symbols ec = v # vs" "op_find_store rt op v = Inr st" "\<not> so_deferred_bound (rt_storages rt ! ls_storage st)"
  shows "\<exists>p. sg_assignments s v = Some p \<and>
    (if p_has_launch_domain p
     then \<exists>D D'. p_launch_domain p = Inr (Some D) \<and>
       (if ec_has_restrictions ec then prune_domain (ec_restrictions ec) D else Inr D) = Inr D' \<and>
       (d = D' \<or> d = \<lparr>dom_lo = [0], dom_hi = [sint (domain_volume D' - 1)]\<rparr>)
     else op_supports_replicated_write op \<or> is_output sv' v = Inr False)"
proof -
  obtain sv'' symbs rt1 s1 rt2 s2 s3 rt3 where "solve_constraints walk (solver_view max_dim rt op) sv = Inr sv''"
    and "resolve_launch_domain_and_store_projections lt core op sv'' rt2 s3 = Inr (rt3, s)"
    and same: "rt_stores rt2 = rt_stores rt" "rt_storages rt2 = rt_storages rt"
    by (rule partition_stores_steps [OF assms(1)])
  then have res: "resolve_launch_domain_and_store_projections lt core op sv' rt2 s3 = Inr (rt3, s)" using assms(3) by simp
  obtain r where r: "rfoldM (record_class_domain lt rt2 op sv' s3) (sv_classes sv') empty_resolver = Inr r"
    "resolve_launch_domain r = Inr (Some d)" using resolve_same(2) [OF res] assms(2) by auto
  obtain evs where evs: "r = fold (apply_event lt) evs empty_resolver" "class_recorded rt2 op sv' s3 ec evs"
    using record_classes_events [OF r(1)] assms(4) by blast
  have ref: "reference_launch_domain evs = Inr (Some d)"
    using r(2) resolve_reference [OF resolver_inv_fold] by (simp add: evs(1))
  have "op_find_store rt2 op v = Inr st" "\<not> so_deferred_bound (rt_storages rt2 ! ls_storage st)"
    using assms(6,7) same by (simp_all add: op_find_store_def)
  then obtain p where p: "sg_assignments s v = Some p"
    "if p_has_launch_domain p
     then \<exists>D D'. p_launch_domain p = Inr (Some D) \<and>
       (if ec_has_restrictions ec then prune_domain (ec_restrictions ec) D else Inr D) = Inr D' \<and> Launch D' \<in> set evs
     else op_supports_replicated_write op \<or> is_output sv' v = Inr False \<or> Sequential \<in> set evs"
    using evs(2) assms(5) resolve_same(1) [OF res] unfolding class_recorded_def by auto
  then show ?thesis using reference_launch_fits [OF ref] by (auto split: if_splits)
qed

theorem launch_domain_fits_partitions_witness:
  "\<exists>rt s p D. ex_run = Inr (rt, s) \<and> sg_launch_domain s = Some \<lparr>dom_lo = [0, 0], dom_hi = [1, 1]\<rparr> \<and>
     sg_assignments s (ex_var 0) = Some p \<and> p_launch_domain p = Inr (Some D) \<and>
     (\<lparr>dom_lo = [0, 0], dom_hi = [1, 1]\<rparr> = D \<or> \<lparr>dom_lo = [0, 0], dom_hi = [1, 1]\<rparr> = \<lparr>dom_lo = [0], dom_hi = [sint (domain_volume D - 1)]\<rparr>)"
proof -
  obtain rt s where run: "ex_run = Inr (rt, s)" "sg_launch_domain s = Some \<lparr>dom_lo = [0, 0], dom_hi = [1, 1]\<rparr>"
    using ex_run_parallel by blast
  have "case solve_constraints sorted_list_of_set (solver_view 4 ex_runtime ex_op) ex_aligned of Inl e \<Rightarrow> False
      | Inr sv \<Rightarrow> (case sv_classes sv of [] \<Rightarrow> False
          | ec # ecs \<Rightarrow> ec_symbols ec = [ex_var 0, ex_var 1] \<and> \<not> ec_has_restrictions ec \<and> is_output sv (ex_var 0) = Inr True)"
    by code_simp
  then obtain sv ec ecs where sv: "solve_constraints sorted_list_of_set (solver_view 4 ex_runtime ex_op) ex_aligned = Inr sv"
    "sv_classes sv = ec # ecs" "ec_symbols ec = [ex_var 0, ex_var 1]" "\<not> ec_has_restrictions ec" "is_output sv (ex_var 0) = Inr True"
    by (auto split: sum.splits list.splits)
  have st: "op_find_store ex_runtime ex_op (ex_var 0) = Inr (ex_lstore [8, 6] 0)"
    "\<not> so_deferred_bound (rt_storages ex_runtime ! ls_storage (ex_lstore [8, 6] 0))" "\<not> op_supports_replicated_write ex_op"
    by code_simp+
  show ?thesis
    using launch_domain_fits_partitions [OF run(1) [unfolded ex_run_def] run(2) sv(1) _ sv(3) st(1,2)] run sv(2,4,5) st(3)
    by (auto split: if_splits)
qed

section \<open>What the partitioner does not check\<close>

text \<open>Whether a store is written is only asked of the first store of its class: a store of one element that is written
  and aligned with one that is read first is replicated in a parallel launch.\<close>

definition ex_read_first :: solver where
  "ex_read_first = add_constraint (Alignment (ex_var 0) (ex_var 1))
     (add_partition_symbol (ex_var 2) READ (add_partition_symbol (ex_var 1) WRITE
       (add_partition_symbol (ex_var 0) READ empty_solver)))"

definition ex_small_runtime :: runtime where
  "ex_small_runtime = ex_runtime\<lparr>rt_storages := map ex_storage [[1, 1], [1, 1], [9, 9]],
     rt_stores := [ex_lstore [1, 1] 0, ex_lstore [1, 1] 1, ex_lstore [9, 9] 2]\<rparr>"

lemma written_member_replicated:
  "\<not> op_supports_replicated_write ex_op \<and> is_output ex_read_first (ex_var 1) = Inr True \<and>
   (\<exists>rt s. partition_stores 4 100 (\<lambda>_ _. (2, 2)) (\<lambda>_ _. False) sorted_list_of_set ex_core ex_op ex_read_first ex_small_runtime = Inr (rt, s) \<and>
      sg_launch_domain s = Some \<lparr>dom_lo = [0, 0], dom_hi = [1, 1]\<rparr> \<and> sg_assignments s (ex_var 1) = Some NoPartition)"
proof -
  have "case partition_stores 4 100 (\<lambda>_ _. (2, 2)) (\<lambda>_ _. False) sorted_list_of_set ex_core ex_op ex_read_first ex_small_runtime of
      Inr (rt, s) \<Rightarrow> sg_launch_domain s = Some \<lparr>dom_lo = [0, 0], dom_hi = [1, 1]\<rparr> \<and> sg_assignments s (ex_var 1) = Some NoPartition
    | Inl e \<Rightarrow> False"
    by code_simp
  moreover have "is_output ex_read_first (ex_var 1) = Inr True" by code_simp
  ultimately show ?thesis by (auto simp: ex_op_def split: sum.splits)
qed

end
