(* ===== verification/Streaming.thy ===== *)
theory Streaming
  imports Partitioner StoreAnalyzer
begin

text \<open>
  The scheduling window of the runtime and the analysis of streaming scopes: \<open>submit\<close>,
  \<open>flush_scheduling_window\<close>, \<open>schedule_\<close> and \<open>clear_scheduling_window\<close> of runtime/detail/runtime.cc, and
  runtime/detail/streaming.

  \<^item> An operation is a \<open>win_op\<close>: its kind, the arguments of a task, and what the virtual functions of its class
    return. Stores, storages and variables are those of the theories \<open>Stores\<close> and \<open>Partitioner\<close>; the strategy of
    an operation comes from \<open>partition_stores\<close>.
  \<^item> The region field of a storage, whether a store is mapped, and the volume Legion gives for the invalid domain
    are in \<open>stream_env\<close>, with the parameters of \<open>partition_stores\<close>. \<open>op->validate()\<close> comes before \<open>submit\<close>.
  \<^item> A launch is a record in \<open>ws_launched\<close>: what a launch adds to the window is not modelled, so a flush within a
    flush does not occur. The messages for the user (\<open>StreamingErrorContext\<close>) and logging are left out.
\<close>

section \<open>Operations of the window\<close>

datatype op_kind =
    OpAttach | OpAutoTask | OpCopy | OpDiscard | OpExecutionFence | OpFill | OpGather | OpIndexAttach | OpManualTask
  | OpMappingFence | OpPhysicalTask | OpReduce | OpReleaseRegionField | OpScatter | OpScatterGather | OpTiming

record task_arg =
  ta_store :: nat
  ta_variable :: variable
  ta_privilege :: u32

text \<open>\<open>wo_stores\<close> are the stores of an operation other than a task, \<open>wo_discard\<close> is the field and the region of
  a \<open>Discard\<close>, \<open>wo_strategy\<close> the strategy that a \<open>ManualTask\<close> builds itself, \<open>wo_state_used\<close> tells for
  \<open>ReleaseRegionField\<close> that the physical region exists or that there are callbacks.\<close>

record win_op =
  wo_id :: nat
  wo_kind :: op_kind
  wo_inputs :: "task_arg list"
  wo_outputs :: "task_arg list"
  wo_reductions :: "task_arg list"
  wo_input_stores :: "variable list"
  wo_output_stores :: "variable list"
  wo_reduction_stores :: "variable list"
  wo_stores :: "nat list"
  wo_operation :: operation
  wo_solver :: solver
  wo_strategy :: strategy
  wo_discard :: "nat \<times> nat"
  wo_can_throw :: bool
  wo_block :: bool
  wo_state_used :: bool
  wo_generation :: "(u32 \<times> u32) option"

record stream_env =
  se_max_dim :: u32
  se_max_fields :: nat
  se_root :: "u64 \<Rightarrow> u64 \<Rightarrow> u64 \<times> u64"
  se_lt :: "domain \<Rightarrow> domain \<Rightarrow> bool"
  se_walk :: "nat set \<Rightarrow> nat list"
  se_core :: core_library
  se_mapped :: "nat \<Rightarrow> bool"
  se_region_field :: "nat \<Rightarrow> (nat \<times> nat) option"
  se_invalid_volume :: u64
  se_privileges :: privileges

definition is_logical_task :: "win_op \<Rightarrow> bool" where
  "is_logical_task op \<longleftrightarrow> wo_kind op = OpAutoTask \<or> wo_kind op = OpManualTask"

definition is_task :: "win_op \<Rightarrow> bool" where
  "is_task op \<longleftrightarrow> is_logical_task op \<or> wo_kind op = OpPhysicalTask"

definition is_fence :: "win_op \<Rightarrow> bool" where
  "is_fence op \<longleftrightarrow> wo_kind op = OpExecutionFence \<or> wo_kind op = OpMappingFence"

fun needs_partitioning :: "op_kind \<Rightarrow> bool" where
  "needs_partitioning OpAutoTask = True"
| "needs_partitioning OpCopy = True"
| "needs_partitioning OpFill = True"
| "needs_partitioning OpGather = True"
| "needs_partitioning OpReduce = True"
| "needs_partitioning OpScatter = True"
| "needs_partitioning OpScatterGather = True"
| "needs_partitioning _ = False"

definition task_needs_flush :: "stream_env \<Rightarrow> win_op \<Rightarrow> bool" where
  "task_needs_flush E op \<longleftrightarrow>
     wo_can_throw op \<or> (\<exists>arg \<in> set (wo_inputs op). se_mapped E (ta_store arg)) \<or>
     (\<exists>arg \<in> set (wo_outputs op). se_mapped E (ta_store arg)) \<or> (\<exists>arg \<in> set (wo_reductions op). se_mapped E (ta_store arg))"

definition needs_flush :: "stream_env \<Rightarrow> win_op \<Rightarrow> bool" where
  "needs_flush E op \<longleftrightarrow>
     (if is_task op then task_needs_flush E op
      else if needs_partitioning (wo_kind op) then \<exists>st \<in> set (wo_stores op). se_mapped E st
      else wo_kind op = OpExecutionFence \<and> wo_block op)"

fun supports_streaming :: "win_op \<Rightarrow> bool" where
  "supports_streaming op =
     (case wo_kind op of
        OpDiscard \<Rightarrow> True
      | OpManualTask \<Rightarrow> True
      | OpReleaseRegionField \<Rightarrow> \<not> wo_state_used op
      | k \<Rightarrow> needs_partitioning k)"

definition set_streaming_generation :: "(u32 \<times> u32) option \<Rightarrow> win_op \<Rightarrow> win_op" where
  "set_streaming_generation g op = op\<lparr>wo_generation := g\<rparr>"

section \<open>The strategy of an operation\<close>

definition partition_op :: "stream_env \<Rightarrow> win_op \<Rightarrow> runtime \<Rightarrow> (runtime \<times> strategy) result" where
  "partition_op E op rt =
     partition_stores (se_max_dim E) (se_max_fields E) (se_root E) (se_lt E) (se_walk E) (se_core E)
       (wo_operation op) (wo_solver op) rt"

text \<open>\<open>get_strategy\<close> of analysis.cc, with its assertion that the operation was made in a streaming scope.\<close>

definition get_strategy :: "stream_env \<Rightarrow> win_op \<Rightarrow> runtime \<Rightarrow> (runtime \<times> strategy option) result" where
  "get_strategy E op rt =
     rguard (streaming (op_policy (wo_operation op))) CheckFailed
       (if needs_partitioning (wo_kind op) then rbind (partition_op E op rt) (\<lambda>(rt, s). Inr (rt, Some s))
        else Inr (rt, if wo_kind op = OpManualTask then Some (wo_strategy op) else None))"

section \<open>The checks of a streaming scope\<close>

text \<open>\<open>ai_op\<close> only serves the messages. A store is known by the address of its root storage.\<close>

record access_info =
  ai_op :: win_op
  ai_partition :: partition
  ai_mode :: access_mode

record checkers =
  ck_launch_domain :: "domain option option"
  ck_accesses :: "nat \<Rightarrow> access_info option"

definition new_checkers :: checkers where
  "new_checkers = \<lparr>ck_launch_domain = None, ck_accesses = Map.empty\<rparr>"

definition disallowed_op_streamable :: "stream_env \<Rightarrow> win_op \<Rightarrow> bool" where
  "disallowed_op_streamable E op \<longleftrightarrow> \<not> (needs_flush E op \<or> \<not> supports_streaming op)"

definition ls_volume :: "logical_store \<Rightarrow> u64 result" where
  "ls_volume st = shape_volume (ls_shape st)"

text \<open>\<open>std::all_of\<close> over the stores of an operation, with a test that may throw.\<close>

definition all_scalar :: "runtime \<Rightarrow> win_op \<Rightarrow> variable list \<Rightarrow> bool result" where
  "all_scalar rt op vs =
     rbind (rany (\<lambda>v. rbind (op_find_store rt (wo_operation op) v) (\<lambda>st. rbind (ls_volume st) (\<lambda>n. Inr (n \<noteq> 1)))) vs)
       (\<lambda>b. Inr (\<not> b))"

definition single_point :: "domain option \<Rightarrow> bool" where
  "single_point d \<longleftrightarrow> (case d of None \<Rightarrow> False | Some d \<Rightarrow> get_dim d = 1 \<and> domain_volume d = 1)"

definition launch_domain_streamable ::
  "runtime \<Rightarrow> win_op \<Rightarrow> strategy option \<Rightarrow> checkers \<Rightarrow> (bool \<times> checkers) result" where
  "launch_domain_streamable rt op s ck =
     (case s of
        None \<Rightarrow> Inr (True, ck)
      | Some s \<Rightarrow>
          (let op_ld = sg_launch_domain s
           in rbind (if single_point op_ld \<and> wo_reduction_stores op = []
                     then rbind (all_scalar rt op (wo_input_stores op)) (\<lambda>b.
                            if b then all_scalar rt op (wo_output_stores op) else Inr False)
                     else Inr False) (\<lambda>bypass.
                if bypass then Inr (True, ck)
                else (case ck_launch_domain ck of
                        None \<Rightarrow> Inr (True, ck\<lparr>ck_launch_domain := Some op_ld\<rparr>)
                      | Some ld \<Rightarrow> Inr (op_ld = ld, ck)))))"

definition is_equal_tiling :: "tiling \<Rightarrow> tiling \<Rightarrow> bool" where
  "is_equal_tiling a b \<longleftrightarrow> tl_tile_shape a = tl_tile_shape b \<and> tl_color_shape a = tl_color_shape b"

fun have_equal_partitioning :: "partition \<Rightarrow> partition \<Rightarrow> bool" where
  "have_equal_partitioning NoPartition NoPartition = True"
| "have_equal_partitioning (PTiling a) (PTiling b) = is_equal_tiling a b"
| "have_equal_partitioning _ _ = False"

definition get_partition :: "strategy \<Rightarrow> variable \<Rightarrow> logical_store \<Rightarrow> partition" where
  "get_partition s v st =
     (case sg_assignments s v of
        Some p \<Rightarrow> p
      | None \<Rightarrow> (case ls_key_partition st of Some p \<Rightarrow> p | None \<Rightarrow> NoPartition))"

definition launch_volume :: "stream_env \<Rightarrow> strategy \<Rightarrow> u64" where
  "launch_volume E s = (case sg_launch_domain s of None \<Rightarrow> se_invalid_volume E | Some d \<Rightarrow> domain_volume d)"

text \<open>The store of an argument, its root storage, and the access it makes.\<close>

definition access_of :: "runtime \<Rightarrow> win_op \<Rightarrow> strategy \<Rightarrow> access_mode \<Rightarrow> variable \<Rightarrow> (logical_store \<times> nat \<times> access_info) result" where
  "access_of rt op s mode v =
     rbind (op_find_store rt (wo_operation op) v) (\<lambda>st. rbind (get_root (rt_storages rt) (ls_storage st)) (\<lambda>root.
       Inr (st, root, \<lparr>ai_op = op, ai_partition = get_partition s v st, ai_mode = mode\<rparr>)))"

definition record_access :: "nat \<Rightarrow> access_info \<Rightarrow> checkers \<Rightarrow> checkers" where
  "record_access root info ck = ck\<lparr>ck_accesses := (ck_accesses ck)(root \<mapsto> info)\<rparr>"

fun analyze_inputs :: "stream_env \<Rightarrow> runtime \<Rightarrow> win_op \<Rightarrow> strategy \<Rightarrow> variable list \<Rightarrow> checkers \<Rightarrow> (bool \<times> checkers) result" where
  "analyze_inputs E rt op s [] ck = Inr (True, ck)"
| "analyze_inputs E rt op s (v # vs) ck =
     rbind (access_of rt op s READ v) (\<lambda>(st, root, info).
       case ck_accesses ck root of
         None \<Rightarrow> analyze_inputs E rt op s vs (record_access root info ck)
       | Some prev \<Rightarrow>
           (if ai_mode prev = access_mode.REDUCE
            then rbind (ls_volume st) (\<lambda>n.
                   if n = 1 \<and> launch_volume E s = 1 then analyze_inputs E rt op s vs ck else Inr (False, ck))
            else if have_equal_partitioning (ai_partition prev) (ai_partition info)
            then analyze_inputs E rt op s vs (record_access root info ck)
            else Inr (False, ck)))"

fun analyze_outputs :: "runtime \<Rightarrow> win_op \<Rightarrow> strategy \<Rightarrow> variable list \<Rightarrow> checkers \<Rightarrow> (bool \<times> checkers) result" where
  "analyze_outputs rt op s [] ck = Inr (True, ck)"
| "analyze_outputs rt op s (v # vs) ck =
     rbind (access_of rt op s WRITE v) (\<lambda>(st, root, info).
       case ck_accesses ck root of
         None \<Rightarrow> analyze_outputs rt op s vs (record_access root info ck)
       | Some prev \<Rightarrow>
           (if ai_mode prev \<noteq> access_mode.REDUCE \<and> have_equal_partitioning (ai_partition prev) (ai_partition info)
            then analyze_outputs rt op s vs (record_access root info ck)
            else Inr (False, ck)))"

fun analyze_reductions :: "runtime \<Rightarrow> win_op \<Rightarrow> strategy \<Rightarrow> variable list \<Rightarrow> checkers \<Rightarrow> (bool \<times> checkers) result" where
  "analyze_reductions rt op s [] ck = Inr (True, ck)"
| "analyze_reductions rt op s (v # vs) ck =
     rbind (access_of rt op s access_mode.REDUCE v) (\<lambda>(st, root, info).
       case ck_accesses ck root of
         None \<Rightarrow> analyze_reductions rt op s vs (record_access root info ck)
       | Some prev \<Rightarrow>
           (if ai_mode prev \<noteq> access_mode.REDUCE \<and> have_equal_partitioning (ai_partition prev) (ai_partition info)
            then analyze_reductions rt op s vs (record_access root info ck)
            else Inr (False, ck)))"

definition and_then :: "(checkers \<Rightarrow> (bool \<times> checkers) result) \<Rightarrow> (checkers \<Rightarrow> (bool \<times> checkers) result) \<Rightarrow>
    checkers \<Rightarrow> (bool \<times> checkers) result" where
  "and_then f g ck = rbind (f ck) (\<lambda>(b, ck). if b then g ck else Inr (False, ck))"

definition dependencies_streamable ::
  "stream_env \<Rightarrow> runtime \<Rightarrow> win_op \<Rightarrow> strategy option \<Rightarrow> checkers \<Rightarrow> (bool \<times> checkers) result" where
  "dependencies_streamable E rt op s ck =
     (case s of
        None \<Rightarrow> Inr (True, ck)
      | Some s \<Rightarrow>
          and_then (analyze_inputs E rt op s (wo_input_stores op))
            (and_then (analyze_outputs rt op s (wo_output_stores op))
              (analyze_reductions rt op s (wo_reduction_stores op))) ck)"

definition check_one_op :: "stream_env \<Rightarrow> runtime \<Rightarrow> win_op \<Rightarrow> strategy option \<Rightarrow> checkers \<Rightarrow> (bool \<times> checkers) result" where
  "check_one_op E rt op s =
     and_then (\<lambda>ck. Inr (disallowed_op_streamable E op, ck))
       (and_then (launch_domain_streamable rt op s) (dependencies_streamable E rt op s))"

section \<open>The streamable prefix\<close>

definition mapping_fence :: "nat \<Rightarrow> win_op" where
  "mapping_fence i =
     \<lparr>wo_id = i, wo_kind = OpMappingFence, wo_inputs = [], wo_outputs = [], wo_reductions = [], wo_input_stores = [],
      wo_output_stores = [], wo_reduction_stores = [], wo_stores = [],
      wo_operation = \<lparr>op_store = (\<lambda>_. 0), op_machine = mk_machine Map.empty, op_policy = mk_parallel_policy 0 0 0,
        op_supports_replicated_write = False\<rparr>,
      wo_solver = empty_solver, wo_strategy = empty_strategy, wo_discard = (0, 0), wo_can_throw = False, wo_block = False,
      wo_state_used = False, wo_generation = None\<rparr>"

fun prefix_loop :: "stream_env \<Rightarrow> win_op list \<Rightarrow> win_op list \<Rightarrow> checkers \<Rightarrow> runtime \<Rightarrow>
    (win_op list \<times> win_op list \<times> runtime) result" where
  "prefix_loop E prefix [] ck rt = Inr (prefix, [], rt)"
| "prefix_loop E prefix (op # ops) ck rt =
     rbind (get_strategy E op rt) (\<lambda>(rt, s). rbind (check_one_op E rt op s ck) (\<lambda>(ok, ck).
       if ok then prefix_loop E (prefix @ [op]) ops ck rt
       else if prefix = [] \<or> wo_kind op = OpMappingFence then Inr (prefix @ [op], ops, rt)
       else Inr (prefix, op # ops, rt)))"

definition extract_streamable_prefix_impl ::
  "stream_env \<Rightarrow> win_op list \<Rightarrow> nat \<Rightarrow> runtime \<Rightarrow> (win_op list \<times> win_op list \<times> nat \<times> runtime) result" where
  "extract_streamable_prefix_impl E ops next_id rt =
     rguard (ops \<noteq> []) CheckFailed (rbind (prefix_loop E [] ops new_checkers rt) (\<lambda>(prefix, rest, rt).
       rguard (prefix \<noteq> []) CheckFailed
         (if wo_kind (last prefix) \<noteq> OpMappingFence
          then Inr (prefix @ [mapping_fence next_id], rest, next_id + 1, rt)
          else Inr (prefix, rest, next_id, rt))))"

section \<open>Streaming generations\<close>

definition is_singleton_task :: "win_op \<Rightarrow> bool" where
  "is_singleton_task op \<longleftrightarrow> wo_kind op = OpManualTask \<and> single_point (sg_launch_domain (wo_strategy op))"

text \<open>The loop of \<open>get_generation_size\<close>: a task without a generation must not follow one that has one.
  A \<open>PhysicalTask\<close> is no \<open>LogicalTask\<close>, which the loop asserts.\<close>

fun generation_size_loop :: "win_op list \<Rightarrow> bool \<Rightarrow> u32 \<Rightarrow> u32 result" where
  "generation_size_loop [] finalized n = Inr n"
| "generation_size_loop (op # ops) finalized n =
     (if \<not> is_task op then generation_size_loop ops finalized n
      else rguard (is_logical_task op) CheckFailed
        (if wo_generation op \<noteq> None then generation_size_loop ops True n
         else rguard (\<not> finalized) CheckFailed
           (generation_size_loop ops finalized (if is_singleton_task op then n else n + 1))))"

definition get_generation_size :: "win_op list \<Rightarrow> u32 result" where
  "get_generation_size ops = generation_size_loop ops False 0"

text \<open>The loop of \<open>assign_streaming_generation\<close> over the reversed queue: \<open>seen\<close> are the operations it has passed,
  \<open>last_set\<close> is the position of the operation that was assigned last.\<close>

fun assign_loop :: "u32 \<times> u32 \<Rightarrow> nat \<Rightarrow> nat \<Rightarrow> win_op list \<Rightarrow> win_op list \<Rightarrow> win_op list" where
  "assign_loop g fence_id last_set seen [] = seen"
| "assign_loop g fence_id last_set seen (op # ops) =
     (if \<not> is_logical_task op then assign_loop g fence_id last_set (seen @ [op]) ops
      else if wo_generation op \<noteq> None
      then (if list_ex is_fence (drop last_set seen) then seen @ op # ops
            else (let all = seen @ op # ops in take (last_set + 1) all @ mapping_fence fence_id # drop (last_set + 1) all))
      else if is_singleton_task op then assign_loop g fence_id last_set (seen @ [op]) ops
      else assign_loop g fence_id (length seen) (seen @ [set_streaming_generation (Some g) op]) ops)"

definition assign_streaming_generation :: "u32 \<Rightarrow> u32 \<Rightarrow> nat \<Rightarrow> win_op list \<Rightarrow> win_op list" where
  "assign_streaming_generation generation n fence_id ops = rev (assign_loop (generation, n) fence_id 0 [] (rev ops))"

definition process_streaming_run :: "u32 \<Rightarrow> nat \<Rightarrow> win_op list \<Rightarrow> win_op list result" where
  "process_streaming_run generation fence_id ops =
     rbind (get_generation_size ops) (\<lambda>n. Inr (assign_streaming_generation generation n fence_id ops))"

section \<open>Discards within a streaming scope\<close>

text \<open>The discards found so far: the field and region of each with its position in the queue; and the positions of
  the discards that a task takes over. \<open>emplace\<close> keeps an entry that is there.\<close>

type_synonym discards = "((nat \<times> nat) \<times> nat) list \<times> nat list"

definition emplace_discard :: "nat \<times> nat \<Rightarrow> nat \<Rightarrow> discards \<Rightarrow> discards" where
  "emplace_discard key i d =
     (case d of (regions, handled) \<Rightarrow> (if map_of regions key = None then (key, i) # regions else regions, handled))"

definition maybe_update_task_discards ::
  "stream_env \<Rightarrow> runtime \<Rightarrow> task_arg \<Rightarrow> discards \<Rightarrow> (task_arg \<times> discards) result" where
  "maybe_update_task_discards E rt arg d =
     (case d of (regions, handled) \<Rightarrow>
        rbind (vec_get (rt_stores rt) (ta_store arg)) (\<lambda>st. rbind (vec_get (rt_storages rt) (ls_storage st)) (\<lambda>sto.
          if so_kind sto \<noteq> REGION_FIELD then Inr (arg, d)
          else rguard (\<not> so_unbound sto) CheckFailed
            (case se_region_field E (ls_storage st) of
               None \<Rightarrow> Inl CheckFailed
             | Some key \<Rightarrow>
                 (case map_of regions key of
                    None \<Rightarrow> Inr (arg, d)
                  | Some i \<Rightarrow>
                      Inr (arg\<lparr>ta_privilege := ta_privilege arg OR DISCARD_OUTPUT_MASK (se_privileges E)\<rparr>,
                        filter (\<lambda>(k, _). k \<noteq> key) regions, handled @ [i]))))))"

fun scan_args :: "stream_env \<Rightarrow> runtime \<Rightarrow> task_arg list \<Rightarrow> discards \<Rightarrow> (task_arg list \<times> discards \<times> bool) result" where
  "scan_args E rt [] d = Inr ([], d, False)"
| "scan_args E rt (arg # args) d =
     rbind (maybe_update_task_discards E rt arg d) (\<lambda>(arg, d).
       if fst d = [] then Inr (arg # args, d, True)
       else rbind (scan_args E rt args d) (\<lambda>(args, d, stop). Inr (arg # args, d, stop)))"

definition scan_task_discards :: "stream_env \<Rightarrow> runtime \<Rightarrow> win_op \<Rightarrow> discards \<Rightarrow> (win_op \<times> discards) result" where
  "scan_task_discards E rt op d =
     rbind (scan_args E rt (wo_inputs op) d) (\<lambda>(args, d, stop).
       let op = op\<lparr>wo_inputs := args\<rparr>
       in if stop then Inr (op, d)
          else rbind (scan_args E rt (wo_outputs op) d) (\<lambda>(args, d, stop).
            let op = op\<lparr>wo_outputs := args\<rparr>
            in if stop then Inr (op, d)
               else rbind (scan_args E rt (wo_reductions op) d) (\<lambda>(args, d, stop).
                 Inr (op\<lparr>wo_reductions := args\<rparr>, d))))"

text \<open>The loop over the reversed queue: the position of an operation is the number of operations before it.\<close>

fun forward_propagate_loop :: "stream_env \<Rightarrow> runtime \<Rightarrow> win_op list \<Rightarrow> discards \<Rightarrow> (win_op list \<times> discards) result" where
  "forward_propagate_loop E rt [] d = Inr ([], d)"
| "forward_propagate_loop E rt (op # ops) d =
     rbind (if wo_kind op = OpDiscard then Inr (op, emplace_discard (wo_discard op) (length ops) d)
            else if is_task op then rguard (is_logical_task op) CheckFailed (scan_task_discards E rt op d)
            else Inr (op, d)) (\<lambda>(op, d).
       rbind (forward_propagate_loop E rt ops d) (\<lambda>(ops, d). Inr (op # ops, d)))"

definition forward_propagate_discards :: "stream_env \<Rightarrow> runtime \<Rightarrow> win_op list \<Rightarrow> (win_op list \<times> nat list) result" where
  "forward_propagate_discards E rt ops =
     rbind (forward_propagate_loop E rt (rev ops) ([], [])) (\<lambda>(rops, regions, handled). Inr (rev rops, handled))"

definition prune_handled_discard_ops :: "nat list \<Rightarrow> win_op list \<Rightarrow> win_op list result" where
  "prune_handled_discard_ops discard_ops ops =
     rfoldM (\<lambda>i ops. rguard (i < length ops \<and> wo_kind (ops ! i) = OpDiscard) CheckFailed (vec_erase i ops))
       (rev (sort discard_ops)) ops"

definition forward_propagate_and_prune_discards :: "stream_env \<Rightarrow> runtime \<Rightarrow> win_op list \<Rightarrow> win_op list result" where
  "forward_propagate_and_prune_discards E rt ops =
     rbind (forward_propagate_discards E rt ops) (\<lambda>(ops, handled). prune_handled_discard_ops handled ops)"

section \<open>The scheduling window\<close>

text \<open>\<open>ws_launched\<close> are the launched operations with the strategy that \<open>schedule_\<close> passes; \<open>ws_mode\<close> and
  \<open>ws_window_size\<close> are the parallel policy and the window size of the current scope.\<close>

record window =
  ws_ops :: "win_op list"
  ws_launched :: "(win_op \<times> strategy option) list"
  ws_next_op_id :: nat
  ws_generation :: u32
  ws_runtime :: runtime
  ws_mode :: streaming_mode
  ws_window_size :: nat

definition ws_streaming :: "window \<Rightarrow> bool" where
  "ws_streaming w \<longleftrightarrow> ws_mode w \<noteq> STREAM_OFF"

definition clear_scheduling_window :: "window \<Rightarrow> window" where
  "clear_scheduling_window w = w\<lparr>ws_ops := []\<rparr>"

text \<open>\<open>schedule_\<close> launches the operations of a queue in turn; an exception leaves the rest in the queue.\<close>

fun schedule_ops :: "stream_env \<Rightarrow> win_op list \<Rightarrow> window \<Rightarrow> win_op list \<times> window \<times> error option" where
  "schedule_ops E [] w = ([], w, None)"
| "schedule_ops E (op # ops) w =
     (if \<not> needs_partitioning (wo_kind op) then schedule_ops E ops (w\<lparr>ws_launched := ws_launched w @ [(op, None)]\<rparr>)
      else (case partition_op E op (ws_runtime w) of
              Inl e \<Rightarrow> (ops, w, Some e)
            | Inr (rt, s) \<Rightarrow> schedule_ops E ops (w\<lparr>ws_runtime := rt, ws_launched := ws_launched w @ [(op, Some s)]\<rparr>)))"

definition extract_streamable_prefix ::
  "stream_env \<Rightarrow> win_op list \<Rightarrow> window \<Rightarrow> (win_op list \<times> win_op list \<times> window) result" where
  "extract_streamable_prefix E ops w =
     (if ops = [] then Inr ([], [], w)
      else rbind (extract_streamable_prefix_impl E ops (ws_next_op_id w) (ws_runtime w)) (\<lambda>(prefix, rest, next_id, rt).
        rguard (prefix \<noteq> []) CheckFailed
          (rguard (ws_mode w \<noteq> STREAM_STRICT \<or> rest = []) InvalidArgument
            (rbind (process_streaming_run (ws_generation w + 1) next_id prefix) (\<lambda>run.
              Inr (run, rest, w\<lparr>ws_next_op_id := next_id + (length run - length prefix), ws_runtime := rt,
                ws_generation := ws_generation w + 1\<rparr>))))))"

lemma prefix_loop_shrinks: "prefix_loop E prefix ops ck rt = Inr (prefix', rest, rt') \<Longrightarrow>
    \<exists>taken. prefix' = prefix @ taken \<and> ops = taken @ rest \<and> (prefix = [] \<longrightarrow> ops \<noteq> [] \<longrightarrow> taken \<noteq> [])"
proof (induction ops arbitrary: prefix ck rt)
  case (Cons op ops)
  obtain rt1 s ok ck1 where c: "get_strategy E op rt = Inr (rt1, s)" "check_one_op E rt1 op s ck = Inr (ok, ck1)"
    using Cons.prems by (auto simp: rbind_eq_Inr)
  show ?case
  proof (cases ok)
    case True
    then have "prefix_loop E (prefix @ [op]) ops ck1 rt1 = Inr (prefix', rest, rt')" using Cons.prems c by simp
    from Cons.IH [OF this] show ?thesis by auto
  qed (use Cons.prems c in \<open>auto split: if_splits\<close>)
qed simp

lemma extract_shrinks:
  "extract_streamable_prefix E ops w = Inr (run, rest, w') \<Longrightarrow> ops \<noteq> [] \<Longrightarrow> length rest < length ops"
  by (auto simp: extract_streamable_prefix_def extract_streamable_prefix_impl_def rbind_eq_Inr rguard_eq_Inr
      dest!: prefix_loop_shrinks split: if_splits)

function flush_streaming :: "stream_env \<Rightarrow> win_op list \<Rightarrow> window \<Rightarrow> window \<times> error option" where
  "flush_streaming E ops w =
     (if ops = [] then (clear_scheduling_window w, None)
      else (case extract_streamable_prefix E ops w of
              Inl e \<Rightarrow> (clear_scheduling_window w, Some e)
            | Inr (run, rest, w) \<Rightarrow>
                (case schedule_ops E run w of
                   (left, w, None) \<Rightarrow> flush_streaming E rest w
                 | (left, w, Some e) \<Rightarrow> (w\<lparr>ws_ops := rest\<rparr>, Some e))))"
  by pat_completeness auto
termination by (relation "measure (\<lambda>(E, ops, w). length ops)") (auto dest: extract_shrinks)

definition flush_scheduling_window :: "stream_env \<Rightarrow> bool \<Rightarrow> window \<Rightarrow> window \<times> error option" where
  "flush_scheduling_window E streaming_scope_change w =
     (if ws_streaming w
      then (if ws_mode w = STREAM_STRICT \<and> \<not> streaming_scope_change then (clear_scheduling_window w, Some InvalidArgument)
            else (case forward_propagate_and_prune_discards E (ws_runtime w) (ws_ops w) of
                    Inl e \<Rightarrow> (w, Some e)
                  | Inr ops \<Rightarrow> flush_streaming E ops w))
      else (case schedule_ops E (ws_ops w) w of (left, w, e) \<Rightarrow> (w\<lparr>ws_ops := left\<rparr>, e)))"

definition submit :: "stream_env \<Rightarrow> win_op \<Rightarrow> window \<Rightarrow> window \<times> error option" where
  "submit E op w =
     (let w = w\<lparr>ws_ops := ws_ops w @ [op]\<rparr>;
          win_too_big = (\<not> ws_streaming w \<and> ws_window_size w \<le> length (ws_ops w))
      in if needs_flush E op \<or> win_too_big then flush_scheduling_window E False w else (w, None))"

end
