(* ===== verification/StreamingDiscards.thy ===== *)
theory StreamingDiscards
  imports Streaming PartitionerCorrect
begin

text \<open>
  The discards of a streaming scope: moving a discard into the last task that uses its field leaves the uses and
  discards of every field as they are.
\<close>

declare split_paired_All [simp del] split_paired_Ex [simp del]

section \<open>Removing the handled discards\<close>

lemma nths_erase: "i < length xs \<Longrightarrow> S \<subseteq> {..<i} \<Longrightarrow>
    nths (take i xs @ drop (Suc i) xs) (- S) = nths xs (- insert i S)"
proof -
  assume i: "i < length xs" and S: "S \<subseteq> {..<i}"
  have xs: "xs = take i xs @ xs ! i # drop (Suc i) xs" using i by (simp add: id_take_nth_drop)
  have keep: "nths ys {j. j + k \<in> - A} = ys" if "A \<subseteq> {..<k}" for ys :: "'a list" and k A
    using that by (intro nths_all) auto
  have S': "insert i S \<subseteq> {..<Suc i}" using S by auto
  have "nths xs (- insert i S) = nths (take i xs) (- insert i S) @ nths (xs ! i # drop (Suc i) xs) {j. j + i \<in> - insert i S}"
    using i by (subst xs, subst nths_append) simp
  moreover have "nths (take i xs) (- insert i S) = nths (take i xs) (- S)"
    unfolding nths_def by (intro arg_cong [where f = "map fst"] filter_cong) (use i in \<open>auto dest: set_zip_rightD\<close>)
  moreover have "nths (xs ! i # drop (Suc i) xs) {j. j + i \<in> - insert i S} = drop (Suc i) xs"
    using keep [OF S', of "drop (Suc i) xs"] by (simp add: nths_Cons)
  moreover have "nths (take i xs @ drop (Suc i) xs) (- S) = nths (take i xs) (- S) @ drop (Suc i) xs"
    using i keep [OF S] by (simp add: nths_append)
  ultimately show ?thesis by simp
qed

definition handled_ok :: "win_op list \<Rightarrow> nat list \<Rightarrow> bool" where
  "handled_ok ops hs \<longleftrightarrow> (\<forall>i \<in> set hs. i < length ops \<and> wo_kind (ops ! i) = OpDiscard)"

lemma prune_nths:
  "sorted_wrt (>) hs \<Longrightarrow> handled_ok ops hs \<Longrightarrow>
     rfoldM (\<lambda>i ops. rguard (i < length ops \<and> wo_kind (ops ! i) = OpDiscard) CheckFailed (vec_erase i ops)) hs ops
       = Inr (nths ops (- set hs))"
proof (induction hs arbitrary: ops)
  case (Cons i hs)
  let ?ops = "take i ops @ drop (Suc i) ops"
  have i: "i < length ops" "wo_kind (ops ! i) = OpDiscard" using Cons.prems(2) by (auto simp: handled_ok_def)
  have "handled_ok ?ops hs"
    using Cons.prems by (fastforce simp: handled_ok_def nth_append)
  from Cons.IH [OF _ this] show ?case using Cons.prems(1) i nths_erase [OF i(1), of "set hs"] by auto
qed (simp add: nths_all)

lemma prune_handled_eq:
  assumes "distinct hs" "handled_ok ops hs"
  shows "prune_handled_discard_ops hs ops = Inr (nths ops (- set hs))"
proof -
  have "sorted_wrt (<) (sort hs)" using assms(1) by (simp add: strict_sorted_iff)
  then have "sorted_wrt (>) (rev (sort hs))" by (simp add: sorted_wrt_rev)
  then show ?thesis using prune_nths [of "rev (sort hs)" ops] assms(2)
    by (simp add: prune_handled_discard_ops_def handled_ok_def)
qed

section \<open>Scanning the arguments of a task\<close>

definition arg_key :: "stream_env \<Rightarrow> runtime \<Rightarrow> task_arg \<Rightarrow> (nat \<times> nat) option" where
  "arg_key E rt arg =
     (case rbind (vec_get (rt_stores rt) (ta_store arg)) (\<lambda>st. vec_get (rt_storages rt) (ls_storage st)) of
        Inl e \<Rightarrow> None
      | Inr sto \<Rightarrow> if so_kind sto = REGION_FIELD then se_region_field E (ls_storage (rt_stores rt ! ta_store arg)) else None)"

lemma arg_key_cong: "ta_store a = ta_store b \<Longrightarrow> arg_key E rt a = arg_key E rt b"
proof -
  assume a: "ta_store a = ta_store b"
  show ?thesis unfolding arg_key_def a ..
qed

definition masked :: "stream_env \<Rightarrow> task_arg \<Rightarrow> bool" where
  "masked E arg \<longleftrightarrow> has_privilege (ta_privilege arg) (DISCARD_OUTPUT_MASK (se_privileges E))"

definition uses_key :: "stream_env \<Rightarrow> runtime \<Rightarrow> nat \<times> nat \<Rightarrow> task_arg list \<Rightarrow> bool" where
  "uses_key E rt key args \<longleftrightarrow> (\<exists>arg \<in> set args. arg_key E rt arg = Some key)"

definition masks_key :: "stream_env \<Rightarrow> runtime \<Rightarrow> nat \<times> nat \<Rightarrow> task_arg list \<Rightarrow> bool" where
  "masks_key E rt key args \<longleftrightarrow> (\<exists>arg \<in> set args. arg_key E rt arg = Some key \<and> masked E arg)"

text \<open>\<open>scanned\<close> relates the arguments and the discards found before a scan to those after it: every discard of a
  field that is used is taken over, and nothing else changes.\<close>

definition scanned :: "stream_env \<Rightarrow> runtime \<Rightarrow> task_arg list \<Rightarrow> task_arg list \<Rightarrow>
    ((nat \<times> nat) \<times> nat) list \<Rightarrow> ((nat \<times> nat) \<times> nat) list \<Rightarrow> nat list \<Rightarrow> bool" where
  "scanned E rt args args' r r' taken \<longleftrightarrow>
     list_all2 (\<lambda>a a'. a'\<lparr>ta_privilege := 0\<rparr> = a\<lparr>ta_privilege := 0\<rparr> \<and> arg_key E rt a' = arg_key E rt a) args args' \<and>
     set taken = {i. \<exists>k. map_of r k = Some i \<and> map_of r' k = None} \<and> distinct taken \<and>
     (\<forall>k. if uses_key E rt k args \<and> map_of r k \<noteq> None then map_of r' k = None \<and> masks_key E rt k args'
          else map_of r' k = map_of r k \<and> masks_key E rt k args' = masks_key E rt k args)"

definition positions_distinct :: "((nat \<times> nat) \<times> nat) list \<Rightarrow> bool" where
  "positions_distinct r \<longleftrightarrow> (\<forall>k k' i. map_of r k = Some i \<longrightarrow> map_of r k' = Some i \<longrightarrow> k = k')"

lemma scanned_refl: "r = [] \<or> args = [] \<Longrightarrow> scanned E rt args args r r []"
  by (auto simp: scanned_def list_all2_same uses_key_def)

lemma scanned_keys:
  assumes "scanned E rt args args' r r' taken"
  shows "uses_key E rt k args' = uses_key E rt k args"
proof -
  have "list_all2 (\<lambda>a a'. arg_key E rt a' = arg_key E rt a) args args'"
    using assms by (auto simp: scanned_def elim: list_all2_mono)
  then show ?thesis unfolding uses_key_def by (induction rule: list_all2_induct) auto
qed

lemma scanned_positions: "scanned E rt args args' r r' taken \<Longrightarrow> positions_distinct r \<Longrightarrow> positions_distinct r'"
  unfolding scanned_def positions_distinct_def by (metis option.distinct(1))

lemma scanned_append:
  assumes a: "scanned E rt args args' r r1 t1" and b: "scanned E rt bs bs' r1 r2 t2" and r: "positions_distinct r"
  shows "scanned E rt (args @ bs) (args' @ bs') r r2 (t1 @ t2)"
proof -
  have ka: "if uses_key E rt k args \<and> map_of r k \<noteq> None then map_of r1 k = None \<and> masks_key E rt k args'
        else map_of r1 k = map_of r k \<and> masks_key E rt k args' = masks_key E rt k args" for k
    using a unfolding scanned_def by blast
  have kb: "if uses_key E rt k bs \<and> map_of r1 k \<noteq> None then map_of r2 k = None \<and> masks_key E rt k bs'
        else map_of r2 k = map_of r1 k \<and> masks_key E rt k bs' = masks_key E rt k bs" for k
    using b unfolding scanned_def by blast
  have app: "uses_key E rt k (xs @ ys) \<longleftrightarrow> uses_key E rt k xs \<or> uses_key E rt k ys"
    "masks_key E rt k (xs @ ys) \<longleftrightarrow> masks_key E rt k xs \<or> masks_key E rt k ys" for k xs ys
    by (auto simp: uses_key_def masks_key_def)
  have uses: "masks_key E rt k xs \<Longrightarrow> uses_key E rt k xs" for k xs by (auto simp: uses_key_def masks_key_def)
  have key: "if uses_key E rt k (args @ bs) \<and> map_of r k \<noteq> None then map_of r2 k = None \<and> masks_key E rt k (args' @ bs')
        else map_of r2 k = map_of r k \<and> masks_key E rt k (args' @ bs') = masks_key E rt k (args @ bs)" for k
    using ka [of k] kb [of k] unfolding app by (auto split: if_splits)
  have t: "set t1 = {i. \<exists>k. map_of r k = Some i \<and> map_of r1 k = None}"
    "set t2 = {i. \<exists>k. map_of r1 k = Some i \<and> map_of r2 k = None}" "distinct t1" "distinct t2"
    using a b by (auto simp: scanned_def)
  have mono: "map_of r1 k = Some i \<Longrightarrow> map_of r k = Some i" for k i using ka [of k] by (auto split: if_splits)
  have mono2: "map_of r1 k = None \<Longrightarrow> map_of r2 k = None" for k using kb [of k] by (auto split: if_splits)
  have "set (t1 @ t2) = {i. \<exists>k. map_of r k = Some i \<and> map_of r2 k = None}"
  proof (intro set_eqI iffI)
    fix i assume "i \<in> set (t1 @ t2)"
    then show "i \<in> {i. \<exists>k. map_of r k = Some i \<and> map_of r2 k = None}"
      unfolding set_append t(1,2) using mono mono2 by blast
  next
    fix i assume "i \<in> {i. \<exists>k. map_of r k = Some i \<and> map_of r2 k = None}"
    then obtain k where k: "map_of r k = Some i" "map_of r2 k = None" by blast
    show "i \<in> set (t1 @ t2)"
    proof (cases "map_of r1 k")
      case None
      then have "i \<in> set t1" unfolding t(1) using k by blast
      then show ?thesis by simp
    next
      case (Some j)
      then have "j = i" using mono k(1) by fastforce
      then have "i \<in> set t2" unfolding t(2) using k Some by blast
      then show ?thesis by simp
    qed
  qed
  moreover have "distinct (t1 @ t2)"
  proof -
    have False if mem: "i \<in> set t1" "i \<in> set t2" for i
    proof -
      obtain k where k: "map_of r k = Some i" "map_of r1 k = None" using mem(1) unfolding t(1) by blast
      obtain k' where k': "map_of r1 k' = Some i" using mem(2) unfolding t(2) by blast
      have "k = k'" using r k(1) mono [OF k'] unfolding positions_distinct_def by blast
      then show False using k(2) k' by simp
    qed
    then show ?thesis using t(3,4) by auto
  qed
  moreover have "list_all2 (\<lambda>a a'. a'\<lparr>ta_privilege := 0\<rparr> = a\<lparr>ta_privilege := 0\<rparr> \<and> arg_key E rt a' = arg_key E rt a)
      (args @ bs) (args' @ bs')" using a b by (auto simp: scanned_def intro!: list_all2_appendI)
  ultimately show ?thesis using key unfolding scanned_def by blast
qed

lemma map_of_filter_key: "map_of (filter (\<lambda>(k, _). k \<noteq> key) r) = (map_of r)(key := None)"
  by (induction r) (auto simp: fun_eq_iff)

lemma masked_or: "masked E (arg\<lparr>ta_privilege := p OR DISCARD_OUTPUT_MASK (se_privileges E)\<rparr>)"
  by (simp add: masked_def has_privilege_def bit_eq_iff bit_and_iff bit_or_iff)

lemma maybe_update_scanned:
  assumes "maybe_update_task_discards E rt arg (r, hs) = Inr (arg', d)" "positions_distinct r"
  shows "\<exists>r' t. d = (r', hs @ t) \<and> scanned E rt [arg] [arg'] r r' t"
proof -
  obtain st sto where st: "vec_get (rt_stores rt) (ta_store arg) = Inr st" "vec_get (rt_storages rt) (ls_storage st) = Inr sto"
    using assms(1) by (auto simp: maybe_update_task_discards_def rbind_eq_Inr)
  then have nth: "rt_stores rt ! ta_store arg = st" by (simp add: vec_get_eq_Inr)
  have same: "scanned E rt [arg] [arg] r r []" if "\<forall>k. arg_key E rt arg = Some k \<longrightarrow> map_of r k = None"
    using that by (auto simp: scanned_def uses_key_def)
  show ?thesis
  proof (cases "so_kind sto = REGION_FIELD")
    case False
    then have "arg' = arg" "d = (r, hs)" "arg_key E rt arg = None" using assms(1) st by (auto simp: maybe_update_task_discards_def arg_key_def)
    then show ?thesis using same by auto
  next
    case True
    then obtain key where key: "se_region_field E (ls_storage st) = Some key"
      using assms(1) st by (auto simp: maybe_update_task_discards_def rguard_eq_Inr split: option.splits)
    then have ak: "arg_key E rt arg = Some key" using st nth True by (simp add: arg_key_def)
    show ?thesis
    proof (cases "map_of r key")
      case None
      then have "arg' = arg" "d = (r, hs)" using assms(1) st True key by (auto simp: maybe_update_task_discards_def rguard_eq_Inr)
      then show ?thesis using same None ak by auto
    next
      case (Some i)
      then have d: "arg' = arg\<lparr>ta_privilege := ta_privilege arg OR DISCARD_OUTPUT_MASK (se_privileges E)\<rparr>"
        "d = (filter (\<lambda>(k, _). k \<noteq> key) r, hs @ [i])"
        using assms(1) st True key by (auto simp: maybe_update_task_discards_def rguard_eq_Inr)
      have ak': "arg_key E rt arg' = Some key" using ak arg_key_cong [of arg' arg] by (simp add: d(1))
      have m: "masked E arg'" using d(1) masked_or by simp
      have "{j. \<exists>k. map_of r k = Some j \<and> ((map_of r)(key := None)) k = None} = {i}"
        using Some by (auto simp del: split_paired_Ex split: if_splits intro: exI [of _ key])
      then have "scanned E rt [arg] [arg'] r (filter (\<lambda>(k, _). k \<noteq> key) r) [i]"
        using ak ak' m Some unfolding scanned_def map_of_filter_key uses_key_def masks_key_def by (simp add: d(1))
      then show ?thesis using d(2) by blast
    qed
  qed
qed

lemma scan_args_scanned:
  "scan_args E rt args (r, hs) = Inr (args', d, stop) \<Longrightarrow> positions_distinct r \<Longrightarrow>
     \<exists>r' t. d = (r', hs @ t) \<and> scanned E rt args args' r r' t \<and> (stop \<longrightarrow> r' = [])"
proof (induction args arbitrary: r hs args' d stop)
  case Nil
  then show ?case using scanned_refl by auto
next
  case (Cons arg args)
  obtain arg1 d1 where u: "maybe_update_task_discards E rt arg (r, hs) = Inr (arg1, d1)"
    using Cons.prems(1) by (auto simp: rbind_eq_Inr)
  obtain r1 t1 where s1: "d1 = (r1, hs @ t1)" "scanned E rt [arg] [arg1] r r1 t1"
    using maybe_update_scanned [OF u Cons.prems(2)] by blast
  show ?case
  proof (cases "r1 = []")
    case True
    then have "args' = [arg1] @ args" "d = (r1, hs @ (t1 @ []))" "stop" using Cons.prems(1) u s1 by auto
    moreover have "scanned E rt ([arg] @ args) ([arg1] @ args) r r1 (t1 @ [])"
      by (rule scanned_append [OF s1(2) scanned_refl Cons.prems(2)]) (simp add: True)
    ultimately show ?thesis using True by auto
  next
    case False
    then obtain args2 where s2: "scan_args E rt args (r1, hs @ t1) = Inr (args2, d, stop)" "args' = [arg1] @ args2"
      using Cons.prems(1) u s1(1) by (auto simp: rbind_eq_Inr)
    obtain r2 t2 where "d = (r2, (hs @ t1) @ t2)" "scanned E rt args args2 r1 r2 t2" "stop \<longrightarrow> r2 = []"
      using Cons.IH [OF s2(1) scanned_positions [OF s1(2) Cons.prems(2)]] by blast
    then show ?thesis using scanned_append [OF s1(2) _ Cons.prems(2), of args args2 r2 t2] s2(2) by auto
  qed
qed

definition task_args :: "win_op \<Rightarrow> task_arg list" where
  "task_args op = wo_inputs op @ wo_outputs op @ wo_reductions op"

text \<open>An operation without its privileges.\<close>

definition unmarked :: "win_op \<Rightarrow> win_op" where
  "unmarked op = op\<lparr>wo_inputs := map (\<lambda>a. a\<lparr>ta_privilege := 0\<rparr>) (wo_inputs op),
     wo_outputs := map (\<lambda>a. a\<lparr>ta_privilege := 0\<rparr>) (wo_outputs op),
     wo_reductions := map (\<lambda>a. a\<lparr>ta_privilege := 0\<rparr>) (wo_reductions op)\<rparr>"

lemma scanned_unmarked: "scanned E rt args args' r r' t \<Longrightarrow>
    map (\<lambda>a. a\<lparr>ta_privilege := 0\<rparr>) args' = map (\<lambda>a. a\<lparr>ta_privilege := 0\<rparr>) args"
proof -
  assume "scanned E rt args args' r r' t"
  then have "list_all2 (\<lambda>a a'. a'\<lparr>ta_privilege := 0\<rparr> = a\<lparr>ta_privilege := 0\<rparr>) args args'"
    by (auto simp: scanned_def elim: list_all2_mono)
  then show ?thesis by (induction rule: list_all2_induct) auto
qed

lemma scan_task_scanned:
  assumes "scan_task_discards E rt op (r, hs) = Inr (op', d)" "positions_distinct r"
  shows "\<exists>r' t. d = (r', hs @ t) \<and> scanned E rt (task_args op) (task_args op') r r' t \<and> unmarked op' = unmarked op"
proof -
  obtain as d1 stop1 where s1: "scan_args E rt (wo_inputs op) (r, hs) = Inr (as, d1, stop1)"
    using assms(1) by (auto simp: scan_task_discards_def rbind_eq_Inr)
  obtain r1 t1 where i: "d1 = (r1, hs @ t1)" "scanned E rt (wo_inputs op) as r r1 t1" "stop1 \<longrightarrow> r1 = []"
    using scan_args_scanned [OF s1 assms(2)] by blast
  note p1 = scanned_positions [OF i(2) assms(2)]
  show ?thesis
  proof (cases stop1)
    case True
    then have "op' = op\<lparr>wo_inputs := as\<rparr>" "d = (r1, hs @ (t1 @ []))" using assms(1) s1 i by (auto simp: scan_task_discards_def)
    moreover have "scanned E rt (wo_inputs op @ (wo_outputs op @ wo_reductions op)) (as @ (wo_outputs op @ wo_reductions op)) r r1 (t1 @ [])"
      using scanned_append [OF i(2) scanned_refl assms(2)] i(3) True by auto
    ultimately show ?thesis using scanned_unmarked [OF i(2)] by (auto simp: task_args_def unmarked_def)
  next
    case no1: False
    then obtain bs d2 stop2 where s2: "scan_args E rt (wo_outputs op) (r1, hs @ t1) = Inr (bs, d2, stop2)"
      using assms(1) s1 i by (auto simp: scan_task_discards_def rbind_eq_Inr Let_def)
    obtain r2 t2 where o: "d2 = (r2, (hs @ t1) @ t2)" "scanned E rt (wo_outputs op) bs r1 r2 t2" "stop2 \<longrightarrow> r2 = []"
      using scan_args_scanned [OF s2 p1] by blast
    note p2 = scanned_positions [OF o(2) p1]
    show ?thesis
    proof (cases stop2)
      case True
      then have "op' = op\<lparr>wo_inputs := as, wo_outputs := bs\<rparr>" "d = (r2, hs @ (t1 @ (t2 @ [])))"
        using assms(1) s1 i no1 s2 o by (auto simp: scan_task_discards_def Let_def)
      moreover have "scanned E rt (wo_inputs op @ (wo_outputs op @ wo_reductions op)) (as @ (bs @ wo_reductions op)) r r2 (t1 @ (t2 @ []))"
        using scanned_append [OF i(2) scanned_append [OF o(2) scanned_refl p1] assms(2)] o(3) True by auto
      ultimately show ?thesis using scanned_unmarked [OF i(2)] scanned_unmarked [OF o(2)] by (auto simp: task_args_def unmarked_def)
    next
      case no2: False
      then obtain cs d3 stop3 where s3: "scan_args E rt (wo_reductions op) (r2, (hs @ t1) @ t2) = Inr (cs, d3, stop3)"
        using assms(1) s1 i no1 s2 o by (auto simp: scan_task_discards_def rbind_eq_Inr Let_def)
      obtain r3 t3 where q: "d3 = (r3, ((hs @ t1) @ t2) @ t3)" "scanned E rt (wo_reductions op) cs r2 r3 t3"
        using scan_args_scanned [OF s3 p2] by blast
      have "op' = op\<lparr>wo_inputs := as, wo_outputs := bs, wo_reductions := cs\<rparr>" "d = (r3, hs @ (t1 @ (t2 @ t3)))"
        using assms(1) s1 i no1 s2 o no2 s3 q by (auto simp: scan_task_discards_def Let_def)
      moreover have "scanned E rt (wo_inputs op @ (wo_outputs op @ wo_reductions op)) (as @ (bs @ cs)) r r3 (t1 @ (t2 @ t3))"
        by (rule scanned_append [OF i(2) scanned_append [OF o(2) q(2) p1] assms(2)])
      ultimately show ?thesis using scanned_unmarked [OF i(2)] scanned_unmarked [OF o(2)] scanned_unmarked [OF q(2)]
        by (auto simp: task_args_def unmarked_def)
    qed
  qed
qed

section \<open>The uses and discards of a field\<close>

datatype use_event = TaskUse nat | Discarded

definition key_events :: "stream_env \<Rightarrow> runtime \<Rightarrow> nat \<times> nat \<Rightarrow> win_op \<Rightarrow> use_event list" where
  "key_events E rt key op =
     (if wo_kind op = OpDiscard then (if wo_discard op = key then [Discarded] else [])
      else if is_task op \<and> uses_key E rt key (task_args op)
      then TaskUse (wo_id op) # (if masks_key E rt key (task_args op) then [Discarded] else []) else [])"

definition key_trace :: "stream_env \<Rightarrow> runtime \<Rightarrow> nat \<times> nat \<Rightarrow> win_op list \<Rightarrow> use_event list" where
  "key_trace E rt key ops = concat (map (key_events E rt key) ops)"

lemma key_trace_append [simp]: "key_trace E rt key (xs @ ys) = key_trace E rt key xs @ key_trace E rt key ys"
  by (simp add: key_trace_def)

lemma key_trace_simps [simp]: "key_trace E rt key [] = []" "key_trace E rt key [op] = key_events E rt key op"
  by (simp_all add: key_trace_def)

definition unmasked :: "stream_env \<Rightarrow> win_op \<Rightarrow> bool" where
  "unmasked E op \<longleftrightarrow> list_all (\<lambda>arg. \<not> masked E arg) (task_args op)"

lemma unmarked_keeps: "unmarked op' = unmarked op \<Longrightarrow>
    wo_kind op' = wo_kind op \<and> wo_discard op' = wo_discard op \<and> wo_id op' = wo_id op"
proof -
  assume u: "unmarked op' = unmarked op"
  have "wo_kind (unmarked op) = wo_kind op" "wo_discard (unmarked op) = wo_discard op" "wo_id (unmarked op) = wo_id op" for op
    by (simp_all add: unmarked_def)
  then show ?thesis using u by metis
qed

lemma nths_snoc: "nths (xs @ [x]) (- S) = nths xs (- S) @ (if length xs \<in> S then [] else [x])"
  by (simp add: nths_append)

text \<open>What the loop does to the operations before a position: the discards it takes over are removed, and those of
  the operations behind the position appear at the end of the trace.\<close>

definition propagated :: "stream_env \<Rightarrow> runtime \<Rightarrow> ((nat \<times> nat) \<times> nat) list \<Rightarrow> win_op list \<Rightarrow> win_op list \<Rightarrow> nat list \<Rightarrow> bool" where
  "propagated E rt r ops ops' new \<longleftrightarrow>
     distinct new \<and> map unmarked ops' = map unmarked ops \<and>
     (\<forall>i \<in> set new. if i < length ops then wo_kind (ops ! i) = OpDiscard else \<exists>k. map_of r k = Some i) \<and>
     (\<forall>key. key_trace E rt key (nths ops' (- set new)) =
        key_trace E rt key ops @ (if \<exists>i \<in> set new. map_of r key = Some i then [Discarded] else []))"

lemma propagated_discard:
  assumes p: "propagated E rt (fst (emplace_discard (wo_discard op) (length ops) (r, hs))) ops ops' new"
    and r: "positions_distinct r" "\<forall>k i. map_of r k = Some i \<longrightarrow> length ops < i" and op: "wo_kind op = OpDiscard"
  shows "propagated E rt r (ops @ [op]) (ops' @ [op]) new"
proof -
  let ?k = "wo_discard op" and ?m = "length ops"
  let ?r1 = "fst (emplace_discard ?k ?m (r, hs))"
  have r1: "map_of ?r1 = (if map_of r ?k = None then (map_of r)(?k \<mapsto> ?m) else map_of r)"
    by (simp add: emplace_discard_def)
  have len: "length ops' = ?m" using p map_eq_imp_length_eq by (auto simp: propagated_def)
  have new: "\<forall>i \<in> set new. if i < ?m then wo_kind (ops ! i) = OpDiscard else \<exists>k. map_of ?r1 k = Some i"
    and tr: "\<And>key. key_trace E rt key (nths ops' (- set new)) =
        key_trace E rt key ops @ (if \<exists>i \<in> set new. map_of ?r1 key = Some i then [Discarded] else [])"
    using p by (auto simp: propagated_def)
  have at: "?m \<in> set new \<Longrightarrow> map_of r ?k = None"
    using new r(2) by (fastforce simp: r1 split: if_splits)
  have "if i < length (ops @ [op]) then wo_kind ((ops @ [op]) ! i) = OpDiscard else \<exists>k. map_of r k = Some i" if "i \<in> set new" for i
    using new [rule_format, OF that] op by (auto simp: nth_append r1 split: if_splits)
  moreover have "key_trace E rt key (nths (ops' @ [op]) (- set new)) =
      key_trace E rt key (ops @ [op]) @ (if \<exists>i \<in> set new. map_of r key = Some i then [Discarded] else [])" for key
  proof (cases "key = ?k")
    case False
    then have "key_events E rt key op = []" "map_of ?r1 key = map_of r key" using op by (auto simp: key_events_def r1)
    then show ?thesis using tr [of key] by (simp add: nths_snoc)
  next
    case True
    then have e: "key_events E rt key op = [Discarded]" using op by (simp add: key_events_def)
    show ?thesis
    proof (cases "map_of r ?k = None")
      case none: True
      then have "(\<exists>i \<in> set new. map_of ?r1 key = Some i) \<longleftrightarrow> ?m \<in> set new" "map_of r key = None" using True by (auto simp: r1)
      then show ?thesis using tr [of key] e len by (simp add: nths_snoc)
    next
      case some: False
      then have "?m \<notin> set new" "map_of ?r1 key = map_of r key" using at True by (auto simp: r1)
      then show ?thesis using tr [of key] e len by (simp add: nths_snoc)
    qed
  qed
  moreover have "distinct new" "map unmarked (ops' @ [op]) = map unmarked (ops @ [op])" using p by (auto simp: propagated_def)
  ultimately show ?thesis unfolding propagated_def by blast
qed

lemma propagated_task:
  assumes p: "propagated E rt r1 ops ops' new" and s: "scanned E rt (task_args op) (task_args op') r r1 t"
    and u: "unmarked op' = unmarked op" and op: "is_task op" "unmasked E op"
    and r: "positions_distinct r" "\<forall>k i. map_of r k = Some i \<longrightarrow> length ops < i"
  shows "propagated E rt r (ops @ [op]) (ops' @ [op']) (t @ new)"
proof -
  let ?m = "length ops"
  have len: "length ops' = ?m" using p map_eq_imp_length_eq by (auto simp: propagated_def)
  have new: "\<forall>i \<in> set new. if i < ?m then wo_kind (ops ! i) = OpDiscard else \<exists>k. map_of r1 k = Some i"
    and tr: "\<And>key. key_trace E rt key (nths ops' (- set new)) =
        key_trace E rt key ops @ (if \<exists>i \<in> set new. map_of r1 key = Some i then [Discarded] else [])"
    and d: "distinct new" using p by (auto simp: propagated_def)
  have k: "if uses_key E rt k (task_args op) \<and> map_of r k \<noteq> None then map_of r1 k = None \<and> masks_key E rt k (task_args op')
      else map_of r1 k = map_of r k \<and> masks_key E rt k (task_args op') = masks_key E rt k (task_args op)" for k
    using s unfolding scanned_def by blast
  have t: "set t = {i. \<exists>k. map_of r k = Some i \<and> map_of r1 k = None}" "distinct t" using s unfolding scanned_def by blast+
  have mono: "map_of r1 k = Some i \<Longrightarrow> map_of r k = Some i" for k i using k [of k] by (auto split: if_splits)
  have inj: "map_of r k = Some i \<Longrightarrow> map_of r k' = Some i \<Longrightarrow> k = k'" for k k' i using r(1) unfolding positions_distinct_def by blast
  have tm: "i \<in> set t \<Longrightarrow> ?m < i" for i unfolding t(1) using r(2) by blast
  have tn: "i \<notin> set new" if i: "i \<in> set t" for i
  proof
    assume "i \<in> set new"
    then obtain k' where k': "map_of r1 k' = Some i" using new tm [OF i] by fastforce
    obtain k0 where "map_of r k0 = Some i" "map_of r1 k0 = None" using i unfolding t(1) by blast
    then show False using inj mono [OF k'] k' by fastforce
  qed
  have nm: "?m \<notin> set (t @ new)" using new tm mono r(2) by fastforce
  have same: "nths ops' (- set (t @ new)) = nths ops' (- set new)"
    unfolding nths_def using tm len by (intro arg_cong [where f = "map fst"] filter_cong) (auto dest!: set_zip_rightD dest: tm)
  have "if i < length (ops @ [op]) then wo_kind ((ops @ [op]) ! i) = OpDiscard else \<exists>k. map_of r k = Some i"
    if i: "i \<in> set (t @ new)" for i
  proof (cases "i \<in> set t")
    case True
    then show ?thesis using tm [OF True] unfolding t(1) by auto
  next
    case False
    then have "i \<in> set new" "i \<noteq> ?m" using i nm by auto
    then show ?thesis using new mono by (fastforce simp: nth_append)
  qed
  moreover have "key_trace E rt key (nths (ops' @ [op']) (- set (t @ new))) =
      key_trace E rt key (ops @ [op]) @ (if \<exists>i \<in> set (t @ new). map_of r key = Some i then [Discarded] else [])" for key
  proof -
    have nodisc: "wo_kind op \<noteq> OpDiscard" using op(1) by (auto simp: is_task_def is_logical_task_def)
    have un: "\<not> masks_key E rt key (task_args op)" using op(2) by (auto simp: unmasked_def masks_key_def list_all_iff)
    have keep: "wo_kind op' = wo_kind op" "wo_id op' = wo_id op" "is_task op' = is_task op"
      using unmarked_keeps [OF u] by (auto simp: is_task_def is_logical_task_def)
    have uk: "uses_key E rt key (task_args op') = uses_key E rt key (task_args op)" by (rule scanned_keys [OF s])
    have split: "nths (ops' @ [op']) (- set (t @ new)) = nths ops' (- set new) @ [op']"
      unfolding nths_snoc using nm len same by simp
    show ?thesis
    proof (cases "uses_key E rt key (task_args op) \<and> map_of r key \<noteq> None")
      case True
      then obtain i where i: "map_of r key = Some i" "map_of r1 key = None" using k [of key] by auto
      then have "i \<in> set t" unfolding t(1) by blast
      then show ?thesis using True k [of key] tr [of key] i split nodisc un keep uk op(1) by (auto simp: key_events_def)
    next
      case False
      then have r1: "map_of r1 key = map_of r key" "masks_key E rt key (task_args op') = masks_key E rt key (task_args op)"
        using k [of key] by auto
      have "(\<exists>i \<in> set (t @ new). map_of r key = Some i) \<longleftrightarrow> (\<exists>i \<in> set new. map_of r1 key = Some i)"
      proof
        assume "\<exists>i \<in> set (t @ new). map_of r key = Some i"
        then obtain i where i: "i \<in> set (t @ new)" "map_of r key = Some i" by blast
        have "i \<notin> set t"
        proof
          assume "i \<in> set t"
          then obtain k0 where k0: "map_of r k0 = Some i" "map_of r1 k0 = None" unfolding t(1) by blast
          then have "k0 = key" using inj i(2) by blast
          then show False using k0 r1(1) by simp
        qed
        then show "\<exists>i \<in> set new. map_of r1 key = Some i" using i r1(1) by auto
      qed (use r1(1) in auto)
      moreover have "key_events E rt key op' = key_events E rt key op"
        using nodisc un keep uk r1(2) by (simp add: key_events_def)
      moreover have "key_events E rt key op = [] \<or> map_of r1 key = None" using False r1(1) nodisc by (auto simp: key_events_def)
      ultimately show ?thesis using tr [of key] split by (auto split: if_splits)
    qed
  qed
  moreover have "distinct (t @ new)" using t(2) d tn by auto
  moreover have "map unmarked (ops' @ [op']) = map unmarked (ops @ [op])" using p u by (auto simp: propagated_def)
  ultimately show ?thesis unfolding propagated_def by blast
qed

lemma forward_loop_propagated:
  "forward_propagate_loop E rt rops (r, hs) = Inr (rops', d) \<Longrightarrow> positions_distinct r \<Longrightarrow>
     (\<forall>k i. map_of r k = Some i \<longrightarrow> length rops \<le> i) \<Longrightarrow> list_all (unmasked E) rops \<Longrightarrow>
     \<exists>r' new. d = (r', hs @ new) \<and> propagated E rt r (rev rops) (rev rops') new"
proof (induction rops arbitrary: r hs rops' d)
  case Nil
  then show ?case by (auto simp: propagated_def)
next
  case (Cons op rops)
  have bound: "\<forall>k i. map_of r k = Some i \<longrightarrow> length (rev rops) < i" using Cons.prems(3) by (simp add: Suc_le_eq)
  let ?step = "if wo_kind op = OpDiscard then Inr (op, emplace_discard (wo_discard op) (length rops) (r, hs))
    else if is_task op then rguard (is_logical_task op) CheckFailed (scan_task_discards E rt op (r, hs)) else Inr (op, (r, hs))"
  obtain op1 d1 rops1 where st: "?step = Inr (op1, d1)" "forward_propagate_loop E rt rops d1 = Inr (rops1, d)" "rops' = op1 # rops1"
    using Cons.prems(1) by (auto simp: rbind_eq_Inr split: if_splits)
  consider (discard) "wo_kind op = OpDiscard" | (task) "wo_kind op \<noteq> OpDiscard" "is_task op" | (other) "wo_kind op \<noteq> OpDiscard" "\<not> is_task op"
    by blast
  then show ?case
  proof cases
    case discard
    let ?d = "emplace_discard (wo_discard op) (length rops) (r, hs)"
    have e: "op1 = op" "d1 = (fst ?d, hs)" using st(1) discard by (auto simp: emplace_discard_def)
    have m: "map_of (fst ?d) = (if map_of r (wo_discard op) = None then (map_of r)(wo_discard op \<mapsto> length rops) else map_of r)"
      by (simp add: emplace_discard_def)
    have "positions_distinct (fst ?d)" using Cons.prems(2) bound unfolding positions_distinct_def m by (auto split: if_splits)
    moreover have "\<forall>k i. map_of (fst ?d) k = Some i \<longrightarrow> length rops \<le> i"
    proof (intro allI impI)
      fix k i assume "map_of (fst ?d) k = Some i"
      then have "i = length rops \<or> map_of r k = Some i" unfolding m by (simp split: if_splits)
      then show "length rops \<le> i" using bound by fastforce
    qed
    ultimately obtain r' new where n: "d = (r', hs @ new)" "propagated E rt (fst ?d) (rev rops) (rev rops1) new"
      using Cons.IH [of "fst ?d" hs rops1 d] st(2) e(2) Cons.prems(4) by auto
    have "propagated E rt r (rev rops @ [op]) (rev rops1 @ [op]) new"
      by (rule propagated_discard [OF _ Cons.prems(2) bound discard, where hs = hs]) (use n(2) in simp)
    then show ?thesis using n(1) st(3) e(1) by auto
  next
    case task
    then have "scan_task_discards E rt op (r, hs) = Inr (op1, d1)" using st(1) by (simp add: rguard_eq_Inr)
    from scan_task_scanned [OF this Cons.prems(2)] obtain r1 t where s: "d1 = (r1, hs @ t)"
      "scanned E rt (task_args op) (task_args op1) r r1 t" "unmarked op1 = unmarked op" by blast
    have "map_of r1 k = Some i \<Longrightarrow> map_of r k = Some i" for k i using s(2) unfolding scanned_def by (metis option.distinct(1))
    then have "\<forall>k i. map_of r1 k = Some i \<longrightarrow> length rops \<le> i" using bound by fastforce
    then obtain r' new where n: "d = (r', (hs @ t) @ new)" "propagated E rt r1 (rev rops) (rev rops1) new"
      using Cons.IH [of r1 "hs @ t" rops1 d] st(2) s(1) scanned_positions [OF s(2) Cons.prems(2)] Cons.prems(4) by auto
    have "propagated E rt r (rev rops @ [op]) (rev rops1 @ [op1]) (t @ new)"
      using propagated_task [OF n(2) s(2,3) task(2) _ Cons.prems(2) bound] Cons.prems(4) by simp
    then show ?thesis using n(1) st(3) by auto
  next
    case other
    then have e: "op1 = op" "d1 = (r, hs)" using st(1) by auto
    have "\<forall>k i. map_of r k = Some i \<longrightarrow> length rops \<le> i" using bound by (metis length_rev less_imp_le)
    then obtain r' new where n: "d = (r', hs @ new)" "propagated E rt r (rev rops) (rev rops1) new"
      using Cons.IH [of r hs rops1 d] st(2) e(2) Cons.prems(2,4) by auto
    have len: "length rops1 = length rops" using n(2) map_eq_imp_length_eq by (fastforce simp: propagated_def)
    have none: "key_events E rt key op = []" for key using other by (simp add: key_events_def)
    have "length rops \<notin> set new" using n(2) bound unfolding propagated_def by fastforce
    then have "propagated E rt r (rev rops @ [op]) (rev rops1 @ [op]) new"
      using n(2) len none unfolding propagated_def by (auto simp: nths_snoc nth_append less_Suc_eq)
    then show ?thesis using n(1) st(3) e(1) by auto
  qed
qed

lemma filter_nths:
  "(\<forall>i < length xs. i \<notin> A \<longrightarrow> \<not> P (xs ! i)) \<Longrightarrow> filter P (nths xs A) = filter P xs"
proof (induction xs arbitrary: A)
  case (Cons x xs)
  have "\<forall>i < length xs. i \<notin> {j. Suc j \<in> A} \<longrightarrow> \<not> P (xs ! i)" using Cons.prems by auto
  then show ?case using Cons by (auto simp: nths_Cons)
qed simp

section \<open>All uses of a field\<close>

text \<open>The trace of a field with the uses by the other operations (copies, fills, gathers and so on), which name their
  stores in \<open>wo_stores\<close>.\<close>

datatype field_event = UseByTask nat | UseByOther nat | Discard

fun by_other :: "field_event \<Rightarrow> bool" where
  "by_other (UseByOther i) = True"
| "by_other _ = False"

fun field_event_of :: "use_event \<Rightarrow> field_event" where
  "field_event_of (TaskUse i) = UseByTask i"
| "field_event_of Discarded = Discard"

definition other_use :: "stream_env \<Rightarrow> runtime \<Rightarrow> nat \<times> nat \<Rightarrow> win_op \<Rightarrow> bool" where
  "other_use E rt key op \<longleftrightarrow> wo_kind op \<noteq> OpDiscard \<and> \<not> is_task op \<and>
     (\<exists>a \<in> set (wo_stores op). arg_key E rt \<lparr>ta_store = a, ta_variable = \<lparr>var_operation = 0, var_id = 0\<rparr>, ta_privilege = 0\<rparr> = Some key)"

definition field_events :: "stream_env \<Rightarrow> runtime \<Rightarrow> nat \<times> nat \<Rightarrow> win_op \<Rightarrow> field_event list" where
  "field_events E rt key op =
     (if other_use E rt key op then [UseByOther (wo_id op)] else map field_event_of (key_events E rt key op))"

definition field_trace :: "stream_env \<Rightarrow> runtime \<Rightarrow> nat \<times> nat \<Rightarrow> win_op list \<Rightarrow> field_event list" where
  "field_trace E rt key ops = concat (map (field_events E rt key) ops)"

lemma field_trace_simps [simp]:
  "field_trace E rt key [] = []" "field_trace E rt key (op # ops) = field_events E rt key op @ field_trace E rt key ops"
  by (simp_all add: field_trace_def)

lemma key_trace_Cons: "key_trace E rt key (op # ops) = key_events E rt key op @ key_trace E rt key ops"
  by (simp add: key_trace_def)

lemma not_by_other: "filter (\<lambda>e. \<not> by_other e) (map field_event_of es) = map field_event_of es"
proof (rule filter_True, rule ballI)
  fix e assume "e \<in> set (map field_event_of es)"
  then obtain x where "e = field_event_of x" by auto
  then show "\<not> by_other e" by (cases x) auto
qed

lemma tasks_and_discards:
  "filter (\<lambda>e. \<not> by_other e) (field_trace E rt key ops) = map field_event_of (key_trace E rt key ops)"
  by (induction ops) (auto simp: key_trace_Cons field_events_def not_by_other other_use_def key_events_def)

definition uses_of :: "stream_env \<Rightarrow> runtime \<Rightarrow> nat \<times> nat \<Rightarrow> win_op \<Rightarrow> field_event list" where
  "uses_of E rt key op = filter (\<lambda>e. e \<noteq> Discard) (field_events E rt key op)"

lemma uses_key_map: "uses_key E rt key (map (\<lambda>a. a\<lparr>ta_privilege := 0\<rparr>) args) = uses_key E rt key args"
proof -
  have "arg_key E rt (a\<lparr>ta_privilege := 0\<rparr>) = arg_key E rt a" for a by (rule arg_key_cong) simp
  then show ?thesis by (simp add: uses_key_def)
qed

lemma uses_of_unmarked: "uses_of E rt key (unmarked op) = uses_of E rt key op"
proof -
  have "task_args (unmarked op) = map (\<lambda>a. a\<lparr>ta_privilege := 0\<rparr>) (task_args op)" by (simp add: task_args_def unmarked_def)
  moreover have "wo_kind (unmarked op) = wo_kind op" "wo_id (unmarked op) = wo_id op" "wo_stores (unmarked op) = wo_stores op"
    by (simp_all add: unmarked_def)
  ultimately show ?thesis
    by (simp add: uses_of_def field_events_def other_use_def key_events_def is_task_def is_logical_task_def uses_key_map)
qed

lemma uses_of_discard: "wo_kind op = OpDiscard \<Longrightarrow> uses_of E rt key op = []"
  by (simp add: uses_of_def field_events_def other_use_def key_events_def)

lemma uses_of_trace:
  "filter (\<lambda>e. e \<noteq> Discard) (field_trace E rt key ops) =
     concat (map (uses_of E rt key) (map unmarked (filter (\<lambda>op. wo_kind op \<noteq> OpDiscard) ops)))"
proof (induction ops)
  case (Cons op ops)
  have "filter (\<lambda>e. e \<noteq> Discard) (field_trace E rt key (op # ops)) = uses_of E rt key op @ filter (\<lambda>e. e \<noteq> Discard) (field_trace E rt key ops)"
    by (simp add: uses_of_def)
  then show ?case using Cons.IH by (simp add: uses_of_unmarked uses_of_discard)
qed simp

lemma only_tasks: "\<not> list_ex by_other es \<Longrightarrow> filter (\<lambda>e. \<not> by_other e) es = es"
  by (induction es) auto

text \<open>Traces with the same uses and the same task events agree when no other operation uses the field.\<close>

lemma traces_agree:
  assumes "filter (\<lambda>e. e \<noteq> Discard) es = filter (\<lambda>e. e \<noteq> Discard) fs" "filter (\<lambda>e. \<not> by_other e) es = filter (\<lambda>e. \<not> by_other e) fs"
    "\<not> list_ex by_other fs"
  shows "es = fs"
proof -
  have "list_ex by_other (filter (\<lambda>e. e \<noteq> Discard) xs) = list_ex by_other xs" for xs by (induction xs) auto
  then have "\<not> list_ex by_other es" using assms(1,3) by metis
  then show ?thesis using assms(2,3) only_tasks by metis
qed

text \<open>C9: Moving discards forward changes no use of any field. Whatever window without discard masks
  \<open>forward_propagate_discards\<close> accepts, the removal of the handled discards runs without a failing assertion. Apart
  from the masks and the removed discards the window keeps its operations in order. For every field of every region,
  the sequence of the tasks that use it and of its discards (by an operation, or by the mask on an argument of a task)
  is the same before and after, and so is the sequence of its uses by tasks and by other operations; if no operation
  but tasks uses the field, the whole sequence of uses and discards is the same. A discard may move before uses of
  the field by other operations than tasks, that come after the last task that uses it.\<close>

theorem discards_preserved:
  assumes "forward_propagate_discards E rt ops = Inr (marked, handled)" "list_all (unmasked E) ops"
  shows "\<exists>ops'. forward_propagate_and_prune_discards E rt ops = Inr ops' \<and>
    (\<forall>key. filter (\<lambda>e. \<not> by_other e) (field_trace E rt key ops') = filter (\<lambda>e. \<not> by_other e) (field_trace E rt key ops) \<and>
       filter (\<lambda>e. e \<noteq> Discard) (field_trace E rt key ops') = filter (\<lambda>e. e \<noteq> Discard) (field_trace E rt key ops) \<and>
       (\<not> list_ex by_other (field_trace E rt key ops) \<longrightarrow> field_trace E rt key ops' = field_trace E rt key ops)) \<and>
    map unmarked (filter (\<lambda>op. wo_kind op \<noteq> OpDiscard) ops') = map unmarked (filter (\<lambda>op. wo_kind op \<noteq> OpDiscard) ops)"
proof -
  obtain rops r where l: "forward_propagate_loop E rt (rev ops) ([], []) = Inr (rops, r, handled)" "marked = rev rops"
    using assms(1) by (auto simp: forward_propagate_discards_def rbind_eq_Inr)
  from forward_loop_propagated [OF l(1)] assms(2)
  have p: "propagated E rt [] ops marked handled" by (auto simp: positions_distinct_def l(2))
  then have len: "length marked = length ops" and um: "map unmarked marked = map unmarked ops"
    using map_eq_imp_length_eq by (auto simp: propagated_def)
  have same: "unmarked (marked ! i) = unmarked (ops ! i)" if "i < length ops" for i
    using um len that by (metis nth_map)
  have h: "handled_ok marked handled" using p len unmarked_keeps [OF same] by (fastforce simp: propagated_def handled_ok_def split: if_splits)
  have pr: "forward_propagate_and_prune_discards E rt ops = Inr (nths marked (- set handled))"
    using assms(1) prune_handled_eq [OF _ h] p by (simp add: forward_propagate_and_prune_discards_def propagated_def)
  have f: "filter (\<lambda>op. wo_kind op \<noteq> OpDiscard) (nths marked (- set handled)) = filter (\<lambda>op. wo_kind op \<noteq> OpDiscard) marked"
    using h by (intro filter_nths) (auto simp: handled_ok_def)
  have "list_all2 (\<lambda>a b. unmarked a = unmarked b) marked ops" using um by (simp add: list_all2_map1 list_all2_map2 list.rel_eq [symmetric] list.rel_map)
  then have m: "map unmarked (filter (\<lambda>op. wo_kind op \<noteq> OpDiscard) marked) = map unmarked (filter (\<lambda>op. wo_kind op \<noteq> OpDiscard) ops)"
  proof (induction rule: list_all2_induct)
    case (Cons a as b bs)
    then show ?case using unmarked_keeps [of a b] by simp
  qed simp
  have t: "filter (\<lambda>e. \<not> by_other e) (field_trace E rt key (nths marked (- set handled))) = filter (\<lambda>e. \<not> by_other e) (field_trace E rt key ops)" for key
    using p by (simp add: tasks_and_discards propagated_def)
  have u: "filter (\<lambda>e. e \<noteq> Discard) (field_trace E rt key (nths marked (- set handled))) = filter (\<lambda>e. e \<noteq> Discard) (field_trace E rt key ops)" for key
    by (simp only: uses_of_trace f m)
  show ?thesis using pr f m t u traces_agree [OF u t] by auto
qed

section \<open>An example\<close>

text \<open>Two manual tasks of four points on the stores of the runtime of the partitioner's example: the first writes a
  store, the second reads it; then the field of the store is discarded.\<close>

definition ex_privileges :: privileges where
  "ex_privileges = \<lparr>NO_ACCESS = 0, READ_ONLY = 1, READ_WRITE = 7, WRITE_ONLY = 2, privileges.REDUCE = 4, WRITE_PRIV = 2,
     DISCARD_OUTPUT_MASK = 0x40000000\<rparr>"

definition ex_env :: stream_env where
  "ex_env = \<lparr>se_max_dim = 4, se_max_fields = 100, se_root = (\<lambda>_ _. (2, 2)), se_lt = (\<lambda>_ _. False), se_walk = sorted_list_of_set,
     se_core = ex_core, se_mapped = (\<lambda>_. False), se_region_field = (\<lambda>a. Some (a, 0)), se_invalid_volume = 0,
     se_privileges = ex_privileges\<rparr>"

definition ex_strategy :: strategy where
  "ex_strategy = empty_strategy\<lparr>sg_launch_domain := Some \<lparr>dom_lo = [0, 0], dom_hi = [1, 1]\<rparr>,
     sg_assignments := (\<lambda>_. Some (PTiling \<lparr>tl_overlapped = False, tl_tile_shape = [4, 3], tl_color_shape = [2, 2],
       tl_offsets = [0, 0], tl_strides = [4, 3]\<rparr>))\<rparr>"

definition ex_arg :: "u32 \<Rightarrow> nat \<Rightarrow> task_arg" where
  "ex_arg priv a = \<lparr>ta_store = a, ta_variable = ex_var (int a), ta_privilege = priv\<rparr>"

definition ex_stream_op :: operation where
  "ex_stream_op = ex_op\<lparr>op_policy := with_streaming STREAM_RELAXED (op_policy ex_op)\<rparr>"

definition ex_task :: "nat \<Rightarrow> nat list \<Rightarrow> nat list \<Rightarrow> win_op" where
  "ex_task i ins outs = (mapping_fence i)\<lparr>wo_kind := OpManualTask, wo_inputs := map (ex_arg 1) ins, wo_outputs := map (ex_arg 2) outs,
     wo_input_stores := map (ex_var \<circ> int) ins, wo_output_stores := map (ex_var \<circ> int) outs, wo_operation := ex_stream_op,
     wo_strategy := ex_strategy\<rparr>"

definition ex_discard :: "nat \<Rightarrow> nat \<times> nat \<Rightarrow> win_op" where
  "ex_discard i key = (mapping_fence i)\<lparr>wo_kind := OpDiscard, wo_discard := key\<rparr>"

definition ex_copy :: "nat \<Rightarrow> nat \<Rightarrow> nat \<Rightarrow> win_op" where
  "ex_copy i source target = (mapping_fence i)\<lparr>wo_kind := OpCopy, wo_input_stores := [ex_var (int source)],
     wo_output_stores := [ex_var (int target)], wo_stores := [target, source], wo_operation := ex_stream_op\<rparr>"

definition ex_window :: "win_op list" where
  "ex_window = [ex_task 0 [] [0], ex_task 1 [0] [1], ex_discard 2 (0, 0)]"

definition ex_marked :: win_op where
  "ex_marked = (ex_task 1 [0] [1])\<lparr>wo_inputs := [ex_arg (1 OR 0x40000000) 0]\<rparr>"

lemma ex_maybe:
  assumes "a = 0 \<or> a = 1 \<or> a = 2"
  shows "maybe_update_task_discards ex_env ex_runtime (ex_arg p a) (regions, handled) =
    (case map_of regions (a, 0) of
       None \<Rightarrow> Inr (ex_arg p a, (regions, handled))
     | Some i \<Rightarrow> Inr (ex_arg (p OR 0x40000000) a, filter (\<lambda>(k, _). k \<noteq> (a, 0)) regions, handled @ [i]))"
  using assms
  by (auto simp: maybe_update_task_discards_def ex_arg_def ex_runtime_def ex_lstore_def ex_storage_def ex_env_def ex_privileges_def
      vec_get_def split: option.splits)

lemmas ex_scan = is_task_def is_logical_task_def scan_task_discards_def Let_def ex_maybe emplace_discard_def ex_task_def ex_discard_def
  ex_copy_def mapping_fence_def ex_marked_def

lemma ex_propagate: "forward_propagate_discards ex_env ex_runtime ex_window =
    Inr ([ex_task 0 [] [0], ex_marked, ex_discard 2 (0, 0)], [2])"
  by (simp add: forward_propagate_discards_def ex_window_def ex_scan)

lemma discards_preserved_witness:
  "\<exists>ops'. forward_propagate_and_prune_discards ex_env ex_runtime ex_window = Inr ops' \<and>
     field_trace ex_env ex_runtime (0, 0) ops' = [UseByTask 0, UseByTask 1, Discard]"
proof -
  have "list_all (unmasked ex_env) ex_window"
    by (simp add: ex_window_def ex_scan unmasked_def task_args_def masked_def has_privilege_def ex_env_def ex_privileges_def
        ex_arg_def)
  moreover have "field_trace ex_env ex_runtime (0, 0) ex_window = [UseByTask 0, UseByTask 1, Discard]"
    by (simp add: field_events_def other_use_def key_events_def ex_window_def ex_scan uses_key_def masks_key_def task_args_def arg_key_def masked_def has_privilege_def
        ex_arg_def ex_env_def ex_privileges_def ex_runtime_def ex_lstore_def ex_storage_def vec_get_def)
  ultimately show ?thesis using discards_preserved [OF ex_propagate] by auto
qed

section \<open>What the analysis does not see\<close>

text \<open>Only tasks count as uses of a field: the task before a copy takes over the discard after it, although the copy
  reads the field in between.\<close>

lemma copy_is_no_use:
  "forward_propagate_discards ex_env ex_runtime [ex_task 0 [] [0], ex_copy 1 0 1, ex_discard 2 (0, 0)] =
     Inr ([(ex_task 0 [] [0])\<lparr>wo_outputs := [ex_arg (2 OR 0x40000000) 0]\<rparr>, ex_copy 1 0 1, ex_discard 2 (0, 0)], [2])"
  by (simp add: forward_propagate_discards_def ex_scan)

text \<open>An unbound output before the cut of the prefix makes the propagation fail as soon as a discard follows.\<close>

lemma unbound_output_fails:
  "forward_propagate_discards ex_env (ex_runtime\<lparr>rt_storages := map (\<lambda>sto. sto\<lparr>so_unbound := True\<rparr>) (rt_storages ex_runtime)\<rparr>)
     [ex_task 0 [] [1], ex_discard 1 (0, 0)] = Inl CheckFailed"
  by (simp add: forward_propagate_discards_def ex_scan maybe_update_task_discards_def ex_arg_def ex_runtime_def ex_lstore_def
      ex_storage_def vec_get_def)

end
