(* ===== verification/StreamingCorrect.thy ===== *)
theory StreamingCorrect
  imports StreamingDiscards
begin

text \<open>
  What the analysis of streaming scopes and the scheduling window promise: a streamable prefix has pointwise
  dependencies only, and a flush launches every operation of the window.
\<close>

section \<open>Pointwise dependencies of a streamable prefix\<close>

text \<open>A checked operation is kept with the state of the runtime and the strategy of its check.\<close>

type_synonym checked = "win_op \<times> runtime \<times> strategy option"

text \<open>The accesses of an operation: each root storage with the access, the strategy and the store.\<close>

type_synonym access = "nat \<times> access_info \<times> strategy \<times> logical_store"

definition op_args :: "win_op \<Rightarrow> (access_mode \<times> variable) list" where
  "op_args op = map (Pair READ) (wo_input_stores op) @ map (Pair WRITE) (wo_output_stores op) @
     map (Pair access_mode.REDUCE) (wo_reduction_stores op)"

definition args_accesses :: "runtime \<Rightarrow> win_op \<Rightarrow> strategy \<Rightarrow> (access_mode \<times> variable) list \<Rightarrow> access list" where
  "args_accesses rt op s args =
     concat (map (\<lambda>(mode, v). case access_of rt op s mode v of Inl e \<Rightarrow> [] | Inr (st, root, info) \<Rightarrow> [(root, info, s, st)]) args)"

definition accesses :: "checked \<Rightarrow> access list" where
  "accesses x = (case x of (op, rt, None) \<Rightarrow> [] | (op, rt, Some s) \<Rightarrow> args_accesses rt op s (op_args op))"

text \<open>Two partitions cut their stores alike: neither cuts at all, or both are tilings of the same colors whose tiles
  have the same extents; when offsets and strides are the same too, every color has the same tile.\<close>

fun cut_alike :: "partition \<Rightarrow> partition \<Rightarrow> bool" where
  "cut_alike NoPartition NoPartition = True"
| "cut_alike (PTiling a) (PTiling b) =
     (tl_tile_shape a = tl_tile_shape b \<and> (\<forall>c. has_color a c = has_color b c) \<and>
      (tl_offsets a = tl_offsets b \<and> tl_strides a = tl_strides b \<longrightarrow> (\<forall>L c. tile_rect L a c = tile_rect L b c)))"
| "cut_alike _ _ = False"

lemma tile_rect_cong:
  "tl_tile_shape a = tl_tile_shape b \<Longrightarrow> tl_offsets a = tl_offsets b \<Longrightarrow> tl_strides a = tl_strides b \<Longrightarrow>
     tile_rect L a c = tile_rect L b c"
  by (simp only: tile_rect_def tiling_construct_def)

lemma have_equal_cut_alike: "have_equal_partitioning p q \<Longrightarrow> cut_alike p q"
  by (cases p; cases q) (auto simp: is_equal_tiling_def has_color_def intro: tile_rect_cong)

text \<open>Two accesses of one storage, in this order, are pointwise when they are cut alike and the first is no reduction;
  a read of a store of volume 1 by a launch of volume 1 is let through after a reduction.\<close>

definition pointwise :: "access_info \<Rightarrow> access_info \<Rightarrow> bool" where
  "pointwise a b \<longleftrightarrow> cut_alike (ai_partition a) (ai_partition b) \<and> ai_mode a \<noteq> access_mode.REDUCE"

definition late_read :: "stream_env \<Rightarrow> access list \<Rightarrow> access \<Rightarrow> bool" where
  "late_read E before x \<longleftrightarrow> (case x of (root, b, s, st) \<Rightarrow>
     ai_mode b = READ \<and> launch_volume E s = 1 \<and> ls_volume st = Inr 1 \<and>
     (\<exists>y \<in> set before. fst y = root \<and> ai_mode (fst (snd y)) = access_mode.REDUCE))"

definition all_pointwise :: "stream_env \<Rightarrow> access list \<Rightarrow> bool" where
  "all_pointwise E H \<longleftrightarrow> (\<forall>j < length H. \<forall>i < j. fst (H ! i) = fst (H ! j) \<longrightarrow>
     pointwise (fst (snd (H ! i))) (fst (snd (H ! j))) \<or> late_read E (take j H) (H ! j))"

lemma all_pointwise_snoc:
  "all_pointwise E (H @ [x]) \<longleftrightarrow> all_pointwise E H \<and>
     (\<forall>y \<in> set H. fst y = fst x \<longrightarrow> pointwise (fst (snd y)) (fst (snd x)) \<or> late_read E H x)"
  unfolding all_pointwise_def all_set_conv_all_nth by (auto simp: nth_append less_Suc_eq)

lemma equal_partitioning_trans: "have_equal_partitioning p q \<Longrightarrow> have_equal_partitioning q r \<Longrightarrow> have_equal_partitioning p r"
  by (cases p; cases q; cases r) (auto simp: is_equal_tiling_def)

text \<open>The checker knows the last access of every storage; what came before is partitioned like it, unless it is a read
  that was let through after a reduction.\<close>

definition accesses_inv :: "stream_env \<Rightarrow> access list \<Rightarrow> (nat \<Rightarrow> access_info option) \<Rightarrow> bool" where
  "accesses_inv E H m \<longleftrightarrow> all_pointwise E H \<and> (\<forall>(root, a, s, st) \<in> set H. \<exists>p. m root = Some p \<and>
     (a = p \<or> ai_mode a \<noteq> access_mode.REDUCE \<and> have_equal_partitioning (ai_partition a) (ai_partition p) \<or>
      ai_mode p = access_mode.REDUCE \<and> ai_mode a = READ)) \<and>
     (\<forall>root p. m root = Some p \<longrightarrow> (\<exists>s st. (root, p, s, st) \<in> set H))"

lemma accesses_invD:
  assumes "accesses_inv E H m" "(root, a, s, st) \<in> set H"
  shows "\<exists>p. m root = Some p \<and>
     (a = p \<or> ai_mode a \<noteq> access_mode.REDUCE \<and> have_equal_partitioning (ai_partition a) (ai_partition p) \<or>
      ai_mode p = access_mode.REDUCE \<and> ai_mode a = READ)"
  using assms by (force simp: accesses_inv_def)

text \<open>The access that follows: the first one of its storage, one that is partitioned like the last, or the read after
  a reduction, which the checker does not record.\<close>

lemma accesses_inv_record:
  assumes inv: "accesses_inv E H m" and new: "\<forall>p. m root = Some p \<longrightarrow>
      ai_mode p \<noteq> access_mode.REDUCE \<and> have_equal_partitioning (ai_partition p) (ai_partition b)"
  shows "accesses_inv E (H @ [(root, b, s, st)]) (m(root \<mapsto> b))"
proof -
  have old: "ai_mode a \<noteq> access_mode.REDUCE \<and> have_equal_partitioning (ai_partition a) (ai_partition b)"
    if "(root, a, t) \<in> set H" for a t
    using accesses_invD [OF inv, of root a "fst t" "snd t"] that new equal_partitioning_trans by auto
  have "all_pointwise E (H @ [(root, b, s, st)])"
    unfolding all_pointwise_snoc using inv old have_equal_cut_alike by (fastforce simp: accesses_inv_def pointwise_def)
  moreover have "\<exists>p. (m(root \<mapsto> b)) r = Some p \<and>
     (a = p \<or> ai_mode a \<noteq> access_mode.REDUCE \<and> have_equal_partitioning (ai_partition a) (ai_partition p) \<or>
      ai_mode p = access_mode.REDUCE \<and> ai_mode a = READ)"
    if "(r, a, t, u) \<in> set (H @ [(root, b, s, st)])" for r a t u
  proof (cases "r = root")
    case True
    then show ?thesis using that old by auto
  next
    case False
    then show ?thesis using that accesses_invD [OF inv, of r a t u] by auto
  qed
  moreover have "\<exists>s' st'. (r, p, s', st') \<in> set (H @ [(root, b, s, st)])" if "(m(root \<mapsto> b)) r = Some p" for r p
    using that inv by (cases "r = root") (auto simp: accesses_inv_def)
  ultimately show ?thesis unfolding accesses_inv_def by blast
qed

lemma accesses_inv_late:
  assumes inv: "accesses_inv E H m" and late: "m root = Some p" "ai_mode p = access_mode.REDUCE" "ai_mode b = READ"
    "launch_volume E s = 1" "ls_volume st = Inr 1"
  shows "accesses_inv E (H @ [(root, b, s, st)]) m"
proof -
  obtain s' st' where "(root, p, s', st') \<in> set H" using inv late(1) unfolding accesses_inv_def by blast
  then have "late_read E H (root, b, s, st)" using late by (force simp: late_read_def)
  then have "all_pointwise E (H @ [(root, b, s, st)])"
    unfolding all_pointwise_snoc using inv by (auto simp: accesses_inv_def)
  moreover have "\<forall>r p. m r = Some p \<longrightarrow> (\<exists>s' st'. (r, p, s', st') \<in> set (H @ [(root, b, s, st)]))"
    using inv unfolding accesses_inv_def set_append by blast
  ultimately show ?thesis using inv late by (simp add: accesses_inv_def)
qed

lemma args_accesses_Cons:
  "access_of rt op s mode v = Inr (st, root, info) \<Longrightarrow>
     args_accesses rt op s ((mode, v) # args) = (root, info, s, st) # args_accesses rt op s args"
  by (simp add: args_accesses_def)

lemma access_of_mode: "access_of rt op s mode v = Inr (st, root, info) \<Longrightarrow> ai_mode info = mode"
  by (auto simp: access_of_def rbind_eq_Inr)

lemma accesses_inv_step:
  assumes "accesses_inv E H (ck_accesses ck)" "\<forall>p. ck_accesses ck root = Some p \<longrightarrow>
      ai_mode p \<noteq> access_mode.REDUCE \<and> have_equal_partitioning (ai_partition p) (ai_partition b)"
  shows "accesses_inv E (H @ [(root, b, s, st)]) (ck_accesses (record_access root b ck))"
  using accesses_inv_record [OF assms] by (simp add: record_access_def)

lemma record_access_launch [simp]: "ck_launch_domain (record_access root b ck) = ck_launch_domain ck"
  by (simp add: record_access_def)

lemma analyze_inputs_inv:
  "analyze_inputs E rt op s vs ck = Inr (True, ck') \<Longrightarrow> accesses_inv E H (ck_accesses ck) \<Longrightarrow>
     accesses_inv E (H @ args_accesses rt op s (map (Pair READ) vs)) (ck_accesses ck') \<and> ck_launch_domain ck' = ck_launch_domain ck"
proof (induction vs arbitrary: ck H)
  case (Cons v vs)
  obtain st root info where a: "access_of rt op s READ v = Inr (st, root, info)" using Cons.prems(1) by (auto simp: rbind_eq_Inr)
  note acc = args_accesses_Cons [OF a]
  show ?case
  proof (cases "\<exists>p. ck_accesses ck root = Some p \<and> ai_mode p = access_mode.REDUCE")
    case True
    then obtain p where p: "ck_accesses ck root = Some p" "ai_mode p = access_mode.REDUCE" by blast
    then have "launch_volume E s = 1" "ls_volume st = Inr 1" "analyze_inputs E rt op s vs ck = Inr (True, ck')"
      using Cons.prems(1) a by (auto simp: rbind_eq_Inr split: if_splits)
    then show ?thesis using Cons.IH [of ck "H @ [(root, info, s, st)]"] accesses_inv_late [OF Cons.prems(2) p access_of_mode [OF a], where st = st] acc by simp
  next
    case False
    then have "analyze_inputs E rt op s vs (record_access root info ck) = Inr (True, ck')"
      "\<forall>p. ck_accesses ck root = Some p \<longrightarrow> ai_mode p \<noteq> access_mode.REDUCE \<and> have_equal_partitioning (ai_partition p) (ai_partition info)"
      using Cons.prems(1) a by (auto split: option.splits if_splits)
    from Cons.IH [OF this(1) accesses_inv_step [OF Cons.prems(2) this(2), where s = s and st = st]] show ?thesis using acc by simp
  qed
qed (simp add: args_accesses_def)

lemma analyze_outputs_inv:
  "analyze_outputs rt op s vs ck = Inr (True, ck') \<Longrightarrow> accesses_inv E H (ck_accesses ck) \<Longrightarrow>
     accesses_inv E (H @ args_accesses rt op s (map (Pair WRITE) vs)) (ck_accesses ck') \<and> ck_launch_domain ck' = ck_launch_domain ck"
proof (induction vs arbitrary: ck H)
  case (Cons v vs)
  obtain st root info where a: "access_of rt op s WRITE v = Inr (st, root, info)" using Cons.prems(1) by (auto simp: rbind_eq_Inr)
  then have "analyze_outputs rt op s vs (record_access root info ck) = Inr (True, ck')"
    "\<forall>p. ck_accesses ck root = Some p \<longrightarrow> ai_mode p \<noteq> access_mode.REDUCE \<and> have_equal_partitioning (ai_partition p) (ai_partition info)"
    using Cons.prems(1) by (auto split: option.splits if_splits)
  from Cons.IH [OF this(1) accesses_inv_step [OF Cons.prems(2) this(2), where s = s and st = st]] show ?case
    using args_accesses_Cons [OF a] by simp
qed (simp add: args_accesses_def)

lemma analyze_reductions_inv:
  "analyze_reductions rt op s vs ck = Inr (True, ck') \<Longrightarrow> accesses_inv E H (ck_accesses ck) \<Longrightarrow>
     accesses_inv E (H @ args_accesses rt op s (map (Pair access_mode.REDUCE) vs)) (ck_accesses ck') \<and> ck_launch_domain ck' = ck_launch_domain ck"
proof (induction vs arbitrary: ck H)
  case (Cons v vs)
  obtain st root info where a: "access_of rt op s access_mode.REDUCE v = Inr (st, root, info)" using Cons.prems(1) by (auto simp: rbind_eq_Inr)
  then have "analyze_reductions rt op s vs (record_access root info ck) = Inr (True, ck')"
    "\<forall>p. ck_accesses ck root = Some p \<longrightarrow> ai_mode p \<noteq> access_mode.REDUCE \<and> have_equal_partitioning (ai_partition p) (ai_partition info)"
    using Cons.prems(1) by (auto split: option.splits if_splits)
  from Cons.IH [OF this(1) accesses_inv_step [OF Cons.prems(2) this(2), where s = s and st = st]] show ?case
    using args_accesses_Cons [OF a] by simp
qed (simp add: args_accesses_def)

text \<open>A launch of a single point without reductions, whose stores all have volume 1, may have another launch domain
  than the others.\<close>

definition volume_one :: "runtime \<Rightarrow> win_op \<Rightarrow> variable \<Rightarrow> bool" where
  "volume_one rt op v \<longleftrightarrow> (\<exists>st. op_find_store rt (wo_operation op) v = Inr st \<and> ls_volume st = Inr 1)"

fun own_launch :: "checked \<Rightarrow> bool" where
  "own_launch (op, rt, None) = True"
| "own_launch (op, rt, Some s) =
     (single_point (sg_launch_domain s) \<and> wo_reduction_stores op = [] \<and>
      (\<forall>v \<in> set (wo_input_stores op @ wo_output_stores op). volume_one rt op v))"

lemma all_scalar_volume_one: "all_scalar rt op vs = Inr True \<Longrightarrow> \<forall>v \<in> set vs. volume_one rt op v"
  by (induction vs) (auto simp: all_scalar_def volume_one_def rbind_eq_Inr split: if_splits)

fun launch_of :: "checked \<Rightarrow> domain option" where
  "launch_of (op, rt, None) = None"
| "launch_of (op, rt, Some s) = sg_launch_domain s"

definition run_inv :: "stream_env \<Rightarrow> checked list \<Rightarrow> checkers \<Rightarrow> bool" where
  "run_inv E X ck \<longleftrightarrow> accesses_inv E (concat (map accesses X)) (ck_accesses ck) \<and>
     (\<forall>x \<in> set X. disallowed_op_streamable E (fst x) \<and> (own_launch x \<or> ck_launch_domain ck = Some (launch_of x)))"

definition pointwise_run :: "stream_env \<Rightarrow> checked list \<Rightarrow> bool" where
  "pointwise_run E X \<longleftrightarrow> all_pointwise E (concat (map accesses X)) \<and>
     (\<forall>x \<in> set X. \<not> needs_flush E (fst x) \<and> supports_streaming (fst x)) \<and>
     (\<forall>x \<in> set X. \<forall>y \<in> set X. own_launch x \<or> own_launch y \<or> launch_of x = launch_of y)"

lemma run_inv_pointwise: "run_inv E X ck \<Longrightarrow> pointwise_run E X"
  unfolding run_inv_def pointwise_run_def accesses_inv_def disallowed_op_streamable_def by (metis option.inject)

lemma launch_domain_check:
  assumes "launch_domain_streamable rt op s ck = Inr (True, ck')"
  shows "ck_accesses ck' = ck_accesses ck" "own_launch (op, rt, s) \<or> ck_launch_domain ck' = Some (launch_of (op, rt, s))"
    "ck_launch_domain ck = Some d \<Longrightarrow> ck_launch_domain ck' = Some d"
proof -
  have "ck_accesses ck' = ck_accesses ck \<and> (own_launch (op, rt, s) \<or> ck_launch_domain ck' = Some (launch_of (op, rt, s))) \<and>
      (ck_launch_domain ck = Some d \<longrightarrow> ck_launch_domain ck' = Some d)"
  proof (cases s)
    case None
    then show ?thesis using assms by (simp add: launch_domain_streamable_def)
  next
    case (Some t)
    show ?thesis
    proof (cases "single_point (sg_launch_domain t) \<and> wo_reduction_stores op = []")
      case True
      let ?all = "rbind (all_scalar rt op (wo_input_stores op)) (\<lambda>b. if b then all_scalar rt op (wo_output_stores op) else Inr False)"
      define f :: "bool \<Rightarrow> (bool \<times> checkers) result" where "f bypass = (if bypass then Inr (True, ck) else (case ck_launch_domain ck of
             None \<Rightarrow> Inr (True, ck\<lparr>ck_launch_domain := Some (sg_launch_domain t)\<rparr>)
           | Some ld \<Rightarrow> Inr (sg_launch_domain t = ld, ck)))" for bypass
      have "rbind ?all f = Inr (True, ck')"
        using assms Some True by (simp add: launch_domain_streamable_def Let_def f_def)
      then obtain b where b: "?all = Inr b" and ck: "f b = Inr (True, ck')" unfolding rbind_eq_Inr [of ?all f] by blast
      show ?thesis
      proof (cases b)
        case bypass: True
        then have "all_scalar rt op (wo_input_stores op) = Inr True" "all_scalar rt op (wo_output_stores op) = Inr True"
          using b rbind_eq_Inr [of "all_scalar rt op (wo_input_stores op)" _ True] by (simp_all split: if_splits)
        from this [THEN all_scalar_volume_one] have "own_launch (op, rt, s)" using Some True by auto
        then show ?thesis using ck bypass by (simp add: f_def)
      qed (use ck Some in \<open>auto simp: f_def split: option.splits\<close>)
    next
      case False
      then show ?thesis using assms Some by (auto simp: launch_domain_streamable_def Let_def split: option.splits)
    qed
  qed
  then show "ck_accesses ck' = ck_accesses ck" "own_launch (op, rt, s) \<or> ck_launch_domain ck' = Some (launch_of (op, rt, s))"
    "ck_launch_domain ck = Some d \<Longrightarrow> ck_launch_domain ck' = Some d" by blast+
qed

lemma and_then_True: "and_then f g ck = Inr (True, ck') \<longleftrightarrow> (\<exists>ck1. f ck = Inr (True, ck1) \<and> g ck1 = Inr (True, ck'))"
  by (auto simp: and_then_def rbind_eq_Inr split: if_splits)

lemma check_one_op_inv:
  assumes "check_one_op E rt op s ck = Inr (True, ck')" "run_inv E X ck"
  shows "run_inv E (X @ [(op, rt, s)]) ck'"
proof -
  obtain ck1 where d: "disallowed_op_streamable E op" and l: "launch_domain_streamable rt op s ck = Inr (True, ck1)"
    and dep: "dependencies_streamable E rt op s ck1 = Inr (True, ck')"
    using assms(1) by (auto simp: check_one_op_def and_then_True)
  note ld = launch_domain_check [OF l]
  have a: "accesses_inv E (concat (map accesses X)) (ck_accesses ck1)" using assms(2) ld(1) by (simp add: run_inv_def)
  have "accesses_inv E (concat (map accesses X) @ accesses (op, rt, s)) (ck_accesses ck') \<and> ck_launch_domain ck' = ck_launch_domain ck1"
  proof (cases s)
    case None
    then show ?thesis using dep a by (simp add: dependencies_streamable_def accesses_def)
  next
    case (Some t)
    obtain ck2 ck3 where i: "analyze_inputs E rt op t (wo_input_stores op) ck1 = Inr (True, ck2)"
      and o: "analyze_outputs rt op t (wo_output_stores op) ck2 = Inr (True, ck3)"
      and r: "analyze_reductions rt op t (wo_reduction_stores op) ck3 = Inr (True, ck')"
      using dep Some by (auto simp: dependencies_streamable_def and_then_True)
    note i1 = analyze_inputs_inv [OF i a]
    note o1 = analyze_outputs_inv [OF o conjunct1 [OF i1]]
    note r1 = analyze_reductions_inv [OF r conjunct1 [OF o1]]
    have "accesses (op, rt, s) = args_accesses rt op t (map (Pair READ) (wo_input_stores op)) @
        args_accesses rt op t (map (Pair WRITE) (wo_output_stores op)) @
        args_accesses rt op t (map (Pair access_mode.REDUCE) (wo_reduction_stores op))"
      using Some by (simp add: accesses_def op_args_def args_accesses_def)
    then show ?thesis using r1 o1 i1 by simp
  qed
  then show ?thesis using assms(2) d ld(2,3) by (fastforce simp: run_inv_def)
qed

fun strategies :: "stream_env \<Rightarrow> win_op list \<Rightarrow> runtime \<Rightarrow> (checked list \<times> runtime) result" where
  "strategies E [] rt = Inr ([], rt)"
| "strategies E (op # ops) rt =
     rbind (get_strategy E op rt) (\<lambda>(rt, s). rbind (strategies E ops rt) (\<lambda>(xs, rt'). Inr ((op, rt, s) # xs, rt')))"

lemma strategies_fst: "strategies E ops rt = Inr (X, rt') \<Longrightarrow> map fst X = ops"
  by (induction ops arbitrary: rt X rt') (auto simp: rbind_eq_Inr)

lemma prefix_loop_run:
  "prefix_loop E prefix ops ck rt = Inr (prefix', rest, rt') \<Longrightarrow> run_inv E X ck \<Longrightarrow>
     \<exists>good last_ops X' rt1 ck'. prefix' = prefix @ good @ last_ops \<and> ops = good @ last_ops @ rest \<and>
       strategies E good rt = Inr (X', rt1) \<and> run_inv E (X @ X') ck' \<and>
       (last_ops = [] \<or> (\<exists>op rt2 s. last_ops = [op] \<and> get_strategy E op rt1 = Inr (rt2, s) \<and>
          (prefix @ good = [] \<or> wo_kind op = OpMappingFence)))"
proof (induction ops arbitrary: prefix ck rt X)
  case Nil
  then show ?case by (intro exI [of _ "[]"] exI [of _ rt] exI [of _ ck]) auto
next
  case (Cons op ops)
  obtain rt1 s ok ck1 where c: "get_strategy E op rt = Inr (rt1, s)" "check_one_op E rt1 op s ck = Inr (ok, ck1)"
    using Cons.prems(1) by (auto simp: rbind_eq_Inr)
  show ?case
  proof (cases ok)
    case True
    then have "prefix_loop E (prefix @ [op]) ops ck1 rt1 = Inr (prefix', rest, rt')" "check_one_op E rt1 op s ck = Inr (True, ck1)"
      using Cons.prems(1) c by auto
    from Cons.IH [OF this(1) check_one_op_inv [OF this(2) Cons.prems(2)]] obtain good last_ops X' rt2 ck' where
      g: "prefix' = (prefix @ [op]) @ good @ last_ops" "ops = good @ last_ops @ rest" "strategies E good rt1 = Inr (X', rt2)"
      "run_inv E ((X @ [(op, rt1, s)]) @ X') ck'"
      "last_ops = [] \<or> (\<exists>op' rt3 s. last_ops = [op'] \<and> get_strategy E op' rt2 = Inr (rt3, s) \<and>
          ((prefix @ [op]) @ good = [] \<or> wo_kind op' = OpMappingFence))" by blast
    then show ?thesis using c(1)
      by (intro exI [of _ "op # good"] exI [of _ last_ops] exI [of _ "(op, rt1, s) # X'"] exI [of _ rt2] exI [of _ ck']) auto
  next
    case False
    show ?thesis
    proof (cases "prefix = [] \<or> wo_kind op = OpMappingFence")
      case True
      then show ?thesis using Cons.prems c False
        by (intro exI [of _ "[]"] exI [of _ "[op]"] exI [of _ "[]"] exI [of _ rt] exI [of _ ck]) auto
    next
      case no: False
      then show ?thesis using Cons.prems c False
        by (intro exI [of _ "[]"] exI [of _ rt] exI [of _ ck]) auto
    qed
  qed
qed

lemma fence_not_streamable: "wo_kind op = OpMappingFence \<Longrightarrow> \<not> disallowed_op_streamable E op"
  by (simp add: disallowed_op_streamable_def)

text \<open>C10: What a streaming scope launches together has pointwise dependencies only, as far as the checkers compare
  partitions. The run that \<open>extract_streamable_prefix_impl\<close> takes from the front of the window ends with a mapping
  fence. Unless it is a single operation before the fence: every operation before the fence supports streaming and needs
  no flush; all launches have one launch domain, but for those of a single point without reductions whose stores all
  have volume 1; and of any two accesses to one root storage either the first is not a reduction and both are cut
  alike (not at all, or by tilings with the same colors and tile extents, hence with the same tiles when offsets and
  strides agree too), or the second reads a store of volume 1 in a launch of volume 1 after a reduction. Offsets and
  strides of the tilings, and the transforms of the views, are not compared by the code and may differ.\<close>

theorem streamable_prefix_pointwise:
  assumes "extract_streamable_prefix_impl E ops next_id rt = Inr (run, rest, next_id', rt')"
  shows "wo_kind (last run) = OpMappingFence \<and>
    (\<exists>taken. ops = taken @ rest \<and> taken \<noteq> [] \<and> (run = taken \<or> run = taken @ [mapping_fence next_id])) \<and>
    (\<exists>X rt1. strategies E (butlast run) rt = Inr (X, rt1) \<and> (pointwise_run E X \<or> length (butlast run) = 1))"
proof -
  obtain prefix where l: "prefix_loop E [] ops new_checkers rt = Inr (prefix, rest, rt')" "prefix \<noteq> []"
    "run = (if wo_kind (last prefix) \<noteq> OpMappingFence then prefix @ [mapping_fence next_id] else prefix)"
    using assms by (auto simp: extract_streamable_prefix_impl_def rbind_eq_Inr rguard_eq_Inr split: if_splits)
  have "run_inv E [] new_checkers" by (simp add: run_inv_def accesses_inv_def all_pointwise_def new_checkers_def)
  from prefix_loop_run [OF l(1) this, unfolded append_Nil] obtain good last_ops X rt1 ck where
    g: "prefix = good @ last_ops" "ops = good @ last_ops @ rest" "strategies E good rt = Inr (X, rt1)" "run_inv E X ck"
    "last_ops = [] \<or> (\<exists>op rt2 s. last_ops = [op] \<and> get_strategy E op rt1 = Inr (rt2, s) \<and> (good = [] \<or> wo_kind op = OpMappingFence))"
    by blast
  have dis: "disallowed_op_streamable E op" if "op \<in> set good" for op
    using g(4) that strategies_fst [OF g(3)] by (fastforce simp: run_inv_def)
  have pw: "pointwise_run E X" by (rule run_inv_pointwise [OF g(4)])
  have "\<exists>X rt1. strategies E (butlast run) rt = Inr (X, rt1) \<and> (pointwise_run E X \<or> length (butlast run) = 1)"
  proof (cases "last_ops = []")
    case True
    then have "wo_kind (last prefix) \<noteq> OpMappingFence" using dis [of "last prefix"] fence_not_streamable l(2) g(1) by auto
    then show ?thesis using l(3) g(1,3) True pw by auto
  next
    case False
    then obtain op rt2 s where op: "last_ops = [op]" "get_strategy E op rt1 = Inr (rt2, s)" "good = [] \<or> wo_kind op = OpMappingFence"
      using g(5) by blast
    show ?thesis
    proof (cases "wo_kind op = OpMappingFence")
      case True
      then show ?thesis using l(3) g(1,3) op(1) pw by auto
    next
      case no: False
      then show ?thesis using l(3) g(1,3) op by auto
    qed
  qed
  moreover have "wo_kind (last run) = OpMappingFence" using l(3) by (simp add: mapping_fence_def)
  ultimately show ?thesis using g(1,2) l(2,3) by auto
qed

section \<open>Every operation of the window is launched\<close>

definition counted :: "win_op \<Rightarrow> bool" where
  "counted op \<longleftrightarrow> is_logical_task op \<and> \<not> is_singleton_task op"

definition label :: "u32 \<times> u32 \<Rightarrow> win_op \<Rightarrow> win_op" where
  "label g op = (if counted op then set_streaming_generation (Some g) op else op)"

text \<open>An operation that no analysis has seen.\<close>

definition fresh_op :: "win_op \<Rightarrow> bool" where
  "fresh_op op \<longleftrightarrow> wo_generation op = None \<and> (is_task op \<longrightarrow> is_logical_task op)"

lemma generation_size_fresh:
  "list_all fresh_op ops \<Longrightarrow> generation_size_loop ops False n = Inr (n + of_nat (length (filter counted ops)))"
  by (induction ops arbitrary: n) (auto simp: fresh_op_def counted_def is_task_def)

lemma assign_loop_fresh:
  "list_all fresh_op ops \<Longrightarrow> assign_loop g i last_set seen ops = seen @ map (label g) ops"
  by (induction ops arbitrary: last_set seen) (auto simp: fresh_op_def label_def counted_def)

lemma process_run_fresh:
  assumes "list_all fresh_op ops"
  shows "process_streaming_run g i ops = Inr (map (label (g, of_nat (length (filter counted ops)))) ops)"
  using generation_size_fresh [OF assms] assign_loop_fresh [of "rev ops"] assms
  by (simp add: process_streaming_run_def get_generation_size_def assign_streaming_generation_def rev_map)

text \<open>The runs of a flush: consecutive parts of the window, each ended by a mapping fence, whose tasks carry the
  generation and the number of tasks of their run.\<close>

fun labelled_runs :: "u32 \<Rightarrow> win_op list \<Rightarrow> win_op list list \<Rightarrow> bool" where
  "labelled_runs g ops [] \<longleftrightarrow> ops = []"
| "labelled_runs g ops (run # runs) \<longleftrightarrow>
     (\<exists>taken rest i. ops = taken @ rest \<and> taken \<noteq> [] \<and>
        (let labelled = map (label (g, of_nat (length (filter counted taken)))) taken
         in run = labelled \<or> run = labelled @ [mapping_fence i]) \<and>
        wo_kind (last run) = OpMappingFence \<and> labelled_runs (g + 1) rest runs)"

text \<open>The partitioner handles an operation, and its checks find their stores, in every state of the runtime that
  satisfies \<open>R\<close>, which they keep.\<close>

definition schedulable :: "stream_env \<Rightarrow> (runtime \<Rightarrow> bool) \<Rightarrow> win_op \<Rightarrow> bool" where
  "schedulable E R op \<longleftrightarrow> (\<forall>rt. R rt \<longrightarrow> (\<exists>rt' s. get_strategy E op rt = Inr (rt', s) \<and> R rt' \<and>
     (\<forall>ck. \<exists>b ck'. check_one_op E rt' op s ck = Inr (b, ck'))))"

lemma prefix_loop_total:
  "\<forall>op \<in> set ops. schedulable E R op \<Longrightarrow> R rt \<Longrightarrow> \<exists>prefix' rest rt'. prefix_loop E prefix ops ck rt = Inr (prefix', rest, rt') \<and> R rt'"
proof (induction ops arbitrary: prefix ck rt)
  case (Cons op ops)
  then obtain rt1 s where s: "get_strategy E op rt = Inr (rt1, s)" "R rt1" "\<forall>ck. \<exists>b ck'. check_one_op E rt1 op s ck = Inr (b, ck')"
    unfolding schedulable_def by (meson list.set_intros(1))
  then obtain b ck' where b: "check_one_op E rt1 op s ck = Inr (b, ck')" by blast
  show ?case
  proof (cases b)
    case True
    then show ?thesis using Cons.IH [of rt1 "prefix @ [op]" ck'] Cons.prems(1) s b by auto
  qed (use s b in auto)
qed simp

definition partitionable :: "stream_env \<Rightarrow> (runtime \<Rightarrow> bool) \<Rightarrow> win_op \<Rightarrow> bool" where
  "partitionable E R op \<longleftrightarrow> (needs_partitioning (wo_kind op) \<longrightarrow>
     (\<forall>rt. R rt \<longrightarrow> (\<exists>rt' s. partition_op E op rt = Inr (rt', s) \<and> R rt')))"

lemma schedulable_partitionable: "schedulable E R op \<Longrightarrow> partitionable E R op"
  unfolding schedulable_def partitionable_def get_strategy_def by (fastforce simp: rbind_eq_Inr rguard_eq_Inr)

lemma label_keeps [simp]:
  "wo_kind (label g op) = wo_kind op" "partitionable E R (label g op) = partitionable E R op"
  by (simp_all add: partitionable_def partition_op_def label_def set_streaming_generation_def)

lemma schedule_ops_total:
  "\<forall>op \<in> set ops. partitionable E R op \<Longrightarrow> R (ws_runtime w) \<Longrightarrow>
     \<exists>w'. schedule_ops E ops w = ([], w', None) \<and> R (ws_runtime w') \<and>
       map fst (ws_launched w') = map fst (ws_launched w) @ ops \<and> ws_mode w' = ws_mode w \<and> ws_generation w' = ws_generation w"
proof (induction ops arbitrary: w)
  case (Cons op ops)
  show ?case
  proof (cases "needs_partitioning (wo_kind op)")
    case False
    then show ?thesis using Cons.IH [of "w\<lparr>ws_launched := ws_launched w @ [(op, None)]\<rparr>"] Cons.prems by auto
  next
    case True
    then obtain rt t where t: "partition_op E op (ws_runtime w) = Inr (rt, t)" "R rt"
      using Cons.prems unfolding partitionable_def by (meson list.set_intros(1))
    then show ?thesis
      using Cons.IH [of "w\<lparr>ws_runtime := rt, ws_launched := ws_launched w @ [(op, Some t)]\<rparr>"] Cons.prems(1) True by auto
  qed
qed simp

declare flush_streaming.simps [simp del]

lemma extract_total:
  assumes "\<forall>op \<in> set ops. schedulable E R op \<and> fresh_op op" "ops \<noteq> []" "R (ws_runtime w)" "ws_mode w \<noteq> STREAM_STRICT"
  shows "\<exists>taken rest i run w'. extract_streamable_prefix E ops w = Inr (run, rest, w') \<and> ops = taken @ rest \<and> taken \<noteq> [] \<and>
    (let labelled = map (label (ws_generation w + 1, of_nat (length (filter counted taken)))) taken
     in run = labelled \<or> run = labelled @ [mapping_fence i]) \<and> wo_kind (last run) = OpMappingFence \<and>
    R (ws_runtime w') \<and> ws_mode w' = ws_mode w \<and> ws_generation w' = ws_generation w + 1 \<and> ws_launched w' = ws_launched w"
proof -
  let ?g = "ws_generation w + 1" and ?fence = "mapping_fence (ws_next_op_id w)"
  obtain taken rest rt where l: "prefix_loop E [] ops new_checkers (ws_runtime w) = Inr (taken, rest, rt)" "R rt"
    using prefix_loop_total [of ops E R] assms(1,3) by blast
  have t: "ops = taken @ rest" "taken \<noteq> []" using prefix_loop_shrinks [OF l(1)] assms(2) by auto
  let ?b = "wo_kind (last taken) \<noteq> OpMappingFence"
  let ?prefix = "if ?b then taken @ [?fence] else taken"
  let ?n = "of_nat (length (filter counted taken)) :: u32"
  have nc: "fresh_op ?fence" "\<not> counted ?fence" by (simp_all add: mapping_fence_def fresh_op_def is_task_def is_logical_task_def counted_def)
  have "list_all fresh_op ?prefix" using assms(1) t(1) nc(1) by (auto simp: list_all_iff)
  moreover have "of_nat (length (filter counted ?prefix)) = ?n" using nc(2) by simp
  ultimately have run: "process_streaming_run ?g i ?prefix = Inr (map (label (?g, ?n)) ?prefix)" for i
    using process_run_fresh [of ?prefix ?g i] by simp
  have impl: "extract_streamable_prefix_impl E ops (ws_next_op_id w) (ws_runtime w) =
      Inr (?prefix, rest, if ?b then ws_next_op_id w + 1 else ws_next_op_id w, rt)"
    using assms(2) l(1) t(2) by (simp add: extract_streamable_prefix_impl_def)
  have ne: "?prefix \<noteq> []" using t(2) by simp
  obtain w' where ex: "extract_streamable_prefix E ops w = Inr (map (label (?g, ?n)) ?prefix, rest, w')"
    and w': "ws_runtime w' = rt" "ws_mode w' = ws_mode w" "ws_generation w' = ?g" "ws_launched w' = ws_launched w"
    using assms(2,4) impl run ne by (simp add: extract_streamable_prefix_def)
  have fence: "label (?g, ?n) ?fence = ?fence" using nc(2) by (simp add: label_def)
  have m: "map (label (?g, ?n)) ?prefix = (if ?b then map (label (?g, ?n)) taken @ [?fence] else map (label (?g, ?n)) taken)"
    by (simp add: fence)
  have "wo_kind (last (map (label (?g, ?n)) ?prefix)) = OpMappingFence"
    unfolding m using t(2) by (simp add: last_map) (simp add: mapping_fence_def)
  then show ?thesis using ex t w' l(2) m
    by (intro exI [of _ taken] exI [of _ rest] exI [of _ "ws_next_op_id w"] exI [of _ "map (label (?g, ?n)) ?prefix"] exI [of _ w'])
      (simp add: Let_def)
qed

lemma flush_streaming_total:
  "\<forall>op \<in> set ops. schedulable E R op \<and> fresh_op op \<Longrightarrow> R (ws_runtime w) \<Longrightarrow> ws_mode w \<noteq> STREAM_STRICT \<Longrightarrow>
     \<exists>w' runs. flush_streaming E ops w = (w', None) \<and> ws_ops w' = [] \<and>
       map fst (ws_launched w') = map fst (ws_launched w) @ concat runs \<and> labelled_runs (ws_generation w + 1) ops runs"
proof (induction "length ops" arbitrary: ops w rule: less_induct)
  case less
  show ?case
  proof (cases "ops = []")
    case True
    then show ?thesis
      by (intro exI [of _ "clear_scheduling_window w"] exI [of _ "[]"]) (simp add: flush_streaming.simps clear_scheduling_window_def)
  next
    case False
    let ?labelled = "\<lambda>taken. map (label (ws_generation w + 1, of_nat (length (filter counted taken)))) taken"
    obtain taken rest i run w1 where e: "extract_streamable_prefix E ops w = Inr (run, rest, w1)" "ops = taken @ rest" "taken \<noteq> []"
      "run = ?labelled taken \<or> run = ?labelled taken @ [mapping_fence i]" "wo_kind (last run) = OpMappingFence"
      "R (ws_runtime w1)" "ws_mode w1 = ws_mode w" "ws_generation w1 = ws_generation w + 1" "ws_launched w1 = ws_launched w"
      using extract_total [OF less.prems(1) False less.prems(2,3)] unfolding Let_def by blast
    have "partitionable E R (mapping_fence i)" by (simp add: partitionable_def mapping_fence_def)
    then have "\<forall>op \<in> set run. partitionable E R op"
      using e(2,4) less.prems(1) schedulable_partitionable by auto
    from schedule_ops_total [OF this e(6)] obtain w2 where s: "schedule_ops E run w1 = ([], w2, None)" "R (ws_runtime w2)"
      "map fst (ws_launched w2) = map fst (ws_launched w) @ run" "ws_mode w2 = ws_mode w" "ws_generation w2 = ws_generation w + 1"
      using e(7,8,9) by auto
    have "length rest < length ops" "\<forall>op \<in> set rest. schedulable E R op \<and> fresh_op op" "ws_mode w2 \<noteq> STREAM_STRICT"
      using e(2,3) less.prems s(4) by auto
    from less.hyps [OF this(1,2) s(2) this(3)] obtain w3 runs where r: "flush_streaming E rest w2 = (w3, None)" "ws_ops w3 = []"
      "map fst (ws_launched w3) = map fst (ws_launched w2) @ concat runs" "labelled_runs (ws_generation w2 + 1) rest runs" by blast
    have "flush_streaming E ops w = (w3, None)" using False e(1) s(1) r(1) by (subst flush_streaming.simps) simp
    moreover have "labelled_runs (ws_generation w + 1) ops (run # runs)"
      unfolding labelled_runs.simps Let_def using e(2,3,4,5) r(4) s(5) by (metis add.assoc)
    ultimately show ?thesis using r(2,3) s(3)
      by (intro exI [of _ w3] exI [of _ "run # runs"]) simp
  qed
qed

text \<open>C11: A flush within a relaxed streaming scope launches every operation that is left of the window when the
  discards that tasks take over are removed. Provided that the propagation of the discards succeeds, that every
  operation left is partitioned and checked without an exception (in every state of the runtime that an invariant \<open>R\<close>
  admits), and that no operation has been through a flush before or is a \<open>PhysicalTask\<close>, the flush ends without an
  exception, the window is empty, and what was launched is those operations in their order, cut into runs that each end
  with a mapping fence and whose tasks carry the number of the run and the number of counted tasks of their run.\<close>

theorem flush_launches_all:
  assumes "ws_mode w = STREAM_RELAXED" "R (ws_runtime w)"
    "forward_propagate_and_prune_discards E (ws_runtime w) (ws_ops w) = Inr ops"
    "\<forall>op \<in> set ops. schedulable E R op \<and> fresh_op op"
  shows "\<exists>w' runs. flush_scheduling_window E change w = (w', None) \<and> ws_ops w' = [] \<and>
    map fst (ws_launched w') = map fst (ws_launched w) @ concat runs \<and> labelled_runs (ws_generation w + 1) ops runs"
  using flush_streaming_total [OF assms(4,2)] assms(1,3) by (simp add: flush_scheduling_window_def ws_streaming_def)

text \<open>The checks raise no exception when every argument has a store with known extents.\<close>

definition finds_stores :: "runtime \<Rightarrow> win_op \<Rightarrow> strategy \<Rightarrow> variable list \<Rightarrow> bool" where
  "finds_stores rt op s vs \<longleftrightarrow> (\<forall>m. \<forall>v \<in> set vs. \<exists>st root info n.
     access_of rt op s m v = Inr (st, root, info) \<and> ls_volume st = Inr n)"

lemma finds_stores_Cons:
  assumes "finds_stores rt op s (v # vs)"
  obtains st root info n where "access_of rt op s m v = Inr (st, root, info)" "ls_volume st = Inr n" "finds_stores rt op s vs"
  using assms unfolding finds_stores_def by (meson list.set_intros)

lemma analyze_inputs_total: "finds_stores rt op s vs \<Longrightarrow> \<exists>b ck'. analyze_inputs E rt op s vs ck = Inr (b, ck')"
proof (induction vs arbitrary: ck)
  case (Cons v vs)
  obtain st root info n where "access_of rt op s READ v = Inr (st, root, info)" "ls_volume st = Inr n" "finds_stores rt op s vs"
    by (rule finds_stores_Cons [OF Cons.prems])
  then show ?case using Cons.IH by (auto split: option.splits)
qed auto

lemma analyze_outputs_total: "finds_stores rt op s vs \<Longrightarrow> \<exists>b ck'. analyze_outputs rt op s vs ck = Inr (b, ck')"
proof (induction vs arbitrary: ck)
  case (Cons v vs)
  obtain st root info n where "access_of rt op s WRITE v = Inr (st, root, info)" "ls_volume st = Inr n" "finds_stores rt op s vs"
    by (rule finds_stores_Cons [OF Cons.prems])
  then show ?case using Cons.IH by (auto split: option.splits)
qed auto

lemma analyze_reductions_total: "finds_stores rt op s vs \<Longrightarrow> \<exists>b ck'. analyze_reductions rt op s vs ck = Inr (b, ck')"
proof (induction vs arbitrary: ck)
  case (Cons v vs)
  obtain st root info n where "access_of rt op s access_mode.REDUCE v = Inr (st, root, info)" "ls_volume st = Inr n" "finds_stores rt op s vs"
    by (rule finds_stores_Cons [OF Cons.prems])
  then show ?case using Cons.IH by (auto split: option.splits)
qed auto

lemma and_then_total:
  "(\<And>ck. \<exists>b ck'. f ck = Inr (b, ck')) \<Longrightarrow> (\<And>ck. \<exists>b ck'. g ck = Inr (b, ck')) \<Longrightarrow> \<exists>b ck'. and_then f g ck = Inr (b, ck')"
proof -
  assume f: "\<And>ck. \<exists>b ck'. f ck = Inr (b, ck')" and g: "\<And>ck. \<exists>b ck'. g ck = Inr (b, ck')"
  obtain b ck1 where b: "f ck = Inr (b, ck1)" using f by blast
  show ?thesis using g [of ck1] by (cases b) (auto simp: and_then_def b)
qed

lemma check_one_op_total:
  assumes "\<not> single_point (sg_launch_domain s)" "finds_stores rt op s (wo_input_stores op)"
    "finds_stores rt op s (wo_output_stores op)" "finds_stores rt op s (wo_reduction_stores op)"
  shows "\<exists>b ck'. check_one_op E rt op (Some s) ck = Inr (b, ck')"
proof -
  have "\<exists>b ck'. launch_domain_streamable rt op (Some s) ck = Inr (b, ck')" for ck
    using assms(1) by (auto simp: launch_domain_streamable_def Let_def split: option.splits)
  moreover have "\<exists>b ck'. dependencies_streamable E rt op (Some s) ck = Inr (b, ck')" for ck
    unfolding dependencies_streamable_def option.case
    by (intro and_then_total analyze_inputs_total analyze_outputs_total analyze_reductions_total assms)
  ultimately show ?thesis unfolding check_one_op_def by (intro and_then_total) auto
qed

section \<open>The example of the discards, streamed\<close>

lemma streamable_prefix_pointwise_witness:
  "\<exists>run X rt. extract_streamable_prefix_impl ex_env (butlast ex_window) 7 ex_runtime = Inr (run, [], 8, ex_runtime) \<and>
     wo_kind (last run) = OpMappingFence \<and> strategies ex_env (butlast run) ex_runtime = Inr (X, rt) \<and> pointwise_run ex_env X"
proof -
  have s: "get_strategy ex_env op ex_runtime = Inr (ex_runtime, Some ex_strategy)" if "op \<in> set (butlast ex_window)" for op
    using that by (auto simp: ex_window_def get_strategy_def ex_task_def ex_stream_op_def with_streaming_def streaming_def)
  have "case prefix_loop ex_env [] (butlast ex_window) new_checkers ex_runtime of Inl e \<Rightarrow> False
      | Inr (prefix, rest, rt) \<Rightarrow> length prefix = 2 \<and> length rest = 0" by code_simp
  then obtain prefix rt where p: "prefix_loop ex_env [] (butlast ex_window) new_checkers ex_runtime = Inr (prefix, [], rt)"
    by (auto split: sum.splits)
  have "rt = ex_runtime" using p s [of "ex_task 0 [] [0]"] s [of "ex_task 1 [0] [1]"]
    by (auto simp: ex_window_def rbind_eq_Inr split: if_splits)
  moreover have "prefix = butlast ex_window" using prefix_loop_shrinks [OF p] by simp
  moreover have "last (butlast ex_window) = ex_task 1 [0] [1]" "wo_kind (ex_task 1 [0] [1]) = OpManualTask"
    by (simp_all add: ex_window_def ex_task_def)
  ultimately have run: "extract_streamable_prefix_impl ex_env (butlast ex_window) 7 ex_runtime =
      Inr (butlast ex_window @ [mapping_fence 7], [], 8, ex_runtime)"
    using p by (simp add: extract_streamable_prefix_impl_def) (simp add: ex_window_def)
  have "length (butlast (butlast ex_window @ [mapping_fence 7])) \<noteq> 1" by (simp add: ex_window_def)
  then show ?thesis using streamable_prefix_pointwise [OF run] run by auto
qed

lemma ex_schedulable:
  assumes "list_all (\<lambda>a. a < 3) (ins @ outs)"
  shows "schedulable ex_env (\<lambda>rt. rt = ex_runtime) ((ex_task i ins outs)\<lparr>wo_inputs := args\<rparr>)"
proof -
  let ?op = "(ex_task i ins outs)\<lparr>wo_inputs := args\<rparr>"
  have acc: "finds_stores ex_runtime ?op ex_strategy (map (ex_var \<circ> int) as)" if "list_all (\<lambda>a. a < 3) as" for as
    unfolding finds_stores_def
  proof (intro allI ballI)
    fix m v assume "v \<in> set (map (ex_var \<circ> int) as)"
    then have "v = ex_var 0 \<or> v = ex_var 1 \<or> v = ex_var 2" using that by (force simp: list_all_iff less_Suc_eq numeral_3_eq_3)
    then show "\<exists>st root info n. access_of ex_runtime ?op ex_strategy m v = Inr (st, root, info) \<and> ls_volume st = Inr n"
      by (auto simp: ex_task_def access_of_def op_find_store_def ex_stream_op_def ex_op_def ex_var_def ex_runtime_def ex_lstore_def
          get_root.simps ex_storage_def ls_volume_def shape_volume_def vec_get_def)
  qed
  have d: "\<not> single_point (sg_launch_domain ex_strategy)" by code_simp
  have "\<exists>b ck'. check_one_op ex_env ex_runtime ?op (Some ex_strategy) ck = Inr (b, ck')" for ck
    using acc [of ins] acc [of outs] acc [of "[]"] assms
    by (intro check_one_op_total [OF d]) (simp_all add: ex_task_def mapping_fence_def)
  moreover have "get_strategy ex_env ?op ex_runtime = Inr (ex_runtime, Some ex_strategy)"
    by (simp add: get_strategy_def ex_task_def ex_stream_op_def with_streaming_def streaming_def)
  ultimately show ?thesis by (simp add: schedulable_def)
qed

definition ex_scope :: window where
  "ex_scope = \<lparr>ws_ops = ex_window, ws_launched = [], ws_next_op_id = 7, ws_generation = 0, ws_runtime = ex_runtime,
     ws_mode = STREAM_RELAXED, ws_window_size = 1\<rparr>"

lemma flush_launches_all_witness:
  "\<exists>ops w runs. forward_propagate_and_prune_discards ex_env ex_runtime ex_window = Inr ops \<and>
     flush_scheduling_window ex_env False ex_scope = (w, None) \<and> ws_ops w = [] \<and>
     map fst (ws_launched w) = concat runs \<and> labelled_runs 1 ops runs"
proof -
  have ops: "schedulable ex_env (\<lambda>rt. rt = ex_runtime) (ex_task 0 [] [0])"
    "schedulable ex_env (\<lambda>rt. rt = ex_runtime) ex_marked"
    using ex_schedulable [of "[]" "[0]" "[]" 0] ex_schedulable [of "[0]" "[1]" _ 1] by (simp_all add: ex_marked_def ex_task_def mapping_fence_def)
  have p: "forward_propagate_and_prune_discards ex_env ex_runtime ex_window = Inr [ex_task 0 [] [0], ex_marked]"
    by (simp add: forward_propagate_and_prune_discards_def ex_propagate prune_handled_discard_ops_def vec_erase_def ex_discard_def
        rguard_def)
  have "\<forall>op \<in> set [ex_task 0 [] [0], ex_marked]. schedulable ex_env (\<lambda>rt. rt = ex_runtime) op \<and> fresh_op op"
    using ops by (simp add: fresh_op_def ex_scan)
  then show ?thesis
    using flush_launches_all [where w = ex_scope and E = ex_env and R = "\<lambda>rt. rt = ex_runtime" and change = False] p
    by (auto simp: ex_scope_def)
qed

section \<open>What the checks do not see\<close>

text \<open>Two tilings with different offsets count as equal partitionings.\<close>

lemma equal_partitioning_ignores_offsets:
  "have_equal_partitioning (PTiling t) (PTiling (t\<lparr>tl_offsets := offsets, tl_strides := strides\<rparr>))"
  by (simp add: is_equal_tiling_def)

end
