(* ===== verification/FieldManager.thy ===== *)
theory FieldManager
  imports Partitioner "HOL-Library.AList"
begin

text \<open>
  The fields that back the stores: data/detail/logical_region_field, data/detail/attachment, data/detail/shape,
  runtime/detail/region_manager, runtime/detail/field_manager and consensus_match_result.

  \<^item> A \<open>shard\<close> is the part of one process's state that these files change. Region fields, their physical states and
    shapes are known by their positions. An unordered map is an association list.
  \<^item> Legion gives a new region an identifier that no region had before (\<open>sd_next_tree\<close>); the result of its \<open>k\<close>-th
    consensus match is \<open>fe_agreed\<close>. What a mapping or a detachment does in Legion is not modelled.
  \<^item> The scheduling window holds the operations that these files submit. What else a flush launches, a flush caused
    by a submission, and the stores that die with a launched operation are left out, as is logging. The code runs between
    the start and the end of the runtime.
\<close>

section \<open>State\<close>

record logical_region =
  lr_tree :: nat
  lr_index_space :: nat
  lr_field_space :: nat

text \<open>\<open>at_can_dealloc\<close> tells that a detachment was issued.\<close>

record attachment =
  at_allocations :: nat
  at_can_dealloc :: bool

record physical_state =
  ps_pending_detach :: bool
  ps_region :: "nat option"
  ps_attachment :: attachment
  ps_callbacks :: nat

record logical_region_field =
  rf_shape :: nat
  rf_size :: u32
  rf_region :: logical_region
  rf_field :: u32
  rf_parent :: "nat option"
  rf_released :: bool
  rf_mapped :: bool
  rf_out_of_order :: bool
  rf_non_owning :: bool
  rf_state :: nat

record free_field_info =
  ff_shape :: nat
  ff_size :: u32
  ff_region :: logical_region
  ff_field :: u32
  ff_state :: nat

record match_item =
  mi_tree :: nat
  mi_field :: u64

record manager_entry =
  me_region :: logical_region
  me_next :: u32

datatype pending = PendingRelease nat bool | PendingDiscard logical_region u32

text \<open>A shape comes with its index space. \<open>fm_outstanding\<close> is the number of the match with its input, and
  \<open>fm_matches\<close> counts the matches issued so far.\<close>

record shard =
  sd_rt :: runtime
  sd_next_tree :: nat
  sd_shapes :: "(shape \<times> nat option) list"
  sd_states :: "physical_state list"
  sd_fields :: "logical_region_field list"
  sd_managers :: "nat \<Rightarrow> manager_entry list"
  sd_window :: "pending list"
  sd_mode :: streaming_mode
  fm_ordered :: "((nat \<times> u32) \<times> free_field_info list) list"
  fm_counter :: u32
  fm_unordered :: "free_field_info list"
  fm_outstanding :: "(nat \<times> match_item list) option"
  fm_infos :: "(match_item \<times> free_field_info) list"
  fm_matches :: nat

record field_env =
  fe_max_dim :: u32
  fe_max_fields :: u32
  fe_reuse_freq :: u32
  fe_reuse_size :: u64
  fe_consensus :: bool
  fe_agreed :: "nat \<Rightarrow> match_item list"

definition map_state :: "nat \<Rightarrow> (physical_state \<Rightarrow> physical_state) \<Rightarrow> shard \<Rightarrow> shard" where
  "map_state a f s = s\<lparr>sd_states := (sd_states s)[a := f (sd_states s ! a)]\<rparr>"

definition map_field :: "nat \<Rightarrow> (logical_region_field \<Rightarrow> logical_region_field) \<Rightarrow> shard \<Rightarrow> shard" where
  "map_field i f s = s\<lparr>sd_fields := (sd_fields s)[i := f (sd_fields s ! i)]\<rparr>"

section \<open>Attachments and physical states\<close>

definition at_exists :: "attachment \<Rightarrow> bool" where
  "at_exists a \<longleftrightarrow> at_allocations a \<noteq> 0"

definition at_detach :: "attachment \<Rightarrow> attachment" where
  "at_detach a = (if \<not> at_exists a then a else a\<lparr>at_can_dealloc := True\<rparr>)"

definition at_maybe_deallocate :: "attachment \<Rightarrow> attachment" where
  "at_maybe_deallocate a = (if \<not> at_exists a then a else \<lparr>at_allocations = 0, at_can_dealloc = False\<rparr>)"

definition new_physical_state :: physical_state where
  "new_physical_state = \<lparr>ps_pending_detach = False, ps_region = None,
     ps_attachment = \<lparr>at_allocations = 0, at_can_dealloc = False\<rparr>, ps_callbacks = 0\<rparr>"

definition ps_set_pending_detach :: "physical_state \<Rightarrow> physical_state" where
  "ps_set_pending_detach p = p\<lparr>ps_pending_detach := at_exists (ps_attachment p)\<rparr>"

definition ps_unmap :: "physical_state \<Rightarrow> physical_state" where
  "ps_unmap p = p\<lparr>ps_region := None\<rparr>"

definition ps_detach :: "physical_state \<Rightarrow> physical_state" where
  "ps_detach p =
     (if \<not> at_exists (ps_attachment p) then p
      else p\<lparr>ps_attachment := at_detach (ps_attachment p), ps_pending_detach := False\<rparr>)"

definition ps_invoke_callbacks :: "physical_state \<Rightarrow> physical_state" where
  "ps_invoke_callbacks p = p\<lparr>ps_callbacks := 0\<rparr>"

text \<open>The launch of \<open>ReleaseRegionField\<close> and of \<open>Discard\<close>.\<close>

fun launch_pending :: "pending \<Rightarrow> shard \<Rightarrow> shard" where
  "launch_pending (PendingRelease a unordered) s = map_state a (ps_invoke_callbacks \<circ> ps_detach \<circ> ps_unmap) s"
| "launch_pending (PendingDiscard region field) s = s"

definition submit_pending :: "pending \<Rightarrow> shard \<Rightarrow> shard" where
  "submit_pending p s = s\<lparr>sd_window := sd_window s @ [p]\<rparr>"

definition launch_window :: "shard \<Rightarrow> shard" where
  "launch_window s = (fold launch_pending (sd_window s) s)\<lparr>sd_window := []\<rparr>"

definition flush_window :: "shard \<Rightarrow> shard result" where
  "flush_window s = (if sd_mode s = STREAM_STRICT then Inl InvalidArgument else Inr (launch_window s))"

definition deallocate_attachment :: "bool \<Rightarrow> nat \<Rightarrow> shard \<Rightarrow> shard result" where
  "deallocate_attachment wait_on_detach a s =
     rbind (if wait_on_detach \<and> ps_pending_detach (sd_states s ! a)
            then rbind (flush_window s) (\<lambda>s. rguard (\<not> ps_pending_detach (sd_states s ! a)) CheckFailed (Inr s))
            else Inr s) (\<lambda>s.
       Inr (map_state a (\<lambda>p. p\<lparr>ps_attachment := at_maybe_deallocate (ps_attachment p)\<rparr>) s))"

section \<open>Shapes\<close>

definition sh_ready :: "nat \<Rightarrow> shard \<Rightarrow> bool" where
  "sh_ready a s \<longleftrightarrow> shape_ready (fst (sd_shapes s ! a))"

definition ensure_binding :: "nat \<Rightarrow> shard \<Rightarrow> shard result" where
  "ensure_binding a s =
     (if \<not> shape_unbound (fst (sd_shapes s ! a)) then Inr s
      else rbind (flush_window s) (\<lambda>s.
        if shape_unbound (fst (sd_shapes s ! a)) then Inl InvalidArgument else Inr s))"

definition sh_index_space :: "field_env \<Rightarrow> nat \<Rightarrow> shard \<Rightarrow> (shard \<times> nat) result" where
  "sh_index_space E a s =
     rbind (ensure_binding a s) (\<lambda>s.
       case sd_shapes s ! a of
         (_, Some i) \<Rightarrow> Inr (s, i)
       | (ReadyShape es, None) \<Rightarrow>
           rguard (length es \<le> unat (fe_max_dim E)) OutOfRange
             (case find_or_create_index_space (to_domain es) (sd_rt s) of (rt, i) \<Rightarrow>
                Inr (s\<lparr>sd_rt := rt, sd_shapes := (sd_shapes s)[a := (ReadyShape es, Some i)]\<rparr>, i))
       | (_, None) \<Rightarrow> Inl CheckFailed)"

definition sh_set_index_space :: "nat \<Rightarrow> nat \<Rightarrow> domain \<Rightarrow> shard \<Rightarrow> shard result" where
  "sh_set_index_space a i d s =
     rguard (shape_unbound (fst (sd_shapes s ! a))) CheckFailed
       (Inr (s\<lparr>sd_shapes := (sd_shapes s)[a := (BoundShape d, Some i)]\<rparr>))"

definition sh_extents :: "nat \<Rightarrow> shard \<Rightarrow> (shard \<times> u64 list) result" where
  "sh_extents a s =
     rbind (ensure_binding a s) (\<lambda>s.
       case sd_shapes s ! a of
         (BoundShape d, i) \<Rightarrow> Inr (s\<lparr>sd_shapes := (sd_shapes s)[a := (ReadyShape (from_domain d), i)]\<rparr>, from_domain d)
       | (ReadyShape es, i) \<Rightarrow> Inr (s, es)
       | (UnboundShape n, i) \<Rightarrow> Inl InvalidArgument)"

definition sh_copy_extents_from :: "nat \<Rightarrow> nat \<Rightarrow> shard \<Rightarrow> shard result" where
  "sh_copy_extents_from a other s =
     (case (sd_shapes s ! a, fst (sd_shapes s ! other)) of
        ((BoundShape d, i), ReadyShape es) \<Rightarrow> Inr (s\<lparr>sd_shapes := (sd_shapes s)[a := (ReadyShape es, i)]\<rparr>)
      | ((BoundShape d, i), _) \<Rightarrow> Inr (s\<lparr>sd_shapes := (sd_shapes s)[a := (ReadyShape [], i)]\<rparr>)
      | _ \<Rightarrow> Inl CheckFailed)"

section \<open>Region managers\<close>

definition field_base :: u32 where
  "field_base = of_nat FIELD_ID_BASE"

definition has_space :: "field_env \<Rightarrow> manager_entry list \<Rightarrow> bool" where
  "has_space E entries \<longleftrightarrow> entries \<noteq> [] \<and> me_next (last entries) - field_base < fe_max_fields E"

definition push_entry :: "nat \<Rightarrow> shard \<Rightarrow> shard" where
  "push_entry i s =
     (case create_field_space (sd_rt s) of (rt, fs) \<Rightarrow>
        s\<lparr>sd_rt := rt, sd_next_tree := sd_next_tree s + 1,
          sd_managers := (sd_managers s)(i := sd_managers s i @
            [\<lparr>me_region = \<lparr>lr_tree = sd_next_tree s, lr_index_space = i, lr_field_space = fs\<rparr>, me_next = field_base\<rparr>])\<rparr>)"

definition rm_allocate_field :: "field_env \<Rightarrow> nat \<Rightarrow> u32 \<Rightarrow> shard \<Rightarrow> shard \<times> logical_region \<times> u32" where
  "rm_allocate_field E i sz s =
     (let s = if has_space E (sd_managers s i) then s else push_entry i s;
          entry = last (sd_managers s i);
          s = s\<lparr>sd_managers := (sd_managers s)(i := butlast (sd_managers s i) @ [entry\<lparr>me_next := me_next entry + 1\<rparr>])\<rparr>;
          (rt, _) = allocate_field (lr_field_space (me_region entry)) (unat (me_next entry)) sz (sd_rt s)
      in (s\<lparr>sd_rt := rt\<rparr>, me_region entry, me_next entry))"

definition import_region :: "logical_region \<Rightarrow> u32 \<Rightarrow> shard \<Rightarrow> shard" where
  "import_region region num_fields s =
     s\<lparr>sd_managers := (sd_managers s)(lr_index_space region := sd_managers s (lr_index_space region) @
       [\<lparr>me_region = region, me_next = field_base + num_fields\<rparr>])\<rparr>"

definition rm_destroy :: "nat \<Rightarrow> shard \<Rightarrow> shard" where
  "rm_destroy i s = s\<lparr>sd_managers := (sd_managers s)(i := [])\<rparr>"

section \<open>Region fields\<close>

definition mk_region_field :: "nat \<Rightarrow> u32 \<Rightarrow> logical_region \<Rightarrow> u32 \<Rightarrow> nat option \<Rightarrow> bool \<Rightarrow> shard \<Rightarrow> shard \<times> nat" where
  "mk_region_field shape sz region field parent non_owning s =
     (s\<lparr>sd_states := sd_states s @ [new_physical_state],
        sd_fields := sd_fields s @ [\<lparr>rf_shape = shape, rf_size = sz, rf_region = region, rf_field = field,
          rf_parent = parent, rf_released = False, rf_mapped = False, rf_out_of_order = False,
          rf_non_owning = non_owning, rf_state = length (sd_states s)\<rparr>]\<rparr>, length (sd_fields s))"

text \<open>A parent is made before its children.\<close>

function rf_root :: "logical_region_field list \<Rightarrow> nat \<Rightarrow> nat" where
  "rf_root fs i = (case rf_parent (fs ! i) of None \<Rightarrow> i | Some p \<Rightarrow> if p < i then rf_root fs p else i)"
  by pat_completeness auto
termination by (relation "measure snd") auto

declare rf_root.simps [simp del]

definition rf_is_mapped :: "nat \<Rightarrow> shard \<Rightarrow> bool" where
  "rf_is_mapped i s \<longleftrightarrow> rf_mapped (sd_fields s ! rf_root (sd_fields s) i)"

definition set_mapped :: "bool \<Rightarrow> nat \<Rightarrow> shard \<Rightarrow> shard" where
  "set_mapped b i s = map_field i (\<lambda>rf. rf\<lparr>rf_mapped := b\<rparr>) s"

text \<open>\<open>handle\<close> is the physical region that Legion makes.\<close>

definition rf_map_region :: "nat \<Rightarrow> nat \<Rightarrow> shard \<Rightarrow> shard" where
  "rf_map_region handle i s =
     (let r = rf_root (sd_fields s) i
      in map_state (rf_state (sd_fields s ! r))
           (\<lambda>p. if ps_region p = None then p\<lparr>ps_region := Some handle\<rparr> else p) (set_mapped True r s))"

definition rf_unmap :: "nat \<Rightarrow> shard \<Rightarrow> shard" where
  "rf_unmap i s =
     (let r = rf_root (sd_fields s) i in map_state (rf_state (sd_fields s ! r)) ps_unmap (set_mapped False r s))"

definition rf_attach :: "nat \<Rightarrow> nat \<Rightarrow> shard \<Rightarrow> shard result" where
  "rf_attach handle i s =
     (let rf = sd_fields s ! i; p = sd_states s ! rf_state rf
      in rguard (rf_parent rf = None \<and> \<not> at_exists (ps_attachment p) \<and> ps_region p = None) CheckFailed
           (Inr (map_state (rf_state rf) (\<lambda>p. p\<lparr>ps_attachment := \<lparr>at_allocations = 1, at_can_dealloc = False\<rparr>,
              ps_region := Some handle\<rparr>) s)))"

text \<open>The attachment of an index attach has several allocations and no physical region.\<close>

definition rf_attach_external :: "nat \<Rightarrow> nat \<Rightarrow> shard \<Rightarrow> shard result" where
  "rf_attach_external allocations i s =
     (let rf = sd_fields s ! i
      in rguard (rf_parent rf = None \<and> \<not> at_exists (ps_attachment (sd_states s ! rf_state rf))) CheckFailed
           (Inr (map_state (rf_state rf)
              (\<lambda>p. p\<lparr>ps_attachment := \<lparr>at_allocations = allocations, at_can_dealloc = False\<rparr>\<rparr>) s)))"

definition add_invalidation_callback :: "nat \<Rightarrow> shard \<Rightarrow> shard" where
  "add_invalidation_callback i s =
     map_state (rf_state (sd_fields s ! rf_root (sd_fields s) i)) (\<lambda>p. p\<lparr>ps_callbacks := ps_callbacks p + 1\<rparr>) s"

definition perform_invalidation_callbacks :: "nat \<Rightarrow> shard \<Rightarrow> shard" where
  "perform_invalidation_callbacks i s = map_state (rf_state (sd_fields s ! rf_root (sd_fields s) i)) ps_invoke_callbacks s"

definition mark_already_mapped :: "nat \<Rightarrow> shard \<Rightarrow> shard" where
  "mark_already_mapped i s = set_mapped True i s"

definition rf_detach :: "nat \<Rightarrow> shard \<Rightarrow> shard result" where
  "rf_detach i s =
     (let rf = sd_fields s ! i
      in rguard (rf_parent rf = None) InvalidArgument (rbind (flush_window s) (\<lambda>s.
           rguard (at_exists (ps_attachment (sd_states s ! rf_state rf))) InvalidArgument
             (rbind (deallocate_attachment True (rf_state rf) (map_state (rf_state rf) (ps_detach \<circ> ps_unmap) s)) (\<lambda>s.
               Inr (set_mapped False i s))))))"

definition allow_out_of_order_destruction :: "nat \<Rightarrow> shard \<Rightarrow> shard" where
  "allow_out_of_order_destruction i s = map_field (rf_root (sd_fields s) i) (\<lambda>rf. rf\<lparr>rf_out_of_order := True\<rparr>) s"

definition rf_get_child :: "logical_region \<Rightarrow> nat \<Rightarrow> shard \<Rightarrow> shard \<times> nat" where
  "rf_get_child subregion i s =
     (let rf = sd_fields s ! i in mk_region_field (rf_shape rf) (rf_size rf) subregion (rf_field rf) (Some i) False s)"

section \<open>The field manager of one shard\<close>

definition ordered_queue :: "nat \<times> u32 \<Rightarrow> shard \<Rightarrow> free_field_info list" where
  "ordered_queue key s = (case map_of (fm_ordered s) key of None \<Rightarrow> [] | Some q \<Rightarrow> q)"

definition set_queue :: "nat \<times> u32 \<Rightarrow> free_field_info list \<Rightarrow> shard \<Rightarrow> shard" where
  "set_queue key q s = s\<lparr>fm_ordered := AList.update key q (fm_ordered s)\<rparr>"

definition fm_free_field :: "field_env \<Rightarrow> free_field_info \<Rightarrow> shard \<Rightarrow> shard result" where
  "fm_free_field E ff s =
     (let s = submit_pending (PendingDiscard (ff_region ff) (ff_field ff)) s
      in if sh_ready (ff_shape ff) s
         then rbind (sh_index_space E (ff_shape ff) s) (\<lambda>(s, i).
                let key = (i, ff_size ff) in Inr (set_queue key (ordered_queue key s @ [ff]) s))
         else Inr s)"

definition try_reuse_field :: "field_env \<Rightarrow> nat \<Rightarrow> u32 \<Rightarrow> shard \<Rightarrow> (shard \<times> nat option) result" where
  "try_reuse_field E shape sz s =
     (if \<not> sh_ready shape s then Inr (s, None)
      else rbind (sh_index_space E shape s) (\<lambda>(s, i).
        let key = (i, sz); s = set_queue key (ordered_queue key s) s
        in case ordered_queue key s of
             [] \<Rightarrow> Inr (s, None)
           | info # rest \<Rightarrow>
               rbind (deallocate_attachment True (ff_state info) s) (\<lambda>s.
                 case mk_region_field shape sz (ff_region info) (ff_field info) None False s of (s, rf) \<Rightarrow>
                   Inr (set_queue key rest s, Some rf))))"

definition create_new_field :: "field_env \<Rightarrow> nat \<Rightarrow> u32 \<Rightarrow> shard \<Rightarrow> (shard \<times> nat) result" where
  "create_new_field E shape sz s =
     rbind (sh_index_space E shape s) (\<lambda>(s, i).
       case rm_allocate_field E i sz s of (s, region, field) \<Rightarrow> Inr (mk_region_field shape sz region field None False s))"

definition fm_allocate_field :: "field_env \<Rightarrow> nat \<Rightarrow> u32 \<Rightarrow> shard \<Rightarrow> (shard \<times> nat) result" where
  "fm_allocate_field E shape sz s =
     rbind (try_reuse_field E shape sz s) (\<lambda>(s, rf).
       case rf of Some i \<Rightarrow> Inr (s, i) | None \<Rightarrow> create_new_field E shape sz s)"

definition fm_drain :: "shard \<Rightarrow> shard result" where
  "fm_drain s =
     rfoldM (deallocate_attachment False) (map ff_state (concat (map snd (fm_ordered s)))) (s\<lparr>fm_ordered := []\<rparr>)"

section \<open>The field manager with consensus matches\<close>

definition match_item_of :: "free_field_info \<Rightarrow> match_item" where
  "match_item_of ff = \<lparr>mi_tree = lr_tree (ff_region ff), mi_field = ucast (ff_field ff)\<rparr>"

definition calculate_match_credit :: "field_env \<Rightarrow> nat \<Rightarrow> u32 \<Rightarrow> shard \<Rightarrow> u32 result" where
  "calculate_match_credit E shape sz s =
     (if \<not> sh_ready shape s then Inr (fe_reuse_freq E)
      else rbind (shape_volume (fst (sd_shapes s ! shape))) (\<lambda>volume.
        let bytes = volume * ucast sz; reuse = fe_reuse_size E
        in if bytes > reuse then rguard (reuse > 0) CheckFailed (Inr (ucast ((bytes + reuse - 1) div reuse))) else Inr 1))"

definition issue_match :: "shard \<Rightarrow> shard result" where
  "issue_match s =
     rguard (fm_outstanding s = None \<and> fm_infos s = []) CheckFailed
       (let input = map match_item_of (fm_unordered s);
            infos = fold (\<lambda>ff. AList.update (match_item_of ff) ff) (fm_unordered s) (fm_infos s)
        in rguard (length infos = length (fm_unordered s)) CheckFailed
             (Inr (s\<lparr>fm_infos := infos, fm_unordered := [], fm_outstanding := Some (fm_matches s, input),
                fm_matches := fm_matches s + 1\<rparr>)))"

definition free_matched :: "field_env \<Rightarrow> match_item \<Rightarrow> shard \<Rightarrow> shard result" where
  "free_matched E item s =
     (case map_of (fm_infos s) item of
        None \<Rightarrow> Inl CheckFailed
      | Some ff \<Rightarrow> rbind (fm_free_field E ff s) (\<lambda>s. Inr (s\<lparr>fm_infos := AList.delete item (fm_infos s)\<rparr>)))"

text \<open>\<open>wait\<close> cuts the output to the number of matched items.\<close>

definition process_outstanding_match :: "field_env \<Rightarrow> shard \<Rightarrow> shard result" where
  "process_outstanding_match E s =
     (case fm_outstanding s of
        None \<Rightarrow> Inr s
      | Some (k, input) \<Rightarrow>
          rbind (flush_window s) (\<lambda>s.
            let output = fe_agreed E k
            in rguard (length output \<le> length input) CheckFailed (rbind (rfoldM (free_matched E) output s) (\<lambda>s.
                 Inr (s\<lparr>fm_unordered := fm_unordered s @ map snd (fm_infos s), fm_outstanding := None, fm_infos := []\<rparr>)))))"

definition cm_issue_field_match :: "field_env \<Rightarrow> shard \<Rightarrow> shard result" where
  "cm_issue_field_match E s =
     (if fm_counter s \<ge> fe_reuse_freq E
      then rbind (process_outstanding_match E s) (\<lambda>s. rbind (issue_match s) (\<lambda>s. Inr (s\<lparr>fm_counter := 0\<rparr>)))
      else Inr s)"

definition maybe_issue_field_match :: "field_env \<Rightarrow> nat \<Rightarrow> u32 \<Rightarrow> shard \<Rightarrow> shard result" where
  "maybe_issue_field_match E shape sz s =
     rbind (calculate_match_credit E shape sz s) (\<lambda>credit.
       let s = s\<lparr>fm_counter := fm_counter s + credit\<rparr>
       in if sd_mode s = STREAM_OFF then cm_issue_field_match E s else Inr s)"

definition cm_allocate_field :: "field_env \<Rightarrow> nat \<Rightarrow> u32 \<Rightarrow> shard \<Rightarrow> (shard \<times> nat) result" where
  "cm_allocate_field E shape sz s =
     rbind (maybe_issue_field_match E shape sz s) (\<lambda>s. rbind (try_reuse_field E shape sz s) (\<lambda>(s, rf).
       case rf of
         Some i \<Rightarrow> Inr (s, i)
       | None \<Rightarrow>
           (if fm_outstanding s \<noteq> None
            then rbind (process_outstanding_match E s) (\<lambda>s. rbind (try_reuse_field E shape sz s) (\<lambda>(s, rf).
                   case rf of Some i \<Rightarrow> Inr (s, i) | None \<Rightarrow> create_new_field E shape sz s))
            else create_new_field E shape sz s)))"

definition cm_free_field :: "field_env \<Rightarrow> free_field_info \<Rightarrow> bool \<Rightarrow> shard \<Rightarrow> shard result" where
  "cm_free_field E ff unordered s =
     (if unordered then Inr (s\<lparr>fm_unordered := fm_unordered s @ [ff]\<rparr>) else fm_free_field E ff s)"

text \<open>No field is freed while the queues are drained, so one round of the loop empties them.\<close>

definition cm_drain :: "shard \<Rightarrow> shard result" where
  "cm_drain s =
     rbind (fm_drain s) (\<lambda>s.
       if fm_infos s = [] \<and> fm_unordered s = [] then Inr s
       else rfoldM (deallocate_attachment False) (map ff_state (map snd (fm_infos s) @ fm_unordered s))
              (s\<lparr>fm_infos := [], fm_unordered := []\<rparr>))"

section \<open>The manager of the runtime\<close>

definition create_region_field :: "field_env \<Rightarrow> nat \<Rightarrow> u32 \<Rightarrow> shard \<Rightarrow> (shard \<times> nat) result" where
  "create_region_field E shape sz s =
     (if fe_consensus E then cm_allocate_field E shape sz s else fm_allocate_field E shape sz s)"

definition import_region_field ::
  "field_env \<Rightarrow> nat \<Rightarrow> u32 \<Rightarrow> logical_region \<Rightarrow> u32 \<Rightarrow> shard \<Rightarrow> (shard \<times> nat) result" where
  "import_region_field E shape sz region field s =
     rbind (if fe_consensus E then maybe_issue_field_match E shape sz s else Inr s) (\<lambda>s.
       Inr (mk_region_field shape sz region field None False s))"

definition free_field :: "field_env \<Rightarrow> free_field_info \<Rightarrow> bool \<Rightarrow> shard \<Rightarrow> shard result" where
  "free_field E ff unordered s = (if fe_consensus E then cm_free_field E ff unordered s else fm_free_field E ff s)"

definition issue_field_match :: "field_env \<Rightarrow> shard \<Rightarrow> shard result" where
  "issue_field_match E s = (if fe_consensus E then cm_issue_field_match E s else Inr s)"

definition free_field_of :: "logical_region_field \<Rightarrow> free_field_info" where
  "free_field_of rf = \<lparr>ff_shape = rf_shape rf, ff_size = rf_size rf, ff_region = rf_region rf, ff_field = rf_field rf,
     ff_state = rf_state rf\<rparr>"

definition release_region_field :: "field_env \<Rightarrow> nat \<Rightarrow> shard \<Rightarrow> shard result" where
  "release_region_field E i s =
     (let rf = sd_fields s ! i
      in if rf_released rf \<or> rf_parent rf \<noteq> None then Inr s
         else if rf_non_owning rf then Inr (map_field i (\<lambda>rf. rf\<lparr>rf_released := True\<rparr>) s)
         else rbind (free_field E (free_field_of rf) (rf_out_of_order rf)
                (submit_pending (PendingRelease (rf_state rf) (rf_out_of_order rf))
                  (map_state (rf_state rf) ps_set_pending_detach s))) (\<lambda>s.
            Inr (map_field i (\<lambda>rf. rf\<lparr>rf_released := True\<rparr>) (set_mapped False i s))))"

text \<open>The fields of the unbound stores of a task: \<open>import_output_regions_\<close> and the loop of
  \<open>post_process_unbound_stores_\<close>. A requirement is its region with the number of its fields; a store is its shape,
  the region of its requirement with the domain of its index space, its field and its size.\<close>

definition import_output_regions :: "(logical_region \<times> u32) list \<Rightarrow> shard \<Rightarrow> shard" where
  "import_output_regions reqs s = fold (\<lambda>(region, n). import_region region n) reqs s"

fun import_output_fields :: "field_env \<Rightarrow> (nat \<times> logical_region \<times> domain \<times> u32 \<times> u32) list \<Rightarrow> shard \<Rightarrow> shard result" where
  "import_output_fields E [] s = Inr s"
| "import_output_fields E ((shape, region, d, field, sz) # args) s =
     rbind (if shape_unbound (fst (sd_shapes s ! shape)) then sh_set_index_space shape (lr_index_space region) d s
            else Inr s) (\<lambda>s.
       rbind (import_region_field E shape sz region field s) (\<lambda>(s, _). import_output_fields E args s))"

definition post_process_unbound_stores ::
  "field_env \<Rightarrow> (logical_region \<times> u32) list \<Rightarrow> (nat \<times> logical_region \<times> domain \<times> u32 \<times> u32) list \<Rightarrow> shard \<Rightarrow> shard result" where
  "post_process_unbound_stores E reqs args s =
     (if args = [] then Inr s else import_output_fields E args (import_output_regions reqs s))"

end
