(* ===== verification/FieldManagerCorrect.thy ===== *)
theory FieldManagerCorrect
  imports FieldManager
begin

text \<open>
  What the field managers promise: no field backs two live region fields at once, a recycled field fits the request,
  field identifiers stay within their bounds, and the shards of a replicated program get the same fields although each
  frees its fields at its own times.
\<close>

section \<open>Steps of the program\<close>

text \<open>What the program can do to its fields. \<open>Destroy\<close> ends a region field in the order of the program,
  \<open>DestroyLater\<close> one that may end at a different time on each shard. A task with unbound outputs is given by the index
  space of its output region with its domain, and the shapes and sizes of its stores; its fields are numbered as
  \<open>create_fields_for_unbound_stores\<close> does.\<close>

datatype field_command =
    NewShape shape
  | ReadExtents nat
  | CreateField nat u32
  | Outputs nat nat domain "(nat \<times> u32) list"
  | SubField logical_region nat
  | AllowOutOfOrder nat
  | Destroy nat
  | DestroyLater nat
  | MatchFields
  | MapField nat nat
  | UnmapField nat
  | AttachField nat nat
  | DetachField nat
  | FlushWindow
  | SetMode streaming_mode

text \<open>Legion makes the region of the outputs.\<close>

definition legion_region :: "nat \<Rightarrow> nat \<Rightarrow> shard \<Rightarrow> shard \<times> logical_region" where
  "legion_region i fs s =
     (s\<lparr>sd_next_tree := sd_next_tree s + 1\<rparr>, \<lparr>lr_tree = sd_next_tree s, lr_index_space = i, lr_field_space = fs\<rparr>)"

fun number_fields :: "logical_region \<Rightarrow> domain \<Rightarrow> u32 \<Rightarrow> (nat \<times> u32) list \<Rightarrow>
    (nat \<times> logical_region \<times> domain \<times> u32 \<times> u32) list" where
  "number_fields region d field [] = []"
| "number_fields region d field ((shape, sz) # stores) =
     (shape, region, d, field, sz) # number_fields region d (field + 1) stores"

definition task_outputs :: "field_env \<Rightarrow> nat \<Rightarrow> nat \<Rightarrow> domain \<Rightarrow> (nat \<times> u32) list \<Rightarrow> shard \<Rightarrow> shard result" where
  "task_outputs E i fs d stores s =
     (case legion_region i fs s of (s, region) \<Rightarrow>
        post_process_unbound_stores E [(region, of_nat (length stores))] (number_fields region d field_base stores) s)"

fun field_step :: "field_env \<Rightarrow> field_command \<Rightarrow> shard \<Rightarrow> shard result" where
  "field_step E (NewShape sh) s = Inr (s\<lparr>sd_shapes := sd_shapes s @ [(sh, None)]\<rparr>)"
| "field_step E (ReadExtents a) s = rbind (sh_extents a s) (\<lambda>(s, _). Inr s)"
| "field_step E (CreateField a sz) s = rbind (create_region_field E a sz s) (\<lambda>(s, _). Inr s)"
| "field_step E (Outputs i fs d stores) s = task_outputs E i fs d stores s"
| "field_step E (SubField region i) s = Inr (fst (rf_get_child region i s))"
| "field_step E (AllowOutOfOrder i) s = Inr (allow_out_of_order_destruction i s)"
| "field_step E (Destroy i) s = release_region_field E i s"
| "field_step E (DestroyLater i) s = release_region_field E i s"
| "field_step E MatchFields s = issue_field_match E s"
| "field_step E (MapField h i) s = Inr (rf_map_region h i s)"
| "field_step E (UnmapField i) s = Inr (rf_unmap i s)"
| "field_step E (AttachField h i) s = rf_attach h i s"
| "field_step E (DetachField i) s = rf_detach i s"
| "field_step E FlushWindow s = flush_window s"
| "field_step E (SetMode mode) s = Inr ((launch_window s)\<lparr>sd_mode := mode\<rparr>)"

text \<open>The commands name things that exist, a region field ends in the order it was made for, and the outputs of a task
  fit into the region and the shapes of its stores.\<close>

fun admissible :: "field_env \<Rightarrow> field_command \<Rightarrow> shard \<Rightarrow> bool" where
  "admissible E (NewShape sh) s \<longleftrightarrow> shape_unbound sh \<or> shape_ready sh"
| "admissible E (ReadExtents a) s \<longleftrightarrow> a < length (sd_shapes s)"
| "admissible E (CreateField a sz) s \<longleftrightarrow> a < length (sd_shapes s)"
| "admissible E (Outputs i fs d stores) s \<longleftrightarrow> length stores \<le> unat (fe_max_fields E) \<and>
     (\<forall>(a, sz) \<in> set stores. a < length (sd_shapes s) \<and>
        (shape_unbound (fst (sd_shapes s ! a)) \<or> snd (sd_shapes s ! a) = Some i))"
| "admissible E (SubField region i) s \<longleftrightarrow> i < length (sd_fields s)"
| "admissible E (AllowOutOfOrder i) s \<longleftrightarrow> i < length (sd_fields s)"
| "admissible E (Destroy i) s \<longleftrightarrow> i < length (sd_fields s) \<and> \<not> rf_out_of_order (sd_fields s ! i)"
| "admissible E (DestroyLater i) s \<longleftrightarrow> i < length (sd_fields s) \<and> rf_out_of_order (sd_fields s ! i)"
| "admissible E (MapField h i) s \<longleftrightarrow> i < length (sd_fields s)"
| "admissible E (UnmapField i) s \<longleftrightarrow> i < length (sd_fields s)"
| "admissible E (AttachField h i) s \<longleftrightarrow> i < length (sd_fields s)"
| "admissible E (DetachField i) s \<longleftrightarrow> i < length (sd_fields s)"
| "admissible E _ s \<longleftrightarrow> True"

inductive field_run :: "field_env \<Rightarrow> shard \<Rightarrow> field_command list \<Rightarrow> shard \<Rightarrow> bool" for E :: field_env where
  Nil: "field_run E s [] s"
| Cons: "admissible E c s \<Longrightarrow> field_step E c s = Inr s' \<Longrightarrow> field_run E s' cs s'' \<Longrightarrow> field_run E s (c # cs) s''"

inductive_cases field_run_NilE: "field_run E s [] t"
inductive_cases field_run_ConsE: "field_run E s (c # cs) t"

definition initial_shard :: "runtime \<Rightarrow> shard" where
  "initial_shard rt = \<lparr>sd_rt = rt, sd_next_tree = 0, sd_shapes = [], sd_states = [], sd_fields = [], sd_managers = (\<lambda>_. []),
     sd_window = [], sd_mode = STREAM_OFF, fm_ordered = [], fm_counter = 0, fm_unordered = [], fm_outstanding = None,
     fm_infos = [], fm_matches = 0\<rparr>"

section \<open>The fields in use and the free fields\<close>

definition owner :: "logical_region_field \<Rightarrow> bool" where
  "owner rf \<longleftrightarrow> rf_parent rf = None \<and> \<not> rf_non_owning rf"

definition live :: "logical_region_field \<Rightarrow> bool" where
  "live rf \<longleftrightarrow> owner rf \<and> \<not> rf_released rf"

definition ff_key :: "free_field_info \<Rightarrow> nat \<times> u32" where
  "ff_key ff = (lr_tree (ff_region ff), ff_field ff)"

definition made :: "shard \<Rightarrow> free_field_info list" where
  "made s = map free_field_of (filter owner (sd_fields s))"

definition queued :: "shard \<Rightarrow> free_field_info list" where
  "queued s = concat (map snd (fm_ordered s)) @ fm_unordered s @ map snd (fm_infos s)"

definition held :: "shard \<Rightarrow> free_field_info list" where
  "held s = map free_field_of (filter live (sd_fields s)) @ queued s"

text \<open>The region field that was made last over a field.\<close>

definition latest :: "shard \<Rightarrow> nat \<times> u32 \<Rightarrow> free_field_info option" where
  "latest s k = find (\<lambda>ff. ff_key ff = k) (rev (made s))"

text \<open>No field is held twice, and only the region field made last over a field holds it.\<close>

definition held_inv :: "shard \<Rightarrow> bool" where
  "held_inv s \<longleftrightarrow> distinct (map ff_key (held s)) \<and> (\<forall>ff \<in> set (held s). latest s (ff_key ff) = Some ff)"

text \<open>Regions have their own trees, fields are below the next identifier of their region.\<close>

definition entry_of :: "shard \<Rightarrow> nat \<Rightarrow> manager_entry \<Rightarrow> bool" where
  "entry_of s i e \<longleftrightarrow> e \<in> set (sd_managers s i)"

definition regions_inv :: "field_env \<Rightarrow> shard \<Rightarrow> bool" where
  "regions_inv E s \<longleftrightarrow>
     (\<forall>i. distinct (map (lr_tree \<circ> me_region) (sd_managers s i))) \<and>
     (\<forall>i e. entry_of s i e \<longrightarrow> lr_index_space (me_region e) = i \<and> lr_tree (me_region e) < sd_next_tree s \<and>
        unat (me_next e) \<le> FIELD_ID_BASE + unat (fe_max_fields E) \<and> FIELD_ID_BASE \<le> unat (me_next e)) \<and>
     (\<forall>i j e f. entry_of s i e \<longrightarrow> entry_of s j f \<longrightarrow> lr_tree (me_region e) = lr_tree (me_region f) \<longrightarrow> i = j) \<and>
     (\<forall>ff \<in> set (made s). FIELD_ID_BASE \<le> unat (ff_field ff) \<and>
        (\<exists>e. entry_of s (lr_index_space (ff_region ff)) e \<and> me_region e = ff_region ff \<and> unat (ff_field ff) < unat (me_next e)))"

text \<open>A region field lies over the index space of its shape, and a queue holds the fields of its key.\<close>

definition shapes_inv :: "shard \<Rightarrow> bool" where
  "shapes_inv s \<longleftrightarrow>
     (\<forall>ff \<in> set (made s). ff_shape ff < length (sd_shapes s) \<and> \<not> shape_unbound (fst (sd_shapes s ! ff_shape ff)) \<and>
        snd (sd_shapes s ! ff_shape ff) = Some (lr_index_space (ff_region ff))) \<and>
     distinct (map fst (fm_ordered s)) \<and>
     (\<forall>i sz q. map_of (fm_ordered s) (i, sz) = Some q \<longrightarrow>
        (\<forall>ff \<in> set q. ff_size ff = sz \<and> lr_index_space (ff_region ff) = i))"

definition infos_inv :: "shard \<Rightarrow> bool" where
  "infos_inv s \<longleftrightarrow> distinct (map fst (fm_infos s)) \<and> (\<forall>(m, ff) \<in> set (fm_infos s). m = match_item_of ff)"

definition outstanding_inv :: "shard \<Rightarrow> bool" where
  "outstanding_inv s \<longleftrightarrow>
     (if fm_outstanding s = None then fm_infos s = [] else snd (the (fm_outstanding s)) = map fst (fm_infos s))"

definition fields_inv :: "field_env \<Rightarrow> shard \<Rightarrow> bool" where
  "fields_inv E s \<longleftrightarrow> held_inv s \<and> regions_inv E s \<and> shapes_inv s \<and> infos_inv s"

definition shard_inv :: "field_env \<Rightarrow> shard \<Rightarrow> bool" where
  "shard_inv E s \<longleftrightarrow> fields_inv E s \<and> outstanding_inv s"

lemmas made_defs = held_def queued_def latest_def made_def

lemmas fields_inv_defs = held_inv_def regions_inv_def shapes_inv_def infos_inv_def entry_of_def made_defs

lemma initial_inv: "shard_inv E (initial_shard rt)"
  by (simp add: shard_inv_def fields_inv_def fields_inv_defs outstanding_inv_def initial_shard_def)

section \<open>Changes that leave the fields alone\<close>

definition quiet :: "shard \<Rightarrow> shard \<Rightarrow> bool" where
  "quiet s s' \<longleftrightarrow> sd_rt s' = sd_rt s \<and> sd_next_tree s' = sd_next_tree s \<and> sd_shapes s' = sd_shapes s \<and>
     sd_fields s' = sd_fields s \<and> sd_managers s' = sd_managers s \<and> sd_mode s' = sd_mode s \<and> fm_ordered s' = fm_ordered s \<and>
     fm_counter s' = fm_counter s \<and> fm_unordered s' = fm_unordered s \<and> fm_outstanding s' = fm_outstanding s \<and>
     fm_infos s' = fm_infos s \<and> fm_matches s' = fm_matches s \<and> length (sd_states s') = length (sd_states s)"

lemma quiet_refl [simp]: "quiet s s"
  by (simp add: quiet_def)

lemma quiet_trans [trans]: "quiet s t \<Longrightarrow> quiet t u \<Longrightarrow> quiet s u"
  by (simp add: quiet_def)

lemma quiet_map_state: "quiet s (map_state a f s)"
  by (simp add: quiet_def map_state_def)

lemma quiet_submit: "quiet s (submit_pending p s)"
  by (simp add: quiet_def submit_pending_def)

lemma quiet_launch: "quiet s (fold launch_pending ps s)"
proof (induction ps arbitrary: s)
  case (Cons p ps)
  have "quiet s (launch_pending p s)" by (cases p) (simp_all add: quiet_map_state)
  then show ?case using Cons.IH quiet_trans by fastforce
qed simp

lemma quiet_launch_window: "quiet s (launch_window s)"
  using quiet_launch [of s "sd_window s"] by (simp add: quiet_def launch_window_def)

lemma quiet_flush: "flush_window s = Inr s' \<Longrightarrow> quiet s s'"
  using quiet_launch_window by (auto simp: flush_window_def split: if_splits)

lemma quiet_deallocate: "deallocate_attachment w a s = Inr s' \<Longrightarrow> quiet s s'"
  unfolding deallocate_attachment_def
  by (auto simp: rbind_eq_Inr rguard_eq_Inr split: if_splits intro: quiet_trans quiet_flush quiet_map_state)

text \<open>The invariants look at the fields, the managers, the queues and the shapes only.\<close>

lemma fields_inv_cong:
  assumes "map free_field_of (filter owner (sd_fields s')) = map free_field_of (filter owner (sd_fields s))"
    "map free_field_of (filter live (sd_fields s')) = map free_field_of (filter live (sd_fields s))"
    "sd_managers s' = sd_managers s" "sd_next_tree s' = sd_next_tree s" "sd_shapes s' = sd_shapes s"
    "fm_ordered s' = fm_ordered s" "fm_unordered s' = fm_unordered s" "fm_infos s' = fm_infos s"
  shows "fields_inv E s' = fields_inv E s"
  using assms by (simp add: fields_inv_def fields_inv_defs)

lemma quiet_fields_inv: "quiet s s' \<Longrightarrow> fields_inv E s' = fields_inv E s"
  by (intro fields_inv_cong) (simp_all add: quiet_def)

lemma quiet_shard_inv: "quiet s s' \<Longrightarrow> shard_inv E s' = shard_inv E s"
  using quiet_fields_inv [of s s' E] by (simp add: shard_inv_def outstanding_inv_def quiet_def)

lemma filter_update:
  assumes "\<And>rf. free_field_of (f rf) = free_field_of rf" "\<And>rf. P (f rf) = P rf"
  shows "map free_field_of (filter P (fs[i := f (fs ! i)])) = map free_field_of (filter P fs)"
  using assms by (induction fs arbitrary: i) (auto split: nat.splits)

lemma flags_shard_inv:
  assumes "\<And>rf. free_field_of (f rf) = free_field_of rf" "\<And>rf. owner (f rf) = owner rf" "\<And>rf. live (f rf) = live rf"
  shows "shard_inv E (map_field i f s) = shard_inv E s"
proof -
  note keep = filter_update [of f, OF assms(1)]
  have "fields_inv E (map_field i f s) = fields_inv E s"
    unfolding map_field_def by (rule fields_inv_cong) (simp_all add: keep [of owner, OF assms(2)] keep [of live, OF assms(3)])
  then show ?thesis by (simp add: shard_inv_def outstanding_inv_def map_field_def)
qed

section \<open>Index spaces of shapes\<close>

lemma sh_index_space_spec:
  assumes "sh_index_space E a s = Inr (s', i)"
  shows "\<exists>rt. s' = s\<lparr>sd_rt := rt, sd_shapes := (sd_shapes s)[a := (fst (sd_shapes s ! a), Some i)]\<rparr> \<and>
     \<not> shape_unbound (fst (sd_shapes s ! a)) \<and>
     (snd (sd_shapes s ! a) = Some i \<and> s' = s \<or> snd (sd_shapes s ! a) = None)"
proof -
  obtain s1 where b: "ensure_binding a s = Inr s1" using assms by (auto simp: sh_index_space_def rbind_eq_Inr)
  have nb: "\<not> shape_unbound (fst (sd_shapes s ! a))"
  proof
    assume u: "shape_unbound (fst (sd_shapes s ! a))"
    then obtain s2 where "flush_window s = Inr s2" "\<not> shape_unbound (fst (sd_shapes s2 ! a))"
      using b by (auto simp: ensure_binding_def rbind_eq_Inr split: if_splits)
    then show False using quiet_flush [of s s2] u by (simp add: quiet_def)
  qed
  have s1: "s1 = s" using b nb by (simp add: ensure_binding_def)
  obtain sh j where sh: "sd_shapes s ! a = (sh, j)" by fastforce
  show ?thesis
  proof (cases j)
    case (Some k)
    then have "s' = s" "i = k" using assms b s1 sh by (cases sh; simp add: sh_index_space_def)+
    moreover have "(sd_shapes s)[a := (sh, Some k)] = sd_shapes s" using sh Some list_update_id [of "sd_shapes s" a] by simp
    ultimately show ?thesis using nb sh Some by (intro exI [of _ "sd_rt s"]) simp
  next
    case None
    then show ?thesis using assms b s1 sh nb
      by (cases sh) (auto simp: sh_index_space_def rguard_eq_Inr split: prod.splits)
  qed
qed

lemma shapes_update_inv:
  assumes "fields_inv E s" "snd (sd_shapes s ! a) = None \<or> shape_unbound (fst (sd_shapes s ! a))"
  shows "fields_inv E (s\<lparr>sd_rt := rt, sd_shapes := (sd_shapes s)[a := p]\<rparr>)"
proof -
  let ?s = "s\<lparr>sd_rt := rt, sd_shapes := (sd_shapes s)[a := p]\<rparr>"
  have "a \<noteq> ff_shape ff" if "ff \<in> set (made s)" for ff
    using assms that by (auto simp: fields_inv_def shapes_inv_def)
  moreover have "made ?s = made s" by (simp add: made_def)
  ultimately have "shapes_inv ?s" using assms(1) by (simp add: fields_inv_def shapes_inv_def)
  moreover have "held_inv ?s = held_inv s" "regions_inv E ?s = regions_inv E s" "infos_inv ?s = infos_inv s"
    by (simp_all add: fields_inv_defs)
  ultimately show ?thesis using assms(1) by (simp add: fields_inv_def)
qed

section \<open>The queues\<close>

lemma queued_update:
  "distinct (map fst xs) \<Longrightarrow>
     mset (concat (map snd (AList.update k q xs))) + mset (case map_of xs k of None \<Rightarrow> [] | Some p \<Rightarrow> p) =
     mset (concat (map snd xs)) + mset q"
proof (induction xs)
  case (Cons x xs)
  show ?case
  proof (cases "fst x = k")
    case True
    then show ?thesis by (cases x) simp
  next
    case False
    then show ?thesis using Cons by (cases x) (auto simp: union_ac split: option.splits)
  qed
qed simp

lemma queued_set_queue:
  "shapes_inv s \<Longrightarrow> mset (queued (set_queue key q s)) + mset (ordered_queue key s) = mset (queued s) + mset q"
  using queued_update [of "fm_ordered s" key q]
  by (simp add: shapes_inv_def queued_def set_queue_def ordered_queue_def union_ac)

lemma queued_push:
  assumes "shapes_inv s"
  shows "mset (queued (set_queue key (ordered_queue key s @ [ff]) s)) = add_mset ff (mset (queued s))"
proof -
  have "mset (queued (set_queue key (ordered_queue key s @ [ff]) s)) + mset (ordered_queue key s) =
      add_mset ff (mset (queued s)) + mset (ordered_queue key s)"
    unfolding queued_set_queue [OF assms] by simp
  then show ?thesis by (rule add_right_imp_eq)
qed

lemma queued_pop:
  assumes "shapes_inv s" "ordered_queue key s = ff # rest"
  shows "add_mset ff (mset (queued (set_queue key rest s))) = mset (queued s)"
proof -
  have "add_mset ff (mset (queued (set_queue key rest s))) + mset rest = mset (queued s) + mset rest"
    using queued_set_queue [OF assms(1), of key rest] assms(2) by simp
  then show ?thesis by (rule add_right_imp_eq)
qed

lemma queued_touch: "shapes_inv s \<Longrightarrow> mset (queued (set_queue key (ordered_queue key s) s)) = mset (queued s)"
  using queued_set_queue [of s key "ordered_queue key s"] by simp

lemma distinct_sub:
  assumes "distinct (map f xs)" "mset ys \<subseteq># mset xs"
  shows "distinct (map f ys)"
proof -
  obtain zs where "mset xs = mset (ys @ zs)"
    using assms(2) by (metis ex_mset mset_append mset_subset_eq_exists_conv)
  then have "mset (map f xs) = mset (map f ys @ map f zs)" by (metis map_append mset_map)
  then have "distinct (map f ys @ map f zs)" using assms(1) mset_eq_imp_distinct_iff by blast
  then show ?thesis by simp
qed

lemma held_inv_sub:
  assumes "held_inv s" "made s' = made s" "mset (held s') \<subseteq># mset (held s)"
  shows "held_inv s'"
proof -
  have "set (held s') \<subseteq> set (held s)" using assms(3) set_mset_mono by fastforce
  then show ?thesis using assms distinct_sub [OF _ assms(3)] by (auto simp: held_inv_def latest_def)
qed

text \<open>Moving free fields between the queues, or losing some.\<close>

lemma queues_inv:
  assumes "fields_inv E s" "sd_fields s' = sd_fields s" "sd_managers s' = sd_managers s"
    "sd_next_tree s' = sd_next_tree s" "shapes_inv s'" "infos_inv s'"
    "mset (queued s') \<subseteq># mset (queued s)"
  shows "fields_inv E s'"
proof -
  have m: "made s' = made s" using assms(2) by (simp add: made_def)
  have "mset (held s') \<subseteq># mset (held s)" using assms(2,7) by (simp add: held_def)
  then have "held_inv s'" using held_inv_sub [of s s'] assms(1) m by (simp add: fields_inv_def)
  moreover have "regions_inv E s'"
    using assms(1) unfolding fields_inv_def regions_inv_def entry_of_def assms(3,4) m by blast
  ultimately show ?thesis using assms(5,6) by (simp add: fields_inv_def)
qed

lemma set_queue_shapes_inv:
  assumes "shapes_inv s" "\<forall>ff \<in> set q. ff_size ff = sz \<and> lr_index_space (ff_region ff) = i"
  shows "shapes_inv (set_queue (i, sz) q s)"
proof -
  have "made (set_queue (i, sz) q s) = made s" by (simp add: made_def set_queue_def)
  then show ?thesis using assms by (simp add: shapes_inv_def set_queue_def update_conv distinct_update)
qed

lemma ordered_queue_fits:
  "shapes_inv s \<Longrightarrow> ff \<in> set (ordered_queue (i, sz) s) \<Longrightarrow> ff_size ff = sz \<and> lr_index_space (ff_region ff) = i"
  by (auto simp: shapes_inv_def ordered_queue_def split: option.splits)

lemma ordered_queue_queued: "ff \<in> set (ordered_queue key s) \<Longrightarrow> ff \<in> set (queued s)"
proof -
  assume "ff \<in> set (ordered_queue key s)"
  then obtain q where "map_of (fm_ordered s) key = Some q" "ff \<in> set q"
    by (cases "map_of (fm_ordered s) key") (auto simp: ordered_queue_def)
  then have "(key, q) \<in> set (fm_ordered s)" by (simp add: map_of_SomeD)
  then show ?thesis using \<open>ff \<in> set q\<close> by (force simp: queued_def)
qed

lemma held_made: "held_inv s \<Longrightarrow> ff \<in> set (held s) \<Longrightarrow> ff \<in> set (made s)"
  unfolding held_inv_def latest_def by (metis find_Some_iff nth_mem set_rev)

lemma queued_made: "fields_inv E s \<Longrightarrow> ff \<in> set (queued s) \<Longrightarrow> ff \<in> set (made s)"
  by (auto simp: fields_inv_def held_def intro: held_made)

text \<open>A freed field goes to the queue of its index space and size; its index space is known.\<close>

lemma fm_free_field_spec:
  assumes "fm_free_field E ff s = Inr s'" "shapes_inv s" "ff \<in> set (made s)"
  shows "\<exists>s1. quiet s s1 \<and> (s' = s1 \<or>
    (let key = (lr_index_space (ff_region ff), ff_size ff) in s' = set_queue key (ordered_queue key s1 @ [ff]) s1))"
proof (cases "sh_ready (ff_shape ff) (submit_pending (PendingDiscard (ff_region ff) (ff_field ff)) s)")
  case False
  then show ?thesis using assms(1) quiet_submit by (auto simp: fm_free_field_def Let_def)
next
  case True
  let ?s = "submit_pending (PendingDiscard (ff_region ff) (ff_field ff)) s"
  obtain s2 i where i: "sh_index_space E (ff_shape ff) ?s = Inr (s2, i)"
    "s' = set_queue (i, ff_size ff) (ordered_queue (i, ff_size ff) s2 @ [ff]) s2"
    using assms(1) True by (auto simp: fm_free_field_def Let_def rbind_eq_Inr)
  have "snd (sd_shapes ?s ! ff_shape ff) = Some (lr_index_space (ff_region ff))"
    using assms(2,3) by (auto simp: shapes_inv_def submit_pending_def)
  then have "s2 = ?s" "i = lr_index_space (ff_region ff)" using sh_index_space_spec [OF i(1)] by auto
  then show ?thesis using i(2) quiet_submit by (auto simp: Let_def)
qed

section \<open>Operations that make no field\<close>

text \<open>A shape keeps its extents, and its index space once it has one.\<close>

definition shapes_extend :: "shard \<Rightarrow> shard \<Rightarrow> bool" where
  "shapes_extend s s' \<longleftrightarrow> length (sd_shapes s') = length (sd_shapes s) \<and>
     (\<forall>b. fst (sd_shapes s' ! b) = fst (sd_shapes s ! b)) \<and>
     (\<forall>b i. snd (sd_shapes s ! b) = Some i \<longrightarrow> snd (sd_shapes s' ! b) = Some i)"

definition evolves :: "shard \<Rightarrow> shard \<Rightarrow> bool" where
  "evolves s s' \<longleftrightarrow> sd_fields s' = sd_fields s \<and> shapes_extend s s' \<and> sd_managers s' = sd_managers s \<and>
     sd_next_tree s' = sd_next_tree s \<and> sd_mode s' = sd_mode s \<and> mset (queued s') \<subseteq># mset (queued s)"

lemma evolves_refl [simp]: "evolves s s"
  by (simp add: evolves_def shapes_extend_def)

lemma evolves_trans [trans]: "evolves s t \<Longrightarrow> evolves t u \<Longrightarrow> evolves s u"
  by (auto simp: evolves_def shapes_extend_def intro: subset_mset.order_trans)

lemma quiet_evolves: "quiet s s' \<Longrightarrow> evolves s s'"
  by (simp add: evolves_def shapes_extend_def quiet_def queued_def)

lemma evolves_fields_inv:
  "evolves s s' \<Longrightarrow> fields_inv E s \<Longrightarrow> shapes_inv s' \<Longrightarrow> infos_inv s' \<Longrightarrow> fields_inv E s'"
  unfolding evolves_def by (elim conjE) (rule queues_inv; assumption)

lemma delete_key: "distinct (map fst xs) \<Longrightarrow> map_of xs k = Some v \<Longrightarrow>
    add_mset v (mset (map snd (AList.delete k xs))) = mset (map snd xs)"
  by (induction xs) (auto simp: delete_idem split: if_splits)

lemma outstanding_inv_cong:
  "fm_outstanding s' = fm_outstanding s \<Longrightarrow> fm_infos s' = fm_infos s \<Longrightarrow> outstanding_inv s' = outstanding_inv s"
  by (simp only: outstanding_inv_def)

lemma regions_inv_cong:
  "sd_managers s' = sd_managers s \<Longrightarrow> sd_next_tree s' = sd_next_tree s \<Longrightarrow> made s' = made s \<Longrightarrow> regions_inv E s' = regions_inv E s"
  by (simp only: regions_inv_def entry_of_def)

lemma shapes_inv_cong:
  "made s' = made s \<Longrightarrow> sd_shapes s' = sd_shapes s \<Longrightarrow> fm_ordered s' = fm_ordered s \<Longrightarrow> shapes_inv s' = shapes_inv s"
  by (simp only: shapes_inv_def)

lemma infos_inv_cong: "fm_infos s' = fm_infos s \<Longrightarrow> infos_inv s' = infos_inv s"
  by (simp only: infos_inv_def)

lemma queued_delete: "infos_inv s \<Longrightarrow> map_of (fm_infos s) item = Some ff \<Longrightarrow>
    add_mset ff (mset (queued (s\<lparr>fm_infos := AList.delete item (fm_infos s)\<rparr>))) = mset (queued s)"
  using delete_key [of "fm_infos s" item ff] by (simp add: infos_inv_def queued_def)

lemma infos_delete: "infos_inv s \<Longrightarrow> infos_inv (s\<lparr>fm_infos := AList.delete item (fm_infos s)\<rparr>)"
  by (auto simp: infos_inv_def AList.delete_eq intro: distinct_map_filter)

lemma free_matched_inv:
  assumes "free_matched E item s = Inr s'" "fields_inv E s"
  shows "fields_inv E s' \<and> evolves s s' \<and> fm_outstanding s' = fm_outstanding s"
proof -
  obtain ff s2 where ff: "map_of (fm_infos s) item = Some ff" "fm_free_field E ff s = Inr s2"
    "s' = s2\<lparr>fm_infos := AList.delete item (fm_infos s2)\<rparr>"
    using assms(1) by (auto simp: free_matched_def rbind_eq_Inr split: option.splits)
  have inv: "shapes_inv s" "infos_inv s" using assms(2) by (simp_all add: fields_inv_def)
  have "ff \<in> set (queued s)" using map_of_SomeD [OF ff(1)] by (force simp: queued_def)
  then have made: "ff \<in> set (made s)" by (rule queued_made [OF assms(2)])
  obtain s1 where q: "quiet s s1" and s2: "s2 = s1 \<or> s2 = set_queue (lr_index_space (ff_region ff), ff_size ff)
      (ordered_queue (lr_index_space (ff_region ff), ff_size ff) s1 @ [ff]) s1"
    using fm_free_field_spec [OF ff(2) inv(1) made] by (auto simp: Let_def)
  have inv1: "shapes_inv s1" "infos_inv s1" "map_of (fm_infos s1) item = Some ff"
    using quiet_fields_inv [OF q, of E] assms(2) ff(1) q by (simp_all add: fields_inv_def quiet_def)
  have inv2: "shapes_inv s2" "infos_inv s2" "fm_infos s2 = fm_infos s1" "fm_outstanding s2 = fm_outstanding s1"
    using s2 inv1 ordered_queue_fits [OF inv1(1)] by (auto intro!: set_queue_shapes_inv) (auto simp: set_queue_def infos_inv_def)
  have "mset (queued s2) \<subseteq># add_mset ff (mset (queued s1))" using s2 queued_push [OF inv1(1)] by auto
  moreover have "add_mset ff (mset (queued s')) = mset (queued s2)"
    using queued_delete [OF inv2(2)] inv1(3) inv2(3) ff(3) by simp
  ultimately have "mset (queued s') \<subseteq># mset (queued s1)" by (metis mset_subset_eq_add_mset_cancel)
  then have e: "evolves s1 s'" using s2 ff(3) by (auto simp: evolves_def shapes_extend_def set_queue_def)
  have "shapes_inv s'" "infos_inv s'"
    using inv2 infos_delete [of s2 item] ff(3) by (simp_all add: shapes_inv_def made_def)
  then show ?thesis
    using evolves_fields_inv [OF evolves_trans [OF quiet_evolves [OF q] e] assms(2)] evolves_trans [OF quiet_evolves [OF q] e] ff(3)
      inv2(4) q by (simp add: quiet_def)
qed

lemma free_matched_loop:
  "rfoldM (free_matched E) items s = Inr s' \<Longrightarrow> fields_inv E s \<Longrightarrow>
     fields_inv E s' \<and> evolves s s' \<and> fm_outstanding s' = fm_outstanding s"
proof (induction items arbitrary: s)
  case (Cons item items)
  then obtain s1 where s1: "free_matched E item s = Inr s1" "rfoldM (free_matched E) items s1 = Inr s'" by (auto simp: rbind_eq_Inr)
  have i: "fields_inv E s1 \<and> evolves s s1 \<and> fm_outstanding s1 = fm_outstanding s" using free_matched_inv [OF s1(1) Cons.prems(2)] .
  then show ?case using Cons.IH [OF s1(2)] evolves_trans [of s s1 s'] by simp
qed simp

lemma process_inv:
  assumes "process_outstanding_match E s = Inr s'" "shard_inv E s"
  shows "shard_inv E s' \<and> evolves s s' \<and> fm_outstanding s' = None"
proof (cases "fm_outstanding s")
  case None
  then show ?thesis using assms by (simp add: process_outstanding_match_def)
next
  case (Some m)
  obtain s1 s2 where s1: "flush_window s = Inr s1" and s2: "rfoldM (free_matched E) (fe_agreed E (fst m)) s1 = Inr s2"
    and s': "s' = s2\<lparr>fm_unordered := fm_unordered s2 @ map snd (fm_infos s2), fm_outstanding := None, fm_infos := []\<rparr>"
    using assms(1) Some by (cases m) (auto simp: process_outstanding_match_def Let_def rbind_eq_Inr rguard_eq_Inr)
  have "fields_inv E s1" using quiet_fields_inv [OF quiet_flush [OF s1]] assms(2) by (simp add: shard_inv_def)
  then have i2: "fields_inv E s2" and e2: "evolves s s2"
    using free_matched_loop [OF s2] evolves_trans [OF quiet_evolves [OF quiet_flush [OF s1]]] by simp_all
  have "shapes_inv s'" "infos_inv s'" using i2 s' by (simp_all add: fields_inv_def shapes_inv_def made_def infos_inv_def)
  moreover have "evolves s2 s'" using s' by (simp add: evolves_def shapes_extend_def queued_def union_ac)
  ultimately show ?thesis
    using evolves_fields_inv [OF _ i2] evolves_trans [OF e2] s' by (simp add: shard_inv_def outstanding_inv_def)
qed

lemma update_new: "k \<notin> fst ` set al \<Longrightarrow> AList.update k v al = al @ [(k, v)]"
  by (induction al) auto

lemma fold_update_new:
  "distinct (map f xs) \<Longrightarrow> fst ` set al \<inter> f ` set xs = {} \<Longrightarrow>
     fold (\<lambda>x. AList.update (f x) x) xs al = al @ map (\<lambda>x. (f x, x)) xs"
  by (induction xs arbitrary: al) (auto simp: update_new)

lemma match_item_key: "match_item_of a = match_item_of b \<longleftrightarrow> ff_key a = ff_key b"
proof -
  have "(ucast (ucast x :: u64) :: u32) = x" for x :: u32 by (rule ucast_up_ucast_id) (simp add: is_up)
  then have "(ucast x :: u64) = ucast y \<longleftrightarrow> x = y" for x y :: u32 by metis
  then show ?thesis by (auto simp: match_item_of_def ff_key_def)
qed

lemma distinct_items: "distinct (map ff_key xs) \<Longrightarrow> distinct (map match_item_of xs)"
  by (induction xs) (auto simp: match_item_key)

lemma unordered_items: "held_inv s \<Longrightarrow> distinct (map match_item_of (fm_unordered s))"
  by (intro distinct_items) (auto simp: held_inv_def held_def queued_def)

lemma issue_match_inv:
  assumes "issue_match s = Inr s'" "shard_inv E s"
  shows "shard_inv E s' \<and> evolves s s'"
proof -
  let ?infos = "map (\<lambda>ff. (match_item_of ff, ff)) (fm_unordered s)"
  have d: "distinct (map match_item_of (fm_unordered s))"
    using assms(2) by (simp add: shard_inv_def fields_inv_def unordered_items)
  have i: "fm_infos s = []" using assms(1) by (auto simp: issue_match_def rguard_eq_Inr)
  have s': "s' = s\<lparr>fm_infos := ?infos, fm_unordered := [], fm_outstanding := Some (fm_matches s, map match_item_of (fm_unordered s)),
      fm_matches := fm_matches s + 1\<rparr>"
    using assms(1) i fold_update_new [OF d, of "[]"] by (simp add: issue_match_def rguard_eq_Inr Let_def)
  have "shapes_inv s'" "infos_inv s'" "outstanding_inv s'" "evolves s s'"
    using assms(2) d i s' by (simp_all add: shard_inv_def fields_inv_def shapes_inv_def made_def infos_inv_def outstanding_inv_def
        evolves_def shapes_extend_def queued_def comp_def)
  then show ?thesis using evolves_fields_inv [of s s'] assms(2) by (simp add: shard_inv_def)
qed

lemma counter_inv: "shard_inv E (s\<lparr>fm_counter := c\<rparr>) = shard_inv E s"
  by (simp add: shard_inv_def fields_inv_def fields_inv_defs outstanding_inv_def)

lemma counter_evolves: "evolves s (s\<lparr>fm_counter := c\<rparr>)"
  by (simp add: evolves_def shapes_extend_def queued_def)

lemma cm_issue_inv:
  assumes "cm_issue_field_match E s = Inr s'" "shard_inv E s"
  shows "shard_inv E s' \<and> evolves s s'"
proof (cases "fm_counter s \<ge> fe_reuse_freq E")
  case True
  then obtain s1 s2 where s1: "process_outstanding_match E s = Inr s1" and s2: "issue_match s1 = Inr s2"
    and s': "s' = s2\<lparr>fm_counter := 0\<rparr>"
    using assms(1) by (auto simp: cm_issue_field_match_def rbind_eq_Inr)
  show ?thesis using process_inv [OF s1 assms(2)] issue_match_inv [OF s2, of E] s' evolves_trans counter_evolves
    by (auto simp: counter_inv)
qed (use assms in \<open>simp add: cm_issue_field_match_def\<close>)

lemma maybe_issue_inv:
  assumes "maybe_issue_field_match E a sz s = Inr s'" "shard_inv E s"
  shows "shard_inv E s' \<and> evolves s s'"
proof -
  obtain c where c: "(if sd_mode s = STREAM_OFF then cm_issue_field_match E (s\<lparr>fm_counter := fm_counter s + c\<rparr>)
      else Inr (s\<lparr>fm_counter := fm_counter s + c\<rparr>)) = Inr s'"
    using assms(1) by (auto simp: maybe_issue_field_match_def rbind_eq_Inr Let_def)
  have "shard_inv E (s\<lparr>fm_counter := fm_counter s + c\<rparr>)" using assms(2) by (simp add: counter_inv)
  then show ?thesis
    using c cm_issue_inv [of E "s\<lparr>fm_counter := fm_counter s + c\<rparr>" s'] evolves_trans [OF counter_evolves [of s "fm_counter s + c"], of s']
    by (cases "sd_mode s = STREAM_OFF") (auto simp: counter_evolves)
qed

section \<open>Operations that make a field\<close>

lemma sh_index_space_inv:
  assumes "sh_index_space E a s = Inr (s', i)" "fields_inv E s" "a < length (sd_shapes s)"
  shows "fields_inv E s' \<and> evolves s s' \<and> queued s' = queued s \<and> fm_outstanding s' = fm_outstanding s \<and>
    fm_infos s' = fm_infos s \<and> fm_ordered s' = fm_ordered s \<and> sd_states s' = sd_states s \<and>
    snd (sd_shapes s' ! a) = Some i \<and> \<not> shape_unbound (fst (sd_shapes s' ! a))"
proof -
  obtain rt where s': "s' = s\<lparr>sd_rt := rt, sd_shapes := (sd_shapes s)[a := (fst (sd_shapes s ! a), Some i)]\<rparr>"
    and u: "\<not> shape_unbound (fst (sd_shapes s ! a))"
    and c: "snd (sd_shapes s ! a) = Some i \<and> s' = s \<or> snd (sd_shapes s ! a) = None"
    using sh_index_space_spec [OF assms(1)] by blast
  have "fields_inv E s'" using c assms(2) shapes_update_inv [OF assms(2), of a] s' by auto
  moreover have "evolves s s'" using c s' assms(3) by (auto simp: evolves_def shapes_extend_def queued_def nth_list_update)
  ultimately show ?thesis using s' u assms(3) by (simp add: queued_def)
qed

text \<open>A new region field over a field that nothing else holds.\<close>

lemma held_inv_add:
  assumes "held_inv s" "made s' = made s @ [ff]" "mset (held s') = add_mset ff (mset rest)" "mset rest \<subseteq># mset (held s)"
    "ff_key ff \<notin> ff_key ` set rest"
  shows "held_inv s'"
proof -
  have "distinct (map ff_key rest)" using assms(1,4) distinct_sub by (auto simp: held_inv_def)
  then have "distinct (map ff_key (ff # rest))" using assms(5) by auto
  then have d: "distinct (map ff_key (held s'))" using distinct_sub [of ff_key "ff # rest" "held s'"] assms(3) by simp
  have "set (held s') = insert ff (set rest)" using assms(3) by (metis set_mset_add_mset_insert set_mset_mset)
  moreover have "set rest \<subseteq> set (held s)" using assms(4) set_mset_mono by fastforce
  ultimately have "latest s' (ff_key g) = Some g" if "g \<in> set (held s')" for g
    using that assms(1,2,5) by (auto simp: latest_def held_inv_def)
  then show ?thesis using d by (simp add: held_inv_def)
qed

definition new_field :: "nat \<Rightarrow> u32 \<Rightarrow> logical_region \<Rightarrow> u32 \<Rightarrow> shard \<Rightarrow> free_field_info" where
  "new_field a sz region field s = \<lparr>ff_shape = a, ff_size = sz, ff_region = region, ff_field = field, ff_state = length (sd_states s)\<rparr>"

lemma mk_region_field_lists:
  assumes "mk_region_field a sz region field None False s = (s', r)"
  shows "made s' = made s @ [new_field a sz region field s]" "queued s' = queued s"
    "map free_field_of (filter live (sd_fields s')) = map free_field_of (filter live (sd_fields s)) @ [new_field a sz region field s]"
    "sd_managers s' = sd_managers s" "sd_next_tree s' = sd_next_tree s" "sd_shapes s' = sd_shapes s" "fm_ordered s' = fm_ordered s"
    "fm_infos s' = fm_infos s" "fm_outstanding s' = fm_outstanding s" "fm_unordered s' = fm_unordered s" "sd_mode s' = sd_mode s"
    "r = length (sd_fields s)"
  using assms by (auto simp: mk_region_field_def made_def owner_def live_def free_field_of_def new_field_def queued_def)

lemma make_inv:
  assumes "mk_region_field a sz region field None False s1 = (s', r)"
    and "held_inv s" "regions_inv E s1" "shapes_inv s1" "infos_inv s1" "sd_fields s1 = sd_fields s" "mset (queued s1) \<subseteq># mset (queued s)"
    and key: "(lr_tree region, field) \<notin> ff_key ` set (map free_field_of (filter live (sd_fields s)) @ queued s1)"
    and field: "FIELD_ID_BASE \<le> unat field" "entry_of s1 (lr_index_space region) e" "me_region e = region" "unat field < unat (me_next e)"
    and shape: "a < length (sd_shapes s1)" "\<not> shape_unbound (fst (sd_shapes s1 ! a))" "snd (sd_shapes s1 ! a) = Some (lr_index_space region)"
  shows "fields_inv E s'"
proof -
  note l = mk_region_field_lists [OF assms(1)]
  let ?ff = "new_field a sz region field s1" and ?rest = "map free_field_of (filter live (sd_fields s)) @ queued s1"
  have m: "made s1 = made s" using assms(6) by (simp add: made_def)
  have "held_inv s'"
  proof (rule held_inv_add [OF assms(2)])
    show "made s' = made s @ [?ff]" using l(1) m by simp
    show "mset (held s') = add_mset ?ff (mset ?rest)" using l(2,3) assms(6) by (simp add: held_def)
    show "mset ?rest \<subseteq># mset (held s)" using assms(7) by (simp add: held_def)
    show "ff_key ?ff \<notin> ff_key ` set ?rest" using key by (simp add: ff_key_def new_field_def)
  qed
  moreover have "regions_inv E s'"
    using assms(3) field unfolding regions_inv_def entry_of_def l(1,4,5) by (auto simp: new_field_def)
  moreover have "shapes_inv s'" using assms(4) shape unfolding shapes_inv_def l(1,6,7) by (auto simp: new_field_def)
  moreover have "infos_inv s'" using assms(5) by (simp add: infos_inv_def l(8))
  ultimately show ?thesis by (simp add: fields_inv_def)
qed

text \<open>What a call that makes a field gives: a new region field of the shape and size, over the index space of the shape.\<close>

definition creates :: "nat \<Rightarrow> u32 \<Rightarrow> shard \<Rightarrow> shard \<Rightarrow> nat \<Rightarrow> bool" where
  "creates a sz s s' r \<longleftrightarrow> r = length (sd_fields s) \<and> shapes_extend s s' \<and> sd_mode s' = sd_mode s \<and>
     (\<exists>rf. sd_fields s' = sd_fields s @ [rf] \<and> live rf \<and> \<not> rf_out_of_order rf \<and> rf_shape rf = a \<and> rf_size rf = sz \<and>
        snd (sd_shapes s' ! a) = Some (lr_index_space (rf_region rf)))"

lemma evolves_creates: "evolves s s1 \<Longrightarrow> creates a sz s1 s' r \<Longrightarrow> creates a sz s s' r"
  by (auto simp: creates_def evolves_def shapes_extend_def)

lemma creates_cong:
  "sd_fields s = sd_fields t \<Longrightarrow> sd_shapes s = sd_shapes t \<Longrightarrow> sd_mode s = sd_mode t \<Longrightarrow> sd_fields s' = sd_fields t' \<Longrightarrow>
     sd_shapes s' = sd_shapes t' \<Longrightarrow> sd_mode s' = sd_mode t' \<Longrightarrow> creates a sz s s' r = creates a sz t t' r"
  by (simp only: creates_def shapes_extend_def)

lemma mk_creates:
  "mk_region_field a sz region field None False s = (s', r) \<Longrightarrow> snd (sd_shapes s ! a) = Some (lr_index_space region) \<Longrightarrow>
     creates a sz s s' r"
  by (auto simp: mk_region_field_def creates_def live_def owner_def shapes_extend_def)

lemma set_queue_simps [simp]:
  "sd_fields (set_queue key q s) = sd_fields s" "sd_shapes (set_queue key q s) = sd_shapes s"
  "sd_managers (set_queue key q s) = sd_managers s" "sd_next_tree (set_queue key q s) = sd_next_tree s"
  "sd_mode (set_queue key q s) = sd_mode s" "fm_infos (set_queue key q s) = fm_infos s"
  "fm_outstanding (set_queue key q s) = fm_outstanding s" "sd_states (set_queue key q s) = sd_states s"
  "infos_inv (set_queue key q s) = infos_inv s" "regions_inv E (set_queue key q s) = regions_inv E s"
  by (simp_all add: set_queue_def infos_inv_def regions_inv_def entry_of_def made_def)

lemma ordered_queue_set [simp]: "ordered_queue key (set_queue key q s) = q"
  by (simp add: ordered_queue_def set_queue_def update_conv)

lemma mk_set_queue: "mk_region_field a sz region field p n s = (s', r) \<Longrightarrow>
    mk_region_field a sz region field p n (set_queue key q s) = (set_queue key q s', r)"
  by (auto simp: mk_region_field_def set_queue_def)

lemma reuse_inv:
  assumes inv: "fields_inv E s" and oq: "ordered_queue (i, sz) s = info # rest"
    and mk: "mk_region_field a sz (ff_region info) (ff_field info) None False s = (s', r)"
    and shape: "a < length (sd_shapes s)" "\<not> shape_unbound (fst (sd_shapes s ! a))" "snd (sd_shapes s ! a) = Some i"
  shows "fields_inv E (set_queue (i, sz) rest s') \<and> creates a sz s (set_queue (i, sz) rest s') r"
proof -
  let ?t = "set_queue (i, sz) rest s"
  have mk': "mk_region_field a sz (ff_region info) (ff_field info) None False ?t = (set_queue (i, sz) rest s', r)"
    by (rule mk_set_queue [OF mk])
  have i: "held_inv s" "regions_inv E s" "shapes_inv s" "infos_inv s" using inv by (simp_all add: fields_inv_def)
  have fits: "lr_index_space (ff_region info) = i" "\<forall>ff \<in> set rest. ff_size ff = sz \<and> lr_index_space (ff_region ff) = i"
    using ordered_queue_fits [OF i(3), of _ i sz] unfolding oq by auto
  have pop: "add_mset info (mset (queued ?t)) = mset (queued s)" by (rule queued_pop [OF i(3) oq])
  have "info \<in> set (queued s)" using ordered_queue_queued [of info "(i, sz)" s] oq by simp
  then have "info \<in> set (made s)" by (rule queued_made [OF inv])
  then have field: "FIELD_ID_BASE \<le> unat (ff_field info)" "\<exists>e. entry_of s (lr_index_space (ff_region info)) e \<and>
      me_region e = ff_region info \<and> unat (ff_field info) < unat (me_next e)"
    using i(2) unfolding regions_inv_def by blast+
  let ?rest = "map free_field_of (filter live (sd_fields s)) @ queued ?t"
  have "mset (info # ?rest) \<subseteq># mset (held s)" using pop by (simp add: held_def)
  then have "distinct (map ff_key (info # ?rest))" by (rule distinct_sub [rotated]) (use i(1) in \<open>simp add: held_inv_def\<close>)
  then have "ff_key info \<notin> ff_key ` set ?rest" by (metis distinct.simps(2) list.simps(9) set_map)
  then have key: "(lr_tree (ff_region info), ff_field info) \<notin> ff_key ` set ?rest" by (simp only: ff_key_def [of info, symmetric] not_False_eq_True)
  obtain e where e: "entry_of s (lr_index_space (ff_region info)) e" "me_region e = ff_region info"
    "unat (ff_field info) < unat (me_next e)" using field(2) by blast
  have "mset (queued ?t) \<subseteq># mset (queued s)" using pop by (metis mset_subset_eq_insertD subset_mset.less_imp_le subset_mset.order_refl)
  then have "fields_inv E (set_queue (i, sz) rest s')"
    using i e field(1) fits key shape set_queue_shapes_inv [OF i(3) fits(2)]
    by (intro make_inv [OF mk' i(1)]) (simp_all add: entry_of_def)
  moreover have "creates a sz s (set_queue (i, sz) rest s') r"
    using mk_creates [OF mk] shape(3) fits(1) creates_cong [of s s "set_queue (i, sz) rest s'" s'] by simp
  ultimately show ?thesis by simp
qed

lemma touch_inv:
  assumes "fields_inv E s"
  shows "fields_inv E (set_queue (i, sz) (ordered_queue (i, sz) s) s) \<and> evolves s (set_queue (i, sz) (ordered_queue (i, sz) s) s)"
proof -
  let ?t = "set_queue (i, sz) (ordered_queue (i, sz) s) s"
  have inv: "shapes_inv s" using assms by (simp add: fields_inv_def)
  have "shapes_inv ?t" using ordered_queue_fits [OF inv] by (intro set_queue_shapes_inv [OF inv]) blast
  moreover have "evolves s ?t" using queued_touch [OF inv] by (simp add: evolves_def shapes_extend_def)
  moreover have "infos_inv ?t" using assms by (simp add: fields_inv_def)
  ultimately show ?thesis using evolves_fields_inv [OF _ assms] by blast
qed

lemma try_reuse_inv:
  assumes "try_reuse_field E a sz s = Inr (s', r)" "shard_inv E s" "a < length (sd_shapes s)"
  shows "shard_inv E s' \<and> (case r of None \<Rightarrow> evolves s s' | Some r \<Rightarrow> creates a sz s s' r)"
proof (cases "sh_ready a s")
  case False
  then show ?thesis using assms by (auto simp: try_reuse_field_def)
next
  case True
  obtain s1 i where s1: "sh_index_space E a s = Inr (s1, i)" using assms(1) True by (auto simp: try_reuse_field_def rbind_eq_Inr)
  have inv: "fields_inv E s" using assms(2) by (simp add: shard_inv_def)
  note j = sh_index_space_inv [OF s1 inv assms(3)]
  let ?t = "set_queue (i, sz) (ordered_queue (i, sz) s1) s1"
  have t: "fields_inv E ?t" "evolves s ?t" "outstanding_inv ?t"
    using j touch_inv [of E s1 i sz] evolves_trans [of s s1 ?t] assms(2) by (auto simp: shard_inv_def outstanding_inv_def)
  show ?thesis
  proof (cases "ordered_queue (i, sz) s1")
    case Nil
    then show ?thesis using assms(1) True s1 t by (auto simp: try_reuse_field_def Let_def shard_inv_def)
  next
    case (Cons info rest)
    obtain s3 where s3: "deallocate_attachment True (ff_state info) ?t = Inr s3"
      and c: "(case mk_region_field a sz (ff_region info) (ff_field info) None False s3 of (s, rf) \<Rightarrow>
        Inr (set_queue (i, sz) rest s, Some rf)) = (Inr (s', r) :: (shard \<times> nat option) result)"
      using assms(1) True s1 Cons by (auto simp: try_reuse_field_def Let_def rbind_eq_Inr)
    obtain s4 rf where s4: "mk_region_field a sz (ff_region info) (ff_field info) None False s3 = (s4, rf)" by fastforce
    have s': "s' = set_queue (i, sz) rest s4" "r = Some rf" using c s4 by simp_all
    have q: "quiet ?t s3" by (rule quiet_deallocate [OF s3])
    have inv3: "fields_inv E s3" using quiet_fields_inv [OF q] t(1) by simp
    have oq: "ordered_queue (i, sz) s3 = info # rest" using q Cons by (simp add: quiet_def ordered_queue_def set_queue_def update_conv)
    have shape: "a < length (sd_shapes s3)" "\<not> shape_unbound (fst (sd_shapes s3 ! a))" "snd (sd_shapes s3 ! a) = Some i"
      using q j assms(3) by (auto simp: quiet_def evolves_def shapes_extend_def)
    have "evolves s s3" using evolves_trans [OF t(2) quiet_evolves [OF q]] .
    moreover have "outstanding_inv s'"
      using t(3) q s'(1) mk_region_field_lists [OF s4] outstanding_inv_cong [of s' ?t] by (simp add: quiet_def)
    ultimately show ?thesis using reuse_inv [OF inv3 oq s4 shape] s' evolves_creates by (auto simp: shard_inv_def)
  qed
qed

lemma made_entry:
  "regions_inv E s \<Longrightarrow> ff \<in> set (made s) \<Longrightarrow> FIELD_ID_BASE \<le> unat (ff_field ff) \<and>
     (\<exists>e. entry_of s (lr_index_space (ff_region ff)) e \<and> me_region e = ff_region ff \<and> unat (ff_field ff) < unat (me_next e))"
  by (simp only: regions_inv_def)

text \<open>Region managers: the identifiers fit into 32 bits.\<close>

definition env_ok :: "field_env \<Rightarrow> bool" where
  "env_ok E \<longleftrightarrow> 0 < fe_max_fields E \<and> FIELD_ID_BASE + unat (fe_max_fields E) < 2 ^ 32"

lemma unat_field_base: "unat field_base = FIELD_ID_BASE"
  by (simp add: field_base_def FIELD_ID_BASE_def unat_of_nat)

lemma has_space_next:
  assumes "env_ok E" "me_next e - field_base < fe_max_fields E" "FIELD_ID_BASE \<le> unat (me_next e)"
  shows "unat (me_next e) < FIELD_ID_BASE + unat (fe_max_fields E)"
proof -
  have "unat (me_next e - field_base) = unat (me_next e) - FIELD_ID_BASE"
    using assms(3) by (subst unat_sub) (simp_all add: word_le_nat_alt unat_field_base)
  then show ?thesis using assms(2,3) by (simp add: word_less_nat_alt)
qed

lemma add_entry_inv:
  assumes "regions_inv E s" and new: "sd_managers s' = (sd_managers s)(i := sd_managers s i @ [e])"
    "lr_tree (me_region e) = sd_next_tree s" "lr_index_space (me_region e) = i"
    "FIELD_ID_BASE \<le> unat (me_next e) \<and> unat (me_next e) \<le> FIELD_ID_BASE + unat (fe_max_fields E)"
    "sd_next_tree s' = sd_next_tree s + 1" "made s' = made s"
  shows "regions_inv E s' \<and> entry_of s' i e"
proof -
  have entry: "entry_of s' j f \<longleftrightarrow> entry_of s j f \<or> j = i \<and> f = e" for j f by (auto simp: entry_of_def new(1))
  have old: "lr_tree (me_region f) \<noteq> sd_next_tree s" if "entry_of s j f" for j f
    using assms that unfolding regions_inv_def by fastforce
  have fresh: "lr_tree (me_region e) \<notin> (\<lambda>f. lr_tree (me_region f)) ` set (sd_managers s i)"
    using old [of i] new(2) by (force simp: entry_of_def)
  have d: "distinct (map (lr_tree \<circ> me_region) (sd_managers s j))" for j using assms by (simp add: regions_inv_def)
  have "regions_inv E s'"
    unfolding regions_inv_def
  proof (intro conjI)
    show "\<forall>j. distinct (map (lr_tree \<circ> me_region) (sd_managers s' j))"
      using d fresh by (auto simp: new(1))
    show "\<forall>j f. entry_of s' j f \<longrightarrow> lr_index_space (me_region f) = j \<and> lr_tree (me_region f) < sd_next_tree s' \<and>
        unat (me_next f) \<le> FIELD_ID_BASE + unat (fe_max_fields E) \<and> FIELD_ID_BASE \<le> unat (me_next f)"
      using assms new unfolding entry regions_inv_def by (auto simp: less_Suc_eq)
    show "\<forall>j k f g. entry_of s' j f \<longrightarrow> entry_of s' k g \<longrightarrow> lr_tree (me_region f) = lr_tree (me_region g) \<longrightarrow> j = k"
      using assms old new(2) unfolding entry regions_inv_def by metis
    show "\<forall>ff \<in> set (made s'). FIELD_ID_BASE \<le> unat (ff_field ff) \<and> (\<exists>f. entry_of s' (lr_index_space (ff_region ff)) f \<and>
        me_region f = ff_region ff \<and> unat (ff_field ff) < unat (me_next f))"
      using assms unfolding entry new(6) regions_inv_def by blast
  qed
  then show ?thesis by (simp add: entry)
qed

lemma push_entry_inv:
  assumes "regions_inv E s"
  shows "regions_inv E (push_entry i s)"
proof -
  let ?e = "\<lparr>me_region = \<lparr>lr_tree = sd_next_tree s, lr_index_space = i, lr_field_space = rt_field_spaces (sd_rt s)\<rparr>, me_next = field_base\<rparr>"
  have "regions_inv E (push_entry i s) \<and> entry_of (push_entry i s) i ?e"
    by (rule add_entry_inv [OF assms]) (simp_all add: push_entry_def create_field_space_def unat_field_base made_def)
  then show ?thesis by simp
qed

text \<open>The next identifier of the last region of an index space goes up by one.\<close>

lemma bump_inv:
  assumes "regions_inv E s" "sd_managers s i = es @ [e]" "unat (me_next e) < FIELD_ID_BASE + unat (fe_max_fields E)" "env_ok E"
    and s': "sd_managers s' = (sd_managers s)(i := es @ [e\<lparr>me_next := me_next e + 1\<rparr>])" "sd_next_tree s' = sd_next_tree s"
      "made s' = made s"
  shows "regions_inv E s' \<and> entry_of s' i (e\<lparr>me_next := me_next e + 1\<rparr>)"
proof -
  let ?e = "e\<lparr>me_next := me_next e + 1\<rparr>"
  have n: "unat (me_next ?e) = unat (me_next e) + 1"
    using assms(3,4) by (simp add: env_ok_def unat_word_ariths)
  have new: "entry_of s' j f \<Longrightarrow> entry_of s j f \<or> j = i \<and> f = ?e" for j f
    by (auto simp: entry_of_def s'(1) assms(2) split: if_splits)
  have keep: "entry_of s j f \<Longrightarrow> entry_of s' j f \<or> j = i \<and> f = e" for j f by (auto simp: entry_of_def s'(1) assms(2))
  have e: "entry_of s i e" "entry_of s' i ?e" by (simp_all add: entry_of_def s'(1) assms(2))
  have "regions_inv E s'"
    unfolding regions_inv_def
  proof (intro conjI)
    show "\<forall>j. distinct (map (lr_tree \<circ> me_region) (sd_managers s' j))"
    proof
      fix j
      have "map (lr_tree \<circ> me_region) (sd_managers s' j) = map (lr_tree \<circ> me_region) (sd_managers s j)"
        by (simp add: s'(1) assms(2))
      then show "distinct (map (lr_tree \<circ> me_region) (sd_managers s' j))" using assms(1) by (simp add: regions_inv_def)
    qed
    have e_ok: "lr_index_space (me_region e) = i \<and> lr_tree (me_region e) < sd_next_tree s \<and> FIELD_ID_BASE \<le> unat (me_next e)"
      using assms(1) e(1) unfolding regions_inv_def by blast
    show "\<forall>j f. entry_of s' j f \<longrightarrow> lr_index_space (me_region f) = j \<and> lr_tree (me_region f) < sd_next_tree s' \<and>
        unat (me_next f) \<le> FIELD_ID_BASE + unat (fe_max_fields E) \<and> FIELD_ID_BASE \<le> unat (me_next f)"
    proof (intro allI impI)
      fix j f assume "entry_of s' j f"
      from new [OF this] show "lr_index_space (me_region f) = j \<and> lr_tree (me_region f) < sd_next_tree s' \<and>
          unat (me_next f) \<le> FIELD_ID_BASE + unat (fe_max_fields E) \<and> FIELD_ID_BASE \<le> unat (me_next f)"
        using e_ok n assms(1,3) s'(2) unfolding regions_inv_def by auto
    qed
    show "\<forall>j k f g. entry_of s' j f \<longrightarrow> entry_of s' k g \<longrightarrow> lr_tree (me_region f) = lr_tree (me_region g) \<longrightarrow> j = k"
    proof (intro allI impI)
      fix j k f g assume fg: "entry_of s' j f" "entry_of s' k g" "lr_tree (me_region f) = lr_tree (me_region g)"
      have "\<exists>f'. entry_of s j f' \<and> me_region f' = me_region f" if "entry_of s' j f" for j f using new [OF that] e(1) by auto
      then obtain f' g' where "entry_of s j f'" "entry_of s k g'" "me_region f' = me_region f" "me_region g' = me_region g"
        using fg(1,2) by meson
      then show "j = k" using assms(1) fg(3) unfolding regions_inv_def by metis
    qed
    show "\<forall>ff \<in> set (made s'). FIELD_ID_BASE \<le> unat (ff_field ff) \<and> (\<exists>f. entry_of s' (lr_index_space (ff_region ff)) f \<and>
        me_region f = ff_region ff \<and> unat (ff_field ff) < unat (me_next f))"
    proof
      fix ff assume "ff \<in> set (made s')"
      then obtain f where f: "FIELD_ID_BASE \<le> unat (ff_field ff)" "entry_of s (lr_index_space (ff_region ff)) f"
        "me_region f = ff_region ff" "unat (ff_field ff) < unat (me_next f)"
        using assms(1) unfolding s'(3) regions_inv_def by meson
      show "FIELD_ID_BASE \<le> unat (ff_field ff) \<and> (\<exists>f. entry_of s' (lr_index_space (ff_region ff)) f \<and>
          me_region f = ff_region ff \<and> unat (ff_field ff) < unat (me_next f))"
      proof (cases "f = e")
        case True
        then have "lr_index_space (ff_region ff) = i" using f(3) e_ok by simp
        then show ?thesis using f n e(2) True by (intro conjI exI [of _ ?e]) simp_all
      next
        case False
        then show ?thesis using keep [OF f(2)] f by (intro conjI exI [of _ f]) simp_all
      qed
    qed
  qed
  then show ?thesis using e(2) by simp
qed

lemma rm_allocate_inv:
  assumes "rm_allocate_field E i sz s = (s', region, field)" "regions_inv E s" "env_ok E"
  shows "regions_inv E s' \<and> (\<exists>e. entry_of s' i e \<and> me_region e = region \<and> unat (me_next e) = unat field + 1) \<and>
    lr_index_space region = i \<and> FIELD_ID_BASE \<le> unat field \<and>
    (\<forall>ff \<in> set (made s). ff_key ff \<noteq> (lr_tree region, field))"
    "sd_fields s' = sd_fields s" "sd_shapes s' = sd_shapes s" "sd_mode s' = sd_mode s" "fm_ordered s' = fm_ordered s"
    "fm_unordered s' = fm_unordered s" "fm_infos s' = fm_infos s" "fm_outstanding s' = fm_outstanding s" "sd_states s' = sd_states s"
proof -
  let ?s = "if has_space E (sd_managers s i) then s else push_entry i s"
  let ?e = "last (sd_managers ?s i)" and ?es = "butlast (sd_managers ?s i)"
  have inv: "regions_inv E ?s" using assms(2) push_entry_inv by simp
  have ne: "sd_managers ?s i \<noteq> []" by (auto simp: has_space_def push_entry_def create_field_space_def)
  then have es: "sd_managers ?s i = ?es @ [?e]" by simp
  have e: "entry_of ?s i ?e" unfolding entry_of_def by (rule last_in_set [OF ne])
  have made: "made ?s = made s" by (simp add: made_def push_entry_def create_field_space_def)
  have ok: "lr_index_space (me_region ?e) = i" "FIELD_ID_BASE \<le> unat (me_next ?e)"
    using inv e unfolding regions_inv_def by blast+
  have room: "unat (me_next ?e) < FIELD_ID_BASE + unat (fe_max_fields E)"
  proof (cases "has_space E (sd_managers s i)")
    case True
    then show ?thesis using ok(2) by (intro has_space_next [OF assms(3)]) (simp_all add: has_space_def)
  next
    case False
    then have "me_next ?e = field_base" by (simp add: push_entry_def create_field_space_def)
    then show ?thesis using assms(3) by (simp add: unat_field_base env_ok_def word_less_nat_alt)
  qed
  have s': "region = me_region ?e" "field = me_next ?e" "sd_managers s' = (sd_managers ?s)(i := ?es @ [?e\<lparr>me_next := me_next ?e + 1\<rparr>])"
    "sd_next_tree s' = sd_next_tree ?s" "sd_fields s' = sd_fields ?s" "sd_shapes s' = sd_shapes ?s" "sd_mode s' = sd_mode ?s"
    "fm_ordered s' = fm_ordered ?s" "fm_unordered s' = fm_unordered ?s" "fm_infos s' = fm_infos ?s"
    "fm_outstanding s' = fm_outstanding ?s" "sd_states s' = sd_states ?s"
    using assms(1) by (auto simp: rm_allocate_field_def Let_def allocate_field_def)
  have b: "regions_inv E s' \<and> entry_of s' i (?e\<lparr>me_next := me_next ?e + 1\<rparr>)"
    using s'(5) by (intro bump_inv [OF inv es room assms(3) s'(3,4)]) (simp add: made_def)
  have n: "unat (me_next (?e\<lparr>me_next := me_next ?e + 1\<rparr>)) = unat field + 1"
    using room assms(3) s'(2) by (simp add: env_ok_def unat_word_ariths)
  have "ff_key ff \<noteq> (lr_tree region, field)" if mem: "ff \<in> set (made s)" for ff
  proof
    assume k: "ff_key ff = (lr_tree region, field)"
    obtain f where f: "entry_of ?s (lr_index_space (ff_region ff)) f" "me_region f = ff_region ff" "unat (ff_field ff) < unat (me_next f)"
      using made_entry [OF inv, of ff] mem unfolding made by blast
    have t: "lr_tree (me_region f) = lr_tree (me_region ?e)" using k f(2) s'(1) by (simp add: ff_key_def)
    then have "lr_index_space (ff_region ff) = i" using inv f(1) e unfolding regions_inv_def by blast
    then have "f \<in> set (sd_managers ?s i)" using f(1) by (simp add: entry_of_def)
    moreover have "inj_on (lr_tree \<circ> me_region) (set (sd_managers ?s i))" using inv by (simp add: regions_inv_def distinct_map)
    ultimately have "f = ?e" using t e unfolding entry_of_def inj_on_def comp_def by blast
    then show False using f(3) k s'(2) by (simp add: ff_key_def)
  qed
  then show "regions_inv E s' \<and> (\<exists>e. entry_of s' i e \<and> me_region e = region \<and> unat (me_next e) = unat field + 1) \<and>
    lr_index_space region = i \<and> FIELD_ID_BASE \<le> unat field \<and> (\<forall>ff \<in> set (made s). ff_key ff \<noteq> (lr_tree region, field))"
    using b n ok s'(1,2) by (intro conjI exI [of _ "?e\<lparr>me_next := me_next ?e + 1\<rparr>"]) simp_all
qed (use assms(1) in \<open>auto simp: rm_allocate_field_def Let_def allocate_field_def push_entry_def create_field_space_def\<close>)

lemma create_new_inv:
  assumes "create_new_field E a sz s = Inr (s', r)" "shard_inv E s" "a < length (sd_shapes s)" "env_ok E"
  shows "shard_inv E s' \<and> creates a sz s s' r"
proof -
  obtain s1 i where s1: "sh_index_space E a s = Inr (s1, i)" using assms(1) by (auto simp: create_new_field_def rbind_eq_Inr)
  obtain s2 region field where s2: "rm_allocate_field E i sz s1 = (s2, region, field)" by (metis prod_cases3)
  have mk: "mk_region_field a sz region field None False s2 = (s', r)" using assms(1) s1 s2 by (simp add: create_new_field_def)
  have inv: "fields_inv E s" using assms(2) by (simp add: shard_inv_def)
  note j = sh_index_space_inv [OF s1 inv assms(3)]
  have i1: "held_inv s1" "regions_inv E s1" "shapes_inv s1" "infos_inv s1" using j by (simp_all add: fields_inv_def)
  note r = rm_allocate_inv [OF s2 i1(2) assms(4)]
  obtain e where e: "entry_of s2 i e" "me_region e = region" "unat field < unat (me_next e)" using r(1) by auto
  have q: "queued s2 = queued s1" using r by (simp add: queued_def)
  have key: "(lr_tree region, field) \<notin> ff_key ` set (map free_field_of (filter live (sd_fields s1)) @ queued s2)"
    using r(1) held_made [OF i1(1)] q by (auto simp: held_def dest!: spec)
  have shape: "a < length (sd_shapes s2)" "\<not> shape_unbound (fst (sd_shapes s2 ! a))" "snd (sd_shapes s2 ! a) = Some (lr_index_space region)"
    using j r(1) assms(3) unfolding r(3) evolves_def shapes_extend_def by metis+
  have sh: "shapes_inv s2" "infos_inv s2" using i1 r by (simp_all add: shapes_inv_def made_def infos_inv_def)
  have "fields_inv E s'"
    using r(1) e q by (intro make_inv [OF mk i1(1) _ sh r(2) _ key _ _ _ _ shape]) simp_all
  moreover have "outstanding_inv s'"
    using assms(2) j r mk_region_field_lists [OF mk] outstanding_inv_cong [of s' s] by (simp add: shard_inv_def)
  moreover have "creates a sz s1 s' r"
    using mk_creates [OF mk shape(3)] r creates_cong [of s2 s1 s' s'] by simp
  ultimately show ?thesis using j evolves_creates [of s s1 a sz s' r] by (simp add: shard_inv_def)
qed

lemma reuse_or_create:
  assumes r: "rbind (try_reuse_field E a sz s) (\<lambda>(s, rf). case rf of Some i \<Rightarrow> Inr (s, i) | None \<Rightarrow> k s) = Inr (s', r)"
    and inv: "shard_inv E s" "a < length (sd_shapes s)"
    and k: "\<And>s1. evolves s s1 \<Longrightarrow> shard_inv E s1 \<Longrightarrow> k s1 = Inr (s', r) \<Longrightarrow> shard_inv E s' \<and> creates a sz s1 s' r"
  shows "shard_inv E s' \<and> creates a sz s s' r"
proof -
  obtain s1 rf where s1: "try_reuse_field E a sz s = Inr (s1, rf)"
    and c: "(case rf of Some i \<Rightarrow> Inr (s1, i) | None \<Rightarrow> k s1) = Inr (s', r)"
    using r by (auto simp: rbind_eq_Inr)
  note i = try_reuse_inv [OF s1 inv]
  show ?thesis
  proof (cases rf)
    case None
    then have e: "evolves s s1" "shard_inv E s1" "k s1 = Inr (s', r)" using i c by simp_all
    show ?thesis using k [OF e] evolves_creates [OF e(1)] by blast
  next
    case (Some x)
    then show ?thesis using i c by simp
  qed
qed

lemma evolves_length: "evolves s s' \<Longrightarrow> length (sd_shapes s') = length (sd_shapes s)"
  by (simp add: evolves_def shapes_extend_def)

lemma create_region_field_inv:
  assumes "create_region_field E a sz s = Inr (s', r)" "shard_inv E s" "a < length (sd_shapes s)" "env_ok E"
  shows "shard_inv E s' \<and> creates a sz s s' r"
proof (cases "fe_consensus E")
  case False
  then have c: "rbind (try_reuse_field E a sz s) (\<lambda>(s, rf). case rf of Some i \<Rightarrow> Inr (s, i) | None \<Rightarrow> create_new_field E a sz s) =
      Inr (s', r)"
    using assms(1) by (simp only: create_region_field_def fm_allocate_field_def if_False)
  show ?thesis
  proof (rule reuse_or_create [OF c assms(2,3)])
    fix s1 assume s1: "evolves s s1" "shard_inv E s1" "create_new_field E a sz s1 = Inr (s', r)"
    have "a < length (sd_shapes s1)" using evolves_length [OF s1(1)] assms(3) by simp
    then show "shard_inv E s' \<and> creates a sz s1 s' r" by (rule create_new_inv [OF s1(3,2) _ assms(4)])
  qed
next
  case True
  then obtain s1 where s1: "maybe_issue_field_match E a sz s = Inr s1"
    and c: "rbind (try_reuse_field E a sz s1) (\<lambda>(s, rf). case rf of Some i \<Rightarrow> Inr (s, i) | None \<Rightarrow>
      (if fm_outstanding s \<noteq> None
       then rbind (process_outstanding_match E s) (\<lambda>s. rbind (try_reuse_field E a sz s) (\<lambda>(s, rf).
              case rf of Some i \<Rightarrow> Inr (s, i) | None \<Rightarrow> create_new_field E a sz s))
       else create_new_field E a sz s)) = Inr (s', r)"
    using assms(1) by (auto simp: create_region_field_def cm_allocate_field_def rbind_eq_Inr)
  have i1: "shard_inv E s1" "evolves s s1" using maybe_issue_inv [OF s1 assms(2)] by simp_all
  have l1: "a < length (sd_shapes s1)" using evolves_length [OF i1(2)] assms(3) by simp
  have "shard_inv E s' \<and> creates a sz s1 s' r"
  proof (rule reuse_or_create [OF c i1(1) l1])
    fix s2 assume s2: "evolves s1 s2" "shard_inv E s2"
      "(if fm_outstanding s2 \<noteq> None
        then rbind (process_outstanding_match E s2) (\<lambda>s. rbind (try_reuse_field E a sz s) (\<lambda>(s, rf).
               case rf of Some i \<Rightarrow> Inr (s, i) | None \<Rightarrow> create_new_field E a sz s))
        else create_new_field E a sz s2) = Inr (s', r)"
    have l2: "a < length (sd_shapes s2)" using evolves_length [OF s2(1)] l1 by simp
    show "shard_inv E s' \<and> creates a sz s2 s' r"
    proof (cases "fm_outstanding s2 = None")
      case True
      then show ?thesis using s2(3) create_new_inv [OF _ s2(2) l2 assms(4)] by simp
    next
      case False
      then obtain s3 where s3: "process_outstanding_match E s2 = Inr s3"
        and c3: "rbind (try_reuse_field E a sz s3) (\<lambda>(s, rf). case rf of Some i \<Rightarrow> Inr (s, i) | None \<Rightarrow> create_new_field E a sz s) =
          Inr (s', r)"
        using s2(3) by (auto simp: rbind_eq_Inr)
      have i3: "shard_inv E s3" "evolves s2 s3" using process_inv [OF s3 s2(2)] by simp_all
      have l3: "a < length (sd_shapes s3)" using evolves_length [OF i3(2)] l2 by simp
      have "shard_inv E s' \<and> creates a sz s3 s' r"
      proof (rule reuse_or_create [OF c3 i3(1) l3])
        fix s4 assume s4: "evolves s3 s4" "shard_inv E s4" "create_new_field E a sz s4 = Inr (s', r)"
        have "a < length (sd_shapes s4)" using evolves_length [OF s4(1)] l3 by simp
        then show "shard_inv E s' \<and> creates a sz s4 s' r" by (rule create_new_inv [OF s4(3,2) _ assms(4)])
      qed
      then show ?thesis using evolves_creates [OF i3(2)] by blast
    qed
  qed
  then show ?thesis using evolves_creates [OF i1(2)] by blast
qed

section \<open>Releasing a field\<close>

lemma live_update:
  "i < length fs \<Longrightarrow> live (fs ! i) \<Longrightarrow> \<not> live rf \<Longrightarrow>
     add_mset (free_field_of (fs ! i)) (mset (map free_field_of (filter live (fs[i := rf])))) =
     mset (map free_field_of (filter live fs))"
  by (induction fs arbitrary: i) (auto split: nat.splits)

lemma free_field_inv:
  assumes "free_field E ff unordered s = Inr s'" "shard_inv E s" "ff \<in> set (made s)"
  shows "shapes_inv s' \<and> infos_inv s' \<and> fm_infos s' = fm_infos s \<and> fm_outstanding s' = fm_outstanding s \<and>
    sd_fields s' = sd_fields s \<and> shapes_extend s s' \<and> sd_managers s' = sd_managers s \<and> sd_next_tree s' = sd_next_tree s \<and>
    sd_mode s' = sd_mode s \<and> mset (queued s') \<subseteq># add_mset ff (mset (queued s))"
proof -
  have inv: "shapes_inv s" "infos_inv s" using assms(2) by (simp_all add: shard_inv_def fields_inv_def)
  show ?thesis
  proof (cases "fe_consensus E \<and> unordered")
    case True
    then have "s' = s\<lparr>fm_unordered := fm_unordered s @ [ff]\<rparr>" using assms(1) by (simp add: free_field_def cm_free_field_def)
    then show ?thesis using inv by (simp add: shapes_inv_def infos_inv_def made_def queued_def shapes_extend_def)
  next
    case False
    then have "fm_free_field E ff s = Inr s'" using assms(1) by (auto simp: free_field_def cm_free_field_def split: if_splits)
    then obtain s1 where q: "quiet s s1" and s': "s' = s1 \<or> s' = set_queue (lr_index_space (ff_region ff), ff_size ff)
        (ordered_queue (lr_index_space (ff_region ff), ff_size ff) s1 @ [ff]) s1"
      using fm_free_field_spec [OF _ inv(1) assms(3)] by (metis (no_types, lifting))
    have inv1: "shapes_inv s1" "infos_inv s1"
      using quiet_fields_inv [OF q, of E] assms(2) by (simp_all add: shard_inv_def fields_inv_def)
    have "shapes_inv s'" "infos_inv s'"
      using s' inv1 ordered_queue_fits [OF inv1(1)] by (auto intro!: set_queue_shapes_inv)
    moreover have "mset (queued s') \<subseteq># add_mset ff (mset (queued s))"
      using s' queued_push [OF inv1(1)] q by (auto simp: quiet_def queued_def)
    ultimately show ?thesis using s' q by (auto simp: quiet_def shapes_extend_def)
  qed
qed

lemma release_inv:
  assumes "release_region_field E i s = Inr s'" "shard_inv E s" "i < length (sd_fields s)"
  shows "shard_inv E s' \<and> made s' = made s \<and> sd_managers s' = sd_managers s \<and> shapes_extend s s' \<and> sd_mode s' = sd_mode s"
proof (cases "live (sd_fields s ! i)")
  case False
  let ?f = "\<lambda>rf. if rf_non_owning rf then rf\<lparr>rf_released := True\<rparr> else rf"
  have s': "s' = s \<or> s' = map_field i ?f s"
    using assms(1) False by (auto simp: release_region_field_def live_def owner_def Let_def map_field_def split: if_splits)
  have "shard_inv E (map_field i ?f s) = shard_inv E s"
    by (rule flags_shard_inv) (simp_all add: free_field_of_def owner_def live_def)
  moreover have "made (map_field i ?f s) = made s"
    unfolding made_def map_field_def using filter_update [of ?f owner] by (simp add: free_field_of_def owner_def)
  ultimately show ?thesis using s' assms(2) by (auto simp: shapes_extend_def map_field_def)
next
  case True
  let ?rf = "sd_fields s ! i"
  let ?s = "submit_pending (PendingRelease (rf_state ?rf) (rf_out_of_order ?rf)) (map_state (rf_state ?rf) ps_set_pending_detach s)"
  obtain s2 where s2: "free_field E (free_field_of ?rf) (rf_out_of_order ?rf) ?s = Inr s2"
    and s': "s' = map_field i (\<lambda>rf. rf\<lparr>rf_released := True\<rparr>) (set_mapped False i s2)"
    using assms(1) True by (auto simp: release_region_field_def live_def owner_def Let_def rbind_eq_Inr)
  have q: "quiet s ?s" using quiet_map_state quiet_submit quiet_trans by blast
  have inv1: "shard_inv E ?s" using quiet_shard_inv [OF q] assms(2) by simp
  have made1: "made ?s = made s" "queued ?s = queued s" using q by (simp_all add: quiet_def made_def queued_def)
  have "free_field_of ?rf \<in> set (made ?s)" using True assms(3) unfolding made1 by (auto simp: made_def live_def)
  note f = free_field_inv [OF s2 inv1 this]
  let ?new = "?rf\<lparr>rf_mapped := False, rf_released := True\<rparr>"
  have fs: "sd_fields s' = (sd_fields s)[i := ?new]"
    using s' f q assms(3) by (simp add: map_field_def set_mapped_def quiet_def)
  have same: "queued s' = queued s2" "sd_managers s' = sd_managers s2" "sd_shapes s' = sd_shapes s2" "fm_ordered s' = fm_ordered s2"
    "sd_next_tree s' = sd_next_tree s2" "fm_infos s' = fm_infos s2" "fm_outstanding s' = fm_outstanding s2" "sd_mode s' = sd_mode s2"
    using s' by (simp_all add: map_field_def set_mapped_def queued_def)
  have m: "made s' = made s"
    using filter_update [of "\<lambda>rf. rf\<lparr>rf_mapped := False, rf_released := True\<rparr>" owner "sd_fields s" i]
    by (simp add: made_def fs free_field_of_def owner_def)
  let ?live = "\<lambda>s. mset (map free_field_of (filter live (sd_fields s)))"
  have l: "add_mset (free_field_of ?rf) (?live s') = ?live s"
    unfolding fs using live_update [OF assms(3) True, of ?new] by (simp add: live_def)
  have "?live s' + mset (queued s2) \<subseteq># ?live s' + add_mset (free_field_of ?rf) (mset (queued s))"
    using f unfolding made1(2) by (simp only: mset_subset_eq_mono_add_left_cancel)
  also have "\<dots> = ?live s + mset (queued s)" unfolding l [symmetric] by simp
  finally have "mset (held s') \<subseteq># mset (held s)" by (simp only: held_def mset_append same(1))
  then have "held_inv s'" using held_inv_sub [OF _ m] assms(2) by (simp add: shard_inv_def fields_inv_def)
  moreover have "regions_inv E s'"
    using assms(2) f q regions_inv_cong [of s' s] by (simp add: shard_inv_def fields_inv_def same m quiet_def)
  moreover have "made s' = made s2" using f m made1(1) by (simp add: made_def)
  then have "shapes_inv s'" "infos_inv s'"
    using f shapes_inv_cong [of s' s2] infos_inv_cong [of s' s2] by (simp_all add: same)
  moreover have "outstanding_inv s'" using f inv1 outstanding_inv_cong [of s' ?s] by (simp add: same shard_inv_def)
  moreover have "sd_managers s' = sd_managers s" "sd_mode s' = sd_mode s" "shapes_extend s s'"
    using f q by (simp_all add: same shapes_extend_def quiet_def)
  ultimately show ?thesis using m by (simp add: shard_inv_def fields_inv_def)
qed

section \<open>Outputs of a task\<close>

lemma shapes_change_inv:
  assumes "shard_inv E s" "sd_fields s' = sd_fields s" "sd_managers s' = sd_managers s" "sd_next_tree s' = sd_next_tree s"
    "fm_ordered s' = fm_ordered s" "fm_unordered s' = fm_unordered s" "fm_infos s' = fm_infos s" "fm_outstanding s' = fm_outstanding s"
    and shapes: "length (sd_shapes s) \<le> length (sd_shapes s')"
      "\<And>b. b < length (sd_shapes s) \<Longrightarrow> \<not> shape_unbound (fst (sd_shapes s ! b)) \<Longrightarrow>
         \<not> shape_unbound (fst (sd_shapes s' ! b)) \<and> snd (sd_shapes s' ! b) = snd (sd_shapes s ! b)"
  shows "shard_inv E s'"
proof -
  have m: "made s' = made s" "held s' = held s" using assms(2,5,6,7) by (simp_all add: made_def held_def queued_def)
  have "shapes_inv s'"
    unfolding shapes_inv_def m(1)
  proof (intro conjI ballI)
    fix ff assume "ff \<in> set (made s)"
    then have "ff_shape ff < length (sd_shapes s)" "\<not> shape_unbound (fst (sd_shapes s ! ff_shape ff))"
      "snd (sd_shapes s ! ff_shape ff) = Some (lr_index_space (ff_region ff))"
      using assms(1) by (auto simp: shard_inv_def fields_inv_def shapes_inv_def)
    then show "ff_shape ff < length (sd_shapes s')" "\<not> shape_unbound (fst (sd_shapes s' ! ff_shape ff))"
      "snd (sd_shapes s' ! ff_shape ff) = Some (lr_index_space (ff_region ff))" using shapes by auto
  qed (use assms(1,5) in \<open>simp_all add: shard_inv_def fields_inv_def shapes_inv_def\<close>)
  moreover have "held_inv s' = held_inv s" by (simp only: held_inv_def latest_def m)
  ultimately show ?thesis
    using assms(1) m regions_inv_cong [OF assms(3,4) m(1)] infos_inv_cong [OF assms(7)] outstanding_inv_cong [OF assms(8,7)]
    by (simp add: shard_inv_def fields_inv_def)
qed

lemma set_index_space_inv:
  assumes "(if shape_unbound (fst (sd_shapes s ! a)) then sh_set_index_space a i d s else Inr s) = Inr s'" "shard_inv E s"
    "a < length (sd_shapes s)" "shape_unbound (fst (sd_shapes s ! a)) \<or> snd (sd_shapes s ! a) = Some i"
  shows "shard_inv E s' \<and> \<not> shape_unbound (fst (sd_shapes s' ! a)) \<and> snd (sd_shapes s' ! a) = Some i \<and>
    made s' = made s \<and> sd_managers s' = sd_managers s \<and> length (sd_shapes s') = length (sd_shapes s) \<and>
    (\<forall>b. shape_unbound (fst (sd_shapes s ! b)) \<or> snd (sd_shapes s ! b) = Some i \<longrightarrow>
       shape_unbound (fst (sd_shapes s' ! b)) \<or> snd (sd_shapes s' ! b) = Some i)"
proof (cases "shape_unbound (fst (sd_shapes s ! a))")
  case True
  then have s': "s' = s\<lparr>sd_shapes := (sd_shapes s)[a := (BoundShape d, Some i)]\<rparr>"
    using assms(1) by (simp add: sh_set_index_space_def)
  have "shard_inv E s'" using True by (intro shapes_change_inv [OF assms(2)]) (auto simp: s' nth_list_update assms(3))
  then show ?thesis using s' assms(3) by (auto simp: made_def nth_list_update)
qed (use assms in \<open>auto simp: made_def\<close>)

text \<open>What the loop over the stores needs: the fields that remain are free and below the next identifier of the region.\<close>

definition outputs_ok :: "field_env \<Rightarrow> logical_region \<Rightarrow> u32 \<Rightarrow> (nat \<times> u32) list \<Rightarrow> manager_entry \<Rightarrow> shard \<Rightarrow> bool" where
  "outputs_ok E region field stores e s \<longleftrightarrow> shard_inv E s \<and> entry_of s (lr_index_space region) e \<and> me_region e = region \<and>
     unat field + length stores \<le> unat (me_next e) \<and> FIELD_ID_BASE \<le> unat field \<and>
     (\<forall>ff \<in> set (made s). lr_tree (ff_region ff) = lr_tree region \<longrightarrow> unat (ff_field ff) < unat field) \<and>
     (\<forall>(a, sz) \<in> set stores. a < length (sd_shapes s) \<and>
        (shape_unbound (fst (sd_shapes s ! a)) \<or> snd (sd_shapes s ! a) = Some (lr_index_space region)))"

lemma outputs_step:
  assumes "outputs_ok E region field ((a, sz) # stores) e s"
    and s1: "(if shape_unbound (fst (sd_shapes s ! a)) then sh_set_index_space a (lr_index_space region) d s else Inr s) = Inr s1"
    and s2: "(if fe_consensus E then maybe_issue_field_match E a sz s1 else Inr s1) = Inr s2"
    and mk: "mk_region_field a sz region field None False s2 = (s3, r)"
  shows "shard_inv E s1 \<and> shard_inv E s2 \<and> outputs_ok E region (field + 1) stores e s3"
proof -
  let ?i = "lr_index_space region"
  have ok: "shard_inv E s" "entry_of s ?i e" "me_region e = region" "unat field + length ((a, sz) # stores) \<le> unat (me_next e)"
    "FIELD_ID_BASE \<le> unat field" "\<forall>ff \<in> set (made s). lr_tree (ff_region ff) = lr_tree region \<longrightarrow> unat (ff_field ff) < unat field"
    "\<forall>(a, sz) \<in> set ((a, sz) # stores). a < length (sd_shapes s) \<and>
       (shape_unbound (fst (sd_shapes s ! a)) \<or> snd (sd_shapes s ! a) = Some ?i)"
    using assms(1) unfolding outputs_ok_def by blast+
  have i1: "shard_inv E s1" "\<not> shape_unbound (fst (sd_shapes s1 ! a))" "snd (sd_shapes s1 ! a) = Some ?i" "made s1 = made s"
    "sd_managers s1 = sd_managers s" "length (sd_shapes s1) = length (sd_shapes s)"
    and keep: "shape_unbound (fst (sd_shapes s ! b)) \<or> snd (sd_shapes s ! b) = Some ?i \<Longrightarrow>
      shape_unbound (fst (sd_shapes s1 ! b)) \<or> snd (sd_shapes s1 ! b) = Some ?i" for b
    using set_index_space_inv [OF s1 ok(1)] ok(7) by auto
  have i2: "shard_inv E s2" "evolves s1 s2" using s2 maybe_issue_inv [of E a sz s1 s2] i1(1) by (auto split: if_splits)
  have m2: "made s2 = made s" "sd_managers s2 = sd_managers s" "length (sd_shapes s2) = length (sd_shapes s)"
    using i2(2) i1(4-6) by (simp_all add: evolves_def shapes_extend_def made_def)
  have shape: "a < length (sd_shapes s2)" "\<not> shape_unbound (fst (sd_shapes s2 ! a))" "snd (sd_shapes s2 ! a) = Some ?i"
    using i2(2) i1(2,3) m2(3) ok(7) by (auto simp: evolves_def shapes_extend_def)
  have inv: "held_inv s2" "regions_inv E s2" "shapes_inv s2" "infos_inv s2" using i2(1) by (simp_all add: shard_inv_def fields_inv_def)
  have key: "(lr_tree region, field) \<notin> ff_key ` set (map free_field_of (filter live (sd_fields s2)) @ queued s2)"
  proof
    assume "(lr_tree region, field) \<in> ff_key ` set (map free_field_of (filter live (sd_fields s2)) @ queued s2)"
    then obtain ff where ff: "ff \<in> set (held s2)" "(lr_tree region, field) = ff_key ff" unfolding held_def [symmetric] by (rule imageE)
    then have "ff \<in> set (made s)" using held_made [OF inv(1)] m2(1) by simp
    then show False using ok(6) ff(2) by (force simp: ff_key_def)
  qed
  note l = mk_region_field_lists [OF mk]
  have "unat field < unat (me_next e)" using ok(4) by auto
  then have "fields_inv E s3"
    using ok(2,3,5) by (intro make_inv [OF mk inv(1) inv(2) inv(3) inv(4) _ _ key _ _ _ _ shape]) (simp_all add: entry_of_def m2)
  then have i3: "shard_inv E s3" using i2(1) outstanding_inv_cong [of s3 s2] l by (simp add: shard_inv_def)
  have f1: "unat (field + 1) = unat field + 1"
  proof -
    have "unat (me_next e) < 2 ^ 32" using unsigned_less [where 'a = nat, of "me_next e"] by simp
    then show ?thesis using ok(4) by (simp add: unat_word_ariths)
  qed
  have "outputs_ok E region (field + 1) stores e s3"
    unfolding outputs_ok_def
  proof (intro conjI)
    show "shard_inv E s3" by (rule i3)
    show "entry_of s3 ?i e" using ok(2) by (simp add: entry_of_def l m2)
    show "me_region e = region" by (rule ok(3))
    show "unat (field + 1) + length stores \<le> unat (me_next e)" "FIELD_ID_BASE \<le> unat (field + 1)"
      using ok(4,5) f1 by simp_all
    show "\<forall>ff \<in> set (made s3). lr_tree (ff_region ff) = lr_tree region \<longrightarrow> unat (ff_field ff) < unat (field + 1)"
      using ok(6) f1 by (auto simp: l m2 new_field_def less_Suc_eq)
    show "\<forall>(a, sz) \<in> set stores. a < length (sd_shapes s3) \<and>
        (shape_unbound (fst (sd_shapes s3 ! a)) \<or> snd (sd_shapes s3 ! a) = Some ?i)"
    proof (clarify)
      fix b sz' assume "(b, sz') \<in> set stores"
      then have "b < length (sd_shapes s)" "shape_unbound (fst (sd_shapes s ! b)) \<or> snd (sd_shapes s ! b) = Some ?i"
        using ok(7) by auto
      then show "b < length (sd_shapes s3) \<and> (shape_unbound (fst (sd_shapes s3 ! b)) \<or> snd (sd_shapes s3 ! b) = Some ?i)"
        using keep [of b] i2(2) m2(3) by (auto simp: l evolves_def shapes_extend_def)
    qed
  qed
  then show ?thesis using i1(1) i2(1) by simp
qed

lemma outputs_loop:
  assumes "import_output_fields E (number_fields region d field stores) s = Inr s'" "outputs_ok E region field stores e s"
  shows "shard_inv E s'"
  using assms
proof (induction stores arbitrary: field s)
  case Nil
  then show ?case by (simp add: outputs_ok_def)
next
  case (Cons st stores)
  obtain a sz where st: "st = (a, sz)" by fastforce
  obtain s1 s2 s3 r where s1: "(if shape_unbound (fst (sd_shapes s ! a)) then sh_set_index_space a (lr_index_space region) d s else Inr s) = Inr s1"
    and s2: "(if fe_consensus E then maybe_issue_field_match E a sz s1 else Inr s1) = Inr s2"
    and mk: "mk_region_field a sz region field None False s2 = (s3, r)"
    and s': "import_output_fields E (number_fields region d (field + 1) stores) s3 = Inr s'"
    using Cons.prems(1) by (fastforce simp: st import_region_field_def rbind_eq_Inr)
  show ?case using outputs_step [OF Cons.prems(2) [unfolded st] s1 s2 mk] Cons.IH [OF s'] by simp
qed

definition output_start :: "nat \<Rightarrow> nat \<Rightarrow> nat \<Rightarrow> shard \<Rightarrow> shard" where
  "output_start i fs n s = import_region \<lparr>lr_tree = sd_next_tree s, lr_index_space = i, lr_field_space = fs\<rparr> (of_nat n)
     (s\<lparr>sd_next_tree := sd_next_tree s + 1\<rparr>)"

lemma task_outputs_eq:
  "task_outputs E i fs d stores s =
     (if stores = [] then Inr (s\<lparr>sd_next_tree := sd_next_tree s + 1\<rparr>)
      else import_output_fields E (number_fields \<lparr>lr_tree = sd_next_tree s, lr_index_space = i, lr_field_space = fs\<rparr> d field_base stores)
        (output_start i fs (length stores) s))"
  by (cases stores) (auto simp: task_outputs_def legion_region_def post_process_unbound_stores_def import_output_regions_def output_start_def)

lemma task_outputs_start:
  assumes "shard_inv E s" "admissible E (Outputs i fs d stores) s" "env_ok E"
  shows "outputs_ok E \<lparr>lr_tree = sd_next_tree s, lr_index_space = i, lr_field_space = fs\<rparr> field_base stores
    \<lparr>me_region = \<lparr>lr_tree = sd_next_tree s, lr_index_space = i, lr_field_space = fs\<rparr>, me_next = field_base + of_nat (length stores)\<rparr>
    (output_start i fs (length stores) s)"
proof -
  let ?region = "\<lparr>lr_tree = sd_next_tree s, lr_index_space = i, lr_field_space = fs\<rparr>"
  let ?e = "\<lparr>me_region = ?region, me_next = field_base + of_nat (length stores)\<rparr>"
  let ?s = "output_start i fs (length stores) s"
  have n: "unat (me_next ?e) = FIELD_ID_BASE + length stores"
    using assms(2,3) unat_field_base by (simp add: env_ok_def unat_word_ariths unat_of_nat)
  have inv: "held_inv s" "regions_inv E s" "shapes_inv s" "infos_inv s" using assms(1) by (simp_all add: shard_inv_def fields_inv_def)
  have m: "made ?s = made s" "held ?s = held s" by (simp_all add: output_start_def import_region_def made_def held_def queued_def)
  have r: "regions_inv E ?s \<and> entry_of ?s i ?e"
    using n assms(2) by (intro add_entry_inv [OF inv(2)]) (simp_all add: output_start_def import_region_def m made_def)
  have "held_inv ?s" using inv(1) unfolding held_inv_def latest_def m .
  moreover have "shapes_inv ?s" using inv(3) shapes_inv_cong [of ?s s] m by (simp add: output_start_def import_region_def)
  moreover have "infos_inv ?s" "outstanding_inv ?s"
    using inv(4) infos_inv_cong [of ?s s] outstanding_inv_cong [of ?s s] assms(1) by (simp_all add: output_start_def import_region_def shard_inv_def)
  ultimately have si: "shard_inv E ?s" using r by (simp add: shard_inv_def fields_inv_def)
  have old: "lr_tree (ff_region ff) < sd_next_tree s" if mem: "ff \<in> set (made s)" for ff
    using made_entry [OF inv(2) mem] inv(2) unfolding regions_inv_def by metis
  show ?thesis
    unfolding outputs_ok_def
  proof (intro conjI)
    show "shard_inv E ?s" "entry_of ?s (lr_index_space ?region) ?e" "me_region ?e = ?region" using si r by simp_all
    show "unat field_base + length stores \<le> unat (me_next ?e)" "FIELD_ID_BASE \<le> unat field_base"
      using n by (simp_all add: unat_field_base)
    show "\<forall>ff \<in> set (made ?s). lr_tree (ff_region ff) = lr_tree ?region \<longrightarrow> unat (ff_field ff) < unat field_base"
      unfolding m using old by fastforce
    show "\<forall>(a, sz) \<in> set stores. a < length (sd_shapes ?s) \<and>
        (shape_unbound (fst (sd_shapes ?s ! a)) \<or> snd (sd_shapes ?s ! a) = Some (lr_index_space ?region))"
      using assms(2) by (simp add: output_start_def import_region_def)
  qed
qed

lemma task_outputs_inv:
  assumes "task_outputs E i fs d stores s = Inr s'" "shard_inv E s" "admissible E (Outputs i fs d stores) s" "env_ok E"
  shows "shard_inv E s'"
proof (cases "stores = []")
  case True
  then have "s' = s\<lparr>sd_next_tree := sd_next_tree s + 1\<rparr>" using assms(1) by (simp add: task_outputs_eq)
  then show ?thesis using assms(2) by (auto simp: shard_inv_def fields_inv_def fields_inv_defs outstanding_inv_def less_Suc_eq)
next
  case False
  then show ?thesis using outputs_loop [OF _ task_outputs_start [OF assms(2-4)]] assms(1) by (simp add: task_outputs_eq)
qed

section \<open>Every step keeps the invariant\<close>

lemma view_inv:
  assumes "shard_inv E s" "made s' = made s" "map free_field_of (filter live (sd_fields s')) = map free_field_of (filter live (sd_fields s))"
    "sd_managers s' = sd_managers s" "sd_next_tree s' = sd_next_tree s" "sd_shapes s' = sd_shapes s" "fm_ordered s' = fm_ordered s"
    "fm_unordered s' = fm_unordered s" "fm_infos s' = fm_infos s" "fm_outstanding s' = fm_outstanding s"
  shows "shard_inv E s'"
  using assms(1) fields_inv_cong [OF assms(2) [unfolded made_def] assms(3-9), of E] outstanding_inv_cong [OF assms(10,9)]
  by (simp add: shard_inv_def)

lemma mapped_inv: "shard_inv E (set_mapped b i s) = shard_inv E s"
  unfolding set_mapped_def by (rule flags_shard_inv) (simp_all add: free_field_of_def owner_def live_def)

lemma allow_inv: "shard_inv E (allow_out_of_order_destruction i s) = shard_inv E s"
  unfolding allow_out_of_order_destruction_def by (rule flags_shard_inv) (simp_all add: free_field_of_def owner_def live_def)

lemma mode_inv: "shard_inv E (s\<lparr>sd_mode := m\<rparr>) = shard_inv E s"
  by (simp add: shard_inv_def fields_inv_def fields_inv_defs outstanding_inv_def)

lemma detach_inv:
  assumes "rf_detach i s = Inr s'" "shard_inv E s"
  shows "shard_inv E s'"
proof -
  let ?a = "rf_state (sd_fields s ! i)"
  obtain s1 s2 where s1: "flush_window s = Inr s1" and s2: "deallocate_attachment True ?a (map_state ?a (ps_detach \<circ> ps_unmap) s1) = Inr s2"
    and s': "s' = set_mapped False i s2"
    using assms(1) by (auto simp: rf_detach_def Let_def rbind_eq_Inr rguard_eq_Inr)
  have "quiet s s2" using quiet_trans [OF quiet_flush [OF s1] quiet_trans [OF quiet_map_state quiet_deallocate [OF s2]]] .
  then show ?thesis using quiet_shard_inv assms(2) s' by (simp add: mapped_inv)
qed

lemma child_inv: "shard_inv E s \<Longrightarrow> shard_inv E (fst (rf_get_child region i s))"
  by (rule view_inv [of E s]) (auto simp: rf_get_child_def mk_region_field_def Let_def made_def owner_def live_def)

lemma extents_inv:
  assumes "sh_extents a s = Inr (s', es)" "shard_inv E s" "a < length (sd_shapes s)"
  shows "shard_inv E s'"
proof -
  obtain s1 where s1: "ensure_binding a s = Inr s1" using assms(1) by (auto simp: sh_extents_def rbind_eq_Inr)
  then have q: "quiet s s1" using quiet_flush [of s s1] by (auto simp: ensure_binding_def rbind_eq_Inr split: if_splits)
  obtain sh i where sh: "sd_shapes s1 ! a = (sh, i)" by fastforce
  have inv: "shard_inv E s1" using quiet_shard_inv [OF q] assms(2) by simp
  have "a < length (sd_shapes s1)" using q assms(3) by (simp add: quiet_def)
  then have "shard_inv E (s1\<lparr>sd_shapes := (sd_shapes s1)[a := (ReadyShape es, i)]\<rparr>)" for es
    using sh by (intro shapes_change_inv [OF inv]) (auto simp: nth_list_update)
  then show ?thesis using assms(1) s1 sh inv by (cases sh) (auto simp: sh_extents_def)
qed

lemma new_shape_inv: "shard_inv E s \<Longrightarrow> shard_inv E (s\<lparr>sd_shapes := sd_shapes s @ [p]\<rparr>)"
  by (rule shapes_change_inv [of E s]) (auto simp: nth_append)

lemma field_step_inv:
  assumes "field_step E c s = Inr s'" "admissible E c s" "shard_inv E s" "env_ok E"
  shows "shard_inv E s'"
proof (cases c)
  case (CreateField a sz)
  then show ?thesis using assms create_region_field_inv [of E a sz s s'] by (auto simp: rbind_eq_Inr)
next
  case (ReadExtents a)
  then show ?thesis using assms extents_inv by (auto simp: rbind_eq_Inr)
next
  case (Outputs i fs d stores)
  then show ?thesis using assms task_outputs_inv [of E i fs d stores s s'] by simp
next
  case (Destroy i)
  then show ?thesis using assms release_inv by simp
next
  case (DestroyLater i)
  then show ?thesis using assms release_inv by simp
next
  case MatchFields
  then show ?thesis using assms cm_issue_inv by (auto simp: issue_field_match_def split: if_splits)
next
  case (MapField h i)
  then show ?thesis using assms quiet_shard_inv [OF quiet_map_state] by (auto simp: rf_map_region_def Let_def mapped_inv)
next
  case (UnmapField i)
  then show ?thesis using assms quiet_shard_inv [OF quiet_map_state] by (auto simp: rf_unmap_def Let_def mapped_inv)
next
  case (AttachField h i)
  then show ?thesis using assms quiet_shard_inv [OF quiet_map_state] by (auto simp: rf_attach_def Let_def rguard_eq_Inr)
next
  case (SetMode mode)
  then show ?thesis using assms quiet_shard_inv [OF quiet_launch_window] by (auto simp: mode_inv)
qed (use assms quiet_shard_inv [OF quiet_flush] in \<open>auto simp: new_shape_inv child_inv allow_inv detach_inv\<close>)

lemma field_run_inv: "field_run E s cs t \<Longrightarrow> shard_inv E s \<Longrightarrow> env_ok E \<Longrightarrow> shard_inv E t"
  by (induction rule: field_run.induct) (auto intro: field_step_inv)

section \<open>What holds of every run\<close>

lemma run_inv: "field_run E (initial_shard rt) cs s \<Longrightarrow> env_ok E \<Longrightarrow> shard_inv E s"
  using field_run_inv initial_inv by blast

lemma distinct_map_nth: "distinct (map f xs) \<Longrightarrow> i < length xs \<Longrightarrow> j < length xs \<Longrightarrow> f (xs ! i) = f (xs ! j) \<Longrightarrow> i = j"
  by (metis distinct_conv_nth length_map nth_map)

lemma live_nth_distinct:
  "distinct (map f (filter P xs)) \<Longrightarrow> i < length xs \<Longrightarrow> j < length xs \<Longrightarrow> P (xs ! i) \<Longrightarrow> P (xs ! j) \<Longrightarrow>
     f (xs ! i) = f (xs ! j) \<Longrightarrow> i = j"
proof (induction xs arbitrary: i j)
  case (Cons a xs)
  have d: "distinct (map f (filter P xs))" using Cons.prems(1) by (auto split: if_splits)
  have f: "f a \<noteq> f (xs ! m)" if "P a" "P (xs ! m)" "m < length xs" for m
  proof -
    have "f (xs ! m) \<in> set (map f (filter P xs))" using that(2,3) by auto
    moreover have "f a \<notin> set (map f (filter P xs))" using Cons.prems(1) that(1) by (simp only: filter.simps if_True list.map distinct.simps simp_thms)
    ultimately show ?thesis by metis
  qed
  show ?case
  proof (cases i)
    case 0
    then show ?thesis using Cons.prems f by (cases j) auto
  next
    case (Suc n)
    then show ?thesis using Cons.prems f [of n] Cons.IH [OF d] by (cases j) auto
  qed
qed simp

text \<open>C12: A field backs at most one store. In every run of the program, two region fields that are both in use
  (they own their field and were not released) are never the same field of the same region tree, whether they were made
  fresh, recycled or imported from a task; and a field in use is in none of the queues from which fields are recycled,
  also while a consensus match is outstanding.\<close>

theorem fields_not_shared:
  assumes "field_run E (initial_shard rt) cs s" "env_ok E"
    "i < length (sd_fields s)" "live (sd_fields s ! i)"
  shows "(\<forall>ff \<in> set (queued s). ff_key ff \<noteq> ff_key (free_field_of (sd_fields s ! i))) \<and>
    \<not> (\<exists>j. j < length (sd_fields s) \<and> j \<noteq> i \<and> live (sd_fields s ! j) \<and>
          ff_key (free_field_of (sd_fields s ! j)) = ff_key (free_field_of (sd_fields s ! i)))"
proof -
  have d: "distinct (map ff_key (held s))"
    using run_inv [OF assms(1,2)] by (simp add: shard_inv_def fields_inv_def held_inv_def)
  let ?live = "map free_field_of (filter live (sd_fields s))"
  have mem: "free_field_of (sd_fields s ! i) \<in> set ?live" using assms(3,4) by (auto intro!: imageI)
  have disj: "ff_key ` set ?live \<inter> ff_key ` set (queued s) = {}"
    using d by (simp only: held_def map_append distinct_append set_map)
  have "distinct (map (ff_key \<circ> free_field_of) (filter live (sd_fields s)))"
    using d unfolding held_def map_append distinct_append by simp
  from live_nth_distinct [OF this] disj mem show ?thesis using assms(3,4) by fastforce
qed

text \<open>C20: Field identifiers stay within their bounds. In every run of the program, the identifier of a region field
  that owns its field lies between the first identifier and the number of fields of a region, its region is one that was
  made for the index space of its shape, and the next identifier of every region stays within the same bounds, so that
  none is ever handed out twice or wraps around.\<close>

theorem field_ids_bounded:
  assumes "field_run E (initial_shard rt) cs s" "env_ok E" "rf \<in> set (sd_fields s)" "owner rf"
  shows "10000 \<le> unat (rf_field rf) \<and> unat (rf_field rf) < 10000 + unat (fe_max_fields E) \<and>
    snd (sd_shapes s ! rf_shape rf) = Some (lr_index_space (rf_region rf)) \<and>
    (\<exists>e. e \<in> set (sd_managers s (lr_index_space (rf_region rf))) \<and> me_region e = rf_region rf \<and>
       unat (rf_field rf) < unat (me_next e) \<and> unat (me_next e) \<le> 10000 + unat (fe_max_fields E))"
proof -
  have inv: "regions_inv E s" "shapes_inv s"
    using run_inv [OF assms(1,2)] by (simp_all add: shard_inv_def fields_inv_def)
  let ?ff = "free_field_of rf"
  have ff: "?ff \<in> set (made s)" "ff_shape ?ff = rf_shape rf" "ff_region ?ff = rf_region rf" "ff_field ?ff = rf_field rf"
    using assms(3,4) by (simp_all add: made_def) (simp_all add: free_field_of_def)
  obtain e where e: "FIELD_ID_BASE \<le> unat (rf_field rf)" "entry_of s (lr_index_space (rf_region rf)) e" "me_region e = rf_region rf"
    "unat (rf_field rf) < unat (me_next e)" using made_entry [OF inv(1) ff(1)] ff by auto
  have "unat (me_next e) \<le> FIELD_ID_BASE + unat (fe_max_fields E)" using inv(1) e(2) unfolding regions_inv_def by blast
  moreover have "snd (sd_shapes s ! rf_shape rf) = Some (lr_index_space (rf_region rf))"
    using inv(2) ff unfolding shapes_inv_def by metis
  ultimately show ?thesis using e by (auto simp: entry_of_def FIELD_ID_BASE_def)
qed

section \<open>An example\<close>

fun run_commands :: "field_env \<Rightarrow> field_command list \<Rightarrow> shard \<Rightarrow> shard result" where
  "run_commands E [] s = Inr s"
| "run_commands E (c # cs) s = rguard (admissible E c s) CheckFailed (rbind (field_step E c s) (run_commands E cs))"

lemma run_commands_run: "run_commands E cs s = Inr t \<Longrightarrow> field_run E s cs t"
  by (induction cs arbitrary: s) (auto simp: rguard_eq_Inr rbind_eq_Inr intro: field_run.intros)

definition ex_field_env :: field_env where
  "ex_field_env = \<lparr>fe_max_dim = 4, fe_max_fields = 2, fe_reuse_freq = 2, fe_reuse_size = 1000, fe_consensus = True,
     fe_agreed = (\<lambda>k. if k = 1 then [\<lparr>mi_tree = 0, mi_field = 10000\<rparr>] else [])\<rparr>"

definition ex_rt :: runtime where
  "ex_rt = \<lparr>rt_storages = [], rt_stores = [], rt_cache = Map.empty, rt_projections = empty_projections, rt_field_spaces = 0,
     rt_fields = [], rt_index_spaces = Map.empty, rt_next_index_space = 0\<rparr>"

definition ex_commands :: "field_command list" where
  "ex_commands = [NewShape (ReadyShape [4]), CreateField 0 8, AllowOutOfOrder 0, CreateField 0 8, DestroyLater 0,
     CreateField 0 8, CreateField 0 8]"

lemma field_base_eval: "field_base = 10000"
  by (simp add: field_base_def FIELD_ID_BASE_def)

lemma two_one: "\<not> (2 :: u32) \<le> 1"
  by (simp add: word_le_nat_alt)

lemmas ex_eval = two_one ex_commands_def ex_field_env_def ex_rt_def initial_shard_def create_region_field_def cm_allocate_field_def
  maybe_issue_field_match_def calculate_match_credit_def sh_ready_def shape_volume_def array_volume_def Let_def cm_issue_field_match_def
  process_outstanding_match_def flush_window_def launch_window_def free_matched_def fm_free_field_def submit_pending_def
  sh_index_space_def ensure_binding_def find_or_create_index_space_def ordered_queue_def set_queue_def try_reuse_field_def
  deallocate_attachment_def map_state_def mk_region_field_def create_new_field_def rm_allocate_field_def has_space_def push_entry_def
  create_field_space_def allocate_field_def field_base_eval issue_match_def match_item_of_def allow_out_of_order_destruction_def
  map_field_def rf_root.simps release_region_field_def free_field_def cm_free_field_def free_field_of_def set_mapped_def
  ps_set_pending_detach_def new_physical_state_def at_exists_def ps_invoke_callbacks_def ps_detach_def ps_unmap_def
  at_maybe_deallocate_def live_def owner_def

lemma ex_run_fields:
  "\<exists>s. field_run ex_field_env (initial_shard ex_rt) ex_commands s \<and>
     map (\<lambda>rf. (lr_tree (rf_region rf), rf_field rf)) (sd_fields s) = [(0, 10000), (0, 10001), (1, 10000), (0, 10000)] \<and>
     map live (sd_fields s) = [False, True, True, True]"
proof -
  have c: "case run_commands ex_field_env ex_commands (initial_shard ex_rt) of Inl e \<Rightarrow> False
    | Inr s \<Rightarrow> map (\<lambda>rf. (lr_tree (rf_region rf), rf_field rf)) (sd_fields s) = [(0, 10000), (0, 10001), (1, 10000), (0, 10000)] \<and>
        map live (sd_fields s) = [False, True, True, True]"
    by (simp add: ex_eval)
  show ?thesis
  proof (cases "run_commands ex_field_env ex_commands (initial_shard ex_rt)")
    case (Inr s)
    note c' = c [unfolded Inr sum.case]
    show ?thesis by (intro exI [of _ s] conjI run_commands_run [OF Inr] c' [THEN conjunct1] c' [THEN conjunct2])
  qed (use c in simp)
qed

lemma ex_env_ok: "env_ok ex_field_env"
  by (simp add: env_ok_def ex_field_env_def FIELD_ID_BASE_def)

lemma fields_not_shared_witness:
  "\<exists>s. field_run ex_field_env (initial_shard ex_rt) ex_commands s \<and>
     map (\<lambda>rf. (lr_tree (rf_region rf), rf_field rf)) (sd_fields s) = [(0, 10000), (0, 10001), (1, 10000), (0, 10000)] \<and>
     \<not> (\<exists>j. j < length (sd_fields s) \<and> j \<noteq> 3 \<and> live (sd_fields s ! j) \<and>
          ff_key (free_field_of (sd_fields s ! j)) = ff_key (free_field_of (sd_fields s ! 3)))"
proof -
  obtain s where s: "field_run ex_field_env (initial_shard ex_rt) ex_commands s"
    "map (\<lambda>rf. (lr_tree (rf_region rf), rf_field rf)) (sd_fields s) = [(0, 10000), (0, 10001), (1, 10000), (0, 10000)]"
    "map live (sd_fields s) = [False, True, True, True]" using ex_run_fields by (elim exE conjE) (rule that)
  have "length (sd_fields s) = 4" using arg_cong [OF s(3), of length] by simp
  moreover from this have "live (sd_fields s ! 3)" using nth_map [of 3 "sd_fields s" live] s(3) by simp
  ultimately have f: "3 < length (sd_fields s)" "live (sd_fields s ! 3)" by simp_all
  show ?thesis by (intro exI [of _ s] conjI s(1,2) fields_not_shared [OF s(1) ex_env_ok f, THEN conjunct2])
qed

lemma field_ids_bounded_witness:
  "\<exists>s rf. field_run ex_field_env (initial_shard ex_rt) ex_commands s \<and> rf = last (sd_fields s) \<and>
     10000 \<le> unat (rf_field rf) \<and> unat (rf_field rf) < 10002"
proof -
  obtain s where s: "field_run ex_field_env (initial_shard ex_rt) ex_commands s" "map live (sd_fields s) = [False, True, True, True]"
    using ex_run_fields by (elim exE conjE) (rule that)
  have ne: "sd_fields s \<noteq> []" using s(2) by (metis list.map_disc_iff list.distinct(1))
  have "live (last (sd_fields s))" using s(2) last_map [OF ne, of live] by simp
  then have "owner (last (sd_fields s))" by (simp add: live_def)
  note b = field_ids_bounded [OF s(1) ex_env_ok last_in_set [OF ne] this]
  have "unat (rf_field (last (sd_fields s))) < 10002" using b [THEN conjunct2, THEN conjunct1] by (simp add: ex_field_env_def)
  then show ?thesis by (intro exI [of _ s] exI [of _ "last (sd_fields s)"] conjI s(1) refl b [THEN conjunct1])
qed

end
