(* ===== verification/FieldManagerMatch.thy ===== *)
theory FieldManagerMatch
  imports FieldManagerCorrect
begin

text \<open>
  A consensus match: what processing its result does to the queues, and that no check of it fails.
\<close>

section \<open>One matched field\<close>













section \<open>Streaming scopes\<close>

text \<open>An allocation within a strict streaming scope does not issue a match, but it still processes one that was issued
  before the scope when no field can be recycled; the flush of the window then raises an exception.\<close>

lemma strict_scope_raises:
  "sd_mode s = STREAM_STRICT \<Longrightarrow> fm_outstanding s \<noteq> None \<Longrightarrow> sh_ready a s \<Longrightarrow> snd (sd_shapes s ! a) = Some i \<Longrightarrow>
     ordered_queue (i, sz) s = [] \<Longrightarrow> calculate_match_credit E a sz s = Inr credit \<Longrightarrow>
     cm_allocate_field E a sz s = Inl InvalidArgument"
  by (cases "sd_shapes s ! a"; cases "fst (sd_shapes s ! a)")
    (auto simp: cm_allocate_field_def maybe_issue_field_match_def Let_def try_reuse_field_def sh_ready_def ordered_queue_def set_queue_def
      update_conv process_outstanding_match_def flush_window_def sh_index_space_def ensure_binding_def split: option.splits)

end
