(* ===== verification/FieldManagerAgree.thy ===== *)
theory FieldManagerAgree
  imports FieldManagerCorrect
begin

text \<open>
  Replicated programs: two shards that run the same commands, except that the region fields which may end in any order
  end at different times, make the same fields. A run succeeds on both shards; the consensus matches give both the
  same results.
\<close>

section \<open>What two shards have in common\<close>

definition field_core :: "logical_region_field \<Rightarrow> free_field_info \<times> nat option \<times> bool \<times> bool \<times> bool" where
  "field_core rf = (free_field_of rf, rf_parent rf, rf_non_owning rf, rf_out_of_order rf, rf_released rf \<or> rf_out_of_order rf)"

definition agree :: "shard \<Rightarrow> shard \<Rightarrow> bool" where
  "agree s t \<longleftrightarrow> map field_core (sd_fields s) = map field_core (sd_fields t) \<and> sd_shapes s = sd_shapes t \<and>
     sd_managers s = sd_managers t \<and> sd_rt s = sd_rt t \<and> sd_next_tree s = sd_next_tree t \<and> fm_ordered s = fm_ordered t \<and>
     fm_counter s = fm_counter t \<and> map_option fst (fm_outstanding s) = map_option fst (fm_outstanding t) \<and>
     fm_matches s = fm_matches t \<and> sd_mode s = sd_mode t \<and> length (sd_states s) = length (sd_states t)"

lemma agree_refl [simp]: "agree s s"
  by (simp add: agree_def)

lemma agree_sym: "agree s t \<Longrightarrow> agree t s"
  by (simp add: agree_def)

lemma agree_trans [trans]: "agree s t \<Longrightarrow> agree t u \<Longrightarrow> agree s u"
  by (simp add: agree_def)

lemma quiet_agree: "quiet s s' \<Longrightarrow> agree s s'"
  by (simp add: agree_def quiet_def)

lemma agree_quiet: "agree s t \<Longrightarrow> quiet s s' \<Longrightarrow> quiet t t' \<Longrightarrow> agree s' t'"
  by (meson agree_sym agree_trans quiet_agree)

lemma agree_length: "agree s t \<Longrightarrow> length (sd_fields s) = length (sd_fields t)"
  unfolding agree_def by (metis length_map)

lemma agree_nth: "agree s t \<Longrightarrow> i < length (sd_fields s) \<Longrightarrow> field_core (sd_fields s ! i) = field_core (sd_fields t ! i)"
  using agree_length [of s t] unfolding agree_def by (metis nth_map)

lemma field_core_owner: "field_core a = field_core b \<Longrightarrow> owner a = owner b \<and> free_field_of a = free_field_of b"
  by (simp add: field_core_def owner_def)

lemma cores_made: "map field_core fs = map field_core gs \<Longrightarrow>
    map free_field_of (filter owner fs) = map free_field_of (filter owner gs)"
proof (induction fs arbitrary: gs)
  case (Cons a fs)
  then obtain b gs' where gs: "gs = b # gs'" by auto
  then have "field_core a = field_core b" "map field_core fs = map field_core gs'" using Cons.prems by simp_all
  then show ?case using field_core_owner [of a b] Cons.IH gs by simp
qed simp

lemma agree_made: "agree s t \<Longrightarrow> made s = made t"
  unfolding made_def by (rule cores_made) (simp only: agree_def)

section \<open>Operations keep the agreement\<close>

lemma agree_index_space:
  assumes "sh_index_space E a s = Inr (s', i)" "sh_index_space E a t = Inr (t', j)" "agree s t"
  shows "i = j \<and> agree s' t'"
proof -
  have u: "\<not> shape_unbound (fst (sd_shapes s ! a))" "\<not> shape_unbound (fst (sd_shapes t ! a))"
    using sh_index_space_spec [OF assms(1)] sh_index_space_spec [OF assms(2)] by blast+
  obtain sh k where sh: "sd_shapes t ! a = (sh, k)" by fastforce
  have eq: "sd_shapes s = sd_shapes t" "sd_rt s = sd_rt t" using assms(3) by (simp_all add: agree_def)
  show ?thesis
  proof (cases k)
    case (Some l)
    then show ?thesis using assms u sh eq by (cases sh) (auto simp: sh_index_space_def ensure_binding_def)
  next
    case None
    then show ?thesis
      using assms u sh eq
      by (cases sh) (auto simp: sh_index_space_def ensure_binding_def rguard_eq_Inr agree_def split: prod.splits)
  qed
qed

lemma agree_ready: "agree s t \<Longrightarrow> sh_ready a s = sh_ready a t"
  by (simp add: agree_def sh_ready_def)

lemma agree_queue: "agree s t \<Longrightarrow> ordered_queue key s = ordered_queue key t"
  by (simp add: agree_def ordered_queue_def)

lemma agree_set_queue: "agree s t \<Longrightarrow> agree (set_queue key q s) (set_queue key q t)"
  by (simp add: agree_def set_queue_def)

lemma agree_mk: "agree s t \<Longrightarrow> mk_region_field a sz region field p n s = (s', r) \<Longrightarrow>
    mk_region_field a sz region field p n t = (t', q) \<Longrightarrow> r = q \<and> agree s' t'"
  using agree_length [of s t] by (auto simp: agree_def mk_region_field_def)

lemma agree_free:
  assumes "fm_free_field E ff s = Inr s'" "fm_free_field E ff t = Inr t'" "agree s t"
  shows "agree s' t'"
proof -
  let ?p = "submit_pending (PendingDiscard (ff_region ff) (ff_field ff))"
  have a: "agree (?p s) (?p t)" by (rule agree_quiet [OF assms(3) quiet_submit quiet_submit])
  show ?thesis
  proof (cases "sh_ready (ff_shape ff) (?p s)")
    case False
    then show ?thesis using assms(1,2) a agree_ready [OF a] by (simp add: fm_free_field_def Let_def)
  next
    case True
    then obtain s1 i t1 j where st: "sh_index_space E (ff_shape ff) (?p s) = Inr (s1, i)" "sh_index_space E (ff_shape ff) (?p t) = Inr (t1, j)"
      "s' = set_queue (i, ff_size ff) (ordered_queue (i, ff_size ff) s1 @ [ff]) s1"
      "t' = set_queue (j, ff_size ff) (ordered_queue (j, ff_size ff) t1 @ [ff]) t1"
      using assms(1,2) agree_ready [OF a] by (auto simp: fm_free_field_def Let_def rbind_eq_Inr)
    have i: "i = j" "agree s1 t1" using agree_index_space [OF st(1,2) a] by simp_all
    show ?thesis unfolding st(3,4) i(1) agree_queue [OF i(2)] by (rule agree_set_queue [OF i(2)])
  qed
qed

lemma agree_matched:
  assumes "free_matched E item s = Inr s'" "free_matched E item t = Inr t'" "agree s t" "fields_inv E s" "fields_inv E t"
  shows "agree s' t'"
proof -
  obtain ff s1 where ff: "map_of (fm_infos s) item = Some ff" "fm_free_field E ff s = Inr s1"
    "s' = s1\<lparr>fm_infos := AList.delete item (fm_infos s1)\<rparr>"
    using assms(1) by (auto simp: free_matched_def rbind_eq_Inr split: option.splits)
  obtain gg t1 where gg: "map_of (fm_infos t) item = Some gg" "fm_free_field E gg t = Inr t1"
    "t' = t1\<lparr>fm_infos := AList.delete item (fm_infos t1)\<rparr>"
    using assms(2) by (auto simp: free_matched_def rbind_eq_Inr split: option.splits)
  have info: "latest u (ff_key x) = Some x \<and> item = match_item_of x"
    if "fields_inv E u" "map_of (fm_infos u) item = Some x" for u x
  proof -
    have mem: "(item, x) \<in> set (fm_infos u)" using that(2) by (rule map_of_SomeD)
    then have "x \<in> set (held u)" by (force simp: held_def queued_def)
    then have "latest u (ff_key x) = Some x" using that(1) by (simp only: fields_inv_def held_inv_def)
    moreover have "item = match_item_of x" using that(1) mem unfolding fields_inv_def infos_inv_def by fast
    ultimately show ?thesis by simp
  qed
  have "ff_key ff = ff_key gg" using info [OF assms(4) ff(1)] info [OF assms(5) gg(1)] match_item_key [of ff gg] by simp
  moreover have "latest s k = latest t k" for k by (simp only: latest_def agree_made [OF assms(3)])
  ultimately have "ff = gg" using info [OF assms(4) ff(1)] info [OF assms(5) gg(1)] by (metis option.inject)
  then have "agree s1 t1" using agree_free [OF ff(2) _ assms(3)] gg(2) by simp
  then show ?thesis by (simp add: ff(3) gg(3) agree_def)
qed

lemma agree_matched_loop:
  "rfoldM (free_matched E) items s = Inr s' \<Longrightarrow> rfoldM (free_matched E) items t = Inr t' \<Longrightarrow> agree s t \<Longrightarrow>
     fields_inv E s \<Longrightarrow> fields_inv E t \<Longrightarrow> agree s' t'"
proof (induction items arbitrary: s t)
  case (Cons item items)
  then obtain s1 t1 where st: "free_matched E item s = Inr s1" "rfoldM (free_matched E) items s1 = Inr s'"
    "free_matched E item t = Inr t1" "rfoldM (free_matched E) items t1 = Inr t'" by (auto simp: rbind_eq_Inr)
  show ?case
    using Cons.IH [OF st(2,4) agree_matched [OF st(1,3) Cons.prems(3-5)]] free_matched_inv [OF st(1) Cons.prems(4)]
      free_matched_inv [OF st(3) Cons.prems(5)] by simp
qed simp

lemma agree_process:
  assumes "process_outstanding_match E s = Inr s'" "process_outstanding_match E t = Inr t'" "agree s t" "shard_inv E s" "shard_inv E t"
  shows "agree s' t'"
proof (cases "fm_outstanding s")
  case None
  then show ?thesis using assms by (simp add: process_outstanding_match_def agree_def)
next
  case (Some m)
  then obtain n where n: "fm_outstanding t = Some n" "fst m = fst n"
    using assms(3) by (cases "fm_outstanding t") (simp_all add: agree_def)
  obtain s1 s2 where s1: "flush_window s = Inr s1" and s2: "rfoldM (free_matched E) (fe_agreed E (fst m)) s1 = Inr s2"
    and s': "s' = s2\<lparr>fm_unordered := fm_unordered s2 @ map snd (fm_infos s2), fm_outstanding := None, fm_infos := []\<rparr>"
    using assms(1) Some by (cases m) (auto simp: process_outstanding_match_def Let_def rbind_eq_Inr rguard_eq_Inr)
  obtain t1 t2 where t1: "flush_window t = Inr t1" and t2: "rfoldM (free_matched E) (fe_agreed E (fst m)) t1 = Inr t2"
    and t': "t' = t2\<lparr>fm_unordered := fm_unordered t2 @ map snd (fm_infos t2), fm_outstanding := None, fm_infos := []\<rparr>"
    using assms(2) n by (cases n) (auto simp: process_outstanding_match_def Let_def rbind_eq_Inr rguard_eq_Inr)
  have "fields_inv E s1" "fields_inv E t1"
    using assms(4,5) quiet_fields_inv [OF quiet_flush [OF s1], of E] quiet_fields_inv [OF quiet_flush [OF t1], of E]
    by (simp_all add: shard_inv_def)
  then have "agree s2 t2"
    using agree_matched_loop [OF s2 t2 agree_quiet [OF assms(3) quiet_flush [OF s1] quiet_flush [OF t1]]] by simp
  then show ?thesis by (simp add: s' t' agree_def)
qed

lemma agree_issue: "issue_match s = Inr s' \<Longrightarrow> issue_match t = Inr t' \<Longrightarrow> agree s t \<Longrightarrow> agree s' t'"
  by (auto simp: issue_match_def Let_def rguard_eq_Inr agree_def)

lemma agree_cm_issue:
  assumes "cm_issue_field_match E s = Inr s'" "cm_issue_field_match E t = Inr t'" "agree s t" "shard_inv E s" "shard_inv E t"
  shows "agree s' t'"
proof (cases "fm_counter s \<ge> fe_reuse_freq E")
  case True
  then have "fm_counter t \<ge> fe_reuse_freq E" using assms(3) by (simp add: agree_def)
  then obtain s1 s2 t1 t2 where st: "process_outstanding_match E s = Inr s1" "issue_match s1 = Inr s2" "s' = s2\<lparr>fm_counter := 0\<rparr>"
    "process_outstanding_match E t = Inr t1" "issue_match t1 = Inr t2" "t' = t2\<lparr>fm_counter := 0\<rparr>"
    using True assms(1,2) by (auto simp: cm_issue_field_match_def rbind_eq_Inr)
  have "agree s2 t2" using agree_issue [OF st(2,5) agree_process [OF st(1,4) assms(3-5)]] .
  then show ?thesis by (simp add: st(3,6) agree_def)
next
  case False
  then show ?thesis using assms by (simp add: cm_issue_field_match_def agree_def)
qed

lemma agree_maybe_issue:
  assumes "maybe_issue_field_match E a sz s = Inr s'" "maybe_issue_field_match E a sz t = Inr t'" "agree s t"
    "shard_inv E s" "shard_inv E t"
  shows "agree s' t'"
proof -
  have "calculate_match_credit E a sz s = calculate_match_credit E a sz t"
    using assms(3) by (simp add: calculate_match_credit_def sh_ready_def agree_def)
  then obtain c where c: "calculate_match_credit E a sz s = Inr c" "calculate_match_credit E a sz t = Inr c"
    using assms(1) by (auto simp: maybe_issue_field_match_def rbind_eq_Inr)
  let ?s = "s\<lparr>fm_counter := fm_counter s + c\<rparr>" and ?t = "t\<lparr>fm_counter := fm_counter t + c\<rparr>"
  have a: "agree ?s ?t" using assms(3) by (simp add: agree_def)
  have i: "shard_inv E ?s" "shard_inv E ?t" using assms(4,5) by (simp_all add: counter_inv)
  have m: "sd_mode s = sd_mode t" using assms(3) by (simp add: agree_def)
  show ?thesis
  proof (cases "sd_mode t = STREAM_OFF")
    case True
    then show ?thesis using agree_cm_issue [OF _ _ a i, of s' t'] assms(1,2) c m by (simp add: maybe_issue_field_match_def Let_def)
  next
    case False
    then show ?thesis using assms(1,2) a c m by (simp add: maybe_issue_field_match_def Let_def)
  qed
qed

lemma agree_reuse:
  assumes "try_reuse_field E a sz s = Inr (s', r)" "try_reuse_field E a sz t = Inr (t', q)" "agree s t"
  shows "r = q \<and> agree s' t'"
proof (cases "sh_ready a s")
  case False
  then show ?thesis using assms agree_ready [OF assms(3)] by (simp add: try_reuse_field_def)
next
  case True
  then obtain s1 i t1 j where st: "sh_index_space E a s = Inr (s1, i)" "sh_index_space E a t = Inr (t1, j)"
    using assms(1,2) agree_ready [OF assms(3)] by (auto simp: try_reuse_field_def rbind_eq_Inr)
  have i: "i = j" "agree s1 t1" using agree_index_space [OF st assms(3)] by simp_all
  let ?s = "set_queue (j, sz) (ordered_queue (j, sz) s1) s1" and ?t = "set_queue (j, sz) (ordered_queue (j, sz) t1) t1"
  have a: "agree ?s ?t" unfolding agree_queue [OF i(2)] by (rule agree_set_queue [OF i(2)])
  have oq: "ordered_queue (j, sz) s1 = ordered_queue (j, sz) t1" by (rule agree_queue [OF i(2)])
  have rt: "sh_ready a t" using True agree_ready [OF assms(3)] by simp
  show ?thesis
  proof (cases "ordered_queue (j, sz) t1")
    case Nil
    then show ?thesis using assms(1,2) True rt st i(1) oq a by (simp add: try_reuse_field_def Let_def)
  next
    case (Cons info rest)
    obtain s3 t3 where d: "deallocate_attachment True (ff_state info) ?s = Inr s3" "deallocate_attachment True (ff_state info) ?t = Inr t3"
      and c: "(case mk_region_field a sz (ff_region info) (ff_field info) None False s3 of (s, rf) \<Rightarrow>
          Inr (set_queue (j, sz) rest s, Some rf)) = (Inr (s', r) :: (shard \<times> nat option) result)"
        "(case mk_region_field a sz (ff_region info) (ff_field info) None False t3 of (s, rf) \<Rightarrow>
          Inr (set_queue (j, sz) rest s, Some rf)) = (Inr (t', q) :: (shard \<times> nat option) result)"
      using assms(1,2) True rt st i(1) oq Cons by (auto simp: try_reuse_field_def Let_def rbind_eq_Inr)
    obtain s4 x t4 y where mk: "mk_region_field a sz (ff_region info) (ff_field info) None False s3 = (s4, x)"
      "mk_region_field a sz (ff_region info) (ff_field info) None False t3 = (t4, y)" by fastforce
    have "x = y \<and> agree s4 t4" using agree_mk [OF agree_quiet [OF a quiet_deallocate [OF d(1)] quiet_deallocate [OF d(2)]] mk] .
    then show ?thesis using c mk agree_set_queue by auto
  qed
qed

lemma agree_push: "agree s t \<Longrightarrow> agree (push_entry i s) (push_entry i t)"
  by (simp add: agree_def push_entry_def create_field_space_def)

lemma agree_rm_allocate:
  assumes "rm_allocate_field E i sz s = (s', region, field)" "rm_allocate_field E i sz t = (t', region', field')" "agree s t"
  shows "region = region' \<and> field = field' \<and> agree s' t'"
proof -
  let ?s = "if has_space E (sd_managers s i) then s else push_entry i s"
  let ?t = "if has_space E (sd_managers t i) then t else push_entry i t"
  have "agree ?s ?t" using assms(3) agree_push [OF assms(3)] by (auto simp: agree_def)
  then show ?thesis using assms(1,2) by (auto simp: rm_allocate_field_def Let_def allocate_field_def agree_def split: if_splits)
qed

lemma agree_create_new:
  assumes "create_new_field E a sz s = Inr (s', r)" "create_new_field E a sz t = Inr (t', q)" "agree s t"
  shows "r = q \<and> agree s' t'"
proof -
  obtain s1 i t1 j where st: "sh_index_space E a s = Inr (s1, i)" "sh_index_space E a t = Inr (t1, j)"
    using assms(1,2) by (auto simp: create_new_field_def rbind_eq_Inr)
  have i: "i = j" "agree s1 t1" using agree_index_space [OF st assms(3)] by simp_all
  obtain s2 rs fs t2 rt ft where r: "rm_allocate_field E j sz s1 = (s2, rs, fs)" "rm_allocate_field E j sz t1 = (t2, rt, ft)"
    by (metis prod_cases3)
  have a: "rs = rt" "fs = ft" "agree s2 t2" using agree_rm_allocate [OF r i(2)] by simp_all
  have "mk_region_field a sz rt ft None False s2 = (s', r)" "mk_region_field a sz rt ft None False t2 = (t', q)"
    using assms(1,2) st r i(1) a(1,2) by (simp_all add: create_new_field_def)
  then show ?thesis using agree_mk [OF a(3)] by blast
qed

lemma agree_reuse_or_create:
  assumes "rbind (try_reuse_field E a sz s) (\<lambda>(s, rf). case rf of Some i \<Rightarrow> Inr (s, i) | None \<Rightarrow> k s) = Inr (s', r)"
    "rbind (try_reuse_field E a sz t) (\<lambda>(s, rf). case rf of Some i \<Rightarrow> Inr (s, i) | None \<Rightarrow> k s) = Inr (t', q)"
    "agree s t" "shard_inv E s" "shard_inv E t" "a < length (sd_shapes s)"
    and k: "\<And>s1 t1. k s1 = Inr (s', r) \<Longrightarrow> k t1 = Inr (t', q) \<Longrightarrow> agree s1 t1 \<Longrightarrow> shard_inv E s1 \<Longrightarrow> shard_inv E t1 \<Longrightarrow>
      evolves s s1 \<Longrightarrow> r = q \<and> agree s' t'"
  shows "r = q \<and> agree s' t'"
proof -
  obtain s1 x t1 y where st: "try_reuse_field E a sz s = Inr (s1, x)" "try_reuse_field E a sz t = Inr (t1, y)"
    and c: "(case x of Some i \<Rightarrow> Inr (s1, i) | None \<Rightarrow> k s1) = Inr (s', r)" "(case y of Some i \<Rightarrow> Inr (t1, i) | None \<Rightarrow> k t1) = Inr (t', q)"
    using assms(1,2) by (auto simp: rbind_eq_Inr)
  have xy: "x = y" "agree s1 t1" using agree_reuse [OF st assms(3)] by simp_all
  have len: "a < length (sd_shapes t)" using assms(3,6) by (simp add: agree_def)
  show ?thesis
  proof (cases y)
    case None
    then have "shard_inv E s1" "evolves s s1" "shard_inv E t1"
      using try_reuse_inv [OF st(1) assms(4,6)] try_reuse_inv [OF st(2) assms(5) len] xy(1) by simp_all
    then show ?thesis using k [of s1 t1] c xy None by simp
  next
    case (Some i)
    then show ?thesis using c xy by simp
  qed
qed

lemma agree_create:
  assumes "create_region_field E a sz s = Inr (s', r)" "create_region_field E a sz t = Inr (t', q)" "agree s t"
    "shard_inv E s" "shard_inv E t" "a < length (sd_shapes s)" "fe_consensus E"
  shows "agree s' t'"
proof -
  let ?k2 = "create_new_field E a sz"
  let ?k1 = "\<lambda>s. if fm_outstanding s \<noteq> None
     then rbind (process_outstanding_match E s) (\<lambda>s. rbind (try_reuse_field E a sz s) (\<lambda>(s, rf).
            case rf of Some i \<Rightarrow> Inr (s, i) | None \<Rightarrow> ?k2 s))
     else ?k2 s"
  obtain s1 t1 where st: "maybe_issue_field_match E a sz s = Inr s1" "maybe_issue_field_match E a sz t = Inr t1"
    and c: "rbind (try_reuse_field E a sz s1) (\<lambda>(s, rf). case rf of Some i \<Rightarrow> Inr (s, i) | None \<Rightarrow> ?k1 s) = Inr (s', r)"
      "rbind (try_reuse_field E a sz t1) (\<lambda>(s, rf). case rf of Some i \<Rightarrow> Inr (s, i) | None \<Rightarrow> ?k1 s) = Inr (t', q)"
    using assms(1,2,7) by (auto simp: create_region_field_def cm_allocate_field_def rbind_eq_Inr)
  have i: "shard_inv E s1" "shard_inv E t1" "agree s1 t1"
    using maybe_issue_inv [OF st(1) assms(4)] maybe_issue_inv [OF st(2) assms(5)] agree_maybe_issue [OF st assms(3-5)] by simp_all
  have l: "a < length (sd_shapes s1)" using maybe_issue_inv [OF st(1) assms(4)] evolves_length assms(6) by metis
  have "r = q \<and> agree s' t'"
  proof (rule agree_reuse_or_create [OF c i(3,1,2) l])
    fix s2 t2 assume k: "?k1 s2 = Inr (s', r)" "?k1 t2 = Inr (t', q)" and a2: "agree s2 t2" "shard_inv E s2" "shard_inv E t2" "evolves s1 s2"
    have o: "fm_outstanding s2 = None \<longleftrightarrow> fm_outstanding t2 = None"
      using a2(1) by (metis agree_def map_option_is_None)
    show "r = q \<and> agree s' t'"
    proof (cases "fm_outstanding s2 = None")
      case True
      then show ?thesis using k o agree_create_new [OF _ _ a2(1)] by simp
    next
      case False
      then obtain s3 t3 where p: "process_outstanding_match E s2 = Inr s3" "process_outstanding_match E t2 = Inr t3"
        and c3: "rbind (try_reuse_field E a sz s3) (\<lambda>(s, rf). case rf of Some i \<Rightarrow> Inr (s, i) | None \<Rightarrow> ?k2 s) = Inr (s', r)"
          "rbind (try_reuse_field E a sz t3) (\<lambda>(s, rf). case rf of Some i \<Rightarrow> Inr (s, i) | None \<Rightarrow> ?k2 s) = Inr (t', q)"
        using k o by (auto simp: rbind_eq_Inr)
      have i3: "shard_inv E s3" "shard_inv E t3" "agree s3 t3" "evolves s2 s3"
        using process_inv [OF p(1) a2(2)] process_inv [OF p(2) a2(3)] agree_process [OF p a2(1-3)] by simp_all
      have l3: "a < length (sd_shapes s3)" using l evolves_length [OF a2(4)] evolves_length [OF i3(4)] by simp
      show ?thesis by (rule agree_reuse_or_create [OF c3 i3(3,1,2) l3]) (rule agree_create_new)
    qed
  qed
  then show ?thesis by simp
qed

lemma agree_set_index_space:
  assumes "(if shape_unbound (fst (sd_shapes s ! a)) then sh_set_index_space a i d s else Inr s) = Inr s'"
    "(if shape_unbound (fst (sd_shapes t ! a)) then sh_set_index_space a i d t else Inr t) = Inr t'" "agree s t"
  shows "agree s' t'"
proof -
  have "sd_shapes s = sd_shapes t" using assms(3) by (simp add: agree_def)
  then show ?thesis
    using assms by (cases "shape_unbound (fst (sd_shapes t ! a))") (auto simp: sh_set_index_space_def agree_def)
qed

lemma agree_outputs_loop:
  "import_output_fields E (number_fields region d field stores) s = Inr s' \<Longrightarrow>
     import_output_fields E (number_fields region d field stores) t = Inr t' \<Longrightarrow> agree s t \<Longrightarrow>
     outputs_ok E region field stores e s \<Longrightarrow> outputs_ok E region field stores e t \<Longrightarrow> agree s' t'"
proof (induction stores arbitrary: field s t)
  case (Cons st stores)
  obtain a sz where st: "st = (a, sz)" by fastforce
  let ?bind = "\<lambda>s. if shape_unbound (fst (sd_shapes s ! a)) then sh_set_index_space a (lr_index_space region) d s else Inr s"
  let ?issue = "\<lambda>s. if fe_consensus E then maybe_issue_field_match E a sz s else Inr s"
  have steps: "\<exists>s1 s2 s3 r. ?bind s = Inr s1 \<and> ?issue s1 = Inr s2 \<and> mk_region_field a sz region field None False s2 = (s3, r) \<and>
      import_output_fields E (number_fields region d (field + 1) stores) s3 = Inr s'"
    if "import_output_fields E (number_fields region d field (st # stores)) s = Inr s'" for s s'
    using that by (fastforce simp: st import_region_field_def rbind_eq_Inr)
  obtain s1 s2 s3 r where s: "?bind s = Inr s1" "?issue s1 = Inr s2" "mk_region_field a sz region field None False s2 = (s3, r)"
    "import_output_fields E (number_fields region d (field + 1) stores) s3 = Inr s'" using steps [OF Cons.prems(1)] by blast
  obtain t1 t2 t3 q where t: "?bind t = Inr t1" "?issue t1 = Inr t2" "mk_region_field a sz region field None False t2 = (t3, q)"
    "import_output_fields E (number_fields region d (field + 1) stores) t3 = Inr t'" using steps [OF Cons.prems(2)] by blast
  note os = outputs_step [OF Cons.prems(4) [unfolded st] s(1-3)] and ot = outputs_step [OF Cons.prems(5) [unfolded st] t(1-3)]
  have a1: "agree s1 t1" by (rule agree_set_index_space [OF s(1) t(1) Cons.prems(3)])
  have a2: "agree s2 t2"
    using s(2) t(2) a1 os ot agree_maybe_issue [of E a sz s1 s2 t1 t2] by (cases "fe_consensus E") auto
  show ?case using Cons.IH [OF s(4) t(4)] agree_mk [OF a2 s(3) t(3)] os ot by blast
qed simp

lemma agree_outputs:
  assumes "task_outputs E i fs d stores s = Inr s'" "task_outputs E i fs d stores t = Inr t'" "agree s t" "shard_inv E s" "shard_inv E t"
    "admissible E (Outputs i fs d stores) s" "admissible E (Outputs i fs d stores) t" "env_ok E"
  shows "agree s' t'"
proof -
  have n: "sd_next_tree s = sd_next_tree t" using assms(3) by (simp add: agree_def)
  show ?thesis
  proof (cases "stores = []")
    case True
    then show ?thesis using assms(1-3) by (auto simp: task_outputs_eq agree_def)
  next
    case False
    have "agree (output_start i fs (length stores) s) (output_start i fs (length stores) t)"
      using assms(3) by (simp add: output_start_def import_region_def agree_def)
    then show ?thesis
      using agree_outputs_loop [OF _ _ _ task_outputs_start [OF assms(4,6,8)] task_outputs_start [OF assms(5,7,8), folded n]]
        assms(1,2) False n by (simp add: task_outputs_eq)
  qed
qed

lemma map_field_agree:
  assumes "agree s t" "i < length (sd_fields s)" "field_core (f (sd_fields s ! i)) = field_core (g (sd_fields t ! i))"
  shows "agree (map_field i f s) (map_field i g t)"
  using assms by (simp add: agree_def map_field_def map_update)

lemma fm_free_fields: "fm_free_field E ff s = Inr s' \<Longrightarrow> sd_fields s' = sd_fields s"
  by (auto simp: fm_free_field_def Let_def rbind_eq_Inr submit_pending_def dest!: sh_index_space_spec split: if_splits)

lemma release_flags: "i < length (sd_fields s) \<Longrightarrow>
    map_field i (\<lambda>rf. rf\<lparr>rf_released := True\<rparr>) (set_mapped False i s) =
    map_field i (\<lambda>rf. rf\<lparr>rf_mapped := False, rf_released := True\<rparr>) s"
  by (simp add: map_field_def set_mapped_def)

lemma agree_release:
  assumes "release_region_field E i s = Inr s'" "release_region_field E i t = Inr t'" "agree s t" "i < length (sd_fields s)"
    "\<not> rf_out_of_order (sd_fields s ! i)"
  shows "agree s' t'"
proof -
  let ?a = "sd_fields s ! i" and ?b = "sd_fields t ! i"
  have c: "field_core ?a = field_core ?b" by (rule agree_nth [OF assms(3,4)])
  then have o: "\<not> rf_out_of_order ?b" "rf_released ?a = rf_released ?b" "rf_parent ?a = rf_parent ?b" "rf_non_owning ?a = rf_non_owning ?b"
    "free_field_of ?a = free_field_of ?b" "rf_state ?a = rf_state ?b" using assms(5) by (auto simp: field_core_def free_field_of_def)
  have upd: "field_core (?a\<lparr>rf_released := True\<rparr>) = field_core (?b\<lparr>rf_released := True\<rparr>)"
    "field_core (?a\<lparr>rf_mapped := False, rf_released := True\<rparr>) = field_core (?b\<lparr>rf_mapped := False, rf_released := True\<rparr>)"
    using c by (simp_all add: field_core_def free_field_of_def)
  show ?thesis
  proof (cases "live ?a")
    case False
    then show ?thesis
      using assms(1-4) o upd map_field_agree [OF assms(3,4), of "\<lambda>rf. rf\<lparr>rf_released := True\<rparr>" "\<lambda>rf. rf\<lparr>rf_released := True\<rparr>"]
      by (auto simp: release_region_field_def live_def owner_def Let_def split: if_splits)
  next
    case True
    let ?p = "\<lambda>s. submit_pending (PendingRelease (rf_state ?b) False) (map_state (rf_state ?b) ps_set_pending_detach s)"
    let ?f = "\<lambda>s. map_field i (\<lambda>rf. rf\<lparr>rf_released := True\<rparr>) (set_mapped False i s)"
    obtain s2 t2 where st: "fm_free_field E (free_field_of ?b) (?p s) = Inr s2" "s' = ?f s2"
      "fm_free_field E (free_field_of ?b) (?p t) = Inr t2" "t' = ?f t2"
      using assms(1,2,5) True o
      by (auto simp: release_region_field_def live_def owner_def Let_def rbind_eq_Inr free_field_def cm_free_field_def split: if_splits)
    have q: "quiet s (?p s)" for s using quiet_map_state quiet_submit quiet_trans by blast
    have a: "agree (?p s) (?p t)" by (rule agree_quiet [OF assms(3) q q])
    have fs: "sd_fields s2 = sd_fields s" "sd_fields t2 = sd_fields t"
      using fm_free_fields [OF st(1)] fm_free_fields [OF st(3)] q [of s] q [of t] by (simp_all add: quiet_def)
    have len: "i < length (sd_fields s2)" "i < length (sd_fields t2)" using fs assms(4) agree_length [OF assms(3)] by simp_all
    have "agree s2 t2" by (rule agree_free [OF st(1,3) a])
    then show ?thesis
      unfolding st(2,4) release_flags [OF len(1)] release_flags [OF len(2)]
      using len upd(2) fs by (intro map_field_agree) simp_all
  qed
qed

section \<open>Steps of the two shards\<close>

fun in_order :: "field_command \<Rightarrow> bool" where
  "in_order (DestroyLater i) = False"
| "in_order _ = True"

lemma agree_later:
  assumes "field_step E c s = Inr s'" "admissible E c s" "\<not> in_order c" "fe_consensus E"
  shows "agree s s'"
proof -
  obtain i where c: "c = DestroyLater i" using assms(3) by (cases c) auto
  let ?a = "sd_fields s ! i"
  have i: "i < length (sd_fields s)" "rf_out_of_order ?a" using assms(2) c by simp_all
  have m: "agree s (map_field i f s)" if "field_core (f ?a) = field_core ?a" for f
    using map_field_agree [OF agree_refl i(1), of "\<lambda>rf. rf" f] that by (simp add: map_field_def)
  show ?thesis
  proof (cases "live ?a")
    case False
    then show ?thesis
      using assms(1) c i m [of "\<lambda>rf. rf\<lparr>rf_released := True\<rparr>"]
      by (auto simp: release_region_field_def live_def owner_def Let_def field_core_def free_field_of_def split: if_splits)
  next
    case True
    let ?p = "submit_pending (PendingRelease (rf_state ?a) True) (map_state (rf_state ?a) ps_set_pending_detach s)"
    have q: "quiet s ?p" using quiet_map_state quiet_submit quiet_trans by blast
    let ?s2 = "?p\<lparr>fm_unordered := fm_unordered ?p @ [free_field_of ?a]\<rparr>"
    have s': "s' = map_field i (\<lambda>rf. rf\<lparr>rf_released := True\<rparr>) (set_mapped False i ?s2)"
      using assms(1,4) c True i
      by (auto simp: release_region_field_def live_def owner_def Let_def free_field_def cm_free_field_def)
    have "agree s ?s2" using q by (simp add: agree_def quiet_def)
    moreover have fs: "sd_fields ?s2 = sd_fields s" using q by (simp add: quiet_def)
    moreover have "agree ?s2 (map_field i (\<lambda>rf. rf\<lparr>rf_mapped := False, rf_released := True\<rparr>) ?s2)"
      using map_field_agree [OF agree_refl, of i ?s2 "\<lambda>rf. rf" "\<lambda>rf. rf\<lparr>rf_mapped := False, rf_released := True\<rparr>"] i fs
      by (simp add: map_field_def field_core_def free_field_of_def)
    ultimately show ?thesis using s' release_flags [of i ?s2] i(1) agree_trans by simp
  qed
qed

lemma mapped_agree: "agree s (set_mapped b i s)"
proof -
  have "map field_core ((sd_fields s)[i := (sd_fields s ! i)\<lparr>rf_mapped := b\<rparr>]) = map field_core (sd_fields s)"
  proof (cases "i < length (sd_fields s)")
    case True
    have "field_core ((sd_fields s ! i)\<lparr>rf_mapped := b\<rparr>) = map field_core (sd_fields s) ! i"
      using True by (simp add: field_core_def free_field_of_def)
    then show ?thesis unfolding map_update by (metis list_update_id)
  qed (simp add: list_update_beyond not_less)
  then show ?thesis by (simp add: agree_def set_mapped_def map_field_def)
qed

text \<open>Mapping, unmapping, attaching and detaching leave alone what the shards have in common.\<close>

lemma agree_quiet_steps:
  "agree s (rf_map_region h i s)" "agree s (rf_unmap i s)"
  "rf_attach h i s = Inr s' \<Longrightarrow> agree s s'" "rf_detach i s = Inr s' \<Longrightarrow> agree s s'"
proof -
  show "agree s (rf_map_region h i s)" "agree s (rf_unmap i s)"
    using mapped_agree quiet_agree [OF quiet_map_state] agree_trans by (simp_all add: rf_map_region_def rf_unmap_def Let_def) blast+
  show "rf_attach h i s = Inr s' \<Longrightarrow> agree s s'"
    using quiet_agree [OF quiet_map_state] by (auto simp: rf_attach_def Let_def rguard_eq_Inr)
  assume "rf_detach i s = Inr s'"
  then obtain s1 s2 where d: "flush_window s = Inr s1"
    "deallocate_attachment True (rf_state (sd_fields s ! i)) (map_state (rf_state (sd_fields s ! i)) (ps_detach \<circ> ps_unmap) s1) = Inr s2"
    "s' = set_mapped False i s2" by (auto simp: rf_detach_def Let_def rbind_eq_Inr rguard_eq_Inr)
  have "quiet s s2" using quiet_trans [OF quiet_flush [OF d(1)] quiet_trans [OF quiet_map_state quiet_deallocate [OF d(2)]]] .
  then show "agree s s'" using agree_trans [OF quiet_agree mapped_agree] d(3) by blast
qed

lemma rf_root_cong: "map rf_parent fs = map rf_parent gs \<Longrightarrow> i < length fs \<Longrightarrow> rf_root fs i = rf_root gs i"
proof (induction fs i rule: rf_root.induct)
  case (1 fs i)
  have "rf_parent (fs ! i) = rf_parent (gs ! i)" using 1(2,3) by (metis length_map nth_map)
  then show ?case using 1 by (subst (1 2) rf_root.simps) (auto split: option.splits)
qed

lemma rf_root_bound: "i < length fs \<Longrightarrow> rf_root fs i < length fs"
  by (induction fs i rule: rf_root.induct) (subst rf_root.simps, auto split: option.splits)

lemma agree_allow:
  assumes "agree s t" "i < length (sd_fields s)"
  shows "agree (allow_out_of_order_destruction i s) (allow_out_of_order_destruction i t)"
proof -
  have "map field_core (sd_fields s) = map field_core (sd_fields t)" using assms(1) by (simp only: agree_def)
  from arg_cong [OF this, of "map (fst \<circ> snd)"] have "map rf_parent (sd_fields s) = map rf_parent (sd_fields t)"
    by (simp add: field_core_def comp_def)
  then have r: "rf_root (sd_fields s) i = rf_root (sd_fields t) i" using assms(2) by (rule rf_root_cong)
  have b: "rf_root (sd_fields s) i < length (sd_fields s)" using rf_root_bound assms(2) by blast
  show ?thesis
    unfolding allow_out_of_order_destruction_def r
    using map_field_agree [OF assms(1) b] agree_nth [OF assms(1) b] r by (simp add: field_core_def free_field_of_def)
qed

lemma agree_extents:
  assumes "sh_extents a s = Inr (s', es)" "sh_extents a t = Inr (t', fs)" "agree s t"
  shows "agree s' t'"
proof -
  obtain s1 t1 where b: "ensure_binding a s = Inr s1" "ensure_binding a t = Inr t1"
    using assms(1,2) by (auto simp: sh_extents_def rbind_eq_Inr)
  have "quiet s s1" "quiet t t1"
    using b quiet_flush [of s s1] quiet_flush [of t t1] by (auto simp: ensure_binding_def rbind_eq_Inr split: if_splits)
  then have a: "agree s1 t1" using agree_quiet [OF assms(3)] by blast
  then have "sd_shapes s1 = sd_shapes t1" by (simp add: agree_def)
  then show ?thesis using assms(1,2) b a
    by (auto simp: sh_extents_def agree_def split: shape.splits prod.splits)
qed

lemma agree_child:
  assumes "agree s t" "i < length (sd_fields s)"
  shows "agree (fst (rf_get_child region i s)) (fst (rf_get_child region i t))"
proof -
  have "free_field_of (sd_fields s ! i) = free_field_of (sd_fields t ! i)"
    using agree_nth [OF assms] field_core_owner by blast
  then have eq: "rf_shape (sd_fields s ! i) = rf_shape (sd_fields t ! i)" "rf_size (sd_fields s ! i) = rf_size (sd_fields t ! i)"
    "rf_field (sd_fields s ! i) = rf_field (sd_fields t ! i)" by (simp_all add: free_field_of_def)
  show ?thesis unfolding rf_get_child_def Let_def eq using agree_mk [OF assms(1)] by (metis prod.collapse)
qed

lemma agree_shape: "agree s t \<Longrightarrow> agree (s\<lparr>sd_shapes := sd_shapes s @ [p]\<rparr>) (t\<lparr>sd_shapes := sd_shapes t @ [p]\<rparr>)"
  by (simp add: agree_def)

lemma agree_via: "agree s t \<Longrightarrow> agree s s' \<Longrightarrow> agree t t' \<Longrightarrow> agree s' t'"
  by (meson agree_sym agree_trans)

lemma agree_step:
  assumes "field_step E c s = Inr s'" "field_step E c t = Inr t'" "agree s t" "admissible E c s" "admissible E c t"
    "shard_inv E s" "shard_inv E t" "env_ok E" "fe_consensus E" "in_order c"
  shows "agree s' t'"
proof (cases c)
  case (CreateField a sz)
  then show ?thesis using assms agree_create [of E a sz s s' _ t t'] by (auto simp: rbind_eq_Inr)
next
  case (ReadExtents a)
  then show ?thesis using assms(1-3) agree_extents by (auto simp: rbind_eq_Inr)
next
  case (Outputs i fs d stores)
  then show ?thesis using assms agree_outputs [of E i fs d stores s s' t t'] by (simp del: admissible.simps)
next
  case (Destroy i)
  then show ?thesis using assms agree_release [of E i s s' t t'] by simp
next
  case MatchFields
  then show ?thesis using assms agree_cm_issue [of E s s' t t'] by (simp add: issue_field_match_def)
next
  case (SetMode mode)
  have "agree (launch_window s) (launch_window t)" by (rule agree_quiet [OF assms(3) quiet_launch_window quiet_launch_window])
  moreover have "s' = (launch_window s)\<lparr>sd_mode := mode\<rparr>" "t' = (launch_window t)\<lparr>sd_mode := mode\<rparr>"
    using SetMode assms(1,2) by simp_all
  ultimately show ?thesis by (simp add: agree_def)
next
  case FlushWindow
  then show ?thesis using agree_quiet [OF assms(3), of s' t'] quiet_flush [of s s'] quiet_flush [of t t'] assms(1,2) by simp
next
  case (MapField h i)
  then have "agree s s'" "agree t t'" using assms(1,2) agree_quiet_steps by auto
  then show ?thesis by (rule agree_via [OF assms(3)])
next
  case (UnmapField i)
  then have "agree s s'" "agree t t'" using assms(1,2) agree_quiet_steps by auto
  then show ?thesis by (rule agree_via [OF assms(3)])
next
  case (AttachField h i)
  then have "agree s s'" "agree t t'" using assms(1,2) agree_quiet_steps by auto
  then show ?thesis by (rule agree_via [OF assms(3)])
next
  case (DetachField i)
  then have "agree s s'" "agree t t'" using assms(1,2) agree_quiet_steps by auto
  then show ?thesis by (rule agree_via [OF assms(3)])
qed (use assms in \<open>auto simp: agree_allow agree_child agree_shape\<close>)

text \<open>A run up to its next command in order.\<close>

lemma run_to_next:
  "field_run E t cs t' \<Longrightarrow> shard_inv E t \<Longrightarrow> env_ok E \<Longrightarrow> fe_consensus E \<Longrightarrow> filter in_order cs = ds \<Longrightarrow>
     (case ds of
        [] \<Rightarrow> agree t t'
      | d # ds' \<Rightarrow> \<exists>t1 t2 rest. agree t t1 \<and> shard_inv E t1 \<and> admissible E d t1 \<and> field_step E d t1 = Inr t2 \<and>
          field_run E t2 rest t' \<and> filter in_order rest = ds')"
proof (induction rule: field_run.induct)
  case (Cons c s s' cs s'')
  show ?case
  proof (cases "in_order c")
    case True
    then have "ds = c # filter in_order cs" using Cons.prems(4) by simp
    then show ?thesis
      using Cons.hyps(1-3) Cons.prems(1) by (simp only: list.case) (intro exI [of _ s] exI [of _ s'] exI [of _ cs] conjI agree_refl refl)
  next
    case False
    have a: "agree s s'" by (rule agree_later [OF Cons.hyps(2,1) False Cons.prems(3)])
    have i: "shard_inv E s'" by (rule field_step_inv [OF Cons.hyps(2,1) Cons.prems(1,2)])
    have f: "filter in_order cs = ds" using Cons.prems(4) False by simp
    show ?thesis using Cons.IH [OF i Cons.prems(2,3) f] a by (auto split: list.splits intro: agree_trans)
  qed
qed auto

lemma agree_runs:
  "field_run E s cs s' \<Longrightarrow> field_run E t ds t' \<Longrightarrow> agree s t \<Longrightarrow> shard_inv E s \<Longrightarrow> shard_inv E t \<Longrightarrow> env_ok E \<Longrightarrow>
     fe_consensus E \<Longrightarrow> filter in_order cs = filter in_order ds \<Longrightarrow> agree s' t'"
proof (induction arbitrary: t ds rule: field_run.induct)
  case (Nil s)
  then have "agree t t'" using run_to_next [OF Nil.prems(1,4-6), of "[]"] by simp
  then show ?case using Nil.prems(2) agree_trans by blast
next
  case (Cons c s s1 cs s')
  have i1: "shard_inv E s1" by (rule field_step_inv [OF Cons.hyps(2,1) Cons.prems(3,5)])
  show ?case
  proof (cases "in_order c")
    case False
    have "agree s1 t"
      using agree_trans [OF agree_sym [OF agree_later [OF Cons.hyps(2,1) False Cons.prems(6)]] Cons.prems(2)] .
    then show ?thesis using Cons.IH [OF Cons.prems(1) _ i1 Cons.prems(4-6)] Cons.prems(7) False by simp
  next
    case True
    then have "filter in_order ds = c # filter in_order cs" using Cons.prems(7) by simp
    from run_to_next [OF Cons.prems(1,4-6) this]
    obtain t1 t2 rest where t: "agree t t1" "shard_inv E t1" "admissible E c t1" "field_step E c t1 = Inr t2"
      "field_run E t2 rest t'" "filter in_order rest = filter in_order cs" by auto
    have "agree s1 t2"
      by (rule agree_step [OF Cons.hyps(2) t(4) agree_trans [OF Cons.prems(2) t(1)] Cons.hyps(1) t(3) Cons.prems(3) t(2) Cons.prems(5,6) True])
    moreover have "shard_inv E t2" by (rule field_step_inv [OF t(4,3,2) Cons.prems(5)])
    ultimately show ?thesis using Cons.IH [OF t(5) _ i1 _ Cons.prems(5,6) t(6) [symmetric]] by simp
  qed
qed

text \<open>C13: Replicated shards get the same fields. Let two shards run a program that is the same on both, except that the
  region fields allowed to end in any order end at different times on each, as it happens with garbage collection. As
  long as both get the same results from the consensus matches, they have made the same region fields, over the same
  regions and field identifiers, in the same order; they have allocated the same fields in Legion; and the queues from
  which they recycle fields hold the same fields in the same order.\<close>

theorem shards_make_same_fields:
  assumes "field_run E (initial_shard rt) cs s" "field_run E (initial_shard rt) ds t" "env_ok E" "fe_consensus E"
    "filter in_order cs = filter in_order ds"
  shows "map (\<lambda>rf. (rf_region rf, rf_field rf, rf_shape rf, rf_size rf, rf_parent rf)) (sd_fields s) =
      map (\<lambda>rf. (rf_region rf, rf_field rf, rf_shape rf, rf_size rf, rf_parent rf)) (sd_fields t) \<and>
    sd_managers s = sd_managers t \<and> rt_fields (sd_rt s) = rt_fields (sd_rt t) \<and> fm_ordered s = fm_ordered t"
proof -
  have a: "agree s t" by (rule agree_runs [OF assms(1,2) agree_refl initial_inv initial_inv assms(3-5)])
  let ?f = "\<lambda>rf. (rf_region rf, rf_field rf, rf_shape rf, rf_size rf, rf_parent rf)"
  let ?g = "\<lambda>c. (ff_region (fst c), ff_field (fst c), ff_shape (fst c), ff_size (fst c), fst (snd c))"
  have "?f = ?g \<circ> field_core" by (simp add: field_core_def free_field_of_def fun_eq_iff)
  moreover have "map field_core (sd_fields s) = map field_core (sd_fields t)" using a by (simp only: agree_def)
  ultimately have "map ?f (sd_fields s) = map ?f (sd_fields t)" by (simp only: map_map [symmetric])
  moreover have "sd_managers s = sd_managers t" "sd_rt s = sd_rt t" "fm_ordered s = fm_ordered t" using a by (simp_all only: agree_def)
  ultimately show ?thesis by simp
qed

text \<open>The second shard ends the first region field one command earlier.\<close>

definition ex_commands_early :: "field_command list" where
  "ex_commands_early = [NewShape (ReadyShape [4]), CreateField 0 8, AllowOutOfOrder 0, DestroyLater 0, CreateField 0 8,
     CreateField 0 8, CreateField 0 8]"

lemma ex_early_runs: "\<exists>t. field_run ex_field_env (initial_shard ex_rt) ex_commands_early t"
proof -
  have "case run_commands ex_field_env ex_commands_early (initial_shard ex_rt) of Inl e \<Rightarrow> False | Inr s \<Rightarrow> True"
    by (simp add: ex_eval ex_commands_early_def)
  then obtain t where "run_commands ex_field_env ex_commands_early (initial_shard ex_rt) = Inr t"
    by (cases "run_commands ex_field_env ex_commands_early (initial_shard ex_rt)") simp_all
  then show ?thesis by (intro exI [of _ t] run_commands_run)
qed

lemma shards_make_same_fields_witness:
  "\<exists>s t. field_run ex_field_env (initial_shard ex_rt) ex_commands s \<and> field_run ex_field_env (initial_shard ex_rt) ex_commands_early t \<and>
     ex_commands \<noteq> ex_commands_early \<and> fm_ordered s = fm_ordered t"
proof -
  obtain s where s: "field_run ex_field_env (initial_shard ex_rt) ex_commands s" using ex_run_fields by (elim exE conjE) (rule that)
  obtain t where t: "field_run ex_field_env (initial_shard ex_rt) ex_commands_early t" using ex_early_runs by (elim exE) (rule that)
  have p: "fe_consensus ex_field_env" "filter in_order ex_commands = filter in_order ex_commands_early" "ex_commands \<noteq> ex_commands_early"
    by (simp_all add: ex_field_env_def ex_commands_def ex_commands_early_def)
  note same = shards_make_same_fields [OF s t ex_env_ok p(1,2)]
  show ?thesis by (intro exI [of _ s] exI [of _ t] conjI s t p(3) same [THEN conjunct2, THEN conjunct2, THEN conjunct2])
qed

end
