(* ===== verification/MapperPolicy.thy ===== *)
theory MapperPolicy
  imports TaskArguments "HOL-Library.AList"
begin

text \<open>
  How a client asks for its stores to be mapped: \<open>InstanceMappingPolicy\<close> and \<open>DimOrdering\<close> (mapping/mapping,
  mapping/detail/mapping), \<open>StoreMapping\<close> (mapping/detail/mapping), the stores of the mapper (mapping/detail/store) and
  the sorting of the client's mappings into those for futures, unbound stores and regions (mapping/detail/base_mapper).

  A region is a number; a requirement is known by its position, as \<open>RegionField::index\<close>. Legion's kinds of processors
  and memories that no branch tells apart are one constructor, as in Machine.
\<close>

section \<open>Targets\<close>

datatype variant_code = CPU_VARIANT | GPU_VARIANT | OMP_VARIANT

fun target_of_variant :: "variant_code \<Rightarrow> task_target" where
  "target_of_variant GPU_VARIANT = GPU"
| "target_of_variant OMP_VARIANT = OMP"
| "target_of_variant CPU_VARIANT = CPU"

fun get_matching_task_target :: "store_target \<Rightarrow> task_target" where
  "get_matching_task_target ZCMEM = GPU"
| "get_matching_task_target FBMEM = GPU"
| "get_matching_task_target SOCKETMEM = OMP"
| "get_matching_task_target SYSMEM = CPU"

fun target_of_memory :: "memory_kind \<Rightarrow> store_target result" where
  "target_of_memory SYSTEM_MEM = Inr SYSMEM"
| "target_of_memory GPU_FB_MEM = Inr FBMEM"
| "target_of_memory Z_COPY_MEM = Inr ZCMEM"
| "target_of_memory SOCKET_MEM = Inr SOCKETMEM"
| "target_of_memory OTHER_MEM = Inl CheckFailed"

fun kind_of_task_target :: "task_target \<Rightarrow> processor_kind" where
  "kind_of_task_target GPU = TOC_PROC"
| "kind_of_task_target OMP = OMP_PROC"
| "kind_of_task_target CPU = LOC_PROC"

fun kind_of_store_target :: "store_target \<Rightarrow> memory_kind" where
  "kind_of_store_target SYSMEM = SYSTEM_MEM"
| "kind_of_store_target FBMEM = GPU_FB_MEM"
| "kind_of_store_target ZCMEM = Z_COPY_MEM"
| "kind_of_store_target SOCKETMEM = SOCKET_MEM"

fun to_variant_code :: "task_target \<Rightarrow> variant_code" where
  "to_variant_code GPU = GPU_VARIANT"
| "to_variant_code OMP = OMP_VARIANT"
| "to_variant_code CPU = CPU_VARIANT"

section \<open>Orderings and policies\<close>

datatype ordering_kind = C_ORDER | FORTRAN_ORDER | CUSTOM_ORDER

record dim_ordering =
  do_kind :: ordering_kind
  do_dims :: "nat list"

datatype dimension_kind = DIM nat | DIM_F

datatype alloc_policy = MAY_ALLOC | MUST_ALLOC

record mapping_policy =
  po_target :: store_target
  po_allocation :: alloc_policy
  po_ordering :: "dim_ordering option"
  po_exact :: bool
  po_redundant :: bool

definition default_policy :: mapping_policy where
  "default_policy = \<lparr>po_target = SYSMEM, po_allocation = MAY_ALLOC, po_ordering = None, po_exact = False, po_redundant = False\<rparr>"

definition c_order :: dim_ordering where
  "c_order = \<lparr>do_kind = C_ORDER, do_dims = []\<rparr>"

definition generate_dims :: "dim_ordering \<Rightarrow> nat \<Rightarrow> dimension_kind list result" where
  "generate_dims ord ndim =
     rguard (ndim > 0) CheckFailed
       (case do_kind ord of
          C_ORDER \<Rightarrow> Inr (map DIM (rev [0..<ndim]) @ [DIM_F])
        | FORTRAN_ORDER \<Rightarrow> Inr (map DIM [0..<ndim] @ [DIM_F])
        | CUSTOM_ORDER \<Rightarrow> rguard (ndim = length (do_dims ord)) CheckFailed (Inr (map DIM (do_dims ord) @ [DIM_F])))"

definition dims_of_order :: "dim_ordering \<Rightarrow> nat \<Rightarrow> nat list" where
  "dims_of_order ord ndim =
     (case do_kind ord of C_ORDER \<Rightarrow> rev [0..<ndim] | FORTRAN_ORDER \<Rightarrow> [0..<ndim] | CUSTOM_ORDER \<Rightarrow> do_dims ord)"

section \<open>Stores of the mapper\<close>

fun ms_is_future :: "mapper_store \<Rightarrow> bool" where
  "ms_is_future (MapperFutureStore dim type idx domain transform) = True"
| "ms_is_future (MapperRegionStore dim type redop rf unbound transform) = False"

fun ms_unbound :: "mapper_store \<Rightarrow> bool" where
  "ms_unbound (MapperFutureStore dim type idx domain transform) = False"
| "ms_unbound (MapperRegionStore dim type redop rf unbound transform) = unbound"

fun ms_dim :: "mapper_store \<Rightarrow> int" where
  "ms_dim (MapperFutureStore dim type idx domain transform) = dim"
| "ms_dim (MapperRegionStore dim type redop rf unbound transform) = dim"

fun ms_redop :: "mapper_store \<Rightarrow> int" where
  "ms_redop (MapperFutureStore dim type idx domain transform) = 0"
| "ms_redop (MapperRegionStore dim type redop rf unbound transform) = redop"

fun ms_type :: "mapper_store \<Rightarrow> ltype" where
  "ms_type (MapperFutureStore dim type idx domain transform) = type"
| "ms_type (MapperRegionStore dim type redop rf unbound transform) = type"

fun ms_transform :: "mapper_store \<Rightarrow> transform_stack" where
  "ms_transform (MapperFutureStore dim type idx domain transform) = transform"
| "ms_transform (MapperRegionStore dim type redop rf unbound transform) = transform"

definition ms_transformed :: "mapper_store \<Rightarrow> bool" where
  "ms_transformed s \<longleftrightarrow> ms_transform s \<noteq> []"

fun ms_region_field :: "mapper_store \<Rightarrow> mapper_region_field result" where
  "ms_region_field (MapperFutureStore dim type idx domain transform) = Inl CheckFailed"
| "ms_region_field (MapperRegionStore dim type redop rf unbound transform) = Inr rf"

fun ms_future_index :: "mapper_store \<Rightarrow> u32 result" where
  "ms_future_index (MapperFutureStore dim type idx domain transform) = Inr idx"
| "ms_future_index (MapperRegionStore dim type redop rf unbound transform) = Inl CheckFailed"

definition ms_is_reduction :: "mapper_store \<Rightarrow> bool" where
  "ms_is_reduction s \<longleftrightarrow> ms_redop s > 0"

fun mr_region :: "mapper_region_field \<Rightarrow> nat" where
  "mr_region rf = (case mr_requirement rf of Inl req \<Rightarrow> rr_region req | Inr req \<Rightarrow> 0)"

type_synonym region_field_id = "bool \<times> u32 \<times> u32"

definition mr_unique_id :: "mapper_region_field \<Rightarrow> region_field_id" where
  "mr_unique_id rf = (mr_unbound rf, mr_index rf, mr_field rf)"

definition mr_can_colocate_with :: "(nat \<Rightarrow> nat) \<Rightarrow> mapper_region_field \<Rightarrow> mapper_region_field \<Rightarrow> bool" where
  "mr_can_colocate_with tree a b \<longleftrightarrow>
     tree (mr_region a) = tree (mr_region b) \<and> mr_field a = mr_field b \<and> mr_dim a = mr_dim b"

definition ms_can_colocate_with :: "(nat \<Rightarrow> nat) \<Rightarrow> mapper_store \<Rightarrow> mapper_store \<Rightarrow> bool result" where
  "ms_can_colocate_with tree a b =
     (if ms_is_future a \<or> ms_is_future b then Inr False
      else if ms_unbound a \<or> ms_unbound b then Inr False
      else rbind (ms_region_field a) (\<lambda>ra. rbind (ms_region_field b) (\<lambda>rb.
        Inr ((ms_is_reduction a \<or> ms_is_reduction b \<longrightarrow> ms_redop a = ms_redop b) \<and> mr_can_colocate_with tree ra rb))))"

definition ms_invert_dims :: "mapper_store \<Rightarrow> nat list \<Rightarrow> nat list result" where
  "ms_invert_dims s dims = stack_invert_dims (ms_transform s) dims"

text \<open>The layout of an instance for a store: the dimensions of the region field, the fastest first.\<close>

definition generate_store_dims :: "dim_ordering \<Rightarrow> mapper_store \<Rightarrow> dimension_kind list result" where
  "generate_store_dims ord s =
     (if \<not> ms_transformed s then generate_dims ord (nat (max 1 (ms_dim s)))
      else rbind (ms_region_field s) (\<lambda>rf.
        rbind (ms_invert_dims s (dims_of_order ord (nat (ms_dim s)))) (\<lambda>dims.
          if dims = [] \<and> mr_dim rf = 1 then Inr [DIM 0, DIM_F]
          else rguard (int (length dims) \<le> mr_dim rf \<and> (\<forall>d \<in> set dims. int d < mr_dim rf)) CheckFailed
                 (Inr (map DIM dims @ [DIM_F])))))"

section \<open>Layout constraints\<close>

datatype specialized = AFFINE_REDUCTION int | AFFINE_NO_ACCESS

record layout_constraints =
  lc_ordering :: "dimension_kind list"
  lc_contiguous :: bool
  lc_memory :: "memory_kind option"
  lc_fields :: "u32 list"
  lc_special :: "specialized option"

definition empty_layout :: layout_constraints where
  "empty_layout = \<lparr>lc_ordering = [], lc_contiguous = False, lc_memory = None, lc_fields = [], lc_special = None\<rparr>"

record store_mapping =
  sm_policy :: mapping_policy
  sm_stores :: "mapper_store list"

definition sm_for_future :: "store_mapping \<Rightarrow> bool" where
  "sm_for_future m \<longleftrightarrow> list_ex ms_is_future (sm_stores m)"

definition sm_for_unbound_store :: "store_mapping \<Rightarrow> bool" where
  "sm_for_unbound_store m \<longleftrightarrow> list_ex ms_unbound (sm_stores m)"

definition sm_store :: "store_mapping \<Rightarrow> mapper_store result" where
  "sm_store m = vec_get (sm_stores m) 0"

definition ms_requirement_index :: "mapper_store \<Rightarrow> u32 result" where
  "ms_requirement_index s = rbind (ms_region_field s) (\<lambda>rf. Inr (mr_index rf))"

definition ms_unique_id :: "mapper_store \<Rightarrow> region_field_id result" where
  "ms_unique_id s = rbind (ms_region_field s) (\<lambda>rf. Inr (mr_unique_id rf))"

definition sm_requirement_index :: "store_mapping \<Rightarrow> u32 result" where
  "sm_requirement_index m =
     (if sm_stores m = [] then Inr (-1)
      else rbind (sm_store m) (\<lambda>s. rbind (ms_requirement_index s) (\<lambda>idx.
        rbind (rmapM ms_requirement_index (sm_stores m)) (\<lambda>idxs.
          rguard (list_all (\<lambda>i. i = idx) idxs) CheckFailed (Inr idx)))))"

definition sm_requirement_indices :: "store_mapping \<Rightarrow> u32 list result" where
  "sm_requirement_indices m =
     rbind (rmapM ms_requirement_index (filter (\<lambda>s. \<not> ms_is_future s) (sm_stores m))) (\<lambda>idxs. Inr (remdups idxs))"

definition populate_layout_constraints :: "store_mapping \<Rightarrow> layout_constraints \<Rightarrow> layout_constraints result" where
  "populate_layout_constraints m lc =
     rbind (sm_store m) (\<lambda>store.
       rguard (list_all (\<lambda>s. ms_dim s = ms_dim store) (sm_stores m)) CheckFailed
         (rbind (case po_ordering (sm_policy m) of None \<Rightarrow> Inr (lc_ordering lc) | Some ord \<Rightarrow> generate_store_dims ord store) (\<lambda>ordering.
           rbind (rmapM ms_region_field (sm_stores m)) (\<lambda>rfs.
             rguard (list_all (\<lambda>rf. mr_field rf = mr_field (hd rfs)) rfs) CheckFailed
               (Inr (lc\<lparr>lc_ordering := ordering, lc_contiguous := False,
                  lc_memory := Some (kind_of_store_target (po_target (sm_policy m))), lc_fields := [mr_field (hd rfs)]\<rparr>))))))"

definition default_mapping :: "mapper_store \<Rightarrow> store_target \<Rightarrow> bool \<Rightarrow> store_mapping" where
  "default_mapping store target exact =
     \<lparr>sm_policy = default_policy\<lparr>po_target := target, po_exact := exact\<rparr>, sm_stores = [store]\<rparr>"

section \<open>The mappings of a task\<close>

text \<open>The mapping of a future is kept by its position in \<open>md_for_futures\<close>. \<open>num_futures\<close> counts the futures of the task.\<close>

record mapping_data =
  md_futures :: "(u32 \<times> store_mapping) list"
  md_regions :: "region_field_id list"
  md_unbound :: "store_mapping list"
  md_stores :: "store_mapping list"

definition validate_colocation :: "(nat \<Rightarrow> nat) \<Rightarrow> store_mapping list \<Rightarrow> unit result" where
  "validate_colocation tree mappings =
     rbind (rmapM (\<lambda>m.
       rguard (sm_stores m \<noteq> []) CheckFailed
         (rguard (\<not> (sm_for_future m \<or> sm_for_unbound_store m) \<or> length (sm_stores m) = 1) CheckFailed
           (rbind (rany (\<lambda>s. rbind (ms_can_colocate_with tree s (hd (sm_stores m))) (\<lambda>b. Inr (\<not> b))) (tl (sm_stores m))) (\<lambda>bad.
             rguard (\<not> bad) CheckFailed (Inr ()))))) mappings) (\<lambda>_. Inr ())"

definition insert_region :: "region_field_id \<Rightarrow> mapping_data \<Rightarrow> mapping_data" where
  "insert_region i md = md\<lparr>md_regions := List.insert i (md_regions md)\<rparr>"

definition handle_client_mapping :: "nat \<Rightarrow> store_mapping \<Rightarrow> mapping_data \<Rightarrow> mapping_data result" where
  "handle_client_mapping num_futures m md =
     (if sm_for_future m
      then rbind (sm_store m) (\<lambda>s. rbind (ms_future_index s) (\<lambda>idx.
        if unat idx \<ge> num_futures then Inr md
        else case map_of (md_futures md) idx of
               None \<Rightarrow> Inr (md\<lparr>md_futures := md_futures md @ [(idx, m)]\<rparr>)
             | Some m' \<Rightarrow> rguard (sm_policy m' = sm_policy m) CheckFailed (Inr md)))
      else if sm_for_unbound_store m
      then rbind (sm_store m) (\<lambda>s. rbind (ms_unique_id s) (\<lambda>i.
        Inr ((insert_region i md)\<lparr>md_unbound := md_unbound md @ [m]\<rparr>)))
      else rbind (rmapM ms_unique_id (sm_stores m)) (\<lambda>ids.
        Inr ((fold insert_region ids md)\<lparr>md_stores := md_stores md @ [m]\<rparr>)))"

definition empty_mapping_data :: mapping_data where
  "empty_mapping_data = \<lparr>md_futures = [], md_regions = [], md_unbound = [], md_stores = []\<rparr>"

definition handle_client_mappings :: "nat \<Rightarrow> store_mapping list \<Rightarrow> mapping_data result" where
  "handle_client_mappings num_futures mappings =
     rfoldM (handle_client_mapping num_futures) mappings empty_mapping_data"

definition validate_policy :: "mapping_policy \<Rightarrow> region_field_id \<Rightarrow> (region_field_id \<times> mapping_policy) list \<Rightarrow>
    (region_field_id \<times> mapping_policy) list result" where
  "validate_policy policy key policies =
     (case map_of policies key of
        None \<Rightarrow> Inr (policies @ [(key, policy)])
      | Some p \<Rightarrow> rguard (policy = p) CheckFailed (Inr policies))"

definition validate_policies :: "store_mapping list \<Rightarrow> unit result" where
  "validate_policies mappings =
     rbind (rfoldM (\<lambda>m policies. rbind (rmapM ms_unique_id (sm_stores m)) (\<lambda>ids.
       rfoldM (validate_policy (sm_policy m)) ids policies)) mappings []) (\<lambda>_. Inr ())"

definition initialize_mapping_categories :: "(nat \<Rightarrow> nat) \<Rightarrow> nat \<Rightarrow> store_mapping list \<Rightarrow> mapping_data result" where
  "initialize_mapping_categories tree num_futures mappings =
     rbind (validate_colocation tree mappings) (\<lambda>_. rbind (handle_client_mappings num_futures mappings) (\<lambda>md.
       rbind (validate_policies (md_stores md)) (\<lambda>_. Inr md)))"

definition generate_default_mapping :: "nat \<Rightarrow> store_target \<Rightarrow> mapper_store \<Rightarrow> mapping_data \<Rightarrow> mapping_data result" where
  "generate_default_mapping num_futures option s md =
     (if ms_is_future s
      then rbind (ms_future_index s) (\<lambda>idx.
        if unat idx \<ge> num_futures \<or> map_of (md_futures md) idx \<noteq> None then Inr md
        else Inr (md\<lparr>md_futures := md_futures md @ [(idx, default_mapping s option False)]\<rparr>))
      else rbind (ms_unique_id s) (\<lambda>i.
        if i \<in> set (md_regions md) then Inr md
        else let md = insert_region i md; m = default_mapping s option False
             in Inr (if ms_unbound s then md\<lparr>md_unbound := md_unbound md @ [m]\<rparr> else md\<lparr>md_stores := md_stores md @ [m]\<rparr>)))"

definition default_store_targets :: "processor_kind \<Rightarrow> bool \<Rightarrow> store_target list result" where
  "default_store_targets kind for_pool_size =
     (case kind of
        TOC_PROC \<Rightarrow> Inr [FBMEM, ZCMEM]
      | OMP_PROC \<Rightarrow> Inr (if for_pool_size then [SOCKETMEM] else [SOCKETMEM, SYSMEM])
      | LOC_PROC \<Rightarrow> Inr [SYSMEM]
      | OTHER_PROC \<Rightarrow> Inl CheckFailed)"

text \<open>The part of \<open>map_task\<close> that sorts the mappings: the client's mappings, then a default for every store that they
  leave out.\<close>

definition task_mappings :: "(nat \<Rightarrow> nat) \<Rightarrow> nat \<Rightarrow> processor_kind \<Rightarrow> store_mapping list \<Rightarrow> mapper_task \<Rightarrow> mapping_data result" where
  "task_mappings tree num_futures kind client tsk =
     rbind (default_store_targets kind False) (\<lambda>options.
       rbind (initialize_mapping_categories tree num_futures client)
         (rfoldM (generate_default_mapping num_futures (hd options)) (mt_inputs tsk @ mt_outputs tsk @ mt_reductions tsk)))"

text \<open>The memories of the futures and of the unbound stores; an output requirement with an unbound store also gets the
  ordering of its instance and the alignment of the field.\<close>

definition map_future_backed_stores :: "nat \<Rightarrow> local_machine \<Rightarrow> nat \<Rightarrow> mapping_data \<Rightarrow> memory option list result" where
  "map_future_backed_stores num_futures lm proc md =
     rguard (length (md_futures md) \<le> num_futures) CheckFailed
       (rbind (rmapM (\<lambda>(_, m). rbind (sm_store m) ms_future_index) (md_futures md)) (\<lambda>idxs.
         rguard (map unat idxs = [0..<length idxs]) CheckFailed
           (rfoldM (\<lambda>(idx, m) locations.
              rbind (lm_get_memory lm proc (po_target (sm_policy m))) (\<lambda>mem. vec_set (unat idx) mem locations))
              (zip idxs (map snd (md_futures md))) (replicate (length (md_futures md)) None))))"

record unbound_target =
  ut_memory :: "memory option"
  ut_ordering :: "dimension_kind list"
  ut_contiguous :: bool
  ut_alignments :: "(u32 \<times> u32) list"

definition map_unbound_store :: "local_machine \<Rightarrow> nat \<Rightarrow> store_mapping \<Rightarrow> (u32 \<times> unbound_target) list \<Rightarrow>
    (u32 \<times> unbound_target) list result" where
  "map_unbound_store lm proc m outputs =
     rbind (sm_store m) (\<lambda>s. rbind (sm_requirement_index m) (\<lambda>idx.
       rbind (lm_get_memory lm proc (po_target (sm_policy m))) (\<lambda>mem.
         rbind (generate_store_dims (case po_ordering (sm_policy m) of None \<Rightarrow> c_order | Some ord \<Rightarrow> ord) s) (\<lambda>ordering.
           rbind (ms_region_field s) (\<lambda>rf.
             let alignments = (case map_of outputs idx of None \<Rightarrow> [] | Some ut \<Rightarrow> ut_alignments ut)
             in Inr (AList.update idx \<lparr>ut_memory = mem, ut_ordering = ordering, ut_contiguous = False,
                  ut_alignments = alignments @ [(mr_field rf, type_alignment (ms_type s))]\<rparr> outputs))))))"

definition map_unbound_stores :: "local_machine \<Rightarrow> nat \<Rightarrow> mapping_data \<Rightarrow> (u32 \<times> unbound_target) list result" where
  "map_unbound_stores lm proc md = rfoldM (map_unbound_store lm proc) (md_unbound md) []"

end
