(* ===== verification/MapperPolicyCorrect.thy ===== *)
theory MapperPolicyCorrect
  imports MapperPolicy
begin

text \<open>
  The mappings of a task: every store gets one, and mappings that share a region field agree on its policy.
\<close>

definition maps_id :: "store_mapping \<Rightarrow> region_field_id \<Rightarrow> bool" where
  "maps_id m i \<longleftrightarrow> (\<exists>s \<in> set (sm_stores m). ms_unique_id s = Inr i)"

definition consistent :: "store_mapping list \<Rightarrow> bool" where
  "consistent ms \<longleftrightarrow> (\<forall>m \<in> set ms. \<forall>m' \<in> set ms. \<forall>i. maps_id m i \<longrightarrow> maps_id m' i \<longrightarrow> sm_policy m = sm_policy m')"

definition regions_inv :: "mapping_data \<Rightarrow> bool" where
  "regions_inv md \<longleftrightarrow>
     (\<forall>i \<in> set (md_regions md). \<exists>m \<in> set (md_stores md @ md_unbound md). maps_id m i) \<and>
     (\<forall>m \<in> set (md_stores md). \<forall>i. maps_id m i \<longrightarrow> i \<in> set (md_regions md))"

lemma rmapM_set: "rmapM f xs = Inr ys \<Longrightarrow> (\<exists>x \<in> set xs. f x = Inr y) \<longleftrightarrow> y \<in> set ys"
  by (induction xs arbitrary: ys) (auto simp: rbind_eq_Inr)

lemma rmapM_ok: "rmapM f xs = Inr ys \<Longrightarrow> x \<in> set xs \<Longrightarrow> \<exists>y. f x = Inr y \<and> y \<in> set ys"
  by (induction xs arbitrary: ys) (auto simp: rbind_eq_Inr)

lemma rfoldM_inv:
  assumes "rfoldM f xs s = Inr t" "P s" "\<And>x s t. x \<in> set xs \<Longrightarrow> f x s = Inr t \<Longrightarrow> P s \<Longrightarrow> P t"
  shows "P t"
  using assms by (induction xs arbitrary: s) (auto simp: rbind_eq_Inr)

lemma insert_region_simps [simp]:
  "md_stores (insert_region i md) = md_stores md" "md_unbound (insert_region i md) = md_unbound md"
  "md_futures (insert_region i md) = md_futures md" "set (md_regions (insert_region i md)) = insert i (set (md_regions md))"
  by (simp_all add: insert_region_def)

lemma insert_regions_simps [simp]:
  "md_stores (fold insert_region is md) = md_stores md" "md_unbound (fold insert_region is md) = md_unbound md"
  "md_futures (fold insert_region is md) = md_futures md"
  "set (md_regions (fold insert_region is md)) = set is \<union> set (md_regions md)"
  by (induction "is" arbitrary: md) auto

text \<open>A step keeps the mappings that are there and adds some.\<close>

lemma client_step:
  assumes "handle_client_mapping n m md = Inr md'" "regions_inv md"
  shows "regions_inv md'"
proof -
  consider (future) "md_regions md' = md_regions md" "md_stores md' = md_stores md" "md_unbound md' = md_unbound md"
    | (unbound) s i where "sm_store m = Inr s" "ms_unique_id s = Inr i" "md' = (insert_region i md)\<lparr>md_unbound := md_unbound md @ [m]\<rparr>"
    | (stores) ids where "rmapM ms_unique_id (sm_stores m) = Inr ids"
        "md' = (fold insert_region ids md)\<lparr>md_stores := md_stores md @ [m]\<rparr>"
    using assms(1) by (auto simp: handle_client_mapping_def rbind_eq_Inr rguard_eq_Inr split: if_splits option.splits)
  then show ?thesis
  proof cases
    case unbound
    then have "maps_id m i" by (auto simp: maps_id_def sm_store_def vec_get_def split: if_splits)
    then show ?thesis using unbound assms(2) by (auto simp: regions_inv_def)
  next
    case stores
    have "maps_id m i \<longleftrightarrow> i \<in> set ids" for i unfolding maps_id_def by (rule rmapM_set [OF stores(1)])
    then show ?thesis using stores assms(2) by (fastforce simp: regions_inv_def)
  qed (use assms(2) in \<open>simp add: regions_inv_def\<close>)
qed

lemma policies_consistent:
  assumes "validate_policies ms = Inr u"
  shows "consistent ms"
proof -
  let ?f = "\<lambda>m policies. rbind (rmapM ms_unique_id (sm_stores m)) (\<lambda>ids. rfoldM (validate_policy (sm_policy m)) ids policies)"
  have one: "map_of ps \<subseteq>\<^sub>m map_of ps' \<and> (\<forall>i \<in> set ids. map_of ps' i = Some pol)" if "rfoldM (validate_policy pol) ids ps = Inr ps'"
    for pol ids ps ps'
    using that
  proof (induction ids arbitrary: ps)
    case (Cons i ids)
    then obtain ps1 where ps1: "validate_policy pol i ps = Inr ps1" "rfoldM (validate_policy pol) ids ps1 = Inr ps'"
      by (auto simp: rbind_eq_Inr)
    have a: "map_of ps \<subseteq>\<^sub>m map_of ps1" "map_of ps1 i = Some pol"
      using ps1(1) by (auto simp: validate_policy_def map_le_def map_add_Some_iff rguard_eq_Inr split: option.splits)
    note ih = Cons.IH [OF ps1(2)]
    have "map_of ps' i = Some pol"
      using bspec [OF conjunct1 [OF ih, unfolded map_le_def], of i] a(2) by (simp add: dom_def)
    then show ?case using ih map_le_trans [OF a(1)] by simp
  qed simp
  have all: "map_of ps \<subseteq>\<^sub>m map_of ps' \<and> (\<forall>m \<in> set ms. \<forall>i. maps_id m i \<longrightarrow> map_of ps' i = Some (sm_policy m))"
    if "rfoldM ?f ms ps = Inr ps'" for ps ps'
    using that
  proof (induction ms arbitrary: ps)
    case (Cons m ms)
    then obtain ids ps1 where ps1: "rmapM ms_unique_id (sm_stores m) = Inr ids" "rfoldM (validate_policy (sm_policy m)) ids ps = Inr ps1"
      "rfoldM ?f ms ps1 = Inr ps'"
      by (auto simp: rbind_eq_Inr)
    have m: "maps_id m i \<longleftrightarrow> i \<in> set ids" for i unfolding maps_id_def by (rule rmapM_set [OF ps1(1)])
    note ih = Cons.IH [OF ps1(3)] and o = one [OF ps1(2)]
    have "map_of ps' i = Some (sm_policy m)" if "maps_id m i" for i
    proof -
      have "map_of ps1 i = Some (sm_policy m)" using that o m by blast
      then show ?thesis using bspec [OF conjunct1 [OF ih, unfolded map_le_def], of i] by (simp add: dom_def)
    qed
    then show ?case using ih map_le_trans [OF conjunct1 [OF o]] by simp
  qed simp
  obtain ps where "rfoldM ?f ms [] = Inr ps" using assms by (auto simp: validate_policies_def rbind_eq_Inr)
  from all [OF this] have p: "map_of ps i = Some (sm_policy m)" if "m \<in> set ms" "maps_id m i" for m i using that by blast
  show ?thesis unfolding consistent_def
  proof (intro ballI allI impI)
    fix m m' i
    assume "m \<in> set ms" "m' \<in> set ms" "maps_id m i" "maps_id m' i"
    then show "sm_policy m = sm_policy m'" using p [of m i] p [of m' i] by simp
  qed
qed

lemma consistent_snoc:
  assumes "consistent ms" "\<And>m i. m \<in> set ms \<Longrightarrow> maps_id m' i \<Longrightarrow> \<not> maps_id m i"
  shows "consistent (ms @ [m'])"
  unfolding consistent_def
proof (intro ballI allI impI)
  fix a b i
  assume ab: "a \<in> set (ms @ [m'])" "b \<in> set (ms @ [m'])" "maps_id a i" "maps_id b i"
  show "sm_policy a = sm_policy b"
  proof (cases "a \<in> set ms \<and> b \<in> set ms")
    case True
    then show ?thesis using assms(1) ab(3,4) unfolding consistent_def by blast
  next
    case False
    then have "a = m' \<or> b = m'" using ab(1,2) by auto
    moreover have "b \<notin> set ms" if "a = m'" using assms(2) [of b i] ab(3,4) that by blast
    moreover have "a \<notin> set ms" if "b = m'" using assms(2) [of a i] ab(3,4) that by blast
    ultimately have "a = b" using ab(1,2) by auto
    then show ?thesis by simp
  qed
qed

lemma regions_inv_add:
  assumes "regions_inv md" "\<And>j. maps_id m j \<longleftrightarrow> j = i"
  shows "regions_inv ((insert_region i md)\<lparr>md_stores := md_stores md @ [m]\<rparr>)"
    "regions_inv ((insert_region i md)\<lparr>md_unbound := md_unbound md @ [m]\<rparr>)"
  using assms unfolding regions_inv_def by (simp_all del: split_paired_All split_paired_Ex)

lemma default_step:
  assumes "generate_default_mapping n target s md = Inr md'" "regions_inv md" "consistent (md_stores md)"
  shows "regions_inv md' \<and> consistent (md_stores md')"
    "set (md_stores md @ md_unbound md) \<subseteq> set (md_stores md' @ md_unbound md')"
    "\<And>i. map_of (md_futures md) i \<noteq> None \<Longrightarrow> map_of (md_futures md') i \<noteq> None"
    "ms_unique_id s = Inr i \<Longrightarrow> \<exists>m \<in> set (md_stores md' @ md_unbound md'). maps_id m i"
    "ms_future_index s = Inr k \<Longrightarrow> unat k < n \<Longrightarrow> map_of (md_futures md') k \<noteq> None"
proof -
  have fut: "ms_is_future s \<longleftrightarrow> (\<exists>k. ms_future_index s = Inr k)" "\<not> ms_is_future s \<longleftrightarrow> (\<exists>i. ms_unique_id s = Inr i)"
    by (cases s; simp add: ms_unique_id_def del: split_paired_Ex; fail)+
  have ids: "maps_id (default_mapping s target False) j \<longleftrightarrow> ms_unique_id s = Inr j" for j
    by (simp add: maps_id_def default_mapping_def)
  have cases: "(\<exists>k. ms_future_index s = Inr k \<and> md_regions md' = md_regions md \<and> md_stores md' = md_stores md \<and>
        md_unbound md' = md_unbound md \<and> (unat k < n \<longrightarrow> map_of (md_futures md') k \<noteq> None) \<and>
        (\<forall>j. map_of (md_futures md) j \<noteq> None \<longrightarrow> map_of (md_futures md') j \<noteq> None)) \<or>
      (\<exists>i. ms_unique_id s = Inr i \<and> i \<in> set (md_regions md) \<and> md' = md) \<or>
      (\<exists>i. ms_unique_id s = Inr i \<and> i \<notin> set (md_regions md) \<and>
        (md' = (insert_region i md)\<lparr>md_unbound := md_unbound md @ [default_mapping s target False]\<rparr> \<or>
         md' = (insert_region i md)\<lparr>md_stores := md_stores md @ [default_mapping s target False]\<rparr>))"
  proof (cases "ms_is_future s")
    case True
    then obtain k where k: "ms_future_index s = Inr k" using fut by blast
    show ?thesis
    proof (cases "unat k \<ge> n \<or> map_of (md_futures md) k \<noteq> None")
      case known: True
      then have "md' = md" using assms(1) True k unfolding generate_default_mapping_def by simp
      then show ?thesis using k known by auto
    next
      case new: False
      then have "md' = md\<lparr>md_futures := md_futures md @ [(k, default_mapping s target False)]\<rparr>"
        using assms(1) True k unfolding generate_default_mapping_def by simp
      then show ?thesis using k by (auto simp: map_add_Some_iff map_add_def split: option.splits)
    qed
  next
    case False
    then obtain i where i: "ms_unique_id s = Inr i" using fut by blast
    show ?thesis
    proof (cases "i \<in> set (md_regions md)")
      case True
      then have "md' = md" using assms(1) False i unfolding generate_default_mapping_def by simp
      then show ?thesis using i True by blast
    next
      case new: False
      then show ?thesis using assms(1) False i unfolding generate_default_mapping_def
        by (cases "ms_unbound s"; simp add: Let_def)
    qed
  qed
  then consider (future) k where "ms_future_index s = Inr k" "md_regions md' = md_regions md" "md_stores md' = md_stores md"
      "md_unbound md' = md_unbound md" "unat k < n \<longrightarrow> map_of (md_futures md') k \<noteq> None"
      "\<forall>j. map_of (md_futures md) j \<noteq> None \<longrightarrow> map_of (md_futures md') j \<noteq> None"
    | (known) i where "ms_unique_id s = Inr i" "i \<in> set (md_regions md)" "md' = md"
    | (unbound) i where "ms_unique_id s = Inr i" "i \<notin> set (md_regions md)"
        "md' = (insert_region i md)\<lparr>md_unbound := md_unbound md @ [default_mapping s target False]\<rparr>"
    | (bound) i where "ms_unique_id s = Inr i" "i \<notin> set (md_regions md)"
        "md' = (insert_region i md)\<lparr>md_stores := md_stores md @ [default_mapping s target False]\<rparr>"
    by (elim disjE exE conjE) blast+
  note cases = this
  show "regions_inv md' \<and> consistent (md_stores md')"
    using cases
  proof cases
    case bound
    have only: "maps_id (default_mapping s target False) j \<longleftrightarrow> j = i" for j using ids [of j] bound(1) by auto
    have fresh: "\<not> maps_id m i" if "m \<in> set (md_stores md)" for m using bound(2) assms(2) that unfolding regions_inv_def by blast
    have "consistent (md_stores md @ [default_mapping s target False])"
      by (rule consistent_snoc [OF assms(3)]) (simp add: only fresh)
    then show ?thesis using bound(3) regions_inv_add(1) [OF assms(2) only] by simp
  next
    case unbound
    have only: "maps_id (default_mapping s target False) j \<longleftrightarrow> j = i" for j using ids [of j] unbound(1) by auto
    show ?thesis using unbound(3) regions_inv_add(2) [OF assms(2) only] assms(3) by simp
  qed (use assms(2,3) in \<open>simp_all add: regions_inv_def\<close>)
  show "set (md_stores md @ md_unbound md) \<subseteq> set (md_stores md' @ md_unbound md')"
    "\<And>i. map_of (md_futures md) i \<noteq> None \<Longrightarrow> map_of (md_futures md') i \<noteq> None"
    using cases by (cases; auto)+
  show "\<exists>m \<in> set (md_stores md' @ md_unbound md'). maps_id m i" if "ms_unique_id s = Inr i"
    using cases
  proof cases
    case future
    then show ?thesis using that by (cases s) (simp_all add: ms_unique_id_def)
  next
    case known
    then show ?thesis using that assms(2) by (auto simp: regions_inv_def)
  qed (use that ids in auto)
  show "map_of (md_futures md') k \<noteq> None" if "ms_future_index s = Inr k" "unat k < n"
    using cases that fut by (cases; auto)
qed

definition mapped :: "nat \<Rightarrow> mapping_data \<Rightarrow> mapper_store \<Rightarrow> bool" where
  "mapped n md s \<longleftrightarrow>
     (\<forall>i. ms_unique_id s = Inr i \<longrightarrow> (\<exists>m \<in> set (md_stores md @ md_unbound md). maps_id m i)) \<and>
     (\<forall>k. ms_future_index s = Inr k \<longrightarrow> unat k < n \<longrightarrow> map_of (md_futures md) k \<noteq> None)"

lemma default_steps:
  assumes "rfoldM (generate_default_mapping n target) ss md = Inr md'" "regions_inv md" "consistent (md_stores md)"
  shows "consistent (md_stores md') \<and> set (md_stores md @ md_unbound md) \<subseteq> set (md_stores md' @ md_unbound md') \<and>
    (\<forall>i. map_of (md_futures md) i \<noteq> None \<longrightarrow> map_of (md_futures md') i \<noteq> None) \<and> (\<forall>s \<in> set ss. mapped n md' s)"
  using assms
proof (induction ss arbitrary: md)
  case (Cons s ss)
  obtain md1 where md1: "generate_default_mapping n target s md = Inr md1" "rfoldM (generate_default_mapping n target) ss md1 = Inr md'"
    using Cons.prems(1) by (auto simp: rbind_eq_Inr)
  note d = default_step [OF md1(1) Cons.prems(2,3)]
  have ih: "consistent (md_stores md') \<and> set (md_stores md1 @ md_unbound md1) \<subseteq> set (md_stores md' @ md_unbound md') \<and>
    (\<forall>i. map_of (md_futures md1) i \<noteq> None \<longrightarrow> map_of (md_futures md') i \<noteq> None) \<and> (\<forall>s \<in> set ss. mapped n md' s)"
    using Cons.IH [OF md1(2)] d(1) by blast
  have "mapped n md' s" unfolding mapped_def using d(4,5) ih by blast
  show ?case
  proof (intro conjI ballI allI impI)
    show "mapped n md' x" if "x \<in> set (s # ss)" for x
      using that ih \<open>mapped n md' s\<close> by (cases "x = s") simp_all
  qed (use ih d(2,3) in blast)+
qed simp

text \<open>C19: Every store of a task is mapped. When the mappings of a task could be sorted (with the checks of debug
  builds), every region field that an input, an output or a reduction of the task uses is in some mapping, the client's
  or a default, and every scalar store whose future the task has is mapped as well. All mappings of bound stores that
  share a region field agree on the policy; the mappings of unbound stores are not compared.\<close>

theorem task_mappings_complete:
  assumes "task_mappings tree n kind client tsk = Inr md" "s \<in> set (mt_inputs tsk @ mt_outputs tsk @ mt_reductions tsk)"
  shows "(case ms_unique_id s of
      Inr i \<Rightarrow> \<exists>m \<in> set (md_stores md @ md_unbound md). \<exists>s' \<in> set (sm_stores m). ms_unique_id s' = Inr i
    | Inl _ \<Rightarrow> \<exists>k. ms_future_index s = Inr k \<and> (unat k < n \<longrightarrow> map_of (md_futures md) k \<noteq> None)) \<and>
    (\<forall>m \<in> set (md_stores md). \<forall>m' \<in> set (md_stores md).
       (\<exists>s \<in> set (sm_stores m). \<exists>s' \<in> set (sm_stores m'). \<exists>i. ms_unique_id s = Inr i \<and> ms_unique_id s' = Inr i) \<longrightarrow>
       sm_policy m = sm_policy m')"
proof -
  obtain md0 options where md0: "initialize_mapping_categories tree n client = Inr md0"
    "rfoldM (generate_default_mapping n (hd options)) (mt_inputs tsk @ mt_outputs tsk @ mt_reductions tsk) md0 = Inr md"
    using assms(1) by (auto simp: task_mappings_def rbind_eq_Inr)
  then have c: "rfoldM (handle_client_mapping n) client empty_mapping_data = Inr md0" "consistent (md_stores md0)"
    using policies_consistent
    by (auto simp: initialize_mapping_categories_def handle_client_mappings_def rbind_eq_Inr)
  have "regions_inv md0"
    by (rule rfoldM_inv [OF c(1), where P = regions_inv])
      (simp add: regions_inv_def empty_mapping_data_def, rule client_step)
  note d = default_steps [OF md0(2) this c(2)]
  then have m: "mapped n md s" and con: "consistent (md_stores md)" using assms(2) by blast+
  have "case ms_unique_id s of
      Inr i \<Rightarrow> \<exists>m \<in> set (md_stores md @ md_unbound md). \<exists>s' \<in> set (sm_stores m). ms_unique_id s' = Inr i
    | Inl _ \<Rightarrow> \<exists>k. ms_future_index s = Inr k \<and> (unat k < n \<longrightarrow> map_of (md_futures md) k \<noteq> None)"
  proof (cases "ms_unique_id s")
    case (Inr i)
    then show ?thesis using m unfolding mapped_def maps_id_def by simp
  next
    case (Inl e)
    then obtain k where "ms_future_index s = Inr k" by (cases s) (simp_all add: ms_unique_id_def)
    then show ?thesis using Inl m unfolding mapped_def by simp
  qed
  then show ?thesis using con unfolding consistent_def maps_id_def by blast
qed

section \<open>An example\<close>

definition ex_future :: "u32 \<Rightarrow> mapper_store" where
  "ex_future idx = MapperFutureStore 1 (PrimitiveType INT64) idx \<lparr>dom_lo = [0], dom_hi = [0]\<rparr> []"

definition ex_region :: mapper_store where
  "ex_region = MapperRegionStore 1 (PrimitiveType INT64) (-1)
     \<lparr>mr_requirement = Inr \<lparr>or_field_space = 0, or_fields = [10], or_dim = 1, or_projection = 0, or_color_space = 0\<rparr>, mr_dim = 1, mr_index = 0, mr_field = 10, mr_unbound = False\<rparr> False []"

definition ex_task :: mapper_task where
  "ex_task = \<lparr>mt_library = 0, mt_task_info = 0, mt_inputs = [ex_future 0, ex_future 1, ex_region], mt_outputs = [ex_region],
     mt_reductions = [], mt_scalars = [], mt_future_size = 0, mt_can_raise = False\<rparr>"

definition ex_client :: "store_mapping list" where
  "ex_client = [default_mapping (ex_future 1) ZCMEM False]"

definition ex_memories :: local_machine where
  "ex_memories = \<lparr>lm_node_id = 0, lm_total_nodes = 1, lm_cpus = [20], lm_gpus = [], lm_omps = [],
     lm_system_memory = \<lparr>mem_id = 0, mem_kind = SYSTEM_MEM, mem_capacity = 100\<rparr>, lm_zerocopy_memory = None,
     lm_frame_buffers = [], lm_socket_memories = [], lm_g2c_bandwidth = Map.empty\<rparr>"

definition ex_sorted :: mapping_data where
  "ex_sorted = \<lparr>md_futures = [(1, default_mapping (ex_future 1) ZCMEM False), (0, default_mapping (ex_future 0) SYSMEM False)],
     md_regions = [(False, 0, 10)], md_unbound = [], md_stores = [default_mapping ex_region SYSMEM False]\<rparr>"

lemma ex_task_mappings: "task_mappings id 2 LOC_PROC ex_client ex_task = Inr ex_sorted"
  by code_simp

theorem task_mappings_complete_witness:
  "\<exists>m \<in> set (md_stores ex_sorted @ md_unbound ex_sorted). \<exists>s' \<in> set (sm_stores m). ms_unique_id s' = Inr (False, 0, 10)"
proof -
  have i: "ms_unique_id ex_region = Inr (False, 0, 10)" by code_simp
  have "ex_region \<in> set (mt_inputs ex_task @ mt_outputs ex_task @ mt_reductions ex_task)" by (simp add: ex_task_def)
  from conjunct1 [OF task_mappings_complete [OF ex_task_mappings this]] show ?thesis unfolding i by (simp only: sum.case)
qed

text \<open>The order that debug builds ask of the mappings for futures is the order of the futures, but a mapping of the client
  comes before the defaults. A client that maps the store of the second future only makes the check fail.\<close>

lemma partial_future_mappings_abort:
  "rbind (task_mappings id 2 LOC_PROC ex_client ex_task) (map_future_backed_stores 2 ex_memories 20) = Inl CheckFailed"
  "\<exists>locations. rbind (task_mappings id 2 LOC_PROC [] ex_task) (map_future_backed_stores 2 ex_memories 20) = Inr locations"
proof -
  show "rbind (task_mappings id 2 LOC_PROC ex_client ex_task) (map_future_backed_stores 2 ex_memories 20) = Inl CheckFailed"
    by code_simp
  have "rbind (task_mappings id 2 LOC_PROC [] ex_task) (map_future_backed_stores 2 ex_memories 20) =
      Inr (replicate 2 (Some \<lparr>mem_id = 0, mem_kind = SYSTEM_MEM, mem_capacity = 100\<rparr>))"
    by code_simp
  then show "\<exists>locations. rbind (task_mappings id 2 LOC_PROC [] ex_task) (map_future_backed_stores 2 ex_memories 20) = Inr locations"
    by blast
qed

text \<open>Two mappings of the client for one unbound store pass with different policies.\<close>

definition ex_unbound :: mapper_store where
  "ex_unbound = MapperRegionStore 1 (PrimitiveType INT64) (-1)
     \<lparr>mr_requirement = Inr \<lparr>or_field_space = 0, or_fields = [10], or_dim = 1, or_projection = 0, or_color_space = 0\<rparr>, mr_dim = 1, mr_index = 0, mr_field = 10, mr_unbound = True\<rparr> True []"

lemma unbound_policies_unchecked:
  "\<exists>md m m'. task_mappings id 2 LOC_PROC [default_mapping ex_unbound SYSMEM False, default_mapping ex_unbound ZCMEM False]
       (ex_task\<lparr>mt_inputs := [], mt_outputs := [ex_unbound]\<rparr>) = Inr md \<and>
     md_unbound md = [m, m'] \<and> sm_policy m \<noteq> sm_policy m'"
proof -
  have "task_mappings id 2 LOC_PROC [default_mapping ex_unbound SYSMEM False, default_mapping ex_unbound ZCMEM False]
       (ex_task\<lparr>mt_inputs := [], mt_outputs := [ex_unbound]\<rparr>) =
     Inr \<lparr>md_futures = [], md_regions = [(True, 0, 10)],
       md_unbound = [default_mapping ex_unbound SYSMEM False, default_mapping ex_unbound ZCMEM False], md_stores = []\<rparr>"
    by code_simp
  then show ?thesis by (simp add: default_mapping_def default_policy_def)
qed

end
