(* ===== verification/InstanceManager.thy ===== *)
theory InstanceManager
  imports MapperPolicy
begin

text \<open>
  The cache of physical instances of a mapper: \<open>RegionGroup\<close>, \<open>InstanceSet\<close>, \<open>InstanceManager\<close>, \<open>ReductionInstanceSet\<close> and
  \<open>ReductionInstanceManager\<close> of mapping/detail/instance_manager, and the functions of mapping/detail/base_mapper that look
  up, create, record and drop instances.

  \<^item> Overlapping regions share one instance: a region group is a set of regions with a box that covers them. Groups are
    shared through pointers; a group is its number in the list of the groups created so far, and a set of regions is a
    list without repetitions. Unordered maps are association lists, walked in their order.
  \<^item> Legion's regions, instances and layouts are the arguments collected in \<open>inst_env\<close>: the tree, the domain and the
    rectangles of a region, the location, the tree and the size of an instance, and whether an instance has a layout.
  \<^item> A domain is the box of its bounds. Logging is left out, and the check that debug builds run around
    \<open>record_instance\<close> and \<open>erase\<close> is \<open>sanity_check\<close>.
\<close>

section \<open>State\<close>

record region_group =
  rg_regions :: "nat list"
  rg_box :: domain

record instance_spec =
  sp_instance :: nat
  sp_policy :: mapping_policy

record instance_set =
  is_instances :: "(nat \<times> instance_spec) list"
  is_pending :: "(nat \<times> u64) list"
  is_groups :: "(nat \<times> nat) list"

record field_mem_info =
  fmi_tree :: nat
  fmi_field :: u32
  fmi_memory :: nat

record instance_manager =
  im_heap :: "region_group list"
  im_sets :: "(field_mem_info \<times> instance_set) list"

record inst_env =
  ie_tree :: "nat \<Rightarrow> nat"
  ie_domain :: "nat \<Rightarrow> domain"
  ie_rects :: "nat \<Rightarrow> domain list"
  ie_location :: "nat \<Rightarrow> nat"
  ie_instance_tree :: "nat \<Rightarrow> nat"
  ie_size :: "nat \<Rightarrow> u64"
  ie_entails :: "nat \<Rightarrow> layout_constraints \<Rightarrow> bool"
  ie_max_dim :: nat

definition empty_set :: instance_set where
  "empty_set = \<lparr>is_instances = [], is_pending = [], is_groups = []\<rparr>"

section \<open>Boxes\<close>

text \<open>Legion's rectangles of one number of dimensions.\<close>

definition rect_intersection :: "domain \<Rightarrow> domain \<Rightarrow> domain" where
  "rect_intersection a b = \<lparr>dom_lo = map2 max (dom_lo a) (dom_lo b), dom_hi = map2 min (dom_hi a) (dom_hi b)\<rparr>"

definition rect_empty :: "domain \<Rightarrow> bool" where
  "rect_empty d \<longleftrightarrow> \<not> box_nonempty (dom_lo d) (dom_hi d)"

definition rect_union_bbox :: "domain \<Rightarrow> domain \<Rightarrow> domain" where
  "rect_union_bbox a b =
     (if rect_empty a then b else if rect_empty b then a
      else \<lparr>dom_lo = map2 min (dom_lo a) (dom_lo b), dom_hi = map2 max (dom_hi a) (dom_hi b)\<rparr>)"

definition bloat_too_big :: "u64 \<Rightarrow> u64 \<Rightarrow> u64 \<Rightarrow> u64 \<Rightarrow> bool" where
  "bloat_too_big union_volume my_volume group_volume intersect_volume \<longleftrightarrow>
     union_volume - (my_volume + group_volume - intersect_volume) > intersect_volume"

text \<open>The result is the box and its volume after the union, or \<open>None\<close>.\<close>

definition can_combine :: "domain \<Rightarrow> domain \<Rightarrow> u64 \<Rightarrow> (domain \<times> u64) option" where
  "can_combine new cur cur_volume =
     (let intersect = rect_intersection cur new
      in if rect_empty intersect then None
         else let bbox = rect_union_bbox cur new; union_volume = domain_volume bbox
              in if bloat_too_big union_volume cur_volume (domain_volume new) (domain_volume intersect) then None
                 else Some (bbox, union_volume))"

section \<open>Region groups\<close>

definition list_union :: "'a list \<Rightarrow> 'a list \<Rightarrow> 'a list" where
  "list_union xs ys = xs @ filter (\<lambda>y. y \<notin> set xs) ys"

fun combine_groups :: "region_group list \<Rightarrow> nat list \<Rightarrow> domain \<Rightarrow> u64 \<Rightarrow> domain \<times> nat list" where
  "combine_groups heap [] bbox vol = (bbox, [])"
| "combine_groups heap (g # gs) bbox vol =
     (case can_combine (rg_box (heap ! g)) bbox vol of
        None \<Rightarrow> combine_groups heap gs bbox vol
      | Some (bbox', vol') \<Rightarrow> (case combine_groups heap gs bbox' vol' of (b, cs) \<Rightarrow> (b, g # cs)))"

text \<open>The group and the heap, which grows when a group is made.\<close>

definition construct_overlapping_region_group ::
  "region_group list \<Rightarrow> nat \<Rightarrow> instance_set \<Rightarrow> region_group list \<times> nat" where
  "construct_overlapping_region_group heap grp S =
     (let cur = rg_box (heap ! grp);
          others = filter (\<lambda>g. g \<noteq> grp) (map fst (is_instances S) @ map fst (is_pending S))
      in case combine_groups heap others cur (domain_volume cur) of (bbox, to_combine) \<Rightarrow>
           if to_combine = [] then (heap, grp)
           else let regions = rg_regions (heap ! grp);
                    all_regions = fold (\<lambda>g acc. list_union acc (rg_regions (heap ! g))) to_combine regions
                in if length all_regions = length regions then (heap, grp)
                   else case find (\<lambda>g. length all_regions = length (rg_regions (heap ! g))) to_combine of
                          Some g \<Rightarrow> (heap, g)
                        | None \<Rightarrow> (heap @ [\<lparr>rg_regions = all_regions, rg_box = bbox\<rparr>], length heap))"

definition find_or_create_region_group ::
  "inst_env \<Rightarrow> region_group list \<Rightarrow> nat \<Rightarrow> domain \<Rightarrow> bool \<Rightarrow> instance_set \<Rightarrow> (region_group list \<times> nat) result" where
  "find_or_create_region_group E heap region box exact S =
     (let fresh = (heap @ [\<lparr>rg_regions = [region], rg_box = box\<rparr>], length heap);
          found = map_of (is_groups S) region
      in if exact
         then Inr (case found of Some g \<Rightarrow> if length (rg_regions (heap ! g)) = 1 then (heap, g) else fresh | None \<Rightarrow> fresh)
         else case (case found of Some g \<Rightarrow> (heap, g) | None \<Rightarrow> fresh) of (heap, grp) \<Rightarrow>
                rguard (1 \<le> get_dim box \<and> get_dim box \<le> ie_max_dim E) RuntimeError
                  (Inr (construct_overlapping_region_group heap grp S)))"

section \<open>Instance sets\<close>

text \<open>\<open>get_valid_instance\<close>: \<open>Inr None\<close> when the instance of the group does not satisfy the query.\<close>

definition get_valid_instance ::
  "inst_env \<Rightarrow> mapping_policy \<Rightarrow> layout_constraints \<Rightarrow> instance_set \<Rightarrow> nat \<Rightarrow> nat option result" where
  "get_valid_instance E policy layout S grp =
     (case map_of (is_instances S) grp of
        None \<Rightarrow> Inl CheckFailed
      | Some spec \<Rightarrow>
          Inr (if (po_exact (sp_policy spec) \<or> \<not> po_exact policy) \<and> ie_entails E (sp_instance spec) layout
               then Some (sp_instance spec) else None))"

definition covers :: "domain \<Rightarrow> domain list \<Rightarrow> bool" where
  "covers box rects \<longleftrightarrow> list_all (\<lambda>d. in_domain box (dom_lo d) \<and> in_domain box (dom_hi d)) rects"

fun find_covering ::
  "inst_env \<Rightarrow> region_group list \<Rightarrow> mapping_policy \<Rightarrow> layout_constraints \<Rightarrow> domain list \<Rightarrow> instance_set \<Rightarrow> nat list \<Rightarrow>
    nat option result" where
  "find_covering E heap policy layout rects S [] = Inr None"
| "find_covering E heap policy layout rects S (g # gs) =
     (if covers (rg_box (heap ! g)) rects
      then rbind (get_valid_instance E policy layout S g) (\<lambda>i.
        case i of Some inst \<Rightarrow> Inr (Some inst) | None \<Rightarrow> find_covering E heap policy layout rects S gs)
      else find_covering E heap policy layout rects S gs)"

definition set_find_instance ::
  "inst_env \<Rightarrow> region_group list \<Rightarrow> nat \<Rightarrow> mapping_policy \<Rightarrow> layout_constraints \<Rightarrow> instance_set \<Rightarrow> nat option result" where
  "set_find_instance E heap region policy layout S =
     rbind (case map_of (is_groups S) region of
              None \<Rightarrow> Inr None | Some g \<Rightarrow> get_valid_instance E policy layout S g) (\<lambda>i.
       case i of Some inst \<Rightarrow> Inr (Some inst)
       | None \<Rightarrow> if po_exact policy then Inr None
                 else find_covering E heap policy layout (ie_rects E region) S (map snd (is_groups S)))"

text \<open>\<open>find\<close> has to succeed: the iterator is used without a check.\<close>

definition remove_pending :: "nat \<Rightarrow> instance_set \<Rightarrow> instance_set result" where
  "remove_pending grp S =
     (case map_of (is_pending S) grp of
        None \<Rightarrow> Inl OutOfBounds
      | Some n \<Rightarrow> Inr (S\<lparr>is_pending := (if n - 1 = 0 then AList.delete grp (is_pending S)
                                          else AList.update grp (n - 1) (is_pending S))\<rparr>))"

definition record_pending :: "nat \<Rightarrow> instance_set \<Rightarrow> instance_set" where
  "record_pending grp S =
     S\<lparr>is_pending := AList.update grp ((case map_of (is_pending S) grp of None \<Rightarrow> 0 | Some n \<Rightarrow> n) + 1) (is_pending S)\<rparr>"

text \<open>The groups that a region is taken from are collected as a set.\<close>

definition redirect_region :: "nat \<Rightarrow> nat \<Rightarrow> (nat \<times> nat) list \<times> nat list \<Rightarrow> (nat \<times> nat) list \<times> nat list" where
  "redirect_region grp rgn acc =
     (case acc of (groups, removed) \<Rightarrow>
        case map_of groups rgn of
          None \<Rightarrow> (AList.update rgn grp groups, removed)
        | Some old \<Rightarrow> if old = grp then acc else (AList.update rgn grp groups, List.insert old removed))"

definition still_used :: "region_group list \<Rightarrow> (nat \<times> nat) list \<Rightarrow> nat \<Rightarrow> bool result" where
  "still_used heap groups g =
     rany (\<lambda>rg. case map_of groups rg of None \<Rightarrow> Inl OutOfRange | Some h \<Rightarrow> Inr (h = g)) (rg_regions (heap ! g))"

definition prune_group :: "region_group list \<Rightarrow> (nat \<times> nat) list \<Rightarrow> nat \<Rightarrow> (nat \<times> instance_spec) list \<Rightarrow>
    (nat \<times> instance_spec) list result" where
  "prune_group heap groups g instances =
     rbind (still_used heap groups g) (\<lambda>used. Inr (if used then instances else AList.delete g instances))"

definition set_record_instance ::
  "region_group list \<Rightarrow> nat \<Rightarrow> nat \<Rightarrow> mapping_policy \<Rightarrow> instance_set \<Rightarrow> instance_set result" where
  "set_record_instance heap grp inst policy S =
     rbind (remove_pending grp S) (\<lambda>S.
       let instances = AList.update grp \<lparr>sp_instance = inst, sp_policy = policy\<rparr> (is_instances S)
       in case fold (redirect_region grp) (rg_regions (heap ! grp)) (is_groups S, []) of (groups, removed) \<Rightarrow>
            rbind (rfoldM (prune_group heap groups) removed instances) (\<lambda>instances.
              Inr (S\<lparr>is_instances := instances, is_groups := groups\<rparr>)))"

definition set_erase :: "region_group list \<Rightarrow> nat \<Rightarrow> instance_set \<Rightarrow> instance_set \<times> bool" where
  "set_erase heap inst S =
     (let gone = map fst (filter (\<lambda>(g, spec). sp_instance spec = inst) (is_instances S));
          regions = concat (map (\<lambda>g. filter (\<lambda>r. map_of (is_groups S) r = Some g) (rg_regions (heap ! g))) gone)
      in (S\<lparr>is_instances := filter (\<lambda>(g, spec). sp_instance spec \<noteq> inst) (is_instances S),
            is_groups := filter (\<lambda>(r, g). r \<notin> set regions) (is_groups S)\<rparr>, gone \<noteq> []))"

definition set_is_empty :: "instance_set \<Rightarrow> bool" where
  "set_is_empty S \<longleftrightarrow> is_instances S = [] \<and> is_pending S = []"

definition set_instance_size :: "inst_env \<Rightarrow> instance_set \<Rightarrow> u64" where
  "set_instance_size E S = sum_list (map (\<lambda>(g, spec). ie_size E (sp_instance spec)) (is_instances S))"

definition sanity_check :: "region_group list \<Rightarrow> instance_set \<Rightarrow> bool" where
  "sanity_check heap S \<longleftrightarrow>
     list_all (\<lambda>(r, g). r \<in> set (rg_regions (heap ! g)) \<and> g \<in> set (map fst (is_instances S))) (is_groups S) \<and>
     list_all (\<lambda>(g, spec). g \<in> set (map snd (is_groups S))) (is_instances S)"

section \<open>The manager\<close>

definition set_at :: "field_mem_info \<Rightarrow> instance_manager \<Rightarrow> instance_set" where
  "set_at key M = (case map_of (im_sets M) key of None \<Rightarrow> empty_set | Some S \<Rightarrow> S)"

definition put_set :: "field_mem_info \<Rightarrow> instance_set \<Rightarrow> instance_manager \<Rightarrow> instance_manager" where
  "put_set key S M = M\<lparr>im_sets := AList.update key S (im_sets M)\<rparr>"

definition region_key :: "inst_env \<Rightarrow> nat \<Rightarrow> u32 \<Rightarrow> nat \<Rightarrow> field_mem_info" where
  "region_key E region field mem = \<lparr>fmi_tree = ie_tree E region, fmi_field = field, fmi_memory = mem\<rparr>"

definition instance_key :: "inst_env \<Rightarrow> nat \<Rightarrow> u32 \<Rightarrow> field_mem_info" where
  "instance_key E inst field = \<lparr>fmi_tree = ie_instance_tree E inst, fmi_field = field, fmi_memory = ie_location E inst\<rparr>"

definition im_find_instance ::
  "inst_env \<Rightarrow> nat \<Rightarrow> u32 \<Rightarrow> nat \<Rightarrow> mapping_policy \<Rightarrow> layout_constraints \<Rightarrow> instance_manager \<Rightarrow> nat option result" where
  "im_find_instance E region field mem policy layout M =
     rguard (po_allocation policy \<noteq> MUST_ALLOC) CheckFailed
       (case map_of (im_sets M) (region_key E region field mem) of
          None \<Rightarrow> Inr None
        | Some S \<Rightarrow> set_find_instance E (im_heap M) region policy layout S)"

definition find_region_group ::
  "inst_env \<Rightarrow> nat \<Rightarrow> domain \<Rightarrow> u32 \<Rightarrow> nat \<Rightarrow> bool \<Rightarrow> instance_manager \<Rightarrow> (instance_manager \<times> nat) result" where
  "find_region_group E region box field mem exact M =
     (let key = region_key E region field mem; S = set_at key M
      in rbind (find_or_create_region_group E (im_heap M) region box exact S) (\<lambda>(heap, grp).
           Inr (put_set key (record_pending grp S) (M\<lparr>im_heap := heap\<rparr>), grp)))"

definition im_record_instance ::
  "inst_env \<Rightarrow> nat \<Rightarrow> u32 \<Rightarrow> nat \<Rightarrow> mapping_policy \<Rightarrow> instance_manager \<Rightarrow> instance_manager result" where
  "im_record_instance E grp field inst policy M =
     (let key = instance_key E inst field
      in rbind (set_record_instance (im_heap M) grp inst policy (set_at key M)) (\<lambda>S. Inr (put_set key S M)))"

definition im_remove_pending ::
  "inst_env \<Rightarrow> nat \<Rightarrow> nat \<Rightarrow> u32 \<Rightarrow> nat \<Rightarrow> instance_manager \<Rightarrow> instance_manager result" where
  "im_remove_pending E region grp field mem M =
     (let key = region_key E region field mem
      in case map_of (im_sets M) key of
           None \<Rightarrow> Inl CheckFailed
         | Some S \<Rightarrow> rbind (remove_pending grp S) (\<lambda>S.
             Inr (if set_is_empty S then M\<lparr>im_sets := AList.delete key (im_sets M)\<rparr> else put_set key S M)))"

definition key_in_scope :: "inst_env \<Rightarrow> nat \<Rightarrow> field_mem_info \<Rightarrow> bool" where
  "key_in_scope E inst key \<longleftrightarrow> fmi_memory key = ie_location E inst \<and> fmi_tree key = ie_instance_tree E inst"

definition im_erase :: "inst_env \<Rightarrow> nat \<Rightarrow> instance_manager \<Rightarrow> instance_manager \<times> bool" where
  "im_erase E inst M =
     (let hit = filter (\<lambda>(key, S). key_in_scope E inst key) (im_sets M)
      in (M\<lparr>im_sets := concat (map (\<lambda>(key, S).
             if key_in_scope E inst key
             then let S' = fst (set_erase (im_heap M) inst S) in if set_is_empty S' then [] else [(key, S')]
             else [(key, S)]) (im_sets M))\<rparr>,
          list_ex (\<lambda>(key, S). snd (set_erase (im_heap M) inst S)) hit))"

definition aggregate_instance_sizes :: "inst_env \<Rightarrow> instance_manager \<Rightarrow> (nat \<times> u64) list" where
  "aggregate_instance_sizes E M =
     fold (\<lambda>(key, S) result.
       AList.update (fmi_memory key)
         ((case map_of result (fmi_memory key) of None \<Rightarrow> 0 | Some n \<Rightarrow> n) + set_instance_size E S) result)
       (im_sets M) []"

section \<open>Instances of reductions\<close>

record reduction_spec =
  rs_redop :: int
  rs_instance :: nat
  rs_policy :: mapping_policy

type_synonym reduction_set = "(nat \<times> reduction_spec) list"
type_synonym reduction_manager = "(field_mem_info \<times> reduction_set) list"

definition reduction_find_instance :: "inst_env \<Rightarrow> int \<Rightarrow> nat \<Rightarrow> layout_constraints \<Rightarrow> reduction_set \<Rightarrow> nat option" where
  "reduction_find_instance E redop region layout S =
     (case map_of S region of
        None \<Rightarrow> None
      | Some spec \<Rightarrow> if rs_redop spec = redop \<and> ie_entails E (rs_instance spec) layout then Some (rs_instance spec) else None)"

definition reduction_record_instance :: "int \<Rightarrow> nat \<Rightarrow> nat \<Rightarrow> mapping_policy \<Rightarrow> reduction_set \<Rightarrow> reduction_set" where
  "reduction_record_instance redop region inst policy S =
     (let new = \<lparr>rs_redop = redop, rs_instance = inst, rs_policy = policy\<rparr>
      in case map_of S region of
           None \<Rightarrow> AList.update region new S
         | Some spec \<Rightarrow> if rs_policy spec \<noteq> policy \<or> rs_redop spec \<noteq> redop then AList.update region new S else S)"

definition reduction_set_erase :: "nat \<Rightarrow> reduction_set \<Rightarrow> reduction_set \<times> bool" where
  "reduction_set_erase inst S =
     (filter (\<lambda>(r, spec). rs_instance spec \<noteq> inst) S, list_ex (\<lambda>(r, spec). rs_instance spec = inst) S)"

definition rim_find_instance ::
  "inst_env \<Rightarrow> int \<Rightarrow> nat \<Rightarrow> u32 \<Rightarrow> nat \<Rightarrow> mapping_policy \<Rightarrow> layout_constraints \<Rightarrow> reduction_manager \<Rightarrow> nat option result" where
  "rim_find_instance E redop region field mem policy layout R =
     rguard (po_allocation policy \<noteq> MUST_ALLOC) CheckFailed
       (Inr (case map_of R (region_key E region field mem) of
               None \<Rightarrow> None | Some S \<Rightarrow> reduction_find_instance E redop region layout S))"

definition rim_record_instance ::
  "inst_env \<Rightarrow> int \<Rightarrow> nat \<Rightarrow> u32 \<Rightarrow> nat \<Rightarrow> mapping_policy \<Rightarrow> reduction_manager \<Rightarrow> reduction_manager" where
  "rim_record_instance E redop region field inst policy R =
     (let key = instance_key E inst field
      in AList.update key (reduction_record_instance redop region inst policy
           (case map_of R key of None \<Rightarrow> [] | Some S \<Rightarrow> S)) R)"

definition rim_erase :: "inst_env \<Rightarrow> nat \<Rightarrow> reduction_manager \<Rightarrow> reduction_manager \<times> bool" where
  "rim_erase E inst R =
     (let hit = filter (\<lambda>(key, S). key_in_scope E inst key) R
      in (concat (map (\<lambda>(key, S).
            if key_in_scope E inst key
            then let S' = fst (reduction_set_erase inst S) in if S' = [] then [] else [(key, S')]
            else [(key, S)]) R),
          list_ex (\<lambda>(key, S). snd (reduction_set_erase inst S)) hit))"

section \<open>Mapping a store to an instance\<close>

text \<open>
  \<open>map_regular_instance_\<close> calls into Legion for the domain of the region and for the instance, and Legion may run another
  callback of the mapper meanwhile. Its three pieces between these calls are \<open>regular_lookup\<close>, \<open>regular_start\<close> and
  \<open>regular_finish\<close> (\<open>regular_fail\<close> when no instance could be made). \<open>map_regular_instance\<close> is the whole function without
  interruption, with Legion's \<open>create_physical_instance\<close> (\<open>True\<close>) or \<open>find_or_create_physical_instance\<close> (\<open>False\<close>) as
  the argument \<open>create\<close>, which gives the instance and whether it was created.
\<close>

record region_access =
  ac_writes :: bool
  ac_collective :: bool

definition alloc_policy_of :: "bool \<Rightarrow> region_access list \<Rightarrow> mapping_policy \<Rightarrow> alloc_policy" where
  "alloc_policy_of must_alloc reqs policy =
     (if must_alloc \<and> list_ex (\<lambda>a. ac_writes a \<and> ac_collective a) reqs then MUST_ALLOC else po_allocation policy)"

definition can_cache_regular :: "nat list \<Rightarrow> alloc_policy \<Rightarrow> mapping_policy \<Rightarrow> bool" where
  "can_cache_regular regions alloc policy \<longleftrightarrow> length regions = 1 \<and> alloc \<noteq> MUST_ALLOC \<and> \<not> po_redundant policy"

datatype started = Cached nat | Creating "nat option" "nat list"

definition regular_lookup ::
  "inst_env \<Rightarrow> nat list \<Rightarrow> u32 \<Rightarrow> nat \<Rightarrow> alloc_policy \<Rightarrow> mapping_policy \<Rightarrow> layout_constraints \<Rightarrow> instance_manager \<Rightarrow>
    nat option result" where
  "regular_lookup E regions field mem alloc policy layout M =
     (if can_cache_regular regions alloc policy then im_find_instance E (hd regions) field mem policy layout M else Inr None)"

definition regular_start ::
  "inst_env \<Rightarrow> nat list \<Rightarrow> u32 \<Rightarrow> nat \<Rightarrow> alloc_policy \<Rightarrow> mapping_policy \<Rightarrow> layout_constraints \<Rightarrow> instance_manager \<Rightarrow>
    (instance_manager \<times> started) result" where
  "regular_start E regions field mem alloc policy layout M =
     (if length regions \<noteq> 1 then Inr (M, Creating None regions)
      else rbind (regular_lookup E regions field mem alloc policy layout M) (\<lambda>i.
        case i of
          Some inst \<Rightarrow> Inr (M, Cached inst)
        | None \<Rightarrow> rbind (find_region_group E (hd regions) (ie_domain E (hd regions)) field mem (po_exact policy) M) (\<lambda>(M, g).
            Inr (M, Creating (Some g) (rg_regions (im_heap M ! g))))))"

definition regular_fail ::
  "inst_env \<Rightarrow> nat list \<Rightarrow> nat option \<Rightarrow> u32 \<Rightarrow> nat \<Rightarrow> instance_manager \<Rightarrow> instance_manager result" where
  "regular_fail E regions grp field mem M =
     (case grp of None \<Rightarrow> Inr M | Some g \<Rightarrow> im_remove_pending E (hd regions) g field mem M)"

definition regular_finish ::
  "inst_env \<Rightarrow> nat option \<Rightarrow> u32 \<Rightarrow> nat \<Rightarrow> mapping_policy \<Rightarrow> instance_manager \<Rightarrow> instance_manager result" where
  "regular_finish E grp field inst policy M =
     (case grp of None \<Rightarrow> Inr M | Some g \<Rightarrow> im_record_instance E g field inst policy M)"

definition set_default_order :: "mapping_policy \<Rightarrow> nat \<Rightarrow> layout_constraints \<Rightarrow> layout_constraints result" where
  "set_default_order policy ndim layout =
     (if po_ordering policy = None
      then rbind (generate_dims c_order (max 1 ndim)) (\<lambda>ordering. Inr (layout\<lparr>lc_ordering := ordering, lc_contiguous := False\<rparr>))
      else Inr layout)"

definition map_regular_instance ::
  "inst_env \<Rightarrow> (bool \<Rightarrow> layout_constraints \<Rightarrow> nat list \<Rightarrow> (nat \<times> bool) option) \<Rightarrow> region_access list \<Rightarrow> mapping_policy \<Rightarrow> u32 \<Rightarrow>
    nat \<Rightarrow> bool \<Rightarrow> nat list \<Rightarrow> layout_constraints \<Rightarrow> instance_manager \<Rightarrow> (instance_manager \<times> (nat \<times> bool) option) result" where
  "map_regular_instance E create reqs policy field mem must_alloc regions layout M =
     (let alloc = alloc_policy_of must_alloc reqs policy
      in rbind (regular_lookup E regions field mem alloc policy layout M) (\<lambda>i.
        case i of
          Some inst \<Rightarrow> Inr (M, Some (inst, True))
        | None \<Rightarrow> rbind (regular_start E regions field mem alloc policy layout M) (\<lambda>(M, st).
            case st of
              Cached inst \<Rightarrow> Inr (M, Some (inst, True))
            | Creating grp regions \<Rightarrow>
                rbind (set_default_order policy (get_dim (ie_domain E (hd regions))) layout) (\<lambda>layout.
                  case create (alloc = MUST_ALLOC) layout regions of
                    None \<Rightarrow> rbind (regular_fail E regions grp field mem M) (\<lambda>M. Inr (M, None))
                  | Some (inst, created) \<Rightarrow> rbind (regular_finish E grp field inst policy M) (\<lambda>M.
                      Inr (M, Some (inst, alloc \<noteq> MUST_ALLOC \<and> \<not> created)))))))"

definition map_reduction_instance ::
  "inst_env \<Rightarrow> (bool \<Rightarrow> layout_constraints \<Rightarrow> nat list \<Rightarrow> (nat \<times> bool) option) \<Rightarrow> processor_kind \<Rightarrow> u32 \<Rightarrow> nat list \<Rightarrow>
    mapping_policy \<Rightarrow> nat \<Rightarrow> int \<Rightarrow> layout_constraints \<Rightarrow> reduction_manager \<Rightarrow>
    (reduction_manager \<times> (nat \<times> bool) option) result" where
  "map_reduction_instance E create kind field regions policy mem redop layout R =
     (let layout = layout\<lparr>lc_special := Some (AFFINE_REDUCTION redop)\<rparr>;
          can_cache = (kind = TOC_PROC \<and> length regions = 1 \<and> po_allocation policy \<noteq> MUST_ALLOC)
      in rbind (if can_cache then rim_find_instance E redop (hd regions) field mem policy layout R else Inr None) (\<lambda>i.
        case i of
          Some inst \<Rightarrow> Inr (R, Some (inst, True))
        | None \<Rightarrow>
            rbind (set_default_order policy (get_dim (ie_domain E (hd regions))) layout) (\<lambda>layout.
              case create (\<not> can_cache) layout regions of
                None \<Rightarrow> Inr (R, None)
              | Some (inst, created) \<Rightarrow>
                  if can_cache \<and> \<not> created then Inr (R, Some (inst, True))
                  else Inr (if can_cache then rim_record_instance E redop (hd regions) field inst policy R else R,
                            Some (inst, False)))))"

definition tighten_write_policies :: "(store_mapping \<Rightarrow> region_access list) \<Rightarrow> store_mapping list \<Rightarrow> store_mapping list" where
  "tighten_write_policies reqs =
     map (\<lambda>m. if po_exact (sm_policy m) \<or> \<not> list_ex ac_writes (reqs m) then m
              else m\<lparr>sm_policy := (sm_policy m)\<lparr>po_exact := True\<rparr>\<rparr>)"

definition handle_instance_collection ::
  "inst_env \<Rightarrow> nat \<Rightarrow> instance_manager \<times> reduction_manager \<Rightarrow> instance_manager \<times> reduction_manager" where
  "handle_instance_collection E inst mr =
     (case im_erase E inst (fst mr) of (M, erased) \<Rightarrow>
        if erased then (M, snd mr) else (M, fst (rim_erase E inst (snd mr))))"

end
