(* ===== verification/InstanceManagerCorrect.thy ===== *)
theory InstanceManagerCorrect
  imports InstanceManager
begin

text \<open>
  What the cache of instances promises while mappings interleave: an instance that a query gets covers the region, has
  the layout and is exact where asked, an instance that Legion collected is never returned again, and a mapping in
  flight always finds its pending entry.
\<close>

text \<open>The tables are maps: their entries are reached through \<open>map_of\<close> only.\<close>

declare map_of_eq_Some_iff [simp del]

section \<open>Boxes\<close>

definition box_le :: "domain \<Rightarrow> domain \<Rightarrow> bool" where
  "box_le a b \<longleftrightarrow> (\<forall>p. in_domain a p \<longrightarrow> in_domain b p)"

lemma box_le_refl [simp]: "box_le a a"
  by (simp add: box_le_def)

lemma box_le_trans: "box_le a b \<Longrightarrow> box_le b c \<Longrightarrow> box_le a c"
  by (simp add: box_le_def)

definition box_shape :: "nat \<Rightarrow> domain \<Rightarrow> bool" where
  "box_shape n d \<longleftrightarrow> domain_wf d \<and> get_dim d = n"

lemma box_shape_lengths: "box_shape n d \<Longrightarrow> length (dom_lo d) = n \<and> length (dom_hi d) = n"
  by (auto simp: box_shape_def domain_wf_def get_dim_def)

lemma union_bbox_covers:
  assumes "box_shape n a" "box_shape n b"
  shows "box_shape n (rect_union_bbox a b)" "box_le a (rect_union_bbox a b)" "box_le b (rect_union_bbox a b)"
proof -
  note l = box_shape_lengths [OF assms(1)] box_shape_lengths [OF assms(2)]
  have e: "rect_empty d \<Longrightarrow> \<not> in_domain d p" for d p
    by (auto simp: rect_empty_def in_domain_def dest: in_box_nonempty)
  show "box_shape n (rect_union_bbox a b)"
    using assms l by (auto simp: rect_union_bbox_def box_shape_def domain_wf_def get_dim_def)
  have u: "in_domain (rect_union_bbox a b) p" if "in_domain a p \<or> in_domain b p" for p
  proof (cases "rect_empty a \<or> rect_empty b")
    case True
    then show ?thesis using that e by (auto simp: rect_union_bbox_def)
  next
    case False
    then show ?thesis using that l
      by (auto simp: rect_union_bbox_def in_domain_def in_box_iff min_le_iff_disj le_max_iff_disj)
  qed
  show "box_le a (rect_union_bbox a b)" "box_le b (rect_union_bbox a b)"
    using u by (simp_all add: box_le_def)
qed

lemma can_combine_covers:
  assumes "can_combine new cur vol = Some (bbox, vol')" "box_shape n cur" "box_shape n new"
  shows "box_shape n bbox \<and> box_le cur bbox \<and> box_le new bbox"
  using assms union_bbox_covers [of n cur new] by (auto simp: can_combine_def Let_def split: if_splits)

lemma combine_groups_covers:
  assumes "combine_groups heap gs bbox vol = (bbox', cs)" "box_shape n bbox" "\<forall>g \<in> set gs. box_shape n (rg_box (heap ! g))"
  shows "box_shape n bbox' \<and> box_le bbox bbox' \<and> (\<forall>g \<in> set cs. box_le (rg_box (heap ! g)) bbox') \<and> set cs \<subseteq> set gs"
  using assms
proof (induction gs arbitrary: bbox vol bbox' cs)
  case (Cons g gs)
  show ?case
  proof (cases "can_combine (rg_box (heap ! g)) bbox vol")
    case None
    then show ?thesis using Cons.IH [of bbox vol bbox' cs] Cons.prems by auto
  next
    case (Some bv)
    obtain b1 v1 where bv: "bv = (b1, v1)" by (cases bv)
    obtain b2 ds where ds: "combine_groups heap gs b1 v1 = (b2, ds)" by (cases "combine_groups heap gs b1 v1")
    have eq: "bbox' = b2" "cs = g # ds" using Cons.prems(1) Some bv ds by simp_all
    have c: "box_shape n b1" "box_le bbox b1" "box_le (rg_box (heap ! g)) b1"
      using can_combine_covers [OF Some [unfolded bv], of n] Cons.prems by auto
    have "box_shape n b2 \<and> box_le b1 b2 \<and> (\<forall>g \<in> set ds. box_le (rg_box (heap ! g)) b2) \<and> set ds \<subseteq> set gs"
      using Cons.IH [OF ds c(1)] Cons.prems by simp
    then show ?thesis using c eq by (auto intro: box_le_trans)
  qed
qed simp

section \<open>Groups\<close>

definition env_ok :: "inst_env \<Rightarrow> bool" where
  "env_ok E \<longleftrightarrow>
     (\<exists>dims. \<forall>r. box_shape (dims (ie_tree E r)) (ie_domain E r)) \<and>
     (\<forall>r d. d \<in> set (ie_rects E r) \<longrightarrow> box_le d (ie_domain E r)) \<and>
     (\<forall>r p. in_domain (ie_domain E r) p \<longrightarrow> (\<exists>d \<in> set (ie_rects E r). in_domain d p))"

definition group_ok :: "inst_env \<Rightarrow> nat \<Rightarrow> region_group \<Rightarrow> bool" where
  "group_ok E tree G \<longleftrightarrow>
     rg_regions G \<noteq> [] \<and> distinct (rg_regions G) \<and>
     (\<forall>r \<in> set (rg_regions G). ie_tree E r = tree \<and> box_le (ie_domain E r) (rg_box G)) \<and>
     box_shape (get_dim (ie_domain E (hd (rg_regions G)))) (rg_box G) \<and>
     (length (rg_regions G) = 1 \<longrightarrow> rg_box G = ie_domain E (hd (rg_regions G)))"

definition heap_group :: "inst_env \<Rightarrow> nat \<Rightarrow> region_group list \<Rightarrow> nat \<Rightarrow> bool" where
  "heap_group E tree heap g \<longleftrightarrow> g < length heap \<and> group_ok E tree (heap ! g)"

lemma heap_group_append [simp]: "heap_group E tree heap g \<Longrightarrow> heap_group E tree (heap @ gs) g"
  by (auto simp: heap_group_def nth_append)

lemma env_shape:
  assumes "env_ok E" "group_ok E tree G" "ie_tree E r = tree"
  shows "box_shape (get_dim (ie_domain E r)) (rg_box G)"
proof -
  obtain dims where d: "\<And>r. box_shape (dims (ie_tree E r)) (ie_domain E r)" using assms(1) by (auto simp: env_ok_def)
  have "hd (rg_regions G) \<in> set (rg_regions G)" using assms(2) by (simp add: group_ok_def)
  then have "ie_tree E (hd (rg_regions G)) = tree" using assms(2) by (auto simp: group_ok_def)
  then have "get_dim (ie_domain E (hd (rg_regions G))) = get_dim (ie_domain E r)"
    using d [of r] d [of "hd (rg_regions G)"] assms(3) by (simp add: box_shape_def)
  then show ?thesis using assms(2) by (simp add: group_ok_def)
qed

lemma list_union_set [simp]: "set (list_union xs ys) = set xs \<union> set ys"
  by (auto simp: list_union_def)

lemma list_union_distinct: "distinct xs \<Longrightarrow> distinct ys \<Longrightarrow> distinct (list_union xs ys)"
  by (auto simp: list_union_def)

lemma list_union_length: "length xs \<le> length (list_union xs ys)"
  by (simp add: list_union_def)

lemma unions:
  assumes "distinct xs" "\<forall>g \<in> set gs. distinct (f g)"
  shows "set (fold (\<lambda>g acc. list_union acc (f g)) gs xs) = set xs \<union> (\<Union>g \<in> set gs. set (f g))"
    "distinct (fold (\<lambda>g acc. list_union acc (f g)) gs xs)"
    "\<exists>ys. fold (\<lambda>g acc. list_union acc (f g)) gs xs = xs @ ys"
proof -
  show "set (fold (\<lambda>g acc. list_union acc (f g)) gs xs) = set xs \<union> (\<Union>g \<in> set gs. set (f g))"
    by (induction gs arbitrary: xs) auto
  show "distinct (fold (\<lambda>g acc. list_union acc (f g)) gs xs)"
    using assms by (induction gs arbitrary: xs) (auto intro: list_union_distinct)
  show "\<exists>ys. fold (\<lambda>g acc. list_union acc (f g)) gs xs = xs @ ys"
    by (induction gs arbitrary: xs) (auto, metis append_assoc list_union_def)
qed

text \<open>The sets of one key.\<close>

definition set_groups_ok :: "inst_env \<Rightarrow> nat \<Rightarrow> region_group list \<Rightarrow> instance_set \<Rightarrow> bool" where
  "set_groups_ok E tree heap S \<longleftrightarrow>
     (\<forall>g \<in> set (map fst (is_instances S)) \<union> set (map fst (is_pending S)) \<union> set (map snd (is_groups S)). heap_group E tree heap g) \<and>
     (\<forall>r g. map_of (is_groups S) r = Some g \<longrightarrow> r \<in> set (rg_regions (heap ! g)))"

lemma construct_group:
  assumes "construct_overlapping_region_group heap g S = (heap', g')" "env_ok E" "set_groups_ok E tree heap S"
    "heap_group E tree heap g" "r \<in> set (rg_regions (heap ! g))"
  shows "(heap' = heap \<or> (\<exists>G. heap' = heap @ [G])) \<and> heap_group E tree heap' g' \<and> r \<in> set (rg_regions (heap' ! g'))"
proof -
  let ?others = "filter (\<lambda>h. h \<noteq> g) (map fst (is_instances S) @ map fst (is_pending S))"
  let ?box = "rg_box (heap ! g)" and ?rs = "rg_regions (heap ! g)"
  obtain bbox cs where cs: "combine_groups heap ?others ?box (domain_volume ?box) = (bbox, cs)"
    by (cases "combine_groups heap ?others ?box (domain_volume ?box)")
  let ?all = "fold (\<lambda>g acc. list_union acc (rg_regions (heap ! g))) cs ?rs"
  have tree: "ie_tree E r = tree" using assms(4,5) by (auto simp: heap_group_def group_ok_def)
  let ?n = "get_dim (ie_domain E r)"
  have others: "heap_group E tree heap h" if "h \<in> set ?others" for h
    using assms(3) that by (auto simp: set_groups_ok_def)
  have c: "box_shape ?n bbox" "box_le ?box bbox" "\<forall>h \<in> set cs. box_le (rg_box (heap ! h)) bbox" "set cs \<subseteq> set ?others"
    using combine_groups_covers [OF cs, of ?n] env_shape [OF assms(2) _ tree] others assms(4)
    by (auto simp: heap_group_def)
  have ok: "group_ok E tree (heap ! h)" if "h \<in> set cs \<or> h = g" for h
    using that c(4) others assms(4) by (auto simp: heap_group_def)
  have u: "set ?all = set ?rs \<union> (\<Union>h \<in> set cs. set (rg_regions (heap ! h)))" "distinct ?all" "\<exists>ys. ?all = ?rs @ ys"
    using unions [of ?rs cs "\<lambda>h. rg_regions (heap ! h)"] ok by (auto simp: group_ok_def)
  have reg: "ie_tree E q = tree \<and> box_le (ie_domain E q) bbox" if "h \<in> set cs \<or> h = g" "q \<in> set (rg_regions (heap ! h))" for h q
  proof -
    have "box_le (ie_domain E q) (rg_box (heap ! h))" "ie_tree E q = tree"
      using ok [OF that(1)] that(2) by (auto simp: group_ok_def)
    moreover have "box_le (rg_box (heap ! h)) bbox" using that(1) c(2,3) by blast
    ultimately show ?thesis using box_le_trans by blast
  qed
  consider "heap' = heap \<and> g' = g"
    | h where "h \<in> set cs" "length ?all = length (rg_regions (heap ! h))" "heap' = heap" "g' = h"
    | "length ?all \<noteq> length ?rs" "heap' = heap @ [\<lparr>rg_regions = ?all, rg_box = bbox\<rparr>]" "g' = length heap"
  proof (cases "cs = [] \<or> length ?all = length ?rs")
    case True
    then have "heap' = heap \<and> g' = g"
      using assms(1) cs by (auto simp: construct_overlapping_region_group_def Let_def split: if_splits)
    then show ?thesis by (rule that(1))
  next
    case False
    show ?thesis
    proof (cases "find (\<lambda>h. length ?all = length (rg_regions (heap ! h))) cs")
      case None
      then show ?thesis
        using assms(1) cs False that(3) by (auto simp: construct_overlapping_region_group_def Let_def)
    next
      case (Some h)
      then have "heap' = heap" "g' = h"
        using assms(1) cs False by (auto simp: construct_overlapping_region_group_def Let_def)
      moreover have "h \<in> set cs" "length ?all = length (rg_regions (heap ! h))" using Some by (auto simp: find_Some_iff)
      ultimately show ?thesis using that(2) by blast
    qed
  qed
  then show ?thesis
  proof cases
    case 1
    then show ?thesis using assms(4,5) by simp
  next
    case 2
    have "set (rg_regions (heap ! h)) = set ?all"
    proof (rule card_subset_eq)
      show "set (rg_regions (heap ! h)) \<subseteq> set ?all" using u(1) 2(1) by auto
      show "card (set (rg_regions (heap ! h))) = card (set ?all)"
        using 2(2) u(2) ok [of h] 2(1) by (simp add: distinct_card group_ok_def)
    qed simp
    moreover have "heap_group E tree heap h" using 2(1) c(4) by (intro others) blast
    ultimately show ?thesis using 2(3,4) u(1) assms(5) by auto
  next
    case 3
    have hd: "hd ?all = hd ?rs" "?all \<noteq> []" using u(3) ok [of g] by (auto simp: group_ok_def)
    have "group_ok E tree \<lparr>rg_regions = ?all, rg_box = bbox\<rparr>"
      unfolding group_ok_def
    proof (intro conjI)
      show "\<forall>r \<in> set (rg_regions \<lparr>rg_regions = ?all, rg_box = bbox\<rparr>).
          ie_tree E r = tree \<and> box_le (ie_domain E r) (rg_box \<lparr>rg_regions = ?all, rg_box = bbox\<rparr>)"
        using u(1) reg by auto
      have "get_dim (ie_domain E (hd ?rs)) = ?n"
        using ok [of g] env_shape [OF assms(2) _ tree, of "heap ! g"] by (auto simp: group_ok_def box_shape_def)
      then show "box_shape (get_dim (ie_domain E (hd (rg_regions \<lparr>rg_regions = ?all, rg_box = bbox\<rparr>))))
          (rg_box \<lparr>rg_regions = ?all, rg_box = bbox\<rparr>)"
        using c(1) hd by simp
      have "length ?rs < length ?all" using 3(1) u(3) by auto
      then have "length ?all \<noteq> 1" using ok [of g] by (cases ?rs) (auto simp: group_ok_def)
      then show "length (rg_regions \<lparr>rg_regions = ?all, rg_box = bbox\<rparr>) = 1 \<longrightarrow>
          rg_box \<lparr>rg_regions = ?all, rg_box = bbox\<rparr> = ie_domain E (hd (rg_regions \<lparr>rg_regions = ?all, rg_box = bbox\<rparr>))"
        by simp
    qed (use u(2) hd in simp_all)
    then show ?thesis using 3 u(1) assms(5) by (simp add: heap_group_def)
  qed
qed

section \<open>Recording an instance\<close>

lemma map_of_update [simp]: "map_of (AList.update k v xs) = (map_of xs)(k \<mapsto> v)"
  by (simp add: update_conv')

lemma map_of_delete [simp]: "map_of (AList.delete k xs) = (map_of xs)(k := None)"
  by (simp add: delete_conv')

lemma redirect_fold:
  assumes "fold (redirect_region g) rs (groups, removed) = (groups', removed')"
  shows "map_of groups' r = (if r \<in> set rs then Some g else map_of groups r)"
    "set removed' = set removed \<union> {h. h \<noteq> g \<and> (\<exists>r \<in> set rs. map_of groups r = Some h)}"
    "distinct (map fst groups) \<Longrightarrow> distinct (map fst groups')"
proof -
  have "(\<forall>r. map_of groups' r = (if r \<in> set rs then Some g else map_of groups r)) \<and>
    set removed' = set removed \<union> {h. h \<noteq> g \<and> (\<exists>r \<in> set rs. map_of groups r = Some h)} \<and>
    (distinct (map fst groups) \<longrightarrow> distinct (map fst groups'))"
    using assms
  proof (induction rs arbitrary: groups removed)
    case (Cons r rs)
    obtain g1 r1 where s: "redirect_region g r (groups, removed) = (g1, r1)" by (cases "redirect_region g r (groups, removed)")
    have f: "map_of g1 = (map_of groups)(r \<mapsto> g)" "set r1 = set removed \<union> {h. h \<noteq> g \<and> map_of groups r = Some h}"
      "distinct (map fst groups) \<longrightarrow> distinct (map fst g1)"
      using s by (auto simp: redirect_region_def distinct_update split: option.splits if_splits)
    have "fold (redirect_region g) rs (g1, r1) = (groups', removed')" using Cons.prems s by simp
    note ih = Cons.IH [OF this]
    show ?case using ih f by (auto split: if_splits)
  qed auto
  then show "map_of groups' r = (if r \<in> set rs then Some g else map_of groups r)"
    "set removed' = set removed \<union> {h. h \<noteq> g \<and> (\<exists>r \<in> set rs. map_of groups r = Some h)}"
    "distinct (map fst groups) \<Longrightarrow> distinct (map fst groups')" by auto
qed

lemma still_used_iff:
  assumes "still_used heap groups g = Inr b"
  shows "b \<longleftrightarrow> (\<exists>r \<in> set (rg_regions (heap ! g)). map_of groups r = Some g)"
proof -
  have "rany (\<lambda>rg. case map_of groups rg of None \<Rightarrow> Inl OutOfRange | Some h \<Rightarrow> Inr (h = g)) rs = Inr b \<Longrightarrow>
      b \<longleftrightarrow> (\<exists>r \<in> set rs. map_of groups r = Some g)" for rs
    by (induction rs) (auto simp: rbind_eq_Inr split: option.splits if_splits)
  then show ?thesis using assms by (simp add: still_used_def)
qed

lemma prune_groups:
  assumes "rfoldM (prune_group heap groups) removed instances = Inr instances'"
  shows "map_of instances' h =
    (if h \<in> set removed \<and> \<not> (\<exists>r \<in> set (rg_regions (heap ! h)). map_of groups r = Some h) then None else map_of instances h)"
    "distinct (map fst instances) \<Longrightarrow> distinct (map fst instances')"
proof -
  have "map_of instances' h =
      (if h \<in> set removed \<and> \<not> (\<exists>r \<in> set (rg_regions (heap ! h)). map_of groups r = Some h) then None else map_of instances h) \<and>
    (distinct (map fst instances) \<longrightarrow> distinct (map fst instances'))"
    using assms
  proof (induction removed arbitrary: instances)
    case (Cons g gs)
    obtain i1 where i1: "prune_group heap groups g instances = Inr i1" "rfoldM (prune_group heap groups) gs i1 = Inr instances'"
      using Cons.prems by (auto simp: rbind_eq_Inr)
    obtain b where "still_used heap groups g = Inr b" "i1 = (if b then instances else AList.delete g instances)"
      using i1(1) by (auto simp: prune_group_def rbind_eq_Inr)
    then have b: "still_used heap groups g = Inr b"
      "rfoldM (prune_group heap groups) gs (if b then instances else AList.delete g instances) = Inr instances'"
      using i1(2) by simp_all
    note u = still_used_iff [OF b(1)]
    have d: "distinct (map fst instances) \<longrightarrow> distinct (map fst (if b then instances else AList.delete g instances))"
      by (simp add: distinct_delete)
    show ?case using Cons.IH [OF b(2)] u d by (auto split: if_splits)
  qed simp
  then show "map_of instances' h =
    (if h \<in> set removed \<and> \<not> (\<exists>r \<in> set (rg_regions (heap ! h)). map_of groups r = Some h) then None else map_of instances h)"
    "distinct (map fst instances) \<Longrightarrow> distinct (map fst instances')" by auto
qed

definition pending_count :: "nat \<Rightarrow> instance_set \<Rightarrow> nat" where
  "pending_count g S = (case map_of (is_pending S) g of None \<Rightarrow> 0 | Some n \<Rightarrow> unat n)"

text \<open>The tables of one set: every region leads to a group with an instance, and no instance is of a group that no region
  leads to. The instances are those of the key, and an exact one is of a single region.\<close>

definition set_inv :: "inst_env \<Rightarrow> region_group list \<Rightarrow> field_mem_info \<Rightarrow> instance_set \<Rightarrow> bool" where
  "set_inv E heap key S \<longleftrightarrow>
     set_groups_ok E (fmi_tree key) heap S \<and>
     distinct (map fst (is_instances S)) \<and> distinct (map fst (is_pending S)) \<and> distinct (map fst (is_groups S)) \<and>
     (\<forall>r g. map_of (is_groups S) r = Some g \<longrightarrow> map_of (is_instances S) g \<noteq> None) \<and>
     (\<forall>g spec. map_of (is_instances S) g = Some spec \<longrightarrow>
        (\<exists>r. map_of (is_groups S) r = Some g) \<and> key_in_scope E (sp_instance spec) key \<and>
        (po_exact (sp_policy spec) \<longrightarrow> length (rg_regions (heap ! g)) = 1)) \<and>
     (\<forall>g n. map_of (is_pending S) g = Some n \<longrightarrow> n \<noteq> 0)"

lemma set_fst_map_of: "x \<in> set (map fst xs) \<longleftrightarrow> map_of xs x \<noteq> None"
  by (simp add: map_of_eq_None_iff)

lemma set_snd_map_of: "distinct (map fst xs) \<Longrightarrow> y \<in> set (map snd xs) \<longleftrightarrow> (\<exists>x. map_of xs x = Some y)"
  by (force simp: map_of_eq_Some_iff)

lemma set_groups_okI:
  assumes "distinct (map fst (is_groups S))"
    "\<And>g spec. map_of (is_instances S) g = Some spec \<Longrightarrow> heap_group E tree heap g"
    "\<And>g n. map_of (is_pending S) g = Some n \<Longrightarrow> heap_group E tree heap g"
    "\<And>r g. map_of (is_groups S) r = Some g \<Longrightarrow> heap_group E tree heap g \<and> r \<in> set (rg_regions (heap ! g))"
  shows "set_groups_ok E tree heap S"
  using assms set_snd_map_of [OF assms(1)] unfolding set_groups_ok_def
  by (auto simp: set_fst_map_of simp del: set_map list.set_map)

lemma set_groups_okD:
  assumes "set_groups_ok E tree heap S"
  shows "map_of (is_instances S) g = Some spec \<Longrightarrow> heap_group E tree heap g"
    "map_of (is_pending S) g = Some n \<Longrightarrow> heap_group E tree heap g"
    "map_of (is_groups S) r = Some g \<Longrightarrow> heap_group E tree heap g \<and> r \<in> set (rg_regions (heap ! g))"
proof -
  have a: "heap_group E tree heap g" if "g \<in> set (map fst (is_instances S)) \<or> g \<in> set (map fst (is_pending S)) \<or>
      g \<in> set (map snd (is_groups S))" for g
    using assms that by (auto simp: set_groups_ok_def)
  show "map_of (is_instances S) g = Some spec \<Longrightarrow> heap_group E tree heap g"
    "map_of (is_pending S) g = Some n \<Longrightarrow> heap_group E tree heap g"
    by (rule a, simp only: set_fst_map_of, simp)+
  show "map_of (is_groups S) r = Some g \<Longrightarrow> heap_group E tree heap g \<and> r \<in> set (rg_regions (heap ! g))"
    using assms a [of g] by (force simp: set_groups_ok_def dest: map_of_SomeD)
qed

lemma set_invD:
  assumes "set_inv E heap key S"
  shows "map_of (is_groups S) r = Some g \<Longrightarrow> \<exists>spec. map_of (is_instances S) g = Some spec"
    "map_of (is_groups S) r = Some g \<Longrightarrow> r \<in> set (rg_regions (heap ! g)) \<and> heap_group E (fmi_tree key) heap g"
    "map_of (is_instances S) g = Some spec \<Longrightarrow> \<exists>r. map_of (is_groups S) r = Some g"
    "map_of (is_instances S) g = Some spec \<Longrightarrow> key_in_scope E (sp_instance spec) key"
    "map_of (is_instances S) g = Some spec \<Longrightarrow> po_exact (sp_policy spec) \<Longrightarrow> length (rg_regions (heap ! g)) = 1"
proof -
  have ok: "set_groups_ok E (fmi_tree key) heap S" using assms by (simp add: set_inv_def)
  show "map_of (is_groups S) r = Some g \<Longrightarrow> r \<in> set (rg_regions (heap ! g)) \<and> heap_group E (fmi_tree key) heap g"
    using set_groups_okD(3) [OF ok] by simp
  show "map_of (is_groups S) r = Some g \<Longrightarrow> \<exists>spec. map_of (is_instances S) g = Some spec"
    "map_of (is_instances S) g = Some spec \<Longrightarrow> \<exists>r. map_of (is_groups S) r = Some g"
    "map_of (is_instances S) g = Some spec \<Longrightarrow> key_in_scope E (sp_instance spec) key"
    "map_of (is_instances S) g = Some spec \<Longrightarrow> po_exact (sp_policy spec) \<Longrightarrow> length (rg_regions (heap ! g)) = 1"
    using assms unfolding set_inv_def not_None_eq by blast+
qed

lemma set_inv_heap: "set_inv E heap key S \<Longrightarrow> set_inv E (heap @ gs) key S"
proof -
  assume i: "set_inv E heap key S"
  have g: "heap_group E (fmi_tree key) heap g" if "map_of (is_instances S) g = Some spec" for g spec
    using i that set_groups_okD(1) by (auto simp: set_inv_def)
  have n: "heap_group E (fmi_tree key) heap g \<Longrightarrow> (heap @ gs) ! g = heap ! g" for g
    by (simp add: heap_group_def nth_append)
  have "set_groups_ok E (fmi_tree key) (heap @ gs) S"
    using i unfolding set_inv_def
    by (intro set_groups_okI) (auto dest: set_groups_okD simp: n)
  then show ?thesis using i g n unfolding set_inv_def by auto
qed

lemma empty_set_inv [simp]: "set_inv E heap key empty_set"
  by (simp add: set_inv_def empty_set_def set_groups_ok_def)

lemma record_pending_inv:
  assumes "set_inv E heap key S" "heap_group E (fmi_tree key) heap g" "Suc (pending_count g S) < 2 ^ 64"
  shows "set_inv E heap key (record_pending g S) \<and>
    pending_count h (record_pending g S) = (if h = g then Suc (pending_count g S) else pending_count h S)"
proof -
  define c where "c = (case map_of (is_pending S) g of None \<Rightarrow> 0 | Some n \<Rightarrow> n)"
  have c: "unat c = pending_count g S" by (simp add: c_def pending_count_def split: option.splits)
  have c1: "unat (c + 1) = Suc (unat c)" using assms(3) c by (simp add: unat_word_ariths)
  then have "c + 1 \<noteq> 0" by auto
  have p: "map_of (is_pending (record_pending g S)) = (map_of (is_pending S))(g \<mapsto> c + 1)"
    by (simp add: record_pending_def c_def)
  have same: "is_instances (record_pending g S) = is_instances S" "is_groups (record_pending g S) = is_groups S"
    "distinct (map fst (is_pending S)) \<Longrightarrow> distinct (map fst (is_pending (record_pending g S)))"
    by (simp_all add: record_pending_def distinct_update)
  have "set_groups_ok E (fmi_tree key) heap (record_pending g S)"
    using assms(1,2) same unfolding set_inv_def
    by (intro set_groups_okI) (auto simp: p dest: set_groups_okD split: if_splits)
  then have "set_inv E heap key (record_pending g S)"
    using assms(1) same p \<open>c + 1 \<noteq> 0\<close> unfolding set_inv_def by auto
  then show ?thesis using p c c1 by (auto simp: pending_count_def)
qed

lemma remove_pending_inv:
  assumes "set_inv E heap key S" "pending_count g S > 0"
  obtains S' where "remove_pending g S = Inr S'" "set_inv E heap key S'"
    "\<And>h. pending_count h S' = (if h = g then pending_count g S - 1 else pending_count h S)"
    "is_instances S' = is_instances S" "is_groups S' = is_groups S"
proof -
  obtain n where n: "map_of (is_pending S) g = Some n" "unat n > 0"
    using assms(2) by (auto simp: pending_count_def split: option.splits)
  define P where "P = (if n - 1 = 0 then AList.delete g (is_pending S) else AList.update g (n - 1) (is_pending S))"
  have u: "unat (n - 1) = unat n - 1" using n(2) by (simp add: unat_minus_one unat_gt_0)
  have P: "map_of P h = (if h = g then if n - 1 = 0 then None else Some (n - 1) else map_of (is_pending S) h)" for h
    by (simp add: P_def)
  have r: "remove_pending g S = Inr (S\<lparr>is_pending := P\<rparr>)" using n by (simp add: remove_pending_def P_def)
  have "distinct (map fst P)" using assms(1) by (simp add: P_def set_inv_def distinct_delete distinct_update)
  moreover have "set_groups_ok E (fmi_tree key) heap (S\<lparr>is_pending := P\<rparr>)"
    using assms(1) n unfolding set_inv_def
    by (intro set_groups_okI) (auto simp: P dest: set_groups_okD split: if_splits)
  ultimately have "set_inv E heap key (S\<lparr>is_pending := P\<rparr>)"
    using assms(1) unfolding set_inv_def by (auto simp: P split: if_splits)
  moreover have "pending_count h (S\<lparr>is_pending := P\<rparr>) = (if h = g then pending_count g S - 1 else pending_count h S)" for h
    using n u by (auto simp: pending_count_def P)
  ultimately show ?thesis using r that [of "S\<lparr>is_pending := P\<rparr>"] by simp
qed

text \<open>A record succeeds unless a region of a group that it empties leads nowhere; then the lookup throws.\<close>

lemma set_record_inv:
  assumes "set_inv E heap key S" "pending_count g S > 0" "heap_group E (fmi_tree key) heap g" "key_in_scope E inst key"
    "po_exact policy \<longrightarrow> length (rg_regions (heap ! g)) = 1" "set_record_instance heap g inst policy S = Inr S'"
  shows "set_inv E heap key S'" "\<And>h. pending_count h S' = (if h = g then pending_count g S - 1 else pending_count h S)"
    "map_of (is_instances S') g = Some \<lparr>sp_instance = inst, sp_policy = policy\<rparr>"
    "\<And>r. r \<in> set (rg_regions (heap ! g)) \<Longrightarrow> map_of (is_groups S') r = Some g"
    "\<And>h spec. map_of (is_instances S') h = Some spec \<Longrightarrow> h = g \<or> map_of (is_instances S) h = Some spec"
proof -
  let ?rs = "rg_regions (heap ! g)" and ?spec = "\<lparr>sp_instance = inst, sp_policy = policy\<rparr>"
  obtain S1 where S1: "remove_pending g S = Inr S1" "set_inv E heap key S1"
    "\<And>h. pending_count h S1 = (if h = g then pending_count g S - 1 else pending_count h S)"
    "is_instances S1 = is_instances S" "is_groups S1 = is_groups S"
    using remove_pending_inv [OF assms(1,2)] by metis
  obtain groups removed where f: "fold (redirect_region g) ?rs (is_groups S1, []) = (groups, removed)"
    by (cases "fold (redirect_region g) ?rs (is_groups S1, [])")
  obtain instances where pr: "rfoldM (prune_group heap groups) removed (AList.update g ?spec (is_instances S1)) = Inr instances"
    and S': "S' = S1\<lparr>is_instances := instances, is_groups := groups\<rparr>"
    using assms(6) S1(1) f by (auto simp: set_record_instance_def rbind_eq_Inr)
  note old = S1(2) [unfolded set_inv_def]
  have groups: "map_of groups r = (if r \<in> set ?rs then Some g else map_of (is_groups S1) r)" for r
    by (rule redirect_fold(1) [OF f])
  have removed: "set removed = {h. h \<noteq> g \<and> (\<exists>r \<in> set ?rs. map_of (is_groups S1) r = Some h)}"
    using redirect_fold(2) [OF f] by simp
  have instances: "map_of instances h =
      (if h \<in> set removed \<and> \<not> (\<exists>r \<in> set (rg_regions (heap ! h)). map_of groups r = Some h) then None
       else if h = g then Some ?spec else map_of (is_instances S1) h)" for h
    using prune_groups(1) [OF pr, of h] by simp
  have g: "map_of instances g = Some ?spec" using instances [of g] removed by simp
  have kept: "map_of instances h = Some spec \<Longrightarrow> h \<noteq> g \<Longrightarrow> map_of (is_instances S1) h = Some spec" for h spec
    using instances [of h] by (auto split: if_splits)
  have dist: "distinct (map fst groups)" "distinct (map fst instances)"
    using redirect_fold(3) [OF f] prune_groups(2) [OF pr] old by (simp_all add: distinct_update)
  have leads: "map_of instances h \<noteq> None" if "map_of groups r = Some h" for r h
  proof (cases "h = g")
    case False
    then have r: "map_of (is_groups S1) r = Some h" using that groups [of r] by (auto split: if_splits)
    then have "r \<in> set (rg_regions (heap ! h))" using old set_groups_okD(3) by blast
    then show ?thesis using instances [of h] that False old r by auto
  qed (use g in simp)
  have used: "\<exists>r. map_of groups r = Some h" if inst: "map_of instances h = Some spec" for h spec
  proof (cases "h = g")
    case True
    have "?rs \<noteq> []" using assms(3) by (simp add: heap_group_def group_ok_def)
    then have "hd ?rs \<in> set ?rs" by simp
    then show ?thesis using groups [of "hd ?rs"] True by auto
  next
    case False
    then obtain r where r: "map_of (is_groups S1) r = Some h" using set_invD(3) [OF S1(2) kept [OF inst False]] by blast
    show ?thesis
    proof (cases "r \<in> set ?rs")
      case True
      then have "h \<in> set removed" using removed r False by blast
      then show ?thesis using instances [of h] inst by (auto split: if_splits)
    next
      case False
      then show ?thesis using groups [of r] r by auto
    qed
  qed
  have hg: "map_of groups r = Some h \<Longrightarrow> heap_group E (fmi_tree key) heap h \<and> r \<in> set (rg_regions (heap ! h))" for r h
    using groups [of r] assms(3) old set_groups_okD(3) by (auto split: if_splits)
  have ig: "heap_group E (fmi_tree key) heap h" if "map_of instances h = Some spec" for h spec
    using used [OF that] hg by blast
  have ok: "set_groups_ok E (fmi_tree key) heap S'"
    using dist(1) S' hg ig old by (intro set_groups_okI) (auto dest: set_groups_okD)
  have spec: "key_in_scope E (sp_instance spec) key \<and> (po_exact (sp_policy spec) \<longrightarrow> length (rg_regions (heap ! h)) = 1)"
    if "map_of instances h = Some spec" for h spec
  proof (cases "h = g")
    case True
    then have "spec = ?spec" using that g by simp
    then show ?thesis using True assms(4,5) by simp
  next
    case False
    then show ?thesis using old kept [OF that False] by blast
  qed
  show "set_inv E heap key S'"
    unfolding set_inv_def using ok S' dist old leads used spec by simp
  show "pending_count h S' = (if h = g then pending_count g S - 1 else pending_count h S)" for h
    using S1(3) [of h] S' by (simp add: pending_count_def)
  show "map_of (is_instances S') g = Some ?spec" using g S' by simp
  show "map_of (is_groups S') r = Some g" if "r \<in> set ?rs" for r using groups [of r] that S' by simp
  show "h = g \<or> map_of (is_instances S) h = Some spec" if "map_of (is_instances S') h = Some spec" for h spec
    using kept [of h spec] that S' S1(4) by auto
qed

text \<open>What can go wrong in a record is that exception only.\<close>

lemma set_record_raises:
  assumes "set_inv E heap key S" "pending_count g S > 0" "set_record_instance heap g inst policy S = Inl e"
  shows "e = OutOfRange"
proof -
  obtain S1 where S1: "remove_pending g S = Inr S1" using remove_pending_inv [OF assms(1,2)] by metis
  have a: "rany (\<lambda>rg. case map_of groups rg of None \<Rightarrow> Inl OutOfRange | Some h \<Rightarrow> Inr (h = g)) rs = Inl e \<Longrightarrow> e = OutOfRange"
    for groups g rs by (induction rs) (auto simp: rbind_def split: option.splits if_splits)
  have b: "rfoldM (prune_group heap groups) removed instances = Inl e \<Longrightarrow> e = OutOfRange" for groups removed instances
  proof (induction removed arbitrary: instances)
    case (Cons h hs)
    then show ?case using a
      by (cases "prune_group heap groups h instances") (auto simp: prune_group_def still_used_def rbind_def split: sum.splits)
  qed simp
  show ?thesis
    using assms(3) S1 b by (auto simp: set_record_instance_def rbind_def split: prod.splits sum.splits)
qed

text \<open>It does not occur when the table still has every region of the groups that lose a region to \<open>g\<close>.\<close>

definition groups_complete :: "region_group list \<Rightarrow> nat \<Rightarrow> instance_set \<Rightarrow> bool" where
  "groups_complete heap g S \<longleftrightarrow>
     (\<forall>r \<in> set (rg_regions (heap ! g)). \<forall>h. map_of (is_groups S) r = Some h \<longrightarrow>
        (\<forall>q \<in> set (rg_regions (heap ! h)). q \<in> set (rg_regions (heap ! g)) \<or> map_of (is_groups S) q \<noteq> None))"

lemma still_used_total:
  assumes "\<forall>q \<in> set (rg_regions (heap ! h)). map_of groups q \<noteq> None"
  shows "\<exists>b. still_used heap groups h = Inr b"
proof -
  have "\<forall>q \<in> set rs. map_of groups q \<noteq> None \<Longrightarrow>
      \<exists>b. rany (\<lambda>rg. case map_of groups rg of None \<Rightarrow> Inl OutOfRange | Some h' \<Rightarrow> Inr (h' = h)) rs = Inr b" for rs
    by (induction rs) auto
  then show ?thesis using assms by (simp add: still_used_def)
qed

lemma prune_groups_total:
  "\<forall>h \<in> set removed. \<exists>b. still_used heap groups h = Inr b \<Longrightarrow> \<exists>is'. rfoldM (prune_group heap groups) removed instances = Inr is'"
  by (induction removed arbitrary: instances) (auto simp: prune_group_def)

lemma set_record_succeeds:
  assumes "set_inv E heap key S" "pending_count g S > 0" "groups_complete heap g S"
  shows "\<exists>S'. set_record_instance heap g inst policy S = Inr S'"
proof -
  obtain S1 where S1: "remove_pending g S = Inr S1" "is_groups S1 = is_groups S" using remove_pending_inv [OF assms(1,2)] by metis
  obtain groups removed where f: "fold (redirect_region g) (rg_regions (heap ! g)) (is_groups S1, []) = (groups, removed)"
    by (cases "fold (redirect_region g) (rg_regions (heap ! g)) (is_groups S1, [])")
  have "\<exists>b. still_used heap groups h = Inr b" if h: "h \<in> set removed" for h
  proof (rule still_used_total)
    obtain r where "r \<in> set (rg_regions (heap ! g))" "map_of (is_groups S) r = Some h"
      using h redirect_fold(2) [OF f] S1(2) by auto
    then have "\<forall>q \<in> set (rg_regions (heap ! h)). q \<in> set (rg_regions (heap ! g)) \<or> map_of (is_groups S) q \<noteq> None"
      using assms(3) unfolding groups_complete_def by blast
    then show "\<forall>q \<in> set (rg_regions (heap ! h)). map_of groups q \<noteq> None"
      unfolding redirect_fold(1) [OF f] S1(2) by auto
  qed
  then obtain is' where "rfoldM (prune_group heap groups) removed (AList.update g \<lparr>sp_instance = inst, sp_policy = policy\<rparr> (is_instances S1)) = Inr is'"
    using prune_groups_total by blast
  then show ?thesis using S1(1) f by (simp add: set_record_instance_def)
qed

lemma map_of_filter_pairs:
  "distinct (map fst xs) \<Longrightarrow>
    map_of (filter P xs) k = (case map_of xs k of None \<Rightarrow> None | Some v \<Rightarrow> if P (k, v) then Some v else None)"
  by (induction xs) (auto split: option.splits simp: map_of_eq_None_iff rev_image_eqI)

lemma concat_map_set: "r \<in> set (concat (map f xs)) \<longleftrightarrow> (\<exists>x \<in> set xs. r \<in> set (f x))"
  by simp

lemma set_erase_inv:
  assumes "set_inv E heap key S"
  shows "set_inv E heap key (fst (set_erase heap inst S))"
    "pending_count g (fst (set_erase heap inst S)) = pending_count g S"
    "map_of (is_instances (fst (set_erase heap inst S))) g = Some spec \<Longrightarrow>
      map_of (is_instances S) g = Some spec \<and> sp_instance spec \<noteq> inst"
    "map_of (is_groups (fst (set_erase heap inst S))) r = Some g \<Longrightarrow> map_of (is_groups S) r = Some g"
proof -
  let ?S = "fst (set_erase heap inst S)"
  note old = assms [unfolded set_inv_def]
  let ?gone = "map fst (filter (\<lambda>(g, spec). sp_instance spec = inst) (is_instances S))"
  let ?regions = "concat (map (\<lambda>g. filter (\<lambda>r. map_of (is_groups S) r = Some g) (rg_regions (heap ! g))) ?gone)"
  have S: "?S = S\<lparr>is_instances := filter (\<lambda>(g, spec). sp_instance spec \<noteq> inst) (is_instances S),
      is_groups := filter (\<lambda>(r, g). r \<notin> set ?regions) (is_groups S)\<rparr>"
    by (simp only: set_erase_def Let_def fst_conv)
  have gone: "h \<in> set ?gone \<longleftrightarrow> (\<exists>spec. map_of (is_instances S) h = Some spec \<and> sp_instance spec = inst)" for h
    unfolding set_fst_map_of using old by (simp add: map_of_filter_pairs split: option.splits)
  have i: "map_of (is_instances ?S) h = (if h \<in> set ?gone then None else map_of (is_instances S) h)" for h
    unfolding gone S using old by (auto simp: map_of_filter_pairs split: option.splits)
  have rs: "r \<in> set ?regions \<longleftrightarrow> (\<exists>h. map_of (is_groups S) r = Some h \<and> h \<in> set ?gone)" for r
    unfolding concat_map_set set_filter using set_invD(2) [OF assms] by blast
  have gr: "map_of (is_groups ?S) r =
      (case map_of (is_groups S) r of None \<Rightarrow> None | Some h \<Rightarrow> if h \<in> set ?gone then None else Some h)" for r
  proof -
    have "map_of (is_groups ?S) r = (case map_of (is_groups S) r of None \<Rightarrow> None | Some h \<Rightarrow> if r \<notin> set ?regions then Some h else None)"
    proof -
      have d: "distinct (map fst (is_groups S))" using old by blast
      show ?thesis unfolding S by (cases "map_of (is_groups S) r") (simp_all add: map_of_filter_pairs [OF d] del: set_concat set_map list.set_map map_map)
    qed
    then show ?thesis unfolding rs by (auto split: option.splits)
  qed
  have keep: "map_of (is_instances ?S) h = Some spec \<Longrightarrow> map_of (is_instances S) h = Some spec \<and> h \<notin> set ?gone" for h spec
    unfolding i by (auto split: if_splits simp del: set_map list.set_map)
  have gkeep: "map_of (is_groups ?S) r = Some h \<Longrightarrow> map_of (is_groups S) r = Some h \<and> h \<notin> set ?gone" for r h
    unfolding gr by (auto split: option.splits if_splits)
  have gadd: "map_of (is_groups S) r = Some h \<Longrightarrow> h \<notin> set ?gone \<Longrightarrow> map_of (is_groups ?S) r = Some h" for r h
    unfolding gr by simp
  have dist: "distinct (map fst (is_instances ?S))" "distinct (map fst (is_groups ?S))" "is_pending ?S = is_pending S"
    unfolding S using old by (simp_all add: distinct_map_filter)
  have ok: "set_groups_ok E (fmi_tree key) heap ?S"
  proof (rule set_groups_okI)
    have ok0: "set_groups_ok E (fmi_tree key) heap S" using old by blast
    show "map_of (is_instances ?S) h = Some spec \<Longrightarrow> heap_group E (fmi_tree key) heap h" for h spec
      using keep set_groups_okD(1) [OF ok0] by blast
    show "map_of (is_pending ?S) h = Some n \<Longrightarrow> heap_group E (fmi_tree key) heap h" for h n
      unfolding dist(3) by (rule set_groups_okD(2) [OF ok0])
    show "map_of (is_groups ?S) r = Some h \<Longrightarrow> heap_group E (fmi_tree key) heap h \<and> r \<in> set (rg_regions (heap ! h))" for r h
      using gkeep set_groups_okD(3) [OF ok0] by blast
  qed (rule dist(2))
  have leads: "map_of (is_instances ?S) h \<noteq> None" if "map_of (is_groups ?S) r = Some h" for r h
    using gkeep [OF that] old i [of h] by auto
  have used: "\<exists>r. map_of (is_groups ?S) r = Some h" if "map_of (is_instances ?S) h = Some spec" for h spec
    using keep [OF that] old gadd by blast
  show "set_inv E heap key ?S"
  proof -
    have "key_in_scope E (sp_instance spec) key \<and> (po_exact (sp_policy spec) \<longrightarrow> length (rg_regions (heap ! h)) = 1)"
      if "map_of (is_instances ?S) h = Some spec" for h spec
      using keep [OF that] set_invD(4,5) [OF assms] by blast
    then show ?thesis unfolding set_inv_def dist(3) using ok dist(1,2) leads used old by blast
  qed
  show "pending_count g ?S = pending_count g S" using dist by (simp add: pending_count_def)
  show "map_of (is_instances ?S) g = Some spec \<Longrightarrow> map_of (is_instances S) g = Some spec \<and> sp_instance spec \<noteq> inst"
    using keep [of g spec] gone [of g] by auto
  show "map_of (is_groups ?S) r = Some g \<Longrightarrow> map_of (is_groups S) r = Some g" using gkeep by blast
qed

section \<open>Queries\<close>

lemma valid_instance:
  assumes "set_inv E heap key S" "map_of (is_groups S) r = Some g"
  obtains spec where "map_of (is_instances S) g = Some spec"
    "get_valid_instance E policy layout S g =
      Inr (if (po_exact (sp_policy spec) \<or> \<not> po_exact policy) \<and> ie_entails E (sp_instance spec) layout
           then Some (sp_instance spec) else None)"
proof -
  obtain spec where "map_of (is_instances S) g = Some spec" using set_invD(1) [OF assms] by blast
  then show ?thesis by (intro that) (simp_all add: get_valid_instance_def)
qed

text \<open>What a query promises of the instance it finds: it was recorded for a group of the key.\<close>

definition fits :: "inst_env \<Rightarrow> region_group list \<Rightarrow> nat \<Rightarrow> mapping_policy \<Rightarrow> layout_constraints \<Rightarrow> instance_set \<Rightarrow> nat \<Rightarrow> bool" where
  "fits E heap region policy layout S inst \<longleftrightarrow>
     ie_entails E inst layout \<and>
     (\<exists>g spec. map_of (is_instances S) g = Some spec \<and> sp_instance spec = inst \<and>
        box_le (ie_domain E region) (rg_box (heap ! g)) \<and>
        (po_exact policy \<longrightarrow> rg_regions (heap ! g) = [region] \<and> rg_box (heap ! g) = ie_domain E region))"

lemma covers_box:
  assumes "env_ok E" "covers box (ie_rects E region)"
  shows "box_le (ie_domain E region) box"
proof -
  have "in_domain box p" if d: "d \<in> set (ie_rects E region)" "in_domain d p" for d p
  proof -
    have "in_domain box (dom_lo d)" "in_domain box (dom_hi d)" using assms(2) d(1) by (auto simp: covers_def list_all_iff)
    then show ?thesis using d(2) unfolding in_domain_def in_box_iff by (metis order_trans)
  qed
  then show ?thesis using assms(1) unfolding box_le_def env_ok_def by blast
qed

lemma find_covering_fits:
  assumes "set_inv E heap key S" "env_ok E" "\<not> po_exact policy" "set gs \<subseteq> set (map snd (is_groups S))"
  shows "\<exists>res. find_covering E heap policy layout (ie_rects E region) S gs = Inr res \<and>
    (case res of None \<Rightarrow> True | Some inst \<Rightarrow> fits E heap region policy layout S inst)"
  using assms(4)
proof (induction gs)
  case (Cons g gs)
  then have ih: "\<exists>res. find_covering E heap policy layout (ie_rects E region) S gs = Inr res \<and>
    (case res of None \<Rightarrow> True | Some inst \<Rightarrow> fits E heap region policy layout S inst)" by simp
  show ?case
  proof (cases "covers (rg_box (heap ! g)) (ie_rects E region)")
    case True
    have "distinct (map fst (is_groups S))" using assms(1) by (simp add: set_inv_def)
    moreover have "g \<in> set (map snd (is_groups S))" using Cons.prems by simp
    ultimately have "\<exists>r. map_of (is_groups S) r = Some g" by (rule set_snd_map_of [THEN iffD1])
    then obtain r where "map_of (is_groups S) r = Some g" ..
    then obtain spec where spec: "map_of (is_instances S) g = Some spec" "get_valid_instance E policy layout S g =
      Inr (if (po_exact (sp_policy spec) \<or> \<not> po_exact policy) \<and> ie_entails E (sp_instance spec) layout
           then Some (sp_instance spec) else None)"
      using valid_instance [OF assms(1)] by blast
    show ?thesis
      using True spec ih assms(3) covers_box [OF assms(2) True] by (auto simp: fits_def)
  qed (use ih in simp)
qed simp

lemma set_find_fits:
  assumes "set_inv E heap key S" "env_ok E"
  shows "\<exists>res. set_find_instance E heap region policy layout S = Inr res \<and>
    (case res of None \<Rightarrow> True | Some inst \<Rightarrow> fits E heap region policy layout S inst)"
proof -
  have cov: "\<exists>res. (if po_exact policy then Inr None
      else find_covering E heap policy layout (ie_rects E region) S (map snd (is_groups S))) = Inr res \<and>
    (case res of None \<Rightarrow> True | Some inst \<Rightarrow> fits E heap region policy layout S inst)"
    using find_covering_fits [OF assms, of policy "map snd (is_groups S)" layout region] by auto
  show ?thesis
  proof (cases "map_of (is_groups S) region")
    case None
    then show ?thesis using cov by (simp add: set_find_instance_def)
  next
    case (Some g)
    then obtain spec where spec: "map_of (is_instances S) g = Some spec" "get_valid_instance E policy layout S g =
      Inr (if (po_exact (sp_policy spec) \<or> \<not> po_exact policy) \<and> ie_entails E (sp_instance spec) layout
           then Some (sp_instance spec) else None)"
      using valid_instance [OF assms(1)] by blast
    have g: "region \<in> set (rg_regions (heap ! g))" "group_ok E (fmi_tree key) (heap ! g)"
      using assms(1) Some set_groups_okD(3) by (auto simp: set_inv_def heap_group_def)
    have "rg_regions (heap ! g) = [region]" if "po_exact (sp_policy spec)"
      using set_invD(5) [OF assms(1) spec(1) that] g(1) by (auto simp: length_Suc_conv)
    then have "fits E heap region policy layout S (sp_instance spec)"
      if "po_exact (sp_policy spec) \<or> \<not> po_exact policy" "ie_entails E (sp_instance spec) layout"
      using that spec(1) g \<open>po_exact (sp_policy spec) \<Longrightarrow> rg_regions (heap ! g) = [region]\<close>
      unfolding fits_def group_ok_def by (intro conjI exI [of _ g] exI [of _ spec]) auto
    then show ?thesis using Some spec cov by (auto simp: set_find_instance_def)
  qed
qed

end
