(* ===== verification/InstanceCache.thy ===== *)
theory InstanceCache
  imports InstanceManagerCorrect
begin

text \<open>
  The cache of instances in use: mappings start, finish or fail, and Legion collects instances in between, in any order.
  A mapping is in flight from \<open>regular_start\<close>, which made or found its region group, until \<open>regular_finish\<close> or
  \<open>regular_fail\<close>.
\<close>

section \<open>Runs\<close>

record flight =
  fl_region :: nat
  fl_grp :: nat
  fl_regions :: "nat list"
  fl_field :: u32
  fl_memory :: nat
  fl_policy :: mapping_policy

record cache_state =
  ca_manager :: instance_manager
  ca_flights :: "flight list"

definition initial_cache :: cache_state where
  "initial_cache = \<lparr>ca_manager = \<lparr>im_heap = [], im_sets = []\<rparr>, ca_flights = []\<rparr>"

definition drop_flight :: "nat \<Rightarrow> flight list \<Rightarrow> flight list" where
  "drop_flight i fs = take i fs @ drop (Suc i) fs"

text \<open>Legion makes the instance of a mapping in the memory that was asked for and for the regions of the group. There are
  fewer than \<open>2 ^ 64\<close> mappings at a time.\<close>

inductive cache_step :: "inst_env \<Rightarrow> cache_state \<Rightarrow> cache_state \<Rightarrow> bool" for E where
  start: "regular_start E [r] field mem alloc policy layout (ca_manager s) = Inr (M, Creating (Some g) rs) \<Longrightarrow>
    Suc (length (ca_flights s)) < 2 ^ 64 \<Longrightarrow>
    cache_step E s \<lparr>ca_manager = M, ca_flights = ca_flights s @
      [\<lparr>fl_region = r, fl_grp = g, fl_regions = rs, fl_field = field, fl_memory = mem, fl_policy = policy\<rparr>]\<rparr>"
| finish: "i < length (ca_flights s) \<Longrightarrow> fl = ca_flights s ! i \<Longrightarrow> ie_location E inst = fl_memory fl \<Longrightarrow>
    ie_instance_tree E inst = ie_tree E (hd (fl_regions fl)) \<Longrightarrow>
    regular_finish E (Some (fl_grp fl)) (fl_field fl) inst (fl_policy fl) (ca_manager s) = Inr M \<Longrightarrow>
    cache_step E s \<lparr>ca_manager = M, ca_flights = drop_flight i (ca_flights s)\<rparr>"
| fail: "i < length (ca_flights s) \<Longrightarrow> fl = ca_flights s ! i \<Longrightarrow>
    regular_fail E (fl_regions fl) (Some (fl_grp fl)) (fl_field fl) (fl_memory fl) (ca_manager s) = Inr M \<Longrightarrow>
    cache_step E s \<lparr>ca_manager = M, ca_flights = drop_flight i (ca_flights s)\<rparr>"
| collect: "cache_step E s (s\<lparr>ca_manager := fst (im_erase E inst (ca_manager s))\<rparr>)"

inductive cache_run :: "inst_env \<Rightarrow> cache_state \<Rightarrow> bool" for E where
  init: "cache_run E initial_cache"
| more: "cache_run E s \<Longrightarrow> cache_step E s t \<Longrightarrow> cache_run E t"

section \<open>The invariant\<close>

definition flight_key :: "inst_env \<Rightarrow> flight \<Rightarrow> field_mem_info" where
  "flight_key E fl = region_key E (fl_region fl) (fl_field fl) (fl_memory fl)"

definition flight_ok :: "inst_env \<Rightarrow> region_group list \<Rightarrow> flight \<Rightarrow> bool" where
  "flight_ok E heap fl \<longleftrightarrow>
     heap_group E (ie_tree E (fl_region fl)) heap (fl_grp fl) \<and> fl_regions fl = rg_regions (heap ! fl_grp fl) \<and>
     fl_region fl \<in> set (fl_regions fl) \<and> (po_exact (fl_policy fl) \<longrightarrow> length (fl_regions fl) = 1)"

definition in_flight :: "inst_env \<Rightarrow> field_mem_info \<Rightarrow> nat \<Rightarrow> flight list \<Rightarrow> nat" where
  "in_flight E key g fs = length (filter (\<lambda>fl. flight_key E fl = key \<and> fl_grp fl = g) fs)"

definition cache_inv :: "inst_env \<Rightarrow> cache_state \<Rightarrow> bool" where
  "cache_inv E s \<longleftrightarrow>
     distinct (map fst (im_sets (ca_manager s))) \<and>
     (\<forall>key. set_inv E (im_heap (ca_manager s)) key (set_at key (ca_manager s))) \<and>
     (\<forall>fl \<in> set (ca_flights s). flight_ok E (im_heap (ca_manager s)) fl) \<and>
     (\<forall>key g. pending_count g (set_at key (ca_manager s)) = in_flight E key g (ca_flights s))"

lemma set_at_put [simp]: "set_at key (put_set key' S M) = (if key = key' then S else set_at key M)"
  by (simp add: set_at_def put_set_def)

lemma set_at_heap [simp]: "set_at key (M\<lparr>im_heap := heap\<rparr>) = set_at key M"
  by (simp add: set_at_def)

lemma put_set_simps [simp]:
  "im_heap (put_set key S M) = im_heap M"
  "distinct (map fst (im_sets M)) \<Longrightarrow> distinct (map fst (im_sets (put_set key S M)))"
  by (simp_all add: put_set_def distinct_update)

lemma in_flight_append: "in_flight E key g (fs @ [fl]) = in_flight E key g fs + (if flight_key E fl = key \<and> fl_grp fl = g then 1 else 0)"
  by (simp add: in_flight_def)

lemma in_flight_drop:
  assumes "i < length fs"
  shows "in_flight E key g fs =
    in_flight E key g (drop_flight i fs) + (if flight_key E (fs ! i) = key \<and> fl_grp (fs ! i) = g then 1 else 0)"
proof -
  have "fs = take i fs @ fs ! i # drop (Suc i) fs" using assms by (rule id_take_nth_drop)
  then have "in_flight E key g fs = in_flight E key g (take i fs @ fs ! i # drop (Suc i) fs)" by simp
  then show ?thesis by (simp add: in_flight_def drop_flight_def)
qed

lemma in_flight_le: "in_flight E key g fs \<le> length fs"
  by (simp add: in_flight_def)

lemma drop_flight_set: "set (drop_flight i fs) \<subseteq> set fs"
  by (auto simp: drop_flight_def dest: in_set_takeD in_set_dropD)

lemma empty_set_is_empty:
  assumes "set_inv E heap key S" "set_is_empty S"
  shows "S = empty_set"
proof -
  have "is_groups S = []"
  proof (rule ccontr)
    assume "is_groups S \<noteq> []"
    then obtain r g xs where "is_groups S = (r, g) # xs" by (cases "is_groups S") auto
    then have "map_of (is_groups S) r = Some g" by simp
    then show False using set_invD(1) [OF assms(1)] assms(2) by (fastforce simp: set_is_empty_def)
  qed
  then show ?thesis using assms(2) by (simp add: set_is_empty_def empty_set_def)
qed

lemma flight_ok_append: "flight_ok E heap fl \<Longrightarrow> flight_ok E (heap @ gs) fl"
  by (auto simp: flight_ok_def heap_group_def nth_append)

text \<open>Finding a group for a region.\<close>

lemma env_domain: "env_ok E \<Longrightarrow> box_shape (get_dim (ie_domain E r)) (ie_domain E r)"
  by (auto simp: env_ok_def box_shape_def)

lemma fresh_group: "env_ok E \<Longrightarrow> heap_group E (ie_tree E r) (heap @ [\<lparr>rg_regions = [r], rg_box = ie_domain E r\<rparr>]) (length heap)"
  by (simp add: heap_group_def group_ok_def env_domain)

lemma find_group:
  assumes "find_or_create_region_group E heap r (ie_domain E r) exact S = Inr (heap', g)" "env_ok E"
    "set_inv E heap key S" "fmi_tree key = ie_tree E r"
  shows "(\<exists>gs. heap' = heap @ gs) \<and> heap_group E (ie_tree E r) heap' g \<and> r \<in> set (rg_regions (heap' ! g)) \<and>
    (exact \<longrightarrow> length (rg_regions (heap' ! g)) = 1)"
proof -
  let ?fresh = "heap @ [\<lparr>rg_regions = [r], rg_box = ie_domain E r\<rparr>]"
  have found: "r \<in> set (rg_regions (heap ! h)) \<and> heap_group E (ie_tree E r) heap h" if "map_of (is_groups S) r = Some h" for h
    using set_invD(2) [OF assms(3) that] assms(4) by simp
  show ?thesis
  proof (cases exact)
    case True
    then show ?thesis using assms(1) found fresh_group [OF assms(2), of r heap]
      by (auto simp: find_or_create_region_group_def Let_def nth_append split: option.splits if_splits)
  next
    case False
    obtain heap1 h where h: "(case map_of (is_groups S) r of None \<Rightarrow> (?fresh, length heap) | Some h \<Rightarrow> (heap, h)) = (heap1, h)"
      by (cases "case map_of (is_groups S) r of None \<Rightarrow> (?fresh, length heap) | Some h \<Rightarrow> (heap, h)")
    have c: "construct_overlapping_region_group heap1 h S = (heap', g)"
      using assms(1) False h by (auto simp: find_or_create_region_group_def Let_def rguard_eq_Inr split: option.splits)
    have h1: "(\<exists>gs. heap1 = heap @ gs) \<and> heap_group E (ie_tree E r) heap1 h \<and> r \<in> set (rg_regions (heap1 ! h))"
      using h found fresh_group [OF assms(2), of r heap] by (auto simp: nth_append split: option.splits)
    then have "set_inv E heap1 key S" using set_inv_heap [OF assms(3)] by auto
    then have "set_groups_ok E (ie_tree E r) heap1 S" using assms(4) by (simp add: set_inv_def)
    then have g: "(heap' = heap1 \<or> (\<exists>G. heap' = heap1 @ [G])) \<and> heap_group E (ie_tree E r) heap' g \<and> r \<in> set (rg_regions (heap' ! g))"
      using construct_group [OF c assms(2)] h1 by blast
    then have "\<exists>gs. heap' = heap @ gs" using h1 by (metis append_assoc append_Nil2)
    then show ?thesis using g False by blast
  qed
qed

lemma start_inv:
  assumes "cache_inv E s" "env_ok E" "regular_start E [r] field mem alloc policy layout (ca_manager s) = Inr (M, Creating (Some g) rs)"
    "Suc (length (ca_flights s)) < 2 ^ 64"
  shows "cache_inv E \<lparr>ca_manager = M, ca_flights = ca_flights s @
      [\<lparr>fl_region = r, fl_grp = g, fl_regions = rs, fl_field = field, fl_memory = mem, fl_policy = policy\<rparr>]\<rparr>"
proof -
  let ?M = "ca_manager s" and ?key = "region_key E r field mem"
  obtain heap where f: "find_or_create_region_group E (im_heap ?M) r (ie_domain E r) (po_exact policy) (set_at ?key ?M) = Inr (heap, g)"
    and M: "M = put_set ?key (record_pending g (set_at ?key ?M)) (?M\<lparr>im_heap := heap\<rparr>)" and rs: "rs = rg_regions (heap ! g)"
    using assms(3) by (auto simp: regular_start_def find_region_group_def Let_def rbind_eq_Inr split: option.splits)
  have inv: "set_inv E (im_heap ?M) key (set_at key ?M)" for key using assms(1) by (simp add: cache_inv_def)
  note fg = find_group [OF f assms(2) inv]
  have tree: "fmi_tree ?key = ie_tree E r" by (simp add: region_key_def)
  obtain gs where heap: "heap = im_heap ?M @ gs" using fg tree by auto
  have g: "heap_group E (fmi_tree ?key) heap g" using fg tree by simp
  have inv': "set_inv E heap key (set_at key ?M)" for key unfolding heap by (rule set_inv_heap [OF inv])
  have count: "pending_count h (set_at key ?M) = in_flight E key h (ca_flights s)" for key h
    using assms(1) by (simp add: cache_inv_def)
  have "Suc (pending_count g (set_at ?key ?M)) < 2 ^ 64"
    using count in_flight_le [of E ?key g "ca_flights s"] assms(4) by simp
  note rp = record_pending_inv [OF inv' g this]
  have at: "set_at key M = (if key = ?key then record_pending g (set_at ?key ?M) else set_at key ?M)" for key
    unfolding M by simp
  have keys: "distinct (map fst (im_sets M))" "im_heap M = heap"
    using assms(1) unfolding M by (simp_all add: cache_inv_def put_set_def distinct_update)
  let ?fl = "\<lparr>fl_region = r, fl_grp = g, fl_regions = rs, fl_field = field, fl_memory = mem, fl_policy = policy\<rparr>"
  have fl: "flight_ok E heap ?fl" "flight_key E ?fl = ?key" using fg tree rs by (auto simp: flight_ok_def flight_key_def)
  show ?thesis
    unfolding cache_inv_def cache_state.simps keys(2)
  proof (intro conjI allI)
    show "set_inv E heap key (set_at key M)" for key using at rp inv' by simp
    show "\<forall>fl \<in> set (ca_flights s @ [?fl]). flight_ok E heap fl"
      using assms(1) fl(1) flight_ok_append unfolding heap by (auto simp: cache_inv_def)
    show "pending_count h (set_at key M) = in_flight E key h (ca_flights s @ [?fl])" for key h
      using at rp count fl(2) by (auto simp: in_flight_append)
  qed (rule keys(1))
qed

text \<open>The group of a flight in the set where it was found.\<close>

lemma flight_facts:
  assumes "cache_inv E s" "i < length (ca_flights s)" "fl = ca_flights s ! i"
  shows "set_inv E (im_heap (ca_manager s)) (flight_key E fl) (set_at (flight_key E fl) (ca_manager s))"
    "pending_count (fl_grp fl) (set_at (flight_key E fl) (ca_manager s)) > 0"
    "heap_group E (fmi_tree (flight_key E fl)) (im_heap (ca_manager s)) (fl_grp fl)"
    "fl_regions fl = rg_regions (im_heap (ca_manager s) ! fl_grp fl)" "ie_tree E (hd (fl_regions fl)) = ie_tree E (fl_region fl)"
    "po_exact (fl_policy fl) \<longrightarrow> length (rg_regions (im_heap (ca_manager s) ! fl_grp fl)) = 1"
    "fl_region fl \<in> set (rg_regions (im_heap (ca_manager s) ! fl_grp fl))"
proof -
  have fl: "flight_ok E (im_heap (ca_manager s)) fl" using assms by (simp add: cache_inv_def)
  show "set_inv E (im_heap (ca_manager s)) (flight_key E fl) (set_at (flight_key E fl) (ca_manager s))"
    using assms(1) by (simp add: cache_inv_def)
  show "pending_count (fl_grp fl) (set_at (flight_key E fl) (ca_manager s)) > 0"
    using assms in_flight_drop [OF assms(2), of E "flight_key E fl" "fl_grp fl"] by (simp add: cache_inv_def)
  show "heap_group E (fmi_tree (flight_key E fl)) (im_heap (ca_manager s)) (fl_grp fl)"
    using fl by (simp add: flight_ok_def flight_key_def region_key_def)
  show "fl_regions fl = rg_regions (im_heap (ca_manager s) ! fl_grp fl)"
    "po_exact (fl_policy fl) \<longrightarrow> length (rg_regions (im_heap (ca_manager s) ! fl_grp fl)) = 1"
    "fl_region fl \<in> set (rg_regions (im_heap (ca_manager s) ! fl_grp fl))"
    using fl unfolding flight_ok_def by metis+
  have "fl_regions fl \<noteq> []" using fl by (auto simp: flight_ok_def simp del: set_empty)
  then have "hd (fl_regions fl) \<in> set (fl_regions fl)" by simp
  then show "ie_tree E (hd (fl_regions fl)) = ie_tree E (fl_region fl)"
    using fl by (auto simp: flight_ok_def heap_group_def group_ok_def)
qed

lemma instance_key_flight:
  assumes "cache_inv E s" "i < length (ca_flights s)" "fl = ca_flights s ! i" "ie_location E inst = fl_memory fl"
    "ie_instance_tree E inst = ie_tree E (hd (fl_regions fl))"
  shows "instance_key E inst (fl_field fl) = flight_key E fl" "key_in_scope E inst (flight_key E fl)"
  using assms(4,5) flight_facts(5) [OF assms(1-3)]
  by (simp_all add: instance_key_def flight_key_def region_key_def key_in_scope_def)

lemma finish_inv:
  assumes "cache_inv E s" "i < length (ca_flights s)" "fl = ca_flights s ! i" "ie_location E inst = fl_memory fl"
    "ie_instance_tree E inst = ie_tree E (hd (fl_regions fl))"
    "regular_finish E (Some (fl_grp fl)) (fl_field fl) inst (fl_policy fl) (ca_manager s) = Inr M"
  obtains S' where "set_record_instance (im_heap (ca_manager s)) (fl_grp fl) inst (fl_policy fl)
      (set_at (flight_key E fl) (ca_manager s)) = Inr S'"
    "M = put_set (flight_key E fl) S' (ca_manager s)" "cache_inv E \<lparr>ca_manager = M, ca_flights = drop_flight i (ca_flights s)\<rparr>"
proof -
  let ?M = "ca_manager s" and ?key = "flight_key E fl"
  note key = instance_key_flight [OF assms(1-5)]
  obtain S' where S': "set_record_instance (im_heap ?M) (fl_grp fl) inst (fl_policy fl) (set_at ?key ?M) = Inr S'"
    and M: "M = put_set ?key S' ?M"
    using assms(6) key by (auto simp: regular_finish_def im_record_instance_def Let_def rbind_eq_Inr)
  note f = flight_facts [OF assms(1-3)]
  note r = set_record_inv [OF f(1,2,3) key(2) f(6) S']
  have "cache_inv E \<lparr>ca_manager = M, ca_flights = drop_flight i (ca_flights s)\<rparr>"
    unfolding cache_inv_def cache_state.simps M
  proof (intro conjI allI)
    show "distinct (map fst (im_sets (put_set ?key S' ?M)))" using assms(1) by (simp add: cache_inv_def)
    show "set_inv E (im_heap (put_set ?key S' ?M)) key (set_at key (put_set ?key S' ?M))" for key
      using assms(1) r(1) by (simp add: cache_inv_def)
    show "\<forall>fl \<in> set (drop_flight i (ca_flights s)). flight_ok E (im_heap (put_set ?key S' ?M)) fl"
      using assms(1) drop_flight_set by (fastforce simp: cache_inv_def)
    show "pending_count g (set_at key (put_set ?key S' ?M)) = in_flight E key g (drop_flight i (ca_flights s))" for key g
      using assms(1,3) r(2) in_flight_drop [OF assms(2), of E key g] by (auto simp: cache_inv_def)
  qed
  with S' M show ?thesis by (rule that)
qed

lemma fail_inv:
  assumes "cache_inv E s" "i < length (ca_flights s)" "fl = ca_flights s ! i"
  obtains M where "regular_fail E (fl_regions fl) (Some (fl_grp fl)) (fl_field fl) (fl_memory fl) (ca_manager s) = Inr M"
    "cache_inv E \<lparr>ca_manager = M, ca_flights = drop_flight i (ca_flights s)\<rparr>"
proof -
  let ?M = "ca_manager s" and ?key = "flight_key E fl"
  note f = flight_facts [OF assms]
  have key: "region_key E (hd (fl_regions fl)) (fl_field fl) (fl_memory fl) = ?key"
    using f(5) by (simp add: region_key_def flight_key_def)
  obtain S' where S': "remove_pending (fl_grp fl) (set_at ?key ?M) = Inr S'" "set_inv E (im_heap ?M) ?key S'"
    "\<And>h. pending_count h S' = (if h = fl_grp fl then pending_count (fl_grp fl) (set_at ?key ?M) - 1
                              else pending_count h (set_at ?key ?M))"
    using remove_pending_inv [OF f(1,2)] by metis
  obtain S where S: "map_of (im_sets ?M) ?key = Some S" "set_at ?key ?M = S"
    using f(2) by (cases "map_of (im_sets ?M) ?key") (auto simp: set_at_def empty_set_def pending_count_def)
  define M where "M = (if set_is_empty S' then ?M\<lparr>im_sets := AList.delete ?key (im_sets ?M)\<rparr> else put_set ?key S' ?M)"
  have r: "regular_fail E (fl_regions fl) (Some (fl_grp fl)) (fl_field fl) (fl_memory fl) ?M = Inr M"
    using S S'(1) by (simp add: regular_fail_def im_remove_pending_def key Let_def M_def)
  have at: "set_at key M = (if key = ?key then S' else set_at key ?M)" for key
    using empty_set_is_empty [OF S'(2)] by (auto simp: M_def set_at_def put_set_def)
  have heap: "im_heap M = im_heap ?M" "distinct (map fst (im_sets M))"
    using assms(1) by (simp_all add: M_def cache_inv_def distinct_delete)
  have "cache_inv E \<lparr>ca_manager = M, ca_flights = drop_flight i (ca_flights s)\<rparr>"
    unfolding cache_inv_def cache_state.simps heap(1)
  proof (intro conjI allI)
    show "set_inv E (im_heap ?M) key (set_at key M)" for key using at assms(1) S'(2) by (simp add: cache_inv_def)
    show "\<forall>fl \<in> set (drop_flight i (ca_flights s)). flight_ok E (im_heap ?M) fl"
      using assms(1) drop_flight_set by (fastforce simp: cache_inv_def)
    show "pending_count g (set_at key M) = in_flight E key g (drop_flight i (ca_flights s))" for key g
      using assms(1,3) at S'(3) in_flight_drop [OF assms(2), of E key g] by (auto simp: cache_inv_def)
  qed (rule heap(2))
  with r show ?thesis by (rule that)
qed

text \<open>Collecting an instance.\<close>

lemma erase_sets:
  assumes "distinct (map fst xs)"
  shows "map_of (concat (map (\<lambda>(k, S). if P k then (let S' = f S in if e S' then [] else [(k, S')]) else [(k, S)]) xs)) k =
      (case map_of xs k of None \<Rightarrow> None | Some S \<Rightarrow> if P k then if e (f S) then None else Some (f S) else Some S)"
    "distinct (map fst (concat (map (\<lambda>(k, S). if P k then (let S' = f S in if e S' then [] else [(k, S')]) else [(k, S)]) xs)))"
proof -
  let ?h = "\<lambda>(k, S). if P k then (let S' = f S in if e S' then [] else [(k, S')]) else [(k, S)]"
  have sub: "fst ` set (concat (map ?h ys)) \<subseteq> fst ` set ys" for ys
    by (induction ys) (auto simp: Let_def simp del: set_concat set_map list.set_map split: if_splits)
  have none: "k \<notin> fst ` set ys \<Longrightarrow> map_of (concat (map ?h ys)) k = None" for ys k
    using sub [of ys] unfolding map_of_eq_None_iff by blast
  show "map_of (concat (map ?h xs)) k =
      (case map_of xs k of None \<Rightarrow> None | Some S \<Rightarrow> if P k then if e (f S) then None else Some (f S) else Some S)"
    using assms
  proof (induction xs)
    case (Cons x xs)
    obtain a S where x: "x = (a, S)" by (cases x)
    have "a \<notin> fst ` set xs" using Cons.prems x by simp
    then show ?case using Cons none [of k xs] x none [of a xs] by (auto simp: Let_def map_of_eq_None_iff split: option.splits)
  qed simp
  show "distinct (map fst (concat (map ?h xs)))"
    using assms
  proof (induction xs)
    case (Cons x xs)
    obtain a S where x: "x = (a, S)" by (cases x)
    have "a \<notin> fst ` set xs" using Cons.prems x by simp
    then have "a \<notin> fst ` set (concat (map ?h xs))" using sub [of xs] by blast
    then show ?case using Cons x by (simp add: Let_def del: set_concat)
  qed simp
qed

lemma erase_at:
  assumes "cache_inv E s"
  shows "set_at key (fst (im_erase E inst (ca_manager s))) =
      (if key_in_scope E inst key then fst (set_erase (im_heap (ca_manager s)) inst (set_at key (ca_manager s)))
       else set_at key (ca_manager s))"
    "im_heap (fst (im_erase E inst (ca_manager s))) = im_heap (ca_manager s)"
    "distinct (map fst (im_sets (fst (im_erase E inst (ca_manager s)))))"
proof -
  let ?M = "ca_manager s"
  have d: "distinct (map fst (im_sets ?M))" using assms by (simp add: cache_inv_def)
  note e = erase_sets [OF d, where P = "key_in_scope E inst" and e = set_is_empty and f = "\<lambda>S. fst (set_erase (im_heap ?M) inst S)"]
  show "im_heap (fst (im_erase E inst ?M)) = im_heap ?M" "distinct (map fst (im_sets (fst (im_erase E inst ?M))))"
    using e(2) by (simp_all add: im_erase_def Let_def del: map_concat)
  have inv: "set_inv E (im_heap ?M) key (set_at key ?M)" using assms by (simp add: cache_inv_def)
  have none: "fst (set_erase (im_heap ?M) inst empty_set) = empty_set" by (simp add: set_erase_def empty_set_def)
  have m: "map_of (im_sets (fst (im_erase E inst ?M))) key =
      (case map_of (im_sets ?M) key of None \<Rightarrow> None
       | Some S \<Rightarrow> if key_in_scope E inst key
           then if set_is_empty (fst (set_erase (im_heap ?M) inst S)) then None else Some (fst (set_erase (im_heap ?M) inst S))
           else Some S)"
    using e(1) [of key] by (simp add: im_erase_def Let_def)
  show "set_at key (fst (im_erase E inst ?M)) =
      (if key_in_scope E inst key then fst (set_erase (im_heap ?M) inst (set_at key ?M)) else set_at key ?M)"
  proof (cases "map_of (im_sets ?M) key")
    case None
    then show ?thesis using m none by (simp add: set_at_def)
  next
    case (Some S)
    then have "set_at key ?M = S" by (simp add: set_at_def)
    then show ?thesis
      using m Some empty_set_is_empty [OF set_erase_inv(1) [OF inv, of inst]] by (auto simp: set_at_def)
  qed
qed

lemma collect_inv:
  assumes "cache_inv E s"
  shows "cache_inv E (s\<lparr>ca_manager := fst (im_erase E inst (ca_manager s))\<rparr>)"
proof -
  let ?M = "ca_manager s" and ?M' = "fst (im_erase E inst (ca_manager s))"
  have inv: "set_inv E (im_heap ?M) key (set_at key ?M)" for key using assms by (simp add: cache_inv_def)
  have "set_inv E (im_heap ?M) key (set_at key ?M')" for key
    using set_erase_inv(1) [OF inv] inv by (simp add: erase_at(1) [OF assms])
  moreover have "pending_count g (set_at key ?M') = pending_count g (set_at key ?M)" for key g
    using set_erase_inv(2) [OF inv] by (simp add: erase_at(1) [OF assms])
  ultimately show ?thesis
    using assms erase_at(2,3) [OF assms] by (simp add: cache_inv_def)
qed

lemma step_inv: "cache_step E s t \<Longrightarrow> env_ok E \<Longrightarrow> cache_inv E s \<Longrightarrow> cache_inv E t"
proof (induction rule: cache_step.induct)
  case start
  then show ?case by (intro start_inv)
next
  case (finish i s fl inst M)
  then show ?case by (metis finish_inv)
next
  case (fail i s fl M)
  then show ?case by (metis fail_inv sum.inject(2))
qed (rule collect_inv)

lemma cache_run_inv: "cache_run E s \<Longrightarrow> env_ok E \<Longrightarrow> cache_inv E s"
proof (induction rule: cache_run.induct)
  case init
  show ?case by (simp add: cache_inv_def initial_cache_def set_at_def empty_set_def [symmetric] in_flight_def pending_count_def)
      (simp add: empty_set_def)
qed (rule step_inv)

lemma inv_sanity: "set_inv E heap key S \<Longrightarrow> sanity_check heap S"
proof -
  assume inv: "set_inv E heap key S"
  have d: "distinct (map fst (is_instances S))" "distinct (map fst (is_groups S))" using inv by (simp_all add: set_inv_def)
  have "r \<in> set (rg_regions (heap ! g)) \<and> g \<in> set (map fst (is_instances S))" if "(r, g) \<in> set (is_groups S)" for r g
    using that d(2) set_invD(1,2) [OF inv] unfolding set_fst_map_of by (metis map_of_eq_Some_iff option.discI)
  moreover have "g \<in> set (map snd (is_groups S))" if "(g, spec) \<in> set (is_instances S)" for g spec
    using that d set_invD(3) [OF inv] by (metis set_snd_map_of map_of_eq_Some_iff)
  ultimately show ?thesis unfolding sanity_check_def list_all_iff by blast
qed

section \<open>Properties\<close>

text \<open>C14: A cached instance fits. However mappings, failures and collections interleave, a query of the cache never fails a
  check, and an instance that it returns is in the memory and of the region tree that were asked for, has the layout, and
  was recorded for a group of regions whose box covers the whole domain of the region; if the query asks for an exact
  instance, the region is the only one of its group and the box is its domain.\<close>

theorem cached_instance_fits:
  assumes "cache_run E s" "env_ok E" "po_allocation policy \<noteq> MUST_ALLOC"
  shows "\<exists>res. im_find_instance E region field mem policy layout (ca_manager s) = Inr res \<and>
    (case res of None \<Rightarrow> True | Some inst \<Rightarrow>
       ie_location E inst = mem \<and> ie_instance_tree E inst = ie_tree E region \<and> ie_entails E inst layout \<and>
       (\<exists>g spec. map_of (is_instances (set_at (region_key E region field mem) (ca_manager s))) g = Some spec \<and>
          sp_instance spec = inst \<and> box_le (ie_domain E region) (rg_box (im_heap (ca_manager s) ! g)) \<and>
          (po_exact policy \<longrightarrow> rg_regions (im_heap (ca_manager s) ! g) = [region] \<and>
             rg_box (im_heap (ca_manager s) ! g) = ie_domain E region)))"
proof (cases "map_of (im_sets (ca_manager s)) (region_key E region field mem)")
  case None
  then show ?thesis using assms(3) by (simp add: im_find_instance_def)
next
  case (Some S)
  let ?key = "region_key E region field mem"
  have S: "set_at ?key (ca_manager s) = S" using Some by (simp add: set_at_def)
  have inv: "set_inv E (im_heap (ca_manager s)) ?key S"
    using cache_run_inv [OF assms(1,2)] S by (auto simp: cache_inv_def)
  obtain res where res: "set_find_instance E (im_heap (ca_manager s)) region policy layout S = Inr res"
    "case res of None \<Rightarrow> True | Some inst \<Rightarrow> fits E (im_heap (ca_manager s)) region policy layout S inst"
    using set_find_fits [OF inv assms(2)] by blast
  have "ie_location E inst = mem \<and> ie_instance_tree E inst = ie_tree E region"
    if "map_of (is_instances S) g = Some spec" "sp_instance spec = inst" for g spec inst
    using set_invD(4) [OF inv that(1)] that(2) by (auto simp: key_in_scope_def region_key_def)
  then show ?thesis
    using res assms(3) Some S by (auto simp: im_find_instance_def fits_def split: option.splits)
qed

text \<open>C15: A mapping in flight can fail, and what its recording can raise. In every run, the pending entry of a mapping in
  flight is there, so \<open>regular_fail\<close> succeeds. When Legion has made its instance, recording it either succeeds or throws
  \<open>std::out_of_range\<close> (no assertion fails and no iterator past the end is used), and it succeeds if the table of its
  set still has every region of the groups that lose a region to the group of the mapping. The set passes the check of
  debug builds.\<close>

theorem flights_end:
  assumes "cache_run E s" "env_ok E" "i < length (ca_flights s)" "fl = ca_flights s ! i" "ie_location E inst = fl_memory fl"
    "ie_instance_tree E inst = ie_tree E (hd (fl_regions fl))"
  shows "(\<exists>M. regular_fail E (fl_regions fl) (Some (fl_grp fl)) (fl_field fl) (fl_memory fl) (ca_manager s) = Inr M) \<and>
    regular_finish E (Some (fl_grp fl)) (fl_field fl) inst (fl_policy fl) (ca_manager s) \<in>
      insert (Inl OutOfRange) (range Inr) \<and>
    (groups_complete (im_heap (ca_manager s)) (fl_grp fl) (set_at (flight_key E fl) (ca_manager s)) \<longrightarrow>
       (\<exists>M. regular_finish E (Some (fl_grp fl)) (fl_field fl) inst (fl_policy fl) (ca_manager s) = Inr M)) \<and>
    sanity_check (im_heap (ca_manager s)) (set_at (flight_key E fl) (ca_manager s))"
proof -
  have inv: "cache_inv E s" by (rule cache_run_inv [OF assms(1,2)])
  let ?S = "set_at (flight_key E fl) (ca_manager s)"
  note f = flight_facts [OF inv assms(3,4)]
  have "sanity_check (im_heap (ca_manager s)) ?S" by (rule inv_sanity [OF f(1)])
  moreover have "e = OutOfRange"
    if "regular_finish E (Some (fl_grp fl)) (fl_field fl) inst (fl_policy fl) (ca_manager s) = Inl e" for e
    using that set_record_raises [OF f(1,2)] instance_key_flight(1) [OF inv assms(3-6)]
    by (auto simp: regular_finish_def im_record_instance_def Let_def rbind_def split: sum.splits)
  moreover have "\<exists>M. regular_finish E (Some (fl_grp fl)) (fl_field fl) inst (fl_policy fl) (ca_manager s) = Inr M"
    if "groups_complete (im_heap (ca_manager s)) (fl_grp fl) ?S"
    using set_record_succeeds [OF f(1,2) that, of inst "fl_policy fl"] instance_key_flight(1) [OF inv assms(3-6)]
    by (auto simp: regular_finish_def im_record_instance_def Let_def)
  ultimately show ?thesis
    using fail_inv [OF inv assms(3,4)] by (metis insertCI old.sum.exhaust rangeI)
qed


text \<open>C17: A collected instance is never returned. After Legion has collected an instance, no query of the cache returns it,
  in whatever state the collection found the cache.\<close>

theorem collected_not_found:
  assumes "cache_run E s" "env_ok E" "fst (handle_instance_collection E inst (ca_manager s, R)) = M"
  shows "im_find_instance E region field mem policy layout M \<noteq> Inr (Some inst)"
proof
  assume found: "im_find_instance E region field mem policy layout M = Inr (Some inst)"
  have inv: "cache_inv E s" by (rule cache_run_inv [OF assms(1,2)])
  have M: "M = fst (im_erase E inst (ca_manager s))"
    using assms(3) by (auto simp: handle_instance_collection_def split: prod.splits if_splits)
  let ?key = "region_key E region field mem"
  have inv': "set_inv E (im_heap M) ?key (set_at ?key M)"
    using collect_inv [OF inv] M by (simp add: cache_inv_def)
  obtain S where S: "map_of (im_sets M) ?key = Some S" "set_find_instance E (im_heap M) region policy layout S = Inr (Some inst)"
    using found by (auto simp: im_find_instance_def rguard_eq_Inr split: option.splits)
  then have at: "set_at ?key M = S" by (simp add: set_at_def)
  then obtain g spec where g: "map_of (is_instances S) g = Some spec" "sp_instance spec = inst"
    using set_find_fits [OF inv' assms(2), of region policy layout] S(2) by (auto simp: fits_def)
  then have "key_in_scope E inst ?key" using set_invD(4) [OF inv'] at by blast
  then have "S = fst (set_erase (im_heap (ca_manager s)) inst (set_at ?key (ca_manager s)))"
    using at erase_at(1) [OF inv] M by simp
  moreover have "set_inv E (im_heap (ca_manager s)) ?key (set_at ?key (ca_manager s))" using inv by (simp add: cache_inv_def)
  ultimately show False using g set_erase_inv(3) by blast
qed

section \<open>A run\<close>

text \<open>Two regions of one dimension that overlap: the points 0 to 9 and 2 to 11.\<close>

definition ex_inst_env :: inst_env where
  "ex_inst_env = \<lparr>ie_tree = (\<lambda>_. 0),
     ie_domain = (\<lambda>r. if r = 1 then \<lparr>dom_lo = [0], dom_hi = [9]\<rparr> else \<lparr>dom_lo = [2], dom_hi = [11]\<rparr>),
     ie_rects = (\<lambda>r. [if r = 1 then \<lparr>dom_lo = [0], dom_hi = [9]\<rparr> else \<lparr>dom_lo = [2], dom_hi = [11]\<rparr>]),
     ie_location = (\<lambda>_. 5), ie_instance_tree = (\<lambda>_. 0), ie_size = (\<lambda>_. 80), ie_entails = (\<lambda>_ _. True), ie_max_dim = 4\<rparr>"

lemma ex_inst_env_ok: "env_ok ex_inst_env"
  unfolding env_ok_def
  by (intro conjI exI [of _ "\<lambda>_. 1"]) (auto simp: ex_inst_env_def box_shape_def domain_wf_def get_dim_def)

definition ex_key :: field_mem_info where
  "ex_key = \<lparr>fmi_tree = 0, fmi_field = 0, fmi_memory = 5\<rparr>"

definition ex_box :: "int \<Rightarrow> int \<Rightarrow> domain" where
  "ex_box l h = \<lparr>dom_lo = [l], dom_hi = [h]\<rparr>"

definition ex_spec :: "bool \<Rightarrow> nat \<Rightarrow> instance_spec" where
  "ex_spec exact inst = \<lparr>sp_instance = inst, sp_policy = default_policy\<lparr>po_exact := exact\<rparr>\<rparr>"

definition ex_manager :: "region_group list \<Rightarrow> (nat \<times> instance_spec) list \<Rightarrow> (nat \<times> u64) list \<Rightarrow> (nat \<times> nat) list \<Rightarrow> instance_manager" where
  "ex_manager heap instances pending groups =
     \<lparr>im_heap = heap, im_sets = [(ex_key, \<lparr>is_instances = instances, is_pending = pending, is_groups = groups\<rparr>)]\<rparr>"

definition ex_heap :: "region_group list" where
  "ex_heap = [\<lparr>rg_regions = [1], rg_box = ex_box 0 9\<rparr>, \<lparr>rg_regions = [2], rg_box = ex_box 2 11\<rparr>,
     \<lparr>rg_regions = [2, 1], rg_box = ex_box 0 11\<rparr>, \<lparr>rg_regions = [1], rg_box = ex_box 0 9\<rparr>, \<lparr>rg_regions = [2], rg_box = ex_box 2 11\<rparr>]"

definition ex_flight :: "nat \<Rightarrow> nat \<Rightarrow> bool \<Rightarrow> flight" where
  "ex_flight r g exact = \<lparr>fl_region = r, fl_grp = g, fl_regions = rg_regions (ex_heap ! g), fl_field = 0, fl_memory = 5,
     fl_policy = default_policy\<lparr>po_exact := exact\<rparr>\<rparr>"

abbreviation ex_start :: "nat \<Rightarrow> bool \<Rightarrow> instance_manager \<Rightarrow> (instance_manager \<times> started) result" where
  "ex_start r exact \<equiv> regular_start ex_inst_env [r] 0 5 MAY_ALLOC (default_policy\<lparr>po_exact := exact\<rparr>) empty_layout"

abbreviation ex_finish :: "nat \<Rightarrow> bool \<Rightarrow> nat \<Rightarrow> instance_manager \<Rightarrow> instance_manager result" where
  "ex_finish g exact inst \<equiv> regular_finish ex_inst_env (Some g) 0 inst (default_policy\<lparr>po_exact := exact\<rparr>)"

lemma ex_steps:
  "ex_start 1 False \<lparr>im_heap = [], im_sets = []\<rparr> = Inr (ex_manager (take 1 ex_heap) [] [(0, 1)] [], Creating (Some 0) [1])"
  "ex_finish 0 False 10 (ex_manager (take 1 ex_heap) [] [(0, 1)] []) = Inr (ex_manager (take 1 ex_heap) [(0, ex_spec False 10)] [] [(1, 0)])"
  "ex_start 2 False (ex_manager (take 1 ex_heap) [(0, ex_spec False 10)] [] [(1, 0)]) =
     Inr (ex_manager (take 3 ex_heap) [(0, ex_spec False 10)] [(2, 1)] [(1, 0)], Creating (Some 2) [2, 1])"
  "ex_finish 2 False 11 (ex_manager (take 3 ex_heap) [(0, ex_spec False 10)] [(2, 1)] [(1, 0)]) =
     Inr (ex_manager (take 3 ex_heap) [(2, ex_spec False 11)] [] [(1, 2), (2, 2)])"
  "ex_start 1 True (ex_manager (take 3 ex_heap) [(2, ex_spec False 11)] [] [(1, 2), (2, 2)]) =
     Inr (ex_manager (take 4 ex_heap) [(2, ex_spec False 11)] [(3, 1)] [(1, 2), (2, 2)], Creating (Some 3) [1])"
  "ex_finish 3 True 12 (ex_manager (take 4 ex_heap) [(2, ex_spec False 11)] [(3, 1)] [(1, 2), (2, 2)]) =
     Inr (ex_manager (take 4 ex_heap) [(2, ex_spec False 11), (3, ex_spec True 12)] [] [(1, 3), (2, 2)])"
  "fst (im_erase ex_inst_env 12 (ex_manager (take 4 ex_heap) [(2, ex_spec False 11), (3, ex_spec True 12)] [] [(1, 3), (2, 2)])) =
     ex_manager (take 4 ex_heap) [(2, ex_spec False 11)] [] [(2, 2)]"
  "ex_start 2 True (ex_manager (take 4 ex_heap) [(2, ex_spec False 11)] [] [(2, 2)]) =
     Inr (ex_manager ex_heap [(2, ex_spec False 11)] [(4, 1)] [(2, 2)], Creating (Some 4) [2])"
  "ex_finish 4 True 13 (ex_manager ex_heap [(2, ex_spec False 11)] [(4, 1)] [(2, 2)]) = Inl OutOfRange"
  by code_simp+

lemma ex_start_run:
  assumes "cache_run ex_inst_env \<lparr>ca_manager = M, ca_flights = []\<rparr>" "ex_start r exact M = Inr (M', Creating (Some g) rs)"
    "rs = rg_regions (ex_heap ! g)"
  shows "cache_run ex_inst_env \<lparr>ca_manager = M', ca_flights = [ex_flight r g exact]\<rparr>"
  using cache_run.more [OF assms(1) cache_step.start] assms(2,3) by (fastforce simp: ex_flight_def)

lemma ex_finish_run:
  assumes "cache_run ex_inst_env \<lparr>ca_manager = M, ca_flights = [ex_flight r g exact]\<rparr>" "ex_finish g exact inst M = Inr M'"
  shows "cache_run ex_inst_env \<lparr>ca_manager = M', ca_flights = []\<rparr>"
  using cache_run.more [OF assms(1) cache_step.finish [where i = 0 and inst = inst and M = M']] assms(2)
  by (simp add: ex_flight_def drop_flight_def ex_inst_env_def)

lemma ex_runs:
  "cache_run ex_inst_env \<lparr>ca_manager = ex_manager (take 1 ex_heap) [] [(0, 1)] [], ca_flights = [ex_flight 1 0 False]\<rparr>"
  "cache_run ex_inst_env \<lparr>ca_manager = ex_manager (take 1 ex_heap) [(0, ex_spec False 10)] [] [(1, 0)], ca_flights = []\<rparr>"
  "cache_run ex_inst_env \<lparr>ca_manager = ex_manager ex_heap [(2, ex_spec False 11)] [(4, 1)] [(2, 2)], ca_flights = [ex_flight 2 4 True]\<rparr>"
proof -
  have 0: "cache_run ex_inst_env \<lparr>ca_manager = \<lparr>im_heap = [], im_sets = []\<rparr>, ca_flights = []\<rparr>"
    using cache_run.init [of ex_inst_env] by (simp add: initial_cache_def)
  show 1: "cache_run ex_inst_env \<lparr>ca_manager = ex_manager (take 1 ex_heap) [] [(0, 1)] [], ca_flights = [ex_flight 1 0 False]\<rparr>"
    by (rule ex_start_run [OF 0 ex_steps(1)]) (simp add: ex_heap_def)
  show 2: "cache_run ex_inst_env \<lparr>ca_manager = ex_manager (take 1 ex_heap) [(0, ex_spec False 10)] [] [(1, 0)], ca_flights = []\<rparr>"
    by (rule ex_finish_run [OF 1 ex_steps(2)])
  have 3: "cache_run ex_inst_env
      \<lparr>ca_manager = ex_manager (take 3 ex_heap) [(0, ex_spec False 10)] [(2, 1)] [(1, 0)], ca_flights = [ex_flight 2 2 False]\<rparr>"
    by (rule ex_start_run [OF 2 ex_steps(3)]) (simp add: ex_heap_def)
  note 4 = ex_finish_run [OF 3 ex_steps(4)]
  have 5: "cache_run ex_inst_env
      \<lparr>ca_manager = ex_manager (take 4 ex_heap) [(2, ex_spec False 11)] [(3, 1)] [(1, 2), (2, 2)], ca_flights = [ex_flight 1 3 True]\<rparr>"
    by (rule ex_start_run [OF 4 ex_steps(5)]) (simp add: ex_heap_def)
  note 6 = ex_finish_run [OF 5 ex_steps(6)]
  have 7: "cache_run ex_inst_env \<lparr>ca_manager = ex_manager (take 4 ex_heap) [(2, ex_spec False 11)] [] [(2, 2)], ca_flights = []\<rparr>"
    using cache_run.more [OF 6 cache_step.collect [of _ _ 12]] by (simp only: cache_state.simps ex_steps(7))
  show "cache_run ex_inst_env \<lparr>ca_manager = ex_manager ex_heap [(2, ex_spec False 11)] [(4, 1)] [(2, 2)], ca_flights = [ex_flight 2 4 True]\<rparr>"
    by (rule ex_start_run [OF 7 ex_steps(8)]) (simp add: ex_heap_def)
qed

lemma ex_flight_fields: "fl_field (ex_flight r g exact) = 0" "fl_memory (ex_flight r g exact) = 5"
  "fl_grp (ex_flight r g exact) = g" "fl_policy (ex_flight r g exact) = default_policy\<lparr>po_exact := exact\<rparr>"
  "fl_regions (ex_flight r g exact) = rg_regions (ex_heap ! g)"
  by (simp_all add: ex_flight_def)

lemma ex_inst_env_fields: "ie_location ex_inst_env i = 5" "ie_instance_tree ex_inst_env i = 0" "ie_tree ex_inst_env r = 0"
  "ie_entails ex_inst_env i l"
  by (simp_all add: ex_inst_env_def)

text \<open>The exception occurs. Two overlapping regions share an instance; one of them then gets an exact instance, and Legion
  collects it, which drops the region from the table although the shared group still lists it. The next exact instance for
  the other region finds no group for the dropped region, and \<open>groups_.at\<close> throws.\<close>

lemma collected_exact_instance_raises:
  "\<exists>s fl inst. cache_run ex_inst_env s \<and> fl \<in> set (ca_flights s) \<and> ie_location ex_inst_env inst = fl_memory fl \<and>
     regular_finish ex_inst_env (Some (fl_grp fl)) (fl_field fl) inst (fl_policy fl) (ca_manager s) = Inl OutOfRange"
  using ex_runs(3) ex_steps(9)
  by (intro exI [of _ "\<lparr>ca_manager = ex_manager ex_heap [(2, ex_spec False 11)] [(4, 1)] [(2, 2)], ca_flights = [ex_flight 2 4 True]\<rparr>"]
      exI [of _ "ex_flight 2 4 True"] exI [of _ 13]) (simp add: ex_flight_fields ex_inst_env_fields)

text \<open>A redundant instance gets into the cache, where the next query finds it.\<close>

lemma redundant_instance_cached:
  "\<exists>M. map_regular_instance ex_inst_env (\<lambda>_ _ _. Some (10, True)) [] (default_policy\<lparr>po_redundant := True\<rparr>) 0 5 False [1]
       empty_layout \<lparr>im_heap = [], im_sets = []\<rparr> = Inr (M, Some (10, False)) \<and>
     im_find_instance ex_inst_env 1 0 5 default_policy empty_layout M = Inr (Some 10)"
proof -
  let ?M = "\<lparr>im_heap = [\<lparr>rg_regions = [1], rg_box = ex_box 0 9\<rparr>], im_sets = [(ex_key,
      \<lparr>is_instances = [(0, \<lparr>sp_instance = 10, sp_policy = default_policy\<lparr>po_redundant := True\<rparr>\<rparr>)], is_pending = [],
        is_groups = [(1, 0)]\<rparr>)]\<rparr>"
  have "map_regular_instance ex_inst_env (\<lambda>_ _ _. Some (10, True)) [] (default_policy\<lparr>po_redundant := True\<rparr>) 0 5 False [1]
      empty_layout \<lparr>im_heap = [], im_sets = []\<rparr> = Inr (?M, Some (10, False))"
    by code_simp
  moreover have "im_find_instance ex_inst_env 1 0 5 default_policy empty_layout ?M = Inr (Some 10)" by code_simp
  ultimately show ?thesis by blast
qed

section \<open>Witnesses\<close>

theorem cached_instance_fits_witness:
  "im_find_instance ex_inst_env 1 0 5 default_policy empty_layout (ex_manager (take 1 ex_heap) [(0, ex_spec False 10)] [] [(1, 0)]) =
     Inr (Some 10) \<and> ie_location ex_inst_env 10 = 5 \<and> ie_instance_tree ex_inst_env 10 = ie_tree ex_inst_env 1"
proof -
  have f: "im_find_instance ex_inst_env 1 0 5 default_policy empty_layout (ex_manager (take 1 ex_heap) [(0, ex_spec False 10)] [] [(1, 0)]) =
     Inr (Some 10)" by code_simp
  then show ?thesis
    using cached_instance_fits [OF ex_runs(2) ex_inst_env_ok, where policy = default_policy and region = 1 and field = 0 and mem = 5
      and layout = empty_layout] by (auto simp: default_policy_def)
qed

theorem flights_end_witness:
  "(\<exists>M. regular_fail ex_inst_env [1] (Some 0) 0 5 (ex_manager (take 1 ex_heap) [] [(0, 1)] []) = Inr M) \<and>
   (\<exists>M. regular_finish ex_inst_env (Some 0) 0 10 (default_policy\<lparr>po_exact := False\<rparr>) (ex_manager (take 1 ex_heap) [] [(0, 1)] []) = Inr M)"
proof -
  have "groups_complete (take 1 ex_heap) 0 (set_at (flight_key ex_inst_env (ex_flight 1 0 False)) (ex_manager (take 1 ex_heap) [] [(0, 1)] []))"
    by (simp add: groups_complete_def set_at_def ex_manager_def ex_flight_def flight_key_def region_key_def ex_inst_env_def ex_key_def)
  then show ?thesis
    using flights_end [OF ex_runs(1) ex_inst_env_ok, of 0 "ex_flight 1 0 False" 10]
    by (simp add: ex_flight_fields ex_inst_env_fields ex_heap_def ex_manager_def)
qed


theorem collected_not_found_witness:
  "im_find_instance ex_inst_env 1 0 5 default_policy empty_layout
     (fst (handle_instance_collection ex_inst_env 10 (ex_manager (take 1 ex_heap) [(0, ex_spec False 10)] [] [(1, 0)], []))) \<noteq>
     Inr (Some 10)"
  using collected_not_found [OF ex_runs(2) ex_inst_env_ok refl, where inst = 10 and R = "[]" and region = 1 and field = 0 and mem = 5
      and policy = default_policy and layout = empty_layout] by simp

end
