(* ===== verification/MapperSlice.thy ===== *)
theory MapperSlice
  imports Shard
begin

text \<open>
  Which processor runs a point task: \<open>BaseMapper::slice_task\<close> (mapping/detail/base_mapper). Legion first asks the sharding
  functor for the node of every point, then asks the mapper of that node to slice the points it got. The order in which
  Legion enumerates the points of a domain is the order of the list of points; a slice is the point and its processor.
\<close>

definition slice_points ::
  "legion_ops \<Rightarrow> projection_function \<Rightarrow> u32 \<Rightarrow> processor_span \<Rightarrow> domain \<Rightarrow> coord list list \<Rightarrow> (coord list \<times> nat) list result" where
  "slice_points L key start proc_range space points =
     rbind (project_point L key (dom_lo space)) (\<lambda>lo. rbind (project_point L key (dom_hi space)) (\<lambda>hi.
       rbind (linearize lo hi hi) (\<lambda>lst.
         let total = lst + 1
         in rmapM (\<lambda>pt. rbind (project_point L key pt) (\<lambda>p. rbind (linearize lo hi p) (\<lambda>i.
              rguard (total \<noteq> 0) DivZero
                (let idx = i * ucast (ps_total proc_range) div total + ucast start
                 in rbind (ps_at proc_range (ucast idx)) (\<lambda>proc. Inr (pt, proc)))))) points)))"

definition slice_task ::
  "legion_ops \<Rightarrow> projection_function \<Rightarrow> bool \<Rightarrow> global_machine \<Rightarrow> local_machine \<Rightarrow> machine \<Rightarrow> domain \<Rightarrow> coord list list \<Rightarrow>
    (coord list \<times> nat) list result" where
  "slice_task L key single_controller gm lm m space points =
     (let target = m_preferred m; restricted = m_only m [target]
      in rbind (if single_controller then gm_slice gm restricted else lm_slice lm restricted) (\<lambda>proc_range.
           slice_points L key (pr_low (processor_range_of m target)) proc_range space points))"

lemma m_only_preferred:
  assumes "m_ranges m t = Some r"
  shows "m_preferred (m_only m [t]) = t" "m_ranges (m_only m [t]) t = Some r"
  using assms by (cases t; simp add: m_only_def processor_range_of_def map_entries_def task_targets_def)+

lemma slice_span_total:
  assumes "slice_span procs my fallback m = Inr s" "m_ranges m (m_preferred m) = Some r"
  shows "s = fallback \<or> ps_total s = pr_count r"
  using assms by (auto simp: slice_span_def Let_def rbind_eq_Inr rguard_eq_Inr split: if_splits)

lemma ps_at_default: "ps_at ps_default g = Inl CheckFailed"
  by (simp add: ps_at_def ps_default_def)

text \<open>The global index of the processor that the functor and the mapper both compute.\<close>

definition global_processor :: "processor_range \<Rightarrow> coord list \<Rightarrow> coord list \<Rightarrow> coord list \<Rightarrow> int" where
  "global_processor r lo hi q = uint (pr_low r) + lin lo hi q * uint (pr_count r) div box_volume lo hi"

lemma slice_point:
  assumes "project_point L f (dom_lo d) = Inr lo" "project_point L f (dom_hi d) = Inr hi"
    "project_point L f p = Inr q" "in_box lo hi q" "lo \<noteq> []"
    "pr_wf r" "\<not> pr_empty r" "box_volume lo hi * uint (pr_count r) < 2 ^ 63"
    "uint (pr_high r) \<le> uint tot * uint (pr_per_node r)"
    "legate_shard L f r p d tot = Inr node"
  shows "global_processor r lo hi q \<in> procs_of r" "uint node = global_processor r lo hi q div uint (pr_per_node r)"
    "\<exists>i. linearize lo hi q = Inr i \<and> (\<exists>l. linearize lo hi hi = Inr l \<and> l + 1 \<noteq> 0 \<and>
      uint (ucast (i * ucast (pr_count r) div (l + 1) + ucast (pr_low r) :: u64) :: u32) = global_processor r lo hi q)"
proof -
  let ?V = "box_volume lo hi"
  show a: "global_processor r lo hi q \<in> procs_of r" "uint node = global_processor r lo hi q div uint (pr_per_node r)"
    using legate_shard_correct [OF assms(1-9)] assms(10) by (auto simp: global_processor_def Let_def)
  have ne: "q \<noteq> []" "length hi = length lo" using in_box_length [OF assms(4)] assms(5) by auto
  have V: "0 < ?V" using box_volume_pos [OF assms(4)] .
  have "?V * 1 \<le> ?V * uint (pr_count r)" using V pr_count_pos [OF assms(7)] by (intro mult_left_mono) simp_all
  then have V63: "?V < 2 ^ 63" using assms(8) by linarith
  obtain i where i: "linearize lo hi q = Inr i" "uint i = lin lo hi q"
    using linearize_roundtrip_aux [OF assms(4) ne(1) V63] by blast
  have hin: "in_box lo hi hi" "hi \<noteq> []"
    using in_box_nonempty [OF assms(4)] assms(5) ne(2) by (auto simp: box_nonempty_def in_box_iff list_all2_conv_all_nth)
  obtain l where l: "linearize lo hi hi = Inr l" "uint l = lin lo hi hi"
    using linearize_roundtrip_aux [OF hin V63] by blast
  have tc: "uint (l + 1) = ?V" using l(2) lin_hi [OF ne(2)] V63 V by (subst uint_add_u64) simp_all
  then have nz: "l + 1 \<noteq> 0" using V by auto
  have "uint i < ?V" using linearize_fn_bounds [OF assms(4)] i(2) by simp
  from shard_processor(1) [OF assms(7) uint_ge_0 this tc assms(8)]
  have g: "uint (i * ucast (pr_count r) div (l + 1) + ucast (pr_low r) :: u64) = global_processor r lo hi q"
    unfolding global_processor_def i(2) .
  have "0 \<le> global_processor r lo hi q" "global_processor r lo hi q < 2 ^ 32"
    using a(1) uint_lt2p [of "pr_high r"] order_trans [OF uint_ge_0 [of "pr_low r"]] unfolding procs_of_def by auto
  then have "uint (ucast (i * ucast (pr_count r) div (l + 1) + ucast (pr_low r) :: u64) :: u32) = global_processor r lo hi q"
    using g by (simp add: unsigned_ucast_eq take_bit_int_eq_self)
  then show "\<exists>i. linearize lo hi q = Inr i \<and> (\<exists>l. linearize lo hi hi = Inr l \<and> l + 1 \<noteq> 0 \<and>
      uint (ucast (i * ucast (pr_count r) div (l + 1) + ucast (pr_low r) :: u64) :: u32) = global_processor r lo hi q)"
    using i(1) l(1) nz by blast
qed

lemma local_range:
  assumes "m_ranges m (m_preferred m) = Some r" "pr_wf r"
    "uint (pr_per_node r) = int (length (lm_procs lm (m_preferred m)))"
    "uint (pr_per_node r) * (uint (lm_node_id lm) + 1) < 2 ^ 32"
  obtains s where "lm_slice lm (m_only m [m_preferred m]) = Inr s"
    "\<And>g. uint g \<in> procs_of r \<Longrightarrow> uint (pr_per_node r) * uint (lm_node_id lm) \<le> uint g \<Longrightarrow>
       uint g < uint (pr_per_node r) * (uint (lm_node_id lm) + 1) \<Longrightarrow>
       ps_at s g = Inr (lm_procs lm (m_preferred m) ! nat (uint g - uint (pr_per_node r) * uint (lm_node_id lm))) \<and>
       ps_total s = pr_count r"
proof -
  note o = m_only_preferred [OF assms(1)]
  obtain s where s: "lm_slice lm (m_only m [m_preferred m]) = Inr s"
    "\<And>g. ps_at s g =
      (if uint g \<in> procs_of r \<and> uint (pr_per_node r) * uint (lm_node_id lm) \<le> uint g \<and>
          uint g < uint (pr_per_node r) * (uint (lm_node_id lm) + 1)
       then Inr (lm_procs lm (m_preferred m) ! nat (uint g - uint (pr_per_node r) * uint (lm_node_id lm))) else Inl CheckFailed)"
    using lm_slice_correct [of "m_only m [m_preferred m]" r "length (lm_procs lm (m_preferred m))" lm] assms(2-4) o by auto
  have "s = ps_default \<or> ps_total s = pr_count r"
    using slice_span_total [of _ _ ps_default "m_only m [m_preferred m]" s r] s(1) o by (simp add: lm_slice_def Let_def)
  then have t: "ps_at s g = Inr proc \<Longrightarrow> ps_total s = pr_count r" for g proc using ps_at_default by auto
  show ?thesis
  proof (rule that [OF s(1)])
    fix g :: u32
    assume "uint g \<in> procs_of r" "uint (pr_per_node r) * uint (lm_node_id lm) \<le> uint g"
      "uint g < uint (pr_per_node r) * (uint (lm_node_id lm) + 1)"
    then have "ps_at s g = Inr (lm_procs lm (m_preferred m) ! nat (uint g - uint (pr_per_node r) * uint (lm_node_id lm)))"
      using s(2) by simp
    then show "ps_at s g = Inr (lm_procs lm (m_preferred m) ! nat (uint g - uint (pr_per_node r) * uint (lm_node_id lm))) \<and>
        ps_total s = pr_count r"
      using t by blast
  qed
qed

lemma node_bounds:
  assumes "(n :: int) = g div k" "0 < k"
  shows "k * n \<le> g" "g < k * (n + 1)"
proof -
  have "g = k * n + g mod k" using assms by simp
  moreover have "0 \<le> g mod k" "g mod k < k" using assms(2) by simp_all
  ultimately show "k * n \<le> g" "g < k * (n + 1)" by (simp_all add: distrib_left)
qed

text \<open>C18: The node that the sharding functor picks for a point has the processor that its mapper picks. Let every point of a
  slice project into the space of the launch, and let the functor have sent all of them to this node. Then slicing them
  never indexes outside the node's processors: each point gets the local processor whose global index is
  \<open>low + i * count / n\<close>, with \<open>i\<close> its linear index among \<open>n\<close> projected points.\<close>

theorem slice_task_local:
  assumes "project_point L f (dom_lo d) = Inr lo" "project_point L f (dom_hi d) = Inr hi" "lo \<noteq> []" "box_nonempty lo hi"
    "m_ranges m (m_preferred m) = Some r" "pr_wf r" "\<not> pr_empty r"
    "uint (pr_per_node r) = int (length (lm_procs lm (m_preferred m)))"
    "uint (pr_per_node r) * (uint (lm_node_id lm) + 1) < 2 ^ 32"
    "uint (pr_high r) \<le> uint tot * uint (pr_per_node r)" "box_volume lo hi * uint (pr_count r) < 2 ^ 63"
    "\<forall>p \<in> set points. \<exists>q. project_point L f p = Inr q \<and> in_box lo hi q \<and> legate_shard L f r p d tot = Inr (lm_node_id lm)"
  shows "\<exists>slices. slice_task L f False gm lm m d points = Inr slices \<and> map fst slices = points \<and>
    (\<forall>(p, proc) \<in> set slices. \<exists>q. project_point L f p = Inr q \<and>
       global_processor r lo hi q \<in> procs_of r \<and>
       uint (pr_per_node r) * uint (lm_node_id lm) \<le> global_processor r lo hi q \<and>
       global_processor r lo hi q < uint (pr_per_node r) * (uint (lm_node_id lm) + 1) \<and>
       proc = lm_procs lm (m_preferred m) ! nat (global_processor r lo hi q - uint (pr_per_node r) * uint (lm_node_id lm)))"
proof -
  let ?k = "uint (pr_per_node r)" and ?n = "uint (lm_node_id lm)"
  let ?proc = "\<lambda>q. lm_procs lm (m_preferred m) ! nat (global_processor r lo hi q - ?k * ?n)"
  have k: "0 < ?k" using assms(6) by (simp add: pr_wf_def u32_le_iff)
  obtain s where s: "lm_slice lm (m_only m [m_preferred m]) = Inr s"
    "\<And>g. uint g \<in> procs_of r \<Longrightarrow> ?k * ?n \<le> uint g \<Longrightarrow> uint g < ?k * (?n + 1) \<Longrightarrow>
       ps_at s g = Inr (lm_procs lm (m_preferred m) ! nat (uint g - ?k * ?n)) \<and> ps_total s = pr_count r"
    using local_range [OF assms(5,6,8,9)] by blast
  have "hi \<noteq> []" "length hi = length lo" using assms(3,4) by (auto simp: box_nonempty_def dest: list_all2_lengthD)
  then obtain l where l: "linearize lo hi hi = Inr l" by (simp add: linearize_def)
  obtain q where q: "\<And>p. p \<in> set points \<Longrightarrow> project_point L f p = Inr (q p) \<and> in_box lo hi (q p) \<and>
      legate_shard L f r p d tot = Inr (lm_node_id lm)"
    using assms(12) by metis
  have each: "global_processor r lo hi (q p) \<in> procs_of r \<and> ?k * ?n \<le> global_processor r lo hi (q p) \<and>
      global_processor r lo hi (q p) < ?k * (?n + 1) \<and>
      rbind (project_point L f p) (\<lambda>q. rbind (linearize lo hi q) (\<lambda>i. rguard (l + 1 \<noteq> 0) DivZero
        (let idx = i * ucast (ps_total s) div (l + 1) + ucast (pr_low r)
         in rbind (ps_at s (ucast idx)) (\<lambda>proc. Inr (p, proc))))) = Inr (p, ?proc (q p))"
    if p: "p \<in> set points" for p
  proof -
    note sp = slice_point [OF assms(1,2) conjunct1 [OF q [OF p]] _ assms(3,6,7,11,10), of "lm_node_id lm"]
    have g: "global_processor r lo hi (q p) \<in> procs_of r" "?n = global_processor r lo hi (q p) div ?k"
      using sp q [OF p] by blast+
    note b = node_bounds [OF g(2) k]
    obtain i where i: "linearize lo hi (q p) = Inr i" "l + 1 \<noteq> 0"
      "uint (ucast (i * ucast (pr_count r) div (l + 1) + ucast (pr_low r) :: u64) :: u32) = global_processor r lo hi (q p)"
      using sp(3) q [OF p] l by auto
    have "ps_at s (ucast (i * ucast (pr_count r) div (l + 1) + ucast (pr_low r))) = Inr (?proc (q p)) \<and> ps_total s = pr_count r"
      using s(2) g(1) b unfolding i(3) [symmetric] by blast
    then show ?thesis using g(1) b i(1,2) q [OF p] by (simp add: Let_def)
  qed
  have "slice_task L f False gm lm m d points = Inr (map (\<lambda>p. (p, ?proc (q p))) points)"
    unfolding slice_task_def slice_points_def Let_def
    using s(1) assms(1,2,5) l each by (simp add: processor_range_of_def Let_def rmapM_Inr)
  then show ?thesis using each q by (auto simp: o_def)
qed

text \<open>The second of three nodes with two processors each; the range leaves out the first node.\<close>

definition ex_range :: processor_range where
  "ex_range = \<lparr>pr_low = 2, pr_high = 6, pr_per_node = 2\<rparr>"

definition ex_local :: local_machine where
  "ex_local = \<lparr>lm_node_id = 1, lm_total_nodes = 3, lm_cpus = [20, 21], lm_gpus = [], lm_omps = [],
     lm_system_memory = \<lparr>mem_id = 0, mem_kind = SYSTEM_MEM, mem_capacity = 100\<rparr>, lm_zerocopy_memory = None,
     lm_frame_buffers = [], lm_socket_memories = [], lm_g2c_bandwidth = Map.empty\<rparr>"

lemma ex_machine: "m_preferred (mk_machine [CPU \<mapsto> ex_range]) = CPU" "m_ranges (mk_machine [CPU \<mapsto> ex_range]) CPU = Some ex_range"
  by (simp_all add: mk_machine_def map_entries_def task_targets_def pr_empty_def ex_range_def)

lemma ex_shards:
  "legate_shard std_legion IdentityProjection ex_range [0] \<lparr>dom_lo = [0], dom_hi = [5]\<rparr> 3 = Inr 1"
  "legate_shard std_legion IdentityProjection ex_range [2] \<lparr>dom_lo = [0], dom_hi = [5]\<rparr> 3 = Inr 1"
  by code_simp+

theorem slice_task_local_witness:
  "\<exists>slices. slice_task std_legion IdentityProjection False \<lparr>gm_cpus = [], gm_gpus = [], gm_omps = []\<rparr> ex_local
      (mk_machine [CPU \<mapsto> ex_range]) \<lparr>dom_lo = [0], dom_hi = [5]\<rparr> [[0], [2]] = Inr slices \<and> map fst slices = [[0], [2]]"
proof -
  let ?d = "\<lparr>dom_lo = [0], dom_hi = [5]\<rparr> :: domain" and ?m = "mk_machine [CPU \<mapsto> ex_range]"
  have h: "project_point std_legion IdentityProjection (dom_lo ?d) = Inr [0]"
    "project_point std_legion IdentityProjection (dom_hi ?d) = Inr [5]" "[0] \<noteq> ([] :: int list)" "box_nonempty [0] [5]"
    "m_ranges ?m (m_preferred ?m) = Some ex_range" "pr_wf ex_range" "\<not> pr_empty ex_range"
    "uint (pr_per_node ex_range) = int (length (lm_procs ex_local (m_preferred ?m)))"
    "uint (pr_per_node ex_range) * (uint (lm_node_id ex_local) + 1) < 2 ^ 32"
    "uint (pr_high ex_range) \<le> uint (3 :: u64) * uint (pr_per_node ex_range)"
    "box_volume [0] [5] * uint (pr_count ex_range) < 2 ^ 63"
    "\<forall>p \<in> set [[0], [2]]. \<exists>q. project_point std_legion IdentityProjection p = Inr q \<and> in_box [0] [5] q \<and>
       legate_shard std_legion IdentityProjection ex_range p ?d 3 = Inr (lm_node_id ex_local)"
    by (simp_all add: ex_machine ex_shards box_nonempty_def lm_procs_def)
      (simp_all add: ex_range_def ex_local_def pr_wf_def pr_empty_def pr_count_def)
  show ?thesis
    using slice_task_local [OF h, of "\<lparr>gm_cpus = [], gm_gpus = [], gm_omps = []\<rparr>"] by (elim exE conjE) (intro exI conjI)
qed

end
