(* ===== verification/Spec2Isabelle.thy ===== *)
theory Spec2Isabelle
  imports Legate_Prelude Geometry Symbolic Restriction Transform TransformStack TransformAffine
    TransformLinks TransformImaginary TransformSymbolic Tiling Machine Shard Solver SolverChains SolverCorrect PartitionManager LibraryIds
    Projections StoreProjection Types Buffers Serialization SerializationCorrect OrderedMap StoreAnalyzer StoreAnalyzerCorrect
    TaskArguments TaskArgumentsCorrect Stores ViewSource ViewCorners StoresCorrect Partitioner PartitionerCorrect
    Streaming StreamingDiscards StreamingCorrect FieldManager FieldManagerCorrect
    FieldManagerMatch FieldManagerAgree
    MapperPolicy MapperPolicyCorrect InstanceManager InstanceManagerCorrect InstanceCache MapperSlice
begin

text \<open>
  A model of the core of the Legate runtime: the C++ library under src/cpp/legate, which turns operations on
  distributed stores into launches of Legion. All file names below are relative to that directory.

  \<^bold>\<open>The program.\<close> A user creates logical stores, takes views of them (slices, projections, transposes), and submits
  operations that name stores and constraints on how they are partitioned. \<open>Runtime\<close> keeps the submitted operations in
  a window. A flush solves the constraints of each operation (\<open>ConstraintSolver\<close>), chooses a partition for each
  store and a launch domain (\<open>Partitioner\<close>, \<open>PartitionManager\<close>), coalesces the accesses into region
  requirements (\<open>StoreAnalyzer\<close>), packs the arguments and launches the task through Legion (\<open>TaskLauncher\<close>). Sharding
  functors choose the node of each point task, the mapper its processor and memory, from the machine model. The task
  unpacks its arguments and reaches the elements of a store through the affine map of its transforms. When a store
  dies, its field goes back to the field manager, which recycles fields in an order that all shards agree on.

  \<^bold>\<open>The model.\<close> Pure functions are functions, stateful code passes a record. Errors are values of \<open>result\<close>:
  an exception, a failed \<open>LEGATE_CHECK\<close> or an access outside a vector is \<open>Inl\<close>. Machine integers that can wrap are words
  (\<open>u64\<close>, \<open>u32\<close>); Legion's coordinates are integers, and \<open>in_i64\<close> says where a result has to fit 64 bits.
  Objects shared through pointers are addresses of a list (union-find entries, storages, region fields). Checks that
  only debug builds compile are part of the model. The theories, from the bottom up:

  \<^item> \<^bold>\<open>Legate_Prelude\<close>, \<^bold>\<open>OrderedMap\<close>: errors, results, vectors, ordered maps, and the lemmas all theories share.
  \<^item> \<^bold>\<open>Geometry\<close>: points, domains, \<open>linearize\<close> and \<open>delinearize\<close> (utilities/detail/linearize, tuple, unravel); the two
    functions are inverse to each other on a domain.
  \<^item> \<^bold>\<open>Symbolic\<close>: \<open>SymbolicExpr\<close> and the projection functors (operation/projection, runtime/detail/projection). A functor
    maps every point of a launch to the value of its symbolic point.
  \<^item> \<^bold>\<open>Restriction\<close>: \<open>Restrictions\<close> (partitioning/detail/restriction); a tiling satisfies a joined restriction iff it
    satisfies both.
  \<^item> \<^bold>\<open>Transform\<close>, \<^bold>\<open>TransformStack\<close>: the six transforms of a view and their stack (data/detail/transform), one definition
    per method. \<^bold>\<open>TransformAffine\<close> shows that the matrix the accessors use agrees with \<open>invert_point\<close>;
    \<^bold>\<open>TransformLinks\<close> that converting and inverting points, colors, shapes and extents are inverse;
    \<^bold>\<open>TransformImaginary\<close> what the imaginary dimensions are; \<^bold>\<open>TransformSymbolic\<close> that inverting a symbolic point names the
    color that inverting the color names, and that a view stays within its storage.
  \<^item> \<^bold>\<open>Tiling\<close>: the partitions (partitioning/detail/partition); the tiles of a partition are what its colors promise,
    inverted partitions cut the storage where the view is cut (delinearizations apart), tiles that the code calls disjoint are disjoint.
  \<^item> \<^bold>\<open>Machine\<close>: processor ranges, \<open>Machine\<close>, \<open>LocalMachine\<close>, \<open>GlobalMachine\<close> (mapping/detail/machine).
    \<^bold>\<open>Shard\<close>: the sharding functors (runtime/detail/shard); every point has one shard, and the inverse enumerates its points.
  \<^item> \<^bold>\<open>Solver\<close>, \<^bold>\<open>SolverChains\<close>, \<^bold>\<open>SolverCorrect\<close>: constraints and the solver (partitioning/detail/constraint,
    constraint_solver); the classes it computes are those of the reflexive, symmetric and transitive closure of the
    alignments, a class carries the restrictions of its members, and the solver returns (\<open>stores_ok\<close> has the
    conditions).
  \<^item> \<^bold>\<open>PartitionManager\<close>: how many pieces a store is cut into (runtime/detail/partition_manager, tuning/parallel_policy); the
    launch shape has at most as many pieces as asked for and the tiles cover the store.
  \<^item> \<^bold>\<open>LibraryIds\<close>, \<^bold>\<open>Projections\<close>: identifiers of libraries, and the tables of functors that the runtime creates on demand;
    an identifier means what its key says, and no request changes what an earlier one returned.
  \<^item> \<^bold>\<open>StoreProjection\<close>: the projection of a launch for a store agrees with the inversion of its colors.
  \<^item> \<^bold>\<open>Types\<close>, \<^bold>\<open>Buffers\<close>, \<^bold>\<open>Serialization\<close>, \<^bold>\<open>SerializationCorrect\<close>: element types (type/detail/types), the buffer
    builder and the deserializers (utilities/detail), and the formats of transforms, types, machines and scalars. What
    is packed is read back, at any alignment; reading arbitrary bytes ends.
  \<^item> \<^bold>\<open>StoreAnalyzer\<close>, \<^bold>\<open>StoreAnalyzerCorrect\<close>: region requirements (operation/detail/store_analyzer); the requirement at
    the index of an access covers it, with a privilege that suffices, and it is shown where a future map's index leads.
  \<^item> \<^bold>\<open>TaskArguments\<close>, \<^bold>\<open>TaskArgumentsCorrect\<close>: both sides of a launch (operation/detail/launcher_arg, task_launcher,
    utilities/detail/deserializer, mapping/detail/operation); the task and its mapper read the same stores
    and scalars, those of the launcher; where the code shifts the futures of a launch with barriers, the theorem says so.
  \<^item> \<^bold>\<open>Stores\<close>, \<^bold>\<open>ViewSource\<close>, \<^bold>\<open>ViewCorners\<close>, \<^bold>\<open>StoresCorrect\<close>: logical stores, storages and their partitions
    (data/detail); every view that \<open>reachable\<close> admits keeps its points within its storage, and views that share a
    point overlap. (Operations shown to leave the storage are excluded there.)
  \<^item> \<^bold>\<open>Partitioner\<close>, \<^bold>\<open>PartitionerCorrect\<close>: partitions and launch domain of an operation (partitioning/detail/partitioner,
    strategy, launch_domain_resolver); aligned bound stores get one partition, and the launch domain fits the first store of
    every class.
  \<^item> \<^bold>\<open>Streaming\<close>, \<^bold>\<open>StreamingDiscards\<close>, \<^bold>\<open>StreamingCorrect\<close>: the scheduling window and streaming scopes (runtime/detail/runtime,
    runtime/detail/streaming); for each field, tasks and discards keep their order, a
    streamable prefix is pointwise as far as the checkers compare partitions, and a flush in which no operation raises an
    exception launches what is left of the window.
  \<^item> \<^bold>\<open>FieldManager\<close>, \<^bold>\<open>FieldManagerCorrect\<close>, \<^bold>\<open>FieldManagerMatch\<close>, \<^bold>\<open>FieldManagerAgree\<close>: region fields, their recycling and the
    consensus matches (runtime/detail/field_manager, region_manager, data/detail/logical_region_field); no field backs
    two stores in use, identifiers stay within their bounds, and replicated shards make the same fields.
  \<^item> \<^bold>\<open>MapperPolicy\<close>, \<^bold>\<open>MapperPolicyCorrect\<close>: policies, layouts and the sorting of the mappings of a task (mapping/detail/mapping,
    store, base_mapper); every store of a task is mapped, and mappings of bound stores that share a region field agree.
  \<^item> \<^bold>\<open>InstanceManager\<close>, \<^bold>\<open>InstanceManagerCorrect\<close>, \<^bold>\<open>InstanceCache\<close>: the instance caches of a mapper (mapping/detail/instance_manager,
    base_mapper). Mappings in flight, failures and collections are the steps of \<open>cache_step\<close>; a cached instance fits its
    query, a flight can always fail, recording raises one exception at most (and when it cannot), a recorded instance is found
    and a collected one is not.
  \<^item> \<^bold>\<open>MapperSlice\<close>: how a mapper slices a launch; a point gets the processor that the sharding functor counted on.

  \<^bold>\<open>Bounds and fuel.\<close> Structural recursion and measures are used wherever the code's loop allows it. Fuel is taken by
  the loops that follow the links of the union-find (the number of entries; \<open>solve_constraints_total\<close>), by those that
  search for divisors and prime factors (\<open>launch_shape_correct\<close>), by the recursive unpacking functions (one unit
  for each byte left; \<open>unpack_total\<close>). Each of these theorems shows that the fuel
  suffices, so that the error \<open>Diverges\<close> is not a result of the code. No theorem bounds the size of an input except
  where a word would wrap, and then the bound is a hypothesis with a witness.

  \<^bold>\<open>Parameters.\<close> Legion is not part of the repository. What the code uses of it is an argument: the arithmetic of
  transforms (\<open>legion_ops\<close>), the enumeration of a domain, the order on domains, privilege values (\<open>privileges\<close>), the
  identifiers it hands out, the results of consensus matches (\<open>fe_agreed\<close>), the regions, instances and layouts of a mapper (\<open>inst_env\<close>). Hypotheses on these arguments state what
  Legion documents, and the witnesses instantiate them with concrete functions.

  \<^bold>\<open>Not modelled.\<close> Code that only forwards to Legion, Realm, MPI, UCC, NCCL, HDF5 or CUDA (comm, io, cuda, most of
  the launchers of copies and fills) has no behaviour of its own to state. The header templates of experimental/stl
  and of the accessors are instantiated by client code. Task bodies, their registration and their returned exceptions
  depend on the user's functions. Public handles (data, mapping, partitioning, runtime at the top level) forward to the
  classes of the detail directories, which are modelled. Start-up, shutdown, argument parsing, logging, profiling and
  printing are left out, as is the memory management of smart pointers: an object that is shared is an address, and
  it is not freed. Concurrency occurs only where the code allows it: between the shards of a replicated program, and between the mappings of a mapper, which Legion may interleave.
\<close>

end
